(* ===== verification/Prelude.thy ===== *)
theory Prelude
  imports Main "HOL-Library.Char_ord" "HOL-Library.List_Lexorder"
begin

text \<open>
  Shared vocabulary of the development: Rust strings as UTF-8 byte lists, the parts of
  \<^verbatim>\<open>str\<close> the crates use (characters, trimming, decimal printing), the ordered map behind
  every \<^verbatim>\<open>BTreeMap\<close>, and small list facts.  Nothing here is specific to one component.
\<close>

named_theorems omap_simps \<open>rewriting lookups and updates of ordered maps\<close>
named_theorems json_simps \<open>evaluating accessors of JSON values\<close>
named_theorems log_simps \<open>rewriting appends to a session log\<close>

section \<open>Strings\<close>

text \<open>
  A Rust \<^verbatim>\<open>String\<close> is its UTF-8 bytes, here a \<^typ>\<open>string\<close> (a list of 8-bit characters), so
  \<^verbatim>\<open>len\<close> is \<^const>\<open>length\<close>.  Characters (\<^verbatim>\<open>chars\<close>) are the groups of one leading byte and the
  continuation bytes that follow it.
\<close>

definition is_cont :: "char \<Rightarrow> bool" where
  "is_cont c \<longleftrightarrow> 128 \<le> (of_char c :: nat) \<and> (of_char c :: nat) < 192"

function utf8_chars :: "string \<Rightarrow> string list" where
  "utf8_chars [] = []"
| "utf8_chars (c # cs) = (c # takeWhile is_cont cs) # utf8_chars (dropWhile is_cont cs)"
  by pat_completeness auto
termination
  by (relation "measure length") (auto simp: length_dropWhile_le less_Suc_eq_le)

definition char_count :: "string \<Rightarrow> nat" where
  "char_count s = length (utf8_chars s)"

definition take_chars :: "nat \<Rightarrow> string \<Rightarrow> string" where
  "take_chars n s = concat (take n (utf8_chars s))"

definition drop_chars :: "nat \<Rightarrow> string \<Rightarrow> string" where
  "drop_chars n s = concat (drop n (utf8_chars s))"

lemma concat_utf8_chars [simp]: "concat (utf8_chars s) = s"
  by (induction s rule: utf8_chars.induct) auto

lemma char_count_Nil [simp]: "char_count [] = 0"
  by (simp add: char_count_def)

lemma char_count_le_length: "char_count s \<le> length s"
proof (induction s rule: utf8_chars.induct)
  case (2 c cs)
  then show ?case
    using length_dropWhile_le [of is_cont cs] by (simp add: char_count_def)
qed simp

lemma span_cont:
  assumes "\<forall>x\<in>set cs. is_cont x"
  shows "takeWhile is_cont cs = cs" and "dropWhile is_cont cs = []"
  using assms by (induction cs) auto

lemma utf8_chars_append:
  assumes "ys = [] \<or> \<not> is_cont (hd ys)"
  shows "utf8_chars (xs @ ys) = utf8_chars xs @ utf8_chars ys"
proof (induction xs rule: utf8_chars.induct)
  case (2 c cs)
  show ?case
  proof (cases "dropWhile is_cont cs = []")
    case True
    then have all: "\<forall>x\<in>set cs. is_cont x" by (simp add: dropWhile_eq_Nil_conv)
    then have "takeWhile is_cont (cs @ ys) = cs @ takeWhile is_cont ys"
      and "dropWhile is_cont (cs @ ys) = dropWhile is_cont ys"
      by (simp_all add: takeWhile_append2 dropWhile_append2)
    moreover have "takeWhile is_cont ys = []" and "dropWhile is_cont ys = ys"
      using assms by (cases ys; simp)+
    ultimately show ?thesis using all by (simp add: span_cont)
  next
    case False
    then obtain x where "x \<in> set cs" and "\<not> is_cont x"
      by (auto simp: dropWhile_eq_Nil_conv)
    then have "takeWhile is_cont (cs @ ys) = takeWhile is_cont cs"
      and "dropWhile is_cont (cs @ ys) = dropWhile is_cont cs @ ys"
      by (auto simp: takeWhile_append1 dropWhile_append1)
    with "2.IH" show ?thesis by simp
  qed
qed simp

lemma utf8_chars_heads:
  "\<forall>x\<in>set (utf8_chars s). x \<noteq> [] \<and> (\<forall>y\<in>set (tl x). is_cont y)"
  by (induction s rule: utf8_chars.induct) (auto dest: set_takeWhileD)

lemma utf8_chars_tail_starts:
  "\<forall>x\<in>set (tl (utf8_chars s)). \<not> is_cont (hd x)"
proof (induction s rule: utf8_chars.induct)
  case (2 c cs)
  show ?case
  proof (cases "dropWhile is_cont cs")
    case Nil
    then show ?thesis by (simp only: utf8_chars.simps list.sel) simp
  next
    case (Cons d ds)
    then have "\<not> is_cont d"
      by (metis hd_dropWhile list.distinct(1) list.sel(1))
    with 2 Cons show ?thesis by auto
  qed
qed simp

lemma utf8_chars_concat_drop:
  assumes "0 < n"
  shows "utf8_chars (concat (drop n (utf8_chars s))) = drop n (utf8_chars s)"
proof -
  have *: "utf8_chars (concat xs) = xs"
    if "\<forall>x\<in>set xs. x \<noteq> [] \<and> (\<forall>y\<in>set (tl x). is_cont y) \<and> \<not> is_cont (hd x)" for xs
    using that
  proof (induction xs)
    case (Cons x xs)
    then obtain c cs where x: "x = c # cs" by (cases x) auto
    have rest: "concat xs = [] \<or> \<not> is_cont (hd (concat xs))"
      using Cons.prems by (cases xs) (auto simp: hd_append)
    have "utf8_chars x = [x]"
      using Cons.prems x by (simp add: span_cont)
    then show ?case
      using utf8_chars_append [OF rest, of x] Cons by simp
  qed simp
  have "set (drop n (utf8_chars s)) \<subseteq> set (tl (utf8_chars s))"
    using assms using set_drop_subset [of "n - 1" "tl (utf8_chars s)"] by (cases n) (simp_all add: drop_Suc)
  moreover have "set (tl (utf8_chars s)) \<subseteq> set (utf8_chars s)"
    by (cases "utf8_chars s") auto
  ultimately show ?thesis
    by (intro *) (use utf8_chars_heads [of s] utf8_chars_tail_starts [of s] in blast)
qed

subsection \<open>Whitespace and trimming\<close>

text \<open>
  \<^verbatim>\<open>char::is_whitespace\<close> is the Unicode \<^verbatim>\<open>White_Space\<close> property: the code points U+0009 to
  U+000D, U+0020, U+0085, U+00A0, U+1680, U+2000 to U+200A, U+2028, U+2029, U+202F, U+205F
  and U+3000, written here by their UTF-8 bytes.
\<close>

definition is_white :: "string \<Rightarrow> bool" where
  "is_white x \<longleftrightarrow>
     (case map (of_char :: char \<Rightarrow> nat) x of
        [a] \<Rightarrow> 9 \<le> a \<and> a \<le> 13 \<or> a = 32
      | [a, b] \<Rightarrow> a = 194 \<and> (b = 133 \<or> b = 160)
      | [a, b, c] \<Rightarrow>
          a = 225 \<and> b = 154 \<and> c = 128
          \<or> a = 226 \<and> b = 128 \<and> (128 \<le> c \<and> c \<le> 138 \<or> c = 168 \<or> c = 169 \<or> c = 175)
          \<or> a = 226 \<and> b = 129 \<and> c = 159
          \<or> a = 227 \<and> b = 128 \<and> c = 128
      | _ \<Rightarrow> False)"

definition trim_start :: "string \<Rightarrow> string" where
  "trim_start s = concat (dropWhile is_white (utf8_chars s))"

definition trim_end :: "string \<Rightarrow> string" where
  "trim_end s = concat (rev (dropWhile is_white (rev (utf8_chars s))))"

definition trim :: "string \<Rightarrow> string" where
  "trim s = trim_start (trim_end s)"

lemma trim_Nil [simp]: "trim [] = []"
  by (simp add: trim_def trim_start_def trim_end_def)

text \<open>Well-formed UTF-8, the test of \<^verbatim>\<open>std::str::from_utf8\<close> (Unicode Table 3-7).\<close>

definition byte_in :: "nat \<Rightarrow> nat \<Rightarrow> char \<Rightarrow> bool" where
  "byte_in lo hi c \<longleftrightarrow> lo \<le> (of_char c :: nat) \<and> (of_char c :: nat) \<le> hi"

fun valid_utf8 :: "string \<Rightarrow> bool" where
  "valid_utf8 [] = True"
| "valid_utf8 (a # s) =
     (if byte_in 0 127 a then valid_utf8 s
      else if byte_in 194 223 a then
        (case s of b # t \<Rightarrow> is_cont b \<and> valid_utf8 t | _ \<Rightarrow> False)
      else if byte_in 224 239 a then
        (case s of b # c # t \<Rightarrow>
           (if byte_in 224 224 a then byte_in 160 191 b
            else if byte_in 237 237 a then byte_in 128 159 b else is_cont b)
           \<and> is_cont c \<and> valid_utf8 t
         | _ \<Rightarrow> False)
      else if byte_in 240 244 a then
        (case s of b # c # d # t \<Rightarrow>
           (if byte_in 240 240 a then byte_in 144 191 b
            else if byte_in 244 244 a then byte_in 128 143 b else is_cont b)
           \<and> is_cont c \<and> is_cont d \<and> valid_utf8 t
         | _ \<Rightarrow> False)
      else False)"

subsection \<open>Decimal numbers\<close>

definition digit_char :: "nat \<Rightarrow> char" where
  "digit_char d = char_of (48 + d)"

fun show_nat :: "nat \<Rightarrow> string" where
  "show_nat n = (if n < 10 then [digit_char n] else show_nat (n div 10) @ [digit_char (n mod 10)])"

declare show_nat.simps [simp del]

definition read_nat :: "string \<Rightarrow> nat" where
  "read_nat s = foldl (\<lambda>n c. 10 * n + (of_char c - 48)) 0 s"

lemma of_char_digit_char: "d < 10 \<Longrightarrow> (of_char (digit_char d) :: nat) = 48 + d"
  by (simp add: digit_char_def)

lemma read_show_nat [simp]: "read_nat (show_nat n) = n"
proof (induction n rule: show_nat.induct)
  case (1 n)
  show ?case
  proof (cases "n < 10")
    case True
    then show ?thesis
      by (subst show_nat.simps) (simp add: read_nat_def of_char_digit_char)
  next
    case False
    with 1 have "read_nat (show_nat (n div 10)) = n div 10" by simp
    with False show ?thesis
      by (subst show_nat.simps) (simp add: read_nat_def of_char_digit_char)
  qed
qed

lemma show_nat_inject [simp]: "show_nat m = show_nat n \<longleftrightarrow> m = n"
  by (metis read_show_nat)

section \<open>Ordered maps\<close>

text \<open>
  A \<^verbatim>\<open>BTreeMap\<close> is an association list kept in strictly increasing key order, so that
  \<^verbatim>\<open>values\<close> and \<^verbatim>\<open>keys\<close> iterate as the code's do.  Lookup is \<^const>\<open>map_of\<close>.
\<close>

type_synonym ('k, 'v) omap = "('k \<times> 'v) list"

fun om_insert :: "'k::linorder \<Rightarrow> 'v \<Rightarrow> ('k, 'v) omap \<Rightarrow> ('k, 'v) omap" where
  "om_insert k v [] = [(k, v)]"
| "om_insert k v ((a, b) # m) =
     (if k < a then (k, v) # (a, b) # m
      else if k = a then (k, v) # m
      else (a, b) # om_insert k v m)"

definition om_remove :: "'k \<Rightarrow> ('k, 'v) omap \<Rightarrow> ('k, 'v) omap" where
  "om_remove k m = filter (\<lambda>p. fst p \<noteq> k) m"

definition om_wf :: "('k::linorder, 'v) omap \<Rightarrow> bool" where
  "om_wf m \<longleftrightarrow> sorted_wrt (<) (map fst m)"

lemma om_wf_Nil [simp]: "om_wf []"
  by (simp add: om_wf_def)

lemma map_of_om_insert [simp, omap_simps]: "map_of (om_insert k v m) = (map_of m)(k \<mapsto> v)"
  by (induction k v m rule: om_insert.induct) auto

lemma map_of_om_remove [simp, omap_simps]: "map_of (om_remove k m) = (map_of m)(k := None)"
  by (induction m) (auto simp: om_remove_def)

lemma keys_om_insert [simp, omap_simps]: "fst ` set (om_insert k v m) = insert k (fst ` set m)"
  by (induction k v m rule: om_insert.induct) auto

lemma om_wf_insert: "om_wf m \<Longrightarrow> om_wf (om_insert k v m)"
proof (induction k v m rule: om_insert.induct)
  case (2 k v a b m)
  have "x \<in> set (map fst (om_insert k v m)) \<longleftrightarrow> x = k \<or> x \<in> set (map fst m)" for x
    using keys_om_insert [of k v m] by (metis insert_iff list.set_map)
  with 2 show ?case
    by (auto simp: om_wf_def intro: less_trans)
qed (simp add: om_wf_def)

lemma om_wf_remove: "om_wf m \<Longrightarrow> om_wf (om_remove k m)"
  by (auto simp: om_wf_def om_remove_def sorted_wrt_map intro: sorted_wrt_filter)

lemma om_wf_distinct: "om_wf m \<Longrightarrow> distinct (map fst m)"
  unfolding om_wf_def by (induction m) auto

lemma om_wf_map_of_iff: "om_wf m \<Longrightarrow> map_of m k = Some v \<longleftrightarrow> (k, v) \<in> set m"
  by (metis om_wf_distinct map_of_eq_Some_iff)

text \<open>Two well-formed maps with the same lookups are the same list.\<close>

lemma om_wf_ext:
  assumes "om_wf m" and "om_wf m'" and "map_of m = map_of m'"
  shows "m = m'"
proof (rule map_sorted_distinct_set_unique [of fst])
  show "inj_on fst (set m \<union> set m')"
    using assms by (auto simp: inj_on_def dest!: om_wf_map_of_iff [THEN iffD2, rotated])
  show "sorted (map fst m)" and "sorted (map fst m')"
    using assms unfolding om_wf_def by (auto simp: strict_sorted_iff)
  show "distinct (map fst m)" and "distinct (map fst m')"
    using assms by (simp_all add: om_wf_distinct)
  show "set m = set m'"
    using assms by (auto simp: om_wf_map_of_iff [symmetric])
qed

section \<open>Lists\<close>

text \<open>The index of the first element that satisfies a test (\<^verbatim>\<open>Iterator::position\<close>).\<close>

fun position :: "('a \<Rightarrow> bool) \<Rightarrow> 'a list \<Rightarrow> nat option" where
  "position P [] = None"
| "position P (x # xs) = (if P x then Some 0 else map_option Suc (position P xs))"

lemma position_None_iff: "position P xs = None \<longleftrightarrow> (\<forall>x\<in>set xs. \<not> P x)"
  by (induction xs) auto

lemma position_SomeD: "position P xs = Some i \<Longrightarrow> i < length xs \<and> P (xs ! i) \<and> (\<forall>j<i. \<not> P (xs ! j))"
proof (induction xs arbitrary: i)
  case (Cons x xs)
  then show ?case
    by (auto split: if_splits simp: nth_Cons' less_Suc_eq_0_disj) 
qed simp

definition find_last :: "('a \<Rightarrow> bool) \<Rightarrow> 'a list \<Rightarrow> 'a option" where
  "find_last P xs = List.find P (rev xs)"

lemma find_last_snoc [simp]:
  "find_last P (xs @ [x]) = (if P x then Some x else find_last P xs)"
  by (simp add: find_last_def)

lemma find_last_Nil [simp]: "find_last P [] = None"
  by (simp add: find_last_def)

lemma find_last_None_iff: "find_last P xs = None \<longleftrightarrow> (\<forall>x\<in>set xs. \<not> P x)"
  by (auto simp: find_last_def find_None_iff)

section \<open>Joined text\<close>

fun join :: "string \<Rightarrow> string list \<Rightarrow> string" where
  "join sep [] = []"
| "join sep [x] = x"
| "join sep (x # xs) = x @ sep @ join sep xs"

end
