(* ===== verification/Line_Store.thy ===== *)
theory Line_Store
  imports Prelude
begin

text \<open>
  The crash discipline every journal file of the workspace follows (the session journal, the
  job log and the schedule log): one encoded record per line, the newline as the commit, a torn
  tail dropped when the file is read back and a damaged committed line refused.  The three
  scanners of the sources are instances of \<open>scan_bytes\<close>; the codec (\<^verbatim>\<open>serde_json\<close>) is a
  parameter, and what the code relies on of it is the predicate \<open>codec_on\<close>.
\<close>

abbreviation newline :: char where
  "newline \<equiv> CHR 0x0A"

section \<open>Writing one line\<close>

text \<open>
  What the operating system did with \<^verbatim>\<open>writeln!\<close> followed by \<^verbatim>\<open>sync_data\<close>: all of it, a prefix
  of the line before an error, or the whole line followed by a failed sync.
\<close>

datatype write_outcome = Written | TornAt nat | NotSynced

fun write_line :: "write_outcome \<Rightarrow> string \<Rightarrow> string \<Rightarrow> bool \<times> string" where
  "write_line Written file line = (True, file @ line @ [newline])"
| "write_line (TornAt n) file line = (False, file @ take n line)"
| "write_line NotSynced file line = (False, file @ line @ [newline])"

lemma write_line_True:
  "write_line w file line = (True, file') \<longleftrightarrow> w = Written \<and> file' = file @ line @ [newline]"
  by (cases w) auto

section \<open>Reading a file back\<close>

text \<open>\<^verbatim>\<open>bytes.split_inclusive(|byte| *byte == b'\n')\<close>.\<close>

fun split_inclusive :: "string \<Rightarrow> string list" where
  "split_inclusive [] = []"
| "split_inclusive (c # cs) =
     (if c = newline then [c] # split_inclusive cs
      else (case split_inclusive cs of [] \<Rightarrow> [[c]] | l # ls \<Rightarrow> (c # l) # ls))"

text \<open>
  One pass over the lines: the folded state and the number of committed bytes, or the number
  of the line that does not parse.
\<close>

fun scan_lines ::
  "(string \<Rightarrow> 'c option) \<Rightarrow> ('s \<Rightarrow> 'c \<Rightarrow> 's) \<Rightarrow> nat \<Rightarrow> 's \<Rightarrow> nat \<Rightarrow> string list \<Rightarrow> nat + 's \<times> nat"
where
  "scan_lines dec f i s n [] = Inr (s, n)"
| "scan_lines dec f i s n (l # ls) =
     (if l = [] \<or> last l \<noteq> newline then Inr (s, n)
      else if \<not> valid_utf8 (butlast l) then Inl (i + 1)
      else if trim (butlast l) = [] then scan_lines dec f (i + 1) s (n + length l) ls
      else (case dec (trim (butlast l)) of
              None \<Rightarrow> Inl (i + 1)
            | Some c \<Rightarrow> scan_lines dec f (i + 1) (f s c) (n + length l) ls))"

definition scan_bytes :: "(string \<Rightarrow> 'c option) \<Rightarrow> ('s \<Rightarrow> 'c \<Rightarrow> 's) \<Rightarrow> 's \<Rightarrow> string \<Rightarrow> nat + 's \<times> nat" where
  "scan_bytes dec f s0 bytes = scan_lines dec f 0 s0 0 (split_inclusive bytes)"

section \<open>What the code relies on of the codec\<close>

definition codec_on :: "('c \<Rightarrow> string) \<Rightarrow> (string \<Rightarrow> 'c option) \<Rightarrow> 'c set \<Rightarrow> bool" where
  "codec_on enc dec C \<longleftrightarrow>
     (\<forall>c\<in>C. dec (enc c) = Some c \<and> enc c \<noteq> [] \<and> newline \<notin> set (enc c)
            \<and> valid_utf8 (enc c) \<and> trim (enc c) = enc c)"

definition encode_all :: "('c \<Rightarrow> string) \<Rightarrow> 'c list \<Rightarrow> string" where
  "encode_all enc cs = concat (map (\<lambda>c. enc c @ [newline]) cs)"

lemma encode_all_simps [simp]:
  "encode_all enc [] = []"
  "encode_all enc (c # cs) = enc c @ newline # encode_all enc cs"
  "encode_all enc (cs @ ds) = encode_all enc cs @ encode_all enc ds"
  by (simp_all add: encode_all_def)

text \<open>
  The sources' encoder may fail (\<^verbatim>\<open>to_string\<close> answers a \<^verbatim>\<open>Result\<close>); on the records of interest it
  does not, and its lines satisfy \<open>codec_on\<close>.
\<close>

definition codec_ok :: "('c \<Rightarrow> string option) \<Rightarrow> (string \<Rightarrow> 'c option) \<Rightarrow> 'c set \<Rightarrow> bool" where
  "codec_ok enc dec C \<longleftrightarrow> (\<forall>c\<in>C. enc c \<noteq> None) \<and> codec_on (\<lambda>c. the (enc c)) dec C"

abbreviation encode_log :: "('c \<Rightarrow> string option) \<Rightarrow> 'c list \<Rightarrow> string" where
  "encode_log enc \<equiv> encode_all (\<lambda>c. the (enc c))"

text \<open>What reading a file answers, and which of the other system calls of an open succeed.\<close>

datatype read_result = NotFound | ReadFailed | Bytes string

record open_env =
  env_dir_ok :: bool
  env_read :: read_result
  env_open_ok :: bool
  env_meta_ok :: bool
  env_trunc_ok :: bool

definition found_bytes :: "read_result \<Rightarrow> string" where
  "found_bytes r = (case r of Bytes b \<Rightarrow> b | _ \<Rightarrow> [])"

definition calm :: "string \<Rightarrow> open_env" where
  "calm b = \<lparr>env_dir_ok = True, env_read = Bytes b, env_open_ok = True, env_meta_ok = True,
             env_trunc_ok = True\<rparr>"

lemma calm_simps [simp]:
  "env_dir_ok (calm b)" "env_read (calm b) = Bytes b" "env_open_ok (calm b)"
  "env_meta_ok (calm b)" "env_trunc_ok (calm b)"
  by (simp_all add: calm_def)

lemma found_bytes_simps [simp]:
  "found_bytes (Bytes b) = b" "found_bytes NotFound = []" "found_bytes ReadFailed = []"
  by (simp_all add: found_bytes_def)

lemma codec_ok_subset: "codec_ok enc dec C \<Longrightarrow> D \<subseteq> C \<Longrightarrow> codec_ok enc dec D"
  by (auto simp: codec_ok_def codec_on_def)

lemma codec_on_subset: "codec_on enc dec C \<Longrightarrow> D \<subseteq> C \<Longrightarrow> codec_on enc dec D"
  by (auto simp: codec_on_def)

lemma split_inclusive_line:
  "newline \<notin> set l \<Longrightarrow> split_inclusive (l @ newline # rest) = (l @ [newline]) # split_inclusive rest"
  by (induction l) auto

lemma split_inclusive_tail:
  "newline \<notin> set l \<Longrightarrow> split_inclusive l = (if l = [] then [] else [l])"
  by (induction l) auto

lemma concat_split_inclusive [simp]: "concat (split_inclusive bs) = bs"
  by (induction bs rule: split_inclusive.induct) (auto split: list.splits)

section \<open>Crash consistency\<close>

lemma scan_lines_encoded:
  assumes "codec_on enc dec (set cs)" and "newline \<notin> set tail"
  shows "scan_lines dec f i s n (split_inclusive (encode_all enc cs @ tail))
         = Inr (foldl f s cs, n + length (encode_all enc cs))"
  using assms(1)
proof (induction cs arbitrary: i s n)
  case Nil
  have "tail \<noteq> [] \<Longrightarrow> last tail \<noteq> newline"
    using assms(2) by (metis last_in_set)
  then show ?case
    using assms(2) by (simp add: split_inclusive_tail)
next
  case (Cons c cs)
  then have c: "dec (enc c) = Some c" "enc c \<noteq> []" "newline \<notin> set (enc c)"
      "valid_utf8 (enc c)" "trim (enc c) = enc c"
    and rest: "codec_on enc dec (set cs)"
    by (auto simp: codec_on_def)
  have "split_inclusive (encode_all enc (c # cs) @ tail)
        = (enc c @ [newline]) # split_inclusive (encode_all enc cs @ tail)"
    using split_inclusive_line [OF c(3)] by simp
  then show ?case
    using c Cons.IH [OF rest] by (simp add: add.assoc)
qed

text \<open>A file that ends in a half-written line reads as if that line had never been started.\<close>

lemma scan_bytes_torn:
  assumes "codec_on enc dec (set cs)" and "newline \<notin> set tail"
  shows "scan_bytes dec f s (encode_all enc cs @ tail) = Inr (foldl f s cs, length (encode_all enc cs))"
  using scan_lines_encoded [OF assms, of f 0 s 0] by (simp add: scan_bytes_def)

lemma scan_bytes_encoded:
  assumes "codec_on enc dec (set cs)"
  shows "scan_bytes dec f s (encode_all enc cs) = Inr (foldl f s cs, length (encode_all enc cs))"
  using scan_bytes_torn [OF assms, of "[]"] by simp

text \<open>Any prefix of a journal file is some whole records and the beginning of the next one.\<close>

lemma take_encode_all:
  "\<exists>j tail. j \<le> length cs \<and> take k (encode_all enc cs) = encode_all enc (take j cs) @ tail
     \<and> (\<exists>rest. tail @ rest = (if j < length cs then enc (cs ! j) else []))"
proof (induction cs arbitrary: k)
  case (Cons c cs)
  show ?case
  proof (cases "k \<le> length (enc c)")
    case True
    then have "take k (encode_all enc (c # cs)) = take k (enc c)" by simp
    moreover have "\<exists>rest. take k (enc c) @ rest = enc c"
      by (rule exI [of _ "drop k (enc c)"]) simp
    ultimately show ?thesis
      by (intro exI [of _ 0] exI [of _ "take k (enc c)"]) simp
  next
    case False
    then obtain k' where k: "k = length (enc c) + Suc k'"
      by (metis add_Suc_right less_imp_Suc_add not_le)
    obtain j tail rest where "j \<le> length cs"
      and "take k' (encode_all enc cs) = encode_all enc (take j cs) @ tail"
      and "tail @ rest = (if j < length cs then enc (cs ! j) else [])"
      using Cons.IH [of k'] by blast
    then show ?thesis
      by (intro exI [of _ "Suc j"] exI [of _ tail]) (auto simp: k)
  qed
qed simp

lemma scan_bytes_crash:
  assumes "codec_on enc dec (set cs)"
  shows "\<exists>j \<le> length cs. scan_bytes dec f s (take k (encode_all enc cs))
           = Inr (foldl f s (take j cs), length (encode_all enc (take j cs)))
         \<and> take (length (encode_all enc (take j cs))) (take k (encode_all enc cs))
           = encode_all enc (take j cs)"
proof -
  obtain j tail rest where j: "j \<le> length cs"
    and t: "take k (encode_all enc cs) = encode_all enc (take j cs) @ tail"
    and r: "tail @ rest = (if j < length cs then enc (cs ! j) else [])"
    using take_encode_all [of cs k enc] by blast
  have "newline \<notin> set tail"
  proof (cases "j < length cs")
    case True
    then have "cs ! j \<in> set cs" by simp
    with assms have "newline \<notin> set (enc (cs ! j))" by (auto simp: codec_on_def)
    with r True show ?thesis by (metis Un_iff set_append)
  qed (use r in auto)
  moreover have "codec_on enc dec (set (take j cs))"
    using assms by (rule codec_on_subset) (rule set_take_subset)
  ultimately show ?thesis
    using j scan_bytes_torn [of enc dec "take j cs" tail f s] by (auto simp: t)
qed

text \<open>Appending one more whole record to a scanned file folds exactly that record in.\<close>

lemma scan_bytes_snoc:
  assumes "codec_on enc dec (insert c (set cs))"
  shows "scan_bytes dec f s (encode_all enc cs @ enc c @ [newline])
         = Inr (f (foldl f s cs) c, length (encode_all enc cs) + length (enc c) + 1)"
  using scan_bytes_encoded [of enc dec "cs @ [c]" f s] assms by simp

text \<open>
  Appending after a torn line splices two records into one: the line that results is what the
  decoder is asked to read.
\<close>

lemma scan_bytes_spliced:
  assumes "codec_on enc dec (set cs)" and "newline \<notin> set torn" and "newline \<notin> set l"
    and "valid_utf8 (torn @ l)" and "trim (torn @ l) \<noteq> []" and "dec (trim (torn @ l)) = None"
  shows "scan_bytes dec f s ((encode_all enc cs @ torn) @ l @ [newline]) = Inl (length cs + 1)"
proof -
  have "scan_lines dec f i s n (split_inclusive (encode_all enc cs @ torn @ l @ [newline]))
        = Inl (i + length cs + 1)" for i s n
    using assms(1)
  proof (induction cs arbitrary: i s n)
    case Nil
    have "newline \<notin> set (torn @ l)" using assms by simp
    from split_inclusive_line [OF this, of "[]"] show ?case
      using assms by (simp add: butlast_append)
  next
    case (Cons c cs)
    then have c: "dec (enc c) = Some c" "enc c \<noteq> []" "newline \<notin> set (enc c)"
        "valid_utf8 (enc c)" "trim (enc c) = enc c"
      and rest: "codec_on enc dec (set cs)"
      by (auto simp: codec_on_def)
    have "split_inclusive (encode_all enc (c # cs) @ torn @ l @ [newline])
          = (enc c @ [newline]) # split_inclusive (encode_all enc cs @ torn @ l @ [newline])"
      using split_inclusive_line [OF c(3)] by simp
    then show ?case
      using c Cons.IH [OF rest] by simp
  qed
  from this [of 0 s 0] show ?thesis by (simp add: scan_bytes_def)
qed

section \<open>Stores folded from a log of changes\<close>

text \<open>
  The job store and the schedule store fold a log of changes, each naming one record, into an
  ordered map.  The interface: a change touches only the record it names.  What follows is that
  a record's state is the fold of its own changes alone, whatever else the log holds.
\<close>

locale keyed_fold =
  fixes apply_change :: "('k::linorder, 'v) omap \<Rightarrow> 'c \<Rightarrow> ('k, 'v) omap"
    and key_of :: "'c \<Rightarrow> 'k"
    and on_one :: "'v option \<Rightarrow> 'c \<Rightarrow> 'v option"
  assumes change_own: "map_of (apply_change m c) (key_of c) = on_one (map_of m (key_of c)) c"
    and change_other: "k \<noteq> key_of c \<Longrightarrow> map_of (apply_change m c) k = map_of m k"
    and change_wf: "om_wf m \<Longrightarrow> om_wf (apply_change m c)"
begin

lemma fold_wf: "om_wf m \<Longrightarrow> om_wf (foldl apply_change m cs)"
  by (induction cs arbitrary: m) (simp_all add: change_wf)

lemma fold_own:
  "map_of (foldl apply_change m cs) k = foldl on_one (map_of m k) (filter (\<lambda>c. key_of c = k) cs)"
  by (induction cs arbitrary: m) (auto simp: change_own change_other)

lemma fold_invariant:
  assumes step: "\<And>v c. c \<in> set cs \<Longrightarrow> key_of c = k \<Longrightarrow> P v \<Longrightarrow> pred_option P (on_one (Some v) c)"
    and new: "\<And>c. c \<in> set cs \<Longrightarrow> key_of c = k \<Longrightarrow> pred_option P (on_one None c)"
    and init: "pred_option P (map_of m k)"
  shows "pred_option P (map_of (foldl apply_change m cs) k)"
proof -
  have "pred_option P (foldl on_one o1 ds)"
    if "pred_option P o1" and "\<forall>c\<in>set ds. c \<in> set cs \<and> key_of c = k" for o1 ds
    using that
  proof (induction ds arbitrary: o1)
    case (Cons c ds)
    then have "pred_option P (on_one o1 c)"
      using step new by (cases o1) auto
    with Cons show ?case by simp
  qed simp
  from this [OF init, of "filter (\<lambda>c. key_of c = k) cs"] show ?thesis
    by (simp add: fold_own)
qed

end

end
