(* ===== verification/Jobs.thy ===== *)
theory Jobs
  imports Line_Store "HOL-Library.Product_Lexorder"
begin

text \<open>
  The durable job registry of \<^verbatim>\<open>crates/core/src/jobs.rs\<close>: the status machine, the transitions
  of the log and their fold, and every operation of \<^verbatim>\<open>JobStore\<close>.  The clock and the outcome of
  each write are arguments; \<open>enc\<close> and \<open>dec\<close> are the JSON codec of a transition.
\<close>

section \<open>Data\<close>

datatype job_status = Queued | Running | Completed | Cancelled | Failed | Interrupted

fun is_terminal :: "job_status \<Rightarrow> bool" where
  "is_terminal Queued = False"
| "is_terminal Running = False"
| "is_terminal _ = True"

record job =
  job_id :: string
  job_kind :: string
  job_label :: string
  job_session :: "string option"
  job_status :: job_status
  job_detail :: "string option"
  job_output :: "string option"
  queued_at :: nat
  started_at :: "nat option"
  finished_at :: "nat option"

definition is_live :: "job \<Rightarrow> bool" where
  "is_live j \<longleftrightarrow> \<not> is_terminal (job_status j)"

datatype job_change =
    Queue string string "string option"
  | Start
  | Finish job_status "string option" "string option"

record transition =
  tr_id :: string
  tr_at :: nat
  tr_change :: job_change

datatype job_error =
    Unreadable
  | Unwritable
  | CorruptLog nat
  | NoSuchJob string
  | DuplicateJob string
  | AlreadyEnded string job_status
  | NotStartable string job_status
  | BadName string string

record job_store =
  job_file :: string
  jobs :: "(string, job) omap"
  minted :: nat

section \<open>The fold\<close>

definition new_job :: "transition \<Rightarrow> string \<Rightarrow> string \<Rightarrow> string option \<Rightarrow> job" where
  "new_job t kind label session =
     \<lparr>job_id = tr_id t, job_kind = kind, job_label = label, job_session = session,
      job_status = Queued, job_detail = None, job_output = None, queued_at = tr_at t,
      started_at = None, finished_at = None\<rparr>"

fun or_else :: "'a option \<Rightarrow> 'a option \<Rightarrow> 'a option" where
  "or_else (Some x) _ = Some x"
| "or_else None y = y"

definition fold_job :: "(string, job) omap \<Rightarrow> transition \<Rightarrow> (string, job) omap" where
  "fold_job js t =
     (case tr_change t of
        Queue kind label session \<Rightarrow>
          (case map_of js (tr_id t) of
             Some _ \<Rightarrow> js
           | None \<Rightarrow> om_insert (tr_id t) (new_job t kind label session) js)
      | Start \<Rightarrow>
          (case map_of js (tr_id t) of
             None \<Rightarrow> js
           | Some j \<Rightarrow> om_insert (tr_id t) (j\<lparr>job_status := Running, started_at := Some (tr_at t)\<rparr>) js)
      | Finish status detail output \<Rightarrow>
          (case map_of js (tr_id t) of
             None \<Rightarrow> js
           | Some j \<Rightarrow> om_insert (tr_id t)
               (j\<lparr>job_status := status, finished_at := Some (tr_at t),
                  job_detail := or_else detail (job_detail j),
                  job_output := or_else output (job_output j)\<rparr>) js))"

text \<open>What one transition does to the job it names.\<close>

definition fold_one :: "job option \<Rightarrow> transition \<Rightarrow> job option" where
  "fold_one o1 t =
     (case tr_change t of
        Queue kind label session \<Rightarrow>
          Some (case o1 of Some j \<Rightarrow> j | None \<Rightarrow> new_job t kind label session)
      | Start \<Rightarrow> map_option (\<lambda>j. j\<lparr>job_status := Running, started_at := Some (tr_at t)\<rparr>) o1
      | Finish status detail output \<Rightarrow>
          map_option (\<lambda>j. j\<lparr>job_status := status, finished_at := Some (tr_at t),
                  job_detail := or_else detail (job_detail j),
                  job_output := or_else output (job_output j)\<rparr>) o1)"

interpretation job_fold: keyed_fold fold_job tr_id fold_one
  by unfold_locales
    (auto simp: fold_job_def fold_one_def om_wf_insert split: job_change.splits option.splits)

section \<open>Reading the log\<close>

definition scan_jobs ::
  "(string \<Rightarrow> transition option) \<Rightarrow> read_result \<Rightarrow> job_error + (string, job) omap \<times> nat"
where
  "scan_jobs dec r =
     (case r of
        NotFound \<Rightarrow> Inr ([], 0)
      | ReadFailed \<Rightarrow> Inl Unreadable
      | Bytes b \<Rightarrow>
          (case scan_bytes dec fold_job [] b of
             Inl line \<Rightarrow> Inl (CorruptLog line)
           | Inr found \<Rightarrow> Inr found))"

definition name_char :: "char \<Rightarrow> bool" where
  "name_char c \<longleftrightarrow> byte_in 48 57 c \<or> byte_in 65 90 c \<or> byte_in 97 122 c \<or> c \<in> set ''._-''"

definition check_name :: "string \<Rightarrow> string \<Rightarrow> job_error + unit" where
  "check_name what v =
     (if 1 \<le> length v \<and> length v \<le> 128 \<and> list_all name_char v then Inr () else Inl (BadName what v))"

section \<open>Operations\<close>

text \<open>The write comes first and the fold only after it succeeded.\<close>

definition append_job ::
  "(transition \<Rightarrow> string option) \<Rightarrow> write_outcome \<Rightarrow> transition \<Rightarrow> job_store
   \<Rightarrow> (job_error + unit) \<times> job_store"
where
  "append_job enc w t st =
     (case enc t of
        None \<Rightarrow> (Inl Unwritable, st)
      | Some line \<Rightarrow>
          (case write_line w (job_file st) line of
             (True, file) \<Rightarrow> (Inr (), st\<lparr>job_file := file, jobs := fold_job (jobs st) t\<rparr>)
           | (False, file) \<Rightarrow> (Inl Unwritable, st\<lparr>job_file := file\<rparr>)))"

definition interrupt_transition :: "string \<Rightarrow> nat \<Rightarrow> transition" where
  "interrupt_transition jid now =
     \<lparr>tr_id = jid, tr_at = now,
      tr_change = Finish Interrupted (Some ''the harness stopped while this job was live'') None\<rparr>"

fun repair_ids ::
  "(transition \<Rightarrow> string option) \<Rightarrow> (nat \<Rightarrow> nat) \<Rightarrow> (nat \<Rightarrow> write_outcome) \<Rightarrow> nat \<Rightarrow> string list
   \<Rightarrow> job_store \<Rightarrow> (job_error + unit) \<times> job_store"
where
  "repair_ids enc clk wr k [] st = (Inr (), st)"
| "repair_ids enc clk wr k (jid # ids) st =
     (case append_job enc (wr k) (interrupt_transition jid (clk k)) st of
        (Inl e, st') \<Rightarrow> (Inl e, st')
      | (Inr _, st') \<Rightarrow> repair_ids enc clk wr (k + 1) ids st')"

definition live_ids :: "job_store \<Rightarrow> string list" where
  "live_ids st = map job_id (filter is_live (map snd (jobs st)))"

definition repair_jobs ::
  "(transition \<Rightarrow> string option) \<Rightarrow> (nat \<Rightarrow> nat) \<Rightarrow> (nat \<Rightarrow> write_outcome) \<Rightarrow> job_store
   \<Rightarrow> (job_error + nat) \<times> job_store"
where
  "repair_jobs enc clk wr st =
     (case repair_ids enc clk wr 0 (live_ids st) st of
        (Inl e, st') \<Rightarrow> (Inl e, st')
      | (Inr _, st') \<Rightarrow> (Inr (length (live_ids st)), st'))"

definition open_jobs ::
  "(transition \<Rightarrow> string option) \<Rightarrow> (string \<Rightarrow> transition option) \<Rightarrow> open_env
   \<Rightarrow> (nat \<Rightarrow> nat) \<Rightarrow> (nat \<Rightarrow> write_outcome) \<Rightarrow> (job_error + job_store) \<times> string"
where
  "open_jobs enc dec env clk wr =
     (let bytes = found_bytes (env_read env) in
      if \<not> env_dir_ok env then (Inl Unwritable, bytes)
      else (case scan_jobs dec (env_read env) of
          Inl e \<Rightarrow> (Inl e, bytes)
        | Inr (js, committed) \<Rightarrow>
            if \<not> env_open_ok env then (Inl Unwritable, bytes)
            else if \<not> env_meta_ok env then (Inl Unreadable, bytes)
            else if committed < length bytes \<and> \<not> env_trunc_ok env then (Inl Unwritable, bytes)
            else (case repair_jobs enc clk wr
                    \<lparr>job_file = take committed bytes, jobs = js, minted = 0\<rparr> of
                (Inl e, st) \<Rightarrow> (Inl e, job_file st)
              | (Inr _, st) \<Rightarrow> (Inr st, job_file st))))"

definition get_job :: "string \<Rightarrow> job_store \<Rightarrow> job option" where
  "get_job jid st = map_of (jobs st) jid"

definition mint_name :: "string \<Rightarrow> nat \<Rightarrow> string" where
  "mint_name kind n = kind @ ''-'' @ show_nat n"

lemma mint_name_inject [simp]: "mint_name kind m = mint_name kind n \<longleftrightarrow> m = n"
  by (simp add: mint_name_def)

lemma finite_mints: "finite {m. n < m \<and> mint_name kind m \<in> set ks}"
proof -
  have "inj (mint_name kind)" by (simp add: inj_def)
  then have "finite (mint_name kind -` set ks)" by (intro finite_vimageI) simp_all
  then show ?thesis by (rule rev_finite_subset) auto
qed

text \<open>The loop of \<^verbatim>\<open>mint\<close>: count up until the name is free.\<close>

function mint_loop :: "string \<Rightarrow> string list \<Rightarrow> nat \<Rightarrow> string \<times> nat" where
  "mint_loop kind ks n =
     (if mint_name kind (n + 1) \<in> set ks then mint_loop kind ks (n + 1)
      else (mint_name kind (n + 1), n + 1))"
  by pat_completeness auto
termination
proof (relation "measure (\<lambda>(kind, ks, n). card {m. n < m \<and> mint_name kind m \<in> set ks})",
       goal_cases)
  case (2 kind ks n)
  have "{m. n + 1 < m \<and> mint_name kind m \<in> set ks} \<subset> {m. n < m \<and> mint_name kind m \<in> set ks}"
    using 2 by auto
  then show ?case
    using psubset_card_mono [OF finite_mints] by simp
qed simp

declare mint_loop.simps [simp del]

definition mint_job :: "string \<Rightarrow> job_store \<Rightarrow> string \<times> job_store" where
  "mint_job kind st =
     (let (jid, n) = mint_loop kind (map fst (jobs st)) (minted st) in (jid, st\<lparr>minted := n\<rparr>))"

definition queue_job ::
  "(transition \<Rightarrow> string option) \<Rightarrow> write_outcome \<Rightarrow> nat \<Rightarrow> string option \<Rightarrow> string \<Rightarrow> string
   \<Rightarrow> string option \<Rightarrow> job_store \<Rightarrow> (job_error + job) \<times> job_store"
where
  "queue_job enc w now given kind label session st =
     (case check_name ''kind'' kind of
        Inl e \<Rightarrow> (Inl e, st)
      | Inr _ \<Rightarrow>
          (case (case given of
                   Some jid \<Rightarrow>
                     (case check_name ''job id'' jid of
                        Inl e \<Rightarrow> (Inl e, st)
                      | Inr _ \<Rightarrow> (if map_of (jobs st) jid \<noteq> None then (Inl (DuplicateJob jid), st)
                                 else (Inr jid, st)))
                 | None \<Rightarrow> (let (jid, st') = mint_job kind st in (Inr jid, st'))) of
             (Inl e, st1) \<Rightarrow> (Inl e, st1)
           | (Inr jid, st1) \<Rightarrow>
               (case append_job enc w
                       \<lparr>tr_id = jid, tr_at = now, tr_change = Queue kind label session\<rparr> st1 of
                  (Inl e, st2) \<Rightarrow> (Inl e, st2)
                | (Inr _, st2) \<Rightarrow>
                    (case get_job jid st2 of
                       None \<Rightarrow> (Inl (NoSuchJob jid), st2)
                     | Some j \<Rightarrow> (Inr j, st2)))))"

definition start_job ::
  "(transition \<Rightarrow> string option) \<Rightarrow> write_outcome \<Rightarrow> nat \<Rightarrow> string \<Rightarrow> job_store
   \<Rightarrow> (job_error + job) \<times> job_store"
where
  "start_job enc w now jid st =
     (case get_job jid st of
        None \<Rightarrow> (Inl (NoSuchJob jid), st)
      | Some j \<Rightarrow>
          if job_status j \<noteq> Queued then (Inl (NotStartable jid (job_status j)), st)
          else (case append_job enc w \<lparr>tr_id = jid, tr_at = now, tr_change = Start\<rparr> st of
              (Inl e, st') \<Rightarrow> (Inl e, st')
            | (Inr _, st') \<Rightarrow>
                (case get_job jid st' of None \<Rightarrow> (Inl (NoSuchJob jid), st') | Some j' \<Rightarrow> (Inr j', st'))))"

definition finish_job ::
  "(transition \<Rightarrow> string option) \<Rightarrow> write_outcome \<Rightarrow> nat \<Rightarrow> string \<Rightarrow> job_status \<Rightarrow> string option
   \<Rightarrow> string option \<Rightarrow> job_store \<Rightarrow> (job_error + job) \<times> job_store"
where
  "finish_job enc w now jid status detail output st =
     (case get_job jid st of
        None \<Rightarrow> (Inl (NoSuchJob jid), st)
      | Some j \<Rightarrow>
          if is_terminal (job_status j) then (Inl (AlreadyEnded jid (job_status j)), st)
          else (case append_job enc w
                  \<lparr>tr_id = jid, tr_at = now, tr_change = Finish status detail output\<rparr> st of
              (Inl e, st') \<Rightarrow> (Inl e, st')
            | (Inr _, st') \<Rightarrow>
                (case get_job jid st' of None \<Rightarrow> (Inl (NoSuchJob jid), st') | Some j' \<Rightarrow> (Inr j', st'))))"

text \<open>Every job, oldest first, ties by id.\<close>

definition list_jobs :: "job_store \<Rightarrow> job list" where
  "list_jobs st = sort_key (\<lambda>j. (queued_at j, job_id j)) (map snd (jobs st))"

definition live_jobs :: "job_store \<Rightarrow> job list" where
  "live_jobs st = filter is_live (list_jobs st)"

definition owned_by :: "string \<Rightarrow> job_store \<Rightarrow> job list" where
  "owned_by session st = filter (\<lambda>j. job_session j = Some session) (list_jobs st)"

section \<open>The life of one job\<close>

text \<open>
  The transitions of one job, in log order: the first queues it, no later one does, and nothing
  follows a transition to an end state.
\<close>

fun is_queue :: "job_change \<Rightarrow> bool" where
  "is_queue (Queue _ _ _) = True"
| "is_queue _ = False"

fun ends_as :: "job_change \<Rightarrow> job_status" where
  "ends_as (Queue _ _ _) = Queued"
| "ends_as Start = Running"
| "ends_as (Finish s _ _) = s"

definition one_life :: "job_change list \<Rightarrow> bool" where
  "one_life h \<longleftrightarrow>
     h = [] \<or> is_queue (hd h) \<and> list_all (\<lambda>c. \<not> is_queue c) (tl h)
             \<and> list_all (\<lambda>c. \<not> is_terminal (ends_as c)) (butlast h)"

definition changes_of :: "string \<Rightarrow> transition list \<Rightarrow> job_change list" where
  "changes_of jid cs = map tr_change (filter (\<lambda>t. tr_id t = jid) cs)"

lemma changes_of_snoc:
  "changes_of jid (cs @ [t]) = changes_of jid cs @ (if tr_id t = jid then [tr_change t] else [])"
  by (simp add: changes_of_def)

lemma one_life_snoc:
  "one_life (h @ [c]) \<longleftrightarrow>
     (if h = [] then is_queue c
      else one_life h \<and> \<not> is_queue c \<and> \<not> is_terminal (ends_as (last h)))"
proof (cases "h = []")
  case False
  then obtain h' x where h: "h = h' @ [x]" by (metis rev_exhaust)
  show ?thesis
    by (cases h') (auto simp: h one_life_def butlast_append)
qed (simp add: one_life_def)

lemma fold_one_Some:
  assumes "\<not> is_queue (tr_change t)"
  obtains j' where "fold_one (Some j) t = Some j'" and "job_status j' = ends_as (tr_change t)"
  using assms by (cases "tr_change t") (auto simp: fold_one_def)

lemma fold_one_life:
  assumes "one_life (map tr_change h)" and "h \<noteq> []"
  shows "\<exists>j. foldl fold_one None h = Some j \<and> job_status j = ends_as (tr_change (last h))"
  using assms
proof (induction h rule: rev_induct)
  case (snoc t h)
  show ?case
  proof (cases "h = []")
    case True
    with snoc.prems show ?thesis
      by (cases "tr_change t") (auto simp: one_life_def fold_one_def new_job_def)
  next
    case False
    with snoc.prems have "one_life (map tr_change h)" and "\<not> is_queue (tr_change t)"
      by (simp_all add: one_life_snoc)
    with snoc.IH False obtain j where "foldl fold_one None h = Some j" by blast
    with \<open>\<not> is_queue (tr_change t)\<close> show ?thesis
      by (elim fold_one_Some [of t j]) simp
  qed
qed simp

text \<open>The store after a log \<open>cs\<close>: file and memory agree with it, and every job lives once.\<close>

definition job_inv :: "(transition \<Rightarrow> string option) \<Rightarrow> transition list \<Rightarrow> job_store \<Rightarrow> bool" where
  "job_inv enc cs st \<longleftrightarrow>
     job_file st = encode_log enc cs \<and> jobs st = foldl fold_job [] cs
     \<and> (\<forall>jid. one_life (changes_of jid cs))"

lemma job_inv_get:
  assumes "job_inv enc cs st"
  shows "case map_of (jobs st) jid of
           None \<Rightarrow> changes_of jid cs = []
         | Some j \<Rightarrow> changes_of jid cs \<noteq> [] \<and> job_status j = ends_as (last (changes_of jid cs))"
proof -
  let ?h = "filter (\<lambda>t. tr_id t = jid) cs"
  have m: "map_of (jobs st) jid = foldl fold_one None ?h"
    using assms by (simp add: job_inv_def job_fold.fold_own)
  show ?thesis
  proof (cases "?h = []")
    case True
    then have "changes_of jid cs = []" unfolding changes_of_def by simp
    with True show ?thesis using m by simp
  next
    case False
    then obtain j where "foldl fold_one None ?h = Some j"
      and "job_status j = ends_as (tr_change (last ?h))"
      using assms fold_one_life [of ?h] by (auto simp: job_inv_def changes_of_def)
    with False show ?thesis by (simp add: m changes_of_def last_map)
  qed
qed

lemma job_inv_append:
  assumes inv: "job_inv enc cs st" and app: "append_job enc Written t st = (r, st')"
    and life: "one_life (changes_of (tr_id t) cs @ [tr_change t])"
  shows "job_inv enc cs st' \<or> job_inv enc (cs @ [t]) st'"
proof (cases "enc t")
  case None
  with inv app show ?thesis by (simp add: append_job_def)
next
  case (Some line)
  with inv app life show ?thesis
    by (auto simp: append_job_def job_inv_def changes_of_snoc)
qed

section \<open>Runs\<close>

datatype job_op =
    OpQueue "string option" string string "string option"
  | OpStart string
  | OpFinish string job_status "string option" "string option"

fun job_step :: "(transition \<Rightarrow> string option) \<Rightarrow> job_store \<Rightarrow> job_op \<times> nat \<Rightarrow> job_store" where
  "job_step enc st (OpQueue given kind label session, now) =
     snd (queue_job enc Written now given kind label session st)"
| "job_step enc st (OpStart jid, now) = snd (start_job enc Written now jid st)"
| "job_step enc st (OpFinish jid status detail output, now) =
     snd (finish_job enc Written now jid status detail output st)"

definition empty_store :: job_store where
  "empty_store = \<lparr>job_file = [], jobs = [], minted = 0\<rparr>"

lemma mint_loop_spec:
  "mint_loop kind ks n = (i, m) \<Longrightarrow>
     n < m \<and> i = mint_name kind m \<and> i \<notin> set ks \<and> (\<forall>l. n < l \<and> l < m \<longrightarrow> mint_name kind l \<in> set ks)"
proof (induction kind ks n rule: mint_loop.induct)
  case (1 kind ks n)
  show ?case
  proof (cases "mint_name kind (n + 1) \<in> set ks")
    case True
    with 1 have "mint_loop kind ks (n + 1) = (i, m)" by (simp add: mint_loop.simps [of kind ks n])
    with 1 True show ?thesis
      by (metis Suc_eq_plus1 Suc_lessD Suc_lessI)
  next
    case False
    with "1.prems" show ?thesis by (auto simp: mint_loop.simps [of kind ks n])
  qed
qed

lemma job_inv_minted [simp]: "job_inv enc cs (st\<lparr>minted := n\<rparr>) = job_inv enc cs st"
  by (simp add: job_inv_def)

lemma queue_job_inv:
  assumes inv: "job_inv enc cs st"
    and q: "queue_job enc Written now given kind label session st = (r, st')"
  shows "\<exists>cs'. job_inv enc cs' st'"
proof -
  have step: "\<exists>cs'. job_inv enc cs' st2"
    if "job_inv enc cs st1" and "map_of (jobs st1) jid = None"
      and "append_job enc Written \<lparr>tr_id = jid, tr_at = now, tr_change = Queue kind label session\<rparr> st1
           = (r1, st2)" for jid st1 st2 r1
  proof -
    have "changes_of jid cs = []" using job_inv_get [OF that(1), of jid] that(2) by simp
    then show ?thesis
      using job_inv_append [OF that(1,3)] by (auto simp: one_life_def)
  qed
  have fresh: "map_of (jobs st) i = None" if "mint_job kind st = (i, st1)" for i st1
    using that mint_loop_spec [of kind "map fst (jobs st)" "minted st"]
    by (auto simp: mint_job_def map_of_eq_None_iff split: prod.splits)
  have minted: "job_inv enc cs st1 \<and> jobs st1 = jobs st" if "mint_job kind st = (i, st1)" for i st1
    using that inv by (auto simp: mint_job_def split: prod.splits)
  show ?thesis
    using q inv fresh minted step
    by (auto simp: queue_job_def split: sum.splits option.splits prod.splits if_splits) 
qed

lemma advance_job_inv:
  assumes inv: "job_inv enc cs st" and j: "get_job jid st = Some j"
    and live: "\<not> is_terminal (job_status j)"
    and t: "tr_id t = jid" "\<not> is_queue (tr_change t)"
    and app: "append_job enc Written t st = (r, st')"
  shows "\<exists>cs'. job_inv enc cs' st'"
proof -
  have "changes_of jid cs \<noteq> []" and "job_status j = ends_as (last (changes_of jid cs))"
    using job_inv_get [OF inv, of jid] j by (simp_all add: get_job_def)
  moreover have "one_life (changes_of jid cs)" using inv by (simp add: job_inv_def)
  ultimately have "one_life (changes_of (tr_id t) cs @ [tr_change t])"
    using live t by (simp add: one_life_snoc)
  from job_inv_append [OF inv app this] show ?thesis by blast
qed

lemma start_job_inv:
  assumes "job_inv enc cs st" and "start_job enc Written now jid st = (r, st')"
  shows "\<exists>cs'. job_inv enc cs' st'"
  using assms advance_job_inv [OF assms(1), of jid _ "\<lparr>tr_id = jid, tr_at = now, tr_change = Start\<rparr>"]
  by (auto simp: start_job_def split: option.splits sum.splits prod.splits if_splits)

lemma finish_job_inv:
  assumes "job_inv enc cs st" and "finish_job enc Written now jid s d out st = (r, st')"
  shows "\<exists>cs'. job_inv enc cs' st'"
  using assms advance_job_inv [OF assms(1), of jid _ "\<lparr>tr_id = jid, tr_at = now, tr_change = Finish s d out\<rparr>"]
  by (auto simp: finish_job_def split: option.splits sum.splits prod.splits if_splits)

lemma job_step_inv: "job_inv enc cs st \<Longrightarrow> \<exists>cs'. job_inv enc cs' (job_step enc st x)"
proof (induction enc st x rule: job_step.induct)
  case (1 enc st given kind label session now)
  then show ?case by (auto intro: queue_job_inv prod.collapse [symmetric])
next
  case (2 enc st jid now)
  then show ?case by (auto intro: start_job_inv prod.collapse [symmetric])
next
  case (3 enc st jid status detail out now)
  then show ?case by (auto intro: finish_job_inv prod.collapse [symmetric])
qed

lemma job_run_inv: "job_inv enc cs st \<Longrightarrow> \<exists>cs'. job_inv enc cs' (foldl (job_step enc) st xs)"
proof (induction xs arbitrary: cs st)
  case (Cons x xs)
  then obtain cs' where "job_inv enc cs' (job_step enc st x)" using job_step_inv by blast
  from Cons.IH [OF this] show ?case by simp
qed auto

lemma job_inv_empty: "job_inv enc [] empty_store"
  by (simp add: job_inv_def empty_store_def changes_of_def one_life_def)

section \<open>Reopening after a crash\<close>

lemma set_om_insert: "set (om_insert k v m) \<subseteq> insert (k, v) (set m)"
  by (induction k v m rule: om_insert.induct) auto

lemma fold_job_ids:
  assumes "\<forall>(k, v)\<in>set js. job_id v = k"
  shows "\<forall>(k, v)\<in>set (foldl fold_job js cs). job_id v = k"
  using assms
proof (induction cs arbitrary: js)
  case (Cons t cs)
  have "\<forall>(k, v)\<in>set (fold_job js t). job_id v = k"
    using Cons.prems set_om_insert [of "tr_id t" _ js]
    by (fastforce simp: fold_job_def new_job_def dest: map_of_SomeD split: job_change.splits option.splits)
  from Cons.IH [OF this] show ?case by simp
qed simp

lemma jobs_of_log:
  assumes "js = foldl fold_job [] cs"
  shows "om_wf js" and "\<And>k v. (k, v) \<in> set js \<Longrightarrow> job_id v = k"
  using assms job_fold.fold_wf [of "[]" cs] fold_job_ids [of "[]" cs] by auto

text \<open>The closers a reopen appends, in key order.\<close>

definition closers_of :: "(nat \<Rightarrow> nat) \<Rightarrow> (string, job) omap \<Rightarrow> transition list" where
  "closers_of clk js =
     map (\<lambda>(n, jid). interrupt_transition jid (clk n))
       (enumerate 0 (map job_id (filter is_live (map snd js))))"

lemma live_ids_eq:
  assumes "\<And>k v. (k, v) \<in> set js \<Longrightarrow> job_id v = k"
  shows "map job_id (filter is_live (map snd js)) = map fst (filter (\<lambda>p. is_live (snd p)) js)"
  using assms by (induction js) auto

lemma repair_ids_written:
  assumes "\<forall>n. \<forall>jid\<in>set ids. enc (interrupt_transition jid (clk n)) \<noteq> None"
  shows "repair_ids enc clk (\<lambda>_. Written) n ids st =
    (let ts = map (\<lambda>(m, jid). interrupt_transition jid (clk m)) (enumerate n ids) in
     (Inr (), st\<lparr>job_file := job_file st @ encode_log enc ts, jobs := foldl fold_job (jobs st) ts\<rparr>))"
  using assms
proof (induction ids arbitrary: n st)
  case (Cons jid ids)
  from Cons.prems obtain line where "enc (interrupt_transition jid (clk n)) = Some line" by auto
  with Cons show ?case by (simp add: append_job_def Let_def)
qed (simp add: Let_def)

lemma closers_filter:
  assumes "distinct ids"
  shows "\<exists>m. filter (\<lambda>t. tr_id t = k) (map (\<lambda>(m, jid). interrupt_transition jid (clk m)) (enumerate n ids))
           = (if k \<in> set ids then [interrupt_transition k (clk m)] else [])"
  using assms
proof (induction ids arbitrary: n)
  case (Cons jid ids)
  then obtain m where "filter (\<lambda>t. tr_id t = k)
      (map (\<lambda>(m, jid). interrupt_transition jid (clk m)) (enumerate (Suc n) ids))
    = (if k \<in> set ids then [interrupt_transition k (clk m)] else [])" by fastforce
  with Cons.prems show ?case by (auto simp: interrupt_transition_def)
qed simp

definition interrupted :: "job \<Rightarrow> nat \<Rightarrow> job" where
  "interrupted j now =
     j\<lparr>job_status := Interrupted, finished_at := Some now,
       job_detail := Some ''the harness stopped while this job was live''\<rparr>"

lemma interrupted_live: "\<not> is_live (interrupted j now)"
  by (simp add: is_live_def interrupted_def)

lemma closers_close:
  assumes js: "js = foldl fold_job [] cs"
  shows "\<exists>now. map_of (foldl fold_job js (closers_of clk js)) k =
           map_option (\<lambda>j. if is_live j then interrupted j now else j) (map_of js k)"
proof -
  let ?ids = "map fst (filter (\<lambda>p. is_live (snd p)) js)"
  have ids: "map job_id (filter is_live (map snd js)) = ?ids"
    using jobs_of_log(2) [OF js] by (rule live_ids_eq)
  have d: "distinct ?ids"
    using om_wf_distinct [OF jobs_of_log(1) [OF js]] by (rule distinct_map_filter)
  obtain m where m: "filter (\<lambda>t. tr_id t = k) (closers_of clk js)
      = (if k \<in> set ?ids then [interrupt_transition k (clk m)] else [])"
    using closers_filter [OF d, of k clk 0] by (auto simp: closers_of_def ids)
  have mem: "k \<in> set ?ids \<longleftrightarrow> (\<exists>j. map_of js k = Some j \<and> is_live j)"
    using om_wf_map_of_iff [OF jobs_of_log(1) [OF js], of k] by force
  show ?thesis
    unfolding job_fold.fold_own m
    by (intro exI [of _ "clk m"])
      (use mem in \<open>cases "map_of js k"; auto simp: fold_one_def interrupt_transition_def
         interrupted_def simp del: set_map\<close>)
qed

lemma closed_none_live:
  assumes js: "js = foldl fold_job [] cs"
  shows "filter is_live (map snd (foldl fold_job js (closers_of clk js))) = []"
proof -
  let ?js = "foldl fold_job js (closers_of clk js)"
  have "\<not> is_live j" if "(k, j) \<in> set ?js" for k j
  proof -
    have "om_wf ?js" by (rule job_fold.fold_wf) (rule jobs_of_log(1) [OF js])
    with that have "map_of ?js k = Some j" by (simp add: om_wf_map_of_iff)
    moreover obtain now where "map_of ?js k =
        map_option (\<lambda>j. if is_live j then interrupted j now else j) (map_of js k)"
      using closers_close [OF js] by blast
    ultimately obtain x where "j = (if is_live x then interrupted x now else x)"
      by (cases "map_of js k") auto
    then show ?thesis by (cases "is_live x") (simp_all add: interrupted_live)
  qed
  then show ?thesis by (auto simp: filter_empty_conv)
qed

lemma open_jobs_scanned:
  assumes scan: "scan_bytes dec fold_job [] b = Inr (js, n)"
    and enc: "\<forall>m. \<forall>j\<in>set (filter is_live (map snd js)). enc (interrupt_transition (job_id j) (clk m)) \<noteq> None"
  shows "open_jobs enc dec (calm b) clk (\<lambda>_. Written) =
     (let cl = closers_of clk js; f = take n b @ encode_log enc cl in
      (Inr \<lparr>job_file = f, jobs = foldl fold_job js cl, minted = 0\<rparr>, f))"
  using scan repair_ids_written [of "map job_id (filter is_live (map snd js))" enc clk 0
      "\<lparr>job_file = take n b, jobs = js, minted = 0\<rparr>"] enc
  by (auto simp: open_jobs_def scan_jobs_def repair_jobs_def live_ids_def closers_of_def Let_def)

text \<open>The records a log and its repair put on disk.\<close>

definition job_records :: "(nat \<Rightarrow> nat) \<Rightarrow> transition list \<Rightarrow> transition set" where
  "job_records clk cs = set cs \<union> (\<lambda>(t, n). interrupt_transition (tr_id t) (clk n)) ` (set cs \<times> UNIV)"

lemma job_in_log:
  "(k, j) \<in> set (foldl fold_job [] cs) \<Longrightarrow> \<exists>t\<in>set cs. job_id j = tr_id t"
proof -
  assume a: "(k, j) \<in> set (foldl fold_job [] cs)"
  then have k: "job_id j = k" using jobs_of_log(2) by blast
  have "filter (\<lambda>t. tr_id t = k) cs \<noteq> []"
  proof
    assume "filter (\<lambda>t. tr_id t = k) cs = []"
    then have "map_of (foldl fold_job [] cs) k = None" by (simp add: job_fold.fold_own)
    with a show False by (force simp: map_of_eq_None_iff)
  qed
  then obtain t where "t \<in> set cs" and "tr_id t = k" by (auto simp: filter_empty_conv)
  with k show ?thesis by metis
qed

lemma closers_recorded:
  assumes "t \<in> set (closers_of clk (foldl fold_job [] (take j cs)))"
  shows "t \<in> job_records clk cs"
proof -
  from assms obtain m i where t: "t = interrupt_transition i (clk m)"
    and "i \<in> set (map job_id (filter is_live (map snd (foldl fold_job [] (take j cs)))))"
    unfolding closers_of_def enumerate_eq_zip by (auto dest!: set_zip_rightD)
  then obtain k v where "(k, v) \<in> set (foldl fold_job [] (take j cs))" and "i = job_id v" by auto
  with job_in_log obtain u where "u \<in> set (take j cs)" and "i = tr_id u" by blast
  with t show ?thesis by (force simp: job_records_def dest: in_set_takeD)
qed

lemma job_crash_open:
  assumes ok: "codec_ok enc dec (job_records clk cs)"
  shows "\<exists>j\<le>length cs. let js = foldl fold_job [] (take j cs); log = take j cs @ closers_of clk js in
     open_jobs enc dec (calm (take k (encode_log enc cs))) clk (\<lambda>_. Written) =
       (Inr \<lparr>job_file = encode_log enc log, jobs = foldl fold_job [] log, minted = 0\<rparr>,
        encode_log enc log)"
proof -
  have c: "codec_on (\<lambda>c. the (enc c)) dec (set cs)"
    using ok by (auto simp: codec_ok_def codec_on_def job_records_def)
  obtain j where j: "j \<le> length cs"
    and s: "scan_bytes dec fold_job [] (take k (encode_log enc cs))
        = Inr (foldl fold_job [] (take j cs), length (encode_log enc (take j cs)))"
    and t: "take (length (encode_log enc (take j cs))) (take k (encode_log enc cs)) = encode_log enc (take j cs)"
    using scan_bytes_crash [OF c, of fold_job "[]" k] by blast
  have "enc (interrupt_transition (job_id v) (clk m)) \<noteq> None"
    if "v \<in> set (filter is_live (map snd (foldl fold_job [] (take j cs))))" for v m
  proof -
    from that obtain i where "(i, v) \<in> set (foldl fold_job [] (take j cs))" by auto
    then obtain t where "t \<in> set (take j cs)" and "job_id v = tr_id t" using job_in_log by blast
    then have "interrupt_transition (job_id v) (clk m) \<in> job_records clk cs"
      by (auto simp: job_records_def dest: in_set_takeD)
    with ok show ?thesis by (auto simp: codec_ok_def)
  qed
  with open_jobs_scanned [OF s] j t show ?thesis
    by (auto simp: Let_def intro!: exI [of _ j])
qed

section \<open>Properties\<close>

text \<open>
  Whatever sequence of queue, start and finish calls a store has served (each accepted or
  refused), its file is exactly the encoding of the transitions it accepted, its memory is the
  fold of that file, and each job is queued once, first, with nothing after its end.
\<close>

theorem job_log_lifecycle:
  "\<exists>cs. job_file (foldl (job_step enc) empty_store ops) = encode_log enc cs
      \<and> jobs (foldl (job_step enc) empty_store ops) = foldl fold_job [] cs
      \<and> (\<forall>jid. one_life (changes_of jid cs))"
  using job_run_inv [OF job_inv_empty, of enc ops] by (simp add: job_inv_def)


definition demo_queue :: transition where
  "demo_queue = \<lparr>tr_id = ''a'', tr_at = 1, tr_change = Queue ''bash'' ''ls'' None\<rparr>"

definition demo_enc :: "transition \<Rightarrow> string option" where
  "demo_enc t = Some (if t = demo_queue then ''q'' else ''f'')"

definition demo_dec :: "string \<Rightarrow> transition option" where
  "demo_dec s = Some (if s = ''q'' then demo_queue else interrupt_transition ''a'' 5)"

lemma demo_codec: "codec_ok demo_enc demo_dec (job_records (\<lambda>_. 5) [demo_queue])"
  by (auto simp: codec_ok_def codec_on_def job_records_def demo_enc_def demo_dec_def
      demo_queue_def interrupt_transition_def byte_in_def trim_def trim_start_def trim_end_def is_white_def)


text \<open>
  A second open finds nothing to repair: opening the file a first open left answers the same
  store, byte for byte, whatever the clock says and whatever later writes would do.
\<close>

theorem job_reopen_idempotent:
  assumes "codec_ok enc dec (job_records clk cs)"
    and "open_jobs enc dec (calm (encode_log enc cs)) clk (\<lambda>_. Written) = (Inr st, file)"
  shows "open_jobs enc dec (calm file) clk2 wr = (Inr st, file)"
proof -
  let ?js = "foldl fold_job [] cs"
  let ?log = "cs @ closers_of clk ?js"
  obtain j where "j \<le> length cs"
    and o: "let js = foldl fold_job [] (take j cs); log = take j cs @ closers_of clk js in
     open_jobs enc dec (calm (take (length (encode_log enc cs)) (encode_log enc cs))) clk (\<lambda>_. Written) =
       (Inr \<lparr>job_file = encode_log enc log, jobs = foldl fold_job [] log, minted = 0\<rparr>, encode_log enc log)"
    using job_crash_open [OF assms(1)] by blast
  let ?log = "take j cs @ closers_of clk (foldl fold_job [] (take j cs))"
  have st: "st = \<lparr>job_file = encode_log enc ?log, jobs = foldl fold_job [] ?log, minted = 0\<rparr>"
    and f: "file = encode_log enc ?log"
    using o assms(2) by (auto simp: Let_def)
  have "set ?log \<subseteq> job_records clk cs"
    using closers_recorded by (auto simp: job_records_def dest: in_set_takeD)
  then have "codec_on (\<lambda>c. the (enc c)) dec (set ?log)"
    using assms(1) by (auto simp: codec_ok_def codec_on_def)
  then have "scan_bytes dec fold_job [] file = Inr (foldl fold_job [] ?log, length file)"
    unfolding f by (rule scan_bytes_encoded)
  moreover have "filter is_live (map snd (foldl fold_job [] ?log)) = []"
    using closed_none_live [OF refl, of "take j cs" clk] by simp
  ultimately show ?thesis
    by (simp add: open_jobs_def scan_jobs_def repair_jobs_def live_ids_def st f Let_def)
qed

theorem job_reopen_idempotent_witness:
  "\<exists>st file. open_jobs demo_enc demo_dec (calm (encode_log demo_enc [demo_queue])) (\<lambda>_. 5) (\<lambda>_. Written)
      = (Inr st, file)
    \<and> open_jobs demo_enc demo_dec (calm file) (\<lambda>_. 9) (\<lambda>_. NotSynced) = (Inr st, file)"
proof -
  obtain st f where o: "open_jobs demo_enc demo_dec (calm (encode_log demo_enc [demo_queue]))
      (\<lambda>_. 5) (\<lambda>_. Written) = (Inr st, f)"
    using job_crash_open [OF demo_codec, of "length (encode_log demo_enc [demo_queue])"]
    by (auto simp: Let_def)
  with job_reopen_idempotent [OF demo_codec o] show ?thesis by blast
qed

text \<open>
  Minting terminates with a name no job holds, past the last one minted, and skips only
  names that are taken; it leaves every record and the file alone.
\<close>

theorem mint_job_fresh:
  "case mint_job kind st of (i, st') \<Rightarrow>
     get_job i st = None \<and> i = mint_name kind (minted st') \<and> minted st < minted st'
     \<and> list_all (\<lambda>m. get_job (mint_name kind m) st \<noteq> None) [Suc (minted st)..<minted st']
     \<and> jobs st' = jobs st \<and> job_file st' = job_file st"
proof -
  obtain i m where l: "mint_loop kind (map fst (jobs st)) (minted st) = (i, m)" by fastforce
  from mint_loop_spec [OF l] show ?thesis
    by (auto simp: mint_job_def l get_job_def map_of_eq_None_iff list_all_iff)
qed

text \<open>
  When the write reaches the file but the sync fails, \<^verbatim>\<open>start\<close> reports an error and the job
  stays queued in memory, while a reader of the file sees it running: the held state is then
  behind the disk, although the comment on \<^verbatim>\<open>append\<close> says a caller that ignores an error still
  reads what a fresh open would read.
\<close>

theorem job_unsynced_diverges:
  assumes "job_file st = encode_log enc cs" and "jobs st = foldl fold_job [] cs"
    and "codec_ok enc dec (insert \<lparr>tr_id = jid, tr_at = now, tr_change = Start\<rparr> (set cs))"
    and "get_job jid st = Some j" and "job_status j = Queued"
  shows "case start_job enc NotSynced now jid st of (r, st') \<Rightarrow>
     r = Inl Unwritable \<and> map_option job_status (get_job jid st') = Some Queued
     \<and> (case scan_jobs dec (Bytes (job_file st')) of
          Inr (js, n) \<Rightarrow> map_option job_status (map_of js jid) = Some Running
        | Inl e \<Rightarrow> False)"
proof -
  let ?t = "\<lparr>tr_id = jid, tr_at = now, tr_change = Start\<rparr>"
  obtain line where l: "enc ?t = Some line" using assms(3) by (auto simp: codec_ok_def)
  have "scan_bytes dec fold_job [] (encode_log enc cs @ the (enc ?t) @ [newline])
      = Inr (fold_job (foldl fold_job [] cs) ?t, length (encode_log enc cs) + length (the (enc ?t)) + 1)"
    using assms(3) by (intro scan_bytes_snoc) (auto simp: codec_ok_def codec_on_def)
  with assms l show ?thesis
    by (simp add: start_job_def append_job_def scan_jobs_def get_job_def fold_job_def)
qed

definition demo_start :: transition where
  "demo_start = \<lparr>tr_id = ''a'', tr_at = 2, tr_change = Start\<rparr>"

definition demo_store :: job_store where
  "demo_store = \<lparr>job_file = encode_log demo_enc [demo_queue], jobs = foldl fold_job [] [demo_queue],
                 minted = 0\<rparr>"

definition demo_dec2 :: "string \<Rightarrow> transition option" where
  "demo_dec2 s = Some (if s = ''q'' then demo_queue else demo_start)"

theorem job_unsynced_diverges_witness:
  "case start_job demo_enc NotSynced 2 ''a'' demo_store of (r, st') \<Rightarrow>
     r = Inl Unwritable \<and> map_option job_status (get_job ''a'' st') = Some Queued
     \<and> (case scan_jobs demo_dec2 (Bytes (job_file st')) of
          Inr (js, n) \<Rightarrow> map_option job_status (map_of js ''a'') = Some Running
        | Inl e \<Rightarrow> False)"
proof (rule job_unsynced_diverges)
  show "job_file demo_store = encode_log demo_enc [demo_queue]"
    and "jobs demo_store = foldl fold_job [] [demo_queue]"
    by (simp_all add: demo_store_def)
  show "codec_ok demo_enc demo_dec2 (insert \<lparr>tr_id = ''a'', tr_at = 2, tr_change = Start\<rparr> (set [demo_queue]))"
    by (auto simp: codec_ok_def codec_on_def demo_enc_def demo_dec2_def demo_queue_def demo_start_def
        byte_in_def trim_def trim_start_def trim_end_def is_white_def)
  show "get_job ''a'' demo_store = Some (new_job demo_queue ''bash'' ''ls'' None)"
    by (simp add: get_job_def demo_store_def demo_queue_def fold_job_def)
  show "job_status (new_job demo_queue ''bash'' ''ls'' None) = Queued"
    by (simp add: new_job_def)
qed

end
