(* ===== verification/Schedules.thy ===== *)
theory Schedules
  imports Line_Store "HOL-Library.Product_Lexorder" "HOL-Library.Word"
begin

text \<open>
  The durable schedules of \<^verbatim>\<open>crates/core/src/schedule.rs\<close>: the recurrence grid, the overlap
  policy, the log of changes and its fold, and every operation of \<^verbatim>\<open>ScheduleStore\<close>.  Instants
  are unsigned 64-bit words and their arithmetic wraps, as it does in a release build (a debug
  build panics where it wraps).  The interval of a recurrence is at least the floor that
  \<^verbatim>\<open>create\<close> enforces, so the divisions of the grid are by a non-zero number; a log that some
  other program wrote with a zero interval would make the code panic and is not modelled.
\<close>

type_synonym u64 = "64 word"

section \<open>Data\<close>

definition MIN_INTERVAL_MS :: u64 where
  "MIN_INTERVAL_MS = 60000"

datatype schedule_rule = At u64 | Every u64 u64  \<comment> \<open>interval, anchor\<close>

datatype overlap_policy = Skip | Hold | Concurrent  \<comment> \<open>\<^verbatim>\<open>Queue\<close> is \<open>Hold\<close>\<close>

record schedule =
  sch_id :: string
  sch_label :: string
  sch_payload :: string
  sch_rule :: schedule_rule
  sch_overlap :: overlap_policy
  sch_session :: "string option"
  scheduled_at :: u64
  created_at :: u64
  dispatches :: nat
  last_dispatch :: "u64 option"
  held :: "u64 option"
  active :: bool

datatype decision = Run | Skipped | Held | Released

record fire =
  fire_id :: string
  occurrence_at :: u64
  fire_decision :: decision

datatype schedule_op =
    Create string string schedule_rule overlap_policy "string option" u64
  | Dispatch u64 decision
  | Delete

record change =
  ch_id :: string
  ch_at :: u64
  ch_op :: schedule_op

datatype schedule_error =
    SUnreadable
  | SUnwritable
  | SCorrupt nat
  | NoSuchSchedule string
  | DuplicateSchedule string
  | EmptyPayload
  | IntervalTooShort u64
  | NotFuture u64 u64
  | BadId string

record schedule_store =
  sch_file :: string
  schedules :: "(string, schedule) omap"
  sch_minted :: nat

section \<open>The grid\<close>

text \<open>The first grid instant strictly after \<open>now\<close>.\<close>

definition next_on_grid :: "u64 \<Rightarrow> u64 \<Rightarrow> u64 \<Rightarrow> u64" where
  "next_on_grid anchor interval now =
     (if anchor > now then anchor
      else anchor + ((now - anchor) div interval + 1) * interval)"

text \<open>The latest grid instant at or before \<open>now\<close>, if the grid has started.\<close>

definition latest_on_grid :: "u64 \<Rightarrow> u64 \<Rightarrow> u64 \<Rightarrow> u64 option" where
  "latest_on_grid anchor interval now =
     (if anchor > now then None
      else Some (anchor + ((now - anchor) div interval) * interval))"

definition occurrence_of :: "schedule \<Rightarrow> u64 \<Rightarrow> u64" where
  "occurrence_of s now =
     (case sch_rule s of
        At at_ms \<Rightarrow> at_ms
      | Every interval anchor \<Rightarrow>
          (case latest_on_grid anchor interval now of Some g \<Rightarrow> g | None \<Rightarrow> scheduled_at s))"

section \<open>The fold\<close>

definition new_schedule ::
  "change \<Rightarrow> string \<Rightarrow> string \<Rightarrow> schedule_rule \<Rightarrow> overlap_policy \<Rightarrow> string option \<Rightarrow> u64 \<Rightarrow> schedule"
where
  "new_schedule c label payload rule overlap session at_ms =
     \<lparr>sch_id = ch_id c, sch_label = label, sch_payload = payload, sch_rule = rule,
      sch_overlap = overlap, sch_session = session, scheduled_at = at_ms, created_at = ch_at c,
      dispatches = 0, last_dispatch = None, held = None, active = True\<rparr>"

text \<open>Every decided occurrence advances the schedule, a skipped one included.\<close>

definition advance :: "u64 \<Rightarrow> schedule \<Rightarrow> schedule" where
  "advance accepted s =
     (case sch_rule s of
        At _ \<Rightarrow> s\<lparr>active := False\<rparr>
      | Every interval anchor \<Rightarrow> s\<lparr>scheduled_at := next_on_grid anchor interval accepted\<rparr>)"

fun dispatch :: "u64 \<Rightarrow> decision \<Rightarrow> schedule \<Rightarrow> schedule" where
  "dispatch accepted Released s =
     s\<lparr>held := None, dispatches := dispatches s + 1, last_dispatch := Some accepted\<rparr>"
| "dispatch accepted Held s = advance accepted (s\<lparr>held := Some (occurrence_of s accepted)\<rparr>)"
| "dispatch accepted Run s =
     advance accepted (s\<lparr>dispatches := dispatches s + 1, last_dispatch := Some accepted\<rparr>)"
| "dispatch accepted Skipped s = advance accepted s"

definition fold_schedule :: "(string, schedule) omap \<Rightarrow> change \<Rightarrow> (string, schedule) omap" where
  "fold_schedule m c =
     (case ch_op c of
        Create label payload rule overlap session at_ms \<Rightarrow>
          (case map_of m (ch_id c) of
             Some _ \<Rightarrow> m
           | None \<Rightarrow>
               om_insert (ch_id c) (new_schedule c label payload rule overlap session at_ms) m)
      | Delete \<Rightarrow>
          (case map_of m (ch_id c) of
             None \<Rightarrow> m
           | Some s \<Rightarrow> om_insert (ch_id c) (s\<lparr>active := False, held := None\<rparr>) m)
      | Dispatch accepted d \<Rightarrow>
          (case map_of m (ch_id c) of
             None \<Rightarrow> m
           | Some s \<Rightarrow> om_insert (ch_id c) (dispatch accepted d s) m))"

text \<open>What one change does to the schedule it names.\<close>

definition change_one :: "schedule option \<Rightarrow> change \<Rightarrow> schedule option" where
  "change_one o1 c =
     (case ch_op c of
        Create label payload rule overlap session at_ms \<Rightarrow>
          Some (case o1 of Some s \<Rightarrow> s
                | None \<Rightarrow> new_schedule c label payload rule overlap session at_ms)
      | Delete \<Rightarrow> map_option (\<lambda>s. s\<lparr>active := False, held := None\<rparr>) o1
      | Dispatch accepted d \<Rightarrow> map_option (dispatch accepted d) o1)"

interpretation schedule_fold: keyed_fold fold_schedule ch_id change_one
  by unfold_locales
    (auto simp: fold_schedule_def change_one_def om_wf_insert
      split: schedule_op.splits option.splits)

section \<open>Reading the log\<close>

definition scan_schedules ::
  "(string \<Rightarrow> change option) \<Rightarrow> read_result \<Rightarrow> schedule_error + (string, schedule) omap \<times> nat"
where
  "scan_schedules dec r =
     (case r of
        NotFound \<Rightarrow> Inr ([], 0)
      | ReadFailed \<Rightarrow> Inl SUnreadable
      | Bytes b \<Rightarrow>
          (case scan_bytes dec fold_schedule [] b of
             Inl line \<Rightarrow> Inl (SCorrupt line)
           | Inr found \<Rightarrow> Inr found))"

definition id_char :: "char \<Rightarrow> bool" where
  "id_char c \<longleftrightarrow> byte_in 48 57 c \<or> byte_in 65 90 c \<or> byte_in 97 122 c \<or> c \<in> set ''._-''"

definition check_id :: "string \<Rightarrow> schedule_error + unit" where
  "check_id v = (if 1 \<le> length v \<and> length v \<le> 128 \<and> list_all id_char v then Inr () else Inl (BadId v))"

section \<open>Operations\<close>

text \<open>There is no repair pass: an overdue schedule is answered by the next poll.\<close>

definition open_schedules ::
  "(string \<Rightarrow> change option) \<Rightarrow> open_env \<Rightarrow> (schedule_error + schedule_store) \<times> string"
where
  "open_schedules dec env =
     (let bytes = found_bytes (env_read env) in
      if \<not> env_dir_ok env then (Inl SUnwritable, bytes)
      else (case scan_schedules dec (env_read env) of
          Inl e \<Rightarrow> (Inl e, bytes)
        | Inr (m, committed) \<Rightarrow>
            if \<not> env_open_ok env then (Inl SUnwritable, bytes)
            else if \<not> env_meta_ok env then (Inl SUnreadable, bytes)
            else if committed < length bytes \<and> \<not> env_trunc_ok env then (Inl SUnwritable, bytes)
            else (Inr \<lparr>sch_file = take committed bytes, schedules = m, sch_minted = 0\<rparr>,
                  take committed bytes)))"

definition append_change ::
  "(change \<Rightarrow> string option) \<Rightarrow> write_outcome \<Rightarrow> change \<Rightarrow> schedule_store
   \<Rightarrow> (schedule_error + unit) \<times> schedule_store"
where
  "append_change enc w c st =
     (case enc c of
        None \<Rightarrow> (Inl SUnwritable, st)
      | Some line \<Rightarrow>
          (case write_line w (sch_file st) line of
             (True, file) \<Rightarrow> (Inr (), st\<lparr>sch_file := file, schedules := fold_schedule (schedules st) c\<rparr>)
           | (False, file) \<Rightarrow> (Inl SUnwritable, st\<lparr>sch_file := file\<rparr>)))"

definition get_schedule :: "string \<Rightarrow> schedule_store \<Rightarrow> schedule option" where
  "get_schedule i st = map_of (schedules st) i"

definition list_schedules :: "schedule_store \<Rightarrow> schedule list" where
  "list_schedules st = map snd (schedules st)"

definition active_schedules :: "schedule_store \<Rightarrow> schedule list" where
  "active_schedules st = filter active (list_schedules st)"

definition schedule_name :: "nat \<Rightarrow> string" where
  "schedule_name n = ''schedule-'' @ show_nat n"

lemma schedule_name_inject [simp]: "schedule_name m = schedule_name n \<longleftrightarrow> m = n"
  by (simp add: schedule_name_def)

lemma finite_schedule_names: "finite {m. n < m \<and> schedule_name m \<in> set ks}"
proof -
  have "inj schedule_name" by (simp add: inj_def)
  then have "finite (schedule_name -` set ks)" by (intro finite_vimageI) simp_all
  then show ?thesis by (rule rev_finite_subset) auto
qed

function mint_schedule_loop :: "string list \<Rightarrow> nat \<Rightarrow> string \<times> nat" where
  "mint_schedule_loop ks n =
     (if schedule_name (n + 1) \<in> set ks then mint_schedule_loop ks (n + 1)
      else (schedule_name (n + 1), n + 1))"
  by pat_completeness auto
termination
proof (relation "measure (\<lambda>(ks, n). card {m. n < m \<and> schedule_name m \<in> set ks})", goal_cases)
  case (2 ks n)
  have "{m. n + 1 < m \<and> schedule_name m \<in> set ks} \<subset> {m. n < m \<and> schedule_name m \<in> set ks}"
    using 2 by auto
  then show ?case
    using psubset_card_mono [OF finite_schedule_names] by simp
qed simp

declare mint_schedule_loop.simps [simp del]

definition mint_schedule :: "schedule_store \<Rightarrow> string \<times> schedule_store" where
  "mint_schedule st =
     (let (i, n) = mint_schedule_loop (map fst (schedules st)) (sch_minted st)
      in (i, st\<lparr>sch_minted := n\<rparr>))"

definition first_due :: "schedule_rule \<Rightarrow> u64 \<Rightarrow> schedule_error + u64" where
  "first_due rule now =
     (case rule of
        At at_ms \<Rightarrow> (if at_ms \<le> now then Inl (NotFuture at_ms now) else Inr at_ms)
      | Every interval anchor \<Rightarrow>
          (if interval < MIN_INTERVAL_MS then Inl (IntervalTooShort interval)
           else Inr (next_on_grid anchor interval now)))"

definition create_schedule ::
  "(change \<Rightarrow> string option) \<Rightarrow> write_outcome \<Rightarrow> string option \<Rightarrow> string \<Rightarrow> string \<Rightarrow> schedule_rule
   \<Rightarrow> overlap_policy \<Rightarrow> string option \<Rightarrow> u64 \<Rightarrow> schedule_store
   \<Rightarrow> (schedule_error + schedule) \<times> schedule_store"
where
  "create_schedule enc w given label payload rule overlap session now st =
     (if trim payload = [] then (Inl EmptyPayload, st)
      else (case first_due rule now of
          Inl e \<Rightarrow> (Inl e, st)
        | Inr at_ms \<Rightarrow>
            (case (case given of
                     Some i \<Rightarrow>
                       (case check_id i of
                          Inl e \<Rightarrow> (Inl e, st)
                        | Inr _ \<Rightarrow> (if map_of (schedules st) i \<noteq> None then (Inl (DuplicateSchedule i), st)
                                   else (Inr i, st)))
                   | None \<Rightarrow> (let (i, st') = mint_schedule st in (Inr i, st'))) of
               (Inl e, st1) \<Rightarrow> (Inl e, st1)
             | (Inr i, st1) \<Rightarrow>
                 (case append_change enc w
                         \<lparr>ch_id = i, ch_at = now,
                          ch_op = Create label payload rule overlap session at_ms\<rparr> st1 of
                    (Inl e, st2) \<Rightarrow> (Inl e, st2)
                  | (Inr _, st2) \<Rightarrow>
                      (case get_schedule i st2 of
                         None \<Rightarrow> (Inl (NoSuchSchedule i), st2)
                       | Some s \<Rightarrow> (Inr s, st2))))))"

definition delete_schedule ::
  "(change \<Rightarrow> string option) \<Rightarrow> write_outcome \<Rightarrow> string \<Rightarrow> u64 \<Rightarrow> schedule_store
   \<Rightarrow> (schedule_error + bool) \<times> schedule_store"
where
  "delete_schedule enc w i now st =
     (case get_schedule i st of
        None \<Rightarrow> (Inl (NoSuchSchedule i), st)
      | Some s \<Rightarrow>
          if \<not> active s then (Inr False, st)
          else (case append_change enc w \<lparr>ch_id = i, ch_at = now, ch_op = Delete\<rparr> st of
              (Inl e, st') \<Rightarrow> (Inl e, st')
            | (Inr _, st') \<Rightarrow> (Inr True, st')))"

definition due :: "u64 \<Rightarrow> schedule_store \<Rightarrow> schedule list" where
  "due now st = filter (\<lambda>s. active s \<and> scheduled_at s \<le> now) (map snd (schedules st))"

definition next_wake :: "schedule_store \<Rightarrow> u64 option" where
  "next_wake st =
     (case map scheduled_at (filter active (map snd (schedules st))) of
        [] \<Rightarrow> None
      | x # xs \<Rightarrow> Some (fold min xs x))"

text \<open>The overlap policy.\<close>

definition decide :: "bool \<Rightarrow> schedule \<Rightarrow> decision" where
  "decide busy s =
     (if \<not> busy then Run
      else (case sch_overlap s of
          Concurrent \<Rightarrow> Run
        | Skip \<Rightarrow> Skipped
        | Hold \<Rightarrow> (if held s \<noteq> None then Skipped else Held)))"

fun release_held ::
  "(change \<Rightarrow> string option) \<Rightarrow> (string \<Rightarrow> decision \<Rightarrow> write_outcome) \<Rightarrow> u64 \<Rightarrow> string set
   \<Rightarrow> schedule list \<Rightarrow> schedule_store \<Rightarrow> (schedule_error + fire list) \<times> schedule_store"
where
  "release_held enc wr now running [] st = (Inr [], st)"
| "release_held enc wr now running (s # ss) st =
     (case held s of
        None \<Rightarrow> release_held enc wr now running ss st
      | Some h \<Rightarrow>
          if sch_id s \<in> running then release_held enc wr now running ss st
          else (case append_change enc (wr (sch_id s) Released)
                  \<lparr>ch_id = sch_id s, ch_at = now, ch_op = Dispatch now Released\<rparr> st of
              (Inl e, st') \<Rightarrow> (Inl e, st')
            | (Inr _, st') \<Rightarrow>
                (case release_held enc wr now running ss st' of
                   (Inl e, st'') \<Rightarrow> (Inl e, st'')
                 | (Inr fs, st'') \<Rightarrow>
                     (Inr (\<lparr>fire_id = sch_id s, occurrence_at = h, fire_decision = Released\<rparr> # fs),
                      st''))))"

fun decide_due ::
  "(change \<Rightarrow> string option) \<Rightarrow> (string \<Rightarrow> decision \<Rightarrow> write_outcome) \<Rightarrow> u64 \<Rightarrow> string set
   \<Rightarrow> schedule list \<Rightarrow> schedule_store \<Rightarrow> (schedule_error + fire list) \<times> schedule_store"
where
  "decide_due enc wr now running [] st = (Inr [], st)"
| "decide_due enc wr now running (s # ss) st =
     (let d = decide (sch_id s \<in> running) s; occ = occurrence_of s now in
      case append_change enc (wr (sch_id s) d)
             \<lparr>ch_id = sch_id s, ch_at = now, ch_op = Dispatch now d\<rparr> st of
        (Inl e, st') \<Rightarrow> (Inl e, st')
      | (Inr _, st') \<Rightarrow>
          (case decide_due enc wr now running ss st' of
             (Inl e, st'') \<Rightarrow> (Inl e, st'')
           | (Inr fs, st'') \<Rightarrow>
               (Inr (\<lparr>fire_id = sch_id s, occurrence_at = occ, fire_decision = d\<rparr> # fs), st'')))"

text \<open>
  One poll: held fires whose run has ended are released, then every due schedule is decided,
  oldest occurrence first and ties by id.  \<open>wr\<close> says how each write goes.
\<close>

definition poll ::
  "(change \<Rightarrow> string option) \<Rightarrow> (string \<Rightarrow> decision \<Rightarrow> write_outcome) \<Rightarrow> u64 \<Rightarrow> string set
   \<Rightarrow> schedule_store \<Rightarrow> (schedule_error + fire list) \<times> schedule_store"
where
  "poll enc wr now running st =
     (case release_held enc wr now running (list_schedules st) st of
        (Inl e, st') \<Rightarrow> (Inl e, st')
      | (Inr released, st') \<Rightarrow>
          (case decide_due enc wr now running
                  (sort_key (\<lambda>s. (scheduled_at s, sch_id s)) (due now st')) st' of
             (Inl e, st'') \<Rightarrow> (Inl e, st'')
           | (Inr decided, st'') \<Rightarrow> (Inr (released @ decided), st'')))"

section \<open>The grid without wrap-around\<close>

lemma unat_plus_small: "unat (x :: u64) + unat y < 2 ^ 64 \<Longrightarrow> unat (x + y) = unat x + unat y"
  using unat_add_lem [of x y] by simp

lemma unat_bound: "unat (x :: u64) < 2 ^ 64"
  using unsigned_less [of x] by simp

lemma unat_times_small: "unat (x :: u64) * unat y < 2 ^ 64 \<Longrightarrow> unat (x * y) = unat x * unat y"
  using unat_mult_lem [of x y] by simp

lemma next_on_grid_nat:
  assumes "anchor \<le> now" and "unat now + unat interval < 2 ^ 64"
  shows "unat (next_on_grid anchor interval now)
         = unat anchor + ((unat now - unat anchor) div unat interval + 1) * unat interval"
proof -
  let ?q = "(unat now - unat anchor) div unat interval"
  have sub: "unat (now - anchor) = unat now - unat anchor"
    using assms(1) by (simp add: unat_sub)
  have le: "unat anchor \<le> unat now" using assms(1) by (simp add: word_le_nat_alt)
  have qi: "?q * unat interval \<le> unat now - unat anchor" by simp
  have "(?q + 1) * unat interval = ?q * unat interval + unat interval" by simp
  with qi le assms(2) have small: "unat anchor + (?q + 1) * unat interval < 2 ^ 64" by linarith
  have q1: "?q + 1 < 2 ^ 64"
  proof (cases "unat interval = 0")
    case False
    have "?q \<le> unat now - unat anchor" by (rule div_le_dividend)
    with False assms(2) show ?thesis by linarith
  qed simp
  have d: "unat ((now - anchor) div interval) = ?q" by (simp add: unat_div_distrib sub)
  have a1: "unat ((now - anchor) div interval + 1) = ?q + 1"
    using q1 d unat_plus_small [of "(now - anchor) div interval" 1] by simp
  have a2: "unat (((now - anchor) div interval + 1) * interval) = (?q + 1) * unat interval"
    using small a1 unat_times_small [of "(now - anchor) div interval + 1" interval] by simp
  show ?thesis
    using small a2 unat_plus_small [of anchor "((now - anchor) div interval + 1) * interval"]
      leD [OF assms(1)]
    by (simp add: next_on_grid_def)
qed

lemma less_next_multiple: "0 < (k::nat) \<Longrightarrow> n < (n div k + 1) * k"
  using dividend_less_div_times [of k n] by simp

lemma next_on_grid_after:
  assumes "0 < interval" and "unat now + unat interval < 2 ^ 64"
  shows "now < next_on_grid anchor interval now"
proof (cases "anchor \<le> now")
  case True
  have "0 < unat interval" using assms(1) by (simp add: word_less_nat_alt)
  then have "unat now - unat anchor
      < ((unat now - unat anchor) div unat interval + 1) * unat interval"
    by (rule less_next_multiple)
  moreover have "unat (next_on_grid anchor interval now)
         = unat anchor + ((unat now - unat anchor) div unat interval + 1) * unat interval"
    by (rule next_on_grid_nat [OF True assms(2)])
  ultimately show ?thesis
    unfolding word_less_nat_alt by linarith
qed (simp add: next_on_grid_def not_le)

text \<open>Whether an instant lies on the grid of an anchor and an interval, as numbers.\<close>

definition on_grid :: "u64 \<Rightarrow> u64 \<Rightarrow> u64 \<Rightarrow> bool" where
  "on_grid anchor interval g \<longleftrightarrow> (\<exists>k. unat g = unat anchor + k * unat interval)"

lemma next_on_grid_on_grid:
  assumes "unat now + unat interval < 2 ^ 64"
  shows "on_grid anchor interval (next_on_grid anchor interval now)"
proof (cases "anchor \<le> now")
  case True
  from next_on_grid_nat [OF this assms] show ?thesis
    unfolding on_grid_def by blast
next
  case False
  then show ?thesis
    by (auto simp: on_grid_def next_on_grid_def intro: exI [of _ 0])
qed

lemma next_on_grid_least:
  assumes "unat now + unat interval < 2 ^ 64" and "unat now < unat anchor + k * unat interval"
  shows "unat (next_on_grid anchor interval now) \<le> unat anchor + k * unat interval"
proof (cases "anchor \<le> now")
  case True
  let ?q = "(unat now - unat anchor) div unat interval"
  have "unat now - unat anchor < k * unat interval"
    using assms(2) True by (simp add: word_le_nat_alt)
  then have "?q < k" by (rule less_mult_imp_div_less)
  then have "(?q + 1) * unat interval \<le> k * unat interval" by (intro mult_le_mono1) simp
  then show ?thesis by (simp only: next_on_grid_nat [OF True assms(1)])
next
  case False
  then show ?thesis by (simp add: next_on_grid_def not_le)
qed

text \<open>
  A recurring schedule's next occurrence is an instant of its own grid, strictly after the
  time it is computed at and the first one that is: the occurrences missed while the machine was
  off collapse into one, and a schedule never drifts off the anchor.
\<close>

theorem schedule_next_occurrence:
  assumes "0 < interval" and "unat now + unat interval < 2 ^ 64"
  shows "now < next_on_grid anchor interval now
    \<and> on_grid anchor interval (next_on_grid anchor interval now)
    \<and> (\<forall>g. on_grid anchor interval g \<and> now < g \<longrightarrow> next_on_grid anchor interval now \<le> g)"
  using next_on_grid_after [OF assms] next_on_grid_on_grid [OF assms(2)]
    next_on_grid_least [OF assms(2)]
  by (auto simp: on_grid_def word_less_nat_alt word_le_nat_alt)

theorem schedule_next_occurrence_witness:
  "(1000 :: u64) < next_on_grid 100 60 1000 \<and> on_grid 100 60 (next_on_grid 100 60 1000)"
  using schedule_next_occurrence [of 60 1000 100] by simp

text \<open>
  A finding: \<^verbatim>\<open>create\<close> bounds an interval from below only, so an interval that reaches past
  the end of the 64-bit clock is accepted; the grid then wraps, and a dispatched occurrence
  leaves its schedule due at the very instant it was dispatched at, to be dispatched again by
  every poll.
\<close>

theorem schedule_overflow_refires:
  assumes "active s" and "sch_rule s = Every interval anchor"
    and "anchor \<le> now" and "now - anchor < interval" and "2 ^ 64 \<le> unat anchor + unat interval"
  shows "active (dispatch now Run s) \<and> scheduled_at (dispatch now Run s) \<le> now
    \<and> sch_rule (dispatch now Run s) = sch_rule s"
proof -
  have "unat (anchor + interval) + 2 ^ 64 = unat anchor + unat interval"
  proof -
    have "unat anchor + unat interval - 2 ^ 64 < 2 ^ 64"
      using unat_bound [of anchor] unat_bound [of interval] by simp
    then have "(unat anchor + unat interval) mod 2 ^ 64 = unat anchor + unat interval - 2 ^ 64"
      using assms(5) by (simp add: mod_if)
    then show ?thesis using assms(5) by (simp add: unat_word_ariths(1))
  qed
  then have "anchor + interval \<le> anchor"
    using unat_bound [of interval] by (simp add: word_le_nat_alt)
  moreover have "(now - anchor) div interval = 0" using assms(4) by (simp add: div_word_less)
  ultimately have "next_on_grid anchor interval now \<le> now"
    using assms(3) by (auto simp: next_on_grid_def)
  then show ?thesis using assms(1,2) by (simp add: advance_def)
qed

text \<open>
  The witness: a schedule created at 5000 with the largest interval and its anchor at the
  creation is due at once, is dispatched, and is due again at the same instant.
\<close>

definition endless :: schedule where
  "endless = new_schedule
     \<lparr>ch_id = ''e'', ch_at = 5000, ch_op = Create ''l'' ''p'' (Every 18446744073709551615 5000) Skip None 4999\<rparr>
     ''l'' ''p'' (Every 18446744073709551615 5000) Skip None 4999"

theorem schedule_overflow_refires_witness:
  "first_due (Every 18446744073709551615 5000) 5000 = Inr 4999
   \<and> active (dispatch 5000 Run endless) \<and> scheduled_at (dispatch 5000 Run endless) \<le> 5000"
proof -
  have "first_due (Every 18446744073709551615 5000) 5000 = Inr 4999"
    by (simp add: first_due_def next_on_grid_def MIN_INTERVAL_MS_def)
  then show ?thesis
    using schedule_overflow_refires [of endless 18446744073709551615 5000 5000]
    by (simp add: endless_def new_schedule_def)
qed

section \<open>Runs of the store\<close>

text \<open>
  What every store keeps, as long as clocks and intervals stay below half the 64-bit range (some
  292 million years): records are filed under their own id, and a recurring schedule's next
  occurrence is an instant of its grid.
\<close>

definition schedule_ok :: "schedule \<Rightarrow> bool" where
  "schedule_ok s \<longleftrightarrow>
     (case sch_rule s of
        At _ \<Rightarrow> True
      | Every interval anchor \<Rightarrow>
          0 < interval \<and> interval < 2 ^ 63 \<and> on_grid anchor interval (scheduled_at s))"

definition schedules_ok :: "(string, schedule) omap \<Rightarrow> bool" where
  "schedules_ok m \<longleftrightarrow>
     om_wf m \<and> (\<forall>i s. map_of m i = Some s \<longrightarrow> sch_id s = i \<and> schedule_ok s)"

fun change_ok :: "change \<Rightarrow> bool" where
  "change_ok c =
     (case ch_op c of
        Create label payload rule overlap session at_ms \<Rightarrow>
          schedule_ok (new_schedule c label payload rule overlap session at_ms)
      | Dispatch now d \<Rightarrow> now < 2 ^ 63
      | Delete \<Rightarrow> True)"

declare change_ok.simps [simp del]

lemma half_range:
  assumes "(now :: u64) < 2 ^ 63" and "(interval :: u64) < 2 ^ 63"
  shows "unat now + unat interval < 2 ^ 64"
proof -
  have "unat ((2 :: u64) ^ 63) = 2 ^ 63" by simp
  with assms have "unat now < 2 ^ 63" and "unat interval < 2 ^ 63"
    unfolding word_less_nat_alt by metis+
  then show ?thesis by simp
qed

lemma advance_ok:
  assumes "schedule_ok s" and "now < 2 ^ 63"
  shows "schedule_ok (advance now s)" and "sch_id (advance now s) = sch_id s"
    and "\<not> (active (advance now s) \<and> scheduled_at (advance now s) \<le> now)"
proof -
  show "schedule_ok (advance now s)"
    using assms
    by (auto simp: advance_def schedule_ok_def split: schedule_rule.splits
        intro!: next_on_grid_on_grid half_range)
  show "sch_id (advance now s) = sch_id s"
    by (simp add: advance_def split: schedule_rule.splits)
  show "\<not> (active (advance now s) \<and> scheduled_at (advance now s) \<le> now)"
  proof (cases "sch_rule s")
    case (Every interval anchor)
    with assms have "now < next_on_grid anchor interval now"
      by (intro next_on_grid_after half_range) (auto simp: schedule_ok_def)
    then show ?thesis by (simp add: advance_def Every not_le)
  qed (simp add: advance_def)
qed

lemma schedule_ok_fields [simp]:
  "schedule_ok (s\<lparr>dispatches := n\<rparr>) = schedule_ok s"
  "schedule_ok (s\<lparr>last_dispatch := l\<rparr>) = schedule_ok s"
  "schedule_ok (s\<lparr>held := h\<rparr>) = schedule_ok s"
  "schedule_ok (s\<lparr>active := a\<rparr>) = schedule_ok s"
  by (simp_all add: schedule_ok_def split: schedule_rule.split)

lemma dispatch_ok:
  assumes "schedule_ok s" and "now < 2 ^ 63"
  shows "schedule_ok (dispatch now d s)" and "sch_id (dispatch now d s) = sch_id s"
    and "d \<noteq> Released \<Longrightarrow> \<not> (active (dispatch now d s) \<and> scheduled_at (dispatch now d s) \<le> now)"
proof -
  show "schedule_ok (dispatch now d s)"
    using assms by (cases d) (simp_all add: advance_ok)
  show "sch_id (dispatch now d s) = sch_id s"
    by (cases d) (simp_all add: advance_def split: schedule_rule.splits)
  show "\<not> (active (dispatch now d s) \<and> scheduled_at (dispatch now d s) \<le> now)"
    if "d \<noteq> Released"
    using that assms by (cases d) (simp_all only: dispatch.simps, simp_all add: advance_ok del: de_Morgan_conj)
qed

lemma fold_schedule_ok:
  assumes "schedules_ok m" and "change_ok c"
  shows "schedules_ok (fold_schedule m c)"
proof -
  have "sch_id s = i \<and> schedule_ok s" if "map_of (fold_schedule m c) i = Some s" for i s
  proof (cases "i = ch_id c")
    case True
    from that have s: "change_one (map_of m i) c = Some s"
      using schedule_fold.change_own [of m c] by (simp add: True)
    show ?thesis
    proof (cases "map_of m i")
      case None
      with s show ?thesis
        using assms(2) True
        by (auto simp: change_one_def change_ok.simps new_schedule_def split: schedule_op.splits)
    next
      case (Some s0)
      then have "sch_id s0 = i" and "schedule_ok s0" using assms(1) by (auto simp: schedules_ok_def)
      with s Some show ?thesis
        using assms(2)
        by (auto simp: change_one_def change_ok.simps dispatch_ok split: schedule_op.splits)
    qed
  next
    case False
    with that have "map_of m i = Some s" by (simp add: schedule_fold.change_other)
    then show ?thesis using assms(1) by (auto simp: schedules_ok_def)
  qed
  then show ?thesis
    using assms(1) schedule_fold.change_wf by (auto simp: schedules_ok_def)
qed

lemma append_change_cases:
  assumes "append_change enc w c st = (r, st')"
  obtains (ok) "r = Inr ()" and "schedules st' = fold_schedule (schedules st) c"
    and "sch_minted st' = sch_minted st"
  | (err) e where "r = Inl e" and "schedules st' = schedules st"
  using assms unfolding append_change_def
  by (auto split: option.splits prod.splits bool.splits)

lemma append_change_ok:
  assumes "append_change enc w c st = (r, st')" and "change_ok c" and "schedules_ok (schedules st)"
  shows "schedules_ok (schedules st')"
  using assms(1) by (cases rule: append_change_cases) (simp_all add: assms fold_schedule_ok)

lemma release_held_ok:
  assumes "release_held enc wr now running ss st = (r, st')"
    and "schedules_ok (schedules st)" and "now < 2 ^ 63"
  shows "schedules_ok (schedules st')"
  using assms
proof (induction ss arbitrary: st r)
  case (Cons s ss)
  show ?case
  proof (cases "held s = None \<or> sch_id s \<in> running")
    case True
    with Cons.prems(1) have "release_held enc wr now running ss st = (r, st')"
      by (auto split: option.splits)
    with Cons.IH Cons.prems(2,3) show ?thesis by blast
  next
    case False
    obtain r1 st1 where a: "append_change enc (wr (sch_id s) Released)
        \<lparr>ch_id = sch_id s, ch_at = now, ch_op = Dispatch now Released\<rparr> st = (r1, st1)"
      by (metis surj_pair)
    then have ok: "schedules_ok (schedules st1)"
      by (rule append_change_ok) (use Cons.prems(2,3) in \<open>simp_all add: change_ok.simps\<close>)
    show ?thesis
    proof (cases r1)
      case (Inl e)
      with Cons.prems(1) False a ok show ?thesis by (auto split: option.splits)
    next
      case (Inr u)
      obtain r2 where "release_held enc wr now running ss st1 = (r2, st')"
        using Cons.prems(1) False a Inr by (auto split: option.splits prod.splits sum.splits)
      with Cons.IH ok Cons.prems(3) show ?thesis by blast
    qed
  qed
qed simp

lemma decide_due_ok:
  assumes "decide_due enc wr now running ss st = (r, st')"
    and "schedules_ok (schedules st)" and "now < 2 ^ 63"
  shows "schedules_ok (schedules st')"
  using assms
proof (induction ss arbitrary: st r)
  case (Cons s ss)
  let ?d = "decide (sch_id s \<in> running) s"
  obtain r1 st1 where a: "append_change enc (wr (sch_id s) ?d)
      \<lparr>ch_id = sch_id s, ch_at = now, ch_op = Dispatch now ?d\<rparr> st = (r1, st1)"
    by (metis surj_pair)
  then have ok: "schedules_ok (schedules st1)"
    by (rule append_change_ok) (use Cons.prems(2,3) in \<open>simp_all add: change_ok.simps\<close>)
  show ?case
  proof (cases r1)
    case (Inl e)
    with Cons.prems(1) a ok show ?thesis by (auto simp: Let_def)
  next
    case (Inr u)
    obtain r2 where "decide_due enc wr now running ss st1 = (r2, st')"
      using Cons.prems(1) a Inr by (auto simp: Let_def split: prod.splits sum.splits)
    with Cons.IH ok Cons.prems(3) show ?thesis by blast
  qed
qed simp

lemma poll_ok:
  assumes "schedules_ok (schedules st)" and "now < 2 ^ 63"
  shows "schedules_ok (schedules (snd (poll enc wr now running st)))"
proof -
  obtain r1 st1 where a: "release_held enc wr now running (list_schedules st) st = (r1, st1)"
    by (metis surj_pair)
  then have ok: "schedules_ok (schedules st1)" using release_held_ok assms by blast
  obtain r2 st2 where b: "decide_due enc wr now running
      (sort_key (\<lambda>s. (scheduled_at s, sch_id s)) (due now st1)) st1 = (r2, st2)"
    by (metis surj_pair)
  then have "schedules_ok (schedules st2)" using decide_due_ok ok assms(2) by blast
  with a b ok show ?thesis by (auto simp: poll_def split: sum.splits)
qed

lemma mint_schedule_schedules [simp]: "mint_schedule st = (i, st') \<Longrightarrow> schedules st' = schedules st"
  by (auto simp: mint_schedule_def split: prod.splits)

definition rule_in_range :: "schedule_rule \<Rightarrow> bool" where
  "rule_in_range rule \<longleftrightarrow> (case rule of At _ \<Rightarrow> True | Every interval _ \<Rightarrow> interval < 2 ^ 63)"

lemma first_due_ok:
  assumes "first_due rule now = Inr at_ms" and "now < 2 ^ 63" and "rule_in_range rule"
  shows "change_ok \<lparr>ch_id = i, ch_at = now, ch_op = Create label payload rule overlap session at_ms\<rparr>"
proof (cases rule)
  case (Every interval anchor)
  with assms have "interval \<ge> MIN_INTERVAL_MS" and i: "interval < 2 ^ 63"
    and at: "at_ms = next_on_grid anchor interval now"
    by (auto simp: first_due_def rule_in_range_def split: if_splits)
  then have "0 < interval" by (auto simp: MIN_INTERVAL_MS_def word_neq_0_conv [symmetric])
  then show ?thesis
    using i at assms(2) Every
    by (auto simp: change_ok.simps schedule_ok_def new_schedule_def
        intro!: next_on_grid_on_grid half_range)
qed (simp add: change_ok.simps schedule_ok_def new_schedule_def)

lemma append_change_snd_ok:
  assumes "change_ok c" and "schedules_ok (schedules st)"
  shows "schedules_ok (schedules (snd (append_change enc w c st)))"
  using append_change_ok [OF surjective_pairing assms] .

lemma create_schedule_snd:
  "schedules (snd (create_schedule enc w given label payload rule overlap session now st)) = schedules st
   \<or> (\<exists>st1 i at_ms. schedules st1 = schedules st \<and> first_due rule now = Inr at_ms
        \<and> snd (create_schedule enc w given label payload rule overlap session now st)
          = snd (append_change enc w
              \<lparr>ch_id = i, ch_at = now,
               ch_op = Create label payload rule overlap session at_ms\<rparr> st1))"
proof -
  let ?add = "\<lambda>i at_ms st1. snd (append_change enc w \<lparr>ch_id = i, ch_at = now,
      ch_op = Create label payload rule overlap session at_ms\<rparr> st1)"
  have tail: "snd (case append_change enc w \<lparr>ch_id = i, ch_at = now,
             ch_op = Create label payload rule overlap session at_ms\<rparr> st1 of
          (Inl e, st2) \<Rightarrow> (Inl e, st2)
        | (Inr _, st2) \<Rightarrow>
            (case get_schedule i st2 of None \<Rightarrow> (Inl (NoSuchSchedule i), st2) | Some s \<Rightarrow> (Inr s, st2)))
        = ?add i at_ms st1" for i at_ms st1
    by (simp split: prod.split sum.split option.split)
  obtain i st1 where m: "mint_schedule st = (i, st1)" by (metis surj_pair)
  show ?thesis
    unfolding create_schedule_def
    by (cases "trim payload = []"; cases "first_due rule now"; cases given;
        simp add: m tail split: sum.split; metis mint_schedule_schedules [OF m])
qed

lemma create_schedule_ok:
  assumes "schedules_ok (schedules st)" and "now < 2 ^ 63" and "rule_in_range rule"
  shows "schedules_ok (schedules (snd (create_schedule enc w given label payload rule overlap session now st)))"
  using create_schedule_snd [of enc w given label payload rule overlap session now st]
    append_change_snd_ok [OF first_due_ok [OF _ assms(2,3)]] assms(1)
  by metis

lemma delete_schedule_snd:
  "snd (delete_schedule enc w i now st) = st
   \<or> snd (delete_schedule enc w i now st)
     = snd (append_change enc w \<lparr>ch_id = i, ch_at = now, ch_op = Delete\<rparr> st)"
  by (simp add: delete_schedule_def split: option.split prod.split sum.split)

lemma delete_schedule_ok:
  assumes "schedules_ok (schedules st)"
  shows "schedules_ok (schedules (snd (delete_schedule enc w i now st)))"
  using delete_schedule_snd [of enc w i now st] assms
    append_change_snd_ok [of "\<lparr>ch_id = i, ch_at = now, ch_op = Delete\<rparr>" st enc w]
  by (auto simp: change_ok.simps)

text \<open>Runs: any interleaving of creations, deletions and polls, each write going any way.\<close>

inductive schedule_step :: "(change \<Rightarrow> string option) \<Rightarrow> schedule_store \<Rightarrow> schedule_store \<Rightarrow> bool"
  for enc
where
  create: "now < 2 ^ 63 \<Longrightarrow> rule_in_range rule \<Longrightarrow>
     schedule_step enc st (snd (create_schedule enc w given label payload rule overlap session now st))"
| delete: "schedule_step enc st (snd (delete_schedule enc w i now st))"
| poll: "now < 2 ^ 63 \<Longrightarrow> schedule_step enc st (snd (poll enc wr now running st))"

definition no_schedules :: schedule_store where
  "no_schedules = \<lparr>sch_file = [], schedules = [], sch_minted = 0\<rparr>"

lemma schedule_step_ok:
  "schedule_step enc st st' \<Longrightarrow> schedules_ok (schedules st) \<Longrightarrow> schedules_ok (schedules st')"
  by (induction rule: schedule_step.induct)
    (simp_all only: create_schedule_ok delete_schedule_ok poll_ok)

lemma schedule_run_ok:
  assumes "(schedule_step enc)\<^sup>*\<^sup>* no_schedules st"
  shows "schedules_ok (schedules st)"
  using assms
proof (induction rule: rtranclp_induct)
  case base
  then show ?case by (simp add: no_schedules_def schedules_ok_def)
qed (rule schedule_step_ok)

text \<open>
  Whatever is created, deleted and polled and however the writes go, a store files every
  schedule under its own id in key order, and every recurring schedule's next occurrence stays on
  the grid of its anchor.
\<close>

theorem schedule_run_invariant:
  assumes "(schedule_step enc)\<^sup>*\<^sup>* no_schedules st"
  shows "om_wf (schedules st)
    \<and> (\<forall>i s. get_schedule i st = Some s \<longrightarrow> sch_id s = i
         \<and> (\<forall>interval anchor. sch_rule s = Every interval anchor
               \<longrightarrow> on_grid anchor interval (scheduled_at s)))"
  using schedule_run_ok [OF assms]
  by (fastforce simp: schedules_ok_def schedule_ok_def get_schedule_def)

definition demo_created :: schedule_store where
  "demo_created = snd (create_schedule (\<lambda>c. Some ''x'') Written None ''l'' ''p''
     (Every 60000 90000) Hold None 1000000 no_schedules)"

definition demo_polled :: schedule_store where
  "demo_polled = snd (poll (\<lambda>c. Some ''x'') (\<lambda>i d. Written) 1200000 {} demo_created)"

lemma demo_polled_at: "map_option scheduled_at (get_schedule ''schedule-1'' demo_polled) = Some 1230000"
  by code_simp

lemma demo_run:
  "(schedule_step (\<lambda>c. Some ''x''))\<^sup>*\<^sup>* no_schedules demo_created"
  "(schedule_step (\<lambda>c. Some ''x''))\<^sup>*\<^sup>* no_schedules demo_polled"
proof -
  have 1: "schedule_step (\<lambda>c. Some ''x'') no_schedules demo_created"
    unfolding demo_created_def by (rule schedule_step.create) (simp_all add: rule_in_range_def)
  have 2: "schedule_step (\<lambda>c. Some ''x'') demo_created demo_polled"
    unfolding demo_polled_def by (rule schedule_step.poll) simp
  from 1 show "(schedule_step (\<lambda>c. Some ''x''))\<^sup>*\<^sup>* no_schedules demo_created" by blast
  with 2 show "(schedule_step (\<lambda>c. Some ''x''))\<^sup>*\<^sup>* no_schedules demo_polled"
    by (meson rtranclp.rtrancl_into_rtrancl)
qed

theorem schedule_run_invariant_witness:
  "\<exists>s. get_schedule ''schedule-1'' demo_polled = Some s \<and> sch_id s = ''schedule-1''
     \<and> om_wf (schedules demo_polled)"
  using schedule_run_invariant [OF demo_run(2)] demo_polled_at by auto

section \<open>A poll answers everything that is due\<close>

lemma release_held_keeps:
  assumes "release_held enc wr now running ss st = (r, st')" and "om_wf (schedules st)"
  shows "om_wf (schedules st')
    \<and> map_option (\<lambda>s. (sch_id s, active s, scheduled_at s)) (map_of (schedules st') i)
      = map_option (\<lambda>s. (sch_id s, active s, scheduled_at s)) (map_of (schedules st) i)
    \<and> (\<forall>fs. r = Inr fs \<longrightarrow> (\<forall>f\<in>set fs. fire_decision f = Released))"
  using assms
proof (induction ss arbitrary: st r)
  case (Cons s ss)
  show ?case
  proof (cases "held s = None \<or> sch_id s \<in> running")
    case True
    with Cons.prems(1) have "release_held enc wr now running ss st = (r, st')"
      by (auto split: option.splits)
    with Cons.IH Cons.prems(2) show ?thesis by blast
  next
    case False
    let ?c = "\<lparr>ch_id = sch_id s, ch_at = now, ch_op = Dispatch now Released\<rparr>"
    obtain r1 st1 where a: "append_change enc (wr (sch_id s) Released) ?c st = (r1, st1)"
      by (metis surj_pair)
    have "map_option (\<lambda>s. (sch_id s, active s, scheduled_at s)) (map_of (fold_schedule (schedules st) ?c) i)
      = map_option (\<lambda>s. (sch_id s, active s, scheduled_at s)) (map_of (schedules st) i)"
      by (auto simp: fold_schedule_def split: option.split)
    then have one: "om_wf (schedules st1)"
      "map_option (\<lambda>s. (sch_id s, active s, scheduled_at s)) (map_of (schedules st1) i)
      = map_option (\<lambda>s. (sch_id s, active s, scheduled_at s)) (map_of (schedules st) i)"
      using a Cons.prems(2) by (auto elim!: append_change_cases simp: schedule_fold.change_wf)
    show ?thesis
    proof (cases r1)
      case (Inl e)
      with Cons.prems(1) False a one show ?thesis by (auto split: option.splits)
    next
      case (Inr u)
      obtain r2 where r2: "release_held enc wr now running ss st1 = (r2, st')"
        and "\<forall>fs. r = Inr fs \<longrightarrow> (\<exists>f fs'. r2 = Inr fs' \<and> fs = f # fs' \<and> fire_decision f = Released)"
        using Cons.prems(1) False a Inr by (auto split: option.splits prod.splits sum.splits)
      with Cons.IH [OF r2 one(1)] one(2) show ?thesis by fastforce
    qed
  qed
qed simp

lemma decide_due_changes:
  assumes "decide_due enc wr now running ss st = (Inr fs, st')"
  shows "schedules st' = foldl fold_schedule (schedules st)
           (map (\<lambda>s. \<lparr>ch_id = sch_id s, ch_at = now,
                       ch_op = Dispatch now (decide (sch_id s \<in> running) s)\<rparr>) ss)
    \<and> map fire_id fs = map sch_id ss \<and> (\<forall>f\<in>set fs. fire_decision f \<noteq> Released)"
  using assms
proof (induction ss arbitrary: st fs)
  case (Cons s ss)
  let ?d = "decide (sch_id s \<in> running) s"
  obtain st1 fs' where a: "append_change enc (wr (sch_id s) ?d)
      \<lparr>ch_id = sch_id s, ch_at = now, ch_op = Dispatch now ?d\<rparr> st = (Inr (), st1)"
    and d: "decide_due enc wr now running ss st1 = (Inr fs', st')"
    and fs: "fs = \<lparr>fire_id = sch_id s, occurrence_at = occurrence_of s now, fire_decision = ?d\<rparr> # fs'"
    using Cons.prems by (auto simp: Let_def split: prod.splits sum.splits)
  have "?d \<noteq> Released" by (simp add: decide_def split: overlap_policy.split)
  moreover have "schedules st1
      = fold_schedule (schedules st) \<lparr>ch_id = sch_id s, ch_at = now, ch_op = Dispatch now ?d\<rparr>"
    using a by (rule append_change_cases) auto
  ultimately show ?case using Cons.IH [OF d] by (simp add: fs)
qed simp

lemma dispatches_clear:
  assumes "\<forall>c\<in>set ds. \<exists>d. ch_op c = Dispatch now d \<and> d \<noteq> Released" and "now < 2 ^ 63"
    and "schedule_ok s" and "ds \<noteq> []"
  shows "\<exists>s'. foldl change_one (Some s) ds = Some s' \<and> \<not> (active s' \<and> scheduled_at s' \<le> now)"
  using assms
proof (induction ds arbitrary: s)
  case (Cons c ds)
  then obtain d where d: "ch_op c = Dispatch now d" "d \<noteq> Released" by auto
  then have c: "change_one (Some s) c = Some (dispatch now d s)" by (simp add: change_one_def)
  show ?case
  proof (cases "ds = []")
    case True
    with dispatch_ok(3) [OF Cons.prems(3,2) d(2)] c show ?thesis by simp
  next
    case False
    with Cons.IH [OF _ Cons.prems(2) dispatch_ok(1) [OF Cons.prems(3,2)]] Cons.prems(1) c
    show ?thesis by simp
  qed
qed simp

lemma due_iff:
  assumes "schedules_ok (schedules st)"
  shows "s \<in> set (due now st)
    \<longleftrightarrow> map_of (schedules st) (sch_id s) = Some s \<and> active s \<and> scheduled_at s \<le> now"
proof -
  have "(\<exists>i. (i, s) \<in> set (schedules st)) \<longleftrightarrow> (\<exists>i. map_of (schedules st) i = Some s)"
    using assms by (simp add: schedules_ok_def om_wf_map_of_iff)
  moreover have "map_of (schedules st) i = Some s \<Longrightarrow> i = sch_id s" for i
    using assms by (simp add: schedules_ok_def)
  ultimately show ?thesis by (force simp: due_def)
qed

lemma schedules_ok_ids: "schedules_ok m \<Longrightarrow> map sch_id (map snd m) = map fst m"
  by (auto simp: schedules_ok_def om_wf_map_of_iff)

lemma due_distinct: "schedules_ok (schedules st) \<Longrightarrow> distinct (map sch_id (due now st))"
  unfolding due_def
  by (rule distinct_map_filter) (simp only: schedules_ok_ids, simp add: schedules_ok_def om_wf_distinct)

lemma due_ids_cong:
  assumes "schedules_ok (schedules st)" and "schedules_ok (schedules st')"
    and "\<And>i. map_option (\<lambda>s. (sch_id s, active s, scheduled_at s)) (map_of (schedules st') i)
      = map_option (\<lambda>s. (sch_id s, active s, scheduled_at s)) (map_of (schedules st) i)"
  shows "sch_id ` set (due now st') = sch_id ` set (due now st)"
proof -
  have *: "sch_id ` set (due now a) \<subseteq> sch_id ` set (due now b)"
    if a: "schedules_ok (schedules a)" and b: "schedules_ok (schedules b)"
      and same: "\<And>i. map_option (\<lambda>s. (sch_id s, active s, scheduled_at s)) (map_of (schedules b) i)
        = map_option (\<lambda>s. (sch_id s, active s, scheduled_at s)) (map_of (schedules a) i)" for a b
  proof
    fix i assume "i \<in> sch_id ` set (due now a)"
    then obtain s where s: "map_of (schedules a) i = Some s" "active s" "scheduled_at s \<le> now"
      "sch_id s = i"
      using due_iff [OF a] by auto
    with same [of i] obtain s' where "map_of (schedules b) i = Some s'" "sch_id s' = i" "active s'"
      "scheduled_at s' \<le> now"
      by auto
    then have "s' \<in> set (due now b)" using due_iff [OF b] by auto
    with \<open>sch_id s' = i\<close> show "i \<in> sch_id ` set (due now b)" by blast
  qed
  show ?thesis
    using * [of st st'] * [of st' st] assms by (simp add: set_eq_subset)
qed

lemma poll_clears:
  assumes ok: "schedules_ok (schedules st)" and now: "now < 2 ^ 63"
    and p: "poll enc wr now running st = (Inr fs, st')"
  shows "due now st' = []"
    and "sch_id ` set (due now st) = fire_id ` {f \<in> set fs. fire_decision f \<noteq> Released}"
    and "distinct (map fire_id (filter (\<lambda>f. fire_decision f \<noteq> Released) fs))"
proof -
  obtain rs st1 where r: "release_held enc wr now running (list_schedules st) st = (Inr rs, st1)"
    and "\<exists>ds. decide_due enc wr now running
        (sort_key (\<lambda>s. (scheduled_at s, sch_id s)) (due now st1)) st1 = (Inr ds, st') \<and> fs = rs @ ds"
    using p by (auto simp: poll_def split: prod.splits sum.splits)
  then obtain ds where d: "decide_due enc wr now running
        (sort_key (\<lambda>s. (scheduled_at s, sch_id s)) (due now st1)) st1 = (Inr ds, st')"
    and fs: "fs = rs @ ds" by blast
  have ok1: "schedules_ok (schedules st1)" using release_held_ok [OF r ok now] .
  have wf: "om_wf (schedules st)" using ok by (simp add: schedules_ok_def)
  note k = release_held_keeps [OF r wf]
  let ?ds = "sort_key (\<lambda>s. (scheduled_at s, sch_id s)) (due now st1)"
  let ?cs = "map (\<lambda>s. \<lparr>ch_id = sch_id s, ch_at = now,
                       ch_op = Dispatch now (decide (sch_id s \<in> running) s)\<rparr>) ?ds"
  note c = decide_due_changes [OF d]
  have ids: "sch_id ` set (due now st1) = sch_id ` set (due now st)"
    using due_ids_cong [OF ok ok1] k by blast
  have f: "filter (\<lambda>f. fire_decision f \<noteq> Released) fs = ds"
    using k c by (simp add: fs filter_empty_conv filter_id_conv)
  show "sch_id ` set (due now st) = fire_id ` {f \<in> set fs. fire_decision f \<noteq> Released}"
  proof -
    have "set (map fire_id ds) = sch_id ` set (due now st1)" using c by simp
    then show ?thesis using f ids by (metis set_filter list.set_map)
  qed
  show "distinct (map fire_id (filter (\<lambda>f. fire_decision f \<noteq> Released) fs))"
    using due_distinct [OF ok1, of now] c by (simp add: f distinct_map)
  have "\<not> (active s \<and> scheduled_at s \<le> now)" if "map_of (schedules st') i = Some s" for i s
  proof -
    let ?own = "filter (\<lambda>c. ch_id c = i) ?cs"
    have s: "foldl change_one (map_of (schedules st1) i) ?own = Some s"
      using that c by (simp add: schedule_fold.fold_own)
    have own: "\<forall>c\<in>set ?own. \<exists>d. ch_op c = Dispatch now d \<and> d \<noteq> Released"
      by (auto simp: decide_def split: overlap_policy.split)
    show ?thesis
    proof (cases "map_of (schedules st1) i")
      case None
      have "foldl change_one None ?own = None"
        if "\<forall>c\<in>set ?own. \<exists>d. ch_op c = Dispatch now d \<and> d \<noteq> Released"
      proof -
        have "foldl change_one None cs = None"
          if "\<forall>c\<in>set cs. \<exists>d. ch_op c = Dispatch now d" for cs
          using that by (induction cs) (auto simp: change_one_def)
        with that show ?thesis by blast
      qed
      with own s None show ?thesis by simp
    next
      case (Some s1)
      then have s1: "sch_id s1 = i" "schedule_ok s1" using ok1 by (auto simp: schedules_ok_def)
      show ?thesis
      proof (cases "s1 \<in> set (due now st1)")
        case True
        then have "?own \<noteq> []" using s1 by (auto simp: filter_empty_conv)
        from dispatches_clear [OF own now s1(2) this] s Some show ?thesis by auto
      next
        case False
        then have "i \<notin> sch_id ` set (due now st1)"
          using due_iff [OF ok1] s1 Some by auto
        then have "?own = []" by (auto simp: filter_empty_conv)
        then have "s = s1" using s Some by simp
        then show ?thesis using False Some s1 due_iff [OF ok1, of s1 now] by auto
      qed
    qed
  qed
  moreover have "schedules_ok (schedules st')" using decide_due_ok [OF d ok1 now] .
  ultimately show "due now st' = []"
    using due_iff [of st' _ now] by (metis last_in_set)
qed



section \<open>The hold policy\<close>

text \<open>What any number of polls, all while the previous run is still going, make of a schedule.\<close>

definition busy_polls :: "u64 list \<Rightarrow> schedule \<Rightarrow> schedule" where
  "busy_polls ts s = foldl (\<lambda>s t. dispatch t (decide True s) s) s ts"

lemma advance_keeps [simp]:
  "held (advance t s) = held s" "dispatches (advance t s) = dispatches s"
  "sch_overlap (advance t s) = sch_overlap s"
  by (simp_all add: advance_def split: schedule_rule.split)

lemma busy_polls_held:
  assumes "sch_overlap s = Hold" and "held s = Some h"
  shows "held (busy_polls ts s) = Some h \<and> dispatches (busy_polls ts s) = dispatches s"
  using assms by (induction ts arbitrary: s) (simp_all add: busy_polls_def decide_def)

text \<open>
  Under the hold policy a backlog of any length keeps one occurrence, the first: it is
  dispatched by nothing while the run goes on, and the release after it dispatches exactly once
  and leaves nothing held.
\<close>

theorem schedule_hold_policy:
  assumes "sch_overlap s = Hold" and "held s = None" and "ts \<noteq> []"
  shows "held (busy_polls ts s) = Some (occurrence_of s (hd ts))
    \<and> dispatches (busy_polls ts s) = dispatches s
    \<and> held (dispatch t Released (busy_polls ts s)) = None
    \<and> dispatches (dispatch t Released (busy_polls ts s)) = dispatches s + 1"
proof -
  obtain t0 ts' where ts: "ts = t0 # ts'" using assms(3) by (cases ts) auto
  have "busy_polls ts s = busy_polls ts' (dispatch t0 (decide True s) s)"
    by (simp add: busy_polls_def ts)
  moreover have "decide True s = Held" using assms by (simp add: decide_def)
  ultimately show ?thesis
    using busy_polls_held [of "dispatch t0 Held s" "occurrence_of s t0" ts'] assms(1)
    by (simp add: ts)
qed

theorem schedule_hold_policy_witness:
  "held (busy_polls [1100000, 1180000, 1250000] (the (get_schedule ''schedule-1'' demo_created)))
     = Some 1050000"
proof -
  let ?s = "the (get_schedule ''schedule-1'' demo_created)"
  have "sch_overlap ?s = Hold" and "held ?s = None" and "occurrence_of ?s 1100000 = 1050000"
    by code_simp+
  with schedule_hold_policy [of ?s "[1100000, 1180000, 1250000]"] show ?thesis by simp
qed

end
