(* ===== verification/Effects.thy ===== *)
theory Effects
  imports Prelude
begin

text \<open>
  The reversible effects of \<^verbatim>\<open>crates/core/src/effects.rs\<close>.  An undo closure is a function on the
  state of the world \<^typ>\<open>'w\<close> it acts on, answering the payload of the panic it may end in.  The
  closure that \<^verbatim>\<open>into_handle\<close> builds around an inner scope is its own constructor, because it
  owns the inner scope's handles.
\<close>

datatype effect_error = Failed string

text \<open>A panic's payload: a static string, an owned string, or anything else.\<close>

datatype payload = StaticStr string | OwnedString string | Opaque

fun panicked :: "payload \<Rightarrow> string" where
  "panicked (StaticStr m) = m"
| "panicked (OwnedString m) = m"
| "panicked Opaque = ''the undo panicked''"

text \<open>A handle is forgotten, or holds an undo, or holds a whole inner scope.\<close>

datatype 'w effect_handle =
    Forgotten
  | Undo "'w \<Rightarrow> payload option \<times> 'w"
  | Nested "'w effect_handle list"

record 'w effect_scope =
  effects :: "'w effect_handle list"

definition new_scope :: "'w effect_scope" where
  "new_scope = \<lparr>effects = []\<rparr>"

definition keep :: "'w effect_handle \<Rightarrow> 'w effect_scope \<Rightarrow> 'w effect_scope" where
  "keep h s = s\<lparr>effects := effects s @ [h]\<rparr>"

definition on_unwind :: "('w \<Rightarrow> payload option \<times> 'w) \<Rightarrow> 'w effect_scope \<Rightarrow> 'w effect_scope" where
  "on_unwind undo s = keep (Undo undo) s"

text \<open>
  Dropping a handle runs its undo.  \<open>unwind_all\<close> takes the handles newest first and catches
  every panic; the closure of an inner scope discards the faults of its own unwinding.
\<close>

lemma size_list_rev: "size_list f (rev xs) = size_list f xs"
  by (simp add: size_list_conv_sum_list rev_map [symmetric])

function drop_handle :: "'w effect_handle \<Rightarrow> 'w \<Rightarrow> payload option \<times> 'w"
  and unwind_all :: "'w effect_handle list \<Rightarrow> 'w \<Rightarrow> effect_error list \<times> 'w"
where
  "drop_handle Forgotten w = (None, w)"
| "drop_handle (Undo f) w = f w"
| "drop_handle (Nested hs) w = (None, snd (unwind_all (rev hs) w))"
| "unwind_all [] w = ([], w)"
| "unwind_all (h # hs) w =
     (let (panic, w1) = drop_handle h w; (faults, w2) = unwind_all hs w1
      in ((case panic of Some p \<Rightarrow> [Failed (panicked p)] | None \<Rightarrow> []) @ faults, w2))"
  by pat_completeness auto
termination
  by (relation "measure (\<lambda>x. case x of Inl (h, _) \<Rightarrow> 2 * size h
                           | Inr (hs, _) \<Rightarrow> 2 * size_list size hs + 1)")
    (auto simp: size_list_rev)

text \<open>\<^verbatim>\<open>unwind\<close> pops from the end until the scope is empty.\<close>

definition unwind :: "'w effect_scope \<Rightarrow> 'w \<Rightarrow> effect_error list \<times> 'w effect_scope \<times> 'w" where
  "unwind s w = (let (faults, w') = unwind_all (rev (effects s)) w in (faults, s\<lparr>effects := []\<rparr>, w'))"

text \<open>Dropping a scope unwinds it and logs the faults.\<close>

definition drop_scope :: "'w effect_scope \<Rightarrow> 'w \<Rightarrow> 'w" where
  "drop_scope s w = snd (snd (unwind s w))"

fun forget_handle :: "'w effect_handle \<Rightarrow> 'w effect_handle" where
  "forget_handle _ = Forgotten"

text \<open>A forgotten scope drops its forgotten handles, which does nothing.\<close>

definition forget_scope :: "'w effect_scope \<Rightarrow> 'w \<Rightarrow> 'w" where
  "forget_scope s w = foldl (\<lambda>w h. snd (drop_handle (forget_handle h) w)) w (effects s)"

definition into_handle :: "'w effect_scope \<Rightarrow> 'w effect_handle" where
  "into_handle s = Nested (effects s)"

section \<open>The order of undoing\<close>

text \<open>The undos of a handle in the order they were registered, inner scopes in their place.\<close>

fun undos :: "'w effect_handle \<Rightarrow> ('w \<Rightarrow> payload option \<times> 'w) list" where
  "undos Forgotten = []"
| "undos (Undo f) = [f]"
| "undos (Nested hs) = concat (map undos hs)"

definition run_undos :: "('w \<Rightarrow> payload option \<times> 'w) list \<Rightarrow> 'w \<Rightarrow> 'w" where
  "run_undos fs w = foldl (\<lambda>w f. snd (f w)) w fs"

lemma run_undos_append: "run_undos (fs @ gs) w = run_undos gs (run_undos fs w)"
  by (simp add: run_undos_def)

lemma drop_unwind_order:
  "snd (drop_handle h w) = run_undos (rev (undos h)) w"
  "snd (unwind_all hs w) = run_undos (rev (concat (map undos (rev hs)))) w"
proof (induction h w and hs w rule: drop_handle_unwind_all.induct)
  case (5 h hs w)
  obtain p w1 where h: "drop_handle h w = (p, w1)" by (metis surj_pair)
  from "5.IH"(2) [OF h [symmetric] refl] "5.IH"(1) h show ?case
    by (simp add: case_prod_unfold Let_def run_undos_append)
qed (simp_all add: run_undos_def)

text \<open>
  Unwinding a scope undoes every effect still held, inner scopes included, exactly once and
  newest first, even when undos panic; it leaves the scope empty, so unwinding it again does and
  reports nothing, and a scope collapsed into a handle unwinds in the same way at its place in
  the outer scope.
\<close>

theorem unwind_newest_first:
  "unwind s w = (faults, s', w') \<Longrightarrow>
     w' = run_undos (rev (concat (map undos (effects s)))) w
     \<and> unwind s' w' = ([], s', w')
     \<and> snd (snd (unwind (keep (into_handle s) outer) v))
       = run_undos (rev (concat (map undos (effects outer))))
           (run_undos (rev (concat (map undos (effects s)))) v)"
  using drop_unwind_order(2) [of "rev (effects s)" w]
    drop_unwind_order(2) [of "rev (effects (keep (into_handle s) outer))" v]
  by (auto simp: unwind_def case_prod_unfold Let_def keep_def into_handle_def run_undos_append)

text \<open>Two undos that write their names, the second of which panics.\<close>

definition note_undo :: "string \<Rightarrow> payload option \<Rightarrow> string list \<Rightarrow> payload option \<times> string list" where
  "note_undo n p w = (p, w @ [n])"

definition demo_scope :: "string list effect_scope" where
  "demo_scope = on_unwind (note_undo ''b'' (Some Opaque)) (on_unwind (note_undo ''a'' None) new_scope)"

theorem unwind_newest_first_witness:
  "unwind demo_scope [] = ([Failed ''the undo panicked''], new_scope, [''b'', ''a''])
   \<and> unwind new_scope [''b'', ''a''] = ([], new_scope, [''b'', ''a''])"
proof -
  have "unwind demo_scope [] = ([Failed ''the undo panicked''], new_scope, [''b'', ''a''])"
    by (simp add: demo_scope_def on_unwind_def keep_def new_scope_def unwind_def note_undo_def)
  with unwind_newest_first [OF this] show ?thesis by blast
qed

end
