(* ===== verification/Plugins.thy ===== *)
theory Plugins
  imports Effects
begin

text \<open>
  The plugin registry of \<^verbatim>\<open>crates/core/src/registry.rs\<close>: insertion, the depth-first start order,
  the transactional boot and the shutdown.  A plugin is a value of the trait: its declared
  dependencies and what its \<^verbatim>\<open>start\<close> and \<^verbatim>\<open>stop\<close> do to the shared context \<^typ>\<open>'w\<close>.
\<close>

record 'w plugin =
  pl_deps :: "string list"
  pl_start :: "'w \<Rightarrow> effect_error option \<times> 'w"
  pl_stop :: "'w \<Rightarrow> effect_error option \<times> 'w"

type_synonym 'w registry = "(string, 'w plugin) omap"

datatype registry_error =
    Duplicate string
  | Cycle string
  | MissingDep string string  \<comment> \<open>missing, by\<close>
  | Start string effect_error

definition insert_plugin :: "string \<Rightarrow> 'w plugin \<Rightarrow> 'w registry \<Rightarrow> (registry_error + unit) \<times> 'w registry" where
  "insert_plugin i p ps =
     (if map_of ps i \<noteq> None then (Inl (Duplicate i), ps) else (Inr (), om_insert i p ps))"

text \<open>The marks 1 and 2 of the code; an absent entry is 0, not seen yet.\<close>

datatype mark = Visiting | Done

type_synonym walk = "(string, mark) omap \<times> string list"

text \<open>
  The recursive \<^verbatim>\<open>visit\<close> and its loop over the dependencies.  The first argument is fuel for the
  depth of the recursion and \<^const>\<open>None\<close> says it ran out; one more than the number of plugins is
  enough (lemma \<open>visit_fuel\<close>).
\<close>

function (sequential) visit :: "nat \<Rightarrow> 'w registry \<Rightarrow> string \<Rightarrow> walk \<Rightarrow> (registry_error + walk) option"
  and visit_deps :: "nat \<Rightarrow> 'w registry \<Rightarrow> string \<Rightarrow> string list \<Rightarrow> walk \<Rightarrow> (registry_error + walk) option"
where
  "visit 0 ps i (st, order) = None"
| "visit (Suc n) ps i (st, order) =
     (case map_of st i of
        Some Visiting \<Rightarrow> Some (Inl (Cycle i))
      | Some Done \<Rightarrow> Some (Inr (st, order))
      | None \<Rightarrow>
          (case map_of ps i of
             None \<Rightarrow> Some (Inl (MissingDep i i))
           | Some p \<Rightarrow>
               (case visit_deps n ps i (pl_deps p) (om_insert i Visiting st, order) of
                  None \<Rightarrow> None
                | Some (Inl e) \<Rightarrow> Some (Inl e)
                | Some (Inr (st', order')) \<Rightarrow>
                    Some (Inr (om_insert i Done st', order' @ [i])))))"
| "visit_deps n ps i [] w = Some (Inr w)"
| "visit_deps n ps i (d # ds) w =
     (case map_of ps d of
        None \<Rightarrow> Some (Inl (MissingDep d i))
      | Some _ \<Rightarrow>
          (case visit n ps d w of
             None \<Rightarrow> None
           | Some (Inl e) \<Rightarrow> Some (Inl e)
           | Some (Inr w') \<Rightarrow> visit_deps n ps i ds w'))"
  by pat_completeness auto
termination
  by (relation "inv_image (less_than <*lex*> less_than) (case_sum
       (\<lambda>(n, _, _, _). (n, 0)) (\<lambda>(n, _, _, ds, _). (n, Suc (length ds))))") auto

fun visit_each :: "nat \<Rightarrow> 'w registry \<Rightarrow> string list \<Rightarrow> walk \<Rightarrow> (registry_error + walk) option" where
  "visit_each n ps [] w = Some (Inr w)"
| "visit_each n ps (i # js) w =
     (case visit n ps i w of
        None \<Rightarrow> None
      | Some (Inl e) \<Rightarrow> Some (Inl e)
      | Some (Inr w') \<Rightarrow> visit_each n ps js w')"

definition start_order :: "'w registry \<Rightarrow> (registry_error + string list) option" where
  "start_order ps =
     map_option (map_sum id snd) (visit_each (length ps + 1) ps (map fst ps) ([], []))"

text \<open>Stopping collects what failed; \<^const>\<open>the\<close> is the code's \<^verbatim>\<open>expect\<close> on its own ids.\<close>

fun stop_each :: "'w registry \<Rightarrow> string list \<Rightarrow> 'w \<Rightarrow> (string \<times> effect_error) list \<times> 'w" where
  "stop_each ps [] w = ([], w)"
| "stop_each ps (i # js) w =
     (let (err, w1) = pl_stop (the (map_of ps i)) w; (faults, w2) = stop_each ps js w1
      in ((case err of Some e \<Rightarrow> [(i, e)] | None \<Rightarrow> []) @ faults, w2))"

fun start_each ::
  "'w registry \<Rightarrow> string list \<Rightarrow> string list \<Rightarrow> 'w \<Rightarrow> (registry_error + unit) \<times> 'w"
where
  "start_each ps started [] w = (Inr (), w)"
| "start_each ps started (i # js) w =
     (case pl_start (the (map_of ps i)) w of
        (Some e, w1) \<Rightarrow> (Inl (Start i e), snd (stop_each ps (rev started) w1))
      | (None, w1) \<Rightarrow> start_each ps (started @ [i]) js w1)"

definition start_all :: "'w registry \<Rightarrow> 'w \<Rightarrow> ((registry_error + string list) \<times> 'w) option" where
  "start_all ps w =
     (case start_order ps of
        None \<Rightarrow> None
      | Some (Inl e) \<Rightarrow> Some (Inl e, w)
      | Some (Inr order) \<Rightarrow>
          (case start_each ps [] order w of
             (Inl e, w') \<Rightarrow> Some (Inl e, w')
           | (Inr _, w') \<Rightarrow> Some (Inr order, w')))"

definition stop_all ::
  "'w registry \<Rightarrow> 'w \<Rightarrow> ((registry_error + (string \<times> effect_error) list) \<times> 'w) option"
where
  "stop_all ps w =
     (case start_order ps of
        None \<Rightarrow> None
      | Some (Inl e) \<Rightarrow> Some (Inl e, w)
      | Some (Inr order) \<Rightarrow> (let (faults, w') = stop_each ps (rev order) w in Some (Inr faults, w')))"

section \<open>The walk\<close>

definition dep :: "'w registry \<Rightarrow> (string \<times> string) set" where
  "dep ps = {(i, d). \<exists>p. map_of ps i = Some p \<and> d \<in> set (pl_deps p)}"

text \<open>Every plugin of the list comes after all its dependencies.\<close>

definition deps_before :: "'w registry \<Rightarrow> string list \<Rightarrow> bool" where
  "deps_before ps order \<longleftrightarrow>
     (\<forall>n < length order. \<forall>d. (order ! n, d) \<in> dep ps \<longrightarrow> d \<in> set (take n order))"

lemma deps_before_snoc:
  "deps_before ps (order @ [i]) \<longleftrightarrow> deps_before ps order \<and> (\<forall>d. (i, d) \<in> dep ps \<longrightarrow> d \<in> set order)"
  by (auto simp: deps_before_def less_Suc_eq nth_append)

definition walk_ok :: "'w registry \<Rightarrow> walk \<Rightarrow> bool" where
  "walk_ok ps w \<longleftrightarrow>
     (\<forall>k. map_of (fst w) k = Some Done \<longleftrightarrow> k \<in> set (snd w)) \<and> distinct (snd w)
     \<and> set (snd w) \<subseteq> dom (map_of ps) \<and> deps_before ps (snd w)"

definition visiting :: "walk \<Rightarrow> string set" where
  "visiting w = {k. map_of (fst w) k = Some Visiting}"

text \<open>Why a visit that started at one of \<open>is\<close> may be refused.\<close>

definition blamed :: "'w registry \<Rightarrow> walk \<Rightarrow> string set \<Rightarrow> registry_error \<Rightarrow> bool" where
  "blamed ps w is e \<longleftrightarrow>
     (case e of
        Cycle c \<Rightarrow> (c, c) \<in> (dep ps)\<^sup>+ \<or> c \<in> visiting w \<and> (\<exists>i\<in>is. (i, c) \<in> (dep ps)\<^sup>*)
      | MissingDep m b \<Rightarrow> map_of ps m = None \<and> (b, m) \<in> dep ps
      | _ \<Rightarrow> False)"

definition walk_post :: "'w registry \<Rightarrow> walk \<Rightarrow> string set \<Rightarrow> registry_error + walk \<Rightarrow> bool" where
  "walk_post ps w is r \<longleftrightarrow>
     (case r of
        Inl e \<Rightarrow> blamed ps w is e
      | Inr w' \<Rightarrow> walk_ok ps w' \<and> visiting w' = visiting w \<and> set (snd w) \<subseteq> set (snd w')
                   \<and> is \<subseteq> set (snd w'))"

lemma walk_enter:
  assumes "walk_ok ps (st, order)" and "map_of st i = None"
  shows "walk_ok ps (om_insert i Visiting st, order)"
    and "visiting (om_insert i Visiting st, order) = insert i (visiting (st, order))"
    and "i \<notin> visiting (st, order)"
proof -
  have "i \<notin> set order" using assms unfolding walk_ok_def by (metis fst_conv option.distinct(1) snd_conv)
  with assms show "walk_ok ps (om_insert i Visiting st, order)"
    and "visiting (om_insert i Visiting st, order) = insert i (visiting (st, order))"
    and "i \<notin> visiting (st, order)"
    by (auto simp: walk_ok_def visiting_def)
qed

lemma walk_leave:
  assumes "walk_ok ps (st, order)" and "i \<in> visiting (st, order)" and "map_of ps i = Some p"
    and "set (pl_deps p) \<subseteq> set order"
  shows "walk_ok ps (om_insert i Done st, order @ [i])"
    and "visiting (om_insert i Done st, order @ [i]) = visiting (st, order) - {i}"
proof -
  have "map_of st i = Some Visiting" using assms(2) by (simp add: visiting_def)
  then have "i \<notin> set order" using assms(1) by (auto simp: walk_ok_def dest!: spec [of _ i])
  with assms show "walk_ok ps (om_insert i Done st, order @ [i])"
    and "visiting (om_insert i Done st, order @ [i]) = visiting (st, order) - {i}"
    by (auto simp: walk_ok_def visiting_def deps_before_snoc dep_def)
qed

lemma visit_post:
  "walk_ok ps (st, order) \<Longrightarrow> map_of ps i \<noteq> None \<Longrightarrow> visit n ps i (st, order) = Some r
     \<Longrightarrow> walk_post ps (st, order) {i} r"
  "walk_ok ps w \<Longrightarrow> map_of ps i = Some p \<Longrightarrow> set ds \<subseteq> set (pl_deps p) \<Longrightarrow> visit_deps n ps i ds w = Some s
     \<Longrightarrow> walk_post ps w (set ds) s"
proof (induction n ps i "(st, order)" and n ps i ds w arbitrary: st order r and p s
    rule: visit_visit_deps.induct)
  case (2 n ps i st order)
  show ?case
  proof (cases "map_of st i")
    case None
    from "2.prems" obtain p where p: "map_of ps i = Some p" by blast
    let ?w1 = "(om_insert i Visiting st, order)"
    note enter = walk_enter [OF "2.prems"(1) None]
    have post: "walk_post ps ?w1 (set (pl_deps p)) s" if "visit_deps n ps i (pl_deps p) ?w1 = Some s" for s
      using "2.hyps" [OF None p enter(1) p order.refl that] .
    have step: "(i, d) \<in> dep ps" if "d \<in> set (pl_deps p)" for d
      using that p by (auto simp: dep_def)
    from "2.prems"(3) None p obtain s where s: "visit_deps n ps i (pl_deps p) ?w1 = Some s"
      by (auto split: option.splits)
    show ?thesis
    proof (cases s)
      case (Inl e)
      with "2.prems"(3) None p s have r: "r = Inl e" by simp
      have "blamed ps ?w1 (set (pl_deps p)) e" using post [OF s] Inl by (simp add: walk_post_def)
      then have "blamed ps (st, order) {i} e"
        using enter(2) step
        by (auto simp: blamed_def split: registry_error.splits
            intro: rtrancl_into_trancl2 converse_rtrancl_into_rtrancl)
      then show ?thesis by (simp add: r walk_post_def)
    next
      case (Inr w2)
      obtain st2 order2 where w2: "w2 = (st2, order2)" by (metis surj_pair)
      with "2.prems"(3) None p s Inr have r: "r = Inr (om_insert i Done st2, order2 @ [i])" by simp
      have ok: "walk_ok ps (st2, order2)" "visiting (st2, order2) = insert i (visiting (st, order))"
        "set order \<subseteq> set order2" "set (pl_deps p) \<subseteq> set order2"
        using post [OF s] Inr w2 enter(2) by (auto simp: walk_post_def)
      then show ?thesis
        using walk_leave [OF ok(1) _ p ok(4)] enter(3) by (auto simp: r walk_post_def)
    qed
  next
    case (Some m)
    with "2.prems" show ?thesis
      by (cases m) (auto simp: walk_post_def blamed_def visiting_def walk_ok_def)
  qed
next
  case (4 n ps i d ds w)
  have step: "(i, d) \<in> dep ps" using "4.prems" by (auto simp: dep_def)
  obtain st order where w: "w = (st, order)" by (metis surj_pair)
  show ?case
  proof (cases "map_of ps d")
    case None
    with "4.prems" step show ?thesis by (auto simp: walk_post_def blamed_def)
  next
    case (Some q)
    with "4.prems" w obtain r where r: "visit n ps d (st, order) = Some r" by (auto split: option.splits)
    have post: "walk_post ps (st, order) {d} r"
      using "4.hyps"(1) [OF Some w] "4.prems"(1) Some r w by simp
    show ?thesis
    proof (cases r)
      case (Inl e)
      with "4.prems" Some r w post show ?thesis
        by (auto simp: walk_post_def blamed_def split: registry_error.splits)
    next
      case (Inr w1)
      then have s: "visit_deps n ps i ds w1 = Some s" using "4.prems" Some r w by simp
      have ok: "walk_ok ps w1" "visiting w1 = visiting w" "set (snd w) \<subseteq> set (snd w1)" "d \<in> set (snd w1)"
        using post Inr w by (auto simp: walk_post_def)
      have "walk_post ps w1 (set ds) s"
        using "4.hyps"(2) [OF Some] r Inr ok(1) "4.prems"(2,3) s w by auto
      with ok show ?thesis
        by (cases s) (auto simp: walk_post_def blamed_def split: registry_error.splits)
    qed
  qed
qed (auto simp: walk_post_def)

section \<open>The fuel is enough\<close>

definition unseen :: "'w registry \<Rightarrow> walk \<Rightarrow> nat" where
  "unseen ps w = card {k \<in> dom (map_of ps). map_of (fst w) k = None}"

lemma finite_unseen: "finite {k \<in> dom (map_of ps). P k}"
  using finite_dom_map_of [of ps] by (rule rev_finite_subset) blast

lemma unseen_mono: "dom (map_of (fst w)) \<subseteq> dom (map_of (fst w')) \<Longrightarrow> unseen ps w' \<le> unseen ps w"
  unfolding unseen_def by (rule card_mono [OF finite_unseen]) (auto simp: domIff)

lemma unseen_enter:
  assumes "map_of st i = None" and "map_of ps i = Some p"
  shows "unseen ps (om_insert i m st, order) < unseen ps (st, order')"
  unfolding unseen_def using assms
  by (intro psubset_card_mono [OF finite_unseen]) auto

lemma visit_seen:
  "visit n ps i (st, order) = Some (Inr w') \<Longrightarrow> dom (map_of st) \<subseteq> dom (map_of (fst w'))"
  "visit_deps n ps i ds w = Some (Inr w') \<Longrightarrow> dom (map_of (fst w)) \<subseteq> dom (map_of (fst w'))"
proof (induction n ps i "(st, order)" and n ps i ds w arbitrary: st order w' and w'
    rule: visit_visit_deps.induct)
  case (2 n ps i st order)
  show ?case
  proof (cases "map_of st i")
    case None
    with "2.prems" obtain p st2 order2 where p: "map_of ps i = Some p"
      and d: "visit_deps n ps i (pl_deps p) (om_insert i Visiting st, order) = Some (Inr (st2, order2))"
      and w': "w' = (om_insert i Done st2, order2 @ [i])"
      by (auto split: option.splits sum.splits prod.splits)
    have "dom (map_of (om_insert i Visiting st)) \<subseteq> dom (map_of st2)"
      using "2.hyps" [OF None p d] by (simp only: fst_conv)
    moreover have "dom (map_of st) \<subseteq> dom (map_of (om_insert i Visiting st))" by auto
    ultimately have "dom (map_of st) \<subseteq> dom (map_of st2)" by (rule order_trans [rotated])
    then show ?thesis by (auto simp: w')
  next
    case (Some m)
    with "2.prems" show ?thesis by (cases m) auto
  qed
next
  case (4 n ps i d ds w)
  from "4.prems" obtain q w1 where "map_of ps d = Some q" "visit n ps d w = Some (Inr w1)"
    "visit_deps n ps i ds w1 = Some (Inr w')"
    by (auto split: option.splits sum.splits)
  note found = this
  obtain st order where w: "w = (st, order)" by (metis surj_pair)
  have "dom (map_of (fst w)) \<subseteq> dom (map_of (fst w1))"
    using "4.hyps"(1) [OF found(1) w] found(2) w by simp
  moreover have "dom (map_of (fst w1)) \<subseteq> dom (map_of (fst w'))"
    using "4.hyps"(2) [OF found(1,2) _ found(3)] by simp
  ultimately show ?case by (rule order_trans)
qed simp_all

lemma visit_fuel:
  "unseen ps (st, order) < n \<Longrightarrow> visit n ps i (st, order) \<noteq> None"
  "unseen ps w < n \<Longrightarrow> visit_deps n ps i ds w \<noteq> None"
proof (induction n ps i "(st, order)" and n ps i ds w arbitrary: st order
    rule: visit_visit_deps.induct)
  case (2 n ps i st order)
  show ?case
  proof (cases "map_of st i = None \<and> map_of ps i \<noteq> None")
    case True
    then obtain p where p: "map_of ps i = Some p" and n: "map_of st i = None" by blast
    have "unseen ps (om_insert i Visiting st, order) < n"
      using unseen_enter [OF n p, of Visiting order order] "2.prems" by simp
    from "2.hyps" [OF n p this] show ?thesis
      using n p by (auto split: sum.splits prod.splits)
  next
    case False
    then show ?thesis by (auto split: option.splits mark.splits)
  qed
next
  case (4 n ps i d ds w)
  obtain st order where w: "w = (st, order)" by (metis surj_pair)
  show ?case
  proof (cases "map_of ps d")
    case (Some q)
    then obtain r where r: "visit n ps d w = Some r" using "4.hyps"(1) [OF Some w] "4.prems" w by auto
    show ?thesis
    proof (cases r)
      case (Inr w1)
      have "unseen ps w1 \<le> unseen ps w"
        using visit_seen(1) [of n ps d st order w1] r Inr w by (intro unseen_mono) simp
      then have "visit_deps n ps i ds w1 \<noteq> None"
        using "4.hyps"(2) [OF Some r Inr] "4.prems" by simp
      with Some r Inr show ?thesis by simp
    qed (use Some r in simp)
  qed simp
qed simp_all

section \<open>The start order\<close>

lemma visit_each_post:
  "walk_ok ps w \<Longrightarrow> visiting w = {} \<Longrightarrow> set js \<subseteq> dom (map_of ps) \<Longrightarrow> visit_each n ps js w = Some r
     \<Longrightarrow> walk_post ps w (set js) r"
proof (induction n ps js w arbitrary: r rule: visit_each.induct)
  case (2 n ps i js w)
  then obtain r1 where r1: "visit n ps i w = Some r1" by (auto split: option.splits)
  have "walk_post ps (fst w, snd w) {i} r1"
    by (rule visit_post(1)) (use "2.prems" r1 in auto)
  then have post: "walk_post ps w {i} r1" by simp
  show ?case
  proof (cases r1)
    case (Inl e)
    with "2.prems" r1 post show ?thesis
      by (auto simp: walk_post_def blamed_def split: registry_error.splits)
  next
    case (Inr w1)
    then have ok: "walk_ok ps w1" "visiting w1 = {}" "set (snd w) \<subseteq> set (snd w1)" "i \<in> set (snd w1)"
      using post "2.prems"(2) by (auto simp: walk_post_def)
    then have "walk_post ps w1 (set js) r"
      using "2.IH" [OF r1 Inr ok(1,2)] "2.prems" r1 Inr by simp
    with ok "2.prems"(2) show ?thesis
      by (cases r) (auto simp: walk_post_def blamed_def split: registry_error.splits)
  qed
qed (auto simp: walk_post_def)

lemma visit_each_fuel: "unseen ps w < n \<Longrightarrow> visit_each n ps js w \<noteq> None"
proof (induction n ps js w rule: visit_each.induct)
  case (2 n ps i js w)
  then obtain r1 where r1: "visit n ps i w = Some r1"
    using visit_fuel(1) [of ps "fst w" "snd w" n i] by auto
  show ?case
  proof (cases r1)
    case (Inr w1)
    have "unseen ps w1 \<le> unseen ps w"
      using visit_seen(1) [of n ps i "fst w" "snd w" w1] r1 Inr by (intro unseen_mono) simp
    with "2.IH" [OF r1 Inr] "2.prems" r1 Inr show ?thesis by simp
  qed (use r1 in simp)
qed simp

lemma start_order_cases:
  obtains (refused) e where "start_order ps = Some (Inl e)" and "blamed ps ([], []) {} e"
  | (ordered) order where "start_order ps = Some (Inr order)" and "distinct order"
      and "set order = dom (map_of ps)" and "deps_before ps order"
proof -
  let ?w = "([], []) :: walk"
  have "card {k \<in> dom (map_of ps). map_of (fst ?w) k = None} \<le> length ps"
    using card_mono [OF finite_set, of "{k \<in> dom (map_of ps). map_of (fst ?w) k = None}" "map fst ps"]
      length_map [of fst ps] card_length [of "map fst ps"]
    by (auto simp: dom_map_of_conv_image_fst intro: order_trans)
  then have "unseen ps ?w < length ps + 1" unfolding unseen_def by linarith
  then obtain r where r: "visit_each (length ps + 1) ps (map fst ps) ?w = Some r"
    using visit_each_fuel by blast
  have "walk_ok ps ?w" and v: "visiting ?w = {}"
    by (simp_all add: walk_ok_def visiting_def deps_before_def)
  then have post: "walk_post ps ?w (set (map fst ps)) r"
    by (rule visit_each_post [OF _ _ _ r]) (simp add: dom_map_of_conv_image_fst)
  show thesis
  proof (cases r)
    case (Inl e)
    then have "blamed ps ?w {} e"
      using post v by (auto simp: walk_post_def blamed_def split: registry_error.splits)
    with Inl r show ?thesis by (intro refused) (simp_all add: start_order_def)
  next
    case (Inr w')
    with r have "start_order ps = Some (Inr (snd w'))" by (simp add: start_order_def)
    moreover have "walk_ok ps w'" "set (map fst ps) \<subseteq> set (snd w')" using post Inr by (simp_all add: walk_post_def)
    ultimately show ?thesis
      by (intro ordered) (auto simp: walk_ok_def dom_map_of_conv_image_fst)
  qed
qed

text \<open>
  C39. The start order always comes back: either it lists every plugin once, each after all its
  dependencies, or it names a plugin that is on a dependency cycle or a dependency that is not
  registered.  So a registry whose dependencies are all there and acyclic always boots in order.
\<close>

theorem start_order_correct:
  "(\<exists>order. start_order ps = Some (Inr order) \<and> distinct order \<and> set order = dom (map_of ps)
       \<and> deps_before ps order)
   \<or> (\<exists>c. start_order ps = Some (Inl (Cycle c)) \<and> (c, c) \<in> (dep ps)\<^sup>+)
   \<or> (\<exists>m b. start_order ps = Some (Inl (MissingDep m b)) \<and> map_of ps m = None \<and> (b, m) \<in> dep ps)"
proof (cases rule: start_order_cases [of ps])
  case (refused e)
  then show ?thesis by (cases e) (auto simp: blamed_def visiting_def)
qed blast

section \<open>Boot and shutdown\<close>

definition starts :: "'w registry \<Rightarrow> string list \<Rightarrow> 'w \<Rightarrow> 'w" where
  "starts ps js w = foldl (\<lambda>w i. snd (pl_start (the (map_of ps i)) w)) w js"

definition stops :: "'w registry \<Rightarrow> string list \<Rightarrow> 'w \<Rightarrow> 'w" where
  "stops ps js w = foldl (\<lambda>w i. snd (pl_stop (the (map_of ps i)) w)) w js"

lemma starts_stops_simps [simp]:
  "starts ps [] w = w" "starts ps (i # js) w = starts ps js (snd (pl_start (the (map_of ps i)) w))"
  "stops ps [] w = w" "stops ps (i # js) w = stops ps js (snd (pl_stop (the (map_of ps i)) w))"
  by (simp_all add: starts_def stops_def)

lemma stop_each_runs: "snd (stop_each ps js w) = stops ps js w"
  by (induction js arbitrary: w) (simp_all add: stops_def case_prod_unfold Let_def)

lemma Cons_split_iff:
  "(\<exists>pre post. x # xs = pre @ k # post \<and> P pre)
     \<longleftrightarrow> x = k \<and> P [] \<or> (\<exists>pre post. xs = pre @ k # post \<and> P (x # pre))" (is "?L \<longleftrightarrow> ?R")
proof
  assume ?L then show ?R by (auto simp: Cons_eq_append_conv)
next
  assume ?R then show ?L
  proof (elim disjE conjE exE)
    assume "x = k" and "P []"
    then show ?L by (intro exI [of _ "[]"] exI [of _ xs]) simp
  next
    fix pre post assume "xs = pre @ k # post" and "P (x # pre)"
    then show ?L by (intro exI [of _ "x # pre"] exI [of _ post]) simp
  qed
qed

lemma stop_each_faults:
  "(k, e) \<in> set (fst (stop_each ps js w)) \<longleftrightarrow>
     (\<exists>pre post. js = pre @ k # post \<and> fst (pl_stop (the (map_of ps k)) (stops ps pre w)) = Some e)"
proof (induction js arbitrary: w)
  case (Cons i js)
  obtain o1 w1 where s: "pl_stop (the (map_of ps i)) w = (o1, w1)" by (metis surj_pair)
  have 1: "(k, e) \<in> set (fst (stop_each ps (i # js) w)) \<longleftrightarrow>
      (k = i \<and> o1 = Some e) \<or> (k, e) \<in> set (fst (stop_each ps js w1))"
    by (auto simp: s case_prod_unfold Let_def split: option.splits)
  show ?case
    unfolding 1 Cons.IH Cons_split_iff using s by auto
qed simp

lemma start_each_cases:
  assumes "start_each ps started js w = (r, w')"
  shows "r = Inr () \<and> w' = starts ps js w
    \<or> (\<exists>pre i post e. js = pre @ i # post \<and> r = Inl (Start i e)
        \<and> fst (pl_start (the (map_of ps i)) (starts ps pre w)) = Some e
        \<and> w' = stops ps (rev (started @ pre)) (snd (pl_start (the (map_of ps i)) (starts ps pre w))))"
  using assms
proof (induction ps started js w rule: start_each.induct)
  case (2 ps started i js w)
  obtain o1 w1 where s: "pl_start (the (map_of ps i)) w = (o1, w1)" by (metis surj_pair)
  show ?case
  proof (cases o1)
    case None
    with "2.IH" [OF s [symmetric] None] "2.prems" s
    have "r = Inr () \<and> w' = starts ps js w1
      \<or> (\<exists>pre k post e. js = pre @ k # post \<and> r = Inl (Start k e)
          \<and> fst (pl_start (the (map_of ps k)) (starts ps pre w1)) = Some e
          \<and> w' = stops ps (rev ((started @ [i]) @ pre)) (snd (pl_start (the (map_of ps k)) (starts ps pre w1))))"
      by simp
    then show ?thesis
    proof (elim disjE exE conjE)
      fix pre k post e
      assume "js = pre @ k # post" "r = Inl (Start k e)"
        "fst (pl_start (the (map_of ps k)) (starts ps pre w1)) = Some e"
        "w' = stops ps (rev ((started @ [i]) @ pre)) (snd (pl_start (the (map_of ps k)) (starts ps pre w1)))"
      then show ?thesis
        using s by (intro disjI2 exI [of _ "i # pre"] exI [of _ k] exI [of _ post] exI [of _ e])
          (auto simp: starts_def)
    qed (use s in \<open>simp add: starts_def\<close>)
  next
    case (Some e)
    with "2.prems" s have "r = Inl (Start i e)" "w' = stops ps (rev started) w1"
      by (auto simp: stop_each_runs [symmetric])
    with s Some show ?thesis
      by (intro disjI2 exI [of _ "[]"] exI [of _ i] exI [of _ js] exI [of _ e]) (auto simp: starts_def)
  qed
qed (simp add: starts_def)

text \<open>
  Boot is transactional: it starts the plugins in the start order and either starts them all,
  or stops at the first that fails, having stopped exactly the ones already started, dependents
  first, and not the one that failed.
\<close>

theorem start_all_transactional:
  assumes "start_order ps = Some (Inr order)"
  shows "start_all ps w = Some (Inr order, starts ps order w)
    \<or> (\<exists>pre i post e. order = pre @ i # post
        \<and> fst (pl_start (the (map_of ps i)) (starts ps pre w)) = Some e
        \<and> start_all ps w = Some (Inl (Start i e),
            stops ps (rev pre) (snd (pl_start (the (map_of ps i)) (starts ps pre w)))))"
proof -
  obtain r w' where s: "start_each ps [] order w = (r, w')" by (metis surj_pair)
  have "start_all ps w = Some (map_sum id (\<lambda>_. order) r, w')"
    using assms s by (cases r) (simp_all add: start_all_def)
  with start_each_cases [OF s] show ?thesis by (elim disjE exE conjE) (simp, fastforce)
qed

text \<open>
  Shutdown stops every plugin once, dependents before dependencies, whether or not some fail
  to stop, and reports exactly the ones that failed.
\<close>

theorem stop_all_complete:
  assumes "start_order ps = Some (Inr order)"
  shows "\<exists>faults. stop_all ps w = Some (Inr faults, stops ps (rev order) w)
    \<and> (\<forall>k e. (k, e) \<in> set faults \<longleftrightarrow>
         (\<exists>pre post. rev order = pre @ k # post
            \<and> fst (pl_stop (the (map_of ps k)) (stops ps pre w)) = Some e))"
  using assms stop_each_faults [of _ _ ps "rev order" w] stop_each_runs [of ps "rev order" w]
  by (auto simp: stop_all_def case_prod_unfold Let_def)

text \<open>Two plugins that write what happens to them; the second depends on the first and may fail.\<close>

definition note_plugin :: "string \<Rightarrow> string list \<Rightarrow> effect_error option \<Rightarrow> string list plugin" where
  "note_plugin n ds fails =
     \<lparr>pl_deps = ds, pl_start = (\<lambda>w. (fails, w @ [''+'' @ n])), pl_stop = (\<lambda>w. (fails, w @ [''-'' @ n]))\<rparr>"

definition demo_registry :: "string list registry" where
  "demo_registry = om_insert ''a'' (note_plugin ''a'' [''b''] (Some (Failed ''no'')))
     (om_insert ''b'' (note_plugin ''b'' [] None) [])"

lemma demo_order: "start_order demo_registry = Some (Inr [''b'', ''a''])"
  by code_simp

theorem start_all_transactional_witness:
  "start_all demo_registry [] = Some (Inl (Start ''a'' (Failed ''no'')), [''+b'', ''+a'', ''-b''])"
proof -
  have "fst (pl_start (the (map_of demo_registry ''b'')) []) = None"
    and a: "pl_start (the (map_of demo_registry ''a'')) [''+b''] = (Some (Failed ''no''), [''+b'', ''+a''])"
    and b: "pl_start (the (map_of demo_registry ''b'')) [] = (None, [''+b''])"
    and c: "pl_stop (the (map_of demo_registry ''b'')) [''+b'', ''+a''] = (None, [''+b'', ''+a'', ''-b''])"
    by code_simp+
  have "fst (the (start_all demo_registry [])) \<noteq> Inr [''b'', ''a'']" by code_simp
  with start_all_transactional [OF demo_order, of "[]"] show ?thesis
    using a b c by (auto simp: Cons_eq_append_conv)
qed

theorem stop_all_complete_witness:
  "\<exists>faults. stop_all demo_registry [] = Some (Inr faults, [''-a'', ''-b''])
     \<and> (''a'', Failed ''no'') \<in> set faults"
proof -
  have a: "pl_stop (the (map_of demo_registry ''a'')) [] = (Some (Failed ''no''), [''-a''])"
    and b: "pl_stop (the (map_of demo_registry ''b'')) [''-a''] = (None, [''-a'', ''-b''])"
    by code_simp+
  obtain faults where f: "stop_all demo_registry [] = Some (Inr faults, [''-a'', ''-b''])"
    and m: "(''a'', Failed ''no'') \<in> set faults \<longleftrightarrow>
         (\<exists>pre post. rev [''b'', ''a''] = pre @ ''a'' # post
            \<and> fst (pl_stop (the (map_of demo_registry ''a'')) (stops demo_registry pre [])) = Some (Failed ''no''))"
    using stop_all_complete [OF demo_order, of "[]"] a b by auto
  have "rev [''b'', ''a''] = [] @ ''a'' # [''b'']" by simp
  with m a have "(''a'', Failed ''no'') \<in> set faults" by fastforce
  with f show ?thesis by blast
qed

end
