(* ===== verification/Event_Bus.thy ===== *)
theory Event_Bus
  imports Effects
begin

text \<open>
  The typed event bus of \<^verbatim>\<open>crates/core/src/events.rs\<close>: registration as a reversible effect, and
  the dispatch modes emit, serial and waterfall.  An event type is a declaration (its key for the
  slot map, its topic and its one mode); a listener acts on the world \<^typ>\<open>'w\<close>.  The parallel
  mode, whose listeners interleave on the runtime, is not modelled.
\<close>

datatype dispatch_mode = Emit | Waterfall | Parallel | Serial

record event_decl =
  ev_key :: nat
  ev_topic :: string
  ev_mode :: dispatch_mode

text \<open>
  A panic is the payload it carries.  A waterfall listener gets the event by mutable reference, so
  it answers with the event as it leaves it, and gets the rest of the chain as a function.
\<close>

datatype ('e, 'r, 'w) listener =
    EmitFn "'e \<Rightarrow> 'w \<Rightarrow> payload option \<times> 'w"
  | SerialFn "'e \<Rightarrow> 'w \<Rightarrow> (payload + 'r option) \<times> 'w"
  | WaterfallFn "'e \<Rightarrow> ('e \<Rightarrow> 'w \<Rightarrow> (payload + 'r) \<times> 'e \<times> 'w) \<Rightarrow> 'w \<Rightarrow> (payload + 'r) \<times> 'e \<times> 'w"

record ('e, 'r, 'w) bus =
  next_id :: nat
  slots :: "nat \<rightharpoonup> (nat \<times> ('e, 'r, 'w) listener) list"

definition new_bus :: "('e, 'r, 'w) bus" where
  "new_bus = \<lparr>next_id = 0, slots = Map.empty\<rparr>"

text \<open>\<open>None\<close> is the panic of \<^verbatim>\<open>assert_mode\<close>; otherwise the id the handle will remove by.\<close>

definition register ::
  "event_decl \<Rightarrow> dispatch_mode \<Rightarrow> ('e, 'r, 'w) listener \<Rightarrow> ('e, 'r, 'w) bus \<Rightarrow> (nat \<times> ('e, 'r, 'w) bus) option"
where
  "register ev mode l b =
     (if ev_mode ev \<noteq> mode then None
      else Some (next_id b,
        b\<lparr>next_id := next_id b + 1,
          slots := (slots b)(ev_key ev \<mapsto>
            (case slots b (ev_key ev) of None \<Rightarrow> [] | Some ls \<Rightarrow> ls) @ [(next_id b, l)])\<rparr>))"

text \<open>What dropping the handle does.\<close>

definition unregister :: "event_decl \<Rightarrow> nat \<Rightarrow> ('e, 'r, 'w) bus \<Rightarrow> ('e, 'r, 'w) bus" where
  "unregister ev i b =
     (case slots b (ev_key ev) of
        None \<Rightarrow> b
      | Some ls \<Rightarrow> b\<lparr>slots := (slots b)(ev_key ev \<mapsto> filter (\<lambda>(other, _). other \<noteq> i) ls)\<rparr>)"

definition registered :: "event_decl \<Rightarrow> ('e, 'r, 'w) bus \<Rightarrow> (nat \<times> ('e, 'r, 'w) listener) list" where
  "registered ev b = (case slots b (ev_key ev) of None \<Rightarrow> [] | Some ls \<Rightarrow> ls)"

definition snapshot ::
  "event_decl \<Rightarrow> dispatch_mode \<Rightarrow> ('e, 'r, 'w) bus \<Rightarrow> ('e, 'r, 'w) listener list option"
where
  "snapshot ev mode b = (if ev_mode ev \<noteq> mode then None else Some (map snd (registered ev b)))"

definition listener_count :: "event_decl \<Rightarrow> ('e, 'r, 'w) bus \<Rightarrow> nat" where
  "listener_count ev b = length (registered ev b)"

section \<open>Dispatch\<close>

text \<open>Emit contains every panic: it is logged and the next listener runs.\<close>

fun emit_all :: "'e \<Rightarrow> ('e, 'r, 'w) listener list \<Rightarrow> 'w \<Rightarrow> 'w" where
  "emit_all e [] w = w"
| "emit_all e (EmitFn f # ls) w = (case f e w of (_, w1) \<Rightarrow> emit_all e ls w1)"
| "emit_all e (_ # ls) w = emit_all e ls w"

definition emit :: "event_decl \<Rightarrow> 'e \<Rightarrow> ('e, 'r, 'w) bus \<Rightarrow> 'w \<Rightarrow> 'w option" where
  "emit ev e b w = map_option (\<lambda>ls. emit_all e ls w) (snapshot ev Emit b)"

fun serial_all :: "'e \<Rightarrow> ('e, 'r, 'w) listener list \<Rightarrow> 'w \<Rightarrow> (payload + 'r option) \<times> 'w" where
  "serial_all e [] w = (Inr None, w)"
| "serial_all e (SerialFn f # ls) w =
     (case f e w of
        (Inl p, w1) \<Rightarrow> (Inl p, w1)
      | (Inr (Some bail), w1) \<Rightarrow> (Inr (Some bail), w1)
      | (Inr None, w1) \<Rightarrow> serial_all e ls w1)"
| "serial_all e (_ # ls) w = serial_all e ls w"

definition serial :: "event_decl \<Rightarrow> 'e \<Rightarrow> ('e, 'r, 'w) bus \<Rightarrow> 'w \<Rightarrow> ((payload + 'r option) \<times> 'w) option" where
  "serial ev e b w = map_option (\<lambda>ls. serial_all e ls w) (snapshot ev Serial b)"

text \<open>\<^verbatim>\<open>Next::run\<close>: the listener at the index, given the chain from the next index on.\<close>

function next_run ::
  "('e, 'r, 'w) listener list \<Rightarrow> nat \<Rightarrow> ('e \<Rightarrow> 'w \<Rightarrow> (payload + 'r) \<times> 'e \<times> 'w)
   \<Rightarrow> 'e \<Rightarrow> 'w \<Rightarrow> (payload + 'r) \<times> 'e \<times> 'w"
where
  "next_run chain idx terminal e w =
     (if idx < length chain then
        (case chain ! idx of
           WaterfallFn f \<Rightarrow> f e (next_run chain (idx + 1) terminal) w
         | _ \<Rightarrow> next_run chain (idx + 1) terminal e w)
      else terminal e w)"
  by pat_completeness auto
termination
  by (relation "measure (\<lambda>(chain, idx, _). length chain - idx)") auto

declare next_run.simps [simp del]

definition waterfall ::
  "event_decl \<Rightarrow> 'e \<Rightarrow> ('e \<Rightarrow> 'w \<Rightarrow> (payload + 'r) \<times> 'e \<times> 'w) \<Rightarrow> ('e, 'r, 'w) bus \<Rightarrow> 'w
   \<Rightarrow> ((payload + 'r) \<times> 'e \<times> 'w) option"
where
  "waterfall ev e terminal b w =
     map_option (\<lambda>chain. next_run chain 0 terminal e w) (snapshot ev Waterfall b)"

section \<open>Registration is reversible\<close>

text \<open>One change to the bus, other than dropping the handle of the registration \<open>i\<close>.\<close>

inductive bus_step :: "nat option \<Rightarrow> ('e, 'r, 'w) bus \<Rightarrow> ('e, 'r, 'w) bus \<Rightarrow> bool" for keeps where
  reg: "register ev mode l b = Some (j, b') \<Longrightarrow> bus_step keeps b b'"
| unreg: "keeps \<noteq> Some j \<Longrightarrow> bus_step keeps b (unregister ev j b)"

definition bus_ok :: "('e, 'r, 'w) bus \<Rightarrow> bool" where
  "bus_ok b \<longleftrightarrow> (\<forall>k ls. slots b k = Some ls \<longrightarrow>
     distinct (map fst ls) \<and> (\<forall>j\<in>set (map fst ls). j < next_id b))"

lemma bus_step_ok: "bus_step keeps b b' \<Longrightarrow> bus_ok b \<Longrightarrow> bus_ok b'"
proof (induction rule: bus_step.induct)
  case (reg ev mode l b j b')
  then show ?case
    by (fastforce simp: bus_ok_def register_def split: if_splits option.splits)
next
  case (unreg j b ev)
  then show ?case
    by (fastforce simp: bus_ok_def unregister_def distinct_map_filter split: option.splits if_splits)
qed

lemma bus_run_ok: "(bus_step keeps)\<^sup>*\<^sup>* b b' \<Longrightarrow> bus_ok b \<Longrightarrow> bus_ok b'"
  by (induction rule: rtranclp_induct) (auto intro: bus_step_ok)

lemma bus_step_keeps:
  "bus_step (Some i) b b' \<Longrightarrow> (i, l) \<in> set (registered ev b) \<Longrightarrow> (i, l) \<in> set (registered ev b')"
  by (induction rule: bus_step.induct)
    (auto simp: registered_def register_def unregister_def split: if_splits option.splits)

lemma bus_run_keeps:
  "(bus_step (Some i))\<^sup>*\<^sup>* b b' \<Longrightarrow> (i, l) \<in> set (registered ev b) \<Longrightarrow> (i, l) \<in> set (registered ev b')"
  by (induction rule: rtranclp_induct) (auto intro: bus_step_keeps)

lemma new_bus_ok: "bus_ok new_bus"
  by (simp add: bus_ok_def new_bus_def)

lemma registered_unregister:
  "registered ev' (unregister ev i b) =
     (if ev_key ev' = ev_key ev then filter (\<lambda>(j, _). j \<noteq> i) (registered ev' b) else registered ev' b)"
  by (auto simp: registered_def unregister_def split: option.splits)

lemma filter_other: "i \<notin> fst ` set xs \<Longrightarrow> filter (\<lambda>(j, _). j \<noteq> i) xs = xs"
  by (induction xs) auto

text \<open>
  A registration is a reversible effect: whatever else is registered and dropped meanwhile,
  the listener stays until its handle is dropped, and dropping the handle takes away that
  listener alone, leaving the order of the others and every other event untouched; dropping it
  twice is dropping it once.
\<close>

theorem registration_reversible:
  assumes "(bus_step None)\<^sup>*\<^sup>* new_bus b" and "register ev mode l b = Some (i, b1)"
    and "(bus_step (Some i))\<^sup>*\<^sup>* b1 b2"
  shows "(\<exists>pre post. registered ev b2 = pre @ (i, l) # post
            \<and> registered ev (unregister ev i b2) = pre @ post)
    \<and> (\<forall>other. ev_key other \<noteq> ev_key ev \<longrightarrow> registered other (unregister ev i b2) = registered other b2)
    \<and> registered ev (unregister ev i (unregister ev i b2)) = registered ev (unregister ev i b2)"
proof -
  have "bus_ok b1"
    using bus_step_ok [OF bus_step.reg [OF assms(2)] bus_run_ok [OF assms(1) new_bus_ok]] .
  then have ok: "bus_ok b2" by (rule bus_run_ok [OF assms(3)])
  have "(i, l) \<in> set (registered ev b1)"
    using assms(2) by (auto simp: register_def registered_def split: if_splits)
  then have "(i, l) \<in> set (registered ev b2)" by (rule bus_run_keeps [OF assms(3)])
  then obtain pre post where s: "registered ev b2 = pre @ (i, l) # post"
    by (meson split_list)
  moreover have "distinct (map fst (registered ev b2))"
    using ok by (auto simp: bus_ok_def registered_def split: option.splits)
  ultimately have "registered ev (unregister ev i b2) = pre @ post"
    by (simp add: registered_unregister filter_other)
  with s show ?thesis
    by (auto simp: registered_unregister)
qed

definition demo_event :: event_decl where
  "demo_event = \<lparr>ev_key = 0, ev_topic = ''demo'', ev_mode = Emit\<rparr>"

definition demo_bus :: "(unit, unit, nat) bus" where
  "demo_bus = snd (the (register demo_event Emit (EmitFn (\<lambda>_ n. (Some Opaque, n + 1))) new_bus))"

definition demo_bus2 :: "(unit, unit, nat) bus" where
  "demo_bus2 = snd (the (register demo_event Emit (EmitFn (\<lambda>_ n. (None, n + 10))) demo_bus))"

lemma demo_bus_steps:
  "register demo_event Emit (EmitFn (\<lambda>_ n. (Some Opaque, n + 1))) new_bus = Some (0, demo_bus)"
  "register demo_event Emit (EmitFn (\<lambda>_ n. (None, n + 10))) demo_bus = Some (1, demo_bus2)"
  by (simp_all add: register_def demo_bus_def demo_bus2_def demo_event_def new_bus_def)

theorem registration_reversible_witness:
  "map fst (registered demo_event (unregister demo_event 0 demo_bus2)) = [1]"
proof -
  have "(bus_step (Some 0))\<^sup>*\<^sup>* demo_bus demo_bus2"
    using bus_step.reg [OF demo_bus_steps(2)] by blast
  from registration_reversible [OF _ demo_bus_steps(1) this]
  obtain pre post where "registered demo_event demo_bus2
        = pre @ (0, EmitFn (\<lambda>_ n. (Some Opaque, n + 1))) # post"
      "registered demo_event (unregister demo_event 0 demo_bus2) = pre @ post"
    by blast
  moreover have "map fst (registered demo_event demo_bus2) = [0, 1]"
    by (simp add: registered_def register_def demo_bus_def demo_bus2_def demo_event_def new_bus_def)
  ultimately show ?thesis by (auto simp: Cons_eq_append_conv append_eq_Cons_conv)
qed

section \<open>What a dispatch runs\<close>

definition around ::
  "('e, 'r, 'w) listener \<Rightarrow> ('e \<Rightarrow> 'w \<Rightarrow> (payload + 'r) \<times> 'e \<times> 'w) \<Rightarrow> 'e \<Rightarrow> 'w \<Rightarrow> (payload + 'r) \<times> 'e \<times> 'w"
where
  "around l k = (case l of WaterfallFn f \<Rightarrow> (\<lambda>e w. f e k w) | _ \<Rightarrow> k)"

lemma next_run_foldr: "next_run chain idx terminal = foldr around (drop idx chain) terminal"
proof (induction "length chain - idx" arbitrary: idx)
  case 0
  then show ?case by (intro ext) (subst next_run.simps, simp)
next
  case (Suc n)
  then have "idx < length chain" and IH: "next_run chain (idx + 1) terminal = foldr around (drop (idx + 1) chain) terminal"
    by simp_all
  then show ?case
    by (intro ext, subst next_run.simps)
      (simp add: around_def Cons_nth_drop_Suc [symmetric] split: listener.split)
qed

text \<open>
  A waterfall is the composition of its listeners around the terminal in registration order:
  each sees the event and the world as those before it left them, and a listener that does not
  call its continuation vetoes everything after it, the terminal included.
\<close>

theorem waterfall_composition:
  assumes "ev_mode ev = Waterfall"
  shows "waterfall ev e terminal b w = Some (foldr around (map snd (registered ev b)) terminal e w)
    \<and> (map snd (registered ev b) = pre @ WaterfallFn (\<lambda>e k w. veto e w) # post
        \<longrightarrow> waterfall ev e terminal b w = Some (foldr around pre veto e w))"
  using assms by (simp add: waterfall_def snapshot_def next_run_foldr around_def)

definition demo_waterfall :: event_decl where
  "demo_waterfall = \<lparr>ev_key = 1, ev_topic = ''demo'', ev_mode = Waterfall\<rparr>"

definition demo_chain :: "(nat, nat, unit) bus" where
  "demo_chain = \<lparr>next_id = 3, slots = [1 \<mapsto>
     [(0, WaterfallFn (\<lambda>e k w. k (e + 1) w)), (1, WaterfallFn (\<lambda>e k w. (Inr (10 * e), e, w))),
      (2, WaterfallFn (\<lambda>e k w. k 0 w))]]\<rparr>"

theorem waterfall_composition_witness:
  "waterfall demo_waterfall 4 (\<lambda>e w. (Inl Opaque, e, w)) demo_chain () = Some (Inr 50, 5, ())"
  using waterfall_composition [of demo_waterfall 4 "\<lambda>e w. (Inl Opaque, e, w)" demo_chain "()"
      "[WaterfallFn (\<lambda>e k w. k (e + 1) w)]" "\<lambda>e w. (Inr (10 * e), e, w)"
      "[WaterfallFn (\<lambda>e k w. k 0 w)]"]
  by (simp add: demo_waterfall_def demo_chain_def registered_def around_def)

text \<open>
  Emit runs every listener in registration order whichever of them panic; serial runs them until
  the first that bails or panics.
\<close>

lemma emit_runs_all:
  assumes "ev_mode ev = Emit" and "map snd (registered ev b) = map EmitFn fs"
  shows "emit ev e b w = Some (foldl (\<lambda>w f. snd (f e w)) w fs)"
proof -
  have "emit_all e (map EmitFn fs) w = foldl (\<lambda>w f. snd (f e w)) w fs"
    by (induction fs arbitrary: w) (simp_all add: case_prod_unfold)
  then show ?thesis using assms by (simp add: emit_def snapshot_def)
qed

lemma serial_bails:
  assumes "ev_mode ev = Serial" and "map snd (registered ev b) = map SerialFn (fs @ g # gs)"
    and "\<And>f w. f \<in> set fs \<Longrightarrow> fst (f e w) = Inr None"
    and "g e (foldl (\<lambda>w f. snd (f e w)) w fs) = (r, w')" and "r \<noteq> Inr None"
  shows "serial ev e b w = Some (r, w')"
proof -
  have "serial_all e (map SerialFn (fs @ g # gs)) w = (r, w')"
    if "\<And>f w. f \<in> set fs \<Longrightarrow> fst (f e w) = Inr None"
      and "g e (foldl (\<lambda>w f. snd (f e w)) w fs) = (r, w')"
    using that
  proof (induction fs arbitrary: w)
    case Nil
    then show ?case using assms(5) by (auto split: sum.splits option.splits)
  next
    case (Cons f fs)
    obtain w1 where f: "f e w = (Inr None, w1)"
      using Cons.prems(1) [of f w] by (cases "f e w") simp
    with Cons.IH [of w1] Cons.prems show ?case by simp
  qed
  then show ?thesis using assms by (simp add: serial_def snapshot_def)
qed

end
