(* ===== verification/Json_Value.thy ===== *)
theory Json_Value
  imports Prelude
begin

text \<open>
  The JSON data model the crates share (\<^verbatim>\<open>serde_json::Value\<close>): null, booleans, numbers,
  strings, arrays and objects, with the read accessors the sources call.  Objects are ordered
  maps, as \<^verbatim>\<open>serde_json\<close> keeps them without its \<^verbatim>\<open>preserve_order\<close> feature.  Integers carry
  their value; a floating-point number keeps its literal, which no modelled operation reads.
  Text encoding and decoding (\<^verbatim>\<open>to_string\<close>, \<^verbatim>\<open>from_str\<close>) are parameters of the operations
  that use them and are not defined here.
\<close>

datatype json =
    JNull
  | JBool bool
  | JInt int
  | JFloat string
  | JStr string
  | JArr "json list"
  | JObj "(string, json) omap"

text \<open>\<^verbatim>\<open>Value::get(key)\<close>, and \<^verbatim>\<open>value[key]\<close>, which reads a missing key as null.\<close>

fun jget :: "json \<Rightarrow> string \<Rightarrow> json option" where
  "jget (JObj m) k = map_of m k"
| "jget _ k = None"

definition jidx :: "json \<Rightarrow> string \<Rightarrow> json" where
  "jidx v k = (case jget v k of None \<Rightarrow> JNull | Some x \<Rightarrow> x)"

fun as_str :: "json \<Rightarrow> string option" where
  "as_str (JStr s) = Some s"
| "as_str _ = None"

text \<open>\<^verbatim>\<open>as_u64\<close>: an integer that fits an unsigned 64-bit word.\<close>

fun as_u64 :: "json \<Rightarrow> nat option" where
  "as_u64 (JInt i) = (if 0 \<le> i \<and> i < 2 ^ 64 then Some (nat i) else None)"
| "as_u64 _ = None"

fun as_array :: "json \<Rightarrow> json list option" where
  "as_array (JArr xs) = Some xs"
| "as_array _ = None"

definition jnat :: "nat \<Rightarrow> json" where
  "jnat n = JInt (int n)"

text \<open>
  \<^verbatim>\<open>json!({ k: v, ... })\<close> and \<^verbatim>\<open>data[key] = value\<close> on an object (the code only assigns into
  values it knows to be objects; null becomes an object as \<^verbatim>\<open>IndexMut\<close> makes it).
\<close>

definition jobj :: "(string \<times> json) list \<Rightarrow> json" where
  "jobj kvs = JObj (fold (\<lambda>(k, v). om_insert k v) kvs [])"

fun jset :: "string \<Rightarrow> json \<Rightarrow> json \<Rightarrow> json" where
  "jset k v (JObj m) = JObj (om_insert k v m)"
| "jset k v JNull = JObj [(k, v)]"
| "jset k v j = j"

text \<open>\<^verbatim>\<open>event.data.get(key).and_then(as_str).unwrap_or_default()\<close> and its number counterpart.\<close>

definition jstr :: "json \<Rightarrow> string \<Rightarrow> string" where
  "jstr v k = (case Option.bind (jget v k) as_str of None \<Rightarrow> [] | Some s \<Rightarrow> s)"

definition jnum :: "json \<Rightarrow> string \<Rightarrow> nat" where
  "jnum v k = (case Option.bind (jget v k) as_u64 of None \<Rightarrow> 0 | Some n \<Rightarrow> n)"

lemma map_of_fold_om_insert:
  "map_of (fold (\<lambda>(k, v). om_insert k v) kvs m) k =
     (case map_of (rev kvs) k of None \<Rightarrow> map_of m k | Some v \<Rightarrow> Some v)"
  by (induction kvs arbitrary: m) (auto split: option.splits simp: map_add_def)

lemma jget_jobj [simp, json_simps]: "jget (jobj kvs) k = map_of (rev kvs) k"
  by (simp add: jobj_def map_of_fold_om_insert split: option.splits)

lemma jget_jset [simp, json_simps]: "jget (jset k v (JObj m)) k' = (if k' = k then Some v else map_of m k')"
  by simp

lemma as_u64_jnat [simp, json_simps]: "n < 2 ^ 64 \<Longrightarrow> as_u64 (jnat n) = Some n"
  by (simp add: jnat_def)

lemma jstr_jobj [json_simps]:
  "jstr (jobj kvs) k = (case map_of (rev kvs) k of Some (JStr s) \<Rightarrow> s | _ \<Rightarrow> [])"
  by (auto simp: jstr_def split: option.splits json.splits)

end
