(* ===== verification/Session_Log.thy ===== *)
theory Session_Log
  imports Json_Value
begin

text \<open>
  The durable event record and the \<^verbatim>\<open>SessionLog\<close> trait (\<^verbatim>\<open>crates/session/src/lib.rs\<close>) as an
  interface: an append that assigns the sequence number, and the list of every event so far.
  The components of \<^verbatim>\<open>crates/turn\<close> write through this interface only; their lemmas are proved
  once against it and hold for the JSONL journal by interpretation (theory \<^verbatim>\<open>Journal\<close>).
\<close>

text \<open>One immutable entry of a session log.\<close>

record session_event =
  ty :: string
  seq :: nat
  time :: nat
  data :: json
  source_event_seqs :: "nat list option"

datatype session_error =
    Io
  | Corrupt nat
  | NotSerializable string
  | Exists string

text \<open>Every event of a list sits at the index its sequence number names.\<close>

definition seqs_contiguous :: "session_event list \<Rightarrow> bool" where
  "seqs_contiguous es \<longleftrightarrow> (\<forall>i < length es. seq (es ! i) = i)"

lemma seqs_contiguous_snoc:
  "seqs_contiguous (es @ [e]) \<longleftrightarrow> seqs_contiguous es \<and> seq e = length es"
  by (auto simp: seqs_contiguous_def nth_append less_Suc_eq)

lemma seqs_contiguous_take: "seqs_contiguous es \<Longrightarrow> seqs_contiguous (take n es)"
  by (simp add: seqs_contiguous_def)

lemma seqs_contiguous_distinct: "seqs_contiguous es \<Longrightarrow> distinct (map seq es)"
  by (auto simp: seqs_contiguous_def distinct_conv_nth)

text \<open>
  \<^verbatim>\<open>append\<close> and \<^verbatim>\<open>append_with_sources\<close> differ only in the cited sources.  A call answers with
  the event it wrote or with an error, and in both cases with the log as it is afterwards.
\<close>

type_synonym 'l appender =
  "'l \<Rightarrow> string \<Rightarrow> json \<Rightarrow> nat list option \<Rightarrow> (session_error + session_event) \<times> 'l"

locale session_log =
  fixes append :: "'l appender"
    and events :: "'l \<Rightarrow> session_event list"
  assumes append_ok:
      "append l t d src = (Inr e, l') \<Longrightarrow>
         events l' = events l @ [e] \<and> ty e = t \<and> data e = d
         \<and> source_event_seqs e = src \<and> seq e = length (events l)"
    and append_err: "append l t d src = (Inl x, l') \<Longrightarrow> events l' = events l"
begin

text \<open>Contiguous sequence numbers are kept by every append, whether it succeeds or not.\<close>

lemma append_contiguous:
  assumes "append l t d src = (r, l')" and "seqs_contiguous (events l)"
  shows "seqs_contiguous (events l')"
  using assms by (cases r) (auto simp: seqs_contiguous_snoc dest!: append_ok append_err)

lemma append_extends:
  assumes "append l t d src = (r, l')"
  shows "\<exists>new. events l' = events l @ new \<and> length new \<le> 1"
  using assms by (cases r) (auto dest: append_ok append_err)

end

text \<open>A log no append of which fails from a healthy state, which is what liveness needs.\<close>

locale working_log = session_log +
  fixes healthy :: "'l \<Rightarrow> bool"
  assumes append_works: "healthy l \<Longrightarrow> \<exists>e l'. append l t d src = (Inr e, l') \<and> healthy l'"
begin

lemma append_healthy:
  assumes "healthy l" and "append l t d src = (r, l')"
  shows "\<exists>e. r = Inr e" and "healthy l'"
  using append_works [OF assms(1), of t d src] assms(2) by auto

end

end
