(* ===== verification/Turn_Log.thy ===== *)
theory Turn_Log
  imports Session_Log
begin

text \<open>
  How the model's history is derived from a session log: \<^verbatim>\<open>crates/turn/src/log.rs\<close>, the surface
  rule of \<^verbatim>\<open>compaction.rs\<close> it reads the log through, the rendering of a context snapshot
  (\<^verbatim>\<open>context.rs\<close>), the message vocabulary (\<^verbatim>\<open>llm/mod.rs\<close>) and the token estimator
  (\<^verbatim>\<open>tokens.rs\<close>).  The length of a JSON value printed as text is the parameter \<open>jlen\<close>.
\<close>

section \<open>Messages\<close>

record tool_call =
  tc_id :: string
  tc_name :: string
  tc_args :: json

datatype role = System | User | Assistant | Tool

fun role_str :: "role \<Rightarrow> string" where
  "role_str System = ''system''"
| "role_str User = ''user''"
| "role_str Assistant = ''assistant''"
| "role_str Tool = ''tool''"

record message =
  m_role :: role
  m_content :: string
  m_calls :: "tool_call list"
  m_call_id :: "string option"

definition user_message :: "string \<Rightarrow> message" where
  "user_message c = \<lparr>m_role = User, m_content = c, m_calls = [], m_call_id = None\<rparr>"

definition system_message :: "string \<Rightarrow> message" where
  "system_message c = \<lparr>m_role = System, m_content = c, m_calls = [], m_call_id = None\<rparr>"

definition assistant_message :: "string \<Rightarrow> tool_call list \<Rightarrow> message" where
  "assistant_message c calls = \<lparr>m_role = Assistant, m_content = c, m_calls = calls, m_call_id = None\<rparr>"

definition tool_message :: "string \<Rightarrow> string \<Rightarrow> message" where
  "tool_message i c = \<lparr>m_role = Tool, m_content = c, m_calls = [], m_call_id = Some i\<rparr>"

section \<open>Reading structures out of JSON\<close>

text \<open>
  The derived \<^verbatim>\<open>Deserialize\<close> of a structure reads an object by field name, ignoring other keys,
  or an array of exactly its fields in order.
\<close>

definition str_field :: "json option \<Rightarrow> string option" where
  "str_field v = Option.bind v as_str"

fun call_of_json :: "json \<Rightarrow> tool_call option" where
  "call_of_json (JObj m) =
     (case (str_field (map_of m ''id''), str_field (map_of m ''name''), map_of m ''arguments'') of
        (Some i, Some n, Some a) \<Rightarrow> Some \<lparr>tc_id = i, tc_name = n, tc_args = a\<rparr>
      | _ \<Rightarrow> None)"
| "call_of_json (JArr [JStr i, JStr n, a]) = Some \<lparr>tc_id = i, tc_name = n, tc_args = a\<rparr>"
| "call_of_json _ = None"

text \<open>The serialised form of a call.\<close>

definition json_of_call :: "tool_call \<Rightarrow> json" where
  "json_of_call c = jobj [(''id'', JStr (tc_id c)), (''name'', JStr (tc_name c)), (''arguments'', tc_args c)]"

text \<open>Decoding a vector fails as a whole when one element does.\<close>

definition list_of_json :: "(json \<Rightarrow> 'a option) \<Rightarrow> json \<Rightarrow> 'a list option" where
  "list_of_json dec v =
     (case v of JArr xs \<Rightarrow> (if list_all (\<lambda>x. dec x \<noteq> None) xs then Some (map (the \<circ> dec) xs) else None)
      | _ \<Rightarrow> None)"

record context_part =
  part_name :: string
  part_text :: string

fun part_of_json :: "json \<Rightarrow> context_part option" where
  "part_of_json (JObj m) =
     (case (str_field (map_of m ''name''), str_field (map_of m ''text'')) of
        (Some n, Some t) \<Rightarrow> Some \<lparr>part_name = n, part_text = t\<rparr>
      | _ \<Rightarrow> None)"
| "part_of_json (JArr [JStr n, JStr t]) = Some \<lparr>part_name = n, part_text = t\<rparr>"
| "part_of_json _ = None"

definition json_of_part :: "context_part \<Rightarrow> json" where
  "json_of_part p = jobj [(''name'', JStr (part_name p)), (''text'', JStr (part_text p))]"

definition string_field :: "session_event \<Rightarrow> string \<Rightarrow> string" where
  "string_field e k = jstr (data e) k"

definition event_calls :: "session_event \<Rightarrow> tool_call list" where
  "event_calls e =
     (case Option.bind (jget (data e) ''tool_calls'') (list_of_json call_of_json) of
        Some cs \<Rightarrow> cs | None \<Rightarrow> [])"

section \<open>The surface\<close>

definition is_surface_event :: "session_event \<Rightarrow> bool" where
  "is_surface_event e \<longleftrightarrow> ty e \<in> {''user/message'', ''assistant/message'', ''tool/result''}"

record shadow_price =
  shadowed_seqs :: "nat list"
  shadowed_token_count :: nat

text \<open>\<^verbatim>\<open>seqs.iter().filter_map(Value::as_u64)\<close> of an array, or nothing.\<close>

definition u64s :: "json option \<Rightarrow> nat list" where
  "u64s v = (case Option.bind v as_array of Some xs \<Rightarrow> List.map_filter as_u64 xs | None \<Rightarrow> [])"

definition shadow_price :: "session_event \<Rightarrow> shadow_price option" where
  "shadow_price e =
     (if ty e \<noteq> ''compaction/summary'' \<and> ty e \<noteq> ''compaction/prune'' then None
      else Some \<lparr>shadowed_seqs = u64s (jget (data e) ''shadowed_seqs''),
                 shadowed_token_count = jnum (data e) ''shadowed_token_count''\<rparr>)"

text \<open>
  One step of the fold: the positions so far and the claim of the record just read.  A
  replacement takes the place of the first position it shadows.
\<close>

definition surface_step ::
  "session_event list \<Rightarrow> nat list \<times> nat list option \<Rightarrow> nat \<Rightarrow> nat list \<times> nat list option"
where
  "surface_step es = (\<lambda>(nodes, claim) index.
     (case shadow_price (es ! index) of
        Some price \<Rightarrow> (nodes, Some (shadowed_seqs price))
      | None \<Rightarrow>
          if \<not> is_surface_event (es ! index) then (nodes, None)
          else (case claim of
              Some shadowed \<Rightarrow>
                (let hit = (\<lambda>n. seq (es ! n) \<in> set shadowed);
                     at = (case position hit nodes of Some i \<Rightarrow> i | None \<Rightarrow> length nodes);
                     kept = filter (\<lambda>n. \<not> hit n) nodes;
                     i = min at (length kept)
                 in (take i kept @ index # drop i kept, None))
            | None \<Rightarrow> (nodes @ [index], None))))"

definition surface_state :: "session_event list \<Rightarrow> nat list \<times> nat list option" where
  "surface_state es = foldl (surface_step es) ([], None) [0..<length es]"

definition surface :: "session_event list \<Rightarrow> nat list" where
  "surface es = fst (surface_state es)"

section \<open>Deriving messages\<close>

text \<open>The joining rule of a snapshot: the non-empty parts, a blank line between them.\<close>

definition render :: "context_part list \<Rightarrow> string" where
  "render parts =
     join [CHR 0x0A, CHR 0x0A] (filter (\<lambda>t. t \<noteq> []) (map (\<lambda>p. trim_end (part_text p)) parts))"

definition newest_context :: "session_event list \<Rightarrow> (nat \<times> string) option" where
  "newest_context es =
     (case find_last (\<lambda>i. ty (es ! i) = ''context/snapshot'') [0..<length es] of
        None \<Rightarrow> None
      | Some at \<Rightarrow>
          (let parts = (case Option.bind (jget (data (es ! at)) ''parts'') (list_of_json part_of_json) of
                          Some ps \<Rightarrow> ps | None \<Rightarrow> []);
               text = render parts
           in if text \<noteq> [] then Some (at, text) else None))"

text \<open>The message one surface event derives to, if any.\<close>

definition event_message :: "session_event \<Rightarrow> message option" where
  "event_message e =
     (if ty e = ''user/message'' then Some (user_message (string_field e ''content''))
      else if ty e = ''assistant/message'' then
        (let content = string_field e ''content''; calls = event_calls e
         in if content = [] \<and> calls = [] then None else Some (assistant_message content calls))
      else if ty e = ''tool/result'' then
        Some (tool_message (string_field e ''call_id'') (string_field e ''content''))
      else None)"

text \<open>The loop of \<^verbatim>\<open>derive_messages\<close>: the snapshot's message goes in at the first index past it.\<close>

fun derive_loop ::
  "session_event list \<Rightarrow> (nat \<times> string) option \<Rightarrow> nat list \<Rightarrow> message list"
where
  "derive_loop es context [] = (case context of Some (_, text) \<Rightarrow> [user_message text] | None \<Rightarrow> [])"
| "derive_loop es context (index # rest) =
     (let (here, context') =
        (case context of
           Some (at, text) \<Rightarrow> (if index > at then ([user_message text], None) else ([], Some (at, text)))
         | None \<Rightarrow> ([], None))
      in here @ (case event_message (es ! index) of Some m \<Rightarrow> [m] | None \<Rightarrow> [])
         @ derive_loop es context' rest)"

definition derive_messages :: "session_event list \<Rightarrow> message list" where
  "derive_messages es = derive_loop es (newest_context es) (surface es)"

definition with_system :: "string \<Rightarrow> message list \<Rightarrow> message list" where
  "with_system system history = (if system \<noteq> [] then [system_message system] else []) @ history"

section \<open>Tokens\<close>

definition token_chars :: "nat \<Rightarrow> nat" where
  "token_chars len = (len + 3) div 4"

definition estimate_text :: "string \<Rightarrow> nat" where
  "estimate_text s = token_chars (length s) + 4"

definition estimate_text_tokens :: "string \<Rightarrow> nat" where
  "estimate_text_tokens s = (if s = [] then 0 else 4 + estimate_text s)"

definition estimate_message :: "(json \<Rightarrow> nat) \<Rightarrow> message \<Rightarrow> nat" where
  "estimate_message jlen m =
     4 + (if m_content m \<noteq> []
          then (if m_role m = Tool then estimate_text (m_content m) + 4 else estimate_text (m_content m))
          else 0)
     + sum_list (map (\<lambda>c. token_chars (length (tc_name c)) + token_chars (jlen (tc_args c)) + 4) (m_calls m))"

text \<open>What one surface event costs.\<close>

definition price :: "(json \<Rightarrow> nat) \<Rightarrow> session_event \<Rightarrow> nat" where
  "price jlen e = (case derive_messages [e] of m # _ \<Rightarrow> estimate_message jlen m | [] \<Rightarrow> 0)"

record token_surface =
  ts_nodes :: "(nat \<times> nat) list"  \<comment> \<open>seq and tokens\<close>
  ts_total :: nat

definition fold_token :: "(json \<Rightarrow> nat) \<Rightarrow> token_surface \<Rightarrow> session_event \<Rightarrow> token_surface" where
  "fold_token jlen s e =
     (if \<not> is_surface_event e then s
      else \<lparr>ts_nodes = ts_nodes s @ [(seq e, price jlen e)], ts_total = ts_total s + price jlen e\<rparr>)"

definition token_surface_of :: "(json \<Rightarrow> nat) \<Rightarrow> session_event list \<Rightarrow> token_surface" where
  "token_surface_of jlen es =
     foldl (\<lambda>s i. fold_token jlen s (es ! i)) \<lparr>ts_nodes = [], ts_total = 0\<rparr> (surface es)"

section \<open>How the surface grows\<close>

lemma surface_event_no_price: "is_surface_event e \<Longrightarrow> shadow_price e = None"
  by (auto simp: is_surface_event_def shadow_price_def)

text \<open>Every position on the surface is that of a surface event, and none is there twice.\<close>

definition surface_wf :: "session_event list \<Rightarrow> nat \<Rightarrow> nat list \<Rightarrow> bool" where
  "surface_wf es n nodes \<longleftrightarrow> distinct nodes \<and> (\<forall>i\<in>set nodes. i < n \<and> is_surface_event (es ! i))"

lemma surface_step_wf:
  assumes "surface_wf es n nodes" and "surface_step es (nodes, claim) n = (nodes', claim')"
  shows "surface_wf es (Suc n) nodes'"
proof -
  have "distinct (take i xs @ n # drop i xs) \<and> set (take i xs @ n # drop i xs) = insert n (set xs)"
    if "distinct xs" "n \<notin> set xs" for i and xs :: "nat list"
  proof -
    have "distinct (take i xs @ drop i xs)" using that(1) by simp
    moreover have "set (take i xs @ drop i xs) = set xs" by (simp only: append_take_drop_id)
    ultimately show ?thesis
      using that(2) by (auto simp del: append_take_drop_id dest: in_set_takeD in_set_dropD)
  qed
  note ins = this
  have nodes: "distinct nodes" "n \<notin> set nodes" "\<And>i. i \<in> set nodes \<Longrightarrow> i < Suc n \<and> is_surface_event (es ! i)"
    using assms(1) by (auto simp: surface_wf_def)
  show ?thesis
  proof (cases "shadow_price (es ! n) \<noteq> None \<or> \<not> is_surface_event (es ! n)")
    case True
    with assms(2) have "nodes' = nodes" by (auto simp: surface_step_def split: option.splits if_splits)
    with nodes show ?thesis by (simp add: surface_wf_def)
  next
    case False
    then have e: "shadow_price (es ! n) = None" "is_surface_event (es ! n)" by auto
    show ?thesis
    proof (cases claim)
      case None
      with assms(2) e have "nodes' = nodes @ [n]" by (simp add: surface_step_def)
      with nodes e show ?thesis by (auto simp: surface_wf_def)
    next
      case (Some sh)
      let ?kept = "filter (\<lambda>k. seq (es ! k) \<notin> set sh) nodes"
      obtain i where "nodes' = take i ?kept @ n # drop i ?kept"
        using assms(2) e Some by (auto simp: surface_step_def Let_def)
      moreover have "distinct ?kept" "n \<notin> set ?kept" using nodes by auto
      ultimately show ?thesis
        using ins [of ?kept i] nodes e by (auto simp: surface_wf_def)
    qed
  qed
qed

lemma surface_step_cong:
  assumes "\<forall>i\<in>set nodes. i < length es" and "n < length es"
  shows "surface_step (es @ ys) (nodes, claim) n = surface_step es (nodes, claim) n"
proof -
  have nth: "(es @ ys) ! i = es ! i" if "i < length es" for i using that by (simp add: nth_append)
  have pos: "position (\<lambda>k. seq ((es @ ys) ! k) \<in> S) nodes = position (\<lambda>k. seq (es ! k) \<in> S) nodes" for S
    using assms(1) by (induction nodes) (simp_all add: nth)
  have fil: "filter (\<lambda>k. seq ((es @ ys) ! k) \<notin> S) nodes = filter (\<lambda>k. seq (es ! k) \<notin> S) nodes" for S
    using assms(1) by (intro filter_cong) (simp_all add: nth)
  show ?thesis
    unfolding surface_step_def Let_def
    by (cases "shadow_price (es ! n)"; cases claim) (simp_all add: nth [OF assms(2)] pos fil)
qed

lemma surface_fold:
  "n \<le> length es \<Longrightarrow>
     surface_wf es n (fst (foldl (surface_step es) ([], None) [0..<n]))
     \<and> foldl (surface_step (es @ ys)) ([], None) [0..<n] = foldl (surface_step es) ([], None) [0..<n]"
proof (induction n)
  case 0
  then show ?case by (simp add: surface_wf_def)
next
  case (Suc n)
  obtain nodes claim where s: "foldl (surface_step es) ([], None) [0..<n] = (nodes, claim)"
    by (metis surj_pair)
  with Suc have wf: "surface_wf es n nodes" by simp
  obtain nodes' claim' where s': "surface_step es (nodes, claim) n = (nodes', claim')" by (metis surj_pair)
  have "surface_step (es @ ys) (nodes, claim) n = surface_step es (nodes, claim) n"
    using wf Suc.prems by (intro surface_step_cong) (auto simp: surface_wf_def)
  then show ?case
    using Suc s s' surface_step_wf [OF wf s'] by simp
qed

lemma surface_wf_surface: "surface_wf es (length es) (surface es)"
  using surface_fold [of "length es" es "[]"] by (simp add: surface_def surface_state_def)

lemma surface_less: "i \<in> set (surface es) \<Longrightarrow> i < length es"
  and surface_is_surface: "i \<in> set (surface es) \<Longrightarrow> is_surface_event (es ! i)"
  and surface_distinct: "distinct (surface es)"
  using surface_wf_surface [of es] by (auto simp: surface_wf_def)

lemma surface_state_snoc:
  "surface_state (es @ [e]) = surface_step (es @ [e]) (surface_state es) (length es)"
  using surface_fold [of "length es" es "[e]"] by (simp add: surface_state_def)

lemma surface_snoc_plain:
  assumes "snd (surface_state es) = None" and "is_surface_event e"
  shows "surface (es @ [e]) = surface es @ [length es]" and "snd (surface_state (es @ [e])) = None"
  using assms
  by (simp_all add: surface_def surface_state_snoc surface_step_def surface_event_no_price case_prod_unfold)

lemma surface_snoc_other:
  assumes "shadow_price e = None" and "\<not> is_surface_event e"
  shows "surface (es @ [e]) = surface es" and "snd (surface_state (es @ [e])) = None"
  using assms by (simp_all add: surface_def surface_state_snoc surface_step_def case_prod_unfold)

lemma surface_snoc_record:
  assumes "shadow_price e = Some p"
  shows "surface (es @ [e]) = surface es" and "snd (surface_state (es @ [e])) = Some (shadowed_seqs p)"
  using assms by (simp_all add: surface_def surface_state_snoc surface_step_def case_prod_unfold)

text \<open>
  A record and the surface event after it: the replacement takes the place of the block of
  positions the record names.
\<close>

lemma position_append_block:
  assumes "\<forall>x\<in>set xs. \<not> P x" and "P y"
  shows "position P (xs @ y # zs) = Some (length xs)"
  using assms by (induction xs) simp_all

lemma surface_snoc_replacement:
  assumes "shadow_price r = Some p" and "is_surface_event e" and "seqs_contiguous es"
    and "surface es = pre @ mid @ post" and "mid \<noteq> []" and "set (shadowed_seqs p) = set mid"
  shows "surface (es @ [r, e]) = pre @ Suc (length es) # post"
    and "snd (surface_state (es @ [r, e])) = None"
proof -
  let ?es = "es @ [r, e]"
  have all: "i < length es" if "i \<in> set pre \<union> set mid \<union> set post" for i
    using surface_less [of i es] assms(4) that by auto
  have seqs: "seq (?es ! i) = i" if "i \<in> set pre \<union> set mid \<union> set post" for i
    using all [OF that] assms(3) by (simp add: nth_append seqs_contiguous_def)
  have d: "distinct (pre @ mid @ post)" using surface_distinct [of es] assms(4) by simp
  obtain m ms where mid: "mid = m # ms" using assms(5) by (cases mid) auto
  let ?hit = "\<lambda>n. seq (?es ! n) \<in> set mid"
  have pos: "position ?hit (pre @ mid @ post) = Some (length pre)"
    using position_append_block [of pre ?hit m "ms @ post"] d seqs by (auto simp: mid)
  have fil: "filter (\<lambda>n. \<not> ?hit n) pre = pre" "filter (\<lambda>n. \<not> ?hit n) post = post"
    "filter (\<lambda>n. \<not> ?hit n) mid = []"
    using d seqs by (auto simp: filter_id_conv filter_empty_conv)
  have "surface_state (es @ [r]) = (surface es, Some (shadowed_seqs p))"
    using surface_snoc_record [OF assms(1), of es] by (simp add: surface_def prod_eq_iff)
  with surface_state_snoc [of "es @ [r]" e]
  have "surface_state ?es = surface_step ?es (surface es, Some (shadowed_seqs p)) (Suc (length es))"
    by simp
  moreover have "?es ! Suc (length es) = e" by (simp add: nth_append)
  ultimately have "surface_state ?es = (pre @ Suc (length es) # post, None)"
    using pos by (simp add: surface_step_def surface_event_no_price [OF assms(2)] assms(2,4,6) Let_def fil)
  then show "surface (es @ [r, e]) = pre @ Suc (length es) # post"
    and "snd (surface_state (es @ [r, e])) = None"
    by (simp_all add: surface_def)
qed

section \<open>How the history grows\<close>

lemma find_last_cong: "(\<And>x. x \<in> set xs \<Longrightarrow> P x = Q x) \<Longrightarrow> find_last P xs = find_last Q xs"
  unfolding find_last_def by (rule find_cong) simp_all

lemma newest_context_snoc:
  assumes "ty e \<noteq> ''context/snapshot''"
  shows "newest_context (es @ [e]) = newest_context es"
proof -
  have "find_last (\<lambda>i. ty ((es @ [e]) ! i) = ''context/snapshot'') [0..<length es]
      = find_last (\<lambda>i. ty (es ! i) = ''context/snapshot'') [0..<length es]"
    by (rule find_last_cong) (simp add: nth_append)
  then have f: "find_last (\<lambda>i. ty ((es @ [e]) ! i) = ''context/snapshot'') [0..<length (es @ [e])]
      = find_last (\<lambda>i. ty (es ! i) = ''context/snapshot'') [0..<length es]"
    using assms by (simp add: nth_append)
  have "i < length es" if "find_last (\<lambda>i. ty (es ! i) = ''context/snapshot'') [0..<length es] = Some i" for i
    using that by (auto simp: find_last_def find_Some_iff rev_nth)
  then show ?thesis
    unfolding newest_context_def f by (auto split: option.split simp: nth_append Let_def)
qed

lemma newest_context_less: "newest_context es = Some (at, text) \<Longrightarrow> at < length es"
  by (auto simp: newest_context_def find_last_def find_Some_iff rev_nth Let_def
      split: option.splits if_splits)

lemma derive_loop_cong:
  "(\<And>i. i \<in> set is \<Longrightarrow> es ! i = es' ! i) \<Longrightarrow> derive_loop es ctx is = derive_loop es' ctx is"
  by (induction es ctx "is" rule: derive_loop.induct) (auto simp: Let_def split: option.splits)

lemma derive_loop_no_context:
  "derive_loop es None is = concat (map (\<lambda>i. case event_message (es ! i) of Some m \<Rightarrow> [m] | None \<Rightarrow> []) is)"
  by (induction "is") simp_all

text \<open>Where the snapshot's message goes: before the first index past it.\<close>

lemma derive_loop_split:
  assumes "\<forall>i\<in>set pre. i \<le> at" and "post \<noteq> [] \<Longrightarrow> at < hd post"
  shows "derive_loop es (Some (at, text)) (pre @ post)
    = derive_loop es None pre @ user_message text # derive_loop es None post"
  using assms
proof (induction pre)
  case Nil
  then show ?case by (cases post) (simp_all add: derive_loop_no_context)
next
  case (Cons i pre)
  then show ?case by (simp add: derive_loop_no_context)
qed

lemma derive_loop_snoc:
  assumes "\<And>at text. ctx = Some (at, text) \<Longrightarrow> at < n"
  shows "derive_loop es ctx (is @ [n])
    = derive_loop es ctx is @ (case event_message (es ! n) of Some m \<Rightarrow> [m] | None \<Rightarrow> [])"
  using assms
  by (induction es ctx "is" rule: derive_loop.induct) (auto split: option.splits if_splits)

lemma event_message_surface: "\<not> is_surface_event e \<Longrightarrow> event_message e = None"
  by (simp add: is_surface_event_def event_message_def)

lemma derive_snoc:
  assumes "snd (surface_state es) = None" and "ty e \<noteq> ''context/snapshot''" and "shadow_price e = None"
  shows "derive_messages (es @ [e])
    = derive_messages es @ (case event_message e of Some m \<Rightarrow> [m] | None \<Rightarrow> [])"
proof -
  have cong: "derive_loop (es @ [e]) ctx (surface es) = derive_loop es ctx (surface es)" for ctx
    by (rule derive_loop_cong) (auto simp: nth_append dest: surface_less)
  show ?thesis
  proof (cases "is_surface_event e")
    case True
    have "derive_loop (es @ [e]) (newest_context es) (surface es @ [length es])
      = derive_loop (es @ [e]) (newest_context es) (surface es)
        @ (case event_message e of Some m \<Rightarrow> [m] | None \<Rightarrow> [])"
      by (subst derive_loop_snoc) (auto dest: newest_context_less)
    then show ?thesis
      by (simp add: derive_messages_def newest_context_snoc [OF assms(2)] cong
          surface_snoc_plain(1) [OF assms(1) True])
  next
    case False
    then show ?thesis
      by (simp add: derive_messages_def newest_context_snoc [OF assms(2)] cong
          surface_snoc_other(1) [OF assms(3) False] event_message_surface)
  qed
qed

text \<open>One event on its own derives its own message.\<close>

lemma derive_single:
  assumes "ty e \<noteq> ''context/snapshot''" and "shadow_price e = None"
  shows "derive_messages [e] = (case event_message e of Some m \<Rightarrow> [m] | None \<Rightarrow> [])"
proof -
  have "derive_messages [] = []"
    by (simp add: derive_messages_def surface_def surface_state_def newest_context_def find_last_def)
  then show ?thesis
    using derive_snoc [of "[]" e] assms by (simp add: surface_state_def)
qed

text \<open>
  C40. Between compactions the history a request carries only grows at its end: an event that is
  neither a context snapshot nor a compaction record, appended to any log whose last event is not
  such a record, adds its own message (if it has one) after everything that was there, so every
  earlier request of the turn is a prefix of the next.
\<close>

theorem derive_messages_append:
  assumes "snd (surface_state es) = None" and "ty e \<noteq> ''context/snapshot''" and "shadow_price e = None"
  shows "derive_messages (es @ [e])
    = derive_messages es @ (case event_message e of Some m \<Rightarrow> [m] | None \<Rightarrow> [])"
  using assms by (rule derive_snoc)

theorem derive_messages_append_witness:
  "derive_messages ([\<lparr>ty = ''turn/start'', seq = 0, time = 0, data = JNull, source_event_seqs = None\<rparr>]
      @ [\<lparr>ty = ''user/message'', seq = 1, time = 0, data = jobj [(''content'', JStr ''hi'')],
         source_event_seqs = None\<rparr>]) = [user_message ''hi'']"
proof -
  let ?es = "[\<lparr>ty = ''turn/start'', seq = 0, time = 0, data = JNull, source_event_seqs = None\<rparr>] :: session_event list"
  let ?e = "\<lparr>ty = ''user/message'', seq = 1, time = 0, data = jobj [(''content'', JStr ''hi'')],
      source_event_seqs = None\<rparr> :: session_event"
  have "snd (surface_state ?es) = None" and "derive_messages ?es = []"
    and "event_message ?e = Some (user_message ''hi'')"
    by code_simp+
  with derive_messages_append [of ?es ?e] show ?thesis by (simp add: shadow_price_def)
qed

end
