(* ===== verification/Journal.thy ===== *)
theory Journal
  imports Session_Log Line_Store
begin

text \<open>
  The JSONL session journal of \<^verbatim>\<open>crates/session/src/lib.rs\<close>: \<^verbatim>\<open>scan\<close>, \<^verbatim>\<open>replay\<close>, \<^verbatim>\<open>seed\<close> and
  \<^verbatim>\<open>JsonlSessionLog\<close> (create, append, append_with_sources, events), with the operating system's
  answers to the writes and the clock's readings kept as lists the appends consume.  The journal
  is the provider of the \<^verbatim>\<open>SessionLog\<close> interface (theory \<^verbatim>\<open>Session_Log\<close>), by interpretation.
\<close>

section \<open>Reading\<close>

definition scan_journal ::
  "(string \<Rightarrow> session_event option) \<Rightarrow> read_result \<Rightarrow> session_error + session_event list \<times> nat"
where
  "scan_journal dec r =
     (case r of
        NotFound \<Rightarrow> Inr ([], 0)
      | ReadFailed \<Rightarrow> Inl Io
      | Bytes b \<Rightarrow>
          (case scan_bytes dec (\<lambda>es e. es @ [e]) [] b of
             Inl line \<Rightarrow> Inl (Corrupt line)
           | Inr found \<Rightarrow> Inr found))"

text \<open>The first event that is not at the index its sequence number names.\<close>

fun check_seqs :: "nat \<Rightarrow> session_event list \<Rightarrow> session_error + unit" where
  "check_seqs i [] = Inr ()"
| "check_seqs i (e # es) = (if seq e \<noteq> i then Inl (Corrupt (i + 1)) else check_seqs (i + 1) es)"

definition replay :: "(string \<Rightarrow> session_event option) \<Rightarrow> read_result \<Rightarrow> session_error + session_event list"
where
  "replay dec r =
     (case scan_journal dec r of
        Inl e \<Rightarrow> Inl e
      | Inr (es, _) \<Rightarrow> (case check_seqs 0 es of Inl e \<Rightarrow> Inl e | Inr _ \<Rightarrow> Inr es))"

section \<open>Writing\<close>

text \<open>
  \<open>disk\<close> lists how the coming writes will go and \<open>clock\<close> what the coming readings of the clock
  will be; an exhausted list answers \<open>Written\<close> and 0.  \<open>emitted\<close> is what was broadcast on the
  bus.
\<close>

record journal =
  j_file :: string
  j_events :: "session_event list"
  j_emitted :: "session_event list"
  disk :: "write_outcome list"
  clock :: "nat list"

definition next_disk :: "journal \<Rightarrow> write_outcome" where
  "next_disk l = (case disk l of [] \<Rightarrow> Written | w # _ \<Rightarrow> w)"

definition next_clock :: "journal \<Rightarrow> nat" where
  "next_clock l = (case clock l of [] \<Rightarrow> 0 | t # _ \<Rightarrow> t)"

definition append_journal :: "(session_event \<Rightarrow> string option) \<Rightarrow> journal appender" where
  "append_journal enc l t d src =
     (let e = \<lparr>ty = t, seq = length (j_events l), time = next_clock l, data = d,
               source_event_seqs = src\<rparr>;
          l1 = l\<lparr>clock := tl (clock l)\<rparr>
      in case enc e of
           None \<Rightarrow> (Inl (NotSerializable t), l1)
         | Some line \<Rightarrow>
             (case write_line (next_disk l1) (j_file l1) line of
                (False, file) \<Rightarrow> (Inl Io, l1\<lparr>j_file := file, disk := tl (disk l1)\<rparr>)
              | (True, file) \<Rightarrow>
                  (Inr e, l1\<lparr>j_file := file, disk := tl (disk l1), j_events := j_events l1 @ [e],
                             j_emitted := j_emitted l1 @ [e]\<rparr>)))"

text \<open>Opening an existing journal drops the crash tail from the file, not only from the reading.\<close>

definition create_journal ::
  "(string \<Rightarrow> session_event option) \<Rightarrow> open_env \<Rightarrow> write_outcome list \<Rightarrow> nat list
   \<Rightarrow> (session_error + journal) \<times> string"
where
  "create_journal dec env ws ts =
     (let bytes = found_bytes (env_read env) in
      if \<not> env_dir_ok env then (Inl Io, bytes)
      else if \<not> env_open_ok env then (Inl Io, bytes)
      else (case scan_journal dec (env_read env) of
          Inl e \<Rightarrow> (Inl e, bytes)
        | Inr (es, committed) \<Rightarrow>
            if \<not> env_meta_ok env then (Inl Io, bytes)
            else if committed < length bytes \<and> \<not> env_trunc_ok env then (Inl Io, bytes)
            else (Inr \<lparr>j_file = take committed bytes, j_events = es, j_emitted = [],
                       disk = ws, clock = ts\<rparr>,
                  take committed bytes)))"

text \<open>
  A seed is written in one go, onto a file that must not exist.  \<open>w\<close> is how the writes and the
  one sync at the end go; the answer carries what is in the file afterwards (\<^const>\<open>None\<close> for no
  file).
\<close>

fun encode_seed :: "(session_event \<Rightarrow> string option) \<Rightarrow> session_event list \<Rightarrow> string \<times> string option"
where
  "encode_seed enc [] = ([], None)"
| "encode_seed enc (e # es) =
     (case enc e of
        None \<Rightarrow> ([], Some (ty e))
      | Some line \<Rightarrow> (let (rest, err) = encode_seed enc es in (line @ newline # rest, err)))"

definition seed ::
  "(session_event \<Rightarrow> string option) \<Rightarrow> bool \<Rightarrow> write_outcome \<Rightarrow> string option \<Rightarrow> session_event list
   \<Rightarrow> (session_error + unit) \<times> string option"
where
  "seed enc dir_ok w existing es =
     (case check_seqs 0 es of
        Inl e \<Rightarrow> (Inl e, existing)
      | Inr _ \<Rightarrow>
          if \<not> dir_ok then (Inl Io, existing)
          else if existing \<noteq> None then (Inl Io, existing)
          else (case (encode_seed enc es, w) of
              ((bytes, err), TornAt n) \<Rightarrow>
                (Inl (if n \<ge> length bytes then (case err of Some t \<Rightarrow> NotSerializable t | None \<Rightarrow> Io)
                      else Io), Some (take n bytes))
            | ((bytes, Some t), _) \<Rightarrow> (Inl (NotSerializable t), Some bytes)
            | ((bytes, None), NotSynced) \<Rightarrow> (Inl Io, Some bytes)
            | ((bytes, None), Written) \<Rightarrow> (Inr (), Some bytes)))"

section \<open>The journal provides the interface\<close>

lemma append_journal_cases:
  assumes "append_journal enc l t d src = (r, l')"
  obtains (ok) e line where "r = Inr e" and "enc e = Some line" and "next_disk l = Written"
      and "e = \<lparr>ty = t, seq = length (j_events l), time = next_clock l, data = d,
               source_event_seqs = src\<rparr>"
      and "l' = l\<lparr>clock := tl (clock l), j_file := j_file l @ line @ [newline],
                  disk := tl (disk l), j_events := j_events l @ [e], j_emitted := j_emitted l @ [e]\<rparr>"
  | (refused) "r = Inl (NotSerializable t)" and "l' = l\<lparr>clock := tl (clock l)\<rparr>"
      and "enc \<lparr>ty = t, seq = length (j_events l), time = next_clock l, data = d,
               source_event_seqs = src\<rparr> = None"
  | (failed) line where "r = Inl Io" and "next_disk l \<noteq> Written"
      and "enc \<lparr>ty = t, seq = length (j_events l), time = next_clock l, data = d,
               source_event_seqs = src\<rparr> = Some line"
      and "l' = l\<lparr>clock := tl (clock l), j_file := snd (write_line (next_disk l) (j_file l) line),
                  disk := tl (disk l)\<rparr>"
  using assms
  by (cases "next_disk l") (auto simp: append_journal_def Let_def next_disk_def split: option.splits)

interpretation journal_log: session_log "append_journal enc" j_events for enc
  by unfold_locales (erule append_journal_cases; simp)+

text \<open>
  A journal is healthy while its disk takes every write; the encoder of the sources, which only
  fails on maps with keys that are no strings, is taken to encode every event then.
\<close>

definition healthy_journal :: "(session_event \<Rightarrow> string option) \<Rightarrow> journal \<Rightarrow> bool" where
  "healthy_journal enc l \<longleftrightarrow> (\<forall>w\<in>set (disk l). w = Written) \<and> (\<forall>e. enc e \<noteq> None)"

interpretation journal_works: working_log "append_journal enc" j_events "healthy_journal enc" for enc
proof
  fix l t d src assume h: "healthy_journal enc l"
  obtain r l' where a: "append_journal enc l t d src = (r, l')" by (metis surj_pair)
  have w: "next_disk l = Written" using h by (auto simp: healthy_journal_def next_disk_def split: list.split)
  have "\<forall>w\<in>set (tl (disk l)). w = Written" using h by (cases "disk l") (auto simp: healthy_journal_def)
  note tl = this
  from a show "\<exists>e l'. append_journal enc l t d src = (Inr e, l') \<and> healthy_journal enc l'"
  proof (cases rule: append_journal_cases)
    case ok
    then have "healthy_journal enc l'" using h tl by (simp add: healthy_journal_def)
    with ok a show ?thesis by blast
  next
    case refused
    with h show ?thesis unfolding healthy_journal_def by blast
  qed (use w in simp)
qed

section \<open>Runs of appends\<close>

type_synonym request = "string \<times> json \<times> nat list option"

definition journal_request :: "(session_event \<Rightarrow> string option) \<Rightarrow> journal \<Rightarrow> request \<Rightarrow> journal" where
  "journal_request enc l q = (case q of (t, d, src) \<Rightarrow> snd (append_journal enc l t d src))"

definition empty_journal :: "write_outcome list \<Rightarrow> nat list \<Rightarrow> journal" where
  "empty_journal ws ts = \<lparr>j_file = [], j_events = [], j_emitted = [], disk = ws, clock = ts\<rparr>"

definition journal_run ::
  "(session_event \<Rightarrow> string option) \<Rightarrow> write_outcome list \<Rightarrow> nat list \<Rightarrow> request list \<Rightarrow> journal"
where
  "journal_run enc ws ts qs = foldl (journal_request enc) (empty_journal ws ts) qs"

lemma journal_request_inv:
  assumes "\<And>t d src r l'. append_journal enc l t d src = (r, l') \<Longrightarrow> P l'"
  shows "P (journal_request enc l q)"
  using assms [OF prod.collapse [symmetric]] by (cases q) (auto simp: journal_request_def)

text \<open>
  Through any sequence of appends, however the disk answers each, an event in the log sits at
  the index its \<^verbatim>\<open>seq\<close> names, and the bus has been told of exactly the events in the log, in
  order: a failed append broadcasts nothing and takes no sequence number.
\<close>

theorem journal_memory_log:
  "seqs_contiguous (j_events (journal_run enc ws ts qs))
   \<and> j_emitted (journal_run enc ws ts qs) = j_events (journal_run enc ws ts qs)"
proof (induction qs rule: rev_induct)
  case Nil
  show ?case by (simp add: journal_run_def empty_journal_def seqs_contiguous_def)
next
  case (snoc q qs)
  let ?l = "journal_run enc ws ts qs"
  let ?P = "\<lambda>l. seqs_contiguous (j_events l) \<and> j_emitted l = j_events l"
  have "?P (journal_request enc ?l q)"
  proof (rule journal_request_inv [of _ _ ?P])
    fix t d src r l' assume a: "append_journal enc ?l t d src = (r, l')"
    then have "j_emitted l' = j_events l'"
      using snoc by (cases rule: append_journal_cases) simp_all
    with journal_log.append_contiguous [OF a] snoc
    show "?P l'" by blast
  qed
  then show ?case by (simp add: journal_run_def)
qed

section \<open>What a crash leaves\<close>

lemma foldl_snoc: "foldl (\<lambda>es e. es @ [e]) es xs = es @ xs"
  by (induction xs arbitrary: es) simp_all

lemma check_seqs_ok: "check_seqs i es = Inr () \<longleftrightarrow> (\<forall>j < length es. seq (es ! j) = i + j)"
proof (induction es arbitrary: i)
  case (Cons e es)
  then show ?case by (auto simp: less_Suc_eq_0_disj)
qed simp

lemma check_seqs_contiguous: "seqs_contiguous es \<Longrightarrow> check_seqs 0 es = Inr ()"
  by (simp add: check_seqs_ok seqs_contiguous_def)

lemma replay_encoded:
  assumes "codec_ok enc dec (set es)" and "newline \<notin> set torn" and "seqs_contiguous es"
  shows "replay dec (Bytes (encode_log enc es @ torn)) = Inr es"
  using scan_bytes_torn [of "\<lambda>c. the (enc c)" dec es torn "\<lambda>es e. es @ [e]" "[]"] assms
  by (simp add: codec_ok_def replay_def scan_journal_def foldl_snoc check_seqs_contiguous)

lemma create_encoded:
  assumes "codec_ok enc dec (set es)" and "newline \<notin> set torn"
  shows "create_journal dec (calm (encode_log enc es @ torn)) ws ts
    = (Inr \<lparr>j_file = encode_log enc es, j_events = es, j_emitted = [], disk = ws, clock = ts\<rparr>,
       encode_log enc es)"
  using scan_bytes_torn [of "\<lambda>c. the (enc c)" dec es torn "\<lambda>es e. es @ [e]" "[]"] assms
  by (simp add: codec_ok_def create_journal_def scan_journal_def foldl_snoc Let_def)

text \<open>As long as writes go through, the file is exactly the log, one line per event.\<close>

lemma written_file:
  assumes "\<forall>w\<in>set ws. w = Written"
  shows "j_file (journal_run enc ws ts qs) = encode_log enc (j_events (journal_run enc ws ts qs))
    \<and> (\<forall>w\<in>set (disk (journal_run enc ws ts qs)). w = Written)"
proof (induction qs rule: rev_induct)
  case Nil
  show ?case using assms by (simp add: journal_run_def empty_journal_def)
next
  case (snoc q qs)
  let ?l = "journal_run enc ws ts qs"
  let ?P = "\<lambda>l. j_file l = encode_log enc (j_events l) \<and> (\<forall>w\<in>set (disk l). w = Written)"
  have "?P (journal_request enc ?l q)"
  proof (rule journal_request_inv [of _ _ ?P])
    fix t d src r l' assume a: "append_journal enc ?l t d src = (r, l')"
    have w: "next_disk ?l = Written" using snoc by (auto simp: next_disk_def split: list.split)
    have tl: "\<forall>w\<in>set (tl (disk ?l)). w = Written" using snoc by (cases "disk ?l") auto
    from a show "?P l'"
      using snoc w tl by (cases rule: append_journal_cases) simp_all
  qed
  then show ?case by (simp add: journal_run_def)
qed

lemma journal_run_contiguous: "seqs_contiguous (j_events (journal_run enc ws ts qs))"
proof (induction qs rule: rev_induct)
  case Nil
  show ?case by (simp add: journal_run_def empty_journal_def seqs_contiguous_def)
next
  case (snoc q qs)
  have "seqs_contiguous (j_events (journal_request enc (journal_run enc ws ts qs) q))"
    by (rule journal_request_inv) (rule journal_log.append_contiguous [OF _ snoc])
  then show ?case by (simp add: journal_run_def)
qed

text \<open>
  C3. Whatever append has acknowledged survives a crash: a journal every write of which went
  through, with any half-written line after it, replays to exactly the events in memory, and
  opening it truncates the file to those lines and continues from there.
\<close>

theorem journal_durable:
  assumes "\<forall>w\<in>set ws. w = Written" and "newline \<notin> set torn"
    and "codec_ok enc dec (set (j_events (journal_run enc ws ts qs)))"
  shows "replay dec (Bytes (j_file (journal_run enc ws ts qs) @ torn))
      = Inr (j_events (journal_run enc ws ts qs))
    \<and> create_journal dec (calm (j_file (journal_run enc ws ts qs) @ torn)) ws' ts'
      = (Inr \<lparr>j_file = j_file (journal_run enc ws ts qs),
              j_events = j_events (journal_run enc ws ts qs), j_emitted = [],
              disk = ws', clock = ts'\<rparr>,
         j_file (journal_run enc ws ts qs))"
  using replay_encoded [OF assms(3,2) journal_run_contiguous] create_encoded [OF assms(3,2)]
    written_file [OF assms(1)] by simp

text \<open>A codec for the witnesses: one letter per event, by its sequence number.\<close>

definition toy_enc :: "session_event \<Rightarrow> string option" where
  "toy_enc e = (if seq e = 0 then Some ''a'' else if seq e = 1 then Some ''b'' else None)"

definition toy_event :: "nat \<Rightarrow> session_event" where
  "toy_event n = \<lparr>ty = ''turn/start'', seq = n, time = 0, data = JNull, source_event_seqs = None\<rparr>"

definition toy_dec :: "string \<Rightarrow> session_event option" where
  "toy_dec s = (if s = ''a'' then Some (toy_event 0) else if s = ''b'' then Some (toy_event 1) else None)"

abbreviation toy_request :: request where
  "toy_request \<equiv> (''turn/start'', JNull, None)"

lemma toy_codec: "codec_ok toy_enc toy_dec {toy_event 0, toy_event 1}"
  by (simp add: codec_ok_def codec_on_def toy_enc_def toy_dec_def toy_event_def) code_simp

lemma toy_run:
  "j_events (journal_run toy_enc [] [] [toy_request, toy_request]) = [toy_event 0, toy_event 1]"
  "j_file (journal_run toy_enc [] [] [toy_request, toy_request]) = ''a'' @ newline # ''b'' @ [newline]"
  by code_simp+

theorem journal_durable_witness:
  "replay toy_dec (Bytes (''a'' @ newline # ''b'' @ newline # ''torn'')) = Inr [toy_event 0, toy_event 1]"
  using journal_durable [of "[]" "''torn''" toy_enc toy_dec "[]" "[toy_request, toy_request]"]
    toy_codec toy_run by simp

text \<open>
  C2. A crash that keeps any number of the file's bytes leaves a journal that replays to a prefix
  of the log: no event is ever read back altered, reordered or out of thin air.
\<close>

theorem journal_crash_prefix:
  assumes "\<forall>w\<in>set ws. w = Written"
    and "codec_ok enc dec (set (j_events (journal_run enc ws ts qs)))"
  shows "\<exists>j \<le> length (j_events (journal_run enc ws ts qs)).
    replay dec (Bytes (take k (j_file (journal_run enc ws ts qs))))
      = Inr (take j (j_events (journal_run enc ws ts qs)))"
proof -
  let ?es = "j_events (journal_run enc ws ts qs)"
  obtain j where j: "j \<le> length ?es"
    and s: "scan_bytes dec (\<lambda>es e. es @ [e]) [] (take k (encode_log enc ?es))
      = Inr (foldl (\<lambda>es e. es @ [e]) [] (take j ?es), length (encode_log enc (take j ?es)))"
    using scan_bytes_crash [of "\<lambda>c. the (enc c)" dec ?es "\<lambda>es e. es @ [e]" "[]" k] assms(2)
    by (auto simp: codec_ok_def)
  have "check_seqs 0 (take j ?es) = Inr ()"
    by (intro check_seqs_contiguous seqs_contiguous_take journal_run_contiguous)
  with j s show ?thesis
    using written_file [OF assms(1), of enc ts qs]
    by (auto simp: replay_def scan_journal_def foldl_snoc)
qed

theorem journal_crash_prefix_witness:
  "\<exists>j \<le> 2. replay toy_dec (Bytes (''a'' @ [newline, CHR ''b''])) = Inr (take j [toy_event 0, toy_event 1])"
  using journal_crash_prefix [of "[]" toy_enc toy_dec "[]" "[toy_request, toy_request]" 3]
    toy_codec toy_run by (simp add: numeral_2_eq_2)

section \<open>After a failed write\<close>

lemma check_seqs_bad:
  assumes "seqs_contiguous es" and "seq e \<noteq> length es"
  shows "check_seqs 0 (es @ e # rest) = Inl (Corrupt (length es + 1))"
proof -
  have "check_seqs i (es @ e # rest) = Inl (Corrupt (i + length es + 1))"
    if "\<forall>j < length es. seq (es ! j) = i + j" and "seq e \<noteq> i + length es" for i
    using that
  proof (induction es arbitrary: i)
    case (Cons a es)
    have "seq a = i" using Cons.prems(1) by (metis Nat.add_0_right length_greater_0_conv list.distinct(1) nth_Cons_0)
    moreover have "\<forall>j < length es. seq (es ! j) = i + 1 + j"
      using Cons.prems(1) by (metis Suc_less_eq add_Suc_right add_Suc_shift length_Cons nth_Cons_Suc plus_1_eq_Suc add.commute)
    ultimately show ?case
      using Cons.IH [of "i + 1"] Cons.prems(2) by simp
  qed simp
  from this [of 0] show ?thesis using assms by (simp add: seqs_contiguous_def)
qed

text \<open>
  A finding: when the sync of an append fails, the whole line is in the file but not in
  memory, and the journal stays open.  The next append takes the same sequence number and
  succeeds; from then on the file holds two lines with that number, and \<^verbatim>\<open>replay\<close> refuses the
  journal although every append it acknowledged is in it.
\<close>

theorem journal_unsynced_refused:
  assumes "j_file l = encode_log enc (j_events l)" and "seqs_contiguous (j_events l)"
    and "disk l = [NotSynced]"
    and "append_journal enc l t1 d1 src1 = (r1, l1)" and "r1 = Inl Io"
    and "append_journal enc l1 t2 d2 src2 = (Inr e2, l2)"
    and "codec_ok enc dec (insert e2 (insert
           \<lparr>ty = t1, seq = length (j_events l), time = next_clock l, data = d1,
            source_event_seqs = src1\<rparr> (set (j_events l))))"
  shows "j_events l2 = j_events l @ [e2]
    \<and> replay dec (Bytes (j_file l2)) = Inl (Corrupt (length (j_events l) + 2))"
proof -
  let ?e1 = "\<lparr>ty = t1, seq = length (j_events l), time = next_clock l, data = d1,
      source_event_seqs = src1\<rparr>"
  have w: "next_disk l = NotSynced" using assms(3) by (simp add: next_disk_def)
  have l1: "j_events l1 = j_events l" "j_file l1 = encode_log enc (j_events l @ [?e1])"
    using assms(4) by (cases rule: append_journal_cases; use assms(1,5) w in simp)+
  have l2: "j_events l2 = j_events l @ [e2]" "seq e2 = length (j_events l)"
      "j_file l2 = encode_log enc (j_events l @ [?e1, e2])"
    using assms(6) by (cases rule: append_journal_cases; simp add: l1)+
  have "codec_on (\<lambda>c. the (enc c)) dec (set (j_events l @ [?e1, e2]))"
    using assms(7) by (auto simp: codec_ok_def codec_on_def)
  from scan_bytes_encoded [OF this, of "\<lambda>es e. es @ [e]" "[]"]
  have "scan_bytes dec (\<lambda>es e. es @ [e]) [] (j_file l2)
      = Inr (j_events l @ [?e1, e2], length (j_file l2))"
    by (simp add: l2 foldl_snoc)
  moreover have "check_seqs 0 ((j_events l @ [?e1]) @ [e2]) = Inl (Corrupt (length (j_events l @ [?e1]) + 1))"
    by (rule check_seqs_bad) (simp_all add: seqs_contiguous_snoc assms(2) l2)
  ultimately show ?thesis
    by (simp add: l2 replay_def scan_journal_def)
qed

definition toy_note :: session_event where
  "toy_note = \<lparr>ty = ''note'', seq = 0, time = 0, data = JNull, source_event_seqs = None\<rparr>"

definition toy_enc2 :: "session_event \<Rightarrow> string option" where
  "toy_enc2 e = Some (if ty e = ''note'' then ''n'' else ''a'')"

definition toy_dec2 :: "string \<Rightarrow> session_event option" where
  "toy_dec2 s = (if s = ''n'' then Some toy_note else if s = ''a'' then Some (toy_event 0) else None)"

lemma toy_codec2: "codec_ok toy_enc2 toy_dec2 {toy_note, toy_event 0}"
  by (simp add: codec_ok_def codec_on_def toy_enc2_def toy_dec2_def toy_event_def toy_note_def) code_simp

theorem journal_unsynced_refused_witness:
  "replay toy_dec2 (Bytes [CHR ''a'', newline, CHR ''n'', newline]) = Inl (Corrupt 2)"
proof -
  let ?l = "empty_journal [NotSynced] []"
  let ?l1 = "snd (append_journal toy_enc2 ?l ''turn/start'' JNull None)"
  let ?l2 = "snd (append_journal toy_enc2 ?l1 ''note'' JNull None)"
  have "fst (append_journal toy_enc2 ?l ''turn/start'' JNull None) = Inl Io"
    and "fst (append_journal toy_enc2 ?l1 ''note'' JNull None) = Inr toy_note"
    and "j_file ?l2 = [CHR ''a'', newline, CHR ''n'', newline]"
    by code_simp+
  with journal_unsynced_refused [of ?l toy_enc2 "''turn/start''" JNull None "Inl Io" ?l1 "''note''"
      JNull None toy_note ?l2 toy_dec2] toy_codec2
  show ?thesis
    by (simp add: prod_eq_iff empty_journal_def seqs_contiguous_def next_clock_def toy_event_def)
qed

text \<open>
  A finding: a write that stops in the middle of a line (a full disk) also leaves the journal
  open with that fragment at the end of the file.  The next append writes its line after it, is
  acknowledged, and the two make one line no reader can parse: the session cannot be opened or
  replayed any more.
\<close>

theorem journal_torn_refused:
  assumes "j_file l = encode_log enc (j_events l)" and "disk l = [TornAt n]"
    and "append_journal enc l t1 d1 src1 = (r1, l1)" and "r1 = Inl Io"
    and "append_journal enc l1 t2 d2 src2 = (Inr e2, l2)"
    and "codec_ok enc dec (insert e2 (insert e1 (set (j_events l))))"
    and "e1 = \<lparr>ty = t1, seq = length (j_events l), time = next_clock l, data = d1,
              source_event_seqs = src1\<rparr>"
    and "line = take n (the (enc e1)) @ the (enc e2)"
    and "valid_utf8 line" and "trim line \<noteq> []" and "dec (trim line) = None"
  shows "replay dec (Bytes (j_file l2)) = Inl (Corrupt (length (j_events l) + 1))
    \<and> fst (create_journal dec (calm (j_file l2)) ws ts) = Inl (Corrupt (length (j_events l) + 1))"
proof -
  have w: "next_disk l = TornAt n" using assms(2) by (simp add: next_disk_def)
  have l1: "j_events l1 = j_events l"
      "j_file l1 = encode_log enc (j_events l) @ take n (the (enc e1))"
    using assms(3) by (cases rule: append_journal_cases; use assms(1,4,7) w in simp)+
  have l2: "j_file l2 = (encode_log enc (j_events l) @ take n (the (enc e1))) @ the (enc e2) @ [newline]"
    using assms(5) by (cases rule: append_journal_cases; simp add: l1)
  have "newline \<notin> set (take n (the (enc e1)))" and "newline \<notin> set (the (enc e2))"
    using assms(6) by (auto simp: codec_ok_def codec_on_def dest: in_set_takeD)
  moreover have "codec_on (\<lambda>c. the (enc c)) dec (set (j_events l))"
    using assms(6) by (auto simp: codec_ok_def codec_on_def)
  ultimately have "scan_bytes dec (\<lambda>es e. es @ [e]) [] (j_file l2) = Inl (length (j_events l) + 1)"
    using assms(8-11) unfolding l2 by (intro scan_bytes_spliced) simp_all
  then show ?thesis
    by (simp add: replay_def scan_journal_def create_journal_def)
qed

definition toy_enc3 :: "session_event \<Rightarrow> string option" where
  "toy_enc3 e = Some (if ty e = ''note'' then ''nn'' else ''aa'')"

definition toy_dec3 :: "string \<Rightarrow> session_event option" where
  "toy_dec3 s = (if s = ''nn'' then Some toy_note else if s = ''aa'' then Some (toy_event 0) else None)"

lemma toy_codec3: "codec_ok toy_enc3 toy_dec3 {toy_note, toy_event 0}"
  by (simp add: codec_ok_def codec_on_def toy_enc3_def toy_dec3_def toy_event_def toy_note_def) code_simp

theorem journal_torn_refused_witness:
  "replay toy_dec3 (Bytes (''ann'' @ [newline])) = Inl (Corrupt 1)"
proof -
  let ?l = "empty_journal [TornAt 1] []"
  let ?l1 = "snd (append_journal toy_enc3 ?l ''turn/start'' JNull None)"
  let ?l2 = "snd (append_journal toy_enc3 ?l1 ''note'' JNull None)"
  have "fst (append_journal toy_enc3 ?l ''turn/start'' JNull None) = Inl Io"
    and "fst (append_journal toy_enc3 ?l1 ''note'' JNull None) = Inr toy_note"
    and "j_file ?l2 = ''ann'' @ [newline]"
    and "valid_utf8 ''ann''" and "trim ''ann'' = ''ann''" and "toy_dec3 ''ann'' = None"
    by code_simp+
  moreover have "the (toy_enc3 (toy_event 0)) = ''aa''" and "the (toy_enc3 toy_note) = ''nn''"
    by code_simp+
  ultimately show ?thesis
    using journal_torn_refused [of ?l toy_enc3 1 "''turn/start''" JNull None "Inl Io" ?l1 "''note''"
      JNull None toy_note ?l2 toy_dec3 "toy_event 0" "''ann''"] toy_codec3
    by (simp add: prod_eq_iff empty_journal_def next_clock_def toy_event_def)
qed

section \<open>Seeds\<close>

lemma check_seqs_first:
  "check_seqs 0 es = Inl x \<Longrightarrow> \<exists>i. x = Corrupt (i + 1) \<and> i < length es \<and> seq (es ! i) \<noteq> i
     \<and> seqs_contiguous (take i es)"
proof -
  have "\<exists>j < length es. x = Corrupt (k + j + 1) \<and> seq (es ! j) \<noteq> k + j \<and> (\<forall>m<j. seq (es ! m) = k + m)"
    if "check_seqs k es = Inl x" for k
    using that
  proof (induction es arbitrary: k)
    case (Cons e es)
    show ?case
    proof (cases "seq e = k")
      case True
      then obtain j where "j < length es" "x = Corrupt (k + 1 + j + 1)" "seq (es ! j) \<noteq> k + 1 + j"
        "\<forall>m<j. seq (es ! m) = k + 1 + m"
        using Cons.IH [of "k + 1"] Cons.prems by auto
      then show ?thesis
        using True by (intro exI [of _ "Suc j"]) (auto simp: less_Suc_eq_0_disj)
    next
      case False
      with Cons.prems show ?thesis by auto
    qed
  qed simp
  then show "check_seqs 0 es = Inl x \<Longrightarrow> ?thesis"
    by (fastforce simp: seqs_contiguous_def)
qed

lemma encode_seed_ok:
  "codec_ok enc dec (set es) \<Longrightarrow> encode_seed enc es = (encode_log enc es, None)"
proof (induction es)
  case (Cons e es)
  then have "codec_ok enc dec (set es)" and "enc e \<noteq> None"
    by (auto simp: codec_ok_def codec_on_def)
  with Cons.IH show ?case by auto
qed simp

text \<open>
  A seed round-trips: a list of events whose sequence numbers are their positions is laid down
  and replays to itself, any other list is refused at its first misplaced event and writes
  nothing, and a journal that already exists is never written to.
\<close>

theorem seed_replay:
  assumes "codec_ok enc dec (set es)"
  shows "(seqs_contiguous es \<longrightarrow>
      (\<exists>bytes. seed enc True Written None es = (Inr (), Some bytes) \<and> replay dec (Bytes bytes) = Inr es))
    \<and> (\<not> seqs_contiguous es \<longrightarrow>
      (\<exists>i < length es. seq (es ! i) \<noteq> i \<and> seqs_contiguous (take i es)
        \<and> seed enc dir_ok w None es = (Inl (Corrupt (i + 1)), None)))
    \<and> (\<exists>x. seed enc dir_ok w (Some old) es = (Inl x, Some old))"
proof (intro conjI impI)
  assume c: "seqs_contiguous es"
  have "replay dec (Bytes (encode_log enc es)) = Inr es"
    using replay_encoded [OF assms _ c, of "[]"] by simp
  then show "\<exists>bytes. seed enc True Written None es = (Inr (), Some bytes) \<and> replay dec (Bytes bytes) = Inr es"
    using encode_seed_ok [OF assms] by (simp add: seed_def check_seqs_contiguous [OF c])
next
  assume c: "\<not> seqs_contiguous es"
  then obtain x where x: "check_seqs 0 es = Inl x"
    by (cases "check_seqs 0 es") (auto simp: check_seqs_ok seqs_contiguous_def)
  from check_seqs_first [OF x] show "\<exists>i < length es. seq (es ! i) \<noteq> i \<and> seqs_contiguous (take i es)
        \<and> seed enc dir_ok w None es = (Inl (Corrupt (i + 1)), None)"
    using x by (auto simp: seed_def)
next
  show "\<exists>x. seed enc dir_ok w (Some old) es = (Inl x, Some old)"
    by (cases "check_seqs 0 es") (auto simp: seed_def)
qed

theorem seed_replay_witness:
  "\<exists>bytes. seed toy_enc True Written None [toy_event 0, toy_event 1] = (Inr (), Some bytes)
     \<and> replay toy_dec (Bytes bytes) = Inr [toy_event 0, toy_event 1]"
proof -
  have "codec_ok toy_enc toy_dec (set [toy_event 0, toy_event 1])" using toy_codec by simp
  moreover have "seqs_contiguous [toy_event 0, toy_event 1]"
    by (simp add: seqs_contiguous_def less_Suc_eq toy_event_def)
  ultimately show ?thesis using seed_replay by blast
qed

end
