(* ===== verification/Compaction.thy ===== *)
theory Compaction
  imports Turn_Log Journal
begin

text \<open>
  Pruning over-long tool results (\<^verbatim>\<open>crates/turn/src/prune.rs\<close>) and folding the head of a
  conversation into one summary (\<^verbatim>\<open>compaction.rs\<close>), as transactions on any session log: the
  operations take the log's \<open>append\<close> and \<open>events\<close> as arguments, and their lemmas are proved
  inside the interface \<open>session_log\<close>.
\<close>

section \<open>Pruning a text\<close>

definition MARKER :: string where
  "MARKER = [CHR 0x0A, CHR 0x0A] @ ''[... tool result middle pruned ...]'' @ [CHR 0x0A, CHR 0x0A]"

record prune_budget =
  pb_threshold :: nat
  pb_head :: nat
  pb_tail :: nat

definition default_prune_budget :: prune_budget where
  "default_prune_budget = \<lparr>pb_threshold = 8192, pb_head = 4096, pb_tail = 1024\<rparr>"

datatype prune_error = EmptyThreshold | WouldNotShrink nat nat nat nat nat

definition validate :: "prune_budget \<Rightarrow> prune_error + prune_budget" where
  "validate b =
     (if pb_threshold b = 0 then Inl EmptyThreshold
      else (let marker = char_count MARKER; total = pb_head b + marker + pb_tail b
            in if total > pb_threshold b
               then Inl (WouldNotShrink (pb_head b) marker (pb_tail b) total (pb_threshold b))
               else Inr b))"

definition prune :: "string \<Rightarrow> prune_budget \<Rightarrow> string option" where
  "prune text b =
     (if char_count text \<le> pb_threshold b then None
      else Some (take_chars (pb_head b) text @ MARKER @ drop_chars (char_count text - pb_tail b) text))"

definition pruned :: "string \<Rightarrow> prune_budget \<Rightarrow> string" where
  "pruned text b = (case prune text b of Some s \<Rightarrow> s | None \<Rightarrow> text)"

section \<open>Selecting what to compact\<close>

definition open_calls_before :: "session_event list \<Rightarrow> nat list \<Rightarrow> nat \<Rightarrow> int" where
  "open_calls_before es nodes at =
     sum_list (map (\<lambda>n.
       if ty (es ! n) = ''assistant/message'' then
         (case Option.bind (jget (data (es ! n)) ''tool_calls'') as_array of
            Some calls \<Rightarrow> int (length calls) | None \<Rightarrow> 0)
       else if ty (es ! n) = ''tool/result'' then - 1
       else 0) (take at nodes))"

definition tool_pairing_balanced_before :: "session_event list \<Rightarrow> nat list \<Rightarrow> nat \<Rightarrow> bool" where
  "tool_pairing_balanced_before es nodes at \<longleftrightarrow> open_calls_before es nodes at = 0"

text \<open>The walk back over the tail, from position \<open>k\<close> down, until \<open>retain\<close> tokens are covered.\<close>

fun keep_from :: "(session_event \<Rightarrow> nat) \<Rightarrow> session_event list \<Rightarrow> nat list \<Rightarrow> nat \<Rightarrow> nat \<Rightarrow> nat \<Rightarrow> nat" where
  "keep_from cost es nodes retain acc 0 = 0"
| "keep_from cost es nodes retain acc (Suc k) =
     (let acc' = acc + cost (es ! (nodes ! k))
      in if acc' \<ge> retain then k else keep_from cost es nodes retain acc' k)"

text \<open>The cut then moves earlier until it splits no call from its result.\<close>

fun balanced_from :: "session_event list \<Rightarrow> nat list \<Rightarrow> nat \<Rightarrow> nat" where
  "balanced_from es nodes 0 = 0"
| "balanced_from es nodes (Suc k) =
     (if tool_pairing_balanced_before es nodes (Suc k) then Suc k else balanced_from es nodes k)"

definition select_range ::
  "(json \<Rightarrow> nat) \<Rightarrow> session_event list \<Rightarrow> nat list \<Rightarrow> nat \<Rightarrow> (nat \<times> nat) option"
where
  "select_range jlen es nodes retain =
     (if nodes = [] then None
      else (let k = balanced_from es nodes (keep_from (price jlen) es nodes retain 0 (length nodes))
            in if k > 0 then Some (0, k - 1) else None))"

section \<open>The transaction\<close>

datatype compaction_error =
    EmptyWindow
  | RetainExceedsThreshold nat nat
  | NothingToCompact
  | NotSmaller nat nat
  | EmptySummary
  | Summarizer string
  | AlreadyOpen nat
  | LogError session_error

record summary =
  sum_text :: string
  sum_provider :: string
  sum_model :: string

definition CHECKPOINT_PREAMBLE :: string where
  "CHECKPOINT_PREAMBLE = ''This is an automatically generated checkpoint condensing an earlier span of '' @
     ''this conversation. Treat it as established background and continue from the '' @
     ''messages that follow it without acknowledging it.''"

definition frame_summary :: "string \<Rightarrow> string" where
  "frame_summary s = CHECKPOINT_PREAMBLE @ [CHR 0x0A, CHR 0x0A] @ ''<compacted-summary>'' @ [CHR 0x0A]
     @ s @ [CHR 0x0A] @ ''</compacted-summary>''"

record compacted =
  c_start_seq :: nat
  c_summary_seq :: nat
  c_replacement_seq :: nat
  c_end_seq :: nat
  c_shadowed_seqs :: "nat list"
  c_shadowed_tokens :: nat
  c_summary_tokens :: nat

text \<open>\<^verbatim>\<open>shadowed_range\<close>: the first and last shadowed sequence numbers, null for an empty span.\<close>

definition range_json :: "nat list \<Rightarrow> json" where
  "range_json ns =
     (let opt = (\<lambda>xs. case xs of [] \<Rightarrow> JNull | n # _ \<Rightarrow> jnat n)
      in jobj [(''start'', opt ns), (''end'', opt (rev ns))])"

definition open_compaction :: "session_event list \<Rightarrow> nat option" where
  "open_compaction es =
     (case find_last (\<lambda>e. ty e = ''compaction/start'' \<or> ty e = ''compaction/end'') es of
        Some e \<Rightarrow> (if ty e = ''compaction/start'' then Some (seq e) else None)
      | None \<Rightarrow> None)"

text \<open>\<open>summarize\<close> is the awaited summarizer's answer to the system prompt and the shadowed span.\<close>

definition summarize_and_commit ::
  "'l appender \<Rightarrow> (json \<Rightarrow> nat) \<Rightarrow> (string \<Rightarrow> message list \<Rightarrow> compaction_error + summary)
   \<Rightarrow> string \<Rightarrow> message list \<Rightarrow> nat \<Rightarrow> nat list \<Rightarrow> nat \<Rightarrow> 'l \<Rightarrow> (compaction_error + compacted) \<times> 'l"
where
  "summarize_and_commit app jlen summarize system messages start_seq shadowed tokens l =
     (case summarize system messages of
        Inl e \<Rightarrow> (Inl e, l)
      | Inr s \<Rightarrow>
          if trim (sum_text s) = [] then (Inl EmptySummary, l)
          else (let content = frame_summary (sum_text s);
                    summary_tokens = estimate_message jlen (user_message content)
            in if summary_tokens \<ge> tokens then (Inl (NotSmaller summary_tokens tokens), l)
               else (case app l ''compaction/summary''
                      (jobj [(''start_seq'', jnat start_seq), (''summary'', JStr (sum_text s)),
                             (''provider'', JStr (sum_provider s)), (''model'', JStr (sum_model s)),
                             (''shadowed_range'', range_json shadowed),
                             (''shadowed_seqs'', JArr (map jnat shadowed)),
                             (''shadowed_token_count'', jnat tokens)]) None of
                   (Inl e, l1) \<Rightarrow> (Inl (LogError e), l1)
                 | (Inr record, l1) \<Rightarrow>
                     (case app l1 ''user/message''
                            (jobj [(''content'', JStr content), (''compacted'', JBool True)])
                            (Some ([start_seq, seq record] @ shadowed)) of
                        (Inl e, l2) \<Rightarrow> (Inl (LogError e), l2)
                      | (Inr repl, l2) \<Rightarrow>
                          (Inr \<lparr>c_start_seq = start_seq, c_summary_seq = seq record,
                                c_replacement_seq = seq repl, c_end_seq = seq repl,
                                c_shadowed_seqs = shadowed, c_shadowed_tokens = tokens,
                                c_summary_tokens = summary_tokens\<rparr>, l2)))))"

text \<open>\<open>err_text\<close> is \<^verbatim>\<open>error.to_string()\<close>, which for an I/O error is the system's wording.\<close>

definition compact ::
  "'l appender \<Rightarrow> ('l \<Rightarrow> session_event list) \<Rightarrow> (json \<Rightarrow> nat) \<Rightarrow> (compaction_error \<Rightarrow> string)
   \<Rightarrow> (string \<Rightarrow> message list \<Rightarrow> compaction_error + summary) \<Rightarrow> string \<Rightarrow> nat \<Rightarrow> 'l
   \<Rightarrow> (compaction_error + compacted) \<times> 'l"
where
  "compact app events jlen err_text summarize system retain l =
     (let es = events l in
      case open_compaction es of
        Some open_seq \<Rightarrow> (Inl (AlreadyOpen open_seq), l)
      | None \<Rightarrow>
          (let nodes = surface es in
           case select_range jlen es nodes retain of
             None \<Rightarrow> (Inl NothingToCompact, l)
           | Some (lo, hi) \<Rightarrow>
               (let shadowed = drop lo (take (hi + 1) nodes);
                    seqs = map (\<lambda>n. seq (es ! n)) shadowed;
                    tokens = sum_list (map (\<lambda>n. price jlen (es ! n)) shadowed);
                    messages = concat (map (\<lambda>n. derive_messages [es ! n]) shadowed)
                in case app l ''compaction/start'' (jobj [(''shadowed_range'', range_json seqs)]) None of
                     (Inl e, l1) \<Rightarrow> (Inl (LogError e), l1)
                   | (Inr start, l1) \<Rightarrow>
                       (case summarize_and_commit app jlen summarize system messages (seq start)
                               seqs tokens l1 of
                          (Inr fin, l2) \<Rightarrow>
                            (case app l2 ''compaction/end'' (jobj [(''start_seq'', jnat (seq start))]) None of
                               (Inl e, l3) \<Rightarrow> (Inl (LogError e), l3)
                             | (Inr closed, l3) \<Rightarrow> (Inr (fin\<lparr>c_end_seq := seq closed\<rparr>), l3))
                        | (Inl e, l2) \<Rightarrow>
                            (case app l2 ''compaction/end''
                                   (jobj [(''start_seq'', jnat (seq start)), (''error'', JStr (err_text e))]) None of
                               (_, l3) \<Rightarrow> (Inl e, l3))))))"

section \<open>Pruning the surface\<close>

text \<open>
  The loop over the positions the surface had when the pass began; \<open>es\<close> is the log as it was
  then.  The answer lists each shadowed result with its replacement, and the characters removed.
\<close>

fun prune_nodes ::
  "'l appender \<Rightarrow> (json \<Rightarrow> nat) \<Rightarrow> prune_budget \<Rightarrow> session_event list \<Rightarrow> nat list \<Rightarrow> 'l
   \<Rightarrow> (compaction_error + (nat \<times> nat) list \<times> nat) \<times> 'l"
where
  "prune_nodes app jlen b es [] l = (Inr ([], 0), l)"
| "prune_nodes app jlen b es (n # ns) l =
     (let e = es ! n; content = jstr (data e) ''content'' in
      if ty e \<noteq> ''tool/result'' then prune_nodes app jlen b es ns l
      else (case prune content b of
          None \<Rightarrow> prune_nodes app jlen b es ns l
        | Some shortened \<Rightarrow>
            (case app l ''compaction/prune''
                   (jobj [(''shadowed_range'', range_json [seq e]), (''shadowed_seqs'', JArr [jnat (seq e)]),
                          (''shadowed_token_count'', jnat (price jlen e))]) None of
               (Inl x, l1) \<Rightarrow> (Inl (LogError x), l1)
             | (Inr _, l1) \<Rightarrow>
                 (case app l1 ''tool/result''
                        (jset ''pruned'' (JBool True) (jset ''content'' (JStr shortened) (data e)))
                        (Some [seq e]) of
                    (Inl x, l2) \<Rightarrow> (Inl (LogError x), l2)
                  | (Inr repl, l2) \<Rightarrow>
                      (case prune_nodes app jlen b es ns l2 of
                         (Inl x, l3) \<Rightarrow> (Inl x, l3)
                       | (Inr (reps, removed), l3) \<Rightarrow>
                           (Inr ((seq e, seq repl) # reps,
                                 (char_count content - char_count shortened) + removed), l3))))))"

definition prune_results ::
  "'l appender \<Rightarrow> ('l \<Rightarrow> session_event list) \<Rightarrow> (json \<Rightarrow> nat) \<Rightarrow> prune_budget \<Rightarrow> 'l
   \<Rightarrow> (compaction_error + (nat \<times> nat) list \<times> nat) \<times> 'l"
where
  "prune_results app events jlen b l = prune_nodes app jlen b (events l) (surface (events l)) l"

section \<open>A prune converges\<close>

lemma utf8_chars_drop_chars: "0 < n \<Longrightarrow> utf8_chars (drop_chars n s) = drop n (utf8_chars s)"
  by (simp add: drop_chars_def utf8_chars_concat_drop)

lemma drop_chars_starts: "0 < n \<Longrightarrow> drop_chars n s = [] \<or> \<not> is_cont (hd (drop_chars n s))"
proof -
  assume "0 < n"
  then have sub: "set (drop n (utf8_chars s)) \<subseteq> set (tl (utf8_chars s))"
    using set_drop_subset [of "n - 1" "tl (utf8_chars s)"] by (cases n) (simp_all add: drop_Suc)
  show ?thesis
  proof (cases "drop n (utf8_chars s)")
    case (Cons c cs)
    then have "c \<in> set (tl (utf8_chars s))" using sub by auto
    moreover from this have "c \<in> set (utf8_chars s)" by (cases "utf8_chars s") simp_all
    ultimately have "\<not> is_cont (hd c)" and "c \<noteq> []"
      using utf8_chars_tail_starts [of s] utf8_chars_heads [of s] by blast+
    then show ?thesis by (simp add: drop_chars_def Cons hd_append)
  qed (simp add: drop_chars_def)
qed

lemma utf8_chars_take_chars: "utf8_chars (take_chars n s) = take n (utf8_chars s)"
proof (cases "n = 0")
  case False
  have "take_chars n s @ drop_chars n s = s"
    by (metis append_take_drop_id concat_append concat_utf8_chars drop_chars_def take_chars_def)
  then have "utf8_chars s = utf8_chars (take_chars n s) @ drop n (utf8_chars s)"
    using utf8_chars_append [OF drop_chars_starts [of n s], of "take_chars n s"] False
    by (simp add: utf8_chars_drop_chars)
  then show ?thesis by (metis append_same_eq append_take_drop_id)
qed (simp add: take_chars_def)

lemma char_count_append: "ys = [] \<or> \<not> is_cont (hd ys) \<Longrightarrow> char_count (xs @ ys) = char_count xs + char_count ys"
  by (simp add: char_count_def utf8_chars_append)

lemma char_count_pruned:
  assumes "0 < k"
  shows "char_count (take_chars n s @ MARKER @ drop_chars k s)
    = min n (char_count s) + char_count MARKER + (char_count s - k)"
proof -
  have m: "\<not> is_cont (hd (MARKER @ drop_chars k s))" by (simp add: MARKER_def is_cont_def)
  show ?thesis
    using m drop_chars_starts [OF assms, of s]
    by (simp add: char_count_append)
      (simp add: char_count_def utf8_chars_take_chars utf8_chars_drop_chars [OF assms])
qed

text \<open>
  Pruning under a validated budget converges: the result is within the budget, shorter than a
  text that was not, unchanged for a text that was, and pruning it again changes nothing.
\<close>

theorem prune_converges:
  assumes "validate b = Inr b"
  shows "char_count (pruned text b) \<le> pb_threshold b
    \<and> (char_count text \<le> pb_threshold b \<longrightarrow> pruned text b = text)
    \<and> (pb_threshold b < char_count text \<longrightarrow> char_count (pruned text b) < char_count text)
    \<and> pruned (pruned text b) b = pruned text b"
proof (cases "char_count text \<le> pb_threshold b")
  case True
  then show ?thesis by (simp add: pruned_def prune_def)
next
  case False
  have t: "0 < pb_threshold b" "pb_head b + char_count MARKER + pb_tail b \<le> pb_threshold b"
    using assms by (auto simp: validate_def Let_def split: if_splits)
  let ?s = "take_chars (pb_head b) text @ MARKER @ drop_chars (char_count text - pb_tail b) text"
  have "char_count ?s = min (pb_head b) (char_count text) + char_count MARKER
      + (char_count text - (char_count text - pb_tail b))"
    using False t by (intro char_count_pruned) linarith
  then have "char_count ?s \<le> pb_threshold b" using t by linarith
  with False show ?thesis by (simp add: pruned_def prune_def)
qed

theorem prune_converges_witness:
  "char_count (pruned (replicate 10000 CHR ''a'') default_prune_budget) \<le> 8192"
proof -
  have "char_count MARKER = 39" by code_simp
  then have "validate default_prune_budget = Inr default_prune_budget"
    by (simp add: validate_def default_prune_budget_def)
  from prune_converges [OF this, of "replicate 10000 CHR ''a''"] show ?thesis by (simp add: default_prune_budget_def)
qed

section \<open>What the cut guarantees\<close>

lemma keep_from_le: "keep_from cost es nodes retain acc k \<le> k"
  by (induction k arbitrary: acc) (auto simp: Let_def le_Suc_eq)

lemma keep_from_less: "0 < k \<Longrightarrow> keep_from cost es nodes retain acc k < k"
  by (cases k) (auto simp: Let_def keep_from_le le_imp_less_Suc)

lemma keep_from_covers:
  "k \<le> length nodes \<Longrightarrow> keep_from cost es nodes retain acc k = 0
     \<or> retain \<le> acc + sum_list (map (\<lambda>n. cost (es ! n)) (drop (keep_from cost es nodes retain acc k) (take k nodes)))"
proof (induction k arbitrary: acc)
  case (Suc k)
  let ?acc = "acc + cost (es ! (nodes ! k))"
  have take: "take (Suc k) nodes = take k nodes @ [nodes ! k]"
    using Suc.prems by (simp add: take_Suc_conv_app_nth)
  show ?case
  proof (cases "retain \<le> ?acc")
    case True
    then show ?thesis using Suc.prems by (auto simp: take Let_def)
  next
    case False
    have "keep_from cost es nodes retain ?acc k \<le> length (take k nodes)"
      using keep_from_le [of cost es nodes retain ?acc k] Suc.prems by simp
    then show ?thesis
      using Suc.IH [of ?acc] Suc.prems False by (auto simp: take Let_def add.assoc)
  qed
qed simp

lemma balanced_from_spec:
  "balanced_from es nodes k \<le> k
   \<and> (balanced_from es nodes k = 0 \<or> tool_pairing_balanced_before es nodes (balanced_from es nodes k))"
  by (induction k) auto

lemma sum_list_drop_le: "m \<le> k \<Longrightarrow> sum_list (map f (drop k xs)) \<le> (sum_list (map f (drop m xs)) :: nat)"
proof -
  assume "m \<le> k"
  then have "drop k xs = drop (k - m) (drop m xs)" by simp
  then have "sum_list (map f (drop m xs)) = sum_list (map f (take (k - m) (drop m xs))) + sum_list (map f (drop k xs))"
    by (metis append_take_drop_id map_append sum_list_append)
  then show ?thesis by simp
qed

lemma select_range_spec:
  assumes "select_range jlen es nodes retain = Some (lo, hi)"
  shows "lo = 0" and "hi < length nodes" and "tool_pairing_balanced_before es nodes (Suc hi)"
    and "retain \<le> sum_list (map (\<lambda>n. price jlen (es ! n)) (drop (Suc hi) nodes))"
proof -
  let ?f = "keep_from (price jlen) es nodes retain 0 (length nodes)"
  let ?k = "balanced_from es nodes ?f"
  have k: "nodes \<noteq> []" "0 < ?k" "lo = 0" "Suc hi = ?k"
    using assms by (auto simp: select_range_def Let_def split: if_splits)
  have le: "?k \<le> ?f" and bal: "tool_pairing_balanced_before es nodes ?k"
    using balanced_from_spec [of es nodes ?f] k by auto
  have "0 < ?f" using le k by linarith
  then have cover: "retain \<le> sum_list (map (\<lambda>n. price jlen (es ! n)) (drop ?f nodes))"
    using keep_from_covers [of "length nodes" nodes "price jlen" es retain 0] by simp
  have "?f < length nodes" using k(1) by (intro keep_from_less) simp
  with le k show "hi < length nodes" by linarith
  show "lo = 0" by (rule k)
  show "tool_pairing_balanced_before es nodes (Suc hi)" using bal k by simp
  show "retain \<le> sum_list (map (\<lambda>n. price jlen (es ! n)) (drop (Suc hi) nodes))"
    unfolding k(4) using cover sum_list_drop_le [OF le, of "\<lambda>n. price jlen (es ! n)" nodes] by linarith
qed

lemma token_surface_total:
  "ts_total (token_surface_of jlen es) = sum_list (map (\<lambda>n. price jlen (es ! n)) (surface es))"
proof -
  have "ts_total (foldl (\<lambda>s i. fold_token jlen s (es ! i)) s is)
      = ts_total s + sum_list (map (\<lambda>n. price jlen (es ! n)) is)"
    if "\<forall>i\<in>set is. is_surface_event (es ! i)" for "is" s
    using that by (induction "is" arbitrary: s) (auto simp: fold_token_def)
  then show ?thesis by (simp add: token_surface_of_def surface_is_surface)
qed

lemma u64s_numbers: "\<forall>n\<in>set ns. n < 2 ^ 64 \<Longrightarrow> u64s (Some (JArr (map jnat ns))) = ns"
  by (induction ns) (simp_all add: u64s_def List.map_filter_simps)

lemma open_compaction_snoc:
  "open_compaction (es @ [e]) = (if ty e = ''compaction/start'' then Some (seq e)
     else if ty e = ''compaction/end'' then None else open_compaction es)"
  by (simp add: open_compaction_def)

section \<open>The transaction on any session log\<close>

lemma derive_same:
  assumes "surface (es @ [e]) = surface es" and "ty e \<noteq> ''context/snapshot''"
  shows "derive_messages (es @ [e]) = derive_messages es"
proof -
  have "derive_loop (es @ [e]) ctx (surface es) = derive_loop es ctx (surface es)" for ctx
    by (rule derive_loop_cong) (auto simp: nth_append dest: surface_less)
  then show ?thesis by (simp add: derive_messages_def assms(1) newest_context_snoc [OF assms(2)])
qed

lemma compaction_marker:
  assumes "ty e = ''compaction/start'' \<or> ty e = ''compaction/end''"
  shows "surface (es @ [e]) = surface es" and "snd (surface_state (es @ [e])) = None"
    and "derive_messages (es @ [e]) = derive_messages es"
proof -
  have *: "shadow_price e = None" "\<not> is_surface_event e" "ty e \<noteq> ''context/snapshot''"
    using assms by (auto simp: shadow_price_def is_surface_event_def)
  show "surface (es @ [e]) = surface es" "snd (surface_state (es @ [e])) = None"
    using * by (simp_all add: surface_snoc_other)
  then show "derive_messages (es @ [e]) = derive_messages es" using * by (simp add: derive_same)
qed

lemma compaction_record:
  assumes "ty e = ''compaction/summary'' \<or> ty e = ''compaction/prune''"
  shows "surface (es @ [e]) = surface es" and "derive_messages (es @ [e]) = derive_messages es"
proof -
  have *: "shadow_price e \<noteq> None" "ty e \<noteq> ''context/snapshot''"
    using assms by (auto simp: shadow_price_def)
  show "surface (es @ [e]) = surface es" using * surface_snoc_record by blast
  then show "derive_messages (es @ [e]) = derive_messages es" using * by (simp add: derive_same)
qed

lemma price_user_message:
  assumes "ty e = ''user/message''" and "string_field e ''content'' = c"
  shows "price jlen e = estimate_message jlen (user_message c)"
proof -
  have "derive_messages [e] = [user_message c]"
    using derive_single [of e] assms by (simp add: shadow_price_def event_message_def)
  then show ?thesis by (simp add: price_def)
qed

context session_log
begin

text \<open>What a committed compaction has done to the log.\<close>

lemma compact_ok:
  assumes c: "compact append events jlen err_text summarize system retain l = (Inr fin, l')"
    and cont: "seqs_contiguous (events l)" and room: "length (events l) \<le> 2 ^ 64"
  shows "\<exists>k > 0. k \<le> length (surface (events l))
    \<and> tool_pairing_balanced_before (events l) (surface (events l)) k
    \<and> retain \<le> sum_list (map (\<lambda>n. price jlen (events l ! n)) (drop k (surface (events l))))
    \<and> c_shadowed_seqs fin = take k (surface (events l))
    \<and> surface (events l') = c_replacement_seq fin # drop k (surface (events l))
    \<and> ts_total (token_surface_of jlen (events l')) < ts_total (token_surface_of jlen (events l))
    \<and> open_compaction (events l') = None"
proof -
  let ?es = "events l" and ?nodes = "surface (events l)"
  have "open_compaction ?es = None" using c by (auto simp: compact_def Let_def split: option.splits)
  then obtain lo hi where sel: "select_range jlen ?es ?nodes retain = Some (lo, hi)"
    using c by (auto simp: compact_def Let_def split: option.splits)
  note spec = select_range_spec [OF sel]
  let ?k = "Suc hi"
  let ?sh = "take ?k ?nodes"
  have seqs: "map (\<lambda>n. seq (?es ! n)) ?sh = ?sh"
    using cont by (intro map_idI) (auto simp: seqs_contiguous_def dest!: in_set_takeD surface_less)
  let ?tokens = "sum_list (map (\<lambda>n. price jlen (?es ! n)) ?sh)"
  let ?messages = "concat (map (\<lambda>n. derive_messages [?es ! n]) ?sh)"
  from c sel \<open>open_compaction ?es = None\<close> spec(1) obtain start l1 fin0 l2 closed where
      a1: "append l ''compaction/start'' (jobj [(''shadowed_range'', range_json ?sh)]) None = (Inr start, l1)"
    and s: "summarize_and_commit append jlen summarize system ?messages (seq start) ?sh ?tokens l1 = (Inr fin0, l2)"
    and a4: "append l2 ''compaction/end'' (jobj [(''start_seq'', jnat (seq start))]) None = (Inr closed, l')"
    and fin: "fin = fin0\<lparr>c_end_seq := seq closed\<rparr>"
    by (auto simp: compact_def Let_def seqs split: sum.splits prod.splits)
  from s obtain sm where sm: "summarize system ?messages = Inr sm"
    by (auto simp: summarize_and_commit_def split: sum.splits)
  let ?content = "frame_summary (sum_text sm)"
  have small: "estimate_message jlen (user_message ?content) < ?tokens" and "trim (sum_text sm) \<noteq> []"
    using s sm by (auto simp: summarize_and_commit_def Let_def not_le split: if_splits)
  then have s': "(case append l1 ''compaction/summary''
        (jobj [(''start_seq'', jnat (seq start)), (''summary'', JStr (sum_text sm)),
               (''provider'', JStr (sum_provider sm)), (''model'', JStr (sum_model sm)),
               (''shadowed_range'', range_json ?sh), (''shadowed_seqs'', JArr (map jnat ?sh)),
               (''shadowed_token_count'', jnat ?tokens)]) None of
          (Inl e, la) \<Rightarrow> (Inl (LogError e), la)
        | (Inr record, la) \<Rightarrow>
            (case append la ''user/message''
                   (jobj [(''content'', JStr ?content), (''compacted'', JBool True)])
                   (Some ([seq start, seq record] @ ?sh)) of
               (Inl e, lb) \<Rightarrow> (Inl (LogError e), lb)
             | (Inr repl, lb) \<Rightarrow>
                 (Inr \<lparr>c_start_seq = seq start, c_summary_seq = seq record,
                       c_replacement_seq = seq repl, c_end_seq = seq repl,
                       c_shadowed_seqs = ?sh, c_shadowed_tokens = ?tokens,
                       c_summary_tokens = estimate_message jlen (user_message ?content)\<rparr>, lb)))
      = (Inr fin0, l2)"
    using s sm by (simp add: summarize_and_commit_def Let_def)
  then obtain rec1 la where a2: "append l1 ''compaction/summary''
        (jobj [(''start_seq'', jnat (seq start)), (''summary'', JStr (sum_text sm)),
               (''provider'', JStr (sum_provider sm)), (''model'', JStr (sum_model sm)),
               (''shadowed_range'', range_json ?sh), (''shadowed_seqs'', JArr (map jnat ?sh)),
               (''shadowed_token_count'', jnat ?tokens)]) None = (Inr rec1, la)"
    by (auto split: sum.splits prod.splits)
  from s' [unfolded a2] obtain repl where a3: "append la ''user/message''
        (jobj [(''content'', JStr ?content), (''compacted'', JBool True)])
        (Some ([seq start, seq rec1] @ ?sh)) = (Inr repl, l2)"
    and fin0: "c_shadowed_seqs fin0 = ?sh" "c_replacement_seq fin0 = seq repl"
    by (auto split: sum.splits prod.splits)
  note e1 = append_ok [OF a1] and e2 = append_ok [OF a2] and e3 = append_ok [OF a3] and e4 = append_ok [OF a4]
  let ?es1 = "?es @ [start]"
  have ev: "events l' = (?es1 @ [rec1, repl]) @ [closed]" using e1 e2 e3 e4 by simp
  have s1: "surface ?es1 = ?nodes" using e1 by (intro compaction_marker) simp
  have "\<forall>n\<in>set ?sh. n < 2 ^ 64"
    using room by (auto dest!: in_set_takeD surface_less)
  then have u: "u64s (Some (JArr (map jnat ?sh))) = ?sh" by (rule u64s_numbers)
  have p: "shadow_price rec1 = Some \<lparr>shadowed_seqs = ?sh,
      shadowed_token_count = jnum (data rec1) ''shadowed_token_count''\<rparr>"
    using e2 u by (simp add: shadow_price_def)
  have surf: "is_surface_event repl" using e3 by (simp add: is_surface_event_def)
  have cont1: "seqs_contiguous ?es1" using e1 cont by (simp add: seqs_contiguous_snoc)
  have nonempty: "?sh \<noteq> []" using spec(2) by auto
  have s2: "surface (?es1 @ [rec1, repl]) = [] @ Suc (length ?es1) # drop ?k ?nodes"
    by (rule surface_snoc_replacement(1) [OF p surf cont1 _ nonempty]) (simp_all add: s1)
  have rseq: "seq repl = Suc (length ?es1)" using e1 e2 e3 by simp
  have s3: "surface (events l') = seq repl # drop ?k ?nodes"
    unfolding ev using s2 e4 rseq by (subst compaction_marker(1)) simp_all
  have nth: "price jlen (events l' ! n) = price jlen (?es ! n)" if "n \<in> set (drop ?k ?nodes)" for n
    using that surface_less [of n ?es] by (auto simp: ev nth_append dest: in_set_dropD)
  have rprice: "price jlen (events l' ! seq repl) < ?tokens"
  proof -
    have "events l' ! seq repl = repl" by (simp add: ev rseq nth_append)
    moreover have "price jlen repl = estimate_message jlen (user_message (frame_summary (sum_text sm)))"
      using e3 by (intro price_user_message) (simp_all add: string_field_def json_simps)
    ultimately show ?thesis using small by simp
  qed
  have "sum_list (map (\<lambda>n. price jlen (events l' ! n)) (drop ?k ?nodes))
      = sum_list (map (\<lambda>n. price jlen (?es ! n)) (drop ?k ?nodes))"
    by (intro arg_cong [where f = sum_list] map_cong refl nth)
  moreover have "ts_total (token_surface_of jlen ?es)
      = ?tokens + sum_list (map (\<lambda>n. price jlen (?es ! n)) (drop ?k ?nodes))"
    unfolding token_surface_total by (metis append_take_drop_id map_append sum_list_append)
  ultimately have "ts_total (token_surface_of jlen (events l')) < ts_total (token_surface_of jlen ?es)"
    using rprice by (simp add: token_surface_total s3)
  moreover have "open_compaction (events l') = None"
    unfolding ev using e4 by (subst open_compaction_snoc) simp
  moreover have "c_shadowed_seqs fin = ?sh" "c_replacement_seq fin = seq repl"
    using fin fin0 by simp_all
  ultimately show ?thesis
    using spec s3 by (intro exI [of _ ?k]) auto
qed

text \<open>A refused or failed compaction, at whatever write it stopped, leaves the history as it was.\<close>

lemma append_quiet:
  assumes "append l t d src = (r, l')"
    and "t \<in> {''compaction/start'', ''compaction/end'', ''compaction/summary'', ''compaction/prune''}"
  shows "surface (events l') = surface (events l) \<and> derive_messages (events l') = derive_messages (events l)"
proof (cases r)
  case (Inl x)
  with append_err assms(1) show ?thesis by simp
next
  case (Inr e)
  with append_ok assms(1) have "events l' = events l @ [e]" "ty e = t" by auto
  with assms(2) show ?thesis
    using compaction_marker [of e "events l"] compaction_record [of e "events l"] by auto
qed

lemmas quiet_simps =
  append_quiet [where t = "''compaction/start''", simplified]
  append_quiet [where t = "''compaction/summary''", simplified]
  append_quiet [where t = "''compaction/end''", simplified]
  append_quiet [where t = "''compaction/prune''", simplified]

lemma summarize_err:
  assumes "summarize_and_commit append jlen summarize system ms start shadowed tokens l = (Inl e, l')"
  shows "surface (events l') = surface (events l) \<and> derive_messages (events l') = derive_messages (events l)"
  using assms
  by (auto simp: summarize_and_commit_def Let_def split: sum.splits prod.splits if_splits
      dest!: quiet_simps append_err)

lemma compact_err:
  assumes "compact append events jlen err_text summarize system retain l = (Inl e, l')"
    and "\<And>x. e \<noteq> LogError x"
  shows "surface (events l') = surface (events l) \<and> derive_messages (events l') = derive_messages (events l)"
  using assms
  by (auto simp: compact_def Let_def split: sum.splits prod.splits option.splits
      dest!: quiet_simps append_err summarize_err)

end

text \<open>On a log that works, no compaction that ends leaves the lock held.\<close>

context working_log
begin

lemma append_not_failed: "healthy l \<Longrightarrow> append l t d src \<noteq> (Inl x, l')"
  using append_healthy(1) [of l t d src "Inl x" l'] by auto

lemma append_end:
  "healthy l \<Longrightarrow> append l ''compaction/end'' d src = (r, l') \<Longrightarrow> healthy l' \<and> open_compaction (events l') = None"
  using append_healthy [of l "''compaction/end''" d src r l']
  by (auto simp: open_compaction_snoc dest!: append_ok)

lemma summarize_healthy:
  assumes "healthy l" and "summarize_and_commit append jlen summarize system ms start shadowed tokens l = (r, l')"
  shows "healthy l'"
  using assms
  by (auto simp: summarize_and_commit_def Let_def append_not_failed
      split: sum.splits prod.splits if_splits dest: append_healthy(2))

lemma compact_closes:
  assumes "healthy l" and "open_compaction (events l) = None"
    and "compact append events jlen err_text summarize system retain l = (r, l')"
  shows "healthy l' \<and> open_compaction (events l') = None"
  using assms
  by (auto simp: compact_def Let_def append_not_failed split: sum.splits prod.splits option.splits)
    (metis append_healthy(2) summarize_healthy append_end)+

end

section \<open>Pruning replaces in place\<close>

text \<open>What stands at a position after the pass for what stood there before it.\<close>

definition stands_for :: "prune_budget \<Rightarrow> session_event list \<Rightarrow> session_event list \<Rightarrow> nat \<Rightarrow> nat \<Rightarrow> bool" where
  "stands_for b es es' n n' \<longleftrightarrow>
     (case (if ty (es ! n) = ''tool/result'' then prune (jstr (data (es ! n)) ''content'') b else None) of
        None \<Rightarrow> n' = n
      | Some s \<Rightarrow> n' < length es' \<and> ty (es' ! n') = ''tool/result''
          \<and> data (es' ! n') = jset ''pruned'' (JBool True) (jset ''content'' (JStr s) (data (es ! n)))
          \<and> source_event_seqs (es' ! n') = Some [n])"

lemma stands_for_extend: "stands_for b es es' n n' \<Longrightarrow> stands_for b es (es' @ added) n n'"
  by (auto simp: stands_for_def nth_append split: option.splits if_splits)

context session_log
begin

lemma prune_nodes_ok:
  assumes "prune_nodes append jlen b es ns l = (Inr fin, l')"
    and "events l = es @ ext" and "seqs_contiguous (events l)" and "length es \<le> 2 ^ 64"
    and "surface (events l) = before @ ns" and "\<forall>n\<in>set ns. n < length es"
  shows "\<exists>ns' added. surface (events l') = before @ ns' \<and> list_all2 (stands_for b es (events l')) ns ns'
    \<and> events l' = events l @ added"
  using assms
proof (induction ns arbitrary: l fin ext before)
  case Nil
  then show ?case by simp
next
  case (Cons n ns)
  let ?e = "es ! n" and ?content = "jstr (data (es ! n)) ''content''"
  have n: "n < length es" "seq ?e = n"
    using Cons.prems(2,3,6) by (auto simp: seqs_contiguous_def nth_append dest: spec [of _ n])
  have skip: "\<exists>ns' added. surface (events l') = before @ ns'
      \<and> list_all2 (stands_for b es (events l')) (n # ns) ns' \<and> events l' = events l @ added"
    if "prune_nodes append jlen b es ns l = (Inr fin, l')" and "\<And>es'. stands_for b es es' n n"
  proof -
    have "surface (events l) = (before @ [n]) @ ns" using Cons.prems(5) by simp
    from Cons.IH [OF that(1) Cons.prems(2-4) this] Cons.prems(6)
    obtain ns' added where "surface (events l') = (before @ [n]) @ ns'"
      "list_all2 (stands_for b es (events l')) ns ns'" "events l' = events l @ added" by auto
    with that(2) show ?thesis by (intro exI [of _ "n # ns'"]) auto
  qed
  show ?case
  proof (cases "ty ?e = ''tool/result''")
    case False
    with Cons.prems(1) show ?thesis by (intro skip) (auto simp: stands_for_def Let_def)
  next
    case res: True
    show ?thesis
    proof (cases "prune ?content b")
      case None
      with Cons.prems(1) res show ?thesis by (intro skip) (auto simp: stands_for_def Let_def)
    next
      case (Some s)
      from Cons.prems(1) res Some obtain rec1 l1 d where a1: "append l ''compaction/prune'' d None = (Inr rec1, l1)"
        and d: "d = jobj [(''shadowed_range'', range_json [seq ?e]), (''shadowed_seqs'', JArr [jnat (seq ?e)]),
                          (''shadowed_token_count'', jnat (price jlen ?e))]"
        by (auto simp: Let_def split: sum.splits prod.splits)
      let ?d2 = "jset ''pruned'' (JBool True) (jset ''content'' (JStr s) (data ?e))"
      from Cons.prems(1) res Some a1 d obtain repl l2 fin2 where
          a2: "append l1 ''tool/result'' ?d2 (Some [seq ?e]) = (Inr repl, l2)"
        and rest: "prune_nodes append jlen b es ns l2 = (Inr fin2, l')"
        by (auto simp: Let_def split: sum.splits prod.splits)
      note e1 = append_ok [OF a1] and e2 = append_ok [OF a2]
      have ev: "events l2 = events l @ [rec1, repl]" using e1 e2 by simp
      have u: "u64s (Some (JArr [jnat n])) = [n]"
        using u64s_numbers [of "[n]"] n Cons.prems(4) by simp
      have p: "shadow_price rec1 = Some \<lparr>shadowed_seqs = [n],
          shadowed_token_count = jnum (data rec1) ''shadowed_token_count''\<rparr>"
        using e1 u n(2) by (simp add: shadow_price_def d)
      have "surface (events l @ [rec1, repl]) = before @ Suc (length (events l)) # ns"
        by (rule surface_snoc_replacement(1) [OF p _ Cons.prems(3), of _ before "[n]" ns])
          (use e2 Cons.prems(5) in \<open>simp_all add: is_surface_event_def\<close>)
      then have s2: "surface (events l2) = (before @ [seq repl]) @ ns"
        using e1 e2 ev by simp
      have cont: "seqs_contiguous (events l2)"
        using append_contiguous [OF a2 append_contiguous [OF a1 Cons.prems(3)]] .
      have "events l2 = es @ (ext @ [rec1, repl])" using ev Cons.prems(2) by simp
      from Cons.IH [OF rest this cont Cons.prems(4) s2] Cons.prems(6)
      obtain ns' added where ih: "surface (events l') = (before @ [seq repl]) @ ns'"
        "list_all2 (stands_for b es (events l')) ns ns'" "events l' = events l2 @ added" by auto
      have "stands_for b es (events l2) n (seq repl)"
        using e1 e2 ev res Some n(2) by (simp add: stands_for_def nth_append)
      then have "stands_for b es (events l') n (seq repl)" by (simp add: ih(3) stands_for_extend)
      with ih ev show ?thesis by (intro exI [of _ "seq repl # ns'"]) auto
    qed
  qed
qed

lemma prune_results_ok:
  assumes "prune_results append events jlen b l = (Inr fin, l')"
    and "seqs_contiguous (events l)" and "length (events l) \<le> 2 ^ 64"
  shows "list_all2 (stands_for b (events l) (events l')) (surface (events l)) (surface (events l'))"
  using prune_nodes_ok [OF assms(1) [unfolded prune_results_def], of "[]" "[]"] assms(2,3) surface_less
  by auto

end

section \<open>On the journal\<close>

text \<open>
  C11. A compaction that commits replaces a head of the conversation, cut where no tool call is
  separated from its result and with at least the retained budget kept verbatim after it, by one
  message; the request the log derives costs strictly less than before, so a compaction cannot
  loop; and the lock is free again.
\<close>

theorem compaction_shrinks:
  assumes "compact (append_journal enc) j_events jlen err_text summarize system retain l = (Inr fin, l')"
    and "seqs_contiguous (j_events l)" and "length (j_events l) \<le> 2 ^ 64"
  shows "\<exists>k > 0. k \<le> length (surface (j_events l))
    \<and> tool_pairing_balanced_before (j_events l) (surface (j_events l)) k
    \<and> retain \<le> sum_list (map (\<lambda>n. price jlen (j_events l ! n)) (drop k (surface (j_events l))))
    \<and> c_shadowed_seqs fin = take k (surface (j_events l))
    \<and> surface (j_events l') = c_replacement_seq fin # drop k (surface (j_events l))
    \<and> ts_total (token_surface_of jlen (j_events l')) < ts_total (token_surface_of jlen (j_events l))
    \<and> open_compaction (j_events l') = None"
  using journal_log.compact_ok [OF assms] .

text \<open>
  A compaction that is refused or fails, other than by the journal itself refusing a write,
  leaves the derived history exactly as it was, and on a journal whose disk works it never leaves
  the lock held.
\<close>

theorem compaction_refused:
  assumes "compact (append_journal enc) j_events jlen err_text summarize system retain l = (Inl e, l')"
    and "\<And>x. e \<noteq> LogError x"
  shows "derive_messages (j_events l') = derive_messages (j_events l)
    \<and> (healthy_journal enc l \<and> open_compaction (j_events l) = None \<longrightarrow> open_compaction (j_events l') = None)"
  using journal_log.compact_err [OF assms] journal_works.compact_closes [OF _ _ assms(1)] by blast

text \<open>
  A pruning pass leaves every position of the surface where it was: each tool result over the
  budget is replaced at its own position by the same result with its content pruned, citing the
  one it shadows, and everything else is untouched.
\<close>

theorem prune_results_in_place:
  assumes "prune_results (append_journal enc) j_events jlen b l = (Inr fin, l')"
    and "seqs_contiguous (j_events l)" and "length (j_events l) \<le> 2 ^ 64"
  shows "list_all2 (stands_for b (j_events l) (j_events l')) (surface (j_events l)) (surface (j_events l'))"
  using journal_log.prune_results_ok [OF assms] .

text \<open>A journal of two user messages, the first a long one, and a long tool result.\<close>

definition long_text :: string where
  "long_text = replicate 600 CHR ''a''"

definition demo_journal :: "(string \<times> json) list \<Rightarrow> journal" where
  "demo_journal qs = journal_run (\<lambda>e. Some ''x'') [] [] (map (\<lambda>(t, d). (t, d, None)) qs)"

definition demo_talk :: journal where
  "demo_talk = demo_journal
     [(''user/message'', jobj [(''content'', JStr long_text)]),
      (''user/message'', jobj [(''content'', JStr ''go on'')])]"

definition demo_summary :: "string \<Rightarrow> message list \<Rightarrow> compaction_error + summary" where
  "demo_summary system ms = Inr \<lparr>sum_text = ''short'', sum_provider = ''p'', sum_model = ''m''\<rparr>"

definition no_summary :: "string \<Rightarrow> message list \<Rightarrow> compaction_error + summary" where
  "no_summary system ms = Inl (Summarizer ''down'')"

lemma demo_talk_ok: "seqs_contiguous (j_events demo_talk)" "length (j_events demo_talk) = 2"
  "healthy_journal (\<lambda>e. Some ''x'') demo_talk" "open_compaction (j_events demo_talk) = None"
proof -
  show "seqs_contiguous (j_events demo_talk)"
    unfolding demo_talk_def demo_journal_def by (rule journal_run_contiguous)
  show "healthy_journal (\<lambda>e. Some ''x'') demo_talk"
    using written_file [of "[]" "\<lambda>e. Some ''x''"] by (simp add: healthy_journal_def demo_talk_def demo_journal_def)
  show "length (j_events demo_talk) = 2" "open_compaction (j_events demo_talk) = None" by code_simp+
qed

lemma demo_compact:
  "case fst (compact (append_journal (\<lambda>e. Some ''x'')) j_events (\<lambda>_. 0) (\<lambda>_. ''err'') demo_summary [] 2 demo_talk) of
     Inl _ \<Rightarrow> False | Inr fin \<Rightarrow> c_shadowed_seqs fin = [0]"
  by code_simp

theorem compaction_shrinks_witness:
  "\<exists>fin l'. compact (append_journal (\<lambda>e. Some ''x'')) j_events (\<lambda>_. 0) (\<lambda>_. ''err'') demo_summary [] 2
       demo_talk = (Inr fin, l')
     \<and> ts_total (token_surface_of (\<lambda>_. 0) (j_events l')) < ts_total (token_surface_of (\<lambda>_. 0) (j_events demo_talk))"
proof -
  obtain fin l' where c: "compact (append_journal (\<lambda>e. Some ''x'')) j_events (\<lambda>_. 0) (\<lambda>_. ''err'')
      demo_summary [] 2 demo_talk = (Inr fin, l')"
    using demo_compact by (auto split: sum.splits) (metis fst_conv surj_pair)
  from compaction_shrinks [OF c demo_talk_ok(1)] demo_talk_ok(2) c show ?thesis by auto
qed

theorem compaction_refused_witness:
  "open_compaction (j_events (snd (compact (append_journal (\<lambda>e. Some ''x'')) j_events (\<lambda>_. 0) (\<lambda>_. ''err'')
      no_summary [] 2 demo_talk))) = None"
proof -
  have "fst (compact (append_journal (\<lambda>e. Some ''x'')) j_events (\<lambda>_. 0) (\<lambda>_. ''err'')
      no_summary [] 2 demo_talk) = Inl (Summarizer ''down'')"
    by code_simp
  then obtain l' where c: "compact (append_journal (\<lambda>e. Some ''x'')) j_events (\<lambda>_. 0) (\<lambda>_. ''err'')
      no_summary [] 2 demo_talk = (Inl (Summarizer ''down''), l')"
    by (metis prod.collapse)
  from compaction_refused [OF c] demo_talk_ok(3,4) show ?thesis by (simp add: c)
qed

text \<open>A call and its long result, inherited from an earlier turn, before a context snapshot.\<close>

definition tight_budget :: prune_budget where
  "tight_budget = \<lparr>pb_threshold = 40, pb_head = 0, pb_tail = 0\<rparr>"

definition demo_tools :: journal where
  "demo_tools = demo_journal
     [(''user/message'', jobj [(''content'', JStr ''hi'')]),
      (''assistant/message'', jobj [(''content'', JStr []), (''tool_calls'',
         JArr [json_of_call \<lparr>tc_id = ''c1'', tc_name = ''cat'', tc_args = JNull\<rparr>])]),
      (''tool/result'', jobj [(''call_id'', JStr ''c1''), (''content'', JStr (replicate 41 CHR ''a''))]),
      (''turn/start'', jobj [(''turn'', jnat 2)]),
      (''context/snapshot'', jobj [(''turn'', jnat 2),
         (''parts'', JArr [json_of_part \<lparr>part_name = ''time'', part_text = ''noon''\<rparr>])]),
      (''user/message'', jobj [(''content'', JStr ''go'')])]"

definition demo_tools_pruned :: journal where
  "demo_tools_pruned =
     snd (prune_results (append_journal (\<lambda>e. Some ''x'')) j_events (\<lambda>_. 0) tight_budget demo_tools)"

lemma demo_tools_ok: "seqs_contiguous (j_events demo_tools)" "length (j_events demo_tools) = 6"
  "surface (j_events demo_tools) = [0, 1, 2, 5]"
  "surface (j_events demo_tools_pruned) = [0, 1, 7, 5]"
  "newest_context (j_events demo_tools_pruned) = Some (4, ''noon'')"
proof -
  show "seqs_contiguous (j_events demo_tools)"
    unfolding demo_tools_def demo_journal_def by (rule journal_run_contiguous)
  have "length (j_events demo_tools) = 6 \<and> surface (j_events demo_tools) = [0, 1, 2, 5]
      \<and> surface (j_events demo_tools_pruned) = [0, 1, 7, 5]
      \<and> newest_context (j_events demo_tools_pruned) = Some (4, ''noon'')"
    by code_simp
  then show "length (j_events demo_tools) = 6" "surface (j_events demo_tools) = [0, 1, 2, 5]"
    "surface (j_events demo_tools_pruned) = [0, 1, 7, 5]"
    "newest_context (j_events demo_tools_pruned) = Some (4, ''noon'')" by blast+
qed

lemma demo_prune:
  "\<exists>fin. prune_results (append_journal (\<lambda>e. Some ''x'')) j_events (\<lambda>_. 0) tight_budget demo_tools
     = (Inr fin, demo_tools_pruned)"
proof -
  have "isr (fst (prune_results (append_journal (\<lambda>e. Some ''x'')) j_events (\<lambda>_. 0) tight_budget demo_tools))"
    if "isr = (\<lambda>x. case x of Inl _ \<Rightarrow> False | Inr _ \<Rightarrow> True)" for isr
    unfolding that by code_simp
  then show ?thesis
    unfolding demo_tools_pruned_def by (auto simp: prod_eq_iff split: sum.splits)
qed

theorem prune_results_in_place_witness:
  "stands_for tight_budget (j_events demo_tools) (j_events demo_tools_pruned) 2 7"
proof -
  obtain fin where "prune_results (append_journal (\<lambda>e. Some ''x'')) j_events (\<lambda>_. 0) tight_budget demo_tools
     = (Inr fin, demo_tools_pruned)" using demo_prune by blast
  from prune_results_in_place [OF this demo_tools_ok(1)] show ?thesis
    by (simp add: demo_tools_ok)
qed

text \<open>
  A finding: the snapshot's message goes before the first surface position past it, and a
  replacement's position is past it wherever the replacement stands.  So after a pruning pass
  over an inherited tool result the snapshot's message comes between the assistant's call and its
  result, which no provider accepts, and after a summary it comes in front of the whole history,
  where it was never to sit.
\<close>

theorem context_before_replacement:
  assumes "newest_context es = Some (at, words)" and "surface es = pre @ n # post"
    and "\<forall>i\<in>set pre. i \<le> at" and "at < n"
  shows "derive_messages es
    = derive_loop es None pre @ user_message words # derive_loop es None (n # post)"
  using derive_loop_split [of pre "at" "n # post" es words] assms by (simp add: derive_messages_def)

theorem context_before_replacement_witness:
  "map m_role (derive_messages (j_events demo_tools)) = [User, Assistant, Tool, User, User]
   \<and> map m_role (derive_messages (j_events demo_tools_pruned)) = [User, Assistant, User, Tool, User]"
proof
  have roles: "map m_role (derive_messages (j_events demo_tools)) = [User, Assistant, Tool, User, User]
      \<and> map m_role (derive_loop (j_events demo_tools_pruned) None [0, 1]) = [User, Assistant]
      \<and> map m_role (derive_loop (j_events demo_tools_pruned) None [7, 5]) = [Tool, User]"
    by code_simp
  then show "map m_role (derive_messages (j_events demo_tools)) = [User, Assistant, Tool, User, User]" by blast
  from roles show "map m_role (derive_messages (j_events demo_tools_pruned)) = [User, Assistant, User, Tool, User]"
    using context_before_replacement [OF demo_tools_ok(5), of "[0, 1]" 7 "[5]"] demo_tools_ok(4)
    by (simp add: user_message_def)
qed

end
