(* ===== verification/Turn_Repair.thy ===== *)
theory Turn_Repair
  imports Compaction
begin

text \<open>
  Crash repair, \<^verbatim>\<open>crates/turn/src/repair.rs\<close>: the closers an interrupted journal is missing and
  their commitment, again on any session log.  Step counts are natural numbers (the code's
  \<^verbatim>\<open>u32\<close> would need four thousand million steps in one turn to differ).
\<close>

record closer =
  cl_ty :: string
  cl_data :: json
  cl_sources :: "nat list option"

definition TOOL_NOT_STARTED :: string where
  "TOOL_NOT_STARTED = ''TOOL_NOT_STARTED''"

definition TOOL_OUTCOME_UNKNOWN :: string where
  "TOOL_OUTCOME_UNKNOWN = ''TOOL_OUTCOME_UNKNOWN''"

definition NOT_STARTED_TEXT :: string where
  "NOT_STARTED_TEXT = ''The tool call was interrupted before the harness recorded it as '' @
     ''started. Retry it if it is still needed.''"

definition OUTCOME_UNKNOWN_TEXT :: string where
  "OUTCOME_UNKNOWN_TEXT = ''The tool call had started when the harness was interrupted, so '' @
     ''its outcome is unknown: retry only if the operation is read-only or idempotent, otherwise '' @
     ''first verify external state or ask the user.''"

section \<open>What is still open\<close>

text \<open>Both audit pairs fold the same way, over their own two types.\<close>

definition pair_step :: "string \<Rightarrow> string \<Rightarrow> string list \<Rightarrow> session_event \<Rightarrow> string list" where
  "pair_step opening closing pending e =
     (if ty e = opening then pending @ [jstr (data e) ''id'']
      else if ty e = closing then filter (\<lambda>i. i \<noteq> jstr (data e) ''id'') pending
      else pending)"

definition undecided_asks :: "session_event list \<Rightarrow> string list" where
  "undecided_asks es = foldl (pair_step ''approval/asked'' ''approval/decided'') [] es"

definition unanswered_questions :: "session_event list \<Rightarrow> string list" where
  "unanswered_questions es = foldl (pair_step ''question/asked'' ''question/answered'') [] es"

record unanswered =
  un_id :: string
  un_name :: string
  un_started :: "nat option"

text \<open>\<^verbatim>\<open>pending.iter_mut().find(|c| c.id == id)\<close>, then the assignment.\<close>

fun mark_started :: "string \<Rightarrow> nat \<Rightarrow> unanswered list \<Rightarrow> unanswered list" where
  "mark_started i s [] = []"
| "mark_started i s (c # cs) =
     (if un_id c = i then c\<lparr>un_started := Some s\<rparr> # cs else c # mark_started i s cs)"

definition call_step :: "unanswered list \<Rightarrow> session_event \<Rightarrow> unanswered list" where
  "call_step pending e =
     (if ty e = ''assistant/message'' then
        pending @ map (\<lambda>c. \<lparr>un_id = jstr c ''id'', un_name = jstr c ''name'', un_started = None\<rparr>)
          (case Option.bind (jget (data e) ''tool_calls'') as_array of Some cs \<Rightarrow> cs | None \<Rightarrow> [])
      else if ty e = ''tool/call'' then mark_started (jstr (data e) ''id'') (seq e) pending
      else if ty e = ''tool/result'' then filter (\<lambda>c. un_id c \<noteq> jstr (data e) ''call_id'') pending
      else pending)"

definition unanswered_calls :: "session_event list \<Rightarrow> unanswered list" where
  "unanswered_calls es = foldl call_step [] es"

section \<open>The closers\<close>

definition synthesized_result :: "nat \<Rightarrow> unanswered \<Rightarrow> closer" where
  "synthesized_result turn c =
     (let (code, content) =
        (case un_started c of
           Some _ \<Rightarrow> (TOOL_OUTCOME_UNKNOWN, OUTCOME_UNKNOWN_TEXT)
         | None \<Rightarrow> (TOOL_NOT_STARTED, NOT_STARTED_TEXT))
      in \<lparr>cl_ty = ''tool/result'',
          cl_data = jobj [(''turn'', jnat turn), (''call_id'', JStr (un_id c)), (''name'', JStr (un_name c)),
                          (''ok'', JBool False), (''content'', JStr content), (''code'', JStr code)],
          cl_sources = map_option (\<lambda>s. [s]) (un_started c)\<rparr>)"

definition decided_closer :: "string \<Rightarrow> closer" where
  "decided_closer i = \<lparr>cl_ty = ''approval/decided'',
     cl_data = jobj [(''id'', JStr i), (''outcome'', JStr ''cancelled'')], cl_sources = None\<rparr>"

definition answered_closer :: "string \<Rightarrow> closer" where
  "answered_closer i = \<lparr>cl_ty = ''question/answered'',
     cl_data = jobj [(''id'', JStr i), (''answers'', JArr []), (''answered'', JBool False)],
     cl_sources = None\<rparr>"

definition last_index :: "session_event list \<Rightarrow> string \<Rightarrow> nat option" where
  "last_index es t = find_last (\<lambda>i. ty (es ! i) = t) [0..<length es]"

definition has_type :: "string \<Rightarrow> session_event list \<Rightarrow> bool" where
  "has_type t es \<longleftrightarrow> list_ex (\<lambda>e. ty e = t) es"

text \<open>The step of the open turn that has no end yet, from its start on.\<close>

definition open_step :: "session_event list \<Rightarrow> session_event list option" where
  "open_step turn_events =
     (case last_index turn_events ''step/start'' of
        None \<Rightarrow> None
      | Some i \<Rightarrow> if has_type ''step/end'' (drop i turn_events) then None else Some (drop i turn_events))"

definition interrupted_turn_closers :: "session_event list \<Rightarrow> closer list" where
  "interrupted_turn_closers es =
     (case last_index es ''turn/start'' of
        None \<Rightarrow> []
      | Some turn_start \<Rightarrow>
          (let open_turn = drop turn_start es in
           if has_type ''turn/end'' open_turn then []
           else (let turn = jnum (data (hd open_turn)) ''turn'';
                     steps = length (filter (\<lambda>e. ty e = ''step/start'') open_turn)
             in map decided_closer (undecided_asks open_turn)
                @ map answered_closer (unanswered_questions open_turn)
                @ (case open_step open_turn of
                     None \<Rightarrow> []
                   | Some step \<Rightarrow>
                       map (synthesized_result turn) (unanswered_calls step)
                       @ [\<lparr>cl_ty = ''step/end'',
                           cl_data = jobj [(''turn'', jnat turn), (''step'', jnat (jnum (data (hd step)) ''step''))],
                           cl_sources = None\<rparr>])
                @ [\<lparr>cl_ty = ''turn/end'',
                    cl_data = jobj [(''turn'', jnat turn), (''steps'', jnat steps),
                                    (''stop_reason'', JStr ''interrupted''), (''stop_veto'', JNull)],
                    cl_sources = None\<rparr>])))"

section \<open>Committing them\<close>

fun append_closers ::
  "'l appender \<Rightarrow> closer list \<Rightarrow> 'l \<Rightarrow> (session_error + session_event list) \<times> 'l"
where
  "append_closers app [] l = (Inr [], l)"
| "append_closers app (c # cs) l =
     (case app l (cl_ty c) (cl_data c) (cl_sources c) of
        (Inl e, l1) \<Rightarrow> (Inl e, l1)
      | (Inr e, l1) \<Rightarrow>
          (case append_closers app cs l1 of
             (Inl x, l2) \<Rightarrow> (Inl x, l2)
           | (Inr es, l2) \<Rightarrow> (Inr (e # es), l2)))"

definition repair ::
  "'l appender \<Rightarrow> ('l \<Rightarrow> session_event list) \<Rightarrow> 'l \<Rightarrow> (session_error + session_event list) \<times> 'l"
where
  "repair app events l = append_closers app (interrupted_turn_closers (events l)) l"

section \<open>Folding the closers\<close>

definition closer_event :: "closer \<Rightarrow> session_event" where
  "closer_event c =
     \<lparr>ty = cl_ty c, seq = 0, time = 0, data = cl_data c, source_event_seqs = cl_sources c\<rparr>"

text \<open>An event that commits a closer; its number and time are the log's.\<close>

definition commits :: "closer \<Rightarrow> session_event \<Rightarrow> bool" where
  "commits c e \<longleftrightarrow> ty e = cl_ty c \<and> data e = cl_data c \<and> source_event_seqs e = cl_sources c"

lemma closer_event_simps [simp]:
  "ty (closer_event c) = cl_ty c" "data (closer_event c) = cl_data c"
  by (simp_all add: closer_event_def)

lemma pair_fold_commits:
  "list_all2 commits cs es \<Longrightarrow> foldl (pair_step a b) p es = foldl (pair_step a b) p (map closer_event cs)"
  by (induction cs es arbitrary: p rule: list_all2_induct) (simp_all add: pair_step_def commits_def)

lemma call_fold_commits:
  "list_all2 commits cs es \<Longrightarrow> \<forall>c\<in>set cs. cl_ty c \<noteq> ''tool/call''
     \<Longrightarrow> foldl call_step p es = foldl call_step p (map closer_event cs)"
  by (induction cs es arbitrary: p rule: list_all2_induct) (simp_all add: call_step_def commits_def)

lemma pair_fold_other:
  "\<forall>e\<in>set es. ty e \<noteq> a \<and> ty e \<noteq> b \<Longrightarrow> foldl (pair_step a b) p es = p"
  by (induction es arbitrary: p) (simp_all add: pair_step_def)

lemma call_fold_other:
  "\<forall>e\<in>set es. ty e \<notin> {''assistant/message'', ''tool/call'', ''tool/result''} \<Longrightarrow> foldl call_step p es = p"
  by (induction es arbitrary: p) (simp_all add: call_step_def)

lemma pair_fold_decided:
  "foldl (pair_step ''approval/asked'' ''approval/decided'') p (map (closer_event \<circ> decided_closer) is)
     = filter (\<lambda>i. i \<notin> set is) p"
  by (induction "is" arbitrary: p)
    (auto simp: pair_step_def decided_closer_def jstr_jobj intro: filter_cong)

lemma pair_fold_answered:
  "foldl (pair_step ''question/asked'' ''question/answered'') p (map (closer_event \<circ> answered_closer) is)
     = filter (\<lambda>i. i \<notin> set is) p"
  by (induction "is" arbitrary: p)
    (auto simp: pair_step_def answered_closer_def jstr_jobj intro: filter_cong)

lemma synthesized_simps [simp]:
  "cl_ty (synthesized_result turn c) = ''tool/result''"
  "jstr (cl_data (synthesized_result turn c)) ''call_id'' = un_id c"
  by (simp_all add: synthesized_result_def jstr_jobj split: option.split)

lemma call_fold_results:
  "foldl call_step p (map (closer_event \<circ> synthesized_result turn) cs)
     = filter (\<lambda>c. un_id c \<notin> un_id ` set cs) p"
  by (induction cs arbitrary: p) (auto simp: call_step_def intro: filter_cong)

text \<open>The closers of a turn, by what they close.\<close>

definition turn_end_closer :: "nat \<Rightarrow> nat \<Rightarrow> closer" where
  "turn_end_closer turn steps = \<lparr>cl_ty = ''turn/end'',
     cl_data = jobj [(''turn'', jnat turn), (''steps'', jnat steps),
                     (''stop_reason'', JStr ''interrupted''), (''stop_veto'', JNull)],
     cl_sources = None\<rparr>"

definition step_closers :: "nat \<Rightarrow> session_event list option \<Rightarrow> closer list" where
  "step_closers turn st =
     (case st of
        None \<Rightarrow> []
      | Some step \<Rightarrow>
          map (synthesized_result turn) (unanswered_calls step)
          @ [\<lparr>cl_ty = ''step/end'',
              cl_data = jobj [(''turn'', jnat turn), (''step'', jnat (jnum (data (hd step)) ''step''))],
              cl_sources = None\<rparr>])"

lemma closers_cases:
  obtains (balanced) "interrupted_turn_closers es = []"
      and "\<forall>s. last_index es ''turn/start'' = Some s \<longrightarrow> has_type ''turn/end'' (drop s es)"
  | (broken) s turn steps where "last_index es ''turn/start'' = Some s"
      and "\<not> has_type ''turn/end'' (drop s es)"
      and "interrupted_turn_closers es = map decided_closer (undecided_asks (drop s es))
            @ map answered_closer (unanswered_questions (drop s es))
            @ step_closers turn (open_step (drop s es)) @ [turn_end_closer turn steps]"
  by (cases "last_index es ''turn/start''")
    (auto simp: interrupted_turn_closers_def Let_def step_closers_def turn_end_closer_def
      split: if_splits option.splits)

lemma closer_types:
  "c \<in> set (interrupted_turn_closers es) \<Longrightarrow>
     cl_ty c \<in> {''approval/decided'', ''question/answered'', ''tool/result'', ''step/end'', ''turn/end''}"
  by (rule closers_cases [of es])
    (auto simp: decided_closer_def answered_closer_def step_closers_def turn_end_closer_def split: option.splits)

lemma find_last_append_None:
  "\<forall>x\<in>set ys. \<not> P x \<Longrightarrow> find_last P (xs @ ys) = find_last P xs"
  by (induction ys rule: rev_induct) (simp_all add: append_assoc [symmetric] del: append_assoc)

lemma last_index_append:
  assumes "\<forall>e\<in>set new. ty e \<noteq> t"
  shows "last_index (es @ new) t = last_index es t"
proof -
  have "find_last (\<lambda>i. ty ((es @ new) ! i) = t) ([0..<length es] @ [length es..<length es + length new])
      = find_last (\<lambda>i. ty ((es @ new) ! i) = t) [0..<length es]"
  proof (intro find_last_append_None ballI)
    fix x assume "x \<in> set [length es..<length es + length new]"
    then have "\<not> x < length es" and "new ! (x - length es) \<in> set new" by auto
    with assms show "ty ((es @ new) ! x) \<noteq> t" by (simp add: nth_append)
  qed
  also have "\<dots> = find_last (\<lambda>i. ty (es ! i) = t) [0..<length es]"
    by (rule find_last_cong) (simp add: nth_append)
  finally have split: "find_last (\<lambda>i. ty ((es @ new) ! i) = t)
      ([0..<length es] @ [length es..<length es + length new])
    = find_last (\<lambda>i. ty (es ! i) = t) [0..<length es]" .
  have "[0..<length (es @ new)] = [0..<length es] @ [length es..<length es + length new]"
    using upt_add_eq_append [of 0 "length es" "length new"] by simp
  with split show ?thesis unfolding last_index_def by simp
qed

lemma last_index_less: "last_index es t = Some i \<Longrightarrow> i < length es \<and> ty (es ! i) = t"
  by (auto simp: last_index_def find_last_def find_Some_iff rev_nth)

context session_log
begin

lemma append_closers_ok:
  "append_closers append cs l = (Inr es, l') \<Longrightarrow> events l' = events l @ es \<and> list_all2 commits cs es"
proof (induction cs arbitrary: l es)
  case (Cons c cs)
  then obtain e l1 es1 where a: "append l (cl_ty c) (cl_data c) (cl_sources c) = (Inr e, l1)"
    and rest: "append_closers append cs l1 = (Inr es1, l')" and es: "es = e # es1"
    by (auto split: sum.splits prod.splits)
  from append_ok [OF a] Cons.IH [OF rest] show ?case by (simp add: es commits_def)
qed simp

lemma repair_ok:
  assumes "repair append events l = (Inr new, l')"
  shows "events l' = events l @ new \<and> interrupted_turn_closers (events l') = []
    \<and> (interrupted_turn_closers (events l) = [] \<longrightarrow> new = [] \<and> l' = l)
    \<and> (\<forall>s. last_index (events l) ''turn/start'' = Some s \<and> \<not> has_type ''turn/end'' (drop s (events l)) \<longrightarrow>
         undecided_asks (drop s (events l')) = [] \<and> unanswered_questions (drop s (events l')) = []
         \<and> (\<forall>step. open_step (drop s (events l)) = Some step \<longrightarrow> unanswered_calls (step @ new) = []))"
proof (cases rule: closers_cases [of "events l"])
  case balanced
  then show ?thesis using assms by (auto simp: repair_def)
next
  case (broken s turn steps)
  let ?cs = "interrupted_turn_closers (events l)" and ?turn = "drop s (events l)"
  have ev: "events l' = events l @ new" and com: "list_all2 commits ?cs new"
    using append_closers_ok [OF assms [unfolded repair_def]] by auto
  have s: "s < length (events l)" using last_index_less [OF broken(1)] by simp
  have types: "ty e \<in> {''approval/decided'', ''question/answered'', ''tool/result'', ''step/end'', ''turn/end''}"
    if mem: "e \<in> set new" for e
  proof -
    obtain i where "i < length new" "e = new ! i" using mem by (auto simp: in_set_conv_nth)
    with com have "commits (?cs ! i) e" "?cs ! i \<in> set ?cs" by (auto simp: list_all2_conv_all_nth)
    with closer_types [of "?cs ! i" "events l"] show ?thesis by (simp add: commits_def)
  qed
  have drop': "drop s (events l') = ?turn @ new" using s by (simp add: ev)
  have "has_type ''turn/end'' new"
  proof -
    obtain cs where cs: "?cs = cs @ [turn_end_closer turn steps]" using broken(3) by simp
    with com obtain new0 e where "new = new0 @ [e]" "commits (turn_end_closer turn steps) e"
      by (auto simp: list_all2_append1 list_all2_Cons1)
    then show ?thesis by (simp add: has_type_def commits_def turn_end_closer_def)
  qed
  moreover have "last_index (events l') ''turn/start'' = Some s"
    unfolding ev using types broken(1) by (subst last_index_append) fastforce+
  ultimately have "interrupted_turn_closers (events l') = []"
    by (simp add: interrupted_turn_closers_def drop' Let_def has_type_def)
  moreover have "undecided_asks (drop s (events l')) = []"
  proof -
    have "undecided_asks (drop s (events l'))
        = foldl (pair_step ''approval/asked'' ''approval/decided'') (undecided_asks ?turn) (map closer_event ?cs)"
      by (simp add: undecided_asks_def drop' pair_fold_commits [OF com])
    also have "\<dots> = foldl (pair_step ''approval/asked'' ''approval/decided'') []
        (map closer_event (map answered_closer (unanswered_questions ?turn)
          @ step_closers turn (open_step ?turn) @ [turn_end_closer turn steps]))"
      unfolding broken(3) map_append foldl_append map_map pair_fold_decided
      by (simp add: filter_empty_conv del: foldl_map)
    also have "\<dots> = []"
      by (rule pair_fold_other)
        (auto simp: answered_closer_def step_closers_def turn_end_closer_def split: option.splits)
    finally show ?thesis .
  qed
  moreover have "unanswered_questions (drop s (events l')) = []"
  proof -
    have "unanswered_questions (drop s (events l'))
        = foldl (pair_step ''question/asked'' ''question/answered'') (unanswered_questions ?turn) (map closer_event ?cs)"
      by (simp add: unanswered_questions_def drop' pair_fold_commits [OF com])
    also have "\<dots> = foldl (pair_step ''question/asked'' ''question/answered'') (unanswered_questions ?turn)
        (map (closer_event \<circ> answered_closer) (unanswered_questions ?turn)
         @ map closer_event (step_closers turn (open_step ?turn) @ [turn_end_closer turn steps]))"
      unfolding broken(3) map_append foldl_append map_map
      by (subst pair_fold_other) (auto simp: decided_closer_def)
    also have "\<dots> = foldl (pair_step ''question/asked'' ''question/answered'') []
        (map closer_event (step_closers turn (open_step ?turn) @ [turn_end_closer turn steps]))"
      unfolding foldl_append pair_fold_answered by (simp add: filter_empty_conv del: foldl_map)
    also have "\<dots> = []"
      by (rule pair_fold_other) (auto simp: step_closers_def turn_end_closer_def split: option.splits)
    finally show ?thesis .
  qed
  moreover have "unanswered_calls (step @ new) = []" if st: "open_step ?turn = Some step" for step
  proof -
    have nc: "\<forall>c\<in>set ?cs. cl_ty c \<noteq> ''tool/call''" using closer_types by fastforce
    have "unanswered_calls (step @ new) = foldl call_step (unanswered_calls step) (map closer_event ?cs)"
      by (simp add: unanswered_calls_def call_fold_commits [OF com nc])
    also have "\<dots> = foldl call_step (unanswered_calls step)
        (map (closer_event \<circ> synthesized_result turn) (unanswered_calls step))"
      unfolding broken(3) st step_closers_def
      by (simp add: call_fold_other decided_closer_def answered_closer_def turn_end_closer_def call_step_def
          del: foldl_map)
    also have "\<dots> = []" by (simp add: call_fold_results filter_empty_conv del: foldl_map)
    finally show ?thesis .
  qed
  moreover have "interrupted_turn_closers (events l) \<noteq> []" using broken(3) by simp
  ultimately show ?thesis using broken(1) ev by simp
qed

end

context session_log
begin

lemma append_closers_open_compaction:
  "append_closers append cs l = (r, l')
     \<Longrightarrow> \<forall>c\<in>set cs. cl_ty c \<notin> {''compaction/start'', ''compaction/end''}
     \<Longrightarrow> open_compaction (events l') = open_compaction (events l)"
proof (induction cs arbitrary: l r)
  case (Cons c cs)
  obtain r1 l1 where a: "append l (cl_ty c) (cl_data c) (cl_sources c) = (r1, l1)" by (metis surj_pair)
  have one: "open_compaction (events l1) = open_compaction (events l)"
  proof (cases r1)
    case (Inl x)
    with append_err a show ?thesis by simp
  next
    case (Inr e)
    with append_ok a have "events l1 = events l @ [e]" "ty e = cl_ty c" by auto
    with Cons.prems(2) show ?thesis by (simp add: open_compaction_snoc)
  qed
  show ?case
  proof (cases r1)
    case (Inl x)
    with Cons.prems(1) a one show ?thesis by simp
  next
    case (Inr e)
    obtain r2 where "append_closers append cs l1 = (r2, l')"
      using Cons.prems(1) a Inr by (auto split: sum.splits prod.splits)
    from Cons.IH [OF this] Cons.prems(2) one show ?thesis by simp
  qed
qed simp

lemma repair_open_compaction:
  assumes "repair append events l = (r, l')"
  shows "open_compaction (events l') = open_compaction (events l)"
  using append_closers_open_compaction [OF assms [unfolded repair_def]] closer_types [of _ "events l"]
  by fastforce

end

context working_log
begin

lemma append_closers_works:
  "healthy l \<Longrightarrow> \<exists>es l'. append_closers append cs l = (Inr es, l') \<and> healthy l'"
proof (induction cs arbitrary: l)
  case (Cons c cs)
  obtain e l1 where a: "append l (cl_ty c) (cl_data c) (cl_sources c) = (Inr e, l1)" "healthy l1"
    using append_works [OF Cons.prems] by blast
  from Cons.IH [OF a(2)] a show ?case by auto
qed simp

end

section \<open>On the journal\<close>

text \<open>
  C9. A repair that its journal took settles the session: no closer is missing any more, so a
  second repair writes nothing; in the turn that was cut short every approval question is
  decided, every user question answered, and every tool call of its open step has a result.  A
  log that was balanced is left untouched.
\<close>

theorem repair_settles:
  assumes "repair (append_journal enc) j_events l = (Inr new, l')"
  shows "interrupted_turn_closers (j_events l') = []
    \<and> repair (append_journal enc) j_events l' = (Inr [], l')
    \<and> (interrupted_turn_closers (j_events l) = [] \<longrightarrow> new = [] \<and> l' = l)
    \<and> (\<forall>s. last_index (j_events l) ''turn/start'' = Some s \<and> \<not> has_type ''turn/end'' (drop s (j_events l)) \<longrightarrow>
         undecided_asks (drop s (j_events l')) = [] \<and> unanswered_questions (drop s (j_events l')) = []
         \<and> (\<forall>step. open_step (drop s (j_events l)) = Some step \<longrightarrow> unanswered_calls (step @ new) = []))"
proof -
  note ok = journal_log.repair_ok [OF assms]
  then have "repair (append_journal enc) j_events l' = (Inr [], l')"
    unfolding repair_def by (metis append_closers.simps(1))
  with ok show ?thesis by blast
qed

text \<open>A turn that a crash cut between a tool call and its result.\<close>

definition demo_cut :: journal where
  "demo_cut = demo_journal
     [(''turn/start'', jobj [(''turn'', jnat 1)]),
      (''step/start'', jobj [(''turn'', jnat 1), (''step'', jnat 1)]),
      (''assistant/message'', jobj [(''content'', JStr []), (''tool_calls'',
         JArr [json_of_call \<lparr>tc_id = ''c1'', tc_name = ''cat'', tc_args = JNull\<rparr>])]),
      (''tool/call'', jobj [(''id'', JStr ''c1'')])]"

lemma demo_cut_open:
  "last_index (j_events demo_cut) ''turn/start'' = Some 0"
  "\<not> has_type ''turn/end'' (j_events demo_cut)"
  "map_option (map ty) (open_step (j_events demo_cut)) = Some [''step/start'', ''assistant/message'', ''tool/call'']"
  by code_simp+

theorem repair_settles_witness:
  "\<exists>new l' step. repair (append_journal (\<lambda>e. Some ''x'')) j_events demo_cut = (Inr new, l')
     \<and> open_step (j_events demo_cut) = Some step \<and> unanswered_calls (step @ new) = []
     \<and> interrupted_turn_closers (j_events l') = []"
proof -
  have "healthy_journal (\<lambda>e. Some ''x'') demo_cut"
    using written_file [of "[]" "\<lambda>e. Some ''x''"] by (simp add: healthy_journal_def demo_cut_def demo_journal_def)
  then obtain new l' where r: "repair (append_journal (\<lambda>e. Some ''x'')) j_events demo_cut = (Inr new, l')"
    using journal_works.append_closers_works unfolding repair_def by blast
  obtain step where "open_step (j_events demo_cut) = Some step" using demo_cut_open(3) by auto
  with repair_settles [OF r] demo_cut_open(1,2) r show ?thesis by auto
qed

text \<open>
  On a journal whose disk takes every write, a repair always goes through, whatever the log
  holds.
\<close>

theorem repair_always_completes:
  assumes "healthy_journal enc l"
  shows "\<exists>new l'. repair (append_journal enc) j_events l = (Inr new, l') \<and> healthy_journal enc l'
    \<and> interrupted_turn_closers (j_events l') = []"
proof -
  obtain new l' where "append_closers (append_journal enc) (interrupted_turn_closers (j_events l)) l = (Inr new, l')"
    "healthy_journal enc l'"
    using journal_works.append_closers_works [OF assms] by blast
  then show ?thesis using journal_log.repair_ok [of enc l new l'] by (auto simp: repair_def)
qed

theorem repair_always_completes_witness:
  "\<exists>new l'. repair (append_journal (\<lambda>e. Some ''x'')) j_events demo_cut = (Inr new, l')"
  using repair_always_completes [of "\<lambda>e. Some ''x''" demo_cut] written_file [of "[]" "\<lambda>e. Some ''x''"]
  by (auto simp: healthy_journal_def demo_cut_def demo_journal_def)

text \<open>
  A finding: nothing releases the compaction lock of a session whose process died while the
  summarizer was running.  Repair closes the step and the turn but not the compaction, so every
  later attempt to compact that session, for the rest of its life, is refused as already open.
\<close>

theorem crashed_compaction_stays_open:
  assumes "open_compaction (j_events l) = Some s"
    and "repair (append_journal enc) j_events l = (r, l')"
  shows "compact (append_journal enc) j_events jlen err_text summarize system retain l' = (Inl (AlreadyOpen s), l')"
  using journal_log.repair_open_compaction [OF assms(2)] assms(1) by (simp add: compact_def)

definition demo_locked :: journal where
  "demo_locked = demo_journal
     [(''turn/start'', jobj [(''turn'', jnat 1)]),
      (''step/start'', jobj [(''turn'', jnat 1), (''step'', jnat 1)]),
      (''compaction/start'', jobj [])]"

theorem crashed_compaction_stays_open_witness:
  "fst (compact (append_journal (\<lambda>e. Some ''x'')) j_events (\<lambda>_. 0) (\<lambda>_. []) demo_summary [] 2
     (snd (repair (append_journal (\<lambda>e. Some ''x'')) j_events demo_locked))) = Inl (AlreadyOpen 2)"
proof -
  have "open_compaction (j_events demo_locked) = Some 2" by code_simp
  from crashed_compaction_stays_open [OF this surjective_pairing] show ?thesis by simp
qed

end
