(* ===== verification/Approval.thy ===== *)
theory Approval
  imports Event_Bus Turn_Repair
begin

text \<open>
  The decision seam, \<^verbatim>\<open>crates/turn/src/approval.rs\<close>, and the switch it watches,
  \<^verbatim>\<open>crates/turn/src/interrupt.rs\<close>: what settles one question, what the journal keeps of it, and
  why a stopped turn stopped.  Questions are put on the bus of theory \<^verbatim>\<open>Event_Bus\<close>; the answerers
  are its listeners, any functions of the question and the session.
\<close>

section \<open>The interrupt\<close>

datatype cause = ByCaller | ByShutdown  \<comment> \<open>\<^verbatim>\<open>Cause::Cancelled\<close>, \<^verbatim>\<open>Cause::Shutdown\<close>\<close>

record interrupt =
  stopped :: bool
  stop_cause :: "cause option"

definition new_interrupt :: interrupt where
  "new_interrupt = \<lparr>stopped = False, stop_cause = None\<rparr>"

text \<open>
  The flag and the cause are two cells.  Each of the two writers touches them in two steps, and
  other threads may run between the steps: \<^verbatim>\<open>send_replace\<close> swaps the flag and answers the old
  value, the mutex makes only the second step atomic.
\<close>

definition raise_flag :: "interrupt \<Rightarrow> bool \<times> interrupt" where
  "raise_flag i = (\<not> stopped i, i\<lparr>stopped := True\<rparr>)"

definition name_cause :: "bool \<Rightarrow> cause \<Rightarrow> interrupt \<Rightarrow> interrupt" where
  "name_cause first c i = (if first then i\<lparr>stop_cause := Some c\<rparr> else i)"

definition stop_because :: "cause \<Rightarrow> interrupt \<Rightarrow> bool \<times> interrupt" where
  "stop_because c i = (let (first, i1) = raise_flag i in (first, name_cause first c i1))"

definition lower_flag :: "interrupt \<Rightarrow> interrupt" where
  "lower_flag i = i\<lparr>stopped := False\<rparr>"

definition forget_cause :: "interrupt \<Rightarrow> interrupt" where
  "forget_cause i = i\<lparr>stop_cause := None\<rparr>"

definition clear_interrupt :: "interrupt \<Rightarrow> interrupt" where
  "clear_interrupt i = forget_cause (lower_flag i)"

text \<open>\<^verbatim>\<open>wait\<close>: \<open>early\<close> says the switch was thrown before the delay had passed.\<close>

definition wait_for :: "bool \<Rightarrow> interrupt \<Rightarrow> bool" where
  "wait_for early i = (if stopped i then False else \<not> early)"

section \<open>Outcomes and policies\<close>

datatype approval_outcome = AllowedOnce | Rejected | Withdrawn | Unavailable
  \<comment> \<open>\<^verbatim>\<open>Cancelled\<close> is \<open>Withdrawn\<close>\<close>

definition grants :: "approval_outcome \<Rightarrow> bool" where
  "grants r \<longleftrightarrow> r = AllowedOnce"

fun outcome_str :: "approval_outcome \<Rightarrow> string" where
  "outcome_str AllowedOnce = ''allowed-once''"
| "outcome_str Rejected = ''rejected''"
| "outcome_str Withdrawn = ''cancelled''"
| "outcome_str Unavailable = ''unavailable''"

definition refusal :: "string \<Rightarrow> approval_outcome \<Rightarrow> string option" where
  "refusal tool r =
     (let say = (\<lambda>why. Some (''The `'' @ tool @ ''` call was not permitted: '' @ why @ ''.'')) in
      case r of
        AllowedOnce \<Rightarrow> None
      | Rejected \<Rightarrow> say (''it was refused. Do not retry it: say what you would have done and '' @
          ''continue with what you can do without it'')
      | Withdrawn \<Rightarrow> say (''the question was withdrawn before it was answered, because the turn '' @
          ''is stopping'')
      | Unavailable \<Rightarrow> say (''nobody was available to answer, so it was denied. This session is '' @
          ''running unattended: do not retry, and prefer a way of finishing that needs no approval''))"

definition parse_outcome :: "string \<Rightarrow> approval_outcome" where
  "parse_outcome w =
     (if w = ''allowed-once'' then AllowedOnce else if w = ''rejected'' then Rejected
      else if w = ''cancelled'' then Withdrawn else Unavailable)"

datatype approval_policy = Ask | Never

fun policy_str :: "approval_policy \<Rightarrow> string" where
  "policy_str Ask = ''ask''"
| "policy_str Never = ''never''"

datatype approval_error = NoOpenTurn | UnknownPolicy string | LogRefused session_error

definition parse_policy :: "string \<Rightarrow> approval_error + approval_policy" where
  "parse_policy w =
     (if w = ''ask'' then Inr Ask else if w = ''never'' then Inr Never else Inl (UnknownPolicy w))"

text \<open>The tag a refused call's result carries.\<close>

definition TOOL_NOT_PERMITTED :: string where
  "TOOL_NOT_PERMITTED = ''TOOL_NOT_PERMITTED''"

record approval_request =
  rq_tool :: string
  rq_call :: "string option"
  rq_reason :: "string option"

definition new_request :: "string \<Rightarrow> approval_request" where
  "new_request tool = \<lparr>rq_tool = tool, rq_call = None, rq_reason = None\<rparr>"

record approval_ask =
  ak_id :: string
  ak_request :: approval_request

definition approval_event :: event_decl where
  "approval_event = \<lparr>ev_key = 0, ev_topic = ''approval/request'', ev_mode = Waterfall\<rparr>"

section \<open>What the journal says\<close>

definition effective_policy :: "session_event list \<Rightarrow> approval_policy option" where
  "effective_policy es =
     Option.bind (find_last (\<lambda>e. ty e = ''approval/policy'') es) (\<lambda>e.
       Option.bind (as_str (jidx (data e) ''policy'')) (\<lambda>w.
         case parse_policy w of Inr p \<Rightarrow> Some p | Inl _ \<Rightarrow> None))"

definition has_open_turn :: "session_event list \<Rightarrow> bool" where
  "has_open_turn es =
     (case find_last (\<lambda>e. ty e = ''turn/start'' \<or> ty e = ''turn/end'') es of
        Some e \<Rightarrow> ty e = ''turn/start''
      | None \<Rightarrow> False)"

section \<open>The service\<close>

text \<open>\<open>next_ask\<close> is the atomic counter; it would take \<open>2 ^ 64\<close> questions to wrap.\<close>

record approvals =
  default_policy :: approval_policy
  next_ask :: nat
  minted :: nat

definition new_approvals :: "approval_policy \<Rightarrow> nat \<Rightarrow> session_event list \<Rightarrow> approvals" where
  "new_approvals d now es =
     \<lparr>default_policy = d, next_ask = length (filter (\<lambda>e. ty e = ''approval/asked'') es), minted = now\<rparr>"

definition policy_of :: "approvals \<Rightarrow> session_event list \<Rightarrow> approval_policy" where
  "policy_of a es = (case effective_policy es of Some p \<Rightarrow> p | None \<Rightarrow> default_policy a)"

definition set_policy ::
  "'l appender \<Rightarrow> ('l \<Rightarrow> session_event list) \<Rightarrow> approvals \<Rightarrow> approval_policy \<Rightarrow> 'l
   \<Rightarrow> (approval_error + bool) \<times> 'l"
where
  "set_policy app events a p l =
     (if policy_of a (events l) = p then (Inr False, l)
      else (case app l ''approval/policy'' (jobj [(''policy'', JStr (policy_str p))]) None of
          (Inl x, l1) \<Rightarrow> (Inl (LogRefused x), l1)
        | (Inr _, l1) \<Rightarrow> (Inr True, l1)))"

definition fresh_id :: "approvals \<Rightarrow> string \<times> approvals" where
  "fresh_id a =
     (''ask-'' @ show_nat (minted a) @ ''-'' @ show_nat (next_ask a), a\<lparr>next_ask := next_ask a + 1\<rparr>)"

text \<open>The terminal of the chain, and the guard around the answerers.\<close>

definition fail_closed ::
  "approval_ask \<Rightarrow> 'l \<Rightarrow> (payload + approval_outcome) \<times> approval_ask \<times> 'l"
where
  "fail_closed ask l = (Inr Unavailable, ask, l)"

definition contained_answer :: "payload + approval_outcome \<Rightarrow> approval_outcome" where
  "contained_answer r = (case r of Inr out \<Rightarrow> out | Inl _ \<Rightarrow> Unavailable)"

text \<open>
  Put, then settled, then recorded.  \<open>race\<close> says how the wait for an answer goes: \<^const>\<open>Some\<close>
  when the interrupt came first, with the session as the answerers had left it by then;
  \<^const>\<open>None\<close> when they ran to their end, an answer that is ready being preferred
  (\<^verbatim>\<open>biased\<close>).  A dispatch under the wrong mode cannot happen: the event's own declaration
  names the mode.
\<close>

definition ask_json :: "string \<Rightarrow> approval_request \<Rightarrow> json" where
  "ask_json i q =
     (let asked = jobj [(''id'', JStr i), (''tool_name'', JStr (rq_tool q))];
          asked = (case rq_call q of None \<Rightarrow> asked | Some c \<Rightarrow> jset ''call_id'' (JStr c) asked)
      in case rq_reason q of None \<Rightarrow> asked | Some r \<Rightarrow> jset ''reason'' (JStr r) asked)"

definition put_question ::
  "'l appender \<Rightarrow> ('l \<Rightarrow> session_event list) \<Rightarrow> approval_request \<Rightarrow> approvals \<Rightarrow> 'l
   \<Rightarrow> (approval_error + string) \<times> approvals \<times> 'l"
where
  "put_question app events q a l =
     (if \<not> has_open_turn (events l) then (Inl NoOpenTurn, a, l)
      else (let (i, a1) = fresh_id a in
            case app l ''approval/asked'' (ask_json i q) None of
              (Inl x, l1) \<Rightarrow> (Inl (LogRefused x), a1, l1)
            | (Inr _, l1) \<Rightarrow> (Inr i, a1, l1)))"

definition decide_question ::
  "('l \<Rightarrow> session_event list) \<Rightarrow> (approval_ask, approval_outcome, 'l) bus
   \<Rightarrow> (approval_ask \<Rightarrow> 'l \<Rightarrow> 'l option) \<Rightarrow> interrupt \<Rightarrow> approvals \<Rightarrow> string \<Rightarrow> approval_request \<Rightarrow> 'l
   \<Rightarrow> approval_outcome \<times> 'l"
where
  "decide_question events b race intr a i q l =
     (if stopped intr then (Withdrawn, l)
      else if policy_of a (events l) = Never then (Rejected, l)
      else (let ask = \<lparr>ak_id = i, ak_request = q\<rparr> in
            case race ask l of
              Some l1 \<Rightarrow> (Withdrawn, l1)
            | None \<Rightarrow>
                (case waterfall approval_event ask fail_closed b l of
                   None \<Rightarrow> (Unavailable, l)
                 | Some (r, _, l1) \<Rightarrow> (contained_answer r, l1))))"

definition settle_question ::
  "'l appender \<Rightarrow> ('l \<Rightarrow> session_event list) \<Rightarrow> (approval_ask, approval_outcome, 'l) bus
   \<Rightarrow> (approval_ask \<Rightarrow> 'l \<Rightarrow> 'l option) \<Rightarrow> interrupt \<Rightarrow> approvals \<Rightarrow> string \<Rightarrow> approval_request \<Rightarrow> 'l
   \<Rightarrow> (approval_error + approval_outcome) \<times> 'l"
where
  "settle_question app events b race intr a i q l =
     (let (out, l1) = decide_question events b race intr a i q l in
      case app l1 ''approval/decided''
             (jobj [(''id'', JStr i), (''outcome'', JStr (outcome_str out))]) None of
        (Inl x, l2) \<Rightarrow> (Inl (LogRefused x), l2)
      | (Inr _, l2) \<Rightarrow> (Inr out, l2))"

definition request_approval ::
  "'l appender \<Rightarrow> ('l \<Rightarrow> session_event list) \<Rightarrow> (approval_ask, approval_outcome, 'l) bus
   \<Rightarrow> (approval_ask \<Rightarrow> 'l \<Rightarrow> 'l option) \<Rightarrow> interrupt \<Rightarrow> approval_request \<Rightarrow> approvals \<Rightarrow> 'l
   \<Rightarrow> (approval_error + approval_outcome) \<times> approvals \<times> 'l"
where
  "request_approval app events b race intr q a l =
     (case put_question app events q a l of
        (Inl x, a1, l1) \<Rightarrow> (Inl x, a1, l1)
      | (Inr i, a1, l1) \<Rightarrow>
          (let (r, l2) = settle_question app events b race intr a1 i q l1 in (r, a1, l2)))"

section \<open>Who can grant\<close>

lemma jget_ask_json:
  "jget (ask_json i q) ''id'' = Some (JStr i)"
  by (cases "rq_call q"; cases "rq_reason q") (simp_all add: ask_json_def jobj_def)

lemma jstr_ask_json [simp]: "jstr (ask_json i q) ''id'' = i"
  by (simp add: jstr_def jget_ask_json)

lemma effective_policy_snoc:
  "ty e \<noteq> ''approval/policy'' \<Longrightarrow> effective_policy (es @ [e]) = effective_policy es"
  by (simp add: effective_policy_def)

lemma decide_grants:
  assumes "decide_question events b race intr a i q l = (out, l1)" and "grants out"
  shows "\<not> stopped intr \<and> policy_of a (events l) = Ask \<and> race \<lparr>ak_id = i, ak_request = q\<rparr> l = None
    \<and> (\<exists>ask'. waterfall approval_event \<lparr>ak_id = i, ak_request = q\<rparr> fail_closed b l
          = Some (Inr AllowedOnce, ask', l1))"
  using assms
  by (cases "policy_of a (events l)")
    (auto simp: decide_question_def grants_def contained_answer_def Let_def
      split: if_splits option.splits sum.splits)

lemma unanswered_waterfall:
  "registered approval_event b = [] \<Longrightarrow>
     waterfall approval_event ask fail_closed b l = Some (Inr Unavailable, ask, l)"
  by (simp add: waterfall_def snapshot_def approval_event_def next_run.simps fail_closed_def)

context session_log
begin

lemma put_question_ok:
  assumes "put_question append events q a l = (Inr i, a1, l1)"
  shows "has_open_turn (events l) \<and> (i, a1) = fresh_id a
    \<and> (\<exists>e. events l1 = events l @ [e] \<and> ty e = ''approval/asked'' \<and> data e = ask_json i q)"
  using assms
  by (auto simp: put_question_def split: if_splits prod.splits sum.splits dest!: append_ok)

lemma put_question_err:
  assumes "put_question append events q a l = (Inl x, a1, l1)"
  shows "events l1 = events l \<and> (x = NoOpenTurn \<longleftrightarrow> \<not> has_open_turn (events l))"
  using assms
  by (auto simp: put_question_def split: if_splits prod.splits sum.splits dest!: append_err)

lemma settle_ok:
  assumes "settle_question append events b race intr a i q l = (Inr out, l2)"
  obtains l1 e where "decide_question events b race intr a i q l = (out, l1)"
    and "events l2 = events l1 @ [e]" and "ty e = ''approval/decided''"
    and "data e = jobj [(''id'', JStr i), (''outcome'', JStr (outcome_str out))]"
  using assms
  by (auto simp: settle_question_def split: prod.splits sum.splits dest!: append_ok)

text \<open>A grant went through every gate, and both halves of it are on the log.\<close>

lemma request_grants:
  assumes r: "request_approval append events b race intr q a l = (Inr out, a', l')" and g: "grants out"
  shows "has_open_turn (events l) \<and> \<not> stopped intr \<and> policy_of a (events l) = Ask
    \<and> registered approval_event b \<noteq> []
    \<and> (\<exists>asked l1 l2 ask' decided. events l1 = events l @ [asked] \<and> ty asked = ''approval/asked''
        \<and> data asked = ask_json (fst (fresh_id a)) q
        \<and> race \<lparr>ak_id = fst (fresh_id a), ak_request = q\<rparr> l1 = None
        \<and> waterfall approval_event \<lparr>ak_id = fst (fresh_id a), ak_request = q\<rparr> fail_closed b l1
            = Some (Inr AllowedOnce, ask', l2)
        \<and> events l' = events l2 @ [decided] \<and> ty decided = ''approval/decided''
        \<and> data decided = jobj [(''id'', JStr (fst (fresh_id a))), (''outcome'', JStr ''allowed-once'')])"
proof -
  obtain i a1 l1 where p: "put_question append events q a l = (Inr i, a1, l1)"
    and s: "settle_question append events b race intr a1 i q l1 = (Inr out, l')"
    using r by (auto simp: request_approval_def split: prod.splits sum.splits)
  from put_question_ok [OF p] obtain asked where asked: "has_open_turn (events l)" "(i, a1) = fresh_id a"
      "events l1 = events l @ [asked]" "ty asked = ''approval/asked''" "data asked = ask_json i q" by auto
  from settle_ok [OF s] obtain l2 decided where
    d: "decide_question events b race intr a1 i q l1 = (out, l2)" and dec: "events l' = events l2 @ [decided]"
      "ty decided = ''approval/decided''" "data decided = jobj [(''id'', JStr i), (''outcome'', JStr (outcome_str out))]"
    by blast
  note gate = decide_grants [OF d g]
  have "policy_of a1 (events l1) = policy_of a (events l)"
    using asked(2,3,4)
    by (cases "effective_policy (events l)") (auto simp: policy_of_def effective_policy_snoc fresh_id_def)
  moreover have "registered approval_event b \<noteq> []" using gate by (auto simp: unanswered_waterfall)
  moreover have "fst (fresh_id a) = i" using asked(2) by (metis fst_conv)
  ultimately show ?thesis using gate asked dec g by (auto simp: grants_def)
qed

end

text \<open>
  C4. The seam fails closed.  A call is granted only when a turn was open, nobody had asked it to
  stop, the policy in force (the journal's last switch, else the deployment's) was to ask, the
  interrupt did not win the wait, and an answerer that ran returned the one granting word; a bus
  without answerers never grants.  The question and the decision are on the journal, under one id,
  before the grant is.
\<close>

theorem approval_fail_closed:
  assumes "request_approval (append_journal enc) j_events b race intr q a l = (Inr out, a', l')"
    and "grants out"
  shows "has_open_turn (j_events l) \<and> \<not> stopped intr \<and> policy_of a (j_events l) = Ask
    \<and> registered approval_event b \<noteq> []
    \<and> (\<exists>asked l1 l2 ask' decided. j_events l1 = j_events l @ [asked] \<and> ty asked = ''approval/asked''
        \<and> data asked = ask_json (fst (fresh_id a)) q
        \<and> race \<lparr>ak_id = fst (fresh_id a), ak_request = q\<rparr> l1 = None
        \<and> waterfall approval_event \<lparr>ak_id = fst (fresh_id a), ak_request = q\<rparr> fail_closed b l1
            = Some (Inr AllowedOnce, ask', l2)
        \<and> j_events l' = j_events l2 @ [decided] \<and> ty decided = ''approval/decided''
        \<and> data decided = jobj [(''id'', JStr (fst (fresh_id a))), (''outcome'', JStr ''allowed-once'')])"
  by (rule journal_log.request_grants [OF assms])

text \<open>An answerer that grants everything to do with \<^verbatim>\<open>ls\<close> and leaves the rest to the default.\<close>

definition demo_answers :: "(approval_ask, approval_outcome, journal) bus" where
  "demo_answers = \<lparr>next_id = 1, slots = [0 \<mapsto>
     [(0, WaterfallFn (\<lambda>ask k l. if rq_tool (ak_request ask) = ''ls'' then (Inr AllowedOnce, ask, l)
                                 else k ask l))]]\<rparr>"

definition demo_turn :: journal where
  "demo_turn = snd (append_journal (\<lambda>e. Some ''x'') (empty_journal [] []) ''turn/start'' (jobj []) None)"

definition demo_service :: approvals where
  "demo_service = new_approvals Ask 5 (j_events demo_turn)"

abbreviation demo_request :: "string \<Rightarrow> (approval_error + approval_outcome) \<times> approvals \<times> journal" where
  "demo_request tool \<equiv> request_approval (append_journal (\<lambda>e. Some ''x'')) j_events demo_answers
     (\<lambda>_ _. None) new_interrupt (new_request tool) demo_service demo_turn"

lemma waterfall_demo:
  "waterfall approval_event ask fail_closed demo_answers l
     = Some (if rq_tool (ak_request ask) = ''ls'' then (Inr AllowedOnce, ask, l) else (Inr Unavailable, ask, l))"
  by (simp add: waterfall_def snapshot_def approval_event_def registered_def demo_answers_def
      next_run.simps fail_closed_def)

lemma demo_request_ls:
  "map_sum (\<lambda>_. ()) outcome_str (fst (demo_request ''ls'')) = Inr ''allowed-once''
   \<and> map_sum (\<lambda>_. ()) outcome_str (fst (demo_request ''rm'')) = Inr ''unavailable''"
  by (simp add: request_approval_def put_question_def settle_question_def decide_question_def
      waterfall_demo demo_turn_def demo_service_def new_approvals_def append_journal_def empty_journal_def
      has_open_turn_def find_last_def next_disk_def Let_def fresh_id_def new_interrupt_def policy_of_def
      effective_policy_def new_request_def contained_answer_def)

theorem approval_fail_closed_witness:
  "(\<exists>a' l'. demo_request ''ls'' = (Inr AllowedOnce, a', l')) \<and> policy_of demo_service (j_events demo_turn) = Ask
   \<and> registered approval_event demo_answers \<noteq> []"
proof -
  obtain r a' l' where parts: "demo_request ''ls'' = (r, a', l')" by (metis prod_cases3)
  then have "r = Inr AllowedOnce" using demo_request_ls by (cases r; cases "projr r") simp_all
  with parts have run: "demo_request ''ls'' = (Inr AllowedOnce, a', l')" by simp
  from approval_fail_closed [OF this] run show ?thesis by (auto simp: grants_def)
qed

section \<open>The audit pair\<close>

text \<open>What is asked of the answerers: they may add to the log, but no half of an audit pair.\<close>

definition answerers_extend ::
  "('l \<Rightarrow> bool) \<Rightarrow> ('l \<Rightarrow> session_event list) \<Rightarrow> (approval_ask, approval_outcome, 'l) bus
   \<Rightarrow> (approval_ask \<Rightarrow> 'l \<Rightarrow> 'l option) \<Rightarrow> bool"
where
  "answerers_extend healthy events b race \<longleftrightarrow>
     (\<forall>ask l l1. healthy l \<longrightarrow> race ask l = Some l1
        \<or> (race ask l = None \<and> (\<exists>r ask'. waterfall approval_event ask fail_closed b l = Some (r, ask', l1)))
        \<longrightarrow> healthy l1 \<and> (\<exists>new. events l1 = events l @ new
             \<and> (\<forall>e\<in>set new. ty e \<noteq> ''approval/asked'' \<and> ty e \<noteq> ''approval/decided'')))"

text \<open>The counter is past every id it minted that the journal holds.\<close>

definition ids_below :: "approvals \<Rightarrow> session_event list \<Rightarrow> bool" where
  "ids_below a es \<longleftrightarrow> (\<forall>e\<in>set es. \<forall>n. ty e = ''approval/asked'' \<longrightarrow>
     jstr (data e) ''id'' = fst (fresh_id (a\<lparr>next_ask := n\<rparr>)) \<longrightarrow> n < next_ask a)"

lemma fresh_id_inject [simp]:
  "fst (fresh_id (a\<lparr>next_ask := m\<rparr>)) = fst (fresh_id (a\<lparr>next_ask := n\<rparr>)) \<longleftrightarrow> m = n"
  by (simp add: fresh_id_def)

lemma undecided_asks_append:
  assumes "\<forall>e\<in>set new. ty e \<noteq> ''approval/asked'' \<and> ty e \<noteq> ''approval/decided''"
  shows "undecided_asks (es @ new) = undecided_asks es"
  using assms by (induction new rule: rev_induct)
    (auto simp: undecided_asks_def pair_step_def simp flip: append_assoc)

lemma undecided_asks_set:
  "i \<in> set (undecided_asks es) \<Longrightarrow> \<exists>e\<in>set es. ty e = ''approval/asked'' \<and> jstr (data e) ''id'' = i"
  by (induction es rule: rev_induct) (auto simp: undecided_asks_def pair_step_def split: if_splits)

lemma fresh_id_not_pending: "ids_below a es \<Longrightarrow> fst (fresh_id a) \<notin> set (undecided_asks es)"
proof
  assume below: "ids_below a es" and "fst (fresh_id a) \<in> set (undecided_asks es)"
  then obtain e where "e \<in> set es" and "ty e = ''approval/asked''"
    and "jstr (data e) ''id'' = fst (fresh_id (a\<lparr>next_ask := next_ask a\<rparr>))"
    using undecided_asks_set [of "fst (fresh_id a)" es] by auto
  with below show False unfolding ids_below_def by blast
qed

lemma ids_below_asked:
  assumes "ids_below a es" and "\<forall>e\<in>set new. ty e \<noteq> ''approval/asked''"
    and "ty asked = ''approval/asked'' \<longrightarrow> jstr (data asked) ''id'' = fst (fresh_id a)"
  shows "ids_below (snd (fresh_id a)) (es @ asked # new)"
  unfolding ids_below_def
proof (intro ballI allI impI)
  fix e n
  assume e: "e \<in> set (es @ asked # new)" "ty e = ''approval/asked''"
    and "jstr (data e) ''id'' = fst (fresh_id (snd (fresh_id a)\<lparr>next_ask := n\<rparr>))"
  then have i: "jstr (data e) ''id'' = fst (fresh_id (a\<lparr>next_ask := n\<rparr>))" by (simp add: fresh_id_def)
  consider "e \<in> set es" | "e = asked" using e assms(2) by auto
  then show "n < next_ask (snd (fresh_id a))"
  proof cases
    case 1
    with assms(1) e(2) i have "n < next_ask a" unfolding ids_below_def by blast
    then show ?thesis by (simp add: fresh_id_def)
  next
    case 2
    with assms(3) e(2) i have "fst (fresh_id (a\<lparr>next_ask := n\<rparr>)) = fst (fresh_id (a\<lparr>next_ask := next_ask a\<rparr>))"
      by simp
    then have "n = next_ask a" by (simp only: fresh_id_inject)
    then show ?thesis by (simp add: fresh_id_def)
  qed
qed

context working_log
begin

lemma decide_extends:
  assumes "decide_question events b race intr a i q l = (out, l1)" and "healthy l"
    and "answerers_extend healthy events b race"
  shows "healthy l1 \<and> (\<exists>new. events l1 = events l @ new
     \<and> (\<forall>e\<in>set new. ty e \<noteq> ''approval/asked'' \<and> ty e \<noteq> ''approval/decided''))"
proof (cases "l1 = l")
  case False
  then have "race \<lparr>ak_id = i, ak_request = q\<rparr> l = Some l1
    \<or> (race \<lparr>ak_id = i, ak_request = q\<rparr> l = None
       \<and> (\<exists>r ask'. waterfall approval_event \<lparr>ak_id = i, ak_request = q\<rparr> fail_closed b l = Some (r, ask', l1)))"
    using assms(1) by (auto simp: decide_question_def Let_def split: if_splits option.splits)
  with assms(2,3) show ?thesis unfolding answerers_extend_def by blast
qed (use assms in auto)

lemma request_audit:
  assumes h: "healthy l" and turn: "has_open_turn (events l)"
    and ext: "answerers_extend healthy events b race" and below: "ids_below a (events l)"
  shows "\<exists>out a' l' asked mid decided. request_approval append events b race intr q a l = (Inr out, a', l')
    \<and> events l' = events l @ [asked] @ mid @ [decided]
    \<and> ty asked = ''approval/asked'' \<and> data asked = ask_json (fst (fresh_id a)) q
    \<and> ty decided = ''approval/decided''
    \<and> data decided = jobj [(''id'', JStr (fst (fresh_id a))), (''outcome'', JStr (outcome_str out))]
    \<and> (\<forall>e\<in>set mid. ty e \<noteq> ''approval/asked'' \<and> ty e \<noteq> ''approval/decided'')
    \<and> undecided_asks (events l') = undecided_asks (events l)
    \<and> healthy l' \<and> ids_below a' (events l')"
proof -
  let ?i = "fst (fresh_id a)" and ?a = "snd (fresh_id a)"
  obtain asked l1 where 1: "append l ''approval/asked'' (ask_json ?i q) None = (Inr asked, l1)" "healthy l1"
    using append_works [OF h] by blast
  then have p: "put_question append events q a l = (Inr ?i, ?a, l1)"
    using turn by (cases "fresh_id a") (simp add: put_question_def)
  obtain out l2 where d: "decide_question events b race intr ?a ?i q l1 = (out, l2)" by fastforce
  from decide_extends [OF d 1(2) ext] obtain mid where 2: "healthy l2" "events l2 = events l1 @ mid"
    "\<forall>e\<in>set mid. ty e \<noteq> ''approval/asked'' \<and> ty e \<noteq> ''approval/decided''" by blast
  obtain decided l3 where 3: "append l2 ''approval/decided''
      (jobj [(''id'', JStr ?i), (''outcome'', JStr (outcome_str out))]) None = (Inr decided, l3)" "healthy l3"
    using append_works [OF 2(1)] by blast
  have run: "request_approval append events b race intr q a l = (Inr out, ?a, l3)"
    by (simp add: request_approval_def p settle_question_def d 3)
  note e1 = append_ok [OF 1(1)] and e3 = append_ok [OF 3(1)]
  have ev: "events l3 = events l @ [asked] @ mid @ [decided]" using e1 2(2) e3 by simp
  have "undecided_asks (events l @ [asked] @ mid) = undecided_asks (events l) @ [?i]"
    using undecided_asks_append [OF 2(3), of "events l @ [asked]"] e1
    by (simp add: undecided_asks_def pair_step_def)
  then have "undecided_asks (events l3) = filter (\<lambda>j. j \<noteq> ?i) (undecided_asks (events l) @ [?i])"
    using ev e3 by (simp add: undecided_asks_def pair_step_def jstr_jobj)
  also have "\<dots> = undecided_asks (events l)"
    using fresh_id_not_pending [OF below] by (induction "undecided_asks (events l)") (auto simp: filter_id_conv)
  finally have und: "undecided_asks (events l3) = undecided_asks (events l)" .
  have "ids_below ?a (events l @ asked # mid @ [decided])"
    by (rule ids_below_asked) (use below 2(3) e1 e3 in auto)
  with run ev und e1 e3 2(3) 3(2) show ?thesis
    by (intro exI [of _ out] exI [of _ ?a] exI [of _ l3] exI [of _ asked] exI [of _ mid] exI [of _ decided]) simp
qed

end

text \<open>
  The audit pair is one to one.  On a journal whose disk takes its writes every question put
  inside a turn settles: it appends one ask before the answerers run and one decision after, under
  one id that no earlier question of the session still waits under, so crash repair afterwards
  finds exactly the undecided questions it would have found before; the next id is fresh again.
\<close>

theorem approval_audit_pair:
  assumes "healthy_journal enc l" and "has_open_turn (j_events l)"
    and "answerers_extend (healthy_journal enc) j_events b race" and "ids_below a (j_events l)"
  shows "\<exists>out a' l' asked mid decided.
      request_approval (append_journal enc) j_events b race intr q a l = (Inr out, a', l')
    \<and> j_events l' = j_events l @ [asked] @ mid @ [decided]
    \<and> ty asked = ''approval/asked'' \<and> data asked = ask_json (fst (fresh_id a)) q
    \<and> ty decided = ''approval/decided''
    \<and> data decided = jobj [(''id'', JStr (fst (fresh_id a))), (''outcome'', JStr (outcome_str out))]
    \<and> (\<forall>e\<in>set mid. ty e \<noteq> ''approval/asked'' \<and> ty e \<noteq> ''approval/decided'')
    \<and> undecided_asks (j_events l') = undecided_asks (j_events l)
    \<and> healthy_journal enc l' \<and> ids_below a' (j_events l')"
  by (rule journal_works.request_audit [OF assms])

lemma demo_answers_extend: "answerers_extend healthy j_events demo_answers (\<lambda>_ _. None)"
  by (auto simp: answerers_extend_def waterfall_demo split: if_splits)

lemma demo_turn_facts:
  "healthy_journal (\<lambda>e. Some ''x'') demo_turn" "has_open_turn (j_events demo_turn)"
  "ids_below demo_service (j_events demo_turn)" "undecided_asks (j_events demo_turn) = []"
  by (simp_all add: demo_turn_def append_journal_def empty_journal_def healthy_journal_def next_disk_def
      Let_def has_open_turn_def find_last_def ids_below_def undecided_asks_def pair_step_def)

theorem approval_audit_pair_witness:
  "\<exists>out a' l'. demo_request ''rm'' = (Inr out, a', l') \<and> \<not> grants out
     \<and> length (j_events l') = 3 \<and> undecided_asks (j_events l') = []"
proof -
  have three: "length (j_events (snd (snd (demo_request ''rm'')))) = 3"
    by (simp add: request_approval_def put_question_def settle_question_def decide_question_def
      waterfall_demo demo_turn_def demo_service_def new_approvals_def append_journal_def empty_journal_def
      has_open_turn_def find_last_def next_disk_def Let_def fresh_id_def new_interrupt_def policy_of_def
      effective_policy_def new_request_def contained_answer_def)
  obtain out a' l' where run: "demo_request ''rm'' = (Inr out, a', l')"
      "undecided_asks (j_events l') = []"
    using approval_audit_pair [OF demo_turn_facts(1,2) demo_answers_extend demo_turn_facts(3),
        of new_interrupt "new_request ''rm''"] demo_turn_facts(4) by metis
  moreover have "\<not> grants out" using demo_request_ls run by (auto simp: grants_def)
  ultimately show ?thesis using three by auto
qed

section \<open>Why a turn was stopped\<close>

text \<open>What the driver puts on the journal for an interrupted turn.\<close>

definition reported_cause :: "interrupt \<Rightarrow> cause" where
  "reported_cause i = (case stop_cause i of Some ByShutdown \<Rightarrow> ByShutdown | _ \<Rightarrow> ByCaller)"

datatype switch_act = LowerFlag | ForgetCause | RaiseFlag | NameCause

text \<open>One step of the two threads, with the local answer of the stopping one's swap.\<close>

fun switch_step :: "cause \<Rightarrow> switch_act \<Rightarrow> bool \<times> interrupt \<Rightarrow> bool \<times> interrupt" where
  "switch_step c LowerFlag (first, i) = (first, lower_flag i)"
| "switch_step c ForgetCause (first, i) = (first, forget_cause i)"
| "switch_step c RaiseFlag (first, i) = raise_flag i"
| "switch_step c NameCause (first, i) = (first, name_cause first c i)"

text \<open>
  Why a turn stopped survives every interleaving of a starting turn's \<^verbatim>\<open>clear\<close> with one
  \<^verbatim>\<open>stop_because\<close> except one: when the stopping thread runs wholly between the two halves
  of the clear, the turn is left stopped with no cause, and a shutdown is then reported as a
  caller's cancellation.
\<close>

theorem interrupt_interleavings:
  assumes "sched \<in> shuffles [LowerFlag, ForgetCause] [RaiseFlag, NameCause]"
    and "snd (fold (switch_step c) sched (False, i)) = i'"
  shows "(sched \<noteq> [LowerFlag, RaiseFlag, NameCause, ForgetCause] \<and> stopped i' \<and> \<not> stopped i
            \<longrightarrow> stop_cause i' = Some c \<and> reported_cause i' = c)
    \<and> (sched = [LowerFlag, RaiseFlag, NameCause, ForgetCause]
            \<longrightarrow> stopped i' \<and> stop_cause i' = None \<and> reported_cause i' = ByCaller)"
  using assms
  by (auto simp: lower_flag_def forget_cause_def raise_flag_def name_cause_def reported_cause_def
      split: cause.splits)

theorem interrupt_interleavings_witness:
  "reported_cause (snd (fold (switch_step ByShutdown)
     [LowerFlag, RaiseFlag, NameCause, ForgetCause] (False, new_interrupt))) = ByCaller
   \<and> reported_cause (snd (fold (switch_step ByShutdown)
     [LowerFlag, RaiseFlag, ForgetCause, NameCause] (False, new_interrupt))) = ByShutdown"
proof -
  have "[LowerFlag, RaiseFlag, NameCause, ForgetCause] \<in> shuffles [LowerFlag, ForgetCause] [RaiseFlag, NameCause]"
    and "[LowerFlag, RaiseFlag, ForgetCause, NameCause] \<in> shuffles [LowerFlag, ForgetCause] [RaiseFlag, NameCause]"
    and "stopped (snd (fold (switch_step ByShutdown)
      [LowerFlag, RaiseFlag, ForgetCause, NameCause] (False, new_interrupt)))" "\<not> stopped new_interrupt"
    by (auto simp: lower_flag_def forget_cause_def raise_flag_def name_cause_def new_interrupt_def)
  then show ?thesis using interrupt_interleavings [OF _ refl, of _ ByShutdown new_interrupt] by blast
qed

end
