(* ===== verification/Inbox.thy ===== *)
theory Inbox
  imports Compaction
begin

text \<open>
  The queue of waiting input, \<^verbatim>\<open>crates/turn/src/inbox.rs\<close>: two queues folded from
  \<^verbatim>\<open>agent/inbox/spliced\<close> events, every mutation durable before it is visible.  The record's
  JSON form is the one its derived \<^verbatim>\<open>Serialize\<close> and \<^verbatim>\<open>Deserialize\<close> fix.
\<close>

datatype inbox_target = NextTurn | NextStep

record pending_message =
  pm_id :: string
  pm_message :: message

definition pending_user :: "string \<Rightarrow> string \<Rightarrow> pending_message" where
  "pending_user i content = \<lparr>pm_id = i, pm_message = user_message content\<rparr>"

datatype splice_outcome = Canceled

record inbox_splice =
  sp_target :: inbox_target
  sp_start :: nat
  sp_removed_count :: "nat option"
  sp_inserted :: "pending_message list"
  sp_outcome :: "splice_outcome option"

definition sp_removed :: "inbox_splice \<Rightarrow> nat" where
  "sp_removed s = (case sp_removed_count s of Some n \<Rightarrow> n | None \<Rightarrow> 0)"

datatype notification =
    Inserted pending_message
  | Discarded pending_message
  | Claimed pending_message nat

text \<open>A record no reader could decode is refused without a further reason here.\<close>

datatype inbox_error =
    AlreadyPending string
  | OutOfRange nat nat nat
  | InvalidPersisted nat "inbox_error option"
  | JournalRefused session_error

record inbox =
  next_turn :: "pending_message list"
  next_step :: "pending_message list"

definition new_inbox :: inbox where
  "new_inbox = \<lparr>next_turn = [], next_step = []\<rparr>"

record spliced =
  spliced_removed :: "pending_message list"
  spliced_notes :: "notification list"

record claimed =
  claimed_messages :: "pending_message list"
  claimed_notes :: "notification list"

section \<open>The JSON form\<close>

text \<open>
  A structure's fields by name, from an object or from an array that lists them in order and may
  leave out a tail.
\<close>

definition fields_of :: "string list \<Rightarrow> json \<Rightarrow> (string \<rightharpoonup> json) option" where
  "fields_of names j =
     (case j of
        JObj m \<Rightarrow> Some (map_of m)
      | JArr xs \<Rightarrow> if length xs \<le> length names then Some (map_of (zip names xs)) else None
      | _ \<Rightarrow> None)"

fun role_of_str :: "string \<Rightarrow> role option" where
  "role_of_str s =
     (if s = ''system'' then Some System
      else if s = ''user'' then Some User
      else if s = ''assistant'' then Some Assistant
      else if s = ''tool'' then Some Tool
      else None)"

text \<open>A missing vector is empty; a missing or null optional field is absent.\<close>

definition vec_field :: "(json \<Rightarrow> 'a option) \<Rightarrow> json option \<Rightarrow> 'a list option" where
  "vec_field dec v = (case v of None \<Rightarrow> Some [] | Some j \<Rightarrow> list_of_json dec j)"

definition opt_field :: "(json \<Rightarrow> 'a option) \<Rightarrow> json option \<Rightarrow> 'a option option" where
  "opt_field dec v =
     (case v of None \<Rightarrow> Some None | Some JNull \<Rightarrow> Some None | Some j \<Rightarrow> map_option Some (dec j))"

definition json_of_message :: "message \<Rightarrow> json" where
  "json_of_message m =
     jobj ([(''role'', JStr (role_str (m_role m))), (''content'', JStr (m_content m))]
       @ (if m_calls m = [] then [] else [(''tool_calls'', JArr (map json_of_call (m_calls m)))])
       @ (case m_call_id m of None \<Rightarrow> [] | Some i \<Rightarrow> [(''tool_call_id'', JStr i)]))"

definition message_of_json :: "json \<Rightarrow> message option" where
  "message_of_json j =
     (case fields_of [''role'', ''content'', ''tool_calls'', ''tool_call_id''] j of
        None \<Rightarrow> None
      | Some f \<Rightarrow>
          (case (Option.bind (str_field (f ''role'')) role_of_str, str_field (f ''content''),
                 vec_field call_of_json (f ''tool_calls''), opt_field as_str (f ''tool_call_id'')) of
             (Some r, Some c, Some calls, Some i) \<Rightarrow>
               Some \<lparr>m_role = r, m_content = c, m_calls = calls, m_call_id = i\<rparr>
           | _ \<Rightarrow> None))"

definition json_of_pending :: "pending_message \<Rightarrow> json" where
  "json_of_pending p = jobj [(''id'', JStr (pm_id p)), (''message'', json_of_message (pm_message p))]"

definition pending_of_json :: "json \<Rightarrow> pending_message option" where
  "pending_of_json j =
     (case fields_of [''id'', ''message''] j of
        None \<Rightarrow> None
      | Some f \<Rightarrow>
          (case (str_field (f ''id''), Option.bind (f ''message'') message_of_json) of
             (Some i, Some m) \<Rightarrow> Some \<lparr>pm_id = i, pm_message = m\<rparr>
           | _ \<Rightarrow> None))"

fun target_str :: "inbox_target \<Rightarrow> string" where
  "target_str NextTurn = ''next-turn''"
| "target_str NextStep = ''next-step''"

definition target_of_json :: "json \<Rightarrow> inbox_target option" where
  "target_of_json j =
     (if j = JStr ''next-turn'' then Some NextTurn
      else if j = JStr ''next-step'' then Some NextStep else None)"

definition outcome_of_json :: "json \<Rightarrow> splice_outcome option" where
  "outcome_of_json j = (if j = JStr ''canceled'' then Some Canceled else None)"

definition json_of_splice :: "inbox_splice \<Rightarrow> json" where
  "json_of_splice s =
     jobj ([(''target'', JStr (target_str (sp_target s))), (''start'', jnat (sp_start s))]
       @ (case sp_removed_count s of None \<Rightarrow> [] | Some n \<Rightarrow> [(''removed_count'', jnat n)])
       @ (if sp_inserted s = [] then [] else [(''inserted'', JArr (map json_of_pending (sp_inserted s)))])
       @ (case sp_outcome s of None \<Rightarrow> [] | Some _ \<Rightarrow> [(''outcome'', JStr ''canceled'')]))"

definition splice_of_json :: "json \<Rightarrow> inbox_splice option" where
  "splice_of_json j =
     (case fields_of [''target'', ''start'', ''removed_count'', ''inserted'', ''outcome''] j of
        None \<Rightarrow> None
      | Some f \<Rightarrow>
          (case (Option.bind (f ''target'') target_of_json, Option.bind (f ''start'') as_u64,
                 opt_field as_u64 (f ''removed_count''), vec_field pending_of_json (f ''inserted''),
                 opt_field outcome_of_json (f ''outcome'')) of
             (Some t, Some s, Some r, Some ins, Some out) \<Rightarrow>
               Some \<lparr>sp_target = t, sp_start = s, sp_removed_count = r, sp_inserted = ins, sp_outcome = out\<rparr>
           | _ \<Rightarrow> None))"

section \<open>The queues\<close>

fun queue :: "inbox_target \<Rightarrow> inbox \<Rightarrow> pending_message list" where
  "queue NextTurn ib = next_turn ib"
| "queue NextStep ib = next_step ib"

fun set_queue :: "inbox_target \<Rightarrow> pending_message list \<Rightarrow> inbox \<Rightarrow> inbox" where
  "set_queue NextTurn q ib = ib\<lparr>next_turn := q\<rparr>"
| "set_queue NextStep q ib = ib\<lparr>next_step := q\<rparr>"

fun other_target :: "inbox_target \<Rightarrow> inbox_target" where
  "other_target NextTurn = NextStep"
| "other_target NextStep = NextTurn"

definition has_pending :: "inbox \<Rightarrow> bool" where
  "has_pending ib \<longleftrightarrow> next_turn ib \<noteq> [] \<or> next_step ib \<noteq> []"

definition normalize_start :: "int \<Rightarrow> nat \<Rightarrow> nat" where
  "normalize_start start len = (if start < 0 then len - nat \<bar>start\<bar> else min (nat start) len)"

definition normalize_delete :: "int \<Rightarrow> nat \<Rightarrow> nat" where
  "normalize_delete count available = (if count \<le> 0 then 0 else min (nat count) available)"

text \<open>The first element that is already among those before it (the \<^verbatim>\<open>seen\<close> set of the code).\<close>

fun first_repeat :: "string list \<Rightarrow> string list \<Rightarrow> string option" where
  "first_repeat seen [] = None"
| "first_repeat seen (x # xs) = (if x \<in> set seen then Some x else first_repeat (x # seen) xs)"

definition check_splice :: "inbox_splice \<Rightarrow> inbox \<Rightarrow> inbox_error + unit" where
  "check_splice s ib =
     (let q = queue (sp_target s) ib; removed = sp_removed s in
      if sp_start s > length q \<or> sp_start s + removed > length q
      then Inl (OutOfRange (sp_start s) removed (length q))
      else (let after = map pm_id (take (sp_start s) q) @ map pm_id (sp_inserted s)
                  @ map pm_id (drop (sp_start s + removed) q)
                  @ map pm_id (queue (other_target (sp_target s)) ib)
            in case first_repeat [] after of Some i \<Rightarrow> Inl (AlreadyPending i) | None \<Rightarrow> Inr ()))"

definition apply_splice :: "inbox_splice \<Rightarrow> inbox \<Rightarrow> pending_message list \<times> inbox" where
  "apply_splice s ib =
     (let q = queue (sp_target s) ib; n = sp_removed s
      in (take n (drop (sp_start s) q),
          set_queue (sp_target s) (take (sp_start s) q @ sp_inserted s @ drop (sp_start s + n) q) ib))"

fun replay_from :: "session_event list \<Rightarrow> inbox \<Rightarrow> inbox_error + inbox" where
  "replay_from [] ib = Inr ib"
| "replay_from (e # es) ib =
     (if ty e \<noteq> ''agent/inbox/spliced'' then replay_from es ib
      else (case splice_of_json (data e) of
          None \<Rightarrow> Inl (InvalidPersisted (seq e) None)
        | Some s \<Rightarrow>
            (case check_splice s ib of
               Inl x \<Rightarrow> Inl (InvalidPersisted (seq e) (Some x))
             | Inr _ \<Rightarrow> replay_from es (snd (apply_splice s ib)))))"

definition replay_inbox :: "session_event list \<Rightarrow> inbox_error + inbox" where
  "replay_inbox es = replay_from es new_inbox"

definition mutate ::
  "'l appender \<Rightarrow> inbox_target \<Rightarrow> int \<Rightarrow> int \<Rightarrow> pending_message list \<Rightarrow> bool \<Rightarrow> inbox \<Rightarrow> 'l
   \<Rightarrow> (inbox_error + spliced) \<times> inbox \<times> 'l"
where
  "mutate app target start count inserted cancels ib l =
     (let len = length (queue target ib);
          st = normalize_start start len;
          removed = normalize_delete count (len - st)
      in if removed = 0 \<and> inserted = [] then (Inr \<lparr>spliced_removed = [], spliced_notes = []\<rparr>, ib, l)
         else (let s = \<lparr>sp_target = target, sp_start = st,
                        sp_removed_count = (if removed > 0 then Some removed else None),
                        sp_inserted = inserted,
                        sp_outcome = (if cancels \<and> removed > 0 then Some Canceled else None)\<rparr>
               in case check_splice s ib of
                    Inl x \<Rightarrow> (Inl x, ib, l)
                  | Inr _ \<Rightarrow>
                      (case app l ''agent/inbox/spliced'' (json_of_splice s) None of
                         (Inl x, l1) \<Rightarrow> (Inl (JournalRefused x), ib, l1)
                       | (Inr _, l1) \<Rightarrow>
                           (let (gone, ib') = apply_splice s ib
                            in (Inr \<lparr>spliced_removed = gone,
                                    spliced_notes = (if cancels then map Discarded gone else [])
                                      @ map Inserted inserted\<rparr>, ib', l1)))))"

definition splice ::
  "'l appender \<Rightarrow> inbox_target \<Rightarrow> int \<Rightarrow> int \<Rightarrow> pending_message list \<Rightarrow> inbox \<Rightarrow> 'l
   \<Rightarrow> (inbox_error + spliced) \<times> inbox \<times> 'l"
where
  "splice app target start count inserted ib l = mutate app target start count inserted True ib l"

definition append_pending ::
  "'l appender \<Rightarrow> inbox_target \<Rightarrow> pending_message \<Rightarrow> inbox \<Rightarrow> 'l
   \<Rightarrow> (inbox_error + notification list) \<times> inbox \<times> 'l"
where
  "append_pending app target m ib l =
     (case splice app target (int (length (queue target ib))) 0 [m] ib l of
        (r, ib', l') \<Rightarrow> (map_sum id spliced_notes r, ib', l'))"

definition prepend_pending ::
  "'l appender \<Rightarrow> inbox_target \<Rightarrow> pending_message \<Rightarrow> inbox \<Rightarrow> 'l
   \<Rightarrow> (inbox_error + notification list) \<times> inbox \<times> 'l"
where
  "prepend_pending app target m ib l =
     (case splice app target 0 0 [m] ib l of (r, ib', l') \<Rightarrow> (map_sum id spliced_notes r, ib', l'))"

text \<open>\<^verbatim>\<open>next-turn\<close> is searched first.\<close>

definition locate :: "string \<Rightarrow> inbox \<Rightarrow> (inbox_target \<times> nat) option" where
  "locate i ib =
     (case position (\<lambda>m. pm_id m = i) (next_turn ib) of
        Some n \<Rightarrow> Some (NextTurn, n)
      | None \<Rightarrow> map_option (\<lambda>n. (NextStep, n)) (position (\<lambda>m. pm_id m = i) (next_step ib)))"

definition replace_pending ::
  "'l appender \<Rightarrow> string \<Rightarrow> pending_message \<Rightarrow> inbox \<Rightarrow> 'l
   \<Rightarrow> (inbox_error + notification list option) \<times> inbox \<times> 'l"
where
  "replace_pending app i m ib l =
     (case locate i ib of
        None \<Rightarrow> (Inr None, ib, l)
      | Some (target, n) \<Rightarrow>
          (case splice app target (int n) 1 [m] ib l of
             (r, ib', l') \<Rightarrow> (map_sum id (Some \<circ> spliced_notes) r, ib', l')))"

definition remove_pending ::
  "'l appender \<Rightarrow> string \<Rightarrow> inbox \<Rightarrow> 'l \<Rightarrow> (inbox_error + notification list option) \<times> inbox \<times> 'l"
where
  "remove_pending app i ib l =
     (case locate i ib of
        None \<Rightarrow> (Inr None, ib, l)
      | Some (target, n) \<Rightarrow>
          (case splice app target (int n) 1 [] ib l of
             (r, ib', l') \<Rightarrow> (map_sum id (Some \<circ> spliced_notes) r, ib', l')))"

text \<open>\<^verbatim>\<open>next-step\<close> first, then \<^verbatim>\<open>next-turn\<close>.\<close>

definition clear_inbox ::
  "'l appender \<Rightarrow> inbox \<Rightarrow> 'l \<Rightarrow> (inbox_error + notification list) \<times> inbox \<times> 'l"
where
  "clear_inbox app ib l =
     (case splice app NextStep 0 (int (length (next_step ib))) [] ib l of
        (Inl x, ib1, l1) \<Rightarrow> (Inl x, ib1, l1)
      | (Inr a, ib1, l1) \<Rightarrow>
          (case splice app NextTurn 0 (int (length (next_turn ib1))) [] ib1 l1 of
             (Inl x, ib2, l2) \<Rightarrow> (Inl x, ib2, l2)
           | (Inr b, ib2, l2) \<Rightarrow> (Inr (spliced_notes a @ spliced_notes b), ib2, l2)))"

definition claim ::
  "'l appender \<Rightarrow> inbox_target \<Rightarrow> nat \<Rightarrow> inbox \<Rightarrow> 'l \<Rightarrow> (inbox_error + claimed) \<times> inbox \<times> 'l"
where
  "claim app target turn ib l =
     (let batch = (\<lambda>ms. \<lparr>claimed_messages = ms, claimed_notes = map (\<lambda>m. Claimed m turn) ms\<rparr>) in
      case mutate app NextStep 0 (int (length (next_step ib))) [] False ib l of
        (Inl x, ib1, l1) \<Rightarrow> (Inl x, ib1, l1)
      | (Inr a, ib1, l1) \<Rightarrow>
          if target = NextTurn then
            (case mutate app NextTurn 0 1 [] False ib1 l1 of
               (Inl x, ib2, l2) \<Rightarrow> (Inl x, ib2, l2)
             | (Inr b, ib2, l2) \<Rightarrow> (Inr (batch (spliced_removed a @ spliced_removed b)), ib2, l2))
          else (Inr (batch (spliced_removed a)), ib1, l1))"

text \<open>A fork's seed is skipped: \<^verbatim>\<open>seq 0\<close> is the child's header and names the last copied event.\<close>

definition own_suffix :: "session_event list \<Rightarrow> session_event list" where
  "own_suffix es =
     (case es of
        [] \<Rightarrow> es
      | first # _ \<Rightarrow>
          if ty first \<noteq> ''session/start'' then es
          else (case Option.bind (jget (data first) ''fork_seq'') as_u64 of
              None \<Rightarrow> es
            | Some fork_seq \<Rightarrow> drop (min (fork_seq + 1) (length es)) es))"

section \<open>The JSON form round-trips\<close>

lemma fields_of_jobj [simp]: "fields_of names (jobj kvs) = Some (map_of (rev kvs))"
proof -
  have "map_of (fold (\<lambda>(k, v). om_insert k v) kvs []) k = map_of (rev kvs) k" for k
    by (simp add: map_of_fold_om_insert split: option.split)
  then show ?thesis by (simp add: fields_of_def jobj_def ext)
qed

lemma list_of_json_map:
  "(\<And>x. x \<in> set xs \<Longrightarrow> dec (enc x) = Some x) \<Longrightarrow> list_of_json dec (JArr (map enc xs)) = Some xs"
  by (auto simp: list_of_json_def list_all_iff o_def intro: map_idI)

lemma call_round_trip [simp]: "call_of_json (json_of_call c) = Some c"
  by (simp add: json_of_call_def jobj_def map_of_fold_om_insert str_field_def)

lemma role_round_trip [simp]: "role_of_str (role_str r) = Some r"
  by (cases r) simp_all

lemma message_round_trip [simp]: "message_of_json (json_of_message m) = Some m"
proof -
  have "list_of_json call_of_json (JArr (map json_of_call (m_calls m))) = Some (m_calls m)"
    by (rule list_of_json_map) simp
  then show ?thesis
    by (cases "m_call_id m")
      (simp_all add: json_of_message_def message_of_json_def str_field_def vec_field_def opt_field_def
        del: role_of_str.simps)
qed

lemma pending_round_trip [simp]: "pending_of_json (json_of_pending p) = Some p"
  by (simp add: json_of_pending_def pending_of_json_def str_field_def)

lemma target_round_trip [simp]: "target_of_json (JStr (target_str t)) = Some t"
  by (cases t) (simp_all add: target_of_json_def)

lemma splice_round_trip:
  assumes "sp_start s < 2 ^ 64" and "sp_removed s < 2 ^ 64"
  shows "splice_of_json (json_of_splice s) = Some s"
proof -
  have "list_of_json pending_of_json (JArr (map json_of_pending (sp_inserted s))) = Some (sp_inserted s)"
    by (rule list_of_json_map) simp
  moreover have "outcome_of_json (JStr ''canceled'') = Some Canceled" by (simp add: outcome_of_json_def)
  moreover have "sp_outcome s = None \<or> sp_outcome s = Some Canceled"
    by (metis option.exhaust splice_outcome.exhaust)
  ultimately show ?thesis
    using assms
    by (cases "sp_removed_count s"; elim disjE)
      (simp_all add: json_of_splice_def splice_of_json_def vec_field_def opt_field_def sp_removed_def jnat_def)
qed

section \<open>One mutation\<close>

lemma first_repeat_None: "first_repeat seen xs = None \<longleftrightarrow> distinct xs \<and> set xs \<inter> set seen = {}"
  by (induction seen xs rule: first_repeat.induct) auto

definition inbox_ids :: "inbox \<Rightarrow> string list" where
  "inbox_ids ib = map pm_id (next_turn ib) @ map pm_id (next_step ib)"

lemma queue_set_queue [simp]:
  "queue t (set_queue t q ib) = q" "queue (other_target t) (set_queue t q ib) = queue (other_target t) ib"
  by (cases t; simp)+

lemma distinct_ids_queue:
  "distinct (inbox_ids ib) \<longleftrightarrow> distinct (map pm_id (queue t ib) @ map pm_id (queue (other_target t) ib))"
  by (cases t) (auto simp: inbox_ids_def)

lemma checked_apply:
  assumes "check_splice s ib = Inr ()"
  shows "distinct (inbox_ids (snd (apply_splice s ib)))"
  using assms
  by (simp add: distinct_ids_queue [of _ "sp_target s"] apply_splice_def check_splice_def Let_def
      first_repeat_None append.assoc split: if_splits option.splits)

lemma replay_from_append:
  "replay_from (es @ fs) ib = (case replay_from es ib of Inl x \<Rightarrow> Inl x | Inr ib' \<Rightarrow> replay_from fs ib')"
  by (induction es ib rule: replay_from.induct) (auto split: option.splits sum.splits)

text \<open>What a mutation can come to, over any log.\<close>

lemma mutate_cases:
  assumes "mutate app target start count inserted cancels ib l = (r, ib', l')"
  obtains (idle) "r = Inr \<lparr>spliced_removed = [], spliced_notes = []\<rparr>" and "ib' = ib" and "l' = l"
      and "normalize_delete count (length (queue target ib) - normalize_start start (length (queue target ib))) = 0"
  | (refused) x where "r = Inl x" and "ib' = ib" and "l' = l"
  | (journal) x d where "r = Inl (JournalRefused x)" and "ib' = ib"
      and "app l ''agent/inbox/spliced'' d None = (Inl x, l')"
  | (spliced) s e nts where "check_splice s ib = Inr ()" and "sp_target s = target"
      and "sp_start s = normalize_start start (length (queue target ib))"
      and "sp_removed s = normalize_delete count (length (queue target ib) - sp_start s)"
      and "sp_inserted s = inserted"
      and "app l ''agent/inbox/spliced'' (json_of_splice s) None = (Inr e, l')"
      and "ib' = snd (apply_splice s ib)"
      and "r = Inr \<lparr>spliced_removed = fst (apply_splice s ib), spliced_notes = nts\<rparr>"
proof -
  let ?st = "normalize_start start (length (queue target ib))"
  let ?rm = "normalize_delete count (length (queue target ib) - ?st)"
  let ?s = "\<lparr>sp_target = target, sp_start = ?st, sp_removed_count = (if ?rm > 0 then Some ?rm else None),
      sp_inserted = inserted, sp_outcome = (if cancels \<and> ?rm > 0 then Some Canceled else None)\<rparr>"
  have rm: "sp_removed ?s = ?rm" by (simp add: sp_removed_def)
  show thesis
  proof (cases "?rm = 0 \<and> inserted = []")
    case True
    show thesis by (rule idle) (use assms True in \<open>simp_all add: mutate_def Let_def\<close>)
  next
    case False
    show thesis
    proof (cases "check_splice ?s ib")
      case (Inl x)
      show thesis by (rule refused [of x]) (use assms False Inl in \<open>simp_all add: mutate_def Let_def\<close>)
    next
      case (Inr u)
      obtain r1 l1 where a: "app l ''agent/inbox/spliced'' (json_of_splice ?s) None = (r1, l1)"
        by (metis surj_pair)
      show thesis
      proof (cases r1)
        case (Inl x)
        show thesis
          by (rule journal [of x]) (use assms False Inr a Inl in \<open>simp_all add: mutate_def Let_def\<close>)
      next
        case r1: (Inr e)
        show thesis
          by (rule spliced [of ?s e "(if cancels then map Discarded (fst (apply_splice ?s ib)) else [])
              @ map Inserted inserted"])
            (use assms False Inr a r1 rm in \<open>simp_all add: mutate_def Let_def case_prod_unfold\<close>)
      qed
    qed
  qed
qed

lemma normalize_start_le: "normalize_start start len \<le> len"
  by (simp add: normalize_start_def)

lemma normalize_delete_le: "normalize_delete count n \<le> n"
  by (simp add: normalize_delete_def)

text \<open>The queues in memory are always the queues the log folds to, and no id is pending twice.\<close>

definition inbox_agrees :: "session_event list \<Rightarrow> inbox \<Rightarrow> bool" where
  "inbox_agrees es ib \<longleftrightarrow> replay_inbox es = Inr ib \<and> distinct (inbox_ids ib)"

context session_log
begin

lemma mutate_agrees:
  assumes m: "mutate append target start count inserted cancels ib l = (r, ib', l')"
    and agrees: "inbox_agrees (events l) ib" and room: "length (queue target ib) < 2 ^ 64"
  shows "inbox_agrees (events l') ib'"
  using m
proof (cases rule: mutate_cases)
  case (journal x d)
  with append_err agrees show ?thesis by simp
next
  case (spliced s e nts)
  note ev = append_ok [OF spliced(6)]
  have "sp_start s < 2 ^ 64" and "sp_removed s < 2 ^ 64"
    using spliced(3,4) room normalize_start_le [of start "length (queue target ib)"]
      normalize_delete_le [of count "length (queue target ib) - sp_start s"] by linarith+
  then have "splice_of_json (data e) = Some s" using ev by (simp add: splice_round_trip)
  then have "replay_inbox (events l') = Inr ib'"
    using ev agrees spliced(1,7)
    by (simp add: inbox_agrees_def replay_inbox_def replay_from_append)
  then show ?thesis using checked_apply [OF spliced(1)] spliced(7) by (simp add: inbox_agrees_def)
qed (use agrees in simp_all)

lemma other_append_agrees:
  assumes "append l t d src = (r, l')" and "t \<noteq> ''agent/inbox/spliced''" and "inbox_agrees (events l) ib"
  shows "inbox_agrees (events l') ib"
proof (cases r)
  case (Inl x)
  with append_err assms show ?thesis by simp
next
  case (Inr e)
  with append_ok assms show ?thesis
    by (auto simp: inbox_agrees_def replay_inbox_def replay_from_append)
qed

end

section \<open>Runs on the journal\<close>

text \<open>
  One step of a session that owns an inbox: any splice (append, prepend, replace, remove and clear
  are splices), any claim, or another component's append.  A queue holds fewer entries than a
  64-bit count can name.
\<close>

inductive inbox_run :: "(session_event \<Rightarrow> string option) \<Rightarrow> inbox \<times> journal \<Rightarrow> inbox \<times> journal \<Rightarrow> bool"
  for enc
where
  spliced: "mutate (append_journal enc) target start count inserted cancels ib l = (r, ib', l')
     \<Longrightarrow> length (queue target ib) < 2 ^ 64 \<Longrightarrow> inbox_run enc (ib, l) (ib', l')"
| other: "append_journal enc l t d src = (r, l') \<Longrightarrow> t \<noteq> ''agent/inbox/spliced''
     \<Longrightarrow> inbox_run enc (ib, l) (ib, l')"

lemma inbox_run_agrees:
  "inbox_run enc x y \<Longrightarrow> inbox_agrees (j_events (snd x)) (fst x) \<Longrightarrow> inbox_agrees (j_events (snd y)) (fst y)"
  by (induction rule: inbox_run.induct)
    (auto intro: journal_log.mutate_agrees journal_log.other_append_agrees)


text \<open>Two messages are queued, the write of the second fails, and the first is still there.\<close>

definition demo_inbox :: "inbox \<times> journal" where
  "demo_inbox =
     (let (_, ib1, l1) = mutate (append_journal (\<lambda>e. Some ''x'')) NextStep 0 0 [pending_user ''m1'' ''hi''] True
            new_inbox (empty_journal [Written, NotSynced] []);
          (_, ib2, l2) = mutate (append_journal (\<lambda>e. Some ''x'')) NextStep (- 1) 0 [pending_user ''m2'' ''ho''] True ib1 l1
      in (ib2, l2))"


section \<open>What a boundary claims\<close>

lemma claim_one:
  assumes "mutate app target 0 (int n) [] False ib l = (Inr sp, ib', l')"
  shows "spliced_removed sp = take n (queue target ib) \<and> ib' = set_queue target (drop n (queue target ib)) ib"
  using assms
proof (cases rule: mutate_cases)
  case idle
  then have "n = 0 \<or> queue target ib = []"
    by (auto simp: normalize_delete_def normalize_start_def min_def split: if_splits)
  moreover have "set_queue target (queue target ib) ib = ib" by (cases target) simp_all
  ultimately show ?thesis using idle by auto
next
  case (spliced s e nts)
  have "sp_start s = 0" and "sp_removed s = min n (length (queue target ib))"
    using spliced(3,4) by (auto simp: normalize_delete_def normalize_start_def)
  then show ?thesis
    using spliced by (auto simp: apply_splice_def Let_def min_def)
qed simp_all

text \<open>
  A boundary takes the whole of the step queue, in order, and at a turn boundary the one
  prompt that has waited longest after it; what it takes is gone from the queues and what it
  leaves keeps its order, so every accepted message is delivered once.
\<close>

theorem claim_takes_batch:
  assumes "claim app target turn ib l = (Inr c, ib', l')"
  shows "claimed_messages c = next_step ib @ (if target = NextTurn then take 1 (next_turn ib) else [])
    \<and> next_step ib' = [] \<and> next_turn ib' = (if target = NextTurn then drop 1 (next_turn ib) else next_turn ib)
    \<and> claimed_notes c = map (\<lambda>m. Claimed m turn) (claimed_messages c)"
proof -
  obtain a ib1 l1 where m1: "mutate app NextStep 0 (int (length (next_step ib))) [] False ib l = (Inr a, ib1, l1)"
    using assms by (auto simp: claim_def Let_def split: sum.splits prod.splits)
  note one = claim_one [OF m1]
  show ?thesis
  proof (cases target)
    case NextTurn
    obtain b where m2: "mutate app NextTurn 0 (int 1) [] False ib1 l1 = (Inr b, ib', l')"
      and c: "c = \<lparr>claimed_messages = spliced_removed a @ spliced_removed b,
          claimed_notes = map (\<lambda>m. Claimed m turn) (spliced_removed a @ spliced_removed b)\<rparr>"
      using assms m1 NextTurn by (auto simp: claim_def Let_def split: sum.splits prod.splits)
    from one claim_one [OF m2] NextTurn show ?thesis by (simp add: c)
  next
    case NextStep
    with assms m1 have "ib' = ib1" and "c = \<lparr>claimed_messages = spliced_removed a,
        claimed_notes = map (\<lambda>m. Claimed m turn) (spliced_removed a)\<rparr>"
      by (auto simp: claim_def Let_def)
    with one NextStep show ?thesis by simp
  qed
qed

theorem claim_takes_batch_witness:
  "\<exists>c ib' l'. claim (append_journal (\<lambda>e. Some ''x'')) NextTurn 7
       \<lparr>next_turn = [pending_user ''a'' ''1'', pending_user ''b'' ''2''], next_step = [pending_user ''c'' ''3'']\<rparr>
       (empty_journal [] []) = (Inr c, ib', l')
     \<and> map pm_id (claimed_messages c) = [''c'', ''a''] \<and> map pm_id (next_turn ib') = [''b'']"
proof -
  let ?ib = "\<lparr>next_turn = [pending_user ''a'' ''1'', pending_user ''b'' ''2''], next_step = [pending_user ''c'' ''3'']\<rparr>"
  define a where "a = claim (append_journal (\<lambda>e. Some ''x'')) NextTurn 7 ?ib (empty_journal [] [])"
  have some: "case fst a of Inl _ \<Rightarrow> False | Inr _ \<Rightarrow> True" unfolding a_def by code_simp
  obtain r ib' l' where parts: "a = (r, ib', l')" by (metis prod_cases3)
  with some obtain c where "r = Inr c" by (cases r) simp_all
  with parts have "claim (append_journal (\<lambda>e. Some ''x'')) NextTurn 7 ?ib (empty_journal [] []) = (Inr c, ib', l')"
    by (simp only: a_def)
  from claim_takes_batch [OF this] this show ?thesis by (auto simp: pending_user_def)
qed

end
