(* ===== verification/Guards.thy ===== *)
theory Guards
  imports Turn_Log
begin

text \<open>
  The bounds of one turn, \<^verbatim>\<open>crates/turn/src/guard.rs\<close>.  The monotonic clock is the argument
  \<open>elapsed\<close>: the time since the turn opened, read where the code reads it.  \<open>enc_args\<close> is
  the JSON text of a call's arguments.
\<close>

record turn_guards =
  max_duration :: "nat option"
  repeat_bound :: "nat option"  \<comment> \<open>the field \<^verbatim>\<open>repeat_limit\<close>\<close>

definition repeat_limit :: "turn_guards \<Rightarrow> nat" where
  "repeat_limit g = (case repeat_bound g of Some n \<Rightarrow> (if n \<ge> 2 then n else 0) | None \<Rightarrow> 0)"

definition guards_set :: "turn_guards \<Rightarrow> bool" where
  "guards_set g \<longleftrightarrow> max_duration g \<noteq> None \<or> repeat_limit g > 0"

datatype guard_breach = TimedOut | Repeated

record turn_watch =
  w_guards :: turn_guards
  w_last :: "(string \<times> nat) option"

definition start_watch :: "turn_guards \<Rightarrow> turn_watch" where
  "start_watch g = \<lparr>w_guards = g, w_last = None\<rparr>"

text \<open>Each call is its name and its arguments, closed by the two separator characters.\<close>

definition signature :: "(json \<Rightarrow> string) \<Rightarrow> tool_call list \<Rightarrow> string" where
  "signature enc_args calls =
     concat (map (\<lambda>c. tc_name c @ [CHR 0x1F] @ enc_args (tc_args c) @ [CHR 0x1E]) calls)"

definition observe ::
  "(json \<Rightarrow> string) \<Rightarrow> tool_call list \<Rightarrow> turn_watch \<Rightarrow> guard_breach option \<times> turn_watch"
where
  "observe enc_args calls w =
     (let limit = repeat_limit (w_guards w) in
      if limit = 0 then (None, w)
      else if calls = [] then (None, w\<lparr>w_last := None\<rparr>)
      else (let s = signature enc_args calls;
                count = (case w_last w of
                           Some (previous, n) \<Rightarrow> (if previous = s then n + 1 else 1)
                         | None \<Rightarrow> 1)
            in (if count \<ge> limit then Some Repeated else None, w\<lparr>w_last := Some (s, count)\<rparr>)))"

definition breached :: "nat \<Rightarrow> turn_watch \<Rightarrow> guard_breach option" where
  "breached elapsed w =
     (case max_duration (w_guards w) of
        Some budget \<Rightarrow> (if elapsed \<ge> budget then Some TimedOut else None)
      | None \<Rightarrow> None)"

section \<open>What the repeat count counts\<close>

text \<open>The length of the run of equal batches at the end of what was observed.\<close>

fun run_length :: "string \<Rightarrow> string list \<Rightarrow> nat" where
  "run_length s [] = 0"
| "run_length s (x # xs) = (if x = s then Suc (run_length s xs) else 0)"

definition watch_of :: "(json \<Rightarrow> string) \<Rightarrow> turn_guards \<Rightarrow> tool_call list list \<Rightarrow> turn_watch" where
  "watch_of enc_args g batches = foldl (\<lambda>w b. snd (observe enc_args b w)) (start_watch g) batches"

lemma watch_guards [simp]: "w_guards (watch_of enc_args g batches) = g"
  by (induction batches rule: rev_induct)
    (simp_all add: watch_of_def start_watch_def observe_def Let_def split: if_splits)

lemma watch_last:
  assumes "repeat_limit g \<noteq> 0" and "\<forall>b\<in>set batches. b \<noteq> []"
  shows "w_last (watch_of enc_args g batches) =
    (if batches = [] then None
     else (let s = signature enc_args (last batches)
           in Some (s, run_length s (rev (map (signature enc_args) batches)))))"
  using assms(2)
proof (induction batches rule: rev_induct)
  case Nil
  then show ?case by (simp add: watch_of_def start_watch_def)
next
  case (snoc b bs)
  have step: "watch_of enc_args g (bs @ [b]) = snd (observe enc_args b (watch_of enc_args g bs))"
    by (simp add: watch_of_def)
  have "run_length s (rev (map (signature enc_args) bs)) =
      (if bs \<noteq> [] \<and> signature enc_args (last bs) = s then run_length s (rev (map (signature enc_args) bs)) else 0)" for s
    by (cases bs rule: rev_cases) auto
  moreover obtain w where w: "watch_of enc_args g bs = w" "w_guards w = g" by simp
  ultimately show ?case
    using snoc assms(1) unfolding step w(1)
    by (cases bs rule: rev_cases) (auto simp: w(2) observe_def Let_def)
qed

lemma observe_breach:
  assumes "\<forall>b\<in>set (batches @ [b]). b \<noteq> []"
  shows "fst (observe enc_args b (watch_of enc_args g batches)) = Some Repeated \<longleftrightarrow>
    repeat_limit g \<noteq> 0
    \<and> run_length (signature enc_args b) (rev (map (signature enc_args) (batches @ [b]))) \<ge> repeat_limit g"
proof (cases "repeat_limit g = 0")
  case False
  have "run_length s (rev (map (signature enc_args) batches)) =
      (if batches \<noteq> [] \<and> signature enc_args (last batches) = s
       then run_length s (rev (map (signature enc_args) batches)) else 0)" for s
    by (cases batches rule: rev_cases) auto
  with False assms watch_last [OF False, of batches] show ?thesis
    by (cases batches rule: rev_cases) (auto simp: observe_def Let_def)
qed (simp add: observe_def)

end
