(* ===== verification/Tools.thy ===== *)
theory Tools
  imports Turn_Log Effects Line_Store "HOL-Library.Multiset"
begin

text \<open>
  The tool registry, \<^verbatim>\<open>crates/turn/src/tools.rs\<close>: how a call is classified, whether it must be
  decided, what the journal may keep of it, and the order the model reads its tools in.  A tool is
  somebody else's code, so each of its methods is a function that may end in a panic; the ones the
  registry calls on the way to a call are contained, every one in its own safe direction.
  \<open>debug\<close> is the standard library's quoted form of a string (\<^verbatim>\<open>{:?}\<close>).
\<close>

record tool_schema =
  sc_name :: string
  sc_description :: string
  sc_parameters :: json

record tool_outcome =
  o_ok :: bool
  o_content :: string

definition outcome_ok :: "string \<Rightarrow> tool_outcome" where
  "outcome_ok c = \<lparr>o_ok = True, o_content = c\<rparr>"

definition outcome_failed :: "string \<Rightarrow> tool_outcome" where
  "outcome_failed c = \<lparr>o_ok = False, o_content = c\<rparr>"

datatype tool_error = ToolFailed string string | UnknownTool string | InvalidArguments string string

definition tool_error_text :: "(string \<Rightarrow> string) \<Rightarrow> tool_error \<Rightarrow> string" where
  "tool_error_text debug x =
     (case x of
        ToolFailed n m \<Rightarrow> ''tool '' @ debug n @ '' failed: '' @ m
      | UnknownTool n \<Rightarrow> ''unknown tool '' @ debug n
      | InvalidArguments n m \<Rightarrow> ''invalid arguments for '' @ debug n @ '': '' @ m)"

datatype tool_mode = Overlapping | Exclusive  \<comment> \<open>\<^verbatim>\<open>Parallel\<close> is \<open>Overlapping\<close>\<close>

datatype permission = Allow | AskFirst string | Deny string  \<comment> \<open>\<^verbatim>\<open>Ask\<close> is \<open>AskFirst\<close>\<close>

fun rank :: "permission \<Rightarrow> nat" where
  "rank Allow = 0"
| "rank (AskFirst _) = 1"
| "rank (Deny _) = 2"

definition most_restrictive :: "permission \<Rightarrow> permission \<Rightarrow> permission" where
  "most_restrictive p q = (if rank q > rank p then q else p)"

definition needs_decision :: "permission \<Rightarrow> bool" where
  "needs_decision p = (case p of AskFirst _ \<Rightarrow> True | _ \<Rightarrow> False)"

fun permission_reason :: "permission \<Rightarrow> string option" where
  "permission_reason Allow = None"
| "permission_reason (AskFirst r) = Some r"
| "permission_reason (Deny r) = Some r"

text \<open>\<open>tl_execute\<close> also acts on the session it runs in, through what its author wired into it.\<close>

record 'l tool =
  tl_schema :: tool_schema
  tl_mode :: "json \<Rightarrow> payload + tool_mode"
  tl_permission :: "json \<Rightarrow> payload + permission"
  tl_recorded :: "json \<Rightarrow> payload + json"
  tl_execute :: "json \<Rightarrow> 'l \<Rightarrow> (payload + (tool_error + tool_outcome)) \<times> 'l"

text \<open>A tool that says nothing beyond its schema and body has the trait's defaults.\<close>

definition plain_tool ::
  "tool_schema \<Rightarrow> (json \<Rightarrow> 'l \<Rightarrow> (payload + (tool_error + tool_outcome)) \<times> 'l) \<Rightarrow> 'l tool"
where
  "plain_tool sc f = \<lparr>tl_schema = sc, tl_mode = (\<lambda>_. Inr Exclusive), tl_permission = (\<lambda>_. Inr Allow),
     tl_recorded = Inr, tl_execute = f\<rparr>"

fun tool_fault :: "payload \<Rightarrow> string" where
  "tool_fault (StaticStr m) = m"
| "tool_fault (OwnedString m) = m"
| "tool_fault Opaque = ''<unprintable panic payload>''"

definition REDACTED :: string where
  "REDACTED = ''<redacted>''"

section \<open>Credential prompts\<close>

definition ascii_lower :: "string \<Rightarrow> string" where
  "ascii_lower s =
     map (\<lambda>c. if 65 \<le> (of_char c :: nat) \<and> (of_char c :: nat) \<le> 90 then char_of ((of_char c :: nat) + 32) else c) s"

text \<open>\<^verbatim>\<open>str::lines\<close>: each line without its newline, and without one carriage return before it.\<close>

definition str_lines :: "string \<Rightarrow> string list" where
  "str_lines s = map (\<lambda>line.
     if line \<noteq> [] \<and> last line = newline then
       (let l = butlast line in if l \<noteq> [] \<and> last l = CHR 0x0D then butlast l else l)
     else line) (split_inclusive s)"

definition occurs_at :: "string \<Rightarrow> string \<Rightarrow> nat \<Rightarrow> bool" where
  "occurs_at w s i \<longleftrightarrow> i + length w \<le> length s \<and> take (length w) (drop i s) = w"

definition rfind :: "string \<Rightarrow> string \<Rightarrow> nat option" where
  "rfind w s = find (occurs_at w s) (rev [0..<length s + 1])"

definition ASKING :: "string list" where
  "ASKING = [''password'', ''passphrase'', ''passcode'', ''pin'', ''verification code'',
     ''one-time code'', ''otp'']"

text \<open>\<open>alnum\<close> is \<^verbatim>\<open>char::is_alphanumeric\<close>, a table of the standard library.\<close>

definition asks_for :: "(string \<Rightarrow> bool) \<Rightarrow> string \<Rightarrow> string \<Rightarrow> bool" where
  "asks_for alnum line w =
     (case rfind w line of
        None \<Rightarrow> False
      | Some i \<Rightarrow>
          (let before = utf8_chars (take i line);
               after = trim_end (drop (i + length w) line)
           in (before = [] \<or> \<not> alnum (last before))
              \<and> (after = [] \<or> last after = CHR '':'' \<or> last after = CHR ''?'')))"

definition looks_like_a_password_prompt :: "(string \<Rightarrow> bool) \<Rightarrow> string \<Rightarrow> bool" where
  "looks_like_a_password_prompt alnum printed =
     (case find (\<lambda>line. trim line \<noteq> []) (rev (str_lines printed)) of
        None \<Rightarrow> False
      | Some line \<Rightarrow> list_ex (asks_for alnum (ascii_lower (trim_end line))) ASKING)"

section \<open>The registry\<close>

type_synonym 'l registry = "(string, 'l tool) omap"

definition register_tool :: "'l tool \<Rightarrow> 'l registry \<Rightarrow> 'l registry" where
  "register_tool t r = om_insert (sc_name (tl_schema t)) t r"

definition schemas :: "'l registry \<Rightarrow> tool_schema list" where
  "schemas r = map (tl_schema \<circ> snd) r"

definition tool_names :: "'l registry \<Rightarrow> string list" where
  "tool_names r = map fst r"

definition mode_of :: "'l registry \<Rightarrow> tool_call \<Rightarrow> tool_mode" where
  "mode_of r c =
     (case map_of r (tc_name c) of
        None \<Rightarrow> Exclusive
      | Some t \<Rightarrow> (case tl_mode t (tc_args c) of Inr m \<Rightarrow> m | Inl _ \<Rightarrow> Exclusive))"

definition recorded :: "'l registry \<Rightarrow> tool_call \<Rightarrow> json" where
  "recorded r c =
     (case map_of r (tc_name c) of
        None \<Rightarrow> tc_args c
      | Some t \<Rightarrow> (case tl_recorded t (tc_args c) of Inr j \<Rightarrow> j | Inl _ \<Rightarrow> JStr REDACTED))"

definition recorded_calls :: "'l registry \<Rightarrow> tool_call list \<Rightarrow> tool_call list" where
  "recorded_calls r cs = map (\<lambda>c. c\<lparr>tc_args := recorded r c\<rparr>) cs"

definition permission_of :: "(string \<Rightarrow> string) \<Rightarrow> 'l registry \<Rightarrow> tool_call \<Rightarrow> permission" where
  "permission_of debug r c =
     (case map_of r (tc_name c) of
        None \<Rightarrow> Allow
      | Some t \<Rightarrow>
          (case tl_permission t (tc_args c) of
             Inr p \<Rightarrow> p
           | Inl fault \<Rightarrow> AskFirst (''the '' @ debug (tc_name c) @
               '' tool could not say whether this call needs approval: its permission '' @
               ''classifier panicked ('' @ tool_fault fault @ '')'')))"

definition contained_tool ::
  "string \<Rightarrow> payload + (tool_error + tool_outcome) \<Rightarrow> tool_error + tool_outcome"
where
  "contained_tool n r = (case r of Inr out \<Rightarrow> out | Inl fault \<Rightarrow> Inl (ToolFailed n (tool_fault fault)))"

definition execute_tool ::
  "'l registry \<Rightarrow> tool_call \<Rightarrow> 'l \<Rightarrow> (tool_error + tool_outcome) \<times> 'l"
where
  "execute_tool r c l =
     (case map_of r (tc_name c) of
        None \<Rightarrow> (Inl (UnknownTool (tc_name c)), l)
      | Some t \<Rightarrow> (let (res, l1) = tl_execute t (tc_args c) l in (contained_tool (tc_name c) res, l1)))"

section \<open>A configured order\<close>

definition TOOL_ORDER_REST :: string where
  "TOOL_ORDER_REST = ''<unlisted-tools>''"

datatype tool_order_error =
    DuplicateName string
  | NoRest
  | ReservedName
  | Unregistered "string list" "string list"

text \<open>The first name of the list that an earlier one repeats.\<close>

fun first_duplicate :: "string set \<Rightarrow> string list \<Rightarrow> string option" where
  "first_duplicate seen [] = None"
| "first_duplicate seen (n # ns) = (if n \<in> seen then Some n else first_duplicate (insert n seen) ns)"

definition new_order :: "string list \<Rightarrow> 'l registry \<Rightarrow> tool_order_error + string list" where
  "new_order names r =
     (case first_duplicate {} names of
        Some n \<Rightarrow> Inl (DuplicateName n)
      | None \<Rightarrow>
          if TOOL_ORDER_REST \<notin> set names then Inl NoRest
          else if map_of r TOOL_ORDER_REST \<noteq> None then Inl ReservedName
          else (let missing = filter (\<lambda>n. n \<noteq> TOOL_ORDER_REST \<and> map_of r n = None) names in
                if missing \<noteq> [] then Inl (Unregistered missing (tool_names r)) else Inr names))"

definition schemas_in :: "string list \<Rightarrow> 'l registry \<Rightarrow> tool_schema list" where
  "schemas_in order r =
     concat (map (\<lambda>n.
       if n = TOOL_ORDER_REST
       then map (tl_schema \<circ> snd) (filter (\<lambda>(k, _). k \<notin> set order) r)
       else (case map_of r n of None \<Rightarrow> [] | Some t \<Rightarrow> [tl_schema t])) order)"

fun subset_loop :: "'l registry \<Rightarrow> string list \<Rightarrow> 'l registry \<Rightarrow> string list \<Rightarrow> 'l registry \<times> string list" where
  "subset_loop r [] kept missing = (kept, missing)"
| "subset_loop r (n # ns) kept missing =
     (case map_of r n of
        Some t \<Rightarrow> subset_loop r ns (register_tool t kept) missing
      | None \<Rightarrow> subset_loop r ns kept (missing @ [n]))"

definition subset_tools :: "string list \<Rightarrow> 'l registry \<Rightarrow> tool_order_error + 'l registry" where
  "subset_tools names r =
     (let (kept, missing) = subset_loop r names [] [] in
      if missing \<noteq> [] then Inl (Unregistered missing (tool_names r)) else Inr kept)"

section \<open>Every tool is offered once\<close>

text \<open>A registry is filled by registration only, so each tool sits under its schema's name.\<close>

definition registry_ok :: "'l registry \<Rightarrow> bool" where
  "registry_ok r \<longleftrightarrow> om_wf r \<and> (\<forall>(k, t)\<in>set r. k = sc_name (tl_schema t))"

lemma registry_ok_Nil [simp]: "registry_ok []"
  by (simp add: registry_ok_def)

lemma registry_ok_register: "registry_ok r \<Longrightarrow> registry_ok (register_tool t r)"
  unfolding registry_ok_def register_tool_def
  by (auto simp: om_wf_insert om_wf_map_of_iff [symmetric] split: if_splits)

lemma registry_ok_lookup: "registry_ok r \<Longrightarrow> map_of r n = Some t \<Longrightarrow> sc_name (tl_schema t) = n"
  by (auto simp: registry_ok_def dest: map_of_SomeD)

lemma first_duplicate_None:
  "first_duplicate seen ns = None \<longleftrightarrow> distinct ns \<and> set ns \<inter> seen = {}"
  by (induction ns arbitrary: seen) auto

lemma listed_schemas:
  assumes "registry_ok r" and "TOOL_ORDER_REST \<notin> set ns" and "\<forall>n\<in>set ns. map_of r n \<noteq> None"
  shows "map sc_name (concat (map (\<lambda>n. if n = TOOL_ORDER_REST then X
       else (case map_of r n of None \<Rightarrow> [] | Some t \<Rightarrow> [tl_schema t])) ns)) = ns"
  using assms(2,3) by (induction ns) (auto simp: registry_ok_lookup [OF assms(1)] split: option.splits)

lemma rest_schemas:
  assumes "registry_ok r"
  shows "map sc_name (map (tl_schema \<circ> snd) (filter (\<lambda>(k, _). k \<notin> S) r)) = filter (\<lambda>k. k \<notin> S) (map fst r)"
proof -
  have "\<forall>(k, t)\<in>set r. k = sc_name (tl_schema t)" using assms by (simp add: registry_ok_def)
  then show ?thesis by (induction r) auto
qed

text \<open>
  A checked order offers every registered tool exactly once: the tools it lists stand in its
  order, and the ones it does not name stand together at its rest entry, in canonical order; so
  arranging the tools neither hides one from the model nor repeats it.
\<close>

theorem tool_order_complete:
  assumes "registry_ok r" and "new_order names r = Inr order"
  shows "\<exists>before after. order = before @ TOOL_ORDER_REST # after
    \<and> map sc_name (schemas_in order r)
        = before @ filter (\<lambda>k. k \<notin> set order) (tool_names r) @ after
    \<and> sorted_wrt (<) (filter (\<lambda>k. k \<notin> set order) (tool_names r))
    \<and> mset (map sc_name (schemas_in order r)) = mset (map sc_name (schemas r))"
proof -
  have order: "order = names" "distinct names" "TOOL_ORDER_REST \<in> set names"
      "map_of r TOOL_ORDER_REST = None" "\<forall>n\<in>set names. n \<noteq> TOOL_ORDER_REST \<longrightarrow> map_of r n \<noteq> None"
    using assms(2)
    by (auto simp: new_order_def first_duplicate_None filter_empty_conv Let_def
        split: if_splits option.splits)
  obtain before after where split: "order = before @ TOOL_ORDER_REST # after"
    and out: "TOOL_ORDER_REST \<notin> set before" "TOOL_ORDER_REST \<notin> set after"
    using order(1,2,3) by (metis distinct.simps(2) distinct_append not_distinct_conv_prefix split_list_first split_list)
  have inn: "\<forall>n\<in>set before \<union> set after. n \<in> set names \<and> n \<noteq> TOOL_ORDER_REST"
    using split order(1) out by auto
  have reg: "\<forall>n\<in>set before. map_of r n \<noteq> None" "\<forall>n\<in>set after. map_of r n \<noteq> None"
    using inn order(5) by auto
  let ?rest = "filter (\<lambda>k. k \<notin> set order) (tool_names r)"
  have names: "map sc_name (schemas_in order r) = before @ ?rest @ after"
    using listed_schemas [OF assms(1) out(1) reg(1)] listed_schemas [OF assms(1) out(2) reg(2)]
      rest_schemas [OF assms(1), of "set order"]
    unfolding schemas_in_def by (subst (2) split) (simp add: tool_names_def)
  have all: "map sc_name (schemas r) = tool_names r"
    using rest_schemas [OF assms(1), of "{}"] by (simp add: schemas_def tool_names_def case_prod_unfold)
  have sorted: "sorted_wrt (<) (tool_names r)"
    using assms(1) by (simp add: registry_ok_def om_wf_def tool_names_def)
  have dist: "distinct (tool_names r)" using assms(1) by (simp add: registry_ok_def om_wf_distinct tool_names_def)
  have "distinct (before @ ?rest @ after)"
    using order(1,2) split dist by auto
  moreover have "set (before @ ?rest @ after) = set (tool_names r)"
  proof -
    have in_r: "n \<in> set (tool_names r) \<longleftrightarrow> map_of r n \<noteq> None" for n
      by (auto simp: tool_names_def map_of_eq_None_iff)
    show ?thesis using reg split order(4) by (auto simp: in_r)
  qed
  ultimately have "mset (before @ ?rest @ after) = mset (tool_names r)"
    using dist by (metis set_eq_iff_mset_eq_distinct)
  then show ?thesis using split names all sorted
    by (intro exI [of _ before] exI [of _ after]) (simp add: sorted_wrt_filter)
qed

definition demo_tool :: "string \<Rightarrow> unit tool" where
  "demo_tool n = plain_tool \<lparr>sc_name = n, sc_description = '''', sc_parameters = JNull\<rparr>
     (\<lambda>_ u. (Inr (Inr (outcome_ok '''')), u))"

definition demo_tools_registry :: "unit registry" where
  "demo_tools_registry = fold (register_tool \<circ> demo_tool) [''read'', ''edit'', ''bash'', ''write''] []"

theorem tool_order_complete_witness:
  "map sc_name (schemas_in [''write'', ''<unlisted-tools>'', ''bash''] demo_tools_registry)
     = [''write'', ''edit'', ''read'', ''bash'']
   \<and> mset (map sc_name (schemas_in [''write'', ''<unlisted-tools>'', ''bash''] demo_tools_registry))
     = mset (map sc_name (schemas demo_tools_registry))"
proof -
  have "registry_ok demo_tools_registry"
    by (simp add: demo_tools_registry_def registry_ok_register)
  moreover have "new_order [''write'', ''<unlisted-tools>'', ''bash''] demo_tools_registry
      = Inr [''write'', ''<unlisted-tools>'', ''bash'']"
    and "map sc_name (schemas_in [''write'', ''<unlisted-tools>'', ''bash''] demo_tools_registry)
      = [''write'', ''edit'', ''read'', ''bash'']" by code_simp+
  ultimately show ?thesis using tool_order_complete by blast
qed

end
