(* ===== verification/Prompt.thy ===== *)
theory Prompt
  imports Turn_Log Tools "HOL-Library.Product_Lexorder"
begin

text \<open>
  What a step is assembled from: the prompt-section registry, \<^verbatim>\<open>crates/turn/src/prompt.rs\<close>, the
  assembled prompt of \<^verbatim>\<open>crates/turn/src/events.rs\<close>, and the runtime-context registry,
  \<^verbatim>\<open>crates/turn/src/context.rs\<close>.  A provider is a function of where it is asked, and may end
  in a panic: a prompt provider's unwinds, a context provider's is contained.
\<close>

record assemble_at =
  at_turn :: nat
  at_step :: nat

datatype prompt_error =
    DuplicateSection string
  | ReservedSection string
  | CompleteTaken string string  \<comment> \<open>held, refused\<close>
  | BadVariableName string
  | DuplicateVariable string
  | MalformedReference string string  \<comment> \<open>section, where\<close>
  | BadReference string string
  | UnknownVariable string string "string list"
  | NoValue string string

datatype section_text = Fixed string | Provided "assemble_at \<Rightarrow> payload + string"

definition resolve :: "assemble_at \<Rightarrow> section_text \<Rightarrow> payload + string" where
  "resolve p t = (case t of Fixed s \<Rightarrow> Inr s | Provided f \<Rightarrow> f p)"

record prompt_entry =
  pe_seq :: nat
  pe_id :: string
  pe_order :: int
  pe_text :: section_text
  pe_complete :: bool

record variable_entry =
  ve_seq :: nat
  ve_name :: string
  ve_provider :: "assemble_at \<Rightarrow> payload + string option"

record prompts =
  pr_entries :: "prompt_entry list"
  pr_variables :: "variable_entry list"
  pr_next :: nat

definition new_prompts :: prompts where
  "new_prompts = \<lparr>pr_entries = [], pr_variables = [], pr_next = 0\<rparr>"

type_synonym variables = "(string, string option) omap"

definition BASE_SECTION :: string where
  "BASE_SECTION = ''base''"

definition BASE_ORDER :: int where
  "BASE_ORDER = - 100"

section \<open>Registration\<close>

definition ascii_lowercase :: "char \<Rightarrow> bool" where
  "ascii_lowercase c \<longleftrightarrow> 97 \<le> (of_char c :: nat) \<and> (of_char c :: nat) \<le> 122"

definition ascii_digit :: "char \<Rightarrow> bool" where
  "ascii_digit c \<longleftrightarrow> 48 \<le> (of_char c :: nat) \<and> (of_char c :: nat) \<le> 57"

fun is_variable_name :: "string \<Rightarrow> bool" where
  "is_variable_name [] \<longleftrightarrow> False"
| "is_variable_name (c # cs) \<longleftrightarrow>
     ascii_lowercase c \<and> list_all (\<lambda>c. ascii_lowercase c \<or> ascii_digit c \<or> c = CHR ''_'') cs"

definition complete_id :: "prompts \<Rightarrow> string option" where
  "complete_id r = map_option pe_id (find pe_complete (pr_entries r))"

text \<open>The number a registration is taken back by, with the registry, when the name was free.\<close>

definition insert_section ::
  "string \<Rightarrow> int \<Rightarrow> section_text \<Rightarrow> bool \<Rightarrow> prompts \<Rightarrow> (nat \<times> prompts) option"
where
  "insert_section i n t whole r =
     (if \<exists>e\<in>set (pr_entries r). pe_id e = i then None
      else Some (pr_next r,
        r\<lparr>pr_next := pr_next r + 1,
          pr_entries := pr_entries r @ [\<lparr>pe_seq = pr_next r, pe_id = i, pe_order = n, pe_text = t,
            pe_complete = whole\<rparr>]\<rparr>))"

definition register_section ::
  "string \<Rightarrow> int \<Rightarrow> section_text \<Rightarrow> bool \<Rightarrow> prompts \<Rightarrow> prompt_error + nat \<times> prompts"
where
  "register_section i n t whole r =
     (if i = BASE_SECTION then Inl (ReservedSection i)
      else case (if whole then complete_id r else None) of
          Some held \<Rightarrow> Inl (CompleteTaken held i)
        | None \<Rightarrow>
            (case insert_section i n t whole r of None \<Rightarrow> Inl (DuplicateSection i) | Some x \<Rightarrow> Inr x))"

text \<open>\<^const>\<open>None\<close> is the panic of \<^verbatim>\<open>expect\<close>.\<close>

definition seed_base :: "string \<Rightarrow> prompts \<Rightarrow> (nat \<times> prompts) option" where
  "seed_base t r = insert_section BASE_SECTION BASE_ORDER (Fixed t) False r"

definition register_variable ::
  "string \<Rightarrow> (assemble_at \<Rightarrow> payload + string option) \<Rightarrow> prompts \<Rightarrow> prompt_error + nat \<times> prompts"
where
  "register_variable n f r =
     (if \<not> is_variable_name n then Inl (BadVariableName n)
      else if \<exists>v\<in>set (pr_variables r). ve_name v = n then Inl (DuplicateVariable n)
      else Inr (pr_next r,
        r\<lparr>pr_next := pr_next r + 1,
          pr_variables := pr_variables r @ [\<lparr>ve_seq = pr_next r, ve_name = n, ve_provider = f\<rparr>]\<rparr>))"

definition remove_section :: "nat \<Rightarrow> prompts \<Rightarrow> prompts" where
  "remove_section s r = r\<lparr>pr_entries := filter (\<lambda>e. pe_seq e \<noteq> s) (pr_entries r)\<rparr>"

definition remove_variable :: "nat \<Rightarrow> prompts \<Rightarrow> prompts" where
  "remove_variable s r = r\<lparr>pr_variables := filter (\<lambda>v. ve_seq v \<noteq> s) (pr_variables r)\<rparr>"

section \<open>Assembly\<close>

record prompt_section =
  ps_id :: string
  ps_text :: string

text \<open>Asks each in turn; the first panic is the answer.\<close>

fun ask_each :: "('a \<Rightarrow> payload + 'b) \<Rightarrow> 'a list \<Rightarrow> payload + 'b list" where
  "ask_each f [] = Inr []"
| "ask_each f (x # xs) =
     (case f x of
        Inl p \<Rightarrow> Inl p
      | Inr y \<Rightarrow> (case ask_each f xs of Inl p \<Rightarrow> Inl p | Inr ys \<Rightarrow> Inr (y # ys)))"

definition assemble :: "assemble_at \<Rightarrow> prompts \<Rightarrow> payload + prompt_section list" where
  "assemble p r =
     ask_each (\<lambda>e. map_sum id (\<lambda>t. \<lparr>ps_id = pe_id e, ps_text = t\<rparr>) (resolve p (pe_text e)))
       (sort_key (\<lambda>e. (pe_order e, pe_seq e)) (pr_entries r))"

definition variables_of :: "assemble_at \<Rightarrow> prompts \<Rightarrow> payload + variables" where
  "variables_of p r =
     map_sum id (\<lambda>kvs. fold (\<lambda>(k, v). om_insert k v) kvs [])
       (ask_each (\<lambda>v. map_sum id (\<lambda>x. (ve_name v, x)) (ve_provider v p)) (pr_variables r))"

section \<open>References in a section's text\<close>

definition is_brace :: "char \<Rightarrow> bool" where
  "is_brace c \<longleftrightarrow> c = CHR ''{'' \<or> c = CHR ''}''"

text \<open>\<^verbatim>\<open>str::find\<close>: where the first occurrence begins.\<close>

definition find_str :: "string \<Rightarrow> string \<Rightarrow> nat option" where
  "find_str w s = find (occurs_at w s) [0..<length s + 1]"

definition group_at :: "string \<Rightarrow> string option" where
  "group_at s =
     (if take 2 s \<noteq> ''{{'' then None
      else (let rest = drop 2 s; name = takeWhile (\<lambda>c. \<not> is_brace c) rest in
            if take 2 (drop (length name) rest) = ''}}'' then Some name else None))"

text \<open>Sixteen characters and an ellipsis.\<close>

definition head_of :: "string \<Rightarrow> string" where
  "head_of s = take_chars 16 s @ [CHR 0xE2, CHR 0x80, CHR 0xA6]"

lemma find_str_Some: "find_str w s = Some i \<Longrightarrow> occurs_at w s i"
  by (auto simp: find_str_def find_Some_iff)

lemma find_str_bound: "find_str w s = Some i \<Longrightarrow> i + length w \<le> length s"
  using find_str_Some by (force simp: occurs_at_def)

function interpolate :: "string \<Rightarrow> variables \<Rightarrow> string \<Rightarrow> prompt_error + string" where
  "interpolate sec vars s =
     (case find_str ''{{'' s of
        None \<Rightarrow> Inr s
      | Some offset \<Rightarrow>
          (let rest = drop offset s in
           case group_at rest of
             None \<Rightarrow>
               if find_str ''}}'' (drop 2 rest) \<noteq> None
               then Inl (MalformedReference sec (head_of rest))
               else map_sum id (\<lambda>out. take (offset + 2) s @ out) (interpolate sec vars (drop 2 rest))
           | Some name \<Rightarrow>
               if \<not> is_variable_name name then Inl (BadReference sec name)
               else (case map_of vars name of
                   None \<Rightarrow> Inl (UnknownVariable sec name (map fst vars))
                 | Some None \<Rightarrow> Inl (NoValue sec name)
                 | Some (Some v) \<Rightarrow>
                     map_sum id (\<lambda>out. take offset s @ v @ out)
                       (interpolate sec vars (drop (length name + 4) rest)))))"
  by pat_completeness auto
termination
  by (relation "measure (\<lambda>(_, _, s). length s)") (auto dest!: find_str_bound)

declare interpolate.simps [simp del]

record system_prompt =
  sp_sections :: "prompt_section list"
  sp_tools :: "tool_schema list"
  sp_variables :: variables

fun render_sections :: "variables \<Rightarrow> prompt_section list \<Rightarrow> prompt_error + string list" where
  "render_sections vars [] = Inr []"
| "render_sections vars (s # ss) =
     (case interpolate (ps_id s) vars (ps_text s) of
        Inl x \<Rightarrow> Inl x
      | Inr t \<Rightarrow> map_sum id (\<lambda>ts. if t \<noteq> [] then t # ts else ts) (render_sections vars ss))"

definition render_prompt :: "system_prompt \<Rightarrow> prompt_error + string" where
  "render_prompt p =
     map_sum id (join [CHR 0x0A, CHR 0x0A]) (render_sections (sp_variables p) (sp_sections p))"

section \<open>The runtime context\<close>

type_synonym contexts = "(int \<times> string, nat \<Rightarrow> payload + string) omap"

definition add_provider :: "string \<Rightarrow> int \<Rightarrow> (nat \<Rightarrow> payload + string) \<Rightarrow> contexts \<Rightarrow> contexts" where
  "add_provider n i f r = om_insert (i, n) f r"

definition remove_provider :: "string \<Rightarrow> int \<Rightarrow> contexts \<Rightarrow> contexts" where
  "remove_provider n i r = om_remove (i, n) r"

definition snapshot_parts :: "nat \<Rightarrow> contexts \<Rightarrow> context_part list" where
  "snapshot_parts turn r =
     map (\<lambda>((_, n), f). \<lparr>part_name = n, part_text = (case f turn of Inr t \<Rightarrow> t | Inl _ \<Rightarrow> [])\<rparr>) r"

section \<open>Interpolation is strict\<close>

lemma find_str_None: "find_str w s = None \<longleftrightarrow> (\<forall>i. \<not> occurs_at w s i)"
  by (auto simp: find_str_def find_None_iff occurs_at_def)

text \<open>A text that opens no reference is left as it is.\<close>

lemma interpolate_plain: "\<forall>i. \<not> occurs_at ''{{'' s i \<Longrightarrow> interpolate sec vars s = Inr s"
  by (subst interpolate.simps) (simp add: find_str_None [THEN iffD2])

text \<open>A complete group becomes its value, and the scan goes on behind it.\<close>

lemma interpolate_group:
  assumes "\<forall>i < length pre. \<not> occurs_at ''{{'' (pre @ ''{{'' @ name @ ''}}'' @ post) i"
    and "is_variable_name name" and "map_of vars name = Some (Some v)"
  shows "interpolate sec vars (pre @ ''{{'' @ name @ ''}}'' @ post)
     = map_sum id (\<lambda>out. pre @ v @ out) (interpolate sec vars post)"
proof -
  have nb: "\<forall>c\<in>set name. \<not> is_brace c"
    using assms(2) by (cases name) (auto simp: is_brace_def ascii_lowercase_def ascii_digit_def list_all_iff)
  have "find_str ''{{'' (pre @ ''{{'' @ name @ ''}}'' @ post) = Some (length pre)"
    using assms(1) unfolding find_str_def find_Some_iff
    by (intro exI [of _ "length pre"]) (auto simp: occurs_at_def simp del: upt_Suc)
  moreover have "group_at (''{{'' @ name @ ''}}'' @ post) = Some name"
    using nb by (simp add: group_at_def takeWhile_append2 is_brace_def Let_def)
  moreover have "drop (length name + 4) (''{{'' @ name @ ''}}'' @ post) = post"
    by (simp add: eval_nat_numeral)
  ultimately show ?thesis
    using assms(2,3) by (subst interpolate.simps) (simp add: Let_def)
qed

end
