(* ===== verification/Floats.thy ===== *)
theory Floats
  imports Complex_Main Prelude
begin

text \<open>
  The double-precision numbers of the sources (\<^verbatim>\<open>f64\<close>): the finite ones by their exact value,
  the infinities and the value that is not a number.  The sign of zero is not kept, which no
  modelled operation reads.  Rounding to the nearest double is the parameter \<open>rnd\<close>, which answers
  an infinity where the exact result is out of range; everything else is IEEE 754 as Rust uses it.
\<close>

datatype f64 = Fin rat | PosInf | NegInf | NaN

fun is_finite :: "f64 \<Rightarrow> bool" where
  "is_finite (Fin _) = True"
| "is_finite _ = False"

fun f_neg :: "f64 \<Rightarrow> f64" where
  "f_neg (Fin a) = Fin (- a)"
| "f_neg PosInf = NegInf"
| "f_neg NegInf = PosInf"
| "f_neg NaN = NaN"

fun f_add :: "(rat \<Rightarrow> f64) \<Rightarrow> f64 \<Rightarrow> f64 \<Rightarrow> f64" where
  "f_add rnd (Fin a) (Fin b) = rnd (a + b)"
| "f_add rnd NaN _ = NaN"
| "f_add rnd _ NaN = NaN"
| "f_add rnd PosInf NegInf = NaN"
| "f_add rnd NegInf PosInf = NaN"
| "f_add rnd PosInf _ = PosInf"
| "f_add rnd NegInf _ = NegInf"
| "f_add rnd _ x = x"

definition f_sub :: "(rat \<Rightarrow> f64) \<Rightarrow> f64 \<Rightarrow> f64 \<Rightarrow> f64" where
  "f_sub rnd a b = f_add rnd a (f_neg b)"

text \<open>The sign of a product or a quotient, one side of which is infinite.\<close>

fun f_sign :: "f64 \<Rightarrow> int" where
  "f_sign (Fin a) = (if a > 0 then 1 else if a < 0 then - 1 else 0)"
| "f_sign PosInf = 1"
| "f_sign NegInf = - 1"
| "f_sign NaN = 0"

definition f_inf :: "int \<Rightarrow> f64" where
  "f_inf s = (if s > 0 then PosInf else if s < 0 then NegInf else NaN)"

fun f_mul :: "(rat \<Rightarrow> f64) \<Rightarrow> f64 \<Rightarrow> f64 \<Rightarrow> f64" where
  "f_mul rnd (Fin a) (Fin b) = rnd (a * b)"
| "f_mul rnd a b = f_inf (f_sign a * f_sign b)"

text \<open>The divisor is not zero; the code checks that first.\<close>

fun f_div :: "(rat \<Rightarrow> f64) \<Rightarrow> f64 \<Rightarrow> f64 \<Rightarrow> f64" where
  "f_div rnd (Fin a) (Fin b) = rnd (a / b)"
| "f_div rnd NaN _ = NaN"
| "f_div rnd _ NaN = NaN"
| "f_div rnd (Fin a) _ = Fin 0"
| "f_div rnd a (Fin b) = f_inf (f_sign a * f_sign (Fin b))"
| "f_div rnd _ _ = NaN"

definition trunc :: "rat \<Rightarrow> int" where
  "trunc q = (if q \<ge> 0 then \<lfloor>q\<rfloor> else \<lceil>q\<rceil>)"

text \<open>The remainder keeps the sign of the dividend; it is exact.\<close>

fun f_rem :: "f64 \<Rightarrow> f64 \<Rightarrow> f64" where
  "f_rem (Fin a) (Fin b) = Fin (a - b * of_int (trunc (a / b)))"
| "f_rem (Fin a) PosInf = Fin a"
| "f_rem (Fin a) NegInf = Fin a"
| "f_rem _ _ = NaN"

fun f_lt :: "f64 \<Rightarrow> f64 \<Rightarrow> bool" where
  "f_lt (Fin a) (Fin b) \<longleftrightarrow> a < b"
| "f_lt NaN _ \<longleftrightarrow> False"
| "f_lt _ NaN \<longleftrightarrow> False"
| "f_lt a PosInf \<longleftrightarrow> a \<noteq> PosInf"
| "f_lt NegInf b \<longleftrightarrow> b \<noteq> NegInf"
| "f_lt _ _ \<longleftrightarrow> False"

fun f_eq :: "f64 \<Rightarrow> f64 \<Rightarrow> bool" where
  "f_eq NaN _ \<longleftrightarrow> False"
| "f_eq a b \<longleftrightarrow> a = b"

definition f_le :: "f64 \<Rightarrow> f64 \<Rightarrow> bool" where
  "f_le a b \<longleftrightarrow> f_lt a b \<or> f_eq a b"

fun f_floor :: "f64 \<Rightarrow> f64" where
  "f_floor (Fin a) = Fin (of_int \<lfloor>a\<rfloor>)"
| "f_floor x = x"

text \<open>\<^verbatim>\<open>x.fract() == 0.0\<close>.\<close>

fun f_whole :: "f64 \<Rightarrow> bool" where
  "f_whole (Fin a) \<longleftrightarrow> of_int \<lfloor>a\<rfloor> = a"
| "f_whole _ \<longleftrightarrow> False"

text \<open>\<^verbatim>\<open>as usize\<close> and \<^verbatim>\<open>as i64\<close> truncate, saturate, and read what is not a number as zero.\<close>

fun as_usize :: "f64 \<Rightarrow> nat" where
  "as_usize (Fin a) = nat (min (trunc a) (2 ^ 64 - 1))"
| "as_usize PosInf = nat (2 ^ 64 - 1)"
| "as_usize _ = 0"

fun as_i64 :: "f64 \<Rightarrow> int" where
  "as_i64 (Fin a) = max (- (2 ^ 63)) (min (trunc a) (2 ^ 63 - 1))"
| "as_i64 PosInf = 2 ^ 63 - 1"
| "as_i64 NegInf = - (2 ^ 63)"
| "as_i64 NaN = 0"

definition show_int :: "int \<Rightarrow> string" where
  "show_int i = (if i < 0 then ''-'' @ show_nat (nat (- i)) else show_nat (nat i))"

lemma trunc_of_int [simp]: "trunc (of_int i) = i"
  by (simp add: trunc_def)

lemma trunc_of_nat [simp]: "trunc (of_nat n) = int n"
  by (simp add: trunc_def)

lemma f_whole_int [simp]: "f_whole (Fin (of_int i))" "f_whole (Fin (of_nat n))"
  by simp_all

lemma as_usize_nat: "n < 2 ^ 64 \<Longrightarrow> as_usize (Fin (of_nat n)) = n"
  by simp

text \<open>A negative position is read as the first one.\<close>

lemma as_usize_negative: "a \<le> 0 \<Longrightarrow> as_usize (Fin a) = 0"
  by (simp add: trunc_def min_def)

end
