(* ===== verification/Llm.thy ===== *)
theory Llm
  imports Floats Turn_Log Tools
begin

text \<open>
  The provider seam, \<^verbatim>\<open>crates/turn/src/llm/mod.rs\<close>: requests, stream chunks, responses, and
  the classification of what a provider refused with.  A wait the provider asked for
  is a floating-point number.
\<close>

record model_request =
  mr_provider :: string
  mr_model :: string
  mr_messages :: "message list"
  mr_tools :: "tool_schema list"
  mr_max_tokens :: "nat option"

datatype stream_chunk = TextDelta string | ReasoningDelta string | CallChunk tool_call

record usage =
  us_prompt :: nat
  us_completion :: nat

record model_response =
  rs_content :: string
  rs_reasoning :: string
  rs_calls :: "tool_call list"
  rs_finish :: string
  rs_usage :: "usage option"

definition TRUNCATED_FINISH_REASONS :: "string list" where
  "TRUNCATED_FINISH_REASONS = [''length'', ''max_tokens'', ''max-tokens'']"

definition truncated :: "model_response \<Rightarrow> bool" where
  "truncated r \<longleftrightarrow> rs_finish r \<in> set TRUNCATED_FINISH_REASONS"

section \<open>Reading a refusal\<close>

definition ascii_alphanumeric :: "char \<Rightarrow> bool" where
  "ascii_alphanumeric c \<longleftrightarrow>
     (let n = (of_char c :: nat) in 48 \<le> n \<and> n \<le> 57 \<or> 65 \<le> n \<and> n \<le> 90 \<or> 97 \<le> n \<and> n \<le> 122)"

text \<open>
  The words of a text, a character that is no ASCII letter or digit being a separator; \<^verbatim>\<open>near\<close>
  splits the joined words again, so they are kept apart here.  An empty text has the one empty
  word that splitting an empty string gives.
\<close>

fun spans :: "string \<Rightarrow> string \<Rightarrow> string list" where
  "spans w [] = (if w = [] then [] else [rev w])"
| "spans w (c # cs) =
     (if ascii_alphanumeric c then spans (c # w) cs
      else if w = [] then spans [] cs else rev w # spans [] cs)"

definition normalized :: "string \<Rightarrow> string list" where
  "normalized detail = (case spans [] (ascii_lower detail) of [] \<Rightarrow> [[]] | ws \<Rightarrow> ws)"

definition starts_with :: "string list \<Rightarrow> string list \<Rightarrow> bool" where
  "starts_with p ws \<longleftrightarrow> take (length p) ws = p"

definition near :: "string list \<Rightarrow> string list \<Rightarrow> string list \<Rightarrow> nat \<Rightarrow> bool" where
  "near ws first second gap \<longleftrightarrow>
     list_ex (\<lambda>start. starts_with first (drop start ws) \<and>
       (let after = start + length first; limit = min (after + gap + length second) (length ws)
        in list_ex (\<lambda>i. starts_with second (drop i ws)) [after..<limit])) [0..<length ws]"

definition RESOURCES :: "string list list" where
  "RESOURCES = [[''quota''], [''balance''], [''credit''], [''credits'']]"

definition ALLOWANCES :: "string list list" where
  "ALLOWANCES = [[''usage'', ''limit''], [''monthly'', ''limit''], [''spending'', ''limit'']]"

definition names_exhausted_quota :: "string \<Rightarrow> bool" where
  "names_exhausted_quota detail \<longleftrightarrow>
     (let ws = normalized detail in
      list_ex (\<lambda>what. near ws [''insufficient''] what 1) RESOURCES
      \<or> list_ex (\<lambda>what. list_ex (\<lambda>spent. near ws what [spent] 3 \<or> near ws [spent] what 4)
          [''exceeded'', ''exhausted'', ''reached'', ''depleted'']) (RESOURCES @ ALLOWANCES)
      \<or> list_ex (\<lambda>what. near ws [''out'', ''of''] [what] 1) [''credit'', ''credits'', ''budget'', ''money''])"

text \<open>
  \<^verbatim>\<open>text.contains(phrase)\<close> looks in the joined words, where a phrase may also begin or end
  inside a word.
\<close>

definition contains_phrase :: "string \<Rightarrow> string list \<Rightarrow> bool" where
  "contains_phrase p ws \<longleftrightarrow> rfind p (join '' '' ws) \<noteq> None"

definition names_context_overflow :: "string \<Rightarrow> bool" where
  "names_context_overflow detail \<longleftrightarrow>
     (let ws = normalized detail; context = contains_phrase ''context'' ws in
      list_ex (\<lambda>p. contains_phrase p ws) [''context length exceeded'', ''context window exceeded'',
        ''context length overflow'', ''context limit exceeded'']
      \<or> near ws [''maximum'', ''context''] [''length''] 2 \<or> near ws [''max'', ''context''] [''length''] 2
      \<or> list_ex (\<lambda>subj.
          list_ex (\<lambda>size. near ws [subj] size 3 \<and> (context \<or> contains_phrase ''for this model'' ws))
            [[''too'', ''long''], [''too'', ''large'']]
          \<or> (near ws [subj] [''exceeds''] 3 \<and> context) \<or> (near ws [subj] [''exceeded''] 3 \<and> context))
        [''request'', ''prompt'', ''input'', ''message'', ''messages''])"

datatype llm_error =
    MissingCredential string
  | InvalidCredential string
  | Transport string
  | Provider nat string "f64 option" "string option"  \<comment> \<open>status, words, wait, request id\<close>
  | Protocol string
  | EmptyResponse string
  | Timeout string
  | Sink string

fun llm_code :: "llm_error \<Rightarrow> string" where
  "llm_code (MissingCredential _) = ''MISSING_CREDENTIAL''"
| "llm_code (InvalidCredential _) = ''INVALID_CREDENTIAL''"
| "llm_code (Transport _) = ''TRANSPORT''"
| "llm_code (EmptyResponse _) = ''EMPTY_RESPONSE''"
| "llm_code (Timeout _) = ''TIMEOUT''"
| "llm_code (Provider status detail _ _) =
     (if names_exhausted_quota detail then ''QUOTA''
      else if names_context_overflow detail then ''CONTEXT_WINDOW_EXCEEDED''
      else if status = 408 then ''TIMEOUT''
      else if status = 429 then ''RATE_LIMIT''
      else if 500 \<le> status \<and> status \<le> 599 then ''SERVER''
      else ''PROVIDER'')"
| "llm_code (Protocol _) = ''PROTOCOL''"
| "llm_code (Sink _) = ''SINK''"

fun llm_error_text :: "llm_error \<Rightarrow> string" where
  "llm_error_text (MissingCredential m) = ''MISSING_CREDENTIAL: no API key at '' @ m"
| "llm_error_text (InvalidCredential m) =
     ''INVALID_CREDENTIAL: the key at '' @ m @ '' cannot be carried in an HTTP header''"
| "llm_error_text (Transport m) = ''TRANSPORT: '' @ m"
| "llm_error_text (Provider status m _ _) = ''PROVIDER: '' @ show_nat status @ '' '' @ m"
| "llm_error_text (Protocol m) = ''PROTOCOL: '' @ m"
| "llm_error_text (EmptyResponse m) = ''EMPTY_RESPONSE: '' @ m"
| "llm_error_text (Timeout m) = ''TIMEOUT: '' @ m"
| "llm_error_text (Sink m) = ''SINK: '' @ m"

fun retry_after :: "llm_error \<Rightarrow> f64 option" where
  "retry_after (Provider _ _ w _) = w"
| "retry_after _ = None"

fun request_id :: "llm_error \<Rightarrow> string option" where
  "request_id (Provider _ _ _ i) = i"
| "request_id _ = None"

record request_failure =
  rf_code :: string
  rf_message :: string
  rf_retry_after :: "f64 option"
  rf_request_id :: "string option"

definition failure_of :: "llm_error \<Rightarrow> request_failure" where
  "failure_of x = \<lparr>rf_code = llm_code x, rf_message = llm_error_text x, rf_retry_after = retry_after x,
     rf_request_id = request_id x\<rparr>"

text \<open>The trimmed value of the first listed header that names anything.\<close>

definition REQUEST_ID_HEADERS :: "string list" where
  "REQUEST_ID_HEADERS = [''x-request-id'', ''x-deepseek-request-id'', ''request-id'',
     ''x-amzn-requestid'', ''cf-ray'']"

definition request_id_from :: "(string \<Rightarrow> string option) \<Rightarrow> string option" where
  "request_id_from header =
     find (\<lambda>v. v \<noteq> []) (map trim (List.map_filter header REQUEST_ID_HEADERS))"

section \<open>What a refusal is read as\<close>

text \<open>Spot checks of the classifier on the wordings its comments name.\<close>

lemma quota_wordings:
  "llm_code (Provider 429 ''You exceeded your current quota, please check your plan.'' None None) = ''QUOTA'' \<and>
   llm_code (Provider 402 ''insufficient_balance'' None None) = ''QUOTA'' \<and>
   llm_code (Provider 429 ''Rate limit reached for requests'' None None) = ''RATE_LIMIT'' \<and>
   llm_code (Provider 400 ''prompt is too long for this model'' None None) = ''CONTEXT_WINDOW_EXCEEDED'' \<and>
   llm_code (Provider 503 ''the queue is too long'' None None) = ''SERVER''"
  by code_simp

end
