(* ===== verification/Retry.thy ===== *)
theory Retry
  imports Approval Llm Journal
begin

text \<open>
  The retry policy of a provider route, \<^verbatim>\<open>crates/turn/src/llm/retry.rs\<close>: the decision, the backoff
  and the listener that runs both on a session log.  Delays are milliseconds and computed in exact
  rational numbers; the code's doubles round them, which moves no comparison with a bound, as the
  last operation of every delay is the minimum with it.
\<close>

section \<open>Backoff\<close>

record backoff =
  initial_delay_ms :: rat
  max_delay_ms :: rat
  jitter_ratio :: rat

definition default_backoff :: backoff where
  "default_backoff = \<lparr>initial_delay_ms = 500, max_delay_ms = 10000, jitter_ratio = 1 / 10\<rparr>"

definition clamp01 :: "rat \<Rightarrow> rat" where
  "clamp01 x = max 0 (min 1 x)"

text \<open>A duration from a count of milliseconds that may be anything.\<close>

definition millis :: "rat \<Rightarrow> rat" where
  "millis ms = max 0 ms"

definition local_delay :: "backoff \<Rightarrow> nat \<Rightarrow> rat \<Rightarrow> rat" where
  "local_delay b retry random =
     (let exponent = min (retry - 1) 1024;
          exponential = min (initial_delay_ms b * 2 ^ exponent) (max_delay_ms b);
          ratio = clamp01 (jitter_ratio b);
          jitter = 1 - ratio + 2 * ratio * clamp01 random
      in millis (min (exponential * jitter) (max_delay_ms b)))"

section \<open>The decision\<close>

datatype retry_policy = NormalRetry nat "string list" backoff | AlwaysRetry backoff

definition DEFAULT_RETRYABLE_CODES :: "string list" where
  "DEFAULT_RETRYABLE_CODES = [''EMPTY_RESPONSE'', ''RATE_LIMIT'', ''SERVER'', ''TIMEOUT'', ''TRANSPORT'']"

definition default_policy_retry :: retry_policy where
  "default_policy_retry = NormalRetry 2 DEFAULT_RETRYABLE_CODES default_backoff"

datatype retry_decision = GiveUp | Wait nat rat

fun backoff_of :: "retry_policy \<Rightarrow> backoff" where
  "backoff_of (NormalRetry _ _ b) = b"
| "backoff_of (AlwaysRetry b) = b"

text \<open>A bounded policy refuses a failure it does not list, and one retry too many.\<close>

fun refuses :: "retry_policy \<Rightarrow> nat \<Rightarrow> string \<Rightarrow> bool" where
  "refuses (NormalRetry n codes _) retries code \<longleftrightarrow> code \<notin> set codes \<or> retries \<ge> n"
| "refuses (AlwaysRetry _) retries code \<longleftrightarrow> False"

definition asked_wait :: "f64 option \<Rightarrow> rat option" where
  "asked_wait w = (case w of Some (Fin ms) \<Rightarrow> (if ms > 0 then Some ms else None) | _ \<Rightarrow> None)"

definition decide_retry :: "retry_policy \<Rightarrow> nat \<Rightarrow> string \<Rightarrow> f64 option \<Rightarrow> rat \<Rightarrow> retry_decision" where
  "decide_retry p retries code wait random =
     (if refuses p retries code then GiveUp
      else (let retry = retries + 1; b = backoff_of p in
            case asked_wait wait of
              Some ms \<Rightarrow>
                (if ms > max_delay_ms b
                 then (case p of NormalRetry _ _ _ \<Rightarrow> GiveUp
                       | AlwaysRetry _ \<Rightarrow> Wait retry (local_delay b retry random))
                 else Wait retry (millis ms))
            | None \<Rightarrow> Wait retry (local_delay b retry random)))"

section \<open>The listener\<close>

datatype request_error_action = RetryRequest

text \<open>
  The event of \<^verbatim>\<open>agent/request-error\<close>.  The interrupt it carries is shared with other threads: it
  is the switch as the listener finds it, and \<open>re_early\<close> says whether it is thrown before the
  wait has passed.
\<close>

record request_error =
  re_turn :: nat
  re_step :: nat
  re_provider :: string
  re_failure :: request_failure
  re_interrupt :: interrupt
  re_early :: bool

definition of_chain :: "request_error \<Rightarrow> session_event \<Rightarrow> bool" where
  "of_chain ev e \<longleftrightarrow> ty e = ''llm/retry'' \<and> jidx (data e) ''turn'' = jnat (re_turn ev)
     \<and> jidx (data e) ''step'' = jnat (re_step ev) \<and> jidx (data e) ''provider'' = JStr (re_provider ev)"

definition prior_retries :: "session_event list \<Rightarrow> request_error \<Rightarrow> nat" where
  "prior_retries es ev =
     (case Option.bind (find (of_chain ev) (rev es)) (\<lambda>e. as_u64 (jidx (data e) ''retry'')) of
        Some n \<Rightarrow> nat (int n mod 2 ^ 32) | None \<Rightarrow> 0)"

definition max_retries_json :: "retry_policy \<Rightarrow> json" where
  "max_retries_json p = (case p of NormalRetry n _ _ \<Rightarrow> jnat n | AlwaysRetry _ \<Rightarrow> JNull)"

definition retry_record :: "retry_policy \<Rightarrow> request_error \<Rightarrow> nat \<Rightarrow> rat \<Rightarrow> json" where
  "retry_record p ev retry delay =
     jobj [(''turn'', jnat (re_turn ev)), (''step'', jnat (re_step ev)),
           (''provider'', JStr (re_provider ev)), (''code'', JStr (rf_code (re_failure ev))),
           (''message'', JStr (rf_message (re_failure ev))),
           (''request_id'', (case rf_request_id (re_failure ev) of Some i \<Rightarrow> JStr i | None \<Rightarrow> JNull)),
           (''retry'', jnat retry), (''max_retries'', max_retries_json p),
           (''delay_ms'', JInt \<lfloor>delay\<rfloor>)]"

text \<open>\<^verbatim>\<open>schedule\<close>: the next attempt is on the log before anybody waits for it.\<close>

definition schedule_retry ::
  "'l appender \<Rightarrow> ('l \<Rightarrow> session_event list) \<Rightarrow> retry_policy \<Rightarrow> request_error \<Rightarrow> rat \<Rightarrow> 'l
   \<Rightarrow> (nat \<times> rat) option \<times> 'l"
where
  "schedule_retry app events p ev random l =
     (case decide_retry p (prior_retries (events l) ev) (rf_code (re_failure ev))
             (rf_retry_after (re_failure ev)) random of
        GiveUp \<Rightarrow> (None, l)
      | Wait retry delay \<Rightarrow>
          (case app l ''llm/retry'' (retry_record p ev retry delay) None of
             (Inl _, l1) \<Rightarrow> (None, l1)
           | (Inr _, l1) \<Rightarrow> (Some (retry, delay), l1)))"

definition retry_fn ::
  "'l appender \<Rightarrow> ('l \<Rightarrow> session_event list) \<Rightarrow> string \<Rightarrow> retry_policy \<Rightarrow> ('l \<Rightarrow> rat)
   \<Rightarrow> request_error
   \<Rightarrow> (request_error \<Rightarrow> 'l \<Rightarrow> (payload + request_error_action option) \<times> request_error \<times> 'l)
   \<Rightarrow> 'l \<Rightarrow> (payload + request_error_action option) \<times> request_error \<times> 'l"
where
  "retry_fn app events route p jitter ev k l =
     (if re_provider ev \<noteq> route then k ev l
      else if stopped (re_interrupt ev) then k ev l
      else (case schedule_retry app events p ev (jitter l) l of
          (None, l1) \<Rightarrow> k ev l1
        | (Some (retry, delay), l1) \<Rightarrow>
            if \<not> wait_for (re_early ev) (re_interrupt ev) then k ev l1
            else (case app l1 ''llm/retry-started''
                    (jobj [(''turn'', jnat (re_turn ev)), (''step'', jnat (re_step ev)),
                           (''retry'', jnat retry)]) None of
                (Inl _, l2) \<Rightarrow> k ev l2
              | (Inr _, l2) \<Rightarrow> (Inr (Some RetryRequest), ev, l2))))"

definition retry_listener ::
  "'l appender \<Rightarrow> ('l \<Rightarrow> session_event list) \<Rightarrow> string \<Rightarrow> retry_policy \<Rightarrow> ('l \<Rightarrow> rat)
   \<Rightarrow> (request_error, request_error_action option, 'l) listener"
where
  "retry_listener app events route p jitter = WaterfallFn (retry_fn app events route p jitter)"

section \<open>No wait is longer than the ceiling\<close>

lemma local_delay_bounds:
  assumes "0 \<le> max_delay_ms b"
  shows "0 \<le> local_delay b n r" and "local_delay b n r \<le> max_delay_ms b"
  using assms by (simp_all add: local_delay_def millis_def Let_def)

lemma decide_retry_bounds:
  assumes "decide_retry p retries code wait random = Wait retry delay" and "0 \<le> max_delay_ms (backoff_of p)"
  shows "retry = retries + 1 \<and> 0 \<le> delay \<and> delay \<le> max_delay_ms (backoff_of p)
    \<and> (\<forall>n codes b. p = NormalRetry n codes b \<longrightarrow> retry \<le> n \<and> code \<in> set codes)"
  using assms local_delay_bounds [OF assms(2)]
  by (auto simp: decide_retry_def Let_def millis_def asked_wait_def
      split: if_splits option.splits retry_policy.splits f64.splits)

text \<open>The jitter is around the capped exponential: never less than \<open>1 - ratio\<close> of it.\<close>

lemma local_delay_floor:
  assumes "0 \<le> initial_delay_ms b" and "0 \<le> max_delay_ms b"
  shows "min (initial_delay_ms b * 2 ^ min (n - 1) 1024) (max_delay_ms b) * (1 - clamp01 (jitter_ratio b))
    \<le> local_delay b n r"
proof -
  let ?e = "min (initial_delay_ms b * 2 ^ min (n - 1) 1024) (max_delay_ms b)"
  let ?c = "clamp01 (jitter_ratio b)"
  have e: "0 \<le> ?e" and c: "0 \<le> ?c" "?c \<le> 1" and r: "0 \<le> clamp01 r"
    using assms by (auto simp: clamp01_def)
  then have le: "1 - ?c \<le> 1 - ?c + 2 * ?c * clamp01 r" by simp
  then have "?e * (1 - ?c) \<le> ?e * (1 - ?c + 2 * ?c * clamp01 r)"
    by (rule mult_left_mono) (rule e)
  moreover have "?e * (1 - ?c) \<le> ?e * 1" using e c by (intro mult_left_mono) auto
  moreover have "?e \<le> max_delay_ms b" by simp
  ultimately have "?e * (1 - ?c) \<le> min (?e * (1 - ?c + 2 * ?c * clamp01 r)) (max_delay_ms b)" by auto
  also have "\<dots> \<le> local_delay b n r" by (simp add: local_delay_def Let_def millis_def)
  finally show ?thesis .
qed

section \<open>The journal is the count\<close>

lemma prior_retries_append:
  "\<forall>e\<in>set new. ty e \<noteq> ''llm/retry'' \<Longrightarrow> prior_retries (es @ new) ev = prior_retries es ev"
  by (induction new rule: rev_induct) (auto simp: prior_retries_def of_chain_def simp flip: append_assoc)

lemma retry_record_chain:
  assumes "ty e = ''llm/retry''" and "data e = retry_record p ev retry delay" and "retry < 2 ^ 32"
    and "re_turn ev' = re_turn ev" "re_step ev' = re_step ev" "re_provider ev' = re_provider ev"
  shows "prior_retries (es @ [e]) ev' = retry"
proof -
  have "of_chain ev' e"
    unfolding of_chain_def assms(2) retry_record_def jidx_def using assms(1,4-6) by simp
  moreover have "as_u64 (jidx (data e) ''retry'') = Some retry"
    unfolding assms(2) retry_record_def jidx_def using assms(3) by simp
  ultimately show ?thesis using assms(3) by (simp add: prior_retries_def)
qed

end
