(* ===== verification/Tool_Calls.thy ===== *)
theory Tool_Calls
  imports Approval Inbox Guards Prompt Retry
begin

text \<open>
  The engine's composition and its tool pipeline, \<^verbatim>\<open>crates/turn/src/engine.rs\<close>
  (\<^verbatim>\<open>run_tool_calls\<close> and everything it calls).  A session \<open>'l\<close> is whatever holds the log
  and whatever else listeners and tools act on; the engine reaches the log through the appender and
  the event list it was composed with.  What other threads and the executor decide is an argument:
  \<open>e_stops\<close> says which stop requests arrive before each reading of the interrupt, \<open>e_picks\<close>
  which of the calls in flight progresses next.
\<close>

section \<open>The engine\<close>

datatype turn_error =
    SessionFailed session_error
  | InboxFailed inbox_error
  | PromptFailed prompt_error
  | LlmFailed llm_error
  | PluginPanicked string
  | ApprovalFailed approval_error

text \<open>Why an action did not answer: a failure, a panic on its way out, or no more attempts to try.\<close>

datatype stop = Fault turn_error | Unwound payload | NoFuel

datatype pre_step_decision = Enter "message list" | RejectStep string

record post_decision =
  pd_outcome :: tool_outcome
  pd_contexts :: "message list"

datatype stop_reason = Natural | PreStepRejected | MaxSteps | StopCancelled | MaxTokens
  | StopInterrupted | StopTimedOut | StopShutdown | StopRepeated

record auto_compaction =
  ac_threshold :: nat
  ac_retain :: nat
  ac_prune :: "prune_budget option"

type_synonym 'l sink = "stream_chunk \<Rightarrow> 'l \<times> nat list \<Rightarrow> (llm_error + unit) \<times> 'l \<times> nat list"

record 'l engine =
  en_append :: "'l appender"
  en_events :: "'l \<Rightarrow> session_event list"
  en_model :: string
  en_max_steps :: nat
  en_max_tokens :: "nat option"
  en_base_prompt :: string
  en_cap :: nat
  en_order :: "string list option"
  en_window :: "nat option"
  en_guards :: turn_guards
  en_compaction :: "auto_compaction option"
  en_tools :: "'l registry"
  en_prompts :: prompts
  en_contexts :: contexts
  en_provider :: string
  en_adapter :: "'l sink \<Rightarrow> model_request \<Rightarrow> 'l \<times> nat list
    \<Rightarrow> (payload + (llm_error + model_response)) \<times> 'l \<times> nat list"
  en_summarize :: "string \<Rightarrow> message list \<Rightarrow> compaction_error + summary"
  en_pre_step :: "(nat \<times> nat \<times> message list, pre_step_decision, 'l) listener list"
  en_assemble :: "(nat \<times> nat \<times> system_prompt, system_prompt, 'l) listener list"
  en_request :: "(nat \<times> nat \<times> model_request, model_request, 'l) listener list"
  en_stream :: "(model_request, llm_error + model_response, 'l \<times> nat list) listener list"
  en_recover :: "(request_error, request_error_action option, 'l) listener list"
  en_pre_tool :: "(nat \<times> tool_call, tool_call, 'l) listener list"
  en_permission :: "(nat \<times> tool_call \<times> permission, permission, 'l) listener list"
  en_execute :: "(nat \<times> tool_call, tool_error + tool_outcome, 'l) listener list"
  en_post_tool :: "(nat \<times> tool_call \<times> tool_outcome, post_decision, 'l) listener list"
  en_stopping :: "(nat \<times> nat \<times> stop_reason, string, 'l) listener list"
  en_answerers :: "(approval_ask, approval_outcome, 'l) bus"
  en_race :: "approval_ask \<Rightarrow> 'l \<Rightarrow> 'l option"
  en_json_len :: "json \<Rightarrow> nat"
  en_catalog_len :: "tool_schema list \<Rightarrow> nat"
  en_json_text :: "json \<Rightarrow> string"
  en_debug :: "string \<Rightarrow> string"
  en_log_text :: "session_error \<Rightarrow> string"
  en_compaction_text :: "compaction_error \<Rightarrow> string"

record 'l engine_state =
  e_log :: 'l
  e_inbox :: inbox
  e_approvals :: approvals
  e_interrupt :: interrupt
  e_stops :: "cause option list"
  e_picks :: "nat list"
  e_clock :: "nat list"
  e_turns :: nat
  e_steps :: nat
  e_open_step :: "nat option"

type_synonym ('l, 'a) act = "'l engine_state \<Rightarrow> (stop + 'a) \<times> 'l engine_state"

section \<open>Actions\<close>

definition answer :: "'a \<Rightarrow> ('l, 'a) act" where
  "answer x s = (Inr x, s)"

text \<open>The question mark: carry on with the answer, or stop as the first action stopped.\<close>

definition andthen :: "('l, 'a) act \<Rightarrow> ('a \<Rightarrow> ('l, 'b) act) \<Rightarrow> ('l, 'b) act" where
  "andthen m f s = (case m s of (Inl x, s1) \<Rightarrow> (Inl x, s1) | (Inr a, s1) \<Rightarrow> f a s1)"

definition log_event ::
  "'l engine \<Rightarrow> string \<Rightarrow> json \<Rightarrow> nat list option \<Rightarrow> ('l, session_event) act"
where
  "log_event en t d src s =
     (case en_append en (e_log s) t d src of
        (Inl x, l) \<Rightarrow> (Inl (Fault (SessionFailed x)), s\<lparr>e_log := l\<rparr>)
      | (Inr e, l) \<Rightarrow> (Inr e, s\<lparr>e_log := l\<rparr>))"

definition ask ::
  "('e, 'r, 'l) listener list \<Rightarrow> ('e \<Rightarrow> 'l \<Rightarrow> (payload + 'r) \<times> 'e \<times> 'l) \<Rightarrow> 'e \<Rightarrow> ('l, 'r) act"
where
  "ask chain terminal e s =
     (case next_run chain 0 terminal e (e_log s) of
        (r, _, l) \<Rightarrow> (map_sum Unwound id r, s\<lparr>e_log := l\<rparr>))"

text \<open>The terminals that answer with a part of the event they were given.\<close>

definition pass :: "('e \<Rightarrow> 'r) \<Rightarrow> 'e \<Rightarrow> 'l \<Rightarrow> (payload + 'r) \<times> 'e \<times> 'l" where
  "pass f e l = (Inr (f e), e, l)"

definition read_interrupt :: "('l, interrupt) act" where
  "read_interrupt s =
     (let s1 = (case e_stops s of
                  Some c # rest \<Rightarrow> s\<lparr>e_interrupt := snd (stop_because c (e_interrupt s)), e_stops := rest\<rparr>
                | _ \<Rightarrow> s\<lparr>e_stops := tl (e_stops s)\<rparr>)
      in (Inr (e_interrupt s1), s1))"

section \<open>One call\<close>

record settled =
  st_call :: tool_call
  st_outcome :: tool_outcome
  st_contexts :: "message list"
  st_seq :: nat
  st_code :: "string option"

text \<open>
  Where one dispatched call stands: what it last waited for has answered.  A call that asked for
  a decision waits with its question on the log.
\<close>

datatype phase =
    Fresh
  | Called nat
  | Passed nat tool_call
  | Asked nat tool_call approval_request string
  | Cleared nat tool_call
  | Ran nat tool_call tool_outcome

definition refused_call :: "nat \<Rightarrow> tool_call \<Rightarrow> string \<Rightarrow> settled" where
  "refused_call n c r = \<lparr>st_call = c, st_outcome = outcome_failed r, st_contexts = [], st_seq = n,
     st_code = Some TOOL_NOT_PERMITTED\<rparr>"

text \<open>\<^verbatim>\<open>decide\<close> up to the question, which is written before it is put.\<close>

definition gate_call :: "'l engine \<Rightarrow> nat \<Rightarrow> nat \<Rightarrow> tool_call \<Rightarrow> ('l, phase + settled) act" where
  "gate_call en turn n c =
     andthen (ask (en_permission en) (pass (\<lambda>(_, _, declared). declared))
                (turn, c, permission_of (en_debug en) (en_tools en) c))
       (\<lambda>p s. case p of
          Allow \<Rightarrow> (Inr (Inl (Cleared n c)), s)
        | Deny reason \<Rightarrow> (Inr (Inr (refused_call n c reason)), s)
        | AskFirst reason \<Rightarrow>
            (let q = \<lparr>rq_tool = tc_name c, rq_call = Some (tc_id c), rq_reason = Some reason\<rparr> in
             case put_question (en_append en) (en_events en) q (e_approvals s) (e_log s) of
               (Inl x, a, l) \<Rightarrow> (Inl (Fault (ApprovalFailed x)), s\<lparr>e_approvals := a, e_log := l\<rparr>)
             | (Inr i, a, l) \<Rightarrow> (Inr (Inl (Asked n c q i)), s\<lparr>e_approvals := a, e_log := l\<rparr>)))"

text \<open>\<^verbatim>\<open>decide\<close> from the question on.\<close>

definition settle_call ::
  "'l engine \<Rightarrow> nat \<Rightarrow> tool_call \<Rightarrow> approval_request \<Rightarrow> string \<Rightarrow> ('l, phase + settled) act"
where
  "settle_call en n c q i =
     andthen read_interrupt (\<lambda>intr s.
       case settle_question (en_append en) (en_events en) (en_answerers en) (en_race en) intr
              (e_approvals s) i q (e_log s) of
         (Inl x, l) \<Rightarrow> (Inl (Fault (ApprovalFailed x)), s\<lparr>e_log := l\<rparr>)
       | (Inr out, l) \<Rightarrow>
           (Inr (case refusal (tc_name c) out of
                   None \<Rightarrow> Inl (Cleared n c)
                 | Some r \<Rightarrow> Inr (refused_call n c r)), s\<lparr>e_log := l\<rparr>))"

definition dispatch_tool ::
  "'l engine \<Rightarrow> nat \<times> tool_call \<Rightarrow> 'l \<Rightarrow> (payload + (tool_error + tool_outcome)) \<times> (nat \<times> tool_call) \<times> 'l"
where
  "dispatch_tool en e l = (let (r, l1) = execute_tool (en_tools en) (snd e) l in (Inr r, e, l1))"

text \<open>
  \<^verbatim>\<open>dispatch_tool_call\<close> from one point it may wait at to the next: the answer is the next
  phase, or the settled call.
\<close>

fun dispatch_step ::
  "'l engine \<Rightarrow> nat \<Rightarrow> tool_call \<Rightarrow> phase \<Rightarrow> ('l, phase + settled) act"
where
  "dispatch_step en turn call Fresh =
     andthen (log_event en ''tool/call''
         (jobj [(''id'', JStr (tc_id call)), (''name'', JStr (tc_name call)),
                (''arguments'', recorded (en_tools en) call)]) None)
       (\<lambda>logged. answer (Inl (Called (seq logged))))"
| "dispatch_step en turn call (Called n) =
     andthen (ask (en_pre_tool en) (pass snd) (turn, call)) (\<lambda>c. answer (Inl (Passed n c)))"
| "dispatch_step en turn call (Passed n c) = gate_call en turn n c"
| "dispatch_step en turn call (Asked n c q i) = settle_call en n c q i"
| "dispatch_step en turn call (Cleared n c) =
     andthen (ask (en_execute en) (dispatch_tool en) (turn, c))
       (\<lambda>r. answer (Inl (Ran n c
          (case r of Inr out \<Rightarrow> out | Inl x \<Rightarrow> outcome_failed (tool_error_text (en_debug en) x)))))"
| "dispatch_step en turn call (Ran n c out) =
     andthen (ask (en_post_tool en) (pass (\<lambda>(_, _, o'). \<lparr>pd_outcome = o', pd_contexts = []\<rparr>))
                (turn, c, out))
       (\<lambda>d. answer (Inr \<lparr>st_call = c, st_outcome = pd_outcome d, st_contexts = pd_contexts d,
          st_seq = n, st_code = None\<rparr>))"

text \<open>Contexts are queued after the result, under ids derived from its number.\<close>

fun queue_contexts :: "'l engine \<Rightarrow> nat \<Rightarrow> nat \<Rightarrow> message list \<Rightarrow> ('l, unit) act" where
  "queue_contexts en n k [] s = (Inr (), s)"
| "queue_contexts en n k (m # ms) s =
     (case append_pending (en_append en) NextStep
            \<lparr>pm_id = ''ctx-'' @ show_nat n @ ''-'' @ show_nat k, pm_message = m\<rparr> (e_inbox s) (e_log s) of
        (Inl x, ib, l) \<Rightarrow> (Inl (Fault (InboxFailed x)), s\<lparr>e_inbox := ib, e_log := l\<rparr>)
      | (Inr _, ib, l) \<Rightarrow> queue_contexts en n (k + 1) ms (s\<lparr>e_inbox := ib, e_log := l\<rparr>))"

definition commit_tool_result :: "'l engine \<Rightarrow> settled \<Rightarrow> ('l, unit) act" where
  "commit_tool_result en st =
     (let result = jobj [(''call_id'', JStr (tc_id (st_call st))), (''name'', JStr (tc_name (st_call st))),
                         (''ok'', JBool (o_ok (st_outcome st))), (''content'', JStr (o_content (st_outcome st)))];
          result = (case st_code st of None \<Rightarrow> result | Some code \<Rightarrow> jset ''code'' (JStr code) result)
      in andthen (log_event en ''tool/result'' result (Some [st_seq st]))
           (\<lambda>e. queue_contexts en (seq e) 0 (st_contexts st)))"

section \<open>One barrier or one pool\<close>

record pool =
  p_flight :: "(nat \<times> phase) list"
  p_settled :: "(nat, settled) omap"
  p_started :: nat
  p_committed :: nat
  p_failure :: "turn_error option"

definition new_pool :: pool where
  "new_pool = \<lparr>p_flight = [], p_settled = [], p_started = 0, p_committed = 0, p_failure = None\<rparr>"

text \<open>Starts the calls that may start, given the calls of the group not yet started.\<close>

fun fill_pool :: "'l engine \<Rightarrow> tool_call list \<Rightarrow> pool \<Rightarrow> pool" where
  "fill_pool en [] p = p"
| "fill_pool en (c # cs) p =
     (if p_failure p \<noteq> None \<or> length (p_flight p) \<ge> en_cap en then p
      else if p_started p > 0 \<and> mode_of (en_tools en) c = Exclusive then p
      else fill_pool en cs (p\<lparr>p_flight := p_flight p @ [(p_started p, Fresh)], p_started := p_started p + 1\<rparr>))"

text \<open>Commits the settled calls that are next in model order, one after the other.\<close>

definition commit_next :: "'l engine \<Rightarrow> settled \<Rightarrow> pool \<Rightarrow> 'l engine_state \<Rightarrow> pool \<times> 'l engine_state" where
  "commit_next en ready p s =
     (let (r, s1) = commit_tool_result en ready s in
      (p\<lparr>p_settled := om_remove (p_committed p) (p_settled p),
         p_failure := (case r of Inl (Fault x) \<Rightarrow> Some x | _ \<Rightarrow> p_failure p),
         p_committed := p_committed p + 1\<rparr>, s1))"

function commit_ready :: "'l engine \<Rightarrow> pool \<Rightarrow> 'l engine_state \<Rightarrow> pool \<times> 'l engine_state" where
  "commit_ready en p s =
     (if p_failure p \<noteq> None then (p, s)
      else case map_of (p_settled p) (p_committed p) of
          None \<Rightarrow> (p, s)
        | Some ready \<Rightarrow> (let (p1, s1) = commit_next en ready p s in commit_ready en p1 s1))"
  by pat_completeness auto
termination
proof (relation "measure (\<lambda>(_, p, _). length (p_settled p))", goal_cases)
  case (2 en p s ready x p1 s1)
  then have "(p_committed p, ready) \<in> set (p_settled p)" by (auto dest: map_of_SomeD)
  then have "length (om_remove (p_committed p) (p_settled p)) < length (p_settled p)"
    unfolding om_remove_def by (rule length_filter_less) simp
  moreover have "p_settled p1 = om_remove (p_committed p) (p_settled p)"
    using 2 by (auto simp: commit_next_def split: prod.splits)
  ultimately show ?case by simp
qed simp

declare commit_ready.simps [simp del]

text \<open>One iteration of the executor: which call progresses is the next pick.\<close>

definition pick :: "nat \<Rightarrow> ('l, nat) act" where
  "pick n s = (Inr ((case e_picks s of [] \<Rightarrow> 0 | k # _ \<Rightarrow> k mod n)), s\<lparr>e_picks := tl (e_picks s)\<rparr>)"

fun weight :: "phase \<Rightarrow> nat" where
  "weight Fresh = 6"
| "weight (Called _) = 5"
| "weight (Passed _ _) = 4"
| "weight (Asked _ _ _ _) = 3"
| "weight (Cleared _ _) = 2"
| "weight (Ran _ _ _) = 1"

text \<open>
  \<^verbatim>\<open>run_tool_group\<close>.  The loop fills the pool and lets one call progress; the code fills it
  again only once a call has settled, which starts nothing more before then either, as nothing a
  fill reads has changed.  A panic leaves the calls in flight where they are.  The fuel is what
  the calls can still progress (\<open>weight\<close>), so it never runs out.
\<close>

fun run_pool :: "nat \<Rightarrow> 'l engine \<Rightarrow> nat \<Rightarrow> tool_call list \<Rightarrow> pool \<Rightarrow> ('l, nat) act" where
  "run_pool 0 en turn calls p s = (Inl NoFuel, s)"
| "run_pool (Suc fuel) en turn calls p s =
     (let p1 = fill_pool en (drop (p_started p) calls) p in
      if p_flight p1 = [] then
        ((case p_failure p1 of Some x \<Rightarrow> Inl (Fault x) | None \<Rightarrow> Inr (p_started p1)), s)
      else (case pick (length (p_flight p1)) s of
          (Inl x, s1) \<Rightarrow> (Inl x, s1)
        | (Inr k, s1) \<Rightarrow>
            (let (i, ph) = p_flight p1 ! k; rest = take k (p_flight p1) @ drop (k + 1) (p_flight p1) in
             case dispatch_step en turn (calls ! i) ph s1 of
               (Inr (Inl ph1), s2) \<Rightarrow>
                 run_pool fuel en turn calls (p1\<lparr>p_flight := (p_flight p1)[k := (i, ph1)]\<rparr>) s2
             | (Inr (Inr st), s2) \<Rightarrow>
                 (let (p2, s3) = commit_ready en
                        (p1\<lparr>p_flight := rest, p_settled := om_insert i st (p_settled p1)\<rparr>) s2
                  in run_pool fuel en turn calls p2 s3)
             | (Inl (Fault x), s2) \<Rightarrow>
                 run_pool fuel en turn calls
                   (p1\<lparr>p_flight := rest,
                       p_failure := Some (case p_failure p1 of Some f \<Rightarrow> f | None \<Rightarrow> x)\<rparr>) s2
             | (Inl x, s2) \<Rightarrow> (Inl x, s2))))"

definition run_tool_group :: "'l engine \<Rightarrow> nat \<Rightarrow> tool_call list \<Rightarrow> ('l, nat) act" where
  "run_tool_group en turn calls = run_pool (7 * length calls + 1) en turn calls new_pool"

text \<open>\<^verbatim>\<open>run_tool_calls\<close>, over the calls that are left; a group consumes at least one of them.\<close>

fun run_calls :: "nat \<Rightarrow> 'l engine \<Rightarrow> nat \<Rightarrow> tool_call list \<Rightarrow> ('l, unit) act" where
  "run_calls 0 en turn calls = (\<lambda>s. (Inl NoFuel, s))"
| "run_calls (Suc fuel) en turn [] = answer ()"
| "run_calls (Suc fuel) en turn (c # cs) =
     andthen (run_tool_group en turn (if mode_of (en_tools en) c = Exclusive then [c] else c # cs))
       (\<lambda>n. run_calls fuel en turn (drop n (c # cs)))"

definition run_tool_calls :: "'l engine \<Rightarrow> nat \<Rightarrow> tool_call list \<Rightarrow> ('l, unit) act" where
  "run_tool_calls en turn calls = run_calls (length calls + 1) en turn calls"

end
