(* ===== verification/Tool_Results.thy ===== *)
theory Tool_Results
  imports Tool_Calls
begin

text \<open>
  What the tool pipeline promises of the log: whatever the tools, the listeners and the executor's
  schedule do, the pool comes to an end, and the results of one step stand in model order, each
  citing its own call.
\<close>

section \<open>Growing logs\<close>

text \<open>A log grown by events of no type in \<open>T\<close>.\<close>

definition grown :: "string set \<Rightarrow> session_event list \<Rightarrow> session_event list \<Rightarrow> bool" where
  "grown T es es' \<longleftrightarrow> (\<exists>new. es' = es @ new \<and> (\<forall>e\<in>set new. ty e \<notin> T))"

lemma grown_refl [simp]: "grown T es es"
  by (simp add: grown_def)

lemma grown_trans: "grown T es es' \<Longrightarrow> grown T es' es'' \<Longrightarrow> grown T es es''"
  by (auto simp: grown_def)

lemma grown_snoc: "ty e \<notin> T \<Longrightarrow> grown T es (es @ [e])"
  by (auto simp: grown_def)

lemma grown_length: "grown T es es' \<Longrightarrow> length es \<le> length es'"
  by (auto simp: grown_def)

lemma grown_nth: "grown T es es' \<Longrightarrow> n < length es \<Longrightarrow> es' ! n = es ! n"
  by (auto simp: grown_def nth_append)

lemma grown_mono: "grown T es es' \<Longrightarrow> U \<subseteq> T \<Longrightarrow> grown U es es'"
  by (auto simp: grown_def)

text \<open>A chain of listeners that keeps to that, whatever it decides.\<close>

definition quiet_chain ::
  "string set \<Rightarrow> ('l \<Rightarrow> session_event list) \<Rightarrow> ('e, 'r, 'l) listener list
   \<Rightarrow> ('e \<Rightarrow> 'l \<Rightarrow> (payload + 'r) \<times> 'e \<times> 'l) \<Rightarrow> bool"
where
  "quiet_chain T ev chain terminal \<longleftrightarrow>
     (\<forall>e l r e' l'. next_run chain 0 terminal e l = (r, e', l') \<longrightarrow> grown T (ev l) (ev l'))"

definition quiet_answerers :: "string set \<Rightarrow> 'l engine \<Rightarrow> bool" where
  "quiet_answerers T en \<longleftrightarrow>
     (\<forall>ask l l1. en_race en ask l = Some l1
        \<or> (\<exists>r ask'. waterfall approval_event ask fail_closed (en_answerers en) l = Some (r, ask', l1))
        \<longrightarrow> grown T (en_events en l) (en_events en l1))"

text \<open>What is asked of the listeners and tools of one step's calls.\<close>

definition quiet_tools :: "string set \<Rightarrow> 'l engine \<Rightarrow> bool" where
  "quiet_tools T en \<longleftrightarrow>
     quiet_chain T (en_events en) (en_pre_tool en) (pass snd)
     \<and> quiet_chain T (en_events en) (en_permission en) (pass (\<lambda>(_, _, declared). declared))
     \<and> quiet_chain T (en_events en) (en_execute en) (dispatch_tool en)
     \<and> quiet_chain T (en_events en) (en_post_tool en) (pass (\<lambda>(_, _, o'). \<lparr>pd_outcome = o', pd_contexts = []\<rparr>))
     \<and> quiet_answerers T en"

definition events_of :: "'l engine \<Rightarrow> 'l engine_state \<Rightarrow> session_event list" where
  "events_of en s = en_events en (e_log s)"

section \<open>What each action adds\<close>

definition flow_results :: "string set" where
  "flow_results = {''tool/call'', ''tool/result''}"

lemma andthen_cases:
  assumes "andthen m f s = (r, s')"
  obtains (stopped) x where "m s = (Inl x, s')" and "r = Inl x"
  | (went) a s1 where "m s = (Inr a, s1)" and "f a s1 = (r, s')"
  using assms by (auto simp: andthen_def split: prod.splits sum.splits)

lemma ask_grows:
  assumes "ask chain terminal e s = (r, s')" and "quiet_chain T (en_events en) chain terminal"
  shows "grown T (events_of en s) (events_of en s')"
  using assms unfolding quiet_chain_def ask_def events_of_def
  by (auto split: prod.splits)

lemma ask_stop: "ask chain terminal e s = (Inl x, s') \<Longrightarrow> \<exists>p. x = Unwound p"
  by (cases "next_run chain 0 terminal e (e_log s)"; cases "fst (next_run chain 0 terminal e (e_log s))")
    (auto simp: ask_def)

lemma read_interrupt_log: "read_interrupt s = (r, s') \<Longrightarrow> events_of en s' = events_of en s"
  by (auto simp: read_interrupt_def events_of_def Let_def split: list.splits option.splits)

lemma pick_log: "pick n s = (r, s') \<Longrightarrow> events_of en s' = events_of en s"
  by (auto simp: pick_def events_of_def)

lemma pick_bound: "pick n s = (Inr k, s') \<Longrightarrow> 0 < n \<Longrightarrow> k < n"
  by (auto simp: pick_def split: list.splits)

lemma pick_answers: "\<exists>k s'. pick n s = (Inr k, s')"
  by (simp add: pick_def)

text \<open>The engine is composed on this log.\<close>

definition runs_on :: "'l appender \<Rightarrow> ('l \<Rightarrow> session_event list) \<Rightarrow> 'l engine \<Rightarrow> bool" where
  "runs_on app ev en \<longleftrightarrow> en_append en = app \<and> en_events en = ev"

lemma runs_onD:
  assumes "runs_on app ev en"
  shows "en_append en = app" and "en_events en = ev" and "events_of en s = ev (e_log s)"
  using assms by (simp_all add: runs_on_def events_of_def)

context session_log
begin

lemma log_event_ok:
  assumes "log_event en t d src s = (Inr e, s')" and "runs_on append events en"
  shows "events_of en s' = events_of en s @ [e] \<and> ty e = t \<and> data e = d
    \<and> source_event_seqs e = src \<and> seq e = length (events_of en s)"
  using assms(1) append_ok unfolding log_event_def runs_onD [OF assms(2)]
  by (auto simp: runs_onD [OF assms(2)] split: prod.splits sum.splits)

lemma log_event_err:
  assumes "log_event en t d src s = (Inl x, s')" and "runs_on append events en"
  shows "events_of en s' = events_of en s \<and> (\<exists>y. x = Fault y)"
  using assms(1) append_err unfolding log_event_def runs_onD [OF assms(2)]
  by (auto simp: runs_onD [OF assms(2)] split: prod.splits sum.splits)

lemma log_event_grows:
  assumes "log_event en t d src s = (r, s')" and "runs_on append events en" and "t \<notin> T"
  shows "grown T (events_of en s) (events_of en s')"
  using assms by (cases r) (auto dest!: log_event_ok log_event_err simp: grown_snoc)

lemma append_grows:
  assumes "append l t d src = (r, l')" and "t \<notin> T"
  shows "grown T (events l) (events l')"
  using assms by (cases r) (auto dest!: append_ok append_err intro: grown_snoc)

lemma queue_contexts_grows:
  assumes "queue_contexts en n k ms s = (r, s')" and "runs_on append events en" and "''agent/inbox/spliced'' \<notin> T"
  shows "grown T (events_of en s) (events_of en s') \<and> (\<forall>x. r = Inl x \<longrightarrow> (\<exists>y. x = Fault y))"
  using assms(1)
proof (induction ms arbitrary: k s)
  case (Cons m ms)
  obtain r1 ib l where a: "append_pending (en_append en) NextStep
      \<lparr>pm_id = ''ctx-'' @ show_nat n @ ''-'' @ show_nat k, pm_message = m\<rparr> (e_inbox s) (e_log s) = (r1, ib, l)"
    by (metis prod_cases3)
  then obtain r2 where "mutate append NextStep (int (length (next_step (e_inbox s)))) 0
      [\<lparr>pm_id = ''ctx-'' @ show_nat n @ ''-'' @ show_nat k, pm_message = m\<rparr>] True (e_inbox s) (e_log s) = (r2, ib, l)"
    by (auto simp: append_pending_def splice_def runs_onD [OF assms(2)] split: prod.splits)
  then have "grown T (events (e_log s)) (events l)"
    by (cases rule: mutate_cases) (use append_grows assms(3) in auto)
  then have g: "grown T (events_of en s) (events_of en (s\<lparr>e_inbox := ib, e_log := l\<rparr>))"
    by (simp add: runs_onD [OF assms(2)])
  show ?case
  proof (cases r1)
    case (Inl x)
    with Cons.prems a g show ?thesis by auto
  next
    case (Inr u)
    with Cons.prems a have "queue_contexts en n (k + 1) ms (s\<lparr>e_inbox := ib, e_log := l\<rparr>) = (r, s')" by simp
    from Cons.IH [OF this] g show ?thesis by (blast intro: grown_trans)
  qed
qed auto

lemma put_question_grows:
  assumes "put_question append events q a l = (r, a1, l1)" and "''approval/asked'' \<notin> T"
  shows "grown T (events l) (events l1)"
  using assms by (cases r) (auto dest!: put_question_ok put_question_err simp: grown_snoc)

lemma settle_question_grows:
  assumes "settle_question append events b race intr a i q l = (r, l2)" and "''approval/decided'' \<notin> T"
    and q: "\<And>ask l l1. race ask l = Some l1
        \<or> (\<exists>r ask'. waterfall approval_event ask fail_closed b l = Some (r, ask', l1))
        \<Longrightarrow> grown T (events l) (events l1)"
  shows "grown T (events l) (events l2)"
proof -
  obtain out l1 where d: "decide_question events b race intr a i q l = (out, l1)" by fastforce
  then have "grown T (events l) (events l1)"
    using q [of "\<lparr>ak_id = i, ak_request = q\<rparr>" l l1]
    by (auto simp: decide_question_def Let_def split: if_splits option.splits)
  moreover have "grown T (events l1) (events l2)"
    using assms(1,2) d by (auto simp: settle_question_def split: prod.splits sum.splits dest: append_grows)
  ultimately show ?thesis by (rule grown_trans)
qed

end

section \<open>One phase of a dispatched call\<close>

text \<open>The number of the call's own \<^verbatim>\<open>tool/call\<close>, once it has one.\<close>

fun phase_seq :: "phase \<Rightarrow> nat option" where
  "phase_seq Fresh = None"
| "phase_seq (Called n) = Some n"
| "phase_seq (Passed n _) = Some n"
| "phase_seq (Asked n _ _ _) = Some n"
| "phase_seq (Cleared n _) = Some n"
| "phase_seq (Ran n _ _) = Some n"

context session_log
begin

lemma dispatch_fresh:
  assumes "dispatch_step en turn c Fresh s = (Inr x, s')" and "runs_on append events en"
  shows "\<exists>e. events_of en s' = events_of en s @ [e] \<and> ty e = ''tool/call''
    \<and> jstr (data e) ''id'' = tc_id c \<and> x = Inl (Called (length (events_of en s)))"
  using assms(1) unfolding dispatch_step.simps
proof (cases rule: andthen_cases)
  case (went e s1)
  with log_event_ok [OF went(1) assms(2)] show ?thesis
    by (auto simp: answer_def jstr_jobj)
qed simp

lemma dispatch_later:
  assumes "dispatch_step en turn c ph s = (r, s')" and ro: "runs_on append events en" and "ph \<noteq> Fresh"
    and qt: "quiet_tools T en" and T: "''approval/asked'' \<notin> T" "''approval/decided'' \<notin> T"
  shows "grown T (events_of en s) (events_of en s')
    \<and> (\<forall>ph'. r = Inr (Inl ph') \<longrightarrow> phase_seq ph' = phase_seq ph \<and> weight ph' < weight ph)
    \<and> (\<forall>st. r = Inr (Inr st) \<longrightarrow> phase_seq ph = Some (st_seq st)) \<and> r \<noteq> Inl NoFuel"
proof -
  note q = qt [unfolded quiet_tools_def]
  show ?thesis
  proof (cases ph)
    case (Called n)
    from assms(1) [unfolded Called dispatch_step.simps] show ?thesis
    proof (cases rule: andthen_cases)
      case (went a s1)
      with q show ?thesis unfolding Called by (auto simp: answer_def dest: ask_grows)
    qed (use q Called in \<open>auto dest: ask_grows ask_stop\<close>)
  next
    case (Passed n c')
    from assms(1) [unfolded Passed dispatch_step.simps gate_call_def] show ?thesis
    proof (cases rule: andthen_cases)
      case (went p s1)
      have g: "grown T (events_of en s) (events_of en s1)" using q went(1) by (auto dest: ask_grows)
      show ?thesis
      proof (cases p)
        case (AskFirst reason)
        let ?q = "\<lparr>rq_tool = tc_name c', rq_call = Some (tc_id c'), rq_reason = Some reason\<rparr>"
        obtain r1 a l where pq: "put_question (en_append en) (en_events en) ?q (e_approvals s1) (e_log s1) = (r1, a, l)"
          by (metis prod_cases3)
        then have "grown T (events_of en s1) (en_events en l)"
          using put_question_grows T(1) by (auto simp: runs_onD [OF ro])
        with g have "grown T (events_of en s) (en_events en l)" by (rule grown_trans)
        moreover have "events_of en s' = en_events en l"
          using went(2) pq AskFirst by (auto simp: events_of_def split: sum.splits)
        ultimately show ?thesis using went(2) pq AskFirst Passed by (auto split: sum.splits)
      qed (use went g Passed in \<open>auto simp: refused_call_def\<close>)
    qed (use q Passed in \<open>auto dest: ask_grows ask_stop\<close>)
  next
    case (Asked n c' qq i)
    from assms(1) [unfolded Asked dispatch_step.simps settle_call_def] show ?thesis
    proof (cases rule: andthen_cases)
      case (went intr s1)
      obtain r1 l where sq: "settle_question (en_append en) (en_events en) (en_answerers en) (en_race en) intr
          (e_approvals s1) i qq (e_log s1) = (r1, l)" by fastforce
      have "\<And>ask l l1. en_race en ask l = Some l1
        \<or> (\<exists>r ask'. waterfall approval_event ask fail_closed (en_answerers en) l = Some (r, ask', l1))
        \<Longrightarrow> grown T (events l) (events l1)"
        using q unfolding quiet_answerers_def runs_onD [OF ro] by metis
      then have "grown T (events (e_log s1)) (events l)"
        using settle_question_grows [OF sq [unfolded runs_onD [OF ro]] T(2)] by (simp add: runs_onD [OF ro])
      moreover have "events_of en s1 = events_of en s" by (rule read_interrupt_log [OF went(1)])
      moreover have "events_of en s' = events l"
        using went(2) sq by (auto simp: runs_onD [OF ro] split: sum.splits)
      ultimately have "grown T (events_of en s) (events_of en s')" by (simp add: runs_onD [OF ro])
      then show ?thesis using went(2) sq
        by (auto simp: Asked refused_call_def split: sum.splits option.splits)
    qed (auto simp: read_interrupt_def Let_def)
  next
    case (Cleared n c')
    from assms(1) [unfolded Cleared dispatch_step.simps] show ?thesis
    proof (cases rule: andthen_cases)
      case (went a s1)
      with q show ?thesis unfolding Cleared by (auto simp: answer_def dest: ask_grows)
    qed (use q Cleared in \<open>auto dest: ask_grows ask_stop\<close>)
  next
    case (Ran n c' out)
    from assms(1) [unfolded Ran dispatch_step.simps] show ?thesis
    proof (cases rule: andthen_cases)
      case (went a s1)
      with q show ?thesis unfolding Ran by (auto simp: answer_def dest: ask_grows)
    qed (use q Ran in \<open>auto dest: ask_grows ask_stop\<close>)
  qed (use assms(3) in simp)
qed

end

section \<open>The pool keeps its books\<close>

definition call_at :: "session_event list \<Rightarrow> tool_call \<Rightarrow> nat \<Rightarrow> bool" where
  "call_at es c n \<longleftrightarrow> n < length es \<and> ty (es ! n) = ''tool/call'' \<and> jstr (data (es ! n)) ''id'' = tc_id c"

definition results_in :: "session_event list \<Rightarrow> session_event list" where
  "results_in es = filter (\<lambda>e. ty e = ''tool/result'') es"

definition calls_in :: "session_event list \<Rightarrow> session_event list" where
  "calls_in es = filter (\<lambda>e. ty e = ''tool/call'') es"

lemma call_at_append: "call_at es c n \<Longrightarrow> call_at (es @ new) c n"
  by (auto simp: call_at_def nth_append)

lemma flow_none:
  assumes "\<forall>e\<in>set new. ty e \<notin> flow_results"
  shows "results_in new = []" and "calls_in new = []"
  using assms by (auto simp: results_in_def calls_in_def flow_results_def filter_empty_conv)

text \<open>
  \<open>a\<close> assigns to each call that has one the number of its \<^verbatim>\<open>tool/call\<close> on the log
  \<open>base @ new\<close>: no two share one, the calls in flight (\<open>fl\<close>), the settled (\<open>se\<close>) and the
  \<open>co\<close> committed results all carry it, and the committed ones are the first ones, in order.
\<close>

definition books ::
  "session_event list \<Rightarrow> tool_call list \<Rightarrow> (nat \<times> phase) list \<Rightarrow> (nat, settled) omap \<Rightarrow> nat \<Rightarrow> nat
   \<Rightarrow> session_event list \<Rightarrow> (nat \<rightharpoonup> nat) \<Rightarrow> bool"
where
  "books base calls fl se sta co new a \<longleftrightarrow>
     sta \<le> length calls \<and> distinct (map fst fl) \<and> om_wf se
     \<and> fst ` set fl \<inter> fst ` set se = {}
     \<and> (\<forall>i\<in>fst ` set fl \<union> fst ` set se. co \<le> i)
     \<and> fst ` set fl \<union> fst ` set se \<union> {..<co} = {..<sta}
     \<and> (\<forall>(i, ph)\<in>set fl. a i = phase_seq ph)
     \<and> (\<forall>(i, st)\<in>set se. a i = Some (st_seq st))
     \<and> dom a \<subseteq> {..<sta} \<and> inj_on a (dom a)
     \<and> (\<forall>i n. a i = Some n \<longrightarrow> length base \<le> n \<and> call_at (base @ new) (calls ! i) n)
     \<and> map source_event_seqs (results_in new) = map (\<lambda>k. map_option (\<lambda>n. [n]) (a k)) [0..<co]
     \<and> {..<co} \<subseteq> dom a
     \<and> length (calls_in new) = card (dom a)"

lemma booksD:
  assumes "books base calls fl se sta co new a"
  shows "sta \<le> length calls" and "distinct (map fst fl)" and "om_wf se"
    and "fst ` set fl \<inter> fst ` set se = {}"
    and "\<forall>i\<in>fst ` set fl \<union> fst ` set se. co \<le> i"
    and "fst ` set fl \<union> fst ` set se \<union> {..<co} = {..<sta}"
    and "\<forall>(i, ph)\<in>set fl. a i = phase_seq ph"
    and "\<forall>(i, st)\<in>set se. a i = Some (st_seq st)"
    and "dom a \<subseteq> {..<sta}" and "inj_on a (dom a)"
    and "\<forall>i n. a i = Some n \<longrightarrow> length base \<le> n \<and> call_at (base @ new) (calls ! i) n"
    and "map source_event_seqs (results_in new) = map (\<lambda>k. map_option (\<lambda>n. [n]) (a k)) [0..<co]"
    and "{..<co} \<subseteq> dom a" and "length (calls_in new) = card (dom a)"
  using assms unfolding books_def by - (elim conjE, assumption)+

lemma books_new: "books base calls [] [] 0 0 [] Map.empty"
  by (simp add: books_def results_in_def calls_in_def)

lemma books_grow:
  assumes "books base calls fl se sta co new a" and "\<forall>e\<in>set more'. ty e \<notin> flow_results"
  shows "books base calls fl se sta co (new @ more') a"
proof -
  note c = booksD [OF assms(1)]
  have 11: "\<forall>i n. a i = Some n \<longrightarrow> length base \<le> n \<and> call_at (base @ new @ more') (calls ! i) n"
    using c(11) call_at_append [of "base @ new" _ _ more'] by simp
  have 12: "results_in (new @ more') = results_in new" and 14: "calls_in (new @ more') = calls_in new"
    using flow_none [OF assms(2)] by (simp_all add: results_in_def calls_in_def)
  show ?thesis unfolding books_def 12 14 by (intro conjI; rule 11 c)
qed

lemma books_start:
  assumes "books base calls fl se sta co new a" and "sta < length calls"
  shows "books base calls (fl @ [(sta, Fresh)]) se (sta + 1) co new a"
proof -
  note c = booksD [OF assms(1)]
  have out: "sta \<notin> fst ` set fl \<union> fst ` set se \<union> {..<co}" unfolding c(6) by simp
  then have le: "co \<le> sta" by simp
  have none: "a sta = None" using c(9) by (meson domIff lessThan_iff less_irrefl subsetD)
  have 2: "distinct (map fst (fl @ [(sta, Fresh)]))" using c(2) out by auto
  have 4: "fst ` set (fl @ [(sta, Fresh)]) \<inter> fst ` set se = {}" using c(4) out by auto
  have 5: "\<forall>i\<in>fst ` set (fl @ [(sta, Fresh)]) \<union> fst ` set se. co \<le> i" using c(5) le by auto
  have 6: "fst ` set (fl @ [(sta, Fresh)]) \<union> fst ` set se \<union> {..<co} = {..<sta + 1}"
    using c(6) by (simp add: lessThan_Suc)
  have 7: "\<forall>(i, ph)\<in>set (fl @ [(sta, Fresh)]). a i = phase_seq ph" using c(7) none by auto
  have 9: "dom a \<subseteq> {..<sta + 1}" using c(9) by force
  have 1: "sta + 1 \<le> length calls" using assms(2) by simp
  show ?thesis unfolding books_def by (intro conjI; rule 1 2 4 5 6 7 9 c)
qed

abbreviation pool_books ::
  "session_event list \<Rightarrow> tool_call list \<Rightarrow> pool \<Rightarrow> session_event list \<Rightarrow> (nat \<rightharpoonup> nat) \<Rightarrow> bool"
where
  "pool_books base calls p \<equiv> books base calls (p_flight p) (p_settled p) (p_started p) (p_committed p)"

lemma fill_books:
  assumes "pool_books base calls p new a" and "cs = drop (p_started p) calls"
  shows "pool_books base calls (fill_pool en cs p) new a"
  using assms
proof (induction cs arbitrary: p)
  case (Cons c cs)
  let ?p = "p\<lparr>p_flight := p_flight p @ [(p_started p, Fresh)], p_started := p_started p + 1\<rparr>"
  have room: "p_started p < length calls" using Cons.prems(2) by (metis drop_all list.distinct(1) not_less)
  have "pool_books base calls ?p new a" using books_start [OF Cons.prems(1) room] by simp
  moreover have "drop (Suc (p_started p)) calls = tl (c # cs)"
    unfolding Cons.prems(2) by (simp add: drop_Suc tl_drop)
  then have "cs = drop (p_started ?p) calls" by simp
  ultimately have "pool_books base calls (fill_pool en cs ?p) new a" by (rule Cons.IH)
  then show ?case using Cons.prems(1) by simp
qed simp

lemma fst_update: "k < length xs \<Longrightarrow> xs ! k = (i, x) \<Longrightarrow> map fst (xs[k := (i, y)]) = map fst xs"
  by (metis fst_conv list_update_id map_update)

lemma set_update_fst:
  assumes "distinct (map fst xs)" and "k < length xs" and "xs ! k = (i, x)"
  shows "set (xs[k := (i, y)]) = insert (i, y) (set xs - {(i, x)})"
  using assms set_update_distinct [of xs k "(i, y)"] by (simp add: distinct_map)

lemma set_without:
  assumes "distinct (map fst xs)" and "k < length xs" and "xs ! k = (i, x)"
  shows "fst ` set (take k xs @ drop (k + 1) xs) = fst ` set xs - {i}"
    and "set (take k xs @ drop (k + 1) xs) \<subseteq> set xs"
    and "distinct (map fst (take k xs @ drop (k + 1) xs))"
proof -
  have xs: "xs = take k xs @ (i, x) # drop (k + 1) xs" using assms(2,3) id_take_nth_drop by fastforce
  then have "distinct (map fst (take k xs @ (i, x) # drop (k + 1) xs))" using assms(1) by simp
  then show "distinct (map fst (take k xs @ drop (k + 1) xs))" by auto
  have "i \<notin> fst ` set (take k xs @ drop (k + 1) xs)"
    using \<open>distinct (map fst (take k xs @ (i, x) # drop (k + 1) xs))\<close> by auto
  moreover have "fst ` set xs = insert i (fst ` set (take k xs @ drop (k + 1) xs))"
    by (subst xs) (auto simp: image_Un)
  ultimately show "fst ` set (take k xs @ drop (k + 1) xs) = fst ` set xs - {i}" by auto
  show "set (take k xs @ drop (k + 1) xs) \<subseteq> set xs"
    using set_take_subset set_drop_subset by fastforce
qed

lemma books_fresh:
  assumes core: "books base calls fl se sta co new a" and k: "k < length fl"
    and at: "fl ! k = (i, Fresh)"
    and e: "ty e = ''tool/call''" "jstr (data e) ''id'' = tc_id (calls ! i)"
  shows "books base calls (fl[k := (i, Called (length (base @ new)))]) se sta co
    (new @ [e]) (a(i \<mapsto> length (base @ new)))"
proof -
  let ?n = "length (base @ new)" and ?fl' = "fl[k := (i, Called (length (base @ new)))]"
  note c = booksD [OF core]
  have fl_set: "set ?fl' = insert (i, Called ?n) (set fl - {(i, Fresh)})"
    by (rule set_update_fst [OF c(2) k at])
  have mem: "(i, Fresh) \<in> set fl" using k at nth_mem by fastforce
  then have imem: "i \<in> fst ` set fl" by force
  have ai: "a i = None" using bspec [OF c(7) mem] by simp
  have i: "i < sta" using imem c(6) by blast
  have fst_fl: "fst ` set ?fl' = fst ` set fl"
    by (metis fst_update [OF k at] set_map)
  have only: "\<forall>(j, ph)\<in>set fl - {(i, Fresh)}. j \<noteq> i"
    using c(2) mem unfolding distinct_map inj_on_def by fastforce
  have inj: "inj_on (a(i \<mapsto> ?n)) (dom (a(i \<mapsto> ?n)))"
  proof (rule inj_onI)
    fix x y
    assume "x \<in> dom (a(i \<mapsto> ?n))" and "y \<in> dom (a(i \<mapsto> ?n))" and "(a(i \<mapsto> ?n)) x = (a(i \<mapsto> ?n)) y"
    moreover have "a j \<noteq> Some ?n" for j using c(11) by (auto simp: call_at_def)
    ultimately show "x = y" using inj_onD [OF c(10), of x y]
      by (cases "x = i"; cases "y = i") (force simp: dom_def)+
  qed
  have at_n: "call_at (base @ new @ [e]) (calls ! i) ?n"
    using e by (simp add: call_at_def nth_append)
  have "finite (dom a)" using c(9) finite_subset by blast
  then have card: "card (dom (a(i \<mapsto> ?n))) = Suc (card (dom a))" using ai by (simp add: domIff)
  show ?thesis
    unfolding books_def fst_fl
  proof (intro conjI)
    show "distinct (map fst ?fl')" using c(2) by (simp add: fst_update [OF k at])
    show "\<forall>(j, ph)\<in>set ?fl'. (a(i \<mapsto> ?n)) j = phase_seq ph"
    proof clarify
      fix j x assume "(j, x) \<in> set ?fl'"
      then consider "j = i" "x = Called ?n" | "(j, x) \<in> set fl" "(j, x) \<in> set fl - {(i, Fresh)}"
        unfolding fl_set by blast
      then show "(a(i \<mapsto> ?n)) j = phase_seq x"
      proof cases
        case 2
        then have "j \<noteq> i" using only by blast
        then show ?thesis using 2(1) c(7) by auto
      qed simp
    qed
    have "i \<notin> fst ` set se" using imem c(4) by blast
    then show "\<forall>(j, st)\<in>set se. (a(i \<mapsto> ?n)) j = Some (st_seq st)"
      using c(8) by force
    show "\<forall>j m. (a(i \<mapsto> ?n)) j = Some m \<longrightarrow> length base \<le> m \<and> call_at (base @ new @ [e]) (calls ! j) m"
      using at_n c(11) call_at_append [of "base @ new" _ _ "[e]"] by auto
    have "co \<le> i" using imem c(5) by blast
    then show "map source_event_seqs (results_in (new @ [e])) =
        map (\<lambda>k. map_option (\<lambda>n. [n]) ((a(i \<mapsto> ?n)) k)) [0..<co]"
      using c(12) e(1) by (simp add: results_in_def)
    show "{..<co} \<subseteq> dom (a(i \<mapsto> ?n))" using c(13) by auto
    show "length (calls_in (new @ [e])) = card (dom (a(i \<mapsto> ?n)))"
      unfolding card using c(14) e(1) by (simp add: calls_in_def)
    show "dom (a(i \<mapsto> ?n)) \<subseteq> {..<sta}" using c(9) i by auto
  qed (rule c inj)+
qed

lemma books_later:
  assumes core: "books base calls fl se sta co new a" and k: "k < length fl"
    and at: "fl ! k = (i, ph)" and same: "phase_seq ph' = phase_seq ph"
  shows "books base calls (fl[k := (i, ph')]) se sta co new a"
proof -
  note c = booksD [OF core]
  let ?fl' = "fl[k := (i, ph')]"
  have fl_set: "set ?fl' = insert (i, ph') (set fl - {(i, ph)})"
    by (rule set_update_fst [OF c(2) k at])
  have mem: "(i, ph) \<in> set fl" using k at nth_mem by fastforce
  have fst_fl: "fst ` set ?fl' = fst ` set fl"
    by (metis fst_update [OF k at] set_map)
  have "a i = phase_seq ph'" using bspec [OF c(7) mem] same by simp
  then have 7: "\<forall>(j, x)\<in>set ?fl'. a j = phase_seq x"
    using c(7) unfolding fl_set by blast
  have 2: "distinct (map fst ?fl')" using c(2) by (simp add: fst_update [OF k at])
  show ?thesis
    unfolding books_def fst_fl by (intro conjI; rule 2 7 c)
qed

lemma books_settle:
  assumes core: "books base calls fl se sta co new a" and k: "k < length fl"
    and at: "fl ! k = (i, ph)" and s: "phase_seq ph = Some (st_seq st)"
  shows "books base calls (take k fl @ drop (k + 1) fl) (om_insert i st se) sta co new a"
proof -
  note c = booksD [OF core]
  note w = set_without [OF c(2) k at]
  let ?fl' = "take k fl @ drop (k + 1) fl" and ?se' = "om_insert i st se"
  have mem: "(i, ph) \<in> set fl" using k at nth_mem by fastforce
  then have imem: "i \<in> fst ` set fl" by force
  have ai: "a i = Some (st_seq st)" using bspec [OF c(7) mem] s by simp
  have wf: "om_wf ?se'" using c(3) by (rule om_wf_insert)
  have 8: "\<forall>(j, x)\<in>set ?se'. a j = Some (st_seq x)"
  proof (clarify)
    fix j x assume "(j, x) \<in> set ?se'"
    then have "map_of ?se' j = Some x" using om_wf_map_of_iff [OF wf] by blast
    then have "j = i \<and> x = st \<or> map_of se j = Some x" by (auto split: if_splits)
    then have "j = i \<and> x = st \<or> (j, x) \<in> set se" by (blast dest: map_of_SomeD)
    then show "a j = Some (st_seq x)" using ai c(8) by blast
  qed
  have 7: "\<forall>(j, x)\<in>set ?fl'. a j = phase_seq x" using w(2) c(7) by blast
  have 4: "fst ` set ?fl' \<inter> fst ` set ?se' = {}"
    using c(4) unfolding w(1) keys_om_insert by blast
  have both: "fst ` set ?fl' \<union> fst ` set ?se' = fst ` set fl \<union> fst ` set se"
    using imem unfolding w(1) keys_om_insert by blast
  show ?thesis
    unfolding books_def both by (intro conjI; rule w(3) wf 4 7 8 c)
qed

lemma books_commit:
  assumes core: "books base calls fl se sta co new a" and r: "map_of se co = Some st"
    and e: "ty e = ''tool/result''" "source_event_seqs e = Some [st_seq st]"
  shows "books base calls fl (om_remove co se) sta (co + 1) (new @ [e]) a"
proof -
  note c = booksD [OF core]
  let ?se' = "om_remove co se"
  have mem: "(co, st) \<in> set se" using r by (rule map_of_SomeD)
  have ac: "a co = Some (st_seq st)" using bspec [OF c(8) mem] by simp
  have rem: "set ?se' \<subseteq> set se" by (auto simp: om_remove_def)
  have keys: "fst ` set ?se' = fst ` set se - {co}" by (auto simp: om_remove_def)
  have cmem: "co \<in> fst ` set se" using mem by force
  then have notfl: "co \<notin> fst ` set fl" using c(4) by blast
  have 5: "\<forall>i\<in>fst ` set fl \<union> fst ` set ?se'. co + 1 \<le> i"
  proof
    fix i assume "i \<in> fst ` set fl \<union> fst ` set ?se'"
    then have "i \<in> fst ` set fl \<union> fst ` set se" and "i \<noteq> co"
      using notfl unfolding keys by auto
    then show "co + 1 \<le> i" using bspec [OF c(5)] by (metis Suc_eq_plus1 Suc_leI le_neq_implies_less)
  qed
  have 6: "fst ` set fl \<union> fst ` set ?se' \<union> {..<co + 1} = {..<sta}"
    using c(6) cmem unfolding keys Suc_eq_plus1 [symmetric] lessThan_Suc by blast
  have 3: "om_wf ?se'" using c(3) by (rule om_wf_remove)
  have 4: "fst ` set fl \<inter> fst ` set ?se' = {}" using c(4) unfolding keys by blast
  have 8: "\<forall>(i, st)\<in>set ?se'. a i = Some (st_seq st)" using c(8) rem by blast
  have 11: "\<forall>i n. a i = Some n \<longrightarrow> length base \<le> n \<and> call_at (base @ new @ [e]) (calls ! i) n"
    using c(11) call_at_append [of "base @ new" _ _ "[e]"] by simp
  have 12: "map source_event_seqs (results_in (new @ [e]))
      = map (\<lambda>k. map_option (\<lambda>n. [n]) (a k)) [0..<co + 1]"
    using c(12) e ac by (simp add: results_in_def)
  have 13: "{..<co + 1} \<subseteq> dom a" using c(13) ac by (auto simp: less_Suc_eq)
  have 14: "length (calls_in (new @ [e])) = card (dom a)" using c(14) e(1) by (simp add: calls_in_def)
  show ?thesis
    unfolding books_def by (intro conjI; rule 3 4 5 6 8 11 12 13 14 c)
qed

section \<open>Running a pool\<close>

definition pool_weight :: "tool_call list \<Rightarrow> pool \<Rightarrow> nat" where
  "pool_weight calls p =
     sum_list (map (weight \<circ> snd) (p_flight p)) + 7 * (length calls - p_started p)"

lemma fill_weight:
  "cs = drop (p_started p) calls \<Longrightarrow> pool_weight calls (fill_pool en cs p) \<le> pool_weight calls p"
proof (induction cs arbitrary: p)
  case (Cons c cs)
  let ?p = "p\<lparr>p_flight := p_flight p @ [(p_started p, Fresh)], p_started := p_started p + 1\<rparr>"
  have room: "p_started p < length calls" using Cons.prems by (metis drop_all list.distinct(1) not_less)
  have "drop (Suc (p_started p)) calls = tl (c # cs)"
    unfolding Cons.prems by (simp add: drop_Suc tl_drop)
  then have "pool_weight calls (fill_pool en cs ?p) \<le> pool_weight calls ?p" using Cons.IH [of ?p] by simp
  also have "\<dots> \<le> pool_weight calls p" using room by (simp add: pool_weight_def)
  finally show ?case by simp
qed simp

lemma fill_keeps:
  "p_failure (fill_pool en cs p) = p_failure p \<and> p_settled (fill_pool en cs p) = p_settled p
   \<and> p_committed (fill_pool en cs p) = p_committed p \<and> p_started p \<le> p_started (fill_pool en cs p)"
proof (induction cs arbitrary: p)
  case (Cons c cs)
  show ?case
    using Cons.IH [of "p\<lparr>p_flight := p_flight p @ [(p_started p, Fresh)], p_started := p_started p + 1\<rparr>"]
    by simp
qed simp

lemma fill_failed: "p_failure p \<noteq> None \<Longrightarrow> fill_pool en cs p = p"
  by (cases cs) simp_all

lemma fill_progress:
  assumes "p_flight (fill_pool en cs p) = []" and "p_failure p = None" and "0 < en_cap en" and "cs \<noteq> []"
  shows "0 < p_started (fill_pool en cs p)"
proof (cases cs)
  case (Cons c cs')
  show ?thesis
  proof (cases "0 < p_started p")
    case True
    then show ?thesis using fill_keeps [of en cs p] by linarith
  next
    case False
    let ?p = "p\<lparr>p_flight := p_flight p @ [(p_started p, Fresh)], p_started := p_started p + 1\<rparr>"
    have kept: "set (p_flight p) \<subseteq> set (p_flight (fill_pool en ds p))" for ds p
    proof (induction ds arbitrary: p)
      case (Cons d ds)
      show ?case
        using Cons.IH [of "p\<lparr>p_flight := p_flight p @ [(p_started p, Fresh)], p_started := p_started p + 1\<rparr>"]
        by auto
    qed simp
    have "p_flight p = []" using kept [of p cs] assms(1) by simp
    then have "fill_pool en cs p = fill_pool en cs' ?p" using Cons False assms by simp
    then show ?thesis using fill_keeps [of en cs' ?p] by simp
  qed
qed (use assms in simp)

context session_log
begin

lemma commit_tool_result_ok:
  assumes "commit_tool_result en st s = (r, s')" and ro: "runs_on append events en"
  shows "(\<forall>x. r = Inl x \<longrightarrow> (\<exists>y. x = Fault y))
    \<and> (r = Inr () \<longrightarrow> (\<exists>e more'. events_of en s' = events_of en s @ e # more' \<and> ty e = ''tool/result''
        \<and> source_event_seqs e = Some [st_seq st] \<and> (\<forall>x\<in>set more'. ty x \<notin> flow_results)))"
  using assms(1) unfolding commit_tool_result_def Let_def
proof (cases rule: andthen_cases)
  case (stopped x)
  with log_event_err [OF stopped(1) ro] show ?thesis by auto
next
  case (went e s1)
  have "''agent/inbox/spliced'' \<notin> flow_results" by (simp add: flow_results_def)
  from queue_contexts_grows [OF went(2) ro this] log_event_ok [OF went(1) ro]
  show ?thesis by (auto simp: grown_def)
qed

lemma commit_next_keeps:
  assumes "commit_next en st p s = (p', s')"
  shows "p_flight p' = p_flight p \<and> p_started p' = p_started p \<and> (p_failure p \<noteq> None \<longrightarrow> p_failure p' \<noteq> None)"
  using assms by (auto simp: commit_next_def split: prod.splits sum.splits stop.splits)

lemma commit_ready_step:
  "p_failure p = None \<Longrightarrow> map_of (p_settled p) (p_committed p) = Some st \<Longrightarrow>
     commit_next en st p s = (p1, s1) \<Longrightarrow> commit_ready en p s = commit_ready en p1 s1"
  by (subst commit_ready.simps) simp

lemma commit_ready_stop:
  "p_failure p \<noteq> None \<or> map_of (p_settled p) (p_committed p) = None \<Longrightarrow> commit_ready en p s = (p, s)"
  by (subst commit_ready.simps) auto

lemma commit_ready_keeps:
  "commit_ready en p s = (p', s') \<Longrightarrow>
     p_flight p' = p_flight p \<and> p_started p' = p_started p \<and> (p_failure p \<noteq> None \<longrightarrow> p_failure p' \<noteq> None)"
proof (induction en p s rule: commit_ready.induct)
  case (1 en p s)
  show ?case
  proof (cases "p_failure p \<noteq> None \<or> map_of (p_settled p) (p_committed p) = None")
    case False
    then obtain st where st: "p_failure p = None" "map_of (p_settled p) (p_committed p) = Some st" by auto
    obtain p1 s1 where n: "commit_next en st p s = (p1, s1)" by fastforce
    with "1.prems" commit_ready_step [OF st n] have "commit_ready en p1 s1 = (p', s')" by simp
    with "1.IH" [OF _ st(2) n [symmetric]] commit_next_keeps [OF n] st(1) show ?thesis by simp
  next
    case True
    then have "commit_ready en p s = (p, s)" by (rule commit_ready_stop)
    with "1.prems" show ?thesis by simp
  qed
qed

lemma commit_next_books:
  assumes n: "commit_next en st p s = (p1, s1)" and ro: "runs_on append events en"
    and st: "map_of (p_settled p) (p_committed p) = Some st" and ok: "p_failure p1 = None"
    and b: "pool_books base calls p new a" "events_of en s = base @ new"
  shows "\<exists>new'. events_of en s1 = base @ new' \<and> pool_books base calls p1 new' a"
proof -
  obtain r where r: "commit_tool_result en st s = (r, s1)"
    using n by (auto simp: commit_next_def split: prod.splits)
  have "r = Inr ()"
    using commit_tool_result_ok [OF r ro] n r ok by (cases r) (auto simp: commit_next_def)
  with commit_tool_result_ok [OF r ro] obtain e rest where e:
    "events_of en s1 = events_of en s @ e # rest" "ty e = ''tool/result''"
    "source_event_seqs e = Some [st_seq st]" "\<forall>x\<in>set rest. ty x \<notin> flow_results" by blast
  have "pool_books base calls p1 ((new @ [e]) @ rest) a"
    using books_grow [OF books_commit [OF b(1) st e(2,3)] e(4)] n r by (auto simp: commit_next_def)
  then show ?thesis using e(1) b(2) by auto
qed

lemma commit_ready_books:
  "commit_ready en p s = (p', s') \<Longrightarrow> runs_on append events en \<Longrightarrow> p_failure p' = None \<Longrightarrow>
     pool_books base calls p new a \<Longrightarrow> events_of en s = base @ new \<Longrightarrow>
     \<exists>new'. events_of en s' = base @ new' \<and> pool_books base calls p' new' a
       \<and> map_of (p_settled p') (p_committed p') = None"
proof (induction en p s arbitrary: new rule: commit_ready.induct)
  case (1 en p s)
  show ?case
  proof (cases "p_failure p \<noteq> None \<or> map_of (p_settled p) (p_committed p) = None")
    case True
    then have "commit_ready en p s = (p, s)" by (rule commit_ready_stop)
    with 1 True show ?thesis by auto
  next
    case False
    then obtain st where st: "p_failure p = None" "map_of (p_settled p) (p_committed p) = Some st" by auto
    obtain p1 s1 where n: "commit_next en st p s = (p1, s1)" by fastforce
    with "1.prems" commit_ready_step [OF st n] have r: "commit_ready en p1 s1 = (p', s')" by simp
    have "p_failure p1 = None" using commit_ready_keeps [OF r] "1.prems"(3) by blast
    from commit_next_books [OF n "1.prems"(2) st(2) this "1.prems"(4,5)] obtain new1 where
      "events_of en s1 = base @ new1" "pool_books base calls p1 new1 a" by blast
    with "1.IH" [OF _ st(2) n [symmetric] refl r "1.prems"(2,3)] st(1) show ?thesis by simp
  qed
qed

text \<open>One turn of the pool's loop, by what it did.\<close>

lemma run_pool_cases:
  assumes "run_pool (Suc fuel) en turn calls p s = (r, s')"
  obtains (over) "p_flight (fill_pool en (drop (p_started p) calls) p) = []" and "s' = s"
      and "r = (case p_failure p of Some x \<Rightarrow> Inl (Fault x) | None \<Rightarrow>
             Inr (p_started (fill_pool en (drop (p_started p) calls) p)))"
  | (went) p1 k i ph s1 d s2 where "p1 = fill_pool en (drop (p_started p) calls) p"
      and "k < length (p_flight p1)" and "p_flight p1 ! k = (i, ph)"
      and "pick (length (p_flight p1)) s = (Inr k, s1)"
      and "dispatch_step en turn (calls ! i) ph s1 = (d, s2)"
      and "case d of
             Inr (Inl ph1) \<Rightarrow> run_pool fuel en turn calls (p1\<lparr>p_flight := (p_flight p1)[k := (i, ph1)]\<rparr>) s2 = (r, s')
           | Inr (Inr st) \<Rightarrow> (\<exists>p2 s3. commit_ready en
               (p1\<lparr>p_flight := take k (p_flight p1) @ drop (k + 1) (p_flight p1),
                   p_settled := om_insert i st (p_settled p1)\<rparr>) s2 = (p2, s3)
               \<and> run_pool fuel en turn calls p2 s3 = (r, s'))
           | Inl (Fault x) \<Rightarrow> run_pool fuel en turn calls
               (p1\<lparr>p_flight := take k (p_flight p1) @ drop (k + 1) (p_flight p1),
                   p_failure := Some (case p_failure p1 of Some f \<Rightarrow> f | None \<Rightarrow> x)\<rparr>) s2 = (r, s')
           | Inl x \<Rightarrow> r = Inl x"
proof (cases "p_flight (fill_pool en (drop (p_started p) calls) p) = []")
  case True
  with assms fill_keeps [of en "drop (p_started p) calls" p] show thesis
    by (intro over) (auto simp: Let_def split: option.splits)
next
  case False
  let ?p1 = "fill_pool en (drop (p_started p) calls) p"
  obtain k s1 where k: "pick (length (p_flight ?p1)) s = (Inr k, s1)" using pick_answers by blast
  have kl: "k < length (p_flight ?p1)" using pick_bound [OF k] False by simp
  obtain i ph where at: "p_flight ?p1 ! k = (i, ph)" by fastforce
  obtain d s2 where d: "dispatch_step en turn (calls ! i) ph s1 = (d, s2)" by fastforce
  show thesis
    by (rule went [OF refl kl at k d])
      (use assms False k at d in \<open>auto simp: Let_def split: sum.splits stop.splits prod.splits\<close>)
qed

lemma flight_weight:
  assumes "k < length xs" and "xs ! k = (i, ph)"
  shows "sum_list (map (weight \<circ> snd) (xs[k := (i, ph')])) + weight ph
      = sum_list (map (weight \<circ> snd) xs) + weight ph'"
    and "sum_list (map (weight \<circ> snd) (take k xs @ drop (k + 1) xs)) + weight ph
      = sum_list (map (weight \<circ> snd) xs)"
proof -
  have xs: "xs = take k xs @ (i, ph) # drop (k + 1) xs" using assms id_take_nth_drop by fastforce
  have up: "xs[k := (i, ph')] = take k xs @ (i, ph') # drop (k + 1) xs"
    using assms(1) upd_conv_take_nth_drop by fastforce
  show "sum_list (map (weight \<circ> snd) (take k xs @ drop (k + 1) xs)) + weight ph
      = sum_list (map (weight \<circ> snd) xs)"
    by (subst (3) xs) simp
  then show "sum_list (map (weight \<circ> snd) (xs[k := (i, ph')])) + weight ph
      = sum_list (map (weight \<circ> snd) xs) + weight ph'"
    unfolding up by simp
qed

text \<open>Every turn of the loop brings a call nearer to its end, so the fuel suffices.\<close>

lemma weight_pos: "0 < weight ph"
  by (cases ph) simp_all

lemma run_pool_ends:
  assumes ro: "runs_on append events en" and qt: "quiet_tools flow_results en"
  shows "pool_weight calls p < fuel \<Longrightarrow> fst (run_pool fuel en turn calls p s) \<noteq> Inl NoFuel"
proof (induction fuel arbitrary: p s)
  case (Suc fuel)
  obtain r s' where r: "run_pool (Suc fuel) en turn calls p s = (r, s')" by fastforce
  have T: "''approval/asked'' \<notin> flow_results" "''approval/decided'' \<notin> flow_results"
    by (simp_all add: flow_results_def)
  from r have "r \<noteq> Inl NoFuel"
  proof (cases rule: run_pool_cases)
    case (went p1 k i ph s1 d s2)
    have le: "pool_weight calls p1 \<le> pool_weight calls p" unfolding went(1) by (rule fill_weight) simp
    note fw = flight_weight [OF went(2,3)]
    have step: "d \<noteq> Inl NoFuel \<and> (\<forall>ph1. d = Inr (Inl ph1) \<longrightarrow> weight ph1 < weight ph)"
    proof (cases "ph = Fresh")
      case True
      show ?thesis
      proof (cases d)
        case (Inl x)
        from went(5) [unfolded True dispatch_step.simps] Inl show ?thesis
          by (cases rule: andthen_cases) (auto simp: answer_def dest: log_event_err [OF _ ro])
      next
        case (Inr y)
        from dispatch_fresh [OF went(5) [unfolded True Inr] ro] True Inr show ?thesis by auto
      qed
    next
      case False
      from dispatch_later [OF went(5) ro False qt T] show ?thesis by blast
    qed
    have wp: "0 < weight ph" by (rule weight_pos)
    show ?thesis
    proof (cases d)
      case (Inl x)
      show ?thesis
      proof (cases x)
        case (Fault f)
        let ?p = "p1\<lparr>p_flight := take k (p_flight p1) @ drop (k + 1) (p_flight p1),
          p_failure := Some (case p_failure p1 of Some f \<Rightarrow> f | None \<Rightarrow> f)\<rparr>"
        have "pool_weight calls ?p < fuel" using Suc.prems le fw(2) wp by (simp add: pool_weight_def)
        from Suc.IH [OF this, of s2] went(6) Inl Fault show ?thesis by simp
      qed (use went(6) Inl step in auto)
    next
      case (Inr y)
      show ?thesis
      proof (cases y)
        case (Inl ph1)
        let ?p = "p1\<lparr>p_flight := (p_flight p1)[k := (i, ph1)]\<rparr>"
        have "pool_weight calls ?p < fuel"
          using Suc.prems le fw(1) [of ph1] step Inr Inl by (simp add: pool_weight_def)
        from Suc.IH [OF this, of s2] went(6) Inr Inl show ?thesis by simp
      next
        case st: (Inr st)
        from went(6) Inr st obtain p2 s3 where c: "commit_ready en
            (p1\<lparr>p_flight := take k (p_flight p1) @ drop (k + 1) (p_flight p1),
                p_settled := om_insert i st (p_settled p1)\<rparr>) s2 = (p2, s3)"
          and rest: "run_pool fuel en turn calls p2 s3 = (r, s')" by auto
        have "pool_weight calls p2 < fuel"
          using commit_ready_keeps [OF c] Suc.prems le fw(2) wp by (simp add: pool_weight_def)
        from Suc.IH [OF this, of s3] rest show ?thesis by simp
      qed
    qed
  qed (auto split: option.splits)
  with r show ?case by simp
qed simp

lemma run_pool_failed:
  "p_failure p \<noteq> None \<Longrightarrow> run_pool fuel en turn calls p s = (r, s') \<Longrightarrow> \<exists>x. r = Inl x"
proof (induction fuel arbitrary: p s)
  case (Suc fuel)
  from Suc.prems(2) show ?case
  proof (cases rule: run_pool_cases)
    case over
    with Suc.prems(1) show ?thesis by auto
  next
    case (went p1 k i ph s1 d s2)
    have f: "p_failure p1 \<noteq> None" using Suc.prems(1) went(1) fill_failed by metis
    show ?thesis
    proof (cases d)
      case (Inl x)
      then show ?thesis using went(6) by (cases x) (auto dest: Suc.IH [rotated])
    next
      case (Inr y)
      then show ?thesis using went(6) f
        by (cases y) (auto dest!: Suc.IH [rotated] commit_ready_keeps)
    qed
  qed
qed auto

lemma books_over:
  assumes "books base calls [] se sta co new a" and "map_of se co = None"
  shows "co = sta \<and> se = []"
proof -
  note c = booksD [OF assms(1)]
  have not_co: "co \<notin> fst ` set se" using assms(2) by (simp add: map_of_eq_None_iff)
  then have "co \<notin> {..<sta}" unfolding c(6) [symmetric] by simp
  then have "sta \<le> co" by simp
  moreover have "co \<le> sta"
  proof (cases co)
    case (Suc m)
    then have "m \<in> {..<sta}" unfolding c(6) [symmetric] by simp
    with Suc show ?thesis by simp
  qed simp
  ultimately have "co = sta" by simp
  moreover have "se = []"
  proof (rule ccontr)
    assume "se \<noteq> []"
    then have i: "fst (hd se) \<in> fst ` set se" by simp
    then have "fst (hd se) \<in> {..<sta}" unfolding c(6) [symmetric] by simp
    moreover have "co \<le> fst (hd se)" using i by (intro bspec [OF c(5)]) simp
    ultimately show False using \<open>co = sta\<close> by simp
  qed
  ultimately show ?thesis by simp
qed

lemma dispatch_books:
  assumes d: "dispatch_step en turn (calls ! i) ph s = (Inr y, s')" and ro: "runs_on append events en"
    and qt: "quiet_tools flow_results en"
    and b: "books base calls fl se sta co new a" and ev: "events_of en s = base @ new"
    and k: "k < length fl" and at: "fl ! k = (i, ph)"
  shows "\<exists>new' a'. events_of en s' = base @ new' \<and>
    (case y of
       Inl ph1 \<Rightarrow> books base calls (fl[k := (i, ph1)]) se sta co new' a'
     | Inr st \<Rightarrow> books base calls (take k fl @ drop (k + 1) fl) (om_insert i st se) sta co new' a')"
proof (cases "ph = Fresh")
  case True
  from dispatch_fresh [OF d [unfolded True] ro] obtain e where e:
    "events_of en s' = events_of en s @ [e]" "ty e = ''tool/call''" "jstr (data e) ''id'' = tc_id (calls ! i)"
    "y = Inl (Called (length (base @ new)))" unfolding ev by blast
  show ?thesis
    using books_fresh [OF b k at [unfolded True] e(2,3)] e(1,4) ev
    by (intro exI [of _ "new @ [e]"] exI [of _ "a(i \<mapsto> length (base @ new))"]) simp
next
  case False
  have T: "''approval/asked'' \<notin> flow_results" "''approval/decided'' \<notin> flow_results"
    by (simp_all add: flow_results_def)
  note later = dispatch_later [OF d ro False qt T]
  then obtain rest where rest: "events_of en s' = base @ new @ rest" "\<forall>e\<in>set rest. ty e \<notin> flow_results"
    using ev by (auto simp: grown_def)
  note g = books_grow [OF b rest(2)]
  show ?thesis
  proof (cases y)
    case (Inl ph1)
    with later have "phase_seq ph1 = phase_seq ph" by simp
    with books_later [OF g k at] rest(1) Inl show ?thesis by auto
  next
    case (Inr st)
    with later have "phase_seq ph = Some (st_seq st)" by simp
    with books_settle [OF g k at] rest(1) Inr show ?thesis by auto
  qed
qed

lemma run_pool_done:
  assumes ro: "runs_on append events en" and qt: "quiet_tools flow_results en" and cap: "0 < en_cap en"
  shows "run_pool fuel en turn calls p s = (Inr n, s') \<Longrightarrow> pool_books base calls p new a \<Longrightarrow>
    events_of en s = base @ new \<Longrightarrow> map_of (p_settled p) (p_committed p) = None \<Longrightarrow> p_failure p = None \<Longrightarrow>
    \<exists>new' a'. events_of en s' = base @ new' \<and> books base calls [] [] n n new' a' \<and> (calls \<noteq> [] \<longrightarrow> 0 < n)"
proof (induction fuel arbitrary: p s new a)
  case (Suc fuel)
  note b = fill_books [OF Suc.prems(2) refl, of en]
  note kp = fill_keeps [of en "drop (p_started p) calls" p]
  from Suc.prems(1) show ?case
  proof (cases rule: run_pool_cases)
    case over
    let ?p1 = "fill_pool en (drop (p_started p) calls) p"
    have "p_committed ?p1 = p_started ?p1 \<and> p_settled ?p1 = []"
      using books_over [of base calls "p_settled ?p1" "p_started ?p1" "p_committed ?p1" new a] b over(1) kp Suc.prems(4)
      by simp
    moreover have n: "n = p_started ?p1" using over(3) Suc.prems(5) by simp
    moreover have "calls \<noteq> [] \<longrightarrow> 0 < n"
    proof
      assume ne: "calls \<noteq> []"
      show "0 < n"
      proof (cases "p_started p")
        case 0
        show ?thesis unfolding n
          by (rule fill_progress [OF over(1) Suc.prems(5) cap]) (use 0 ne in simp)
      qed (use kp n in linarith)
    qed
    ultimately show ?thesis using b over(1,2) Suc.prems(3)
      by (intro exI [of _ new] exI [of _ a]) simp
  next
    case (went p1 k i ph s1 d s2)
    have b1: "pool_books base calls p1 new a" and dr: "map_of (p_settled p1) (p_committed p1) = None"
      and nf: "p_failure p1 = None"
      using b kp Suc.prems(4,5) unfolding went(1) by simp_all
    have ev: "events_of en s1 = base @ new" using pick_log [OF went(4), of en] Suc.prems(3) by simp
    obtain y where y: "d = Inr y"
    proof (cases d)
      case (Inl x)
      then have "\<exists>x. (Inr n :: stop + nat) = Inl x"
        using went(6) by (cases x) (auto dest: run_pool_failed [rotated])
      then show thesis by simp
    qed
    from dispatch_books [OF went(5) [unfolded y] ro qt b1 ev went(2,3)] obtain new1 a1 where
      ev1: "events_of en s2 = base @ new1" and b2: "case y of
       Inl ph1 \<Rightarrow> books base calls ((p_flight p1)[k := (i, ph1)]) (p_settled p1) (p_started p1) (p_committed p1) new1 a1
     | Inr st \<Rightarrow> books base calls (take k (p_flight p1) @ drop (k + 1) (p_flight p1))
         (om_insert i st (p_settled p1)) (p_started p1) (p_committed p1) new1 a1" by blast
    show ?thesis
    proof (cases y)
      case (Inl ph1)
      let ?p = "p1\<lparr>p_flight := (p_flight p1)[k := (i, ph1)]\<rparr>"
      have "run_pool fuel en turn calls ?p s2 = (Inr n, s')" using went(6) y Inl by simp
      from Suc.IH [OF this _ ev1] b2 Inl dr nf show ?thesis by simp
    next
      case (Inr st)
      let ?p = "p1\<lparr>p_flight := take k (p_flight p1) @ drop (k + 1) (p_flight p1),
        p_settled := om_insert i st (p_settled p1)\<rparr>"
      from went(6) y Inr obtain p2 s3 where c: "commit_ready en ?p s2 = (p2, s3)"
        and rest: "run_pool fuel en turn calls p2 s3 = (Inr n, s')" by auto
      have f2: "p_failure p2 = None" using run_pool_failed [OF _ rest] by fastforce
      have "pool_books base calls ?p new1 a1" using b2 Inr by simp
      from commit_ready_books [OF c ro f2 this ev1] obtain new2 where
        "events_of en s3 = base @ new2" "pool_books base calls p2 new2 a1"
        "map_of (p_settled p2) (p_committed p2) = None" by blast
      from Suc.IH [OF rest this(2,1,3) f2] show ?thesis .
    qed
  qed
qed simp

end

section \<open>Results in model order\<close>

text \<open>The results of a batch: one for each call, in order, each citing its own call.\<close>

definition answered_in_order ::
  "session_event list \<Rightarrow> session_event list \<Rightarrow> tool_call list \<Rightarrow> nat list \<Rightarrow> bool"
where
  "answered_in_order base new calls qs \<longleftrightarrow>
     distinct qs \<and> length qs = length calls
     \<and> map source_event_seqs (results_in new) = map (\<lambda>n. Some [n]) qs
     \<and> length (calls_in new) = length calls
     \<and> (\<forall>k < length calls. length base \<le> qs ! k \<and> call_at (base @ new) (calls ! k) (qs ! k))"

lemma answered_none: "answered_in_order base [] [] []"
  by (simp add: answered_in_order_def results_in_def calls_in_def)

lemma answered_books:
  assumes "books base calls [] [] n n new a"
  shows "n \<le> length calls" and "answered_in_order base new (take n calls) (map (the \<circ> a) [0..<n])"
proof -
  note c = booksD [OF assms]
  show le: "n \<le> length calls" by (rule c)
  have dom: "dom a = {..<n}" using c(9,13) by blast
  then have a: "a k = Some (the (a k))" if "k < n" for k using that by (metis domD lessThan_iff option.sel)
  have "inj_on (the \<circ> a) {..<n}"
    using c(10) unfolding dom inj_on_def comp_def by (metis a lessThan_iff)
  then have "distinct (map (the \<circ> a) [0..<n])" by (simp add: distinct_map atLeast0LessThan)
  moreover have "map source_event_seqs (results_in new) = map (\<lambda>n. Some [n]) (map (the \<circ> a) [0..<n])"
  proof -
    have "map_option (\<lambda>n. [n]) (a k) = Some [the (a k)]" if "k < n" for k using a [OF that] by (metis option.simps(9))
    then show ?thesis unfolding c(12) by simp
  qed
  moreover have "length (calls_in new) = n" using c(14) dom by simp
  moreover have "length base \<le> the (a k) \<and> call_at (base @ new) (calls ! k) (the (a k))" if "k < n" for k
    using c(11) a [OF that] by blast
  ultimately show "answered_in_order base new (take n calls) (map (the \<circ> a) [0..<n])"
    using le by (simp add: answered_in_order_def)
qed

lemma answered_append:
  assumes "answered_in_order base new calls qs" and "answered_in_order (base @ new) new' calls' qs'"
  shows "answered_in_order base (new @ new') (calls @ calls') (qs @ qs')"
proof -
  note a = assms(1) [unfolded answered_in_order_def] and b = assms(2) [unfolded answered_in_order_def]
  have "q < length (base @ new)" if "q \<in> set qs" for q
    using that a unfolding in_set_conv_nth call_at_def by auto
  moreover have "length (base @ new) \<le> q" if "q \<in> set qs'" for q
    using that b unfolding in_set_conv_nth by auto
  ultimately have "set qs \<inter> set qs' = {}" by fastforce
  moreover have "length base \<le> (qs @ qs') ! k \<and> call_at (base @ new @ new') ((calls @ calls') ! k) ((qs @ qs') ! k)"
    if k: "k < length (calls @ calls')" for k
  proof (cases "k < length calls")
    case True
    then have "call_at ((base @ new) @ new') (calls ! k) (qs ! k)" using a call_at_append by blast
    then show ?thesis using True a by (simp add: nth_append)
  next
    case False
    then have "k - length calls < length calls'" using k by simp
    with b have "length (base @ new) \<le> qs' ! (k - length calls)"
      and "call_at ((base @ new) @ new') (calls' ! (k - length calls)) (qs' ! (k - length calls))" by blast+
    then show ?thesis using False a by (simp add: nth_append)
  qed
  ultimately show ?thesis
    using a b unfolding answered_in_order_def by (simp add: results_in_def calls_in_def)
qed

context session_log
begin

lemma run_tool_group_done:
  assumes "run_tool_group en turn calls s = (Inr n, s')" and "runs_on append events en"
    and "quiet_tools flow_results en" and "0 < en_cap en" and "calls \<noteq> []"
  shows "\<exists>new qs. events_of en s' = events_of en s @ new \<and> 0 < n \<and> n \<le> length calls
    \<and> answered_in_order (events_of en s) new (take n calls) qs"
proof -
  have "pool_books (events_of en s) calls new_pool [] Map.empty"
    and "map_of (p_settled new_pool) (p_committed new_pool) = None" and "p_failure new_pool = None"
    by (simp_all add: new_pool_def books_new)
  with run_pool_done [OF assms(2,3,4) assms(1) [unfolded run_tool_group_def]]
  obtain new a where "events_of en s' = events_of en s @ new" "books (events_of en s) calls [] [] n n new a" "0 < n"
    using assms(5) by force
  with answered_books show ?thesis by blast
qed

lemma run_calls_done:
  assumes ro: "runs_on append events en" and qt: "quiet_tools flow_results en" and cap: "0 < en_cap en"
  shows "length calls < fuel \<Longrightarrow> run_calls fuel en turn calls s = (r, s') \<Longrightarrow>
    r \<noteq> Inl NoFuel \<and> (r = Inr () \<longrightarrow> (\<exists>new qs. events_of en s' = events_of en s @ new
      \<and> answered_in_order (events_of en s) new calls qs))"
proof (induction fuel arbitrary: calls s)
  case (Suc fuel)
  show ?case
  proof (cases calls)
    case Nil
    with Suc.prems answered_none show ?thesis by (auto simp: answer_def)
  next
    case (Cons c cs)
    let ?g = "if mode_of (en_tools en) c = Exclusive then [c] else c # cs"
    from Suc.prems(2) [unfolded Cons run_calls.simps] show ?thesis
    proof (cases rule: andthen_cases)
      case (stopped x)
      have "pool_weight ?g new_pool < 7 * length ?g + 1" by (simp add: pool_weight_def new_pool_def)
      from run_pool_ends [OF ro qt this, of turn s] stopped show ?thesis
        unfolding run_tool_group_def by auto
    next
      case (went n s1)
      have ne: "?g \<noteq> []" by simp
      from run_tool_group_done [OF went(1) ro qt cap ne] obtain new qs where g:
        "events_of en s1 = events_of en s @ new" "0 < n" "n \<le> length ?g"
        "answered_in_order (events_of en s) new (take n ?g) qs" by blast
      have le: "n \<le> length (c # cs)" and tk: "take n ?g = take n (c # cs)"
        using g(2,3) by (auto simp: take_Cons' split: if_splits)
      have "length (drop n (c # cs)) < fuel" using g(2) Suc.prems(1) Cons by simp
      from Suc.IH [OF this went(2)] have IH: "r \<noteq> Inl NoFuel" "r = Inr () \<longrightarrow> (\<exists>new qs.
          events_of en s' = events_of en s1 @ new \<and> answered_in_order (events_of en s1) new (drop n (c # cs)) qs)"
        by blast+
      show ?thesis
      proof (intro conjI impI)
        assume "r = Inr ()"
        with IH(2) obtain new' qs' where "events_of en s' = events_of en s1 @ new'"
          "answered_in_order (events_of en s1) new' (drop n (c # cs)) qs'" by blast
        with answered_append [of "events_of en s" new "take n (c # cs)" qs new' "drop n (c # cs)" qs'] g(1,4) tk
        have "events_of en s' = events_of en s @ new @ new'"
          and "answered_in_order (events_of en s) (new @ new') (c # cs) (qs @ qs')" by simp_all
        then show "\<exists>new qs. events_of en s' = events_of en s @ new \<and> answered_in_order (events_of en s) new calls qs"
          unfolding Cons by blast
      qed (rule IH)
    qed
  qed
qed simp

lemma run_tool_calls_done:
  assumes "run_tool_calls en turn calls s = (r, s')" and "runs_on append events en"
    and "quiet_tools flow_results en" and "0 < en_cap en"
  shows "r \<noteq> Inl NoFuel \<and> (r = Inr () \<longrightarrow> (\<exists>new qs. events_of en s' = events_of en s @ new
      \<and> answered_in_order (events_of en s) new calls qs))"
  using run_calls_done [OF assms(2-4), of calls "length calls + 1"] assms(1)
  unfolding run_tool_calls_def by simp

end

text \<open>
  C1. The calls of one step always come to an end, and when no failure stopped them the log holds,
  after what it held, one \<^verbatim>\<open>tool/call\<close> for each and one \<^verbatim>\<open>tool/result\<close> for each, the
  results in the order the model asked whatever order the pool ran and settled the calls in, and
  each result cites its own call and no other's.  This is so for every schedule of the executor
  and every answer of the tools, listeners and approvers, as long as none of them writes tool
  events into the log itself.
\<close>

theorem tool_results_in_order:
  assumes "run_tool_calls en turn calls s = (r, s')"
    and "en_append en = append_journal enc" and "en_events en = j_events"
    and "quiet_tools flow_results en" and "0 < en_cap en"
  shows "r \<noteq> Inl NoFuel \<and> (r = Inr () \<longrightarrow> (\<exists>new qs. j_events (e_log s') = j_events (e_log s) @ new
      \<and> distinct qs \<and> length qs = length calls
      \<and> map source_event_seqs (results_in new) = map (\<lambda>n. Some [n]) qs
      \<and> length (calls_in new) = length calls
      \<and> (\<forall>k < length calls. length (j_events (e_log s)) \<le> qs ! k
          \<and> call_at (j_events (e_log s')) (calls ! k) (qs ! k))))"
proof -
  have "runs_on (append_journal enc) j_events en" using assms(2,3) by (simp add: runs_on_def)
  from journal_log.run_tool_calls_done [OF assms(1) this assms(4,5)] assms(3) show ?thesis
    unfolding answered_in_order_def events_of_def by metis
qed

section \<open>A run\<close>

text \<open>
  Two calls of a tool that may overlap; the second one is let run to its end before the first one
  starts.
\<close>

definition demo_schema :: "string \<Rightarrow> tool_schema" where
  "demo_schema n = \<lparr>sc_name = n, sc_description = '''', sc_parameters = JNull\<rparr>"

definition echo_tool :: "journal tool" where
  "echo_tool = (plain_tool (demo_schema ''echo'') (\<lambda>args l. (Inr (Inr (outcome_ok (jstr args ''text''))), l)))
     \<lparr>tl_mode := \<lambda>_. Inr Overlapping\<rparr>"

definition demo_engine :: "journal engine" where
  "demo_engine = \<lparr>
     en_append = append_journal (\<lambda>e. Some ''x''), en_events = j_events,
     en_model = ''mock'', en_max_steps = 8, en_max_tokens = None, en_base_prompt = ''p'',
     en_cap = 2, en_order = None, en_window = None,
     en_guards = \<lparr>max_duration = None, repeat_bound = None\<rparr>, en_compaction = None,
     en_tools = register_tool echo_tool [], en_prompts = new_prompts, en_contexts = [],
     en_provider = ''mock'',
     en_adapter = (\<lambda>sink req w. (Inr (Inr \<lparr>rs_content = ''done'', rs_reasoning = '''', rs_calls = [],
        rs_finish = ''stop'', rs_usage = None\<rparr>), w)),
     en_summarize = (\<lambda>_ _. Inl EmptySummary),
     en_pre_step = [], en_assemble = [], en_request = [], en_stream = [], en_recover = [], en_pre_tool = [],
     en_permission = [], en_execute = [], en_post_tool = [], en_stopping = [],
     en_answerers = new_bus, en_race = (\<lambda>_ _. None),
     en_json_len = (\<lambda>_. 0), en_catalog_len = (\<lambda>_. 0), en_json_text = (\<lambda>_. ''''), en_debug = id,
     en_log_text = (\<lambda>_. ''''), en_compaction_text = (\<lambda>_. '''')\<rparr>"

definition demo_state :: "nat list \<Rightarrow> journal engine_state" where
  "demo_state picks = \<lparr>e_log = empty_journal [] [], e_inbox = new_inbox,
     e_approvals = new_approvals Ask 0 [], e_interrupt = new_interrupt, e_stops = [], e_picks = picks,
     e_clock = [], e_turns = 0, e_steps = 0, e_open_step = None\<rparr>"

definition demo_calls :: "tool_call list" where
  "demo_calls = [\<lparr>tc_id = ''a'', tc_name = ''echo'', tc_args = jobj [(''text'', JStr ''1'')]\<rparr>,
                 \<lparr>tc_id = ''b'', tc_name = ''echo'', tc_args = jobj [(''text'', JStr ''2'')]\<rparr>]"

lemma next_run_Nil [simp]: "next_run [] 0 terminal e l = terminal e l"
  by (subst next_run.simps) simp

lemma quiet_pass [simp]: "quiet_chain T ev [] (pass f)"
  by (simp add: quiet_chain_def pass_def)

lemma waterfall_no_one: "waterfall approval_event q fail_closed new_bus l = Some (Inr Unavailable, q, l)"
  by (rule unanswered_waterfall) (simp add: registered_def new_bus_def)

lemma demo_engine_parts:
  "en_append demo_engine = append_journal (\<lambda>e. Some ''x'')" "en_events demo_engine = j_events"
  "en_cap demo_engine = 2" "en_pre_tool demo_engine = []" "en_permission demo_engine = []"
  "en_execute demo_engine = []" "en_post_tool demo_engine = []" "en_answerers demo_engine = new_bus"
  "en_race demo_engine = (\<lambda>_ _. None)" "en_tools demo_engine = [(''echo'', echo_tool)]"
  by (simp_all add: demo_engine_def register_tool_def echo_tool_def plain_tool_def demo_schema_def)

lemma demo_engine_quiet: "quiet_tools T demo_engine"
proof -
  have "quiet_chain T j_events [] (dispatch_tool demo_engine)"
    by (auto simp: quiet_chain_def dispatch_tool_def execute_tool_def demo_engine_parts
        echo_tool_def plain_tool_def)
  then show ?thesis
    by (simp add: quiet_tools_def quiet_answerers_def demo_engine_parts waterfall_no_one)
qed

theorem tool_results_in_order_witness:
  "\<exists>s' new qs. run_tool_calls demo_engine 7 demo_calls (demo_state [1, 1, 1, 1, 1]) = (Inr (), s')
     \<and> j_events (e_log s') = new \<and> qs = [1, 0]
     \<and> map source_event_seqs (results_in new) = map (\<lambda>n. Some [n]) qs
     \<and> call_at new (demo_calls ! 0) (qs ! 0)"
proof -
  define a where "a = run_tool_calls demo_engine 7 demo_calls (demo_state [1, 1, 1, 1, 1])"
  have src: "map source_event_seqs (results_in (j_events (e_log (snd a)))) = [Some [1], Some [0]]"
    and ok: "case fst a of Inl _ \<Rightarrow> False | Inr _ \<Rightarrow> True" unfolding a_def by code_simp+
  obtain x s' where parts: "a = (x, s')" by fastforce
  with ok have "x = Inr ()" by (cases x) simp_all
  with parts have a: "run_tool_calls demo_engine 7 demo_calls (demo_state [1, 1, 1, 1, 1]) = (Inr (), s')"
    by (simp only: a_def)
  from tool_results_in_order [OF a demo_engine_parts(1,2) demo_engine_quiet] obtain new qs where
    r: "j_events (e_log s') = j_events (e_log (demo_state [1, 1, 1, 1, 1])) @ new"
    "map source_event_seqs (results_in new) = map (\<lambda>n. Some [n]) qs"
    "\<forall>k < length demo_calls. call_at (j_events (e_log s')) (demo_calls ! k) (qs ! k)"
    unfolding demo_engine_parts by auto
  have new: "new = j_events (e_log s')" using r(1) by (simp add: demo_state_def empty_journal_def)
  have "map (\<lambda>n. Some [n]) qs = [Some [1], Some [0]]" using src r(2) a new by (simp add: a_def)
  then have "qs = [1, 0]" by auto
  moreover have "call_at new (demo_calls ! 0) (qs ! 0)" using spec [OF r(3), of 0] new by (simp add: demo_calls_def)
  ultimately show ?thesis using a r(2) new by blast
qed

end
