(* ===== verification/Engine.thy ===== *)
theory Engine
  imports Tool_Results
begin

text \<open>
  One turn, \<^verbatim>\<open>crates/turn/src/engine.rs\<close>: \<^verbatim>\<open>run_turn\<close> with its two durable ends, \<^verbatim>\<open>run_steps\<close>,
  the context budget, the provider call with its recovery, and the sink that journals the stream.
  The progress of a turn (its steps, the step left open) is part of the engine's state, as a panic
  leaves it readable.  \<open>attempts\<close> bounds the calls of one request; the recovery decides how many
  there are, and \<open>NoFuel\<close> says that it asked for more (theory \<open>Provider_Call\<close> shows what the retry
  policy needs).
\<close>

section \<open>Reasons\<close>

fun reason_str :: "stop_reason \<Rightarrow> string" where
  "reason_str Natural = ''natural''"
| "reason_str PreStepRejected = ''pre-step-rejected''"
| "reason_str MaxSteps = ''max-steps''"
| "reason_str StopCancelled = ''cancelled''"
| "reason_str MaxTokens = ''max-tokens''"
| "reason_str StopInterrupted = ''interrupted''"
| "reason_str StopTimedOut = ''timed-out''"
| "reason_str StopShutdown = ''shutdown''"
| "reason_str StopRepeated = ''repeated''"

definition FAILED_STOP_REASON :: string where
  "FAILED_STOP_REASON = ''failed''"

record closing =
  cg_reason :: stop_reason
  cg_content :: string
  cg_veto :: "string option"

record turn_outcome =
  to_turn :: nat
  to_steps :: nat
  to_reason :: stop_reason
  to_content :: string
  to_veto :: "string option"

section \<open>Composition\<close>

text \<open>\<^verbatim>\<open>from_context\<close>: what of the engine's state is read back from the log it is given.\<close>

definition turns_in :: "session_event list \<Rightarrow> nat" where
  "turns_in es = length (filter (\<lambda>e. ty e = ''turn/start'') es)"

definition from_context ::
  "'l engine \<Rightarrow> approvals \<Rightarrow> interrupt \<Rightarrow> cause option list \<Rightarrow> nat list \<Rightarrow> nat list \<Rightarrow> 'l
   \<Rightarrow> turn_error + 'l engine_state"
where
  "from_context en a intr stops picks clk l =
     (case replay_inbox (own_suffix (en_events en l)) of
        Inl x \<Rightarrow> Inl (InboxFailed x)
      | Inr ib \<Rightarrow> Inr \<lparr>e_log = l, e_inbox = ib, e_approvals = a, e_interrupt = intr, e_stops = stops,
          e_picks = picks, e_clock = clk, e_turns = turns_in (en_events en l), e_steps = 0,
          e_open_step = None\<rparr>)"

section \<open>Small actions\<close>

definition ask_answer :: "payload + 'a \<Rightarrow> ('l, 'a) act" where
  "ask_answer r s = (map_sum Unwound id r, s)"

definition or_fail :: "('e \<Rightarrow> turn_error) \<Rightarrow> 'e + 'a \<Rightarrow> ('l, 'a) act" where
  "or_fail f r s = (map_sum (Fault \<circ> f) id r, s)"

definition set_steps :: "nat \<Rightarrow> ('l, unit) act" where
  "set_steps n s = (Inr (), s\<lparr>e_steps := n\<rparr>)"

definition set_open :: "nat option \<Rightarrow> ('l, unit) act" where
  "set_open o' s = (Inr (), s\<lparr>e_open_step := o'\<rparr>)"

definition read_log :: "'l engine \<Rightarrow> ('l, session_event list) act" where
  "read_log en s = (Inr (en_events en (e_log s)), s)"

definition read_clock :: "('l, nat) act" where
  "read_clock s = (Inr (case e_clock s of [] \<Rightarrow> 0 | t # _ \<Rightarrow> t), s\<lparr>e_clock := tl (e_clock s)\<rparr>)"

text \<open>\<^verbatim>\<open>interrupt.wait\<close>: the next reading says whether a stop came before the delay had passed.\<close>

definition stopped_now :: "('l, bool) act" where
  "stopped_now = andthen read_interrupt (\<lambda>i. answer (stopped i))"

definition claim_waiting :: "'l engine \<Rightarrow> nat \<Rightarrow> ('l, message list) act" where
  "claim_waiting en turn s =
     (case claim (en_append en) NextStep turn (e_inbox s) (e_log s) of
        (Inl x, ib, l) \<Rightarrow> (Inl (Fault (InboxFailed x)), s\<lparr>e_inbox := ib, e_log := l\<rparr>)
      | (Inr c, ib, l) \<Rightarrow> (Inr (map pm_message (claimed_messages c)), s\<lparr>e_inbox := ib, e_log := l\<rparr>))"

fun log_users :: "'l engine \<Rightarrow> message list \<Rightarrow> ('l, unit) act" where
  "log_users en [] = answer ()"
| "log_users en (m # ms) =
     andthen (log_event en ''user/message'' (jobj [(''content'', JStr (m_content m))]) None)
       (\<lambda>_. log_users en ms)"

section \<open>The context budget\<close>

definition estimate_tools :: "'l engine \<Rightarrow> tool_schema list \<Rightarrow> nat" where
  "estimate_tools en ts = (if ts = [] then 0 else token_chars (en_catalog_len en ts) + 4)"

definition cost :: "'l engine \<Rightarrow> nat \<Rightarrow> session_event list \<Rightarrow> nat" where
  "cost en envelope es = envelope + ts_total (token_surface_of (en_json_len en) es)"

definition prune_now :: "'l engine \<Rightarrow> prune_budget \<Rightarrow> ('l, unit) act" where
  "prune_now en b s =
     (case prune_results (en_append en) (en_events en) (en_json_len en) b (e_log s) of
        (Inl (LogError x), l) \<Rightarrow> (Inl (Fault (SessionFailed x)), s\<lparr>e_log := l\<rparr>)
      | (_, l) \<Rightarrow> (Inr (), s\<lparr>e_log := l\<rparr>))"

definition compact_now :: "'l engine \<Rightarrow> auto_compaction \<Rightarrow> ('l, unit) act" where
  "compact_now en p s =
     (case Compaction.compact (en_append en) (en_events en) (en_json_len en) (en_compaction_text en)
             (en_summarize en) (en_base_prompt en) (ac_retain p) (e_log s) of
        (Inl (LogError x), l) \<Rightarrow> (Inl (Fault (SessionFailed x)), s\<lparr>e_log := l\<rparr>)
      | (_, l) \<Rightarrow> (Inr (), s\<lparr>e_log := l\<rparr>))"

definition fit_context :: "'l engine \<Rightarrow> nat \<Rightarrow> ('l, unit) act" where
  "fit_context en envelope =
     (case en_compaction en of
        None \<Rightarrow> answer ()
      | Some p \<Rightarrow> andthen (read_log en) (\<lambda>es.
          if cost en envelope es < ac_threshold p then answer ()
          else (case ac_prune p of
              None \<Rightarrow> compact_now en p
            | Some b \<Rightarrow> andthen (prune_now en b) (\<lambda>_. andthen (read_log en) (\<lambda>es1.
                if cost en envelope es1 < ac_threshold p then answer () else compact_now en p)))))"

section \<open>The provider call\<close>

fun chunk_json :: "stream_chunk \<Rightarrow> json" where
  "chunk_json (TextDelta d) = jobj [(''chunk'', JStr ''text''), (''delta'', JStr d)]"
| "chunk_json (ReasoningDelta d) = jobj [(''chunk'', JStr ''reasoning''), (''delta'', JStr d)]"
| "chunk_json (CallChunk c) = jobj [(''chunk'', JStr ''tool_call''), (''call'', json_of_call c)]"

fun recorded_chunk :: "'l engine \<Rightarrow> stream_chunk \<Rightarrow> stream_chunk" where
  "recorded_chunk en (CallChunk c) = CallChunk (c\<lparr>tc_args := recorded (en_tools en) c\<rparr>)"
| "recorded_chunk en other = other"

text \<open>\<^verbatim>\<open>LogSink::chunk\<close>: the journal line, and its number in the list the anchor will cite.\<close>

definition log_sink :: "'l engine \<Rightarrow> nat \<Rightarrow> nat \<Rightarrow> 'l sink" where
  "log_sink en turn step c w =
     (let d = jset ''step'' (jnat step) (jset ''turn'' (jnat turn) (chunk_json (recorded_chunk en c))) in
      case en_append en (fst w) ''assistant/chunk'' d None of
        (Inl x, l) \<Rightarrow> (Inl (Sink (en_log_text en x)), l, snd w)
      | (Inr e, l) \<Rightarrow> (Inr (), l, snd w @ [seq e]))"

definition call_adapter ::
  "'l engine \<Rightarrow> nat \<Rightarrow> nat \<Rightarrow> model_request \<Rightarrow> 'l \<times> nat list
   \<Rightarrow> (payload + (llm_error + model_response)) \<times> model_request \<times> 'l \<times> nat list"
where
  "call_adapter en turn step r w = (case en_adapter en (log_sink en turn step) r w of (out, w1) \<Rightarrow> (out, r, w1))"

definition one_call ::
  "'l engine \<Rightarrow> nat \<Rightarrow> nat \<Rightarrow> model_request \<times> nat list
   \<Rightarrow> ('l, (llm_error + model_response) \<times> model_request \<times> nat list) act"
where
  "one_call en turn step q s =
     (case next_run (en_stream en) 0 (call_adapter en turn step) (fst q) (e_log s, snd q) of
        (out, r, l, seqs) \<Rightarrow> (map_sum Unwound (\<lambda>a. (a, r, seqs)) out, s\<lparr>e_log := l\<rparr>))"

text \<open>
  \<^verbatim>\<open>agent/request-error\<close>, whose built-in behaviour recovers nothing.  Two readings of the shared
  switch: as the listeners find it, and when their wait is over.
\<close>

definition recover ::
  "'l engine \<Rightarrow> nat \<Rightarrow> nat \<Rightarrow> string \<Rightarrow> llm_error \<Rightarrow> ('l, request_error_action option) act"
where
  "recover en turn step provider failed =
     andthen read_interrupt (\<lambda>i. andthen stopped_now (\<lambda>early.
       ask (en_recover en) (\<lambda>ev l. (Inr None, ev, l))
         \<lparr>re_turn = turn, re_step = step, re_provider = provider, re_failure = failure_of failed,
          re_interrupt = i, re_early = early\<rparr>))"

fun call_provider ::
  "nat \<Rightarrow> 'l engine \<Rightarrow> nat \<Rightarrow> nat \<Rightarrow> model_request \<times> nat list \<Rightarrow> ('l, model_response \<times> nat list) act"
where
  "call_provider 0 en turn step q = (\<lambda>s. (Inl NoFuel, s))"
| "call_provider (Suc attempts) en turn step q =
     andthen (one_call en turn step q) (\<lambda>(out, r, seqs). case out of
         Inr response \<Rightarrow> answer (response, seqs)
       | Inl failed \<Rightarrow>
           andthen (recover en turn step (mr_provider r) failed) (\<lambda>action.
             if action = None then (\<lambda>s. (Inl (Fault (LlmFailed failed)), s))
             else andthen stopped_now (\<lambda>halt.
               if halt then (\<lambda>s. (Inl (Fault (LlmFailed failed)), s))
               else call_provider attempts en turn step (r, seqs))))"

section \<open>One step\<close>

definition offered_tools :: "'l engine \<Rightarrow> tool_schema list" where
  "offered_tools en = (case en_order en of Some o' \<Rightarrow> schemas_in o' (en_tools en) | None \<Rightarrow> schemas (en_tools en))"

definition only_complete :: "prompts \<Rightarrow> prompt_section list \<Rightarrow> prompt_section option" where
  "only_complete r ss = Option.bind (complete_id r) (\<lambda>i. find (\<lambda>p. ps_id p = i) ss)"

text \<open>What the model reads as its system prompt, and the tools it is offered.\<close>

definition assemble_system :: "'l engine \<Rightarrow> nat \<Rightarrow> nat \<Rightarrow> ('l, string \<times> tool_schema list) act" where
  "assemble_system en turn step =
     (let pos = \<lparr>at_turn = turn, at_step = step\<rparr> in
      andthen (ask_answer (assemble pos (en_prompts en))) (\<lambda>ss.
      andthen (ask_answer (variables_of pos (en_prompts en))) (\<lambda>vars.
      andthen (ask (en_assemble en) (pass (\<lambda>(_, _, p). p))
                 (turn, step, \<lparr>sp_sections = ss, sp_tools = offered_tools en, sp_variables = vars\<rparr>)) (\<lambda>p.
      let p1 = (case only_complete (en_prompts en) ss of None \<Rightarrow> p | Some w \<Rightarrow> p\<lparr>sp_sections := [w]\<rparr>) in
      andthen (or_fail PromptFailed (render_prompt p1)) (\<lambda>system. answer (system, sp_tools p1))))))"

definition context_json :: "'l engine \<Rightarrow> nat \<Rightarrow> nat \<Rightarrow> string \<Rightarrow> tool_schema list \<Rightarrow> json" where
  "context_json en turn step system tools =
     jobj [(''turn'', jnat turn), (''step'', jnat step), (''provider'', JStr (en_provider en)),
           (''model'', JStr (en_model en)),
           (''context_window'', (case en_window en of Some n \<Rightarrow> jnat n | None \<Rightarrow> JNull)),
           (''system_tokens'', jnat (estimate_text_tokens system)),
           (''tools_tokens'', jnat (estimate_tools en tools))]"

definition usage_json :: "usage option \<Rightarrow> json" where
  "usage_json u = (case u of None \<Rightarrow> JNull
     | Some x \<Rightarrow> jobj [(''prompt_tokens'', jnat (us_prompt x)), (''completion_tokens'', jnat (us_completion x))])"

definition answer_json :: "'l engine \<Rightarrow> model_response \<Rightarrow> tool_call list \<Rightarrow> json" where
  "answer_json en r asked =
     jobj [(''content'', JStr (rs_content r)), (''reasoning'', JStr (rs_reasoning r)),
           (''tool_calls'', JArr (map json_of_call (recorded_calls (en_tools en) asked))),
           (''finish_reason'', JStr (rs_finish r)), (''usage'', usage_json (rs_usage r))]"

text \<open>A completion cut off at its cap has none of its calls dispatched.\<close>

definition asked_calls :: "model_response \<Rightarrow> tool_call list" where
  "asked_calls r = (if truncated r then [] else rs_calls r)"

definition build_request :: "'l engine \<Rightarrow> nat \<Rightarrow> nat \<Rightarrow> string \<Rightarrow> tool_schema list \<Rightarrow> ('l, model_request) act" where
  "build_request en turn step system tools =
     andthen (read_log en) (\<lambda>es.
     andthen (log_event en ''request/context'' (context_json en turn step system tools) None) (\<lambda>_.
     ask (en_request en) (pass (\<lambda>(_, _, r). r))
       (turn, step, \<lparr>mr_provider = en_provider en, mr_model = en_model en,
          mr_messages = with_system system (derive_messages es), mr_tools = tools,
          mr_max_tokens = en_max_tokens en\<rparr>)))"

definition enter_step :: "'l engine \<Rightarrow> nat \<Rightarrow> nat \<Rightarrow> ('l, unit) act" where
  "enter_step en turn step =
     andthen (set_steps step) (\<lambda>_.
     andthen (log_event en ''step/start'' (jobj [(''turn'', jnat turn), (''step'', jnat step)]) None) (\<lambda>_.
     set_open (Some step)))"

definition leave_step :: "'l engine \<Rightarrow> nat \<Rightarrow> nat \<Rightarrow> ('l, unit) act" where
  "leave_step en turn step =
     andthen (log_event en ''step/end'' (jobj [(''turn'', jnat turn), (''step'', jnat step)]) None)
       (\<lambda>_. set_open None)"

text \<open>What a step does between its start and its end.\<close>

definition step_body ::
  "nat \<Rightarrow> 'l engine \<Rightarrow> nat \<Rightarrow> nat \<Rightarrow> message list \<Rightarrow> ('l, model_response) act"
where
  "step_body attempts en turn step entered =
     andthen (log_users en entered) (\<lambda>_.
     andthen (assemble_system en turn step) (\<lambda>(system, tools).
     andthen (fit_context en (estimate_text_tokens system + estimate_tools en tools)) (\<lambda>_.
     andthen (build_request en turn step system tools) (\<lambda>request.
     andthen (call_provider attempts en turn step (request, [])) (\<lambda>(response, seqs).
     andthen (log_event en ''assistant/message'' (answer_json en response (asked_calls response)) (Some seqs)) (\<lambda>_.
     andthen (run_tool_calls en turn (asked_calls response)) (\<lambda>_. answer response)))))))"

definition run_step ::
  "nat \<Rightarrow> 'l engine \<Rightarrow> nat \<Rightarrow> nat \<Rightarrow> message list \<Rightarrow> ('l, model_response) act"
where
  "run_step attempts en turn step entered =
     andthen (enter_step en turn step) (\<lambda>_.
     andthen (step_body attempts en turn step entered) (\<lambda>response.
     andthen (leave_step en turn step) (\<lambda>_. answer response)))"

section \<open>The turn\<close>

definition breach_reason :: "guard_breach \<Rightarrow> stop_reason" where
  "breach_reason b = (case b of TimedOut \<Rightarrow> StopTimedOut | Repeated \<Rightarrow> StopRepeated)"

definition interrupt_reason :: "interrupt \<Rightarrow> stop_reason" where
  "interrupt_reason i = (if stop_cause i = Some ByShutdown then StopShutdown else StopCancelled)"

text \<open>
  What follows a step: why the turn ends here, or \<^const>\<open>None\<close> when only the step budget may
  still end it, with the watch as it is then.  The interrupt's flag and its cause are two readings.
\<close>

definition step_boundary ::
  "'l engine \<Rightarrow> model_response \<Rightarrow> turn_watch \<Rightarrow> ('l, stop_reason option \<times> turn_watch) act"
where
  "step_boundary en response w =
     (if truncated response then answer (Some MaxTokens, w)
      else if rs_calls response = [] then answer (Some Natural, w)
      else andthen stopped_now (\<lambda>halt.
        if halt then andthen read_interrupt (\<lambda>i. answer (Some (interrupt_reason i), w))
        else (case observe (en_json_text en) (asked_calls response) w of
            (Some b, w1) \<Rightarrow> answer (Some (breach_reason b), w1)
          | (None, w1) \<Rightarrow>
              andthen read_clock (\<lambda>t. answer (map_option breach_reason (breached t w1), w1)))))"

definition pre_step ::
  "'l engine \<Rightarrow> nat \<Rightarrow> nat \<Rightarrow> message list \<Rightarrow> ('l, message list option) act"
where
  "pre_step en turn step claimed =
     andthen (claim_waiting en turn) (\<lambda>waiting.
     andthen (ask (en_pre_step en) (pass (\<lambda>(_, _, ms). Enter ms)) (turn, step, claimed @ waiting)) (\<lambda>d.
     answer (case d of
         RejectStep _ \<Rightarrow> None
       | Enter ms \<Rightarrow> (if ms = [] \<and> step = 1 then None else Some ms))))"

text \<open>
  The loop of \<^verbatim>\<open>run_steps\<close>, from the step after the first \<open>taken\<close> ones.  Nothing but the step
  budget need end it, and that always does.
\<close>

function (sequential) run_loop ::
  "nat \<Rightarrow> 'l engine \<Rightarrow> nat \<Rightarrow> nat \<Rightarrow> message list \<Rightarrow> turn_watch \<Rightarrow> string \<Rightarrow> ('l, stop_reason \<times> string) act"
where
  "run_loop attempts en turn taken claimed w content s =
     (case pre_step en turn (taken + 1) claimed s of
        (Inl x, s1) \<Rightarrow> (Inl x, s1)
      | (Inr None, s1) \<Rightarrow> (Inr (PreStepRejected, content), s1)
      | (Inr (Some entered), s1) \<Rightarrow>
          (case run_step attempts en turn (taken + 1) entered s1 of
             (Inl x, s2) \<Rightarrow> (Inl x, s2)
           | (Inr response, s2) \<Rightarrow>
               (case step_boundary en response w s2 of
                  (Inl x, s3) \<Rightarrow> (Inl x, s3)
                | (Inr (Some reason, w1), s3) \<Rightarrow> (Inr (reason, rs_content response), s3)
                | (Inr (None, w1), s3) \<Rightarrow>
                    if taken + 1 \<ge> en_max_steps en then (Inr (MaxSteps, rs_content response), s3)
                    else run_loop attempts en turn (taken + 1) [] w1 (rs_content response) s3)))"
  by pat_completeness auto
termination
  by (relation "measure (\<lambda>(_, en, _, taken, _, _, _, _). en_max_steps en - taken)") auto

declare run_loop.simps [simp del]

text \<open>\<^verbatim>\<open>agent/turn-stopping\<close>, asked of a turn that spent a step.\<close>

definition turn_stopping :: "'l engine \<Rightarrow> nat \<Rightarrow> stop_reason \<Rightarrow> ('l, string option) act" where
  "turn_stopping en turn reason s =
     (if e_steps s > 0 then
        (case serial_all (turn, e_steps s, reason) (en_stopping en) (e_log s) of
           (r, l) \<Rightarrow> (map_sum Unwound id r, s\<lparr>e_log := l\<rparr>))
      else (Inr None, s))"

definition run_steps :: "nat \<Rightarrow> 'l engine \<Rightarrow> nat \<Rightarrow> string \<Rightarrow> ('l, closing) act" where
  "run_steps attempts en turn input =
     andthen (run_loop attempts en turn 0 [user_message input] (start_watch (en_guards en)) '''')
       (\<lambda>(reason, content). andthen (turn_stopping en turn reason)
         (\<lambda>veto. answer \<lparr>cg_reason = reason, cg_content = content, cg_veto = veto\<rparr>))"

text \<open>A panic that reaches \<^verbatim>\<open>catch_unwind\<close> is the failure of a plugin.\<close>

definition caught :: "stop + 'a \<Rightarrow> stop + 'a" where
  "caught r = (case r of Inl (Unwound p) \<Rightarrow> Inl (Fault (PluginPanicked (panicked p))) | _ \<Rightarrow> r)"

definition turn_end_json :: "nat \<Rightarrow> nat \<Rightarrow> stop + closing \<Rightarrow> json" where
  "turn_end_json turn steps ended =
     jobj [(''turn'', jnat turn), (''steps'', jnat steps),
           (''stop_reason'', JStr (case ended of Inr c \<Rightarrow> reason_str (cg_reason c) | Inl _ \<Rightarrow> FAILED_STOP_REASON)),
           (''stop_veto'', (case ended of Inr c \<Rightarrow> (case cg_veto c of Some v \<Rightarrow> JStr v | None \<Rightarrow> JNull) | Inl _ \<Rightarrow> JNull))]"

definition close_turn :: "'l engine \<Rightarrow> nat \<Rightarrow> stop + closing \<Rightarrow> ('l, unit) act" where
  "close_turn en turn ended s =
     andthen (case e_open_step s of
                None \<Rightarrow> answer ()
              | Some step \<Rightarrow> andthen (log_event en ''step/end''
                  (jobj [(''turn'', jnat turn), (''step'', jnat step)]) None) (\<lambda>_. answer ()))
       (\<lambda>_. andthen (log_event en ''turn/end'' (turn_end_json turn (e_steps s) ended) None) (\<lambda>_. answer ())) s"

definition snapshot_context :: "'l engine \<Rightarrow> nat \<Rightarrow> ('l, unit) act" where
  "snapshot_context en turn =
     (let parts = snapshot_parts turn (en_contexts en) in
      if render parts = [] then answer ()
      else andthen (log_event en ''context/snapshot''
             (jobj [(''turn'', jnat turn), (''parts'', JArr (map json_of_part parts))]) None) (\<lambda>_. answer ()))"

text \<open>The turn's number is taken before anything is written, and its progress starts from nothing.\<close>

definition open_turn :: "'l engine_state \<Rightarrow> nat \<times> 'l engine_state" where
  "open_turn s = (e_turns s + 1,
     s\<lparr>e_interrupt := clear_interrupt (e_interrupt s), e_turns := e_turns s + 1, e_steps := 0,
       e_open_step := None\<rparr>)"

definition run_body :: "nat \<Rightarrow> 'l engine \<Rightarrow> nat \<Rightarrow> string \<Rightarrow> ('l, turn_outcome) act" where
  "run_body attempts en turn input s =
     (case run_steps attempts en turn input s of
        (ended0, s1) \<Rightarrow>
          (let ended = caught ended0; (closed, s2) = close_turn en turn ended s1 in
           case ended of
             Inl x \<Rightarrow> (Inl x, s2)
           | Inr c \<Rightarrow>
               (case closed of
                  Inl x \<Rightarrow> (Inl x, s2)
                | Inr _ \<Rightarrow>
                    (Inr \<lparr>to_turn = turn, to_steps = e_steps s1, to_reason = cg_reason c,
                          to_content = cg_content c, to_veto = cg_veto c\<rparr>, s2))))"

definition run_turn :: "nat \<Rightarrow> 'l engine \<Rightarrow> string \<Rightarrow> ('l, turn_outcome) act" where
  "run_turn attempts en input s =
     (let (turn, s1) = open_turn s in
      andthen (log_event en ''turn/start'' (jobj [(''turn'', jnat turn)]) None) (\<lambda>_.
      andthen (snapshot_context en turn) (\<lambda>_. run_body attempts en turn input)) s1)"

end
