(* ===== verification/Turn_Closes.thy ===== *)
theory Turn_Closes
  imports Engine
begin

text \<open>
  What a turn promises of the journal's brackets: whatever the model, the tools and the listeners
  do, panics and refusals included, a turn that is past its opening writes matched steps and one
  end of the turn.  The proof goes action by action: everything between two brackets is \<open>tame\<close>.
\<close>

section \<open>Tame actions\<close>

definition turn_marks :: "string set" where
  "turn_marks = {''turn/start'', ''turn/end'', ''step/start'', ''step/end''}"

definition moves :: "('w \<Rightarrow> session_event list) \<Rightarrow> ('w \<Rightarrow> bool) \<Rightarrow> 'w \<Rightarrow> 'w \<Rightarrow> bool" where
  "moves ev H w w' \<longleftrightarrow> grown turn_marks (ev w) (ev w') \<and> (H w \<longrightarrow> H w')"

lemma moves_refl [simp]: "moves ev H w w"
  by (simp add: moves_def)

lemma moves_trans: "moves ev H w w' \<Longrightarrow> moves ev H w' w'' \<Longrightarrow> moves ev H w w''"
  by (auto simp: moves_def intro: grown_trans)

definition steady :: "'l engine \<Rightarrow> ('l \<Rightarrow> bool) \<Rightarrow> 'l engine_state \<Rightarrow> 'l engine_state \<Rightarrow> bool" where
  "steady en H s s' \<longleftrightarrow> moves (en_events en) H (e_log s) (e_log s')
     \<and> e_steps s' = e_steps s \<and> e_open_step s' = e_open_step s \<and> e_turns s' = e_turns s"

lemma steady_refl [simp]: "steady en H s s"
  by (simp add: steady_def)

lemma steady_trans: "steady en H s s' \<Longrightarrow> steady en H s' s'' \<Longrightarrow> steady en H s s''"
  by (auto simp: steady_def intro: moves_trans)

definition tame :: "'l engine \<Rightarrow> ('l \<Rightarrow> bool) \<Rightarrow> ('l, 'a) act \<Rightarrow> bool" where
  "tame en H m \<longleftrightarrow> (\<forall>s. steady en H s (snd (m s)))"

named_theorems tame_intros \<open>actions that leave the brackets of the turn alone\<close>

lemma tameI: "(\<And>s r s'. m s = (r, s') \<Longrightarrow> steady en H s s') \<Longrightarrow> tame en H m"
  unfolding tame_def by (metis surjective_pairing)

lemma tameD: "tame en H m \<Longrightarrow> m s = (r, s') \<Longrightarrow> steady en H s s'"
  unfolding tame_def by (metis snd_conv)

lemma tame_answer [tame_intros]: "tame en H (answer x)"
  by (simp add: tame_def answer_def)

lemma tame_stop [tame_intros]: "tame en H (\<lambda>s. (Inl x, s))"
  by (simp add: tame_def)

lemma tame_andthen [tame_intros]: "tame en H m \<Longrightarrow> (\<And>a. tame en H (f a)) \<Longrightarrow> tame en H (andthen m f)"
  by (rule tameI, erule andthen_cases) (auto dest: tameD intro: steady_trans)

lemma tame_if [tame_intros]: "(b \<Longrightarrow> tame en H m) \<Longrightarrow> (\<not> b \<Longrightarrow> tame en H n) \<Longrightarrow> tame en H (if b then m else n)"
  by simp

lemma tame_option [tame_intros]:
  "(x = None \<Longrightarrow> tame en H m) \<Longrightarrow> (\<And>y. x = Some y \<Longrightarrow> tame en H (f y)) \<Longrightarrow> tame en H (case x of None \<Rightarrow> m | Some y \<Rightarrow> f y)"
  by (cases x) simp_all

lemma tame_sum [tame_intros]:
  "(\<And>y. tame en H (f y)) \<Longrightarrow> (\<And>y. tame en H (g y)) \<Longrightarrow> tame en H (case x of Inl y \<Rightarrow> f y | Inr y \<Rightarrow> g y)"
  by (cases x) simp_all

lemma tame_pair [tame_intros]: "(\<And>x y. tame en H (f x y)) \<Longrightarrow> tame en H (case p of (x, y) \<Rightarrow> f x y)"
  by (cases p) simp

lemma tame_readings [tame_intros]:
  "tame en H read_interrupt" "tame en H (pick n)" "tame en H (read_log en')" "tame en H read_clock"
  "tame en H (ask_answer r)" "tame en H (or_fail f r')"
  by (auto simp: tame_def steady_def read_interrupt_def pick_def read_log_def read_clock_def ask_answer_def
      or_fail_def Let_def split: list.splits option.splits)

lemma tame_stopped_now [tame_intros]: "tame en H stopped_now"
  unfolding stopped_now_def by (intro tame_intros)

text \<open>Listeners and whatever else is composed around them.\<close>

definition polite ::
  "('w \<Rightarrow> session_event list) \<Rightarrow> ('w \<Rightarrow> bool) \<Rightarrow> ('e, 'r, 'w) listener list
   \<Rightarrow> ('e \<Rightarrow> 'w \<Rightarrow> (payload + 'r) \<times> 'e \<times> 'w) \<Rightarrow> bool"
where
  "polite ev H chain terminal \<longleftrightarrow>
     (\<forall>e w r e' w'. next_run chain 0 terminal e w = (r, e', w') \<longrightarrow> moves ev H w w')"

definition polite_engine :: "('l \<Rightarrow> bool) \<Rightarrow> 'l engine \<Rightarrow> bool" where
  "polite_engine H en \<longleftrightarrow>
     (let ev = en_events en in
      polite ev H (en_pre_tool en) (pass snd)
      \<and> polite ev H (en_permission en) (pass (\<lambda>(_, _, declared). declared))
      \<and> polite ev H (en_execute en) (dispatch_tool en)
      \<and> polite ev H (en_post_tool en) (pass (\<lambda>(_, _, o'). \<lparr>pd_outcome = o', pd_contexts = []\<rparr>))
      \<and> (\<forall>ask l l1. en_race en ask l = Some l1
           \<or> (\<exists>r ask'. waterfall approval_event ask fail_closed (en_answerers en) l = Some (r, ask', l1))
           \<longrightarrow> moves ev H l l1)
      \<and> polite ev H (en_pre_step en) (pass (\<lambda>(_, _, ms). Enter ms))
      \<and> polite ev H (en_assemble en) (pass (\<lambda>(_, _, p). p))
      \<and> polite ev H (en_request en) (pass (\<lambda>(_, _, r). r))
      \<and> polite ev H (en_recover en) (\<lambda>ev l. (Inr None, ev, l))
      \<and> (\<forall>turn step. polite (ev \<circ> fst) (H \<circ> fst) (en_stream en) (call_adapter en turn step))
      \<and> (\<forall>e l r l'. serial_all e (en_stopping en) l = (r, l') \<longrightarrow> moves ev H l l'))"

lemma polite_engineD:
  assumes "polite_engine H en"
  shows "polite (en_events en) H (en_pre_tool en) (pass snd)"
    and "polite (en_events en) H (en_permission en) (pass (\<lambda>(_, _, declared). declared))"
    and "polite (en_events en) H (en_execute en) (dispatch_tool en)"
    and "polite (en_events en) H (en_post_tool en) (pass (\<lambda>(_, _, o'). \<lparr>pd_outcome = o', pd_contexts = []\<rparr>))"
    and "polite (en_events en) H (en_pre_step en) (pass (\<lambda>(_, _, ms). Enter ms))"
    and "polite (en_events en) H (en_assemble en) (pass (\<lambda>(_, _, p). p))"
    and "polite (en_events en) H (en_request en) (pass (\<lambda>(_, _, r). r))"
    and "polite (en_events en) H (en_recover en) (\<lambda>ev l. (Inr None, ev, l))"
    and "polite (en_events en \<circ> fst) (H \<circ> fst) (en_stream en) (call_adapter en turn step)"
    and "serial_all e (en_stopping en) l = (r, l') \<Longrightarrow> moves (en_events en) H l l'"
    and "\<And>ask l l1. en_race en ask l = Some l1
           \<or> (\<exists>r ask'. waterfall approval_event ask fail_closed (en_answerers en) l = Some (r, ask', l1))
           \<Longrightarrow> moves (en_events en) H l l1"
  using assms unfolding polite_engine_def Let_def by blast+

lemma tame_ask [tame_intros]: "polite (en_events en) H chain terminal \<Longrightarrow> tame en H (ask chain terminal e)"
  by (rule tameI) (auto simp: ask_def polite_def steady_def split: prod.splits)

lemma tame_one_call [tame_intros]:
  assumes "polite_engine H en"
  shows "tame en H (one_call en turn step q)"
proof (rule tameI)
  fix s r s' assume "one_call en turn step q s = (r, s')"
  then obtain out r1 l seqs where n: "next_run (en_stream en) 0 (call_adapter en turn step) (fst q)
      (e_log s, snd q) = (out, r1, l, seqs)" and s': "s' = s\<lparr>e_log := l\<rparr>"
    by (auto simp: one_call_def split: prod.splits)
  from polite_engineD(9) [OF assms, of turn step] n
  have "moves (en_events en \<circ> fst) (H \<circ> fst) (e_log s, snd q) (l, seqs)"
    unfolding polite_def by blast
  then show "steady en H s s'" by (simp add: s' steady_def moves_def)
qed

section \<open>The engine's own actions\<close>

context working_log
begin

lemma append_moves:
  assumes "append l t d src = (r, l')" and "t \<notin> turn_marks"
  shows "moves events healthy l l'"
  using append_grows [OF assms] append_healthy(2) [OF _ assms(1)] by (simp add: moves_def)

lemma mutate_moves:
  assumes "mutate append target st n ms cancels ib l = (r, ib', l')"
  shows "moves events healthy l l'"
  using assms by (cases rule: mutate_cases) (auto simp: turn_marks_def dest!: append_moves)

lemma claim_moves:
  assumes "claim append target turn ib l = (r, ib', l')"
  shows "moves events healthy l l'"
  using assms
  by (auto simp: claim_def Let_def split: prod.splits sum.splits if_splits
      dest!: mutate_moves intro: moves_trans)

lemma append_pending_moves:
  assumes "append_pending append target m ib l = (r, ib', l')"
  shows "moves events healthy l l'"
  using assms by (auto simp: append_pending_def splice_def split: prod.splits sum.splits dest!: mutate_moves)

lemma put_question_moves:
  assumes "put_question append events q a l = (r, a1, l1)"
  shows "moves events healthy l l1"
  using assms
  by (auto simp: put_question_def Let_def turn_marks_def split: if_splits prod.splits sum.splits dest!: append_moves)

lemma settle_question_moves:
  assumes "settle_question append events b race intr a i q l = (r, l2)"
    and q: "\<And>ask l l1. race ask l = Some l1
        \<or> (\<exists>r ask'. waterfall approval_event ask fail_closed b l = Some (r, ask', l1))
        \<Longrightarrow> moves events healthy l l1"
  shows "moves events healthy l l2"
proof -
  obtain out l1 where d: "decide_question events b race intr a i q l = (out, l1)" by fastforce
  then have "moves events healthy l l1"
    using q [of "\<lparr>ak_id = i, ak_request = q\<rparr>" l l1]
    by (auto simp: decide_question_def Let_def split: if_splits option.splits)
  moreover have "moves events healthy l1 l2"
    using assms(1) d by (auto simp: settle_question_def turn_marks_def split: prod.splits sum.splits dest!: append_moves)
  ultimately show ?thesis by (rule moves_trans)
qed

lemma prune_nodes_moves:
  "prune_nodes append jlen b es ns l = (r, l') \<Longrightarrow> moves events healthy l l'"
proof (induction ns arbitrary: l r l')
  case (Cons n ns)
  then show ?case
    by (auto simp: Let_def turn_marks_def split: if_splits option.splits prod.splits sum.splits
        dest!: append_moves intro: moves_trans)
qed simp

lemma summarize_moves:
  assumes "summarize_and_commit append jlen summarize system ms start shadowed tokens l = (r, l')"
  shows "moves events healthy l l'"
  using assms
  by (auto simp: summarize_and_commit_def Let_def turn_marks_def split: if_splits prod.splits sum.splits
      dest!: append_moves intro: moves_trans)

lemma compact_moves:
  assumes "Compaction.compact append events jlen err_text summarize system retain l = (r, l')"
  shows "moves events healthy l l'"
  using assms
  by (auto simp: Compaction.compact_def Let_def turn_marks_def split: if_splits option.splits prod.splits sum.splits
      dest!: append_moves summarize_moves intro: moves_trans)

lemma steady_log:
  "runs_on append events en \<Longrightarrow> moves events healthy (e_log s) l \<Longrightarrow> steady en healthy s (s\<lparr>e_log := l\<rparr>)"
  "runs_on append events en \<Longrightarrow> moves events healthy (e_log s) l \<Longrightarrow> steady en healthy s (s\<lparr>e_inbox := ib, e_log := l\<rparr>)"
  "runs_on append events en \<Longrightarrow> moves events healthy (e_log s) l \<Longrightarrow> steady en healthy s (s\<lparr>e_approvals := a, e_log := l\<rparr>)"
  by (simp_all add: steady_def runs_onD)

lemma tame_log_event [tame_intros]:
  assumes "runs_on append events en" and "t \<notin> turn_marks"
  shows "tame en healthy (log_event en t d src)"
  by (rule tameI)
    (auto simp: log_event_def runs_onD [OF assms(1)] split: prod.splits sum.splits
      dest!: append_moves [OF _ assms(2)] intro!: steady_log assms)

lemma tame_queue_contexts [tame_intros]:
  assumes "runs_on append events en"
  shows "tame en healthy (queue_contexts en n k ms)"
proof (rule tameI)
  fix s r s' show "queue_contexts en n k ms s = (r, s') \<Longrightarrow> steady en healthy s s'"
    by (induction ms arbitrary: k s)
      (auto simp: runs_onD [OF assms] split: prod.splits sum.splits
        dest!: append_pending_moves steady_log(2) [OF assms] intro: steady_trans)
qed

lemma tame_commit_tool_result [tame_intros]:
  "runs_on append events en \<Longrightarrow> tame en healthy (commit_tool_result en st)"
  unfolding commit_tool_result_def Let_def by (intro tame_intros) (auto simp: turn_marks_def)

lemma tame_gate_call [tame_intros]:
  assumes "runs_on append events en" and "polite_engine healthy en"
  shows "tame en healthy (gate_call en turn n c)"
  unfolding gate_call_def
proof (intro tame_intros polite_engineD assms)
  fix p show "tame en healthy (\<lambda>s. case p of
          Allow \<Rightarrow> (Inr (Inl (Cleared n c)), s)
        | Deny reason \<Rightarrow> (Inr (Inr (refused_call n c reason)), s)
        | AskFirst reason \<Rightarrow>
            (let q = \<lparr>rq_tool = tc_name c, rq_call = Some (tc_id c), rq_reason = Some reason\<rparr> in
             case put_question (en_append en) (en_events en) q (e_approvals s) (e_log s) of
               (Inl x, a, l) \<Rightarrow> (Inl (Fault (ApprovalFailed x)), s\<lparr>e_approvals := a, e_log := l\<rparr>)
             | (Inr i, a, l) \<Rightarrow> (Inr (Inl (Asked n c q i)), s\<lparr>e_approvals := a, e_log := l\<rparr>)))"
    by (rule tameI, cases p)
      (auto simp: Let_def runs_onD [OF assms(1)] split: prod.splits sum.splits
        dest!: put_question_moves intro!: steady_log assms)
qed

lemma tame_settle_call [tame_intros]:
  assumes "runs_on append events en" and "polite_engine healthy en"
  shows "tame en healthy (settle_call en n c q i)"
  unfolding settle_call_def
proof (intro tame_andthen tame_readings)
  fix intr
  have m: "settle_question append events (en_answerers en) (en_race en) intr a i q l = (r, l1)
      \<Longrightarrow> moves events healthy l l1" for a l r l1
    by (rule settle_question_moves, assumption)
      (use polite_engineD(11) [OF assms(2)] in \<open>simp add: runs_onD [OF assms(1)]\<close>)
  show "tame en healthy (\<lambda>s.
       case settle_question (en_append en) (en_events en) (en_answerers en) (en_race en) intr
              (e_approvals s) i q (e_log s) of
         (Inl x, l) \<Rightarrow> (Inl (Fault (ApprovalFailed x)), s\<lparr>e_log := l\<rparr>)
       | (Inr out, l) \<Rightarrow>
           (Inr (case refusal (tc_name c) out of
                   None \<Rightarrow> Inl (Cleared n c)
                 | Some r \<Rightarrow> Inr (refused_call n c r)), s\<lparr>e_log := l\<rparr>))"
    by (rule tameI) (auto simp: runs_onD [OF assms(1)] split: prod.splits sum.splits
        dest!: m intro!: steady_log assms)
qed

lemma tame_dispatch_step [tame_intros]:
  assumes "runs_on append events en" and "polite_engine healthy en"
  shows "tame en healthy (dispatch_step en turn c ph)"
  by (cases ph) (auto simp: turn_marks_def intro!: tame_intros polite_engineD assms)

lemma commit_ready_steady:
  "runs_on append events en \<Longrightarrow> commit_ready en p s = (p', s') \<Longrightarrow> steady en healthy s s'"
proof (induction en p s arbitrary: p' s' rule: commit_ready.induct)
  case (1 en p s)
  show ?case
  proof (cases "p_failure p = None \<and> map_of (p_settled p) (p_committed p) \<noteq> None")
    case False
    with "1.prems" show ?thesis by (subst (asm) commit_ready.simps) (auto split: if_splits option.splits)
  next
    case True
    then obtain ready where rd: "map_of (p_settled p) (p_committed p) = Some ready" by auto
    obtain p1 s1 where n: "commit_next en ready p s = (p1, s1)" by fastforce
    then have "commit_ready en p1 s1 = (p', s')"
      using "1.prems" True rd by (subst (asm) commit_ready.simps) simp
    then have "steady en healthy s1 s'" using "1.IH" [OF _ rd n [symmetric]] True "1.prems"(1) by auto
    moreover have "steady en healthy s s1"
      using n by (auto simp: commit_next_def Let_def split: prod.splits
          dest!: tameD [OF tame_commit_tool_result [OF "1.prems"(1)]])
    ultimately show ?thesis by (blast intro: steady_trans)
  qed
qed

lemma run_pool_steady:
  assumes "runs_on append events en" and "polite_engine healthy en"
  shows "run_pool fuel en turn calls p s = (r, s') \<Longrightarrow> steady en healthy s s'"
proof (induction fuel arbitrary: p s)
  case (Suc fuel)
  let ?p = "fill_pool en (drop (p_started p) calls) p"
  show ?case
  proof (cases "p_flight ?p = []")
    case True
    with Suc.prems show ?thesis by (simp add: Let_def)
  next
    case False
    obtain k s1 where k: "pick (length (p_flight ?p)) s = (Inr k, s1)" using pick_answers by metis
    obtain i ph where c: "p_flight ?p ! k = (i, ph)" by fastforce
    obtain r1 s2 where d: "dispatch_step en turn (calls ! i) ph s1 = (r1, s2)" by fastforce
    have g: "steady en healthy s s2"
      using tameD [OF tame_readings(2) k] tameD [OF tame_dispatch_step [OF assms] d] by (rule steady_trans)
    have "\<exists>p2 s3. steady en healthy s2 s3 \<and> (run_pool fuel en turn calls p2 s3 = (r, s') \<or> s' = s3)"
    proof (cases r1)
      case (Inl x)
      with Suc.prems False k c d have "(\<exists>p2. run_pool fuel en turn calls p2 s2 = (r, s')) \<or> s' = s2"
        by (cases x) (auto simp: Let_def)
      then show ?thesis using steady_refl by blast
    next
      case (Inr a)
      show ?thesis
      proof (cases a)
        case (Inl ph1)
        with Suc.prems False k c d Inr have "\<exists>p2. run_pool fuel en turn calls p2 s2 = (r, s')"
          by (auto simp: Let_def)
        then show ?thesis using steady_refl by blast
      next
        case r: (Inr st)
        obtain p2 s3 where cr: "commit_ready en (?p\<lparr>p_flight := take k (p_flight ?p) @ drop (k + 1) (p_flight ?p),
            p_settled := om_insert i st (p_settled ?p)\<rparr>) s2 = (p2, s3)" by fastforce
        with Suc.prems False k c d Inr r have "run_pool fuel en turn calls p2 s3 = (r, s')"
          by (simp add: Let_def)
        with commit_ready_steady [OF assms(1) cr] show ?thesis by blast
      qed
    qed
    then obtain p2 s3 where "steady en healthy s2 s3" and "run_pool fuel en turn calls p2 s3 = (r, s') \<or> s' = s3"
      by blast
    with g Suc.IH [of p2 s3] show ?thesis by (blast intro: steady_trans)
  qed
qed simp

lemma tame_run_calls:
  assumes "runs_on append events en" and "polite_engine healthy en"
  shows "tame en healthy (run_calls fuel en turn calls)"
proof (induction fuel arbitrary: calls)
  case (Suc fuel)
  show ?case
  proof (cases calls)
    case (Cons c cs)
    have "tame en healthy (run_tool_group en turn g)" for g
      by (rule tameI) (unfold run_tool_group_def, erule run_pool_steady [OF assms])
    then show ?thesis unfolding Cons run_calls.simps by (intro tame_andthen Suc.IH)
  qed (simp add: tame_answer)
qed (simp add: tame_stop)

lemma tame_run_tool_calls [tame_intros]:
  "runs_on append events en \<Longrightarrow> polite_engine healthy en \<Longrightarrow> tame en healthy (run_tool_calls en turn calls)"
  unfolding run_tool_calls_def by (rule tame_run_calls)

lemma tame_claim_waiting [tame_intros]:
  assumes "runs_on append events en"
  shows "tame en healthy (claim_waiting en turn)"
  by (rule tameI) (auto simp: claim_waiting_def runs_onD [OF assms] split: prod.splits sum.splits
      dest!: claim_moves intro!: steady_log assms)

lemma tame_log_users [tame_intros]:
  "runs_on append events en \<Longrightarrow> tame en healthy (log_users en ms)"
  by (induction ms) (auto simp: turn_marks_def intro!: tame_intros)

lemma tame_prune_now [tame_intros]:
  assumes "runs_on append events en"
  shows "tame en healthy (prune_now en b)"
  by (rule tameI) (auto simp: prune_now_def prune_results_def runs_onD [OF assms]
      split: prod.splits sum.splits compaction_error.splits
      dest!: prune_nodes_moves intro!: steady_log assms)

lemma tame_compact_now [tame_intros]:
  assumes "runs_on append events en"
  shows "tame en healthy (compact_now en p)"
  by (rule tameI) (auto simp: compact_now_def runs_onD [OF assms]
      split: prod.splits sum.splits compaction_error.splits
      dest!: compact_moves intro!: steady_log assms)

lemma tame_fit_context [tame_intros]:
  "runs_on append events en \<Longrightarrow> tame en healthy (fit_context en envelope)"
  unfolding fit_context_def by (intro tame_intros)

lemma tame_recover [tame_intros]:
  "polite_engine healthy en \<Longrightarrow> tame en healthy (recover en turn step provider failed)"
  unfolding recover_def by (intro tame_intros polite_engineD)

lemma tame_call_provider [tame_intros]:
  "polite_engine healthy en \<Longrightarrow> tame en healthy (call_provider attempts en turn step q)"
  by (induction attempts arbitrary: q) (auto intro!: tame_intros)

lemma tame_assemble_system [tame_intros]:
  "polite_engine healthy en \<Longrightarrow> tame en healthy (assemble_system en turn step)"
  unfolding assemble_system_def Let_def by (intro tame_intros polite_engineD)

lemma tame_build_request [tame_intros]:
  "runs_on append events en \<Longrightarrow> polite_engine healthy en
   \<Longrightarrow> tame en healthy (build_request en turn step system tools)"
  unfolding build_request_def by (intro tame_intros polite_engineD) (auto simp: turn_marks_def)

lemma tame_step_body [tame_intros]:
  "runs_on append events en \<Longrightarrow> polite_engine healthy en
   \<Longrightarrow> tame en healthy (step_body attempts en turn step entered)"
  unfolding step_body_def by (intro tame_intros) (auto simp: turn_marks_def)

lemma tame_pre_step [tame_intros]:
  "runs_on append events en \<Longrightarrow> polite_engine healthy en
   \<Longrightarrow> tame en healthy (pre_step en turn step claimed)"
  unfolding pre_step_def by (intro tame_intros polite_engineD)

lemma tame_step_boundary [tame_intros]: "tame en healthy (step_boundary en response w)"
  unfolding step_boundary_def by (intro tame_intros)

lemma tame_turn_stopping [tame_intros]:
  assumes "polite_engine healthy en"
  shows "tame en healthy (turn_stopping en turn reason)"
  by (rule tameI) (auto simp: turn_stopping_def steady_def split: if_splits prod.splits
      dest: polite_engineD(10) [OF assms])

end

section \<open>The brackets of a turn\<close>

definition brackets :: "session_event list \<Rightarrow> (string \<times> json) list" where
  "brackets es = map (\<lambda>e. (ty e, data e)) (filter (\<lambda>e. ty e \<in> turn_marks) es)"

definition step_json :: "nat \<Rightarrow> nat \<Rightarrow> json" where
  "step_json turn step = jobj [(''turn'', jnat turn), (''step'', jnat step)]"

definition step_pairs :: "nat \<Rightarrow> nat list \<Rightarrow> (string \<times> json) list" where
  "step_pairs turn ns = concat (map (\<lambda>n. [(''step/start'', step_json turn n), (''step/end'', step_json turn n)]) ns)"

lemma step_pairs_simps [simp]:
  "step_pairs turn [] = []"
  "step_pairs turn (n # ns) = (''step/start'', step_json turn n) # (''step/end'', step_json turn n) # step_pairs turn ns"
  "step_pairs turn (ms @ ns) = step_pairs turn ms @ step_pairs turn ns"
  by (simp_all add: step_pairs_def)

lemma brackets_append [simp]: "brackets (es @ es') = brackets es @ brackets es'"
  by (simp add: brackets_def)

definition wrote ::
  "'l engine \<Rightarrow> ('l \<Rightarrow> bool) \<Rightarrow> (string \<times> json) list \<Rightarrow> 'l engine_state \<Rightarrow> 'l engine_state \<Rightarrow> bool"
where
  "wrote en H xs s s' \<longleftrightarrow>
     (\<exists>new. events_of en s' = events_of en s @ new \<and> brackets new = xs)
     \<and> (H (e_log s) \<longrightarrow> H (e_log s')) \<and> e_turns s' = e_turns s"

lemma wrote_trans: "wrote en H xs s s' \<Longrightarrow> wrote en H ys s' s'' \<Longrightarrow> wrote en H (xs @ ys) s s''"
  by (fastforce simp: wrote_def)

lemma steady_wrote: "steady en H s s' \<Longrightarrow> wrote en H [] s s'"
  by (auto simp: steady_def moves_def grown_def wrote_def events_of_def brackets_def filter_empty_conv)

lemma steady_progress:
  "steady en H s s' \<Longrightarrow> e_steps s' = e_steps s" "steady en H s s' \<Longrightarrow> e_open_step s' = e_open_step s"
  by (simp_all add: steady_def)

text \<open>What the steps after the first \<open>taken\<close> have written when \<open>n\<close> are counted and \<open>o'\<close> is open.\<close>

definition steps_written :: "nat \<Rightarrow> nat \<Rightarrow> nat \<Rightarrow> nat option \<Rightarrow> (string \<times> json) list" where
  "steps_written turn taken n o' =
     (case o' of None \<Rightarrow> step_pairs turn [Suc taken..<Suc n]
      | Some k \<Rightarrow> step_pairs turn [Suc taken..<k] @ [(''step/start'', step_json turn k)])"

context working_log
begin

lemma log_event_works:
  assumes "log_event en t d src s = (r, s')" and "runs_on append events en" and "healthy (e_log s)"
  shows "\<exists>e. r = Inr e \<and> ty e = t \<and> data e = d \<and> events_of en s' = events_of en s @ [e] \<and> healthy (e_log s')
    \<and> e_steps s' = e_steps s \<and> e_open_step s' = e_open_step s \<and> e_turns s' = e_turns s"
proof -
  obtain r1 l where a: "append (e_log s) t d src = (r1, l)" by fastforce
  from append_healthy [OF assms(3) a] obtain e where e: "r1 = Inr e" "healthy l" by blast
  with a have "r = Inr e" and "s' = s\<lparr>e_log := l\<rparr>"
    using assms(1) by (auto simp: log_event_def runs_onD [OF assms(2)])
  moreover have "log_event en t d src s = (Inr e, s')" using assms(1) calculation(1) by simp
  from log_event_ok [OF this assms(2)] have "events_of en s' = events_of en s @ [e]" "ty e = t" "data e = d" by auto
  ultimately show ?thesis using e(2) by simp
qed

lemma log_event_wrote:
  assumes "log_event en t d src s = (r, s')" and "runs_on append events en" and "healthy (e_log s)"
    and "t \<in> turn_marks"
  shows "(\<exists>e. r = Inr e) \<and> wrote en healthy [(t, d)] s s' \<and> healthy (e_log s')
    \<and> e_steps s' = e_steps s \<and> e_open_step s' = e_open_step s"
  using log_event_works [OF assms(1-3)] assms(4) by (auto simp: wrote_def brackets_def)

lemma enter_step_works:
  assumes "enter_step en turn step s = (r, s')" and "runs_on append events en" and "healthy (e_log s)"
  shows "r = Inr () \<and> wrote en healthy [(''step/start'', step_json turn step)] s s' \<and> healthy (e_log s')
    \<and> e_steps s' = step \<and> e_open_step s' = Some step"
proof -
  obtain r1 s1 where l: "log_event en ''step/start'' (step_json turn step) None (s\<lparr>e_steps := step\<rparr>) = (r1, s1)"
    by fastforce
  from log_event_wrote [OF this assms(2)] assms(3)
  have "\<exists>e. r1 = Inr e" and "wrote en healthy [(''step/start'', step_json turn step)] (s\<lparr>e_steps := step\<rparr>) s1"
    "healthy (e_log s1)" "e_steps s1 = step" by (auto simp: turn_marks_def)
  with assms(1) l show ?thesis
    by (auto simp: enter_step_def andthen_def set_steps_def set_open_def step_json_def wrote_def events_of_def)
qed

lemma leave_step_works:
  assumes "leave_step en turn step s = (r, s')" and "runs_on append events en" and "healthy (e_log s)"
  shows "r = Inr () \<and> wrote en healthy [(''step/end'', step_json turn step)] s s' \<and> healthy (e_log s')
    \<and> e_steps s' = e_steps s \<and> e_open_step s' = None"
proof -
  obtain r1 s1 where l: "log_event en ''step/end'' (step_json turn step) None s = (r1, s1)" by fastforce
  from log_event_wrote [OF this assms(2,3)] assms(1) l show ?thesis
    by (auto simp: leave_step_def andthen_def set_open_def step_json_def wrote_def events_of_def turn_marks_def)
qed

lemma steady_healthy: "steady en healthy s s' \<Longrightarrow> healthy (e_log s) \<Longrightarrow> healthy (e_log s')"
  by (simp add: steady_def moves_def)

lemma run_step_writes:
  assumes "run_step attempts en turn step entered s = (r, s')" and ro: "runs_on append events en"
    and pe: "polite_engine healthy en" and h: "healthy (e_log s)"
  shows "healthy (e_log s') \<and> e_steps s' = step
    \<and> ((\<exists>a. r = Inr a) \<and> e_open_step s' = None
         \<and> wrote en healthy [(''step/start'', step_json turn step), (''step/end'', step_json turn step)] s s'
       \<or> (\<exists>x. r = Inl x) \<and> e_open_step s' = Some step \<and> wrote en healthy [(''step/start'', step_json turn step)] s s')"
proof -
  obtain r1 s1 where e: "enter_step en turn step s = (r1, s1)" by fastforce
  note e' = enter_step_works [OF e ro h]
  obtain r2 s2 where b: "step_body attempts en turn step entered s1 = (r2, s2)" by fastforce
  have st: "steady en healthy s1 s2" by (rule tameD [OF tame_step_body [OF ro pe] b])
  have w: "wrote en healthy [(''step/start'', step_json turn step)] s s2"
    using wrote_trans [OF _ steady_wrote [OF st]] e' by fastforce
  have h2: "healthy (e_log s2)" using steady_healthy [OF st] e' by blast
  have p2: "e_steps s2 = step" "e_open_step s2 = Some step" using steady_progress [OF st] e' by auto
  have rs: "run_step attempts en turn step entered s
      = andthen (step_body attempts en turn step entered) (\<lambda>response. andthen (leave_step en turn step) (\<lambda>_. answer response)) s1"
    using e e' by (simp add: run_step_def andthen_def)
  show ?thesis
  proof (cases r2)
    case (Inl x)
    with assms(1) rs b w h2 p2 show ?thesis by (auto simp: andthen_def)
  next
    case (Inr a)
    obtain r3 s3 where l: "leave_step en turn step s2 = (r3, s3)" by fastforce
    note l' = leave_step_works [OF l ro h2]
    have "r = Inr a" and "s' = s3" using assms(1) rs b Inr l l' by (auto simp: andthen_def answer_def)
    with l' p2 wrote_trans [OF w] show ?thesis by fastforce
  qed
qed

lemma run_loop_writes:
  "run_loop attempts en turn taken claimed w content s = (r, s') \<Longrightarrow> runs_on append events en
   \<Longrightarrow> polite_engine healthy en \<Longrightarrow> healthy (e_log s) \<Longrightarrow> e_steps s = taken \<Longrightarrow> e_open_step s = None
   \<Longrightarrow> healthy (e_log s') \<and> taken \<le> e_steps s' \<and> e_steps s' \<le> max (taken + 1) (en_max_steps en)
      \<and> (e_open_step s' = None \<or> e_open_step s' = Some (e_steps s') \<and> taken < e_steps s' \<and> (\<exists>x. r = Inl x))
      \<and> wrote en healthy (steps_written turn taken (e_steps s') (e_open_step s')) s s'"
proof (induction attempts en turn taken claimed w content s arbitrary: r s' rule: run_loop.induct)
  case (1 attempts en turn taken claimed w content s)
  note ro = "1.prems"(2) and pe = "1.prems"(3)
  obtain r1 s1 where p: "pre_step en turn (taken + 1) claimed s = (r1, s1)" by fastforce
  note st = tameD [OF tame_pre_step [OF ro pe] p]
  have h1: "healthy (e_log s1)" using steady_healthy [OF st] "1.prems" by blast
  have p1: "e_steps s1 = taken" "e_open_step s1 = None" using steady_progress [OF st] "1.prems" by auto
  have quit: ?case if "s' = s1"
    using that steady_wrote [OF st] h1 p1 by (auto simp: steps_written_def)
  show ?case
  proof (cases "\<exists>entered. r1 = Inr (Some entered)")
    case False
    then show ?thesis using "1.prems"(1) p quit
      by (subst (asm) run_loop.simps) (auto split: sum.splits option.splits)
  next
    case True
    then obtain entered where r1: "r1 = Inr (Some entered)" by blast
    obtain r2 s2 where b: "run_step attempts en turn (taken + 1) entered s1 = (r2, s2)" by fastforce
    note b' = run_step_writes [OF b ro pe h1]
    show ?thesis
    proof (cases r2)
      case (Inl x)
      have "r = Inl x \<and> s' = s2"
        using "1.prems"(1) p r1 b Inl by (subst (asm) run_loop.simps) simp
      then show ?thesis
        using b' Inl wrote_trans [OF steady_wrote [OF st]] by (auto simp: steps_written_def)
    next
      case (Inr response)
      obtain r3 s3 where c: "step_boundary en response w s2 = (r3, s3)" by fastforce
      note st3 = tameD [OF tame_step_boundary c]
      have h3: "healthy (e_log s3)" using steady_healthy [OF st3] b' by blast
      have p3: "e_steps s3 = taken + 1" "e_open_step s3 = None" using steady_progress [OF st3] b' Inr by auto
      have w3: "wrote en healthy (step_pairs turn [taken + 1]) s s3"
        using wrote_trans [OF wrote_trans [OF steady_wrote [OF st]] steady_wrote [OF st3],
            of "step_pairs turn [taken + 1]"] b' Inr by (auto simp: step_pairs_def)
      have stop: ?thesis if "s' = s3"
        using that h3 p3 w3 by (auto simp: steps_written_def)
      show ?thesis
      proof (cases "(\<exists>w1. r3 = Inr (None, w1)) \<and> taken + 1 < en_max_steps en")
        case False
        have "s' = s3" using "1.prems"(1) p r1 b Inr c False
          by (subst (asm) run_loop.simps) (auto split: sum.splits option.splits if_splits)
        then show ?thesis by (rule stop)
      next
        case True
        then obtain w1 where r3: "r3 = Inr (None, w1)" by blast
        have "run_loop attempts en turn (taken + 1) [] w1 (rs_content response) s3 = (r, s')"
          using "1.prems"(1) p r1 b Inr c r3 True by (subst (asm) run_loop.simps) simp
        from "1.IH" [OF p [symmetric] r1 refl b [symmetric] Inr c [symmetric] r3 refl refl _ this ro pe h3 p3]
        have IH: "healthy (e_log s')" "taken + 1 \<le> e_steps s'" "e_steps s' \<le> max (taken + 1 + 1) (en_max_steps en)"
          "e_open_step s' = None \<or> e_open_step s' = Some (e_steps s') \<and> taken + 1 < e_steps s' \<and> (\<exists>x. r = Inl x)"
          "wrote en healthy (steps_written turn (taken + 1) (e_steps s') (e_open_step s')) s3 s'"
          using True by auto
        have "step_pairs turn [taken + 1] @ steps_written turn (taken + 1) (e_steps s') (e_open_step s')
            = steps_written turn taken (e_steps s') (e_open_step s')"
          using IH(2,4) by (auto simp: steps_written_def upt_conv_Cons simp del: upt_Suc)
        with wrote_trans [OF w3 IH(5)] IH True show ?thesis by auto
      qed
    qed
  qed
qed

lemma run_steps_writes:
  assumes "run_steps attempts en turn input s = (r, s')" and ro: "runs_on append events en"
    and pe: "polite_engine healthy en" and "healthy (e_log s)" and "e_steps s = 0" and "e_open_step s = None"
  shows "healthy (e_log s') \<and> e_steps s' \<le> max 1 (en_max_steps en)
    \<and> (e_open_step s' = None \<or> e_open_step s' = Some (e_steps s') \<and> 0 < e_steps s' \<and> (\<exists>x. r = Inl x))
    \<and> wrote en healthy (steps_written turn 0 (e_steps s') (e_open_step s')) s s'"
proof -
  obtain r1 s1 where l: "run_loop attempts en turn 0 [user_message input] (start_watch (en_guards en)) '''' s
      = (r1, s1)" by fastforce
  note l' = run_loop_writes [OF l ro pe assms(4-6)]
  show ?thesis
  proof (cases r1)
    case (Inl x)
    then have "r = Inl x" and "s' = s1" using assms(1) l by (auto simp: run_steps_def andthen_def)
    with l' show ?thesis by auto
  next
    case (Inr a)
    obtain reason content where a: "a = (reason, content)" by fastforce
    obtain r2 s2 where t: "turn_stopping en turn reason s1 = (r2, s2)" by fastforce
    note st = tameD [OF tame_turn_stopping [OF pe] t]
    have "s' = s2" using assms(1) l Inr a t
      by (auto simp: run_steps_def andthen_def answer_def split: sum.splits)
    moreover have "e_open_step s1 = None" using l' Inr by auto
    ultimately show ?thesis
      using l' steady_progress [OF st] steady_healthy [OF st] wrote_trans [OF _ steady_wrote [OF st]]
      by fastforce
  qed
qed

lemma close_turn_writes:
  assumes "close_turn en turn ended s = (r, s')" and ro: "runs_on append events en"
    and h: "healthy (e_log s)"
  shows "r = Inr () \<and> wrote en healthy
    ((case e_open_step s of None \<Rightarrow> [] | Some k \<Rightarrow> [(''step/end'', step_json turn k)])
     @ [(''turn/end'', turn_end_json turn (e_steps s) ended)]) s s'"
proof -
  define m where "m = (case e_open_step s of
                None \<Rightarrow> answer ()
              | Some step \<Rightarrow> andthen (log_event en ''step/end''
                  (jobj [(''turn'', jnat turn), (''step'', jnat step)]) None) (\<lambda>_. answer ()))"
  obtain r1 s1 where m1: "m s = (r1, s1)" by fastforce
  have 1: "r1 = Inr () \<and> healthy (e_log s1) \<and> wrote en healthy
    (case e_open_step s of None \<Rightarrow> [] | Some k \<Rightarrow> [(''step/end'', step_json turn k)]) s s1"
  proof (cases "e_open_step s")
    case None
    with m1 h show ?thesis by (auto simp: m_def answer_def intro: steady_wrote)
  next
    case (Some k)
    obtain r0 s0 where l: "log_event en ''step/end'' (step_json turn k) None s = (r0, s0)" by fastforce
    from log_event_wrote [OF l ro h] m1 l Some show ?thesis
      by (auto simp: m_def andthen_def answer_def step_json_def turn_marks_def)
  qed
  obtain r2 s2 where l: "log_event en ''turn/end'' (turn_end_json turn (e_steps s) ended) None s1 = (r2, s2)"
    by fastforce
  have l': "(\<exists>e. r2 = Inr e) \<and> wrote en healthy [(''turn/end'', turn_end_json turn (e_steps s) ended)] s1 s2"
    using log_event_wrote [OF l ro] 1 by (simp add: turn_marks_def)
  have "close_turn en turn ended s = (Inr (), s2)"
    using m1 1 l l' by (auto simp: close_turn_def andthen_def answer_def simp flip: m_def)
  with assms(1) 1 l' wrote_trans show ?thesis by fastforce
qed

lemma run_body_writes:
  assumes "run_body attempts en turn input s = (r, s')" and ro: "runs_on append events en"
    and pe: "polite_engine healthy en" and "healthy (e_log s)" and "e_steps s = 0" and "e_open_step s = None"
  shows "\<exists>n ended. n \<le> max 1 (en_max_steps en)
    \<and> wrote en healthy (step_pairs turn [1..<Suc n] @ [(''turn/end'', turn_end_json turn n ended)]) s s'
    \<and> ((\<exists>x. ended = Inl x \<and> r = Inl x \<and> (\<forall>p. x \<noteq> Unwound p))
       \<or> (\<exists>c. ended = Inr c \<and> r = Inr \<lparr>to_turn = turn, to_steps = n, to_reason = cg_reason c,
                          to_content = cg_content c, to_veto = cg_veto c\<rparr>))"
proof -
  obtain r0 s1 where rs: "run_steps attempts en turn input s = (r0, s1)" by fastforce
  note st = run_steps_writes [OF rs assms(2-6)]
  obtain closed s2 where cl: "close_turn en turn (caught r0) s1 = (closed, s2)" by fastforce
  have o1: "e_open_step s1 = None \<or> e_open_step s1 = Some (e_steps s1) \<and> 0 < e_steps s1" using st by blast
  have c: "closed = Inr ()" and w2: "wrote en healthy
    ((case e_open_step s1 of None \<Rightarrow> [] | Some k \<Rightarrow> [(''step/end'', step_json turn k)])
     @ [(''turn/end'', turn_end_json turn (e_steps s1) (caught r0))]) s1 s2"
    using close_turn_writes [OF cl ro] st by auto
  have "steps_written turn 0 (e_steps s1) (e_open_step s1)
      @ (case e_open_step s1 of None \<Rightarrow> [] | Some k \<Rightarrow> [(''step/end'', step_json turn k)])
      = step_pairs turn [1..<Suc (e_steps s1)]"
    using o1 by (auto simp: steps_written_def)
  moreover have "wrote en healthy (steps_written turn 0 (e_steps s1) (e_open_step s1)) s s1" using st by blast
  ultimately have w: "wrote en healthy (step_pairs turn [1..<Suc (e_steps s1)]
      @ [(''turn/end'', turn_end_json turn (e_steps s1) (caught r0))]) s s2"
    using wrote_trans [OF _ w2] by (metis append_assoc)
  have "s' = s2 \<and> ((\<exists>x. caught r0 = Inl x \<and> r = Inl x \<and> (\<forall>p. x \<noteq> Unwound p))
       \<or> (\<exists>c. caught r0 = Inr c \<and> r = Inr \<lparr>to_turn = turn, to_steps = e_steps s1, to_reason = cg_reason c,
                          to_content = cg_content c, to_veto = cg_veto c\<rparr>))"
    using assms(1) rs cl c
    by (cases r0) (auto simp: run_body_def Let_def caught_def split: stop.splits)
  with w st show ?thesis by blast
qed

lemma run_turn_writes:
  assumes "run_turn attempts en input s = (r, s')" and ro: "runs_on append events en"
    and pe: "polite_engine healthy en" and h: "healthy (e_log s)"
  shows "\<exists>n ended new. n \<le> max 1 (en_max_steps en) \<and> events_of en s' = events_of en s @ new
    \<and> brackets new = (''turn/start'', jobj [(''turn'', jnat (e_turns s + 1))])
        # step_pairs (e_turns s + 1) [1..<Suc n] @ [(''turn/end'', turn_end_json (e_turns s + 1) n ended)]
    \<and> ((\<exists>x. ended = Inl x \<and> r = Inl x \<and> (\<forall>p. x \<noteq> Unwound p))
       \<or> (\<exists>c. ended = Inr c \<and> r = Inr \<lparr>to_turn = e_turns s + 1, to_steps = n, to_reason = cg_reason c,
                          to_content = cg_content c, to_veto = cg_veto c\<rparr>))"
proof -
  let ?t = "e_turns s + 1"
  let ?s = "snd (open_turn s)"
  have o: "e_log ?s = e_log s" "e_steps ?s = 0" "e_open_step ?s = None" by (simp_all add: open_turn_def)
  obtain r1 s1 where l: "log_event en ''turn/start'' (jobj [(''turn'', jnat ?t)]) None ?s = (r1, s1)" by fastforce
  have l': "(\<exists>e. r1 = Inr e) \<and> wrote en healthy [(''turn/start'', jobj [(''turn'', jnat ?t)])] ?s s1
      \<and> healthy (e_log s1) \<and> e_steps s1 = 0 \<and> e_open_step s1 = None"
    using log_event_wrote [OF l ro, unfolded o, OF h] by (simp add: turn_marks_def)
  obtain r2 s2 where sn: "snapshot_context en ?t s1 = (r2, s2)" by fastforce
  have "tame en healthy (snapshot_context en ?t)"
    unfolding snapshot_context_def Let_def by (intro tame_intros ro) (auto simp: turn_marks_def)
  note st = tameD [OF this sn]
  have ok: "\<exists>u. r2 = Inr u"
  proof -
    obtain r3 s3 where "log_event en ''context/snapshot'' (jobj [(''turn'', jnat ?t), (''parts'',
        JArr (map json_of_part (snapshot_parts ?t (en_contexts en))))]) None s1 = (r3, s3)" by fastforce
    with log_event_works [OF this ro] l' sn show ?thesis
      by (auto simp: snapshot_context_def Let_def answer_def andthen_def split: if_splits)
  qed
  have h2: "healthy (e_log s2)" and p2: "e_steps s2 = 0" "e_open_step s2 = None"
    using steady_healthy [OF st] steady_progress [OF st] l' by auto
  have b: "run_body attempts en ?t input s2 = (r, s')"
    using assms(1) l l' sn ok by (auto simp: run_turn_def open_turn_def andthen_def)
  obtain n ended where n: "n \<le> max 1 (en_max_steps en)"
    and w: "wrote en healthy (step_pairs ?t [1..<Suc n] @ [(''turn/end'', turn_end_json ?t n ended)]) s2 s'"
    and r: "(\<exists>x. ended = Inl x \<and> r = Inl x \<and> (\<forall>p. x \<noteq> Unwound p))
       \<or> (\<exists>c. ended = Inr c \<and> r = Inr \<lparr>to_turn = ?t, to_steps = n, to_reason = cg_reason c,
                          to_content = cg_content c, to_veto = cg_veto c\<rparr>)"
    using run_body_writes [OF b ro pe h2 p2] by blast
  have "wrote en healthy [(''turn/start'', jobj [(''turn'', jnat ?t)])] ?s s1" using l' by simp
  from wrote_trans [OF wrote_trans [OF this steady_wrote [OF st]] w]
  obtain new where "events_of en s' = events_of en ?s @ new"
    and "brackets new = (''turn/start'', jobj [(''turn'', jnat ?t)])
        # step_pairs ?t [1..<Suc n] @ [(''turn/end'', turn_end_json ?t n ended)]"
    by (auto simp: wrote_def)
  with n r o show ?thesis unfolding events_of_def by metis
qed

end

section \<open>Every turn is closed\<close>

text \<open>
  C5. Whatever ends a turn closes it on the journal: over a disk that takes the writes, and
  whatever the provider, the tools and the listeners answer or however they panic, a turn adds its
  start, then one start and one end for each step it counted, in order, then its end.  The end
  carries the count and the reason the caller is told, or that the turn failed; no panic reaches
  the caller, and the steps never exceed the budget, one step being the least a turn is given.
\<close>

theorem turn_always_closed:
  assumes "run_turn attempts en input s = (r, s')"
    and "en_append en = append_journal enc" and "en_events en = j_events"
    and "polite_engine (healthy_journal enc) en" and "healthy_journal enc (e_log s)"
  shows "\<exists>n ended new. n \<le> max 1 (en_max_steps en) \<and> j_events (e_log s') = j_events (e_log s) @ new
    \<and> brackets new = (''turn/start'', jobj [(''turn'', jnat (e_turns s + 1))])
        # step_pairs (e_turns s + 1) [1..<Suc n] @ [(''turn/end'', turn_end_json (e_turns s + 1) n ended)]
    \<and> ((\<exists>x. ended = Inl x \<and> r = Inl x \<and> (\<forall>p. x \<noteq> Unwound p))
       \<or> (\<exists>c. ended = Inr c \<and> r = Inr \<lparr>to_turn = e_turns s + 1, to_steps = n, to_reason = cg_reason c,
                          to_content = cg_content c, to_veto = cg_veto c\<rparr>))"
  using journal_works.run_turn_writes [OF assms(1) _ assms(4,5)] assms(2,3)
  by (simp add: runs_on_def events_of_def)

text \<open>A provider that asks for one call first, whose dispatch a listener's panic cuts off.\<close>

definition calling_engine :: "(nat \<times> tool_call, tool_call, journal) listener list \<Rightarrow> journal engine" where
  "calling_engine pre = demo_engine\<lparr>en_pre_tool := pre,
     en_adapter := (\<lambda>sink req w. (Inr (Inr \<lparr>rs_content = ''done'', rs_reasoning = '''',
        rs_calls = take 1 demo_calls, rs_finish = ''stop'', rs_usage = None\<rparr>), w))\<rparr>"

definition panicking :: "(nat \<times> tool_call, tool_call, journal) listener list" where
  "panicking = [WaterfallFn (\<lambda>e k l. (Inl (StaticStr ''boom''), e, l))]"

lemma polite_pass [simp]: "polite ev H [] (pass f)"
  by (simp add: polite_def pass_def)

lemma demo_engine_chains:
  "en_pre_step demo_engine = []" "en_assemble demo_engine = []" "en_request demo_engine = []"
  "en_stream demo_engine = []" "en_recover demo_engine = []" "en_stopping demo_engine = []"
  "en_adapter demo_engine sink req w = (Inr (Inr \<lparr>rs_content = ''done'', rs_reasoning = '''', rs_calls = [],
        rs_finish = ''stop'', rs_usage = None\<rparr>), w)"
  by (simp_all add: demo_engine_def)

lemma demo_engine_polite: "polite_engine H demo_engine"
proof -
  have "polite j_events H [] (dispatch_tool demo_engine)"
    by (auto simp: polite_def dispatch_tool_def execute_tool_def demo_engine_parts
        echo_tool_def plain_tool_def)
  moreover have "polite (j_events \<circ> fst) (H \<circ> fst) [] (call_adapter demo_engine turn step)" for turn step
    by (auto simp: polite_def call_adapter_def demo_engine_chains)
  moreover have "polite j_events H [] (\<lambda>ev l. (Inr None, ev, l))" by (auto simp: polite_def)
  ultimately show ?thesis
    unfolding polite_engine_def Let_def demo_engine_parts demo_engine_chains
    by (simp add: waterfall_no_one)
qed

lemma demo_engine_healthy: "healthy_journal (\<lambda>e. Some ''x'') (e_log (demo_state picks))"
  by (simp add: healthy_journal_def demo_state_def empty_journal_def)

theorem turn_always_closed_witness:
  "\<exists>r s' ended. run_turn 1 demo_engine ''hi'' (demo_state []) = (r, s')
     \<and> brackets (j_events (e_log s')) = [(''turn/start'', jobj [(''turn'', jnat 1)]),
         (''step/start'', step_json 1 1), (''step/end'', step_json 1 1), (''turn/end'', turn_end_json 1 1 ended)]"
proof -
  obtain r s' where run: "run_turn 1 demo_engine ''hi'' (demo_state []) = (r, s')" by fastforce
  from turn_always_closed [OF this demo_engine_parts(1,2) demo_engine_polite demo_engine_healthy]
  obtain n ended new where n: "j_events (e_log s') = new"
    "brackets new = (''turn/start'', jobj [(''turn'', jnat 1)])
        # step_pairs 1 [1..<Suc n] @ [(''turn/end'', turn_end_json 1 n ended)]"
    by (auto simp: demo_state_def empty_journal_def)
  have "length (brackets (j_events (e_log (snd (run_turn 1 demo_engine ''hi'' (demo_state [])))))) = 4"
    by code_simp
  moreover have "length (step_pairs 1 ns) = 2 * length ns" for ns by (induction ns) simp_all
  ultimately have "n = 1" using n run by (simp del: upt_Suc)
  with n run show ?thesis by auto
qed

text \<open>
  The brackets that a failed turn closes hide what it left undone.  A listener's panic ends the
  turn between a call and its result; the turn is closed, so crash repair finds nothing to do, and
  the history the next request is built from ends in a call that no result will ever answer.
\<close>

theorem panicked_turn_keeps_call:
  "let s' = snd (run_turn 1 (calling_engine panicking) ''hi'' (demo_state [])); es = j_events (e_log s') in
     map un_id (unanswered_calls es) = [''a'']
     \<and> repair (append_journal (\<lambda>e. Some ''x'')) j_events (e_log s') = (Inr [], e_log s')
     \<and> map tc_id (m_calls (last (derive_messages es))) = [''a'']"
  unfolding Let_def
proof (intro conjI)
  let ?s = "snd (run_turn 1 (calling_engine panicking) ''hi'' (demo_state []))"
  have left: "map un_id (unanswered_calls (j_events (e_log ?s))) = [''a'']
      \<and> map tc_id (m_calls (last (derive_messages (j_events (e_log ?s))))) = [''a'']
      \<and> interrupted_turn_closers (j_events (e_log ?s)) = []"
    by code_simp
  then show "map un_id (unanswered_calls (j_events (e_log ?s))) = [''a'']"
    "map tc_id (m_calls (last (derive_messages (j_events (e_log ?s))))) = [''a'']" by blast+
  from left show "repair (append_journal (\<lambda>e. Some ''x'')) j_events (e_log ?s) = (Inr [], e_log ?s)"
    by (simp add: repair_def)
qed

lemma append_journal_refused:
  assumes "disk l = w # ws" and "w \<noteq> Written" and "\<forall>e. enc e \<noteq> None"
  obtains l' where "append_journal enc l t d src = (Inl Io, l')" and "j_events l' = j_events l" and "disk l' = ws"
proof -
  obtain line where "enc \<lparr>ty = t, seq = length (j_events l), time = next_clock l, data = d,
      source_event_seqs = src\<rparr> = Some line" using assms(3) by blast
  with assms(1,2) that show thesis
    by (cases w) (simp_all add: append_journal_def Let_def next_disk_def)
qed

text \<open>
  The gap in front of the first step.  A turn whose context snapshot the journal refuses comes
  back with that failure and without its end: the journal is left with a turn open, though every
  later write may succeed.
\<close>

theorem refused_snapshot_leaves_turn_open:
  assumes "run_turn attempts en input s = (r, s')"
    and "en_append en = append_journal enc" and "en_events en = j_events"
    and "render (snapshot_parts (e_turns s + 1) (en_contexts en)) \<noteq> []"
    and "disk (e_log s) = Written # w # ws" and "w \<noteq> Written" and "\<forall>e. enc e \<noteq> None"
  shows "r = Inl (Fault (SessionFailed Io))
    \<and> (\<exists>start. j_events (e_log s') = j_events (e_log s) @ [start] \<and> ty start = ''turn/start'')
    \<and> has_open_turn (j_events (e_log s')) \<and> disk (e_log s') = ws"
proof -
  let ?s = "snd (open_turn s)"
  obtain line where line: "enc \<lparr>ty = ''turn/start'', seq = length (j_events (e_log s)), time = next_clock (e_log s),
      data = jobj [(''turn'', jnat (e_turns s + 1))], source_event_seqs = None\<rparr> = Some line" using assms(7) by blast
  obtain e s1 where l: "log_event en ''turn/start'' (jobj [(''turn'', jnat (e_turns s + 1))]) None ?s = (Inr e, s1)"
    and e: "ty e = ''turn/start''" "j_events (e_log s1) = j_events (e_log s) @ [e]" "disk (e_log s1) = w # ws"
    using line assms(5) by (simp add: log_event_def assms(2) append_journal_def open_turn_def next_disk_def Let_def)
  obtain l2 where a: "append_journal enc (e_log s1) ''context/snapshot'' (jobj [(''turn'', jnat (e_turns s + 1)),
      (''parts'', JArr (map json_of_part (snapshot_parts (e_turns s + 1) (en_contexts en))))]) None = (Inl Io, l2)"
    and e2: "j_events l2 = j_events (e_log s1)" "disk l2 = ws"
    using append_journal_refused [OF e(3) assms(6,7)] .
  define s2 where "s2 = s1\<lparr>e_log := l2\<rparr>"
  have sn: "snapshot_context en (e_turns s + 1) s1 = (Inl (Fault (SessionFailed Io)), s2)"
    using assms(4) a by (simp add: snapshot_context_def Let_def andthen_def log_event_def assms(2) s2_def)
  have "r = Inl (Fault (SessionFailed Io))" and "s' = s2"
    using assms(1) l sn by (auto simp: run_turn_def open_turn_def andthen_def)
  moreover have "has_open_turn (j_events (e_log s) @ [e])" using e(1) by (simp add: has_open_turn_def find_last_def)
  ultimately show ?thesis using e e2 by (auto simp: s2_def)
qed

definition dated_engine :: "journal engine" where
  "dated_engine = demo_engine\<lparr>en_contexts := [((0, ''clock''), \<lambda>_. Inr ''noon'')]\<rparr>"

definition failing_once :: "journal engine_state" where
  "failing_once = (demo_state [])\<lparr>e_log := empty_journal [Written, NotSynced] []\<rparr>"

theorem refused_snapshot_leaves_turn_open_witness:
  "\<exists>s' start. run_turn 1 dated_engine ''hi'' failing_once = (Inl (Fault (SessionFailed Io)), s')
     \<and> j_events (e_log s') = [start] \<and> disk (e_log s') = []"
proof -
  obtain r s' where run: "run_turn 1 dated_engine ''hi'' failing_once = (r, s')" by fastforce
  have "en_append dated_engine = append_journal (\<lambda>e. Some ''x'')" "en_events dated_engine = j_events"
    "disk (e_log failing_once) = [Written, NotSynced]" "j_events (e_log failing_once) = []"
    by (simp_all add: dated_engine_def demo_engine_parts failing_once_def empty_journal_def)
  note parts = this
  have "render (snapshot_parts (e_turns failing_once + 1) (en_contexts dated_engine)) \<noteq> []" by code_simp
  from refused_snapshot_leaves_turn_open [OF run parts(1,2) this parts(3)] parts(4) run
  show ?thesis by auto
qed

end
