(* ===== verification/Provider_Call.thy ===== *)
theory Provider_Call
  imports Turn_Closes
begin

text \<open>
  How often one request goes out: with the bounded retry policy of \<^verbatim>\<open>llm/retry.rs\<close> on the
  engine's recovery, the loop of \<^verbatim>\<open>engine.rs\<close> around the provider call ends, because the policy
  counts what it reads back from the journal.
\<close>

definition retries_in :: "session_event list \<Rightarrow> nat" where
  "retries_in es = length (filter (\<lambda>e. ty e = ''llm/retry'') es)"

lemma retries_in_simps [simp]:
  "retries_in [] = 0" "retries_in (es @ es') = retries_in es + retries_in es'"
  "retries_in [e] = (if ty e = ''llm/retry'' then 1 else 0)"
  by (simp_all add: retries_in_def)

lemma grown_retries: "grown {''llm/retry''} es es' \<Longrightarrow> \<exists>new. es' = es @ new \<and> retries_in new = 0
    \<and> prior_retries es' ev = prior_retries es ev"
  by (auto simp: grown_def retries_in_def filter_empty_conv prior_retries_append)

lemma prior_retries_same:
  "re_turn ev' = re_turn ev \<Longrightarrow> re_step ev' = re_step ev \<Longrightarrow> re_provider ev' = re_provider ev
   \<Longrightarrow> prior_retries es ev' = prior_retries es ev"
proof -
  assume "re_turn ev' = re_turn ev" "re_step ev' = re_step ev" "re_provider ev' = re_provider ev"
  then have "of_chain ev' = of_chain ev" by (simp add: fun_eq_iff of_chain_def)
  then show ?thesis unfolding prior_retries_def by (rule arg_cong)
qed

text \<open>The chain of retries of one step on one route.\<close>

definition chain_of :: "nat \<Rightarrow> nat \<Rightarrow> string \<Rightarrow> request_error" where
  "chain_of turn step route = \<lparr>re_turn = turn, re_step = step, re_provider = route,
     re_failure = failure_of (EmptyResponse ''''), re_interrupt = new_interrupt, re_early = False\<rparr>"

context session_log
begin

text \<open>What the listener writes, and that a retry it answers is one more on the journal.\<close>

lemma retry_fn_counts:
  assumes "retry_fn append events route (NormalRetry n codes b) jitter ev (\<lambda>ev l. (Inr None, ev, l)) l = (r, ev', l')"
    and "n < 2 ^ 32"
  shows "\<exists>new. events l' = events l @ new
    \<and> retries_in new \<le> n - prior_retries (events l) ev
    \<and> (r = Inr (Some RetryRequest) \<longrightarrow> re_provider ev = route \<and> retries_in new = 1
         \<and> prior_retries (events l) ev < n \<and> prior_retries (events l') ev = prior_retries (events l) ev + 1)"
proof (cases "re_provider ev \<noteq> route \<or> stopped (re_interrupt ev)")
  case True
  with assms(1) have "r = Inr None" and "l' = l" by (auto simp: retry_fn_def split: if_splits)
  then show ?thesis by auto
next
  case False
  let ?prior = "prior_retries (events l) ev"
  obtain o1 l1 where sch: "schedule_retry append events (NormalRetry n codes b) ev (jitter l) l = (o1, l1)"
    by fastforce
  show ?thesis
  proof (cases "decide_retry (NormalRetry n codes b) ?prior (rf_code (re_failure ev))
             (rf_retry_after (re_failure ev)) (jitter l)")
    case GiveUp
    with sch have "o1 = None" and "l1 = l" by (auto simp: schedule_retry_def)
    with assms sch False show ?thesis by (auto simp: retry_fn_def)
  next
    case (Wait retry delay)
    then have retry: "retry = ?prior + 1" "?prior < n"
      by (auto simp: decide_retry_def Let_def split: if_splits option.splits)
    obtain r2 l2 where a: "append l ''llm/retry'' (retry_record (NormalRetry n codes b) ev retry delay) None = (r2, l2)"
      by fastforce
    show ?thesis
    proof (cases r2)
      case (Inl x)
      with sch Wait a have "o1 = None" and "events l1 = events l"
        by (auto simp: schedule_retry_def dest: append_err)
      with assms sch False show ?thesis by (auto simp: retry_fn_def)
    next
      case (Inr e)
      with sch Wait a have l1: "o1 = Some (retry, delay)" "l1 = l2" by (auto simp: schedule_retry_def)
      from append_ok [OF a [unfolded Inr]]
      have e: "events l1 = events l @ [e]" "ty e = ''llm/retry''"
        "data e = retry_record (NormalRetry n codes b) ev retry delay" by (auto simp: l1)
      have p: "prior_retries (events l @ [e]) ev = retry"
        by (rule retry_record_chain [OF e(2,3)]) (use retry assms(2) in auto)
      obtain r3 l3 where s: "append l1 ''llm/retry-started'' (jobj [(''turn'', jnat (re_turn ev)),
          (''step'', jnat (re_step ev)), (''retry'', jnat retry)]) None = (r3, l3)" by fastforce
      have one: "retries_in [e] = 1" using e(2) by simp
      show ?thesis
      proof (cases r3)
        case (Inl x)
        have ev: "events l3 = events l1" using s Inl by (auto dest: append_err)
        with assms(1) sch False l1(1) s Inl e(1) have "r = Inr None" and "events l' = events l @ [e]"
          by (auto simp: retry_fn_def split: if_splits)
        with one retry show ?thesis by auto
      next
        case (Inr e')
        from append_ok [OF s [unfolded Inr]] have ev: "events l3 = events l @ [e] @ [e']" "ty e' = ''llm/retry-started''"
          by (auto simp: e(1))
        have p': "prior_retries (events l @ [e] @ [e']) ev = retry"
          using prior_retries_append [of "[e']" "events l @ [e]"] ev(2) p by simp
        have "r = Inr None \<and> events l' = events l @ [e] \<or>
          r = Inr (Some RetryRequest) \<and> events l' = events l @ [e] @ [e']"
          using assms(1) sch False l1(1) s Inr ev e(1) by (auto simp: retry_fn_def split: if_splits)
        moreover have "retries_in [e, e'] = 1" using e(2) ev(2) by (simp add: retries_in_def)
        ultimately show ?thesis using one retry p' False by auto
      qed
    qed
  qed
qed

end

text \<open>A stream that leaves the retry records to the policy.\<close>

definition streams_quietly :: "'l engine \<Rightarrow> bool" where
  "streams_quietly en \<longleftrightarrow> (\<forall>turn step r w out r' w'.
     next_run (en_stream en) 0 (call_adapter en turn step) r w = (out, r', w')
     \<longrightarrow> grown {''llm/retry''} (en_events en (fst w)) (en_events en (fst w')))"

context session_log
begin

lemma one_call_quiet:
  assumes "one_call en turn step q s = (r, s')" and "streams_quietly en"
  shows "grown {''llm/retry''} (events_of en s) (events_of en s')"
proof -
  obtain out r1 l seqs where "next_run (en_stream en) 0 (call_adapter en turn step) (fst q)
      (e_log s, snd q) = (out, r1, l, seqs)" and "s' = s\<lparr>e_log := l\<rparr>"
    using assms(1) by (auto simp: one_call_def split: prod.splits)
  with assms(2) show ?thesis unfolding streams_quietly_def events_of_def by fastforce
qed

lemma stopped_now_log: "stopped_now s = (r, s') \<Longrightarrow> events_of en s' = events_of en s \<and> (\<exists>b. r = Inr b)"
  by (auto simp: stopped_now_def andthen_def answer_def read_interrupt_def Let_def events_of_def
      split: list.splits option.splits)

lemma recover_counts:
  assumes "recover en turn step provider failed s = (r, s')" and ro: "runs_on append events en"
    and listen: "en_recover en = [retry_listener append events route (NormalRetry n codes b) jitter]"
    and "n < 2 ^ 32"
  shows "\<exists>new. events_of en s' = events_of en s @ new
    \<and> retries_in new \<le> n - (if provider = route then prior_retries (events_of en s) (chain_of turn step route) else n)
    \<and> r \<noteq> Inl NoFuel
    \<and> (r = Inr (Some RetryRequest) \<longrightarrow> provider = route \<and> retries_in new = 1
         \<and> prior_retries (events_of en s) (chain_of turn step route) < n
         \<and> prior_retries (events_of en s') (chain_of turn step route)
           = prior_retries (events_of en s) (chain_of turn step route) + 1)"
proof -
  obtain i s1 where i: "read_interrupt s = (Inr i, s1)" by (auto simp: read_interrupt_def Let_def)
  obtain early s2 where e: "stopped_now s1 = (Inr early, s2)"
    using stopped_now_log by (metis surj_pair)
  have same: "events_of en s2 = events_of en s"
    using read_interrupt_log [OF i] stopped_now_log [OF e] by simp
  define ev where "ev = \<lparr>re_turn = turn, re_step = step, re_provider = provider,
      re_failure = failure_of failed, re_interrupt = i, re_early = early\<rparr>"
  have run: "next_run (en_recover en) 0 (\<lambda>ev l. (Inr None, ev, l)) ev (e_log s2)
      = retry_fn append events route (NormalRetry n codes b) jitter ev (\<lambda>ev l. (Inr None, ev, l)) (e_log s2)"
    unfolding listen by (simp add: next_run_foldr around_def retry_listener_def)
  obtain r1 ev' l' where f: "retry_fn append events route (NormalRetry n codes b) jitter ev
      (\<lambda>ev l. (Inr None, ev, l)) (e_log s2) = (r1, ev', l')" by (metis prod_cases3)
  have s': "r = map_sum Unwound id r1" "s' = s2\<lparr>e_log := l'\<rparr>"
    using assms(1) i e f run by (auto simp: recover_def andthen_def ask_def ev_def)
  have pr: "prior_retries es ev = prior_retries es (chain_of turn step route)" if "provider = route" for es
    by (rule prior_retries_same) (simp_all add: ev_def chain_of_def that)
  have nr: "r1 \<noteq> Inr (Some RetryRequest) \<and> events l' = events (e_log s2)" if "provider \<noteq> route"
    using f that by (auto simp: retry_fn_def ev_def)
  from retry_fn_counts [OF f assms(4)] obtain new where new: "events l' = events (e_log s2) @ new"
    "retries_in new \<le> n - prior_retries (events (e_log s2)) ev"
    "r1 = Inr (Some RetryRequest) \<longrightarrow> re_provider ev = route \<and> retries_in new = 1
         \<and> prior_retries (events (e_log s2)) ev < n
         \<and> prior_retries (events l') ev = prior_retries (events (e_log s2)) ev + 1" by blast
  have evs: "events (e_log s2) = events_of en s" "events_of en s' = events l'"
    using same s' by (simp_all add: runs_onD [OF ro])
  have r1: "r = Inr (Some RetryRequest) \<longleftrightarrow> r1 = Inr (Some RetryRequest)" "r \<noteq> Inl NoFuel"
    using s'(1) by (cases r1; auto)+
  show ?thesis
  proof (cases "provider = route")
    case True
    with new evs r1 pr show ?thesis by (auto simp: ev_def)
  next
    case False
    with nr evs r1 show ?thesis by auto
  qed
qed

lemma call_provider_ends:
  assumes ro: "runs_on append events en" and quiet: "streams_quietly en"
    and listen: "en_recover en = [retry_listener append events route (NormalRetry n codes b) jitter]"
    and n: "n < 2 ^ 32"
  shows "n - prior_retries (events_of en s) (chain_of turn step route) < k
    \<Longrightarrow> call_provider k en turn step q s = (r, s')
    \<Longrightarrow> r \<noteq> Inl NoFuel \<and> (\<exists>new. events_of en s' = events_of en s @ new
         \<and> retries_in new \<le> n - prior_retries (events_of en s) (chain_of turn step route))"
proof (induction k arbitrary: q s)
  case (Suc k)
  let ?c = "chain_of turn step route"
  obtain r1 s1 where o: "one_call en turn step q s = (r1, s1)" by fastforce
  from grown_retries [OF one_call_quiet [OF o quiet], of ?c] obtain new1 where
    1: "events_of en s1 = events_of en s @ new1" "retries_in new1 = 0"
      "prior_retries (events_of en s1) ?c = prior_retries (events_of en s) ?c" by blast
  have nf: "r1 \<noteq> Inl NoFuel"
    using o by (auto simp: one_call_def map_sum_def split: prod.splits sum.splits)
  show ?case
  proof (cases "\<exists>failed r' seqs. r1 = Inr (Inl failed, r', seqs)")
    case False
    then have "s' = s1 \<and> r \<noteq> Inl NoFuel"
      using Suc.prems(2) o nf by (auto simp: andthen_def answer_def split: sum.splits)
    with 1 show ?thesis by auto
  next
    case True
    then obtain failed r' seqs where r1: "r1 = Inr (Inl failed, r', seqs)" by blast
    obtain r2 s2 where rec: "recover en turn step (mr_provider r') failed s1 = (r2, s2)" by fastforce
    from recover_counts [OF rec ro listen n] obtain new2 where
      2: "events_of en s2 = events_of en s1 @ new2"
        "retries_in new2 \<le> n - prior_retries (events_of en s) ?c" "r2 \<noteq> Inl NoFuel"
        "r2 = Inr (Some RetryRequest) \<longrightarrow> retries_in new2 = 1 \<and> prior_retries (events_of en s) ?c < n
          \<and> prior_retries (events_of en s2) ?c = prior_retries (events_of en s) ?c + 1"
      using 1(3) by (auto split: if_splits)
    have short: ?thesis if "events_of en s' = events_of en s2" and "r \<noteq> Inl NoFuel"
      using that 1 2(1,2) by auto
    show ?thesis
    proof (cases "r2 = Inr (Some RetryRequest)")
      case False
      have "s' = s2 \<and> r \<noteq> Inl NoFuel"
      proof (cases r2)
        case (Inl x)
        with Suc.prems(2) o r1 rec 2(3) show ?thesis by (auto simp: andthen_def)
      next
        case (Inr a)
        then have "a = None" using False by (cases a) (use request_error_action.exhaust in auto)
        with Inr Suc.prems(2) o r1 rec show ?thesis by (auto simp: andthen_def)
      qed
      with short show ?thesis by simp
    next
      case True
      obtain halt s3 where h: "stopped_now s2 = (Inr halt, s3)"
        using stopped_now_log by (metis surj_pair)
      have e3: "events_of en s3 = events_of en s2" using stopped_now_log [OF h] by blast
      show ?thesis
      proof (cases halt)
        case True
        then have "s' = s3 \<and> r \<noteq> Inl NoFuel"
          using Suc.prems(2) o r1 rec h \<open>r2 = _\<close> by (auto simp: andthen_def)
        with short e3 show ?thesis by simp
      next
        case False
        then have go: "call_provider k en turn step (r', seqs) s3 = (r, s')"
          using Suc.prems(2) o r1 rec h True by (auto simp: andthen_def)
        have "n - prior_retries (events_of en s3) ?c < k"
          using Suc.prems(1) 2(4) True e3 by auto
        from Suc.IH [OF this go] obtain new3 where
          "r \<noteq> Inl NoFuel" "events_of en s' = events_of en s3 @ new3"
          "retries_in new3 \<le> n - prior_retries (events_of en s3) ?c" by blast
        with 1 2 e3 True show ?thesis by auto
      qed
    qed
  qed
qed simp

end

text \<open>
  C14. With a bounded policy installed, one request goes out at most once more than the policy
  allows retries, whatever the provider answers, the journal refuses or other threads stop: the
  loop ends within that many attempts, and no more than that many retries are on the journal.
\<close>

theorem retries_bounded:
  assumes "call_provider (n + 1) en turn step q s = (r, s')"
    and "en_append en = append_journal enc" and "en_events en = j_events"
    and "en_recover en = [retry_listener (append_journal enc) j_events route (NormalRetry n codes b) jitter]"
    and "streams_quietly en" and "n < 2 ^ 32"
  shows "r \<noteq> Inl NoFuel
    \<and> (\<exists>new. j_events (e_log s') = j_events (e_log s) @ new \<and> retries_in new \<le> n)"
proof -
  have ro: "runs_on (append_journal enc) j_events en" using assms(2,3) by (simp add: runs_on_def)
  have "n - prior_retries (events_of en s) (chain_of turn step route) < n + 1" by simp
  from journal_log.call_provider_ends [OF ro assms(5,4,6) this assms(1)]
  obtain new where "r \<noteq> Inl NoFuel" and "events_of en s' = events_of en s @ new"
    and "retries_in new \<le> n - prior_retries (events_of en s) (chain_of turn step route)" by blast
  then show ?thesis using runs_onD(3) [OF ro] by (metis diff_le_self le_trans)
qed

text \<open>A provider that never answers anything, under the default policy.\<close>

definition mute_engine :: "journal engine" where
  "mute_engine = demo_engine\<lparr>
     en_recover := [retry_listener (append_journal (\<lambda>e. Some ''x'')) j_events ''mock'' default_policy_retry (\<lambda>_. 0)],
     en_adapter := (\<lambda>sink req w. (Inr (Inl (EmptyResponse ''mock'')), w))\<rparr>"

definition mute_request :: "model_request \<times> nat list" where
  "mute_request = (\<lparr>mr_provider = ''mock'', mr_model = ''m'', mr_messages = [], mr_tools = [],
     mr_max_tokens = None\<rparr>, [])"

theorem retries_bounded_witness:
  "\<exists>s'. call_provider 3 mute_engine 4 2 mute_request (demo_state [])
       = (Inl (Fault (LlmFailed (EmptyResponse ''mock''))), s') \<and> retries_in (j_events (e_log s')) = 2"
proof -
  have parts: "en_append mute_engine = append_journal (\<lambda>e. Some ''x'')" "en_events mute_engine = j_events"
    "en_stream mute_engine = []"
    by (simp_all add: mute_engine_def demo_engine_parts demo_engine_chains)
  have quiet: "streams_quietly mute_engine"
    by (auto simp: streams_quietly_def parts call_adapter_def) (auto simp: mute_engine_def)
  define a where "a = call_provider 3 mute_engine 4 2 mute_request (demo_state [])"
  have "retries_in (j_events (e_log (snd a))) = 2" unfolding a_def by code_simp
  moreover have "case fst a of Inl (Fault (LlmFailed (EmptyResponse m))) \<Rightarrow> m = ''mock'' | Inl NoFuel \<Rightarrow> True | _ \<Rightarrow> False"
    unfolding a_def by code_simp
  moreover obtain r s' where a: "a = (r, s')" by fastforce
  moreover have "en_recover mute_engine = [retry_listener (append_journal (\<lambda>e. Some ''x'')) j_events ''mock''
      (NormalRetry 2 DEFAULT_RETRYABLE_CODES default_backoff) (\<lambda>_. 0)]"
    by (simp add: mute_engine_def default_policy_retry_def)
  from retries_bounded [of 2, OF _ parts(1,2) this quiet] a have "r \<noteq> Inl NoFuel" by (simp add: a_def)
  ultimately show ?thesis
    by (auto simp: a_def split: sum.splits stop.splits turn_error.splits llm_error.splits)
qed

end
