(* ===== verification/Script.thy ===== *)
theory Script
  imports Floats Json_Value Effects
begin

text \<open>
  The evaluator of the local code runtime, \<^verbatim>\<open>crates/coderuntime/src/local/eval.rs\<close>, over the
  program shape of \<^verbatim>\<open>program.rs\<close>: every step spends fuel and reads the stop flag, loops
  included.  What the standard library prints, parses and rounds is the record \<open>script_env\<close>; a
  binding of the caller is a function on the caller's world \<^typ>\<open>'w\<close>, and may panic.
\<close>

section \<open>Programs\<close>

datatype expr =
    ENum f64
  | EText string
  | EBool bool
  | ENull
  | EName string
  | EList "expr list"
  | EMap "(string \<times> expr) list"
  | EMember expr string
  | EIndex expr expr
  | ECall expr "expr list"
  | EUnary string expr
  | EBinary string expr expr

datatype stmt =
    SLet string expr
  | SAssign expr expr
  | SIf expr "stmt list" "stmt list"
  | SWhile expr "stmt list"
  | SReturn "expr option"
  | STry "stmt list" string "stmt list"
  | SEval expr

record script_env =
  se_round :: "rat \<Rightarrow> f64"
  se_read :: "string \<Rightarrow> f64 option"  \<comment> \<open>\<^verbatim>\<open>str::parse::<f64>\<close>\<close>
  se_show :: "f64 \<Rightarrow> string"  \<comment> \<open>\<^verbatim>\<open>{}\<close> of a double\<close>
  se_json :: "json \<Rightarrow> string"  \<comment> \<open>\<^verbatim>\<open>Value::to_string\<close>\<close>
  se_quote :: "string \<Rightarrow> string"  \<comment> \<open>\<^verbatim>\<open>{:?}\<close> of a string\<close>
  se_char :: "string \<Rightarrow> string"  \<comment> \<open>\<^verbatim>\<open>{:?}\<close> of a character\<close>
  se_expr :: "expr \<Rightarrow> string"  \<comment> \<open>\<^verbatim>\<open>{:?}\<close> of an expression\<close>

section \<open>Values\<close>

text \<open>
  A member answered on the worker or by the host over the bridge; the host may also be gone
  before the call is sent, or drop it unanswered.
\<close>

datatype host_answer = HostGone | HostSilent | HostSaid "string + json"

datatype 'w member =
    Here "json \<Rightarrow> 'w \<Rightarrow> (payload + (string + json)) \<times> 'w"
  | Host "json \<Rightarrow> 'w \<Rightarrow> host_answer \<times> 'w"

record 'w namespace =
  ns_global :: string
  ns_functions :: "(string, 'w member) omap"
  ns_error_shape :: "(string \<times> string) option"  \<comment> \<open>its name, the property that names the member\<close>

datatype 'w val =
    VNull
  | VBool bool
  | VNum f64
  | VStr string
  | VList "'w val list"
  | VMap "(string \<times> 'w val) list"
  | VSpace string "(string \<times> 'w member) list"
  | VFun string string "'w member"
  | VBuiltin string

fun kind_of :: "'w val \<Rightarrow> string" where
  "kind_of VNull = ''null''"
| "kind_of (VBool _) = ''a boolean''"
| "kind_of (VNum _) = ''a number''"
| "kind_of (VStr _) = ''a string''"
| "kind_of (VList _) = ''a list''"
| "kind_of (VMap _) = ''an object''"
| "kind_of (VSpace _ _) = ''a binding namespace''"
| "kind_of (VFun _ _ _) = ''a function''"
| "kind_of (VBuiltin _) = ''a function''"

fun truthy :: "'w val \<Rightarrow> bool" where
  "truthy VNull = False"
| "truthy (VBool b) = b"
| "truthy (VNum x) = (\<not> f_eq x (Fin 0) \<and> x \<noteq> NaN)"
| "truthy (VStr t) = (t \<noteq> [])"
| "truthy _ = True"

text \<open>A number leaves as an integer when it is one below two to the 53.\<close>

definition num_to_json :: "script_env \<Rightarrow> f64 \<Rightarrow> string + json" where
  "num_to_json env x =
     (if f_whole x \<and> (case x of Fin q \<Rightarrow> \<bar>q\<bar> < 2 ^ 53 | _ \<Rightarrow> False) then Inr (JInt (as_i64 x))
      else if is_finite x then Inr (JFloat (se_show env x))
      else Inl (se_show env x @ '' is not a number JSON can carry (it is not finite)''))"

fun to_json :: "script_env \<Rightarrow> 'w val \<Rightarrow> string + json"
  and list_to_json :: "script_env \<Rightarrow> 'w val list \<Rightarrow> string + json list"
  and map_to_json :: "script_env \<Rightarrow> (string \<times> 'w val) list \<Rightarrow> string + (string \<times> json) list"
where
  "to_json env VNull = Inr JNull"
| "to_json env (VBool b) = Inr (JBool b)"
| "to_json env (VNum x) = num_to_json env x"
| "to_json env (VStr t) = Inr (JStr t)"
| "to_json env (VList vs) = map_sum id JArr (list_to_json env vs)"
| "to_json env (VMap m) = map_sum id JObj (map_to_json env m)"
| "to_json env v = Inl (kind_of v @ '' is not a value a program can return'')"
| "list_to_json env [] = Inr []"
| "list_to_json env (v # vs) =
     (case to_json env v of Inl e \<Rightarrow> Inl e | Inr j \<Rightarrow> map_sum id ((#) j) (list_to_json env vs))"
| "map_to_json env [] = Inr []"
| "map_to_json env ((k, v) # m) =
     (case to_json env v of Inl e \<Rightarrow> Inl e | Inr j \<Rightarrow> map_sum id ((#) (k, j)) (map_to_json env m))"

fun from_json :: "script_env \<Rightarrow> json \<Rightarrow> 'w val" where
  "from_json env JNull = VNull"
| "from_json env (JBool b) = VBool b"
| "from_json env (JInt i) = VNum (se_round env (of_int i))"
| "from_json env (JFloat s) = VNum (case se_read env s of Some x \<Rightarrow> x | None \<Rightarrow> NaN)"
| "from_json env (JStr t) = VStr t"
| "from_json env (JArr xs) = VList (map (from_json env) xs)"
| "from_json env (JObj m) = VMap (map (\<lambda>(k, v). (k, from_json env v)) m)"

definition render_val :: "script_env \<Rightarrow> 'w val \<Rightarrow> string" where
  "render_val env v =
     (case v of
        VStr t \<Rightarrow> t
      | VNum x \<Rightarrow> if f_whole x then show_int (as_i64 x)
                   else (case to_json env v of Inr j \<Rightarrow> se_json env j | Inl _ \<Rightarrow> ''<'' @ kind_of v @ ''>'')
      | _ \<Rightarrow> (case to_json env v of Inr j \<Rightarrow> se_json env j | Inl _ \<Rightarrow> ''<'' @ kind_of v @ ''>''))"

text \<open>Equality by value; a map's second side is read by key.\<close>

function (sequential) val_eq :: "'w val \<Rightarrow> 'w val \<Rightarrow> bool"
  and list_eq :: "'w val list \<Rightarrow> 'w val list \<Rightarrow> bool"
  and map_eq :: "(string \<times> 'w val) list \<Rightarrow> (string \<times> 'w val) list \<Rightarrow> bool"
where
  "val_eq VNull VNull = True"
| "val_eq (VBool a) (VBool b) = (a = b)"
| "val_eq (VNum a) (VNum b) = f_eq a b"
| "val_eq (VStr a) (VStr b) = (a = b)"
| "val_eq (VList a) (VList b) = (length a = length b \<and> list_eq a b)"
| "val_eq (VMap a) (VMap b) = (length a = length b \<and> map_eq a b)"
| "val_eq _ _ = False"
| "list_eq (x # xs) (y # ys) = (val_eq x y \<and> list_eq xs ys)"
| "list_eq _ _ = True"
| "map_eq [] m = True"
| "map_eq ((k, v) # es) m = ((case map_of m k of Some w \<Rightarrow> val_eq v w | None \<Rightarrow> False) \<and> map_eq es m)"
  by pat_completeness auto
termination
  by (relation "measure (case_sum (size \<circ> fst) (case_sum (size_list size \<circ> fst) (size_list (size_prod (\<lambda>_. 0) size) \<circ> fst)))")
    auto

section \<open>The run\<close>

datatype 'w halt =
    Returned "'w val"
  | Failed string
  | OutOfBudget string
  | Aborted
  | Overflow string
  | Panicked payload
  | Stuck  \<comment> \<open>the model's own bound on a loop, never reached\<close>

record budget =
  b_fuel :: nat
  b_wall :: nat
  b_output :: nat

definition CLOCK_EVERY :: nat where
  "CLOCK_EVERY = 512"

text \<open>
  Scopes are innermost first.  \<open>r_aborts\<close> is what the coming readings of the stop flag answer and
  \<open>r_clock\<close> what the coming readings of the
  clock do, in nanoseconds; an exhausted list answers \<open>False\<close> and 0.
\<close>

record 'w run =
  r_scopes :: "(string, 'w val) omap list"
  r_logs :: "string list"
  r_logged :: nat
  r_fuel :: nat
  r_since :: nat
  r_budget :: budget
  r_errors :: "(string, string) omap"
  r_bridge :: bool
  r_aborts :: "bool list"
  r_clock :: "nat list"
  r_world :: 'w

type_synonym ('w, 'a) ev = "'w run \<Rightarrow> ('w halt + 'a) \<times> 'w run"

definition BUILTINS :: "string list" where
  "BUILTINS = [''log'', ''len'', ''keys'', ''str'', ''num'', ''push'', ''floor'']"

definition error_properties :: "'w namespace list \<Rightarrow> (string, string) omap" where
  "error_properties bs =
     fold (\<lambda>ns m. case ns_error_shape ns of
         None \<Rightarrow> m
       | Some (_, p) \<Rightarrow> fold (\<lambda>k. om_insert k p) (map fst (ns_functions ns)) m) bs []"

definition root_scope :: "'w namespace list \<Rightarrow> (string, 'w val) omap" where
  "root_scope bs =
     fold (\<lambda>b. om_insert b (VBuiltin b)) BUILTINS
       (fold (\<lambda>ns. om_insert (ns_global ns) (VSpace (ns_global ns) (ns_functions ns))) bs [])"

definition new_run ::
  "budget \<Rightarrow> 'w namespace list \<Rightarrow> bool \<Rightarrow> bool list \<Rightarrow> nat list \<Rightarrow> 'w \<Rightarrow> 'w run"
where
  "new_run b bs bridge aborts clk w =
     \<lparr>r_scopes = [root_scope bs], r_logs = [], r_logged = 0, r_fuel = b_fuel b, r_since = 0,
      r_budget = b, r_errors = error_properties bs, r_bridge = bridge, r_aborts = aborts,
      r_clock = clk, r_world = w\<rparr>"

definition ret_val :: "'a \<Rightarrow> ('w, 'a) ev" where
  "ret_val x s = (Inr x, s)"

definition fail_run :: "string \<Rightarrow> ('w, 'a) ev" where
  "fail_run why s = (Inl (Failed why), s)"

definition bind_run :: "('w, 'a) ev \<Rightarrow> ('a \<Rightarrow> ('w, 'b) ev) \<Rightarrow> ('w, 'b) ev" where
  "bind_run m f s = (case m s of (Inl x, s1) \<Rightarrow> (Inl x, s1) | (Inr a, s1) \<Rightarrow> f a s1)"

text \<open>\<^verbatim>\<open>Run::step\<close>: the stop flag, one unit of fuel, and every so often the clock.\<close>

definition spend_step :: "('w, unit) ev" where
  "spend_step s =
     (let stopped = (case r_aborts s of [] \<Rightarrow> False | b # _ \<Rightarrow> b); s = s\<lparr>r_aborts := tl (r_aborts s)\<rparr> in
      if stopped then (Inl Aborted, s)
      else if r_fuel s = 0 then
        (Inl (OutOfBudget (''the program ran past its compute budget of '' @ show_nat (b_fuel (r_budget s))
           @ '' steps'')), s)
      else (let s = s\<lparr>r_fuel := r_fuel s - 1, r_since := r_since s + 1\<rparr> in
        if r_since s < CLOCK_EVERY then (Inr (), s)
        else (let elapsed = (case r_clock s of [] \<Rightarrow> 0 | t # _ \<Rightarrow> t);
                  s = s\<lparr>r_since := 0, r_clock := tl (r_clock s)\<rparr> in
          if elapsed > b_wall (r_budget s) then
            (Inl (OutOfBudget (''the program ran past its wall-clock ceiling of ''
               @ show_nat (b_wall (r_budget s) div 1000000) @ ''ms'')), s)
          else (Inr (), s))))"

definition clock_next_step :: "'w run \<Rightarrow> 'w run" where
  "clock_next_step s = s\<lparr>r_since := CLOCK_EVERY\<rparr>"

definition push_scope :: "'w run \<Rightarrow> 'w run" where
  "push_scope s = s\<lparr>r_scopes := [] # r_scopes s\<rparr>"

definition pop_scope :: "'w run \<Rightarrow> 'w run" where
  "pop_scope s = s\<lparr>r_scopes := tl (r_scopes s)\<rparr>"

fun lookup_in :: "(string, 'w val) omap list \<Rightarrow> string \<Rightarrow> 'w val option" where
  "lookup_in [] n = None"
| "lookup_in (sc # scs) n = (case map_of sc n of Some v \<Rightarrow> Some v | None \<Rightarrow> lookup_in scs n)"

text \<open>A run always has a scope.\<close>

definition declare_name :: "string \<Rightarrow> 'w val \<Rightarrow> 'w run \<Rightarrow> 'w run" where
  "declare_name n v s = s\<lparr>r_scopes := om_insert n v (hd (r_scopes s)) # tl (r_scopes s)\<rparr>"

fun assign_in :: "string \<Rightarrow> 'w val \<Rightarrow> (string, 'w val) omap list \<Rightarrow> (string, 'w val) omap list option" where
  "assign_in n v [] = None"
| "assign_in n v (sc # scs) =
     (if map_of sc n \<noteq> None then Some (om_insert n v sc # scs) else map_option ((#) sc) (assign_in n v scs))"

definition assign_name :: "script_env \<Rightarrow> string \<Rightarrow> 'w val \<Rightarrow> ('w, unit) ev" where
  "assign_name env n v s =
     (case assign_in n v (r_scopes s) of
        Some scs \<Rightarrow> (Inr (), s\<lparr>r_scopes := scs\<rparr>)
      | None \<Rightarrow> fail_run (se_quote env n @ '' is not defined; declare it with `let` before assigning to it'') s)"

text \<open>\<^verbatim>\<open>why.split_once(needle)\<close>, the part in front.\<close>

fun before_str :: "string \<Rightarrow> string \<Rightarrow> string option" where
  "before_str w s =
     (if take (length w) s = w then Some []
      else (case s of [] \<Rightarrow> None | c # cs \<Rightarrow> map_option ((#) c) (before_str w cs)))"

definition caught_value :: "'w run \<Rightarrow> string \<Rightarrow> 'w val" where
  "caught_value s why =
     (let fields = om_insert ''kind'' (VStr ''exception'') (om_insert ''message'' (VStr why) []) in
      VMap (case before_str '' failed: '' why of
          None \<Rightarrow> fields
        | Some m \<Rightarrow> (case map_of (r_errors s) m of
              None \<Rightarrow> fields | Some p \<Rightarrow> om_insert p (VStr m) fields)))"

text \<open>The characters that fit, whole.\<close>

fun fitting :: "nat \<Rightarrow> string list \<Rightarrow> string" where
  "fitting room [] = []"
| "fitting room (c # cs) = (if length c \<le> room then c @ fitting (room - length c) cs else [])"

definition log_line :: "string \<Rightarrow> ('w, unit) ev" where
  "log_line line s =
     (let cap = b_output (r_budget s); room = cap - r_logged s in
      if length line > room then
        (let kept = fitting room (utf8_chars line) in
         (Inl (Overflow (''the program's output passed the '' @ show_nat cap @ '' byte cap'')),
          s\<lparr>r_logs := (if kept \<noteq> [] then r_logs s @ [kept] else r_logs s), r_logged := cap\<rparr>))
      else (Inr (), s\<lparr>r_logged := r_logged s + length line, r_logs := r_logs s @ [line]\<rparr>))"

section \<open>Operators\<close>

definition divisor :: "f64 \<Rightarrow> string + f64" where
  "divisor b = (if f_eq b (Fin 0) then Inl ''a number cannot be divided by zero'' else Inr b)"

definition arithmetic :: "script_env \<Rightarrow> string \<Rightarrow> f64 \<Rightarrow> f64 \<Rightarrow> string + 'w val" where
  "arithmetic env op a b =
     (if op = ''+'' then Inr (VNum (f_add (se_round env) a b))
      else if op = ''-'' then Inr (VNum (f_sub (se_round env) a b))
      else if op = ''*'' then Inr (VNum (f_mul (se_round env) a b))
      else if op = ''/'' then map_sum id (\<lambda>b. VNum (f_div (se_round env) a b)) (divisor b)
      else if op = ''%'' then map_sum id (\<lambda>b. VNum (f_rem a b)) (divisor b)
      else if op = ''<'' then Inr (VBool (f_lt a b))
      else if op = ''<='' then Inr (VBool (f_le a b))
      else if op = ''>'' then Inr (VBool (f_lt b a))
      else if op = ''>='' then Inr (VBool (f_le b a))
      else Inl (op @ '' is not an operator''))"

text \<open>Strings compare byte by byte.\<close>

definition text_compare :: "string \<Rightarrow> string \<Rightarrow> string \<Rightarrow> string + 'w val" where
  "text_compare op a b =
     (if op = ''<'' then Inr (VBool (a < b))
      else if op = ''<='' then Inr (VBool (a \<le> b))
      else if op = ''>'' then Inr (VBool (a > b))
      else if op = ''>='' then Inr (VBool (a \<ge> b))
      else Inl (''two strings cannot be combined with '' @ op))"

definition binary_val :: "script_env \<Rightarrow> string \<Rightarrow> 'w val \<Rightarrow> 'w val \<Rightarrow> string + 'w val" where
  "binary_val env op a b =
     (if op = ''=='' then Inr (VBool (val_eq a b))
      else if op = ''!='' then Inr (VBool (\<not> val_eq a b))
      else case (a, b) of
          (VStr x, _) \<Rightarrow>
            if op = ''+'' then Inr (VStr (x @ render_val env b))
            else (case b of VStr y \<Rightarrow> text_compare op x y
                  | _ \<Rightarrow> Inl (kind_of a @ '' '' @ op @ '' '' @ kind_of b @ '' is not something this language does''))
        | (_, VStr y) \<Rightarrow>
            if op = ''+'' then Inr (VStr (render_val env a @ y))
            else Inl (kind_of a @ '' '' @ op @ '' '' @ kind_of b @ '' is not something this language does'')
        | (VList x, VList y) \<Rightarrow>
            if op = ''+'' then Inr (VList (x @ y))
            else Inl (kind_of a @ '' '' @ op @ '' '' @ kind_of b @ '' is not something this language does'')
        | (VNum x, VNum y) \<Rightarrow> arithmetic env op x y
        | _ \<Rightarrow> Inl (kind_of a @ '' '' @ op @ '' '' @ kind_of b @ '' is not something this language does''))"

definition unary_val :: "string \<Rightarrow> 'w val \<Rightarrow> string + 'w val" where
  "unary_val op v =
     (if op = ''-'' then (case v of VNum x \<Rightarrow> Inr (VNum (f_neg x)) | _ \<Rightarrow> Inl (kind_of v @ '' cannot be negated''))
      else Inr (VBool (\<not> truthy v)))"

definition member_of :: "script_env \<Rightarrow> 'w val \<Rightarrow> string \<Rightarrow> string + 'w val" where
  "member_of env holder n =
     (case holder of
        VSpace g ms \<Rightarrow>
          (case map_of ms n of
             Some b \<Rightarrow> Inr (VFun g n b)
           | None \<Rightarrow> Inl (''this namespace has no '' @ se_quote env n @ ''; it has: '' @ join '', '' (map fst ms)))
      | VMap m \<Rightarrow> Inr (case map_of m n of Some v \<Rightarrow> v | None \<Rightarrow> VNull)
      | _ \<Rightarrow> Inl (kind_of holder @ '' has no members to read''))"

definition index_into :: "script_env \<Rightarrow> 'w val \<Rightarrow> 'w val \<Rightarrow> string + 'w val" where
  "index_into env holder index =
     (case (holder, index) of
        (VList xs, VNum p) \<Rightarrow>
          if f_lt p (Fin 0) \<or> \<not> f_whole p then
            Inl (''a list index is a whole number that is not negative, not '' @ se_show env p)
          else if as_usize p < length xs then Inr (xs ! as_usize p)
          else Inl (''index '' @ se_show env p @ '' is past the end of a list of '' @ show_nat (length xs))
      | (VMap m, VStr k) \<Rightarrow> member_of env holder k
      | (VStr t, VNum p) \<Rightarrow>
          if as_usize p < char_count t then Inr (VStr (utf8_chars t ! as_usize p))
          else Inl (''index '' @ se_show env p @ '' is past the end of a string'')
      | _ \<Rightarrow> Inl (kind_of holder @ '' cannot be indexed by '' @ kind_of index))"

section \<open>Calls\<close>

definition of_sum :: "string + 'a \<Rightarrow> ('w, 'a) ev" where
  "of_sum r s = (map_sum Failed id r, s)"

text \<open>The one argument a member takes, as lossless JSON.\<close>

definition one_argument :: "script_env \<Rightarrow> string \<Rightarrow> 'w val list \<Rightarrow> string + json" where
  "one_argument env n args =
     (case args of
        [] \<Rightarrow> Inr JNull
      | [v] \<Rightarrow> map_sum (\<lambda>why. ''the argument to '' @ se_quote env n @ '' is not lossless JSON: '' @ why) id (to_json env v)
      | _ \<Rightarrow> Inl (se_quote env n @ '' takes one argument; it was given '' @ show_nat (length args)))"

definition call_body :: "script_env \<Rightarrow> string \<Rightarrow> 'w member \<Rightarrow> json \<Rightarrow> ('w, string + json) ev" where
  "call_body env n b arg s =
     (case b of
        Here f \<Rightarrow>
          (case f arg (r_world s) of
             (Inl p, w) \<Rightarrow> (Inl (Panicked p), s\<lparr>r_world := w\<rparr>)
           | (Inr out, w) \<Rightarrow> (Inr out, s\<lparr>r_world := w\<rparr>))
      | Host f \<Rightarrow>
          if \<not> r_bridge s then
            (Inl (Failed (se_quote env n @ '' is answered by the host, and this run has no bridge to one'')), s)
          else (case f arg (r_world s) of
              (HostGone, w) \<Rightarrow> (Inl (Failed ''the host stopped answering binding calls''), s\<lparr>r_world := w\<rparr>)
            | (HostSilent, w) \<Rightarrow> (Inl (Failed (''the host did not answer '' @ se_quote env n)), s\<lparr>r_world := w\<rparr>)
            | (HostSaid out, w) \<Rightarrow> (Inr out, s\<lparr>r_world := w\<rparr>)))"

definition call_member :: "script_env \<Rightarrow> string \<Rightarrow> 'w member \<Rightarrow> 'w val list \<Rightarrow> ('w, 'w val) ev" where
  "call_member env n b args =
     bind_run (of_sum (one_argument env n args)) (\<lambda>arg.
     bind_run (call_body env n b arg) (\<lambda>out s.
       (map_sum (\<lambda>why. Failed (n @ '' failed: '' @ why)) (from_json env) out, clock_next_step s)))"

definition list_arg :: "'w val list \<Rightarrow> 'w val option" where
  "list_arg args = (case args of [] \<Rightarrow> None | v # _ \<Rightarrow> Some v)"

definition builtin_len :: "'w val option \<Rightarrow> string + 'w val" where
  "builtin_len v =
     (case v of
        Some (VStr t) \<Rightarrow> Inr (VNum (Fin (of_nat (char_count t))))
      | Some (VList xs) \<Rightarrow> Inr (VNum (Fin (of_nat (length xs))))
      | Some (VMap m) \<Rightarrow> Inr (VNum (Fin (of_nat (length m))))
      | Some other \<Rightarrow> Inl (''len() cannot measure '' @ kind_of other)
      | None \<Rightarrow> Inl ''len() takes one argument'')"

definition builtin_keys :: "'w val option \<Rightarrow> string + 'w val" where
  "builtin_keys v =
     (case v of
        Some (VMap m) \<Rightarrow> Inr (VList (map (VStr \<circ> fst) m))
      | Some other \<Rightarrow> Inl (''keys() takes an object, not '' @ kind_of other)
      | None \<Rightarrow> Inl ''keys() takes one argument'')"

definition builtin_num :: "script_env \<Rightarrow> 'w val option \<Rightarrow> string + 'w val" where
  "builtin_num env v =
     (case v of
        Some (VNum x) \<Rightarrow> Inr (VNum x)
      | Some (VStr t) \<Rightarrow> (case se_read env (trim t) of Some x \<Rightarrow> Inr (VNum x)
                         | None \<Rightarrow> Inl (''num() cannot read '' @ se_quote env t @ '' as a number''))
      | Some other \<Rightarrow> Inl (''num() cannot read '' @ kind_of other)
      | None \<Rightarrow> Inl ''num() takes one argument'')"

definition builtin_push :: "'w val list \<Rightarrow> string + 'w val" where
  "builtin_push args =
     (case args of
        VList xs # v # _ \<Rightarrow> Inr (VList (xs @ [v]))
      | _ \<Rightarrow> Inl ''push() takes a list and a value, and answers a new list'')"

definition call_builtin :: "script_env \<Rightarrow> string \<Rightarrow> 'w val list \<Rightarrow> ('w, 'w val) ev" where
  "call_builtin env n args =
     (if n = ''log'' then bind_run (log_line (join '' '' (map (render_val env) args))) (\<lambda>_. ret_val VNull)
      else of_sum
        (if n = ''len'' then builtin_len (list_arg args)
         else if n = ''keys'' then builtin_keys (list_arg args)
         else if n = ''str'' then Inr (VStr (case list_arg args of Some v \<Rightarrow> render_val env v | None \<Rightarrow> []))
         else if n = ''num'' then builtin_num env (list_arg args)
         else if n = ''push'' then builtin_push args
         else if n = ''floor'' then
           (case list_arg args of Some (VNum x) \<Rightarrow> Inr (VNum (f_floor x)) | _ \<Rightarrow> Inl ''floor() takes a number'')
         else Inl (n @ ''() is not a builtin'')))"

definition call_val :: "script_env \<Rightarrow> 'w val \<Rightarrow> 'w val list \<Rightarrow> ('w, 'w val) ev" where
  "call_val env target args =
     (case target of
        VFun g n b \<Rightarrow> call_member env n b args
      | VBuiltin n \<Rightarrow> call_builtin env n args
      | other \<Rightarrow> fail_run (kind_of other @ '' is not callable''))"

section \<open>Expressions\<close>

definition read_name :: "script_env \<Rightarrow> string \<Rightarrow> ('w, 'w val) ev" where
  "read_name env n s =
     (case lookup_in (r_scopes s) n of Some v \<Rightarrow> (Inr v, s) | None \<Rightarrow> fail_run (se_quote env n @ '' is not defined'') s)"

text \<open>
  An evaluation spends its step first.  The recursion is on the expression: no expression loops.
\<close>

fun eval :: "script_env \<Rightarrow> expr \<Rightarrow> ('w, 'w val) ev"
  and eval_list :: "script_env \<Rightarrow> expr list \<Rightarrow> ('w, 'w val list) ev"
  and eval_entries :: "script_env \<Rightarrow> (string \<times> expr) list \<Rightarrow> (string, 'w val) omap \<Rightarrow> ('w, 'w val) ev"
where
  "eval env (ENum x) = bind_run spend_step (\<lambda>_. ret_val (VNum x))"
| "eval env (EText t) = bind_run spend_step (\<lambda>_. ret_val (VStr t))"
| "eval env (EBool b) = bind_run spend_step (\<lambda>_. ret_val (VBool b))"
| "eval env ENull = bind_run spend_step (\<lambda>_. ret_val VNull)"
| "eval env (EName n) = bind_run spend_step (\<lambda>_. read_name env n)"
| "eval env (EList es) = bind_run spend_step (\<lambda>_. bind_run (eval_list env es) (\<lambda>vs. ret_val (VList vs)))"
| "eval env (EMap kes) = bind_run spend_step (\<lambda>_. eval_entries env kes [])"
| "eval env (EMember e n) =
     bind_run spend_step (\<lambda>_. bind_run (eval env e) (\<lambda>v. of_sum (member_of env v n)))"
| "eval env (EIndex e i) =
     bind_run spend_step (\<lambda>_. bind_run (eval env e) (\<lambda>v. bind_run (eval env i) (\<lambda>w. of_sum (index_into env v w))))"
| "eval env (ECall f es) =
     bind_run spend_step (\<lambda>_. bind_run (eval env f) (\<lambda>v. bind_run (eval_list env es) (\<lambda>vs. call_val env v vs)))"
| "eval env (EUnary op e) =
     bind_run spend_step (\<lambda>_. bind_run (eval env e) (\<lambda>v. of_sum (unary_val op v)))"
| "eval env (EBinary op l r) =
     bind_run spend_step (\<lambda>_. bind_run (eval env l) (\<lambda>v.
       if op = ''&&'' \<and> \<not> truthy v \<or> op = ''||'' \<and> truthy v then ret_val v
       else if op = ''&&'' \<or> op = ''||'' then eval env r
       else bind_run (eval env r) (\<lambda>w. of_sum (binary_val env op v w))))"
| "eval_list env [] = ret_val []"
| "eval_list env (e # es) =
     bind_run (eval env e) (\<lambda>v. bind_run (eval_list env es) (\<lambda>vs. ret_val (v # vs)))"
| "eval_entries env [] m = ret_val (VMap m)"
| "eval_entries env ((k, e) # kes) m =
     bind_run (eval env e) (\<lambda>v. eval_entries env kes (om_insert k v m))"

text \<open>
  \<^verbatim>\<open>assign_to\<close> reads the holder, changes the copy, and writes that back into the holder's own
  place.
\<close>

fun assign_to :: "script_env \<Rightarrow> expr \<Rightarrow> 'w val \<Rightarrow> ('w, unit) ev" where
  "assign_to env (EName n) v = assign_name env n v"
| "assign_to env (EMember e n) v =
     bind_run (eval env e) (\<lambda>holder. case holder of
         VMap m \<Rightarrow> assign_to env e (VMap (om_insert n v m))
       | _ \<Rightarrow> fail_run (''a member can only be set on an object, not on '' @ kind_of holder))"
| "assign_to env (EIndex e i) v =
     bind_run (eval env i) (\<lambda>index. bind_run (eval env e) (\<lambda>holder. case (holder, index) of
         (VList xs, VNum p) \<Rightarrow>
           if as_usize p \<ge> length xs then
             fail_run (''index '' @ show_nat (as_usize p) @ '' is past the end of a list of '' @ show_nat (length xs))
           else assign_to env e (VList (xs[as_usize p := v]))
       | (VMap m, VStr k) \<Rightarrow> assign_to env e (VMap (om_insert k v m))
       | _ \<Rightarrow> fail_run (kind_of holder @ '' cannot be indexed by '' @ kind_of index)))"
| "assign_to env e v = fail_run (se_expr env e @ '' is not a place a value can be written to'')"

section \<open>Statements\<close>

definition in_scope :: "('w, 'a) ev \<Rightarrow> ('w, 'a) ev" where
  "in_scope m s = (let (r, s1) = m (push_scope s) in (r, pop_scope s1))"

definition do_declare :: "string \<Rightarrow> 'w val \<Rightarrow> ('w, unit) ev" where
  "do_declare n v s = (Inr (), declare_name n v s)"

text \<open>
  Only a failure of the program is caught; every other stop passes through.  The loop's own count
  \<open>k\<close> starts above the fuel that is left, and every iteration spends some.
\<close>

function (sequential) run_statement :: "script_env \<Rightarrow> stmt \<Rightarrow> ('w, unit) ev"
  and run_block :: "script_env \<Rightarrow> stmt list \<Rightarrow> ('w, unit) ev"
  and run_while :: "script_env \<Rightarrow> nat \<Rightarrow> expr \<Rightarrow> stmt list \<Rightarrow> ('w, unit) ev"
where
  "run_statement env (SLet n e) s = bind_run spend_step (\<lambda>_. bind_run (eval env e) (do_declare n)) s"
| "run_statement env (SAssign t e) s = bind_run spend_step (\<lambda>_. bind_run (eval env e) (assign_to env t)) s"
| "run_statement env (SIf e th el) s =
     bind_run spend_step (\<lambda>_. bind_run (eval env e) (\<lambda>v.
       in_scope (\<lambda>s. if truthy v then run_block env th s else run_block env el s))) s"
| "run_statement env (STry body n handler) s =
     bind_run spend_step (\<lambda>_ s.
       (case in_scope (run_block env body) s of
          (Inl (Failed why), s1) \<Rightarrow>
            in_scope (\<lambda>s. bind_run (do_declare n (caught_value s why)) (\<lambda>_. run_block env handler) s) s1
        | other \<Rightarrow> other)) s"
| "run_statement env (SWhile e body) s =
     bind_run spend_step (\<lambda>_ s. run_while env (r_fuel s + 1) e body s) s"
| "run_statement env (SReturn eo) s =
     bind_run spend_step (\<lambda>_. case eo of
         None \<Rightarrow> (\<lambda>s. (Inl (Returned VNull), s))
       | Some e \<Rightarrow> bind_run (eval env e) (\<lambda>v s. (Inl (Returned v), s))) s"
| "run_statement env (SEval e) s = bind_run spend_step (\<lambda>_. bind_run (eval env e) (\<lambda>_. ret_val ())) s"
| "run_block env [] s = (Inr (), s)"
| "run_block env (st # sts) s =
     (case run_statement env st s of (Inl x, s1) \<Rightarrow> (Inl x, s1) | (Inr _, s1) \<Rightarrow> run_block env sts s1)"
| "run_while env 0 e body s = (Inl Stuck, s)"
| "run_while env (Suc k) e body s =
     (case bind_run spend_step (\<lambda>_. eval env e) s of
        (Inl x, s1) \<Rightarrow> (Inl x, s1)
      | (Inr v, s1) \<Rightarrow>
          if \<not> truthy v then (Inr (), s1)
          else (case in_scope (run_block env body) s1 of
              (Inl x, s2) \<Rightarrow> (Inl x, s2)
            | (Inr _, s2) \<Rightarrow> run_while env k e body s2))"
  by pat_completeness auto
termination
  by (relation "measures [
        case_sum (\<lambda>(_, st, _). 2 * size st + 1)
          (case_sum (\<lambda>(_, sts, _). 2 * size_list size sts + 1) (\<lambda>(_, _, _, body, _). 2 * size_list size body + 2)),
        case_sum (\<lambda>_. 0) (case_sum (\<lambda>_. 0) (\<lambda>(_, k, _). k))]") auto

end
