(* ===== verification/Script_Lexer.thy ===== *)
theory Script_Lexer
  imports Script "HOL-Library.Sublist"
begin

text \<open>
  The tokens of a program, the first half of \<^verbatim>\<open>crates/coderuntime/src/local/program.rs\<close>.  A
  position of the source is the suffix that starts there.  Slicing a Rust string off a character
  boundary panics, the error \<open>SliceOffBoundary\<close>; the scanner can do it, and
  \<open>lexer_panics_only_after_wide_escape\<close> says where.
\<close>

datatype tok =
    TNumber f64
  | TText string
  | TName string
  | TTrue | TFalse | TNull | TLet | TIf | TElse | TWhile | TReturn | TTry | TCatch
  | TSym string
  | TEnd

type_synonym token = "nat \<times> tok"

datatype lex_error = Unreadable string | SliceOffBoundary

definition SYMBOLS :: "string list" where
  "SYMBOLS =
     [''=='', ''!='', ''<='', ''>='', ''&&'', ''||'', ''('', '')'', ''{'', ''}'', ''['', '']'', '','', '':'', '';'',
      ''.'', ''+'', ''-'', ''*'', ''/'', ''%'', ''!'', ''='', ''<'', ''>'']"

definition is_blank :: "char \<Rightarrow> bool" where
  "is_blank c \<longleftrightarrow> of_char c \<in> {9, 10, 12, 13, 32 :: nat}"

definition is_digit :: "char \<Rightarrow> bool" where
  "is_digit c \<longleftrightarrow> byte_in 48 57 c"

definition word_start :: "char \<Rightarrow> bool" where
  "word_start c \<longleftrightarrow> byte_in 65 90 c \<or> byte_in 97 122 c \<or> c = CHR ''_''"

definition word_char :: "char \<Rightarrow> bool" where
  "word_char c \<longleftrightarrow> word_start c \<or> is_digit c"

text \<open>\<^verbatim>\<open>&source[at..]\<close>.\<close>

definition slice_at :: "string \<Rightarrow> lex_error + string" where
  "slice_at s = (if s \<noteq> [] \<and> is_cont (hd s) then Inl SliceOffBoundary else Inr s)"

definition skip_comment :: "string \<Rightarrow> lex_error + string" where
  "skip_comment s =
     (if s = [] then Inr []
      else map_sum id (\<lambda>s. if take 2 s = ''//'' \<or> hd s = CHR ''#''
                          then dropWhile (\<lambda>c. c \<noteq> CHR 0x0A) s else s) (slice_at s))"

lemma skip_comment_length:
  "skip_comment (dropWhile is_blank s) = Inr r \<Longrightarrow> r \<noteq> s \<Longrightarrow> length r < length s"
proof -
  assume a: "skip_comment (dropWhile is_blank s) = Inr r" "r \<noteq> s"
  have "suffix r s"
    using a(1) suffix_dropWhile[of is_blank s] suffix_order.trans[OF suffix_dropWhile suffix_dropWhile]
    by (auto simp: skip_comment_def slice_at_def split: if_splits)
  then show ?thesis using a(2) by (auto simp: suffix_def)
qed

function skip_trivia :: "string \<Rightarrow> lex_error + string" where
  "skip_trivia s =
     (case skip_comment (dropWhile is_blank s) of
        Inl e \<Rightarrow> Inl e
      | Inr r \<Rightarrow> if r = s then Inr s else skip_trivia r)"
  by pat_completeness auto
termination
  by (relation "measure length") (auto dest: skip_comment_length)

declare skip_trivia.simps [simp del]

definition number_end :: "string \<Rightarrow> string" where
  "number_end s =
     (case dropWhile (\<lambda>c. is_digit c \<or> c = CHR ''.'') s of
        [] \<Rightarrow> []
      | c # cs \<Rightarrow>
          if c = CHR ''e'' \<or> c = CHR ''E'' then
            dropWhile is_digit (case cs of [] \<Rightarrow> [] | d # ds \<Rightarrow> if d = CHR ''+'' \<or> d = CHR ''-'' then ds else cs)
          else c # cs)"

definition taken :: "string \<Rightarrow> string \<Rightarrow> string" where
  "taken s r = take (length s - length r) s"

definition scan_number :: "script_env \<Rightarrow> nat \<Rightarrow> string \<Rightarrow> lex_error + (token \<times> string)" where
  "scan_number env from s =
     (case slice_at (number_end s) of
        Inl e \<Rightarrow> Inl e
      | Inr r \<Rightarrow>
          (case se_read env (taken s r) of
             None \<Rightarrow> Inl (Unreadable (se_quote env (taken s r) @ '' at '' @ show_nat from @ '' is not a number''))
           | Some x \<Rightarrow> Inr ((from, TNumber x), r)))"

text \<open>\<^verbatim>\<open>char::from\<close> of a byte, in UTF-8.\<close>

definition latin1 :: "char \<Rightarrow> string" where
  "latin1 c =
     (let n = of_char c in if n < 128 then [c] else [char_of (192 + n div 64 :: nat), char_of (128 + n mod 64)])"

definition escaped :: "char \<Rightarrow> string" where
  "escaped c =
     (if c = CHR ''n'' then [CHR 0x0A] else if c = CHR ''t'' then [CHR 0x09]
      else if c = CHR ''r'' then [CHR 0x0D] else latin1 c)"

function scan_quoted :: "nat \<Rightarrow> char \<Rightarrow> string \<Rightarrow> string \<Rightarrow> lex_error + (string \<times> string)" where
  "scan_quoted from q txt [] =
     Inl (Unreadable (''the string starting at '' @ show_nat from @ '' is never closed''))"
| "scan_quoted from q txt (c # cs) =
     (if c = CHR 0x5C \<and> cs \<noteq> [] then scan_quoted from q (txt @ escaped (hd cs)) (tl cs)
      else if c = q then Inr (txt, cs)
      else if is_cont c then Inl SliceOffBoundary
      else scan_quoted from q (txt @ c # takeWhile is_cont cs) (dropWhile is_cont cs))"
  by pat_completeness auto
termination
  by (relation "measure (\<lambda>(_, _, _, s). length s)") (auto simp: less_Suc_eq_le length_dropWhile_le)

definition scan_text :: "nat \<Rightarrow> string \<Rightarrow> lex_error + (token \<times> string)" where
  "scan_text from s = map_sum id (\<lambda>(t, r). ((from, TText t), r)) (scan_quoted from (hd s) [] (tl s))"

definition KEYWORDS :: "(string \<times> tok) list" where
  "KEYWORDS =
     [(''true'', TTrue), (''false'', TFalse), (''null'', TNull), (''let'', TLet), (''if'', TIf),
      (''else'', TElse), (''while'', TWhile), (''return'', TReturn), (''try'', TTry), (''catch'', TCatch)]"

definition scan_word :: "nat \<Rightarrow> string \<Rightarrow> lex_error + (token \<times> string)" where
  "scan_word from s =
     map_sum id (\<lambda>r. let w = taken s r in
         ((from, case map_of KEYWORDS w of Some k \<Rightarrow> k | None \<Rightarrow> TName w), r))
       (slice_at (dropWhile word_char s))"

definition scan_symbol :: "script_env \<Rightarrow> nat \<Rightarrow> string \<Rightarrow> lex_error + (token \<times> string)" where
  "scan_symbol env from s =
     (case slice_at s of
        Inl e \<Rightarrow> Inl e
      | Inr s \<Rightarrow>
          (case List.find (\<lambda>y. take (length y) s = y) SYMBOLS of
             Some y \<Rightarrow> Inr ((from, TSym y), drop (length y) s)
           | None \<Rightarrow> Inl (Unreadable (se_char env (hd (utf8_chars s)) @ '' at '' @ show_nat from
               @ '' is not part of this language''))))"

definition scan_token :: "script_env \<Rightarrow> nat \<Rightarrow> string \<Rightarrow> lex_error + (token \<times> string)" where
  "scan_token env from s =
     (let c = hd s in
      if is_digit c then scan_number env from s
      else if c = CHR 0x22 \<or> c = CHR 0x27 then scan_text from s
      else if word_start c then scan_word from s
      else scan_symbol env from s)"

lemma map_sum_Inr_iff: "map_sum f g x = Inr y \<longleftrightarrow> (\<exists>z. x = Inr z \<and> y = g z)"
  by (cases x) auto

lemma map_sum_Inl_iff: "map_sum f g x = Inl y \<longleftrightarrow> (\<exists>z. x = Inl z \<and> y = f z)"
  by (cases x) auto

lemma scan_quoted_length: "scan_quoted p q t s = Inr (t', r) \<Longrightarrow> length r < length s"
proof (induction p q t s rule: scan_quoted.induct)
  case (2 p q t c cs)
  then show ?case
    using length_dropWhile_le[of is_cont cs] by (cases cs) (auto split: if_splits)
qed simp

lemma number_end_length: "is_digit (hd s) \<Longrightarrow> s \<noteq> [] \<Longrightarrow> length (number_end s) < length s"
proof -
  assume d: "is_digit (hd s)" "s \<noteq> []"
  let ?a = "dropWhile (\<lambda>c. is_digit c \<or> c = CHR ''.'') s"
  have "length ?a < length s"
    using d length_dropWhile_le[of "\<lambda>c. is_digit c \<or> c = CHR ''.''" "tl s"] by (cases s) auto
  moreover have "length (number_end s) \<le> length ?a"
    using length_dropWhile_le[of is_digit "tl ?a"] length_dropWhile_le[of is_digit "tl (tl ?a)"]
    by (auto simp: number_end_def split: list.splits)
  ultimately show ?thesis by simp
qed

lemma SYMBOLS_nonempty: "List.find P SYMBOLS = Some y \<Longrightarrow> y \<noteq> []"
  by (auto simp: SYMBOLS_def split: if_splits)

lemma scan_token_length:
  assumes "scan_token env from s = Inr (t, r)" "s \<noteq> []"
  shows "length r < length s"
proof -
  consider "is_digit (hd s)" "r = number_end s"
    | u where "scan_quoted from (hd s) [] (tl s) = Inr (u, r)"
    | "word_start (hd s)" "r = dropWhile word_char s"
    | y where "List.find (\<lambda>y. take (length y) s = y) SYMBOLS = Some y" "r = drop (length y) s"
    using assms(1)
    by (auto simp: scan_token_def scan_number_def scan_text_def scan_word_def scan_symbol_def slice_at_def Let_def map_sum_Inr_iff
        split: if_splits option.splits sum.splits)
  then show ?thesis
  proof cases
    case 1
    then show ?thesis using number_end_length assms(2) by simp
  next
    case (2 u)
    then show ?thesis using scan_quoted_length assms(2) by (cases s) fastforce+
  next
    case 3
    then show ?thesis using assms(2) length_dropWhile_le[of word_char "tl s"] by (cases s) (auto simp: word_char_def)
  next
    case (4 y)
    then show ?thesis using SYMBOLS_nonempty assms(2) by fastforce
  qed
qed

lemma skip_trivia_length: "skip_trivia s = Inr r \<Longrightarrow> length r \<le> length s"
proof (induction s rule: skip_trivia.induct)
  case (1 s)
  then show ?case
    using skip_comment_length[of s]
    by (subst (asm) skip_trivia.simps) (fastforce split: sum.splits if_splits)
qed

function tokens_from :: "script_env \<Rightarrow> nat \<Rightarrow> string \<Rightarrow> lex_error + token list" where
  "tokens_from env n s =
     (case skip_trivia s of
        Inl e \<Rightarrow> Inl e
      | Inr r \<Rightarrow>
          if r = [] then Inr [(n, TEnd)]
          else (case scan_token env (n - length r) r of
              Inl e \<Rightarrow> Inl e
            | Inr (t, rest) \<Rightarrow> map_sum id ((#) t) (tokens_from env n rest)))"
  by pat_completeness auto
termination
  by (relation "measure (\<lambda>(_, _, s). length s)")
    (auto dest!: skip_trivia_length scan_token_length)

declare tokens_from.simps [simp del]

definition tokens :: "script_env \<Rightarrow> string \<Rightarrow> lex_error + token list" where
  "tokens env source = tokens_from env (length source) source"


section \<open>Where the scanner panics\<close>

fun wide_escape :: "string \<Rightarrow> bool" where
  "wide_escape (c # d # s) = (c = CHR 0x5C \<and> \<not> byte_in 0 127 d \<or> wide_escape (d # s))"
| "wide_escape _ = False"

definition clean :: "string \<Rightarrow> bool" where
  "clean s \<longleftrightarrow> valid_utf8 s \<and> \<not> wide_escape s"

lemma cont_range: "byte_in lo hi c \<Longrightarrow> 128 \<le> lo \<Longrightarrow> hi \<le> 191 \<Longrightarrow> is_cont c"
  by (simp add: byte_in_def is_cont_def)

lemma valid_shape:
  assumes "valid_utf8 (a # s)"
  shows "\<not> is_cont a"
    and "\<exists>p t. s = p @ t \<and> (\<forall>c\<in>set p. is_cont c) \<and> valid_utf8 t \<and> (byte_in 0 127 a \<longrightarrow> p = [])"
proof -
  show "\<not> is_cont a"
  proof
    assume "is_cont a"
    then have "\<not> byte_in 0 127 a \<and> \<not> byte_in 194 223 a \<and> \<not> byte_in 224 239 a \<and> \<not> byte_in 240 244 a"
      by (auto simp: byte_in_def is_cont_def)
    then show False using assms by simp
  qed
  have "\<exists>p t. s = p @ t \<and> (\<forall>c\<in>set p. is_cont c) \<and> valid_utf8 t" if a: "\<not> byte_in 0 127 a"
  proof -
    consider b t where "s = b # t" "is_cont b" "valid_utf8 t"
      | b c t where "s = b # c # t" "is_cont b" "is_cont c" "valid_utf8 t"
      | b c d t where "s = b # c # d # t" "is_cont b" "is_cont c" "is_cont d" "valid_utf8 t"
    proof (cases "byte_in 194 223 a")
      case True
      then obtain b t where "s = b # t" "is_cont b" "valid_utf8 t"
        using assms a by (cases s) auto
      then show ?thesis using that(1) by blast
    next
      case two: False
      show ?thesis
      proof (cases "byte_in 224 239 a")
        case True
        then obtain b c t where s: "s = b # c # t" using assms a two by (auto split: list.splits)
        have "is_cont b" "is_cont c" "valid_utf8 t"
          using assms a two True by (auto simp: s dest: cont_range split: if_split_asm)
        then show ?thesis using that(2) s by blast
      next
        case three: False
        then obtain b c d t where s: "s = b # c # d # t"
          using assms a two by (auto split: list.splits if_split_asm)
        have "is_cont b" "is_cont c" "is_cont d" "valid_utf8 t"
          using assms a two three by (auto simp: s dest: cont_range split: if_split_asm)
        then show ?thesis using that(3) s by blast
      qed
    qed
    then show ?thesis
      by cases (rule exI[of _ "[_]"], force, rule exI[of _ "[_, _]"], force, rule exI[of _ "[_, _, _]"], force)
  qed
  moreover have "valid_utf8 s" if "byte_in 0 127 a" using assms that by simp
  ultimately show "\<exists>p t. s = p @ t \<and> (\<forall>c\<in>set p. is_cont c) \<and> valid_utf8 t \<and> (byte_in 0 127 a \<longrightarrow> p = [])"
    by (cases "byte_in 0 127 a") (auto intro: exI[of _ "[] :: string"])
qed

lemma valid_ascii: "byte_in 0 127 a \<Longrightarrow> valid_utf8 (a # s) \<longleftrightarrow> valid_utf8 s"
  by simp

declare valid_utf8.simps(2) [simp del] valid_ascii [simp]

lemma valid_start: "valid_utf8 s \<Longrightarrow> s \<noteq> [] \<Longrightarrow> \<not> is_cont (hd s)"
  using valid_shape(1) by (cases s) auto

lemma slice_valid [simp]: "valid_utf8 s \<Longrightarrow> slice_at s = Inr s"
  using valid_start by (auto simp: slice_at_def)

lemma dropWhile_valid_same: "valid_utf8 t \<Longrightarrow> dropWhile is_cont t = t"
  using valid_start[of t] by (cases t) auto

lemma valid_group:
  assumes "valid_utf8 (c # s)"
  shows "valid_utf8 (dropWhile is_cont s)"
  using valid_shape(2)[OF assms] by (auto simp: dropWhile_valid_same)

lemma valid_dropWhile:
  assumes "\<And>c. P c \<Longrightarrow> byte_in 0 127 c"
  shows "valid_utf8 s \<Longrightarrow> valid_utf8 (dropWhile P s)"
proof (induction s)
  case (Cons a s)
  then show ?case using assms[of a] by (cases "P a") auto
qed simp

lemma valid_dropWhile_wide:
  assumes "\<And>c. \<not> byte_in 0 127 c \<Longrightarrow> P c"
  shows "valid_utf8 s \<Longrightarrow> valid_utf8 (dropWhile P s)"
proof (induction s rule: length_induct)
  case (1 s)
  show ?case
  proof (cases s)
    case (Cons a u)
    with 1(2) valid_shape(2)[of a u] obtain p t where
      u: "u = p @ t" "\<forall>c\<in>set p. is_cont c" "valid_utf8 t" "byte_in 0 127 a \<longrightarrow> p = []" by auto
    have "\<forall>c\<in>set p. P c"
      using u(2) assms by (auto simp: is_cont_def byte_in_def)
    then have "dropWhile P u = dropWhile P t" by (simp add: u(1))
    moreover have "valid_utf8 (dropWhile P t)"
      using 1(1) u(3) by (simp add: Cons u(1))
    moreover have "valid_utf8 (a # u)" using 1(2) Cons by simp
    ultimately show ?thesis by (cases "P a") (simp_all add: Cons)
  qed simp
qed

lemma wide_escape_suffix: "suffix r s \<Longrightarrow> \<not> wide_escape s \<Longrightarrow> \<not> wide_escape r"
proof -
  have step: "\<not> wide_escape (c # s) \<Longrightarrow> \<not> wide_escape s" for c s by (cases s) auto
  have "\<not> wide_escape (p @ r) \<Longrightarrow> \<not> wide_escape r" for p by (induction p) (auto dest: step)
  then show "suffix r s \<Longrightarrow> \<not> wide_escape s \<Longrightarrow> \<not> wide_escape r" by (auto simp: suffix_def)
qed


lemma clean_suffix: "clean s \<Longrightarrow> suffix r s \<Longrightarrow> valid_utf8 r \<Longrightarrow> clean r"
  by (auto simp: clean_def dest: wide_escape_suffix)

lemma skip_comment_clean:
  assumes "clean s"
  shows "\<exists>r. skip_comment (dropWhile is_blank s) = Inr r \<and> clean r"
proof -
  let ?a = "dropWhile is_blank s"
  have a: "valid_utf8 ?a"
    using assms by (intro valid_dropWhile) (auto simp: clean_def is_blank_def byte_in_def)
  have b: "valid_utf8 (dropWhile (\<lambda>c. c \<noteq> CHR 0x0A) ?a)"
    using a by (rule valid_dropWhile_wide[rotated]) (auto simp: byte_in_def)
  have "clean ?a" by (rule clean_suffix[OF assms suffix_dropWhile a])
  moreover have "clean (dropWhile (\<lambda>c. c \<noteq> CHR 0x0A) ?a)"
    by (rule clean_suffix[OF calculation suffix_dropWhile b])
  ultimately show ?thesis using a by (auto simp: skip_comment_def clean_def)
qed

lemma skip_trivia_clean: "clean s \<Longrightarrow> \<exists>r. skip_trivia s = Inr r \<and> clean r"
proof (induction s rule: skip_trivia.induct)
  case (1 s)
  then show ?case using skip_comment_clean[of s] by (subst skip_trivia.simps) auto
qed

lemma scan_quoted_clean:
  assumes "clean s" "byte_in 0 127 q"
  shows "scan_quoted p q t s \<noteq> Inl SliceOffBoundary"
    and "scan_quoted p q t s = Inr (u, r) \<Longrightarrow> clean r"
proof -
  have "scan_quoted p q t s \<noteq> Inl SliceOffBoundary \<and> (scan_quoted p q t s = Inr (u, r) \<longrightarrow> clean r)"
    using assms
  proof (induction p q t s rule: scan_quoted.induct)
    case (2 p q u c cs)
    have v: "valid_utf8 (c # cs)" and w: "\<not> wide_escape (c # cs)" using 2(3) by (auto simp: clean_def)
    have escape: "clean (tl cs)" if c: "c = CHR 0x5C" and cs: "cs \<noteq> []"
    proof -
      from cs obtain d ds where d: "cs = d # ds" by (cases cs) auto
      have "byte_in 0 127 c" using c by (simp add: byte_in_def)
      then have "valid_utf8 cs" using v by simp
      moreover have "byte_in 0 127 d" using w c d by simp
      ultimately have "valid_utf8 ds" using d by simp
      then show ?thesis
        using clean_suffix[OF 2(3), of ds] d by (auto simp: suffix_def)
    qed
    have group: "clean (dropWhile is_cont cs)"
      using clean_suffix[OF 2(3) _ valid_group[OF v]] suffix_dropWhile[of is_cont cs]
      by (meson suffix_ConsI)
    have "clean cs" if "byte_in 0 127 c"
      using clean_suffix[OF 2(3), of cs] v that by (auto simp: suffix_def)
    then have "clean cs" if "c = q" using that 2(4) by simp
    with 2(3,4) show ?case
      using 2(1,2) escape group valid_start[OF v] by auto
  qed simp
  then show "scan_quoted p q t s \<noteq> Inl SliceOffBoundary"
    and "scan_quoted p q t s = Inr (u, r) \<Longrightarrow> clean r" by blast+
qed


lemma number_end_suffix: "suffix (number_end s) s"
proof -
  let ?a = "dropWhile (\<lambda>c. is_digit c \<or> c = CHR ''.'') s"
  have "suffix (number_end s) ?a"
  proof (cases ?a)
    case (Cons c cs)
    have "suffix (dropWhile is_digit (case cs of [] \<Rightarrow> [] | d # ds \<Rightarrow> if d = CHR ''+'' \<or> d = CHR ''-'' then ds else cs)) cs"
      by (rule suffix_order.trans[OF suffix_dropWhile]) (auto simp: suffix_def split: list.split)
    then show ?thesis by (auto simp: number_end_def Cons intro: suffix_ConsI)
  next
    case Nil
    then have "number_end s = []" unfolding number_end_def by (simp only: list.case)
    then show ?thesis by simp
  qed
  then show ?thesis using suffix_dropWhile suffix_order.trans by blast
qed

lemma scan_token_clean:
  assumes "clean s" "s \<noteq> []"
  shows "scan_token env p s \<noteq> Inl SliceOffBoundary"
    and "scan_token env p s = Inr (t, r) \<Longrightarrow> clean r"
proof -
  have v: "valid_utf8 s" using assms(1) by (simp add: clean_def)
  define numeric where "numeric c \<longleftrightarrow> is_digit c \<or> c = CHR ''.''" for c
  have digits: "valid_utf8 (dropWhile is_digit u)" if "valid_utf8 u" for u
    using that by (rule valid_dropWhile[rotated]) (auto simp: is_digit_def byte_in_def)
  have num: "valid_utf8 (number_end s)"
  proof -
    have u: "valid_utf8 (dropWhile numeric s)"
      using v by (rule valid_dropWhile[rotated]) (auto simp: numeric_def is_digit_def byte_in_def)
    have [simp]: "byte_in 0 127 c" if "is_digit c" for c using that by (simp add: is_digit_def byte_in_def)
    have ascii [simp]: "byte_in 0 127 (CHR ''e'')" "byte_in 0 127 (CHR ''E'')" "byte_in 0 127 (CHR ''+'')" "byte_in 0 127 (CHR ''-'')"
      by (simp_all add: byte_in_def)
    show ?thesis
      using u unfolding number_end_def numeric_def[symmetric]
      by (auto split: list.split intro!: digits)
  qed
  have word: "valid_utf8 (dropWhile word_char s)"
    using v by (rule valid_dropWhile[rotated]) (auto simp: word_char_def word_start_def is_digit_def byte_in_def)
  have symbol: "valid_utf8 (drop (length y) s)"
    if y: "List.find (\<lambda>y. take (length y) s = y) SYMBOLS = Some y" for y
  proof -
    have "y \<in> set SYMBOLS" "take (length y) s = y" using y by (auto simp: find_Some_iff)
    moreover have "\<forall>y\<in>set SYMBOLS. \<forall>c\<in>set y. byte_in 0 127 c" by (simp add: SYMBOLS_def byte_in_def)
    moreover have "valid_utf8 (y @ u) \<Longrightarrow> \<forall>c\<in>set y. byte_in 0 127 c \<Longrightarrow> valid_utf8 u" for u
      by (induction y) auto
    ultimately show ?thesis using v append_take_drop_id[of "length y" s] by metis
  qed
  have quoted: "clean (tl s)" "byte_in 0 127 (hd s)" if "hd s = CHR 0x22 \<or> hd s = CHR 0x27"
  proof -
    show b: "byte_in 0 127 (hd s)" using that by (auto simp: byte_in_def)
    obtain c u where "s = c # u" using assms(2) by (cases s) auto
    then show "clean (tl s)" using clean_suffix[OF assms(1), of u] v b by (simp add: suffix_def)
  qed
  show "scan_token env p s \<noteq> Inl SliceOffBoundary"
  proof -
    have "scan_number env p s \<noteq> Inl SliceOffBoundary" using num by (simp add: scan_number_def split: option.split)
    moreover have "scan_word p s \<noteq> Inl SliceOffBoundary" using word by (simp add: scan_word_def)
    moreover have "scan_symbol env p s \<noteq> Inl SliceOffBoundary"
      using v by (simp add: scan_symbol_def split: option.split)
    moreover have "scan_text p s \<noteq> Inl SliceOffBoundary" if "hd s = CHR 0x22 \<or> hd s = CHR 0x27"
      using scan_quoted_clean(1)[OF quoted[OF that]] by (simp add: scan_text_def map_sum_Inl_iff)
    ultimately show ?thesis unfolding scan_token_def Let_def by presburger
  qed
  assume t: "scan_token env p s = Inr (t, r)"
  consider "r = number_end s"
    | u where "hd s = CHR 0x22 \<or> hd s = CHR 0x27" "scan_quoted p (hd s) [] (tl s) = Inr (u, r)"
    | "r = dropWhile word_char s"
    | y where "List.find (\<lambda>y. take (length y) s = y) SYMBOLS = Some y" "r = drop (length y) s"
    using t v num word
    by (auto simp: scan_token_def scan_number_def scan_text_def scan_word_def scan_symbol_def Let_def map_sum_Inr_iff
        split: if_splits option.splits)
  then show "clean r"
  proof cases
    case 2
    then show ?thesis using scan_quoted_clean(2)[OF quoted] by blast
  next
    case 1
    show ?thesis using clean_suffix[OF assms(1) number_end_suffix num] 1 by simp
  qed (use clean_suffix[OF assms(1)] word symbol suffix_dropWhile suffix_drop in blast)+
qed


lemma tokens_from_clean: "clean s \<Longrightarrow> tokens_from env n s \<noteq> Inl SliceOffBoundary"
proof (induction env n s rule: tokens_from.induct)
  case (1 env n s)
  obtain r where r: "skip_trivia s = Inr r" "clean r" using skip_trivia_clean[OF 1(2)] by blast
  show ?case
  proof (cases "r = [] \<or> (\<exists>e. scan_token env (n - length r) r = Inl e)")
    case True
    then show ?thesis using r scan_token_clean(1)[OF r(2)]
      by (subst tokens_from.simps) (auto split: sum.split)
  next
    case False
    then obtain t u where "scan_token env (n - length r) r = Inr (t, u)" "r \<noteq> []"
      by (metis sum.exhaust surj_pair)
    then show ?thesis
      using 1(1)[OF r(1) _ _ refl] scan_token_clean(2)[OF r(2)] r(1)
      by (subst tokens_from.simps) (auto simp: map_sum_Inl_iff)
  qed
qed

text \<open>
  Reading a program is total, and over valid UTF-8 the scanner slices off a character boundary,
  which kills the worker, only when the program has a backslash in front of a character that is not
  ASCII: every other source yields tokens or a message about it.
\<close>

theorem lexer_panics_only_after_wide_escape:
  "valid_utf8 source \<Longrightarrow> \<not> wide_escape source \<Longrightarrow> tokens env source \<noteq> Inl SliceOffBoundary"
  by (simp add: tokens_def tokens_from_clean clean_def)

definition plain_env :: script_env where
  "plain_env =
     \<lparr>se_round = Fin, se_read = (\<lambda>s. Some (Fin (of_nat (read_nat s)))), se_show = (\<lambda>_. []), se_json = (\<lambda>_. []),
      se_quote = id, se_char = id, se_expr = (\<lambda>_. [])\<rparr>"

theorem lexer_panics_only_after_wide_escape_witness:
  "tokens plain_env ''let x = 12;'' \<noteq> Inl SliceOffBoundary"
  by (rule lexer_panics_only_after_wide_escape) (code_simp)+

text \<open>The escape of a two-byte letter does panic: the second of its bytes is read as a position.\<close>

theorem wide_escape_panics:
  "tokens env [CHR 0x22, CHR 0x5C, char_of (195 :: nat), char_of (169 :: nat), CHR 0x22] = Inl SliceOffBoundary"
proof -
  have "char_of (169 :: nat) \<noteq> CHR 0x5C" "char_of (169 :: nat) \<noteq> CHR 0x22" by code_simp+
  then show ?thesis
    by (simp add: tokens_def tokens_from.simps skip_trivia.simps skip_comment_def slice_at_def is_blank_def
      scan_token_def scan_text_def is_cont_def is_digit_def byte_in_def Let_def)
qed

end
