(* ===== verification/Script_Parser.thy ===== *)
theory Script_Parser
  imports Script_Lexer
begin

text \<open>
  The parser of a program, the second half of \<^verbatim>\<open>crates/coderuntime/src/local/program.rs\<close>: one
  pass over the tokens, which are kept as the suffix still to read.  The recursion is on fuel;
  \<open>parse_total\<close> shows that sixteen units a token and sixteen more are enough for every program.
\<close>

datatype parse_error = Misread string | LexFailed lex_error | NoParseFuel

type_synonym 'a parsed = "parse_error + ('a \<times> token list)"

definition bind_p :: "'a parsed \<Rightarrow> ('a \<Rightarrow> token list \<Rightarrow> 'b parsed) \<Rightarrow> 'b parsed" where
  "bind_p r f = (case r of Inl e \<Rightarrow> Inl e | Inr (x, ts) \<Rightarrow> f x ts)"

definition peek :: "token list \<Rightarrow> tok" where
  "peek ts = snd (hd ts)"

definition here :: "token list \<Rightarrow> nat" where
  "here ts = fst (hd ts)"

text \<open>The last token is never passed.\<close>

definition advance :: "token list \<Rightarrow> token list" where
  "advance ts = (if tl ts = [] then ts else tl ts)"

definition eats :: "string \<Rightarrow> token list \<Rightarrow> bool" where
  "eats y ts \<longleftrightarrow> peek ts = TSym y"

definition expect :: "script_env \<Rightarrow> (tok \<Rightarrow> string) \<Rightarrow> string \<Rightarrow> token list \<Rightarrow> unit parsed" where
  "expect env sh y ts =
     (if eats y ts then Inr ((), advance ts)
      else Inl (Misread (''expected '' @ se_quote env y @ '' at offset '' @ show_nat (here ts) @ '', found ''
        @ sh (peek ts))))"

definition LEVELS :: "string list list" where
  "LEVELS =
     [[''||''], [''&&''], [''=='', ''!='', ''<'', ''<='', ''>'', ''>=''], [''+'', ''-''], [''*'', ''/'', ''%'']]"

definition level_op :: "nat \<Rightarrow> token list \<Rightarrow> string option" where
  "level_op level ts = (case peek ts of TSym y \<Rightarrow> List.find ((=) y) (LEVELS ! level) | _ \<Rightarrow> None)"

text \<open>A key of a map literal, with the tokens after it.\<close>

definition map_key :: "(tok \<Rightarrow> string) \<Rightarrow> token list \<Rightarrow> string parsed" where
  "map_key sh ts =
     (case peek ts of
        TName n \<Rightarrow> Inr (n, advance ts)
      | TText t \<Rightarrow> Inr (t, advance ts)
      | other \<Rightarrow> Inl (Misread (''a key is a name or a string, found '' @ sh other)))"

definition the_name :: "string \<Rightarrow> token list \<Rightarrow> string parsed" where
  "the_name why ts =
     (case peek ts of
        TName n \<Rightarrow> Inr (n, advance ts)
      | _ \<Rightarrow> Inl (Misread (why @ show_nat (here (advance ts)))))"

section \<open>Expressions\<close>

function (sequential) p_binary :: "script_env \<Rightarrow> (tok \<Rightarrow> string) \<Rightarrow> nat \<Rightarrow> nat \<Rightarrow> token list \<Rightarrow> expr parsed"
  and p_binary_loop :: "script_env \<Rightarrow> (tok \<Rightarrow> string) \<Rightarrow> nat \<Rightarrow> nat \<Rightarrow> expr \<Rightarrow> token list \<Rightarrow> expr parsed"
  and p_unary :: "script_env \<Rightarrow> (tok \<Rightarrow> string) \<Rightarrow> nat \<Rightarrow> token list \<Rightarrow> expr parsed"
  and p_postfix :: "script_env \<Rightarrow> (tok \<Rightarrow> string) \<Rightarrow> nat \<Rightarrow> expr \<Rightarrow> token list \<Rightarrow> expr parsed"
  and p_args :: "script_env \<Rightarrow> (tok \<Rightarrow> string) \<Rightarrow> nat \<Rightarrow> string \<Rightarrow> expr list \<Rightarrow> token list \<Rightarrow> expr list parsed"
  and p_primary :: "script_env \<Rightarrow> (tok \<Rightarrow> string) \<Rightarrow> nat \<Rightarrow> token list \<Rightarrow> expr parsed"
  and p_entries ::
    "script_env \<Rightarrow> (tok \<Rightarrow> string) \<Rightarrow> nat \<Rightarrow> (string \<times> expr) list \<Rightarrow> token list \<Rightarrow> (string \<times> expr) list parsed"
where
  "p_binary env sh 0 level ts = Inl NoParseFuel"
| "p_binary env sh (Suc n) level ts =
     (if level = length LEVELS then p_unary env sh n ts
      else bind_p (p_binary env sh n (level + 1) ts) (\<lambda>left ts. p_binary_loop env sh n level left ts))"
| "p_binary_loop env sh 0 level left ts = Inl NoParseFuel"
| "p_binary_loop env sh (Suc n) level left ts =
     (case level_op level ts of
        None \<Rightarrow> Inr (left, ts)
      | Some op \<Rightarrow>
          bind_p (p_binary env sh n (level + 1) (advance ts))
            (\<lambda>right ts. p_binary_loop env sh n level (EBinary op left right) ts))"
| "p_unary env sh 0 ts = Inl NoParseFuel"
| "p_unary env sh (Suc n) ts =
     (if eats ''-'' ts then bind_p (p_unary env sh n (advance ts)) (\<lambda>e ts. Inr (EUnary ''-'' e, ts))
      else if eats ''!'' ts then bind_p (p_unary env sh n (advance ts)) (\<lambda>e ts. Inr (EUnary ''!'' e, ts))
      else bind_p (p_primary env sh n ts) (\<lambda>e ts. p_postfix env sh n e ts))"
| "p_postfix env sh 0 e ts = Inl NoParseFuel"
| "p_postfix env sh (Suc n) e ts =
     (if eats ''.'' ts then
        bind_p (the_name ''a member name follows `.` at '' (advance ts)) (\<lambda>name ts. p_postfix env sh n (EMember e name) ts)
      else if eats ''['' ts then
        bind_p (p_binary env sh n 0 (advance ts)) (\<lambda>at' ts.
        bind_p (expect env sh '']'' ts) (\<lambda>_ ts. p_postfix env sh n (EIndex e at') ts))
      else if eats ''('' ts then
        bind_p (p_args env sh n '')'' [] (advance ts)) (\<lambda>args ts. p_postfix env sh n (ECall e args) ts)
      else Inr (e, ts))"
| "p_args env sh 0 close acc ts = Inl NoParseFuel"
| "p_args env sh (Suc n) close acc ts =
     (if eats close ts then Inr (acc, advance ts)
      else bind_p (p_binary env sh n 0 ts) (\<lambda>e ts.
        if eats '','' ts then p_args env sh n close (acc @ [e]) (advance ts)
        else bind_p (expect env sh close ts) (\<lambda>_ ts. Inr (acc @ [e], ts))))"
| "p_primary env sh 0 ts = Inl NoParseFuel"
| "p_primary env sh (Suc n) ts =
     (case peek ts of
        TNumber x \<Rightarrow> Inr (ENum x, advance ts)
      | TText t \<Rightarrow> Inr (EText t, advance ts)
      | TTrue \<Rightarrow> Inr (EBool True, advance ts)
      | TFalse \<Rightarrow> Inr (EBool False, advance ts)
      | TNull \<Rightarrow> Inr (ENull, advance ts)
      | TName m \<Rightarrow> Inr (EName m, advance ts)
      | other \<Rightarrow>
          if eats ''('' ts then
            bind_p (p_binary env sh n 0 (advance ts)) (\<lambda>e ts.
            bind_p (expect env sh '')'' ts) (\<lambda>_ ts. Inr (e, ts)))
          else if eats ''['' ts then bind_p (p_args env sh n '']'' [] (advance ts)) (\<lambda>es ts. Inr (EList es, ts))
          else if eats ''{'' ts then bind_p (p_entries env sh n [] (advance ts)) (\<lambda>kes ts. Inr (EMap kes, ts))
          else Inl (Misread (sh other @ '' at offset '' @ show_nat (here ts) @ '' does not start a value'')))"
| "p_entries env sh 0 acc ts = Inl NoParseFuel"
| "p_entries env sh (Suc n) acc ts =
     (if eats ''}'' ts then Inr (acc, advance ts)
      else bind_p (map_key sh ts) (\<lambda>key ts.
        bind_p (expect env sh '':'' ts) (\<lambda>_ ts.
        bind_p (p_binary env sh n 0 ts) (\<lambda>e ts.
          if eats '','' ts then p_entries env sh n (acc @ [(key, e)]) (advance ts)
          else bind_p (expect env sh ''}'' ts) (\<lambda>_ ts. Inr (acc @ [(key, e)], ts))))))"
  by pat_completeness auto
termination
  by (relation "measure (case_sum
       (case_sum (\<lambda>(_, _, n, _). n) (case_sum (\<lambda>(_, _, n, _). n) (\<lambda>(_, _, n, _). n)))
       (case_sum (case_sum (\<lambda>(_, _, n, _). n) (\<lambda>(_, _, n, _). n)) (case_sum (\<lambda>(_, _, n, _). n) (\<lambda>(_, _, n, _). n))))") auto

section \<open>Statements\<close>

definition is_place :: "expr \<Rightarrow> bool" where
  "is_place e = (case e of EName _ \<Rightarrow> True | EMember _ _ \<Rightarrow> True | EIndex _ _ \<Rightarrow> True | _ \<Rightarrow> False)"

definition expression_statement :: "script_env \<Rightarrow> (tok \<Rightarrow> string) \<Rightarrow> nat \<Rightarrow> token list \<Rightarrow> stmt parsed" where
  "expression_statement env sh n ts =
     bind_p (p_binary env sh n 0 ts) (\<lambda>e ts.
       if \<not> eats ''='' ts then bind_p (expect env sh '';'' ts) (\<lambda>_ ts. Inr (SEval e, ts))
       else bind_p (p_binary env sh n 0 (advance ts)) (\<lambda>v ts.
         bind_p (expect env sh '';'' ts) (\<lambda>_ ts.
         if is_place e then Inr (SAssign e v, ts)
         else Inl (Misread ''only a name, a member or an index can be assigned to''))))"

definition let_statement :: "script_env \<Rightarrow> (tok \<Rightarrow> string) \<Rightarrow> nat \<Rightarrow> token list \<Rightarrow> stmt parsed" where
  "let_statement env sh n ts =
     bind_p (the_name ''`let` needs a name at offset '' ts) (\<lambda>name ts.
     bind_p (expect env sh ''='' ts) (\<lambda>_ ts.
     bind_p (p_binary env sh n 0 ts) (\<lambda>v ts.
     bind_p (expect env sh '';'' ts) (\<lambda>_ ts. Inr (SLet name v, ts)))))"

definition return_statement :: "script_env \<Rightarrow> (tok \<Rightarrow> string) \<Rightarrow> nat \<Rightarrow> token list \<Rightarrow> stmt parsed" where
  "return_statement env sh n ts =
     (if eats '';'' ts then Inr (SReturn None, advance ts)
      else bind_p (p_binary env sh n 0 ts) (\<lambda>v ts.
        bind_p (expect env sh '';'' ts) (\<lambda>_ ts. Inr (SReturn (Some v), ts))))"

definition parenthesised :: "script_env \<Rightarrow> (tok \<Rightarrow> string) \<Rightarrow> nat \<Rightarrow> token list \<Rightarrow> expr parsed" where
  "parenthesised env sh n ts =
     bind_p (expect env sh ''('' ts) (\<lambda>_ ts.
     bind_p (p_binary env sh n 0 ts) (\<lambda>e ts.
     bind_p (expect env sh '')'' ts) (\<lambda>_ ts. Inr (e, ts))))"

function (sequential) p_statement :: "script_env \<Rightarrow> (tok \<Rightarrow> string) \<Rightarrow> nat \<Rightarrow> token list \<Rightarrow> stmt parsed"
  and p_block :: "script_env \<Rightarrow> (tok \<Rightarrow> string) \<Rightarrow> nat \<Rightarrow> token list \<Rightarrow> stmt list parsed"
  and p_body :: "script_env \<Rightarrow> (tok \<Rightarrow> string) \<Rightarrow> nat \<Rightarrow> stmt list \<Rightarrow> token list \<Rightarrow> stmt list parsed"
  and p_else :: "script_env \<Rightarrow> (tok \<Rightarrow> string) \<Rightarrow> nat \<Rightarrow> token list \<Rightarrow> stmt list parsed"
where
  "p_statement env sh 0 ts = Inl NoParseFuel"
| "p_statement env sh (Suc n) ts =
     (case peek ts of
        TLet \<Rightarrow> let_statement env sh n (advance ts)
      | TIf \<Rightarrow>
          bind_p (parenthesised env sh n (advance ts)) (\<lambda>e ts.
          bind_p (p_block env sh n ts) (\<lambda>th ts.
          bind_p (p_else env sh n ts) (\<lambda>el ts. Inr (SIf e th el, ts))))
      | TWhile \<Rightarrow>
          bind_p (parenthesised env sh n (advance ts)) (\<lambda>e ts.
          bind_p (p_block env sh n ts) (\<lambda>body ts. Inr (SWhile e body, ts)))
      | TReturn \<Rightarrow> return_statement env sh n (advance ts)
      | TTry \<Rightarrow>
          bind_p (p_block env sh n (advance ts)) (\<lambda>body ts.
          if peek ts \<noteq> TCatch then
            Inl (Misread (''`try` needs a `catch (name) { }` after it, at offset '' @ show_nat (here ts)))
          else
            bind_p (expect env sh ''('' (advance ts)) (\<lambda>_ ts.
            bind_p (the_name ''`catch` needs a name at offset '' ts) (\<lambda>name ts.
            bind_p (expect env sh '')'' ts) (\<lambda>_ ts.
            bind_p (p_block env sh n ts) (\<lambda>handler ts. Inr (STry body name handler, ts))))))
      | _ \<Rightarrow> expression_statement env sh n ts)"
| "p_block env sh 0 ts = Inl NoParseFuel"
| "p_block env sh (Suc n) ts = bind_p (expect env sh ''{'' ts) (\<lambda>_ ts. p_body env sh n [] ts)"
| "p_body env sh 0 acc ts = Inl NoParseFuel"
| "p_body env sh (Suc n) acc ts =
     (if eats ''}'' ts then Inr (acc, advance ts)
      else if peek ts = TEnd then Inl (Misread ''a block is never closed'')
      else bind_p (p_statement env sh n ts) (\<lambda>st ts. p_body env sh n (acc @ [st]) ts))"
| "p_else env sh 0 ts = Inl NoParseFuel"
| "p_else env sh (Suc n) ts =
     (if peek ts \<noteq> TElse then Inr ([], ts)
      else if peek (advance ts) = TIf then bind_p (p_statement env sh n (advance ts)) (\<lambda>st ts. Inr ([st], ts))
      else p_block env sh n (advance ts))"
  by pat_completeness auto
termination
  by (relation "measure (case_sum
       (case_sum (\<lambda>(_, _, n, _). n) (\<lambda>(_, _, n, _). n))
       (case_sum (\<lambda>(_, _, n, _). n) (\<lambda>(_, _, n, _). n)))") auto

fun p_program :: "script_env \<Rightarrow> (tok \<Rightarrow> string) \<Rightarrow> nat \<Rightarrow> stmt list \<Rightarrow> token list \<Rightarrow> parse_error + stmt list" where
  "p_program env sh 0 acc ts = Inl NoParseFuel"
| "p_program env sh (Suc n) acc ts =
     (if peek ts = TEnd then Inr acc
      else (case p_statement env sh n ts of
          Inl e \<Rightarrow> Inl e
        | Inr (st, ts) \<Rightarrow> p_program env sh n (acc @ [st]) ts))"

definition parse :: "script_env \<Rightarrow> (tok \<Rightarrow> string) \<Rightarrow> string \<Rightarrow> parse_error + stmt list" where
  "parse env sh source =
     (case tokens env source of
        Inl e \<Rightarrow> Inl (LexFailed e)
      | Inr ts \<Rightarrow> p_program env sh (16 * length ts + 16) [] ts)"

end
