(* ===== verification/Script_Total.thy ===== *)
theory Script_Total
  imports Script_Parser
begin

text \<open>
  Parsing ends: the fuel \<^const>\<open>parse\<close> starts from is never spent, whatever the program.
\<close>

definition wf_tokens :: "token list \<Rightarrow> bool" where
  "wf_tokens ts \<longleftrightarrow> ts \<noteq> [] \<and> snd (last ts) = TEnd"

text \<open>A result that did not run out of fuel and left at least \<open>k\<close> tokens fewer.\<close>

definition fits :: "nat \<Rightarrow> token list \<Rightarrow> 'a parsed \<Rightarrow> bool" where
  "fits k ts r \<longleftrightarrow>
     (case r of Inl e \<Rightarrow> e \<noteq> NoParseFuel | Inr (_, us) \<Rightarrow> wf_tokens us \<and> length us + k \<le> length ts)"

lemma fits_Inl [simp]: "fits k ts (Inl e) \<longleftrightarrow> e \<noteq> NoParseFuel"
  by (simp add: fits_def)

lemma fits_Inr [simp]: "fits k ts (Inr (x, us)) \<longleftrightarrow> wf_tokens us \<and> length us + k \<le> length ts"
  by (simp add: fits_def)

lemma fits_bind:
  assumes "fits a ts r" "\<And>x us. wf_tokens us \<Longrightarrow> length us + a \<le> length ts \<Longrightarrow> fits b us (f x us)"
  shows "fits (a + b) ts (bind_p r f)"
proof (cases r)
  case (Inr p)
  obtain x us where p: "p = (x, us)" by fastforce
  have u: "wf_tokens us" "length us + a \<le> length ts" using assms(1) by (auto simp: Inr p)
  show ?thesis using assms(2)[OF u, of x] u by (auto simp: bind_p_def Inr p fits_def split: sum.splits)
qed (use assms in \<open>auto simp: bind_p_def fits_def\<close>)

lemma fits_mono: "fits k ts r \<Longrightarrow> j \<le> k \<Longrightarrow> length ts \<le> length us \<Longrightarrow> fits j us r"
  by (auto simp: fits_def split: sum.splits)

lemma advance_wf:
  assumes "wf_tokens ts" "peek ts \<noteq> TEnd"
  shows "wf_tokens (advance ts)" and "Suc (length (advance ts)) = length ts"
proof -
  obtain t us where ts: "ts = t # us" using assms(1) by (cases ts) (auto simp: wf_tokens_def)
  have "us \<noteq> []" using assms by (auto simp: ts wf_tokens_def peek_def)
  then show "wf_tokens (advance ts)" "Suc (length (advance ts)) = length ts"
    using assms(1) by (simp_all add: ts advance_def wf_tokens_def)
qed

lemma eats_wf:
  assumes "wf_tokens ts" "eats y ts"
  shows "wf_tokens (advance ts)" and "Suc (length (advance ts)) = length ts"
  using advance_wf[OF assms(1)] assms(2) by (simp_all add: eats_def)

lemma expect_fits: "wf_tokens ts \<Longrightarrow> fits 1 ts (expect env sh y ts)"
  using eats_wf[of ts y] by (auto simp: expect_def)

lemma the_name_fits: "wf_tokens ts \<Longrightarrow> fits 1 ts (the_name why ts)"
  using advance_wf[of ts] by (auto simp: the_name_def split: tok.split)

lemma map_key_fits: "wf_tokens ts \<Longrightarrow> fits 1 ts (map_key sh ts)"
  using advance_wf[of ts] by (auto simp: map_key_def split: tok.split)

lemma level_op_wf:
  "wf_tokens ts \<Longrightarrow> level_op level ts = Some op \<Longrightarrow> wf_tokens (advance ts) \<and> Suc (length (advance ts)) = length ts"
  using advance_wf[of ts] by (auto simp: level_op_def split: tok.splits)

definition expr_fits :: "script_env \<Rightarrow> (tok \<Rightarrow> string) \<Rightarrow> nat \<Rightarrow> bool" where
  "expr_fits env sh n \<longleftrightarrow>
     (\<forall>ts. wf_tokens ts \<longrightarrow>
        (\<forall>l\<le>5. 16 * length ts + (9 - l) \<le> n \<longrightarrow> fits 1 ts (p_binary env sh n l ts))
      \<and> (\<forall>l left. l < 5 \<longrightarrow> 16 * length ts + 10 \<le> n \<longrightarrow> fits 0 ts (p_binary_loop env sh n l left ts))
      \<and> (16 * length ts + 3 \<le> n \<longrightarrow> fits 1 ts (p_unary env sh n ts))
      \<and> (\<forall>e. 16 * length ts + 2 \<le> n \<longrightarrow> fits 0 ts (p_postfix env sh n e ts))
      \<and> (\<forall>c acc. 16 * length ts + 11 \<le> n \<longrightarrow> fits 1 ts (p_args env sh n c acc ts))
      \<and> (16 * length ts + 1 \<le> n \<longrightarrow> fits 1 ts (p_primary env sh n ts))
      \<and> (\<forall>acc. 16 * length ts + 11 \<le> n \<longrightarrow> fits 1 ts (p_entries env sh n acc ts)))"

lemma binary_fits:
  assumes "expr_fits env sh n" "wf_tokens ts" "l \<le> 5" "16 * length ts + (9 - l) \<le> Suc n"
  shows "fits 1 ts (p_binary env sh (Suc n) l ts)"
proof (cases "l = 5")
  case True
  then show ?thesis using assms by (simp add: expr_fits_def LEVELS_def)
next
  case False
  have "fits (1 + 0) ts (bind_p (p_binary env sh n (l + 1) ts) (\<lambda>left ts. p_binary_loop env sh n l left ts))"
    using assms False by (intro fits_bind) (auto simp: expr_fits_def)
  then show ?thesis using False by (simp add: LEVELS_def)
qed

lemma loop_fits:
  assumes "expr_fits env sh n" "wf_tokens ts" "l < 5" "16 * length ts + 10 \<le> Suc n"
  shows "fits 0 ts (p_binary_loop env sh (Suc n) l left ts)"
proof (cases "level_op l ts")
  case None
  then show ?thesis using assms by simp
next
  case (Some op)
  note a = level_op_wf[OF assms(2) Some]
  have "fits (1 + 0) (advance ts) (bind_p (p_binary env sh n (l + 1) (advance ts))
      (\<lambda>right ts. p_binary_loop env sh n l (EBinary op left right) ts))"
    using assms a by (intro fits_bind) (auto simp: expr_fits_def)
  then have "fits 0 ts (bind_p (p_binary env sh n (l + 1) (advance ts))
      (\<lambda>right ts. p_binary_loop env sh n l (EBinary op left right) ts))"
    by (rule fits_mono) (use a in auto)
  then show ?thesis by (simp add: Some)
qed

lemma fits_wrap: "fits 1 ts r \<Longrightarrow> fits 1 ts (bind_p r (\<lambda>x ts. Inr (g x, ts)))"
  using fits_bind[of 1 ts r 0 "\<lambda>x ts. Inr (g x, ts)"] by simp

lemma unary_fits:
  assumes "expr_fits env sh n" "wf_tokens ts" "16 * length ts + 3 \<le> Suc n"
  shows "fits 1 ts (p_unary env sh (Suc n) ts)"
proof -
  have sub: "fits 1 ts (bind_p (p_unary env sh n (advance ts)) (\<lambda>e ts. Inr (EUnary op e, ts)))" if "eats op' ts" for op op'
    using eats_wf[OF assms(2) that] assms(1,3)
    by (intro fits_wrap) (auto simp: expr_fits_def intro: fits_mono[of 1 "advance ts"])
  have "fits (1 + 0) ts (bind_p (p_primary env sh n ts) (\<lambda>e ts. p_postfix env sh n e ts))"
    using assms by (intro fits_bind) (auto simp: expr_fits_def)
  then show ?thesis using sub by simp
qed


lemma fits_bind_le:
  "fits a ts r \<Longrightarrow> (\<And>x us. wf_tokens us \<Longrightarrow> length us + a \<le> length ts \<Longrightarrow> fits b us (f x us)) \<Longrightarrow> c \<le> a + b
   \<Longrightarrow> fits c ts (bind_p r f)"
  by (rule fits_mono[OF fits_bind]) auto

text \<open>The rules for what stands after a symbol, with the room the fuel leaves there.\<close>

lemma postfix_fits:
  assumes n: "expr_fits env sh n" and wf: "wf_tokens ts" and room: "16 * length ts + 2 \<le> Suc n"
  shows "fits 0 ts (p_postfix env sh (Suc n) e ts)"
proof -
  have go: "fits 0 us (p_postfix env sh n e' us)" if "wf_tokens us" "length us < length ts" for e' us
    using n that room by (simp add: expr_fits_def)
  have a: "wf_tokens (advance ts)" "Suc (length (advance ts)) = length ts" if "eats y ts" for y
    using eats_wf[OF wf that] by auto
  have 1: "fits 0 (advance ts) (bind_p (the_name why (advance ts)) (\<lambda>name ts. p_postfix env sh n (EMember e name) ts))"
    if y: "eats y ts" for why y
    by (rule fits_bind_le[OF the_name_fits[OF a(1)[OF y]], of 0]) (use a[OF y] in \<open>auto intro: go\<close>)
  have 2: "fits 0 (advance ts) (bind_p (p_binary env sh n 0 (advance ts)) (\<lambda>at' ts.
        bind_p (expect env sh '']'' ts) (\<lambda>_ ts. p_postfix env sh n (EIndex e at') ts)))" if y: "eats y ts" for y
  proof (rule fits_bind_le[of 1 _ _ 0])
    show "fits 1 (advance ts) (p_binary env sh n 0 (advance ts))"
      using n a[OF y] room by (simp add: expr_fits_def)
    show "fits 0 us (bind_p (expect env sh '']'' us) (\<lambda>_ ts. p_postfix env sh n (EIndex e at') ts))"
      if "wf_tokens us" "length us + 1 \<le> length (advance ts)" for at' us
      by (rule fits_bind_le[OF expect_fits, of _ 0]) (use that a[OF y] in \<open>auto intro: go\<close>)
  qed simp
  have 3: "fits 0 (advance ts) (bind_p (p_args env sh n c acc (advance ts)) (\<lambda>args ts. p_postfix env sh n (ECall e args) ts))"
    if y: "eats y ts" for y c acc
    by (rule fits_bind_le[of 1 _ _ 0]) (use n a[OF y] room in \<open>auto simp: expr_fits_def intro: go\<close>)
  have up: "fits 0 ts r" if "fits 0 (advance ts) r" "eats y ts" for y and r :: "expr parsed"
    by (rule fits_mono[OF that(1)]) (use a(2)[OF that(2)] in auto)
  show ?thesis
    using up 1 2 3 wf by simp
qed

lemma args_fits:
  assumes n: "expr_fits env sh n" and wf: "wf_tokens ts" and room: "16 * length ts + 11 \<le> Suc n"
  shows "fits 1 ts (p_args env sh (Suc n) c acc ts)"
proof -
  have "fits 1 ts (bind_p (p_binary env sh n 0 ts) (\<lambda>e ts.
        if eats '','' ts then p_args env sh n c (acc @ [e]) (advance ts)
        else bind_p (expect env sh c ts) (\<lambda>_ ts. Inr (acc @ [e], ts))))"
  proof (rule fits_bind_le[of 1 _ _ 0])
    show "fits 1 ts (p_binary env sh n 0 ts)" using n wf room by (simp add: expr_fits_def)
    fix e us
    assume u: "wf_tokens us" "length us + 1 \<le> length ts"
    have "fits 1 (advance us) (p_args env sh n c (acc @ [e]) (advance us))" if "eats '','' us"
      using n eats_wf[OF u(1) that] u room by (simp add: expr_fits_def)
    then have "fits 0 us (p_args env sh n c (acc @ [e]) (advance us))" if "eats '','' us"
      by (rule fits_mono) (use that eats_wf[OF u(1) that] in auto)
    moreover have "fits 0 us (bind_p (expect env sh c us) (\<lambda>_ ts. Inr (acc @ [e], ts)))"
      by (rule fits_mono[OF fits_wrap[OF expect_fits[OF u(1)]]]) auto
    ultimately show "fits 0 us (if eats '','' us then p_args env sh n c (acc @ [e]) (advance us)
        else bind_p (expect env sh c us) (\<lambda>_ ts. Inr (acc @ [e], ts)))" by simp
  qed simp
  then show ?thesis using eats_wf[OF wf, of c] by simp
qed

lemma entries_fits:
  assumes n: "expr_fits env sh n" and wf: "wf_tokens ts" and room: "16 * length ts + 11 \<le> Suc n"
  shows "fits 1 ts (p_entries env sh (Suc n) acc ts)"
proof -
  let ?tail = "\<lambda>key e ts. if eats '','' ts then p_entries env sh n (acc @ [(key, e)]) (advance ts)
          else bind_p (expect env sh ''}'' ts) (\<lambda>_ ts. Inr (acc @ [(key, e)], ts))"
  have tail: "fits 0 us (?tail key e us)" if u: "wf_tokens us" "length us < length ts" for key e us
  proof -
    have "fits 1 (advance us) (p_entries env sh n (acc @ [(key, e)]) (advance us))" if "eats '','' us"
      using n eats_wf[OF u(1) that] u room by (simp add: expr_fits_def)
    then have "fits 0 us (p_entries env sh n (acc @ [(key, e)]) (advance us))" if "eats '','' us"
      by (rule fits_mono) (use that eats_wf[OF u(1) that] in auto)
    moreover have "fits 0 us (bind_p (expect env sh ''}'' us) (\<lambda>_ ts. Inr (acc @ [(key, e)], ts)))"
      by (rule fits_mono[OF fits_wrap[OF expect_fits[OF u(1)]]]) auto
    ultimately show ?thesis by simp
  qed
  have "fits 1 ts (bind_p (map_key sh ts) (\<lambda>key ts. bind_p (expect env sh '':'' ts) (\<lambda>_ ts.
        bind_p (p_binary env sh n 0 ts) (?tail key))))"
  proof (rule fits_bind_le[OF map_key_fits[OF wf], of 0])
    fix key us
    assume u: "wf_tokens us" "length us + 1 \<le> length ts"
    show "fits 0 us (bind_p (expect env sh '':'' us) (\<lambda>_ ts. bind_p (p_binary env sh n 0 ts) (?tail key)))"
    proof (rule fits_bind_le[OF expect_fits[OF u(1)], of 0])
      fix x vs
      assume v: "wf_tokens vs" "length vs + 1 \<le> length us"
      show "fits 0 vs (bind_p (p_binary env sh n 0 vs) (?tail key))"
      proof (rule fits_bind_le[of 1 _ _ 0])
        show "fits 1 vs (p_binary env sh n 0 vs)" using n u v room by (simp add: expr_fits_def)
        show "fits 0 ws (?tail key e ws)" if "wf_tokens ws" "length ws + 1 \<le> length vs" for e ws
          by (rule tail) (use that u v in auto)
      qed simp
    qed simp
  qed simp
  then show ?thesis using eats_wf[OF wf, of "''}''"] by simp
qed

lemma primary_fits:
  assumes n: "expr_fits env sh n" and wf: "wf_tokens ts" and room: "16 * length ts + 1 \<le> Suc n"
  shows "fits 1 ts (p_primary env sh (Suc n) ts)"
proof -
  have up: "fits 1 ts r" if "fits 0 (advance ts) r" "eats y ts" for y and r :: "expr parsed"
    using that(1) eats_wf[OF wf that(2)] by (auto simp: fits_def split: sum.splits)
  have 1: "fits 0 (advance ts) (bind_p (p_binary env sh n 0 (advance ts)) (\<lambda>e ts.
            bind_p (expect env sh '')'' ts) (\<lambda>_ ts. Inr (e, ts))))" if y: "eats y ts" for y
  proof (rule fits_bind_le[of 1 _ _ 0])
    show "fits 1 (advance ts) (p_binary env sh n 0 (advance ts))"
      using n eats_wf[OF wf y] room by (simp add: expr_fits_def)
    show "fits 0 us (bind_p (expect env sh '')'' us) (\<lambda>_ ts. Inr (e, ts)))" if "wf_tokens us" for e us
      by (rule fits_mono[OF fits_wrap[OF expect_fits[OF that]]]) auto
  qed simp
  have 2: "fits 0 (advance ts) (bind_p (p_args env sh n c acc (advance ts)) (\<lambda>es ts. Inr (g es, ts)))"
    if y: "eats y ts" for y c acc g
    by (rule fits_mono[of 1 "advance ts"], rule fits_wrap)
      (use n eats_wf[OF wf y] room in \<open>auto simp: expr_fits_def\<close>)
  have 3: "fits 0 (advance ts) (bind_p (p_entries env sh n acc (advance ts)) (\<lambda>es ts. Inr (g es, ts)))"
    if y: "eats y ts" for y acc g
    by (rule fits_mono[of 1 "advance ts"], rule fits_wrap)
      (use n eats_wf[OF wf y] room in \<open>auto simp: expr_fits_def\<close>)
  have other: "fits 1 ts
      (if eats ''('' ts then
         bind_p (p_binary env sh n 0 (advance ts)) (\<lambda>e ts. bind_p (expect env sh '')'' ts) (\<lambda>_ ts. Inr (e, ts)))
       else if eats ''['' ts then bind_p (p_args env sh n '']'' [] (advance ts)) (\<lambda>es ts. Inr (EList es, ts))
       else if eats ''{'' ts then bind_p (p_entries env sh n [] (advance ts)) (\<lambda>kes ts. Inr (EMap kes, ts))
       else Inl (Misread m))" for m
    using up[OF 1] up[OF 2] up[OF 3] by (simp only: fits_Inl split: if_split) blast
  show ?thesis
    using advance_wf[OF wf] other by (cases "peek ts") simp_all
qed

lemma expr_fits: "expr_fits env sh n"
proof (induction n)
  case 0
  then show ?case by (auto simp: expr_fits_def wf_tokens_def)
next
  case (Suc n)
  show ?case
    unfolding expr_fits_def
    using binary_fits[OF Suc] loop_fits[OF Suc] unary_fits[OF Suc] postfix_fits[OF Suc] args_fits[OF Suc]
      primary_fits[OF Suc] entries_fits[OF Suc]
    by blast
qed

lemma p_expr_fits: "wf_tokens ts \<Longrightarrow> 16 * length ts + 9 \<le> n \<Longrightarrow> fits 1 ts (p_binary env sh n 0 ts)"
  using expr_fits[of env sh n] by (simp add: expr_fits_def)


section \<open>Statements\<close>

lemma p_expr_then:
  assumes "wf_tokens ts" "16 * length ts + 9 \<le> n"
    and "\<And>e us. wf_tokens us \<Longrightarrow> length us + 1 \<le> length ts \<Longrightarrow> fits 0 us (f e us)"
  shows "fits 1 ts (bind_p (p_binary env sh n 0 ts) f)"
  by (rule fits_bind_le[OF p_expr_fits[OF assms(1,2)], of 0]) (use assms(3) in auto)

lemma expect_then:
  assumes "wf_tokens ts" "\<And>u us. wf_tokens us \<Longrightarrow> length us + 1 \<le> length ts \<Longrightarrow> fits 0 us (f u us)"
  shows "fits 1 ts (bind_p (expect env sh y ts) f)"
  by (rule fits_bind_le[OF expect_fits[OF assms(1)], of 0]) (use assms(2) in auto)

lemma expect_then0:
  assumes "wf_tokens ts" "\<And>u us. wf_tokens us \<Longrightarrow> length us + 1 \<le> length ts \<Longrightarrow> fits 0 us (f u us)"
  shows "fits 0 ts (bind_p (expect env sh y ts) f)"
  by (rule fits_mono[OF expect_then[OF assms]]) auto

lemma p_expr_then0:
  assumes "wf_tokens ts" "16 * length ts + 9 \<le> n"
    and "\<And>e us. wf_tokens us \<Longrightarrow> length us + 1 \<le> length ts \<Longrightarrow> fits 0 us (f e us)"
  shows "fits 0 ts (bind_p (p_binary env sh n 0 ts) f)"
  by (rule fits_mono[OF p_expr_then[OF assms]]) auto

lemma the_name_then0:
  assumes "wf_tokens ts" "\<And>u us. wf_tokens us \<Longrightarrow> length us + 1 \<le> length ts \<Longrightarrow> fits 0 us (f u us)"
  shows "fits 0 ts (bind_p (the_name why ts) f)"
  by (rule fits_bind_le[OF the_name_fits[OF assms(1)], of 0]) (use assms(2) in auto)

lemmas then_fits = expect_then0 p_expr_then0 the_name_then0

lemma expression_statement_fits:
  "wf_tokens ts \<Longrightarrow> 16 * length ts + 9 \<le> n \<Longrightarrow> fits 1 ts (expression_statement env sh n ts)"
  unfolding expression_statement_def
proof (erule p_expr_then, assumption)
  fix e us
  assume n: "16 * length ts + 9 \<le> n" and u: "wf_tokens us" "length us + 1 \<le> length ts"
  have "fits 0 (advance us) (bind_p (p_binary env sh n 0 (advance us)) (\<lambda>v ts.
         bind_p (expect env sh '';'' ts) (\<lambda>_ ts.
         if is_place e then Inr (SAssign e v, ts)
         else Inl (Misread ''only a name, a member or an index can be assigned to''))))" if y: "eats ''='' us"
    by (intro then_fits) (use n u eats_wf[OF u(1) y] in auto)
  then have "fits 0 us (bind_p (p_binary env sh n 0 (advance us)) (\<lambda>v ts.
         bind_p (expect env sh '';'' ts) (\<lambda>_ ts.
         if is_place e then Inr (SAssign e v, ts)
         else Inl (Misread ''only a name, a member or an index can be assigned to''))))" if y: "eats ''='' us"
    by (rule fits_mono) (use y eats_wf[OF u(1) y] in auto)
  moreover have "fits 0 us (bind_p (expect env sh '';'' us) (\<lambda>_ ts. Inr (SEval e, ts)))"
    by (intro then_fits u) simp
  ultimately show "fits 0 us (if \<not> eats ''='' us then bind_p (expect env sh '';'' us) (\<lambda>_ ts. Inr (SEval e, ts))
       else bind_p (p_binary env sh n 0 (advance us)) (\<lambda>v ts.
         bind_p (expect env sh '';'' ts) (\<lambda>_ ts.
         if is_place e then Inr (SAssign e v, ts)
         else Inl (Misread ''only a name, a member or an index can be assigned to''))))" by simp
qed

lemma let_statement_fits:
  "wf_tokens ts \<Longrightarrow> 16 * length ts + 9 \<le> n \<Longrightarrow> fits 0 ts (let_statement env sh n ts)"
  unfolding let_statement_def by (intro then_fits) auto

lemma return_statement_fits:
  "wf_tokens ts \<Longrightarrow> 16 * length ts + 9 \<le> n \<Longrightarrow> fits 0 ts (return_statement env sh n ts)"
  using eats_wf[of ts "'';''"] unfolding return_statement_def by (auto intro!: then_fits)

lemma parenthesised_fits:
  "wf_tokens ts \<Longrightarrow> 16 * length ts + 9 \<le> n \<Longrightarrow> fits 1 ts (parenthesised env sh n ts)"
  unfolding parenthesised_def by (intro expect_then then_fits) auto

definition stmt_fits :: "script_env \<Rightarrow> (tok \<Rightarrow> string) \<Rightarrow> nat \<Rightarrow> bool" where
  "stmt_fits env sh n \<longleftrightarrow>
     (\<forall>ts. wf_tokens ts \<longrightarrow>
        (16 * length ts + 10 \<le> n \<longrightarrow> fits 1 ts (p_statement env sh n ts))
      \<and> (16 * length ts + 1 \<le> n \<longrightarrow> fits 1 ts (p_block env sh n ts))
      \<and> (\<forall>acc. 16 * length ts + 11 \<le> n \<longrightarrow> fits 1 ts (p_body env sh n acc ts))
      \<and> (16 * length ts + 12 \<le> n \<longrightarrow> fits 0 ts (p_else env sh n ts)))"

lemma statement_fits:
  assumes n: "stmt_fits env sh n" and wf: "wf_tokens ts" and room: "16 * length ts + 10 \<le> Suc n"
  shows "fits 1 ts (p_statement env sh (Suc n) ts)"
proof -
  let ?ts = "advance ts"
  have block: "fits 1 us (p_block env sh n us)" if "wf_tokens us" "length us < length ts" for us
    using n that room by (simp add: stmt_fits_def)
  have els: "fits 0 us (p_else env sh n us)" if "wf_tokens us" "length us < length ts" for us
    using n that room by (simp add: stmt_fits_def)
  have up: "fits 1 ts r" if "fits 0 ?ts r" "peek ts \<noteq> TEnd" for r :: "stmt parsed"
    using that(1) advance_wf[OF wf that(2)] by (auto simp: fits_def split: sum.splits)
  have block_then: "fits 0 us (bind_p (p_block env sh n us) f)"
    if "wf_tokens us" "length us < length ts"
       "\<And>b vs. wf_tokens vs \<Longrightarrow> length vs < length us \<Longrightarrow> fits 0 vs (f b vs)"
    for us and f :: "stmt list \<Rightarrow> token list \<Rightarrow> stmt parsed"
    by (rule fits_bind_le[OF block[OF that(1,2)], of 0]) (use that(3) in auto)
  have else_then: "fits 0 us (bind_p (p_else env sh n us) f)"
    if "wf_tokens us" "length us < length ts"
       "\<And>b vs. wf_tokens vs \<Longrightarrow> fits 0 vs (f b vs)"
    for us and f :: "stmt list \<Rightarrow> token list \<Rightarrow> stmt parsed"
    by (rule fits_bind_le[OF els[OF that(1,2)], of 0]) (use that(3) in auto)
  have paren_then: "fits 0 ?ts (bind_p (parenthesised env sh n ?ts) f)"
    if "peek ts \<noteq> TEnd" "\<And>b vs. wf_tokens vs \<Longrightarrow> length vs < length ?ts \<Longrightarrow> fits 0 vs (f b vs)"
    for f :: "expr \<Rightarrow> token list \<Rightarrow> stmt parsed"
    by (rule fits_bind_le[OF parenthesised_fits, of _ _ 0])
      (use advance_wf[OF wf that(1)] room that(2) in auto)
  have a: "wf_tokens ?ts" "Suc (length ?ts) = length ts" if "peek ts \<noteq> TEnd"
    using advance_wf[OF wf that] by auto
  have 1: "fits 0 ?ts (bind_p (parenthesised env sh n ?ts) (\<lambda>e ts.
          bind_p (p_block env sh n ts) (\<lambda>th ts.
          bind_p (p_else env sh n ts) (\<lambda>el ts. Inr (SIf e th el, ts)))))" if "peek ts \<noteq> TEnd"
    by (intro paren_then block_then else_then that) (use a[OF that] in auto)
  have 2: "fits 0 ?ts (bind_p (parenthesised env sh n ?ts) (\<lambda>e ts.
          bind_p (p_block env sh n ts) (\<lambda>body ts. Inr (SWhile e body, ts))))" if "peek ts \<noteq> TEnd"
    by (intro paren_then block_then that) (use a[OF that] in auto)
  have catch: "fits 0 us (bind_p (expect env sh ''('' (advance us)) (\<lambda>_ ts.
            bind_p (the_name ''`catch` needs a name at offset '' ts) (\<lambda>name ts.
            bind_p (expect env sh '')'' ts) (\<lambda>_ ts.
            bind_p (p_block env sh n ts) (\<lambda>handler ts. Inr (STry body name handler, ts))))))"
    if "wf_tokens us" "length us < length ts" "peek us = TCatch" for us body
  proof -
    have c: "wf_tokens (advance us)" "Suc (length (advance us)) = length us"
      using advance_wf[OF that(1)] that(3) by auto
    have "fits 0 (advance us) (bind_p (expect env sh ''('' (advance us)) (\<lambda>_ ts.
            bind_p (the_name ''`catch` needs a name at offset '' ts) (\<lambda>name ts.
            bind_p (expect env sh '')'' ts) (\<lambda>_ ts.
            bind_p (p_block env sh n ts) (\<lambda>handler ts. Inr (STry body name handler, ts))))))"
      by (intro then_fits block_then c) (use c that in auto)
    then show ?thesis by (rule fits_mono) (use c in auto)
  qed
  have 3: "fits 0 ?ts (bind_p (p_block env sh n ?ts) (\<lambda>body ts.
          if peek ts \<noteq> TCatch then Inl (Misread (m ts))
          else
            bind_p (expect env sh ''('' (advance ts)) (\<lambda>_ ts.
            bind_p (the_name ''`catch` needs a name at offset '' ts) (\<lambda>name ts.
            bind_p (expect env sh '')'' ts) (\<lambda>_ ts.
            bind_p (p_block env sh n ts) (\<lambda>handler ts. Inr (STry body name handler, ts)))))))"
    if "peek ts \<noteq> TEnd" for m
  proof (rule block_then)
    fix b vs
    assume "wf_tokens vs" "length vs < length ?ts"
    then show "fits 0 vs (if peek vs \<noteq> TCatch then Inl (Misread (m vs))
          else
            bind_p (expect env sh ''('' (advance vs)) (\<lambda>_ ts.
            bind_p (the_name ''`catch` needs a name at offset '' ts) (\<lambda>name ts.
            bind_p (expect env sh '')'' ts) (\<lambda>_ ts.
            bind_p (p_block env sh n ts) (\<lambda>handler ts. Inr (STry b name handler, ts))))))"
      using catch[of vs b] a[OF that] by simp
  qed (use a[OF that] in auto)
  have 4: "fits 0 ?ts (let_statement env sh n ?ts)" "fits 0 ?ts (return_statement env sh n ?ts)" if "peek ts \<noteq> TEnd"
    using a[OF that] room by (auto intro!: let_statement_fits return_statement_fits)
  have 5: "fits 1 ts (expression_statement env sh n ts)"
    using wf room by (intro expression_statement_fits) auto
  show ?thesis
    using up[OF 1] up[OF 2] up[OF 3] up[OF 4(1)] up[OF 4(2)] 5 by (cases "peek ts") simp_all
qed

lemma stmt_fits: "stmt_fits env sh n"
proof (induction n)
  case 0
  then show ?case by (auto simp: stmt_fits_def wf_tokens_def)
next
  case (Suc n)
  have rest: "fits 0 us (p_body env sh n acc us)" if "wf_tokens us" "16 * length us + 11 \<le> n" for acc us
    by (rule fits_mono[of 1 us]) (use Suc that in \<open>auto simp: stmt_fits_def\<close>)
  have block: "fits 1 ts (p_block env sh (Suc n) ts)" if "wf_tokens ts" "16 * length ts + 1 \<le> Suc n" for ts
  proof -
    have "fits 0 us (p_body env sh n [] us)" if "wf_tokens us" "length us + 1 \<le> length ts" for us
      by (rule rest) (use that \<open>16 * length ts + 1 \<le> Suc n\<close> in auto)
    then show ?thesis unfolding p_block.simps by (intro expect_then that(1))
  qed
  have body: "fits 1 ts (p_body env sh (Suc n) acc ts)" if ts: "wf_tokens ts" "16 * length ts + 11 \<le> Suc n" for ts acc
  proof -
    have "fits 1 ts (bind_p (p_statement env sh n ts) (\<lambda>st ts. p_body env sh n (acc @ [st]) ts))"
      by (rule fits_bind_le[of 1 _ _ 0])
        (use Suc ts in \<open>auto simp: stmt_fits_def intro: rest\<close>)
    then show ?thesis using eats_wf[OF ts(1), of "''}''"] by simp
  qed
  have els: "fits 0 ts (p_else env sh (Suc n) ts)" if ts: "wf_tokens ts" "16 * length ts + 12 \<le> Suc n" for ts
  proof (cases "peek ts = TElse")
    case True
    have a: "wf_tokens (advance ts)" "Suc (length (advance ts)) = length ts"
      using advance_wf[OF ts(1)] True by auto
    have "fits 1 (advance ts) (bind_p (p_statement env sh n (advance ts)) (\<lambda>st ts. Inr ([st], ts)))"
      by (rule fits_wrap) (use Suc a ts in \<open>auto simp: stmt_fits_def\<close>)
    moreover have "fits 1 (advance ts) (p_block env sh n (advance ts))"
      using Suc a ts by (simp add: stmt_fits_def)
    ultimately show ?thesis using a True by (auto intro: fits_mono[of 1 "advance ts"])
  qed (use ts in simp)
  show ?case
    unfolding stmt_fits_def using statement_fits[OF Suc] block body els by blast
qed

text \<open>Every scanned source ends in the end token.\<close>

lemma tokens_from_wf: "tokens_from env n s = Inr ts \<Longrightarrow> wf_tokens ts"
proof (induction env n s arbitrary: ts rule: tokens_from.induct)
  case (1 env n s)
  from 1(2) obtain r where r: "skip_trivia s = Inr r"
    by (subst (asm) tokens_from.simps) (auto split: sum.splits)
  show ?case
  proof (cases "r = []")
    case True
    then show ?thesis using 1(2) r by (subst (asm) tokens_from.simps) (auto simp: wf_tokens_def)
  next
    case False
    then obtain t u us where t: "scan_token env (n - length r) r = Inr (t, u)" "tokens_from env n u = Inr us" "ts = t # us"
      using 1(2) r by (subst (asm) tokens_from.simps) (auto simp: map_sum_Inr_iff split: sum.splits)
    then show ?thesis using 1(1)[OF r False t(1) refl t(2)] by (simp add: wf_tokens_def)
  qed
qed

lemma p_program_fuel: "wf_tokens ts \<Longrightarrow> 16 * length ts + 16 \<le> n \<Longrightarrow> p_program env sh n acc ts \<noteq> Inl NoParseFuel"
proof (induction env sh n acc ts rule: p_program.induct)
  case (2 env sh n acc ts)
  have "fits 1 ts (p_statement env sh n ts)" using stmt_fits[of env sh n] 2(2,3) by (simp add: stmt_fits_def)
  then show ?case using 2 by (auto split: sum.splits)
qed simp

text \<open>
  C16. Parsing a program always ends: for every source, valid or not, the parser answers with the
  program or with what stopped it, within sixteen steps for each of its tokens and sixteen more.
\<close>

theorem parse_total: "parse env sh source \<noteq> Inl NoParseFuel"
  using p_program_fuel[OF tokens_from_wf] by (auto simp: parse_def tokens_def split: sum.split)

end
