(* ===== verification/Script_Safety.thy ===== *)
theory Script_Safety
  imports Script "HOL-Library.Sublist"
begin

text \<open>
  The containment of the script evaluator: what a run of any program leaves behind, however it
  ended.  \<open>after s h s'\<close> relates the run before, what stopped it, and the run after; it composes
  along \<^const>\<open>bind_run\<close>, so each operation is shown to keep it once.
\<close>

definition metered :: "'w run \<Rightarrow> bool" where
  "metered s \<longleftrightarrow> sum_list (map length (r_logs s)) \<le> r_logged s \<and> r_logged s \<le> b_output (r_budget s)"

definition good_run :: "'w run \<Rightarrow> bool" where
  "good_run s \<longleftrightarrow> r_scopes s \<noteq> [] \<and> metered s"

definition stop_of :: "'w halt + 'a \<Rightarrow> 'w halt option" where
  "stop_of r = (case r of Inl h \<Rightarrow> Some h | Inr _ \<Rightarrow> None)"

lemma stop_of_simps [simp]: "stop_of (Inl h) = Some h" "stop_of (Inr a) = None"
  by (simp_all add: stop_of_def)

definition after :: "'w run \<Rightarrow> 'w halt option \<Rightarrow> 'w run \<Rightarrow> bool" where
  "after s h s' \<longleftrightarrow>
     r_budget s' = r_budget s \<and> r_fuel s' \<le> r_fuel s \<and> length (r_scopes s') = length (r_scopes s)
     \<and> prefix (r_logs s) (r_logs s') \<and> metered s' \<and> h \<noteq> Some Stuck
     \<and> (\<exists>n. r_aborts s' = drop n (r_aborts s)
          \<and> (True \<in> set (take n (r_aborts s)) \<longleftrightarrow> h = Some Aborted))"

definition keeps :: "('w, 'a) ev \<Rightarrow> bool" where
  "keeps m \<longleftrightarrow> (\<forall>s. good_run s \<longrightarrow> after s (stop_of (fst (m s))) (snd (m s)))"

lemma after_refl: "good_run s \<Longrightarrow> h \<noteq> Some Stuck \<Longrightarrow> h \<noteq> Some Aborted \<Longrightarrow> after s h s"
  by (auto simp: after_def good_run_def intro!: exI[of _ 0])

lemma after_good: "after s h s' \<Longrightarrow> good_run s \<Longrightarrow> good_run s'"
  by (auto simp: after_def good_run_def)

lemma after_trans:
  assumes "after s g s1" "after s1 h s2" "g \<noteq> Some Aborted"
  shows "after s h s2"
proof -
  obtain n where n: "r_aborts s1 = drop n (r_aborts s)" "True \<notin> set (take n (r_aborts s))"
    using assms(1,3) by (auto simp: after_def)
  obtain m where m: "r_aborts s2 = drop m (r_aborts s1)"
      "True \<in> set (take m (r_aborts s1)) \<longleftrightarrow> h = Some Aborted"
    using assms(2) by (auto simp: after_def)
  have "r_aborts s2 = drop (n + m) (r_aborts s)" by (simp add: m n add.commute)
  moreover have "True \<in> set (take (n + m) (r_aborts s)) \<longleftrightarrow> h = Some Aborted"
    using m(2) n by (simp add: take_add)
  ultimately show ?thesis
    using assms(1,2) by (auto simp: after_def intro: prefix_order.trans)
qed

lemma keepsI: "(\<And>s. good_run s \<Longrightarrow> after s (stop_of (fst (m s))) (snd (m s))) \<Longrightarrow> keeps m"
  by (simp add: keeps_def)

lemma keepsD: "keeps m \<Longrightarrow> good_run s \<Longrightarrow> m s = (r, s') \<Longrightarrow> after s (stop_of r) s'"
  by (auto simp: keeps_def dest: spec[of _ s])

lemma keeps_ret [intro, simp]: "keeps (ret_val x)"
  by (auto simp: ret_val_def intro!: keepsI after_refl)

lemma keeps_fail [intro, simp]: "keeps (fail_run why)"
  by (auto simp: fail_run_def intro!: keepsI after_refl)

lemma keeps_of_sum [intro, simp]: "keeps (of_sum r)"
  by (cases r) (auto simp: of_sum_def intro!: keepsI after_refl)

lemma keeps_return [intro, simp]: "keeps (\<lambda>s. (Inl (Returned v), s))"
  by (auto intro!: keepsI after_refl)

lemma keeps_bind [intro]:
  assumes "keeps m" "\<And>a. keeps (f a)"
  shows "keeps (bind_run m f)"
proof (rule keepsI)
  fix s :: "'a run"
  assume s: "good_run s"
  obtain r s1 where m: "m s = (r, s1)" by fastforce
  note 1 = keepsD[OF assms(1) s m]
  show "after s (stop_of (fst (bind_run m f s))) (snd (bind_run m f s))"
  proof (cases r)
    case (Inr a)
    then have 1: "after s None s1" using 1 by simp
    have "after s1 (stop_of (fst (f a s1))) (snd (f a s1))"
      using assms(2)[of a] after_good[OF 1 s] by (simp add: keeps_def)
    then show ?thesis using after_trans[OF 1] by (simp add: bind_run_def m Inr)
  qed (use 1 m in \<open>simp add: bind_run_def\<close>)
qed

lemma spend_after:
  assumes "good_run s" "spend_step s = (r, s')"
  shows "after s (stop_of r) s'" "r = Inr u \<Longrightarrow> r_fuel s' < r_fuel s"
  using assms by (cases "r_aborts s";
      auto simp: spend_step_def Let_def after_def good_run_def metered_def intro!: exI[of _ "Suc 0"]
        split: if_splits)+

lemma keeps_spend [intro, simp]: "keeps spend_step"
  by (rule keepsI) (metis spend_after(1) surjective_pairing)

lemma fitting_length: "length (fitting room cs) \<le> room"
  by (induction room cs rule: fitting.induct) auto

lemma keeps_log [intro, simp]: "keeps (log_line line)"
proof (rule keepsI)
  fix s :: "'a run"
  assume "good_run s"
  then show "after s (stop_of (fst (log_line line s))) (snd (log_line line s))"
    using fitting_length[of "b_output (r_budget s) - r_logged s" "utf8_chars line"]
    by (auto simp: log_line_def Let_def after_def good_run_def metered_def intro!: exI[of _ 0])
qed

lemma after_scopes:
  "good_run s \<Longrightarrow> length scs = length (r_scopes s) \<Longrightarrow> after s None (s\<lparr>r_scopes := scs\<rparr>)"
  by (auto simp: after_def good_run_def metered_def intro!: exI[of _ 0])

lemma assign_in_length: "assign_in n v scs = Some scs' \<Longrightarrow> length scs' = length scs"
  by (induction n v scs arbitrary: scs' rule: assign_in.induct) (auto split: if_splits)

lemma keeps_assign_name [intro, simp]: "keeps (assign_name env n v)"
  by (rule keepsI) (auto simp: assign_name_def fail_run_def assign_in_length intro!: after_refl after_scopes
      split: option.split)

lemma keeps_declare [intro, simp]: "keeps (do_declare n v)"
  by (rule keepsI) (auto simp: do_declare_def declare_name_def good_run_def intro!: after_scopes)

lemma after_world: "good_run s \<Longrightarrow> h \<noteq> Some Stuck \<Longrightarrow> h \<noteq> Some Aborted \<Longrightarrow> after s h (s\<lparr>r_world := w\<rparr>)"
  by (auto simp: after_def good_run_def metered_def intro!: exI[of _ 0])

lemma keeps_call_body [intro, simp]: "keeps (call_body env n b arg)"
  by (rule keepsI) (auto simp: call_body_def intro!: after_world after_refl
      split: member.split prod.split sum.split host_answer.split)

lemma keeps_clock: "keeps (\<lambda>s. (map_sum Failed f out, clock_next_step s))"
  by (rule keepsI) (cases out; auto simp: clock_next_step_def after_def good_run_def metered_def intro!: exI[of _ 0])

lemma keeps_call_member [intro, simp]: "keeps (call_member env n b args)"
proof -
  have "keeps (\<lambda>s. (map_sum (\<lambda>why. Failed (n @ '' failed: '' @ why)) (from_json env) out, clock_next_step s))"
    for out :: "string + json"
    by (rule keepsI) (cases out; auto simp: clock_next_step_def after_def good_run_def metered_def intro!: exI[of _ 0])
  then show ?thesis by (auto simp: call_member_def)
qed

lemma keeps_call_builtin [intro, simp]: "keeps (call_builtin env n args)"
  by (auto simp: call_builtin_def)

lemma keeps_call_val [intro, simp]: "keeps (call_val env v args)"
  by (auto simp: call_val_def split: val.split)

lemma keeps_read_name [intro, simp]: "keeps (read_name env n)"
  by (rule keepsI) (auto simp: read_name_def fail_run_def intro!: after_refl split: option.split)

lemma keeps_eval:
  "keeps (eval env e :: ('w, 'w val) ev)" "keeps (eval_list env es :: ('w, 'w val list) ev)"
  "keeps (eval_entries env kes m :: ('w, 'w val) ev)"
  by (induction env e and env es and env kes m rule: eval_eval_list_eval_entries.induct)
    (auto intro!: keeps_bind)

lemma keeps_assign_to: "keeps (assign_to env e v)"
  by (induction env e v rule: assign_to.induct)
    (auto intro!: keeps_bind keeps_eval split: val.split)


lemma keeps_in_scope [intro]:
  assumes "keeps m"
  shows "keeps (in_scope m)"
proof (rule keepsI)
  fix s :: "'a run"
  assume s: "good_run s"
  obtain r s1 where m: "m (push_scope s) = (r, s1)" by fastforce
  have g: "good_run (push_scope s)" using s by (auto simp: good_run_def push_scope_def metered_def)
  have "after (push_scope s) (stop_of r) s1" by (rule keepsD[OF assms g m])
  then have "after s (stop_of r) (pop_scope s1)"
    by (auto simp: after_def push_scope_def pop_scope_def metered_def)
  then show "after s (stop_of (fst (in_scope m s))) (snd (in_scope m s))"
    by (simp add: in_scope_def m)
qed

text \<open>A loop that starts above the fuel never reaches the end of its own count.\<close>

definition keeps_loop :: "(nat \<Rightarrow> ('w, 'a) ev) \<Rightarrow> nat \<Rightarrow> bool" where
  "keeps_loop m k \<longleftrightarrow> (\<forall>s. good_run s \<and> r_fuel s < k \<longrightarrow> after s (stop_of (fst (m k s))) (snd (m k s)))"

lemma spend_bind_fuel:
  assumes "good_run s" "bind_run spend_step f s = (Inr v, s2)" "\<And>u. keeps (f u)"
  shows "r_fuel s2 < r_fuel s"
proof -
  obtain r s1 where 1: "spend_step s = (r, s1)" by fastforce
  with assms(2) obtain u where r: "r = Inr u" and f: "f u s1 = (Inr v, s2)"
    by (auto simp: bind_run_def split: sum.splits)
  have a: "after s (stop_of r) s1" by (rule spend_after(1)[OF assms(1) 1])
  have "r_fuel s1 < r_fuel s" using spend_after(2)[OF assms(1) 1] r by simp
  moreover have "r_fuel s2 \<le> r_fuel s1"
    using keepsD[OF assms(3) after_good[OF a assms(1)] f] by (simp add: after_def)
  ultimately show ?thesis by simp
qed

lemma keeps_while:
  assumes "keeps (run_block env body :: ('w, unit) ev)"
  shows "keeps_loop (\<lambda>k. run_while env k e body :: ('w, unit) ev) k"
proof (induction k)
  case (Suc k)
  have test: "keeps (bind_run spend_step (\<lambda>_. eval env e) :: ('w, 'w val) ev)" by (auto intro!: keeps_bind keeps_eval)
  show ?case
    unfolding keeps_loop_def
  proof (intro allI impI, elim conjE)
    fix s :: "'w run"
    assume s: "good_run s" and k: "r_fuel s < Suc k"
    obtain r s1 where 1: "bind_run spend_step (\<lambda>_. eval env e) s = (r, s1)" by fastforce
    have a1: "after s (stop_of r) s1" by (rule keepsD[OF test s 1])
    have g1: "good_run s1" by (rule after_good[OF a1 s])
    obtain q s2 where 2: "in_scope (run_block env body) s1 = (q, s2)" by fastforce
    have a2: "after s1 (stop_of q) s2" by (rule keepsD[OF keeps_in_scope[OF assms] g1 2])
    have g2: "good_run s2" by (rule after_good[OF a2 g1])
    show "after s (stop_of (fst (run_while env (Suc k) e body s))) (snd (run_while env (Suc k) e body s))"
    proof (cases r)
      case (Inr v)
      have f1: "r_fuel s1 < r_fuel s"
        by (rule spend_bind_fuel[OF s]) (use 1 Inr in \<open>auto intro: keeps_eval\<close>)
      have t1: "after s None s1" using a1 Inr by simp
      have t2: "after s (stop_of q) s2" by (rule after_trans[OF t1 a2]) simp
      show ?thesis
      proof (cases q)
        case (Inr u)
        have "r_fuel s2 < k" using f1 a2 k by (simp add: after_def)
        then have "after s2 (stop_of (fst (run_while env k e body s2))) (snd (run_while env k e body s2))"
          using Suc g2 unfolding keeps_loop_def by blast
        then have "after s (stop_of (fst (run_while env k e body s2))) (snd (run_while env k e body s2))"
          using after_trans t2 Inr by fastforce
        then show ?thesis using 1 2 \<open>r = Inr v\<close> Inr t1 by simp
      qed (use 1 2 Inr t1 t2 in simp)
    qed (use 1 a1 in simp)
  qed
qed (simp add: keeps_loop_def)

lemma keeps_try:
  assumes "keeps m" "\<And>why. keeps (\<lambda>s. h why s)"
  shows "keeps (\<lambda>s. case m s of (Inl (Failed why), s1) \<Rightarrow> h why s1 | other \<Rightarrow> other)"
proof (rule keepsI)
  fix s :: "'a run"
  assume s: "good_run s"
  obtain r s1 where m: "m s = (r, s1)" by fastforce
  note 1 = keepsD[OF assms(1) s m]
  show "after s (stop_of (fst (case m s of (Inl (Failed why), s1) \<Rightarrow> h why s1 | other \<Rightarrow> other)))
    (snd (case m s of (Inl (Failed why), s1) \<Rightarrow> h why s1 | other \<Rightarrow> other))"
  proof (cases "\<exists>why. r = Inl (Failed why)")
    case True
    then obtain why where r: "r = Inl (Failed why)" by blast
    have "after s1 (stop_of (fst (h why s1))) (snd (h why s1))"
      using assms(2)[of why] after_good[OF 1 s] by (simp add: keeps_def)
    then have "after s (stop_of (fst (h why s1))) (snd (h why s1))"
      using after_trans[OF 1] r by simp
    then show ?thesis by (simp add: m r)
  next
    case False
    then have "(case m s of (Inl (Failed why), s1) \<Rightarrow> h why s1 | other \<Rightarrow> other) = (r, s1)"
      by (auto simp: m split: sum.split halt.split)
    then show ?thesis using 1 by simp
  qed
qed


lemma keeps_dep: "(\<And>a. keeps (m a)) \<Longrightarrow> keeps (\<lambda>s. m (g s) s)"
  by (simp add: keeps_def)

lemma keeps_run:
  fixes s :: "'w run"
  shows "good_run s \<Longrightarrow> after s (stop_of (fst (run_statement env st s))) (snd (run_statement env st s))"
    and "good_run s \<Longrightarrow> after s (stop_of (fst (run_block env sts s))) (snd (run_block env sts s))"
proof -
  have block: "keeps (run_block env sts :: ('w, unit) ev)"
    if "\<And>st. st \<in> set sts \<Longrightarrow> keeps (run_statement env st :: ('w, unit) ev)" for sts
    using that
  proof (induction sts)
    case Nil
    have "run_block env [] = (ret_val () :: ('w, unit) ev)" by (simp add: fun_eq_iff ret_val_def)
    then show ?case by (simp only: keeps_ret)
  next
    case (Cons st sts)
    have "run_block env (st # sts) = (bind_run (run_statement env st) (\<lambda>_. run_block env sts) :: ('w, unit) ev)"
      by (auto simp: fun_eq_iff bind_run_def split: prod.split sum.split)
    then show ?case using Cons by (auto intro!: keeps_bind)
  qed
  have statement: "keeps (run_statement env st :: ('w, unit) ev)" for st
  proof (induction st)
    case (SIf e th el)
    then have "keeps (\<lambda>s. if truthy v then run_block env th s else run_block env el s :: ('w halt + unit) \<times> 'w run)" for v :: "'w val"
      using block[of th] block[of el] by (simp add: keeps_def)
    then have "keeps (bind_run spend_step (\<lambda>_. bind_run (eval env e) (\<lambda>v.
       in_scope (\<lambda>s. if truthy v then run_block env th s else run_block env el s))) :: ('w, unit) ev)"
      by (intro keeps_bind keeps_spend keeps_eval keeps_in_scope)
    then show ?case by (simp add: keeps_def)
  next
    case (STry body n handler)
    let ?h = "\<lambda>why. in_scope (\<lambda>s. bind_run (do_declare n (caught_value s why)) (\<lambda>_. run_block env handler) s)
      :: ('w, unit) ev"
    have "keeps (run_block env body :: ('w, unit) ev)" and h: "keeps (run_block env handler :: ('w, unit) ev)"
      using STry block by blast+
    then have b: "keeps (in_scope (run_block env body) :: ('w, unit) ev)" by blast
    have "keeps (\<lambda>s. bind_run (do_declare n (caught_value s why)) (\<lambda>_. run_block env handler) s
        :: ('w halt + unit) \<times> 'w run)" for why
      by (rule keeps_dep) (intro keeps_bind keeps_declare h)
    then have "keeps (\<lambda>s. ?h why s)" for why by (rule keeps_in_scope)
    from keeps_try[OF b this]
    have "keeps (bind_run spend_step (\<lambda>_ s. case in_scope (run_block env body) s of
          (Inl (Failed why), s1) \<Rightarrow> ?h why s1 | other \<Rightarrow> other))"
      by (intro keeps_bind keeps_spend)
    then show ?case by (simp add: keeps_def)
  next
    case (SWhile e body)
    then have "keeps (run_block env body :: ('w, unit) ev)" using block by blast
    then have "keeps (\<lambda>s. run_while env (r_fuel s + 1) e body s :: ('w halt + unit) \<times> 'w run)"
      using keeps_while unfolding keeps_def keeps_loop_def by fastforce
    then have "keeps (bind_run spend_step (\<lambda>_ s. run_while env (r_fuel s + 1) e body s) :: ('w, unit) ev)"
      by (intro keeps_bind keeps_spend)
    then show ?case by (simp add: keeps_def)
  next
    case (SReturn eo)
    have "keeps (bind_run spend_step (\<lambda>_. case eo of
         None \<Rightarrow> (\<lambda>s. (Inl (Returned VNull), s))
       | Some e \<Rightarrow> bind_run (eval env e) (\<lambda>v s. (Inl (Returned v), s))) :: ('w, unit) ev)"
      by (auto intro!: keeps_bind keeps_eval split: option.split)
    then show ?case by (simp add: keeps_def)
  next
    case (SLet n e)
    have "keeps (bind_run spend_step (\<lambda>_. bind_run (eval env e) (do_declare n)) :: ('w, unit) ev)"
      by (intro keeps_bind keeps_spend keeps_eval keeps_declare)
    then show ?case by (simp add: keeps_def)
  next
    case (SAssign t e)
    have "keeps (bind_run spend_step (\<lambda>_. bind_run (eval env e) (assign_to env t)) :: ('w, unit) ev)"
      by (intro keeps_bind keeps_spend keeps_eval keeps_assign_to)
    then show ?case by (simp add: keeps_def)
  next
    case (SEval e)
    have "keeps (bind_run spend_step (\<lambda>_. bind_run (eval env e) (\<lambda>_. ret_val ())) :: ('w, unit) ev)"
      by (intro keeps_bind keeps_spend keeps_eval keeps_ret)
    then show ?case by (simp add: keeps_def)
  qed
  show "good_run s \<Longrightarrow> after s (stop_of (fst (run_statement env st s))) (snd (run_statement env st s))"
    using statement by (simp add: keeps_def)
  show "good_run s \<Longrightarrow> after s (stop_of (fst (run_block env sts s))) (snd (run_block env sts s))"
    using block[of sts] statement by (simp add: keeps_def)
qed

end
