(* ===== verification/Script_Run.thy ===== *)
theory Script_Run
  imports Script_Total Script_Safety Tools
begin

text \<open>
  One run of a program on the local runtime: the names a caller's namespaces may have
  (\<^verbatim>\<open>crates/coderuntime/src/reserved.rs\<close>, \<^verbatim>\<open>types.rs\<close>), the evaluation on the worker and what
  becomes of a worker that dies (\<^verbatim>\<open>local/mod.rs\<close>), and the tool the model calls it through
  (\<^verbatim>\<open>tool.rs\<close>).
\<close>

section \<open>Names\<close>

definition is_portable_identifier :: "string \<Rightarrow> bool" where
  "is_portable_identifier n = (case n of [] \<Rightarrow> False | c # cs \<Rightarrow> word_start c \<and> list_all word_char cs)"

definition RESERVED_BINDING_GLOBALS :: "string list" where
  "RESERVED_BINDING_GLOBALS =
     [''console'', ''__dsh_main__'', ''__builtins__'', ''__name__'', ''__debug__'']"

definition PORTABLE_RESERVED_WORDS :: "string list" where
  "PORTABLE_RESERVED_WORDS =
     [''await'', ''break'', ''case'', ''catch'', ''class'', ''const'', ''continue'', ''debugger'', ''default'',
      ''delete'', ''do'', ''else'', ''enum'', ''export'', ''extends'', ''false'', ''finally'', ''for'', ''function'',
      ''if'', ''import'', ''in'', ''instanceof'', ''new'', ''null'', ''return'', ''super'', ''switch'', ''this'',
      ''throw'', ''true'', ''try'', ''typeof'', ''var'', ''void'', ''while'', ''with'', ''yield'', ''let'', ''static'',
      ''implements'', ''interface'', ''package'', ''private'', ''protected'', ''public'', ''arguments'', ''eval'',
      ''False'', ''None'', ''True'', ''and'', ''as'', ''assert'', ''async'', ''def'', ''del'', ''elif'', ''except'',
      ''from'', ''global'', ''is'', ''lambda'', ''nonlocal'', ''not'', ''or'', ''pass'', ''raise'', ''match'',
      ''type'', ''_'']"

definition RESERVED_ERROR_MEMBERS :: "string list" where
  "RESERVED_ERROR_MEMBERS = [''name'', ''message'', ''stack'', ''args'', ''with_traceback'', ''add_note'']"

definition is_dunder :: "string \<Rightarrow> bool" where
  "is_dunder n \<longleftrightarrow> length n > 4 \<and> take 2 n = ''__'' \<and> drop (length n - 2) n = ''__''"

definition check_global :: "(string \<Rightarrow> string) \<Rightarrow> string \<Rightarrow> string + unit" where
  "check_global debug g =
     (if g = [] then Inl ''a namespace needs a name''
      else if \<not> is_portable_identifier g then
        Inl (''a namespace global is a portable identifier ([A-Za-z_][A-Za-z0-9_]*), and '' @ debug g
          @ '' is not one on every target language'')
      else if g \<in> set RESERVED_BINDING_GLOBALS then Inl (debug g @ '' is a slot a backend owns'')
      else if g \<in> set PORTABLE_RESERVED_WORDS then
        Inl (debug g @ '' is a reserved word in a language this seam promises to be portable to'')
      else Inr ())"

definition check_error_member :: "(string \<Rightarrow> string) \<Rightarrow> string \<Rightarrow> string + unit" where
  "check_error_member debug m =
     (if m = [] then Inl ''an error member needs a name''
      else if is_dunder m then Inl (debug m @ '' is dunder-form, which is an object-protocol slot in Python'')
      else if m \<in> set RESERVED_ERROR_MEMBERS then
        Inl (debug m @ '' belongs to the error protocol of a target language'')
      else Inr ())"

datatype seam_error =
    BadNamespace string string
  | DuplicateNamespace string
  | Unsupported string string

definition seam_text :: "(string \<Rightarrow> string) \<Rightarrow> seam_error \<Rightarrow> string" where
  "seam_text debug x =
     (case x of
        BadNamespace g why \<Rightarrow> ''binding namespace '' @ debug g @ '' cannot be exposed: '' @ why
      | DuplicateNamespace g \<Rightarrow> ''two binding namespaces are both called '' @ debug g
      | Unsupported r why \<Rightarrow> r @ '' cannot run this request: '' @ why)"

definition check_shape :: "(string \<Rightarrow> string) \<Rightarrow> 'w namespace \<Rightarrow> seam_error + unit" where
  "check_shape debug ns =
     (case ns_error_shape ns of
        None \<Rightarrow> Inr ()
      | Some (nm, property) \<Rightarrow>
          (case check_global debug nm of
             Inl why \<Rightarrow> Inl (BadNamespace (ns_global ns)
               (''its failure name '' @ debug nm @ '' cannot be used: '' @ why))
           | Inr _ \<Rightarrow> map_sum (BadNamespace (ns_global ns)) id (check_error_member debug property)))"

fun check_from :: "(string \<Rightarrow> string) \<Rightarrow> string list \<Rightarrow> 'w namespace list \<Rightarrow> seam_error + unit" where
  "check_from debug seen [] = Inr ()"
| "check_from debug seen (ns # nss) =
     (case check_global debug (ns_global ns) of
        Inl why \<Rightarrow> Inl (BadNamespace (ns_global ns) why)
      | Inr _ \<Rightarrow>
          if ns_global ns \<in> set seen then Inl (DuplicateNamespace (ns_global ns))
          else (case check_shape debug ns of
              Inl x \<Rightarrow> Inl x
            | Inr _ \<Rightarrow> check_from debug (ns_global ns # seen) nss))"

definition check_bindings :: "(string \<Rightarrow> string) \<Rightarrow> 'w namespace list \<Rightarrow> seam_error + unit" where
  "check_bindings debug bs = check_from debug [] bs"

section \<open>The result of a run\<close>

datatype failure_kind = KException | KTimeout | KAbort | KWorkerExit | KInvalidOutput | KOutputLimit

fun kind_str :: "failure_kind \<Rightarrow> string" where
  "kind_str KException = ''exception''"
| "kind_str KTimeout = ''timeout''"
| "kind_str KAbort = ''abort''"
| "kind_str KWorkerExit = ''worker-exit''"
| "kind_str KInvalidOutput = ''invalid-output''"
| "kind_str KOutputLimit = ''output-limit''"

record run_result =
  rr_value :: "json option"
  rr_logs :: "string list"
  rr_error :: "(failure_kind \<times> string) option"

definition failed_result :: "failure_kind \<Rightarrow> string \<Rightarrow> run_result" where
  "failed_result k why = \<lparr>rr_value = None, rr_logs = [], rr_error = Some (k, why)\<rparr>"

definition halt_kind :: "'w halt \<Rightarrow> failure_kind" where
  "halt_kind h =
     (case h of OutOfBudget _ \<Rightarrow> KTimeout | Aborted \<Rightarrow> KAbort | Overflow _ \<Rightarrow> KOutputLimit | _ \<Rightarrow> KException)"

definition halt_message :: "'w halt \<Rightarrow> string" where
  "halt_message h =
     (case h of Script.halt.Failed why \<Rightarrow> why | OutOfBudget why \<Rightarrow> why | Overflow why \<Rightarrow> why
      | Aborted \<Rightarrow> ''the run was aborted'' | _ \<Rightarrow> ''the program returned'')"

definition run_program ::
  "script_env \<Rightarrow> stmt list \<Rightarrow> 'w run \<Rightarrow> ('w halt + 'w val option) \<times> 'w run"
where
  "run_program env p s =
     (case run_block env p s of
        (Inr _, s1) \<Rightarrow> (Inr None, s1)
      | (Inl (Returned v), s1) \<Rightarrow> (Inr (Some v), s1)
      | (Inl other, s1) \<Rightarrow> (Inl other, s1))"

definition ledger :: "script_env \<Rightarrow> run_result \<Rightarrow> nat" where
  "ledger env r =
     sum_list (map length (rr_logs r)) + (case rr_value r of None \<Rightarrow> 0 | Some j \<Rightarrow> length (se_json env j))"

definition over_cap :: "script_env \<Rightarrow> run_result \<Rightarrow> nat \<Rightarrow> run_result option" where
  "over_cap env r cap =
     (if ledger env r > cap then
        Some ((failed_result KOutputLimit
          (''the program's output and value are '' @ show_nat (ledger env r) @ '' bytes together, past the ''
            @ show_nat cap @ '' byte cap''))\<lparr>rr_logs := rr_logs r\<rparr>)
      else None)"

definition finished :: "script_env \<Rightarrow> nat \<Rightarrow> ('w halt + 'w val option) \<times> 'w run \<Rightarrow> run_result" where
  "finished env cap out =
     (let logs = r_logs (snd out) in
      case fst out of
        Inl h \<Rightarrow> (failed_result (halt_kind h) (halt_message h))\<lparr>rr_logs := logs\<rparr>
      | Inr v \<Rightarrow>
          (case (case v of None \<Rightarrow> Inr None | Some v \<Rightarrow> map_sum id Some (to_json env v)) of
             Inl why \<Rightarrow> (failed_result KInvalidOutput (''the program's value cannot be returned: '' @ why))\<lparr>rr_logs := logs\<rparr>
           | Inr j \<Rightarrow>
               (let r = \<lparr>rr_value = j, rr_logs = logs, rr_error = None\<rparr> in
                case over_cap env r cap of Some over \<Rightarrow> over | None \<Rightarrow> r)))"

text \<open>
  What a panic on the worker becomes; \<open>slice_fault\<close> is the standard library's message of a slice
  off a boundary.
\<close>

definition worker_panic :: "payload \<Rightarrow> run_result" where
  "worker_panic p = failed_result KWorkerExit (''the worker running this program panicked: '' @ tool_fault p)"

definition evaluate ::
  "script_env \<Rightarrow> (tok \<Rightarrow> string) \<Rightarrow> payload \<Rightarrow> budget \<Rightarrow> 'w namespace list \<Rightarrow> bool list \<Rightarrow> nat list
   \<Rightarrow> string \<Rightarrow> 'w \<Rightarrow> run_result \<times> 'w"
where
  "evaluate env sh slice_fault b bs stops clock program w =
     (case parse env sh program of
        Inl (LexFailed SliceOffBoundary) \<Rightarrow> (worker_panic slice_fault, w)
      | Inl (LexFailed (Unreadable why)) \<Rightarrow> (failed_result KException (''the program does not parse: '' @ why), w)
      | Inl (Misread why) \<Rightarrow> (failed_result KException (''the program does not parse: '' @ why), w)
      | Inl NoParseFuel \<Rightarrow> (failed_result KException [], w)
      | Inr p \<Rightarrow>
          (let out = run_program env p (new_run b bs True stops clock w) in
           (case fst out of Inl (Panicked payload) \<Rightarrow> worker_panic payload | _ \<Rightarrow> finished env (b_output b) out,
            r_world (snd out))))"

text \<open>
  What the async side waits for: the worker's answer, the worker gone without one, or the outer
  ceiling.  Host calls are served while it waits, inside the members of the model.
\<close>

datatype settled = AnsweredBy run_result | WorkerGone | CeilingPassed

definition settle :: "nat \<Rightarrow> settled \<Rightarrow> run_result" where
  "settle reap_grace x =
     (case x of
        AnsweredBy r \<Rightarrow> r
      | WorkerGone \<Rightarrow> failed_result KWorkerExit ''the worker running this program stopped without answering''
      | CeilingPassed \<Rightarrow> failed_result KTimeout
          (''the run did not end within '' @ show_nat (reap_grace div 1000000)
            @ ''ms of its ceiling; a host binding is not returning''))"

text \<open>
  \<^verbatim>\<open>LocalRuntime::run\<close>.  The flags are read once each before a worker starts; \<open>spawned\<close> says
  whether the thread could be started, and \<open>waited\<close> what the wait saw, given the worker's result.
\<close>

definition LANGUAGE :: string where
  "LANGUAGE = ''tetanus-script''"

definition run_local ::
  "script_env \<Rightarrow> (tok \<Rightarrow> string) \<Rightarrow> payload \<Rightarrow> budget \<Rightarrow> nat \<Rightarrow> bool \<Rightarrow> bool \<Rightarrow> string option
   \<Rightarrow> (run_result \<Rightarrow> settled) \<Rightarrow> 'w namespace list \<Rightarrow> bool list \<Rightarrow> nat list \<Rightarrow> string \<Rightarrow> 'w
   \<Rightarrow> (seam_error + run_result) \<times> 'w"
where
  "run_local env sh slice_fault b reap_grace closing aborted spawn_fault waited bs stops clock program w =
     (case check_bindings (se_quote env) bs of
        Inl x \<Rightarrow> (Inl x, w)
      | Inr _ \<Rightarrow>
          if closing then (Inl (Unsupported LANGUAGE ''this runtime has been shut down''), w)
          else if aborted then (Inr (failed_result KAbort ''the run was aborted before it started''), w)
          else (case spawn_fault of
              Some source \<Rightarrow> (Inl (Unsupported LANGUAGE (''a worker thread could not be started: '' @ source)), w)
            | None \<Rightarrow>
                (let (r, w1) = evaluate env sh slice_fault b bs stops clock program w
                 in (Inr (settle reap_grace (waited r)), w1))))"

section \<open>The tool\<close>

definition render_result :: "script_env \<Rightarrow> nat \<Rightarrow> run_result \<Rightarrow> nat \<Rightarrow> string" where
  "render_result env max_chars r ms =
     (let out =
        (case rr_error r of None \<Rightarrow> [] | Some (k, why) \<Rightarrow> ''['' @ kind_str k @ ''] '' @ why @ [newline])
        @ (case rr_value r of
             Some j \<Rightarrow> ''value: '' @ se_json env j @ [newline]
           | None \<Rightarrow> if rr_error r = None then ''value: (the program returned nothing)'' @ [newline] else [])
        @ (if rr_logs r \<noteq> [] then ''logs:'' @ [newline] @ concat (map (\<lambda>l. ''  '' @ l @ [newline]) (rr_logs r)) else [])
        @ ''ran in '' @ show_nat ms @ ''ms'' in
      if char_count out \<le> max_chars then out
      else take_chars max_chars out @ [newline] @ ''[the result was longer than this tool returns]'')"

definition RUN_CODE :: string where
  "RUN_CODE = ''run_code''"

definition run_code_program :: "json \<Rightarrow> tool_error + string" where
  "run_code_program args =
     (case Option.bind (jget args ''program'') as_str of
        None \<Rightarrow> Inl (InvalidArguments RUN_CODE ''`program` is required'')
      | Some p \<Rightarrow>
          if trim p \<noteq> [] then Inr p
          else Inl (InvalidArguments RUN_CODE ''`program` is empty; there is nothing to run''))"

definition run_code_outcome ::
  "script_env \<Rightarrow> nat \<Rightarrow> nat \<Rightarrow> seam_error + run_result \<Rightarrow> tool_error + tool_outcome"
where
  "run_code_outcome env max_chars ms r =
     (case r of
        Inl misuse \<Rightarrow> Inl (ToolFailed RUN_CODE (''[seam] '' @ seam_text (se_quote env) misuse))
      | Inr r \<Rightarrow>
          if rr_error r = None then Inr (outcome_ok (render_result env max_chars r ms))
          else Inl (ToolFailed RUN_CODE (render_result env max_chars r ms)))"

text \<open>
  A member that is one of the harness's own tools calls the registry: its arguments are the
  program's, and a tool that ran and said no is a value.
\<close>

definition tool_member :: "(string \<Rightarrow> string) \<Rightarrow> 'w registry \<Rightarrow> string \<Rightarrow> 'w member" where
  "tool_member debug reg n =
     Host (\<lambda>arg w.
       (let (r, w1) = execute_tool reg \<lparr>tc_id = ''program:'' @ n, tc_name = n, tc_args = arg\<rparr> w in
        (HostSaid (case r of
             Inr out \<Rightarrow> Inr (jobj [(''ok'', JBool (o_ok out)), (''content'', JStr (o_content out))])
           | Inl refused \<Rightarrow> Inl (tool_error_text debug refused)), w1)))"

fun offer_tools ::
  "(string \<Rightarrow> string) \<Rightarrow> 'w registry \<Rightarrow> string list \<Rightarrow> (string, 'w member) omap
   \<Rightarrow> seam_error + (string, 'w member) omap"
where
  "offer_tools debug reg [] m = Inr m"
| "offer_tools debug reg (n # ns) m =
     (if n = RUN_CODE then
        Inl (Unsupported RUN_CODE (RUN_CODE @ '' cannot be offered to the programs it runs: a program that can call it can nest runs without end''))
      else if map_of reg n = None then
        Inl (Unsupported RUN_CODE (''no tool called '' @ debug n @ '' to offer a program; registered: ''
          @ join '', '' (tool_names reg)))
      else offer_tools debug reg ns (om_insert n (tool_member debug reg n) m))"

definition tools_namespace ::
  "(string \<Rightarrow> string) \<Rightarrow> string \<Rightarrow> 'w registry \<Rightarrow> string list \<Rightarrow> seam_error + 'w namespace"
where
  "tools_namespace debug g reg offered =
     map_sum id (\<lambda>m. \<lparr>ns_global = g, ns_functions = m, ns_error_shape = None\<rparr>) (offer_tools debug reg offered [])"

section \<open>What a run is held to\<close>

lemma good_new_run: "good_run (new_run b bs bridge stops clock w)"
  by (simp add: good_run_def metered_def new_run_def)

text \<open>
  C15. No program escapes its run: it is never stuck in a loop the budget does not end, its fuel
  only falls, the scopes it opened are closed again, its logs stay within the output cap, and a
  stop flag it read as set is the end of it: the run is reported as aborted exactly when one of
  the readings of the flag said so, whatever \<^verbatim>\<open>try\<close> the program wrote around itself.
\<close>

theorem script_contained:
  fixes w :: 'w
  shows "case run_block env p (new_run b bs bridge stops clock w) of
    (r, s) \<Rightarrow> r \<noteq> Inl Stuck \<and> r_fuel s \<le> b_fuel b \<and> length (r_scopes s) = Suc 0
      \<and> sum_list (map length (r_logs s)) \<le> b_output b
      \<and> (\<exists>n. r_aborts s = drop n stops \<and> (True \<in> set (take n stops) \<longleftrightarrow> r = Inl Aborted))"
proof (cases "run_block env p (new_run b bs bridge stops clock w)")
  case (Pair r s)
  have "after (new_run b bs bridge stops clock w) (stop_of r) s"
    using keeps_run(2)[OF good_new_run[of b bs bridge stops clock w], of env p] Pair by simp
  then show ?thesis
    unfolding Pair prod.case
    by (cases r) (auto simp: after_def metered_def new_run_def)
qed

text \<open>
  Only a failure of the program can be caught: whatever else ends the body of a \<^verbatim>\<open>try\<close> - its
  budget, an abort, a full ledger, a return, a panic - ends the statement, and no handler runs.
\<close>

theorem only_failures_are_caught:
  "spend_step s = (Inr (), s1) \<Longrightarrow> in_scope (run_block env body) s1 = (Inl h, s2)
   \<Longrightarrow> (\<And>why. h \<noteq> Script.halt.Failed why) \<Longrightarrow> run_statement env (STry body name handler) s = (Inl h, s2)"
  by (cases h) (auto simp: bind_run_def)

theorem only_failures_are_caught_witness:
  "\<exists>why s2. run_statement plain_env (STry [SEval ENull] ''e'' [])
     (new_run \<lparr>b_fuel = Suc 0, b_wall = 0, b_output = 0\<rparr> [] False [] [] ()) = (Inl (OutOfBudget why), s2)"
proof -
  define s where "s = new_run \<lparr>b_fuel = Suc 0, b_wall = 0, b_output = 0\<rparr> [] False [] [] ()"
  have "case spend_step s of (r, s1) \<Rightarrow> (case r of Inr _ \<Rightarrow> True | Inl _ \<Rightarrow> False)
      \<and> (case in_scope (run_block plain_env [SEval ENull]) s1 of (Inl (OutOfBudget why), s2) \<Rightarrow> True | _ \<Rightarrow> False)"
    unfolding s_def by code_simp
  then obtain s1 why s2 where "spend_step s = (Inr (), s1)"
      "in_scope (run_block plain_env [SEval ENull]) s1 = (Inl (OutOfBudget why), s2)"
    by (auto split: prod.splits sum.splits halt.splits)
  from only_failures_are_caught[OF this] show ?thesis unfolding s_def by blast
qed

lemma run_program_after:
  "good_run s \<Longrightarrow> metered (snd (run_program env p s)) \<and> r_budget (snd (run_program env p s)) = r_budget s"
  using keeps_run(2)[of s env p]
  by (auto simp: run_program_def after_def split: prod.split sum.split halt.split)

lemma finished_ledger:
  "sum_list (map length (r_logs (snd out))) \<le> cap \<Longrightarrow> ledger env (finished env cap out) \<le> cap"
  by (auto simp: finished_def Let_def over_cap_def ledger_def failed_result_def split: sum.split option.split)

lemma failed_ledger [simp]: "ledger env (failed_result k why) = 0" "ledger env (worker_panic p) = 0"
  by (simp_all add: ledger_def failed_result_def worker_panic_def)

text \<open>
  C17. The logs and the value are one ledger: what a run hands back, whichever way the program ended,
  never holds more bytes of logs and value together than the output cap, and it carries a value only
  when it carries no failure.
\<close>

theorem output_ledger_holds:
  "ledger env (fst (evaluate env sh fault b bs stops clock program w)) \<le> b_output b
   \<and> (rr_value (fst (evaluate env sh fault b bs stops clock program w)) = None
      \<or> rr_error (fst (evaluate env sh fault b bs stops clock program w)) = None)"
proof -
  have "ledger env (finished env (b_output b) (run_program env p (new_run b bs True stops clock w))) \<le> b_output b" for p
    using run_program_after[OF good_new_run[of b bs True stops clock w], of env p]
    by (intro finished_ledger) (auto simp: metered_def new_run_def)
  moreover have "rr_value (finished env cap out) = None \<or> rr_error (finished env cap out) = None"
    for cap and out :: "('a halt + 'a val option) \<times> 'a run"
    by (auto simp: finished_def Let_def over_cap_def failed_result_def split: sum.split option.split)
  moreover have "rr_value (failed_result k why) = None" "rr_value (worker_panic q) = None" for k why q
    by (simp_all add: failed_result_def worker_panic_def)
  ultimately show ?thesis
    by (auto simp: evaluate_def Let_def split: sum.split parse_error.split lex_error.split halt.split)
qed

section \<open>What fuel does not bound\<close>

text \<open>A program of \<open>n\<close> doublings.\<close>

definition doubling :: "nat \<Rightarrow> stmt list" where
  "doubling n = SLet ''x'' (EList [ENull])
     # replicate n (SAssign (EName ''x'') (EBinary ''+'' (EName ''x'') (EName ''x'')))"

definition holds_nulls :: "nat \<Rightarrow> nat \<Rightarrow> 'w run \<Rightarrow> bool" where
  "holds_nulls k fuel s \<longleftrightarrow> r_aborts s = [] \<and> r_clock s = [] \<and> r_fuel s = fuel
     \<and> (\<exists>sc. r_scopes s = [sc] \<and> map_of sc ''x'' = Some (VList (replicate k VNull)))"

lemma calm_spend:
  "r_aborts s = [] \<Longrightarrow> r_clock s = [] \<Longrightarrow> 0 < r_fuel s \<Longrightarrow>
   \<exists>n. spend_step s = (Inr (), s\<lparr>r_fuel := r_fuel s - 1, r_since := n\<rparr>)"
  by (cases s, cases "Suc (r_since s) < CLOCK_EVERY") (auto simp: spend_step_def Let_def)


lemma holds_spend:
  "holds_nulls k (Suc f) s \<Longrightarrow> \<exists>s1. spend_step s = (Inr (), s1) \<and> holds_nulls k f s1"
  using calm_spend[of s] by (fastforce simp: holds_nulls_def)

lemma eval_x:
  assumes "holds_nulls k (Suc f) s"
  shows "\<exists>s1. eval env (EName ''x'') s = (Inr (VList (replicate k VNull)), s1) \<and> holds_nulls k f s1"
proof -
  obtain s1 where 1: "spend_step s = (Inr (), s1)" "holds_nulls k f s1" using holds_spend[OF assms] by blast
  then show ?thesis by (auto simp: bind_run_def read_name_def holds_nulls_def)
qed

lemma double_list:
  "binary_val env ''+'' (VList (replicate k VNull)) (VList (replicate k VNull)) = Inr (VList (replicate (2 * k) VNull))"
  by (simp add: binary_val_def replicate_add[symmetric] mult_2)

lemma double_x:
  assumes "holds_nulls k (f + 4) s"
  shows "\<exists>s1. run_statement env (SAssign (EName ''x'') (EBinary ''+'' (EName ''x'') (EName ''x''))) s = (Inr (), s1)
     \<and> holds_nulls (2 * k) f s1"
proof -
  obtain s1 where 1: "spend_step s = (Inr (), s1)" "holds_nulls k (f + 3) s1"
    using holds_spend[of k "f + 3" s] assms by (auto simp: eval_nat_numeral)
  obtain s2 where 2: "spend_step s1 = (Inr (), s2)" "holds_nulls k (f + 2) s2"
    using holds_spend[of k "f + 2" s1] 1(2) by (auto simp: eval_nat_numeral)
  obtain s3 where 3: "eval env (EName ''x'') s2 = (Inr (VList (replicate k VNull)), s3)" "holds_nulls k (f + 1) s3"
    using eval_x[of k "f + 1" s2] 2(2) by (auto simp: eval_nat_numeral)
  obtain s4 where 4: "eval env (EName ''x'') s3 = (Inr (VList (replicate k VNull)), s4)" "holds_nulls k f s4"
    using eval_x[of k f s3] 3(2) by auto
  have e: "eval env (EBinary ''+'' (EName ''x'') (EName ''x'')) s1 = (Inr (VList (replicate (2 * k) VNull)), s4)"
    using 2(1) 3(1) 4(1) by (simp add: double_list bind_run_def of_sum_def del: eval.simps(5))
  from 4(2) obtain sc where sc: "r_scopes s4 = [sc]" "map_of sc ''x'' = Some (VList (replicate k VNull))"
    by (auto simp: holds_nulls_def)
  show ?thesis
    using 1(1) e 4(2) sc by (auto simp: bind_run_def assign_name_def holds_nulls_def simp del: eval.simps)
qed

text \<open>
  The compute budget counts steps, not work: after \<open>n\<close> doublings, which take four steps each, a
  program holds a list of two to the \<open>n\<close> values.
\<close>

theorem fuel_does_not_bound_memory:
  assumes "4 * n + 3 \<le> b_fuel b"
  shows "\<exists>s. run_block env (doubling n) (new_run b bs bridge [] [] w) = (Inr (), s)
     \<and> lookup_in (r_scopes s) ''x'' = Some (VList (replicate (2 ^ n) VNull))
     \<and> r_fuel s + (4 * n + 3) = b_fuel b"
proof -
  obtain f where f: "b_fuel b = f + (4 * n + 3)" using assms by (metis le_Suc_ex add.commute)
  have more: "\<exists>s1. run_block env (replicate n (SAssign (EName ''x'') (EBinary ''+'' (EName ''x'') (EName ''x'')))) s = (Inr (), s1)
      \<and> holds_nulls (k * 2 ^ n) f s1" if "holds_nulls k (f + 4 * n) s" for k n and s :: "'a run"
    using that
  proof (induction n arbitrary: k s)
    case (Suc n)
    obtain s1 where 1: "run_statement env (SAssign (EName ''x'') (EBinary ''+'' (EName ''x'') (EName ''x''))) s = (Inr (), s1)"
        "holds_nulls (2 * k) (f + 4 * n) s1"
      using double_x[of k "f + 4 * n" s env] Suc(2) by (auto simp: algebra_simps)
    then show ?case using Suc(1)[OF 1(2)] by (auto simp: algebra_simps simp del: run_statement.simps)
  qed simp
  define s0 :: "'a run" where "s0 = new_run b bs bridge [] [] w"
  have s0: "r_aborts s0 = []" "r_clock s0 = []" "r_fuel s0 = b_fuel b" "r_scopes s0 = [root_scope bs]"
    by (simp_all add: s0_def new_run_def)
  have spend: "\<exists>s'. spend_step s = (Inr (), s') \<and> r_aborts s' = [] \<and> r_clock s' = [] \<and> r_fuel s' = m \<and> r_scopes s' = r_scopes s"
    if "r_aborts s = []" "r_clock s = []" "r_fuel s = Suc m" for m and s :: "'a run"
    using calm_spend[of s] that by fastforce
  obtain s1 where 1: "spend_step s0 = (Inr (), s1)" "r_aborts s1 = []" "r_clock s1 = []" "r_fuel s1 = f + 4 * n + 2"
      "r_scopes s1 = [root_scope bs]"
    using spend[of s0 "f + 4 * n + 2"] s0 f by auto
  obtain s2 where 2: "spend_step s1 = (Inr (), s2)" "r_aborts s2 = []" "r_clock s2 = []" "r_fuel s2 = f + 4 * n + 1"
      "r_scopes s2 = [root_scope bs]"
    using spend[of s1 "f + 4 * n + 1"] 1 by auto
  obtain s3 where 3: "spend_step s2 = (Inr (), s3)" "r_aborts s3 = []" "r_clock s3 = []" "r_fuel s3 = f + 4 * n"
      "r_scopes s3 = [root_scope bs]"
    using spend[of s2 "f + 4 * n"] 2 by auto
  define s4 where "s4 = declare_name ''x'' (VList [VNull]) s3"
  have "holds_nulls 1 (f + 4 * n) s4" using 3 by (simp add: s4_def holds_nulls_def declare_name_def)
  from more[OF this] obtain s5 where
    5: "run_block env (replicate n (SAssign (EName ''x'') (EBinary ''+'' (EName ''x'') (EName ''x'')))) s4 = (Inr (), s5)"
      "holds_nulls (2 ^ n) f s5" by auto
  have "run_statement env (SLet ''x'' (EList [ENull])) s0 = (Inr (), s4)"
    using 1(1) 2(1) 3(1) by (simp add: bind_run_def ret_val_def do_declare_def s4_def)
  then have "run_block env (doubling n) s0 = (Inr (), s5)"
    using 5(1) by (simp add: doubling_def del: run_statement.simps)
  moreover have "lookup_in (r_scopes s5) ''x'' = Some (VList (replicate (2 ^ n) VNull))" "r_fuel s5 = f"
    using 5(2) by (auto simp: holds_nulls_def)
  ultimately show ?thesis using f unfolding s0_def by auto
qed


section \<open>Places and names\<close>

text \<open>
  Reading a list at a negative position fails, and assigning there replaces its first element: the
  assignment reads the position with a saturating cast and checks only the far end.
\<close>

theorem negative_index_writes_the_front:
  assumes "eval env i s = (Inr (VNum (Fin q)), s1)" "q < 0" "eval env (EName n) s1 = (Inr (VList xs), s2)" "xs \<noteq> []"
  shows "assign_to env (EIndex (EName n) i) v s = assign_name env n (VList (xs[0 := v])) s2
     \<and> (\<exists>why. index_into env (VList xs) (VNum (Fin q)) = Inl why)"
proof -
  have "as_usize (Fin q) = 0" using assms(2) as_usize_negative[of q] by simp
  then show ?thesis
    using assms by (simp add: bind_run_def index_into_def del: eval.simps as_usize.simps f_whole.simps)
qed

text \<open>A namespace that has the name of a builtin is accepted, and the program never sees it.\<close>

theorem builtin_shadows_namespace:
  assumes "g \<in> set BUILTINS"
  shows "check_bindings debug [\<lparr>ns_global = g, ns_functions = ms, ns_error_shape = None\<rparr>] = Inr ()
     \<and> lookup_in [root_scope [\<lparr>ns_global = g, ns_functions = ms, ns_error_shape = None\<rparr>]] g = Some (VBuiltin g)"
proof
  show "lookup_in [root_scope [\<lparr>ns_global = g, ns_functions = ms, ns_error_shape = None\<rparr>]] g = Some (VBuiltin g)"
    using assms by (auto simp: BUILTINS_def root_scope_def)
  have "is_portable_identifier g \<and> g \<notin> set RESERVED_BINDING_GLOBALS \<and> g \<notin> set PORTABLE_RESERVED_WORDS \<and> g \<noteq> []"
    using assms
    by (auto simp: BUILTINS_def is_portable_identifier_def word_start_def word_char_def byte_in_def
        RESERVED_BINDING_GLOBALS_def PORTABLE_RESERVED_WORDS_def)
  then show "check_bindings debug [\<lparr>ns_global = g, ns_functions = ms, ns_error_shape = None\<rparr>] = Inr ()"
    by (simp add: check_bindings_def check_global_def check_shape_def)
qed

text \<open>A tool called by a program is never asked whether the call needs a decision.\<close>

theorem program_skips_permission:
  "tool_member debug (om_insert n (t\<lparr>tl_permission := p\<rparr>) reg) n = tool_member debug (om_insert n t reg) n"
  by (auto simp: tool_member_def execute_tool_def fun_eq_iff)

text \<open>
  A statement that is a block of its own is read as the start of a map, and refused.
\<close>

theorem bare_block_refused:
  "parse plain_env (\<lambda>_. []) ''{ x = 1; }'' = Inl (Misread ''expected : at offset 4, found '')"
  by code_simp

lemma error_properties_from:
  "map_of (error_properties bs) m = Some p \<Longrightarrow> \<exists>ns\<in>set bs. \<exists>nm. ns_error_shape ns = Some (nm, p)"
proof -
  have one: "map_of (fold (\<lambda>k. om_insert k q) ks e) m = Some p \<Longrightarrow> p = q \<or> map_of e m = Some p" for ks e q
    by (induction ks arbitrary: e) (fastforce split: if_splits)+
  have "map_of (fold (\<lambda>ns e. case ns_error_shape ns of
         None \<Rightarrow> e
       | Some (_, p) \<Rightarrow> fold (\<lambda>k. om_insert k p) (map fst (ns_functions ns)) e) bs e) m = Some p
     \<Longrightarrow> map_of e m = Some p \<or> (\<exists>ns\<in>set bs. \<exists>nm. ns_error_shape ns = Some (nm, p))" for e
  proof (induction bs arbitrary: e)
    case (Cons ns bs)
    show ?case
    proof (cases "ns_error_shape ns")
      case None
      then show ?thesis using Cons by auto
    next
      case (Some q)
      obtain nm r where q: "q = (nm, r)" by fastforce
      show ?thesis using Cons(1)[of "fold (\<lambda>k. om_insert k r) (map fst (ns_functions ns)) e"] Cons(2) one[of r "map fst (ns_functions ns)" e]
        by (auto simp: Some q)
    qed
  qed simp
  then show "map_of (error_properties bs) m = Some p \<Longrightarrow> \<exists>ns\<in>set bs. \<exists>nm. ns_error_shape ns = Some (nm, p)"
    by (fastforce simp: error_properties_def)
qed

lemma caught_message:
  assumes "\<And>m p. map_of (r_errors s) m = Some p \<Longrightarrow> p \<noteq> ''message''"
  shows "\<exists>m. caught_value s why = VMap m \<and> map_of m ''message'' = Some (VStr why)"
proof -
  define fields :: "(string, 'a val) omap"
    where "fields = om_insert ''kind'' (VStr ''exception'') (om_insert ''message'' (VStr why) [])"
  have f: "map_of fields ''message'' = Some (VStr why)" by (simp add: fields_def)
  have c: "caught_value s why = VMap (case before_str '' failed: '' why of
          None \<Rightarrow> fields
        | Some m \<Rightarrow> (case map_of (r_errors s) m of None \<Rightarrow> fields | Some p \<Rightarrow> om_insert p (VStr m) fields))"
    by (simp only: caught_value_def Let_def fields_def)
  show ?thesis
    unfolding c using f by (auto split: option.split simp del: before_str.simps dest: assms)
qed

lemma check_from_sound:
  "check_from debug seen bs = Inr () \<Longrightarrow>
     distinct (map ns_global bs) \<and> set seen \<inter> set (map ns_global bs) = {}
     \<and> (\<forall>ns\<in>set bs. check_global debug (ns_global ns) = Inr () \<and> check_shape debug ns = Inr ())"
proof (induction debug seen bs rule: check_from.induct)
  case (2 debug seen ns nss)
  then show ?case by (auto split: sum.splits if_splits)
qed simp

text \<open>
  What the caller may expose: bindings that pass the check have different names, each a portable
  identifier and a reserved word of no target language, and a failure a program catches always
  carries its own message: no namespace can have declared that property for the member's name.
\<close>

theorem checked_bindings:
  assumes "check_bindings debug bs = Inr ()"
  shows "distinct (map ns_global bs)
    \<and> (\<forall>ns\<in>set bs. is_portable_identifier (ns_global ns) \<and> ns_global ns \<notin> set PORTABLE_RESERVED_WORDS)
    \<and> (\<exists>m. caught_value (new_run b bs bridge stops clock w) why = VMap m \<and> map_of m ''message'' = Some (VStr why))"
proof -
  note s = check_from_sound[OF assms[unfolded check_bindings_def]]
  have "p \<noteq> ''message''" if "map_of (error_properties bs) m = Some p" for m p
  proof -
    obtain ns nm where n: "ns \<in> set bs" "ns_error_shape ns = Some (nm, p)"
      using error_properties_from[OF \<open>map_of (error_properties bs) m = Some p\<close>] by blast
    then have "check_error_member debug p = Inr ()"
      using s by (fastforce simp: check_shape_def map_sum_Inr_iff split: sum.splits)
    then have "p \<notin> set RESERVED_ERROR_MEMBERS" by (simp add: check_error_member_def split: if_splits)
    then show ?thesis by (auto simp: RESERVED_ERROR_MEMBERS_def)
  qed
  then have "\<exists>m. caught_value (new_run b bs bridge stops clock w) why = VMap m \<and> map_of m ''message'' = Some (VStr why)"
    by (rule caught_message) (simp add: new_run_def)
  moreover have "is_portable_identifier (ns_global ns) \<and> ns_global ns \<notin> set PORTABLE_RESERVED_WORDS" if "ns \<in> set bs" for ns
    using s that by (auto simp: check_global_def split: if_splits)
  ultimately show ?thesis using s by blast
qed

theorem checked_bindings_witness:
  "distinct (map ns_global [\<lparr>ns_global = ''tools'', ns_functions = [] :: (string, unit member) omap, ns_error_shape = Some (''ToolError'', ''member'')\<rparr>])"
proof -
  have "check_bindings id [\<lparr>ns_global = ''tools'', ns_functions = [] :: (string, unit member) omap, ns_error_shape = Some (''ToolError'', ''member'')\<rparr>] = Inr ()"
    by code_simp
  from checked_bindings[OF this] show ?thesis by blast
qed

end
