(* ===== verification/Screen.thy ===== *)
theory Screen
  imports Prelude
begin

text \<open>
  What a terminal shows, \<^verbatim>\<open>crates/exec/src/screen.rs\<close>: a grid of characters, a cursor, a scrolling
  region and the escape sequences that change them.  A character is its UTF-8 bytes.  An operation
  answers \<^const>\<open>None\<close> where the code would index outside the grid and panic; sums of \<^verbatim>\<open>usize\<close>
  wrap, as they do in a release build.
\<close>

type_synonym glyph = string

record cursor =
  cu_row :: nat
  cu_col :: nat

text \<open>One \<^verbatim>\<open>Grid\<close> without the grid it stashed.\<close>

record plane =
  p_rows :: nat
  p_cols :: nat
  p_cells :: "glyph list list"
  p_cursor :: cursor
  p_saved :: cursor
  p_top :: nat
  p_bottom :: nat
  p_autowrap :: bool
  p_alternate :: bool
  p_pending :: "glyph list"
  p_owed :: "string list"

text \<open>The grid in use, and the ones stashed below it, each by the one before.\<close>

record screen =
  s_now :: plane
  s_stashed :: "plane list"

definition blank :: glyph where
  "blank = [CHR 0x20]"

definition blank_row :: "nat \<Rightarrow> glyph list" where
  "blank_row n = replicate n blank"

definition ESC :: glyph where
  "ESC = [CHR 0x1B]"

definition wrap64 :: "nat \<Rightarrow> nat" where
  "wrap64 n = nat (int n mod 18446744073709551616)"

definition new_plane :: "nat \<Rightarrow> nat \<Rightarrow> plane" where
  "new_plane rows cols =
     \<lparr>p_rows = rows, p_cols = cols, p_cells = replicate rows (blank_row cols),
      p_cursor = \<lparr>cu_row = 0, cu_col = 0\<rparr>, p_saved = \<lparr>cu_row = 0, cu_col = 0\<rparr>,
      p_top = 0, p_bottom = rows - 1, p_autowrap = True, p_alternate = False, p_pending = [], p_owed = []\<rparr>"

definition new_screen :: "nat \<Rightarrow> nat \<Rightarrow> screen" where
  "new_screen rows cols = \<lparr>s_now = new_plane (max rows 1) (max cols 1), s_stashed = []\<rparr>"

fun drop_blank_lines :: "string list \<Rightarrow> string list" where
  "drop_blank_lines ls = rev (dropWhile (\<lambda>l. l = []) (rev ls))"

definition screen_text :: "screen \<Rightarrow> string" where
  "screen_text s = join [CHR 0x0A] (drop_blank_lines (map (\<lambda>row. trim_end (concat row)) (p_cells (s_now s))))"

section \<open>The grid\<close>

text \<open>Indexing: \<^verbatim>\<open>self.cells[row]\<close>, \<^verbatim>\<open>Vec::remove\<close> and \<^verbatim>\<open>Vec::insert\<close>.\<close>

definition at_row :: "nat \<Rightarrow> (glyph list \<Rightarrow> glyph list option) \<Rightarrow> plane \<Rightarrow> plane option" where
  "at_row row f p =
     (if row < length (p_cells p) then
        map_option (\<lambda>r. p\<lparr>p_cells := (p_cells p)[row := r]\<rparr>) (f (p_cells p ! row))
      else None)"

definition vec_remove :: "nat \<Rightarrow> 'a list \<Rightarrow> 'a list option" where
  "vec_remove i xs = (if i < length xs then Some (take i xs @ drop (Suc i) xs) else None)"

definition vec_insert :: "nat \<Rightarrow> 'a \<Rightarrow> 'a list \<Rightarrow> 'a list option" where
  "vec_insert i x xs = (if i \<le> length xs then Some (take i xs @ x # drop i xs) else None)"

definition put_cell :: "nat \<Rightarrow> glyph \<Rightarrow> glyph list \<Rightarrow> glyph list option" where
  "put_cell i g r = (if i < length r then Some (r[i := g]) else None)"

fun put_blanks :: "nat list \<Rightarrow> glyph list \<Rightarrow> glyph list option" where
  "put_blanks [] r = Some r"
| "put_blanks (i # is) r = Option.bind (put_cell i blank r) (put_blanks is)"

text \<open>\<open>n\<close> times one line out at \<open>from\<close> and a blank one in at \<open>to\<close>.\<close>

definition move_line :: "nat \<Rightarrow> nat \<Rightarrow> plane \<Rightarrow> plane option" where
  "move_line out into p =
     map_option (\<lambda>cells. p\<lparr>p_cells := cells\<rparr>)
       (Option.bind (vec_remove out (p_cells p)) (vec_insert into (blank_row (p_cols p))))"

fun repeat_op :: "nat \<Rightarrow> ('a \<Rightarrow> 'a option) \<Rightarrow> 'a \<Rightarrow> 'a option" where
  "repeat_op 0 f x = Some x"
| "repeat_op (Suc n) f x = Option.bind (f x) (repeat_op n f)"

definition scroll_up :: "nat \<Rightarrow> plane \<Rightarrow> plane option" where
  "scroll_up n p = repeat_op n (move_line (p_top p) (p_bottom p)) p"

definition scroll_down :: "nat \<Rightarrow> plane \<Rightarrow> plane option" where
  "scroll_down n p = repeat_op n (move_line (p_bottom p) (p_top p)) p"

definition set_cursor :: "nat \<Rightarrow> nat \<Rightarrow> plane \<Rightarrow> plane" where
  "set_cursor row col p = p\<lparr>p_cursor := \<lparr>cu_row = row, cu_col = col\<rparr>\<rparr>"

abbreviation row_of :: "plane \<Rightarrow> nat" where
  "row_of p \<equiv> cu_row (p_cursor p)"

abbreviation col_of :: "plane \<Rightarrow> nat" where
  "col_of p \<equiv> cu_col (p_cursor p)"

definition line_feed :: "plane \<Rightarrow> plane option" where
  "line_feed p =
     (if row_of p = p_bottom p then scroll_up 1 p
      else if row_of p + 1 < p_rows p then Some (set_cursor (row_of p + 1) (col_of p) p)
      else Some p)"

definition reverse_index :: "plane \<Rightarrow> plane option" where
  "reverse_index p =
     (if row_of p = p_top p then scroll_down 1 p else Some (set_cursor (row_of p - 1) (col_of p) p))"

definition blank_at :: "nat \<Rightarrow> plane \<Rightarrow> plane option" where
  "blank_at row p = at_row row (\<lambda>_. Some (blank_row (p_cols p))) p"

fun blank_rows :: "nat list \<Rightarrow> plane \<Rightarrow> plane option" where
  "blank_rows [] p = Some p"
| "blank_rows (r # rs) p = Option.bind (blank_at r p) (blank_rows rs)"

definition erase_line :: "nat \<Rightarrow> plane \<Rightarrow> plane option" where
  "erase_line how p =
     (let row = min (row_of p) (p_rows p - 1); col = min (col_of p) (p_cols p) in
      if how = 0 then at_row row (put_blanks [col..<p_cols p]) p
      else if how = 1 then at_row row (put_blanks [0..<Suc (min col (p_cols p - 1))]) p
      else blank_at row p)"

definition erase_display :: "nat \<Rightarrow> plane \<Rightarrow> plane option" where
  "erase_display how p =
     (if how = 0 then Option.bind (erase_line 0 p) (blank_rows [row_of p + 1..<p_rows p])
      else if how = 1 then Option.bind (erase_line 1 p) (blank_rows [0..<row_of p])
      else blank_rows [0..<p_rows p] p)"

definition outside_region :: "plane \<Rightarrow> bool" where
  "outside_region p \<longleftrightarrow> row_of p < p_top p \<or> row_of p > p_bottom p"

definition insert_lines :: "nat \<Rightarrow> plane \<Rightarrow> plane option" where
  "insert_lines n p =
     (if outside_region p then Some p
      else repeat_op (min n (p_bottom p - p_top p + 1)) (move_line (p_bottom p) (row_of p)) p)"

definition delete_lines :: "nat \<Rightarrow> plane \<Rightarrow> plane option" where
  "delete_lines n p =
     (if outside_region p then Some p
      else repeat_op (min n (p_bottom p - p_top p + 1)) (move_line (row_of p) (p_bottom p)) p)"

definition insert_cells :: "nat \<Rightarrow> plane \<Rightarrow> plane option" where
  "insert_cells n p =
     at_row (min (row_of p) (p_rows p - 1))
       (repeat_op (min n (p_cols p)) (\<lambda>r. vec_insert (min (col_of p) (p_cols p - 1)) blank (butlast r))) p"

definition delete_cells :: "nat \<Rightarrow> plane \<Rightarrow> plane option" where
  "delete_cells n p =
     at_row (min (row_of p) (p_rows p - 1))
       (repeat_op (min n (p_cols p)) (\<lambda>r.
          if col_of p < p_cols p then map_option (\<lambda>r. r @ [blank]) (vec_remove (col_of p) r) else Some r)) p"

definition erase_cells :: "nat \<Rightarrow> plane \<Rightarrow> plane option" where
  "erase_cells n p =
     at_row (min (row_of p) (p_rows p - 1))
       (put_blanks [col_of p..<min (wrap64 (col_of p + n)) (p_cols p)]) p"

section \<open>Printing\<close>

definition control :: "glyph \<Rightarrow> nat \<Rightarrow> bool" where
  "control g n \<longleftrightarrow> (case g of [c] \<Rightarrow> of_char c = n | _ \<Rightarrow> False)"

definition is_control :: "glyph \<Rightarrow> bool" where
  "is_control g \<longleftrightarrow> (case g of [c] \<Rightarrow> (of_char c :: nat) < 32 | _ \<Rightarrow> False)"

definition draw :: "glyph \<Rightarrow> plane \<Rightarrow> plane option" where
  "draw g p =
     Option.bind
       (if col_of p \<ge> p_cols p then
          if \<not> p_autowrap p then Some (set_cursor (row_of p) (p_cols p - 1) p)
          else line_feed (set_cursor (row_of p) 0 p)
        else Some p) (\<lambda>p.
     map_option (\<lambda>p. set_cursor (row_of p) (col_of p + 1) p)
       (at_row (min (row_of p) (p_rows p - 1)) (put_cell (min (col_of p) (p_cols p - 1)) g) p))"

definition print_glyph :: "glyph \<Rightarrow> plane \<Rightarrow> plane option" where
  "print_glyph g p =
     map_option (\<lambda>p. if col_of p > p_cols p then set_cursor (row_of p) (p_cols p) p else p)
       (if control g 13 then Some (set_cursor (row_of p) 0 p)
        else if control g 10 then line_feed p
        else if control g 9 then Some (set_cursor (row_of p) ((col_of p div 8 + 1) * 8) p)
        else if control g 8 then Some (set_cursor (row_of p) (col_of p - 1) p)
        else if is_control g then Some p
        else draw g p)"

fun print_glyphs :: "glyph list \<Rightarrow> plane \<Rightarrow> plane option" where
  "print_glyphs [] p = Some p"
| "print_glyphs (g # gs) p = Option.bind (print_glyph g p) (print_glyphs gs)"

section \<open>Sequences\<close>

definition answer :: "string \<Rightarrow> plane \<Rightarrow> plane" where
  "answer r p = p\<lparr>p_owed := p_owed p @ [r]\<rparr>"

definition PRIMARY_ATTRIBUTES :: string where
  "PRIMARY_ATTRIBUTES = CHR 0x1B # ''[?1;2c''"

definition SECONDARY_ATTRIBUTES :: string where
  "SECONDARY_ATTRIBUTES = CHR 0x1B # ''[>0;10;1c''"

definition num_at :: "nat list \<Rightarrow> nat \<Rightarrow> nat option" where
  "num_at ns i = (if i < length ns then Some (ns ! i) else None)"

definition or_else :: "nat option \<Rightarrow> nat \<Rightarrow> nat" where
  "or_else n d = (case n of Some v \<Rightarrow> v | None \<Rightarrow> d)"

definition reported :: "nat list \<Rightarrow> glyph \<Rightarrow> plane \<Rightarrow> plane option" where
  "reported ns f p =
     (let n = or_else (num_at ns 0) 0 in
      if f = ''n'' \<and> n = 5 then Some (answer (CHR 0x1B # ''[0n'') p)
      else if f = ''n'' \<and> n = 6 then
        Some (answer (CHR 0x1B # ''['' @ show_nat (row_of p + 1) @ '';'' @ show_nat (col_of p + 1) @ ''R'') p)
      else if f = ''c'' \<and> n = 0 then Some (answer PRIMARY_ATTRIBUTES p)
      else None)"

text \<open>The sequences that only move the cursor; \<^const>\<open>None\<close> for any other.\<close>

definition moved :: "nat list \<Rightarrow> glyph \<Rightarrow> plane \<Rightarrow> plane option" where
  "moved ns f p =
     (let n = max (or_else (num_at ns 0) 0) 1; row = row_of p; col = col_of p;
          low = (\<lambda>r. min r (p_rows p - 1)); right = (\<lambda>c. min c (p_cols p - 1)) in
      if f = ''H'' \<or> f = ''f'' then
        Some (set_cursor (low (max (or_else (num_at ns 0) 1) 1 - 1)) (right (max (or_else (num_at ns 1) 1) 1 - 1)) p)
      else if f = ''A'' then Some (set_cursor (row - n) col p)
      else if f = ''B'' then Some (set_cursor (low (wrap64 (row + n))) col p)
      else if f = ''C'' then Some (set_cursor row (right (wrap64 (col + n))) p)
      else if f = ''D'' then Some (set_cursor row (col - n) p)
      else if f = ''G'' then Some (set_cursor row (right (n - 1)) p)
      else if f = ''d'' then Some (set_cursor (low (n - 1)) col p)
      else if f = ''E'' then Some (set_cursor (low (wrap64 (row + n))) 0 p)
      else if f = ''F'' then Some (set_cursor (row - n) 0 p)
      else if f = ''s'' then Some (p\<lparr>p_saved := p_cursor p\<rparr>)
      else if f = ''u'' then Some (p\<lparr>p_cursor := p_saved p\<rparr>)
      else None)"

definition set_region :: "nat list \<Rightarrow> plane \<Rightarrow> plane" where
  "set_region ns p =
     (let top = max (or_else (num_at ns 0) 1) 1 - 1;
          bottom = (case num_at ns 1 of Some v \<Rightarrow> if v > 0 then v else p_rows p | None \<Rightarrow> p_rows p) - 1;
          p = (if top < bottom \<and> bottom < p_rows p then p\<lparr>p_top := top, p_bottom := bottom\<rparr> else p)
      in set_cursor 0 0 p)"

definition changed :: "nat list \<Rightarrow> glyph \<Rightarrow> plane \<Rightarrow> plane option" where
  "changed ns f p =
     (let first = or_else (num_at ns 0) 0; n = max first 1 in
      if f = ''J'' then erase_display first p
      else if f = ''K'' then erase_line first p
      else if f = ''L'' then insert_lines n p
      else if f = ''M'' then delete_lines n p
      else if f = ''@'' then insert_cells n p
      else if f = ''P'' then delete_cells n p
      else if f = ''X'' then erase_cells n p
      else if f = ''r'' then Some (set_region ns p)
      else Some p)"

text \<open>\<^verbatim>\<open>value.trim().parse::<usize>().unwrap_or(0)\<close>.\<close>

definition parse_usize :: "string \<Rightarrow> nat" where
  "parse_usize s =
     (let t = trim s; d = (case t of c # cs \<Rightarrow> if c = CHR ''+'' then cs else t | [] \<Rightarrow> []) in
      if d \<noteq> [] \<and> list_all (byte_in 48 57) d \<and> int (read_nat d) < 18446744073709551616 then read_nat d else 0)"

fun split_on :: "glyph \<Rightarrow> glyph list \<Rightarrow> glyph list list" where
  "split_on sep [] = [[]]"
| "split_on sep (g # gs) =
     (if g = sep then [] # split_on sep gs else (case split_on sep gs of p # ps \<Rightarrow> (g # p) # ps | [] \<Rightarrow> [[g]]))"

definition is_final :: "glyph \<Rightarrow> bool" where
  "is_final g \<longleftrightarrow> (case g of [c] \<Rightarrow> byte_in 64 126 c | _ \<Rightarrow> False)"

definition is_prefix :: "glyph \<Rightarrow> bool" where
  "is_prefix g \<longleftrightarrow> g \<in> {''?'', ''>'', ''<'', ''=''}"

definition enter_alternate :: "screen \<Rightarrow> screen" where
  "enter_alternate s =
     (let p = s_now s in
      if p_alternate p then s
      else \<lparr>s_now = (new_plane (p_rows p) (p_cols p))\<lparr>p_alternate := True\<rparr>, s_stashed = p # s_stashed s\<rparr>)"

definition leave_alternate :: "screen \<Rightarrow> screen" where
  "leave_alternate s =
     (case s_stashed s of
        [] \<Rightarrow> s
      | p # ps \<Rightarrow> \<lparr>s_now = p\<lparr>p_pending := p_pending (s_now s), p_alternate := False\<rparr>, s_stashed = ps\<rparr>)"

definition private_mode :: "nat \<Rightarrow> glyph \<Rightarrow> screen \<Rightarrow> screen" where
  "private_mode m f s =
     (if m \<in> {1049, 47, 1047} \<and> f = ''h'' then enter_alternate s
      else if m \<in> {1049, 47, 1047} \<and> f = ''l'' then leave_alternate s
      else if m = 7 \<and> f = ''h'' then s\<lparr>s_now := (s_now s)\<lparr>p_autowrap := True\<rparr>\<rparr>
      else if m = 7 \<and> f = ''l'' then s\<lparr>s_now := (s_now s)\<lparr>p_autowrap := False\<rparr>\<rparr>
      else s)"

definition with_now :: "(plane \<Rightarrow> plane option) \<Rightarrow> screen \<Rightarrow> screen option" where
  "with_now f s = map_option (\<lambda>p. s\<lparr>s_now := p\<rparr>) (f (s_now s))"

definition plain_csi :: "nat list \<Rightarrow> glyph \<Rightarrow> screen \<Rightarrow> screen option" where
  "plain_csi ns f s =
     (case reported ns f (s_now s) of
        Some p \<Rightarrow> Some (s\<lparr>s_now := p\<rparr>)
      | None \<Rightarrow> (case moved ns f (s_now s) of
          Some p \<Rightarrow> Some (s\<lparr>s_now := p\<rparr>)
        | None \<Rightarrow> with_now (changed ns f) s))"

definition dispatch_csi :: "glyph list \<Rightarrow> glyph \<Rightarrow> screen \<Rightarrow> screen option" where
  "dispatch_csi params f s =
     (let ns = map (\<lambda>v. parse_usize (concat v)) (split_on '';'' (dropWhile is_prefix params)) in
      case params of
        pr # _ \<Rightarrow>
          if pr = ''?'' then Some (private_mode (or_else (num_at ns 0) 0) f s)
          else if pr = ''>'' \<and> f = ''c'' then with_now (Some \<circ> answer SECONDARY_ATTRIBUTES) s
          else if is_prefix pr then Some s
          else plain_csi ns f s
      | [] \<Rightarrow> plain_csi ns f s)"

text \<open>
  A sequence: \<open>Unfinished\<close>, or what follows it and the screen after it.
\<close>

datatype sequence = Unfinished | Consumed "glyph list" screen

definition csi :: "glyph list \<Rightarrow> screen \<Rightarrow> sequence option" where
  "csi body s =
     (case dropWhile (\<lambda>g. \<not> is_final g) body of
        [] \<Rightarrow> Some Unfinished
      | f # rest \<Rightarrow>
          map_option (Consumed rest) (dispatch_csi (takeWhile (\<lambda>g. \<not> is_final g) body) f s))"

fun after_st :: "glyph list \<Rightarrow> glyph list option" where
  "after_st (a # b # gs) = (if a = ESC \<and> control b 92 then Some gs else after_st (b # gs))"
| "after_st _ = None"

definition osc :: "glyph list \<Rightarrow> screen \<Rightarrow> sequence" where
  "osc body s =
     (case dropWhile (\<lambda>g. \<not> control g 7) body of
        _ # rest \<Rightarrow> Consumed rest s
      | [] \<Rightarrow> (case after_st body of Some rest \<Rightarrow> Consumed rest s | None \<Rightarrow> Unfinished))"

text \<open>The text after an escape byte.\<close>

definition escape :: "glyph list \<Rightarrow> screen \<Rightarrow> sequence option" where
  "escape after s =
     (case after of
        [] \<Rightarrow> Some Unfinished
      | k # rest \<Rightarrow>
          if k = ''['' then csi rest s
          else if k = '']'' then Some (osc rest s)
          else if k = ''7'' then Some (Consumed rest (s\<lparr>s_now := (s_now s)\<lparr>p_saved := p_cursor (s_now s)\<rparr>\<rparr>))
          else if k = ''8'' then Some (Consumed rest (s\<lparr>s_now := (s_now s)\<lparr>p_cursor := p_saved (s_now s)\<rparr>\<rparr>))
          else if k = ''M'' then map_option (Consumed rest) (with_now reverse_index s)
          else Some (Consumed rest s))"

lemma after_st_length: "after_st gs = Some r \<Longrightarrow> length r < length gs"
  by (induction gs rule: after_st.induct) (auto split: if_splits)

lemma escape_length: "escape after s = Some (Consumed rest s1) \<Longrightarrow> length rest \<le> length after"
proof -
  have drop: "dropWhile P xs = y # ys \<Longrightarrow> length ys \<le> length xs" for P and xs :: "glyph list" and y ys
    using length_dropWhile_le[of P xs] by simp
  show "escape after s = Some (Consumed rest s1) \<Longrightarrow> length rest \<le> length after"
    by (auto simp: escape_def csi_def osc_def with_now_def split: list.splits if_splits option.splits
        dest!: drop after_st_length)
qed

function feed_loop :: "glyph list \<Rightarrow> screen \<Rightarrow> screen option" where
  "feed_loop gs s =
     (if gs = [] then Some s
      else Option.bind (with_now (print_glyphs (takeWhile (\<lambda>g. g \<noteq> ESC) gs)) s) (\<lambda>s.
        case dropWhile (\<lambda>g. g \<noteq> ESC) gs of
          [] \<Rightarrow> Some s
        | e # after \<Rightarrow>
            (case escape after s of
               None \<Rightarrow> None
             | Some Unfinished \<Rightarrow> Some (s\<lparr>s_now := (s_now s)\<lparr>p_pending := e # after\<rparr>\<rparr>)
             | Some (Consumed rest s) \<Rightarrow> feed_loop rest s)))"
  by pat_completeness auto
termination
proof (relation "measure (length \<circ> fst)")
  fix gs :: "glyph list" and s s1 e after q rest s2
  assume "dropWhile (\<lambda>g. g \<noteq> ESC) gs = e # after" "escape after s1 = Some q" "q = Consumed rest s2"
  moreover have "length (dropWhile (\<lambda>g. g \<noteq> ESC) gs) \<le> length gs" by (rule length_dropWhile_le)
  ultimately show "((rest, s2), gs, s) \<in> measure (length \<circ> fst)"
    using escape_length by fastforce
qed simp

declare feed_loop.simps [simp del]

text \<open>\<^verbatim>\<open>Screen::feed\<close>: what the program is owed, and the screen after.\<close>

definition feed :: "string \<Rightarrow> screen \<Rightarrow> (string list \<times> screen) option" where
  "feed bytes s =
     map_option (\<lambda>s. (p_owed (s_now s), s\<lparr>s_now := (s_now s)\<lparr>p_owed := []\<rparr>\<rparr>))
       (feed_loop (p_pending (s_now s) @ utf8_chars bytes) (s\<lparr>s_now := (s_now s)\<lparr>p_pending := []\<rparr>\<rparr>))"

definition vec_resize :: "nat \<Rightarrow> 'a \<Rightarrow> 'a list \<Rightarrow> 'a list" where
  "vec_resize n x xs = take n xs @ replicate (n - length xs) x"

definition resize_plane :: "nat \<Rightarrow> nat \<Rightarrow> plane \<Rightarrow> plane" where
  "resize_plane rows cols p =
     p\<lparr>p_cells := map (vec_resize cols blank) (vec_resize rows (blank_row cols) (p_cells p)),
       p_rows := rows, p_cols := cols, p_top := 0, p_bottom := rows - 1,
       p_cursor := \<lparr>cu_row = min (row_of p) (rows - 1), cu_col = min (col_of p) (cols - 1)\<rparr>\<rparr>"

definition resize :: "nat \<Rightarrow> nat \<Rightarrow> screen \<Rightarrow> screen" where
  "resize rows cols s =
     (let r = resize_plane (max rows 1) (max cols 1)
      in \<lparr>s_now = r (s_now s), s_stashed = map r (s_stashed s)\<rparr>)"

end
