(* ===== verification/Screen_Safety.thy ===== *)
theory Screen_Safety
  imports Screen
begin

text \<open>
  The terminal screen keeps its shape: whatever bytes a program prints, in whatever chunks, no
  operation indexes outside the grid.  A grid operation only \<open>redraws\<close>: it replaces the cells by
  cells of the same shape.
\<close>

section \<open>Shape\<close>

definition shaped :: "nat \<Rightarrow> nat \<Rightarrow> glyph list list \<Rightarrow> bool" where
  "shaped rows cols cells \<longleftrightarrow> length cells = rows \<and> (\<forall>r\<in>set cells. length r = cols)"

definition plane_ok :: "plane \<Rightarrow> bool" where
  "plane_ok p \<longleftrightarrow>
     0 < p_rows p \<and> 0 < p_cols p \<and> shaped (p_rows p) (p_cols p) (p_cells p)
     \<and> p_top p \<le> p_bottom p \<and> p_bottom p < p_rows p
     \<and> row_of p < p_rows p \<and> col_of p \<le> p_cols p
     \<and> cu_row (p_saved p) < p_rows p \<and> cu_col (p_saved p) \<le> p_cols p"

definition screen_ok :: "screen \<Rightarrow> bool" where
  "screen_ok s \<longleftrightarrow> plane_ok (s_now s) \<and> (\<forall>p\<in>set (s_stashed s). plane_ok p)"

lemma plane_ok_new: "0 < rows \<Longrightarrow> 0 < cols \<Longrightarrow> plane_ok (new_plane rows cols)"
  by (auto simp: plane_ok_def new_plane_def shaped_def blank_row_def)

lemma screen_ok_new: "screen_ok (new_screen rows cols)"
  by (simp add: screen_ok_def new_screen_def plane_ok_new)

definition redraws :: "plane \<Rightarrow> plane option \<Rightarrow> bool" where
  "redraws p q \<longleftrightarrow> (\<exists>cells. q = Some (p\<lparr>p_cells := cells\<rparr>) \<and> shaped (p_rows p) (p_cols p) cells)"

definition answers_ok :: "plane option \<Rightarrow> bool" where
  "answers_ok q \<longleftrightarrow> (\<exists>p. q = Some p \<and> plane_ok p)"

lemma redraws_ok: "plane_ok p \<Longrightarrow> redraws p q \<Longrightarrow> answers_ok q"
  by (auto simp: redraws_def answers_ok_def plane_ok_def)

lemma redraws_self: "plane_ok p \<Longrightarrow> redraws p (Some p)"
  by (auto simp: redraws_def plane_ok_def intro!: exI[of _ "p_cells p"])

lemma redraws_bind:
  assumes "redraws p q" "\<And>cells. shaped (p_rows p) (p_cols p) cells \<Longrightarrow> redraws (p\<lparr>p_cells := cells\<rparr>) (f (p\<lparr>p_cells := cells\<rparr>))"
  shows "redraws p (Option.bind q f)"
proof -
  obtain cells where c: "q = Some (p\<lparr>p_cells := cells\<rparr>)" "shaped (p_rows p) (p_cols p) cells"
    using assms(1) by (auto simp: redraws_def)
  show ?thesis using assms(2)[OF c(2)] by (auto simp: redraws_def c(1))
qed

lemma plane_ok_cells [simp]: "plane_ok p \<Longrightarrow> shaped (p_rows p) (p_cols p) cells \<Longrightarrow> plane_ok (p\<lparr>p_cells := cells\<rparr>)"
  by (simp add: plane_ok_def)

lemma shaped_blank [simp]: "length (blank_row n) = n"
  by (simp add: blank_row_def)

lemma redraws_at_row:
  assumes "plane_ok p" "row < p_rows p" "\<And>r. length r = p_cols p \<Longrightarrow> \<exists>r'. f r = Some r' \<and> length r' = p_cols p"
  shows "redraws p (at_row row f p)"
proof -
  have len: "length (p_cells p ! row) = p_cols p" "row < length (p_cells p)"
    using assms(1,2) by (auto simp: plane_ok_def shaped_def)
  obtain r' where r: "f (p_cells p ! row) = Some r'" "length r' = p_cols p" using assms(3)[OF len(1)] by blast
  then show ?thesis
    using assms(1) len by (auto simp: redraws_def at_row_def plane_ok_def shaped_def
        dest!: set_update_subset_insert[THEN subsetD] intro!: exI[of _ "(p_cells p)[row := r']"])
qed

lemma redraws_move_line:
  assumes "plane_ok p" "out < p_rows p" "into < p_rows p"
  shows "redraws p (move_line out into p)"
proof -
  let ?c = "p_cells p"
  let ?d = "take out ?c @ drop (Suc out) ?c"
  have l: "length ?c = p_rows p" using assms(1) by (simp add: plane_ok_def shaped_def)
  then have d: "length ?d = p_rows p - 1" using assms(2) by simp
  have "shaped (p_rows p) (p_cols p) (take into ?d @ blank_row (p_cols p) # drop into ?d)"
    using assms l d
    by (auto simp: shaped_def plane_ok_def dest!: in_set_takeD in_set_dropD simp del: take_append drop_append)
  then show ?thesis
    using assms l d by (auto simp: redraws_def move_line_def vec_remove_def vec_insert_def)
qed

lemma redraws_repeat:
  assumes "plane_ok p" "\<And>p. plane_ok p \<Longrightarrow> out < p_rows p \<Longrightarrow> into < p_rows p \<Longrightarrow> redraws p (f p)" "out < p_rows p" "into < p_rows p"
  shows "redraws p (repeat_op n f p)"
  using assms(1,3,4)
proof (induction n arbitrary: p)
  case 0
  then show ?case by (simp add: redraws_self)
next
  case (Suc n)
  show ?case
    unfolding repeat_op.simps
    by (rule redraws_bind[OF assms(2)[OF Suc(2,3,4)]]) (use Suc in auto)
qed

lemma redraws_blank_at: "plane_ok p \<Longrightarrow> row < p_rows p \<Longrightarrow> redraws p (blank_at row p)"
  unfolding blank_at_def by (rule redraws_at_row) auto

lemma redraws_blank_rows: "plane_ok p \<Longrightarrow> \<forall>r\<in>set rs. r < p_rows p \<Longrightarrow> redraws p (blank_rows rs p)"
proof (induction rs arbitrary: p)
  case (Cons r rs)
  show ?case
    unfolding blank_rows.simps
    by (rule redraws_bind[OF redraws_blank_at]) (use Cons in auto)
qed (simp add: redraws_self)

lemma put_blanks_row: "length r = n \<Longrightarrow> \<forall>i\<in>set is. i < n \<Longrightarrow> \<exists>r'. put_blanks is r = Some r' \<and> length r' = n"
  by (induction "is" arbitrary: r) (auto simp: put_cell_def)

lemma repeat_row:
  assumes "\<And>r. length r = n \<Longrightarrow> \<exists>r'. f r = Some r' \<and> length r' = n"
  shows "length r = n \<Longrightarrow> \<exists>r'. repeat_op k f r = Some r' \<and> length r' = n"
proof (induction k arbitrary: r)
  case (Suc k)
  then show ?case using assms[of r] by fastforce
qed simp

section \<open>Operations\<close>

lemma erase_line_redraws: "plane_ok p \<Longrightarrow> redraws p (erase_line how p)"
  unfolding erase_line_def Let_def
  by (auto intro!: redraws_at_row redraws_blank_at put_blanks_row simp: plane_ok_def)

lemma erase_display_redraws:
  assumes "plane_ok p"
  shows "redraws p (erase_display how p)"
proof -
  have r: "row_of p < p_rows p" using assms by (simp add: plane_ok_def)
  have "redraws p (Option.bind (erase_line h p) (blank_rows rs))" if "\<forall>r\<in>set rs. r < p_rows p" for h rs
    by (rule redraws_bind[OF erase_line_redraws[OF assms]], rule redraws_blank_rows) (use assms that in auto)
  then show ?thesis
    using assms r by (auto simp: erase_display_def intro!: redraws_blank_rows)
qed

lemma lines_redraw:
  assumes "plane_ok p"
  shows "redraws p (insert_lines n p)" "redraws p (delete_lines n p)"
    "redraws p (scroll_up n p)" "redraws p (scroll_down n p)"
proof -
  have r: "p_top p < p_rows p" "p_bottom p < p_rows p" "row_of p < p_rows p"
    using assms by (auto simp: plane_ok_def)
  have m: "redraws p (repeat_op k (move_line a b) p)" if "a < p_rows p" "b < p_rows p" for a b k
    by (rule redraws_repeat[of _ a b]) (use assms that in \<open>auto intro: redraws_move_line\<close>)
  show "redraws p (insert_lines n p)" "redraws p (delete_lines n p)"
    "redraws p (scroll_up n p)" "redraws p (scroll_down n p)"
    using m r redraws_self[OF assms]
    by (auto simp: insert_lines_def delete_lines_def scroll_up_def scroll_down_def)
qed

lemma cells_redraw:
  assumes "plane_ok p"
  shows "redraws p (insert_cells n p)" "redraws p (delete_cells n p)" "redraws p (erase_cells n p)"
proof -
  have c: "0 < p_cols p" "min (row_of p) (p_rows p - 1) < p_rows p" using assms by (auto simp: plane_ok_def)
  show "redraws p (insert_cells n p)"
    unfolding insert_cells_def
    by (rule redraws_at_row[OF assms c(2)], rule repeat_row)
      (use c in \<open>auto simp: vec_insert_def min_def\<close>)
  show "redraws p (delete_cells n p)"
    unfolding delete_cells_def
    by (rule redraws_at_row[OF assms c(2)], rule repeat_row) (use c in \<open>auto simp: vec_remove_def\<close>)
  show "redraws p (erase_cells n p)"
    unfolding erase_cells_def
    by (rule redraws_at_row[OF assms c(2)], rule put_blanks_row) auto
qed

lemma cursor_ok: "plane_ok p \<Longrightarrow> row < p_rows p \<Longrightarrow> col \<le> p_cols p \<Longrightarrow> plane_ok (set_cursor row col p)"
  by (simp add: plane_ok_def set_cursor_def)

lemma line_feed_ok: "plane_ok p \<Longrightarrow> answers_ok (line_feed p)"
  using redraws_ok[OF _ lines_redraw(3)] cursor_ok[of p "row_of p + 1" "col_of p"]
  by (auto simp: line_feed_def answers_ok_def plane_ok_def)

lemma reverse_index_ok: "plane_ok p \<Longrightarrow> answers_ok (reverse_index p)"
  using redraws_ok[OF _ lines_redraw(4)] cursor_ok[of p "row_of p - 1" "col_of p"]
  by (auto simp: reverse_index_def answers_ok_def plane_ok_def)

lemma answers_bind: "answers_ok q \<Longrightarrow> (\<And>p. plane_ok p \<Longrightarrow> answers_ok (f p)) \<Longrightarrow> answers_ok (Option.bind q f)"
  by (auto simp: answers_ok_def)

lemma answers_map: "answers_ok q \<Longrightarrow> (\<And>p. plane_ok p \<Longrightarrow> plane_ok (f p)) \<Longrightarrow> answers_ok (map_option f q)"
  by (auto simp: answers_ok_def)

lemma draw_ok:
  assumes "plane_ok p"
  shows "case draw g p of Some q \<Rightarrow> plane_ok q | None \<Rightarrow> False"
proof -
  let ?start = "if col_of p \<ge> p_cols p then
          if \<not> p_autowrap p then Some (set_cursor (row_of p) (p_cols p - 1) p)
          else line_feed (set_cursor (row_of p) 0 p)
        else Some p"
  have lf: "\<exists>q. line_feed (set_cursor (row_of p) 0 p) = Some q \<and> plane_ok q \<and> col_of q < p_cols q"
  proof -
    have c: "plane_ok (set_cursor (row_of p) 0 p)" using assms by (intro cursor_ok) (auto simp: plane_ok_def)
    obtain q where q: "line_feed (set_cursor (row_of p) 0 p) = Some q" "plane_ok q"
      using line_feed_ok[OF c] by (auto simp: answers_ok_def)
    have "col_of q = 0"
      using q(1) lines_redraw(3)[OF c, of 1]
      by (auto simp: line_feed_def set_cursor_def redraws_def split: if_splits)
    then show ?thesis using q by (auto simp: plane_ok_def)
  qed
  have "\<exists>q. ?start = Some q \<and> plane_ok q \<and> col_of q < p_cols q"
    using lf assms by (auto simp: plane_ok_def set_cursor_def)
  then obtain q where q: "?start = Some q" "plane_ok q" "col_of q < p_cols q" by blast
  have "redraws q (at_row (min (row_of q) (p_rows q - 1)) (put_cell (min (col_of q) (p_cols q - 1)) g) q)"
    by (rule redraws_at_row[OF q(2)]) (use q in \<open>auto simp: plane_ok_def put_cell_def\<close>)
  then obtain cells where "at_row (min (row_of q) (p_rows q - 1)) (put_cell (min (col_of q) (p_cols q - 1)) g) q
      = Some (q\<lparr>p_cells := cells\<rparr>)" "shaped (p_rows q) (p_cols q) cells" by (auto simp: redraws_def)
  then show ?thesis
    using q by (simp add: draw_def) (simp add: plane_ok_def set_cursor_def)
qed

lemma print_glyph_ok:
  assumes "plane_ok p"
  shows "answers_ok (print_glyph g p)"
proof -
  let ?clamp = "\<lambda>p. if col_of p > p_cols p then set_cursor (row_of p) (p_cols p) p else p"
  have r: "row_of p < p_rows p" "col_of p \<le> p_cols p" using assms by (auto simp: plane_ok_def)
  have clamp: "plane_ok (?clamp (set_cursor (row_of p) c p))" for c
    using cursor_ok[OF assms r(1), of "min c (p_cols p)"] by (auto simp: set_cursor_def min_def)
  have keep: "answers_ok (map_option ?clamp q)" if "answers_ok q" for q
    using that by (rule answers_map) (auto simp: plane_ok_def set_cursor_def)
  have d: "answers_ok (draw g p)" using draw_ok[OF assms, of g] by (auto simp: answers_ok_def split: option.splits)
  have s: "answers_ok (Some p)" "answers_ok (Some (set_cursor (row_of p) 0 p))"
      "answers_ok (Some (set_cursor (row_of p) (col_of p - 1) p))"
    using assms cursor_ok[OF assms r(1)] r by (auto simp: answers_ok_def)
  have t: "answers_ok (map_option ?clamp (Some (set_cursor (row_of p) ((col_of p div 8 + 1) * 8) p)))"
    using clamp by (simp only: option.map answers_ok_def) blast
  show ?thesis
    unfolding print_glyph_def using keep[OF d] keep[OF line_feed_ok[OF assms]] keep[OF s(1)] keep[OF s(2)] keep[OF s(3)] t
    by presburger
qed

lemma print_glyphs_ok: "plane_ok p \<Longrightarrow> answers_ok (print_glyphs gs p)"
proof (induction gs arbitrary: p)
  case (Cons g gs)
  then show ?case using answers_bind[OF print_glyph_ok[OF Cons(2)]] by simp
qed (simp add: answers_ok_def)

lemma pred_option_if: "pred_option P x \<Longrightarrow> pred_option P y \<Longrightarrow> pred_option P (if b then x else y)"
  by simp

lemma moved_ok:
  assumes "plane_ok p" and "moved ns f p = Some q"
  shows "plane_ok q"
proof -
  have "pred_option plane_ok (moved ns f p)"
    unfolding moved_def Let_def
    by (intro pred_option_if) (use assms(1) in \<open>auto simp: plane_ok_def set_cursor_def\<close>)
  with assms(2) show ?thesis by simp
qed

lemma reported_ok: "plane_ok p \<Longrightarrow> reported ns f p = Some q \<Longrightarrow> plane_ok q"
  by (auto simp: reported_def Let_def answer_def plane_ok_def split: if_splits)

lemma set_region_ok: "plane_ok p \<Longrightarrow> plane_ok (set_region ns p)"
  by (auto simp: set_region_def Let_def plane_ok_def set_cursor_def split: option.split)

lemma changed_ok:
  assumes "plane_ok p"
  shows "answers_ok (changed ns f p)"
proof -
  note r = redraws_ok[OF assms]
  have "answers_ok (Some p)" "answers_ok (Some (set_region ns p))"
    using assms set_region_ok by (auto simp: answers_ok_def)
  then show ?thesis
    unfolding changed_def Let_def
    using r[OF erase_display_redraws[OF assms]] r[OF erase_line_redraws[OF assms]] r[OF lines_redraw(1)[OF assms]]
      r[OF lines_redraw(2)[OF assms]] r[OF cells_redraw(1)[OF assms]] r[OF cells_redraw(2)[OF assms]] r[OF cells_redraw(3)[OF assms]]
    by presburger
qed

lemma with_now_ok: "screen_ok s \<Longrightarrow> answers_ok (f (s_now s)) \<Longrightarrow> \<exists>s1. with_now f s = Some s1 \<and> screen_ok s1"
  by (auto simp: with_now_def answers_ok_def screen_ok_def)

lemma alternate_ok: "screen_ok s \<Longrightarrow> screen_ok (enter_alternate s)" "screen_ok s \<Longrightarrow> screen_ok (leave_alternate s)"
proof -
  assume s: "screen_ok s"
  have "plane_ok (new_plane (p_rows (s_now s)) (p_cols (s_now s)))"
    using s by (intro plane_ok_new) (auto simp: screen_ok_def plane_ok_def)
  then have "plane_ok ((new_plane (p_rows (s_now s)) (p_cols (s_now s)))\<lparr>p_alternate := True\<rparr>)"
    by (simp add: plane_ok_def)
  then show "screen_ok (enter_alternate s)" using s by (simp add: enter_alternate_def Let_def screen_ok_def)
  show "screen_ok (leave_alternate s)"
    using s by (auto simp: leave_alternate_def screen_ok_def plane_ok_def split: list.split)
qed

lemma private_mode_ok: "screen_ok s \<Longrightarrow> screen_ok (private_mode m f s)"
  using alternate_ok[of s] by (auto simp: private_mode_def) (auto simp: screen_ok_def plane_ok_def)

lemma vt_dispatch_ok:
  assumes "screen_ok s"
  shows "\<exists>s1. dispatch_csi params f s = Some s1 \<and> screen_ok s1"
proof -
  have p: "plane_ok (s_now s)" using assms by (simp add: screen_ok_def)
  have set: "screen_ok (s\<lparr>s_now := q\<rparr>)" if "plane_ok q" for q using assms that by (simp add: screen_ok_def)
  have plain: "\<exists>s1. plain_csi ns f s = Some s1 \<and> screen_ok s1" for ns
    using reported_ok[OF p, of ns f] moved_ok[OF p, of ns f] with_now_ok[where f = "changed ns f", OF assms changed_ok[OF p]] set
    by (auto simp: plain_csi_def split: option.split)
  have ans: "\<exists>s1. with_now (Some \<circ> answer r) s = Some s1 \<and> screen_ok s1" for r
    by (rule with_now_ok[OF assms]) (use p in \<open>auto simp: answers_ok_def answer_def plane_ok_def\<close>)
  show ?thesis
    using plain ans private_mode_ok[OF assms] assms
    by (cases params) (simp_all add: dispatch_csi_def Let_def del: split_on.simps)
qed

lemma escape_ok:
  assumes "screen_ok s"
  shows "\<exists>q. escape after s = Some q \<and> (\<forall>rest s1. q = Consumed rest s1 \<longrightarrow> screen_ok s1)"
proof -
  have csi: "\<exists>q. csi body s = Some q \<and> (\<forall>rest s1. q = Consumed rest s1 \<longrightarrow> screen_ok s1)" for body
    using vt_dispatch_ok[OF assms] by (fastforce simp: csi_def split: list.split)
  have osc: "osc body s = Consumed rest s1 \<Longrightarrow> screen_ok s1" for body rest s1
    using assms by (auto simp: osc_def split: list.splits option.splits)
  have ri: "\<exists>s1. with_now reverse_index s = Some s1 \<and> screen_ok s1"
    by (rule with_now_ok[OF assms]) (use assms reverse_index_ok in \<open>auto simp: screen_ok_def\<close>)
  have sv: "screen_ok (s\<lparr>s_now := (s_now s)\<lparr>p_saved := p_cursor (s_now s)\<rparr>\<rparr>)"
      "screen_ok (s\<lparr>s_now := (s_now s)\<lparr>p_cursor := p_saved (s_now s)\<rparr>\<rparr>)"
    using assms by (auto simp: screen_ok_def plane_ok_def)
  show ?thesis
    using csi osc ri sv assms by (cases after) (auto simp: escape_def)
qed

lemma feed_loop_ok: "screen_ok s \<Longrightarrow> \<exists>s1. feed_loop gs s = Some s1 \<and> screen_ok s1"
proof (induction gs s rule: feed_loop.induct)
  case (1 gs s)
  show ?case
  proof (cases "gs = []")
    case True
    then show ?thesis using 1 by (simp add: feed_loop.simps)
  next
    case False
    obtain s1 where p: "with_now (print_glyphs (takeWhile (\<lambda>g. g \<noteq> ESC) gs)) s = Some s1" "screen_ok s1"
      using with_now_ok[OF 1(2), of "print_glyphs (takeWhile (\<lambda>g. g \<noteq> ESC) gs)"] print_glyphs_ok 1(2)
      unfolding screen_ok_def by blast
    show ?thesis
    proof (cases "dropWhile (\<lambda>g. g \<noteq> ESC) gs")
      case Nil
      show ?thesis by (subst feed_loop.simps) (simp add: False p Nil)
    next
      case (Cons e after)
      obtain q where q: "escape after s1 = Some q" "\<And>rest s2. q = Consumed rest s2 \<Longrightarrow> screen_ok s2"
        using escape_ok[OF p(2)] by blast
      show ?thesis
      proof (cases q)
        case Unfinished
        have "screen_ok (s1\<lparr>s_now := (s_now s1)\<lparr>p_pending := e # after\<rparr>\<rparr>)"
          using p(2) by (simp add: screen_ok_def plane_ok_def)
        then show ?thesis using False p Cons q(1) Unfinished by (subst feed_loop.simps) simp
      next
        case (Consumed rest s2)
        then show ?thesis
          using False p Cons q 1(1)[OF False p(1) Cons q(1) Consumed] by (subst feed_loop.simps) simp
      qed
    qed
  qed
qed



section \<open>Where it goes wrong\<close>

text \<open>
  A resize moves the cursor inside the new grid and leaves the saved cursor where it was: the
  program restores it, erases up to it, and the screen indexes a row that is gone.  The lock the
  panic poisons makes every later read of the terminal panic too.
\<close>

theorem resized_saved_cursor_panics:
  "case feed (CHR 0x0A # CHR 0x0A # CHR 0x1B # ''7'') (new_screen 3 3) of
     None \<Rightarrow> False
   | Some (_, s) \<Rightarrow> feed (CHR 0x1B # ''8'' @ CHR 0x1B # ''[1J'') (resize 1 3 s) = None"
  by code_simp

text \<open>
  A question and a switch of screens in one read: the answer stays on the screen that is left.
\<close>

theorem reply_lost_on_switch:
  "map_option fst (feed (CHR 0x1B # ''[6n'') (new_screen 2 2)) = Some [CHR 0x1B # ''[1;1R'']
   \<and> map_option fst (feed (CHR 0x1B # ''[6n'' @ CHR 0x1B # ''[?1049h'') (new_screen 2 2)) = Some []"
  by (rule conjI) code_simp+

text \<open>
  A title closed with \<^verbatim>\<open>ESC \<close> and a bell later in the same read: what stands between them is not
  shown, and is when the read is cut in between.
\<close>

definition title_then_text :: string where
  "title_then_text = CHR 0x1B # '']0;t'' @ CHR 0x1B # CHR 0x5C # ''ok''"

theorem bell_swallows_text:
  "map_option (screen_text \<circ> snd) (feed (title_then_text @ [CHR 0x07]) (new_screen 1 4)) = Some []
   \<and> (case feed title_then_text (new_screen 1 4) of
        None \<Rightarrow> False
      | Some (_, s) \<Rightarrow> map_option (screen_text \<circ> snd) (feed [CHR 0x07] s) = Some ''ok'')"
  by (rule conjI) code_simp+

text \<open>A count near the end of the 64-bit range moves the cursor up instead of down.\<close>

theorem huge_count_moves_up:
  assumes "row_of p = Suc r" "Suc r < p_rows p" "r < 65535"
  shows "moved [18446744073709551615] ''B'' p = Some (set_cursor r (col_of p) p)"
proof -
  have "wrap64 (Suc r + 18446744073709551615) = r"
    using assms(3) by (simp add: wrap64_def)
  then show ?thesis using assms by (simp add: moved_def num_at_def or_else_def)
qed


text \<open>
  Nothing bounds what the screen carries: a title that is never closed keeps every later read, and
  each of them is scanned from its start again.
\<close>

theorem unclosed_title_grows:
  assumes "p_pending (s_now s) = ESC # '']'' # body" "p_owed (s_now s) = []"
    and "\<forall>g\<in>set (body @ utf8_chars bytes). g \<noteq> ESC \<and> \<not> control g 7"
  shows "feed bytes s = Some ([], s\<lparr>s_now := (s_now s)\<lparr>p_pending := p_pending (s_now s) @ utf8_chars bytes\<rparr>\<rparr>)"
proof -
  let ?t = "body @ utf8_chars bytes"
  have "\<forall>g\<in>set gs. g \<noteq> ESC \<Longrightarrow> after_st gs = None" for gs by (induction gs rule: after_st.induct) auto
  then have "after_st ?t = None" using assms(3) by blast
  moreover have "dropWhile (\<lambda>g. \<not> control g 7) ?t = []" using assms(3) by (simp only: dropWhile_eq_Nil_conv) blast
  ultimately have "escape ('']'' # ?t) u = Some Unfinished" for u by (simp only: escape_def osc_def list.case) simp
  then show ?thesis
    using assms(1,2) by (simp add: feed_def feed_loop.simps with_now_def)
qed

end
