(* ===== verification/Sanitize.thy ===== *)
theory Sanitize
  imports Screen
begin

text \<open>
  What a terminal printed, without its control language: \<^verbatim>\<open>crates/exec/src/sanitize.rs\<close>.  A
  \<^verbatim>\<open>&str\<close> is the list of its characters, so a position is the suffix that starts there, and
  \<^verbatim>\<open>len\<close> is the bytes of them all, counted here as an integer.
\<close>

definition CR :: glyph where
  "CR = [CHR 0x0D]"

definition LF :: glyph where
  "LF = [CHR 0x0A]"

definition BEL :: glyph where
  "BEL = [CHR 0x07]"

definition BACKSLASH :: glyph where
  "BACKSLASH = [CHR 0x5C]"

definition PROMPT_MARKER_PREFIX :: string where
  "PROMPT_MARKER_PREFIX = ''133;D;''"

definition MAX_PENDING :: int where
  "MAX_PENDING = 8192"

datatype discarding = Osc | Csi

record sanitized =
  sd_text :: "glyph list"
  sd_prompts :: "int option list"

record sanitizer =
  sn_pending :: "glyph list"
  sn_discarding :: "discarding option"
  sn_return :: bool

definition new_sanitizer :: sanitizer where
  "new_sanitizer = \<lparr>sn_pending = [], sn_discarding = None, sn_return = False\<rparr>"

definition byte_len :: "glyph list \<Rightarrow> int" where
  "byte_len gs = int (sum_list (map length gs))"

text \<open>\<^verbatim>\<open>status.trim().parse::<i32>().ok()\<close>.\<close>

definition parse_i32 :: "string \<Rightarrow> int option" where
  "parse_i32 s =
     (let digits = (\<lambda>d. d \<noteq> [] \<and> list_all (byte_in 48 57) d);
          within = (\<lambda>i :: int. if - 2147483648 \<le> i \<and> i \<le> 2147483647 then Some i else None) in
      case trim s of
        [] \<Rightarrow> None
      | c # cs \<Rightarrow>
          if c = CHR ''-'' then (if digits cs then within (- int (read_nat cs)) else None)
          else if c = CHR ''+'' then (if digits cs then within (int (read_nat cs)) else None)
          else if digits (c # cs) then within (int (read_nat (c # cs))) else None)"

section \<open>Sequences\<close>

text \<open>The text before a bell or before \<^verbatim>\<open>ESC \\<close>, and what follows it.\<close>

fun until_bell :: "glyph list \<Rightarrow> (glyph list \<times> glyph list) option" where
  "until_bell [] = None"
| "until_bell (g # gs) = (if g = BEL then Some ([], gs) else map_option (apfst ((#) g)) (until_bell gs))"

fun until_st :: "glyph list \<Rightarrow> (glyph list \<times> glyph list) option" where
  "until_st (a # b # gs) =
     (if a = ESC \<and> b = BACKSLASH then Some ([], gs) else map_option (apfst ((#) a)) (until_st (b # gs)))"
| "until_st _ = None"

text \<open>The earlier of the two ends.\<close>

definition osc_end :: "glyph list \<Rightarrow> (glyph list \<times> glyph list) option" where
  "osc_end body =
     (case (until_bell body, until_st body) of
        (Some (c, r), Some (c', r')) \<Rightarrow> if length c + 1 \<le> length c' + 2 then Some (c, r) else Some (c', r')
      | (Some b, None) \<Rightarrow> Some b
      | (None, st) \<Rightarrow> st)"

definition csi_end :: "glyph list \<Rightarrow> glyph list option" where
  "csi_end body = (case dropWhile (\<lambda>g. \<not> is_final g) body of [] \<Rightarrow> None | _ # rest \<Rightarrow> Some rest)"

definition prompt_of :: "glyph list \<Rightarrow> int option list" where
  "prompt_of content =
     (let c = concat content; n = length PROMPT_MARKER_PREFIX in
      if take n c = PROMPT_MARKER_PREFIX then [parse_i32 (drop n c)] else [])"

lemma until_bell_split: "until_bell gs = Some (c, r) \<Longrightarrow> gs = c @ BEL # r"
  by (induction gs arbitrary: c) (auto split: if_splits)

lemma until_st_split: "until_st gs = Some (c, r) \<Longrightarrow> gs = c @ ESC # BACKSLASH # r"
  by (induction gs arbitrary: c rule: until_st.induct) (auto split: if_splits)

lemma osc_end_length: "osc_end body = Some (c, r) \<Longrightarrow> length r < length body"
proof -
  have "until_bell body = Some (c, r) \<Longrightarrow> length r < length body" "until_st body = Some (c, r) \<Longrightarrow> length r < length body"
    using until_bell_split[of body c r] until_st_split[of body c r] by auto
  then show "osc_end body = Some (c, r) \<Longrightarrow> length r < length body"
    by (auto simp: osc_end_def split: option.splits if_splits)
qed

lemma csi_end_length: "csi_end body = Some r \<Longrightarrow> length r < length body"
  using length_dropWhile_le[of "\<lambda>g. \<not> is_final g" body] by (auto simp: csi_end_def split: list.splits)

text \<open>
  One pass over what is pending: the text, the prompts, and the suffix that is an unfinished
  sequence.
\<close>

function scan :: "glyph list \<Rightarrow> glyph list \<times> int option list \<times> glyph list" where
  "scan gs =
     (let before = takeWhile (\<lambda>g. g \<noteq> ESC) gs; stop = (before, [], dropWhile (\<lambda>g. g \<noteq> ESC) gs);
          go = (\<lambda>ps (raw, prompts, rest). (before @ raw, ps @ prompts, rest)) in
      case dropWhile (\<lambda>g. g \<noteq> ESC) gs of
        e # k # body \<Rightarrow>
          if k = '']'' then
            (case osc_end body of Some (content, rest) \<Rightarrow> go (prompt_of content) (scan rest) | None \<Rightarrow> stop)
          else if k = ''['' then (case csi_end body of Some rest \<Rightarrow> go [] (scan rest) | None \<Rightarrow> stop)
          else go [] (scan body)
      | _ \<Rightarrow> stop)"
  by pat_completeness auto
termination
proof (relation "measure length")
  have drop: "length body + 2 \<le> length gs" if "dropWhile (\<lambda>g. g \<noteq> ESC) gs = e # k # body" for gs :: "glyph list" and e k body
    using length_dropWhile_le[of "\<lambda>g. g \<noteq> ESC" gs] that by simp
  show "wf (measure length)" by simp
  fix gs and x y z e list k body q content rest
  show "dropWhile (\<lambda>g. g \<noteq> ESC) gs = e # list \<Longrightarrow> list = k # body \<Longrightarrow> osc_end body = Some q \<Longrightarrow> (content, rest) = q
      \<Longrightarrow> (rest, gs) \<in> measure length"
    using drop[of gs e k body] osc_end_length[of body content rest] by auto
  show "dropWhile (\<lambda>g. g \<noteq> ESC) gs = e # list \<Longrightarrow> list = k # body \<Longrightarrow> csi_end body = Some rest
      \<Longrightarrow> (rest, gs) \<in> measure length"
    using drop[of gs e k body] csi_end_length[of body rest] by auto
  show "dropWhile (\<lambda>g. g \<noteq> ESC) gs = e # list \<Longrightarrow> list = k # body \<Longrightarrow> (body, gs) \<in> measure length"
    using drop[of gs e k body] by auto
qed

declare scan.simps [simp del]

section \<open>Line endings\<close>

fun crlf :: "glyph list \<Rightarrow> glyph list" where
  "crlf (a # b # gs) = (if a = CR \<and> b = LF then LF # crlf gs else a # crlf (b # gs))"
| "crlf gs = gs"

definition endings :: "glyph list \<Rightarrow> glyph list" where
  "endings gs = filter (\<lambda>g. g \<noteq> BEL) (map (\<lambda>g. if g = CR then LF else g) (crlf gs))"

definition normalize :: "bool \<Rightarrow> glyph list \<Rightarrow> glyph list \<times> bool" where
  "normalize held gs =
     (let complete = (if held then CR # gs else gs) in
      if complete \<noteq> [] \<and> last complete = CR then (endings (butlast complete), True) else (endings complete, False))"

section \<open>The stream\<close>

definition skip_discarded :: "glyph list \<Rightarrow> sanitizer \<Rightarrow> glyph list \<times> sanitizer" where
  "skip_discarded chunk s =
     (case sn_discarding s of
        None \<Rightarrow> (chunk, s)
      | Some Csi \<Rightarrow>
          (case csi_end chunk of Some rest \<Rightarrow> (rest, s\<lparr>sn_discarding := None\<rparr>) | None \<Rightarrow> ([], s))
      | Some Osc \<Rightarrow>
          (case until_bell chunk of
             Some (_, rest) \<Rightarrow> (rest, s\<lparr>sn_discarding := None\<rparr>)
           | None \<Rightarrow> (case until_st chunk of
               Some (_, rest) \<Rightarrow> (rest, s\<lparr>sn_discarding := None\<rparr>)
             | None \<Rightarrow> ([], s))))"

definition enforce_pending_bound :: "sanitizer \<Rightarrow> sanitizer" where
  "enforce_pending_bound s =
     (if byte_len (sn_pending s) \<le> MAX_PENDING then s
      else s\<lparr>sn_discarding := Some (if take 1 (tl (sn_pending s)) = ['']''] then Osc else Csi), sn_pending := []\<rparr>)"

definition push :: "glyph list \<Rightarrow> sanitizer \<Rightarrow> sanitized \<times> sanitizer" where
  "push chunk s =
     (let (chunk, s) = skip_discarded chunk s; (raw, prompts, rest) = scan (sn_pending s @ chunk);
          s = enforce_pending_bound (s\<lparr>sn_pending := rest\<rparr>); (out, held) = normalize (sn_return s) raw
      in (\<lparr>sd_text = out, sd_prompts = prompts\<rparr>, s\<lparr>sn_return := held\<rparr>))"

definition flush :: "sanitizer \<Rightarrow> glyph list \<times> sanitizer" where
  "flush s =
     (let text = (if take 1 (sn_pending s) = [ESC] then [] else sn_pending s);
          (out, held) = normalize (sn_return s) text
      in (if held then out @ [LF] else out, \<lparr>sn_pending = [], sn_discarding = None, sn_return = False\<rparr>))"


section \<open>Cutting a stream\<close>

lemma until_bell_append:
  "until_bell (a @ b) =
     (case until_bell a of Some (c, r) \<Rightarrow> Some (c, r @ b) | None \<Rightarrow> map_option (apfst ((@) a)) (until_bell b))"
proof (induction a)
  case Nil
  show ?case by (cases "until_bell b") auto
next
  case (Cons g a)
  then show ?case by (cases "until_bell a"; cases "until_bell b") auto
qed

lemma until_st_append: "until_st a = Some (c, r) \<Longrightarrow> until_st (a @ b) = Some (c, r @ b)"
  by (induction a arbitrary: c rule: until_st.induct) (auto split: if_splits)

lemma until_st_found: "until_st (c @ ESC # BACKSLASH # r) \<noteq> None"
proof (induction c)
  case (Cons x c)
  then show ?case by (cases c) auto
qed simp

lemma osc_end_append:
  assumes "osc_end a = Some (c, r)"
  shows "osc_end (a @ b) = Some (c, r @ b)"
proof -
  consider (bell) "until_bell a = Some (c, r)" "\<And>c' r'. until_st a = Some (c', r') \<Longrightarrow> length c + 1 \<le> length c' + 2"
    | (st) "until_st a = Some (c, r)" "\<And>c' r'. until_bell a = Some (c', r') \<Longrightarrow> \<not> length c' + 1 \<le> length c + 2"
    using assms by (auto simp: osc_end_def split: option.splits if_splits)
  then show ?thesis
  proof cases
    case bell
    have "length c + 1 \<le> length c' + 2" if st: "until_st (a @ b) = Some (c', r')" for c' r'
    proof (cases "length c' + 2 \<le> length a")
      case True
      have "a @ b = (c' @ [ESC, BACKSLASH]) @ r'" using until_st_split[OF st] by simp
      then obtain d where "a = (c' @ [ESC, BACKSLASH]) @ d"
        using True by (metis append_eq_append_conv_if length_append length_Cons list.size(3) add_2_eq_Suc' append_take_drop_id numeral_2_eq_2 add.commute plus_1_eq_Suc One_nat_def add_Suc_right)
      then have "until_st a \<noteq> None" using until_st_found[of c' d] by simp
      then obtain c2 r2 where "until_st a = Some (c2, r2)" by fastforce
      then show ?thesis using bell(2) until_st_append[of a c2 r2 b] st by auto
    next
      case False
      then show ?thesis using until_bell_split[OF bell(1)] by simp
    qed
    then show ?thesis using bell(1) by (auto simp: osc_end_def until_bell_append split: option.split)
  next
    case st
    have len: "length c + 2 \<le> length a" using until_st_split[OF st(1)] by simp
    have "\<not> length c' + 1 \<le> length c + 2" if "until_bell (a @ b) = Some (c', r')" for c' r'
      using that st(2) len by (auto simp: until_bell_append split: option.splits)
    then show ?thesis using until_st_append[OF st(1)] by (auto simp: osc_end_def split: option.split)
  qed
qed

lemma csi_end_append:
  assumes "csi_end a = Some r"
  shows "csi_end (a @ b) = Some (r @ b)"
proof -
  obtain f where f: "dropWhile (\<lambda>g. \<not> is_final g) a = f # r"
    using assms by (auto simp: csi_end_def split: list.splits)
  then have "\<exists>x\<in>set a. is_final x" by (metis dropWhile_eq_Nil_conv list.distinct(1))
  then show ?thesis using f by (auto simp: csi_end_def dropWhile_append)
qed

definition continue_scan :: "glyph list \<Rightarrow> int option list \<Rightarrow> glyph list \<times> int option list \<times> glyph list
    \<Rightarrow> glyph list \<times> int option list \<times> glyph list" where
  "continue_scan x ps out = (case out of (raw, prompts, rest) \<Rightarrow> (x @ raw, ps @ prompts, rest))"

lemma continue_twice: "continue_scan x ps (continue_scan y qs out) = continue_scan (x @ y) (ps @ qs) out"
  by (simp add: continue_scan_def split: prod.split)

lemma first_escape:
  assumes "ESC \<notin> set x"
  shows "takeWhile (\<lambda>g. g \<noteq> ESC) (x @ ESC # u) = x" "dropWhile (\<lambda>g. g \<noteq> ESC) (x @ ESC # u) = ESC # u"
    "takeWhile (\<lambda>g. g \<noteq> ESC) x = x" "dropWhile (\<lambda>g. g \<noteq> ESC) x = []"
  using assms by (induction x) auto

lemma scan_stop:
  assumes "ESC \<notin> set x"
  shows "scan x = (x, [], [])" "scan (x @ [ESC]) = (x, [], [ESC])"
    "osc_end body = None \<Longrightarrow> scan (x @ ESC # '']'' # body) = (x, [], ESC # '']'' # body)"
    "csi_end body = None \<Longrightarrow> scan (x @ ESC # ''['' # body) = (x, [], ESC # ''['' # body)"
  by (simp_all add: scan.simps[of x] scan.simps[of "x @ _"] first_escape[OF assms] Let_def)

lemma scan_go:
  assumes "ESC \<notin> set x"
  shows "osc_end body = Some (c, r) \<Longrightarrow> scan (x @ ESC # '']'' # body) = continue_scan x (prompt_of c) (scan r)"
    "csi_end body = Some r \<Longrightarrow> scan (x @ ESC # ''['' # body) = continue_scan x [] (scan r)"
    "k \<noteq> '']'' \<Longrightarrow> k \<noteq> ''['' \<Longrightarrow> scan (x @ ESC # k # body) = continue_scan x [] (scan body)"
  by (simp_all add: scan.simps[of "x @ _"] first_escape[OF assms] Let_def continue_scan_def)

text \<open>The text as its plain head and what the first escape starts.\<close>

lemma scan_shape:
  obtains (plain) "ESC \<notin> set gs"
  | (bare) x where "ESC \<notin> set x" "gs = x @ [ESC]"
  | (osc_open) x body where "ESC \<notin> set x" "gs = x @ ESC # '']'' # body" "osc_end body = None"
  | (osc) x body c r where "ESC \<notin> set x" "gs = x @ ESC # '']'' # body" "osc_end body = Some (c, r)"
  | (csi_open) x body where "ESC \<notin> set x" "gs = x @ ESC # ''['' # body" "csi_end body = None"
  | (csi) x body r where "ESC \<notin> set x" "gs = x @ ESC # ''['' # body" "csi_end body = Some r"
  | (short) x k body where "ESC \<notin> set x" "gs = x @ ESC # k # body" "k \<noteq> '']''" "k \<noteq> ''[''"
proof (cases "ESC \<in> set gs")
  case True
  then obtain x after where x: "gs = x @ ESC # after" "ESC \<notin> set x" by (meson split_list_first)
  show ?thesis
  proof (cases after)
    case (Cons k body)
    show ?thesis
    proof (cases "k = '']''")
      case True
      then show ?thesis using x Cons osc_open osc by (cases "osc_end body") auto
    next
      case False
      then show ?thesis using x Cons csi_open csi short by (cases "k = ''[''"; cases "csi_end body") auto
    qed
  qed (use x bare in auto)
qed (use plain in auto)

lemma scan_append:
  "scan (a @ b) = (case scan a of (x, ps, rest) \<Rightarrow> continue_scan x ps (scan (rest @ b)))"
proof (induction a rule: length_induct)
  case (1 a)
  have plain: "scan (x @ gs) = continue_scan x [] (scan gs)" if "ESC \<notin> set x" for x gs
  proof (cases gs rule: scan_shape)
    case plain
    then show ?thesis using that scan_stop(1)[of "x @ gs"] scan_stop(1)[of gs] by (simp add: continue_scan_def)
  next
    case (bare y)
    then show ?thesis using that scan_stop(2)[of "x @ y"] scan_stop(2)[of y] by (simp add: continue_scan_def)
  next
    case (osc_open y body)
    then show ?thesis using that scan_stop(3)[of "x @ y"] scan_stop(3)[of y] by (simp add: continue_scan_def)
  next
    case (osc y body c r)
    then show ?thesis using that scan_go(1)[of "x @ y"] scan_go(1)[of y] by (simp add: continue_twice)
  next
    case (csi_open y body)
    then show ?thesis using that scan_stop(4)[of "x @ y"] scan_stop(4)[of y] by (simp add: continue_scan_def)
  next
    case (csi y body r)
    then show ?thesis using that scan_go(2)[of "x @ y"] scan_go(2)[of y] by (simp add: continue_twice)
  next
    case (short y k body)
    then show ?thesis using that scan_go(3)[of "x @ y"] scan_go(3)[of y] by (simp add: continue_twice)
  qed
  have go: "continue_scan x ps (scan (r @ b)) = (case continue_scan x ps (scan r) of (x, ps, rest) \<Rightarrow> continue_scan x ps (scan (rest @ b)))"
    if "length r < length a" for x ps r
    using 1[rule_format, OF that] by (simp add: continue_scan_def split: prod.split)
  show ?case
  proof (cases a rule: scan_shape)
    case plain
    then show ?thesis using \<open>\<And>x gs. ESC \<notin> set x \<Longrightarrow> scan (x @ gs) = continue_scan x [] (scan gs)\<close> scan_stop(1) by simp
  next
    case (bare x)
    then show ?thesis using plain[of x "[ESC] @ b"] scan_stop(2)[of x] by simp
  next
    case (osc_open x body)
    then show ?thesis using plain[of x "(ESC # '']'' # body) @ b"] scan_stop(3)[of x body] by simp
  next
    case (osc x body c r)
    then show ?thesis
      using go[of r x "prompt_of c"] scan_go(1)[of x "body @ b" c "r @ b"] scan_go(1)[of x body c r]
        osc_end_append osc_end_length[of body c r] by simp
  next
    case (csi_open x body)
    then show ?thesis using plain[of x "(ESC # ''['' # body) @ b"] scan_stop(4)[of x body] by simp
  next
    case (csi x body r)
    then show ?thesis
      using go[of r x "[]"] scan_go(2)[of x "body @ b" "r @ b"] scan_go(2)[of x body r]
        csi_end_append csi_end_length[of body r] by simp
  next
    case (short x k body)
    then show ?thesis using go[of body x "[]"] scan_go(3)[of x k "body @ b"] scan_go(3)[of x k body] by simp
  qed
qed


lemma crlf_append:
  "\<not> (u \<noteq> [] \<and> last u = CR \<and> v \<noteq> [] \<and> hd v = LF) \<Longrightarrow> crlf (u @ v) = crlf u @ crlf v"
proof (induction u rule: crlf.induct)
  case (1 a b gs)
  show ?case
  proof (cases "a = CR \<and> b = LF")
    case True
    then show ?thesis using 1 by (cases gs) (auto simp: CR_def LF_def)
  next
    case False
    then show ?thesis using 1 by auto
  qed
next
  case "2_2"
  then show ?case by (cases v) auto
qed simp

lemma endings_append:
  "\<not> (u \<noteq> [] \<and> last u = CR \<and> v \<noteq> [] \<and> hd v = LF) \<Longrightarrow> endings (u @ v) = endings u @ endings v"
  by (simp add: endings_def crlf_append)

lemma normalize_append:
  "normalize h (x @ y) = (let (o1, h1) = normalize h x; (o2, h2) = normalize h1 y in (o1 @ o2, h2))"
proof -
  define c where "c = (if h then CR # x else x)"
  have n: "normalize h (x @ y) = normalize False (c @ y)" "normalize h x = normalize False c"
    by (simp_all add: c_def normalize_def)
  show ?thesis
  proof (cases "c \<noteq> [] \<and> last c = CR")
    case True
    then have c: "c = butlast c @ [CR]" by (metis append_butlast_last_id)
    have "normalize False (c @ y) = (let (o2, h2) = normalize True y in (endings (butlast c) @ o2, h2))"
    proof (cases "y \<noteq> [] \<and> last y = CR")
      case y: True
      have "endings (butlast c @ butlast (CR # y)) = endings (butlast c) @ endings (butlast (CR # y))"
        by (rule endings_append) (cases y, auto simp: CR_def LF_def)
      moreover have "butlast (c @ y) = butlast c @ butlast (CR # y)" by (subst c) (simp add: butlast_append)
      ultimately show ?thesis using y True by (simp add: normalize_def Let_def)
    next
      case y: False
      show ?thesis
      proof (cases y)
        case Nil
        then show ?thesis using True by (simp add: normalize_def endings_def)
      next
        case Cons
        have "endings (butlast c @ CR # y) = endings (butlast c) @ endings (CR # y)"
          by (rule endings_append) (auto simp: CR_def LF_def)
        moreover have eq: "c @ y = butlast c @ CR # y" by (subst c) simp
        ultimately have "endings (c @ y) = endings (butlast c) @ endings (CR # y)" by (simp only: eq)
        then show ?thesis using y Cons by (simp add: normalize_def Let_def)
      qed
    qed
    then show ?thesis using True unfolding n by (simp add: normalize_def[of False c] Let_def)
  next
    case False
    have e: "endings (c @ w) = endings c @ endings w" for w by (rule endings_append) (use False in auto)
    show ?thesis
      using False e e[of "butlast y"] unfolding n by (auto simp: normalize_def Let_def butlast_append)
  qed
qed

section \<open>What the sanitizer promises\<close>

lemma scan_no_escape: "ESC \<notin> set (fst (scan gs))"
proof (induction gs rule: length_induct)
  case (1 gs)
  have c: "ESC \<notin> set (fst (continue_scan x ps (scan r)))" if "ESC \<notin> set x" "length r < length gs" for x ps r
    using that 1 by (auto simp: continue_scan_def split: prod.split)
  show ?case
  proof (cases gs rule: scan_shape)
    case (osc x body c r)
    then show ?thesis using \<open>\<And>x r ps. ESC \<notin> set x \<Longrightarrow> length r < length gs \<Longrightarrow> ESC \<notin> set (fst (continue_scan x ps (scan r)))\<close>
      scan_go(1)[of x body c r] osc_end_length[of body c r] by simp
  next
    case (csi x body r)
    then show ?thesis using c[of x r "[]"] scan_go(2)[of x body r] csi_end_length[of body r] by simp
  next
    case (short x k body)
    then show ?thesis using c[of x body "[]"] scan_go(3)[of x k body] by simp
  qed (simp_all add: scan_stop)
qed

lemma crlf_set: "set (crlf gs) \<subseteq> set gs \<union> {LF}"
  by (induction gs rule: crlf.induct) auto

lemma endings_plain: "ESC \<notin> set gs \<Longrightarrow> set (endings gs) \<inter> {ESC, CR, BEL} = {}"
  using crlf_set[of gs] by (auto simp: endings_def ESC_def CR_def LF_def BEL_def)

text \<open>
  C18. What a reader is given holds no escape, no carriage return and no bell, and what the sanitizer
  holds back of an unfinished sequence is within its bound after every read, however much the
  program prints and however it is cut.
\<close>

theorem sanitized_plain_and_bounded:
  "set (sd_text (fst (push chunk s))) \<inter> {ESC, CR, BEL} = {}
   \<and> byte_len (sn_pending (snd (push chunk s))) \<le> MAX_PENDING"
proof -
  obtain ch s1 where 1: "skip_discarded chunk s = (ch, s1)" by fastforce
  obtain raw prompts rest where 2: "scan (sn_pending s1 @ ch) = (raw, prompts, rest)" by (metis surj_pair)
  have raw: "ESC \<notin> set raw" using scan_no_escape[of "sn_pending s1 @ ch"] by (simp add: 2)
  have "set (fst (normalize h raw)) \<inter> {ESC, CR, BEL} = {}" for h
  proof -
    define c where "c = (if h then CR # raw else raw)"
    have c: "ESC \<notin> set c" using raw by (auto simp: c_def ESC_def CR_def)
    then have "ESC \<notin> set (butlast c)" by (auto dest: in_set_butlastD)
    then show ?thesis
      using endings_plain[OF c] endings_plain[of "butlast c"]
      by (auto simp: normalize_def Let_def simp flip: c_def)
  qed
  moreover have "byte_len (sn_pending (enforce_pending_bound t)) \<le> MAX_PENDING" for t
    by (simp add: enforce_pending_bound_def byte_len_def MAX_PENDING_def)
  ultimately show ?thesis
    by (auto simp: push_def 1 2 Let_def split: prod.split) (metis fst_conv)+
qed

text \<open>
  C19. Where a read is cut does not matter: as long as no sequence outgrew the bound, two reads
  give the text and the prompts, in order, that one read of both would give, and leave the sanitizer
  in the same state - a sequence or a line ending split between them included.
\<close>

theorem reads_may_be_cut:
  assumes "sn_discarding s = None"
    and "push a s = (x, s1)" "sn_discarding s1 = None"
    and "push b s1 = (y, s2)" "sn_discarding s2 = None"
  shows "push (a @ b) s = (\<lparr>sd_text = sd_text x @ sd_text y, sd_prompts = sd_prompts x @ sd_prompts y\<rparr>, s2)"
proof -
  obtain raw1 ps1 rest1 where 1: "scan (sn_pending s @ a) = (raw1, ps1, rest1)" by (metis surj_pair)
  obtain o1 h1 where n1: "normalize (sn_return s) raw1 = (o1, h1)" by fastforce
  have bound1: "byte_len rest1 \<le> MAX_PENDING" and s1: "s1 = s\<lparr>sn_pending := rest1, sn_return := h1\<rparr>"
      and x: "x = \<lparr>sd_text = o1, sd_prompts = ps1\<rparr>"
    using assms(1-3) 1 n1 by (auto simp: push_def skip_discarded_def enforce_pending_bound_def Let_def split: if_splits)
  obtain raw2 ps2 rest2 where 2: "scan (rest1 @ b) = (raw2, ps2, rest2)" by (metis surj_pair)
  obtain o2 h2 where n2: "normalize h1 raw2 = (o2, h2)" by fastforce
  have bound2: "byte_len rest2 \<le> MAX_PENDING" and s2: "s2 = s1\<lparr>sn_pending := rest2, sn_return := h2\<rparr>"
      and y: "y = \<lparr>sd_text = o2, sd_prompts = ps2\<rparr>"
    using assms(3-5) 2 n2 unfolding s1
    by (auto simp: push_def skip_discarded_def enforce_pending_bound_def Let_def split: if_splits)
  have "scan (sn_pending s @ a @ b) = (raw1 @ raw2, ps1 @ ps2, rest2)"
    using scan_append[of "sn_pending s @ a" b] by (simp add: 1 2 continue_scan_def)
  moreover have "normalize (sn_return s) (raw1 @ raw2) = (o1 @ o2, h2)"
    by (simp add: normalize_append n1 n2)
  ultimately show ?thesis
    using assms(1) bound2 by (simp add: push_def skip_discarded_def enforce_pending_bound_def s1 s2 x y)
qed


theorem reads_may_be_cut_witness:
  "sd_text (fst (push ([[CHR ''a''], ESC] @ [''['', ''0'', ''m'', ''b'']) new_sanitizer)) = [''a'', ''b'']"
proof -
  define x where "x = push [[CHR ''a''], ESC] new_sanitizer"
  define y where "y = push [''['', ''0'', ''m'', ''b''] (snd x)"
  have f: "sn_discarding (snd x) = None" "sn_discarding (snd y) = None" "sn_discarding new_sanitizer = None"
      "sd_text (fst x) @ sd_text (fst y) = [''a'', ''b'']"
    unfolding x_def y_def by code_simp+
  have "push [[CHR ''a''], ESC] new_sanitizer = (fst x, snd x)" "push [''['', ''0'', ''m'', ''b''] (snd x) = (fst y, snd y)"
    by (simp_all add: x_def y_def)
  from reads_may_be_cut[OF f(3) this(1) f(1) this(2) f(2)] f(4) show ?thesis by simp
qed

text \<open>
  While a sequence that outgrew the bound is skipped, nothing is carried: an \<^verbatim>\<open>ESC \\<close> cut between
  two reads does not end it, and what follows is swallowed.
\<close>

definition skipping_osc :: sanitizer where
  "skipping_osc = \<lparr>sn_pending = [], sn_discarding = Some Osc, sn_return = False\<rparr>"

theorem cut_terminator_swallows_text:
  "sd_text (fst (push [ESC, BACKSLASH, ''o'', ''k''] skipping_osc)) = [''o'', ''k'']
   \<and> sd_text (fst (push [BACKSLASH, ''o'', ''k''] (snd (push [ESC] skipping_osc)))) = []"
  by (rule conjI) code_simp+

end
