(* ===== verification/Disk.thy ===== *)
theory Disk
  imports Prelude
begin

text \<open>
  The file system as \<^verbatim>\<open>std::fs\<close> shows it, and the parts of \<^verbatim>\<open>std::path\<close> the file tools use.  A
  disk is a list of entries, each an absolute path (its names, the root being \<open>[]\<close>) and what is
  there; symbolic links hold the text they point to.  What the system call layer refuses (a
  permission, an I/O error) is part of the disk, as the error it answers for an entry.  Looking a
  path up follows links the way a kernel does, with the budget of forty it gives one lookup.
\<close>

section \<open>Paths\<close>

type_synonym path = "string list"

datatype component = RootDir | CurDir | ParentDir | Normal string

text \<open>\<^verbatim>\<open>Path::components\<close> on Unix: separators repeat, and a dot counts only at the start.\<close>

definition SEP :: char where
  "SEP = CHR ''/''"

fun split_sep :: "string \<Rightarrow> string list" where
  "split_sep [] = [[]]"
| "split_sep (c # s) =
     (if c = SEP then [] # split_sep s
      else (case split_sep s of [] \<Rightarrow> [[c]] | w # ws \<Rightarrow> (c # w) # ws))"

definition is_absolute :: "string \<Rightarrow> bool" where
  "is_absolute s \<longleftrightarrow> s \<noteq> [] \<and> hd s = SEP"

definition component_of :: "string \<Rightarrow> component list" where
  "component_of w = (if w = [] \<or> w = ''.'' then [] else if w = ''..'' then [ParentDir] else [Normal w])"

definition components :: "string \<Rightarrow> component list" where
  "components s =
     (if is_absolute s then [RootDir]
      else if hd (split_sep s) = ''.'' then [CurDir] else [])
     @ concat (map component_of (split_sep s))"

definition is_name :: "string \<Rightarrow> bool" where
  "is_name n \<longleftrightarrow> n \<noteq> [] \<and> n \<noteq> ''.'' \<and> n \<noteq> ''..'' \<and> SEP \<notin> set n"

text \<open>\<^verbatim>\<open>display\<close> of an absolute path, and of the part of one below another.\<close>

definition shown :: "path \<Rightarrow> string" where
  "shown p = SEP # join [SEP] p"

definition relative :: "path \<Rightarrow> string" where
  "relative p = join [SEP] p"

definition below :: "path \<Rightarrow> path \<Rightarrow> bool" where
  "below base p \<longleftrightarrow> take (length base) p = base"

lemma below_refl [simp]: "below p p"
  by (simp add: below_def)

lemma below_Nil [simp]: "below [] p"
  by (simp add: below_def)

lemma below_iff: "below base p \<longleftrightarrow> (\<exists>q. p = base @ q)"
  by (metis append_eq_conv_conj append_take_drop_id below_def)

lemma below_append [intro]: "below base p \<Longrightarrow> below base (p @ q)"
  by (auto simp: below_iff)

lemma below_trans: "below a b \<Longrightarrow> below b c \<Longrightarrow> below a c"
  by (auto simp: below_iff)

section \<open>Entries\<close>

datatype io_error = Not_Found | Permission_Denied | Not_A_Directory | Other_Io string

datatype body = Regular string | Directory | Symlink string | Special

text \<open>\<open>nd_extent\<close> is the length that metadata reports of anything but a regular file.\<close>

record node =
  nd_body :: body
  nd_dev :: nat
  nd_ino :: nat
  nd_mtime :: "(nat \<times> nat) option"
  nd_extent :: nat

record disk =
  entries :: "(path \<times> node) list"
  refused :: "path \<Rightarrow> io_error option"  \<comment> \<open>of looking the entry up\<close>
  barred :: "path \<Rightarrow> io_error option"  \<comment> \<open>of opening it\<close>

definition meta_len :: "node \<Rightarrow> nat" where
  "meta_len n = (case nd_body n of Regular s \<Rightarrow> length s | _ \<Rightarrow> nd_extent n)"

definition entry :: "disk \<Rightarrow> path \<Rightarrow> io_error + node" where
  "entry os p =
     (case refused os p of
        Some e \<Rightarrow> Inl e
      | None \<Rightarrow> (case map_of (entries os) p of None \<Rightarrow> Inl Not_Found | Some n \<Rightarrow> Inr n))"

definition is_dir :: "disk \<Rightarrow> path \<Rightarrow> bool" where
  "is_dir os p = (case entry os p of Inr n \<Rightarrow> nd_body n = Directory | Inl _ \<Rightarrow> False)"

section \<open>Looking a path up\<close>

text \<open>
  \<open>canon\<close> walks the components from a directory it has resolved.  With \<open>creating\<close>, a last name that
  is not there is answered as the place it would be made at (what \<^verbatim>\<open>File::create\<close> resolves);
  without, this is \<^verbatim>\<open>std::fs::canonicalize\<close>.
\<close>

definition LINKS :: nat where
  "LINKS = 40"

function canon :: "bool \<Rightarrow> disk \<Rightarrow> nat \<Rightarrow> path \<Rightarrow> component list \<Rightarrow> io_error + path" where
  "canon creating os b cur [] = Inr cur"
| "canon creating os b cur (RootDir # r) = canon creating os b [] r"
| "canon creating os b cur (CurDir # r) = canon creating os b cur r"
| "canon creating os b cur (ParentDir # r) =
     (if is_dir os cur then canon creating os b (butlast cur) r else Inl Not_A_Directory)"
| "canon creating os b cur (Normal n # r) =
     (if \<not> is_dir os cur then Inl Not_A_Directory
      else case entry os (cur @ [n]) of
        Inl e \<Rightarrow> (if creating \<and> r = [] \<and> e = Not_Found then Inr (cur @ [n]) else Inl e)
      | Inr nd \<Rightarrow>
          (case nd_body nd of
             Symlink t \<Rightarrow>
               (case b of
                  0 \<Rightarrow> Inl (Other_Io ''too many levels of symbolic links'')
                | Suc b' \<Rightarrow> canon creating os b' cur (components t @ r))
           | _ \<Rightarrow> canon creating os b (cur @ [n]) r))"
  by pat_completeness auto
termination
  by (relation "measures [\<lambda>(c, os, b, cur, r). b, \<lambda>(c, os, b, cur, r). length r]") auto

definition canonicalize :: "disk \<Rightarrow> path \<Rightarrow> io_error + path" where
  "canonicalize os p = canon False os LINKS [] (map Normal p)"

text \<open>\<^verbatim>\<open>std::fs::metadata\<close> follows the last link, \<^verbatim>\<open>symlink_metadata\<close> does not.\<close>

definition metadata :: "disk \<Rightarrow> path \<Rightarrow> io_error + node" where
  "metadata os p = (case canonicalize os p of Inl e \<Rightarrow> Inl e | Inr q \<Rightarrow> entry os q)"

definition lplace :: "disk \<Rightarrow> path \<Rightarrow> io_error + path" where
  "lplace os p =
     (if p = [] then Inr []
      else case canonicalize os (butlast p) of
        Inl e \<Rightarrow> Inl e
      | Inr q \<Rightarrow> (if is_dir os q then Inr (q @ [last p]) else Inl Not_A_Directory))"

definition symlink_metadata :: "disk \<Rightarrow> path \<Rightarrow> io_error + node" where
  "symlink_metadata os p = (case lplace os p of Inl e \<Rightarrow> Inl e | Inr q \<Rightarrow> entry os q)"

text \<open>\<^verbatim>\<open>read_dir\<close>: the names of a directory, in the order the disk keeps them.\<close>

definition children :: "disk \<Rightarrow> path \<Rightarrow> string list" where
  "children os p = map last (filter (\<lambda>q. q \<noteq> [] \<and> butlast q = p) (map fst (entries os)))"

definition read_dir :: "disk \<Rightarrow> path \<Rightarrow> io_error + (path \<times> string list)" where
  "read_dir os p =
     (case canonicalize os p of
        Inl e \<Rightarrow> Inl e
      | Inr q \<Rightarrow>
          (if \<not> is_dir os q then Inl Not_A_Directory
           else case barred os q of Some e \<Rightarrow> Inl e | None \<Rightarrow> Inr (q, children os q)))"

text \<open>\<^verbatim>\<open>std::fs::read\<close>: the bytes of a regular file.\<close>

definition read_bytes_of :: "disk \<Rightarrow> path \<Rightarrow> io_error + string" where
  "read_bytes_of os p =
     (case canonicalize os p of
        Inl e \<Rightarrow> Inl e
      | Inr q \<Rightarrow>
          (case barred os q of
             Some e \<Rightarrow> Inl e
           | None \<Rightarrow>
               (case entry os q of
                  Inl e \<Rightarrow> Inl e
                | Inr nd \<Rightarrow> (case nd_body nd of Regular s \<Rightarrow> Inr s | _ \<Rightarrow> Inl (Other_Io ''not a file'')))))"

end
