(* ===== verification/Fence.thy ===== *)
theory Fence
  imports Disk
begin

text \<open>
  Path containment, \<^verbatim>\<open>crates/turn/src/fs.rs\<close>: a requested path is walked one component at a
  time, each prefix canonicalized as soon as there is something to canonicalize, and the place it
  ends at is judged against the canonical root.  This is the Unix build: no prefixes, names compare
  as they are spelled.  \<open>cwd\<close> is the process's working directory.
\<close>

section \<open>The walk and the judgement\<close>

text \<open>A root that cannot be resolved keeps the kind of the failure and the words of the system.\<close>

datatype fence_error = Denied string string string | RootUnresolved string io_error string

fun io_text :: "io_error \<Rightarrow> string" where
  "io_text Not_Found = ''No such file or directory (os error 2)''"
| "io_text Permission_Denied = ''Permission denied (os error 13)''"
| "io_text Not_A_Directory = ''Not a directory (os error 20)''"
| "io_text (Other_Io m) = m"

fun fence_error_text :: "(string \<Rightarrow> string) \<Rightarrow> fence_error \<Rightarrow> string" where
  "fence_error_text debug (Denied requested at root) =
     ''path '' @ debug requested @ '' resolves to '' @ at @ '' which is outside the workspace '' @ root"
| "fence_error_text debug (RootUnresolved root _ m) =
     ''workspace root '' @ root @ '' could not be resolved: '' @ m"

record resolved =
  rs_path :: path
  rs_exists :: bool

record workspace =
  ws_root :: path

definition new_workspace :: "disk \<Rightarrow> path \<Rightarrow> string \<Rightarrow> fence_error + workspace" where
  "new_workspace os cwd root =
     (case (if root = [] then Inl Not_Found else canon False os LINKS cwd (components root)) of
        Inl e \<Rightarrow> Inl (RootUnresolved root e (io_text e))
      | Inr q \<Rightarrow>
          (case metadata os q of
             Inr nd \<Rightarrow>
               (if nd_body nd = Directory then Inr \<lparr>ws_root = q\<rparr>
                else Inl (RootUnresolved root Not_A_Directory ''a workspace root must be a directory''))
           | Inl _ \<Rightarrow> Inl (RootUnresolved root Not_A_Directory ''a workspace root must be a directory'')))"

fun walk_step :: "disk \<Rightarrow> path \<Rightarrow> component \<Rightarrow> path" where
  "walk_step os cur RootDir = []"
| "walk_step os cur CurDir = cur"
| "walk_step os cur ParentDir = butlast cur"
| "walk_step os cur (Normal n) =
     (case canonicalize os (cur @ [n]) of Inr q \<Rightarrow> q | Inl _ \<Rightarrow> cur @ [n])"

definition walk :: "disk \<Rightarrow> workspace \<Rightarrow> string \<Rightarrow> path" where
  "walk os ws req =
     foldl (walk_step os) (if is_absolute req then [] else ws_root ws) (components req)"

definition id_of :: "node \<Rightarrow> nat \<times> nat" where
  "id_of nd = (nd_dev nd, nd_ino nd)"

definition lexically_under :: "path \<Rightarrow> path \<Rightarrow> bool" where
  "lexically_under p root \<longleftrightarrow> p = root \<or> below root p"

definition ancestors :: "path \<Rightarrow> path list" where
  "ancestors p = map (\<lambda>k. take k p) (rev [0..<Suc (length p)])"

definition same_file_ancestor :: "disk \<Rightarrow> path \<Rightarrow> path \<Rightarrow> bool" where
  "same_file_ancestor os p root =
     (case metadata os root of
        Inl _ \<Rightarrow> False
      | Inr r \<Rightarrow>
          list_ex (\<lambda>a. case metadata os a of Inr m \<Rightarrow> id_of m = id_of r | Inl _ \<Rightarrow> False) (ancestors p))"

definition contains :: "disk \<Rightarrow> workspace \<Rightarrow> path \<Rightarrow> bool" where
  "contains os ws p \<longleftrightarrow> lexically_under p (ws_root ws) \<or> same_file_ancestor os p (ws_root ws)"

definition resolve_path :: "disk \<Rightarrow> workspace \<Rightarrow> string \<Rightarrow> fence_error + resolved" where
  "resolve_path os ws req =
     (let p = walk os ws req
      in if \<not> contains os ws p then Inl (Denied req (shown p) (shown (ws_root ws)))
         else Inr \<lparr>rs_path = p, rs_exists = (case symlink_metadata os p of Inr _ \<Rightarrow> True | Inl _ \<Rightarrow> False)\<rparr>)"

section \<open>Plain paths\<close>

text \<open>A path with no link on it: looking it up leads to itself.\<close>

definition plain :: "disk \<Rightarrow> path \<Rightarrow> bool" where
  "plain os p \<longleftrightarrow>
     (\<forall>k<length p. is_dir os (take k p)
        \<and> (\<exists>nd. entry os (take (Suc k) p) = Inr nd \<and> (\<forall>t. nd_body nd \<noteq> Symlink t)))"

lemma plain_Nil [simp]: "plain os []"
  by (simp add: plain_def)

lemma plain_snoc:
  "plain os (p @ [n]) \<longleftrightarrow>
     plain os p \<and> is_dir os p \<and> (\<exists>nd. entry os (p @ [n]) = Inr nd \<and> (\<forall>t. nd_body nd \<noteq> Symlink t))"
  by (auto simp: plain_def less_Suc_eq all_conj_distrib)

lemma plain_take: "plain os p \<Longrightarrow> plain os (take k p)"
  by (auto simp: plain_def min_def)

lemma plain_below: "plain os (p @ q) \<Longrightarrow> plain os p"
  using plain_take [of os "p @ q" "length p"] by simp

lemma plain_butlast: "plain os p \<Longrightarrow> plain os (butlast p)"
  by (simp add: butlast_conv_take plain_take)

lemma plain_canon:
  "plain os (cur @ p) \<Longrightarrow> canon cr os b cur (map Normal p @ r) = canon cr os b (cur @ p) r"
proof (induction p arbitrary: cur)
  case (Cons n p)
  then have "plain os ((cur @ [n]) @ p)" by simp
  with plain_below have "plain os (cur @ [n])" by blast
  then obtain nd where "is_dir os cur" and "entry os (cur @ [n]) = Inr nd"
    and "\<forall>t. nd_body nd \<noteq> Symlink t"
    by (auto simp: plain_snoc)
  then show ?case
    using Cons by (auto split: body.split)
qed simp

lemma canonicalize_plain: "plain os p \<Longrightarrow> canonicalize os p = Inr p"
  using plain_canon [of os "[]" p False LINKS "[]"] by (simp add: canonicalize_def)

lemma metadata_plain: "plain os p \<Longrightarrow> metadata os p = entry os p"
  by (simp add: metadata_def canonicalize_plain)

lemma canon_ends_plain: "canon False os b cur cs = Inr q \<Longrightarrow> plain os cur \<Longrightarrow> plain os q"
proof (induction "False" os b cur cs rule: canon.induct)
  case (5 os b cur n r)
  then show ?case
    by (auto simp: plain_snoc split: if_splits sum.splits body.splits nat.splits)
qed (auto simp: plain_butlast split: if_splits)

lemma canonicalize_ends_plain: "canonicalize os p = Inr q \<Longrightarrow> plain os q"
  by (auto simp: canonicalize_def intro: canon_ends_plain)

lemma canon_fails_early: "canon False os b cur cs = Inl e \<Longrightarrow> canon False os b cur (cs @ ds) = Inl e"
proof (induction "False" os b cur cs rule: canon.induct)
  case (5 os b cur n r)
  then show ?case
    by (auto split: if_splits sum.splits body.splits nat.splits)
qed (auto split: if_splits)

lemma canonicalize_fails_early:
  "canonicalize os p = Inl e \<Longrightarrow> canonicalize os (p @ q) = Inl e"
  by (simp add: canonicalize_def canon_fails_early)

text \<open>What the walk has in hand: a plain path, and behind it names the first of which leads nowhere.\<close>

definition judged :: "disk \<Rightarrow> path \<Rightarrow> bool" where
  "judged os p \<longleftrightarrow>
     (\<exists>c l. p = c @ l \<and> plain os c \<and> (l \<noteq> [] \<longrightarrow> (\<exists>e. canonicalize os (c @ [hd l]) = Inl e)))"

lemma judged_plain: "plain os p \<Longrightarrow> judged os p"
  by (auto simp: judged_def)

lemma judged_canonicalize: "judged os p \<Longrightarrow> canonicalize os p = Inr q \<Longrightarrow> q = p \<and> plain os p"
proof -
  assume j: "judged os p" and q: "canonicalize os p = Inr q"
  from j obtain c l where p: "p = c @ l" and c: "plain os c"
    and l: "l \<noteq> [] \<longrightarrow> (\<exists>e. canonicalize os (c @ [hd l]) = Inl e)"
    by (auto simp: judged_def)
  have "l = []"
  proof (rule ccontr)
    assume "l \<noteq> []"
    with l obtain e where "canonicalize os (c @ [hd l]) = Inl e" by blast
    from canonicalize_fails_early [OF this, of "tl l"] \<open>l \<noteq> []\<close> p q show False by simp
  qed
  with p c q show ?thesis by (simp add: canonicalize_plain)
qed

lemma judged_step: "judged os p \<Longrightarrow> judged os (walk_step os p x)"
proof (cases x)
  case ParentDir
  assume "judged os p"
  then obtain c l where p: "p = c @ l" and c: "plain os c"
    and l: "l \<noteq> [] \<longrightarrow> (\<exists>e. canonicalize os (c @ [hd l]) = Inl e)"
    by (auto simp: judged_def)
  show ?thesis
  proof (cases "l = []")
    case True
    with p c ParentDir show ?thesis by (simp add: judged_plain plain_butlast)
  next
    case False
    have "butlast l \<noteq> [] \<Longrightarrow> hd (butlast l) = hd l" by (cases l) auto
    moreover have "walk_step os p x = c @ butlast l"
      using False p ParentDir by (simp add: butlast_append)
    ultimately show ?thesis
      using False c l unfolding judged_def by metis
  qed
next
  case (Normal n)
  assume j: "judged os p"
  show ?thesis
  proof (cases "canonicalize os (p @ [n])")
    case (Inr q)
    with Normal show ?thesis by (simp add: judged_plain canonicalize_ends_plain)
  next
    case (Inl e)
    from j obtain c l where p: "p = c @ l" and c: "plain os c"
      and l: "l \<noteq> [] \<longrightarrow> (\<exists>e. canonicalize os (c @ [hd l]) = Inl e)"
      by (auto simp: judged_def)
    have "\<exists>e. canonicalize os (c @ [hd (l @ [n])]) = Inl e"
      using l Inl p by (cases l) auto
    moreover have "walk_step os p x = c @ (l @ [n])"
      using p Inl Normal by simp
    ultimately show ?thesis
      using c unfolding judged_def by metis
  qed
qed (auto simp: judged_plain)

lemma judged_walk: "plain os (ws_root ws) \<Longrightarrow> judged os (walk os ws req)"
proof -
  have "judged os p \<Longrightarrow> judged os (foldl (walk_step os) p cs)" for p cs
    by (induction cs arbitrary: p) (auto simp: judged_step)
  then show "plain os (ws_root ws) \<Longrightarrow> judged os (walk os ws req)"
    by (simp add: walk_def judged_plain)
qed

lemma new_workspace_plain:
  assumes "new_workspace os cwd root = Inr ws" and "plain os cwd"
  shows "plain os (ws_root ws)" and "is_dir os (ws_root ws)"
proof -
  obtain q where q: "canon False os LINKS cwd (components root) = Inr q" "ws = \<lparr>ws_root = q\<rparr>"
    "case metadata os q of Inr nd \<Rightarrow> nd_body nd = Directory | Inl _ \<Rightarrow> False"
    using assms(1) by (auto simp: new_workspace_def split: sum.splits if_splits)
  with assms(2) show p: "plain os (ws_root ws)" by (simp add: canon_ends_plain)
  from q p show "is_dir os (ws_root ws)"
    by (simp add: metadata_plain is_dir_def split: sum.splits)
qed

section \<open>Containment\<close>

text \<open>
  A place is inside a workspace when one of the directories above it (or itself) is the workspace's
  root, by name or by the identity the file system gives it: a second mount of the root counts.
\<close>

definition is_root :: "disk \<Rightarrow> workspace \<Rightarrow> path \<Rightarrow> bool" where
  "is_root os ws a \<longleftrightarrow> a = ws_root ws
     \<or> (\<exists>m r. entry os a = Inr m \<and> entry os (ws_root ws) = Inr r \<and> id_of m = id_of r)"

definition inside :: "disk \<Rightarrow> workspace \<Rightarrow> path \<Rightarrow> bool" where
  "inside os ws q \<longleftrightarrow> (\<exists>a. below a q \<and> is_root os ws a)"

lemma ancestors_below: "a \<in> set (ancestors p) \<Longrightarrow> below a p"
  by (auto simp: ancestors_def below_def)

lemma inside_above: "inside os ws (butlast p) \<Longrightarrow> inside os ws p"
  unfolding inside_def using below_trans below_iff
  by (metis append_butlast_last_id append_Nil2 butlast.simps(1))

lemma same_file_ancestorD:
  "same_file_ancestor os p root \<Longrightarrow>
     \<exists>r a m. metadata os root = Inr r \<and> a \<in> set (ancestors p) \<and> metadata os a = Inr m \<and> id_of m = id_of r"
  by (cases "metadata os root") (auto simp: same_file_ancestor_def list_ex_iff split: sum.splits, metis sum.exhaust)

lemma contains_inside:
  assumes "contains os ws p" and j: "judged os p" and r: "plain os (ws_root ws)"
  shows "\<exists>a. below a p \<and> plain os a \<and> is_root os ws a"
proof -
  consider (lex) "below (ws_root ws) p"
    | (id) rn a m where "metadata os (ws_root ws) = Inr rn" and "a \<in> set (ancestors p)"
        and "metadata os a = Inr m" and "id_of m = id_of rn"
    using assms(1)
    using same_file_ancestorD unfolding contains_def lexically_under_def by (metis below_refl)
  then show ?thesis
  proof cases
    case lex
    with r show ?thesis by (auto simp: is_root_def)
  next
    case id
    from j obtain c l where p: "p = c @ l" and c: "plain os c"
      and l: "l \<noteq> [] \<longrightarrow> (\<exists>e. canonicalize os (c @ [hd l]) = Inl e)"
      by (auto simp: judged_def)
    from id(2) obtain k where k: "a = take k p" by (auto simp: ancestors_def intro: that [of "length p"])
    have "plain os a"
    proof (cases "k \<le> length c")
      case True
      with k p c show ?thesis by (simp add: plain_take)
    next
      case False
      show ?thesis
      proof (cases "l = []")
        case True
        with k p c show ?thesis by (simp add: plain_take)
      next
        case ne: False
        with l obtain e where e: "canonicalize os (c @ [hd l]) = Inl e" by blast
        from False obtain i where "k = length c + Suc i"
          by (metis less_imp_Suc_add linorder_not_le add_Suc_right)
        with k p ne have "a = (c @ [hd l]) @ take i (tl l)" by (cases l) auto
        with canonicalize_fails_early [OF e] id(3) show ?thesis by (simp add: metadata_def)
      qed
    qed
    with id r ancestors_below [OF id(2)] show ?thesis
      by (auto simp: is_root_def metadata_plain)
  qed
qed

lemma resolve_pathD:
  assumes "resolve_path os ws req = Inr r"
  shows "rs_path r = walk os ws req" and "contains os ws (rs_path r)"
  using assms by (auto simp: resolve_path_def Let_def split: if_splits)

lemma resolved_inside:
  assumes ws: "plain os (ws_root ws)" and r: "resolve_path os ws req = Inr r"
  shows "canonicalize os (rs_path r) = Inr q \<Longrightarrow> q = rs_path r \<and> inside os ws q"
    and "canonicalize os (butlast (rs_path r)) = Inr q \<Longrightarrow> \<not> is_root os ws (rs_path r) \<Longrightarrow>
      q = butlast (rs_path r) \<and> inside os ws q"
proof -
  note j = judged_walk [OF ws, of req] and p = resolve_pathD [OF r]
  from contains_inside [OF p(2) _ ws] j p(1)
  obtain a where a: "below a (rs_path r)" "plain os a" "is_root os ws a" by auto
  {
    assume "canonicalize os (rs_path r) = Inr q"
    with judged_canonicalize j p(1) have "q = rs_path r" by metis
    with a show "q = rs_path r \<and> inside os ws q" by (auto simp: inside_def)
  next
    assume q: "canonicalize os (butlast (rs_path r)) = Inr q" and n: "\<not> is_root os ws (rs_path r)"
    have "judged os (walk_step os (rs_path r) ParentDir)"
      using judged_step j p(1) by metis
    with q judged_canonicalize have "q = butlast (rs_path r)" by (metis walk_step.simps(3))
    moreover have "below a (butlast (rs_path r))"
    proof -
      from a(1) obtain t where t: "rs_path r = a @ t" by (auto simp: below_iff)
      with n a(3) have "t \<noteq> []" by auto
      with t show ?thesis by (auto simp: butlast_append below_iff)
    qed
    ultimately show "q = butlast (rs_path r) \<and> inside os ws q"
      using a(3) by (auto simp: inside_def)
  }
qed

text \<open>Everything that is under the root can be named: the relative spelling of a path leads to it.\<close>

lemma split_sep_word: "SEP \<notin> set w \<Longrightarrow> split_sep w = [w]"
  by (induction w) auto

lemma split_sep_join:
  "ws \<noteq> [] \<Longrightarrow> \<forall>w\<in>set ws. SEP \<notin> set w \<Longrightarrow> split_sep (join [SEP] ws) = ws"
proof (induction ws rule: induct_list012)
  case (3 x y ws)
  have "SEP \<notin> set x \<Longrightarrow> split_sep (x @ SEP # s) = x # split_sep s" for s
    by (induction x) auto
  with 3 show ?case by simp
qed (auto simp: split_sep_word)

lemma components_relative:
  assumes "p \<noteq> []" and "\<forall>n\<in>set p. is_name n"
  shows "components (relative p) = map Normal p"
proof -
  have s: "split_sep (relative p) = p"
    using assms by (simp add: relative_def split_sep_join is_name_def)
  have "\<not> is_absolute (relative p)"
  proof
    assume "is_absolute (relative p)"
    then obtain t where "relative p = SEP # t" by (cases "relative p") (auto simp: is_absolute_def)
    with s have "[] \<in> set p" by auto
    with assms show False by (auto simp: is_name_def)
  qed
  moreover have "concat (map component_of p) = map Normal p"
    using assms(2) by (induction p) (auto simp: component_of_def is_name_def)
  moreover have "hd p \<noteq> ''.''"
    using assms by (cases p) (auto simp: is_name_def)
  ultimately show ?thesis by (simp add: components_def s)
qed

lemma walk_plain:
  "plain os (cur @ p) \<Longrightarrow> foldl (walk_step os) cur (map Normal p) = cur @ p"
proof (induction p arbitrary: cur)
  case (Cons n p)
  then have "plain os ((cur @ [n]) @ p)" by simp
  with Cons.IH have "foldl (walk_step os) (cur @ [n]) (map Normal p) = cur @ n # p" by force
  moreover have "plain os (cur @ [n])" using plain_below \<open>plain os ((cur @ [n]) @ p)\<close> by blast
  ultimately show ?case by (simp add: canonicalize_plain)
qed simp

lemma resolve_relative:
  assumes "plain os (ws_root ws @ p)" and "p \<noteq> []" and "\<forall>n\<in>set p. is_name n"
  shows "\<exists>r. resolve_path os ws (relative p) = Inr r \<and> rs_path r = ws_root ws @ p"
proof -
  have c: "components (relative p) = map Normal p" using components_relative assms by blast
  then have "\<not> is_absolute (relative p)" using assms(2) by (auto simp: components_def map_eq_append_conv)
  with c have w: "walk os ws (relative p) = ws_root ws @ p"
    using walk_plain [OF assms(1)] by (simp add: walk_def)
  then show ?thesis
    by (simp add: resolve_path_def Let_def contains_def lexically_under_def below_iff)
qed

end
