(* ===== verification/Utf8.thy ===== *)
theory Utf8
  imports Prelude
begin

text \<open>
  Well-formed UTF-8 taken character by character: an induction rule for \<^const>\<open>valid_utf8\<close> whose
  step is one character, and from it what the components that cut text rely on - that a cut
  between characters leaves well-formed text on both sides, and that nothing else does.
\<close>

lemma cont_range_in: "byte_in lo hi c \<Longrightarrow> 128 \<le> lo \<Longrightarrow> hi \<le> 191 \<Longrightarrow> is_cont c"
  by (simp add: byte_in_def is_cont_def)

lemma valid_not_cont: "valid_utf8 (a # s) \<Longrightarrow> \<not> is_cont a"
proof
  assume "is_cont a" and v: "valid_utf8 (a # s)"
  then have "\<not> byte_in 0 127 a \<and> \<not> byte_in 194 223 a \<and> \<not> byte_in 224 239 a \<and> \<not> byte_in 240 244 a"
    by (auto simp: byte_in_def is_cont_def)
  with v show False by simp
qed

lemma valid_char:
  assumes "valid_utf8 (a # s)"
  obtains p t where "s = p @ t" "\<forall>c\<in>set p. is_cont c" "length p \<le> 3" "\<And>x. valid_utf8 (a # p @ x) = valid_utf8 x"
proof (cases "byte_in 0 127 a")
  case True
  then show ?thesis using that [of "[]" s] by simp
next
  case one: False
  show ?thesis
  proof (cases "byte_in 194 223 a")
    case True
    then obtain b t where "s = [b] @ t" "is_cont b" using assms one by (cases s) auto
    then show ?thesis using that [of "[b]" t] one True by simp
  next
    case two: False
    show ?thesis
    proof (cases "byte_in 224 239 a")
      case True
      then obtain b c t where s: "s = [b, c] @ t" using assms one two by (auto split: list.splits)
      have *: "(if byte_in 224 224 a then byte_in 160 191 b
                else if byte_in 237 237 a then byte_in 128 159 b else is_cont b) \<and> is_cont c"
        using assms one two True by (simp add: s)
      then have "is_cont b \<and> is_cont c" by (auto dest: cont_range_in split: if_split_asm)
      with * show ?thesis using that [of "[b, c]" t] s one two True by simp
    next
      case three: False
      then obtain b c d t where s: "s = [b, c, d] @ t" and four: "byte_in 240 244 a"
        using assms one two by (auto split: list.splits if_split_asm)
      have *: "(if byte_in 240 240 a then byte_in 144 191 b
                else if byte_in 244 244 a then byte_in 128 143 b else is_cont b) \<and> is_cont c \<and> is_cont d"
        using assms one two three four by (simp add: s)
      then have "is_cont b \<and> is_cont c \<and> is_cont d" by (auto dest: cont_range_in split: if_split_asm)
      with * show ?thesis using that [of "[b, c, d]" t] s one two three four by simp
    qed
  qed
qed

lemma valid_utf8_induct [consumes 1, case_names empty char]:
  assumes "valid_utf8 s" and "P []"
    and step: "\<And>a p t. \<lbrakk>\<not> is_cont a; \<forall>c\<in>set p. is_cont c; length p \<le> 3; \<And>x. valid_utf8 (a # p @ x) = valid_utf8 x;
      valid_utf8 t; P t\<rbrakk> \<Longrightarrow> P (a # p @ t)"
  shows "P s"
  using assms(1)
proof (induction "length s" arbitrary: s rule: less_induct)
  case less
  show ?case
  proof (cases s)
    case (Cons a u)
    with less.prems have v: "valid_utf8 (a # u)" by simp
    from valid_char [OF v] obtain p t where p: "u = p @ t" "\<forall>c\<in>set p. is_cont c" "length p \<le> 3"
      "\<And>x. valid_utf8 (a # p @ x) = valid_utf8 x" by metis
    with v have t: "valid_utf8 t" by metis
    with less.hyps [of t] have "P t" by (simp add: Cons p(1))
    with step [OF valid_not_cont [OF v] p(2,3,4) t] show ?thesis by (simp add: Cons p(1))
  qed (use assms(2) in simp)
qed

lemma valid_hd: "valid_utf8 s \<Longrightarrow> s = [] \<or> \<not> is_cont (hd s)"
  by (cases s) (auto simp del: valid_utf8.simps dest: valid_not_cont)

declare valid_utf8.simps(2) [simp del]

lemma valid_append: "valid_utf8 a \<Longrightarrow> valid_utf8 (a @ b) \<longleftrightarrow> valid_utf8 b"
  by (induction a rule: valid_utf8_induct) auto

text \<open>A character: one leading byte and its continuation bytes.\<close>

definition one_char :: "string \<Rightarrow> bool" where
  "one_char g \<longleftrightarrow> valid_utf8 g \<and> utf8_chars g = [g]"

lemma chars_step:
  "\<forall>c\<in>set p. is_cont c \<Longrightarrow> valid_utf8 t \<Longrightarrow> utf8_chars (a # p @ t) = (a # p) # utf8_chars t"
  using valid_hd [of t] by (cases t) (auto simp: span_cont takeWhile_append2 dropWhile_append2)

lemma chars_append: "valid_utf8 b \<Longrightarrow> utf8_chars (a @ b) = utf8_chars a @ utf8_chars b"
  using utf8_chars_append valid_hd by blast

lemma valid_chars: "valid_utf8 s \<Longrightarrow> \<forall>g\<in>set (utf8_chars s). one_char g \<and> length g \<le> 4"
proof (induction s rule: valid_utf8_induct)
  case (char a p t)
  have "valid_utf8 (a # p)" using char(4) [of "[]"] by simp
  moreover have "utf8_chars (a # p) = [a # p]" using chars_step [of p "[]" a] char(2) by simp
  ultimately show ?case
    using char by (auto simp: chars_step one_char_def simp del: utf8_chars.simps(2))
qed simp

lemma valid_concat: "\<forall>g\<in>set gs. valid_utf8 g \<Longrightarrow> valid_utf8 (concat gs)"
  by (induction gs) (auto simp: valid_append)

lemma chars_concat: "\<forall>g\<in>set gs. one_char g \<Longrightarrow> utf8_chars (concat gs) = gs"
proof (induction gs)
  case (Cons g gs)
  then have "valid_utf8 (concat gs)" by (auto simp: one_char_def intro!: valid_concat)
  with Cons show ?case by (simp add: chars_append one_char_def)
qed simp

lemma one_char_nonempty: "one_char g \<Longrightarrow> g \<noteq> []"
  by (auto simp: one_char_def)

text \<open>The well-formed suffixes of a text are the ones that start between two of its characters.\<close>

lemma valid_suffix_iff:
  assumes "valid_utf8 s"
  shows "(\<exists>a. s = a @ t \<and> valid_utf8 a) \<longleftrightarrow> (\<exists>i\<le>length (utf8_chars s). t = concat (drop i (utf8_chars s)))"
proof
  assume "\<exists>a. s = a @ t \<and> valid_utf8 a"
  then obtain a where a: "s = a @ t" "valid_utf8 a" by blast
  with assms have t: "valid_utf8 t" using valid_append by blast
  with a have "utf8_chars s = utf8_chars a @ utf8_chars t" by (simp add: chars_append)
  then show "\<exists>i\<le>length (utf8_chars s). t = concat (drop i (utf8_chars s))"
    by (intro exI [of _ "length (utf8_chars a)"]) simp
next
  assume "\<exists>i\<le>length (utf8_chars s). t = concat (drop i (utf8_chars s))"
  then obtain i where t: "t = concat (drop i (utf8_chars s))" by blast
  have "s = concat (take i (utf8_chars s)) @ t"
    unfolding t by (metis append_take_drop_id concat_append concat_utf8_chars)
  moreover have "valid_utf8 (concat (take i (utf8_chars s)))"
    using valid_chars [OF assms] by (intro valid_concat) (auto simp: one_char_def dest: in_set_takeD)
  ultimately show "\<exists>a. s = a @ t \<and> valid_utf8 a" by blast
qed

end
