(* ===== verification/Glob.thy ===== *)
theory Glob
  imports Disk Utf8
begin

text \<open>
  The pattern language of the file tools and its matcher, \<^verbatim>\<open>crates/fs/src/glob.rs\<close>: a pattern is
  read into segments, a segment into tokens, and both matchers backtrack over every split of what
  is left.  The theorem compares them with what the patterns say: a path matches when it can be cut
  into pieces that the segments stand for.
\<close>

section \<open>Patterns\<close>

datatype glob_token = Literal string | AnyRun | OneChar

datatype segment = AnyDepth | Name "glob_token list"

record pattern =
  p_segments :: "segment list"
  p_hidden :: bool

datatype bad_pattern = NamesNothing | IsAbsolute | WalksUpwards

fun tokens_of :: "string \<Rightarrow> string list \<Rightarrow> glob_token list" where
  "tokens_of lit [] = (if lit \<noteq> [] then [Literal lit] else [])"
| "tokens_of lit (ch # cs) =
     (if ch = ''*'' \<or> ch = ''?'' then
        (if lit \<noteq> [] then [Literal lit] else []) @ (if ch = ''*'' then AnyRun else OneChar) # tokens_of [] cs
      else tokens_of (lit @ ch) cs)"

definition glob_tokens :: "string \<Rightarrow> glob_token list" where
  "glob_tokens name = tokens_of [] (utf8_chars name)"

fun parse_segments :: "string list \<Rightarrow> pattern \<Rightarrow> bad_pattern + pattern" where
  "parse_segments [] pt = Inr pt"
| "parse_segments (raw # raws) pt =
     (if raw = [] \<or> raw = ''.'' then parse_segments raws pt
      else if raw = ''..'' then Inl WalksUpwards
      else if raw = ''**'' then parse_segments raws (pt\<lparr>p_segments := p_segments pt @ [AnyDepth]\<rparr>)
      else parse_segments raws
        \<lparr>p_segments = p_segments pt @ [Name (glob_tokens raw)],
         p_hidden = (p_hidden pt \<or> hd raw = CHR ''.'')\<rparr>)"

definition parse_pattern :: "string \<Rightarrow> bad_pattern + pattern" where
  "parse_pattern s =
     (if trim s = [] then Inl NamesNothing
      else if hd s = SEP then Inl IsAbsolute
      else case parse_segments (split_sep s) \<lparr>p_segments = [], p_hidden = False\<rparr> of
        Inl e \<Rightarrow> Inl e
      | Inr pt \<Rightarrow> (if p_segments pt = [] then Inl NamesNothing else Inr pt))"

section \<open>The matcher\<close>

definition strip_prefix :: "string \<Rightarrow> string \<Rightarrow> string option" where
  "strip_prefix t s = (if take (length t) s = t then Some (drop (length t) s) else None)"

text \<open>The suffixes of a name that start between its characters, the whole name first.\<close>

definition char_suffixes :: "string \<Rightarrow> string list" where
  "char_suffixes s = map (\<lambda>i. concat (drop i (utf8_chars s))) [0..<Suc (length (utf8_chars s))]"

fun name_matches :: "glob_token list \<Rightarrow> string \<Rightarrow> bool" where
  "name_matches [] s = (s = [])"
| "name_matches (Literal t # r) s =
     (case strip_prefix t s of Some tail \<Rightarrow> name_matches r tail | None \<Rightarrow> False)"
| "name_matches (OneChar # r) s =
     (case utf8_chars s of [] \<Rightarrow> False | c # cs \<Rightarrow> name_matches r (concat cs))"
| "name_matches (AnyRun # r) s = (if r = [] then True else list_ex (name_matches r) (char_suffixes s))"

fun walk_segments :: "segment list \<Rightarrow> string list \<Rightarrow> bool" where
  "walk_segments [] parts = (parts = [])"
| "walk_segments (AnyDepth # r) parts =
     (if r = [] then True
      else list_ex (\<lambda>skip. walk_segments r (drop skip parts)) [0..<Suc (length parts)])"
| "walk_segments (Name t # r) parts =
     (case parts of [] \<Rightarrow> False | p # ps \<Rightarrow> name_matches t p \<and> walk_segments r ps)"

definition matches :: "pattern \<Rightarrow> string list \<Rightarrow> bool" where
  "matches pt parts = walk_segments (p_segments pt) parts"

section \<open>What a pattern says\<close>

text \<open>The text a token stands for, and the parts of a path a segment stands for.\<close>

fun token_says :: "glob_token \<Rightarrow> string \<Rightarrow> bool" where
  "token_says (Literal t) s \<longleftrightarrow> s = t"
| "token_says OneChar s \<longleftrightarrow> one_char s"
| "token_says AnyRun s \<longleftrightarrow> valid_utf8 s"

definition name_says :: "glob_token list \<Rightarrow> string \<Rightarrow> bool" where
  "name_says ts s \<longleftrightarrow> (\<exists>pieces. list_all2 token_says ts pieces \<and> concat pieces = s)"

fun segment_says :: "segment \<Rightarrow> string list \<Rightarrow> bool" where
  "segment_says AnyDepth ps \<longleftrightarrow> True"
| "segment_says (Name ts) ps \<longleftrightarrow> (\<exists>p. ps = [p] \<and> name_says ts p)"

definition pattern_says :: "segment list \<Rightarrow> string list \<Rightarrow> bool" where
  "pattern_says sg parts \<longleftrightarrow> (\<exists>pieces. list_all2 segment_says sg pieces \<and> concat pieces = parts)"

lemma name_says_Nil: "name_says [] s \<longleftrightarrow> s = []"
  by (auto simp: name_says_def)

lemma name_says_Cons: "name_says (t # ts) s \<longleftrightarrow> (\<exists>a b. s = a @ b \<and> token_says t a \<and> name_says ts b)"
  by (fastforce simp: name_says_def list_all2_Cons1)

lemma pattern_says_Nil: "pattern_says [] ps \<longleftrightarrow> ps = []"
  by (auto simp: pattern_says_def)

lemma pattern_says_Cons:
  "pattern_says (g # gs) ps \<longleftrightarrow> (\<exists>a b. ps = a @ b \<and> segment_says g a \<and> pattern_says gs b)"
  by (fastforce simp: pattern_says_def list_all2_Cons1)

fun token_valid :: "glob_token \<Rightarrow> bool" where
  "token_valid (Literal t) = valid_utf8 t"
| "token_valid _ = True"

fun segment_valid :: "segment \<Rightarrow> bool" where
  "segment_valid AnyDepth = True"
| "segment_valid (Name ts) = list_all token_valid ts"

lemma first_char:
  assumes "valid_utf8 s"
  shows "(\<exists>a b. s = a @ b \<and> one_char a \<and> Q b) \<longleftrightarrow>
    (case utf8_chars s of [] \<Rightarrow> False | c # cs \<Rightarrow> Q (concat cs))" (is "?l \<longleftrightarrow> ?r")
proof
  assume ?l
  then obtain a b where s: "s = a @ b" "one_char a" "Q b" by blast
  with assms have "valid_utf8 b" by (auto simp: one_char_def valid_append)
  with s have "utf8_chars s = a # utf8_chars b" by (simp add: chars_append one_char_def)
  with s show ?r by simp
next
  assume r: ?r
  then obtain c cs where c: "utf8_chars s = c # cs" "Q (concat cs)" by (auto split: list.splits)
  moreover from c have "s = c @ concat cs" by (metis concat.simps(2) concat_utf8_chars)
  moreover have "one_char c" using valid_chars [OF assms] c by simp
  ultimately show ?l by blast
qed

lemma name_matches_iff:
  "valid_utf8 s \<Longrightarrow> list_all token_valid ts \<Longrightarrow> name_matches ts s \<longleftrightarrow> name_says ts s"
proof (induction ts s rule: name_matches.induct)
  case (2 t r s)
  show ?case
  proof (cases "take (length t) s = t")
    case True
    then have s: "s = t @ drop (length t) s" by (metis append_take_drop_id)
    with 2(2,3) have "valid_utf8 (drop (length t) s)" using valid_append [of t "drop (length t) s"] by simp
    with True 2 s show ?thesis
      by (auto simp: strip_prefix_def name_says_Cons)
  next
    case False
    then show ?thesis by (auto simp: strip_prefix_def name_says_Cons)
  qed
next
  case (3 r s)
  have "name_matches r (concat cs) = name_says r (concat cs)" if "utf8_chars s = c # cs" for c cs
  proof -
    have "valid_utf8 (concat cs)"
      using valid_chars [OF 3(2)] that by (intro valid_concat) (auto simp: one_char_def)
    with 3 that show ?thesis by auto
  qed
  with first_char [OF 3(2), of "name_says r"] show ?case
    by (auto simp: name_says_Cons split: list.splits)
next
  case (4 r s)
  have split: "(\<exists>a b. s = a @ b \<and> valid_utf8 a \<and> Q b) \<longleftrightarrow> (\<exists>b\<in>set (char_suffixes s). Q b)" for Q
  proof -
    have "(\<exists>a b. s = a @ b \<and> valid_utf8 a \<and> Q b) \<longleftrightarrow> (\<exists>b. (\<exists>a. s = a @ b \<and> valid_utf8 a) \<and> Q b)" by blast
    also have "\<dots> \<longleftrightarrow> (\<exists>b\<in>set (char_suffixes s). Q b)"
      unfolding valid_suffix_iff [OF 4(2)] by (auto simp: char_suffixes_def less_Suc_eq_le simp del: upt_Suc) blast
    finally show ?thesis .
  qed
  show ?case
  proof (cases "r = []")
    case True
    with 4(2) show ?thesis by (auto simp: name_says_Cons name_says_Nil)
  next
    case False
    have "valid_utf8 b" if "b \<in> set (char_suffixes s)" for b
      using split [of "\<lambda>x. x = b"] that 4(2) valid_append by blast
    with 4 False split [of "name_says r"] show ?thesis
      by (auto simp: name_says_Cons list_ex_iff)
  qed
qed (simp add: name_says_Nil)

lemma split_drop: "(\<exists>a b. xs = a @ b \<and> Q b) \<longleftrightarrow> (\<exists>i\<le>length xs. Q (drop i xs))"
proof
  assume "\<exists>a b. xs = a @ b \<and> Q b"
  then obtain a b where "xs = a @ b" "Q b" by blast
  then show "\<exists>i\<le>length xs. Q (drop i xs)" by (intro exI [of _ "length a"]) simp
next
  assume "\<exists>i\<le>length xs. Q (drop i xs)"
  then show "\<exists>a b. xs = a @ b \<and> Q b" by (metis append_take_drop_id)
qed

lemma pattern_says_Name:
  "pattern_says (Name t # r) ps \<longleftrightarrow>
     (case ps of [] \<Rightarrow> False | p # qs \<Rightarrow> name_says t p \<and> pattern_says r qs)"
  by (cases ps) (auto simp: pattern_says_Cons, metis append_Cons append_Nil)

lemma walk_segments_iff:
  "list_all valid_utf8 parts \<Longrightarrow> list_all segment_valid sg \<Longrightarrow> walk_segments sg parts \<longleftrightarrow> pattern_says sg parts"
proof (induction sg parts rule: walk_segments.induct)
  case (2 r parts)
  have split: "(\<exists>a b. parts = a @ b \<and> Q b) \<longleftrightarrow> (\<exists>i\<in>set [0..<Suc (length parts)]. Q (drop i parts))" for Q
    unfolding split_drop by (simp add: Bex_def less_Suc_eq_le del: upt_Suc)
  show ?case
  proof (cases "r = []")
    case True
    then show ?thesis by (auto simp: pattern_says_Cons pattern_says_Nil)
  next
    case False
    have "list_all valid_utf8 (drop i parts)" for i
      using 2(2) by (metis append_take_drop_id list_all_append)
    with 2 False split [of "pattern_says r"] show ?thesis
      by (auto simp: pattern_says_Cons list_ex_iff)
  qed
next
  case (3 t r parts)
  then show ?case
    by (cases parts) (auto simp: pattern_says_Name name_matches_iff)
qed (simp add: pattern_says_Nil)

section \<open>Reading a pattern\<close>

lemma tokens_of_valid:
  "\<forall>c\<in>set cs. valid_utf8 c \<Longrightarrow> valid_utf8 lit \<Longrightarrow> list_all token_valid (tokens_of lit cs)"
  by (induction lit cs rule: tokens_of.induct) (auto simp: valid_append)

lemma glob_tokens_valid: "valid_utf8 n \<Longrightarrow> list_all token_valid (glob_tokens n)"
  using valid_chars [of n] tokens_of_valid [of "utf8_chars n" "[]"]
  unfolding glob_tokens_def one_char_def by simp

lemma split_sep_Cons: "split_sep s = hd (split_sep s) # tl (split_sep s)"
proof -
  have "split_sep s \<noteq> []" by (induction s) (auto split: list.splits)
  then show ?thesis by simp
qed

lemma split_sep_word_append:
  "SEP \<notin> set p \<Longrightarrow> split_sep (p @ t) = (p @ hd (split_sep t)) # tl (split_sep t)"
proof (induction p)
  case Nil
  show ?case by (simp add: split_sep_Cons [symmetric])
qed auto

lemma split_sep_valid: "valid_utf8 s \<Longrightarrow> list_all valid_utf8 (split_sep s)"
proof (induction s rule: valid_utf8_induct)
  case (char a p t)
  have "SEP \<notin> set p" using char(2) by (auto simp: SEP_def is_cont_def)
  then have p: "split_sep (p @ t) = (p @ hd (split_sep t)) # tl (split_sep t)"
    by (rule split_sep_word_append)
  obtain w ws where w: "split_sep t = w # ws" using split_sep_Cons by blast
  show ?case
  proof (cases "a = SEP")
    case True
    have "valid_utf8 (SEP # x) \<longleftrightarrow> valid_utf8 x" for x
      by (simp add: valid_utf8.simps(2) SEP_def byte_in_def)
    note sep = this
    moreover have "p = []"
    proof (cases p)
      case (Cons b q)
      with char(4) [of "[]"] True sep have "valid_utf8 (b # q)" by simp
      with valid_not_cont char(2) Cons show ?thesis by auto
    qed
    ultimately show ?thesis using True char(6) by simp
  next
    case False
    have "valid_utf8 (a # p @ w)" using char(4,6) w by simp
    with False p w char(6) show ?thesis by simp
  qed
qed simp

lemma parse_segments_valid:
  "list_all valid_utf8 raws \<Longrightarrow> list_all segment_valid (p_segments pt) \<Longrightarrow> parse_segments raws pt = Inr r \<Longrightarrow>
     list_all segment_valid (p_segments r)"
  by (induction raws pt rule: parse_segments.induct) (auto simp: glob_tokens_valid split: if_splits)

lemma parse_pattern_valid:
  "valid_utf8 s \<Longrightarrow> parse_pattern s = Inr pt \<Longrightarrow> list_all segment_valid (p_segments pt)"
  unfolding parse_pattern_def
  using parse_segments_valid [OF split_sep_valid, of s "\<lparr>p_segments = [], p_hidden = False\<rparr>"]
  by (auto split: if_splits sum.splits)

text \<open>
  C13. The matcher decides what a pattern says: over UTF-8, a path matches a pattern that was read
  exactly when the path can be cut into runs of parts, one for each segment, such that a double
  star stands for any run of directories and any other segment for one name, and that name can be
  cut into pieces that its literals, question marks and stars stand for.  Backtracking loses no
  match and adds none.
\<close>

theorem glob_decides:
  assumes "valid_utf8 s" and "parse_pattern s = Inr pt" and "list_all valid_utf8 parts"
  shows "matches pt parts \<longleftrightarrow> pattern_says (p_segments pt) parts"
  using walk_segments_iff [OF assms(3) parse_pattern_valid [OF assms(1,2)]] by (simp add: matches_def)

theorem glob_decides_witness:
  "valid_utf8 ''**/?a*'' \<and> list_all valid_utf8 [''x'', ''ba'']
     \<and> pattern_says [AnyDepth, Name [OneChar, Literal ''a'', AnyRun]] [''x'', ''ba'']"
proof -
  have v: "valid_utf8 ''**/?a*''" and l: "list_all valid_utf8 [''x'', ''ba'']" by code_simp+
  define pt where "pt = \<lparr>p_segments = [AnyDepth, Name [OneChar, Literal ''a'', AnyRun]], p_hidden = False\<rparr>"
  have "parse_pattern ''**/?a*'' = Inr pt" unfolding pt_def by code_simp
  from glob_decides [OF v this l] have "matches pt [''x'', ''ba''] = pattern_says (p_segments pt) [''x'', ''ba'']" .
  moreover have "matches pt [''x'', ''ba'']" unfolding pt_def by code_simp
  ultimately show ?thesis using v l by (simp add: pt_def)
qed

end
