(* ===== verification/Files.thy ===== *)
theory Files
  imports Fence Glob
begin

text \<open>
  The filesystem seam and its two backends, \<^verbatim>\<open>crates/fs/src\<close>: the vocabulary and the trait
  (\<^verbatim>\<open>service.rs\<close>, \<^verbatim>\<open>error.rs\<close>, \<^verbatim>\<open>access.rs\<close>), the unfenced backend (\<^verbatim>\<open>local.rs\<close>) and the fenced one
  (\<^verbatim>\<open>sandbox.rs\<close>).  A backend is a record of the trait's methods over a disk.  What the system
  answers to a mutation is the argument \<open>io\<close>: whether each call went through, the identity and the
  time it gave a new file, the name the clock gave the temporary.
\<close>

section \<open>Vocabulary\<close>

record fs_target =
  t_key :: string
  t_display :: string
  t_path :: path

datatype file_kind = FileK | DirectoryK | SymlinkK | OtherK

fun kind_word :: "file_kind \<Rightarrow> string" where
  "kind_word FileK = ''file''"
| "kind_word DirectoryK = ''directory''"
| "kind_word SymlinkK = ''symlink''"
| "kind_word OtherK = ''other''"

type_synonym fs_version = string

record fs_info =
  i_version :: fs_version
  i_kind :: file_kind
  i_size :: nat

record dir_entry =
  de_name :: string
  de_kind :: file_kind
  de_size :: nat
  de_target :: fs_target

datatype write_intent = Unconditional | CreateIfAbsent | ReplaceIfVersion fs_version

datatype write_operation = CreatedFile | UpdatedFile

record written_file =
  w_operation :: write_operation
  w_version :: fs_version
  w_before :: "string option"
  w_after :: string

record edit_request =
  e_old :: string
  e_new :: string
  e_all :: bool

record edited_file =
  ed_version :: fs_version
  ed_before :: string
  ed_after :: string
  ed_replacements :: nat

record deleted =
  d_kind :: file_kind
  d_entries :: nat

definition MAX_TEXT_BYTES :: int where
  "MAX_TEXT_BYTES = 8 * 1024 * 1024"

definition MAX_WINDOW_BYTES :: int where
  "MAX_WINDOW_BYTES = 32 * 1024 * 1024"

definition MAX_GLOB_MATCHES :: int where
  "MAX_GLOB_MATCHES = 1000"

definition MAX_GLOB_VISITS :: int where
  "MAX_GLOB_VISITS = 50000"

datatype fs_error =
    FsNotFound string
  | FsNotDirectory string
  | FsNotText string
  | FsNotRegular string string
  | FsTooLarge string nat int
  | FsPermission string string
  | FsSandboxDenied string string string
  | FsIo string string string
  | FsStale string
  | FsNotObserved string string
  | FsAmbiguous string nat
  | FsEditNotFound string
  | FsDirNotEmpty string
  | FsBadPattern string string

fun fs_code :: "fs_error \<Rightarrow> string" where
  "fs_code (FsNotFound _) = ''FS_NOT_FOUND''"
| "fs_code (FsNotDirectory _) = ''FS_NOT_DIRECTORY''"
| "fs_code (FsNotText _) = ''FS_NOT_TEXT''"
| "fs_code (FsNotRegular _ _) = ''FS_NOT_REGULAR_FILE''"
| "fs_code (FsTooLarge _ _ _) = ''FS_TOO_LARGE''"
| "fs_code (FsPermission _ _) = ''FS_PERMISSION_DENIED''"
| "fs_code (FsSandboxDenied _ _ _) = ''FS_SANDBOX_DENIED''"
| "fs_code (FsIo _ _ _) = ''FS_IO_ERROR''"
| "fs_code (FsStale _) = ''FS_STALE_VERSION''"
| "fs_code (FsNotObserved _ _) = ''FS_NOT_OBSERVED''"
| "fs_code (FsAmbiguous _ _) = ''FS_AMBIGUOUS_EDIT''"
| "fs_code (FsEditNotFound _) = ''FS_EDIT_NOT_FOUND''"
| "fs_code (FsDirNotEmpty _) = ''FS_DIRECTORY_NOT_EMPTY''"
| "fs_code (FsBadPattern _ _) = ''FS_BAD_PATTERN''"

text \<open>\<open>debug\<close> is the standard library's quoted form of a string (\<^verbatim>\<open>{:?}\<close>).\<close>

primrec fs_error_text :: "(string \<Rightarrow> string) \<Rightarrow> fs_error \<Rightarrow> string" where
  "fs_error_text debug (FsNotFound p) = p @ '': no such file or directory''"
| "fs_error_text debug (FsNotDirectory p) = p @ '': not a directory, so it cannot be listed''"
| "fs_error_text debug (FsNotText p) = p @ '': not UTF-8 text, so it cannot be read as a string. Read it with a tool that handles bytes, or pick a different file''"
| "fs_error_text debug (FsNotRegular p k) = p @ '': not a regular file ('' @ k @ ''), so it cannot be read or written as text''"
| "fs_error_text debug (FsTooLarge p n l) = p @ '': '' @ show_nat n @ '' bytes is over the '' @ show_nat (nat l) @ ''-byte limit one call may handle. Read a window of it instead of the whole file''"
| "fs_error_text debug (FsPermission p w) = p @ '': the operating system refused permission for this '' @ w"
| "fs_error_text debug (FsSandboxDenied p w r) = ''cannot '' @ w @ '' '' @ p @ '': '' @ r"
| "fs_error_text debug (FsIo p w m) = p @ '': the '' @ w @ '' failed: '' @ m"
| "fs_error_text debug (FsStale p) = p @ '' changed since it was read. Read it again and reapply the change to the current content''"
| "fs_error_text debug (FsNotObserved p w) = p @ '' has not been read in this session. Read it first, then '' @ w @ '' it''"
| "fs_error_text debug (FsAmbiguous p n) = p @ '': the text to replace occurs '' @ show_nat n @ '' times. Give more surrounding context so it matches once, or ask for every occurrence to be replaced''"
| "fs_error_text debug (FsEditNotFound p) = p @ '': the text to replace does not occur in the file''"
| "fs_error_text debug (FsDirNotEmpty p) = p @ '': the directory is not empty. Say so explicitly to delete it and its contents''"
| "fs_error_text debug (FsBadPattern p r) = debug p @ '' is not a pattern this build can read: '' @ r"

definition from_io :: "string \<Rightarrow> string \<Rightarrow> io_error \<Rightarrow> fs_error" where
  "from_io p w e =
     (case e of
        Not_Found \<Rightarrow> FsNotFound p
      | Permission_Denied \<Rightarrow> FsPermission p w
      | Not_A_Directory \<Rightarrow> FsNotDirectory p
      | Other_Io m \<Rightarrow> FsIo p w m)"

section \<open>Modes\<close>

datatype fs_mode = ReadOnly | WorkspaceWrite | DangerFullAccess

fun mode_word :: "fs_mode \<Rightarrow> string" where
  "mode_word ReadOnly = ''read-only''"
| "mode_word WorkspaceWrite = ''workspace-write''"
| "mode_word DangerFullAccess = ''danger-full-access''"

fun may_mutate :: "fs_mode \<Rightarrow> bool" where
  "may_mutate ReadOnly = False"
| "may_mutate WorkspaceWrite = True"
| "may_mutate DangerFullAccess = True"

definition parse_mode :: "string \<Rightarrow> string + fs_mode" where
  "parse_mode w =
     (if w = ''read-only'' then Inr ReadOnly
      else if w = ''workspace-write'' then Inr WorkspaceWrite
      else if w = ''danger-full-access'' then Inr DangerFullAccess
      else Inl w)"

definition mode_refusal :: "fs_mode \<Rightarrow> string \<Rightarrow> string" where
  "mode_refusal m operation =
     (case m of
        ReadOnly \<Rightarrow> ''file access is denied under read-only mode: this session may read the workspace but not '' @ operation @ '' in it. Report what you would have changed instead of retrying''
      | _ \<Rightarrow> ''file access is denied under '' @ mode_word m @ '' mode for this '' @ operation)"

section \<open>Reading\<close>

definition target_for :: "path \<Rightarrow> path \<Rightarrow> fs_target" where
  "target_for p base =
     \<lparr>t_key = shown p,
      t_display =
        (if below base p then (if p = base then ''.'' else relative (drop (length base) p)) else shown p),
      t_path = p\<rparr>"

definition pad9 :: "nat \<Rightarrow> string" where
  "pad9 n = replicate (9 - length (show_nat n)) (CHR ''0'') @ show_nat n"

definition version_of :: "node \<Rightarrow> fs_version" where
  "version_of nd =
     show_nat (nd_dev nd) @ '':'' @ show_nat (nd_ino nd) @ '':''
     @ (case nd_mtime nd of None \<Rightarrow> ''0'' | Some (s, n) \<Rightarrow> show_nat s @ ''.'' @ pad9 n)
     @ '':'' @ show_nat (meta_len nd)"

definition kind_of :: "node \<Rightarrow> file_kind" where
  "kind_of nd =
     (case nd_body nd of
        Regular _ \<Rightarrow> FileK | Directory \<Rightarrow> DirectoryK | Symlink _ \<Rightarrow> SymlinkK | Special \<Rightarrow> OtherK)"

definition stat_path :: "disk \<Rightarrow> path \<Rightarrow> fs_error + fs_info option" where
  "stat_path os p =
     (case metadata os p of
        Inr m \<Rightarrow> Inr (Some \<lparr>i_version = version_of m, i_kind = kind_of m, i_size = meta_len m\<rparr>)
      | Inl Not_Found \<Rightarrow> Inr None
      | Inl e \<Rightarrow> Inl (from_io (shown p) ''stat'' e))"

definition not_regular :: "fs_target \<Rightarrow> file_kind \<Rightarrow> fs_error" where
  "not_regular t k = FsNotRegular (t_display t) (if k = DirectoryK then ''directory'' else ''special file'')"

definition read_text :: "disk \<Rightarrow> fs_target \<Rightarrow> fs_error + (string \<times> fs_version)" where
  "read_text os t =
     (case metadata os (t_path t) of
        Inl e \<Rightarrow> Inl (from_io (shown (t_path t)) ''read'' e)
      | Inr m \<Rightarrow>
          (if kind_of m \<noteq> FileK then Inl (not_regular t (kind_of m))
           else if int (meta_len m) > MAX_TEXT_BYTES then
             Inl (FsTooLarge (t_display t) (meta_len m) MAX_TEXT_BYTES)
           else case read_bytes_of os (t_path t) of
             Inl e \<Rightarrow> Inl (from_io (shown (t_path t)) ''read'' e)
           | Inr bytes \<Rightarrow>
               (if valid_utf8 bytes then Inr (bytes, version_of m) else Inl (FsNotText (t_display t)))))"

definition read_window :: "disk \<Rightarrow> fs_target \<Rightarrow> nat \<Rightarrow> nat \<Rightarrow> fs_error + (string \<times> fs_version)" where
  "read_window os t off len =
     (case metadata os (t_path t) of
        Inl e \<Rightarrow> Inl (from_io (shown (t_path t)) ''read'' e)
      | Inr m \<Rightarrow>
          (if kind_of m \<noteq> FileK then Inl (not_regular t (kind_of m))
           else if int len > MAX_WINDOW_BYTES then Inl (FsTooLarge (t_display t) len MAX_WINDOW_BYTES)
           else if off \<ge> meta_len m then Inr ([], version_of m)
           else case read_bytes_of os (t_path t) of
             Inl e \<Rightarrow> Inl (from_io (shown (t_path t)) ''read'' e)
           | Inr bytes \<Rightarrow> Inr (take (min len (meta_len m - off)) (drop off bytes), version_of m)))"

definition prior_text :: "disk \<Rightarrow> fs_target \<Rightarrow> string option" where
  "prior_text os t = (case read_text os t of Inl _ \<Rightarrow> None | Inr (s, _) \<Rightarrow> Some s)"

section \<open>Mutations\<close>

text \<open>What the system answered to the calls of one mutation.\<close>

datatype made = Made | MadeRefused io_error | MadeTorn nat io_error | MadeUnsynced io_error

record fs_io =
  io_cwd :: path
  io_stamp :: string
  io_id :: "nat \<times> nat"
  io_time :: "(nat \<times> nat) option"
  io_made :: made
  io_moved :: "io_error option"
  io_removed :: bool
  io_delete :: "(io_error \<times> (path \<Rightarrow> bool)) option"  \<comment> \<open>the error, and what was removed before it\<close>

definition drop_entry :: "path \<Rightarrow> disk \<Rightarrow> disk" where
  "drop_entry p os = os\<lparr>entries := filter (\<lambda>x. fst x \<noteq> p) (entries os)\<rparr>"

definition put_entry :: "path \<Rightarrow> node \<Rightarrow> disk \<Rightarrow> disk" where
  "put_entry p nd os = os\<lparr>entries := (p, nd) # filter (\<lambda>x. fst x \<noteq> p) (entries os)\<rparr>"

text \<open>\<^verbatim>\<open>File::create\<close>, \<^verbatim>\<open>write_all\<close> and \<^verbatim>\<open>sync_all\<close> on the temporary.\<close>

definition store_bytes :: "fs_io \<Rightarrow> disk \<Rightarrow> path \<Rightarrow> string \<Rightarrow> io_error option \<times> disk" where
  "store_bytes io os p bytes =
     (case canon True os LINKS [] (map Normal p) of
        Inl e \<Rightarrow> (Some e, os)
      | Inr q \<Rightarrow>
          (case entry os q of
             Inl Not_Found \<Rightarrow>
               (case refused os q of
                  Some e \<Rightarrow> (Some e, os)
                | None \<Rightarrow>
                    (None, put_entry q \<lparr>nd_body = Regular bytes, nd_dev = fst (io_id io),
                       nd_ino = snd (io_id io), nd_mtime = io_time io, nd_extent = 0\<rparr> os))
           | Inl e \<Rightarrow> (Some e, os)
           | Inr nd \<Rightarrow>
               (case nd_body nd of
                  Regular _ \<Rightarrow> (None, put_entry q (nd\<lparr>nd_body := Regular bytes, nd_mtime := io_time io\<rparr>) os)
                | Special \<Rightarrow> (None, os)
                | _ \<Rightarrow> (Some (Other_Io ''is a directory''), os))))"

definition make_temp :: "fs_io \<Rightarrow> disk \<Rightarrow> path \<Rightarrow> string \<Rightarrow> io_error option \<times> disk" where
  "make_temp io os p bytes =
     (case io_made io of
        Made \<Rightarrow> store_bytes io os p bytes
      | MadeRefused e \<Rightarrow> (Some e, os)
      | MadeTorn k e \<Rightarrow>
          (case store_bytes io os p (take k bytes) of (Some e', os') \<Rightarrow> (Some e', os') | (None, os') \<Rightarrow> (Some e, os'))
      | MadeUnsynced e \<Rightarrow>
          (case store_bytes io os p bytes of (Some e', os') \<Rightarrow> (Some e', os') | (None, os') \<Rightarrow> (Some e, os')))"

definition remove_file :: "disk \<Rightarrow> path \<Rightarrow> io_error + disk" where
  "remove_file os p =
     (case lplace os p of
        Inl e \<Rightarrow> Inl e
      | Inr q \<Rightarrow>
          (case entry os q of
             Inl e \<Rightarrow> Inl e
           | Inr nd \<Rightarrow> (if nd_body nd = Directory then Inl (Other_Io ''is a directory'') else Inr (drop_entry q os))))"

definition rename :: "disk \<Rightarrow> path \<Rightarrow> path \<Rightarrow> io_error + disk" where
  "rename os a b =
     (case lplace os a of
        Inl e \<Rightarrow> Inl e
      | Inr qa \<Rightarrow>
          (case lplace os b of
             Inl e \<Rightarrow> Inl e
           | Inr qb \<Rightarrow>
               (case entry os qa of
                  Inl e \<Rightarrow> Inl e
                | Inr nd \<Rightarrow>
                    (case refused os qb of
                       Some e \<Rightarrow> Inl e
                     | None \<Rightarrow>
                         (if is_dir os qb then Inl (Other_Io ''is a directory'')
                          else Inr (put_entry qb nd (drop_entry qa os)))))))"

definition try_remove :: "fs_io \<Rightarrow> disk \<Rightarrow> path \<Rightarrow> disk" where
  "try_remove io os p =
     (if io_removed io then (case remove_file os p of Inl _ \<Rightarrow> os | Inr os' \<Rightarrow> os') else os)"

definition temp_path :: "fs_io \<Rightarrow> path \<Rightarrow> path" where
  "temp_path io p =
     (if p = [] then io_cwd io @ [''.file.tetanus-'' @ io_stamp io @ ''.tmp'']
      else butlast p @ [''.'' @ last p @ ''.tetanus-'' @ io_stamp io @ ''.tmp''])"

definition publish :: "fs_io \<Rightarrow> disk \<Rightarrow> path \<Rightarrow> string \<Rightarrow> fs_error option \<times> disk" where
  "publish io os p content =
     (let temp = temp_path io p
      in case make_temp io os temp content of
           (Some e, os1) \<Rightarrow> (Some (from_io (shown p) ''write'' e), try_remove io os1 temp)
         | (None, os1) \<Rightarrow>
             (case (case io_moved io of Some e \<Rightarrow> Inl e | None \<Rightarrow> rename os1 temp p) of
                Inl e \<Rightarrow> (Some (from_io (shown p) ''write'' e), try_remove io os1 temp)
              | Inr os2 \<Rightarrow> (None, os2)))"

definition write_guard :: "fs_target \<Rightarrow> write_intent \<Rightarrow> fs_info option \<Rightarrow> fs_error option" where
  "write_guard t intent existing =
     (case intent of
        Unconditional \<Rightarrow> None
      | CreateIfAbsent \<Rightarrow>
          (if existing \<noteq> None then Some (FsNotObserved (t_display t) ''overwrite'') else None)
      | ReplaceIfVersion v \<Rightarrow>
          (case existing of
             Some i \<Rightarrow> (if i_version i = v then None else Some (FsStale (t_display t)))
           | None \<Rightarrow> Some (FsStale (t_display t))))"

definition write_text :: "fs_io \<Rightarrow> disk \<Rightarrow> fs_target \<Rightarrow> string \<Rightarrow> write_intent \<Rightarrow> (fs_error + written_file) \<times> disk" where
  "write_text io os t content intent =
     (case stat_path os (t_path t) of
        Inl e \<Rightarrow> (Inl e, os)
      | Inr existing \<Rightarrow>
          (case (case existing of
                   Some i \<Rightarrow>
                     (if i_kind i \<noteq> FileK then Some (not_regular t (i_kind i))
                      else write_guard t intent existing)
                 | None \<Rightarrow> write_guard t intent existing) of
            Some e \<Rightarrow> (Inl e, os)
          | None \<Rightarrow>
              (case publish io os (t_path t) content of
                 (Some e, os') \<Rightarrow> (Inl e, os')
               | (None, os') \<Rightarrow>
                   (case stat_path os' (t_path t) of
                      Inl e \<Rightarrow> (Inl e, os')
                    | Inr None \<Rightarrow> (Inl (FsIo (t_display t) ''write'' ''the file was gone immediately after it was written''), os')
                    | Inr (Some after) \<Rightarrow>
                        (Inr \<lparr>w_operation = (if existing \<noteq> None then UpdatedFile else CreatedFile),
                           w_version = i_version after,
                           w_before = (if existing \<noteq> None then prior_text os t else None),
                           w_after = content\<rparr>, os')))))"

text \<open>\<^verbatim>\<open>str::matches(..).count()\<close>, \<^verbatim>\<open>replacen(.., 1)\<close> and \<^verbatim>\<open>replace\<close> of a text that is not empty.\<close>

fun cut_at :: "string \<Rightarrow> string \<Rightarrow> (string \<times> string) option" where
  "cut_at old [] = (if old = [] then Some ([], []) else None)"
| "cut_at old (c # s) =
     (if take (length old) (c # s) = old then Some ([], drop (length old) (c # s))
      else map_option (\<lambda>(a, b). (c # a, b)) (cut_at old s))"

lemma cut_at_Some: "cut_at old s = Some (a, b) \<Longrightarrow> s = a @ old @ b"
  by (induction s arbitrary: a b) (auto split: if_splits, (metis append_take_drop_id)+)

function count_matches :: "string \<Rightarrow> string \<Rightarrow> nat" where
  "count_matches old s =
     (if old = [] then 0 else case cut_at old s of None \<Rightarrow> 0 | Some (a, b) \<Rightarrow> Suc (count_matches old b))"
  by pat_completeness auto
termination
  by (relation "measure (\<lambda>(old, s). length s)") (auto dest: cut_at_Some)

function replace_matches :: "string \<Rightarrow> string \<Rightarrow> string \<Rightarrow> string" where
  "replace_matches old new s =
     (if old = [] then s
      else case cut_at old s of None \<Rightarrow> s | Some (a, b) \<Rightarrow> a @ new @ replace_matches old new b)"
  by pat_completeness auto
termination
  by (relation "measure (\<lambda>(old, new, s). length s)") (auto dest: cut_at_Some)

declare count_matches.simps [simp del] replace_matches.simps [simp del]

definition replace_first :: "string \<Rightarrow> string \<Rightarrow> string \<Rightarrow> string" where
  "replace_first old new s = (case cut_at old s of None \<Rightarrow> s | Some (a, b) \<Rightarrow> a @ new @ b)"

definition edit_text ::
  "fs_io \<Rightarrow> disk \<Rightarrow> fs_target \<Rightarrow> edit_request \<Rightarrow> fs_version option \<Rightarrow> (fs_error + edited_file) \<times> disk"
where
  "edit_text io os t ed guard =
     (if e_old ed = [] then
        (Inl (FsBadPattern [] ''the text to replace must not be empty, because an empty string occurs between every pair of characters''), os)
      else case read_text os t of
        Inl e \<Rightarrow> (Inl e, os)
      | Inr (before, v) \<Rightarrow>
          (if guard \<noteq> None \<and> guard \<noteq> Some v then (Inl (FsStale (t_display t)), os)
           else
             let n = count_matches (e_old ed) before
             in if n = 0 then (Inl (FsEditNotFound (t_display t)), os)
                else if n > 1 \<and> \<not> e_all ed then (Inl (FsAmbiguous (t_display t) n), os)
                else
                  let after = (if e_all ed then replace_matches (e_old ed) (e_new ed) before
                               else replace_first (e_old ed) (e_new ed) before);
                      done_count = (if e_all ed then n else 1)
                  in case publish io os (t_path t) after of
                       (Some e, os') \<Rightarrow> (Inl e, os')
                     | (None, os') \<Rightarrow>
                         (case stat_path os' (t_path t) of
                            Inl e \<Rightarrow> (Inl e, os')
                          | Inr None \<Rightarrow>
                              (Inl (FsIo (t_display t) ''edit'' ''the file was gone immediately after it was edited''), os')
                          | Inr (Some stamped) \<Rightarrow>
                              (Inr \<lparr>ed_version = i_version stamped, ed_before = before, ed_after = after,
                                 ed_replacements = done_count\<rparr>, os'))))"

section \<open>Listing, searching and deleting\<close>

fun list_children ::
  "disk \<Rightarrow> (path \<Rightarrow> fs_target option) \<Rightarrow> path \<Rightarrow> string list \<Rightarrow> dir_entry list"
where
  "list_children os res p [] = []"
| "list_children os res p (n # ns) =
     (case symlink_metadata os (p @ [n]) of
        Inl _ \<Rightarrow> list_children os res p ns
      | Inr m \<Rightarrow>
          (case res (p @ [n]) of
             None \<Rightarrow> list_children os res p ns
           | Some t \<Rightarrow>
               \<lparr>de_name = n, de_kind = kind_of m, de_size = meta_len m, de_target = t\<rparr>
               # list_children os res p ns))"

definition list_dir :: "disk \<Rightarrow> fs_target \<Rightarrow> (path \<Rightarrow> fs_target option) \<Rightarrow> fs_error + dir_entry list" where
  "list_dir os t res =
     (case metadata os (t_path t) of
        Inl e \<Rightarrow> Inl (from_io (shown (t_path t)) ''list'' e)
      | Inr m \<Rightarrow>
          (if nd_body m \<noteq> Directory then Inl (FsNotDirectory (t_display t))
           else case read_dir os (t_path t) of
             Inl e \<Rightarrow> Inl (from_io (shown (t_path t)) ''list'' e)
           | Inr (_, ns) \<Rightarrow> Inr (sort_key de_name (list_children os res (t_path t) ns))))"

definition bad_reason :: "bad_pattern \<Rightarrow> string" where
  "bad_reason b =
     (case b of
        NamesNothing \<Rightarrow> ''a glob must name something''
      | IsAbsolute \<Rightarrow> ''a glob is matched relative to the directory the search starts from, so it cannot begin with '' @ [CHR 0x22] @ ''/'' @ [CHR 0x22]
      | WalksUpwards \<Rightarrow> ''a glob cannot walk upwards with '' @ [CHR 0x22] @ ''..'' @ [CHR 0x22] @ ''; start the search from the directory you mean'')"

text \<open>
  One directory of the walk: what was found, the entries visited, and the directories to walk, the
  one to walk next first.
\<close>

type_synonym glob_state = "fs_target list \<times> int \<times> (path \<times> string list) list"

fun glob_children ::
  "disk \<Rightarrow> (path \<Rightarrow> fs_target option) \<Rightarrow> pattern \<Rightarrow> path \<Rightarrow> string list \<Rightarrow> string list \<Rightarrow> glob_state \<Rightarrow> glob_state"
where
  "glob_children os res pt dir prefix [] st = st"
| "glob_children os res pt dir prefix (n # ns) (found, visits, stack) =
     (if visits \<ge> MAX_GLOB_VISITS \<or> int (length found) \<ge> MAX_GLOB_MATCHES then (found, visits, stack)
      else if take 1 n = ''.'' \<and> \<not> p_hidden pt then
        glob_children os res pt dir prefix ns (found, visits + 1, stack)
      else case symlink_metadata os (dir @ [n]) of
        Inl _ \<Rightarrow> glob_children os res pt dir prefix ns (found, visits + 1, stack)
      | Inr m \<Rightarrow>
          glob_children os res pt dir prefix ns
            ((if matches pt (prefix @ [n])
              then (case res (dir @ [n]) of Some t \<Rightarrow> found @ [t] | None \<Rightarrow> found) else found),
             visits + 1,
             (if nd_body m = Directory then (dir @ [n], prefix @ [n]) # stack else stack)))"

lemma glob_children_measure:
  assumes "glob_children os res pt dir prefix ns (f, v, st) = (f', v', st')"
  shows "nat (MAX_GLOB_VISITS - v') + length st' \<le> nat (MAX_GLOB_VISITS - v) + length st"
  using assms
proof (induction ns arbitrary: f v st)
  case (Cons n ns)
  show ?case
  proof (cases "v \<ge> MAX_GLOB_VISITS \<or> int (length f) \<ge> MAX_GLOB_MATCHES")
    case False
    then have *: "nat (MAX_GLOB_VISITS - v) = Suc (nat (MAX_GLOB_VISITS - (v + 1)))" by linarith
    obtain g s where "glob_children os res pt dir prefix ns (g, v + 1, s) = (f', v', st')"
      and "length s \<le> Suc (length st)"
      using Cons.prems False by (auto split: if_splits sum.splits)
    with Cons.IH [OF this(1)] * show ?thesis by linarith
  qed (use Cons.prems in auto)
qed simp

function glob_walk :: "disk \<Rightarrow> (path \<Rightarrow> fs_target option) \<Rightarrow> pattern \<Rightarrow> glob_state \<Rightarrow> fs_target list" where
  "glob_walk os res pt (found, visits, []) = found"
| "glob_walk os res pt (found, visits, (dir, prefix) # stack) =
     (case read_dir os dir of
        Inl _ \<Rightarrow> glob_walk os res pt (found, visits, stack)
      | Inr (_, ns) \<Rightarrow> glob_walk os res pt (glob_children os res pt dir prefix ns (found, visits, stack)))"
  by pat_completeness auto
termination
proof (relation "measure (\<lambda>(os, res, pt, f, v, st). nat (MAX_GLOB_VISITS - v) + length st)", goal_cases)
  case (3 os res pt found visits dir prefix stack b x y)
  obtain f' v' st' where g: "glob_children os res pt dir prefix y (found, visits, stack) = (f', v', st')"
    using prod_cases3 by blast
  from glob_children_measure [OF g] show ?case by (simp add: g)
qed auto

definition dedup_targets :: "fs_target list \<Rightarrow> fs_target list" where
  "dedup_targets ts = foldr (\<lambda>t acc. case acc of [] \<Rightarrow> [t] | u # us \<Rightarrow> if t_path t = t_path u then t # us else t # acc) ts []"

definition glob_under :: "disk \<Rightarrow> fs_target \<Rightarrow> string \<Rightarrow> (path \<Rightarrow> fs_target option) \<Rightarrow> fs_error + fs_target list" where
  "glob_under os base raw res =
     (case parse_pattern raw of
        Inl b \<Rightarrow> Inl (FsBadPattern raw (bad_reason b))
      | Inr pt \<Rightarrow>
          Inr (dedup_targets (sort_key t_path (glob_walk os res pt ([], 0, [(t_path base, [])])))))"

text \<open>
  How many entries a delete would remove.  A child of a directory that was reached is looked at
  where the directory is.
\<close>

definition longest :: "disk \<Rightarrow> nat" where
  "longest os = foldr (\<lambda>x m. max (length (fst x)) m) (entries os) 0"

lemma entry_longest: "entry os p = Inr nd \<Longrightarrow> length p \<le> longest os"
proof -
  have "map_of xs p = Some nd \<Longrightarrow> length p \<le> foldr (\<lambda>x m. max (length (fst x)) m) xs 0" for xs
    by (induction xs) (auto split: if_splits)
  then show "entry os p = Inr nd \<Longrightarrow> length p \<le> longest os"
    by (auto simp: entry_def longest_def split: option.splits)
qed

function count_dir :: "disk \<Rightarrow> path \<Rightarrow> io_error + nat"
  and count_children :: "disk \<Rightarrow> path \<Rightarrow> string list \<Rightarrow> nat \<Rightarrow> io_error + nat"
where
  "count_dir os q =
     (if \<not> is_dir os q then Inl Not_A_Directory
      else case barred os q of Some e \<Rightarrow> Inl e | None \<Rightarrow> count_children os q (children os q) 1)"
| "count_children os q [] acc = Inr acc"
| "count_children os q (n # ns) acc =
     (case entry os (q @ [n]) of
        Inl _ \<Rightarrow> count_children os q ns acc
      | Inr m \<Rightarrow>
          (if nd_body m = Directory then
             (case count_dir os (q @ [n]) of
                Inl e \<Rightarrow> Inl e
              | Inr k \<Rightarrow> count_children os q ns (acc + k))
           else count_children os q ns (acc + 1)))"
  by pat_completeness auto
termination
  by (relation "measures
       [\<lambda>x. case x of Inl (os, q) \<Rightarrow> Suc (longest os) - length q | Inr (os, q, ns, k) \<Rightarrow> Suc (longest os) - length q,
        \<lambda>x. case x of Inl (os, q) \<Rightarrow> Suc (length (children os q)) | Inr (os, q, ns, k) \<Rightarrow> length ns]")
    (auto dest: entry_longest)

declare count_dir.simps [simp del]

definition count_entries :: "disk \<Rightarrow> path \<Rightarrow> fs_error + nat" where
  "count_entries os p =
     (case canonicalize os p of
        Inl e \<Rightarrow> Inl (from_io (shown p) ''delete'' e)
      | Inr q \<Rightarrow> (case count_dir os q of Inl e \<Rightarrow> Inl (from_io (shown p) ''delete'' e) | Inr k \<Rightarrow> Inr k))"

definition remove_dir_all :: "fs_io \<Rightarrow> disk \<Rightarrow> path \<Rightarrow> io_error option \<times> disk" where
  "remove_dir_all io os p =
     (case lplace os p of
        Inl e \<Rightarrow> (Some e, os)
      | Inr q \<Rightarrow>
          (case io_delete io of
             None \<Rightarrow> (None, os\<lparr>entries := filter (\<lambda>x. \<not> below q (fst x)) (entries os)\<rparr>)
           | Some (e, gone) \<Rightarrow>
               (Some e, os\<lparr>entries := filter (\<lambda>x. \<not> (below q (fst x) \<and> gone (fst x))) (entries os)\<rparr>)))"

definition remove_dir :: "fs_io \<Rightarrow> disk \<Rightarrow> path \<Rightarrow> io_error option \<times> disk" where
  "remove_dir io os p =
     (case lplace os p of
        Inl e \<Rightarrow> (Some e, os)
      | Inr q \<Rightarrow>
          (case io_delete io of
             Some (e, _) \<Rightarrow> (Some e, os)
           | None \<Rightarrow>
               (if children os q \<noteq> [] then (Some (Other_Io ''Directory not empty''), os)
                else (None, drop_entry q os))))"

definition delete_path :: "fs_io \<Rightarrow> disk \<Rightarrow> fs_target \<Rightarrow> bool \<Rightarrow> (fs_error + deleted) \<times> disk" where
  "delete_path io os t recursive =
     (let p = t_path t in
      case symlink_metadata os p of
        Inl e \<Rightarrow> (Inl (from_io (shown p) ''delete'' e), os)
      | Inr m \<Rightarrow>
          (if nd_body m \<noteq> Directory then
             (case (case io_delete io of Some (e, _) \<Rightarrow> Inl e | None \<Rightarrow> remove_file os p) of
                Inl e \<Rightarrow> (Inl (from_io (shown p) ''delete'' e), os)
              | Inr os' \<Rightarrow> (Inr \<lparr>d_kind = kind_of m, d_entries = 1\<rparr>, os'))
           else case count_entries os p of
             Inl e \<Rightarrow> (Inl e, os)
           | Inr n \<Rightarrow>
               (if n > 1 \<and> \<not> recursive then (Inl (FsDirNotEmpty (t_display t)), os)
                else case (if recursive then remove_dir_all io os p else remove_dir io os p) of
                  (Some e, os') \<Rightarrow> (Inl (from_io (shown p) ''delete'' e), os')
                | (None, os') \<Rightarrow> (Inr \<lparr>d_kind = kind_of m, d_entries = n\<rparr>, os'))))"

section \<open>The two backends\<close>

record backend =
  b_name :: string
  b_mode :: fs_mode
  b_resolve :: "disk \<Rightarrow> string \<Rightarrow> fs_error + fs_target"
  b_stat :: "disk \<Rightarrow> fs_target \<Rightarrow> fs_error + fs_info option"
  b_read :: "disk \<Rightarrow> fs_target \<Rightarrow> fs_error + (string \<times> fs_version)"
  b_read_bytes :: "disk \<Rightarrow> fs_target \<Rightarrow> nat \<Rightarrow> nat \<Rightarrow> fs_error + (string \<times> fs_version)"
  b_write :: "fs_io \<Rightarrow> disk \<Rightarrow> fs_target \<Rightarrow> string \<Rightarrow> write_intent \<Rightarrow> (fs_error + written_file) \<times> disk"
  b_edit :: "fs_io \<Rightarrow> disk \<Rightarrow> fs_target \<Rightarrow> edit_request \<Rightarrow> fs_version option \<Rightarrow> (fs_error + edited_file) \<times> disk"
  b_list :: "disk \<Rightarrow> fs_target \<Rightarrow> fs_error + dir_entry list"
  b_glob :: "disk \<Rightarrow> fs_target \<Rightarrow> string \<Rightarrow> fs_error + fs_target list"
  b_delete :: "fs_io \<Rightarrow> disk \<Rightarrow> fs_target \<Rightarrow> bool \<Rightarrow> (fs_error + deleted) \<times> disk"

text \<open>\<^verbatim>\<open>LocalFs\<close> holds its working directory, and the walk over the whole file system.\<close>

record local_fs =
  lf_root :: path
  lf_walk :: workspace

definition new_local :: "(string \<Rightarrow> string) \<Rightarrow> disk \<Rightarrow> path \<Rightarrow> string \<Rightarrow> fs_error + local_fs" where
  "new_local debug os cwd root =
     (case (if root = [] then Inl Not_Found else canon False os LINKS cwd (components root)) of
        Inl e \<Rightarrow> Inl (from_io root ''resolve of the working directory'' e)
      | Inr q \<Rightarrow>
          (if \<not> (case metadata os q of Inr nd \<Rightarrow> nd_body nd = Directory | Inl _ \<Rightarrow> False) then
             Inl (FsNotDirectory (shown q))
           else case new_workspace os cwd [SEP] of
             Inl e \<Rightarrow> Inl (FsIo ''/'' ''resolve of the filesystem root'' (fence_error_text debug e))
           | Inr ws \<Rightarrow> Inr \<lparr>lf_root = q, lf_walk = ws\<rparr>))"

definition joined :: "path \<Rightarrow> string \<Rightarrow> string" where
  "joined p s = (if p = [] then SEP # s else shown p @ [SEP] @ s)"

definition resolve_unfenced :: "(string \<Rightarrow> string) \<Rightarrow> local_fs \<Rightarrow> disk \<Rightarrow> string \<Rightarrow> fs_error + fs_target" where
  "resolve_unfenced debug lf os s =
     (let absolute = (if is_absolute s then s else joined (lf_root lf) s)
      in case resolve_path os (lf_walk lf) absolute of
           Inl e \<Rightarrow> Inl (FsIo absolute ''resolve'' (fence_error_text debug e))
         | Inr r \<Rightarrow> Inr (target_for (rs_path r) (rs_path r)))"

definition local_backend :: "(string \<Rightarrow> string) \<Rightarrow> local_fs \<Rightarrow> backend" where
  "local_backend debug lf =
     \<lparr>b_name = ''local'', b_mode = DangerFullAccess, b_resolve = resolve_unfenced debug lf,
      b_stat = (\<lambda>os t. stat_path os (t_path t)), b_read = read_text, b_read_bytes = read_window,
      b_write = write_text, b_edit = edit_text,
      b_list = (\<lambda>os t. list_dir os t (\<lambda>p. Some (target_for p (lf_root lf)))),
      b_glob = (\<lambda>os t s. glob_under os t s (\<lambda>p. Some (target_for p (lf_root lf)))),
      b_delete = delete_path\<rparr>"

record sandboxed_fs =
  sb_fence :: workspace
  sb_mode :: fs_mode

definition new_sandboxed :: "(string \<Rightarrow> string) \<Rightarrow> disk \<Rightarrow> path \<Rightarrow> string \<Rightarrow> fs_mode \<Rightarrow> fs_error + sandboxed_fs" where
  "new_sandboxed debug os cwd root m =
     (if m = DangerFullAccess then
        Inl (FsSandboxDenied root ''compose a sandboxed filesystem for''
          ([CHR 0x22] @ ''danger-full-access'' @ [CHR 0x22] @ '' is the absence of a fence, so it selects the local backend rather than a mode of this one''))
      else case new_workspace os cwd root of
        Inl e \<Rightarrow> Inl (FsIo root ''resolve of the workspace root'' (fence_error_text debug e))
      | Inr ws \<Rightarrow>
          (case new_local debug os cwd (shown (ws_root ws)) of
             Inl e \<Rightarrow> Inl e
           | Inr _ \<Rightarrow> Inr \<lparr>sb_fence = ws, sb_mode = m\<rparr>))"

definition judge_mutation :: "sandboxed_fs \<Rightarrow> fs_target \<Rightarrow> string \<Rightarrow> fs_error option" where
  "judge_mutation sb t operation =
     (if may_mutate (sb_mode sb) then None
      else Some (FsSandboxDenied (t_display t) operation (mode_refusal (sb_mode sb) operation)))"

text \<open>\<open>contained\<close> is given an absolute path, which the fence walks name by name.\<close>

definition contained_path :: "sandboxed_fs \<Rightarrow> disk \<Rightarrow> path \<Rightarrow> fs_target option" where
  "contained_path sb os p =
     (case resolve_path os (sb_fence sb) (shown p) of
        Inl _ \<Rightarrow> None
      | Inr r \<Rightarrow> Some (target_for (rs_path r) (ws_root (sb_fence sb))))"

definition resolve_fenced :: "sandboxed_fs \<Rightarrow> disk \<Rightarrow> string \<Rightarrow> fs_error + fs_target" where
  "resolve_fenced sb os s =
     (case resolve_path os (sb_fence sb) s of
        Inl (Denied requested at root) \<Rightarrow>
          Inl (FsSandboxDenied requested ''use''
            (''it resolves to '' @ at @ '', which is outside the workspace '' @ root @ ''. Work inside the workspace, using a path relative to it''))
      | Inl (RootUnresolved root e m) \<Rightarrow>
          Inl (case e of Other_Io _ \<Rightarrow> FsIo root ''resolve of the workspace root'' m
             | _ \<Rightarrow> from_io root ''resolve of the workspace root'' e)
      | Inr r \<Rightarrow> Inr (target_for (rs_path r) (ws_root (sb_fence sb))))"

definition sandboxed_delete ::
  "sandboxed_fs \<Rightarrow> fs_io \<Rightarrow> disk \<Rightarrow> fs_target \<Rightarrow> bool \<Rightarrow> (fs_error + deleted) \<times> disk"
where
  "sandboxed_delete sb io os t recursive =
     (case judge_mutation sb t ''delete'' of
        Some e \<Rightarrow> (Inl e, os)
      | None \<Rightarrow>
          (if t_path t = ws_root (sb_fence sb) then
             (Inl (FsSandboxDenied (t_display t) ''delete'' ''it is the workspace root itself, which this session works inside''), os)
           else delete_path io os t recursive))"

definition sandboxed_backend :: "sandboxed_fs \<Rightarrow> backend" where
  "sandboxed_backend sb =
     \<lparr>b_name = ''sandboxed'', b_mode = sb_mode sb, b_resolve = resolve_fenced sb,
      b_stat = (\<lambda>os t. stat_path os (t_path t)), b_read = read_text, b_read_bytes = read_window,
      b_write = (\<lambda>io os t content intent.
        case judge_mutation sb t ''write'' of Some e \<Rightarrow> (Inl e, os) | None \<Rightarrow> write_text io os t content intent),
      b_edit = (\<lambda>io os t ed guard.
        case judge_mutation sb t ''edit'' of Some e \<Rightarrow> (Inl e, os) | None \<Rightarrow> edit_text io os t ed guard),
      b_list = (\<lambda>os t. list_dir os t (contained_path sb os)),
      b_glob = (\<lambda>os t s. glob_under os t s (contained_path sb os)),
      b_delete = sandboxed_delete sb\<rparr>"

text \<open>\<^verbatim>\<open>access.rs\<close>: the mode selects the backend.\<close>

definition backend_for :: "(string \<Rightarrow> string) \<Rightarrow> disk \<Rightarrow> path \<Rightarrow> fs_mode \<Rightarrow> string \<Rightarrow> fs_error + backend" where
  "backend_for debug os cwd m root =
     (if m = DangerFullAccess then
        (case new_local debug os cwd root of Inl e \<Rightarrow> Inl e | Inr lf \<Rightarrow> Inr (local_backend debug lf))
      else case new_sandboxed debug os cwd root m of Inl e \<Rightarrow> Inl e | Inr sb \<Rightarrow> Inr (sandboxed_backend sb))"

end
