(* ===== verification/Files_Safety.thy ===== *)
theory Files_Safety
  imports Files
begin

text \<open>
  What the two backends promise: a fenced session changes and reads nothing outside its workspace,
  a write is seen whole or not at all, an edit replaces what it says, and a search of a directory
  answers with bounded, ordered, matching entries.
\<close>

section \<open>What a mutation touches\<close>

definition changed_at :: "disk \<Rightarrow> disk \<Rightarrow> path \<Rightarrow> bool" where
  "changed_at os os' x \<longleftrightarrow> map_of (entries os') x \<noteq> map_of (entries os) x"

definition same_rules :: "disk \<Rightarrow> disk \<Rightarrow> bool" where
  "same_rules os os' \<longleftrightarrow> refused os' = refused os \<and> barred os' = barred os"

lemma map_of_filter_key: "map_of (filter (\<lambda>x. P (fst x)) xs) k = (if P k then map_of xs k else None)"
  by (induction xs) auto

lemma map_of_drop_entry [simp]: "map_of (entries (drop_entry p os)) = (map_of (entries os))(p := None)"
  by (rule ext) (simp add: drop_entry_def map_of_filter_key [of "\<lambda>y. y \<noteq> p"])

lemma map_of_put_entry [simp]: "map_of (entries (put_entry p nd os)) = (map_of (entries os))(p \<mapsto> nd)"
  by (rule ext) (simp add: put_entry_def map_of_filter_key [of "\<lambda>y. y \<noteq> p"])

lemma rules_entry_ops [simp]:
  "refused (drop_entry p os) = refused os" "barred (drop_entry p os) = barred os"
  "refused (put_entry p nd os) = refused os" "barred (put_entry p nd os) = barred os"
  by (simp_all add: drop_entry_def put_entry_def)

lemma entry_put_entry: "entry (put_entry p nd os) x = (if x = p \<and> refused os p = None then Inr nd else entry os x)"
  by (auto simp: entry_def split: option.split)

lemma entry_drop_entry:
  "entry (drop_entry p os) x = (if x = p then (case refused os p of Some e \<Rightarrow> Inl e | None \<Rightarrow> Inl Not_Found) else entry os x)"
  by (auto simp: entry_def split: option.split)

text \<open>
  A creation at a place nothing is at: resolving it either fails or ends there.
\<close>

lemma canon_snoc_missing:
  assumes "plain os c" and "entry os (c @ [n]) = Inl e"
  shows "canon True os b [] (map Normal (c @ [n])) =
    (if is_dir os c then (if e = Not_Found then Inr (c @ [n]) else Inl e) else Inl Not_A_Directory)"
  using plain_canon [of os "[]" c True b "[Normal n]"] assms by simp

lemma missing_entry: "map_of (entries os) p = None \<Longrightarrow> \<exists>e. entry os p = Inl e"
  by (auto simp: entry_def split: option.split)

text \<open>Creating fails the same way \<^const>\<open>canonicalize\<close> does, when that fails before the last name.\<close>

lemma canon_creating_fails:
  "canon False os b cur cs = Inl e \<Longrightarrow> r \<noteq> [] \<Longrightarrow> \<exists>e'. canon True os b cur (cs @ r) = Inl e'"
proof (induction "False" os b cur cs arbitrary: e rule: canon.induct)
  case (5 os b cur n rs)
  then show ?case
    by (auto split: if_splits sum.splits body.splits nat.splits)
qed (auto split: if_splits)

lemma store_bytes_fresh:
  assumes "plain os c \<or> (\<exists>e. canonicalize os c = Inl e)" and "map_of (entries os) (c @ [n]) = None"
    and "store_bytes io os (c @ [n]) bytes = (r, os')"
  shows "os' = os \<and> r \<noteq> None \<or>
    r = None \<and> plain os c \<and> is_dir os c \<and> refused os (c @ [n]) = None \<and>
    os' = put_entry (c @ [n]) \<lparr>nd_body = Regular bytes, nd_dev = fst (io_id io), nd_ino = snd (io_id io),
                 nd_mtime = io_time io, nd_extent = 0\<rparr> os"
proof (cases "\<exists>e. canonicalize os c = Inl e")
  case True
  then obtain e where "canon True os LINKS [] (map Normal (c @ [n])) = Inl e"
    using canon_creating_fails [of os LINKS "[]" "map Normal c" _ "[Normal n]"]
    by (auto simp: canonicalize_def)
  with assms(3) show ?thesis by (auto simp: store_bytes_def)
next
  case False
  with assms(1) have p: "plain os c" by blast
  obtain e where e: "entry os (c @ [n]) = Inl e" using missing_entry [OF assms(2)] by blast
  with canon_snoc_missing [OF p e, of LINKS] assms(3) p e show ?thesis
    by (auto simp: store_bytes_def split: if_splits option.splits)
qed

lemma lplace_plain:
  "plain os c \<Longrightarrow> lplace os (c @ [n]) = (if is_dir os c then Inr (c @ [n]) else Inl Not_A_Directory)"
  by (simp add: lplace_def canonicalize_plain)

lemma is_dir_put_other:
  "x \<noteq> p \<Longrightarrow> is_dir (put_entry p nd os) x = is_dir os x"
  by (simp add: is_dir_def entry_put_entry)

lemma plain_put:
  assumes "plain os c" and "map_of (entries os) p = None"
  shows "plain (put_entry p nd os) c"
proof -
  have *: "entry os x = Inr m \<Longrightarrow> entry (put_entry p nd os) x = Inr m" for x m
    using missing_entry [OF assms(2)] by (auto simp: entry_put_entry)
  moreover have "is_dir os x \<Longrightarrow> is_dir (put_entry p nd os) x" for x
    using missing_entry [OF assms(2)] by (auto simp: is_dir_def entry_put_entry)
  ultimately show ?thesis using assms(1) unfolding plain_def by blast
qed

lemma make_temp_fresh:
  assumes "plain os c \<or> (\<exists>e. canonicalize os c = Inl e)" and "map_of (entries os) (c @ [n]) = None"
    and "make_temp io os (c @ [n]) bytes = (r, os')"
  shows "os' = os \<and> r \<noteq> None \<or>
    plain os c \<and> is_dir os c \<and> refused os (c @ [n]) = None \<and>
    (\<exists>s. (r = None \<longrightarrow> s = bytes) \<and>
      os' = put_entry (c @ [n]) \<lparr>nd_body = Regular s, nd_dev = fst (io_id io), nd_ino = snd (io_id io),
                 nd_mtime = io_time io, nd_extent = 0\<rparr> os)"
proof (cases "io_made io")
  case Made
  with assms store_bytes_fresh [OF assms(1,2), of io bytes] show ?thesis by (simp add: make_temp_def) blast
next
  case (MadeRefused e)
  with assms show ?thesis by (auto simp: make_temp_def)
next
  case (MadeTorn k e)
  obtain r1 os1 where s: "store_bytes io os (c @ [n]) (take k bytes) = (r1, os1)" by fastforce
  with store_bytes_fresh [OF assms(1,2) s] assms(3) MadeTorn show ?thesis
    by (auto simp: make_temp_def split: option.splits)
next
  case (MadeUnsynced e)
  obtain r1 os1 where s: "store_bytes io os (c @ [n]) bytes = (r1, os1)" by fastforce
  with store_bytes_fresh [OF assms(1,2) s] assms(3) MadeUnsynced show ?thesis
    by (auto simp: make_temp_def split: option.splits)
qed

lemma try_remove_missing:
  assumes "plain os c \<or> (\<exists>e. canonicalize os c = Inl e)" and "map_of (entries os) (c @ [n]) = None"
  shows "try_remove io os (c @ [n]) = os"
proof -
  have "lplace os (c @ [n]) = Inr (c @ [n]) \<or> (\<exists>e. lplace os (c @ [n]) = Inl e)"
    using assms(1) by (cases "is_dir os c") (auto simp: lplace_def canonicalize_plain)
  with missing_entry [OF assms(2)] show ?thesis
    by (auto simp: try_remove_def remove_file_def split: sum.splits)
qed

lemma try_remove_temp:
  assumes "plain os c" and "is_dir os c" and "map_of (entries os) (c @ [n]) = None" and "refused os (c @ [n]) = None"
  shows "try_remove io (put_entry (c @ [n]) nd os) (c @ [n])
    = (if io_removed io \<and> nd_body nd \<noteq> Directory then drop_entry (c @ [n]) (put_entry (c @ [n]) nd os)
       else put_entry (c @ [n]) nd os)"
  using lplace_plain [OF plain_put [OF assms(1,3)], of nd n] assms
  by (simp add: try_remove_def remove_file_def is_dir_put_other entry_put_entry)

definition fresh_temp :: "fs_io \<Rightarrow> disk \<Rightarrow> path \<Rightarrow> bool" where
  "fresh_temp io os p \<longleftrightarrow> map_of (entries os) (temp_path io p) = None \<and> last (temp_path io p) \<noteq> last p"

abbreviation new_file :: "fs_io \<Rightarrow> string \<Rightarrow> node" where
  "new_file io s \<equiv> \<lparr>nd_body = Regular s, nd_dev = fst (io_id io), nd_ino = snd (io_id io),
     nd_mtime = io_time io, nd_extent = 0\<rparr>"

text \<open>
  A publish that fails leaves the destination as it was and at most the temporary behind; one that
  goes through leaves the whole content there, and no temporary.
\<close>

lemma publish_cases:
  assumes p: "p \<noteq> []" and c: "plain os (butlast p) \<or> (\<exists>e. canonicalize os (butlast p) = Inl e)"
    and f: "fresh_temp io os p" and pub: "publish io os p content = (r, os')"
  obtains (nothing) "r \<noteq> None" "os' = os"
    | (left) s where "r \<noteq> None" "plain os (butlast p)" "is_dir os (butlast p)"
        "os' = put_entry (temp_path io p) (new_file io s) os
          \<or> os' = drop_entry (temp_path io p) (put_entry (temp_path io p) (new_file io s) os)"
    | (published) "r = None" "plain os (butlast p)" "is_dir os (butlast p)" "\<not> is_dir os p" "refused os p = None"
        "os' = put_entry p (new_file io content)
          (drop_entry (temp_path io p) (put_entry (temp_path io p) (new_file io content) os))"
proof -
  obtain n where t: "temp_path io p = butlast p @ [n]" using p by (simp add: temp_path_def)
  define c where "c = butlast p"
  have tc: "temp_path io p = c @ [n]" and pc: "p = c @ [last p]" using t p by (simp_all add: c_def)
  have miss: "map_of (entries os) (c @ [n]) = None" and ne: "c @ [n] \<noteq> p"
    using f tc pc by (auto simp: fresh_temp_def)
  have cc: "plain os c \<or> (\<exists>e. canonicalize os c = Inl e)" using assms(2) by (simp add: c_def)
  obtain r1 os1 where m: "make_temp io os (c @ [n]) content = (r1, os1)" by fastforce
  from make_temp_fresh [OF cc miss m]
  consider (kept) "os1 = os" "r1 \<noteq> None"
    | (made) s where "plain os c" "is_dir os c" "refused os (c @ [n]) = None" "r1 = None \<longrightarrow> s = content"
        "os1 = put_entry (c @ [n]) (new_file io s) os" by blast
  then show ?thesis
  proof cases
    case kept
    with pub m tc try_remove_missing [OF cc miss] have "r \<noteq> None" "os' = os"
      by (auto simp: publish_def Let_def)
    then show ?thesis by (rule nothing)
  next
    case made
    have removed: "try_remove io os1 (c @ [n]) = os1 \<or> try_remove io os1 (c @ [n]) = drop_entry (c @ [n]) os1"
      using try_remove_temp [OF made(1,2) miss made(3), of io "new_file io s"] made(5) by simp
    have l: "lplace os1 (c @ [n]) = Inr (c @ [n])" "lplace os1 p = Inr p"
      using lplace_plain [OF plain_put [OF made(1) miss]] made(2,5) pc
      by (metis append_self_conv is_dir_put_other not_Cons_self2)+
    show ?thesis
    proof (cases "r1 = None \<and> io_moved io = None \<and> \<not> is_dir os p \<and> refused os p = None")
      case False
      have "r1 = None \<Longrightarrow> io_moved io = None \<Longrightarrow> \<exists>e. rename os1 (c @ [n]) p = Inl e"
      proof -
        assume "r1 = None" "io_moved io = None"
        with False have "is_dir os p \<or> refused os p \<noteq> None" by simp
        then have "is_dir os1 p \<or> refused os1 p \<noteq> None" using ne made(5) by (auto simp: is_dir_put_other)
        with l show ?thesis
          by (cases "entry os1 (c @ [n])"; cases "refused os1 p") (simp_all add: rename_def)
      qed
      with pub m tc have "r \<noteq> None" "os' = try_remove io os1 (c @ [n])"
        by (auto simp: publish_def Let_def split: option.splits)
      with removed made show ?thesis
        by (intro left [of s]) (auto simp: c_def [symmetric] tc)
    next
      case True
      have "rename os1 (c @ [n]) p
          = Inr (put_entry p (new_file io content) (drop_entry (c @ [n]) os1))"
        using l True made(3,4,5) ne by (simp add: rename_def entry_put_entry is_dir_put_other)
      with pub m tc True have "r = None"
        "os' = put_entry p (new_file io content) (drop_entry (c @ [n]) os1)"
        by (auto simp: publish_def Let_def)
      with True made show ?thesis by (intro published) (auto simp: c_def [symmetric] tc)
    qed
  qed
qed

lemma judged_parent:
  "judged os p \<Longrightarrow> plain os (butlast p) \<or> (\<exists>e. canonicalize os (butlast p) = Inl e)"
  using judged_canonicalize [OF judged_step [of os p ParentDir]]
  by (cases "canonicalize os (butlast p)") auto

lemma entry_published:
  assumes "refused os p = None" and "os' = put_entry p nd (drop_entry q (put_entry q nd os))"
  shows "entry os' p = Inr nd"
  using assms by (simp add: entry_put_entry)

lemma plain_published:
  assumes "plain os (butlast p)" and "is_dir os (butlast p)" and "p \<noteq> []" and "refused os p = None"
    and "map_of (entries os) q = None" and "\<not> is_dir os p"
    and "nd_body nd = Regular s"
  shows "plain (put_entry p nd (drop_entry q (put_entry q nd os))) p"
proof -
  let ?os = "put_entry p nd (drop_entry q (put_entry q nd os))"
  have e: "entry ?os x = (if x = p then Inr nd else entry os x)" for x
    using assms(4,5) by (auto simp: entry_def split: option.split)
  have d: "is_dir os x \<Longrightarrow> is_dir ?os x" for x
    using assms(6) by (auto simp: is_dir_def e)
  have "plain ?os c" if "plain os c" "length c < length p" for c
    using that unfolding plain_def
    by (metis (no_types, lifting) d e length_take less_imp_le_nat less_trans_Suc linorder_not_less min.absorb2
        less_irrefl_nat Suc_leI)
  then have "plain ?os (butlast p)" using assms(1,3) by simp
  moreover have "p = butlast p @ [last p]" using assms(3) by simp
  ultimately show ?thesis
    using d [OF assms(2)] e [of p] assms(7) plain_snoc by (metis body.distinct(3))
qed

text \<open>What a publish leaves at its destination, and that nothing else changes but the temporary.\<close>

lemma publish_effect:
  assumes p: "p \<noteq> []" and j: "judged os p"
    and f: "fresh_temp io os p" and pub: "publish io os p content = (r, os')"
  shows "changed_at os os' x \<Longrightarrow> plain os (butlast p) \<and> (x = p \<or> r \<noteq> None \<and> x = temp_path io p)"
    and "r \<noteq> None \<Longrightarrow> \<not> changed_at os os' p"
    and "r = None \<Longrightarrow> map_of (entries os') p = Some (new_file io content)
      \<and> stat_path os' p = Inr (Some \<lparr>i_version = version_of (new_file io content), i_kind = FileK,
          i_size = length content\<rparr>)"
proof -
  have ne: "temp_path io p \<noteq> p" and miss: "map_of (entries os) (temp_path io p) = None"
    using f by (auto simp: fresh_temp_def)
  note cases = publish_cases [OF p judged_parent [OF j] f pub]
  show "changed_at os os' x \<Longrightarrow> plain os (butlast p) \<and> (x = p \<or> r \<noteq> None \<and> x = temp_path io p)"
    by (rule cases) (use miss in \<open>auto simp: changed_at_def split: if_splits\<close>)
  show "r \<noteq> None \<Longrightarrow> \<not> changed_at os os' p"
    by (rule cases) (use ne in \<open>auto simp: changed_at_def\<close>)
  show "r = None \<Longrightarrow> map_of (entries os') p = Some (new_file io content)
      \<and> stat_path os' p = Inr (Some \<lparr>i_version = version_of (new_file io content), i_kind = FileK,
          i_size = length content\<rparr>)"
  proof (rule cases)
    assume pb: "plain os (butlast p)" "is_dir os (butlast p)" "\<not> is_dir os p" "refused os p = None"
      "os' = put_entry p (new_file io content)
          (drop_entry (temp_path io p) (put_entry (temp_path io p) (new_file io content) os))"
    have "plain os' p"
      using plain_published [OF pb(1,2) p pb(4) miss pb(3), of "new_file io content" content] pb(5) by simp
    then have "metadata os' p = Inr (new_file io content)"
      using entry_published [OF pb(4,5)] by (simp add: metadata_plain)
    then show ?thesis
      using pb(5) by (simp add: stat_path_def kind_of_def meta_len_def)
  qed auto
qed

definition guard_holds :: "disk \<Rightarrow> path \<Rightarrow> write_intent \<Rightarrow> bool" where
  "guard_holds os p intent \<longleftrightarrow>
     (case intent of
        Unconditional \<Rightarrow> True
      | CreateIfAbsent \<Rightarrow> stat_path os p = Inr None
      | ReplaceIfVersion v \<Rightarrow> \<exists>i. stat_path os p = Inr (Some i) \<and> i_version i = v)"

lemma stat_dir: "plain os p \<Longrightarrow> is_dir os p \<Longrightarrow> \<exists>i. stat_path os p = Inr (Some i) \<and> i_kind i = DirectoryK"
  by (auto simp: stat_path_def metadata_plain is_dir_def kind_of_def split: sum.splits)

lemma write_text_cases:
  assumes "write_text io os t content intent = (r, os')"
  obtains (refused) e where "r = Inl e" "os' = os"
    | (published) existing pr where "stat_path os (t_path t) = Inr existing" "guard_holds os (t_path t) intent"
        "\<forall>i. existing = Some i \<longrightarrow> i_kind i = FileK" "publish io os (t_path t) content = (pr, os')"
        "\<forall>e. pr = Some e \<longrightarrow> r = Inl e"
        "pr = None \<Longrightarrow> r = (case stat_path os' (t_path t) of Inl e \<Rightarrow> Inl e
           | Inr None \<Rightarrow> Inl (FsIo (t_display t) ''write'' ''the file was gone immediately after it was written'')
           | Inr (Some after) \<Rightarrow> Inr \<lparr>w_operation = (if existing \<noteq> None then UpdatedFile else CreatedFile),
               w_version = i_version after, w_before = (if existing \<noteq> None then prior_text os t else None),
               w_after = content\<rparr>)"
proof (cases "stat_path os (t_path t)")
  case (Inl e)
  with assms show ?thesis by (intro refused) (auto simp: write_text_def)
next
  case (Inr existing)
  define g where "g = (case existing of
      Some i \<Rightarrow> (if i_kind i \<noteq> FileK then Some (not_regular t (i_kind i)) else write_guard t intent existing)
    | None \<Rightarrow> write_guard t intent existing)"
  show ?thesis
  proof (cases g)
    case (Some e)
    with assms Inr show ?thesis by (intro refused) (auto simp: write_text_def g_def)
  next
    case None
    obtain pr os1 where pub: "publish io os (t_path t) content = (pr, os1)" by fastforce
    have o: "os1 = os'"
      using assms Inr None pub by (auto simp: write_text_def g_def split: option.splits sum.splits)
    have w: "write_guard t intent existing = None" and k: "\<forall>i. existing = Some i \<longrightarrow> i_kind i = FileK"
      using None by (auto simp: g_def split: option.splits if_splits)
    have "guard_holds os (t_path t) intent"
      using w Inr by (auto simp: guard_holds_def write_guard_def split: write_intent.splits option.splits if_splits)
    with Inr k pub o show ?thesis
      using assms None by (intro published [of existing pr])
        (auto simp: write_text_def g_def [symmetric] split: option.splits sum.splits)
  qed
qed

lemma judged_nonempty:
  assumes "judged os p" and "is_dir os []" and "stat_path os p = Inr existing" and "\<forall>i. existing = Some i \<longrightarrow> i_kind i = FileK"
  shows "p \<noteq> []"
proof
  assume "p = []"
  with stat_dir [of os "[]"] assms show False by auto
qed

lemma write_effect:
  assumes "judged os (t_path t)" and "is_dir os []" and "fresh_temp io os (t_path t)"
    and "write_text io os t content intent = (r, os')"
  shows "case r of
      Inl e \<Rightarrow> \<forall>x. changed_at os os' x \<longrightarrow> x = temp_path io (t_path t) \<and> x \<noteq> t_path t
    | Inr w \<Rightarrow> guard_holds os (t_path t) intent \<and> w_after w = content
        \<and> map_of (entries os') (t_path t) = Some (new_file io content)
        \<and> stat_path os' (t_path t) = Inr (Some \<lparr>i_version = w_version w, i_kind = FileK, i_size = length content\<rparr>)
        \<and> (\<forall>x. changed_at os os' x \<longrightarrow> x = t_path t)"
  using assms(4)
proof (cases rule: write_text_cases)
  case refused
  then show ?thesis by (simp add: changed_at_def)
next
  case (published existing pr)
  have "t_path t \<noteq> []" using judged_nonempty [OF assms(1,2)] published(1,3) by blast
  note e = publish_effect [OF this assms(1,3) published(4)]
  show ?thesis
  proof (cases pr)
    case None
    with published e show ?thesis by auto
  next
    case (Some x)
    with published(5) e show ?thesis by auto
  qed
qed

text \<open>
  C12. A write is seen whole or not at all.  Whatever the system answers to its calls, a write that
  fails leaves the file as it was, and of everything else on the disk at most its own temporary
  differs; one that succeeds held its guard (nothing was there, or the version expected was),
  leaves exactly the new content, changes nothing else, and answers the version the file now has.
\<close>

theorem write_atomic:
  assumes "judged os (t_path t)" and "is_dir os []" and "fresh_temp io os (t_path t)"
    and "write_text io os t content intent = (r, os')"
  shows "case r of
      Inl e \<Rightarrow> \<forall>x. changed_at os os' x \<longrightarrow> x = temp_path io (t_path t) \<and> x \<noteq> t_path t
    | Inr w \<Rightarrow> guard_holds os (t_path t) intent \<and> w_after w = content
        \<and> map_of (entries os') (t_path t) = Some (new_file io content)
        \<and> stat_path os' (t_path t) = Inr (Some \<lparr>i_version = w_version w, i_kind = FileK, i_size = length content\<rparr>)
        \<and> (\<forall>x. changed_at os os' x \<longrightarrow> x = t_path t)"
  by (rule write_effect [OF assms])

lemma edit_text_cases:
  assumes "edit_text io os t ed guard = (r, os')"
  obtains (refused) e where "r = Inl e" "os' = os"
    | (published) before v after pr where "read_text os t = Inr (before, v)" "guard = None \<or> guard = Some v"
        "e_old ed \<noteq> []" "count_matches (e_old ed) before > 0"
        "\<not> e_all ed \<longrightarrow> count_matches (e_old ed) before = 1"
        "after = (if e_all ed then replace_matches (e_old ed) (e_new ed) before
                  else replace_first (e_old ed) (e_new ed) before)"
        "publish io os (t_path t) after = (pr, os')"
        "\<forall>e. pr = Some e \<longrightarrow> r = Inl e"
        "pr = None \<Longrightarrow> r = (case stat_path os' (t_path t) of Inl e \<Rightarrow> Inl e
           | Inr None \<Rightarrow> Inl (FsIo (t_display t) ''edit'' ''the file was gone immediately after it was edited'')
           | Inr (Some stamped) \<Rightarrow> Inr \<lparr>ed_version = i_version stamped, ed_before = before, ed_after = after,
               ed_replacements = (if e_all ed then count_matches (e_old ed) before else 1)\<rparr>)"
proof (cases "e_old ed = []")
  case True
  with assms show ?thesis by (intro refused) (auto simp: edit_text_def)
next
  case ne: False
  show ?thesis
  proof (cases "read_text os t")
    case (Inl e)
    with assms ne show ?thesis by (intro refused) (auto simp: edit_text_def)
  next
    case (Inr bv)
    obtain before v where bv: "bv = (before, v)" by fastforce
    define n where "n = count_matches (e_old ed) before"
    define after where "after = (if e_all ed then replace_matches (e_old ed) (e_new ed) before
                  else replace_first (e_old ed) (e_new ed) before)"
    show ?thesis
    proof (cases "(guard \<noteq> None \<and> guard \<noteq> Some v) \<or> n = 0 \<or> (n > 1 \<and> \<not> e_all ed)")
      case True
      with assms ne Inr bv have "\<exists>e. r = Inl e \<and> os' = os"
        by (auto simp: edit_text_def Let_def n_def [symmetric] split: if_splits)
      with refused show ?thesis by blast
    next
      case False
      obtain pr os1 where pub: "publish io os (t_path t) after = (pr, os1)" by fastforce
      have eq: "edit_text io os t ed guard = (case publish io os (t_path t) after of
           (Some e, os') \<Rightarrow> (Inl e, os')
         | (None, os') \<Rightarrow>
             (case stat_path os' (t_path t) of
                Inl e \<Rightarrow> (Inl e, os')
              | Inr None \<Rightarrow>
                  (Inl (FsIo (t_display t) ''edit'' ''the file was gone immediately after it was edited''), os')
              | Inr (Some stamped) \<Rightarrow>
                  (Inr \<lparr>ed_version = i_version stamped, ed_before = before, ed_after = after,
                     ed_replacements = (if e_all ed then n else 1)\<rparr>, os')))"
        using ne Inr bv False
        by (cases "e_all ed")
          (auto simp: edit_text_def Let_def n_def [symmetric] after_def split: option.splits prod.splits sum.splits)
      have o: "os1 = os'"
        using assms eq pub by (auto split: option.splits sum.splits)
      show ?thesis
      proof (rule published)
        show "read_text os t = Inr (before, v)" using Inr bv by simp
        show "guard = None \<or> guard = Some v" using False by auto
        show "publish io os (t_path t) after = (pr, os')" using pub o by simp
        show "\<forall>e. pr = Some e \<longrightarrow> r = Inl e" using assms eq pub by auto
        show "r = (case stat_path os' (t_path t) of Inl e \<Rightarrow> Inl e
           | Inr None \<Rightarrow> Inl (FsIo (t_display t) ''edit'' ''the file was gone immediately after it was edited'')
           | Inr (Some stamped) \<Rightarrow> Inr \<lparr>ed_version = i_version stamped, ed_before = before, ed_after = after,
               ed_replacements = (if e_all ed then count_matches (e_old ed) before else 1)\<rparr>)" if "pr = None"
          using assms eq pub that o by (auto simp: n_def split: option.splits sum.splits)
      qed (use False ne in \<open>auto simp: after_def n_def\<close>)
    qed
  qed
qed

lemma join_Cons: "xs \<noteq> [] \<Longrightarrow> join sep (x # xs) = x @ sep @ join sep xs"
  by (cases xs) auto

text \<open>The text is cut at its matches; replacing them is joining the pieces with the new text.\<close>

lemma replace_pieces:
  "old \<noteq> [] \<Longrightarrow> \<exists>ps. length ps = Suc (count_matches old s) \<and> s = join old ps \<and> replace_matches old new s = join new ps"
proof (induction old s rule: count_matches.induct)
  case (1 old s)
  show ?case
  proof (cases "cut_at old s")
    case None
    then show ?thesis
      by (intro exI [of _ "[s]"]) (simp add: count_matches.simps [of old s] replace_matches.simps [of old new s])
  next
    case (Some ab)
    obtain a b where ab: "ab = (a, b)" by fastforce
    from 1(1) [OF 1(2) Some ab [symmetric] 1(2)] obtain ps where ps: "length ps = Suc (count_matches old b)"
      "b = join old ps" "replace_matches old new b = join new ps" by auto
    then have "ps \<noteq> []" by auto
    moreover have "count_matches old s = Suc (count_matches old b)"
      and "replace_matches old new s = a @ new @ replace_matches old new b"
      using Some ab 1(2) by (simp_all add: count_matches.simps [of old s] replace_matches.simps [of old new s])
    moreover have "s = a @ old @ b" using Some ab cut_at_Some by blast
    ultimately show ?thesis using ps
      by (intro exI [of _ "a # ps"]) (simp add: join_Cons)
  qed
qed

lemma replace_first_pieces:
  assumes "old \<noteq> []" and "count_matches old s > 0"
  shows "\<exists>a b. s = a @ old @ b \<and> replace_first old new s = a @ new @ b"
proof (cases "cut_at old s")
  case None
  with assms show ?thesis by (simp add: count_matches.simps)
next
  case (Some ab)
  then show ?thesis using cut_at_Some [of old s "fst ab" "snd ab"]
    by (intro exI [of _ "fst ab"] exI [of _ "snd ab"]) (simp add: replace_first_def split: prod.splits)
qed

lemma edit_effect:
  assumes "judged os (t_path t)" and "is_dir os []" and "fresh_temp io os (t_path t)"
    and "edit_text io os t ed guard = (r, os')"
  shows "case r of
      Inl e \<Rightarrow> \<not> changed_at os os' (t_path t)
    | Inr w \<Rightarrow> (\<exists>v. read_text os t = Inr (ed_before w, v) \<and> (guard = None \<or> guard = Some v))
        \<and> (\<exists>ps. length ps = Suc (ed_replacements w) \<and> ed_before w = join (e_old ed) ps
                \<and> ed_after w = join (e_new ed) ps)
        \<and> (\<not> e_all ed \<longrightarrow> ed_replacements w = 1)
        \<and> map_of (entries os') (t_path t) = Some (new_file io (ed_after w))
        \<and> ed_version w = version_of (new_file io (ed_after w))
        \<and> (\<forall>x. changed_at os os' x \<longrightarrow> x = t_path t)"
  using assms(4)
proof (cases rule: edit_text_cases)
  case refused
  then show ?thesis by (simp add: changed_at_def)
next
  case (published before v after pr)
  have "stat_path os (t_path t) = Inr (Some i) \<Longrightarrow> i_kind i = FileK" for i
    using published(1) by (auto simp: read_text_def stat_path_def split: sum.splits if_splits io_error.splits)
  moreover have "\<exists>i. stat_path os (t_path t) = Inr (Some i)"
    using published(1) by (auto simp: read_text_def stat_path_def split: sum.splits)
  ultimately have "t_path t \<noteq> []" using judged_nonempty [OF assms(1,2)] by blast
  note e = publish_effect [OF this assms(1,3) published(7)]
  show ?thesis
  proof (cases pr)
    case None
    have "\<exists>ps. length ps = Suc (if e_all ed then count_matches (e_old ed) before else 1)
        \<and> before = join (e_old ed) ps \<and> after = join (e_new ed) ps"
    proof (cases "e_all ed")
      case True
      with replace_pieces [OF published(3), of before "e_new ed"] published(6) show ?thesis by simp
    next
      case False
      with replace_first_pieces [OF published(3,4), of "e_new ed"] published(6)
      obtain a b where "before = a @ e_old ed @ b" "after = a @ e_new ed @ b" by auto
      with False show ?thesis by (intro exI [of _ "[a, b]"]) simp
    qed
    with None published e show ?thesis by auto
  next
    case (Some x)
    with published(8) e show ?thesis by auto
  qed
qed

text \<open>
  An edit replaces what it says and nothing else.  One that succeeds read the file at the
  version it was guarded by; the text before is some pieces joined by the old text, the text after
  is the same pieces joined by the new, as many joints as it reports, one unless every occurrence
  was asked for; that text is then the file's whole content, at the version answered.  One that
  fails leaves the file as it was.
\<close>

theorem edit_replaces:
  assumes "judged os (t_path t)" and "is_dir os []" and "fresh_temp io os (t_path t)"
    and "edit_text io os t ed guard = (r, os')"
  shows "case r of
      Inl e \<Rightarrow> \<not> changed_at os os' (t_path t)
    | Inr w \<Rightarrow> (\<exists>v. read_text os t = Inr (ed_before w, v) \<and> (guard = None \<or> guard = Some v))
        \<and> (\<exists>ps. length ps = Suc (ed_replacements w) \<and> ed_before w = join (e_old ed) ps
                \<and> ed_after w = join (e_new ed) ps)
        \<and> (\<not> e_all ed \<longrightarrow> ed_replacements w = 1)
        \<and> map_of (entries os') (t_path t) = Some (new_file io (ed_after w))
        \<and> ed_version w = version_of (new_file io (ed_after w))
        \<and> (\<forall>x. changed_at os os' x \<longrightarrow> x = t_path t)"
  by (rule edit_effect [OF assms])

section \<open>The fence and the mutations\<close>

definition fenced :: "disk \<Rightarrow> sandboxed_fs \<Rightarrow> bool" where
  "fenced os sb \<longleftrightarrow> plain os (ws_root (sb_fence sb)) \<and> is_dir os (ws_root (sb_fence sb)) \<and> is_dir os []"

text \<open>One identity is one entry of the file system, so it is a directory wherever it is met.\<close>

definition ids_agree :: "disk \<Rightarrow> bool" where
  "ids_agree os \<longleftrightarrow> (\<forall>a b m n. entry os a = Inr m \<and> entry os b = Inr n \<and> id_of m = id_of n \<longrightarrow>
     (nd_body m = Directory \<longleftrightarrow> nd_body n = Directory))"

lemma target_for_path [simp]: "t_path (target_for p base) = p" "t_key (target_for p base) = shown p"
  by (simp_all add: target_for_def)

lemma resolve_fencedD:
  assumes "resolve_fenced sb os s = Inr t"
  obtains r where "resolve_path os (sb_fence sb) s = Inr r" "t = target_for (rs_path r) (ws_root (sb_fence sb))"
  using assms by (auto simp: resolve_fenced_def split: sum.splits fence_error.splits)

lemma fenced_judged:
  assumes "fenced os sb" and "resolve_path os (sb_fence sb) s = Inr r"
  shows "judged os (rs_path r)"
  using judged_walk resolve_pathD(1) assms by (metis fenced_def)

lemma root_is_dir:
  assumes "ids_agree os" and "is_dir os (ws_root ws)" and "is_root os ws a"
  shows "is_dir os a"
  using assms(3) unfolding is_root_def
proof
  assume "\<exists>m r. entry os a = Inr m \<and> entry os (ws_root ws) = Inr r \<and> id_of m = id_of r"
  then obtain m r where e: "entry os a = Inr m" "entry os (ws_root ws) = Inr r" "id_of m = id_of r" by blast
  with assms(2) have "nd_body r = Directory" by (simp add: is_dir_def)
  with e assms(1) have "nd_body m = Directory" unfolding ids_agree_def by blast
  with e show ?thesis by (simp add: is_dir_def)
qed (use assms(2) in simp)

lemma below_path:
  assumes f: "fenced os sb" and i: "ids_agree os" and r: "resolve_path os (sb_fence sb) s = Inr r"
    and nd: "\<not> is_dir os (rs_path r)"
  shows "plain os (butlast (rs_path r)) \<Longrightarrow> inside os (sb_fence sb) (butlast (rs_path r))"
    and "inside os (sb_fence sb) (rs_path r)"
proof -
  note j = fenced_judged [OF f r]
  from contains_inside [OF resolve_pathD(2) [OF r] j] f obtain a where
    a: "below a (rs_path r)" "plain os a" "is_root os (sb_fence sb) a" by (auto simp: fenced_def)
  then show "inside os (sb_fence sb) (rs_path r)" by (auto simp: inside_def)
  have "is_dir os a" using root_is_dir [OF i _ a(3)] f by (simp add: fenced_def)
  with nd a(1) have "below a (butlast (rs_path r))"
    by (auto simp: below_iff butlast_append)
  with a(3) show "inside os (sb_fence sb) (butlast (rs_path r))" by (auto simp: inside_def)
qed

lemma temp_path_inside: "p \<noteq> [] \<Longrightarrow> inside os ws (butlast p) \<Longrightarrow> inside os ws (temp_path io p)"
  by (auto simp: temp_path_def inside_def)

lemma publish_inside:
  assumes f: "fenced os sb" and i: "ids_agree os" and r: "resolve_path os (sb_fence sb) s = Inr r"
    and st: "stat_path os (rs_path r) = Inr existing" "\<forall>i. existing = Some i \<longrightarrow> i_kind i = FileK"
    and t: "fresh_temp io os (rs_path r)" and pub: "publish io os (rs_path r) content = (pr, os')"
    and c: "changed_at os os' x"
  shows "inside os (sb_fence sb) x"
proof -
  let ?p = "rs_path r"
  note j = fenced_judged [OF f r]
  have ne: "?p \<noteq> []" using judged_nonempty [OF j _ st] f by (simp add: fenced_def)
  note e = publish_effect(1) [OF ne j t pub c]
  have "\<not> is_dir os ?p"
  proof
    assume d: "is_dir os ?p"
    then obtain nd where "entry os ?p = Inr nd" "nd_body nd = Directory" by (auto simp: is_dir_def split: sum.splits)
    moreover have "plain os (butlast ?p)" "is_dir os (butlast ?p)"
      using e publish_cases [OF ne judged_parent [OF j] t pub] c by (metis changed_at_def)+
    ultimately have "plain os ?p" using plain_snoc [of os "butlast ?p" "last ?p"] ne by simp
    with stat_dir d st show False by fastforce
  qed
  note b = below_path [OF f i r this]
  from e b temp_path_inside [OF ne] show ?thesis by blast
qed

lemma lplace_judged: "judged os p \<Longrightarrow> lplace os p = Inr q \<Longrightarrow> q = p"
  using judged_canonicalize [OF judged_step [of os p ParentDir]]
  by (auto simp: lplace_def split: if_splits sum.splits)

lemma delete_path_changes:
  assumes j: "judged os (t_path t)" and d: "delete_path io os t recursive = (r, os')" and c: "changed_at os os' x"
  shows "below (t_path t) x"
proof -
  let ?p = "t_path t"
  have one: "below ?p x" if "remove_file os ?p = Inr os'"
    using that c lplace_judged [OF j]
    by (auto simp: remove_file_def changed_at_def split: sum.splits if_splits)
  have dir: "below ?p x" if "remove_dir io os ?p = (e, os')" for e
    using that c lplace_judged [OF j]
    by (auto simp: remove_dir_def changed_at_def split: sum.splits if_splits option.splits)
  have tree: "below ?p x" if "remove_dir_all io os ?p = (e, os')" for e
    using that c lplace_judged [OF j] map_of_filter_key [of "\<lambda>y. \<not> below (t_path t) y" "entries os" x]
      map_of_filter_key [of "\<lambda>y. below (t_path t) y \<longrightarrow> \<not> G y" "entries os" x for G]
    by (auto simp: remove_dir_all_def changed_at_def split: sum.splits if_splits option.splits)
  show ?thesis
    using d c one dir tree
    by (auto simp: delete_path_def Let_def changed_at_def split: sum.splits if_splits option.splits prod.splits)
qed

text \<open>
  C7. A fenced session changes nothing outside its workspace.  Through the fenced backend, whatever
  text names the file and whatever links stand on the way, a write, an edit or a delete leaves
  every entry of the disk that differs afterwards inside the workspace, and under read-only no
  entry differs at all.
\<close>

theorem sandbox_confines:
  assumes "fenced os sb" and "ids_agree os" and "b_resolve (sandboxed_backend sb) os s = Inr t"
    and "fresh_temp io os (t_path t)"
    and "os' = snd (b_write (sandboxed_backend sb) io os t content intent)
      \<or> os' = snd (b_edit (sandboxed_backend sb) io os t ed guard)
      \<or> os' = snd (b_delete (sandboxed_backend sb) io os t recursive)"
  shows "changed_at os os' x \<longrightarrow> inside os (sb_fence sb) x \<and> may_mutate (sb_mode sb)"
proof
  assume c: "changed_at os os' x"
  have m: "may_mutate (sb_mode sb)"
    using assms(5) c by (auto simp: sandboxed_backend_def sandboxed_delete_def judge_mutation_def changed_at_def
        split: if_splits)
  obtain r where r: "resolve_path os (sb_fence sb) s = Inr r" and t: "t = target_for (rs_path r) (ws_root (sb_fence sb))"
    using assms(3) by (auto simp: sandboxed_backend_def elim: resolve_fencedD)
  note j = fenced_judged [OF assms(1) r]
  have ft: "fresh_temp io os (rs_path r)" using assms(4) t by simp
  from assms(5) show "inside os (sb_fence sb) x \<and> may_mutate (sb_mode sb)"
  proof (elim disjE)
    assume "os' = snd (b_write (sandboxed_backend sb) io os t content intent)"
    with m have "os' = snd (write_text io os t content intent)"
      by (simp add: sandboxed_backend_def judge_mutation_def)
    then obtain rr where w: "write_text io os t content intent = (rr, os')" by (metis prod.collapse)
    show ?thesis
    proof (rule write_text_cases [OF w])
      fix existing pr
      assume "stat_path os (t_path t) = Inr existing" "\<forall>i. existing = Some i \<longrightarrow> i_kind i = FileK"
        "publish io os (t_path t) content = (pr, os')"
      with publish_inside [OF assms(1,2) r _ _ ft _ c] t m show ?thesis by simp
    qed (use c in \<open>simp add: changed_at_def\<close>)
  next
    assume "os' = snd (b_edit (sandboxed_backend sb) io os t ed guard)"
    with m have "os' = snd (edit_text io os t ed guard)"
      by (simp add: sandboxed_backend_def judge_mutation_def)
    then obtain rr where w: "edit_text io os t ed guard = (rr, os')" by (metis prod.collapse)
    show ?thesis
    proof (rule edit_text_cases [OF w])
      fix before v after pr
      assume rd: "read_text os t = Inr (before, v)" and p: "publish io os (t_path t) after = (pr, os')"
      have "\<exists>i. stat_path os (t_path t) = Inr (Some i) \<and> i_kind i = FileK"
        using rd by (auto simp: read_text_def stat_path_def split: sum.splits if_splits)
      with publish_inside [OF assms(1,2) r _ _ ft _ c] t m p show ?thesis by fastforce
    qed (use c in \<open>simp add: changed_at_def\<close>)
  next
    assume "os' = snd (b_delete (sandboxed_backend sb) io os t recursive)"
    with m c have "os' = snd (delete_path io os t recursive)"
      by (auto simp: sandboxed_backend_def sandboxed_delete_def judge_mutation_def changed_at_def split: if_splits)
    then obtain rr where "delete_path io os t recursive = (rr, os')" by (metis prod.collapse)
    from delete_path_changes [OF _ this c] j t have b: "below (rs_path r) x" by simp
    from contains_inside [OF resolve_pathD(2) [OF r] j] assms(1) obtain a where
      "below a (rs_path r)" "is_root os (sb_fence sb) a" by (auto simp: fenced_def)
    with b below_trans m show ?thesis unfolding inside_def by blast
  qed
qed

section \<open>Searching\<close>

text \<open>What a walk has found and has still to visit, seen from the directory it started in.\<close>

definition dotted :: "string \<Rightarrow> bool" where
  "dotted n \<longleftrightarrow> take 1 n = ''.''"

definition glob_answer :: "(path \<Rightarrow> fs_target option) \<Rightarrow> pattern \<Rightarrow> path \<Rightarrow> fs_target \<Rightarrow> bool" where
  "glob_answer res pt base u \<longleftrightarrow>
     (\<exists>parts. matches pt parts \<and> res (base @ parts) = Some u \<and> (p_hidden pt \<or> (\<forall>n\<in>set parts. \<not> dotted n)))"

fun glob_inv :: "(path \<Rightarrow> fs_target option) \<Rightarrow> pattern \<Rightarrow> path \<Rightarrow> glob_state \<Rightarrow> bool" where
  "glob_inv res pt base (found, visits, stack) \<longleftrightarrow>
     (\<forall>u\<in>set found. glob_answer res pt base u) \<and> int (length found) \<le> MAX_GLOB_MATCHES
     \<and> (\<forall>(d, pre)\<in>set stack. d = base @ pre \<and> (p_hidden pt \<or> (\<forall>n\<in>set pre. \<not> dotted n)))"

lemma glob_children_inv:
  "glob_inv res pt base st \<Longrightarrow> dir = base @ prefix \<Longrightarrow> p_hidden pt \<or> (\<forall>n\<in>set prefix. \<not> dotted n) \<Longrightarrow>
     glob_inv res pt base (glob_children os res pt dir prefix ns st)"
proof (induction os res pt dir prefix ns st rule: glob_children.induct)
  case (2 os res pt dir prefix n ns found visits stack)
  show ?case
  proof (cases "visits \<ge> MAX_GLOB_VISITS \<or> int (length found) \<ge> MAX_GLOB_MATCHES")
    case True
    with 2(4) show ?thesis by simp
  next
    case room: False
    show ?thesis
    proof (cases "take 1 n = ''.'' \<and> \<not> p_hidden pt")
      case True
      with 2(1) [OF room True] 2(4-6) room show ?thesis by simp
    next
      case seen: False
      show ?thesis
      proof (cases "symlink_metadata os (dir @ [n])")
        case (Inl e)
        with 2(2) [OF room seen Inl] 2(4-6) room seen show ?thesis by simp
      next
        case (Inr m)
        have here: "p_hidden pt \<or> (\<forall>k\<in>set (prefix @ [n]). \<not> dotted k)"
          using 2(6) seen by (auto simp: dotted_def)
        have "matches pt (prefix @ [n]) \<Longrightarrow> res (dir @ [n]) = Some u \<Longrightarrow> glob_answer res pt base u" for u
          using here 2(5) unfolding glob_answer_def by (intro exI [of _ "prefix @ [n]"]) simp
        then have next_inv: "glob_inv res pt base
            ((if matches pt (prefix @ [n]) then (case res (dir @ [n]) of Some t \<Rightarrow> found @ [t] | None \<Rightarrow> found) else found),
             visits + 1, (if nd_body m = Directory then (dir @ [n], prefix @ [n]) # stack else stack))"
          using 2(4,5) here room by (auto split: option.splits)
        have "glob_children os res pt dir prefix (n # ns) (found, visits, stack) =
          glob_children os res pt dir prefix ns
            ((if matches pt (prefix @ [n]) then (case res (dir @ [n]) of Some t \<Rightarrow> found @ [t] | None \<Rightarrow> found) else found),
             visits + 1, (if nd_body m = Directory then (dir @ [n], prefix @ [n]) # stack else stack))"
          using room seen Inr by auto
        with 2(3) [OF room seen Inr next_inv 2(5,6)] show ?thesis by (simp only:)
      qed
    qed
  qed
qed simp

lemma glob_walk_inv:
  "glob_inv res pt base st \<Longrightarrow>
     (\<forall>u\<in>set (glob_walk os res pt st). glob_answer res pt base u) \<and> int (length (glob_walk os res pt st)) \<le> MAX_GLOB_MATCHES"
proof (induction os res pt st rule: glob_walk.induct)
  case (2 os res pt found visits dir prefix stack)
  show ?case
  proof (cases "read_dir os dir")
    case (Inl e)
    with 2 show ?thesis by simp
  next
    case (Inr qn)
    obtain q ns where qn: "qn = (q, ns)" by fastforce
    have "glob_inv res pt base (glob_children os res pt dir prefix ns (found, visits, stack))"
      using 2(3) by (intro glob_children_inv) auto
    with 2(2) [OF Inr qn [symmetric]] Inr qn show ?thesis by simp
  qed
qed simp

lemma dedup_targets_Cons:
  "dedup_targets (t # ts) =
     (case dedup_targets ts of [] \<Rightarrow> [t] | u # us \<Rightarrow> if t_path t = t_path u then t # us else t # u # us)"
  by (simp add: dedup_targets_def split: list.split)

lemma dedup_targets_hd: "ts \<noteq> [] \<Longrightarrow> \<exists>us. dedup_targets ts = hd ts # us"
  by (cases ts) (auto simp: dedup_targets_Cons split: list.split)

lemma dedup_targets_subset: "set (dedup_targets ts) \<subseteq> set ts \<and> length (dedup_targets ts) \<le> length ts"
proof (induction ts)
  case (Cons t ts)
  then show ?case by (auto simp: dedup_targets_Cons split: list.splits)
qed (simp add: dedup_targets_def)

lemma dedup_targets_sorted:
  "sorted (map t_path ts) \<Longrightarrow> sorted_wrt (<) (map t_path (dedup_targets ts))"
proof (induction ts)
  case (Cons t ts)
  show ?case
  proof (cases "dedup_targets ts")
    case Nil
    then show ?thesis by (simp add: dedup_targets_Cons)
  next
    case (Cons u us)
    from Cons have "u \<in> set ts" using dedup_targets_subset by fastforce
    with Cons.prems have le: "t_path t \<le> t_path u" by simp
    have s: "sorted_wrt (<) (map t_path (u # us))" using Cons.IH Cons.prems Cons by simp
    then show ?thesis
      using Cons le by (auto simp: dedup_targets_Cons le_less)
  qed
qed (simp add: dedup_targets_def)

lemma glob_sound:
  assumes "glob_under os t raw res = Inr ts"
  shows "int (length ts) \<le> MAX_GLOB_MATCHES \<and> sorted_wrt (<) (map t_path ts)
    \<and> (\<exists>pt. parse_pattern raw = Inr pt \<and> (\<forall>u\<in>set ts. glob_answer res pt (t_path t) u))"
proof -
  obtain pt where pt: "parse_pattern raw = Inr pt" using assms by (auto simp: glob_under_def split: sum.splits)
  define found where "found = glob_walk os res pt ([], 0, [(t_path t, [])])"
  have ts: "ts = dedup_targets (sort_key t_path found)" using assms pt by (simp add: glob_under_def found_def)
  have "glob_inv res pt (t_path t) ([], 0, [(t_path t, [])])" by (simp add: MAX_GLOB_MATCHES_def)
  from glob_walk_inv [OF this, of os] have f: "\<forall>u\<in>set found. glob_answer res pt (t_path t) u"
    and l: "int (length found) \<le> MAX_GLOB_MATCHES" unfolding found_def by blast+
  have "sorted (map t_path (sort_key t_path found))" by simp
  from dedup_targets_sorted [OF this] dedup_targets_subset [of "sort_key t_path found"] f l ts pt
  show ?thesis by (auto dest: subsetD)
qed

text \<open>
  A search answers with matches only, once each and in order.  Whatever directory it starts in,
  it answers at most a thousand entries, strictly increasing by path; each is an entry below that
  directory whose relative path the pattern matches, as the backend resolves it, and none hides
  behind a dotted name unless the pattern names one.
\<close>

theorem glob_answers:
  assumes "glob_under os t raw res = Inr ts"
  shows "int (length ts) \<le> MAX_GLOB_MATCHES \<and> sorted_wrt (<) (map t_path ts)
    \<and> (\<exists>pt. parse_pattern raw = Inr pt \<and> (\<forall>u\<in>set ts. glob_answer res pt (t_path t) u))"
  by (rule glob_sound [OF assms])

text \<open>
  C20. A fenced session reads nothing outside its workspace.  Through the fenced backend, text that
  is read is the content of an entry inside the workspace, at its version; and whatever a listing or
  a search names leads, followed as the kernel follows it, to a place inside the workspace, so no
  name is offered that lies behind a link out.
\<close>

theorem sandbox_reads_inside:
  assumes f: "fenced os sb" and "b_resolve (sandboxed_backend sb) os s = Inr t"
  shows "(b_read (sandboxed_backend sb) os t = Inr (content, v) \<longrightarrow>
        (\<exists>nd. entry os (t_path t) = Inr nd \<and> nd_body nd = Regular content \<and> v = version_of nd)
        \<and> inside os (sb_fence sb) (t_path t))
    \<and> (b_list (sandboxed_backend sb) os t = Inr es \<longrightarrow>
        (\<forall>e\<in>set es. \<forall>q. canonicalize os (t_path (de_target e)) = Inr q \<longrightarrow> inside os (sb_fence sb) q))
    \<and> (b_glob (sandboxed_backend sb) os t raw = Inr ts \<longrightarrow>
        (\<forall>u\<in>set ts. \<forall>q. canonicalize os (t_path u) = Inr q \<longrightarrow> inside os (sb_fence sb) q))"
proof (intro conjI impI)
  obtain r where r: "resolve_path os (sb_fence sb) s = Inr r" and t: "t = target_for (rs_path r) (ws_root (sb_fence sb))"
    using assms(2) by (auto simp: sandboxed_backend_def elim: resolve_fencedD)
  have ws: "plain os (ws_root (sb_fence sb))" using f by (simp add: fenced_def)
  have led: "canonicalize os (t_path u) = Inr q \<Longrightarrow> inside os (sb_fence sb) q"
    if "contained_path sb os p = Some u" for p u q
    using that resolved_inside(1) [OF ws] by (auto simp: contained_path_def split: sum.splits)
  {
    assume "b_read (sandboxed_backend sb) os t = Inr (content, v)"
    then obtain q m where q: "canonicalize os (t_path t) = Inr q" "entry os q = Inr m" "nd_body m = Regular content"
      "v = version_of m"
      by (auto simp: sandboxed_backend_def read_text_def read_bytes_of_def metadata_def
          split: sum.splits if_splits option.splits body.splits)
    with resolved_inside(1) [OF ws r] t
    have "q = t_path t" "inside os (sb_fence sb) q" by auto
    with q show "(\<exists>nd. entry os (t_path t) = Inr nd \<and> nd_body nd = Regular content \<and> v = version_of nd)"
      "inside os (sb_fence sb) (t_path t)" by auto
  next
    assume "b_list (sandboxed_backend sb) os t = Inr es"
    moreover have "e \<in> set (list_children os res p ns) \<Longrightarrow> \<exists>n. res (p @ [n]) = Some (de_target e)" for e res p ns
      by (induction ns) (auto split: sum.splits option.splits)
    ultimately show "\<forall>e\<in>set es. \<forall>q. canonicalize os (t_path (de_target e)) = Inr q \<longrightarrow> inside os (sb_fence sb) q"
      using led by (fastforce simp: sandboxed_backend_def list_dir_def split: sum.splits if_splits)
  next
    assume "b_glob (sandboxed_backend sb) os t raw = Inr ts"
    then have "glob_under os t raw (contained_path sb os) = Inr ts" by (simp add: sandboxed_backend_def)
    from glob_sound [OF this] led
    show "\<forall>u\<in>set ts. \<forall>q. canonicalize os (t_path u) = Inr q \<longrightarrow> inside os (sb_fence sb) q"
      unfolding glob_answer_def by blast
  }
qed

section \<open>A disk\<close>

text \<open>A workspace \<^verbatim>\<open>/w\<close> with a file and a link to a directory outside it.\<close>

definition example_node :: "nat \<Rightarrow> body \<Rightarrow> node" where
  "example_node i b = \<lparr>nd_body = b, nd_dev = 1, nd_ino = i, nd_mtime = None, nd_extent = 0\<rparr>"

definition example_disk :: disk where
  "example_disk =
     \<lparr>entries =
        [([], example_node 1 Directory),
         ([''w''], example_node 2 Directory),
         ([''w'', ''f''], example_node 3 (Regular ''old'')),
         ([''w'', ''l''], example_node 4 (Symlink ''../o'')),
         ([''o''], example_node 5 Directory),
         ([''o'', ''s''], example_node 6 (Regular ''secret''))],
      refused = (\<lambda>_. None), barred = (\<lambda>_. None)\<rparr>"

definition example_fs :: sandboxed_fs where
  "example_fs = \<lparr>sb_fence = \<lparr>ws_root = [''w'']\<rparr>, sb_mode = WorkspaceWrite\<rparr>"

definition example_io :: fs_io where
  "example_io = \<lparr>io_cwd = [], io_stamp = ''s'', io_id = (1, 7), io_time = None, io_made = Made,
     io_moved = None, io_removed = True, io_delete = None\<rparr>"

definition example_target :: fs_target where
  "example_target = \<lparr>t_key = ''/w/f'', t_display = ''f'', t_path = [''w'', ''f'']\<rparr>"

lemma plain_check: "canonicalize os p = Inr p \<Longrightarrow> plain os p"
  by (rule canonicalize_ends_plain)

lemma ids_agree_check:
  assumes "list_all (\<lambda>(a, m). list_all (\<lambda>(b, n). id_of m = id_of n \<longrightarrow>
    (nd_body m = Directory \<longleftrightarrow> nd_body n = Directory)) (entries os)) (entries os)"
  shows "ids_agree os"
proof -
  have "(a, m) \<in> set (entries os)" if "entry os a = Inr m" for a m
    using that by (auto simp: entry_def split: option.splits dest: map_of_SomeD)
  with assms show ?thesis unfolding ids_agree_def list_all_iff by fastforce
qed

lemma example_facts:
  "fenced example_disk example_fs" "ids_agree example_disk" "is_dir example_disk []"
  "judged example_disk (t_path example_target)" "fresh_temp example_io example_disk (t_path example_target)"
  "b_resolve (sandboxed_backend example_fs) example_disk ''f'' = Inr example_target"
proof -
  have "plain example_disk [''w'']" by (rule plain_check) code_simp
  moreover have "is_dir example_disk [''w''] \<and> is_dir example_disk []" by code_simp
  ultimately show "fenced example_disk example_fs"
    by (simp add: fenced_def example_fs_def)
  show "ids_agree example_disk" by (rule ids_agree_check) code_simp
  show "is_dir example_disk []" by code_simp
  have "plain example_disk (t_path example_target)" by (rule plain_check) code_simp
  then show "judged example_disk (t_path example_target)" by (rule judged_plain)
  show "fresh_temp example_io example_disk (t_path example_target)" by code_simp
  show "b_resolve (sandboxed_backend example_fs) example_disk ''f'' = Inr example_target" by code_simp
qed

theorem write_atomic_witness:
  "judged example_disk (t_path example_target) \<and> is_dir example_disk []
     \<and> fresh_temp example_io example_disk (t_path example_target)
     \<and> map_of (entries (snd (write_text example_io example_disk example_target ''new'' Unconditional))) [''w'', ''f'']
         = Some (new_file example_io ''new'')"
proof -
  obtain r os' where w: "write_text example_io example_disk example_target ''new'' Unconditional = (r, os')"
    by fastforce
  have "\<not> isl (fst (write_text example_io example_disk example_target ''new'' Unconditional))" by code_simp
  with w obtain v where v: "r = Inr v" by (cases r) auto
  from write_atomic [OF example_facts(4,3,5) w] show ?thesis
    using example_facts w v by (simp add: example_target_def)
qed

theorem edit_replaces_witness:
  "judged example_disk (t_path example_target) \<and> is_dir example_disk []
     \<and> fresh_temp example_io example_disk (t_path example_target)
     \<and> map_of (entries (snd (edit_text example_io example_disk example_target
          \<lparr>e_old = ''l'', e_new = ''LL'', e_all = False\<rparr> None))) [''w'', ''f'']
         = Some (new_file example_io ''oLLd'')"
proof -
  let ?ed = "\<lparr>e_old = ''l'', e_new = ''LL'', e_all = False\<rparr>"
  obtain r os' where w: "edit_text example_io example_disk example_target ?ed None = (r, os')"
    by fastforce
  have "(case fst (edit_text example_io example_disk example_target ?ed None) of
      Inl _ \<Rightarrow> False | Inr x \<Rightarrow> ed_after x = ''oLLd'')" by code_simp
  with w obtain v where v: "r = Inr v" "ed_after v = ''oLLd''" by (cases r) auto
  from edit_replaces [OF example_facts(4,3,5) w] show ?thesis
    using example_facts w v by (simp add: example_target_def)
qed

theorem sandbox_confines_witness:
  "fenced example_disk example_fs \<and> ids_agree example_disk
     \<and> b_resolve (sandboxed_backend example_fs) example_disk ''f'' = Inr example_target
     \<and> fresh_temp example_io example_disk (t_path example_target)
     \<and> changed_at example_disk
         (snd (b_write (sandboxed_backend example_fs) example_io example_disk example_target ''new'' Unconditional)) [''w'', ''f'']
     \<and> inside example_disk (sb_fence example_fs) [''w'', ''f'']"
proof -
  let ?os = "snd (b_write (sandboxed_backend example_fs) example_io example_disk example_target ''new'' Unconditional)"
  have c: "changed_at example_disk ?os [''w'', ''f'']" by code_simp
  from sandbox_confines [OF example_facts(1,2,6,5), of ?os "''new''" Unconditional] c
  have "inside example_disk (sb_fence example_fs) [''w'', ''f'']" by blast
  with c example_facts show ?thesis by blast
qed

theorem glob_answers_witness:
  "glob_under example_disk (example_target\<lparr>t_path := [''w'']\<rparr>) ''*'' (contained_path example_fs example_disk)
       = Inr [example_target]
     \<and> sorted_wrt (<) (map t_path [example_target])"
proof -
  have g: "glob_under example_disk (example_target\<lparr>t_path := [''w'']\<rparr>) ''*'' (contained_path example_fs example_disk)
      = Inr [example_target]" by code_simp
  from glob_answers [OF g] g show ?thesis by blast
qed

theorem sandbox_reads_inside_witness:
  "fenced example_disk example_fs \<and> b_resolve (sandboxed_backend example_fs) example_disk ''f'' = Inr example_target
     \<and> (\<exists>v. b_read (sandboxed_backend example_fs) example_disk example_target = Inr (''old'', v))
     \<and> inside example_disk (sb_fence example_fs) [''w'', ''f'']"
proof -
  have "(case b_read (sandboxed_backend example_fs) example_disk example_target of
      Inl _ \<Rightarrow> False | Inr x \<Rightarrow> fst x = ''old'')" by code_simp
  then obtain v where v: "b_read (sandboxed_backend example_fs) example_disk example_target = Inr (''old'', v)"
    by (auto split: sum.splits)
  with sandbox_reads_inside [OF example_facts(1,6), of "''old''" v] example_facts show ?thesis
    by (auto simp: example_target_def)
qed

end
