(* ===== verification/File_Tools.thy ===== *)
theory File_Tools
  imports Files_Safety Tools
begin

text \<open>
  What a session has seen (\<^verbatim>\<open>crates/fs/src/observation.rs\<close>) and the nine tools a model works on files
  with (\<^verbatim>\<open>crates/fs/src/tools.rs\<close>).  A tool acts on a world of a disk and the observations every
  session of the deployment shares; \<open>regex\<close> is the regular-expression library, \<open>debug\<close> the quoted
  form of a string.
\<close>

section \<open>Observations\<close>

datatype observation = Present fs_version | Absent

type_synonym observed = "(string, (string, observation) omap) omap"

definition observe :: "string \<Rightarrow> fs_target \<Rightarrow> observation \<Rightarrow> observed \<Rightarrow> observed" where
  "observe owner t ob st =
     om_insert owner (om_insert (t_key t) ob (case map_of st owner of None \<Rightarrow> [] | Some m \<Rightarrow> m)) st"

definition observation_of :: "string \<Rightarrow> fs_target \<Rightarrow> observed \<Rightarrow> observation option" where
  "observation_of owner t st =
     (case map_of st owner of None \<Rightarrow> None | Some m \<Rightarrow> map_of m (t_key t))"

definition forget_owner :: "string \<Rightarrow> observed \<Rightarrow> observed" where
  "forget_owner owner st = om_remove owner st"

definition write_intent_of :: "string \<Rightarrow> fs_target \<Rightarrow> observed \<Rightarrow> write_intent" where
  "write_intent_of owner t st =
     (case observation_of owner t st of Some (Present v) \<Rightarrow> ReplaceIfVersion v | _ \<Rightarrow> CreateIfAbsent)"

definition edit_guard_of :: "string \<Rightarrow> fs_target \<Rightarrow> observed \<Rightarrow> fs_error + fs_version" where
  "edit_guard_of owner t st =
     (case observation_of owner t st of
        Some (Present v) \<Rightarrow> Inr v
      | Some Absent \<Rightarrow> Inl (FsNotFound (t_display t))
      | None \<Rightarrow> Inl (FsNotObserved (t_display t) ''edit''))"

section \<open>The tools and what they share\<close>

record stored_image =
  im_id :: string
  im_media :: string
  im_bytes :: nat
  im_dimensions :: "(nat \<times> nat) option"

text \<open>\<open>ft_observed\<close> is false for the composition without the read-before-write rule.\<close>

record fs_tools =
  ft_fs :: backend
  ft_observed :: bool
  ft_owner :: string
  ft_images :: "string \<Rightarrow> string \<Rightarrow> string + stored_image"

definition no_sink :: "string \<Rightarrow> string \<Rightarrow> string + stored_image" where
  "no_sink name bytes = Inl ''this harness has no attachment store, so a picture cannot be kept; read the file with `read` if it is text''"

record files_world =
  fw_disk :: disk
  fw_seen :: observed

type_synonym tool_ran = "(tool_error + tool_outcome) \<times> files_world"

definition record_seen :: "fs_tools \<Rightarrow> fs_target \<Rightarrow> observation \<Rightarrow> files_world \<Rightarrow> files_world" where
  "record_seen ft t ob w =
     (if ft_observed ft then w\<lparr>fw_seen := observe (ft_owner ft) t ob (fw_seen w)\<rparr> else w)"

definition tool_intent :: "fs_tools \<Rightarrow> fs_target \<Rightarrow> files_world \<Rightarrow> write_intent" where
  "tool_intent ft t w = (if ft_observed ft then write_intent_of (ft_owner ft) t (fw_seen w) else Unconditional)"

definition tool_edit_guard :: "fs_tools \<Rightarrow> fs_target \<Rightarrow> files_world \<Rightarrow> fs_error + fs_version option" where
  "tool_edit_guard ft t w =
     (if ft_observed ft then
        (case edit_guard_of (ft_owner ft) t (fw_seen w) of Inl e \<Rightarrow> Inl e | Inr v \<Rightarrow> Inr (Some v))
      else Inr None)"

definition refused_outcome :: "(string \<Rightarrow> string) \<Rightarrow> fs_error \<Rightarrow> tool_error + tool_outcome" where
  "refused_outcome debug e = Inr (outcome_failed (fs_code e @ '': '' @ fs_error_text debug e))"

definition required_str :: "string \<Rightarrow> json \<Rightarrow> string \<Rightarrow> tool_error + string" where
  "required_str tool args key =
     (case Option.bind (jget args key) as_str of
        Some s \<Rightarrow> (if trim s \<noteq> [] then Inr s
          else Inl (InvalidArguments tool (''`'' @ key @ ''` must be a non-empty string'')))
      | None \<Rightarrow> Inl (InvalidArguments tool (''`'' @ key @ ''` must be a non-empty string'')))"

definition optional_usize :: "string \<Rightarrow> json \<Rightarrow> string \<Rightarrow> tool_error + nat option" where
  "optional_usize tool args key =
     (case jget args key of
        None \<Rightarrow> Inr None
      | Some JNull \<Rightarrow> Inr None
      | Some v \<Rightarrow>
          (case as_u64 v of
             Some n \<Rightarrow> (if n \<ge> 1 then Inr (Some n)
               else Inl (InvalidArguments tool (''`'' @ key @ ''` must be a positive whole number'')))
           | None \<Rightarrow> Inl (InvalidArguments tool (''`'' @ key @ ''` must be a positive whole number''))))"

definition json_flag :: "json \<Rightarrow> string \<Rightarrow> bool" where
  "json_flag args key = (case jget args key of Some (JBool b) \<Rightarrow> b | _ \<Rightarrow> False)"

definition argument_or :: "json \<Rightarrow> string \<Rightarrow> string \<Rightarrow> string" where
  "argument_or args key fallback =
     (case Option.bind (jget args key) as_str of
        Some s \<Rightarrow> (if trim s \<noteq> [] then s else fallback) | None \<Rightarrow> fallback)"

definition plural :: "nat \<Rightarrow> string \<Rightarrow> string \<Rightarrow> string" where
  "plural n one many = (if n = 1 then one else many)"

section \<open>Reading\<close>

definition READ_LIMIT :: nat where
  "READ_LIMIT = 2000"

definition MAX_LINE_LENGTH :: nat where
  "MAX_LINE_LENGTH = 2000"

definition clipped :: "string \<Rightarrow> string" where
  "clipped line =
     (if char_count line \<le> MAX_LINE_LENGTH then line
      else take_chars MAX_LINE_LENGTH line @ ''... [line truncated at '' @ show_nat MAX_LINE_LENGTH @ '' characters]'')"

definition pad6 :: "nat \<Rightarrow> string" where
  "pad6 n = replicate (6 - length (show_nat n)) (CHR '' '') @ show_nat n"

definition numbered :: "nat \<Rightarrow> string list \<Rightarrow> string" where
  "numbered start ls =
     concat (map (\<lambda>(i, line). pad6 (start + i + 1) @ [CHR 0x09] @ clipped line @ [newline]) (enumerate 0 ls))"

definition window_text :: "string \<Rightarrow> string \<Rightarrow> nat \<Rightarrow> nat \<Rightarrow> string" where
  "window_text display s off limit =
     (let ls = str_lines s; total = length ls; start = off - 1
      in if start \<ge> total then
           display @ '' has '' @ show_nat total @ '' '' @ plural total ''line'' ''lines''
           @ ''; line '' @ show_nat off @ '' is past the end''
         else
           let stop = min (start + limit) total
           in (if start = 0 \<and> stop = total then
                 display @ '' ('' @ show_nat total @ '' '' @ plural total ''line'' ''lines'' @ '')'' @ [newline]
               else display @ '' (lines '' @ show_nat (start + 1) @ ''-'' @ show_nat stop @ '' of ''
                 @ show_nat total @ '')'' @ [newline])
              @ numbered start (drop start (take stop ls))
              @ (if stop < total then
                   ''... '' @ show_nat (total - stop) @ '' more '' @ plural (total - stop) ''line'' ''lines''
                   @ '' follow; read again from line '' @ show_nat (stop + 1) @ [newline]
                 else []))"

definition read_tool :: "(string \<Rightarrow> string) \<Rightarrow> fs_tools \<Rightarrow> json \<Rightarrow> files_world \<Rightarrow> tool_ran" where
  "read_tool debug ft args w =
     (case required_str ''read'' args ''path'' of
        Inl e \<Rightarrow> (Inl e, w)
      | Inr path \<Rightarrow>
          (case optional_usize ''read'' args ''offset'' of
             Inl e \<Rightarrow> (Inl e, w)
           | Inr off \<Rightarrow>
               (case optional_usize ''read'' args ''limit'' of
                  Inl e \<Rightarrow> (Inl e, w)
                | Inr limit \<Rightarrow>
                    (case b_resolve (ft_fs ft) (fw_disk w) path of
                       Inl e \<Rightarrow> (refused_outcome debug e, w)
                     | Inr t \<Rightarrow>
                         (case b_read (ft_fs ft) (fw_disk w) t of
                            Inr (s, v) \<Rightarrow>
                              (Inr (outcome_ok (window_text (t_display t) s
                                 (case off of None \<Rightarrow> 1 | Some n \<Rightarrow> n)
                                 (min (case limit of None \<Rightarrow> READ_LIMIT | Some n \<Rightarrow> n) READ_LIMIT))),
                               record_seen ft t (Present v) w)
                          | Inl e \<Rightarrow>
                              (refused_outcome debug e,
                               (case e of FsNotFound _ \<Rightarrow> record_seen ft t Absent w | _ \<Rightarrow> w)))))))"

definition stat_tool :: "(string \<Rightarrow> string) \<Rightarrow> fs_tools \<Rightarrow> json \<Rightarrow> files_world \<Rightarrow> tool_ran" where
  "stat_tool debug ft args w =
     (case required_str ''stat'' args ''path'' of
        Inl e \<Rightarrow> (Inl e, w)
      | Inr path \<Rightarrow>
          (case b_resolve (ft_fs ft) (fw_disk w) path of
             Inl e \<Rightarrow> (refused_outcome debug e, w)
           | Inr t \<Rightarrow>
               (case b_stat (ft_fs ft) (fw_disk w) t of
                  Inl e \<Rightarrow> (refused_outcome debug e, w)
                | Inr None \<Rightarrow> (Inr (outcome_ok (t_display t @ '' does not exist'')), record_seen ft t Absent w)
                | Inr (Some i) \<Rightarrow>
                    (Inr (outcome_ok
                       (case i_kind i of
                          DirectoryK \<Rightarrow> t_display t @ '' is a directory''
                        | FileK \<Rightarrow> t_display t @ '' is a file of '' @ show_nat (i_size i) @ '' bytes''
                        | k \<Rightarrow> t_display t @ '' is a '' @ kind_word k)),
                     record_seen ft t (Present (i_version i)) w))))"

definition describe_image :: "fs_target \<Rightarrow> stored_image \<Rightarrow> string" where
  "describe_image t im =
     t_display t @ '' kept as '' @ im_id im @ '' (''
     @ (case im_dimensions im of
          Some (width, height) \<Rightarrow> show_nat width @ ''x'' @ show_nat height @ '', ''
        | None \<Rightarrow> ''dimensions unread, '')
     @ show_nat (im_bytes im) @ '' bytes, '' @ im_media im @ '')''"

text \<open>\<^verbatim>\<open>Path::file_name\<close>.\<close>

definition file_name_of :: "string \<Rightarrow> string option" where
  "file_name_of s =
     (case rev (components s) of Normal n # _ \<Rightarrow> Some n | _ \<Rightarrow> None)"

definition read_image_tool :: "(string \<Rightarrow> string) \<Rightarrow> fs_tools \<Rightarrow> json \<Rightarrow> files_world \<Rightarrow> tool_ran" where
  "read_image_tool debug ft args w =
     (case required_str ''read_image'' args ''path'' of
        Inl e \<Rightarrow> (Inl e, w)
      | Inr path \<Rightarrow>
          (case b_resolve (ft_fs ft) (fw_disk w) path of
             Inl e \<Rightarrow> (refused_outcome debug e, w)
           | Inr t \<Rightarrow>
               (case b_read_bytes (ft_fs ft) (fw_disk w) t 0 (nat MAX_WINDOW_BYTES) of
                  Inl e \<Rightarrow> (refused_outcome debug e, w)
                | Inr (bytes, _) \<Rightarrow>
                    (if bytes = [] then
                       (Inr (outcome_failed (''FS_NOT_FOUND: '' @ t_display t @ '' is empty, so there is no picture in it'')), w)
                     else case ft_images ft
                         (case file_name_of (t_display t) of Some n \<Rightarrow> n | None \<Rightarrow> t_display t) bytes of
                       Inr im \<Rightarrow> (Inr (outcome_ok (describe_image t im)), w)
                     | Inl said \<Rightarrow> (Inr (outcome_failed (''FS_IMAGE_REFUSED: '' @ said)), w)))))"

section \<open>Changing\<close>

definition write_tool :: "(string \<Rightarrow> string) \<Rightarrow> fs_io \<Rightarrow> fs_tools \<Rightarrow> json \<Rightarrow> files_world \<Rightarrow> tool_ran" where
  "write_tool debug io ft args w =
     (case required_str ''write'' args ''path'' of
        Inl e \<Rightarrow> (Inl e, w)
      | Inr path \<Rightarrow>
          (case Option.bind (jget args ''content'') as_str of
             None \<Rightarrow> (Inl (InvalidArguments ''write'' ''`content` must be a string''), w)
           | Some content \<Rightarrow>
               (case b_resolve (ft_fs ft) (fw_disk w) path of
                  Inl e \<Rightarrow> (refused_outcome debug e, w)
                | Inr t \<Rightarrow>
                    (case b_write (ft_fs ft) io (fw_disk w) t content (tool_intent ft t w) of
                       (Inr wr, os') \<Rightarrow>
                         (Inr (outcome_ok
                            ((case w_operation wr of CreatedFile \<Rightarrow> ''created'' | UpdatedFile \<Rightarrow> ''updated'')
                             @ '' '' @ t_display t @ '' ('' @ show_nat (length (str_lines content)) @ '' lines, ''
                             @ show_nat (length content) @ '' bytes)'')),
                          record_seen ft t (Present (w_version wr)) (w\<lparr>fw_disk := os'\<rparr>))
                     | (Inl e, os') \<Rightarrow> (refused_outcome debug e, w\<lparr>fw_disk := os'\<rparr>)))))"

definition edit_tool :: "(string \<Rightarrow> string) \<Rightarrow> fs_io \<Rightarrow> fs_tools \<Rightarrow> json \<Rightarrow> files_world \<Rightarrow> tool_ran" where
  "edit_tool debug io ft args w =
     (case required_str ''edit'' args ''path'' of
        Inl e \<Rightarrow> (Inl e, w)
      | Inr path \<Rightarrow>
          (case required_str ''edit'' args ''old_string'' of
             Inl e \<Rightarrow> (Inl e, w)
           | Inr old \<Rightarrow>
               (case Option.bind (jget args ''new_string'') as_str of
                  None \<Rightarrow> (Inl (InvalidArguments ''edit'' ''`new_string` must be a string; use an empty one to delete the matched text''), w)
                | Some new \<Rightarrow>
                    (case b_resolve (ft_fs ft) (fw_disk w) path of
                       Inl e \<Rightarrow> (refused_outcome debug e, w)
                     | Inr t \<Rightarrow>
                         (case tool_edit_guard ft t w of
                            Inl e \<Rightarrow> (refused_outcome debug e, w)
                          | Inr guard \<Rightarrow>
                              (case b_edit (ft_fs ft) io (fw_disk w) t
                                  \<lparr>e_old = old, e_new = new, e_all = json_flag args ''replace_all''\<rparr> guard of
                                 (Inr ef, os') \<Rightarrow>
                                   (Inr (outcome_ok (''edited '' @ t_display t @ '': '' @ show_nat (ed_replacements ef)
                                      @ '' '' @ plural (ed_replacements ef) ''occurrence'' ''occurrences'' @ '' replaced'')),
                                    record_seen ft t (Present (ed_version ef)) (w\<lparr>fw_disk := os'\<rparr>))
                               | (Inl e, os') \<Rightarrow> (refused_outcome debug e, w\<lparr>fw_disk := os'\<rparr>)))))))"

definition delete_permission :: "json \<Rightarrow> permission" where
  "delete_permission args =
     (let path = (case Option.bind (jget args ''path'') as_str of Some s \<Rightarrow> s | None \<Rightarrow> ''an unnamed path'')
      in AskFirst
           (if json_flag args ''recursive'' then ''delete '' @ path @ '' and everything under it; this cannot be undone''
            else ''delete '' @ path @ ''; this cannot be undone''))"

definition delete_tool :: "(string \<Rightarrow> string) \<Rightarrow> fs_io \<Rightarrow> fs_tools \<Rightarrow> json \<Rightarrow> files_world \<Rightarrow> tool_ran" where
  "delete_tool debug io ft args w =
     (case required_str ''delete'' args ''path'' of
        Inl e \<Rightarrow> (Inl e, w)
      | Inr path \<Rightarrow>
          (case b_resolve (ft_fs ft) (fw_disk w) path of
             Inl e \<Rightarrow> (refused_outcome debug e, w)
           | Inr t \<Rightarrow>
               (case b_delete (ft_fs ft) io (fw_disk w) t (json_flag args ''recursive'') of
                  (Inr d, os') \<Rightarrow>
                    (Inr (outcome_ok
                       (case d_kind d of
                          DirectoryK \<Rightarrow> ''deleted '' @ t_display t @ '' and '' @ show_nat (d_entries d - 1) @ '' ''
                            @ plural (d_entries d - 1) ''entry'' ''entries'' @ '' under it''
                        | _ \<Rightarrow> ''deleted '' @ t_display t)),
                     record_seen ft t Absent (w\<lparr>fw_disk := os'\<rparr>))
                | (Inl e, os') \<Rightarrow> (refused_outcome debug e, w\<lparr>fw_disk := os'\<rparr>))))"

section \<open>Listing and searching\<close>

definition rendered_listing :: "string \<Rightarrow> dir_entry list \<Rightarrow> string" where
  "rendered_listing display es =
     display @ '' ('' @ show_nat (length es) @ '' '' @ plural (length es) ''entry'' ''entries'' @ '')'' @ [newline]
     @ concat (map (\<lambda>e.
         (case de_kind e of
            DirectoryK \<Rightarrow> de_name e @ ''/''
          | FileK \<Rightarrow> de_name e @ '' ('' @ show_nat (de_size e) @ '' bytes)''
          | k \<Rightarrow> de_name e @ '' ('' @ kind_word k @ '')'') @ [newline]) es)"

definition list_tool :: "(string \<Rightarrow> string) \<Rightarrow> fs_tools \<Rightarrow> json \<Rightarrow> files_world \<Rightarrow> tool_ran" where
  "list_tool debug ft args w =
     (case b_resolve (ft_fs ft) (fw_disk w) (argument_or args ''path'' ''.'') of
        Inl e \<Rightarrow> (refused_outcome debug e, w)
      | Inr t \<Rightarrow>
          (case b_list (ft_fs ft) (fw_disk w) t of
             Inl e \<Rightarrow> (refused_outcome debug e, w)
           | Inr es \<Rightarrow>
               (Inr (outcome_ok (if es = [] then t_display t @ '' is empty'' else rendered_listing (t_display t) es)), w)))"

definition glob_tool :: "(string \<Rightarrow> string) \<Rightarrow> fs_tools \<Rightarrow> json \<Rightarrow> files_world \<Rightarrow> tool_ran" where
  "glob_tool debug ft args w =
     (case required_str ''glob'' args ''pattern'' of
        Inl e \<Rightarrow> (Inl e, w)
      | Inr pattern \<Rightarrow>
          (case b_resolve (ft_fs ft) (fw_disk w) (argument_or args ''path'' ''.'') of
             Inl e \<Rightarrow> (refused_outcome debug e, w)
           | Inr t \<Rightarrow>
               (case b_glob (ft_fs ft) (fw_disk w) t pattern of
                  Inl e \<Rightarrow> (refused_outcome debug e, w)
                | Inr found \<Rightarrow>
                    (Inr (outcome_ok
                       (if found = [] then ''no file under '' @ t_display t @ '' matches '' @ debug pattern
                        else join [newline]
                          (map t_display found
                           @ (if int (length found) \<ge> MAX_GLOB_MATCHES then
                                [''... stopped at '' @ show_nat (nat MAX_GLOB_MATCHES) @ '' matches; narrow the pattern to see the rest'']
                              else [])))), w))))"

definition MAX_SEARCH_MATCHES :: nat where
  "MAX_SEARCH_MATCHES = 100"

definition MAX_SEARCH_FILES :: int where
  "MAX_SEARCH_FILES = 2000"

record search_found =
  sf_lines :: "string list"
  sf_files :: nat
  sf_skipped :: nat
  sf_scanned :: nat
  sf_truncated :: bool

definition truncate_line :: "string \<Rightarrow> string" where
  "truncate_line line =
     (if char_count line \<le> MAX_LINE_LENGTH then line
      else take_chars MAX_LINE_LENGTH line @ '' ... [line truncated]'')"

fun keep_lines ::
  "(string \<Rightarrow> bool) \<Rightarrow> string \<Rightarrow> nat \<Rightarrow> string list \<Rightarrow> bool \<times> search_found \<Rightarrow> bool \<times> search_found"
where
  "keep_lines match display i [] st = st"
| "keep_lines match display i (line # ls) (hit, sf) =
     (if \<not> match line then keep_lines match display (i + 1) ls (hit, sf)
      else if length (sf_lines sf) = MAX_SEARCH_MATCHES then (True, sf\<lparr>sf_truncated := True\<rparr>)
      else keep_lines match display (i + 1) ls
        (True, sf\<lparr>sf_lines := sf_lines sf @ [display @ '':'' @ show_nat (i + 1) @ '': '' @ truncate_line line]\<rparr>))"

definition keep_matches :: "(string \<Rightarrow> bool) \<Rightarrow> string \<Rightarrow> string \<Rightarrow> search_found \<Rightarrow> bool \<times> search_found" where
  "keep_matches match display s sf = keep_lines match display 0 (str_lines s) (False, sf)"

datatype readable = ReadableText string | Unreadable_File | NotAFile

definition readable_file :: "backend \<Rightarrow> disk \<Rightarrow> fs_target \<Rightarrow> readable" where
  "readable_file b os t =
     (case b_stat b os t of
        Inr (Some i) \<Rightarrow>
          (if i_kind i = FileK then
             (case b_read b os t of Inr (s, _) \<Rightarrow> ReadableText s | Inl _ \<Rightarrow> Unreadable_File)
           else NotAFile)
      | Inr None \<Rightarrow> NotAFile
      | Inl _ \<Rightarrow> Unreadable_File)"

fun scan_files :: "backend \<Rightarrow> disk \<Rightarrow> (string \<Rightarrow> bool) \<Rightarrow> fs_target list \<Rightarrow> search_found \<Rightarrow> search_found" where
  "scan_files b os match [] sf = sf"
| "scan_files b os match (t # ts) sf =
     (let sf' = (case readable_file b os t of
          ReadableText s \<Rightarrow>
            (let (hit, sf1) = keep_matches match (t_display t) s (sf\<lparr>sf_scanned := sf_scanned sf + 1\<rparr>)
             in if hit then sf1\<lparr>sf_files := sf_files sf1 + 1\<rparr> else sf1)
        | Unreadable_File \<Rightarrow> sf\<lparr>sf_skipped := sf_skipped sf + 1\<rparr>
        | NotAFile \<Rightarrow> sf)
      in if sf_truncated sf' then sf' else scan_files b os match ts sf')"

definition scan :: "backend \<Rightarrow> disk \<Rightarrow> (string \<Rightarrow> bool) \<Rightarrow> fs_target list \<Rightarrow> search_found" where
  "scan b os match ts =
     scan_files b os match (take (nat MAX_SEARCH_FILES) ts)
       \<lparr>sf_lines = [], sf_files = 0, sf_skipped = 0, sf_scanned = 0, sf_truncated = False\<rparr>"

definition skipped_note :: "nat \<Rightarrow> string" where
  "skipped_note n =
     (if n = 0 then []
      else '' ('' @ show_nat n @ '' unreadable or non-text '' @ plural n ''file'' ''files'' @ '' skipped)'')"

definition render_search :: "(string \<Rightarrow> string) \<Rightarrow> search_found \<Rightarrow> string \<Rightarrow> string \<Rightarrow> nat \<Rightarrow> string" where
  "render_search debug sf display pattern n_files =
     (if sf_lines sf = [] then
        ''no line under '' @ display @ '' matches '' @ debug pattern @ skipped_note (sf_skipped sf)
      else
        show_nat (length (sf_lines sf)) @ '' matching '' @ plural (length (sf_lines sf)) ''line'' ''lines''
        @ '' in '' @ show_nat (sf_files sf) @ '' '' @ plural (sf_files sf) ''file'' ''files''
        @ skipped_note (sf_skipped sf) @ [newline] @ join [newline] (sf_lines sf)
        @ (if sf_truncated sf then
             [newline] @ ''... stopped at '' @ show_nat MAX_SEARCH_MATCHES @ '' matches; narrow the pattern or the glob to see the rest''
           else if int n_files > MAX_SEARCH_FILES then
             [newline] @ ''... searched the first '' @ show_nat (sf_scanned sf) @ '' files of '' @ show_nat n_files
             @ ''; narrow the glob to reach the rest''
           else []))"

text \<open>\<open>regex pattern fold_case\<close> is the compiled pattern, or what the library says is wrong with it.\<close>

definition matcher_for ::
  "(string \<Rightarrow> string) \<Rightarrow> (string \<Rightarrow> bool \<Rightarrow> string + (string \<Rightarrow> bool)) \<Rightarrow> string \<Rightarrow> bool \<Rightarrow> string + (string \<Rightarrow> bool)"
where
  "matcher_for debug regex pattern fold_case =
     (case regex pattern fold_case of
        Inr m \<Rightarrow> Inr m
      | Inl e \<Rightarrow> Inl (''FS_BAD_PATTERN: '' @ debug pattern @ '' is not a valid regular expression: '' @ e))"

definition search_tool ::
  "(string \<Rightarrow> string) \<Rightarrow> (string \<Rightarrow> bool \<Rightarrow> string + (string \<Rightarrow> bool)) \<Rightarrow> fs_tools \<Rightarrow> json \<Rightarrow> files_world \<Rightarrow> tool_ran"
where
  "search_tool debug regex ft args w =
     (case required_str ''search'' args ''pattern'' of
        Inl e \<Rightarrow> (Inl e, w)
      | Inr pattern \<Rightarrow>
          (case matcher_for debug regex pattern (\<not> json_flag args ''case_sensitive'') of
             Inl said \<Rightarrow> (Inr (outcome_failed said), w)
           | Inr match \<Rightarrow>
               (case b_resolve (ft_fs ft) (fw_disk w) (argument_or args ''path'' ''.'') of
                  Inl e \<Rightarrow> (refused_outcome debug e, w)
                | Inr root \<Rightarrow>
                    (case b_glob (ft_fs ft) (fw_disk w) root (argument_or args ''glob'' ''**/*'') of
                       Inl e \<Rightarrow> (refused_outcome debug e, w)
                     | Inr files \<Rightarrow>
                         (Inr (outcome_ok (render_search debug (scan (ft_fs ft) (fw_disk w) match files)
                            (t_display root) pattern (length files))), w)))))"

section \<open>The registered tools\<close>

definition FILE_TOOL_NAMES :: "string list" where
  "FILE_TOOL_NAMES =
     [''delete'', ''edit'', ''glob'', ''list'', ''read'', ''read_image'', ''search'', ''stat'', ''write'']"

definition file_tool_body ::
  "(string \<Rightarrow> string) \<Rightarrow> (string \<Rightarrow> bool \<Rightarrow> string + (string \<Rightarrow> bool)) \<Rightarrow> fs_io \<Rightarrow> fs_tools \<Rightarrow> string
    \<Rightarrow> json \<Rightarrow> files_world \<Rightarrow> tool_ran"
where
  "file_tool_body debug regex io ft name =
     (if name = ''read'' then read_tool debug ft
      else if name = ''write'' then write_tool debug io ft
      else if name = ''edit'' then edit_tool debug io ft
      else if name = ''list'' then list_tool debug ft
      else if name = ''glob'' then glob_tool debug ft
      else if name = ''stat'' then stat_tool debug ft
      else if name = ''delete'' then delete_tool debug io ft
      else if name = ''search'' then search_tool debug regex ft
      else read_image_tool debug ft)"

definition file_tool_mode :: "string \<Rightarrow> tool_mode" where
  "file_tool_mode name =
     (if name \<in> {''read'', ''list'', ''glob'', ''search'', ''read_image'', ''stat''} then Overlapping else Exclusive)"

text \<open>\<open>schema\<close> is the text each tool publishes of itself.\<close>

definition file_tool ::
  "(string \<Rightarrow> tool_schema) \<Rightarrow> (string \<Rightarrow> string) \<Rightarrow> (string \<Rightarrow> bool \<Rightarrow> string + (string \<Rightarrow> bool)) \<Rightarrow> fs_io
    \<Rightarrow> fs_tools \<Rightarrow> string \<Rightarrow> files_world tool"
where
  "file_tool schema debug regex io ft name =
     \<lparr>tl_schema = schema name, tl_mode = (\<lambda>_. Inr (file_tool_mode name)),
      tl_permission = (\<lambda>args. Inr (if name = ''delete'' then delete_permission args else Allow)),
      tl_recorded = Inr,
      tl_execute = (\<lambda>args w. case file_tool_body debug regex io ft name args w of (r, w') \<Rightarrow> (Inr r, w'))\<rparr>"

definition register_file_tools ::
  "(string \<Rightarrow> tool_schema) \<Rightarrow> (string \<Rightarrow> string) \<Rightarrow> (string \<Rightarrow> bool \<Rightarrow> string + (string \<Rightarrow> bool)) \<Rightarrow> fs_io
    \<Rightarrow> fs_tools \<Rightarrow> files_world Tools.registry \<Rightarrow> files_world Tools.registry"
where
  "register_file_tools schema debug regex io ft r =
     foldl (\<lambda>r name. register_tool (file_tool schema debug regex io ft name) r) r
       [''read'', ''write'', ''edit'', ''list'', ''glob'', ''stat'', ''delete'', ''search'', ''read_image'']"

lemma reading_tools_keep_disk:
  "fw_disk (snd (read_tool debug ft args w)) = fw_disk w"
  "fw_disk (snd (stat_tool debug ft args w)) = fw_disk w"
  "snd (read_image_tool debug ft args w) = w"
  "snd (list_tool debug ft args w) = w"
  "snd (glob_tool debug ft args w) = w"
  "snd (search_tool debug regex ft args w) = w"
  by (auto simp: read_tool_def stat_tool_def read_image_tool_def list_tool_def glob_tool_def search_tool_def
      record_seen_def split: sum.splits option.splits fs_error.splits)

section \<open>No blind overwrite\<close>

text \<open>
  What the tools rely on in a backend: a read answers the version a stat would; a write or an edit
  that changed its file held the guard it was given, and one that succeeded answers the version a
  stat gives afterwards.
\<close>

locale guarded_files =
  fixes b :: backend
    and ready :: "fs_io \<Rightarrow> disk \<Rightarrow> fs_target \<Rightarrow> bool"
  assumes read_version:
      "b_read b os t = Inr (s, v) \<Longrightarrow> \<exists>i. b_stat b os t = Inr (Some i) \<and> i_version i = v"
    and create_guarded: "ready io os t \<Longrightarrow> b_write b io os t c CreateIfAbsent = (r, os') \<Longrightarrow>
      changed_at os os' (t_path t) \<Longrightarrow> b_stat b os t = Inr None"
    and replace_guarded: "ready io os t \<Longrightarrow> b_write b io os t c (ReplaceIfVersion v) = (r, os') \<Longrightarrow>
      changed_at os os' (t_path t) \<Longrightarrow> \<exists>i. b_stat b os t = Inr (Some i) \<and> i_version i = v"
    and write_version: "ready io os t \<Longrightarrow> b_write b io os t c intent = (Inr wr, os') \<Longrightarrow>
      \<exists>i. b_stat b os' t = Inr (Some i) \<and> i_version i = w_version wr"
    and edit_guarded: "ready io os t \<Longrightarrow> b_edit b io os t ed (Some v) = (er, os') \<Longrightarrow>
      changed_at os os' (t_path t) \<Longrightarrow> \<exists>i. b_stat b os t = Inr (Some i) \<and> i_version i = v"
    and edit_version: "ready io os t \<Longrightarrow> b_edit b io os t ed guard = (Inr ef, os') \<Longrightarrow>
      \<exists>i. b_stat b os' t = Inr (Some i) \<and> i_version i = ed_version ef"

definition files_ready :: "fs_io \<Rightarrow> disk \<Rightarrow> fs_target \<Rightarrow> bool" where
  "files_ready io os t \<longleftrightarrow> judged os (t_path t) \<and> is_dir os [] \<and> fresh_temp io os (t_path t)"

lemma read_text_version:
  "read_text os t = Inr (s, v) \<Longrightarrow> \<exists>i. stat_path os (t_path t) = Inr (Some i) \<and> i_version i = v"
  by (auto simp: read_text_def stat_path_def split: sum.splits if_splits)

lemma write_text_guarded:
  assumes "files_ready io os t" and "write_text io os t c intent = (r, os')" and "changed_at os os' (t_path t)"
  shows "guard_holds os (t_path t) intent"
proof -
  from assms(1) have rd: "judged os (t_path t)" "is_dir os []" "fresh_temp io os (t_path t)"
    by (simp_all add: files_ready_def)
  show ?thesis
  proof (cases r)
    case (Inl e)
    with write_effect [OF rd assms(2)] have "\<forall>x. changed_at os os' x \<longrightarrow> x \<noteq> t_path t" by simp
    with assms(3) show ?thesis by blast
  next
    case (Inr wr)
    with write_effect [OF rd assms(2)] show ?thesis by simp
  qed
qed

lemma edit_text_guarded:
  assumes "files_ready io os t" and "edit_text io os t ed (Some v) = (r, os')" and "changed_at os os' (t_path t)"
  shows "\<exists>i. stat_path os (t_path t) = Inr (Some i) \<and> i_version i = v"
proof -
  from assms(1) have rd: "judged os (t_path t)" "is_dir os []" "fresh_temp io os (t_path t)"
    by (simp_all add: files_ready_def)
  show ?thesis
  proof (cases r)
    case (Inl e)
    with edit_effect [OF rd assms(2)] assms(3) show ?thesis by simp
  next
    case (Inr ef)
    with edit_effect [OF rd assms(2)] have "read_text os t = Inr (ed_before ef, v)" by auto
    then show ?thesis by (rule read_text_version)
  qed
qed

lemma write_text_version:
  assumes "files_ready io os t" and "write_text io os t c intent = (Inr wr, os')"
  shows "\<exists>i. stat_path os' (t_path t) = Inr (Some i) \<and> i_version i = w_version wr"
proof -
  from assms(1) have rd: "judged os (t_path t)" "is_dir os []" "fresh_temp io os (t_path t)"
    by (simp_all add: files_ready_def)
  from write_effect [OF rd assms(2)] show ?thesis by simp
qed

lemma edit_text_version:
  assumes "files_ready io os t" and "edit_text io os t ed guard = (Inr ef, os')"
  shows "\<exists>i. stat_path os' (t_path t) = Inr (Some i) \<and> i_version i = ed_version ef"
proof (rule edit_text_cases [OF assms(2)])
  fix before v after pr
  assume n: "\<forall>e. pr = Some e \<longrightarrow> Inr ef = Inl e"
    and r: "pr = None \<Longrightarrow> Inr ef = (case stat_path os' (t_path t) of Inl e \<Rightarrow> Inl e
         | Inr None \<Rightarrow> Inl (FsIo (t_display t) ''edit'' ''the file was gone immediately after it was edited'')
         | Inr (Some stamped) \<Rightarrow> Inr \<lparr>ed_version = i_version stamped, ed_before = before, ed_after = after,
             ed_replacements = (if e_all ed then count_matches (e_old ed) before else 1)\<rparr>)"
  from n have "pr = None" by (cases pr) auto
  from r [OF this] show ?thesis
    by (cases "stat_path os' (t_path t)") (auto split: option.splits)
qed simp

lemma write_text_create:
  "files_ready io os t \<Longrightarrow> write_text io os t c CreateIfAbsent = (r, os') \<Longrightarrow> changed_at os os' (t_path t) \<Longrightarrow>
     stat_path os (t_path t) = Inr None"
  by (drule (2) write_text_guarded) (simp add: guard_holds_def)

lemma write_text_replace:
  "files_ready io os t \<Longrightarrow> write_text io os t c (ReplaceIfVersion v) = (r, os') \<Longrightarrow> changed_at os os' (t_path t) \<Longrightarrow>
     \<exists>i. stat_path os (t_path t) = Inr (Some i) \<and> i_version i = v"
  by (drule (2) write_text_guarded) (simp add: guard_holds_def)

lemma local_backend_simps [simp]:
  "b_stat (local_backend debug lf) os t = stat_path os (t_path t)"
  "b_read (local_backend debug lf) os t = read_text os t"
  "b_write (local_backend debug lf) io os t c intent = write_text io os t c intent"
  "b_edit (local_backend debug lf) io os t ed guard = edit_text io os t ed guard"
  by (simp_all add: local_backend_def)

lemma sandboxed_backend_simps [simp]:
  "b_stat (sandboxed_backend sb) os t = stat_path os (t_path t)"
  "b_read (sandboxed_backend sb) os t = read_text os t"
  by (simp_all add: sandboxed_backend_def)

lemma sandboxed_write:
  "b_write (sandboxed_backend sb) io os t c intent = (r, os') \<Longrightarrow>
     (\<exists>e. r = Inl e) \<and> os' = os \<or> write_text io os t c intent = (r, os')"
  by (auto simp: sandboxed_backend_def split: option.splits)

lemma sandboxed_edit:
  "b_edit (sandboxed_backend sb) io os t ed guard = (er, os') \<Longrightarrow>
     (\<exists>e. er = Inl e) \<and> os' = os \<or> edit_text io os t ed guard = (er, os')"
  by (auto simp: sandboxed_backend_def split: option.splits)

lemma unchanged [simp]: "\<not> changed_at os os x"
  by (simp add: changed_at_def)

interpretation local_files: guarded_files "local_backend debug lf" files_ready for debug lf
proof (unfold_locales, goal_cases)
  case 1 then show ?case using read_text_version by simp
next
  case 2 then show ?case using write_text_create by simp
next
  case 3 then show ?case using write_text_replace by simp
next
  case 4 then show ?case using write_text_version by simp
next
  case 5 then show ?case using edit_text_guarded by simp
next
  case 6 then show ?case using edit_text_version by simp
qed

interpretation sandboxed_files: guarded_files "sandboxed_backend sb" files_ready for sb
proof (unfold_locales, goal_cases)
  case 1 then show ?case using read_text_version by simp
next
  case 2 then show ?case using sandboxed_write [OF 2(2)] write_text_create by auto
next
  case 3 then show ?case using sandboxed_write [OF 3(2)] write_text_replace by auto
next
  case 4 then show ?case using sandboxed_write [OF 4(2)] write_text_version by auto
next
  case 5 then show ?case using sandboxed_edit [OF 5(2)] edit_text_guarded by auto
next
  case 6 then show ?case using sandboxed_edit [OF 6(2)] edit_text_version by auto
qed

text \<open>
  A run: sessions call tools, something outside rewrites the disk, a session ends and is forgotten.
\<close>

datatype happening = Called fs_tools string json fs_io | Outside disk | Forgotten string

fun happens ::
  "(string \<Rightarrow> string) \<Rightarrow> (string \<Rightarrow> bool \<Rightarrow> string + (string \<Rightarrow> bool)) \<Rightarrow> happening \<Rightarrow> files_world \<Rightarrow> files_world"
where
  "happens debug regex (Called ft name args io) w = snd (file_tool_body debug regex io ft name args w)"
| "happens debug regex (Outside os) w = w\<lparr>fw_disk := os\<rparr>"
| "happens debug regex (Forgotten owner) w = w\<lparr>fw_seen := forget_owner owner (fw_seen w)\<rparr>"

definition run_files ::
  "(string \<Rightarrow> string) \<Rightarrow> (string \<Rightarrow> bool \<Rightarrow> string + (string \<Rightarrow> bool)) \<Rightarrow> happening list \<Rightarrow> files_world \<Rightarrow> files_world"
where
  "run_files debug regex hs w = fold (happens debug regex) hs w"

text \<open>
  Which versions of which files a session met: those its calls found at the file they named, before
  or after they ran.
\<close>

definition has_version :: "backend \<Rightarrow> disk \<Rightarrow> fs_target \<Rightarrow> fs_version \<Rightarrow> bool" where
  "has_version b os t v \<longleftrightarrow> (\<exists>i. b_stat b os t = Inr (Some i) \<and> i_version i = v)"

fun met ::
  "(string \<Rightarrow> string) \<Rightarrow> (string \<Rightarrow> bool \<Rightarrow> string + (string \<Rightarrow> bool)) \<Rightarrow> happening \<Rightarrow> files_world
    \<Rightarrow> string \<Rightarrow> string \<Rightarrow> fs_version \<Rightarrow> bool"
where
  "met debug regex (Called ft name args io) w owner key v \<longleftrightarrow>
     ft_owner ft = owner
     \<and> (\<exists>s t. Option.bind (jget args ''path'') as_str = Some s \<and> b_resolve (ft_fs ft) (fw_disk w) s = Inr t \<and> t_key t = key
           \<and> (has_version (ft_fs ft) (fw_disk w) t v
              \<or> has_version (ft_fs ft) (fw_disk (happens debug regex (Called ft name args io) w)) t v))"
| "met debug regex _ w owner key v \<longleftrightarrow> False"

fun met_in ::
  "(string \<Rightarrow> string) \<Rightarrow> (string \<Rightarrow> bool \<Rightarrow> string + (string \<Rightarrow> bool)) \<Rightarrow> happening list \<Rightarrow> files_world
    \<Rightarrow> string \<Rightarrow> string \<Rightarrow> fs_version \<Rightarrow> bool"
where
  "met_in debug regex [] w owner key v \<longleftrightarrow> False"
| "met_in debug regex (h # hs) w owner key v \<longleftrightarrow>
     met debug regex h w owner key v \<or> met_in debug regex hs (happens debug regex h w) owner key v"

text \<open>The deployment: every call goes through one backend, with the rule on, and finds its file ready.\<close>

fun guarded_call :: "backend \<Rightarrow> (fs_io \<Rightarrow> disk \<Rightarrow> fs_target \<Rightarrow> bool) \<Rightarrow> happening \<Rightarrow> files_world \<Rightarrow> bool" where
  "guarded_call b ready (Called ft name args io) w \<longleftrightarrow>
     ft_fs ft = b \<and> ft_observed ft
     \<and> (\<forall>s t. Option.bind (jget args ''path'') as_str = Some s \<and> b_resolve b (fw_disk w) s = Inr t \<longrightarrow> ready io (fw_disk w) t)"
| "guarded_call b ready _ w \<longleftrightarrow> True"

fun guarded_run ::
  "(string \<Rightarrow> string) \<Rightarrow> (string \<Rightarrow> bool \<Rightarrow> string + (string \<Rightarrow> bool)) \<Rightarrow> backend
    \<Rightarrow> (fs_io \<Rightarrow> disk \<Rightarrow> fs_target \<Rightarrow> bool) \<Rightarrow> happening list \<Rightarrow> files_world \<Rightarrow> bool"
where
  "guarded_run debug regex b ready [] w \<longleftrightarrow> True"
| "guarded_run debug regex b ready (h # hs) w \<longleftrightarrow>
     guarded_call b ready h w \<and> guarded_run debug regex b ready hs (happens debug regex h w)"

definition recorded_in :: "observed \<Rightarrow> string \<Rightarrow> string \<Rightarrow> fs_version \<Rightarrow> bool" where
  "recorded_in st owner key v \<longleftrightarrow>
     (case map_of st owner of None \<Rightarrow> False | Some m \<Rightarrow> map_of m key = Some (Present v))"

lemma recorded_observe:
  "recorded_in (observe o1 t ob st) owner key v \<longleftrightarrow>
     (if owner = o1 \<and> key = t_key t then ob = Present v else recorded_in st owner key v)"
  by (auto simp: recorded_in_def observe_def split: option.splits)

lemma recorded_record_seen:
  "recorded_in (fw_seen (record_seen ft t ob w)) owner key v \<Longrightarrow>
     recorded_in (fw_seen w) owner key v \<or> ft_owner ft = owner \<and> t_key t = key \<and> ob = Present v"
  by (auto simp: record_seen_def recorded_observe split: if_splits)

lemma recorded_forget: "recorded_in (forget_owner o1 st) owner key v \<Longrightarrow> recorded_in st owner key v"
  by (auto simp: recorded_in_def forget_owner_def split: option.splits if_splits)

lemma fw_disk_record_seen [simp]: "fw_disk (record_seen ft t ob w) = fw_disk w"
  by (simp add: record_seen_def)

lemma required_strD: "required_str tool args key = Inr s \<Longrightarrow> Option.bind (jget args key) as_str = Some s"
  by (auto simp: required_str_def split: option.splits if_splits)

context guarded_files
begin

lemma read_tool_met:
  assumes "guarded_call b ready (Called ft n args io) w" and "recorded_in (fw_seen (snd (read_tool debug ft args w))) owner key v"
    and "\<not> recorded_in (fw_seen w) owner key v"
  shows "\<exists>s t. Option.bind (jget args ''path'') as_str = Some s \<and> b_resolve b (fw_disk w) s = Inr t \<and> t_key t = key
    \<and> ft_owner ft = owner \<and> has_version b (fw_disk w) t v"
  using assms read_version
  by (fastforce simp: read_tool_def has_version_def dest!: recorded_record_seen required_strD
      split: sum.splits fs_error.splits)

lemma stat_tool_met:
  assumes "guarded_call b ready (Called ft n args io) w" and "recorded_in (fw_seen (snd (stat_tool debug ft args w))) owner key v"
    and "\<not> recorded_in (fw_seen w) owner key v"
  shows "\<exists>s t. Option.bind (jget args ''path'') as_str = Some s \<and> b_resolve b (fw_disk w) s = Inr t \<and> t_key t = key
    \<and> ft_owner ft = owner \<and> has_version b (fw_disk w) t v"
  using assms
  by (fastforce simp: stat_tool_def has_version_def dest!: recorded_record_seen required_strD
      split: sum.splits option.splits)

lemma write_tool_met:
  assumes "guarded_call b ready (Called ft n args io) w" and "recorded_in (fw_seen (snd (write_tool debug io ft args w))) owner key v"
    and "\<not> recorded_in (fw_seen w) owner key v"
  shows "\<exists>s t. Option.bind (jget args ''path'') as_str = Some s \<and> b_resolve b (fw_disk w) s = Inr t \<and> t_key t = key
    \<and> ft_owner ft = owner \<and> has_version b (fw_disk (snd (write_tool debug io ft args w))) t v"
  using assms write_version
  by (fastforce simp: write_tool_def has_version_def dest!: recorded_record_seen required_strD
      split: sum.splits option.splits prod.splits)

lemma edit_tool_met:
  assumes "guarded_call b ready (Called ft n args io) w" and "recorded_in (fw_seen (snd (edit_tool debug io ft args w))) owner key v"
    and "\<not> recorded_in (fw_seen w) owner key v"
  shows "\<exists>s t. Option.bind (jget args ''path'') as_str = Some s \<and> b_resolve b (fw_disk w) s = Inr t \<and> t_key t = key
    \<and> ft_owner ft = owner \<and> has_version b (fw_disk (snd (edit_tool debug io ft args w))) t v"
  using assms edit_version
  by (fastforce simp: edit_tool_def has_version_def dest!: recorded_record_seen required_strD
      split: sum.splits option.splits prod.splits)

lemma delete_tool_met:
  "recorded_in (fw_seen (snd (delete_tool debug io ft args w))) owner key v \<Longrightarrow> recorded_in (fw_seen w) owner key v"
  by (auto simp: delete_tool_def dest!: recorded_record_seen split: sum.splits prod.splits)

text \<open>Whatever is recorded of a session is a version it met.\<close>

lemma recorded_step:
  assumes "guarded_call b ready h w" and "recorded_in (fw_seen (happens debug regex h w)) owner key v"
  shows "recorded_in (fw_seen w) owner key v \<or> met debug regex h w owner key v"
proof (cases h)
  case (Called ft name args io)
  have b: "ft_fs ft = b" using assms(1) Called by simp
  show ?thesis
  proof (rule disjCI)
    assume "\<not> met debug regex h w owner key v"
    then have no: "\<not> (\<exists>s t. Option.bind (jget args ''path'') as_str = Some s \<and> b_resolve b (fw_disk w) s = Inr t \<and> t_key t = key
        \<and> ft_owner ft = owner
        \<and> (has_version b (fw_disk w) t v \<or> has_version b (fw_disk (happens debug regex h w)) t v))"
      using Called b by auto
    note g = assms(1) [unfolded Called]
    show "recorded_in (fw_seen w) owner key v"
    proof (rule ccontr)
      assume nr: "\<not> recorded_in (fw_seen w) owner key v"
      note r = assms(2) [unfolded Called happens.simps file_tool_body_def]
      let ?found = "\<lambda>d. \<exists>s t. Option.bind (jget args ''path'') as_str = Some s \<and> b_resolve b (fw_disk w) s = Inr t
        \<and> t_key t = key \<and> ft_owner ft = owner \<and> has_version b d t v"
      have "?found (fw_disk w) \<or> ?found (fw_disk (happens debug regex h w))"
      proof (cases "name \<in> {''read'', ''write'', ''edit'', ''stat'', ''delete''}")
        case True
        then consider "name = ''read''" | "name = ''write''" | "name = ''edit''" | "name = ''stat''" | "name = ''delete''"
          by blast
        then show ?thesis
        proof cases
          case 1 with r have "recorded_in (fw_seen (snd (read_tool debug ft args w))) owner key v" by simp
          from read_tool_met [OF g this nr] show ?thesis by blast
        next
          case 2 with r have "recorded_in (fw_seen (snd (write_tool debug io ft args w))) owner key v" by simp
          from write_tool_met [OF g this nr] 2 Called show ?thesis by (simp add: file_tool_body_def)
        next
          case 3 with r have "recorded_in (fw_seen (snd (edit_tool debug io ft args w))) owner key v" by simp
          from edit_tool_met [OF g this nr] 3 Called show ?thesis by (simp add: file_tool_body_def)
        next
          case 4 with r have "recorded_in (fw_seen (snd (stat_tool debug ft args w))) owner key v" by simp
          from stat_tool_met [OF g this nr] show ?thesis by blast
        next
          case 5 with r have "recorded_in (fw_seen (snd (delete_tool debug io ft args w))) owner key v" by simp
          from delete_tool_met [OF this] nr show ?thesis by simp
        qed
      next
        case False
        then have "snd (file_tool_body debug regex io ft name args w) = w"
          by (simp add: file_tool_body_def reading_tools_keep_disk)
        with assms(2) Called nr show ?thesis by simp
      qed
      with no show False by blast
    qed
  qed
qed (use assms in \<open>auto dest: recorded_forget\<close>)

lemma recorded_run:
  assumes "guarded_run debug regex b ready hs w" and "recorded_in (fw_seen (run_files debug regex hs w)) owner key v"
  shows "recorded_in (fw_seen w) owner key v \<or> met_in debug regex hs w owner key v"
  using assms
proof (induction hs arbitrary: w)
  case (Cons h hs)
  then have "recorded_in (fw_seen (happens debug regex h w)) owner key v
      \<or> met_in debug regex hs (happens debug regex h w) owner key v"
    by (simp add: run_files_def)
  with recorded_step [of h w debug regex owner key v] Cons.prems(1) show ?case by auto
qed (simp add: run_files_def)

text \<open>A file that a write or an edit replaced was on record at the version it had.\<close>

lemma replaced_recorded:
  assumes "guarded_call b ready (Called ft name args io) w" and "name = ''write'' \<or> name = ''edit''"
    and "Option.bind (jget args ''path'') as_str = Some s" and "b_resolve b (fw_disk w) s = Inr t"
    and "changed_at (fw_disk w) (fw_disk (happens debug regex (Called ft name args io) w)) (t_path t)"
    and "b_stat b (fw_disk w) t = Inr (Some i)"
  shows "recorded_in (fw_seen w) (ft_owner ft) (t_key t) (i_version i)"
proof -
  have b: "ft_fs ft = b" "ft_observed ft" and rd: "ready io (fw_disk w) t"
    using assms(1,3,4) by auto
  have same: "s' = s" if "required_str tool args ''path'' = Inr s'" for s' tool
    using required_strD [OF that] assms(3) by simp
  from assms(2) show ?thesis
  proof
    assume n: "name = ''write''"
    with assms(5) b obtain c r os' where w: "b_write b io (fw_disk w) t c (write_intent_of (ft_owner ft) t (fw_seen w)) = (r, os')"
      and ch: "changed_at (fw_disk w) os' (t_path t)"
      using same assms(4)
      by (auto simp: file_tool_body_def write_tool_def tool_intent_def changed_at_def split: sum.splits option.splits prod.splits)
    show ?thesis
    proof (cases "observation_of (ft_owner ft) t (fw_seen w)")
      case (Some ob)
      show ?thesis
      proof (cases ob)
        case (Present v)
        with Some w have w': "b_write b io (fw_disk w) t c (ReplaceIfVersion v) = (r, os')" by (simp add: write_intent_of_def)
        from replace_guarded [OF rd w' ch] assms(6) have "v = i_version i" by simp
        with Some Present show ?thesis
          by (auto simp: recorded_in_def observation_of_def split: option.splits)
      next
        case Absent
        with Some w have w': "b_write b io (fw_disk w) t c CreateIfAbsent = (r, os')" by (simp add: write_intent_of_def)
        from create_guarded [OF rd w' ch] assms(6) show ?thesis by simp
      qed
    next
      case None
      with w have w': "b_write b io (fw_disk w) t c CreateIfAbsent = (r, os')" by (simp add: write_intent_of_def)
      from create_guarded [OF rd w' ch] assms(6) show ?thesis by simp
    qed
  next
    assume n: "name = ''edit''"
    with assms(5) b obtain ed v r os' where w: "b_edit b io (fw_disk w) t ed (Some v) = (r, os')"
      and ch: "changed_at (fw_disk w) os' (t_path t)" and g: "edit_guard_of (ft_owner ft) t (fw_seen w) = Inr v"
      using same assms(4)
      by (auto simp: file_tool_body_def edit_tool_def tool_edit_guard_def changed_at_def split: sum.splits option.splits prod.splits)
    from edit_guarded [OF rd w ch] assms(6) have "v = i_version i" by auto
    with g show ?thesis
      by (auto simp: edit_guard_of_def recorded_in_def observation_of_def split: option.splits observation.splits)
  qed
qed

end

text \<open>
  C6. No file is overwritten blind.  From the start of a deployment whose every call goes through one
  backend (unfenced or fenced) with the read-before-write rule on, whatever was called, however the
  disk was rewritten from outside and whichever sessions were forgotten in between: a \<^verbatim>\<open>write\<close> or an
  \<^verbatim>\<open>edit\<close> that changes a file that was there changes it at exactly a version that this same session
  met at this same file in an earlier call.
\<close>

theorem no_blind_overwrite:
  assumes "b = local_backend dbg lf \<or> b = sandboxed_backend sb"
    and "fw_seen w0 = []" and "guarded_run debug regex b files_ready hs w0"
    and "guarded_call b files_ready (Called ft name args io) (run_files debug regex hs w0)"
    and "name = ''write'' \<or> name = ''edit''" and "Option.bind (jget args ''path'') as_str = Some s"
    and "b_resolve b (fw_disk (run_files debug regex hs w0)) s = Inr t"
    and "b_stat b (fw_disk (run_files debug regex hs w0)) t = Inr (Some i)"
    and "changed_at (fw_disk (run_files debug regex hs w0))
      (fw_disk (happens debug regex (Called ft name args io) (run_files debug regex hs w0))) (t_path t)"
  shows "met_in debug regex hs w0 (ft_owner ft) (t_key t) (i_version i)"
  using assms(1)
proof
  assume b: "b = local_backend dbg lf"
  note rec = local_files.replaced_recorded [OF assms(4) [unfolded b] assms(5,6) assms(7) [unfolded b] assms(9)
      assms(8) [unfolded b]]
  from local_files.recorded_run [OF assms(3) [unfolded b] rec] assms(2) show ?thesis by (simp add: recorded_in_def)
next
  assume b: "b = sandboxed_backend sb"
  note rec = sandboxed_files.replaced_recorded [OF assms(4) [unfolded b] assms(5,6) assms(7) [unfolded b] assms(9)
      assms(8) [unfolded b]]
  from sandboxed_files.recorded_run [OF assms(3) [unfolded b] rec] assms(2) show ?thesis by (simp add: recorded_in_def)
qed

section \<open>What a search finds\<close>

text \<open>The lines of a file that match, each with its number, and those of a list of files.\<close>

definition line_hits :: "(string \<Rightarrow> bool) \<Rightarrow> string \<Rightarrow> nat \<Rightarrow> string list \<Rightarrow> string list" where
  "line_hits match display i ls =
     map (\<lambda>(n, l). display @ '':'' @ show_nat (n + 1) @ '': '' @ truncate_line l)
       (filter (\<lambda>(n, l). match l) (zip [i..<i + length ls] ls))"

definition file_hits :: "backend \<Rightarrow> disk \<Rightarrow> (string \<Rightarrow> bool) \<Rightarrow> fs_target \<Rightarrow> string list" where
  "file_hits b os match t =
     (case readable_file b os t of ReadableText s \<Rightarrow> line_hits match (t_display t) 0 (str_lines s) | _ \<Rightarrow> [])"

lemma line_hits_simps [simp]:
  "line_hits match display i [] = []"
  "line_hits match display i (l # ls) =
     (if match l then (display @ '':'' @ show_nat (i + 1) @ '': '' @ truncate_line l) # line_hits match display (i + 1) ls
      else line_hits match display (i + 1) ls)"
  by (simp_all add: line_hits_def upt_conv_Cons del: upt_Suc)

lemma keep_lines_finds:
  assumes "length (sf_lines sf) \<le> MAX_SEARCH_MATCHES" and "\<not> sf_truncated sf"
  shows "sf_lines (snd (keep_lines match d i ls (hit, sf))) = take MAX_SEARCH_MATCHES (sf_lines sf @ line_hits match d i ls)
    \<and> sf_truncated (snd (keep_lines match d i ls (hit, sf)))
        = (MAX_SEARCH_MATCHES < length (sf_lines sf @ line_hits match d i ls))
    \<and> sf_skipped (snd (keep_lines match d i ls (hit, sf))) = sf_skipped sf
    \<and> sf_scanned (snd (keep_lines match d i ls (hit, sf))) = sf_scanned sf"
  using assms
proof (induction ls arbitrary: i hit sf)
  case (Cons l ls)
  show ?case
  proof (cases "match l \<and> length (sf_lines sf) \<noteq> MAX_SEARCH_MATCHES")
    case True
    with Cons.prems obtain k where "MAX_SEARCH_MATCHES - length (sf_lines sf) = Suc k"
      by (metis Suc_diff_Suc le_neq_implies_less)
    moreover from this have "MAX_SEARCH_MATCHES - Suc (length (sf_lines sf)) = k" by simp
    ultimately show ?thesis using True Cons by simp
  qed (use Cons in auto)
qed simp

lemma scan_files_finds:
  assumes "length (sf_lines sf) \<le> MAX_SEARCH_MATCHES" and "\<not> sf_truncated sf"
  shows "sf_lines (scan_files b os match ts sf)
      = take MAX_SEARCH_MATCHES (sf_lines sf @ concat (map (file_hits b os match) ts))
    \<and> sf_truncated (scan_files b os match ts sf)
        = (MAX_SEARCH_MATCHES < length (sf_lines sf @ concat (map (file_hits b os match) ts)))"
  using assms
proof (induction ts arbitrary: sf)
  case (Cons t ts)
  show ?case
  proof (cases "readable_file b os t")
    case (ReadableText s)
    obtain hit sf1 where k: "keep_matches match (t_display t) s (sf\<lparr>sf_scanned := sf_scanned sf + 1\<rparr>) = (hit, sf1)"
      by fastforce
    let ?h = "file_hits b os match t"
    have f: "sf_lines sf1 = take MAX_SEARCH_MATCHES (sf_lines sf @ ?h)"
        "sf_truncated sf1 = (MAX_SEARCH_MATCHES < length (sf_lines sf @ ?h))"
      using keep_lines_finds [of "sf\<lparr>sf_scanned := sf_scanned sf + 1\<rparr>" match "t_display t" 0 "str_lines s" False] k
        Cons.prems ReadableText
      by (simp_all add: keep_matches_def file_hits_def)
    show ?thesis
    proof (cases "sf_truncated sf1")
      case True
      with f ReadableText k show ?thesis by (simp add: Let_def)
    next
      case False
      with f have "sf_lines sf1 = sf_lines sf @ ?h" by simp
      with False f ReadableText k Cons.IH [of sf1] Cons.IH [of "sf1\<lparr>sf_files := sf_files sf1 + 1\<rparr>"] show ?thesis
        by (simp add: Let_def)
    qed
  qed (use Cons in \<open>simp_all add: Let_def file_hits_def\<close>)
qed simp

lemma scan_finds:
  assumes "sf = scan b os match ts"
  shows "sf_lines sf = take 100 (concat (map (file_hits b os match) (take 2000 ts)))"
    and "sf_truncated sf = (100 < length (concat (map (file_hits b os match) (take 2000 ts))))"
  using scan_files_finds [of "\<lparr>sf_lines = [], sf_files = 0, sf_skipped = 0, sf_scanned = 0, sf_truncated = False\<rparr>" b os match]
  by (simp_all add: assms scan_def MAX_SEARCH_FILES_def MAX_SEARCH_MATCHES_def)

text \<open>
  A search shows exactly the first hundred matching lines: over the files the glob found, in
  their order (no more than 2000 of them), every line the pattern matches in every file that can be
  read as text, with its file and its number, and it says that it stopped exactly when there were
  more than a hundred.  Nothing of the disk or of what sessions have seen changes.
\<close>

theorem search_shows:
  assumes "required_str ''search'' args ''pattern'' = Inr pattern"
    and "matcher_for debug regex pattern (\<not> json_flag args ''case_sensitive'') = Inr match"
    and "b_resolve (ft_fs ft) (fw_disk w) (argument_or args ''path'' ''.'') = Inr root"
    and "b_glob (ft_fs ft) (fw_disk w) root (argument_or args ''glob'' ''**/*'') = Inr files"
  shows "\<exists>sf. search_tool debug regex ft args w
        = (Inr (outcome_ok (render_search debug sf (t_display root) pattern (length files))), w)
     \<and> sf_lines sf = take 100 (concat (map (file_hits (ft_fs ft) (fw_disk w) match) (take 2000 files)))
     \<and> (sf_truncated sf \<longleftrightarrow> 100 < length (concat (map (file_hits (ft_fs ft) (fw_disk w) match) (take 2000 files))))"
  using assms scan_finds [OF refl] by (auto simp: search_tool_def)

text \<open>
  The limit of files a search reads can never be reached: the glob under it answers at most 1000
  entries, so the note that only the first files were searched is never written, and what lies
  beyond those 1000 entries is left out without a word.
\<close>

lemma search_file_limit_unreachable:
  assumes "glob_under os t raw res = Inr files"
  shows "render_search debug sf display pattern (length files) = render_search debug sf display pattern 0"
  using glob_sound [OF assms] by (auto simp: render_search_def MAX_SEARCH_FILES_def MAX_GLOB_MATCHES_def)

section \<open>What the tools ask and keep\<close>

text \<open>
  The admission the file tools declare is the one their work needs.  A tool that says its calls
  may overlap with others leaves the disk exactly as it was, so overlapping calls see the same files
  in any order; of the tools that change files only \<^verbatim>\<open>delete\<close> asks before it runs, whatever the
  arguments, and every other tool runs unasked.
\<close>

theorem file_tools_admission:
  assumes "name \<in> set FILE_TOOL_NAMES" and "t = file_tool schema debug regex io ft name"
  shows "(tl_mode t args = Inr Overlapping \<longrightarrow> fw_disk (snd (tl_execute t args w)) = fw_disk w)
    \<and> (if name = ''delete'' then \<exists>q. tl_permission t args = Inr (AskFirst q) else tl_permission t args = Inr Allow)"
  using assms
  by (auto simp: file_tool_def file_tool_mode_def file_tool_body_def FILE_TOOL_NAMES_def reading_tools_keep_disk
      delete_permission_def Let_def split_beta)

text \<open>
  A stat puts the version on record as a read does, so after it an edit or an overwrite of content
  the session never saw is let through.
\<close>

lemma stat_authorizes:
  assumes "ft_observed ft" and "required_str ''stat'' args ''path'' = Inr s"
    and "b_resolve (ft_fs ft) (fw_disk w) s = Inr t" and "b_stat (ft_fs ft) (fw_disk w) t = Inr (Some i)"
  shows "edit_guard_of (ft_owner ft) t (fw_seen (snd (stat_tool debug ft args w))) = Inr (i_version i)
    \<and> write_intent_of (ft_owner ft) t (fw_seen (snd (stat_tool debug ft args w))) = ReplaceIfVersion (i_version i)"
  using assms
  by (simp add: stat_tool_def record_seen_def edit_guard_of_def write_intent_of_def observation_of_def observe_def)

text \<open>The unfenced backend shows every file it names as the root itself.\<close>

lemma unfenced_display: "b_resolve (local_backend debug lf) os s = Inr t \<Longrightarrow> t_display t = ''.''"
  by (auto simp: local_backend_def resolve_unfenced_def target_for_def relative_def Let_def split: sum.splits if_splits)

lemma overlapping_occurrences: "count_matches ''aa'' ''aaa'' = 1"
  by code_simp

subsection \<open>The properties at work on the example disk\<close>

definition example_tools :: fs_tools where
  "example_tools = \<lparr>ft_fs = sandboxed_backend example_fs, ft_observed = True, ft_owner = ''s'', ft_images = no_sink\<rparr>"

definition example_world :: files_world where
  "example_world = \<lparr>fw_disk = example_disk, fw_seen = []\<rparr>"

definition example_read :: happening where
  "example_read = Called example_tools ''read'' (JObj [(''path'', JStr ''f'')]) example_io"

definition example_write :: happening where
  "example_write = Called example_tools ''write'' (JObj [(''content'', JStr ''new''), (''path'', JStr ''f'')]) example_io"

definition no_regex :: "string \<Rightarrow> bool \<Rightarrow> string + (string \<Rightarrow> bool)" where
  "no_regex s fold_case = Inr (\<lambda>l. l = s)"

theorem no_blind_overwrite_witness:
  "(\<exists>v. met_in id no_regex [example_read] example_world ''s'' ''/w/f'' v)
     \<and> changed_at example_disk
         (fw_disk (run_files id no_regex [example_read, example_write] example_world)) [''w'', ''f'']"
proof -
  let ?b = "sandboxed_backend example_fs" and ?w = "run_files id no_regex [example_read] example_world"
  have disk: "fw_disk ?w = example_disk"
    by (simp add: run_files_def example_read_def file_tool_body_def reading_tools_keep_disk example_world_def)
  have ready: "files_ready example_io example_disk example_target"
    using example_facts by (simp add: files_ready_def)
  have calls: "guarded_call ?b files_ready example_read example_world" "guarded_call ?b files_ready example_write ?w"
    using ready example_facts(6) disk
    by (simp_all add: example_read_def example_write_def example_tools_def example_world_def)
  have run: "guarded_run id no_regex ?b files_ready [example_read] example_world"
    using calls by simp
  have ch: "changed_at (fw_disk ?w) (fw_disk (happens id no_regex example_write ?w)) (t_path example_target)"
    by code_simp
  have "(case b_stat ?b example_disk example_target of Inr (Some i) \<Rightarrow> True | _ \<Rightarrow> False)" by code_simp
  then obtain i where i: "b_stat ?b (fw_disk ?w) example_target = Inr (Some i)"
    using disk by (auto split: sum.splits option.splits)
  have p: "Option.bind (jget (JObj [(''content'', JStr ''new''), (''path'', JStr ''f'')]) ''path'') as_str = Some ''f''"
    by code_simp
  have "met_in id no_regex [example_read] example_world (ft_owner example_tools) (t_key example_target) (i_version i)"
    by (rule no_blind_overwrite [OF disjI2 [OF refl] _ run calls(2) [unfolded example_write_def] disjI1 [OF refl] p _ i
        ch [unfolded example_write_def]]) (simp_all add: disk example_facts(6), simp add: example_world_def)
  with ch disk show ?thesis
    by (auto simp: example_tools_def example_target_def run_files_def)
qed

theorem search_shows_witness:
  "\<exists>sf. search_tool id no_regex example_tools (JObj [(''path'', JStr ''.''), (''pattern'', JStr ''old'')]) example_world
        = (Inr (outcome_ok (render_search id sf ''.'' ''old'' 1)), example_world)
     \<and> sf_lines sf = [''f:1: old''] \<and> \<not> sf_truncated sf"
proof -
  let ?args = "JObj [(''path'', JStr ''.''), (''pattern'', JStr ''old'')]"
  let ?root = "\<lparr>t_key = ''/w'', t_display = ''.'', t_path = [''w'']\<rparr>"
  have r: "b_resolve (ft_fs example_tools) (fw_disk example_world) (argument_or ?args ''path'' ''.'') = Inr ?root"
    by code_simp
  have g: "b_glob (ft_fs example_tools) (fw_disk example_world) ?root (argument_or ?args ''glob'' ''**/*'')
      = Inr [example_target]" by code_simp
  have p: "required_str ''search'' ?args ''pattern'' = Inr ''old''" by code_simp
  have m: "matcher_for id no_regex ''old'' (\<not> json_flag ?args ''case_sensitive'') = Inr (\<lambda>l. l = ''old'')"
    by (simp add: matcher_for_def no_regex_def)
  have h: "file_hits (ft_fs example_tools) (fw_disk example_world) (\<lambda>l. l = ''old'') example_target = [''f:1: old'']"
    by code_simp
  from search_shows [OF p m r g] show ?thesis by (simp add: h)
qed

theorem file_tools_admission_witness:
  "tl_mode (file_tool (\<lambda>_. undefined) id no_regex example_io example_tools ''stat'') JNull = Inr Overlapping
     \<and> fw_disk (snd (tl_execute (file_tool (\<lambda>_. undefined) id no_regex example_io example_tools ''stat'')
          (JObj [(''path'', JStr ''f'')]) example_world)) = example_disk"
proof -
  have m: "tl_mode (file_tool (\<lambda>_. undefined) id no_regex example_io example_tools ''stat'') a = Inr Overlapping" for a
    by (simp add: file_tool_def file_tool_mode_def)
  have "''stat'' \<in> set FILE_TOOL_NAMES" by (simp add: FILE_TOOL_NAMES_def)
  from file_tools_admission [OF this refl] m show ?thesis by (simp add: example_world_def)
qed

end
