(* ===== verification/Presets.thy ===== *)
theory Presets
  imports Files Approval Journal
begin

text \<open>
  Permission presets (\<^verbatim>\<open>crates/fs/src/preset.rs\<close>): the table, the folds that read a session's knobs
  back from its journal, and the switch, over any session log.
\<close>

record preset_row =
  pr_name :: string
  pr_mode :: fs_mode
  pr_approval :: approval_policy
  pr_description :: string

definition PRESETS :: "preset_row list" where
  "PRESETS =
     [\<lparr>pr_name = ''read-only'', pr_mode = ReadOnly, pr_approval = Never,
       pr_description = ''Read the workspace and change nothing. Every mutation is refused, and '' @
         ''nothing is put to you to decide.''\<rparr>,
      \<lparr>pr_name = ''workspace-write'', pr_mode = WorkspaceWrite, pr_approval = Ask,
       pr_description = ''Work inside the workspace. Anything a session cannot take back is put to '' @
         ''you first.''\<rparr>,
      \<lparr>pr_name = ''danger-full-access'', pr_mode = DangerFullAccess, pr_approval = Ask,
       pr_description = ''No filesystem fence at all. Anything a session cannot take back is still '' @
         ''put to you first.''\<rparr>]"

definition DEFAULT_PRESET :: string where
  "DEFAULT_PRESET = ''workspace-write''"

definition preset :: "string \<Rightarrow> preset_row option" where
  "preset name = List.find (\<lambda>p. pr_name p = name) PRESETS"

definition listed_presets :: string where
  "listed_presets = join '', '' (map pr_name PRESETS)"

definition effective_preset :: "session_event list \<Rightarrow> string option" where
  "effective_preset es =
     Option.bind (find_last (\<lambda>e. ty e = ''permission/preset'') es) (\<lambda>e. as_str (jidx (data e) ''preset''))"

definition effective_mode :: "session_event list \<Rightarrow> fs_mode option" where
  "effective_mode es =
     Option.bind (find_last (\<lambda>e. ty e = ''fs/mode'') es) (\<lambda>e.
       Option.bind (as_str (jidx (data e) ''mode'')) (\<lambda>w.
         case parse_mode w of Inr m \<Rightarrow> Some m | Inl _ \<Rightarrow> None))"

datatype switch_error = UnknownPreset string | SwitchRefused session_error

definition switch_error_text :: "(string \<Rightarrow> string) \<Rightarrow> string \<Rightarrow> string" where
  "switch_error_text debug name =
     ''no permission preset is named '' @ debug name @ ''; the presets are '' @ listed_presets"

text \<open>One event of the switch, left out when \<open>needed\<close> is false; then the rest.\<close>

definition switch_event ::
  "'l appender \<Rightarrow> bool \<Rightarrow> string \<Rightarrow> json \<Rightarrow> ('l \<Rightarrow> (switch_error + 'b) \<times> 'l) \<Rightarrow> 'l \<Rightarrow> (switch_error + 'b) \<times> 'l"
where
  "switch_event app needed t d rest l =
     (if \<not> needed then rest l
      else case app l t d None of
        (Inl x, l1) \<Rightarrow> (Inl (SwitchRefused x), l1)
      | (Inr _, l1) \<Rightarrow> rest l1)"

definition switch ::
  "'l appender \<Rightarrow> ('l \<Rightarrow> session_event list) \<Rightarrow> string \<Rightarrow> 'l \<Rightarrow> (switch_error + preset_row) \<times> 'l"
where
  "switch app events name l =
     (case preset name of
        None \<Rightarrow> (Inl (UnknownPreset name), l)
      | Some p \<Rightarrow>
          switch_event app True ''permission/preset'' (jobj [(''preset'', JStr (pr_name p))])
           (switch_event app (effective_mode (events l) \<noteq> Some (pr_mode p))
             ''fs/mode'' (jobj [(''mode'', JStr (mode_word (pr_mode p)))])
            (switch_event app (effective_policy (events l) \<noteq> Some (pr_approval p))
              ''approval/policy'' (jobj [(''policy'', JStr (policy_str (pr_approval p)))])
             (\<lambda>l3. (Inr p, l3)))) l)"

definition is_permission_event :: "session_event \<Rightarrow> bool" where
  "is_permission_event e \<longleftrightarrow> ty e \<in> {''permission/preset'', ''fs/mode'', ''approval/policy''}"

section \<open>What a switch leaves on the journal\<close>

lemma parse_mode_word [simp]: "parse_mode (mode_word m) = Inr m"
  by (cases m) (simp_all add: parse_mode_def)

lemma parse_policy_str [simp]: "parse_policy (policy_str p) = Inr p"
  by (cases p) (simp_all add: parse_policy_def)

lemma effective_snoc:
  "effective_preset (es @ [e])
     = (if ty e = ''permission/preset'' then as_str (jidx (data e) ''preset'') else effective_preset es)"
  "effective_mode (es @ [e])
     = (if ty e = ''fs/mode'' then Option.bind (as_str (jidx (data e) ''mode''))
          (\<lambda>w. case parse_mode w of Inr m \<Rightarrow> Some m | Inl _ \<Rightarrow> None) else effective_mode es)"
  "effective_policy (es @ [e])
     = (if ty e = ''approval/policy'' then Option.bind (as_str (jidx (data e) ''policy''))
          (\<lambda>w. case parse_policy w of Inr p \<Rightarrow> Some p | Inl _ \<Rightarrow> None) else effective_policy es)"
  by (simp_all add: effective_preset_def effective_mode_def effective_policy_def)

lemmas effective_snocs = effective_snoc effective_snoc [of "es @ [a]" b for es a b, simplified]
  effective_snoc [of "es @ [a, b]" c for es a b c, simplified]

lemma jidx_one [simp]: "jidx (jobj [(k, v)]) k = v"
  by (simp add: jidx_def)

text \<open>The knobs a list of events leaves a session under.\<close>

definition knobs :: "session_event list \<Rightarrow> string option \<times> fs_mode option \<times> approval_policy option" where
  "knobs es = (effective_preset es, effective_mode es, effective_policy es)"

context session_log
begin

lemma switch_event_cases:
  assumes "switch_event append needed t d rest l = (r, l')"
  obtains (skipped) "\<not> needed" "rest l = (r, l')"
    | (refused) x where "needed" "r = Inl (SwitchRefused x)" "events l' = events l"
    | (written) e l1 where "needed" "events l1 = events l @ [e]" "ty e = t" "data e = d" "rest l1 = (r, l')"
proof (cases needed)
  case True
  show ?thesis
  proof (cases "append l t d None")
    case (Pair x l1)
    with True assms show ?thesis
      by (cases x) (auto simp: switch_event_def intro: written refused dest: append_ok append_err)
  qed
qed (use assms skipped in \<open>simp add: switch_event_def\<close>)

lemma switch_effect:
  assumes "switch append events name l = (r, l')"
  shows "case r of
      Inr p \<Rightarrow> preset name = Some p \<and> knobs (events l') = (Some name, Some (pr_mode p), Some (pr_approval p))
        \<and> (\<exists>e new. events l' = events l @ e # new \<and> ty e = ''permission/preset''
            \<and> map ty new = (if effective_mode (events l) = Some (pr_mode p) then [] else [''fs/mode''])
                @ (if effective_policy (events l) = Some (pr_approval p) then [] else [''approval/policy'']))
    | Inl (UnknownPreset n) \<Rightarrow> n = name \<and> preset name = None \<and> l' = l
    | Inl (SwitchRefused x) \<Rightarrow> \<exists>new. events l' = events l @ new \<and> list_all is_permission_event new
        \<and> (new = [] \<or> effective_preset (events l') = Some name)"
proof (cases "preset name")
  case None
  with assms show ?thesis by (auto simp: switch_def)
next
  case (Some p)
  then have n: "pr_name p = name" by (auto simp: preset_def find_Some_iff)
  note s = assms [unfolded switch_def Some option.case]
  from s show ?thesis
  proof (rule switch_event_cases)
    fix e l1
    assume e: "events l1 = events l @ [e]" "ty e = ''permission/preset''" "data e = jobj [(''preset'', JStr (pr_name p))]"
      and r: "switch_event append (effective_mode (events l) \<noteq> Some (pr_mode p))
         ''fs/mode'' (jobj [(''mode'', JStr (mode_word (pr_mode p)))])
        (switch_event append (effective_policy (events l) \<noteq> Some (pr_approval p))
          ''approval/policy'' (jobj [(''policy'', JStr (policy_str (pr_approval p)))])
         (\<lambda>l3. (Inr p, l3))) l1 = (r, l')"
    from r show ?thesis
    proof (rule switch_event_cases)
      assume m: "\<not> effective_mode (events l) \<noteq> Some (pr_mode p)"
        and r: "switch_event append (effective_policy (events l) \<noteq> Some (pr_approval p))
          ''approval/policy'' (jobj [(''policy'', JStr (policy_str (pr_approval p)))])
         (\<lambda>l3. (Inr p, l3)) l1 = (r, l')"
      from r show ?thesis
        by (rule switch_event_cases)
          (use m e n Some in \<open>auto simp: knobs_def effective_snocs is_permission_event_def split: if_splits\<close>)
    next
      fix e2 l2
      assume m: "effective_mode (events l) \<noteq> Some (pr_mode p)" "events l2 = events l1 @ [e2]" "ty e2 = ''fs/mode''"
          "data e2 = jobj [(''mode'', JStr (mode_word (pr_mode p)))]"
        and r: "switch_event append (effective_policy (events l) \<noteq> Some (pr_approval p))
          ''approval/policy'' (jobj [(''policy'', JStr (policy_str (pr_approval p)))])
         (\<lambda>l3. (Inr p, l3)) l2 = (r, l')"
      from r show ?thesis
        by (rule switch_event_cases)
          (use m e n Some in \<open>auto simp: knobs_def effective_snocs is_permission_event_def split: if_splits\<close>)
    qed (use e n in \<open>auto simp: effective_snoc is_permission_event_def\<close>)
  qed (auto simp: is_permission_event_def)
qed

end

text \<open>
  A permission switch puts the session under what the preset stands for.  When it succeeds the
  journal, read back, says the preset chosen, its file mode and its approval policy; what was written
  is the choice first and then only the knobs that were not already there, in that order.  An unknown
  name writes nothing.  A journal that refuses an event stops the switch where it is: only permission
  events were added, and if any was, the session already reports the preset while a knob may still
  be the old one.
\<close>

theorem preset_switch:
  assumes "switch (append_journal enc) j_events name l = (r, l')"
  shows "case r of
      Inr p \<Rightarrow> preset name = Some p \<and> knobs (j_events l') = (Some name, Some (pr_mode p), Some (pr_approval p))
        \<and> (\<exists>e new. j_events l' = j_events l @ e # new \<and> ty e = ''permission/preset''
            \<and> map ty new = (if effective_mode (j_events l) = Some (pr_mode p) then [] else [''fs/mode''])
                @ (if effective_policy (j_events l) = Some (pr_approval p) then [] else [''approval/policy'']))
    | Inl (UnknownPreset n) \<Rightarrow> n = name \<and> preset name = None \<and> l' = l
    | Inl (SwitchRefused x) \<Rightarrow> \<exists>new. j_events l' = j_events l @ new \<and> list_all is_permission_event new
        \<and> (new = [] \<or> effective_preset (j_events l') = Some name)"
  by (rule journal_log.switch_effect [OF assms])

theorem preset_switch_witness:
  "knobs (j_events (snd (switch (append_journal (\<lambda>e. Some ''x'')) j_events ''read-only'' (empty_journal [] []))))
     = (Some ''read-only'', Some ReadOnly, Some Never)"
proof -
  obtain r l' where w: "switch (append_journal (\<lambda>e. Some ''x'')) j_events ''read-only'' (empty_journal [] []) = (r, l')"
    by fastforce
  have "\<not> isl (fst (switch (append_journal (\<lambda>e. Some ''x'')) j_events ''read-only'' (empty_journal [] [])))" by code_simp
  then obtain p where p: "r = Inr p" using w by (cases r) auto
  have "preset ''read-only'' = Some (hd PRESETS)" "pr_mode (hd PRESETS) = ReadOnly" "pr_approval (hd PRESETS) = Never"
    by code_simp+
  with preset_switch [OF w] p w show ?thesis by simp
qed

text \<open>The table is in widening order, and every name in it finds its row.\<close>

lemma presets_named: "\<forall>p\<in>set PRESETS. preset (pr_name p) = Some p"
  by code_simp

end
