(* ===== verification/Spill.thy ===== *)
theory Spill
  imports Fence Utf8 Line_Store
begin

text \<open>
  Payloads too big to carry (\<^verbatim>\<open>crates/core/src/spill.rs\<close>): the store of spilled artifacts, the cut of a
  preview and the size policy.  The store is the files by their path; what the system refuses is a
  parameter of each call.
\<close>

record spill_ref =
  locator :: string
  stored :: nat

record spill_source =
  so_session :: string
  so_tool :: string
  so_call :: string

datatype spill_error = Unwritable string io_error

definition spill_error_text :: "spill_error \<Rightarrow> string" where
  "spill_error_text e = (case e of Unwritable p x \<Rightarrow> p @ '': cannot be written: '' @ io_text x)"

section \<open>Names\<close>

definition safe_char :: "char \<Rightarrow> bool" where
  "safe_char c \<longleftrightarrow>
     (let n = (of_char c :: nat) in (48 \<le> n \<and> n \<le> 57) \<or> (65 \<le> n \<and> n \<le> 90) \<or> (97 \<le> n \<and> n \<le> 122))
     \<or> c = CHR ''.'' \<or> c = CHR ''_'' \<or> c = CHR ''-''"

definition segment :: "string \<Rightarrow> string" where
  "segment raw =
     (let mapped = map (\<lambda>g. if length g = 1 \<and> safe_char (hd g) then hd g else CHR ''_'') (utf8_chars raw)
      in if mapped \<in> {[], ''.'', ''..''} then ''_'' else take 64 mapped)"

definition path_join :: "string \<Rightarrow> string \<Rightarrow> string" where
  "path_join root name = (if root = [] then name else if last root = SEP then root @ name else root @ [SEP] @ name)"

definition spill_dir :: "string \<Rightarrow> spill_source \<Rightarrow> string" where
  "spill_dir root src = path_join root (''session-'' @ segment (so_session src))"

definition spill_base :: "spill_source \<Rightarrow> string" where
  "spill_base src = segment (so_tool src) @ ''-'' @ segment (so_call src)"

definition spill_name :: "string \<Rightarrow> nat \<Rightarrow> string" where
  "spill_name base n = (if n = 0 then base @ ''.txt'' else base @ ''-'' @ show_nat n @ ''.txt'')"

section \<open>The store\<close>

type_synonym artifacts = "(string, string) omap"

text \<open>
  What the system does to one artifact: refuse the directory, refuse to open a path (other than
  because it exists), stop a write after some bytes, or refuse to sync.
\<close>

record spill_io =
  si_dir :: "io_error option"
  si_open :: "string \<Rightarrow> io_error option"
  si_write :: "(nat \<times> io_error) option"
  si_sync :: "io_error option"

definition ATTEMPTS :: nat where
  "ATTEMPTS = 1000"

text \<open>\<open>open_named io dir base n k fs\<close> tries the names from the \<open>n\<close>-th on, \<open>k\<close> of them.\<close>

fun open_named ::
  "spill_io \<Rightarrow> string \<Rightarrow> string \<Rightarrow> nat \<Rightarrow> nat \<Rightarrow> artifacts \<Rightarrow> (spill_error + string) \<times> artifacts"
where
  "open_named io dir base n 0 fs = (Inl (Unwritable dir (Other_Io ''a thousand names for one call are all taken'')), fs)"
| "open_named io dir base n (Suc k) fs =
     (let p = path_join dir (spill_name base n)
      in case si_open io p of
           Some e \<Rightarrow> (Inl (Unwritable p e), fs)
         | None \<Rightarrow>
             (if map_of fs p \<noteq> None then open_named io dir base (n + 1) k fs
              else (Inr p, om_insert p [] fs)))"

definition open_spill ::
  "string \<Rightarrow> spill_io \<Rightarrow> spill_source \<Rightarrow> artifacts \<Rightarrow> (spill_error + string \<times> nat) \<times> artifacts"
where
  "open_spill root io src fs =
     (case si_dir io of
        Some e \<Rightarrow> (Inl (Unwritable (spill_dir root src) e), fs)
      | None \<Rightarrow>
          (case open_named io (spill_dir root src) (spill_base src) 0 ATTEMPTS fs of
             (Inl e, fs1) \<Rightarrow> (Inl e, fs1)
           | (Inr p, fs1) \<Rightarrow> (Inr (p, 0), fs1)))"

text \<open>A writer is its path and the bytes it has counted.\<close>

definition write_spill ::
  "spill_io \<Rightarrow> string \<times> nat \<Rightarrow> string \<Rightarrow> artifacts \<Rightarrow> (spill_error + string \<times> nat) \<times> artifacts"
where
  "write_spill io wr bytes fs =
     (let old = (case map_of fs (fst wr) of None \<Rightarrow> [] | Some s \<Rightarrow> s)
      in case si_write io of
           Some (n, e) \<Rightarrow> (Inl (Unwritable (fst wr) e), om_insert (fst wr) (old @ take n bytes) fs)
         | None \<Rightarrow> (Inr (fst wr, snd wr + length bytes), om_insert (fst wr) (old @ bytes) fs))"

definition finish_spill :: "spill_io \<Rightarrow> string \<times> nat \<Rightarrow> spill_error + spill_ref" where
  "finish_spill io wr =
     (case si_sync io of
        Some e \<Rightarrow> Inl (Unwritable (fst wr) e)
      | None \<Rightarrow> Inr \<lparr>locator = fst wr, stored = snd wr\<rparr>)"

definition save_spill ::
  "string \<Rightarrow> spill_io \<Rightarrow> spill_source \<Rightarrow> string \<Rightarrow> artifacts \<Rightarrow> (spill_error + spill_ref) \<times> artifacts"
where
  "save_spill root io src content fs =
     (case open_spill root io src fs of
        (Inl e, fs1) \<Rightarrow> (Inl e, fs1)
      | (Inr wr, fs1) \<Rightarrow>
          (case write_spill io wr content fs1 of
             (Inl e, fs2) \<Rightarrow> (Inl e, fs2)
           | (Inr wr2, fs2) \<Rightarrow> (finish_spill io wr2, fs2)))"

section \<open>The preview and the policy\<close>

definition boundary :: "string \<Rightarrow> nat \<Rightarrow> bool" where
  "boundary s i \<longleftrightarrow> i = 0 \<or> i = length s \<or> i < length s \<and> \<not> is_cont (s ! i)"

fun floor_from :: "string \<Rightarrow> nat \<Rightarrow> nat" where
  "floor_from s 0 = 0"
| "floor_from s (Suc i) = (if boundary s (Suc i) then Suc i else floor_from s i)"

definition floor_at :: "string \<Rightarrow> nat \<Rightarrow> nat" where
  "floor_at s i = floor_from s (min i (length s))"

definition head_tail :: "string \<Rightarrow> nat \<Rightarrow> string" where
  "head_tail s budget =
     (if length s \<le> budget then s
      else let head = floor_at s ((budget + 1) div 2); tail = floor_at s (length s - budget div 2)
        in if tail \<le> head then s else take head s @ drop tail s)"

definition notice :: "nat \<Rightarrow> spill_ref \<Rightarrow> string" where
  "notice omitted r =
     ''('' @ show_nat omitted @ '' bytes omitted. The full result is stored at: '' @ locator r
     @ ''. Read that path to see it.)''"

record spilled =
  replacement :: string
  reference :: spill_ref

definition blank_line :: string where
  "blank_line = [newline, newline]"

definition replacement_of :: "string \<Rightarrow> spill_ref \<Rightarrow> nat \<Rightarrow> string" where
  "replacement_of content r cap =
     (let reserve = length (notice (length content) r) + 2;
          preview = head_tail content (cap - reserve);
          said = notice (length content - length preview) r
      in if preview = [] then said else preview @ blank_line @ said)"

definition apply_policy ::
  "nat \<Rightarrow> string \<Rightarrow> spill_io \<Rightarrow> spill_source \<Rightarrow> string \<Rightarrow> artifacts \<Rightarrow> spilled option \<times> artifacts"
where
  "apply_policy cap root io src content fs =
     (if length content \<le> cap then (None, fs)
      else case save_spill root io src content fs of
        (Inl _, fs1) \<Rightarrow> (None, fs1)
      | (Inr r, fs1) \<Rightarrow>
          (if length (replacement_of content r cap) \<le> cap
           then (Some \<lparr>replacement = replacement_of content r cap, reference = r\<rparr>, fs1)
           else (None, fs1)))"

section \<open>Names are safe\<close>

lemma safe_not_sep: "safe_char c \<Longrightarrow> c \<noteq> SEP"
  by (auto simp: safe_char_def SEP_def)

lemma segment_chars: "c \<in> set (segment raw) \<Longrightarrow> safe_char c"
  by (auto simp: segment_def Let_def safe_char_def dest!: in_set_takeD split: if_splits)

lemma take_short: "take n m = x \<Longrightarrow> length x < n \<Longrightarrow> m = x"
  by (cases "n \<le> length m") auto

lemma segment_plain: "segment raw \<notin> {[], ''.'', ''..''}" "length (segment raw) \<le> 64"
  by (auto simp: segment_def Let_def dest!: take_short)

lemma segment_name: "is_name (segment raw)"
  using segment_plain [of raw] segment_chars [of SEP raw] safe_not_sep [of SEP] by (auto simp: is_name_def)

lemma show_nat_digits: "c \<in> set (show_nat n) \<Longrightarrow> 48 \<le> (of_char c :: nat)"
proof (induction n rule: show_nat.induct)
  case (1 n)
  show ?case
  proof (cases "n < 10")
    case True
    with 1(2) show ?thesis by (subst (asm) show_nat.simps) (simp add: of_char_digit_char)
  next
    case False
    with 1(2) have "c \<in> set (show_nat (n div 10)) \<or> c = digit_char (n mod 10)"
      by (subst (asm) show_nat.simps) auto
    with 1(1) [OF False] show ?thesis by (auto simp: of_char_digit_char)
  qed
qed

lemma show_nat_length_mono: "m \<le> n \<Longrightarrow> length (show_nat m) \<le> length (show_nat n)"
proof (induction n arbitrary: m rule: show_nat.induct)
  case (1 n)
  show ?case
  proof (cases "n < 10")
    case True
    with 1(2) show ?thesis by (subst (1 2) show_nat.simps) simp
  next
    case False
    then have n: "length (show_nat n) = Suc (length (show_nat (n div 10)))" by (subst show_nat.simps) simp
    show ?thesis
    proof (cases "m < 10")
      case True
      then show ?thesis by (subst show_nat.simps) (simp add: n)
    next
      case big: False
      then have "length (show_nat m) = Suc (length (show_nat (m div 10)))" by (subst show_nat.simps) simp
      with 1(1) [OF False, of "m div 10"] 1(2) n show ?thesis by (simp add: div_le_mono)
    qed
  qed
qed

lemma spilled_names: "is_name (''session-'' @ segment (so_session src))" "is_name (spill_name (spill_base src) m)"
proof -
  have "SEP \<notin> set (show_nat n)" for n using show_nat_digits [of SEP n] by (auto simp: SEP_def)
  moreover have "SEP \<notin> set (segment raw)" for raw using segment_chars safe_not_sep by blast
  ultimately show "is_name (''session-'' @ segment (so_session src))" "is_name (spill_name (spill_base src) m)"
    by (auto simp: is_name_def spill_name_def spill_base_def SEP_def append_eq_Cons_conv)
qed

section \<open>Cuts\<close>

lemma boundary_floor: "boundary s (floor_from s i)"
  by (induction i) (auto simp: boundary_def)

lemma floor_from_le: "floor_from s i \<le> i"
  by (induction i) auto

lemma floor_at_le: "floor_at s i \<le> i" "floor_at s i \<le> length s"
  using floor_from_le [of s "min i (length s)"] by (auto simp: floor_at_def)

lemma floor_at_boundary: "boundary s (floor_at s i)"
  by (simp add: floor_at_def boundary_floor)

lemma cut_valid:
  assumes "valid_utf8 s" and "boundary s i"
  shows "valid_utf8 (take i s)" and "valid_utf8 (drop i s)"
proof -
  have "valid_utf8 (take i s) \<and> valid_utf8 (drop i s)"
    using assms
  proof (induction s arbitrary: i rule: valid_utf8_induct)
    case (char a p t)
    have whole: "valid_utf8 (a # p)" using char(4) [of "[]"] by simp
    show ?case
    proof (cases "i \<le> length p")
      case True
      have "i = 0"
      proof (rule ccontr)
        assume "i \<noteq> 0"
        then have "i - 1 < length p" using True by simp
        moreover from this have "\<not> is_cont (p ! (i - 1))"
          using True char.prems \<open>i \<noteq> 0\<close> by (auto simp: boundary_def nth_append nth_Cons')
        ultimately show False using char(2) by simp
      qed
      with char show ?thesis by simp
    next
      case False
      then obtain j where i: "i = Suc (length p + j)" by (metis add_Suc le_Suc_ex not_less_eq_eq)
      with char.prems have "boundary t j" by (auto simp: boundary_def nth_append)
      from char.IH [OF this] i char(4) [of "take j t"] show ?thesis by simp
    qed
  qed (auto simp: boundary_def)
  then show "valid_utf8 (take i s)" "valid_utf8 (drop i s)" by auto
qed

lemma head_tail_cuts:
  obtains i j where "i \<le> j" "j \<le> length s" "boundary s i" "boundary s j"
    "head_tail s budget = take i s @ drop j s"
proof (cases "length s \<le> budget \<or> floor_at s (length s - budget div 2) \<le> floor_at s ((budget + 1) div 2)")
  case True
  then have "head_tail s budget = take 0 s @ drop 0 s" by (auto simp: head_tail_def Let_def)
  then show ?thesis using that [of 0 0] by (simp add: boundary_def)
next
  case False
  let ?i = "floor_at s ((budget + 1) div 2)" and ?j = "floor_at s (length s - budget div 2)"
  show ?thesis
    by (rule that [of ?i ?j])
      (use False floor_at_le floor_at_boundary in \<open>auto simp: head_tail_def Let_def\<close>)
qed

section \<open>What a save does to the store\<close>

lemma open_named_fresh:
  assumes "open_named io dir base n k fs = (r, fs')"
  shows "case r of Inl e \<Rightarrow> fs' = fs
    | Inr p \<Rightarrow> map_of fs p = None \<and> fs' = om_insert p [] fs
        \<and> (\<exists>m<n + k. n \<le> m \<and> p = path_join dir (spill_name base m))"
  using assms
proof (induction io dir base n k fs rule: open_named.induct)
  case (2 io dir base n k fs)
  then show ?case
    by (fastforce simp: Let_def split: option.splits if_splits sum.splits intro: exI [of _ n])
qed auto

lemma save_effect:
  assumes "save_spill root io src content fs = (r, fs')"
  shows "(\<forall>p. map_of fs p \<noteq> None \<longrightarrow> map_of fs' p = map_of fs p)
    \<and> (case r of Inl e \<Rightarrow> True
        | Inr rf \<Rightarrow> map_of fs (locator rf) = None \<and> map_of fs' = (map_of fs)(locator rf \<mapsto> content)
            \<and> stored rf = length content
            \<and> (\<exists>m<ATTEMPTS. locator rf = path_join (spill_dir root src) (spill_name (spill_base src) m)))"
proof (cases "si_dir io")
  case None
  obtain r1 fs1 where o1: "open_named io (spill_dir root src) (spill_base src) 0 ATTEMPTS fs = (r1, fs1)"
    by fastforce
  from open_named_fresh [OF this] None assms o1 show ?thesis
    by (cases r1)
      (auto simp: save_spill_def open_spill_def write_spill_def finish_spill_def Let_def split: option.splits prod.splits)
qed (use assms in \<open>auto simp: save_spill_def open_spill_def\<close>)

section \<open>The size policy\<close>

lemma replacement_parts:
  obtains i j where "i \<le> j" "j \<le> length content" "boundary content i" "boundary content j"
    "replacement_of content r cap
       = (if take i content @ drop j content = [] then [] else take i content @ drop j content @ blank_line)
         @ notice (j - i) r"
proof -
  obtain i j where ij: "i \<le> j" "j \<le> length content" "boundary content i" "boundary content j"
    "head_tail content (cap - (length (notice (length content) r) + 2)) = take i content @ drop j content"
    by (rule head_tail_cuts)
  moreover from ij have "length content - length (take i content @ drop j content) = j - i" by simp
  ultimately show ?thesis by (intro that [of i j]) (auto simp: replacement_of_def Let_def)
qed

text \<open>
  C21. Spilling loses nothing and always fits.  When the policy replaces a payload, the replacement is
  within the cap and the payload was over it; the whole payload is stored, byte for byte, at the path
  the replacement names, where nothing was before, under the store's root; and what the model sees is
  a head and a tail of the payload and the exact number of bytes left out between them, with no
  character cut in two.  Whatever happens, no artifact stored before is touched.
\<close>

theorem spill_keeps_payload:
  assumes "apply_policy cap root io src content fs = (res, fs')"
  shows "(\<forall>p. map_of fs p \<noteq> None \<longrightarrow> map_of fs' p = map_of fs p)
    \<and> (case res of None \<Rightarrow> True
        | Some sp \<Rightarrow>
            length (replacement sp) \<le> cap \<and> cap < length content
          \<and> map_of fs (locator (reference sp)) = None
          \<and> map_of fs' = (map_of fs)(locator (reference sp) \<mapsto> content)
          \<and> (\<exists>d n. is_name d \<and> is_name n \<and> locator (reference sp) = path_join (path_join root d) n)
          \<and> (\<exists>hd mid tl. content = hd @ mid @ tl
              \<and> replacement sp = (if hd @ tl = [] then [] else hd @ tl @ blank_line) @ notice (length mid) (reference sp)
              \<and> (valid_utf8 content \<longrightarrow> valid_utf8 hd \<and> valid_utf8 tl)))"
proof -
  have saved: "(\<forall>p. map_of fs p \<noteq> None \<longrightarrow> map_of fs' p = map_of fs p)"
      "case r of Inl e \<Rightarrow> True
        | Inr rf \<Rightarrow> map_of fs (locator rf) = None \<and> map_of fs' = (map_of fs)(locator rf \<mapsto> content)
            \<and> stored rf = length content
            \<and> (\<exists>m<ATTEMPTS. locator rf = path_join (spill_dir root src) (spill_name (spill_base src) m))"
    if "save_spill root io src content fs = (r, fs')" for r
    using save_effect [OF that] by blast+
  show ?thesis
  proof (cases res)
    case None
    with assms have "fs' = fs \<or> (\<exists>r. save_spill root io src content fs = (r, fs'))"
      by (auto simp: apply_policy_def split: if_splits prod.splits sum.splits)
    with saved(1) None show ?thesis by auto
  next
    case (Some sp)
    with assms obtain rf where sv: "save_spill root io src content fs = (Inr rf, fs')"
      and sp: "sp = \<lparr>replacement = replacement_of content rf cap, reference = rf\<rparr>"
      and fits: "length (replacement_of content rf cap) \<le> cap" "cap < length content"
      by (auto simp: apply_policy_def split: if_splits prod.splits sum.splits)
    from saved(2) [OF sv] obtain m where at: "map_of fs (locator rf) = None" "map_of fs' = (map_of fs)(locator rf \<mapsto> content)"
        "locator rf = path_join (spill_dir root src) (spill_name (spill_base src) m)"
      by auto
    have under: "\<exists>d n. is_name d \<and> is_name n \<and> locator rf = path_join (path_join root d) n"
      using at(3) spilled_names(1) [of src] spilled_names(2) [of src m] unfolding spill_dir_def by blast
    obtain i j where ij: "i \<le> j" "j \<le> length content" "boundary content i" "boundary content j"
      "replacement_of content rf cap
         = (if take i content @ drop j content = [] then [] else take i content @ drop j content @ blank_line)
           @ notice (j - i) rf"
      by (rule replacement_parts)
    have "content = take i content @ (take (j - i) (drop i content)) @ drop j content"
      using ij(1) by (metis append_take_drop_id drop_drop le_add_diff_inverse2)
    moreover have "length (take (j - i) (drop i content)) = j - i" using ij by simp
    moreover have "valid_utf8 content \<longrightarrow> valid_utf8 (take i content) \<and> valid_utf8 (drop j content)"
      using cut_valid ij by blast
    ultimately have "\<exists>hd mid tl. content = hd @ mid @ tl
        \<and> replacement sp = (if hd @ tl = [] then [] else hd @ tl @ blank_line) @ notice (length mid) (reference sp)
        \<and> (valid_utf8 content \<longrightarrow> valid_utf8 hd \<and> valid_utf8 tl)"
      using ij(5) sp by (intro exI [of _ "take i content"] exI [of _ "take (j - i) (drop i content)"]
        exI [of _ "drop j content"]) simp
    with Some sp fits at under saved(1) [OF sv] show ?thesis by simp
  qed
qed

text \<open>
  A payload of single-byte characters is never kept inline for want of room.  When it is over the
  cap, the store takes it, and the cap has room for the longest notice and the blank line before it,
  the policy answers a replacement.
\<close>

theorem spill_applies:
  assumes "cap < length content" and "\<forall>c\<in>set content. \<not> is_cont c"
    and "save_spill root io src content fs = (Inr rf, fs')"
    and "length (notice (length content) rf) + 2 \<le> cap"
  shows "apply_policy cap root io src content fs
     = (Some \<lparr>replacement = replacement_of content rf cap, reference = rf\<rparr>, fs')"
proof -
  let ?reserve = "length (notice (length content) rf) + 2"
  have b: "boundary content i" if "i \<le> length content" for i
    using that assms(2) by (auto simp: boundary_def)
  have fl: "floor_at content i = min i (length content)" for i
  proof -
    have "floor_from content k = k" if "k \<le> length content" for k
      using that b by (cases k) auto
    then show ?thesis by (simp add: floor_at_def)
  qed
  have ht: "length (head_tail content k) \<le> k" if "k < length content" for k
  proof -
    have "(k + 1) div 2 + k div 2 = k" by arith
    then show ?thesis using that by (auto simp: head_tail_def Let_def fl)
  qed
  define preview where "preview = head_tail content (cap - ?reserve)"
  have short: "length preview \<le> cap - ?reserve" using ht assms(1) by (simp add: preview_def)
  have total: "length preview + ?reserve \<le> cap" using short assms(4) by arith
  have "length (notice (length content - length preview) rf) + 2 \<le> ?reserve"
    using show_nat_length_mono [of "length content - length preview" "length content"] by (simp add: notice_def)
  moreover have "replacement_of content rf cap
      = (let said = notice (length content - length preview) rf
         in if preview = [] then said else preview @ blank_line @ said)"
    by (simp add: replacement_of_def Let_def preview_def)
  ultimately have "length (replacement_of content rf cap) \<le> cap"
    using total by (cases "preview = []") (simp_all add: Let_def blank_line_def)
  with assms(1,3) show ?thesis by (simp add: apply_policy_def)
qed

subsection \<open>The properties at work\<close>

definition demo_spill :: spill_source where
  "demo_spill = \<lparr>so_session = ''s'', so_tool = ''t'', so_call = ''../c''\<rparr>"

definition quiet_disk :: spill_io where
  "quiet_disk = \<lparr>si_dir = None, si_open = (\<lambda>_. None), si_write = None, si_sync = None\<rparr>"

abbreviation demo_saved :: "(spill_error + spill_ref) \<times> artifacts" where
  "demo_saved \<equiv> save_spill ''/r'' quiet_disk demo_spill (replicate 300 CHR ''a'') []"

theorem spill_keeps_payload_witness:
  "\<exists>sp. fst (apply_policy 120 ''/r'' quiet_disk demo_spill (replicate 300 CHR ''a'') []) = Some sp
     \<and> length (replacement sp) \<le> 120 \<and> locator (reference sp) = ''/r/session-s/t-.._c.txt''
     \<and> map_of (snd (apply_policy 120 ''/r'' quiet_disk demo_spill (replicate 300 CHR ''a'') [])) (locator (reference sp))
         = Some (replicate 300 CHR ''a'')"
proof -
  let ?a = "apply_policy 120 ''/r'' quiet_disk demo_spill (replicate 300 CHR ''a'') []"
  obtain res fs' where a: "?a = (res, fs')" by fastforce
  have "(case fst ?a of None \<Rightarrow> False | Some sp \<Rightarrow> locator (reference sp) = ''/r/session-s/t-.._c.txt'')"
    by code_simp
  with a obtain sp where sp: "res = Some sp" "locator (reference sp) = ''/r/session-s/t-.._c.txt''"
    by (auto split: option.splits)
  from spill_keeps_payload [OF a] sp have "length (replacement sp) \<le> 120"
      "map_of fs' = (map_of [])(locator (reference sp) \<mapsto> replicate 300 CHR ''a'')" by simp_all
  with a sp show ?thesis by simp
qed

theorem spill_applies_witness:
  "\<exists>sp. fst (apply_policy 120 ''/r'' quiet_disk demo_spill (replicate 300 CHR ''a'') []) = Some sp"
proof -
  obtain rf fs' where s: "demo_saved = (Inr rf, fs')" and n: "length (notice 300 rf) + 2 \<le> 120"
  proof -
    have "(case fst demo_saved of Inl _ \<Rightarrow> False | Inr rf \<Rightarrow> length (notice 300 rf) + 2 \<le> 120)" by code_simp
    then show ?thesis by (cases demo_saved) (auto split: sum.splits intro: that)
  qed
  have "\<forall>c\<in>set (replicate 300 CHR ''a''). \<not> is_cont c" by (simp add: is_cont_def byte_in_def)
  from spill_applies [OF _ this s] n show ?thesis by simp
qed

text \<open>
  The two cuts do not both shorten the preview: rounding the start of the tail down to a character
  lengthens it, so a payload of longer characters may overrun the cap by a byte or two, and is then
  kept inline in full, however long it is, although it was stored.
\<close>

lemma floor_lengthens_tail: "length (head_tail (''aaaa'' @ [CHR 0xE2, CHR 0x82, CHR 0xAC]) 2) = 4"
  by code_simp

lemma wide_payload_kept_inline:
  "apply_policy 120 ''/r'' quiet_disk demo_spill (replicate 200 CHR ''a'' @ concat (replicate 70 [CHR 0xE2, CHR 0x82, CHR 0xAC])) []
     = (None, [(''/r/session-s/t-.._c.txt'', replicate 200 CHR ''a'' @ concat (replicate 70 [CHR 0xE2, CHR 0x82, CHR 0xAC]))])"
  by code_simp

lemma segments_collide: "segment ''a/b'' = segment ''a_b''"
  by code_simp

end
