(* ===== verification/Query_Events.thy ===== *)
theory Query_Events
  imports Inbox
begin

text \<open>
  Reading a session journal as data, first part: the events the contract pins down
  (\<^verbatim>\<open>crates/protocol/src/types.rs\<close>), what a caller may ask for (\<^verbatim>\<open>crates/query/src/filter.rs\<close>), the
  forward pass that places every event in its turn and step, and the selections and pages taken of
  the result (\<^verbatim>\<open>crates/query/src/journal.rs\<close>).  \<open>lower\<close> is the standard library's lower case of a
  string (a Unicode table), \<open>show_json\<close> the text of a JSON value.
\<close>

section \<open>The known events\<close>

datatype wire_stop = NaturalStop | PreStepRejectedStop | MaxStepsStop | CancelledStop | OtherStop string

record wire_usage =
  prompt_tokens :: nat
  completion_tokens :: nat

record wire_call =
  wc_id :: string
  wc_name :: string
  wc_arguments :: json

datatype wire_chunk = TextChunk string | ReasoningChunk string | CallChunk wire_call

datatype known_event =
    SessionStart string string string nat
  | TurnStart nat
  | StepStart nat nat
  | UserMessage string
  | AssistantChunk wire_chunk nat nat
  | AssistantMessage string string "wire_call list" "string option" "wire_usage option"
  | ToolCall string string json
  | ToolResult string string bool string
  | StepEnd nat nat
  | TurnEnd nat nat wire_stop "string option"

definition as_u32 :: "json \<Rightarrow> nat option" where
  "as_u32 j = (case j of JInt i \<Rightarrow> if 0 \<le> i \<and> i < 2 ^ 32 then Some (nat i) else None | _ \<Rightarrow> None)"

fun as_bool :: "json \<Rightarrow> bool option" where
  "as_bool (JBool b) = Some b"
| "as_bool _ = None"

definition stop_word :: "string \<Rightarrow> wire_stop option" where
  "stop_word w =
     (if w = ''natural'' then Some NaturalStop else if w = ''pre-step-rejected'' then Some PreStepRejectedStop
      else if w = ''max-steps'' then Some MaxStepsStop else if w = ''cancelled'' then Some CancelledStop
      else None)"

definition stop_of_json :: "json \<Rightarrow> wire_stop option" where
  "stop_of_json j =
     (case j of
        JStr w \<Rightarrow> (case stop_word w of Some s \<Rightarrow> Some s | None \<Rightarrow> Some (OtherStop w))
      | JObj [(w, JNull)] \<Rightarrow> stop_word w
      | _ \<Rightarrow> None)"

definition usage_of_json :: "json \<Rightarrow> wire_usage option" where
  "usage_of_json j =
     (case fields_of [''prompt_tokens'', ''completion_tokens''] j of
        None \<Rightarrow> None
      | Some f \<Rightarrow>
          (case (Option.bind (f ''prompt_tokens'') as_u64, Option.bind (f ''completion_tokens'') as_u64) of
             (Some p, Some c) \<Rightarrow> Some \<lparr>prompt_tokens = p, completion_tokens = c\<rparr>
           | _ \<Rightarrow> None))"

definition wire_call_of_json :: "json \<Rightarrow> wire_call option" where
  "wire_call_of_json j =
     (case fields_of [''id'', ''name'', ''arguments''] j of
        None \<Rightarrow> None
      | Some f \<Rightarrow>
          (case (str_field (f ''id''), str_field (f ''name''), f ''arguments'') of
             (Some i, Some n, Some a) \<Rightarrow> Some \<lparr>wc_id = i, wc_name = n, wc_arguments = a\<rparr>
           | _ \<Rightarrow> None))"

text \<open>A field with a default: absent it is the default, present it must read.\<close>

definition default_field :: "'a \<Rightarrow> (json \<Rightarrow> 'a option) \<Rightarrow> json option \<Rightarrow> 'a option" where
  "default_field d dec v = (case v of None \<Rightarrow> Some d | Some j \<Rightarrow> dec j)"

definition chunk_of :: "(string \<rightharpoonup> json) \<Rightarrow> wire_chunk option" where
  "chunk_of f =
     (case str_field (f ''chunk'') of
        None \<Rightarrow> None
      | Some k \<Rightarrow>
          (if k = ''text'' then map_option TextChunk (str_field (f ''delta''))
           else if k = ''reasoning'' then map_option ReasoningChunk (str_field (f ''delta''))
           else if k = ''tool_call'' then map_option CallChunk (Option.bind (f ''call'') wire_call_of_json)
           else None))"

definition turn_step :: "(string \<rightharpoonup> json) \<Rightarrow> (nat \<times> nat) option" where
  "turn_step f =
     (case (Option.bind (f ''turn'') as_u64, Option.bind (f ''step'') as_u32) of
        (Some t, Some s) \<Rightarrow> Some (t, s)
      | _ \<Rightarrow> None)"

definition session_start_of :: "(string \<rightharpoonup> json) \<Rightarrow> known_event option" where
  "session_start_of f =
     (case (str_field (f ''session_id''), str_field (f ''provider''), str_field (f ''model''),
            Option.bind (f ''max_steps'') as_u32, opt_field as_str (f ''parent_session''), opt_field as_u64 (f ''fork_seq''),
            opt_field as_str (f ''cwd''), opt_field as_str (f ''spawned_by''), opt_field as_u32 (f ''depth'')) of
        (Some i, Some p, Some m, Some n, Some _, Some _, Some _, Some _, Some _) \<Rightarrow> Some (SessionStart i p m n)
      | _ \<Rightarrow> None)"

definition assistant_message_of :: "(string \<rightharpoonup> json) \<Rightarrow> known_event option" where
  "assistant_message_of f =
     (case (str_field (f ''content''), default_field [] as_str (f ''reasoning''),
            vec_field wire_call_of_json (f ''tool_calls''), opt_field as_str (f ''finish_reason''),
            opt_field usage_of_json (f ''usage'')) of
        (Some c, Some r, Some calls, Some fin, Some u) \<Rightarrow> Some (AssistantMessage c r calls fin u)
      | _ \<Rightarrow> None)"

definition tool_result_of :: "(string \<rightharpoonup> json) \<Rightarrow> known_event option" where
  "tool_result_of f =
     (case (str_field (f ''call_id''), str_field (f ''name''), Option.bind (f ''ok'') as_bool, str_field (f ''content'')) of
        (Some i, Some n, Some ok, Some c) \<Rightarrow> Some (ToolResult i n ok c)
      | _ \<Rightarrow> None)"

definition turn_end_of :: "(string \<rightharpoonup> json) \<Rightarrow> known_event option" where
  "turn_end_of f =
     (case (Option.bind (f ''turn'') as_u64, Option.bind (f ''steps'') as_u32, Option.bind (f ''stop_reason'') stop_of_json,
            opt_field as_str (f ''stop_veto'')) of
        (Some t, Some n, Some s, Some v) \<Rightarrow> Some (TurnEnd t n s v)
      | _ \<Rightarrow> None)"

definition parse_fields :: "string \<Rightarrow> (string \<rightharpoonup> json) \<Rightarrow> known_event option" where
  "parse_fields t f =
     (if t = ''session/start'' then session_start_of f
      else if t = ''turn/start'' then map_option TurnStart (Option.bind (f ''turn'') as_u64)
      else if t = ''step/start'' then map_option (\<lambda>(t, s). StepStart t s) (turn_step f)
      else if t = ''user/message'' then map_option UserMessage (str_field (f ''content''))
      else if t = ''assistant/chunk'' then
        (case (chunk_of f, turn_step f) of (Some c, Some (t, s)) \<Rightarrow> Some (AssistantChunk c t s) | _ \<Rightarrow> None)
      else if t = ''assistant/message'' then assistant_message_of f
      else if t = ''tool/call'' then
        (case (str_field (f ''id''), str_field (f ''name''), f ''arguments'') of
           (Some i, Some n, Some a) \<Rightarrow> Some (ToolCall i n a) | _ \<Rightarrow> None)
      else if t = ''tool/result'' then tool_result_of f
      else if t = ''step/end'' then map_option (\<lambda>(t, s). StepEnd t s) (turn_step f)
      else if t = ''turn/end'' then turn_end_of f
      else None)"

text \<open>\<^verbatim>\<open>SessionEvent::parse\<close>: the payload must be an object, whose own \<^verbatim>\<open>type\<close> the event's replaces.\<close>

definition parse_event :: "session_event \<Rightarrow> known_event option" where
  "parse_event e =
     (case data e of JObj m \<Rightarrow> parse_fields (ty e) ((map_of m)(''type'' \<mapsto> JStr (ty e))) | _ \<Rightarrow> None)"

section \<open>Filters\<close>

datatype role = SessionR | Control | UserR | AssistantR | ToolR | OtherR string

definition role_of :: "string \<Rightarrow> role" where
  "role_of t =
     (let domain = takeWhile (\<lambda>c. c \<noteq> CHR ''/'') t
      in if domain = ''session'' then SessionR
         else if domain = ''turn'' \<or> domain = ''step'' then Control
         else if domain = ''user'' then UserR
         else if domain = ''assistant'' then AssistantR
         else if domain = ''tool'' \<or> domain = ''tools'' then ToolR
         else OtherR domain)"

record bound =
  lo :: "nat option"
  hi :: "nat option"

definition bound_has :: "bound \<Rightarrow> nat \<Rightarrow> bool" where
  "bound_has b v \<longleftrightarrow> (case lo b of None \<Rightarrow> True | Some m \<Rightarrow> m \<le> v) \<and> (case hi b of None \<Rightarrow> True | Some m \<Rightarrow> v \<le> m)"

definition inverted :: "bound \<Rightarrow> bool" where
  "inverted b = (case (lo b, hi b) of (Some m, Some n) \<Rightarrow> n < m | _ \<Rightarrow> False)"

record event_filter =
  f_types :: "string list option"
  f_roles :: "role list option"
  f_tools :: "string list option"
  f_turns :: "bound option"
  f_steps :: "bound option"
  f_time :: "bound option"
  f_seq :: "bound option"
  f_ok :: "bool option"
  f_text :: "string option"

datatype query_error = InvalidFilter string | InvalidWindow string

definition validate_filter :: "event_filter \<Rightarrow> query_error option" where
  "validate_filter f =
     (case List.find (\<lambda>(b, field). case b of None \<Rightarrow> False | Some b \<Rightarrow> inverted b)
         [(f_turns f, ''turns''), (f_steps f, ''steps''), (f_time f, ''time''), (f_seq f, ''seq'')] of
        Some (_, field) \<Rightarrow> Some (InvalidFilter (''`'' @ field @ ''` has a minimum above its maximum, so it can never match''))
      | None \<Rightarrow> None)"

section \<open>Placing the events\<close>

record located =
  l_event :: session_event
  l_turn :: "nat option"
  l_step :: "nat option"
  l_role :: role
  l_tool :: "string option"
  l_ok :: "bool option"
  l_text :: "string option"
  l_search :: "string option"

definition tool_of :: "known_event option \<Rightarrow> string option \<times> bool option" where
  "tool_of k =
     (case k of
        Some (ToolCall _ n _) \<Rightarrow> (Some n, None)
      | Some (ToolResult _ n ok _) \<Rightarrow> (Some n, Some ok)
      | _ \<Rightarrow> (None, None))"

definition text_of :: "(json \<Rightarrow> string) \<Rightarrow> known_event option \<Rightarrow> string option" where
  "text_of show_json k =
     (case k of
        Some (UserMessage c) \<Rightarrow> Some c
      | Some (AssistantMessage c _ _ _ _) \<Rightarrow> Some c
      | Some (ToolResult _ _ _ c) \<Rightarrow> Some c
      | Some (ToolCall _ n a) \<Rightarrow> Some (n @ '' '' @ show_json a)
      | _ \<Rightarrow> None)"

text \<open>Where an event stands, from where the one before left off, and where it leaves off itself.\<close>

type_synonym place = "nat option \<times> nat option"

definition enter :: "known_event option \<Rightarrow> place \<Rightarrow> place" where
  "enter k p =
     (case k of
        Some (TurnStart n) \<Rightarrow> (Some n, None)
      | Some (StepStart t s) \<Rightarrow> (Some t, Some s)
      | Some (StepEnd t s) \<Rightarrow> (Some t, Some s)
      | Some (TurnEnd t _ _ _) \<Rightarrow> (Some t, snd p)
      | Some (AssistantChunk _ t s) \<Rightarrow> (Some t, Some s)
      | _ \<Rightarrow> p)"

definition leave :: "known_event option \<Rightarrow> place \<Rightarrow> place" where
  "leave k p =
     (case k of
        Some (StepEnd _ _) \<Rightarrow> (fst p, None)
      | Some (TurnEnd _ _ _ _) \<Rightarrow> (None, None)
      | _ \<Rightarrow> p)"

definition located_at :: "(string \<Rightarrow> string) \<Rightarrow> (json \<Rightarrow> string) \<Rightarrow> place \<Rightarrow> session_event \<Rightarrow> located" where
  "located_at lower show_json p e =
     (let k = parse_event e; text = text_of show_json k
      in \<lparr>l_event = e, l_turn = fst p, l_step = snd p, l_role = role_of (ty e), l_tool = fst (tool_of k),
          l_ok = snd (tool_of k), l_text = text, l_search = map_option lower text\<rparr>)"

fun locate_from :: "(string \<Rightarrow> string) \<Rightarrow> (json \<Rightarrow> string) \<Rightarrow> place \<Rightarrow> session_event list \<Rightarrow> located list" where
  "locate_from lower show_json p [] = []"
| "locate_from lower show_json p (e # es) =
     (let q = enter (parse_event e) p
      in located_at lower show_json q e # locate_from lower show_json (leave (parse_event e) q) es)"

definition locate :: "(string \<Rightarrow> string) \<Rightarrow> (json \<Rightarrow> string) \<Rightarrow> session_event list \<Rightarrow> located list" where
  "locate lower show_json es = locate_from lower show_json (None, None) es"

record session_view =
  sv_id :: string
  sv_events :: "located list"
  sv_current :: "nat list option"

definition new_view :: "(string \<Rightarrow> string) \<Rightarrow> (json \<Rightarrow> string) \<Rightarrow> string \<Rightarrow> session_event list \<Rightarrow> session_view" where
  "new_view lower show_json i es = \<lparr>sv_id = i, sv_events = locate lower show_json es, sv_current = None\<rparr>"

definition with_surface :: "nat list \<Rightarrow> session_view \<Rightarrow> session_view" where
  "with_surface seqs v = v\<lparr>sv_current := Some seqs\<rparr>"

definition last_turn :: "session_view \<Rightarrow> nat option" where
  "last_turn v =
     (case List.map_filter l_turn (sv_events v) of [] \<Rightarrow> None | t # ts \<Rightarrow> Some (fold max ts t))"

section \<open>Selections\<close>

fun contains_str :: "string \<Rightarrow> string \<Rightarrow> bool" where
  "contains_str needle [] = (needle = [])"
| "contains_str needle (c # s) = (take (length needle) (c # s) = needle \<or> contains_str needle s)"

definition clause_lists :: "'a list option \<Rightarrow> ('a \<Rightarrow> bool) \<Rightarrow> bool" where
  "clause_lists c accepts = (case c of None \<Rightarrow> True | Some vs \<Rightarrow> list_ex accepts vs)"

definition bounded :: "bound option \<Rightarrow> nat option \<Rightarrow> bool" where
  "bounded c v = (case c of None \<Rightarrow> True | Some b \<Rightarrow> (case v of None \<Rightarrow> False | Some x \<Rightarrow> bound_has b x))"

definition named_by :: "event_filter \<Rightarrow> located \<Rightarrow> bool" where
  "named_by f l \<longleftrightarrow>
     clause_lists (f_types f) (\<lambda>w. w = ty (l_event l)) \<and> clause_lists (f_roles f) (\<lambda>w. w = l_role l)
     \<and> clause_lists (f_tools f) (\<lambda>w. Some w = l_tool l)"

definition sits_within :: "event_filter \<Rightarrow> located \<Rightarrow> bool" where
  "sits_within f l \<longleftrightarrow>
     bounded (f_turns f) (l_turn l) \<and> bounded (f_steps f) (l_step l)
     \<and> bounded (f_time f) (Some (time (l_event l))) \<and> bounded (f_seq f) (Some (seq (l_event l)))"

definition reads_as :: "(string \<Rightarrow> string) \<Rightarrow> event_filter \<Rightarrow> located \<Rightarrow> bool" where
  "reads_as lower f l \<longleftrightarrow>
     (case f_ok f of None \<Rightarrow> True | Some b \<Rightarrow> l_ok l = Some b)
     \<and> (case f_text f of
          None \<Rightarrow> True
        | Some s \<Rightarrow> (case l_search l of None \<Rightarrow> False | Some words \<Rightarrow> contains_str (lower s) words))"

definition filter_matches :: "(string \<Rightarrow> string) \<Rightarrow> event_filter \<Rightarrow> located \<Rightarrow> bool" where
  "filter_matches lower f l \<longleftrightarrow> named_by f l \<and> sits_within f l \<and> reads_as lower f l"

definition select :: "(string \<Rightarrow> string) \<Rightarrow> event_filter \<Rightarrow> session_view \<Rightarrow> query_error + located list" where
  "select lower f v =
     (case validate_filter f of
        Some e \<Rightarrow> Inl e
      | None \<Rightarrow> Inr (filter (filter_matches lower f) (sv_events v)))"

record page =
  pg_from :: nat
  pg_limit :: nat

record page_result =
  pr_events :: "located list"
  pr_next :: nat
  pr_eof :: bool

definition MAX_PAGE_SIZE :: nat where
  "MAX_PAGE_SIZE = 500"

definition take_page :: "page \<Rightarrow> located list \<Rightarrow> page_result" where
  "take_page pg hits =
     (let limit = (if pg_limit pg = 0 then MAX_PAGE_SIZE else min (pg_limit pg) MAX_PAGE_SIZE);
          rest = filter (\<lambda>l. pg_from pg \<le> seq (l_event l)) hits;
          es = take limit rest
      in \<lparr>pr_events = es, pr_next = (if es = [] then pg_from pg else seq (l_event (last es)) + 1),
          pr_eof = length rest \<le> limit\<rparr>)"

end
