(* ===== verification/Query_Search.thy ===== *)
theory Query_Search
  imports Query_Events "HOL-Library.Word"
begin

unbundle bit_operations_syntax

text \<open>
  Reading a session journal as data, second part: searching its words
  (\<^verbatim>\<open>crates/query/src/search.rs\<close>), and reading a journal page by page
  (\<^verbatim>\<open>crates/query/src/source.rs\<close>, and the page of \<^verbatim>\<open>crates/engine/src/session.rs\<close> it reads).
\<close>

section \<open>The query and its fingerprint\<close>

datatype surface_label = Current | Shadowed | Unknown

record search_query =
  q_terms :: "string list"
  q_all :: bool
  q_filter :: "event_filter option"
  q_limit :: "nat option"

definition MAX_HITS :: nat where
  "MAX_HITS = 200"

definition SNIPPET_WIDTH :: nat where
  "SNIPPET_WIDTH = 160"

definition validate_query :: "search_query \<Rightarrow> query_error option" where
  "validate_query q =
     (if filter (\<lambda>t. trim t \<noteq> []) (q_terms q) = [] then
        Some (InvalidFilter ''a search needs at least one term with a character in it'')
      else case q_filter q of Some f \<Rightarrow> validate_filter f | None \<Rightarrow> None)"

definition usable :: "(string \<Rightarrow> string) \<Rightarrow> search_query \<Rightarrow> string list" where
  "usable lower q = filter (\<lambda>t. t \<noteq> []) (map (\<lambda>t. lower (trim t)) (q_terms q))"

definition role_word :: "Query_Events.role \<Rightarrow> string" where
  "role_word r =
     (case r of SessionR \<Rightarrow> ''session'' | Control \<Rightarrow> ''control'' | UserR \<Rightarrow> ''user'' | AssistantR \<Rightarrow> ''assistant''
      | ToolR \<Rightarrow> ''tool'' | OtherR s \<Rightarrow> s)"

definition json_of_bound :: "bound \<Rightarrow> json" where
  "json_of_bound b =
     jobj ((case lo b of None \<Rightarrow> [] | Some n \<Rightarrow> [(''min'', jnat n)]) @ (case hi b of None \<Rightarrow> [] | Some n \<Rightarrow> [(''max'', jnat n)]))"

definition some_field :: "string \<Rightarrow> ('a \<Rightarrow> json) \<Rightarrow> 'a option \<Rightarrow> (string \<times> json) list" where
  "some_field k enc v = (case v of None \<Rightarrow> [] | Some x \<Rightarrow> [(k, enc x)])"

definition json_of_strings :: "string list \<Rightarrow> json" where
  "json_of_strings ws = JArr (map JStr ws)"

definition json_of_filter :: "event_filter \<Rightarrow> json" where
  "json_of_filter f =
     jobj (some_field ''types'' json_of_strings (f_types f)
       @ some_field ''roles'' (\<lambda>rs. json_of_strings (map role_word rs)) (f_roles f)
       @ some_field ''tools'' json_of_strings (f_tools f)
       @ some_field ''turns'' json_of_bound (f_turns f) @ some_field ''steps'' json_of_bound (f_steps f)
       @ some_field ''time'' json_of_bound (f_time f) @ some_field ''seq'' json_of_bound (f_seq f)
       @ some_field ''ok'' JBool (f_ok f) @ some_field ''text'' JStr (f_text f))"

definition fnv1a :: "string \<Rightarrow> 64 word" where
  "fnv1a s = foldl (\<lambda>h c. (h XOR of_nat (of_char c)) * 0x100000001b3) 0xcbf29ce484222325 s"

definition fingerprint :: "(string \<Rightarrow> string) \<Rightarrow> (json \<Rightarrow> string) \<Rightarrow> search_query \<Rightarrow> 64 word" where
  "fingerprint lower show_json q =
     fnv1a (show_json (jobj
       [(''terms'', json_of_strings (sort (usable lower q))), (''all'', JBool (q_all q)),
        (''filter'', (case q_filter q of None \<Rightarrow> JNull | Some f \<Rightarrow> json_of_filter f))]))"

section \<open>Hits, pages and cursors\<close>

record hit =
  h_seq :: nat
  h_time :: nat
  h_ty :: string
  h_turn :: "nat option"
  h_step :: "nat option"
  h_tool :: "string option"
  h_surface :: surface_label
  h_snippet :: string
  h_matched :: "string list"

record cursor =
  after_seq :: nat
  cursor_query :: "64 word"

record search_page =
  sp_hits :: "hit list"
  sp_total :: nat
  sp_cursor :: "cursor option"

definition hex_char :: "nat \<Rightarrow> char" where
  "hex_char d = char_of (if d < 10 then 48 + d else 87 + d)"

fun show_hex :: "nat \<Rightarrow> string" where
  "show_hex n = (if n < 16 then [hex_char n] else show_hex (n div 16) @ [hex_char (n mod 16)])"

declare show_hex.simps [simp del]

definition hex_digit :: "char \<Rightarrow> nat option" where
  "hex_digit c =
     (let n = (of_char c :: nat)
      in if 48 \<le> n \<and> n \<le> 57 then Some (n - 48)
         else if 97 \<le> n \<and> n \<le> 102 then Some (n - 87)
         else if 65 \<le> n \<and> n \<le> 70 then Some (n - 55)
         else None)"

fun read_digits :: "nat \<Rightarrow> string \<Rightarrow> nat option" where
  "read_digits acc [] = Some acc"
| "read_digits acc (c # s) =
     (case hex_digit c of
        None \<Rightarrow> None
      | Some d \<Rightarrow> (if int (16 * acc + d) < 2 ^ 64 then read_digits (16 * acc + d) s else None))"

text \<open>\<^verbatim>\<open>u64::from_str_radix(_, 16)\<close>: a plus may lead, one digit at least, no overflow.\<close>

definition read_hex :: "string \<Rightarrow> nat option" where
  "read_hex s =
     (let ds = (case s of c # t \<Rightarrow> if c = CHR ''+'' then t else s | [] \<Rightarrow> s)
      in if ds = [] then None else read_digits 0 ds)"

definition encode_cursor :: "cursor \<Rightarrow> string" where
  "encode_cursor c = show_hex (unat (cursor_query c)) @ ''.'' @ show_hex (after_seq c)"

definition decode_cursor :: "string \<Rightarrow> query_error + cursor" where
  "decode_cursor token =
     (let bad = Inl (InvalidWindow ''not a cursor this crate issued'');
          query = takeWhile (\<lambda>c. c \<noteq> CHR ''.'') token
      in case dropWhile (\<lambda>c. c \<noteq> CHR ''.'') token of
           [] \<Rightarrow> bad
         | _ # after \<Rightarrow>
             (case read_hex query of
                None \<Rightarrow> bad
              | Some q \<Rightarrow>
                  (case read_hex after of
                     None \<Rightarrow> bad
                   | Some n \<Rightarrow> Inr \<lparr>after_seq = n, cursor_query = of_nat q\<rparr>)))"

definition surface_of :: "nat list option \<Rightarrow> nat \<Rightarrow> surface_label" where
  "surface_of current n = (case current of None \<Rightarrow> Unknown | Some ss \<Rightarrow> if n \<in> set ss then Current else Shadowed)"

fun find_str :: "string \<Rightarrow> string \<Rightarrow> nat option" where
  "find_str needle [] = (if needle = [] then Some 0 else None)"
| "find_str needle (c # s) =
     (if take (length needle) (c # s) = needle then Some 0 else map_option Suc (find_str needle s))"

definition ellipsis :: string where
  "ellipsis = [CHR 0xE2, CHR 0x80, CHR 0xA6]"

definition snippet :: "string \<Rightarrow> string \<Rightarrow> string list \<Rightarrow> string" where
  "snippet text lowered matched =
     (let chars = utf8_chars text; n = length chars
      in if n \<le> SNIPPET_WIDTH then text
         else let found = List.map_filter (\<lambda>t. find_str t lowered) matched;
                at = (case found of [] \<Rightarrow> 0 | i # is \<Rightarrow> char_count (take (fold min is i) lowered));
                stop = min (at - SNIPPET_WIDTH div 4 + SNIPPET_WIDTH) n;
                start = stop - SNIPPET_WIDTH
            in (if 0 < start then ellipsis else []) @ concat (take (stop - start) (drop start chars))
               @ (if stop < n then ellipsis else []))"

section \<open>The search\<close>

definition matched_terms :: "string list \<Rightarrow> located \<Rightarrow> string list" where
  "matched_terms terms l = (case l_search l of None \<Rightarrow> [] | Some words \<Rightarrow> filter (\<lambda>t. contains_str t words) terms)"

definition is_hit :: "bool \<Rightarrow> string list \<Rightarrow> located \<Rightarrow> bool" where
  "is_hit all terms l \<longleftrightarrow>
     l_text l \<noteq> None \<and> l_search l \<noteq> None
     \<and> (if all then length (matched_terms terms l) = length terms else matched_terms terms l \<noteq> [])"

definition hit_of :: "nat list option \<Rightarrow> string list \<Rightarrow> located \<Rightarrow> hit" where
  "hit_of current terms l =
     \<lparr>h_seq = seq (l_event l), h_time = time (l_event l), h_ty = ty (l_event l), h_turn = l_turn l, h_step = l_step l,
      h_tool = l_tool l, h_surface = surface_of current (seq (l_event l)),
      h_snippet = snippet (the (l_text l)) (the (l_search l)) (matched_terms terms l),
      h_matched = matched_terms terms l\<rparr>"

text \<open>The loop: how many matched, how many an earlier page carried, and the hits of this one.\<close>

fun search_loop ::
  "nat list option \<Rightarrow> bool \<Rightarrow> string list \<Rightarrow> nat \<Rightarrow> cursor option \<Rightarrow> located list \<Rightarrow> nat \<times> nat \<times> hit list \<Rightarrow> nat \<times> nat \<times> hit list"
where
  "search_loop current all terms limit after [] st = st"
| "search_loop current all terms limit after (l # ls) (counted, consumed, hits) =
     search_loop current all terms limit after ls
       (if \<not> is_hit all terms l then (counted, consumed, hits)
        else if (case after of Some c \<Rightarrow> seq (l_event l) \<le> after_seq c | None \<Rightarrow> False) then (counted + 1, consumed + 1, hits)
        else if length hits < limit then (counted + 1, consumed, hits @ [hit_of current terms l])
        else (counted + 1, consumed, hits))"

definition search ::
  "(string \<Rightarrow> string) \<Rightarrow> (json \<Rightarrow> string) \<Rightarrow> session_view \<Rightarrow> search_query \<Rightarrow> cursor option \<Rightarrow> query_error + search_page"
where
  "search lower show_json v q after =
     (case validate_query q of
        Some e \<Rightarrow> Inl e
      | None \<Rightarrow>
          (let fp = fingerprint lower show_json q
           in if (case after of Some c \<Rightarrow> cursor_query c \<noteq> fp | None \<Rightarrow> False) then
                Inl (InvalidWindow (''this cursor came from a different search; page the query that issued it, or '' @ ''start again''))
              else
                let terms = usable lower q;
                    limit = (case q_limit q of None \<Rightarrow> MAX_HITS | Some n \<Rightarrow> max 1 (min n MAX_HITS));
                    selected = (case q_filter q of Some f \<Rightarrow> filter (filter_matches lower f) (sv_events v) | None \<Rightarrow> sv_events v);
                    (counted, consumed, hits) = search_loop (sv_current v) (q_all q) terms limit after selected (0, 0, [])
                in Inr \<lparr>sp_hits = hits, sp_total = counted,
                        sp_cursor = (if counted > consumed + length hits \<and> hits \<noteq> []
                          then Some \<lparr>after_seq = h_seq (last hits), cursor_query = fp\<rparr> else None)\<rparr>))"

section \<open>Reading a journal page by page\<close>

definition MAX_PAGE :: nat where
  "MAX_PAGE = 500"

definition page_size :: "nat option \<Rightarrow> nat" where
  "page_size limit = min (case limit of Some n \<Rightarrow> if 0 < n then n else MAX_PAGE | None \<Rightarrow> MAX_PAGE) MAX_PAGE"

definition session_events :: "session_event list \<Rightarrow> nat \<Rightarrow> nat option \<Rightarrow> session_event list \<times> nat \<times> bool" where
  "session_events es from_seq limit =
     (let n = page_size limit;
          start = min from_seq (length es);
          stop = min (start + n) (length es)
      in (take (stop - start) (drop start es), stop, stop = length es))"

text \<open>
  \<^verbatim>\<open>Journal::load\<close>.  \<open>source k from_seq\<close> is what the source answers to the \<open>k\<close>-th request; the loop has
  fuel, and \<^const>\<open>None\<close> is a loop still running.
\<close>

fun load_pages ::
  "(nat \<Rightarrow> nat \<Rightarrow> 'e + session_event list \<times> nat \<times> bool) \<Rightarrow> nat \<Rightarrow> nat \<Rightarrow> nat \<Rightarrow> session_event list
   \<Rightarrow> ('e + session_event list) option"
where
  "load_pages source 0 k from_seq acc = None"
| "load_pages source (Suc n) k from_seq acc =
     (case source k from_seq of
        Inl e \<Rightarrow> Some (Inl e)
      | Inr (es, nxt, eof) \<Rightarrow>
          (if eof \<or> es = [] then Some (Inr (acc @ es)) else load_pages source n (k + 1) nxt (acc @ es)))"

definition load ::
  "(string \<Rightarrow> string) \<Rightarrow> (json \<Rightarrow> string) \<Rightarrow> (nat \<Rightarrow> nat \<Rightarrow> 'e + session_event list \<times> nat \<times> bool) \<Rightarrow> nat \<Rightarrow> string
   \<Rightarrow> ('e + session_view) option"
where
  "load lower show_json source fuel session =
     (case load_pages source fuel 0 0 [] of
        None \<Rightarrow> None
      | Some (Inl e) \<Rightarrow> Some (Inl e)
      | Some (Inr es) \<Rightarrow> Some (Inr (new_view lower show_json session es)))"

section \<open>Paging\<close>

text \<open>The items from a position on, and all pages from there, one after the other.\<close>

definition rest_from :: "('a \<Rightarrow> nat) \<Rightarrow> nat \<Rightarrow> 'a list \<Rightarrow> 'a list" where
  "rest_from key n xs = filter (\<lambda>x. n \<le> key x) xs"

definition ascending :: "('a \<Rightarrow> nat) \<Rightarrow> 'a list \<Rightarrow> bool" where
  "ascending key xs \<longleftrightarrow> sorted_wrt (<) (map key xs)"

fun collect :: "(nat \<Rightarrow> 'a list \<times> nat \<times> bool) \<Rightarrow> nat \<Rightarrow> nat \<Rightarrow> 'a list option" where
  "collect pages 0 n = None"
| "collect pages (Suc m) n =
     (case pages n of (es, nxt, eof) \<Rightarrow> if eof then Some es else map_option ((@) es) (collect pages m nxt))"

locale paged =
  fixes key :: "'a \<Rightarrow> nat"
    and pages :: "'b \<Rightarrow> nat \<Rightarrow> 'a list \<times> nat \<times> bool"
    and whole :: "'b \<Rightarrow> 'a list"
    and fine :: "'b \<Rightarrow> bool"
  assumes page_law: "fine b \<Longrightarrow> pages b n = (es, nxt, eof) \<Longrightarrow>
    \<exists>k>0. es = take k (rest_from key n (whole b)) \<and> (eof \<longleftrightarrow> length (rest_from key n (whole b)) \<le> k)
      \<and> (eof \<or> rest_from key nxt (whole b) = drop k (rest_from key n (whole b)))"
begin

lemma collect_rest:
  assumes "fine b" and "length (rest_from key n (whole b)) \<le> m"
  shows "collect (pages b) (Suc m) n = Some (rest_from key n (whole b))"
  using assms(2)
proof (induction m arbitrary: n)
  case 0
  obtain es nxt eof where p: "pages b n = (es, nxt, eof)" by (metis surj_pair)
  from page_law [OF assms(1) p] 0 show ?case by (auto simp: p)
next
  case (Suc m)
  obtain es nxt eof where p: "pages b n = (es, nxt, eof)" by (metis surj_pair)
  from page_law [OF assms(1) p] obtain k where k: "k > 0" "es = take k (rest_from key n (whole b))"
    "eof \<longleftrightarrow> length (rest_from key n (whole b)) \<le> k"
    "eof \<or> rest_from key nxt (whole b) = drop k (rest_from key n (whole b))" by blast
  show ?case
  proof (cases eof)
    case True
    with k p show ?thesis by simp
  next
    case False
    with k Suc.prems Suc.IH [of nxt] p show ?thesis by simp
  qed
qed

lemma collect_whole: "fine b \<Longrightarrow> collect (pages b) (Suc (length (whole b))) 0 = Some (whole b)"
  using collect_rest [of b 0 "length (whole b)"] by (simp add: rest_from_def)

end

lemma ascending_rest: "ascending key xs \<Longrightarrow> ascending key (rest_from key n xs)"
  by (induction xs) (auto simp: ascending_def rest_from_def)

lemma ascending_filter: "ascending key xs \<Longrightarrow> ascending key (filter P xs)"
  by (induction xs) (auto simp: ascending_def)

lemma rest_of_rest: "n \<le> m \<Longrightarrow> rest_from key m (rest_from key n xs) = rest_from key m xs"
  by (induction xs) (auto simp: rest_from_def)

lemma ascending_split: "ascending key (as @ bs) \<longleftrightarrow> ascending key as \<and> ascending key bs \<and> (\<forall>a\<in>set as. \<forall>b\<in>set bs. key a < key b)"
  by (auto simp: ascending_def sorted_wrt_append)

lemma ascending_last: "ascending key xs \<Longrightarrow> x \<in> set xs \<Longrightarrow> key x \<le> key (last xs)"
  by (induction xs rule: rev_induct) (auto simp: ascending_split less_imp_le)

lemma rest_after_take:
  assumes "ascending key xs" and "0 < k" and "k < length (rest_from key n xs)"
  shows "rest_from key (key (last (take k (rest_from key n xs))) + 1) xs = drop k (rest_from key n xs)"
proof -
  define r where "r = rest_from key n xs"
  define a where "a = last (take k r)"
  have ne: "take k r \<noteq> []" using assms(2,3) by (auto simp: r_def)
  have asc: "ascending key (take k r @ drop k r)" using ascending_rest [OF assms(1)] by (simp add: r_def)
  then have asc': "ascending key (take k r)" "\<forall>a\<in>set (take k r). \<forall>b\<in>set (drop k r). key a < key b"
    using ascending_split [THEN iffD1, OF asc] by blast+
  have "a \<in> set (take k r)" using ne by (simp add: a_def)
  then have "n \<le> key a" by (auto simp: r_def rest_from_def dest!: in_set_takeD)
  then have "rest_from key (key a + 1) xs = rest_from key (key a + 1) r"
    by (simp add: r_def rest_of_rest)
  also have "\<dots> = rest_from key (key a + 1) (take k r) @ rest_from key (key a + 1) (drop k r)"
    by (simp add: rest_from_def filter_append [symmetric] del: filter_append)
  also have "rest_from key (key a + 1) (take k r) = []"
  proof -
    have "key x \<le> key a" if "x \<in> set (take k r)" for x
      using ascending_last [OF asc'(1) that] by (simp add: a_def)
    then show ?thesis by (auto simp: rest_from_def filter_empty_conv not_less_eq_eq)
  qed
  also have "rest_from key (key a + 1) (drop k r) = drop k r"
    using asc'(2) \<open>a \<in> set (take k r)\<close> by (simp add: rest_from_def Suc_le_eq filter_id_conv)
  finally show ?thesis by (simp add: r_def a_def)
qed

lemma last_take_key: "es \<noteq> [] \<Longrightarrow> key (last es) = last (map key es)"
  by (simp add: last_map)

section \<open>The three pagers\<close>

text \<open>A selection, paged by the position after the last event of a page.\<close>

definition event_seq :: "located \<Rightarrow> nat" where
  "event_seq l = seq (l_event l)"

definition selection_pages :: "nat \<Rightarrow> located list \<Rightarrow> nat \<Rightarrow> located list \<times> nat \<times> bool" where
  "selection_pages limit hits n =
     (let r = take_page \<lparr>pg_from = n, pg_limit = limit\<rparr> hits in (pr_events r, pr_next r, pr_eof r))"

interpretation selection: paged event_seq "selection_pages limit" "\<lambda>hits. hits" "ascending event_seq" for limit
proof
  fix hits n es nxt eof
  assume asc: "ascending event_seq hits" and p: "selection_pages limit hits n = (es, nxt, eof)"
  define k where "k = (if limit = 0 then MAX_PAGE_SIZE else min limit MAX_PAGE_SIZE)"
  have pos: "0 < k" by (simp add: k_def MAX_PAGE_SIZE_def)
  have r: "es = take k (rest_from event_seq n hits)" "eof \<longleftrightarrow> length (rest_from event_seq n hits) \<le> k"
    "nxt = (if es = [] then n else event_seq (last es) + 1)"
    using p by (auto simp: selection_pages_def take_page_def Let_def rest_from_def event_seq_def k_def)
  have "eof \<or> rest_from event_seq nxt hits = drop k (rest_from event_seq n hits)"
    using rest_after_take [OF asc pos] r pos by auto
  with r pos show "\<exists>k>0. es = take k (rest_from event_seq n hits) \<and> (eof \<longleftrightarrow> length (rest_from event_seq n hits) \<le> k)
      \<and> (eof \<or> rest_from event_seq nxt hits = drop k (rest_from event_seq n hits))" by blast
qed

text \<open>The engine's page of a journal, by index.\<close>

lemma rest_contiguous: "seqs_contiguous es \<Longrightarrow> rest_from seq n es = drop n es"
proof (induction es rule: rev_induct)
  case (snoc e es)
  then show ?case by (auto simp: seqs_contiguous_snoc rest_from_def)
qed (simp add: rest_from_def)

interpretation engine_log: paged seq "\<lambda>es n. session_events es n limit" "\<lambda>es. es" seqs_contiguous for limit
proof
  fix es n out nxt eof
  assume c: "seqs_contiguous es" and p: "session_events es n limit = (out, nxt, eof)"
  define k where "k = page_size limit"
  have pos: "0 < k" by (auto simp: k_def page_size_def MAX_PAGE_def split: option.splits)
  have d: "drop (min n (length es)) es = drop n es" by (cases "n \<le> length es") auto
  have out: "out = take (min (min n (length es) + k) (length es) - min n (length es)) (drop n es)"
      "nxt = min (min n (length es) + k) (length es)" "eof \<longleftrightarrow> min (min n (length es) + k) (length es) = length es"
    using p d by (auto simp: session_events_def Let_def k_def [symmetric])
  show "\<exists>k>0. out = take k (rest_from seq n es) \<and> (eof \<longleftrightarrow> length (rest_from seq n es) \<le> k)
      \<and> (eof \<or> rest_from seq nxt es = drop k (rest_from seq n es))"
  proof (intro exI conjI)
    show "out = take k (rest_from seq n es)"
      using out(1) by (cases "n \<le> length es") (auto simp: rest_contiguous [OF c] min_def)
    show "eof \<longleftrightarrow> length (rest_from seq n es) \<le> k" using out(3) pos by (auto simp: rest_contiguous [OF c] min_def)
    show "eof \<or> rest_from seq nxt es = drop k (rest_from seq n es)"
      using out(2,3) by (auto simp: rest_contiguous [OF c] min_def add.commute)
  qed (rule pos)
qed

text \<open>A search, paged by its cursor.  The pager's position is one past the cursor's, and zero is no cursor.\<close>

definition corpus :: "(string \<Rightarrow> string) \<Rightarrow> search_query \<Rightarrow> session_view \<Rightarrow> located list" where
  "corpus lower q v =
     (case q_filter q of Some f \<Rightarrow> filter (filter_matches lower f) (sv_events v) | None \<Rightarrow> sv_events v)"

definition all_hits :: "(string \<Rightarrow> string) \<Rightarrow> search_query \<Rightarrow> session_view \<Rightarrow> hit list" where
  "all_hits lower q v =
     map (hit_of (sv_current v) (usable lower q)) (filter (is_hit (q_all q) (usable lower q)) (corpus lower q v))"

definition cursor_from :: "64 word \<Rightarrow> nat \<Rightarrow> cursor option" where
  "cursor_from fp n = (if n = 0 then None else Some \<lparr>after_seq = n - 1, cursor_query = fp\<rparr>)"

definition search_pages ::
  "(string \<Rightarrow> string) \<Rightarrow> (json \<Rightarrow> string) \<Rightarrow> search_query \<Rightarrow> session_view \<Rightarrow> nat \<Rightarrow> hit list \<times> nat \<times> bool"
where
  "search_pages lower show_json q v n =
     (case search lower show_json v q (cursor_from (fingerprint lower show_json q) n) of
        Inl e \<Rightarrow> ([], 0, True)
      | Inr p \<Rightarrow> (sp_hits p, (case sp_cursor p of None \<Rightarrow> 0 | Some c \<Rightarrow> after_seq c + 1), sp_cursor p = None))"

lemma search_loop_closed:
  assumes "length hits \<le> limit"
  shows "search_loop current all terms limit (cursor_from fp n) ls (counted, consumed, hits)
    = (counted + length (filter (is_hit all terms) ls),
       consumed + length (filter (\<lambda>l. \<not> n \<le> seq (l_event l)) (filter (is_hit all terms) ls)),
       take limit (hits @ map (hit_of current terms) (rest_from event_seq n (filter (is_hit all terms) ls))))"
  using assms
proof (induction ls arbitrary: counted consumed hits)
  case (Cons l ls)
  have c: "(case cursor_from fp n of Some c \<Rightarrow> seq (l_event l) \<le> after_seq c | None \<Rightarrow> False)
      \<longleftrightarrow> \<not> n \<le> seq (l_event l)"
    by (cases n) (auto simp: cursor_from_def)
  show ?case
  proof (cases "is_hit all terms l \<and> n \<le> seq (l_event l) \<and> length hits < limit")
    case True
    then have "length (hits @ [hit_of current terms l]) \<le> limit" by simp
    from Cons.IH [OF this] True show ?thesis by (simp add: c rest_from_def event_seq_def del: take_append)
  next
    case False
    with Cons.IH [OF Cons.prems] Cons.prems show ?thesis by (auto simp: c rest_from_def event_seq_def)
  qed
qed (simp add: rest_from_def)

definition search_limit :: "search_query \<Rightarrow> nat" where
  "search_limit q = (case q_limit q of None \<Rightarrow> MAX_HITS | Some n \<Rightarrow> max 1 (min n MAX_HITS))"

lemma search_limit_pos: "0 < search_limit q"
  by (auto simp: search_limit_def MAX_HITS_def split: option.splits)

lemma rest_hits: "rest_from h_seq n (map (hit_of cur terms) ls) = map (hit_of cur terms) (rest_from event_seq n ls)"
  by (induction ls) (auto simp: rest_from_def hit_of_def event_seq_def)

lemma search_answer:
  assumes "validate_query q = None"
  shows "search lower show_json v q (cursor_from (fingerprint lower show_json q) n)
    = Inr \<lparr>sp_hits = take (search_limit q) (rest_from h_seq n (all_hits lower q v)),
          sp_total = length (all_hits lower q v),
          sp_cursor = (if length (rest_from h_seq n (all_hits lower q v)) > search_limit q
            then Some \<lparr>after_seq = h_seq (last (take (search_limit q) (rest_from h_seq n (all_hits lower q v)))),
                       cursor_query = fingerprint lower show_json q\<rparr>
            else None)\<rparr>"
proof -
  let ?m = "filter (is_hit (q_all q) (usable lower q)) (corpus lower q v)"
  let ?r = "rest_from event_seq n ?m"
  have len: "length ?m = length (filter (\<lambda>l. \<not> n \<le> seq (l_event l)) ?m) + length ?r"
    using sum_length_filter_compl [of "\<lambda>l. n \<le> seq (l_event l)" ?m] by (simp add: rest_from_def event_seq_def)
  have fp: "\<not> (case cursor_from (fingerprint lower show_json q) n of Some c \<Rightarrow> cursor_query c \<noteq> fingerprint lower show_json q
      | None \<Rightarrow> False)"
    by (simp add: cursor_from_def)
  have more: "length ?m > length (filter (\<lambda>l. \<not> n \<le> seq (l_event l)) ?m) + length (take (search_limit q) ?r)
      \<and> take (search_limit q) ?r \<noteq> [] \<longleftrightarrow> length ?r > search_limit q"
    using len search_limit_pos [of q] by auto
  show ?thesis
    using fp more
    by (simp add: search_def assms Let_def corpus_def [symmetric] search_limit_def [symmetric] search_loop_closed
        all_hits_def rest_hits take_map)
qed

interpretation text_search: paged h_seq "search_pages lower show_json q" "all_hits lower q"
    "\<lambda>v. validate_query q = None \<and> ascending event_seq (sv_events v)" for lower show_json q
proof
  fix v n es nxt eof
  assume f: "validate_query q = None \<and> ascending event_seq (sv_events v)"
    and p: "search_pages lower show_json q v n = (es, nxt, eof)"
  let ?r = "rest_from h_seq n (all_hits lower q v)" and ?k = "search_limit q"
  have "ascending event_seq (filter (is_hit (q_all q) (usable lower q)) (corpus lower q v))"
    using f by (auto simp: corpus_def intro!: ascending_filter split: option.splits)
  then have asc: "ascending h_seq (all_hits lower q v)"
    by (simp add: ascending_def all_hits_def hit_of_def event_seq_def [abs_def] o_def)
  from p search_answer [of q lower show_json v n] f
  have r: "es = take ?k ?r" "eof \<longleftrightarrow> length ?r \<le> ?k"
    "nxt = (if length ?r > ?k then h_seq (last (take ?k ?r)) + 1 else 0)"
    by (auto simp: search_pages_def split: if_splits)
  have "eof \<or> rest_from h_seq nxt (all_hits lower q v) = drop ?k ?r"
    using rest_after_take [OF asc search_limit_pos, of q n] r by auto
  with r search_limit_pos show "\<exists>k>0. es = take k ?r \<and> (eof \<longleftrightarrow> length ?r \<le> k)
      \<and> (eof \<or> rest_from h_seq nxt (all_hits lower q v) = drop k ?r)" by blast
qed


text \<open>A selection pages the same way.\<close>

lemma selection_pages_complete:
  "ascending event_seq hits \<Longrightarrow> collect (selection_pages limit hits) (Suc (length hits)) 0 = Some hits"
  by (rule selection.collect_whole)

section \<open>Cursors read back\<close>

lemma hex_digit_char: "d < 16 \<Longrightarrow> hex_digit (hex_char d) = Some d"
  by (auto simp: hex_digit_def hex_char_def Let_def)

lemma read_digits_append:
  "read_digits acc (s @ t) = (case read_digits acc s of None \<Rightarrow> None | Some a \<Rightarrow> read_digits a t)"
  by (induction s arbitrary: acc) (auto split: option.splits)

lemma read_show_hex:
  assumes "int n < 2 ^ 64"
  shows "read_digits 0 (show_hex n) = Some n"
  using assms
proof (induction n rule: show_hex.induct)
  case (1 n)
  show ?case
  proof (cases "n < 16")
    case True
    then show ?thesis by (subst show_hex.simps) (simp add: hex_digit_char)
  next
    case False
    have "int (n div 16) < 2 ^ 64" using 1(2) by simp
    with 1(1) [OF False] have "read_digits 0 (show_hex (n div 16)) = Some (n div 16)" by simp
    with False 1(2) show ?thesis
      by (subst show_hex.simps) (simp add: read_digits_append hex_digit_char)
  qed
qed

lemma show_hex_chars: "c \<in> set (show_hex n) \<Longrightarrow> 48 \<le> (of_char c :: nat)"
proof (induction n rule: show_hex.induct)
  case (1 n)
  have d: "d < 16 \<Longrightarrow> 48 \<le> (of_char (hex_char d) :: nat)" for d by (auto simp: hex_char_def)
  show ?case
  proof (cases "n < 16")
    case True
    with 1(2) d show ?thesis by (subst (asm) show_hex.simps) simp
  next
    case False
    with 1(2) have "c \<in> set (show_hex (n div 16)) \<or> c = hex_char (n mod 16)"
      by (subst (asm) show_hex.simps) auto
    with 1(1) [OF False] d show ?thesis by auto
  qed
qed

lemma show_hex_nonempty: "show_hex n \<noteq> []"
  by (subst show_hex.simps) simp

lemma read_hex_show: "int n < 2 ^ 64 \<Longrightarrow> read_hex (show_hex n) = Some n"
  using read_show_hex [of n] show_hex_nonempty [of n] show_hex_chars [of "CHR ''+''" n]
  by (auto simp: read_hex_def Let_def split: list.splits)

text \<open>
  A cursor survives the wire: the token of any cursor the crate can issue decodes to that cursor.
\<close>

theorem cursor_round_trip:
  assumes "int (after_seq c) < 2 ^ 64"
  shows "decode_cursor (encode_cursor c) = Inr c"
proof -
  have no_dot: "\<forall>x\<in>set (show_hex n). x \<noteq> CHR ''.''" for n using show_hex_chars [of "CHR ''.''" n] by auto
  have "uint (cursor_query c) < 2 ^ LENGTH(64)" by (rule unsigned_less)
  then have "int (unat (cursor_query c)) < 2 ^ 64" by simp
  then have "read_hex (show_hex (unat (cursor_query c))) = Some (unat (cursor_query c))" by (rule read_hex_show)
  moreover have "read_hex (show_hex (after_seq c)) = Some (after_seq c)" using assms by (rule read_hex_show)
  ultimately show ?thesis
    using no_dot by (simp add: decode_cursor_def encode_cursor_def takeWhile_append2 dropWhile_append2)
qed

section \<open>Loading a journal that grows\<close>

text \<open>
  \<open>logs k\<close> is the journal when the \<open>k\<close>-th page is asked for; the source is the engine's own page.
\<close>

definition engine_source :: "(nat \<Rightarrow> session_event list) \<Rightarrow> nat option \<Rightarrow> nat \<Rightarrow> nat \<Rightarrow> query_error + session_event list \<times> nat \<times> bool" where
  [simp]: "engine_source logs limit k n = Inr (session_events (logs k) n limit)"

lemma session_events_page:
  assumes "session_events es n limit = (out, nxt, eof)" and "n \<le> length es"
  shows "take n es @ out = take nxt es \<and> nxt = min (n + page_size limit) (length es) \<and> (eof \<longleftrightarrow> nxt = length es)"
  using assms by (auto simp: session_events_def Let_def min_def take_add [symmetric])

lemma page_size_pos: "0 < page_size limit"
  by (auto simp: page_size_def MAX_PAGE_def split: option.splits)

definition growing :: "(nat \<Rightarrow> session_event list) \<Rightarrow> bool" where
  "growing logs \<longleftrightarrow> (\<forall>k. \<exists>new. logs (Suc k) = logs k @ new)"

lemma load_pages_prefix:
  assumes "growing logs" and "n \<le> length (logs k)"
    and "load_pages (engine_source logs limit) fuel k n (take n (logs k)) = Some r"
  shows "\<exists>j\<ge>k. r = Inr (logs j)"
  using assms(2,3)
proof (induction fuel arbitrary: k n)
  case (Suc fuel)
  obtain out nxt eof where p: "session_events (logs k) n limit = (out, nxt, eof)" by (metis surj_pair)
  note q = session_events_page [OF p Suc.prems(1)]
  show ?case
  proof (cases "eof \<or> out = []")
    case True
    have "nxt = length (logs k)"
    proof (rule ccontr)
      assume ne: "nxt \<noteq> length (logs k)"
      with q True have "take n (logs k) = take nxt (logs k)" by auto
      then have "length (take n (logs k)) = length (take nxt (logs k))" by simp
      with q ne Suc.prems(1) page_size_pos [of limit] show False by (auto simp: min_def split: if_splits)
    qed
    with True Suc.prems(2) p q show ?thesis by auto
  next
    case False
    obtain new where new: "logs (Suc k) = logs k @ new" using assms(1) by (auto simp: growing_def)
    have "nxt \<le> length (logs k)" using q by simp
    then have "take nxt (logs k) = take nxt (logs (Suc k))" "nxt \<le> length (logs (Suc k))" by (simp_all add: new)
    with False Suc.prems(2) p q have "load_pages (engine_source logs limit) fuel (Suc k) nxt (take nxt (logs (Suc k))) = Some r"
      by (simp add: engine_source_def [abs_def])
    from Suc.IH [OF \<open>nxt \<le> length (logs (Suc k))\<close> this] show ?thesis by (auto dest: Suc_leD)
  qed
qed simp

lemma load_pages_ends:
  assumes "\<forall>k. logs k = es" and "n \<le> length es" and "length es - n < fuel"
  shows "load_pages (engine_source logs limit) fuel k n (take n es) = Some (Inr es)"
  using assms(2,3)
proof (induction fuel arbitrary: k n)
  case (Suc fuel)
  obtain out nxt eof where p: "session_events es n limit = (out, nxt, eof)" by (metis surj_pair)
  note q = session_events_page [OF p Suc.prems(1)]
  show ?case
  proof (cases "nxt = length es")
    case True
    with p q show ?thesis by (auto simp: assms(1))
  next
    case False
    with q Suc.prems(1) page_size_pos [of limit] have "n < nxt" "nxt \<le> length es" by (auto simp: min_def split: if_splits)
    moreover from q have "take n es @ out = take nxt es" by simp
    moreover from this \<open>n < nxt\<close> \<open>nxt \<le> length es\<close> have "out \<noteq> []" by (metis append_Nil2 length_take min_absorb2 nat_neq_iff order.strict_trans1 less_imp_le)
    ultimately show ?thesis
      using Suc.IH [of nxt "Suc k"] Suc.prems p q False by (auto simp: assms(1))
  qed
qed simp

text \<open>
  Loading a journal reads the journal, even one that is still being written.  Whatever is
  appended between two pages, a load that ends has read every event of the journal as it stood when
  one of the pages was served, with nothing skipped, repeated or reordered; and on a journal that
  stands still it ends, after at most one page an event.
\<close>

theorem load_reads_journal:
  assumes "growing logs"
  shows "case load lower show_json (engine_source logs limit) fuel i of
      None \<Rightarrow> length (logs 0) < fuel \<longrightarrow> (\<exists>k. logs k \<noteq> logs 0)
    | Some (Inl e) \<Rightarrow> False
    | Some (Inr v) \<Rightarrow> \<exists>k. v = new_view lower show_json i (logs k)"
proof (cases "load_pages (engine_source logs limit) fuel 0 0 []")
  case None
  have "\<exists>k. logs k \<noteq> logs 0" if "length (logs 0) < fuel"
  proof (rule ccontr)
    assume "\<not> (\<exists>k. logs k \<noteq> logs 0)"
    with load_pages_ends [of logs "logs 0" 0 fuel limit 0] that None show False by simp
  qed
  with None show ?thesis by (simp add: load_def)
next
  case (Some r)
  with load_pages_prefix [OF assms, of 0 0 limit fuel r] obtain j where "r = Inr (logs j)" by auto
  with Some show ?thesis by (auto simp: load_def)
qed

subsection \<open>The properties at work\<close>

definition example_event :: "nat \<Rightarrow> string \<Rightarrow> (string \<times> json) list \<Rightarrow> session_event" where
  "example_event n t kvs = \<lparr>ty = t, seq = n, time = n, data = JObj kvs, source_event_seqs = None\<rparr>"

definition example_log :: "session_event list" where
  "example_log =
     [example_event 0 ''turn/start'' [(''turn'', JInt 1)],
      example_event 1 ''user/message'' [(''content'', JStr ''fix it'')],
      example_event 2 ''tool/call'' [(''arguments'', JNull), (''id'', JStr ''c''), (''name'', JStr ''sh'')],
      example_event 3 ''tool/result''
        [(''call_id'', JStr ''c''), (''content'', JStr ''it broke''), (''name'', JStr ''sh''), (''ok'', JBool False)],
      example_event 4 ''turn/end'' [(''steps'', JInt 1), (''stop_reason'', JStr ''natural''), (''turn'', JInt 1)]]"

definition example_view :: session_view where
  "example_view = new_view id (\<lambda>_. []) ''s'' example_log"

definition example_located :: "nat \<Rightarrow> string \<Rightarrow> located" where
  "example_located n w =
     \<lparr>l_event = example_event n ''user/message'' [(''content'', JStr w)], l_turn = None, l_step = None, l_role = UserR,
      l_tool = None, l_ok = None, l_text = Some w, l_search = Some w\<rparr>"

definition example_query :: search_query where
  "example_query = \<lparr>q_terms = ['' b''], q_all = True, q_filter = None, q_limit = Some 1\<rparr>"


theorem cursor_round_trip_witness:
  "encode_cursor \<lparr>after_seq = 31, cursor_query = 255\<rparr> = ''ff.1f''
     \<and> decode_cursor ''ff.1f'' = Inr \<lparr>after_seq = 31, cursor_query = 255\<rparr>"
proof -
  have e: "encode_cursor \<lparr>after_seq = 31, cursor_query = 255\<rparr> = ''ff.1f''" by code_simp
  have "int (after_seq \<lparr>after_seq = 31, cursor_query = 255\<rparr>) < 2 ^ 64" by simp
  from cursor_round_trip [OF this] e show ?thesis by simp
qed

theorem load_reads_journal_witness:
  "\<exists>v. load id (\<lambda>_. []) (engine_source (\<lambda>_. example_log) (Some 2)) 9 ''s'' = Some (Inr v) \<and> v = example_view"
proof -
  have g: "growing (\<lambda>_. example_log)" by (simp add: growing_def)
  have "length example_log < 9" by (simp add: example_log_def)
  with load_reads_journal [OF g, where limit = "Some 2" and fuel = 9 and lower = id and show_json = "\<lambda>_. []" and i = "''s''"]
  show ?thesis by (auto simp: example_view_def split: option.splits sum.splits)
qed

end
