(* ===== verification/Query_Aggregate.thy ===== *)
theory Query_Aggregate
  imports Query_Events "HOL-Library.Word"
begin

text \<open>
  Reading a session journal as data, third part: the questions asked of a whole session
  (\<^verbatim>\<open>crates/query/src/aggregate.rs\<close>), its tool calls with their results, what its turns cost, and a row
  for each turn.  Sums of tokens are 64-bit words.
\<close>

section \<open>Calls and their results\<close>

record call_record =
  cr_id :: string
  cr_name :: string
  cr_arguments :: json
  cr_turn :: "nat option"
  cr_step :: "nat option"
  cr_seq :: nat
  cr_result :: "nat option"
  cr_ok :: "bool option"
  cr_output :: "string option"

definition call_failed :: "call_record \<Rightarrow> bool" where
  "call_failed r \<longleftrightarrow> cr_ok r = Some False"

definition new_call :: "located \<Rightarrow> string \<Rightarrow> string \<Rightarrow> json \<Rightarrow> call_record" where
  "new_call l i name args =
     \<lparr>cr_id = i, cr_name = name, cr_arguments = args, cr_turn = l_turn l, cr_step = l_step l, cr_seq = seq (l_event l),
      cr_result = None, cr_ok = None, cr_output = None\<rparr>"

definition set_result :: "nat \<Rightarrow> bool \<Rightarrow> string \<Rightarrow> call_record \<Rightarrow> call_record" where
  "set_result n good content r = r\<lparr>cr_result := Some n, cr_ok := Some good, cr_output := Some content\<rparr>"

definition call_step ::
  "call_record list \<times> (string, nat) omap \<Rightarrow> located \<Rightarrow> call_record list \<times> (string, nat) omap"
where
  "call_step st l =
     (case (st, parse_event (l_event l)) of
        ((records, by_id), Some (ToolCall i name args)) \<Rightarrow>
          (records @ [new_call l i name args], om_insert i (length records) by_id)
      | ((records, by_id), Some (ToolResult i name good content)) \<Rightarrow>
          (case map_of by_id i of
             Some at \<Rightarrow>
               if at < length records then (records[at := set_result (seq (l_event l)) good content (records ! at)], by_id)
               else (records, by_id)
           | None \<Rightarrow> (records, by_id))
      | _ \<Rightarrow> st)"

definition tool_calls :: "session_view \<Rightarrow> call_record list" where
  "tool_calls v = fst (foldl call_step ([], []) (sv_events v))"

definition turns_failing :: "string \<Rightarrow> session_view \<Rightarrow> nat list" where
  "turns_failing tool v =
     remdups_adj (sort (List.map_filter cr_turn (filter (\<lambda>r. cr_name r = tool \<and> call_failed r) (tool_calls v))))"

section \<open>What turns cost\<close>

record turn_cost =
  tc_prompt :: "64 word"
  tc_completion :: "64 word"
  tc_turns :: nat
  tc_messages :: nat
  tc_unpriced :: nat

definition no_cost :: turn_cost where
  "no_cost = \<lparr>tc_prompt = 0, tc_completion = 0, tc_turns = 0, tc_messages = 0, tc_unpriced = 0\<rparr>"

definition cost_complete :: "turn_cost \<Rightarrow> bool" where
  "cost_complete c \<longleftrightarrow> tc_unpriced c = 0"

definition total_tokens :: "turn_cost \<Rightarrow> 64 word" where
  "total_tokens c = tc_prompt c + tc_completion c"

definition add_usage :: "wire_usage option \<Rightarrow> turn_cost \<Rightarrow> turn_cost" where
  "add_usage u c =
     (case u of
        Some x \<Rightarrow> c\<lparr>tc_messages := tc_messages c + 1, tc_prompt := tc_prompt c + of_nat (prompt_tokens x),
                    tc_completion := tc_completion c + of_nat (completion_tokens x)\<rparr>
      | None \<Rightarrow> c\<lparr>tc_unpriced := tc_unpriced c + 1\<rparr>)"

definition cost_step :: "bound \<Rightarrow> turn_cost \<times> nat list \<Rightarrow> located \<Rightarrow> turn_cost \<times> nat list" where
  "cost_step b st l =
     (case (st, l_turn l) of
        ((c, counted), Some t) \<Rightarrow>
          if \<not> bound_has b t then st
          else ((case parse_event (l_event l) of Some (AssistantMessage _ _ _ _ u) \<Rightarrow> add_usage u c | _ \<Rightarrow> c),
                if t \<in> set counted then counted else counted @ [t])
      | _ \<Rightarrow> st)"

definition cost :: "bound \<Rightarrow> session_view \<Rightarrow> turn_cost" where
  "cost b v = (let (c, counted) = foldl (cost_step b) (no_cost, []) (sv_events v) in c\<lparr>tc_turns := length counted\<rparr>)"

section \<open>One row a turn\<close>

record turn_row =
  tr_turn :: nat
  tr_steps :: nat
  tr_stop :: "wire_stop option"
  tr_calls :: nat
  tr_failures :: nat
  tr_cost :: turn_cost
  tr_first :: nat
  tr_last :: nat
  tr_duration :: nat

definition new_row :: "nat \<Rightarrow> located \<Rightarrow> turn_row" where
  "new_row t l =
     \<lparr>tr_turn = t, tr_steps = 0, tr_stop = None, tr_calls = 0, tr_failures = 0, tr_cost = no_cost\<lparr>tc_turns := 1\<rparr>,
      tr_first = seq (l_event l), tr_last = seq (l_event l), tr_duration = 0\<rparr>"

definition fold_row :: "turn_row \<Rightarrow> located \<Rightarrow> turn_row" where
  "fold_row r l =
     (case parse_event (l_event l) of
        Some (StepEnd _ _) \<Rightarrow> r\<lparr>tr_steps := tr_steps r + 1\<rparr>
      | Some (TurnEnd _ _ s _) \<Rightarrow> r\<lparr>tr_stop := Some s\<rparr>
      | Some (ToolCall _ _ _) \<Rightarrow> r\<lparr>tr_calls := tr_calls r + 1\<rparr>
      | Some (ToolResult _ _ good _) \<Rightarrow> if good then r else r\<lparr>tr_failures := tr_failures r + 1\<rparr>
      | Some (AssistantMessage _ _ _ _ u) \<Rightarrow> r\<lparr>tr_cost := add_usage u (tr_cost r)\<rparr>
      | _ \<Rightarrow> r)"

definition row_step :: "(nat, turn_row) omap \<Rightarrow> located \<Rightarrow> (nat, turn_row) omap" where
  "row_step m l =
     (case l_turn l of
        None \<Rightarrow> m
      | Some t \<Rightarrow>
          (let r = (case map_of m t of Some r \<Rightarrow> r | None \<Rightarrow> new_row t l)
           in om_insert t (fold_row (r\<lparr>tr_last := seq (l_event l)\<rparr>) l) m))"

definition span :: "session_view \<Rightarrow> turn_row \<Rightarrow> nat" where
  "span v r =
     (case map (\<lambda>l. time (l_event l)) (filter (\<lambda>l. l_turn l = Some (tr_turn r)) (sv_events v)) of
        [] \<Rightarrow> 0
      | t # ts \<Rightarrow> fold max ts t - fold min ts t)"

definition turn_rows :: "session_view \<Rightarrow> turn_row list" where
  "turn_rows v = map (\<lambda>(t, r). r\<lparr>tr_duration := span v r\<rparr>) (foldl row_step [] (sv_events v))"

section \<open>Pairing by id\<close>

text \<open>
  The reference: a call is answered by the results that name its id between it and the next call of
  the same id, the last of them standing.
\<close>

fun is_call :: "string \<Rightarrow> known_event option \<Rightarrow> bool" where
  "is_call i (Some (ToolCall j _ _)) = (j = i)"
| "is_call i _ = False"

fun answered :: "call_record \<Rightarrow> located list \<Rightarrow> call_record" where
  "answered r [] = r"
| "answered r (l # ls) =
     (if is_call (cr_id r) (parse_event (l_event l)) then r
      else case parse_event (l_event l) of
          Some (ToolResult j _ good content) \<Rightarrow>
            answered (if j = cr_id r then set_result (seq (l_event l)) good content r else r) ls
        | _ \<Rightarrow> answered r ls)"

fun paired_calls :: "located list \<Rightarrow> call_record list" where
  "paired_calls [] = []"
| "paired_calls (l # ls) =
     (case parse_event (l_event l) of
        Some (ToolCall i name args) \<Rightarrow> answered (new_call l i name args) ls # paired_calls ls
      | _ \<Rightarrow> paired_calls ls)"

lemma record_ids [simp]: "cr_id (new_call l i n a) = i" "cr_id (set_result k g c r) = cr_id r"
  by (simp_all add: new_call_def set_result_def)

text \<open>The map of ids points at records of those ids.\<close>

definition points :: "call_record list \<Rightarrow> (string, nat) omap \<Rightarrow> bool" where
  "points rs m \<longleftrightarrow> (\<forall>i k. map_of m i = Some k \<longrightarrow> k < length rs \<and> cr_id (rs ! k) = i)"

definition settle_calls :: "call_record list \<Rightarrow> (string, nat) omap \<Rightarrow> located list \<Rightarrow> call_record list" where
  "settle_calls rs m ls =
     map (\<lambda>k. if map_of m (cr_id (rs ! k)) = Some k then answered (rs ! k) ls else rs ! k) [0..<length rs]"

lemma settle_calls_nth [simp]:
  "length (settle_calls rs m ls) = length rs"
  "k < length rs \<Longrightarrow> settle_calls rs m ls ! k
     = (if map_of m (cr_id (rs ! k)) = Some k then answered (rs ! k) ls else rs ! k)"
  by (simp_all add: settle_calls_def)

lemma calls_closed:
  "points rs m \<Longrightarrow> fst (foldl call_step (rs, m) ls) = settle_calls rs m ls @ paired_calls ls"
proof (induction ls arbitrary: rs m)
  case Nil
  show ?case by (auto intro: nth_equalityI)
next
  case (Cons l ls)
  let ?k = "parse_event (l_event l)"
  consider (call) i name args where "?k = Some (ToolCall i name args)"
    | (result) i name good content where "?k = Some (ToolResult i name good content)"
    | (other) "\<And>i. \<not> is_call i ?k" "call_step (rs, m) l = (rs, m)" "\<And>r. answered r (l # ls) = answered r ls"
        "paired_calls (l # ls) = paired_calls ls"
    by (cases ?k; (cases "the ?k")?) (auto simp: call_step_def)
  then show ?case
  proof cases
    case call
    let ?rs = "rs @ [new_call l i name args]" and ?m = "om_insert i (length rs) m"
    have "points ?rs ?m" using Cons.prems by (fastforce simp: points_def nth_append)
    moreover have "call_step (rs, m) l = (?rs, ?m)" by (simp add: call_step_def call)
    ultimately have "fst (foldl call_step (rs, m) (l # ls)) = settle_calls ?rs ?m ls @ paired_calls ls"
      using Cons.IH by simp
    moreover have "settle_calls ?rs ?m ls = settle_calls rs m (l # ls) @ [answered (new_call l i name args) ls]"
      by (rule nth_equalityI) (auto simp: nth_append call less_Suc_eq)
    ultimately show ?thesis by (simp add: call)
  next
    case result
    show ?thesis
    proof (cases "map_of m i")
      case None
      then have "settle_calls rs m (l # ls) = settle_calls rs m ls"
        by (intro nth_equalityI) (auto simp: result)
      moreover have "call_step (rs, m) l = (rs, m)" by (simp add: call_step_def result None)
      ultimately show ?thesis using Cons.IH [OF Cons.prems] by (simp add: result)
    next
      case (Some at)
      with Cons.prems have at: "at < length rs" "cr_id (rs ! at) = i" by (auto simp: points_def)
      let ?rs = "rs[at := set_result (seq (l_event l)) good content (rs ! at)]"
      have ids: "cr_id (?rs ! k) = cr_id (rs ! k)" if "k < length rs" for k using that by (cases "k = at") auto
      have "points ?rs m" using Cons.prems ids by (auto simp: points_def)
      moreover have "call_step (rs, m) l = (?rs, m)" using at by (simp add: call_step_def result Some)
      ultimately have "fst (foldl call_step (rs, m) (l # ls)) = settle_calls ?rs m ls @ paired_calls ls"
        using Cons.IH by simp
      moreover have "settle_calls ?rs m ls = settle_calls rs m (l # ls)"
      proof (rule nth_equalityI)
        fix k
        assume "k < length (settle_calls ?rs m ls)"
        then have k: "k < length rs" by simp
        show "settle_calls ?rs m ls ! k = settle_calls rs m (l # ls) ! k"
        proof (cases "k = at")
          case True
          with Some at k show ?thesis by (simp add: result)
        next
          case False
          with Some k have "map_of m (cr_id (rs ! k)) = Some k \<Longrightarrow> i \<noteq> cr_id (rs ! k)" by auto
          with False k show ?thesis by (auto simp: result)
        qed
      qed simp
      ultimately show ?thesis by (simp add: result)
    qed
  next
    case other
    with Cons.IH [OF Cons.prems] show ?thesis by (simp add: settle_calls_def)
  qed
qed

text \<open>
  C33. Calls are paired with their results by id and not by order of arrival.  The answer has every
  call of the session once, in the order they were made, and each carries the last of the results
  that named its id before that id was used again; a result nobody called for is in none.
\<close>

theorem tool_calls_pairing:
  "tool_calls v = paired_calls (sv_events v)"
  by (simp add: tool_calls_def calls_closed points_def settle_calls_def)

section \<open>The rows and the total\<close>

definition in_range :: "bound \<Rightarrow> located \<Rightarrow> bool" where
  "in_range b l \<longleftrightarrow> (case l_turn l of None \<Rightarrow> False | Some t \<Rightarrow> bound_has b t)"

definition row_total :: "bound \<Rightarrow> (turn_row \<Rightarrow> 'a::comm_monoid_add) \<Rightarrow> (nat, turn_row) omap \<Rightarrow> 'a" where
  "row_total b g m = sum_list (map (\<lambda>(t, r). if bound_has b t then g r else 0) m)"

lemma row_total_insert:
  assumes "om_wf m"
  shows "row_total b g (om_insert t r m) + (case map_of m t of Some r0 \<Rightarrow> if bound_has b t then g r0 else 0 | None \<Rightarrow> 0)
    = row_total b g m + (if bound_has b t then g r else 0)"
  using assms
proof (induction t r m rule: om_insert.induct)
  case (2 t r a q m)
  have wf: "om_wf m" and above: "\<forall>x\<in>set m. a < fst x" using "2.prems" by (auto simp: om_wf_def)
  consider "t < a" | "t = a" | "a < t" by fastforce
  then show ?case
  proof cases
    case 1
    with above have "map_of m t = None" by (force simp: map_of_eq_None_iff)
    with 1 show ?thesis by (simp add: row_total_def algebra_simps)
  next
    case 2
    then show ?thesis by (simp add: row_total_def algebra_simps)
  next
    case 3
    with "2.IH" wf show ?thesis by (simp add: row_total_def algebra_simps)
  qed
qed (simp add: row_total_def)

text \<open>A measure of rows that each event adds to sums, over the rows, to the sum over the events.\<close>

lemma row_total_events:
  fixes g :: "turn_row \<Rightarrow> 'a::cancel_comm_monoid_add"
  assumes new: "\<And>t l. g (new_row t l) = 0" and step: "\<And>r n l. g (fold_row (r\<lparr>tr_last := n\<rparr>) l) = g r + h l"
  shows "om_wf (foldl row_step [] ls)
    \<and> row_total b g (foldl row_step [] ls) = sum_list (map h (filter (in_range b) ls))"
proof (induction ls rule: rev_induct)
  case (snoc l ls)
  let ?m = "foldl row_step [] ls"
  show ?case
  proof (cases "l_turn l")
    case None
    with snoc show ?thesis by (simp add: row_step_def in_range_def)
  next
    case (Some t)
    define r where "r = fold_row ((case map_of ?m t of Some r \<Rightarrow> r | None \<Rightarrow> new_row t l)\<lparr>tr_last := seq (l_event l)\<rparr>) l"
    have m: "row_step ?m l = om_insert t r ?m" by (simp add: row_step_def Some r_def Let_def)
    have g: "g r = (case map_of ?m t of Some r0 \<Rightarrow> g r0 | None \<Rightarrow> 0) + h l"
      by (simp add: r_def step new split: option.splits)
    from row_total_insert [of ?m b g t r] snoc g have "row_total b g (om_insert t r ?m)
        = row_total b g ?m + (if bound_has b t then h l else 0)"
      by (auto split: option.splits if_splits simp: algebra_simps)
    with snoc m Some show ?thesis by (simp add: in_range_def om_wf_insert)
  qed
qed (simp add: row_total_def)

text \<open>The same measure of the total a range of turns is summed into.\<close>

definition spent :: "(wire_usage option \<Rightarrow> 'a) \<Rightarrow> located \<Rightarrow> 'a::comm_monoid_add" where
  "spent d l = (case parse_event (l_event l) of Some (AssistantMessage _ _ _ _ u) \<Rightarrow> d u | _ \<Rightarrow> 0)"

lemma cost_step_measure:
  assumes "\<And>c u. g (add_usage u c) = g c + d u"
  shows "g (fst (cost_step b st l)) = g (fst st) + (if in_range b l then spent d l else 0)"
proof -
  obtain c counted where st: "st = (c, counted)" by fastforce
  show ?thesis
  proof (cases "l_turn l")
    case (Some t)
    then show ?thesis
      by (auto simp: st cost_step_def in_range_def spent_def assms split: option.splits known_event.splits)
  qed (simp add: st cost_step_def in_range_def)
qed

lemma cost_events:
  fixes g :: "turn_cost \<Rightarrow> 'a::comm_monoid_add"
  assumes "g no_cost = 0" and "\<And>c u. g (add_usage u c) = g c + d u"
  shows "g (fst (foldl (cost_step b) (no_cost, []) ls)) = sum_list (map (spent d) (filter (in_range b) ls))"
proof (induction ls rule: rev_induct)
  case (snoc l ls)
  then show ?case by (simp add: cost_step_measure [where d = d, OF assms(2)])
qed (simp add: assms(1))

lemma cost_step_counted:
  "snd (cost_step b st l) =
     (case l_turn l of
        None \<Rightarrow> snd st
      | Some t \<Rightarrow> if bound_has b t \<and> t \<notin> set (snd st) then snd st @ [t] else snd st)"
  by (cases st; cases "l_turn l") (simp_all add: cost_step_def)

lemma counted_turns:
  "distinct (snd (foldl (cost_step b) (no_cost, []) ls))
    \<and> set (snd (foldl (cost_step b) (no_cost, []) ls)) = {t. bound_has b t \<and> Some t \<in> l_turn ` set ls}"
proof (induction ls rule: rev_induct)
  case (snoc l ls)
  then show ?case by (cases "l_turn l") (auto simp: cost_step_counted)
qed simp

lemma fold_row_turn [simp]: "tr_turn (fold_row r l) = tr_turn r"
  by (simp add: fold_row_def split: option.splits known_event.splits)

lemma fold_row_cost: "tr_cost (fold_row r l) = (case parse_event (l_event l) of
    Some (AssistantMessage _ _ _ _ u) \<Rightarrow> add_usage u (tr_cost r) | _ \<Rightarrow> tr_cost r)"
  by (simp add: fold_row_def split: option.splits known_event.splits)

lemma om_insert_subset: "set (om_insert k v m) \<subseteq> insert (k, v) (set m)"
  by (induction k v m rule: om_insert.induct) auto

lemma row_step_some:
  assumes "l_turn l = Some t" and "\<forall>(t, r)\<in>set m. tr_turn r = t"
  shows "\<exists>r. row_step m l = om_insert t r m \<and> tr_turn r = t"
proof -
  have "tr_turn (case map_of m t of Some r \<Rightarrow> r | None \<Rightarrow> new_row t l) = t"
    using assms(2) by (auto simp: new_row_def split: option.splits dest!: map_of_SomeD)
  then show ?thesis by (auto simp: row_step_def assms(1) Let_def)
qed

lemma row_turns:
  "om_wf (foldl row_step [] ls) \<and> fst ` set (foldl row_step [] ls) = {t. Some t \<in> l_turn ` set ls}
    \<and> (\<forall>(t, r)\<in>set (foldl row_step [] ls). tr_turn r = t)"
proof (induction ls rule: rev_induct)
  case (snoc l ls)
  show ?case
  proof (cases "l_turn l")
    case None
    then have "row_step m l = m" for m by (simp add: row_step_def)
    with snoc None show ?thesis by simp
  next
    case (Some t)
    with row_step_some [of l t "foldl row_step [] ls"] snoc
    obtain r where r: "row_step (foldl row_step [] ls) l = om_insert t r (foldl row_step [] ls)" "tr_turn r = t" by blast
    with snoc Some om_insert_subset [of t r "foldl row_step [] ls"] show ?thesis by (auto simp: om_wf_insert)
  qed
qed simp

lemma rows_of_map:
  assumes "\<forall>(t, r)\<in>set m. tr_turn r = t"
  shows "sum_list (map (\<lambda>r. g (tr_cost r)) (filter (\<lambda>r. bound_has b (tr_turn r)) (map (\<lambda>(t, r). r\<lparr>tr_duration := f r\<rparr>) m)))
      = row_total b (\<lambda>r. g (tr_cost r)) m"
    and "length (filter (\<lambda>r. bound_has b (tr_turn r)) (map (\<lambda>(t, r). r\<lparr>tr_duration := f r\<rparr>) m))
      = length (filter (bound_has b) (map fst m))"
  using assms by (induction m) (auto simp: row_total_def)

lemma costs_agree:
  fixes g :: "turn_cost \<Rightarrow> 'a::cancel_comm_monoid_add"
  assumes none: "\<And>n. g (no_cost\<lparr>tc_turns := n\<rparr>) = 0" and use: "\<And>c u. g (add_usage u c) = g c + d u"
    and turns: "\<And>c n. g (c\<lparr>tc_turns := n\<rparr>) = g c"
  shows "g (cost b v) = sum_list (map (\<lambda>r. g (tr_cost r)) (filter (\<lambda>r. bound_has b (tr_turn r)) (turn_rows v)))"
proof -
  have "row_total b (\<lambda>r. g (tr_cost r)) (foldl row_step [] (sv_events v))
      = sum_list (map (spent d) (filter (in_range b) (sv_events v)))"
    by (rule row_total_events [THEN conjunct2])
      (simp_all add: new_row_def none fold_row_cost spent_def use split: option.splits known_event.splits)
  moreover have "g no_cost = 0" using none [of "tc_turns no_cost"] by simp
  then have "g (fst (foldl (cost_step b) (no_cost, []) (sv_events v)))
      = sum_list (map (spent d) (filter (in_range b) (sv_events v)))"
    by (rule cost_events) (rule use)
  moreover have "g (cost b v) = g (fst (foldl (cost_step b) (no_cost, []) (sv_events v)))"
    by (cases "foldl (cost_step b) (no_cost, []) (sv_events v)") (simp add: cost_def turns)
  ultimately show ?thesis
    using rows_of_map(1) [of "foldl row_step [] (sv_events v)" g b "span v"] row_turns [of "sv_events v"]
    by (simp add: turn_rows_def)
qed

definition rows_in :: "bound \<Rightarrow> session_view \<Rightarrow> turn_row list" where
  "rows_in b v = filter (\<lambda>r. bound_has b (tr_turn r)) (turn_rows v)"

text \<open>
  The rows add up.  For every range of turns, the total asked for over the range is the sum of the
  rows of its turns, in tokens, in priced messages and in messages whose price nobody reported, and
  it counts as many turns as there are rows; no event of the range is counted twice or left out.
\<close>

theorem turn_costs_add_up:
  "tc_prompt (cost b v) = sum_list (map (\<lambda>r. tc_prompt (tr_cost r)) (rows_in b v))
    \<and> tc_completion (cost b v) = sum_list (map (\<lambda>r. tc_completion (tr_cost r)) (rows_in b v))
    \<and> tc_messages (cost b v) = sum_list (map (\<lambda>r. tc_messages (tr_cost r)) (rows_in b v))
    \<and> tc_unpriced (cost b v) = sum_list (map (\<lambda>r. tc_unpriced (tr_cost r)) (rows_in b v))
    \<and> tc_turns (cost b v) = length (rows_in b v)"
proof (intro conjI)
  let ?m = "foldl row_step [] (sv_events v)"
  show "tc_prompt (cost b v) = sum_list (map (\<lambda>r. tc_prompt (tr_cost r)) (rows_in b v))" unfolding rows_in_def
    by (rule costs_agree [where d = "\<lambda>u. case u of Some x \<Rightarrow> of_nat (prompt_tokens x) | None \<Rightarrow> 0"])
      (auto simp: no_cost_def add_usage_def split: option.splits)
  show "tc_completion (cost b v) = sum_list (map (\<lambda>r. tc_completion (tr_cost r)) (rows_in b v))" unfolding rows_in_def
    by (rule costs_agree [where d = "\<lambda>u. case u of Some x \<Rightarrow> of_nat (completion_tokens x) | None \<Rightarrow> 0"])
      (auto simp: no_cost_def add_usage_def split: option.splits)
  show "tc_messages (cost b v) = sum_list (map (\<lambda>r. tc_messages (tr_cost r)) (rows_in b v))" unfolding rows_in_def
    by (rule costs_agree [where d = "\<lambda>u. case u of Some x \<Rightarrow> 1 | None \<Rightarrow> 0"])
      (auto simp: no_cost_def add_usage_def split: option.splits)
  show "tc_unpriced (cost b v) = sum_list (map (\<lambda>r. tc_unpriced (tr_cost r)) (rows_in b v))" unfolding rows_in_def
    by (rule costs_agree [where d = "\<lambda>u. case u of Some x \<Rightarrow> 0 | None \<Rightarrow> 1"])
      (auto simp: no_cost_def add_usage_def split: option.splits)
  have wf: "om_wf ?m" and k: "set (map fst ?m) = {t. Some t \<in> l_turn ` set (sv_events v)}"
    using row_turns [of "sv_events v"] by auto
  have "tc_turns (cost b v) = length (snd (foldl (cost_step b) (no_cost, []) (sv_events v)))"
    by (cases "foldl (cost_step b) (no_cost, []) (sv_events v)") (simp add: cost_def)
  also have "\<dots> = card {t. bound_has b t \<and> Some t \<in> l_turn ` set (sv_events v)}"
    using counted_turns [of b "sv_events v"] distinct_card by metis
  also have "\<dots> = length (filter (bound_has b) (map fst ?m))"
    using distinct_card [OF distinct_filter [OF om_wf_distinct [OF wf], of "bound_has b"]] k
    by (simp add: Collect_conj_eq Int_commute)
  also have "\<dots> = length (rows_in b v)"
    using rows_of_map(2) [of ?m b "span v"] row_turns [of "sv_events v"] by (simp add: rows_in_def turn_rows_def)
  finally show "tc_turns (cost b v) = length (rows_in b v)" .
qed

end
