(* ===== verification/Goals.thy ===== *)
theory Goals
  imports Inbox Tools Journal
begin

text \<open>
  The standing objective of a session (\<^verbatim>\<open>crates/features/src/goal.rs\<close>): a state machine whose state
  is the last readable \<^verbatim>\<open>goal/changed\<close> record of the journal, changed by compare-and-set on a
  revision.  \<open>debug\<close> is the quoted form of a string, \<open>show_json\<close> the JSON text of a value, \<open>say\<close> the
  text of a journal's refusal.
\<close>

section \<open>Goals and operations\<close>

datatype phase = Active | Paused | Blocked | Complete

fun phase_str :: "phase \<Rightarrow> string" where
  "phase_str Active = ''active''"
| "phase_str Paused = ''paused''"
| "phase_str Blocked = ''blocked''"
| "phase_str Complete = ''complete''"

fun unfinished :: "phase \<Rightarrow> bool" where
  "unfinished Active = True"
| "unfinished Paused = True"
| "unfinished Blocked = True"
| "unfinished Complete = False"

record blocker =
  bl_code :: string
  bl_message :: string

record goal =
  g_revision :: nat
  g_objective :: string
  g_phase :: phase
  g_blocker :: "blocker option"

datatype goal_op =
    Create string
  | Edit nat string
  | Pause nat
  | Resume nat
  | Block nat blocker
  | Finish nat
  | Clear nat

fun op_str :: "goal_op \<Rightarrow> string" where
  "op_str (Create _) = ''create''"
| "op_str (Edit _ _) = ''edit''"
| "op_str (Pause _) = ''pause''"
| "op_str (Resume _) = ''resume''"
| "op_str (Block _ _) = ''block''"
| "op_str (Finish _) = ''complete''"
| "op_str (Clear _) = ''clear''"

fun op_revision :: "goal_op \<Rightarrow> nat option" where
  "op_revision (Create _) = None"
| "op_revision (Edit r _) = Some r"
| "op_revision (Pause r) = Some r"
| "op_revision (Resume r) = Some r"
| "op_revision (Block r _) = Some r"
| "op_revision (Finish r) = Some r"
| "op_revision (Clear r) = Some r"

datatype goal_error =
    NoObjective
  | AlreadyGoing string phase
  | NoGoal string
  | StaleGoal nat nat
  | BadTransition string string
  | NoBlocker

primrec goal_error_text :: "(string \<Rightarrow> string) \<Rightarrow> goal_error \<Rightarrow> string" where
  "goal_error_text debug NoObjective = ''a goal needs an objective: say what finishing looks like''"
| "goal_error_text debug (AlreadyGoing obj p) =
     ''this session already has an unfinished goal ('' @ debug obj @ '', '' @ phase_str p
     @ ''). Complete or clear it before starting another, so abandoning it is on the record''"
| "goal_error_text debug (NoGoal w) = ''there is no goal to '' @ w @ '': create one first''"
| "goal_error_text debug (StaleGoal claimed current) =
     ''the goal is at revision '' @ show_nat current @ '', not '' @ show_nat claimed
     @ '': read it again and reapply the change to what is there now''"
| "goal_error_text debug (BadTransition a b) = ''a goal cannot go from '' @ a @ '' to '' @ b"
| "goal_error_text debug NoBlocker =
     ''a blocked goal needs a reason: give a short code and a sentence a person can read''"

section \<open>The JSON form\<close>

text \<open>A unit variant is its name, or an object of its name and null.\<close>

definition variant_of :: "(string \<Rightarrow> 'a option) \<Rightarrow> json \<Rightarrow> 'a option" where
  "variant_of read j =
     (case j of
        JStr w \<Rightarrow> read w
      | JObj [(w, JNull)] \<Rightarrow> read w
      | _ \<Rightarrow> None)"

definition read_phase :: "string \<Rightarrow> phase option" where
  "read_phase w =
     (if w = ''active'' then Some Active else if w = ''paused'' then Some Paused
      else if w = ''blocked'' then Some Blocked else if w = ''complete'' then Some Complete else None)"

definition json_of_blocker :: "blocker \<Rightarrow> json" where
  "json_of_blocker b = jobj [(''code'', JStr (bl_code b)), (''message'', JStr (bl_message b))]"

definition blocker_of_json :: "json \<Rightarrow> blocker option" where
  "blocker_of_json j =
     (case fields_of [''code'', ''message''] j of
        None \<Rightarrow> None
      | Some f \<Rightarrow>
          (case (str_field (f ''code''), str_field (f ''message'')) of
             (Some c, Some m) \<Rightarrow> Some \<lparr>bl_code = c, bl_message = m\<rparr>
           | _ \<Rightarrow> None))"

definition json_of_goal :: "goal \<Rightarrow> json" where
  "json_of_goal g =
     jobj ([(''revision'', jnat (g_revision g)), (''objective'', JStr (g_objective g)),
            (''phase'', JStr (phase_str (g_phase g)))]
       @ (case g_blocker g of None \<Rightarrow> [] | Some b \<Rightarrow> [(''blocker'', json_of_blocker b)]))"

definition goal_of_json :: "json \<Rightarrow> goal option" where
  "goal_of_json j =
     (case fields_of [''revision'', ''objective'', ''phase'', ''blocker''] j of
        None \<Rightarrow> None
      | Some f \<Rightarrow>
          (case (Option.bind (f ''revision'') as_u64, str_field (f ''objective''),
                 Option.bind (f ''phase'') (variant_of read_phase), opt_field blocker_of_json (f ''blocker'')) of
             (Some r, Some obj, Some p, Some b) \<Rightarrow>
               Some \<lparr>g_revision = r, g_objective = obj, g_phase = p, g_blocker = b\<rparr>
           | _ \<Rightarrow> None))"

section \<open>The fold\<close>

definition goal_step :: "goal option \<Rightarrow> session_event \<Rightarrow> goal option" where
  "goal_step g e =
     (if ty e \<noteq> ''goal/changed'' then g
      else if jidx (data e) ''operation'' = JStr ''clear'' then None
      else (case goal_of_json (jidx (data e) ''goal'') of Some r \<Rightarrow> Some r | None \<Rightarrow> g))"

definition current_goal :: "session_event list \<Rightarrow> goal option" where
  "current_goal es = foldl goal_step None es"

definition was_cleared :: "session_event list \<Rightarrow> bool" where
  "was_cleared es =
     (case find_last (\<lambda>e. ty e = ''goal/changed'') es of
        Some e \<Rightarrow> jidx (data e) ''operation'' = JStr ''clear''
      | None \<Rightarrow> False)"

section \<open>The rules\<close>

definition checked :: "string \<Rightarrow> goal_error + string" where
  "checked objective = (if trim objective = [] then Inl NoObjective else Inr (trim objective))"

text \<open>The revision is a 64-bit counter.\<close>

definition bump :: "goal \<Rightarrow> goal" where
  "bump g = g\<lparr>g_revision := nat ((int (g_revision g) + 1) mod 2 ^ 64)\<rparr>"

definition moved :: "goal \<Rightarrow> phase \<Rightarrow> phase list \<Rightarrow> goal_error + goal" where
  "moved g target permitted =
     (if g_phase g \<notin> set permitted then Inl (BadTransition (phase_str (g_phase g)) (phase_str target))
      else Inr ((bump g)\<lparr>g_phase := target, g_blocker := None\<rparr>))"

definition edited :: "goal \<Rightarrow> string \<Rightarrow> goal_error + goal" where
  "edited g objective =
     (if g_phase g = Complete then Inl (BadTransition (phase_str (g_phase g)) ''edited'')
      else case checked objective of Inl e \<Rightarrow> Inl e | Inr obj \<Rightarrow> Inr ((bump g)\<lparr>g_objective := obj\<rparr>))"

definition blocked :: "goal \<Rightarrow> blocker \<Rightarrow> goal_error + goal" where
  "blocked g b =
     (if trim (bl_code b) = [] \<or> trim (bl_message b) = [] then Inl NoBlocker
      else case moved g Blocked [Active, Paused] of
        Inl e \<Rightarrow> Inl e
      | Inr g' \<Rightarrow> Inr (g'\<lparr>g_blocker := Some \<lparr>bl_code = trim (bl_code b), bl_message = trim (bl_message b)\<rparr>\<rparr>))"

text \<open>\<open>Create\<close> is settled before the table, where the code says it cannot arrive.\<close>

fun transition :: "goal \<Rightarrow> goal_op \<Rightarrow> goal_error + goal" where
  "transition g (Create _) = Inl (NoGoal ''create'')"
| "transition g (Edit _ objective) = edited g objective"
| "transition g (Pause _) = moved g Paused [Active, Blocked]"
| "transition g (Resume _) = moved g Active [Paused, Blocked]"
| "transition g (Block _ b) = blocked g b"
| "transition g (Finish _) = moved g Complete [Active, Paused, Blocked]"
| "transition g (Clear _) = Inr (bump g)"

definition created :: "nat \<Rightarrow> string \<Rightarrow> goal_error + goal" where
  "created r objective =
     (case checked objective of
        Inl e \<Rightarrow> Inl e
      | Inr obj \<Rightarrow> Inr \<lparr>g_revision = r, g_objective = obj, g_phase = Active, g_blocker = None\<rparr>)"

definition decide_goal :: "goal option \<Rightarrow> goal_op \<Rightarrow> goal_error + goal" where
  "decide_goal existing op =
     (case (op, existing) of
        (Create objective, None) \<Rightarrow> created 1 objective
      | (Create objective, Some g) \<Rightarrow>
          (if unfinished (g_phase g) then Inl (AlreadyGoing (g_objective g) (g_phase g))
           else created (g_revision (bump g)) objective)
      | (_, None) \<Rightarrow> Inl (NoGoal (op_str op))
      | (_, Some g) \<Rightarrow>
          (case op_revision op of
             Some claimed \<Rightarrow>
               (if claimed \<noteq> g_revision g then Inl (StaleGoal claimed (g_revision g)) else transition g op)
           | None \<Rightarrow> transition g op))"

datatype commit_error = GoalRefused goal_error | GoalLog session_error

definition goal_record :: "goal_op \<Rightarrow> goal \<Rightarrow> json" where
  "goal_record op g =
     (case op of
        Clear _ \<Rightarrow> jobj [(''operation'', JStr ''clear''),
          (''cleared'', jobj [(''revision'', jnat (g_revision g)), (''objective'', JStr (g_objective g))])]
      | _ \<Rightarrow> jobj [(''operation'', JStr (op_str op)), (''goal'', json_of_goal g)])"

definition commit_goal ::
  "'l appender \<Rightarrow> ('l \<Rightarrow> session_event list) \<Rightarrow> goal_op \<Rightarrow> 'l \<Rightarrow> (commit_error + goal) \<times> 'l"
where
  "commit_goal app events op l =
     (case decide_goal (current_goal (events l)) op of
        Inl e \<Rightarrow> (Inl (GoalRefused e), l)
      | Inr g \<Rightarrow>
          (case app l ''goal/changed'' (goal_record op g) None of
             (Inl x, l1) \<Rightarrow> (Inl (GoalLog x), l1)
           | (Inr _, l1) \<Rightarrow> (Inr g, l1)))"

section \<open>The tools\<close>

definition get_goal :: "(json \<Rightarrow> string) \<Rightarrow> session_event list \<Rightarrow> tool_outcome" where
  "get_goal show_json es =
     outcome_ok (case current_goal es of
        Some g \<Rightarrow> show_json (jobj [(''goal'', json_of_goal g)])
      | None \<Rightarrow> show_json (jobj [(''goal'', JNull), (''cleared'', JBool (was_cleared es))]))"

definition read_operation :: "(string \<Rightarrow> string) \<Rightarrow> json \<Rightarrow> string + goal_op" where
  "read_operation debug args =
     (case Option.bind (jget args ''action'') as_str of
        None \<Rightarrow> Inl ''`action` must be one of create, edit, pause, resume, block, complete, clear''
      | Some action \<Rightarrow>
          (let objective = (\<lambda>k. case Option.bind (jget args ''objective'') as_str of
                 Some s \<Rightarrow> Inr (k s) | None \<Rightarrow> Inl (''`'' @ action @ ''` needs an `objective`''));
               revision = (\<lambda>k. case Option.bind (jget args ''revision'') as_u64 of
                 Some r \<Rightarrow> k r
               | None \<Rightarrow> Inl (''`'' @ action @ ''` needs the `revision` it is changing; get_goal reports it''));
               field = (\<lambda>f. case Option.bind (jget args f) as_str of Some s \<Rightarrow> s | None \<Rightarrow> [])
           in if action = ''create'' then objective Create
              else if action = ''edit'' then revision (\<lambda>r. objective (Edit r))
              else if action = ''pause'' then revision (\<lambda>r. Inr (Pause r))
              else if action = ''resume'' then revision (\<lambda>r. Inr (Resume r))
              else if action = ''complete'' then revision (\<lambda>r. Inr (Finish r))
              else if action = ''clear'' then revision (\<lambda>r. Inr (Clear r))
              else if action = ''block'' then
                revision (\<lambda>r. Inr (Block r \<lparr>bl_code = field ''blocker_code'', bl_message = field ''blocker_message''\<rparr>))
              else Inl (debug action @ '' is not an action: use create, edit, pause, resume, block, complete or clear'')))"

definition update_goal ::
  "(string \<Rightarrow> string) \<Rightarrow> (json \<Rightarrow> string) \<Rightarrow> (session_error \<Rightarrow> string)
   \<Rightarrow> 'l appender \<Rightarrow> ('l \<Rightarrow> session_event list) \<Rightarrow> json \<Rightarrow> 'l \<Rightarrow> (tool_error + tool_outcome) \<times> 'l"
where
  "update_goal debug show_json say app events args l =
     (case read_operation debug args of
        Inl why \<Rightarrow> (Inr (outcome_failed why), l)
      | Inr op \<Rightarrow>
          (case commit_goal app events op l of
             (Inr g, l1) \<Rightarrow> (Inr (outcome_ok (show_json (jobj [(''goal'', json_of_goal g)]))), l1)
           | (Inl (GoalRefused e), l1) \<Rightarrow> (Inr (outcome_failed (goal_error_text debug e)), l1)
           | (Inl (GoalLog x), l1) \<Rightarrow> (Inl (ToolFailed ''update_goal'' (say x)), l1)))"

section \<open>The JSON form reads back\<close>

lemma blocker_round_trip [simp]: "blocker_of_json (json_of_blocker b) = Some b"
  by (simp add: blocker_of_json_def json_of_blocker_def fields_of_def jobj_def map_of_fold_om_insert str_field_def)

lemma blocker_field [simp]: "opt_field blocker_of_json (Some (json_of_blocker b)) = Some (Some b)"
proof -
  obtain m where "json_of_blocker b = JObj m" by (simp add: json_of_blocker_def jobj_def)
  with blocker_round_trip [of b] show ?thesis by (simp add: opt_field_def)
qed

lemma read_phase_str [simp]: "variant_of read_phase (JStr (phase_str p)) = Some p"
  by (cases p) (simp_all add: variant_of_def read_phase_def)

lemma goal_round_trip: "g_revision g < 2 ^ 64 \<Longrightarrow> goal_of_json (json_of_goal g) = Some g"
  by (cases "g_blocker g")
    (simp_all add: goal_of_json_def json_of_goal_def fields_of_def jobj_def map_of_fold_om_insert str_field_def jnat_def,
     simp_all add: opt_field_def)

section \<open>Well-formed goals\<close>

definition wf_goal :: "goal \<Rightarrow> bool" where
  "wf_goal g \<longleftrightarrow> g_revision g < 2 ^ 64 \<and> g_objective g \<noteq> []
     \<and> (case g_blocker g of
          None \<Rightarrow> g_phase g \<noteq> Blocked
        | Some b \<Rightarrow> g_phase g = Blocked \<and> bl_code b \<noteq> [] \<and> bl_message b \<noteq> [])"

lemma checked_cases: "checked s = r \<Longrightarrow> case r of Inl e \<Rightarrow> e = NoObjective \<and> trim s = [] | Inr obj \<Rightarrow> obj = trim s \<and> obj \<noteq> []"
  by (auto simp: checked_def)

lemma bump_simps [simp]:
  "g_objective (bump g) = g_objective g" "g_phase (bump g) = g_phase g" "g_blocker (bump g) = g_blocker g"
  "g_revision (bump g) = (g_revision g + 1) mod 2 ^ 64"
  by (simp_all add: bump_def nat_mod_as_int add.commute)

lemmas rule_defs = moved_def edited_def blocked_def created_def checked_def

lemma transition_wf: "transition g op = Inr g' \<Longrightarrow> wf_goal g \<Longrightarrow> wf_goal g'"
  by (cases op) (auto simp: rule_defs wf_goal_def split: if_splits sum.splits option.splits)

lemma decide_cases:
  assumes "decide_goal existing op = Inr g"
  obtains (first) s where "op = Create s" "existing = None" "created 1 s = Inr g"
    | (again) s h where "op = Create s" "existing = Some h" "g_phase h = Complete" "created (g_revision (bump h)) s = Inr g"
    | (move) h where "existing = Some h" "op_revision op = Some (g_revision h)" "transition h op = Inr g"
proof (cases op)
  case (Create s)
  have "\<not> unfinished p \<Longrightarrow> p = Complete" for p by (cases p) auto
  with Create assms show ?thesis by (auto simp: decide_goal_def intro: first again split: option.splits if_splits)
qed (use assms in \<open>auto simp: decide_goal_def intro: move split: option.splits if_splits simp del: transition.simps\<close>)

lemma created_parts: "created r s = Inr g \<Longrightarrow> g = \<lparr>g_revision = r, g_objective = trim s, g_phase = Active, g_blocker = None\<rparr> \<and> trim s \<noteq> []"
  by (auto simp: created_def checked_def split: if_splits)

lemma decide_wf:
  assumes "decide_goal existing op = Inr g" and "\<And>h. existing = Some h \<Longrightarrow> wf_goal h"
  shows "wf_goal g"
  using assms(1) by (rule decide_cases) (use assms(2) transition_wf in \<open>auto simp: wf_goal_def dest!: created_parts\<close>)

lemma transition_revision: "transition h op = Inr g \<Longrightarrow> g_revision g = (g_revision h + 1) mod 2 ^ 64"
  by (cases op) (auto simp: rule_defs split: if_splits sum.splits)

lemma decide_revision_bound: "decide_goal existing op = Inr g \<Longrightarrow> g_revision g < 2 ^ 64"
  by (erule decide_cases) (auto dest!: created_parts dest: transition_revision)

section \<open>What a commit leaves on the journal\<close>

definition is_clear :: "goal_op \<Rightarrow> bool" where
  "is_clear op \<longleftrightarrow> op_str op = ''clear''"

lemma current_goal_snoc: "current_goal (es @ [e]) = goal_step (current_goal es) e"
  by (simp add: current_goal_def)

lemma goal_record_step:
  assumes "g_revision g < 2 ^ 64" and "ty e = ''goal/changed''" and "data e = goal_record op g"
  shows "goal_step h e = (if is_clear op then None else Some g)"
  using assms goal_round_trip [OF assms(1)]
  by (cases op) (simp_all add: goal_step_def goal_record_def is_clear_def jidx_def)

context session_log
begin

lemma commit_effect:
  assumes "commit_goal append events op l = (r, l')"
  shows "case r of
      Inr g \<Rightarrow> decide_goal (current_goal (events l)) op = Inr g
        \<and> current_goal (events l') = (if is_clear op then None else Some g)
        \<and> (\<exists>e. events l' = events l @ [e] \<and> ty e = ''goal/changed'')
    | Inl (GoalRefused e) \<Rightarrow> decide_goal (current_goal (events l)) op = Inl e \<and> l' = l
    | Inl (GoalLog x) \<Rightarrow> events l' = events l"
proof (cases "decide_goal (current_goal (events l)) op")
  case (Inr g)
  obtain r1 l1 where a: "append l ''goal/changed'' (goal_record op g) None = (r1, l1)" by fastforce
  show ?thesis
  proof (cases r1)
    case (Inl x)
    with assms a Inr show ?thesis using append_err by (auto simp: commit_goal_def)
  next
    case (Inr e)
    from append_ok [OF a [unfolded Inr]] have "events l1 = events l @ [e]" "ty e = ''goal/changed''" "data e = goal_record op g"
      by auto
    moreover have "g_revision g < 2 ^ 64"
      using decide_revision_bound \<open>decide_goal (current_goal (events l)) op = Inr g\<close> .
    ultimately show ?thesis
      using assms a Inr \<open>decide_goal (current_goal (events l)) op = Inr g\<close>
      by (auto simp: commit_goal_def current_goal_snoc goal_record_step)
  qed
qed (use assms in \<open>auto simp: commit_goal_def\<close>)

end

section \<open>The life of a goal\<close>

text \<open>The moves there are: from a phase by an operation to a phase.\<close>

fun allowed :: "phase \<Rightarrow> goal_op \<Rightarrow> phase option" where
  "allowed p (Create _) = (if p = Complete then Some Active else None)"
| "allowed p (Edit _ _) = (if p = Complete then None else Some p)"
| "allowed p (Pause _) = (if p \<in> {Active, Blocked} then Some Paused else None)"
| "allowed p (Resume _) = (if p \<in> {Paused, Blocked} then Some Active else None)"
| "allowed p (Block _ _) = (if p \<in> {Active, Paused} then Some Blocked else None)"
| "allowed p (Finish _) = (if p = Complete then None else Some Complete)"
| "allowed p (Clear _) = Some p"

fun says_enough :: "goal_op \<Rightarrow> bool" where
  "says_enough (Create s) = (trim s \<noteq> [])"
| "says_enough (Edit _ s) = (trim s \<noteq> [])"
| "says_enough (Block _ b) = (trim (bl_code b) \<noteq> [] \<and> trim (bl_message b) \<noteq> [])"
| "says_enough _ = True"


text \<open>
  What a commit answers is what the journal then says.  An accepted change is one record, and
  reading the journal back gives exactly the goal the caller was told (no goal after a clear); a
  change refused by the rules, or by the journal, leaves the goal as it was.
\<close>

theorem goal_commit:
  assumes "commit_goal (append_journal enc) j_events op l = (r, l')"
  shows "case r of
      Inr g \<Rightarrow> decide_goal (current_goal (j_events l)) op = Inr g
        \<and> current_goal (j_events l') = (if is_clear op then None else Some g)
        \<and> (\<exists>e. j_events l' = j_events l @ [e] \<and> ty e = ''goal/changed'')
    | Inl (GoalRefused e) \<Rightarrow> decide_goal (current_goal (j_events l)) op = Inl e \<and> l' = l
    | Inl (GoalLog x) \<Rightarrow> j_events l' = j_events l"
  by (rule journal_log.commit_effect [OF assms])

text \<open>A session's run: changes to the goal, and anything else it logs.\<close>

inductive goal_run :: "(session_event \<Rightarrow> string option) \<Rightarrow> journal \<Rightarrow> journal \<Rightarrow> bool" for enc where
  committed: "commit_goal (append_journal enc) j_events op l = (r, l') \<Longrightarrow> goal_run enc l l'"
| logged: "append_journal enc l t d src = (r, l') \<Longrightarrow> t \<noteq> ''goal/changed'' \<Longrightarrow> goal_run enc l l'"

lemma goal_run_wf:
  assumes "goal_run enc l l'" and "\<And>h. current_goal (j_events l) = Some h \<Longrightarrow> wf_goal h"
    and "current_goal (j_events l') = Some g"
  shows "wf_goal g"
  using assms(1)
proof cases
  case (committed op r)
  note journal_log.commit_effect [OF this]
  with assms(2,3) decide_wf show ?thesis
    by (cases r) (auto split: commit_error.splits if_splits)
next
  case (logged t d src r)
  then have "current_goal (j_events l') = current_goal (j_events l)"
    by (cases r) (auto dest!: journal_log.append_ok journal_log.append_err simp: current_goal_snoc goal_step_def)
  with assms(2,3) show ?thesis by simp
qed

text \<open>
  The goal of a session is always well formed: after any sequence of changes, accepted or
  refused, with whatever else is logged between them and whichever writes fail, the goal the journal
  holds has an objective, a revision that fits its counter, and a reason (a code and a sentence, not
  empty) exactly while it is blocked.
\<close>

theorem goal_well_formed:
  assumes "(goal_run enc)\<^sup>*\<^sup>* (empty_journal ws ts) l" and "current_goal (j_events l) = Some g"
  shows "wf_goal g"
proof -
  have "\<forall>h. current_goal (j_events l) = Some h \<longrightarrow> wf_goal h"
    using assms(1)
  proof (induction rule: rtranclp_induct)
    case base
    show ?case by (simp add: current_goal_def empty_journal_def)
  next
    case (step y z)
    then show ?case using goal_run_wf [of enc y z] by blast
  qed
  with assms(2) show ?thesis by simp
qed

subsection \<open>The properties at work\<close>

abbreviation demo_commit :: "goal_op \<Rightarrow> journal \<Rightarrow> journal" where
  "demo_commit op l \<equiv> snd (commit_goal (append_journal (\<lambda>e. Some ''x'')) j_events op l)"

abbreviation blank_journal :: journal where
  "blank_journal \<equiv> empty_journal [] []"

definition why_blocked :: blocker where
  "why_blocked = \<lparr>bl_code = ''ci'', bl_message = ''red''\<rparr>"

definition blocked_goal :: goal where
  "blocked_goal = \<lparr>g_revision = 2, g_objective = ''ship'', g_phase = Blocked, g_blocker = Some why_blocked\<rparr>"

theorem goal_commit_witness:
  "current_goal (j_events (demo_commit (Block 1 why_blocked) (demo_commit (Create '' ship'') blank_journal)))
     = Some blocked_goal"
proof -
  let ?l = "demo_commit (Create '' ship'') blank_journal"
  obtain r l' where c: "commit_goal (append_journal (\<lambda>e. Some ''x'')) j_events (Block 1 why_blocked) ?l = (r, l')"
    by fastforce
  have "fst (commit_goal (append_journal (\<lambda>e. Some ''x'')) j_events (Block 1 why_blocked) ?l) = Inr blocked_goal"
    by code_simp
  with c have r: "r = Inr blocked_goal" by simp
  from goal_commit [OF c] c show ?thesis by (simp add: r is_clear_def)
qed

theorem goal_well_formed_witness:
  "current_goal (j_events (demo_commit (Block 1 why_blocked) (demo_commit (Create '' ship'') blank_journal)))
     = Some blocked_goal \<and> wf_goal blocked_goal"
proof -
  let ?l = "demo_commit (Block 1 why_blocked) (demo_commit (Create '' ship'') blank_journal)"
  have step: "goal_run (\<lambda>e. Some ''x'') l (demo_commit op l)" for op l
    by (cases "commit_goal (append_journal (\<lambda>e. Some ''x'')) j_events op l") (auto intro: goal_run.committed)
  have "(goal_run (\<lambda>e. Some ''x''))\<^sup>*\<^sup>* blank_journal ?l"
    using step by (meson converse_rtranclp_into_rtranclp rtranclp.rtrancl_refl)
  moreover have "current_goal (j_events ?l) = Some blocked_goal" by code_simp
  ultimately show ?thesis using goal_well_formed by blast
qed

text \<open>
  The revision does not tell goals apart across a clear: it starts again at one.  A caller that read
  the first goal and names its revision edits the second, which it has never seen.
\<close>

lemma goal_revision_reused:
  "let l = demo_commit (Create ''new'') (demo_commit (Clear 1) (demo_commit (Create ''old'') blank_journal))
   in decide_goal (current_goal (j_events l)) (Edit 1 ''old, reworded'')
     = Inr \<lparr>g_revision = 2, g_objective = ''old, reworded'', g_phase = Active, g_blocker = None\<rparr>"
  by code_simp

end
