(* ===== verification/Workflow.thy ===== *)
theory Workflow
  imports Goals
begin

text \<open>
  Multi-step runs that outlive a turn (\<^verbatim>\<open>crates/turn/src/workflow.rs\<close>): every boundary a run crosses
  is a journal record, and a resume reads the journal to find the first step it has not completed.
  Whoever performs a step is the parameter \<open>runner\<close>, which may write to the log itself; \<open>stops i l\<close> is
  what the interrupt says before step \<open>i\<close>.
\<close>

section \<open>Declared sequences and outcomes\<close>

record workflow_step =
  st_name :: string
  st_detail :: string

record workflow =
  w_name :: string
  w_description :: string
  w_steps :: "workflow_step list"

datatype step_outcome = Done string | StepFailed string

datatype stop_reason = RunCompleted | RunCancelled | RunFailed

fun reason_str :: "stop_reason \<Rightarrow> string" where
  "reason_str RunCompleted = ''completed''"
| "reason_str RunCancelled = ''cancelled''"
| "reason_str RunFailed = ''failed''"

definition read_reason :: "string \<Rightarrow> stop_reason option" where
  "read_reason w =
     (if w = ''completed'' then Some RunCompleted else if w = ''cancelled'' then Some RunCancelled
      else if w = ''failed'' then Some RunFailed else None)"

record workflow_outcome =
  wo_run :: string
  wo_completed :: nat
  wo_done :: nat
  wo_reason :: stop_reason
  wo_error :: "string option"

datatype workflow_error =
    WorkflowLog session_error
  | NoSteps
  | AlreadyCompleted string
  | NotTheSameWorkflow string nat nat

section \<open>Reading the journal\<close>

definition event_field :: "session_event \<Rightarrow> string \<Rightarrow> string option" where
  "event_field e k = Option.bind (jget (data e) k) as_str"

definition step_ended :: "string \<Rightarrow> session_event \<Rightarrow> bool" where
  "step_ended rid e \<longleftrightarrow> ty e = ''workflow/step-end'' \<and> event_field e ''run_id'' = Some rid"

text \<open>\<^verbatim>\<open>index + 1\<close> on a 64-bit \<^verbatim>\<open>usize\<close>.\<close>

definition resume_step :: "string \<Rightarrow> nat \<Rightarrow> session_event \<Rightarrow> nat" where
  "resume_step rid n e =
     (if step_ended rid e \<and> jget (data e) ''ok'' = Some (JBool True)
      then max n (nat ((int (jnum (data e) ''step'') + 1) mod 2 ^ 64)) else n)"

definition resume_point :: "session_event list \<Rightarrow> string \<Rightarrow> nat" where
  "resume_point es rid = foldl (resume_step rid) 0 es"

definition run_finished :: "session_event list \<Rightarrow> string \<Rightarrow> stop_reason option" where
  "run_finished es rid =
     (case filter (\<lambda>e. ty e = ''workflow/end'' \<and> event_field e ''run_id'' = Some rid) (rev es) of
        [] \<Rightarrow> None
      | e # _ \<Rightarrow> Option.bind (jget (data e) ''stop_reason'') (variant_of read_reason))"

definition workflow_runs :: "session_event list \<Rightarrow> string list" where
  "workflow_runs es =
     List.map_filter (\<lambda>e. event_field e ''run_id'') (filter (\<lambda>e. ty e = ''workflow/start'') es)"

definition unfinished_runs :: "session_event list \<Rightarrow> string list" where
  "unfinished_runs es = filter (\<lambda>rid. run_finished es rid = None) (workflow_runs es)"

section \<open>The step loop\<close>

definition start_data :: "workflow \<Rightarrow> string \<Rightarrow> json" where
  "start_data w rid =
     jobj [(''run_id'', JStr rid), (''workflow'', JStr (w_name w)), (''description'', JStr (w_description w)),
           (''steps'', JArr (map (\<lambda>s. JStr (st_name s)) (w_steps w)))]"

definition step_start_data :: "string \<Rightarrow> nat \<Rightarrow> workflow_step \<Rightarrow> json" where
  "step_start_data rid i s =
     jobj [(''run_id'', JStr rid), (''step'', jnat i), (''name'', JStr (st_name s)), (''detail'', JStr (st_detail s))]"

definition step_end_data :: "string \<Rightarrow> nat \<Rightarrow> workflow_step \<Rightarrow> bool \<Rightarrow> string \<Rightarrow> json" where
  "step_end_data rid i s good said =
     jobj [(''run_id'', JStr rid), (''step'', jnat i), (''name'', JStr (st_name s)), (''ok'', JBool good),
           (''output'', JStr said)]"

definition end_data :: "workflow \<Rightarrow> string \<Rightarrow> stop_reason \<Rightarrow> nat \<Rightarrow> string option \<Rightarrow> json" where
  "end_data w rid reason n err =
     jobj [(''run_id'', JStr rid), (''workflow'', JStr (w_name w)), (''stop_reason'', JStr (reason_str reason)),
           (''steps_done'', jnat n), (''error'', (case err of None \<Rightarrow> JNull | Some m \<Rightarrow> JStr m))]"

text \<open>
  The loop over the declared steps from \<open>i\<close> on.  It answers with how many it completed, how far the
  run has got, why it stopped and what a failing step said, or with the journal's refusal.
\<close>

type_synonym 'l runner = "string \<Rightarrow> nat \<Rightarrow> workflow_step \<Rightarrow> 'l \<Rightarrow> step_outcome \<times> 'l"

fun drive_steps ::
  "'l appender \<Rightarrow> (nat \<Rightarrow> 'l \<Rightarrow> bool) \<Rightarrow> 'l runner \<Rightarrow> string \<Rightarrow> workflow_step list \<Rightarrow> nat \<Rightarrow> nat \<Rightarrow> 'l
   \<Rightarrow> (session_error + nat \<times> nat \<times> stop_reason \<times> string option) \<times> 'l"
where
  "drive_steps app stops runner rid [] i n l = (Inr (n, i, RunCompleted, None), l)"
| "drive_steps app stops runner rid (s # ss) i n l =
     (if stops i l then (Inr (n, i, RunCancelled, None), l)
      else case app l ''workflow/step-start'' (step_start_data rid i s) None of
          (Inl x, l1) \<Rightarrow> (Inl x, l1)
        | (Inr _, l1) \<Rightarrow>
            (case runner rid i s l1 of (out, l2) \<Rightarrow>
              (case (case out of Done m \<Rightarrow> (True, m) | StepFailed m \<Rightarrow> (False, m)) of (good, said) \<Rightarrow>
                (case app l2 ''workflow/step-end'' (step_end_data rid i s good said) None of
                   (Inl x, l3) \<Rightarrow> (Inl x, l3)
                 | (Inr _, l3) \<Rightarrow>
                     if \<not> good then (Inr (n, i, RunFailed, Some said), l3)
                     else drive_steps app stops runner rid ss (i + 1) (n + 1) l3))))"

definition drive ::
  "'l appender \<Rightarrow> (nat \<Rightarrow> 'l \<Rightarrow> bool) \<Rightarrow> workflow \<Rightarrow> 'l runner \<Rightarrow> string \<Rightarrow> nat \<Rightarrow> 'l
   \<Rightarrow> (workflow_error + workflow_outcome) \<times> 'l"
where
  "drive app stops w runner rid start l =
     (case drive_steps app stops runner rid (drop start (w_steps w)) start 0 l of
        (Inl x, l1) \<Rightarrow> (Inl (WorkflowLog x), l1)
      | (Inr (n, i, reason, err), l1) \<Rightarrow>
          (case app l1 ''workflow/end'' (end_data w rid reason i err) None of
             (Inl x, l2) \<Rightarrow> (Inl (WorkflowLog x), l2)
           | (Inr _, l2) \<Rightarrow>
               (Inr \<lparr>wo_run = rid, wo_completed = n, wo_done = i, wo_reason = reason, wo_error = err\<rparr>, l2)))"

definition run_workflow ::
  "'l appender \<Rightarrow> (nat \<Rightarrow> 'l \<Rightarrow> bool) \<Rightarrow> workflow \<Rightarrow> 'l runner \<Rightarrow> string \<Rightarrow> 'l
   \<Rightarrow> (workflow_error + workflow_outcome) \<times> 'l"
where
  "run_workflow app stops w runner rid l =
     (if w_steps w = [] then (Inl NoSteps, l)
      else case app l ''workflow/start'' (start_data w rid) None of
          (Inl x, l1) \<Rightarrow> (Inl (WorkflowLog x), l1)
        | (Inr _, l1) \<Rightarrow> drive app stops w runner rid 0 l1)"

definition resume_workflow ::
  "'l appender \<Rightarrow> ('l \<Rightarrow> session_event list) \<Rightarrow> (nat \<Rightarrow> 'l \<Rightarrow> bool) \<Rightarrow> workflow \<Rightarrow> 'l runner \<Rightarrow> string \<Rightarrow> 'l
   \<Rightarrow> (workflow_error + workflow_outcome) \<times> 'l"
where
  "resume_workflow app events stops w runner rid l =
     (if w_steps w = [] then (Inl NoSteps, l)
      else if run_finished (events l) rid = Some RunCompleted then (Inl (AlreadyCompleted rid), l)
      else (let start = resume_point (events l) rid
        in if start > length (w_steps w) then (Inl (NotTheSameWorkflow rid start (length (w_steps w))), l)
           else drive app stops w runner rid start l))"

section \<open>What a run has completed\<close>

definition completes :: "string \<Rightarrow> session_event \<Rightarrow> bool" where
  "completes rid e \<longleftrightarrow> step_ended rid e \<and> jget (data e) ''ok'' = Some (JBool True)"

text \<open>The positions of the steps the journal says the run completed, in the order it says so.\<close>

definition completions :: "string \<Rightarrow> session_event list \<Rightarrow> nat list" where
  "completions rid es = map (\<lambda>e. jnum (data e) ''step'') (filter (completes rid) es)"

lemma completions_simps [simp]:
  "completions rid [] = []"
  "completions rid (e # es) = (if completes rid e then jnum (data e) ''step'' # completions rid es else completions rid es)"
  "completions rid (es @ fs) = completions rid es @ completions rid fs"
  by (simp_all add: completions_def)

lemma completes_other [simp]: "ty e \<noteq> ''workflow/step-end'' \<Longrightarrow> \<not> completes rid e"
  by (simp add: completes_def step_ended_def)

lemma completes_step_end:
  assumes "ty e = ''workflow/step-end''" "data e = step_end_data rid i s good said"
  shows "completes rid e \<longleftrightarrow> good" and "i < 2 ^ 64 \<Longrightarrow> jnum (data e) ''step'' = i"
  using assms
  by (simp_all add: completes_def step_ended_def event_field_def step_end_data_def jnum_def)

lemma resume_point_completions:
  "foldl (resume_step rid) n es = foldl (\<lambda>n i. max n (nat ((int i + 1) mod 2 ^ 64))) n (completions rid es)"
  by (induction es arbitrary: n) (simp_all add: completions_def resume_step_def completes_def)

lemma resume_point_upt:
  assumes "completions rid es = [0..<m]" and "int m < 2 ^ 64"
  shows "resume_point es rid = m"
proof -
  have "foldl (\<lambda>n i. max n (nat ((int i + 1) mod 2 ^ 64))) 0 [0..<m] = m"
    using assms(2) by (induction m) simp_all
  with assms(1) show ?thesis by (simp add: resume_point_def resume_point_completions)
qed

text \<open>A runner that leaves this run's boundaries to the loop, whatever else it logs.\<close>

definition minds_own :: "('l \<Rightarrow> session_event list) \<Rightarrow> string \<Rightarrow> 'l runner \<Rightarrow> bool" where
  "minds_own events rid runner \<longleftrightarrow>
     (\<forall>i s l. \<exists>new. events (snd (runner rid i s l)) = events l @ new
        \<and> completions rid new = [] \<and> (\<forall>e\<in>set new. ty e \<noteq> ''workflow/end''))"

lemma run_finished_append:
  "(\<And>e. e \<in> set new \<Longrightarrow> ty e \<noteq> ''workflow/end'') \<Longrightarrow> run_finished (es @ new) rid = run_finished es rid"
proof (induction new rule: rev_induct)
  case (snoc e new)
  then have "run_finished (es @ new) rid = run_finished es rid" and "ty e \<noteq> ''workflow/end''" by auto
  then show ?case by (simp add: run_finished_def)
qed simp

lemma drive_refused: "drive app stops w runner rid start l = (Inl x, l') \<Longrightarrow> \<exists>y. x = WorkflowLog y"
  by (auto simp: drive_def split: sum.splits prod.splits)

context session_log
begin

lemma drive_steps_effect:
  assumes "drive_steps append stops runner rid ss i n l = (r, l')" and "minds_own events rid runner"
    and "int (i + length ss) < 2 ^ 64"
  shows "\<exists>new k. events l' = events l @ new \<and> completions rid new = [i..<i + k] \<and> k \<le> length ss
      \<and> (\<forall>e\<in>set new. ty e \<noteq> ''workflow/end'')
      \<and> (\<forall>c d reason err. r = Inr (c, d, reason, err) \<longrightarrow> c = n + k \<and> d = i + k \<and> (reason = RunCompleted \<longrightarrow> k = length ss))"
  using assms(1,3)
proof (induction ss arbitrary: i n l)
  case Nil
  then show ?case by (auto intro!: exI [of _ "[]"] exI [of _ 0])
next
  case (Cons s ss)
  show ?case
  proof (cases "stops i l")
    case True
    with Cons.prems show ?thesis by (auto intro!: exI [of _ "[]"] exI [of _ 0])
  next
    case go: False
    obtain a l1 where a: "append l ''workflow/step-start'' (step_start_data rid i s) None = (a, l1)" by fastforce
    show ?thesis
    proof (cases a)
      case (Inl x)
      with go a Cons.prems append_err [of l] show ?thesis by (auto intro!: exI [of _ "[]"] exI [of _ 0])
    next
      case (Inr e1)
      note e1 = append_ok [OF a [unfolded Inr]]
      obtain out l2 where out: "runner rid i s l1 = (out, l2)" by fastforce
      obtain mid where mid: "events l2 = events l1 @ mid" "completions rid mid = []" "\<forall>e\<in>set mid. ty e \<noteq> ''workflow/end''"
        using assms(2) out unfolding minds_own_def by (metis snd_conv)
      obtain good said where gs: "(case out of Done m \<Rightarrow> (True, m) | StepFailed m \<Rightarrow> (False, m)) = (good, said)" by fastforce
      obtain b l3 where b: "append l2 ''workflow/step-end'' (step_end_data rid i s good said) None = (b, l3)" by fastforce
      have i: "i < 2 ^ 64" using Cons.prems(2) by simp
      show ?thesis
      proof (cases b)
        case (Inl x)
        with go a \<open>a = Inr e1\<close> out gs b Cons.prems mid e1 append_err [of l2]
        show ?thesis by (auto intro!: exI [of _ "[e1] @ mid"] exI [of _ 0])
      next
        case (Inr e2)
        note e2 = append_ok [OF b [unfolded Inr]]
        have c2: "completes rid e2 \<longleftrightarrow> good" "jnum (data e2) ''step'' = i" using completes_step_end [of e2] e2 i by simp_all
        have ev: "events l3 = events l @ [e1] @ mid @ [e2]" using e1 e2 mid by simp
        have c: "completions rid ([e1] @ mid @ [e2]) = (if good then [i] else [])"
          using e1 mid(2) c2 by simp
        show ?thesis
        proof (cases good)
          case False
          with go a \<open>a = Inr e1\<close> out gs b Inr Cons.prems ev c mid e1 e2
          show ?thesis by (auto intro!: exI [of _ "[e1] @ mid @ [e2]"] exI [of _ 0])
        next
          case True
          with go a \<open>a = Inr e1\<close> out gs b Inr Cons.prems(1)
          have "drive_steps append stops runner rid ss (i + 1) (n + 1) l3 = (r, l')" by simp
          from Cons.IH [OF this] Cons.prems(2) obtain new k where new: "events l' = events l3 @ new"
            "completions rid new = [i + 1..<i + 1 + k]" "k \<le> length ss" "\<forall>e\<in>set new. ty e \<noteq> ''workflow/end''"
            "\<forall>c d reason err. r = Inr (c, d, reason, err) \<longrightarrow> c = n + 1 + k \<and> d = i + 1 + k \<and> (reason = RunCompleted \<longrightarrow> k = length ss)"
            by auto
          have "completions rid (([e1] @ mid @ [e2]) @ new) = [i..<i + Suc k]"
            using e1 mid(2) c2 new(2) True by (simp add: upt_conv_Cons)
          with new ev mid(3) e1 e2 show ?thesis
            by (intro exI [of _ "([e1] @ mid @ [e2]) @ new"] exI [of _ "Suc k"]) auto
        qed
      qed
    qed
  qed
qed

lemma end_finishes:
  assumes "append l ''workflow/end'' (end_data w rid reason n err) None = (Inr e, l')"
  shows "run_finished (events l') rid = Some reason"
  using append_ok [OF assms]
  by (cases reason) (simp_all add: run_finished_def event_field_def end_data_def variant_of_def read_reason_def)

lemma drive_effect:
  assumes "drive append stops w runner rid start l = (r, l')" and "minds_own events rid runner"
    and "int (length (w_steps w)) < 2 ^ 64" and "start \<le> length (w_steps w)"
  shows "\<exists>new m. events l' = events l @ new \<and> completions rid new = [start..<m] \<and> start \<le> m \<and> m \<le> length (w_steps w)
      \<and> (\<forall>out. r = Inr out \<longrightarrow> wo_done out = m \<and> start + wo_completed out = m
          \<and> (wo_reason out = RunCompleted \<longrightarrow> m = length (w_steps w))
          \<and> run_finished (events l') rid = Some (wo_reason out))
      \<and> (\<forall>x. r = Inl x \<longrightarrow> run_finished (events l') rid = run_finished (events l) rid)"
proof -
  obtain a l1 where a: "drive_steps append stops runner rid (drop start (w_steps w)) start 0 l = (a, l1)" by fastforce
  have "int (start + length (drop start (w_steps w))) < 2 ^ 64" using assms(3,4) by simp
  from drive_steps_effect [OF a assms(2) this]
  obtain new k where new: "events l1 = events l @ new" "completions rid new = [start..<start + k]"
      "k \<le> length (drop start (w_steps w))" "\<forall>e\<in>set new. ty e \<noteq> ''workflow/end''"
    and raw: "\<forall>c d reason err. a = Inr (c, d, reason, err) \<longrightarrow> c = 0 + k \<and> d = start + k
      \<and> (reason = RunCompleted \<longrightarrow> k = length (drop start (w_steps w)))"
    by (elim exE conjE) (rule that)
  from new(3) assms(4) have fits: "start + k \<le> length (w_steps w)" by simp
  from raw assms(4) have out: "c = k \<and> d = start + k \<and> (reason = RunCompleted \<longrightarrow> start + k = length (w_steps w))"
    if "a = Inr (c, d, reason, err)" for c d reason err using that by auto
  have same: "run_finished (events l1) rid = run_finished (events l) rid"
    unfolding new(1) by (rule run_finished_append) (use new(4) in blast)
  show ?thesis
  proof (cases a)
    case (Inl x)
    with same a assms(1) new fits show ?thesis by (auto simp: drive_def intro!: exI [of _ new] exI [of _ "start + k"])
  next
    case (Inr t)
    obtain c d reason err where t: "t = (c, d, reason, err)" by (cases t)
    with out [of c d reason err] Inr have o: "c = k" "d = start + k" "reason = RunCompleted \<longrightarrow> start + k = length (w_steps w)" by auto
    obtain b l2 where b: "append l1 ''workflow/end'' (end_data w rid reason d err) None = (b, l2)" by fastforce
    show ?thesis
    proof (cases b)
      case (Inl x)
      with same a b \<open>a = Inr t\<close> t assms(1) new fits append_err [of l1] show ?thesis
        by (auto simp: drive_def intro!: exI [of _ new] exI [of _ "start + k"])
    next
      case (Inr e)
      from append_ok [OF b [unfolded Inr]] have e: "events l2 = events l1 @ [e]" "ty e = ''workflow/end''" by auto
      from a b Inr \<open>a = Inr t\<close> t assms(1)
      have "r = Inr \<lparr>wo_run = rid, wo_completed = c, wo_done = d, wo_reason = reason, wo_error = err\<rparr>" "l' = l2"
        by (auto simp: drive_def)
      with e o new fits end_finishes [OF b [unfolded Inr]] show ?thesis
        by (auto intro!: exI [of _ "new @ [e]"] exI [of _ "start + k"])
    qed
  qed
qed

lemma resume_effect:
  assumes "resume_workflow append events stops w runner rid l = (r, l')" and "minds_own events rid runner"
    and "int (length (w_steps w)) < 2 ^ 64"
  shows "case r of
      Inl NoSteps \<Rightarrow> w_steps w = [] \<and> l' = l
    | Inl (AlreadyCompleted i) \<Rightarrow> i = rid \<and> run_finished (events l) rid = Some RunCompleted \<and> l' = l
    | Inl (NotTheSameWorkflow i n k) \<Rightarrow> i = rid \<and> n = resume_point (events l) rid \<and> k = length (w_steps w) \<and> k < n \<and> l' = l
    | Inl (WorkflowLog x) \<Rightarrow>
        (\<exists>new m. events l' = events l @ new \<and> resume_point (events l) rid \<le> m \<and> m \<le> length (w_steps w)
           \<and> completions rid new = [resume_point (events l) rid..<m])
    | Inr out \<Rightarrow>
        run_finished (events l) rid \<noteq> Some RunCompleted \<and> run_finished (events l') rid = Some (wo_reason out)
        \<and> wo_done out \<le> length (w_steps w) \<and> (wo_reason out = RunCompleted \<longrightarrow> wo_done out = length (w_steps w))
        \<and> resume_point (events l) rid + wo_completed out = wo_done out
        \<and> (\<exists>new. events l' = events l @ new \<and> completions rid new = [resume_point (events l) rid..<wo_done out])"
proof (cases "w_steps w = [] \<or> run_finished (events l) rid = Some RunCompleted
    \<or> length (w_steps w) < resume_point (events l) rid")
  case True
  with assms(1) show ?thesis by (auto simp: resume_workflow_def Let_def split: if_splits)
next
  case False
  with assms(1) have d: "drive append stops w runner rid (resume_point (events l) rid) l = (r, l')"
    by (simp add: resume_workflow_def Let_def)
  from drive_effect [OF d assms(2,3)] False obtain new m where new: "events l' = events l @ new"
      "completions rid new = [resume_point (events l) rid..<m]" "resume_point (events l) rid \<le> m" "m \<le> length (w_steps w)"
    and out: "\<forall>out. r = Inr out \<longrightarrow> wo_done out = m \<and> resume_point (events l) rid + wo_completed out = m
          \<and> (wo_reason out = RunCompleted \<longrightarrow> m = length (w_steps w))
          \<and> run_finished (events l') rid = Some (wo_reason out)"
    by (meson not_le)
  show ?thesis
  proof (cases r)
    case (Inl x)
    with d obtain y where "x = WorkflowLog y" using drive_refused by metis
    with new Inl show ?thesis by auto
  next
    case (Inr res)
    with out have res: "wo_done res = m" "resume_point (events l) rid + wo_completed res = m"
        "wo_reason res = RunCompleted \<longrightarrow> m = length (w_steps w)" "run_finished (events l') rid = Some (wo_reason res)"
      by blast+
    have "\<exists>new. events l' = events l @ new \<and> completions rid new = [resume_point (events l) rid..<wo_done res]"
      using new(1,2) unfolding res(1) by blast
    with res new(4) False show ?thesis unfolding Inr by simp
  qed
qed

lemma run_effect:
  assumes "run_workflow append stops w runner rid l = (r, l')" and "minds_own events rid runner"
    and "int (length (w_steps w)) < 2 ^ 64"
  shows "\<exists>new m. events l' = events l @ new \<and> completions rid new = [0..<m] \<and> m \<le> length (w_steps w)"
proof (cases "w_steps w = []")
  case False
  obtain a l1 where a: "append l ''workflow/start'' (start_data w rid) None = (a, l1)" by fastforce
  show ?thesis
  proof (cases a)
    case (Inl x)
    with a False assms(1) append_err [of l] show ?thesis
      by (auto simp: run_workflow_def intro!: exI [of _ "[]"] exI [of _ 0])
  next
    case (Inr e)
    with a False assms(1) have d: "drive append stops w runner rid 0 l1 = (r, l')" by (simp add: run_workflow_def)
    from drive_effect [OF d assms(2,3)] obtain new m where "events l' = events l1 @ new" "completions rid new = [0..<m]"
      "m \<le> length (w_steps w)" by auto
    with append_ok [OF a [unfolded Inr]] show ?thesis by (auto intro!: exI [of _ "e # new"] exI [of _ m])
  qed
qed (use assms(1) in \<open>auto simp: run_workflow_def intro!: exI [of _ "[]"] exI [of _ 0]\<close>)

end

section \<open>A run over its whole life\<close>

text \<open>
  What can happen to the journal of a run: it begins on a journal that says nothing of it, it is
  resumed under any declaration, its process dies (reopening reads a prefix of what was written),
  and others write to the journal.  Every call may be cut short, because its log may refuse any record.
\<close>

inductive wf_history :: "(session_event \<Rightarrow> string option) \<Rightarrow> string \<Rightarrow> journal \<Rightarrow> bool" for enc rid where
  started: "completions rid (j_events l) = [] \<Longrightarrow> run_workflow (append_journal enc) stops w runner rid l = (r, l')
    \<Longrightarrow> minds_own j_events rid runner \<Longrightarrow> int (length (w_steps w)) < 2 ^ 64 \<Longrightarrow> wf_history enc rid l'"
| resumed: "wf_history enc rid l \<Longrightarrow> resume_workflow (append_journal enc) j_events stops w runner rid l = (r, l')
    \<Longrightarrow> minds_own j_events rid runner \<Longrightarrow> int (length (w_steps w)) < 2 ^ 64 \<Longrightarrow> wf_history enc rid l'"
| crashed: "wf_history enc rid l \<Longrightarrow> j_events l' = take k (j_events l) \<Longrightarrow> wf_history enc rid l'"
| written: "wf_history enc rid l \<Longrightarrow> append_journal enc l t d src = (r, l')
    \<Longrightarrow> t \<noteq> ''workflow/step-end'' \<or> Option.bind (jget d ''run_id'') as_str \<noteq> Some rid \<Longrightarrow> wf_history enc rid l'"

lemma completions_take: "completions rid es = [0..<m] \<Longrightarrow> \<exists>n\<le>m. completions rid (take k es) = [0..<n]"
proof -
  assume m: "completions rid es = [0..<m]"
  have "completions rid es = completions rid (take k es) @ completions rid (drop k es)"
    by (metis append_take_drop_id completions_simps(3))
  with m have "completions rid (take k es) = take (length (completions rid (take k es))) [0..<m]"
    by (metis append_eq_conv_conj)
  then show ?thesis by (metis add_0 linorder_le_cases order_refl take_all_iff length_upt diff_zero take_upt)
qed

lemma wf_history_prefix:
  "wf_history enc rid l \<Longrightarrow> \<exists>m. int m < 2 ^ 64 \<and> completions rid (j_events l) = [0..<m]"
proof (induction rule: wf_history.induct)
  case (started l stops w runner r l')
  from journal_log.run_effect [OF started(2-4)]
  obtain new m where "j_events l' = j_events l @ new" "completions rid new = [0..<m]" "m \<le> length (w_steps w)" by auto
  with started(1,4) show ?case by (intro exI [of _ m]) simp
next
  case (resumed l stops w runner r l')
  then obtain m where m: "int m < 2 ^ 64" "completions rid (j_events l) = [0..<m]" by auto
  then have p: "resume_point (j_events l) rid = m" by (rule resume_point_upt [rotated])
  have "\<exists>new n. j_events l' = j_events l @ new \<and> completions rid new = [m..<n] \<and> m \<le> n \<and> n \<le> max m (length (w_steps w))"
    using journal_log.resume_effect [OF resumed(2-4)]
    by (cases r) (force simp: p split: workflow_error.splits)+
  then obtain new n where "j_events l' = j_events l @ new" "completions rid new = [m..<n]" "m \<le> n"
      "n \<le> max m (length (w_steps w))"
    by blast
  with m resumed(4) have "int n < 2 ^ 64 \<and> completions rid (j_events l') = [0..<n]"
    using upt_add_eq_append [of 0 m "n - m"] by (auto simp: max_def split: if_splits)
  then show ?case by auto
next
  case (crashed l l' k)
  then obtain m where m: "int m < 2 ^ 64" "completions rid (j_events l) = [0..<m]" by auto
  from completions_take [OF m(2), of k] obtain n where "n \<le> m" "completions rid (take k (j_events l)) = [0..<n]" by auto
  with m(1) crashed(2) show ?case by (intro exI [of _ n]) simp
next
  case (written l t d src r l')
  have "completions rid (j_events l') = completions rid (j_events l)"
  proof (cases r)
    case (Inl x)
    with written(2) show ?thesis by (simp add: journal_log.append_err)
  next
    case (Inr e)
    with journal_log.append_ok [OF written(2) [unfolded Inr]] written(3) show ?thesis
      by (auto simp: completes_def step_ended_def event_field_def)
  qed
  with written(4) show ?case by simp
qed



text \<open>
  A run that was stopped, resumed and cut short is on no list of unfinished runs.  The end its
  first stop left on the journal is still the last one, so \<open>unfinished\<close> passes over it, though it is
  open and a restart would have to look for it.
\<close>

theorem cut_short_resume_unlisted:
  assumes "resume_workflow (append_journal enc) j_events stops w runner rid l = (Inl (WorkflowLog x), l')"
    and "minds_own j_events rid runner" and "int (length (w_steps w)) < 2 ^ 64"
    and "run_finished (j_events l) rid \<noteq> None"
  shows "rid \<notin> set (unfinished_runs (j_events l'))"
proof -
  have "drive (append_journal enc) stops w runner rid (resume_point (j_events l) rid) l = (Inl (WorkflowLog x), l')"
    and "resume_point (j_events l) rid \<le> length (w_steps w)"
    using assms(1) by (auto simp: resume_workflow_def Let_def split: if_splits)
  from journal_log.drive_effect [OF this(1) assms(2,3) this(2)] assms(4) show ?thesis
    by (auto simp: unfinished_runs_def)
qed

subsection \<open>The properties at work\<close>

definition demo_workflow :: workflow where
  "demo_workflow = \<lparr>w_name = ''w'', w_description = [], w_steps = [\<lparr>st_name = ''a'', st_detail = []\<rparr>, \<lparr>st_name = ''b'', st_detail = []\<rparr>]\<rparr>"

definition demo_runner :: "journal runner" where
  "demo_runner rid i s l = (Done ''ok'', l)"

lemma demo_runner_own: "minds_own j_events rid demo_runner"
  by (simp add: minds_own_def demo_runner_def)

text \<open>A run stopped before its second step, and the same run resumed onto a full disk.\<close>

definition stopped_run :: "write_outcome list \<Rightarrow> (workflow_error + workflow_outcome) \<times> journal" where
  "stopped_run ws =
     run_workflow (append_journal (\<lambda>e. Some ''x'')) (\<lambda>i l. i = 1) demo_workflow demo_runner ''r'' (empty_journal ws [])"

definition resumed_run :: "journal \<Rightarrow> (workflow_error + workflow_outcome) \<times> journal" where
  "resumed_run l =
     resume_workflow (append_journal (\<lambda>e. Some ''x'')) j_events (\<lambda>i l. False) demo_workflow demo_runner ''r'' l"


theorem cut_short_resume_unlisted_witness:
  "fst (stopped_run []) = Inr \<lparr>wo_run = ''r'', wo_completed = 1, wo_done = 1, wo_reason = RunCancelled, wo_error = None\<rparr>
     \<and> fst (resumed_run (snd (stopped_run [Written, Written, Written, Written, TornAt 0]))) = Inl (WorkflowLog Io)
     \<and> resume_point (j_events (snd (resumed_run (snd (stopped_run [Written, Written, Written, Written, TornAt 0]))))) ''r'' = 1
     \<and> ''r'' \<notin> set (unfinished_runs (j_events (snd (resumed_run (snd (stopped_run [Written, Written, Written, Written, TornAt 0]))))))"
proof -
  let ?l = "snd (stopped_run [Written, Written, Written, Written, TornAt 0])"
  have f: "fst (resumed_run ?l) = Inl (WorkflowLog Io)" by code_simp
  then have r: "resumed_run ?l = (Inl (WorkflowLog Io), snd (resumed_run ?l))" by (metis prod.collapse)
  have e: "run_finished (j_events ?l) ''r'' = Some RunCancelled" by code_simp
  have n: "int (length (w_steps demo_workflow)) < 2 ^ 64" by (simp add: demo_workflow_def)
  have a: "fst (stopped_run []) = Inr \<lparr>wo_run = ''r'', wo_completed = 1, wo_done = 1, wo_reason = RunCancelled, wo_error = None\<rparr>"
    by code_simp
  have b: "resume_point (j_events (snd (resumed_run ?l))) ''r'' = 1" by code_simp
  have "run_finished (j_events ?l) ''r'' \<noteq> None" by (simp add: e)
  from cut_short_resume_unlisted [OF r [unfolded resumed_run_def] demo_runner_own n this] a b f
  show ?thesis by (simp only: resumed_run_def simp_thms)
qed



end
