(* ===== verification/Questions.thy ===== *)
theory Questions
  imports Approval Inbox Tools
begin

text \<open>
  Putting questions to the user (\<^verbatim>\<open>crates/turn/src/questions.rs\<close>): which questions may be asked,
  what counts as an answer, and the pair of records each ask leaves in its turn.  The answerers are
  the listeners of the bus, as for an approval; \<open>race\<close> says whether the interrupt came first.
\<close>

section \<open>Questions and answers\<close>

record question_option =
  qo_label :: string
  qo_description :: "string option"

record question =
  qn_id :: string
  qn_text :: string
  qn_header :: "string option"
  qn_options :: "question_option list"
  qn_multi :: bool

definition free_text :: "question \<Rightarrow> bool" where
  "free_text q \<longleftrightarrow> qn_options q = []"

record user_answer =
  an_id :: string
  an_selected :: "string list"
  an_custom :: "string option"

definition says_something :: "user_answer \<Rightarrow> bool" where
  "says_something a \<longleftrightarrow>
     an_selected a \<noteq> [] \<or> (case an_custom a of None \<Rightarrow> False | Some w \<Rightarrow> trim w \<noteq> [])"

record ask_user =
  au_id :: string
  au_questions :: "question list"

definition ask_user_event :: event_decl where
  "ask_user_event = \<lparr>ev_key = 1, ev_topic = ''user/ask'', ev_mode = Waterfall\<rparr>"

datatype question_error = AskedOutsideTurn | Malformed string | QuestionLog session_error

fun question_error_text :: "(session_error \<Rightarrow> string) \<Rightarrow> question_error \<Rightarrow> string" where
  "question_error_text say AskedOutsideTurn =
     ''questions asked outside an open turn: the question/asked and question/answered pair ''
     @ ''must be enclosed by the turn that needs the answer, because a turn is what crash repair '' @ ''closes''"
| "question_error_text say (Malformed why) = ''the questions cannot be asked: '' @ why"
| "question_error_text say (QuestionLog x) = say x"

section \<open>The JSON forms\<close>

definition json_of_option :: "question_option \<Rightarrow> json" where
  "json_of_option q =
     jobj ((''label'', JStr (qo_label q))
       # (case qo_description q of None \<Rightarrow> [] | Some d \<Rightarrow> [(''description'', JStr d)]))"

definition option_of_json :: "json \<Rightarrow> question_option option" where
  "option_of_json j =
     (case fields_of [''label'', ''description''] j of
        None \<Rightarrow> None
      | Some f \<Rightarrow>
          (case (str_field (f ''label''), opt_field as_str (f ''description'')) of
             (Some w, Some d) \<Rightarrow> Some \<lparr>qo_label = w, qo_description = d\<rparr>
           | _ \<Rightarrow> None))"

definition json_of_question :: "question \<Rightarrow> json" where
  "json_of_question q =
     jobj ([(''id'', JStr (qn_id q)), (''question'', JStr (qn_text q))]
       @ (case qn_header q of None \<Rightarrow> [] | Some h \<Rightarrow> [(''header'', JStr h)])
       @ (if qn_options q = [] then [] else [(''options'', JArr (map json_of_option (qn_options q)))])
       @ [(''multi_select'', JBool (qn_multi q))])"

definition list_of_json :: "(json \<Rightarrow> 'a option) \<Rightarrow> json \<Rightarrow> 'a list option" where
  "list_of_json dec j =
     (case j of
        JArr xs \<Rightarrow> if list_all (\<lambda>x. dec x \<noteq> None) xs then Some (List.map_filter dec xs) else None
      | _ \<Rightarrow> None)"

definition question_of_json :: "json \<Rightarrow> question option" where
  "question_of_json j =
     (case fields_of [''id'', ''question'', ''header'', ''options'', ''multi_select''] j of
        None \<Rightarrow> None
      | Some f \<Rightarrow>
          (case (str_field (f ''id''), str_field (f ''question''), opt_field as_str (f ''header''),
                 (case f ''options'' of None \<Rightarrow> Some [] | Some v \<Rightarrow> list_of_json option_of_json v),
                 (case f ''multi_select'' of None \<Rightarrow> Some False | Some (JBool b) \<Rightarrow> Some b | _ \<Rightarrow> None)) of
             (Some i, Some w, Some h, Some opts, Some m) \<Rightarrow>
               Some \<lparr>qn_id = i, qn_text = w, qn_header = h, qn_options = opts, qn_multi = m\<rparr>
           | _ \<Rightarrow> None))"

definition json_of_answer :: "user_answer \<Rightarrow> json" where
  "json_of_answer a =
     jobj ([(''id'', JStr (an_id a)), (''selected'', JArr (map JStr (an_selected a)))]
       @ (case an_custom a of None \<Rightarrow> [] | Some w \<Rightarrow> [(''custom'', JStr w)]))"

section \<open>Which questions may be asked\<close>

text \<open>\<open>debug\<close> is the quoted form of a string.\<close>

fun check_options :: "(string \<Rightarrow> string) \<Rightarrow> string \<Rightarrow> string list \<Rightarrow> question_option list \<Rightarrow> string option" where
  "check_options debug i labels [] = None"
| "check_options debug i labels (w # ws) =
     (if trim (qo_label w) = [] then Some (''question '' @ debug i @ '' offers an unlabelled option'')
      else if qo_label w \<in> set labels then
        Some (''question '' @ debug i @ '' offers '' @ debug (qo_label w)
          @ '' twice, so an answer could not say which was meant'')
      else check_options debug i (qo_label w # labels) ws)"

fun check_each :: "(string \<Rightarrow> string) \<Rightarrow> string list \<Rightarrow> question list \<Rightarrow> string option" where
  "check_each debug ids [] = None"
| "check_each debug ids (q # qs) =
     (if trim (qn_id q) = [] then Some ''a question has no id, and an answer names the id it answers''
      else if qn_id q \<in> set ids then
        Some (''two questions share the id '' @ debug (qn_id q) @ '', so one answer would settle both'')
      else if trim (qn_text q) = [] then Some (''question '' @ debug (qn_id q) @ '' asks nothing'')
      else case check_options debug (qn_id q) [] (qn_options q) of
          Some why \<Rightarrow> Some why
        | None \<Rightarrow>
            if qn_multi q \<and> free_text q then
              Some (''question '' @ debug (qn_id q) @ '' allows several answers but offers no options to choose between'')
            else check_each debug (qn_id q # ids) qs)"

definition check_questions :: "(string \<Rightarrow> string) \<Rightarrow> question list \<Rightarrow> string option" where
  "check_questions debug qs = (if qs = [] then Some ''there are none'' else check_each debug [] qs)"

section \<open>What counts as an answer\<close>

fun judge :: "question list \<Rightarrow> user_answer list \<Rightarrow> user_answer list option" where
  "judge [] given = Some []"
| "judge (q # qs) given =
     (case find (\<lambda>a. an_id a = qn_id q) given of
        None \<Rightarrow> None
      | Some a \<Rightarrow>
          if \<not> says_something a then None
          else if \<not> free_text q \<and> \<not> list_all (\<lambda>w. list_ex (\<lambda>o1. qo_label o1 = w) (qn_options q)) (an_selected a) then None
          else if \<not> free_text q \<and> an_selected a = [] then None
          else if \<not> free_text q \<and> \<not> qn_multi q \<and> 1 < length (an_selected a) then None
          else map_option ((#) a) (judge qs given))"

section \<open>The service\<close>

text \<open>\<open>qs_next\<close> is the atomic counter, seeded past the asks the journal carries.\<close>

record question_service =
  qs_next :: nat
  qs_minted :: nat

definition new_questions :: "nat \<Rightarrow> session_event list \<Rightarrow> question_service" where
  "new_questions now es = \<lparr>qs_next = length (filter (\<lambda>e. ty e = ''question/asked'') es), qs_minted = now\<rparr>"

definition fresh_ask :: "question_service \<Rightarrow> string \<times> question_service" where
  "fresh_ask s = (''ask-'' @ show_nat (qs_minted s) @ ''-'' @ show_nat (qs_next s), s\<lparr>qs_next := qs_next s + 1\<rparr>)"

definition nobody_answered ::
  "ask_user \<Rightarrow> 'l \<Rightarrow> (payload + user_answer list option) \<times> ask_user \<times> 'l"
where
  "nobody_answered ask l = (Inr None, ask, l)"

definition put_questions ::
  "(ask_user, user_answer list option, 'l) bus \<Rightarrow> (ask_user \<Rightarrow> 'l \<Rightarrow> 'l option) \<Rightarrow> interrupt \<Rightarrow> string
   \<Rightarrow> question list \<Rightarrow> 'l \<Rightarrow> user_answer list option \<times> 'l"
where
  "put_questions b race intr i qs l =
     (if stopped intr then (None, l)
      else (let ask = \<lparr>au_id = i, au_questions = qs\<rparr> in
            case race ask l of
              Some l1 \<Rightarrow> (None, l1)
            | None \<Rightarrow>
                (case waterfall ask_user_event ask nobody_answered b l of
                   None \<Rightarrow> (None, l)
                 | Some (r, _, l1) \<Rightarrow>
                     ((case r of Inl _ \<Rightarrow> None | Inr given \<Rightarrow> Option.bind given (judge qs)), l1))))"

definition ask_questions ::
  "(string \<Rightarrow> string) \<Rightarrow> 'l appender \<Rightarrow> ('l \<Rightarrow> session_event list) \<Rightarrow> (ask_user, user_answer list option, 'l) bus
   \<Rightarrow> (ask_user \<Rightarrow> 'l \<Rightarrow> 'l option) \<Rightarrow> interrupt \<Rightarrow> question list \<Rightarrow> question_service \<Rightarrow> 'l
   \<Rightarrow> (question_error + user_answer list option) \<times> question_service \<times> 'l"
where
  "ask_questions debug app events b race intr qs s l =
     (if \<not> has_open_turn (events l) then (Inl AskedOutsideTurn, s, l)
      else case check_questions debug qs of
          Some why \<Rightarrow> (Inl (Malformed why), s, l)
        | None \<Rightarrow>
            (let (i, s1) = fresh_ask s in
             case app l ''question/asked'' (jobj [(''id'', JStr i), (''questions'', JArr (map json_of_question qs))]) None of
               (Inl x, l1) \<Rightarrow> (Inl (QuestionLog x), s1, l1)
             | (Inr _, l1) \<Rightarrow>
                 (let (answers, l2) = put_questions b race intr i qs l1 in
                  case app l2 ''question/answered''
                         (jobj [(''id'', JStr i),
                                (''answers'', JArr (map json_of_answer (case answers of None \<Rightarrow> [] | Some as \<Rightarrow> as))),
                                (''answered'', JBool (answers \<noteq> None))]) None of
                    (Inl x, l3) \<Rightarrow> (Inl (QuestionLog x), s1, l3)
                  | (Inr _, l3) \<Rightarrow> (Inr answers, s1, l3))))"

section \<open>The tool\<close>

definition ASK_USER :: string where
  "ASK_USER = ''ask_user_question''"

text \<open>\<open>bad\<close> is what the decoder says of an ill-formed list, \<open>show_json\<close> the text of a value.\<close>

definition ask_user_tool ::
  "(string \<Rightarrow> string) \<Rightarrow> (json \<Rightarrow> string) \<Rightarrow> (json \<Rightarrow> string) \<Rightarrow> (session_error \<Rightarrow> string) \<Rightarrow> 'l appender
   \<Rightarrow> ('l \<Rightarrow> session_event list) \<Rightarrow> (ask_user, user_answer list option, 'l) bus
   \<Rightarrow> (ask_user \<Rightarrow> 'l \<Rightarrow> 'l option) \<Rightarrow> interrupt \<Rightarrow> json \<Rightarrow> question_service \<Rightarrow> 'l
   \<Rightarrow> (tool_error + tool_outcome) \<times> question_service \<times> 'l"
where
  "ask_user_tool debug bad show_json say app events b race intr args s l =
     (let v = (case jget args ''questions'' of Some v \<Rightarrow> v | None \<Rightarrow> JNull) in
      case list_of_json question_of_json v of
        None \<Rightarrow> (Inl (InvalidArguments ASK_USER (''`questions` must be a list of questions: '' @ bad v)), s, l)
      | Some qs \<Rightarrow>
          (case ask_questions debug app events b race intr qs s l of
             (Inl (Malformed why), s1, l1) \<Rightarrow>
               (Inr (outcome_failed (''The questions were not put to the user because '' @ why @ ''. Fix them and ask again.'')), s1, l1)
           | (Inl x, s1, l1) \<Rightarrow> (Inl (ToolFailed ASK_USER (question_error_text say x)), s1, l1)
           | (Inr (Some as), s1, l1) \<Rightarrow>
               (Inr (outcome_ok (show_json (jobj [(''answers'', JArr (map json_of_answer as))]))), s1, l1)
           | (Inr None, s1, l1) \<Rightarrow>
               (Inr (outcome_failed (''The user did not answer: nobody was available, the answer did not cover every ''
                 @ ''question, or the turn is stopping. Continue without it, or say what you need.'')), s1, l1)))"

section \<open>What an accepted answer is\<close>

definition accepts :: "question \<Rightarrow> user_answer \<Rightarrow> bool" where
  "accepts q a \<longleftrightarrow>
     an_id a = qn_id q \<and> says_something a
     \<and> (free_text q \<or> an_selected a \<noteq> [] \<and> set (an_selected a) \<subseteq> qo_label ` set (qn_options q)
          \<and> (qn_multi q \<or> length (an_selected a) = 1))"

lemma judge_accepts: "judge qs given = Some kept \<Longrightarrow> list_all2 accepts qs kept \<and> set kept \<subseteq> set given"
proof (induction qs arbitrary: kept)
  case (Cons q qs)
  then obtain a where a: "find (\<lambda>a. an_id a = qn_id q) given = Some a" by (auto split: option.splits)
  then have "an_id a = qn_id q" "a \<in> set given" by (auto simp: find_Some_iff)
  moreover from Cons.prems a obtain rest where "judge qs given = Some rest" "kept = a # rest" "says_something a"
    and "free_text q \<or> list_all (\<lambda>w. list_ex (\<lambda>o1. qo_label o1 = w) (qn_options q)) (an_selected a) \<and> an_selected a \<noteq> []
      \<and> (qn_multi q \<or> length (an_selected a) \<le> 1)"
    by (auto split: if_splits simp: not_less)
  ultimately show ?case
    using Cons.IH [of rest]
    by (auto simp: accepts_def list_all_iff list_ex_iff le_Suc_eq)
qed simp

lemma judge_finds:
  assumes "\<And>q. q \<in> set qs \<Longrightarrow> find (\<lambda>a. an_id a = qn_id q) given = Some (f q) \<and> accepts q (f q)"
  shows "judge qs given = Some (map f qs)"
  using assms
proof (induction qs)
  case (Cons q qs)
  then have "find (\<lambda>a. an_id a = qn_id q) given = Some (f q)" "accepts q (f q)" "judge qs given = Some (map f qs)"
    by auto
  then show ?case by (auto simp: accepts_def list_all_iff list_ex_iff)
qed simp

lemma put_questions_some:
  assumes "put_questions b race intr i qs l = (Some as, l1)"
  shows "\<not> stopped intr \<and> race \<lparr>au_id = i, au_questions = qs\<rparr> l = None \<and> list_all2 accepts qs as
    \<and> (\<exists>given ask'. waterfall ask_user_event \<lparr>au_id = i, au_questions = qs\<rparr> nobody_answered b l
          = Some (Inr (Some given), ask', l1) \<and> set as \<subseteq> set given)"
  using assms judge_accepts
  by (auto simp: put_questions_def Let_def split: if_splits option.splits sum.splits bind_splits)

context session_log
begin

lemma ask_effect:
  assumes "ask_questions debug append events b race intr qs s l = (r, s', l')"
  shows "case r of
      Inl AskedOutsideTurn \<Rightarrow> \<not> has_open_turn (events l) \<and> l' = l
    | Inl (Malformed why) \<Rightarrow> check_questions debug qs = Some why \<and> l' = l
    | Inl (QuestionLog x) \<Rightarrow> True
    | Inr answers \<Rightarrow>
        has_open_turn (events l) \<and> check_questions debug qs = None
        \<and> (\<exists>asked answered l1 l2. events l1 = events l @ [asked] \<and> ty asked = ''question/asked''
             \<and> put_questions b race intr (fst (fresh_ask s)) qs l1 = (answers, l2)
             \<and> events l' = events l2 @ [answered] \<and> ty answered = ''question/answered''
             \<and> jget (data asked) ''id'' = Some (JStr (fst (fresh_ask s)))
             \<and> jget (data answered) ''id'' = Some (JStr (fst (fresh_ask s)))
             \<and> jget (data answered) ''answered'' = Some (JBool (answers \<noteq> None)))"
proof (cases "\<not> has_open_turn (events l) \<or> check_questions debug qs \<noteq> None")
  case True
  with assms show ?thesis by (auto simp: ask_questions_def split: if_splits)
next
  case False
  obtain i s1 where i: "fresh_ask s = (i, s1)" by fastforce
  obtain a l1 where a: "append l ''question/asked'' (jobj [(''id'', JStr i), (''questions'', JArr (map json_of_question qs))]) None = (a, l1)"
    by fastforce
  obtain answers l2 where p: "put_questions b race intr i qs l1 = (answers, l2)" by fastforce
  obtain c l3 where c: "append l2 ''question/answered''
        (jobj [(''id'', JStr i), (''answers'', JArr (map json_of_answer (case answers of None \<Rightarrow> [] | Some as \<Rightarrow> as))),
               (''answered'', JBool (answers \<noteq> None))]) None = (c, l3)" by fastforce
  show ?thesis
  proof (cases "isl a \<or> isl c")
    case True
    with False assms i a p c show ?thesis by (auto simp: ask_questions_def Let_def split: sum.splits)
  next
    case no: False
    then obtain e f where e: "a = Inr e" and f: "c = Inr f" by (metis sum.collapse(2))
    have r: "r = Inr answers" "l' = l3" using False assms i a p c by (simp_all add: ask_questions_def Let_def e f)
    have "events l1 = events l @ [e] \<and> ty e = ''question/asked'' \<and> put_questions b race intr i qs l1 = (answers, l2)
        \<and> events l3 = events l2 @ [f] \<and> ty f = ''question/answered'' \<and> jget (data e) ''id'' = Some (JStr i)
        \<and> jget (data f) ''id'' = Some (JStr i) \<and> jget (data f) ''answered'' = Some (JBool (answers \<noteq> None))"
      using append_ok [OF a [unfolded e]] append_ok [OF c [unfolded f]] p by simp
    with i False show ?thesis unfolding r sum.case fst_conv by auto
  qed
qed

end

text \<open>
  C23. An answer covers every question, or it is not one.  When an ask returns answers, there is
  exactly one for each question, in the order asked: it came from an answerer, it says something,
  and for a closed list it names only labels that were offered, and one of them unless several were
  allowed.  The turn was open and nobody had asked it to stop, and both records are on the journal
  under one id before the answer is.
\<close>

theorem answers_cover_questions:
  assumes "ask_questions debug (append_journal enc) j_events b race intr qs s l = (Inr (Some as), s', l')"
  shows "list_all2 accepts qs as \<and> has_open_turn (j_events l) \<and> \<not> stopped intr \<and> check_questions debug qs = None
    \<and> (\<exists>asked answered l1 l2 given ask'. j_events l1 = j_events l @ [asked] \<and> ty asked = ''question/asked''
         \<and> waterfall ask_user_event \<lparr>au_id = fst (fresh_ask s), au_questions = qs\<rparr> nobody_answered b l1
             = Some (Inr (Some given), ask', l2)
         \<and> set as \<subseteq> set given
         \<and> j_events l' = j_events l2 @ [answered] \<and> ty answered = ''question/answered''
         \<and> jget (data asked) ''id'' = jget (data answered) ''id'')"
  using journal_log.ask_effect [OF assms] by (fastforce dest: put_questions_some)

section \<open>Questions that pass can be answered\<close>

lemma check_options_accepts:
  "check_options debug i labels ws = None \<Longrightarrow>
     distinct (map qo_label ws) \<and> (\<forall>w\<in>set ws. trim (qo_label w) \<noteq> [] \<and> qo_label w \<notin> set labels)"
proof (induction ws arbitrary: labels)
  case (Cons w ws)
  then have "trim (qo_label w) \<noteq> []" "qo_label w \<notin> set labels" "check_options debug i (qo_label w # labels) ws = None"
    by (auto split: if_splits)
  with Cons.IH [of "qo_label w # labels"] show ?case by auto
qed simp

lemma check_each_accepts:
  "check_each debug ids qs = None \<Longrightarrow>
     distinct (map qn_id qs) \<and> (\<forall>q\<in>set qs. qn_id q \<notin> set ids \<and> trim (qn_text q) \<noteq> []
       \<and> (free_text q \<longrightarrow> \<not> qn_multi q) \<and> distinct (map qo_label (qn_options q)))"
proof (induction qs arbitrary: ids)
  case (Cons q qs)
  then have "qn_id q \<notin> set ids" "trim (qn_text q) \<noteq> []" "check_options debug (qn_id q) [] (qn_options q) = None"
      "\<not> (qn_multi q \<and> free_text q)" "check_each debug (qn_id q # ids) qs = None"
    by (auto split: if_splits option.splits)
  with Cons.IH [of "qn_id q # ids"] check_options_accepts [of debug "qn_id q" "[]" "qn_options q"] show ?case by auto
qed simp

text \<open>One valid answer a question: its first label, or any words.\<close>

definition sample_answer :: "question \<Rightarrow> user_answer" where
  "sample_answer q =
     (case qn_options q of
        [] \<Rightarrow> \<lparr>an_id = qn_id q, an_selected = [], an_custom = Some ''x''\<rparr>
      | w # _ \<Rightarrow> \<lparr>an_id = qn_id q, an_selected = [qo_label w], an_custom = None\<rparr>)"

lemma sample_accepted: "accepts q (sample_answer q)"
  by (cases "qn_options q")
    (simp_all add: accepts_def sample_answer_def says_something_def free_text_def trim_def trim_start_def trim_end_def
      is_white_def)

lemma find_by_id: "distinct (map qn_id qs) \<Longrightarrow> q \<in> set qs \<Longrightarrow>
    find (\<lambda>a. an_id a = qn_id q) (map sample_answer qs) = Some (sample_answer q)"
proof (induction qs)
  case (Cons p qs)
  have "an_id (sample_answer p) = qn_id p" for p by (simp add: sample_answer_def split: list.splits)
  with Cons show ?case by (auto simp: image_iff)
qed simp

text \<open>
  No prompt without an answer.  Questions that pass the check have distinct ids, and some set of
  answers settles all of them: nothing is ever put to a user, or written to the journal as asked, that
  could only be closed unanswered.
\<close>

theorem checked_questions_answerable:
  assumes "check_questions debug qs = None"
  shows "distinct (map qn_id qs) \<and> qs \<noteq> [] \<and> judge qs (map sample_answer qs) = Some (map sample_answer qs)"
proof -
  from assms have c: "check_each debug [] qs = None" and "qs \<noteq> []"
    by (auto simp: check_questions_def split: if_splits)
  moreover from check_each_accepts [OF c] have "distinct (map qn_id qs)" by blast
  ultimately show ?thesis by (simp add: judge_finds find_by_id sample_accepted)
qed

subsection \<open>The properties at work\<close>

definition demo_question :: question where
  "demo_question =
     \<lparr>qn_id = ''q'', qn_text = ''which?'', qn_header = None,
      qn_options = [\<lparr>qo_label = ''a'', qo_description = None\<rparr>, \<lparr>qo_label = ''b'', qo_description = None\<rparr>], qn_multi = False\<rparr>"

definition demo_given :: "user_answer list" where
  "demo_given = [\<lparr>an_id = ''z'', an_selected = [''b''], an_custom = None\<rparr>, \<lparr>an_id = ''q'', an_selected = [''b''], an_custom = None\<rparr>]"

definition demo_answerer :: "(ask_user, user_answer list option, journal) bus" where
  "demo_answerer = \<lparr>next_id = 1, slots = [1 \<mapsto> [(0, WaterfallFn (\<lambda>ask k l. (Inr (Some demo_given), ask, l)))]]\<rparr>"

definition demo_asks :: question_service where
  "demo_asks = new_questions 5 []"

lemma demo_waterfall: "waterfall ask_user_event ask nobody_answered demo_answerer l = Some (Inr (Some demo_given), ask, l)"
  by (simp add: waterfall_def snapshot_def ask_user_event_def registered_def demo_answerer_def next_run.simps)

lemma demo_checked: "check_questions id [demo_question] = None"
  by (simp add: check_questions_def demo_question_def trim_def trim_start_def trim_end_def is_white_def free_text_def)

abbreviation demo_asked :: "(question_error + user_answer list option) \<times> question_service \<times> journal" where
  "demo_asked \<equiv> ask_questions id (append_journal (\<lambda>e. Some ''x'')) j_events demo_answerer (\<lambda>_ _. None) new_interrupt
     [demo_question] demo_asks demo_turn"

lemma demo_ask: "fst demo_asked = Inr (Some [demo_given ! 1])"
proof -
  have j: "judge [demo_question] demo_given = Some [demo_given ! 1]"
    unfolding demo_given_def demo_question_def by (simp add: says_something_def free_text_def)
  have t: "has_open_turn (j_events demo_turn)"
    by (simp add: demo_turn_def append_journal_def empty_journal_def has_open_turn_def find_last_def next_disk_def Let_def)
  have d: "disk demo_turn = []"
    by (simp add: demo_turn_def append_journal_def empty_journal_def next_disk_def Let_def)
  show ?thesis
    by (simp add: ask_questions_def t demo_checked put_questions_def demo_waterfall j new_interrupt_def
        append_journal_def d next_disk_def Let_def fresh_ask_def demo_asks_def new_questions_def
        del: judge.simps)
qed

theorem answers_cover_questions_witness:
  "\<exists>as s' l'. demo_asked = (Inr (Some as), s', l') \<and> list_all2 accepts [demo_question] as \<and> map an_selected as = [[''b'']]"
proof -
  obtain r s' l' where "demo_asked = (r, s', l')" by (metis prod_cases3)
  with demo_ask have run: "demo_asked = (Inr (Some [demo_given ! 1]), s', l')" by simp
  have "map an_selected [demo_given ! 1] = [[''b'']]" by (simp add: demo_given_def)
  with answers_cover_questions [OF run, THEN conjunct1] run show ?thesis by (intro exI conjI)
qed

theorem checked_questions_answerable_witness:
  "judge [demo_question] (map sample_answer [demo_question]) = Some [\<lparr>an_id = ''q'', an_selected = [''a''], an_custom = None\<rparr>]"
  using checked_questions_answerable [OF demo_checked] by (simp add: sample_answer_def demo_question_def)

end
