(* ===== verification/Todos.thy ===== *)
theory Todos
  imports Goals Questions Prompt
begin

text \<open>
  The task list a model keeps (\<^verbatim>\<open>crates/features/src/todo.rs\<close>) and the mode in which it plans
  (\<^verbatim>\<open>crates/features/src/plan.rs\<close>).  Both are folds of the journal and nothing else.  \<open>debug\<close> is the
  quoted form of a string, \<open>show_json\<close> the JSON text of a value, \<open>say\<close> a journal's refusal.
\<close>

section \<open>The task list\<close>

datatype todo_status = Pending | InProgress | Finished

fun status_str :: "todo_status \<Rightarrow> string" where
  "status_str Pending = ''pending''"
| "status_str InProgress = ''in_progress''"
| "status_str Finished = ''completed''"

definition read_status :: "string \<Rightarrow> todo_status option" where
  "read_status w =
     (if w = ''pending'' then Some Pending else if w = ''in_progress'' then Some InProgress
      else if w = ''completed'' then Some Finished else None)"

record todo_item =
  ti_content :: string
  ti_status :: todo_status

record todo_counts =
  ct_pending :: nat
  ct_active :: nat
  ct_finished :: nat

definition count_todo :: "todo_counts \<Rightarrow> todo_item \<Rightarrow> todo_counts" where
  "count_todo c t =
     (case ti_status t of
        Pending \<Rightarrow> c\<lparr>ct_pending := ct_pending c + 1\<rparr>
      | InProgress \<Rightarrow> c\<lparr>ct_active := ct_active c + 1\<rparr>
      | Finished \<Rightarrow> c\<lparr>ct_finished := ct_finished c + 1\<rparr>)"

definition counts_of :: "todo_item list \<Rightarrow> todo_counts" where
  "counts_of ts = foldl count_todo \<lparr>ct_pending = 0, ct_active = 0, ct_finished = 0\<rparr> ts"

datatype todo_error = EmptyTodo nat | DuplicateTodo string | TooManyActive nat

primrec todo_error_text :: "(string \<Rightarrow> string) \<Rightarrow> todo_error \<Rightarrow> string" where
  "todo_error_text debug (EmptyTodo n) =
     ''todo '' @ show_nat n @ '' has no content: every task needs a short imperative line''"
| "todo_error_text debug (DuplicateTodo c) =
     ''the list names '' @ debug c @ '' twice: a task''@ CHR 0x27 # ''s content is its identity, so give the two tasks different lines''"
| "todo_error_text debug (TooManyActive n) =
     show_nat n @ '' tasks are in_progress at once, and this deployment expects at most one: mark the one being ''
     @ ''worked on now, and leave the rest pending''"

datatype parallelism = SingleActive | Parallel

fun allows_active :: "parallelism \<Rightarrow> nat \<Rightarrow> bool" where
  "allows_active SingleActive n = (n \<le> 1)"
| "allows_active Parallel n = True"

fun canonical_from :: "nat \<Rightarrow> todo_item list \<Rightarrow> nat \<Rightarrow> todo_item list \<Rightarrow> todo_error + todo_item list \<times> nat" where
  "canonical_from i todos active [] = Inr (todos, active)"
| "canonical_from i todos active (t # ts) =
     (let content = trim (ti_content t)
      in if content = [] then Inl (EmptyTodo i)
         else if list_ex (\<lambda>k. ti_content k = content) todos then Inl (DuplicateTodo content)
         else canonical_from (i + 1) (todos @ [\<lparr>ti_content = content, ti_status = ti_status t\<rparr>])
                (if ti_status t = InProgress then active + 1 else active) ts)"

definition canonical_todos :: "parallelism \<Rightarrow> todo_item list \<Rightarrow> todo_error + todo_item list" where
  "canonical_todos p raw =
     (case canonical_from 0 [] 0 raw of
        Inl e \<Rightarrow> Inl e
      | Inr (todos, active) \<Rightarrow> if allows_active p active then Inr todos else Inl (TooManyActive active))"

definition json_of_todo :: "todo_item \<Rightarrow> json" where
  "json_of_todo t = jobj [(''content'', JStr (ti_content t)), (''status'', JStr (status_str (ti_status t)))]"

definition todo_of_json :: "json \<Rightarrow> todo_item option" where
  "todo_of_json j =
     (case fields_of [''content'', ''status''] j of
        None \<Rightarrow> None
      | Some f \<Rightarrow>
          (case (str_field (f ''content''), Option.bind (f ''status'') (variant_of read_status)) of
             (Some c, Some s) \<Rightarrow> Some \<lparr>ti_content = c, ti_status = s\<rparr>
           | _ \<Rightarrow> None))"

definition todo_step :: "todo_item list option \<Rightarrow> session_event \<Rightarrow> todo_item list option" where
  "todo_step ts e =
     (if ty e = ''todo/write'' then
        (case list_of_json todo_of_json (jidx (data e) ''todos'') of Some new \<Rightarrow> Some new | None \<Rightarrow> ts)
      else if ty e = ''turn/start'' then None
      else ts)"

definition current_todos :: "session_event list \<Rightarrow> todo_item list option" where
  "current_todos es = foldl todo_step None es"

definition write_todos :: "'l appender \<Rightarrow> todo_item list \<Rightarrow> 'l \<Rightarrow> (session_error + session_event) \<times> 'l" where
  "write_todos app ts l = app l ''todo/write'' (jobj [(''todos'', JArr (map json_of_todo ts))]) None"

definition TODO_WRITE :: string where
  "TODO_WRITE = ''todo_write''"

definition json_of_counts :: "todo_counts \<Rightarrow> json" where
  "json_of_counts c =
     jobj [(''pending'', jnat (ct_pending c)), (''in_progress'', jnat (ct_active c)), (''completed'', jnat (ct_finished c))]"

text \<open>\<open>bad\<close> is what the decoder says of an ill-formed list.\<close>

definition todo_write_tool ::
  "(string \<Rightarrow> string) \<Rightarrow> (json \<Rightarrow> string) \<Rightarrow> (json \<Rightarrow> string) \<Rightarrow> (session_error \<Rightarrow> string) \<Rightarrow> 'l appender
   \<Rightarrow> parallelism \<Rightarrow> json \<Rightarrow> 'l \<Rightarrow> (tool_error + tool_outcome) \<times> 'l"
where
  "todo_write_tool debug bad show_json say app p args l =
     (let v = (case jget args ''todos'' of Some v \<Rightarrow> v | None \<Rightarrow> JNull) in
      case list_of_json todo_of_json v of
        None \<Rightarrow> (Inl (InvalidArguments TODO_WRITE (''`todos` must be a list of {content, status} items: '' @ bad v)), l)
      | Some raw \<Rightarrow>
          (case canonical_todos p raw of
             Inl e \<Rightarrow> (Inr (outcome_failed (todo_error_text debug e)), l)
           | Inr todos \<Rightarrow>
               (case write_todos app todos l of
                  (Inl x, l1) \<Rightarrow> (Inl (ToolFailed TODO_WRITE (say x)), l1)
                | (Inr _, l1) \<Rightarrow>
                    (Inr (outcome_ok (show_json (jobj [(''todos'', JArr (map json_of_todo todos)),
                       (''counts'', json_of_counts (counts_of todos))]))), l1))))"

section \<open>Plan mode\<close>

definition plan_active :: "session_event list \<Rightarrow> bool" where
  "plan_active es =
     (case find_last (\<lambda>e. ty e = ''plan/mode'') es of Some e \<Rightarrow> jidx (data e) ''active'' = JBool True | None \<Rightarrow> False)"

definition plan_presented :: "session_event list \<Rightarrow> string option" where
  "plan_presented es =
     Option.bind (find_last (\<lambda>e. ty e = ''plan/presented'') es) (\<lambda>e. as_str (jidx (data e) ''plan''))"

definition set_plan :: "'l appender \<Rightarrow> ('l \<Rightarrow> session_event list) \<Rightarrow> bool \<Rightarrow> 'l \<Rightarrow> (session_error + bool) \<times> 'l" where
  "set_plan app events on l =
     (if plan_active (events l) = on then (Inr False, l)
      else (case app l ''plan/mode'' (jobj [(''active'', JBool on)]) None of
          (Inl x, l1) \<Rightarrow> (Inl x, l1)
        | (Inr _, l1) \<Rightarrow> (Inr True, l1)))"

definition PLAN_SECTION :: string where
  "PLAN_SECTION = ''plan:policy''"

text \<open>The guidance: \<open>now\<close> is the log the section reads when it is asked.\<close>

definition plan_guidance ::
  "session_event list \<Rightarrow> string \<Rightarrow> int \<Rightarrow> prompts \<Rightarrow> prompt_error + nat \<times> prompts"
where
  "plan_guidance now t order r =
     register_section PLAN_SECTION order (Provided (\<lambda>_. Inr (if plan_active now then t else []))) False r"

definition EXIT_PLAN :: string where
  "EXIT_PLAN = ''exit_plan_mode''"

definition plan_of :: "json \<Rightarrow> string" where
  "plan_of args = (case Option.bind (jget args ''plan'') as_str of Some s \<Rightarrow> trim s | None \<Rightarrow> [])"

definition exit_plan_tool ::
  "(session_error \<Rightarrow> string) \<Rightarrow> 'l appender \<Rightarrow> ('l \<Rightarrow> session_event list) \<Rightarrow> json \<Rightarrow> 'l
   \<Rightarrow> (tool_error + tool_outcome) \<times> 'l"
where
  "exit_plan_tool say app events args l =
     (let plan = plan_of args in
      if plan = [] then
        (Inr (outcome_failed (''`plan` must say what you intend to do: leaving plan mode with no plan gives the ''
           @ ''user nothing to review.'')), l)
      else if \<not> plan_active (events l) then
        (Inr (outcome_ok ''Plan mode is not on, so there is nothing to leave. Carry on with the work.''), l)
      else (case app l ''plan/presented'' (jobj [(''plan'', JStr plan)]) None of
          (Inl x, l1) \<Rightarrow> (Inl (ToolFailed EXIT_PLAN (say x)), l1)
        | (Inr _, l1) \<Rightarrow>
            (case set_plan app events False l1 of
               (Inl x, l2) \<Rightarrow> (Inl (ToolFailed EXIT_PLAN (say x)), l2)
             | (Inr _, l2) \<Rightarrow> (Inr (outcome_ok ''Plan presented and plan mode left. Proceed with the plan.''), l2))))"

section \<open>What the list promises\<close>

definition wf_todos :: "parallelism \<Rightarrow> todo_item list \<Rightarrow> bool" where
  "wf_todos p ts \<longleftrightarrow>
     distinct (map ti_content ts) \<and> (\<forall>t\<in>set ts. ti_content t \<noteq> [])
     \<and> allows_active p (length (filter (\<lambda>t. ti_status t = InProgress) ts))"

lemma canonical_from_closed:
  "canonical_from i todos active raw = Inr (out, n) \<Longrightarrow>
     out = todos @ map (\<lambda>t. \<lparr>ti_content = trim (ti_content t), ti_status = ti_status t\<rparr>) raw
     \<and> n = active + length (filter (\<lambda>t. ti_status t = InProgress) raw)
     \<and> (distinct (map ti_content todos) \<longrightarrow> distinct (map ti_content out))
     \<and> (\<forall>t\<in>set raw. trim (ti_content t) \<noteq> [])"
proof (induction raw arbitrary: i todos active)
  case (Cons t raw)
  let ?t = "\<lparr>ti_content = trim (ti_content t), ti_status = ti_status t\<rparr>"
  from Cons.prems have c: "trim (ti_content t) \<noteq> []" "\<forall>k\<in>set todos. ti_content k \<noteq> trim (ti_content t)"
    and r: "canonical_from (i + 1) (todos @ [?t]) (if ti_status t = InProgress then active + 1 else active) raw = Inr (out, n)"
    by (auto simp: Let_def list_ex_iff split: if_splits)
  have "distinct (map ti_content todos) \<longrightarrow> distinct (map ti_content (todos @ [?t]))" using c(2) by auto
  with Cons.IH [OF r] have "distinct (map ti_content todos) \<longrightarrow> distinct (map ti_content out)" by blast
  with Cons.IH [OF r] c(1) show ?case by (intro conjI) (simp_all split: if_splits)
qed auto

lemma canonical_effect:
  assumes "canonical_todos p raw = Inr ts"
  shows "map ti_content ts = map (trim \<circ> ti_content) raw \<and> map ti_status ts = map ti_status raw \<and> wf_todos p ts"
proof -
  from assms obtain n where r: "canonical_from 0 [] 0 raw = Inr (ts, n)" and a: "allows_active p n"
    by (auto simp: canonical_todos_def split: sum.splits prod.splits if_splits)
  note c = canonical_from_closed [OF r]
  then have ts: "ts = map (\<lambda>t. \<lparr>ti_content = trim (ti_content t), ti_status = ti_status t\<rparr>) raw" by simp
  have "length (filter (\<lambda>t. ti_status t = InProgress) ts) = n" using c by (simp add: ts filter_map o_def)
  with c a show ?thesis by (auto simp: wf_todos_def ts)
qed

lemma todo_round_trip [simp]: "todo_of_json (json_of_todo t) = Some t"
  by (cases "ti_status t") (simp_all add: todo_of_json_def json_of_todo_def fields_of_def jobj_def map_of_fold_om_insert
      str_field_def variant_of_def read_status_def)

lemma todos_round_trip [simp]: "list_of_json todo_of_json (JArr (map json_of_todo ts)) = Some ts"
  by (simp add: list_of_json_def list_all_iff) (induction ts, simp_all add: List.map_filter_simps)

text \<open>
  A list the model is told was recorded is the list.  A write that succeeds records the list as
  sent, its lines trimmed, and the journal then reads back exactly that list, in which no line is
  empty, no two are the same and no more are in progress than the deployment allows; any other
  write leaves the journal, and so the list, as it was.  A turn that starts clears it.
\<close>

theorem todo_write_recorded:
  assumes "todo_write_tool debug bad show_json say (append_journal enc) p args l = (r, l')"
  shows "case r of
      Inr out \<Rightarrow>
        if o_ok out then
          (\<exists>raw ts e. list_of_json todo_of_json (jidx args ''todos'') = Some raw
             \<and> map ti_content ts = map (trim \<circ> ti_content) raw \<and> map ti_status ts = map ti_status raw \<and> wf_todos p ts
             \<and> j_events l' = j_events l @ [e] \<and> current_todos (j_events l') = Some ts)
        else l' = l
    | Inl e \<Rightarrow> j_events l' = j_events l"
proof -
  have v: "(case jget args ''todos'' of Some v \<Rightarrow> v | None \<Rightarrow> JNull) = jidx args ''todos''"
    by (simp add: jidx_def split: option.splits)
  show ?thesis
  proof (cases "list_of_json todo_of_json (jidx args ''todos'')")
    case None
    with assms show ?thesis by (auto simp: todo_write_tool_def v)
  next
    case raw: (Some raw)
    show ?thesis
    proof (cases "canonical_todos p raw")
      case (Inl e)
      with assms raw show ?thesis by (auto simp: todo_write_tool_def v outcome_failed_def)
    next
      case (Inr ts)
      obtain a l1 where a: "append_journal enc l ''todo/write'' (jobj [(''todos'', JArr (map json_of_todo ts))]) None = (a, l1)"
        by fastforce
      show ?thesis
      proof (cases a)
        case (Inl x)
        with assms raw \<open>canonical_todos p raw = Inr ts\<close> a journal_log.append_err [OF a [unfolded Inl]] show ?thesis
          by (auto simp: todo_write_tool_def v write_todos_def)
      next
        case ok: (Inr e)
        note e = journal_log.append_ok [OF a [unfolded ok]]
        have "current_todos (j_events l1) = Some ts" using e by (simp add: current_todos_def todo_step_def jidx_def)
        with assms raw Inr a ok e canonical_effect [OF Inr] show ?thesis
          by (auto simp: todo_write_tool_def v write_todos_def outcome_ok_def)
      qed
    qed
  qed
qed

section \<open>What leaving plan mode promises\<close>

text \<open>
  Leaving plan mode leaves a plan.  A call that answers the plan was presented wrote the plan, and
  then the end of the mode, and nothing else: the mode is off and the plan is what the session
  presented last.  A call with no plan, or with no mode to leave, writes nothing.  When the second
  record is refused the plan stands presented in a session that is still planning.
\<close>

theorem exit_plan_presents:
  assumes "exit_plan_tool say (append_journal enc) j_events args l = (r, l')"
  shows "case r of
      Inr out \<Rightarrow>
        if plan_of args \<noteq> [] \<and> plan_active (j_events l) then
          \<not> plan_active (j_events l') \<and> plan_presented (j_events l') = Some (plan_of args)
          \<and> (\<exists>e f. j_events l' = j_events l @ [e, f] \<and> ty e = ''plan/presented'' \<and> ty f = ''plan/mode'')
        else l' = l \<and> (o_ok out \<longleftrightarrow> plan_of args \<noteq> [])
    | Inl e \<Rightarrow> plan_of args \<noteq> [] \<and> plan_active (j_events l')
        \<and> (j_events l' = j_events l \<or> plan_presented (j_events l') = Some (plan_of args))"
proof (cases "plan_of args \<noteq> [] \<and> plan_active (j_events l)")
  case False
  with assms(1) show ?thesis
    by (auto simp: exit_plan_tool_def Let_def outcome_ok_def outcome_failed_def split: if_splits)
next
  case True
  obtain a l1 where a: "append_journal enc l ''plan/presented'' (jobj [(''plan'', JStr (plan_of args))]) None = (a, l1)" by fastforce
  show ?thesis
  proof (cases a)
    case (Inl x)
    with True assms(1) a journal_log.append_err [OF a [unfolded Inl]] show ?thesis
      by (auto simp: exit_plan_tool_def Let_def)
  next
    case e: (Inr e)
    note e1 = journal_log.append_ok [OF a [unfolded e]]
    have act: "plan_active (j_events l1)" and pres: "plan_presented (j_events l1) = Some (plan_of args)"
      using True e1 by (simp_all add: plan_active_def plan_presented_def jidx_def)
    obtain b l2 where b: "append_journal enc l1 ''plan/mode'' (jobj [(''active'', JBool False)]) None = (b, l2)" by fastforce
    show ?thesis
    proof (cases b)
      case (Inl x)
      with True assms(1) a e b act pres journal_log.append_err [OF b [unfolded Inl]] show ?thesis
        by (auto simp: exit_plan_tool_def Let_def set_plan_def)
    next
      case f: (Inr f)
      note f1 = journal_log.append_ok [OF b [unfolded f]]
      have "\<not> plan_active (j_events l2)" and "plan_presented (j_events l2) = Some (plan_of args)"
        using f1 pres by (simp_all add: plan_active_def plan_presented_def jidx_def)
      with True assms(1) a e b f act e1 f1 show ?thesis
        by (auto simp: exit_plan_tool_def Let_def set_plan_def)
    qed
  qed
qed

subsection \<open>The properties at work\<close>

definition demo_list :: json where
  "demo_list = JObj [(''todos'', JArr [JObj [(''content'', JStr '' a''), (''status'', JStr ''pending'')]])]"

abbreviation demo_todo :: "(tool_error + tool_outcome) \<times> journal" where
  "demo_todo \<equiv> todo_write_tool id (\<lambda>_. []) (\<lambda>_. ''ok'') (\<lambda>_. []) (append_journal (\<lambda>e. Some ''x'')) SingleActive demo_list
     (empty_journal [] [])"

theorem todo_write_recorded_witness:
  "map_option (map ti_content) (current_todos (j_events (snd demo_todo))) = Some [''a'']"
proof -
  obtain r l' where run: "demo_todo = (r, l')" by fastforce
  have "fst demo_todo = Inr (outcome_ok ''ok'')" by code_simp
  with run have r: "r = Inr (outcome_ok ''ok'')" by simp
  have raw: "list_of_json todo_of_json (jidx demo_list ''todos'') = Some [\<lparr>ti_content = '' a'', ti_status = Pending\<rparr>]" by code_simp
  have t: "trim '' a'' = ''a''" by code_simp
  from todo_write_recorded [OF run] raw t run show ?thesis by (auto simp: r outcome_ok_def)
qed

text \<open>A session that plans, and the same session after it presented its plan.\<close>

definition planning :: journal where
  "planning = snd (set_plan (append_journal (\<lambda>e. Some ''x'')) j_events True (empty_journal [] []))"

abbreviation demo_exit :: "(tool_error + tool_outcome) \<times> journal" where
  "demo_exit \<equiv> exit_plan_tool (\<lambda>_. []) (append_journal (\<lambda>e. Some ''x'')) j_events (JObj [(''plan'', JStr ''p'')]) planning"

theorem exit_plan_presents_witness:
  "plan_active (j_events planning) \<and> \<not> plan_active (j_events (snd demo_exit))
     \<and> plan_presented (j_events (snd demo_exit)) = Some ''p''"
proof -
  obtain r l' where run: "demo_exit = (r, l')" by fastforce
  have "isl (fst demo_exit) = False" by code_simp
  with run obtain out where r: "r = Inr out" by (cases r) auto
  have p: "plan_of (JObj [(''plan'', JStr ''p'')]) = ''p''" by code_simp
  have a: "plan_active (j_events planning)" by code_simp
  from exit_plan_presents [OF run] p a run show ?thesis by (simp add: r)
qed

end
