(* ===== verification/Skills.thy ===== *)
theory Skills
  imports Fence Tools "HOL-Library.Product_Lexorder"
begin

text \<open>
  The instructions a project or a person keeps on disk (\<^verbatim>\<open>crates/features/src/skill.rs\<close>): where they
  are looked for, how a file is read, which of two skills of one name counts, and the tool that
  hands one to the model.  \<open>os\<close> is the disk of theory \<^verbatim>\<open>Disk\<close>, whose names are UTF-8; \<open>debug\<close> is the
  quoted form of a string.
\<close>

section \<open>Sources and rosters\<close>

datatype skill_source = Project | ProjectAgents | Custom | OfUser | UserAgents

fun source_str :: "skill_source \<Rightarrow> string" where
  "source_str Project = ''project''"
| "source_str ProjectAgents = ''project-agents''"
| "source_str Custom = ''custom''"
| "source_str OfUser = ''user''"
| "source_str UserAgents = ''user-agents''"

type_synonym skill_root = "path \<times> skill_source"

definition user_agents_home :: "path option \<Rightarrow> path option \<Rightarrow> path option" where
  "user_agents_home named home =
     (case named of Some p \<Rightarrow> Some p | None \<Rightarrow> map_option (\<lambda>h. h @ [''.agents'']) home)"

text \<open>\<open>home\<close> is the harness's own; \<open>named\<close> and \<open>hm\<close> are what the environment holds.\<close>

definition default_roots :: "path \<Rightarrow> path option \<Rightarrow> path list \<Rightarrow> path option \<Rightarrow> path option \<Rightarrow> skill_root list" where
  "default_roots project home custom named hm =
     [(project @ [''.tetanus'', ''skills''], Project), (project @ [''.agents'', ''skills''], ProjectAgents)]
     @ map (\<lambda>p. (p, Custom)) custom
     @ (case home of Some h \<Rightarrow> [(h @ [''skills''], OfUser)] | None \<Rightarrow> [])
     @ (case user_agents_home named hm of Some a \<Rightarrow> [(a @ [''skills''], UserAgents)] | None \<Rightarrow> [])"

record skill =
  sk_name :: string
  sk_description :: string
  sk_content :: string
  sk_source :: skill_source
  sk_path :: path
  sk_invocable :: bool

record skill_fault =
  sf_path :: path
  sf_reason :: string

record shadowed_skill =
  sh_name :: string
  sh_path :: path
  sh_source :: skill_source
  sh_by :: path

record roster =
  ro_skills :: "(string, skill) omap"
  ro_shadowed :: "shadowed_skill list"
  ro_faults :: "skill_fault list"

definition no_skills :: roster where
  "no_skills = \<lparr>ro_skills = [], ro_shadowed = [], ro_faults = []\<rparr>"

definition invocable_skills :: "roster \<Rightarrow> skill list" where
  "invocable_skills r = filter sk_invocable (map snd (ro_skills r))"

definition catalogue :: "roster \<Rightarrow> string" where
  "catalogue r = join [newline] (map (\<lambda>s. ''- '' @ sk_name s @ '': '' @ sk_description s) (invocable_skills r))"

section \<open>Reading one file\<close>

text \<open>\<^verbatim>\<open>Path::file_stem\<close> and \<^verbatim>\<open>Path::extension\<close> of a file name.\<close>

definition split_dot :: "string \<Rightarrow> string option \<times> string option" where
  "split_dot n =
     (if n = ''..'' then (Some n, None)
      else if CHR ''.'' \<notin> set n then (None, Some n)
      else let after = rev (takeWhile (\<lambda>c. c \<noteq> CHR ''.'') (rev n));
               before = take (length n - length after - 1) n
           in if before = [] then (Some n, None) else (Some before, Some after))"

definition file_stem :: "path \<Rightarrow> string" where
  "file_stem p =
     (if p = [] then [] else case split_dot (last p) of (Some b, _) \<Rightarrow> b | (None, Some a) \<Rightarrow> a | _ \<Rightarrow> [])"

definition file_extension :: "path \<Rightarrow> string option" where
  "file_extension p =
     (if p = [] then None else case split_dot (last p) of (Some _, a) \<Rightarrow> a | (None, _) \<Rightarrow> None)"

fun no_crlf :: "string \<Rightarrow> string" where
  "no_crlf [] = []"
| "no_crlf [c] = [c]"
| "no_crlf (c # d # s) =
     (if c = CHR 0x0D \<and> d = newline then newline # no_crlf s else c # no_crlf (d # s))"

definition after_prefix :: "string \<Rightarrow> string \<Rightarrow> string option" where
  "after_prefix t s = (if take (length t) s = t then Some (drop (length t) s) else None)"

definition first_at :: "string \<Rightarrow> string \<Rightarrow> nat option" where
  "first_at w s = find (occurs_at w s) [0..<length s + 1]"

definition unquoted :: "string \<Rightarrow> string" where
  "unquoted s =
     (let q = (\<lambda>c. c = CHR 0x22 \<or> c = CHR 0x27) in rev (dropWhile q (rev (dropWhile q s))))"

definition key_value :: "string \<Rightarrow> (string \<times> string) option" where
  "key_value line =
     (if CHR '':'' \<notin> set line then None
      else let key = trim (takeWhile (\<lambda>c. c \<noteq> CHR '':'') line);
               rest = tl (dropWhile (\<lambda>c. c \<noteq> CHR '':'') line)
           in if key = [] \<or> hd key = CHR ''#'' then None else Some (key, unquoted (trim rest)))"

definition split_skill :: "string \<Rightarrow> (string \<times> string) list \<times> string" where
  "split_skill s =
     (let normalized = no_crlf s in
      case after_prefix (''---'' @ [newline]) normalized of
        None \<Rightarrow> ([], normalized)
      | Some rest \<Rightarrow>
          (case first_at (newline # ''---'') rest of
             None \<Rightarrow> ([], normalized)
           | Some at \<Rightarrow>
               (let block = take at rest; body = drop at rest
                in (List.map_filter key_value (str_lines block),
                    case after_prefix ''---'' (dropWhile (\<lambda>c. c = newline) body) of Some b \<Rightarrow> b | None \<Rightarrow> body))))"

definition read_flag :: "string \<Rightarrow> bool option" where
  "read_flag v =
     (let w = ascii_lower (unquoted (trim v)) in
      if w \<in> {''true'', ''yes'', ''on''} then Some True
      else if w \<in> {''false'', ''no'', ''off''} then Some False else None)"

record declared =
  de_name :: "string option"
  de_description :: string
  de_invocable :: bool

definition declare_one :: "(string \<Rightarrow> string) \<Rightarrow> declared \<Rightarrow> string \<times> string \<Rightarrow> string + declared" where
  "declare_one debug d kv =
     (case kv of (key, v) \<Rightarrow>
        if key = ''name'' then Inr (d\<lparr>de_name := (if trim v = [] then None else Some (trim v))\<rparr>)
        else if key = ''description'' then Inr (d\<lparr>de_description := trim v\<rparr>)
        else if key = ''disable-model-invocation'' then
          (case read_flag v of
             Some off \<Rightarrow> Inr (d\<lparr>de_invocable := \<not> off\<rparr>)
           | None \<Rightarrow> Inl (''`disable-model-invocation` must be true or false, not '' @ debug v
               @ ''. A spelling this build cannot read would silently offer a skill a person meant to keep back''))
        else if key \<in> {''disableModelInvocation'', ''model-invocable'', ''modelInvocable''} then
          Inl (debug key @ '' is not a key this build reads; write `disable-model-invocation: true`'')
        else Inr d)"

fun read_frontmatter :: "(string \<Rightarrow> string) \<Rightarrow> declared \<Rightarrow> (string \<times> string) list \<Rightarrow> string + declared" where
  "read_frontmatter debug d [] = Inr d"
| "read_frontmatter debug d (kv # kvs) =
     (case declare_one debug d kv of Inl e \<Rightarrow> Inl e | Inr d1 \<Rightarrow> read_frontmatter debug d1 kvs)"

definition blank_declared :: declared where
  "blank_declared = \<lparr>de_name = None, de_description = [], de_invocable = True\<rparr>"

definition read_to_string :: "disk \<Rightarrow> path \<Rightarrow> string + string" where
  "read_to_string os p =
     (case read_bytes_of os p of
        Inl e \<Rightarrow> Inl (io_text e)
      | Inr s \<Rightarrow> if valid_utf8 s then Inr s else Inl ''stream did not contain valid UTF-8'')"

definition read_skill :: "(string \<Rightarrow> string) \<Rightarrow> disk \<Rightarrow> path \<Rightarrow> string \<Rightarrow> skill_source \<Rightarrow> string + skill" where
  "read_skill debug os p fallback src =
     (case read_to_string os p of
        Inl e \<Rightarrow> Inl (''it could not be read: '' @ e)
      | Inr s \<Rightarrow>
          (case split_skill s of (front, body) \<Rightarrow>
            (case read_frontmatter debug blank_declared front of
               Inl e \<Rightarrow> Inl e
             | Inr d \<Rightarrow>
                 (let name = (case de_name d of Some n \<Rightarrow> n | None \<Rightarrow> trim fallback) in
                  if name = [] then Inl ''it has no name, and its file name gave none either''
                  else if de_description d = [] then
                    Inl ''it has no `description`, so the model would have to guess what it is for''
                  else Inr \<lparr>sk_name = name, sk_description = de_description d, sk_content = trim body,
                            sk_source = src, sk_path = p, sk_invocable = de_invocable d\<rparr>))))"

section \<open>Discovery\<close>

definition flat_skill :: "path \<Rightarrow> bool" where
  "flat_skill p \<longleftrightarrow> file_extension p = Some ''md'' \<and> \<not> (p \<noteq> [] \<and> ascii_lower (last p) = ''skill.md'')"

definition follows_to_dir :: "disk \<Rightarrow> path \<Rightarrow> bool" where
  "follows_to_dir os p = (case metadata os p of Inr n \<Rightarrow> nd_body n = Directory | Inl _ \<Rightarrow> False)"

definition follows_to_file :: "disk \<Rightarrow> path \<Rightarrow> bool" where
  "follows_to_file os p = (case metadata os p of Inr n \<Rightarrow> (case nd_body n of Regular _ \<Rightarrow> True | _ \<Rightarrow> False) | Inl _ \<Rightarrow> False)"

definition candidate_of :: "disk \<Rightarrow> path \<Rightarrow> (path \<times> string) option" where
  "candidate_of os p =
     (if follows_to_dir os p then
        (if follows_to_file os (p @ [''SKILL.md'']) then Some (p @ [''SKILL.md''], file_stem p) else None)
      else if flat_skill p then Some (p, file_stem p) else None)"

text \<open>\<^const>\<open>None\<close> on the left is a root that is not there.\<close>

definition skill_candidates :: "disk \<Rightarrow> path \<Rightarrow> string option + (path \<times> string) list" where
  "skill_candidates os root =
     (case read_dir os root of
        Inl e \<Rightarrow> Inl (if e = Not_Found then None else Some (''the skill root could not be read: '' @ io_text e))
      | Inr (_, names) \<Rightarrow> Inr (sort (List.map_filter (\<lambda>n. candidate_of os (root @ [n])) names)))"

definition take_skill ::
  "(string \<Rightarrow> string) \<Rightarrow> disk \<Rightarrow> skill_source \<Rightarrow> roster \<Rightarrow> path \<times> string \<Rightarrow> roster"
where
  "take_skill debug os src r c =
     (case c of (p, fallback) \<Rightarrow>
       (case read_skill debug os p fallback src of
          Inl e \<Rightarrow> r\<lparr>ro_faults := ro_faults r @ [\<lparr>sf_path = p, sf_reason = e\<rparr>]\<rparr>
        | Inr s \<Rightarrow>
            (case map_of (ro_skills r) (sk_name s) of
               Some kept \<Rightarrow>
                 r\<lparr>ro_shadowed := ro_shadowed r
                     @ [\<lparr>sh_name = sk_name s, sh_path = sk_path s, sh_source = sk_source s, sh_by = sk_path kept\<rparr>]\<rparr>
             | None \<Rightarrow> r\<lparr>ro_skills := om_insert (sk_name s) s (ro_skills r)\<rparr>)))"

definition discover_root :: "(string \<Rightarrow> string) \<Rightarrow> disk \<Rightarrow> roster \<Rightarrow> skill_root \<Rightarrow> roster" where
  "discover_root debug os r root =
     (case skill_candidates os (fst root) of
        Inr found \<Rightarrow> foldl (take_skill debug os (snd root)) r found
      | Inl None \<Rightarrow> r
      | Inl (Some why) \<Rightarrow> r\<lparr>ro_faults := ro_faults r @ [\<lparr>sf_path = fst root, sf_reason = why\<rparr>]\<rparr>)"

definition discover :: "(string \<Rightarrow> string) \<Rightarrow> disk \<Rightarrow> skill_root list \<Rightarrow> roster" where
  "discover debug os roots = foldl (discover_root debug os) no_skills roots"

section \<open>The tool\<close>

definition skill_tool :: "(string \<Rightarrow> string) \<Rightarrow> roster \<Rightarrow> json \<Rightarrow> tool_outcome" where
  "skill_tool debug r args =
     (let name = trim (case Option.bind (jget args ''name'') as_str of Some s \<Rightarrow> s | None \<Rightarrow> []) in
      case map_of (ro_skills r) name of
        None \<Rightarrow>
          (let available = catalogue r in
           outcome_failed (if available = [] then
               ''There is no skill named '' @ debug name @ '', and this workspace defines none.''
             else ''There is no skill named '' @ debug name @ ''. Available:'' @ newline # available))
      | Some s \<Rightarrow>
          if \<not> sk_invocable s then
            outcome_failed (''The skill '' @ debug name @ '' is not one you may invoke: it is run deliberately by a ''
              @ ''person.'')
          else outcome_ok (''# Skill: '' @ sk_name s @ [newline, newline] @ sk_content s @ [newline]))"

section \<open>Every candidate is accounted for\<close>

definition found_skills :: "disk \<Rightarrow> skill_root list \<Rightarrow> ((path \<times> string) \<times> skill_source) list" where
  "found_skills os roots =
     concat (map (\<lambda>r. case skill_candidates os (fst r) of Inr cs \<Rightarrow> map (\<lambda>c. (c, snd r)) cs | Inl _ \<Rightarrow> []) roots)"

definition refused_roots :: "disk \<Rightarrow> skill_root list \<Rightarrow> skill_root list" where
  "refused_roots os roots = filter (\<lambda>r. case skill_candidates os (fst r) of Inl (Some _) \<Rightarrow> True | _ \<Rightarrow> False) roots"

definition read_found :: "(string \<Rightarrow> string) \<Rightarrow> disk \<Rightarrow> (path \<times> string) \<times> skill_source \<Rightarrow> skill option" where
  "read_found debug os f =
     (case read_skill debug os (fst (fst f)) (snd (fst f)) (snd f) of Inr s \<Rightarrow> Some s | Inl _ \<Rightarrow> None)"

definition working_skills :: "(string \<Rightarrow> string) \<Rightarrow> disk \<Rightarrow> ((path \<times> string) \<times> skill_source) list \<Rightarrow> skill list" where
  "working_skills debug os fs = List.map_filter (read_found debug os) fs"

definition lost_to :: "roster \<Rightarrow> skill list \<Rightarrow> shadowed_skill \<Rightarrow> bool" where
  "lost_to r ws x \<longleftrightarrow>
     (case map_of (ro_skills r) (sh_name x) of None \<Rightarrow> False | Some k \<Rightarrow> sh_by x = sk_path k)
     \<and> list_ex (\<lambda>w. sk_name w = sh_name x \<and> sk_path w = sh_path x \<and> sk_source w = sh_source x) ws"

definition accounts :: "(string \<Rightarrow> string) \<Rightarrow> disk \<Rightarrow> roster \<Rightarrow> ((path \<times> string) \<times> skill_source) list \<Rightarrow> nat \<Rightarrow> bool" where
  "accounts debug os r fs refusals \<longleftrightarrow>
     (\<forall>n. map_of (ro_skills r) n = find (\<lambda>s. sk_name s = n) (working_skills debug os fs))
     \<and> length (ro_skills r) + length (ro_shadowed r) = length (working_skills debug os fs)
     \<and> list_all (lost_to r (working_skills debug os fs)) (ro_shadowed r)
     \<and> length (ro_faults r) + length (working_skills debug os fs) = length fs + refusals"

lemma working_append: "working_skills debug os (xs @ ys) = working_skills debug os xs @ working_skills debug os ys"
  by (simp add: working_skills_def map_filter_def)

lemma length_om_insert: "map_of m k = None \<Longrightarrow> length (om_insert k v m) = Suc (length m)"
  by (induction k v m rule: om_insert.induct) (auto split: if_splits)

lemma find_snoc: "find P (xs @ [x]) = (case find P xs of Some y \<Rightarrow> Some y | None \<Rightarrow> if P x then Some x else None)"
  by (induction xs) auto

lemma lost_to_faults [simp]: "lost_to (r\<lparr>ro_faults := fs\<rparr>) = lost_to r"
  by (simp add: lost_to_def fun_eq_iff)

lemma accounts_take:
  assumes "accounts debug os r fs n"
  shows "accounts debug os (take_skill debug os src r c) (fs @ [(c, src)]) n"
proof -
  obtain p fallback where c: "c = (p, fallback)" by fastforce
  show ?thesis
  proof (cases "read_skill debug os p fallback src")
    case (Inl e)
    then have "working_skills debug os [(c, src)] = []" by (simp add: working_skills_def List.map_filter_simps read_found_def c)
    with Inl assms show ?thesis
      by (simp add: take_skill_def c accounts_def working_append)
  next
    case (Inr s)
    then have w: "working_skills debug os [(c, src)] = [s]"
      by (simp add: working_skills_def List.map_filter_simps read_found_def c)
    show ?thesis
    proof (cases "map_of (ro_skills r) (sk_name s)")
      case None
      then have "take_skill debug os src r c = r\<lparr>ro_skills := om_insert (sk_name s) s (ro_skills r)\<rparr>"
        using Inr by (simp add: take_skill_def c)
      with None w assms show ?thesis
        by (auto simp: accounts_def lost_to_def list_all_iff length_om_insert find_snoc working_append split: option.splits)
    next
      case (Some k)
      then have t: "take_skill debug os src r c = r\<lparr>ro_shadowed := ro_shadowed r
          @ [\<lparr>sh_name = sk_name s, sh_path = sk_path s, sh_source = sk_source s, sh_by = sk_path k\<rparr>]\<rparr>"
        using Inr by (simp add: take_skill_def c)
      have "find (\<lambda>w. sk_name w = n) (working_skills debug os fs @ [s]) = find (\<lambda>w. sk_name w = n) (working_skills debug os fs)"
        for n using assms Some by (auto simp: accounts_def find_snoc split: option.splits)
      with t Some w assms show ?thesis by (auto simp: accounts_def lost_to_def list_all_iff working_append)
    qed
  qed
qed

lemma accounts_takes:
  "accounts debug os r fs n \<Longrightarrow> accounts debug os (foldl (take_skill debug os src) r cs) (fs @ map (\<lambda>c. (c, src)) cs) n"
proof (induction cs arbitrary: r fs)
  case (Cons c cs)
  from Cons.IH [OF accounts_take [OF Cons.prems, of src c]] show ?case by simp
qed simp

lemma accounts_discover:
  "accounts debug os (discover debug os roots) (found_skills os roots) (length (refused_roots os roots))"
proof (induction roots rule: rev_induct)
  case Nil
  show ?case
    by (simp add: discover_def no_skills_def found_skills_def working_skills_def refused_roots_def accounts_def
        List.map_filter_simps)
next
  case (snoc root roots)
  consider (gone) "skill_candidates os (fst root) = Inl None"
    | (barred) why where "skill_candidates os (fst root) = Inl (Some why)"
    | (found) cs where "skill_candidates os (fst root) = Inr cs"
    by (cases "skill_candidates os (fst root)") (metis option.exhaust, blast)
  then show ?case
  proof cases
    case gone
    with snoc show ?thesis by (simp add: discover_def discover_root_def found_skills_def refused_roots_def)
  next
    case barred
    with snoc show ?thesis
      by (simp add: discover_def discover_root_def found_skills_def refused_roots_def accounts_def)
  next
    case found
    from accounts_takes [OF snoc, of "snd root" cs] found show ?thesis
      by (simp add: discover_def discover_root_def found_skills_def refused_roots_def)
  qed
qed

text \<open>
  No candidate disappears.  Of all the skill files found in the roots, in the order of the roots,
  each name goes to the first that reads as a skill; every other working one is recorded as
  shadowed by it; and every file that does not read, and every root that could not, is a fault.
\<close>

theorem skills_accounted:
  "(map_of (ro_skills (discover debug os roots)) n
      = find (\<lambda>s. sk_name s = n) (working_skills debug os (found_skills os roots)))
    \<and> length (ro_skills (discover debug os roots)) + length (ro_shadowed (discover debug os roots))
        + length (ro_faults (discover debug os roots)) = length (found_skills os roots) + length (refused_roots os roots)
    \<and> list_all (lost_to (discover debug os roots) (working_skills debug os (found_skills os roots)))
        (ro_shadowed (discover debug os roots))"
  using accounts_discover [of debug os roots] by (auto simp: accounts_def)

section \<open>A skill kept back from the model\<close>

text \<open>What a file's header must say of a skill the model may have.\<close>

definition offers :: "(string \<times> string) list \<Rightarrow> bool" where
  "offers kvs \<longleftrightarrow>
     list_all (\<lambda>kv. fst kv \<notin> {''disableModelInvocation'', ''model-invocable'', ''modelInvocable''}) kvs
     \<and> (case find_last (\<lambda>kv. fst kv = ''disable-model-invocation'') kvs of
          None \<Rightarrow> True | Some kv \<Rightarrow> read_flag (snd kv) = Some False)"

lemma find_last_Cons: "find_last P (x # xs) = (case find_last P xs of Some y \<Rightarrow> Some y | None \<Rightarrow> if P x then Some x else None)"
  by (simp add: find_last_def find_snoc)

lemma read_frontmatter_effect:
  "read_frontmatter debug d kvs = Inr d1 \<Longrightarrow>
     list_all (\<lambda>kv. fst kv \<notin> {''disableModelInvocation'', ''model-invocable'', ''modelInvocable''}) kvs
     \<and> (de_invocable d1 \<longleftrightarrow> (case find_last (\<lambda>kv. fst kv = ''disable-model-invocation'') kvs of
          None \<Rightarrow> de_invocable d | Some kv \<Rightarrow> read_flag (snd kv) = Some False))"
proof (induction kvs arbitrary: d)
  case (Cons kv kvs)
  then obtain d2 where d2: "declare_one debug d kv = Inr d2" and r: "read_frontmatter debug d2 kvs = Inr d1"
    by (auto split: sum.splits)
  have "fst kv \<notin> {''disableModelInvocation'', ''model-invocable'', ''modelInvocable''}
      \<and> (de_invocable d2 \<longleftrightarrow> (if fst kv = ''disable-model-invocation'' then read_flag (snd kv) = Some False else de_invocable d))"
    using d2 by (cases kv) (auto simp: declare_one_def split: if_splits option.splits)
  with Cons.IH [OF r] show ?case by (auto simp: find_last_Cons split: option.splits)
qed simp

lemma read_skill_offers:
  assumes "read_skill debug os p fb src = Inr s"
  shows "sk_path s = p \<and> (\<exists>w. read_to_string os p = Inr w \<and> (sk_invocable s \<longleftrightarrow> offers (fst (split_skill w)))
    \<and> sk_content s = trim (snd (split_skill w)))"
proof -
  obtain w where w: "read_to_string os p = Inr w" using assms by (auto simp: read_skill_def split: sum.splits)
  obtain front body where sp: "split_skill w = (front, body)" by fastforce
  obtain d where d: "read_frontmatter debug blank_declared front = Inr d"
    using assms w sp by (auto simp: read_skill_def split: sum.splits)
  from assms w sp d have "sk_path s = p" "sk_invocable s = de_invocable d" "sk_content s = trim body"
    by (auto simp: read_skill_def Let_def split: if_splits option.splits)
  with read_frontmatter_effect [OF d] w sp show ?thesis by (auto simp: offers_def blank_declared_def split: option.splits)
qed

lemma find_working: "find P (working_skills debug os fs) = Some s \<Longrightarrow>
    P s \<and> (\<exists>p fb src. ((p, fb), src) \<in> set fs \<and> read_skill debug os p fb src = Inr s)"
proof -
  assume "find P (working_skills debug os fs) = Some s"
  then have "P s" and "s \<in> set (working_skills debug os fs)" by (auto simp: find_Some_iff)
  then show ?thesis by (force simp: working_skills_def map_filter_def read_found_def split: sum.splits)
qed


text \<open>A root with one skill.\<close>

definition demo_body :: string where
  "demo_body = ''---'' @ [newline] @ ''description: x'' @ [newline] @ ''---'' @ [newline] @ ''do it''"

definition demo_disk :: disk where
  "demo_disk = \<lparr>entries =
       [([], \<lparr>nd_body = Directory, nd_dev = 0, nd_ino = 1, nd_mtime = None, nd_extent = 0\<rparr>),
        ([''s''], \<lparr>nd_body = Directory, nd_dev = 0, nd_ino = 2, nd_mtime = None, nd_extent = 0\<rparr>),
        ([''s'', ''a.md''], \<lparr>nd_body = Regular demo_body, nd_dev = 0, nd_ino = 3, nd_mtime = None, nd_extent = 0\<rparr>)],
     refused = (\<lambda>_. None), barred = (\<lambda>_. None)\<rparr>"


subsection \<open>A header that ends early\<close>

definition dashed_file :: string where
  "dashed_file = ''---'' @ [newline] @ ''name: d'' @ [newline] @ ''description: x'' @ [newline] @ ''---- keep'' @ [newline]
     @ ''disable-model-invocation: true'' @ [newline] @ ''---'' @ [newline] @ ''body''"

text \<open>
  A line that only starts with three dashes ends the header.  The key after it, which keeps the
  skill from the model, becomes part of the instructions, and the skill is offered.
\<close>

theorem dashed_line_ends_header:
  "split_skill dashed_file =
     ([(''name'', ''d''), (''description'', ''x'')],
      ''- keep'' @ [newline] @ ''disable-model-invocation: true'' @ [newline] @ ''---'' @ [newline] @ ''body'')
   \<and> offers (fst (split_skill dashed_file))"
proof -
  have a: "split_skill dashed_file =
     ([(''name'', ''d''), (''description'', ''x'')],
      ''- keep'' @ [newline] @ ''disable-model-invocation: true'' @ [newline] @ ''---'' @ [newline] @ ''body'')"
    by code_simp
  then show ?thesis by (simp add: offers_def find_last_def)
qed

end
