(* ===== verification/Hooks.thy ===== *)
theory Hooks
  imports Tools Inbox Files
begin

text \<open>
  The hook protocol, \<^verbatim>\<open>crates/hooks\<close>: programs a deployment runs at points of a turn.  Here is what is
  decided without running anything: which hooks a pattern selects (\<^verbatim>\<open>matcher.rs\<close>), what a hook said
  (\<^verbatim>\<open>types.rs\<close>, \<^verbatim>\<open>codec.rs\<close>), what several said together (\<^verbatim>\<open>merge.rs\<close>), the two configuration
  formats (\<^verbatim>\<open>claude_code.rs\<close>, \<^verbatim>\<open>codex.rs\<close>), what is written to a hook (\<^verbatim>\<open>payload.rs\<close>) and the audit
  trail (\<^verbatim>\<open>events.rs\<close>, \<^verbatim>\<open>invariant.rs\<close>).  \<open>rx\<close> is the regular-expression engine, \<^const>\<open>None\<close> for a
  pattern it refuses; \<open>parse_json\<close> and \<open>show_json\<close> are the JSON text codec.
\<close>

section \<open>What a hook may say\<close>

datatype hook_decision = Approve | AllowCall | Block | DenyCall | AskUser

datatype merged_decision = NoWord | Permitted | MustAsk | Forbidden

fun severity :: "merged_decision \<Rightarrow> nat" where
  "severity NoWord = 0"
| "severity Permitted = 1"
| "severity MustAsk = 2"
| "severity Forbidden = 3"

instantiation merged_decision :: linorder
begin

definition less_eq_merged_decision :: "merged_decision \<Rightarrow> merged_decision \<Rightarrow> bool" where
  "less_eq_merged_decision a b \<longleftrightarrow> severity a \<le> severity b"

definition less_merged_decision :: "merged_decision \<Rightarrow> merged_decision \<Rightarrow> bool" where
  "less_merged_decision a b \<longleftrightarrow> severity a < severity b"

instance
proof
  fix a b :: merged_decision
  show "a \<le> b \<Longrightarrow> b \<le> a \<Longrightarrow> a = b" by (cases a; cases b) (simp_all add: less_eq_merged_decision_def)
qed (auto simp: less_eq_merged_decision_def less_merged_decision_def)

end

fun merged_of :: "hook_decision \<Rightarrow> merged_decision" where
  "merged_of Approve = Permitted"
| "merged_of AllowCall = Permitted"
| "merged_of AskUser = MustAsk"
| "merged_of Block = Forbidden"
| "merged_of DenyCall = Forbidden"

record hook_output =
  ho_exit :: "int option"
  ho_stdout :: string
  ho_stderr :: string
  ho_decision :: "hook_decision option"
  ho_reason :: "string option"
  ho_proceed :: "bool option"
  ho_stop_reason :: "string option"
  ho_context :: "string option"
  ho_message :: "string option"
  ho_event :: "string option"
  ho_updated :: "(string, json) omap option"

definition blank_output :: "int option \<Rightarrow> string \<Rightarrow> string \<Rightarrow> hook_output" where
  "blank_output code out err =
     \<lparr>ho_exit = code, ho_stdout = out, ho_stderr = err, ho_decision = None, ho_reason = None, ho_proceed = None,
      ho_stop_reason = None, ho_context = None, ho_message = None, ho_event = None, ho_updated = None\<rparr>"

record hook_outcome =
  mo_decision :: merged_decision
  mo_reason :: "string option"
  mo_stop :: bool
  mo_stop_reason :: "string option"
  mo_contexts :: "string list"
  mo_messages :: "string list"

definition no_outcome :: hook_outcome where
  "no_outcome =
     \<lparr>mo_decision = NoWord, mo_reason = None, mo_stop = False, mo_stop_reason = None, mo_contexts = [], mo_messages = []\<rparr>"

section \<open>Decoding\<close>

definition obj_str :: "(string, json) omap \<Rightarrow> string \<Rightarrow> string option" where
  "obj_str m k = Option.bind (map_of m k) as_str"

definition obj_bool :: "(string, json) omap \<Rightarrow> string \<Rightarrow> bool option" where
  "obj_bool m k = (case map_of m k of Some (JBool b) \<Rightarrow> Some b | _ \<Rightarrow> None)"

fun as_object :: "json \<Rightarrow> (string, json) omap option" where
  "as_object (JObj m) = Some m"
| "as_object _ = None"

definition top_level_decision :: "string option \<Rightarrow> hook_decision option" where
  "top_level_decision w =
     (if w = Some ''approve'' then Some Approve else if w = Some ''block'' then Some Block else None)"

definition permission_decision :: "string option \<Rightarrow> hook_decision option" where
  "permission_decision w =
     (if w = Some ''allow'' then Some AllowCall else if w = Some ''deny'' then Some DenyCall
      else if w = Some ''ask'' then Some AskUser else None)"

definition or_old :: "'a option \<Rightarrow> 'a option \<Rightarrow> 'a option" where
  "or_old new old = (case new of Some x \<Rightarrow> Some x | None \<Rightarrow> old)"

definition apply_structured :: "hook_output \<Rightarrow> (string, json) omap \<Rightarrow> string option \<Rightarrow> hook_output" where
  "apply_structured r m expected =
     (let r1 = r\<lparr>ho_proceed := or_old (obj_bool m ''continue'') (ho_proceed r),
                 ho_stop_reason := or_old (obj_str m ''stopReason'') (ho_stop_reason r),
                 ho_message := or_old (obj_str m ''systemMessage'') (ho_message r),
                 ho_decision := or_old (top_level_decision (obj_str m ''decision'')) (ho_decision r),
                 ho_reason := or_old (obj_str m ''reason'') (ho_reason r)\<rparr>
      in case Option.bind (map_of m ''hookSpecificOutput'') as_object of
           None \<Rightarrow> r1
         | Some sp \<Rightarrow>
             (let claimed = obj_str sp ''hookEventName''; r2 = r1\<lparr>ho_event := claimed\<rparr>
              in if expected \<noteq> None \<and> claimed \<noteq> expected then r2
                 else r2\<lparr>ho_decision := or_old (permission_decision (obj_str sp ''permissionDecision'')) (ho_decision r2),
                         ho_reason := or_old (obj_str sp ''permissionDecisionReason'') (ho_reason r2),
                         ho_context := or_old (obj_str sp ''additionalContext'') (ho_context r2),
                         ho_updated := or_old (Option.bind (map_of sp ''updatedInput'') as_object) (ho_updated r2)\<rparr>))"

definition BLOCKING_EXIT_CODE :: int where
  "BLOCKING_EXIT_CODE = 2"

definition parse_hook_output ::
  "(string \<Rightarrow> json option) \<Rightarrow> int option \<Rightarrow> string \<Rightarrow> string \<Rightarrow> string option \<Rightarrow> hook_output"
where
  "parse_hook_output parse_json code out err expected =
     (let stdout = trim out; stderr = trim err; r = blank_output code stdout stderr
      in if code = Some BLOCKING_EXIT_CODE then
           r\<lparr>ho_decision := Some Block, ho_reason := (if stderr = [] then None else Some stderr)\<rparr>
         else if code = Some 0 \<and> stdout \<noteq> [] \<and> hd stdout = CHR ''{'' then
           (case Option.bind (parse_json stdout) as_object of Some m \<Rightarrow> apply_structured r m expected | None \<Rightarrow> r)
         else r)"

section \<open>Several answers\<close>

definition non_empty :: "string option \<Rightarrow> string option" where
  "non_empty v = (case v of Some w \<Rightarrow> if w = [] then None else Some w | None \<Rightarrow> None)"

definition merge_step ::
  "hook_outcome \<times> (merged_decision \<times> string) list \<Rightarrow> hook_output \<Rightarrow> hook_outcome \<times> (merged_decision \<times> string) list"
where
  "merge_step st r =
     (case st of (o1, reasons) \<Rightarrow>
        (let d = (case ho_decision r of None \<Rightarrow> NoWord | Some x \<Rightarrow> merged_of x);
             halts = ho_proceed r = Some False \<and> \<not> mo_stop o1
         in (o1\<lparr>mo_decision := max (mo_decision o1) d,
                mo_stop := mo_stop o1 \<or> halts,
                mo_stop_reason := (if halts then ho_stop_reason r else mo_stop_reason o1),
                mo_contexts := mo_contexts o1 @ (case non_empty (ho_context r) of Some w \<Rightarrow> [w] | None \<Rightarrow> []),
                mo_messages := mo_messages o1 @ (case non_empty (ho_message r) of Some w \<Rightarrow> [w] | None \<Rightarrow> [])\<rparr>,
             reasons @ (if d = Forbidden \<or> d = MustAsk then
                 (case non_empty (ho_reason r) of Some w \<Rightarrow> [(d, w)] | None \<Rightarrow> []) else []))))"

definition merge_hook_outputs :: "hook_output list \<Rightarrow> hook_outcome" where
  "merge_hook_outputs rs =
     (case foldl merge_step (no_outcome, []) rs of (o1, reasons) \<Rightarrow>
        (let winning = map snd (filter (\<lambda>p. fst p = mo_decision o1) reasons)
         in if winning = [] then o1 else o1\<lparr>mo_reason := Some (join [newline, newline] winning)\<rparr>))"

section \<open>Which hooks a pattern selects\<close>

datatype matcher_mode = ClaudeMode | CodexMode

fun mode_name :: "matcher_mode \<Rightarrow> string" where
  "mode_name ClaudeMode = ''claude-code''"
| "mode_name CodexMode = ''codex''"

definition is_match_all :: "string option \<Rightarrow> bool" where
  "is_match_all w \<longleftrightarrow> w = None \<or> w = Some [] \<or> w = Some ''*''"

definition ascii_alnum :: "char \<Rightarrow> bool" where
  "ascii_alnum c \<longleftrightarrow>
     (let n = of_char c :: nat in 48 \<le> n \<and> n \<le> 57 \<or> 65 \<le> n \<and> n \<le> 90 \<or> 97 \<le> n \<and> n \<le> 122)"

definition is_claude_literal :: "string \<Rightarrow> bool" where
  "is_claude_literal p \<longleftrightarrow> p \<noteq> [] \<and> list_all (\<lambda>c. ascii_alnum c \<or> c = CHR ''_'' \<or> c = CHR ''|'') p"

fun split_bar :: "string \<Rightarrow> string list" where
  "split_bar [] = [[]]"
| "split_bar (c # s) =
     (if c = CHR ''|'' then [] # split_bar s
      else (case split_bar s of [] \<Rightarrow> [[c]] | w # ws \<Rightarrow> (c # w) # ws))"

definition matches_matcher ::
  "(string \<Rightarrow> (string \<Rightarrow> bool) option) \<Rightarrow> string option \<Rightarrow> string \<Rightarrow> matcher_mode \<Rightarrow> bool"
where
  "matches_matcher rx w query mode =
     (if is_match_all w then True
      else (let p = (case w of Some p \<Rightarrow> p | None \<Rightarrow> []) in
            if mode = ClaudeMode \<and> is_claude_literal p then list_ex (\<lambda>a. a = query) (split_bar p)
            else (case rx p of Some hits \<Rightarrow> hits query | None \<Rightarrow> False)))"

text \<open>The pattern as JSON would quote it; \<open>hex4\<close> is the four digits of a control character.\<close>

definition hex4 :: "char \<Rightarrow> string" where
  "hex4 c =
     (let n = of_char c :: nat; d = (\<lambda>k. if k < 10 then char_of (48 + k) else char_of (87 + k))
      in [CHR ''0'', CHR ''0'', d (n div 16), d (n mod 16)])"

definition quoted_char :: "char \<Rightarrow> string" where
  "quoted_char c =
     (if c = CHR 0x22 then [CHR 0x5C, CHR 0x22] else if c = CHR 0x5C then [CHR 0x5C, CHR 0x5C]
      else if c = newline then [CHR 0x5C, CHR ''n''] else if c = CHR 0x0D then [CHR 0x5C, CHR ''r'']
      else if c = CHR 0x09 then [CHR 0x5C, CHR ''t'']
      else if (of_char c :: nat) < 32 then [CHR 0x5C, CHR ''u''] @ hex4 c else [c])"

definition quoted_pattern :: "string \<Rightarrow> string" where
  "quoted_pattern p = CHR 0x22 # concat (map quoted_char p) @ [CHR 0x22]"

definition matcher_diagnostic :: "(string \<Rightarrow> (string \<Rightarrow> bool) option) \<Rightarrow> string option \<Rightarrow> matcher_mode \<Rightarrow> string option" where
  "matcher_diagnostic rx w mode =
     (if is_match_all w then None
      else (let p = (case w of Some p \<Rightarrow> p | None \<Rightarrow> []) in
            if mode = ClaudeMode \<and> is_claude_literal p then None
            else (case rx p of
                Some _ \<Rightarrow> None
              | None \<Rightarrow> Some (''invalid '' @ mode_name mode @ '' regex matcher '' @ quoted_pattern p))))"

section \<open>Configuration\<close>

record command_hook =
  ch_command :: string
  ch_timeout :: "nat option"

record matcher_group =
  mg_matcher :: "string option"
  mg_hooks :: "command_hook list"

text \<open>A hook that was recognised and will not run: the event, and its type or the reason.\<close>

record skipped_hook =
  sk_event :: string
  sk_why :: string

record hook_config =
  hc_groups :: "(string \<times> matcher_group list) list"
  hc_skipped :: "skipped_hook list"

definition no_config :: hook_config where
  "no_config = \<lparr>hc_groups = [], hc_skipped = []\<rparr>"

definition event_groups :: "hook_config \<Rightarrow> string \<Rightarrow> matcher_group list option" where
  "event_groups c e = map_option snd (find (\<lambda>p. fst p = e) (hc_groups c))"

definition CLAUDE_EVENTS :: "string list" where
  "CLAUDE_EVENTS = [''SessionStart'', ''UserPromptSubmit'', ''PreToolUse'', ''PostToolUse'', ''Stop'', ''SubagentStart'', ''SubagentStop'']"

definition CODEX_EVENTS :: "string list" where
  "CODEX_EVENTS = [''PreToolUse'', ''PostToolUse'', ''SessionStart'', ''UserPromptSubmit'', ''Stop'']"

definition EVENTS_WITHOUT_A_SUBJECT :: "string list" where
  "EVENTS_WITHOUT_A_SUBJECT = [''UserPromptSubmit'', ''Stop'']"

record substitution_vars =
  sv_plugin :: "string option"
  sv_project :: "string option"

definition substitute_command :: "string \<Rightarrow> substitution_vars \<Rightarrow> string" where
  "substitute_command c vs =
     (let c1 = (case sv_plugin vs of Some r \<Rightarrow> replace_matches ''${CLAUDE_PLUGIN_ROOT}'' r c | None \<Rightarrow> c)
      in case sv_project vs of Some d \<Rightarrow> replace_matches ''${CLAUDE_PROJECT_DIR}'' d c1 | None \<Rightarrow> c1)"

text \<open>One entry: a hook to run, one to report as skipped, or nothing.\<close>

definition hook_type :: "(string, json) omap \<Rightarrow> string" where
  "hook_type h = (case obj_str h ''type'' of Some t \<Rightarrow> t | None \<Rightarrow> ''command'')"

definition obj_u64 :: "(string, json) omap \<Rightarrow> string \<Rightarrow> nat option" where
  "obj_u64 m k = Option.bind (map_of m k) as_u64"

definition claude_hook :: "substitution_vars \<Rightarrow> string \<Rightarrow> json \<Rightarrow> command_hook option \<times> skipped_hook list" where
  "claude_hook vs e j =
     (case as_object j of
        None \<Rightarrow> (None, [])
      | Some h \<Rightarrow>
          if hook_type h \<noteq> ''command'' then (None, [\<lparr>sk_event = e, sk_why = hook_type h\<rparr>])
          else (case obj_str h ''command'' of
              None \<Rightarrow> (None, [])
            | Some c \<Rightarrow> (Some \<lparr>ch_command = substitute_command c vs, ch_timeout = obj_u64 h ''timeout''\<rparr>, [])))"

definition codex_hook :: "string \<Rightarrow> json \<Rightarrow> command_hook option \<times> skipped_hook list" where
  "codex_hook e j =
     (case as_object j of
        None \<Rightarrow> (None, [])
      | Some h \<Rightarrow>
          if hook_type h \<noteq> ''command'' then
            (None, [\<lparr>sk_event = e, sk_why = ''unsupported '' @ [CHR 0x22] @ hook_type h @ [CHR 0x22] @ '' hook''\<rparr>])
          else if map_of h ''async'' = Some (JBool True) then (None, [\<lparr>sk_event = e, sk_why = ''async hook''\<rparr>])
          else (case obj_str h ''command'' of
              None \<Rightarrow> (None, [])
            | Some c \<Rightarrow>
                (Some \<lparr>ch_command = c,
                       ch_timeout = (case obj_u64 h ''timeout'' of Some n \<Rightarrow> Some n | None \<Rightarrow> obj_u64 h ''timeoutSec'')\<rparr>, [])))"

text \<open>A group: nothing runnable, a group, or a matcher that can never match.\<close>

definition read_hook_group ::
  "(string \<Rightarrow> (string \<Rightarrow> bool) option) \<Rightarrow> matcher_mode \<Rightarrow> (string \<Rightarrow> json \<Rightarrow> command_hook option \<times> skipped_hook list)
   \<Rightarrow> string \<Rightarrow> json \<Rightarrow> string + matcher_group option \<times> skipped_hook list"
where
  "read_hook_group rx mode read e j =
     (case as_object j of
        None \<Rightarrow> Inr (None, [])
      | Some g \<Rightarrow>
          (case Option.bind (map_of g ''hooks'') as_array of
             None \<Rightarrow> Inr (None, [])
           | Some raw \<Rightarrow>
               (let hooks = List.map_filter (\<lambda>h. fst (read e h)) raw; skipped = concat (map (\<lambda>h. snd (read e h)) raw);
                    w = (if e \<in> set EVENTS_WITHOUT_A_SUBJECT then None else obj_str g ''matcher'')
                in if hooks = [] then Inr (None, skipped)
                   else case matcher_diagnostic rx w mode of
                       Some why \<Rightarrow> Inl (why @ '' on event '' @ [CHR 0x22] @ e @ [CHR 0x22])
                     | None \<Rightarrow> Inr (Some \<lparr>mg_matcher = w, mg_hooks = hooks\<rparr>, skipped))))"

fun read_hook_groups ::
  "(string \<Rightarrow> (string \<Rightarrow> bool) option) \<Rightarrow> matcher_mode \<Rightarrow> (string \<Rightarrow> json \<Rightarrow> command_hook option \<times> skipped_hook list)
   \<Rightarrow> string \<Rightarrow> json list \<Rightarrow> matcher_group list \<times> skipped_hook list \<Rightarrow> string + matcher_group list \<times> skipped_hook list"
where
  "read_hook_groups rx mode read e [] acc = Inr acc"
| "read_hook_groups rx mode read e (j # js) (gs, skipped) =
     (case read_hook_group rx mode read e j of
        Inl why \<Rightarrow> Inl why
      | Inr (g, sk) \<Rightarrow>
          read_hook_groups rx mode read e js (gs @ (case g of Some x \<Rightarrow> [x] | None \<Rightarrow> []), skipped @ sk))"

fun read_hook_events ::
  "(string \<Rightarrow> (string \<Rightarrow> bool) option) \<Rightarrow> matcher_mode \<Rightarrow> (string \<Rightarrow> json \<Rightarrow> command_hook option \<times> skipped_hook list)
   \<Rightarrow> (string, json) omap \<Rightarrow> string list \<Rightarrow> hook_config \<Rightarrow> string + hook_config"
where
  "read_hook_events rx mode read m [] c = Inr c"
| "read_hook_events rx mode read m (e # es) c =
     (case Option.bind (map_of m e) as_array of
        None \<Rightarrow> read_hook_events rx mode read m es c
      | Some raw \<Rightarrow>
          (case read_hook_groups rx mode read e raw ([], hc_skipped c) of
             Inl why \<Rightarrow> Inl why
           | Inr (gs, skipped) \<Rightarrow>
               read_hook_events rx mode read m es
                 \<lparr>hc_groups = hc_groups c @ (if gs = [] then [] else [(e, gs)]), hc_skipped = skipped\<rparr>))"

definition hooks_map :: "(string, json) omap \<Rightarrow> (string, json) omap" where
  "hooks_map root = (case Option.bind (map_of root ''hooks'') as_object of Some m \<Rightarrow> m | None \<Rightarrow> root)"

definition parse_claude_config ::
  "(string \<Rightarrow> (string \<Rightarrow> bool) option) \<Rightarrow> json \<Rightarrow> substitution_vars \<Rightarrow> string + hook_config"
where
  "parse_claude_config rx raw vs =
     (case as_object raw of
        None \<Rightarrow> Inr no_config
      | Some root \<Rightarrow> read_hook_events rx ClaudeMode (claude_hook vs) (hooks_map root) CLAUDE_EVENTS no_config)"

definition parse_codex_config :: "(string \<Rightarrow> (string \<Rightarrow> bool) option) \<Rightarrow> json \<Rightarrow> string + hook_config" where
  "parse_codex_config rx raw =
     (case as_object raw of
        None \<Rightarrow> Inr no_config
      | Some root \<Rightarrow> read_hook_events rx CodexMode codex_hook (hooks_map root) CODEX_EVENTS no_config)"

section \<open>What a hook is told\<close>

record payload_context =
  px_session :: string
  px_transcript :: "string option"
  px_cwd :: string
  px_turn :: nat

record call_facts =
  cf_name :: string
  cf_arguments :: json
  cf_use_id :: string

definition claude_base :: "payload_context \<Rightarrow> string \<Rightarrow> (string \<times> json) list" where
  "claude_base c e =
     [(''session_id'', JStr (px_session c)),
      (''transcript_path'', JStr (case px_transcript c of Some p \<Rightarrow> p | None \<Rightarrow> [])),
      (''cwd'', JStr (px_cwd c)), (''hook_event_name'', JStr e)]"

definition codex_base :: "payload_context \<Rightarrow> string \<Rightarrow> string \<Rightarrow> (string \<times> json) list" where
  "codex_base c e model =
     [(''session_id'', JStr (px_session c)),
      (''transcript_path'', (case px_transcript c of Some p \<Rightarrow> JStr p | None \<Rightarrow> JNull)),
      (''cwd'', JStr (px_cwd c)), (''hook_event_name'', JStr e), (''model'', JStr model),
      (''permission_mode'', JStr ''default'')]"

definition codex_turn_base :: "payload_context \<Rightarrow> string \<Rightarrow> string \<Rightarrow> (string \<times> json) list" where
  "codex_turn_base c e model = codex_base c e model @ [(''turn_id'', JStr (show_nat (px_turn c)))]"

definition command_of :: "json \<Rightarrow> string" where
  "command_of args = (case Option.bind (jget args ''command'') as_str of Some s \<Rightarrow> s | None \<Rightarrow> [])"

definition tool_fields :: "call_facts \<Rightarrow> json \<Rightarrow> (string \<times> json) list" where
  "tool_fields f input = [(''tool_name'', JStr (cf_name f)), (''tool_input'', input), (''tool_use_id'', JStr (cf_use_id f))]"

definition codex_input :: "call_facts \<Rightarrow> json" where
  "codex_input f = jobj [(''command'', JStr (command_of (cf_arguments f)))]"

definition claude_session_start :: "payload_context \<Rightarrow> string \<Rightarrow> json" where
  "claude_session_start c src = jobj (claude_base c ''SessionStart'' @ [(''source'', JStr src)])"

definition claude_prompt :: "payload_context \<Rightarrow> string \<Rightarrow> json" where
  "claude_prompt c w = jobj (claude_base c ''UserPromptSubmit'' @ [(''prompt'', JStr w)])"

definition claude_pre_tool :: "payload_context \<Rightarrow> call_facts \<Rightarrow> json" where
  "claude_pre_tool c f = jobj (claude_base c ''PreToolUse'' @ tool_fields f (cf_arguments f))"

definition claude_post_tool :: "payload_context \<Rightarrow> call_facts \<Rightarrow> string \<Rightarrow> json" where
  "claude_post_tool c f w =
     jobj (claude_base c ''PostToolUse'' @ tool_fields f (cf_arguments f) @ [(''tool_response'', JStr w)])"

definition claude_stop :: "payload_context \<Rightarrow> json" where
  "claude_stop c = jobj (claude_base c ''Stop'' @ [(''stop_hook_active'', JBool False)])"

definition claude_subagent :: "payload_context \<Rightarrow> string \<Rightarrow> string \<Rightarrow> json" where
  "claude_subagent c e agent =
     jobj (claude_base c e @ [(''agent_id'', JStr agent), (''agent_type'', JStr ''general-purpose'')]
       @ (if e = ''SubagentStop'' then [(''stop_hook_active'', JBool False)] else []))"

definition codex_session_start :: "payload_context \<Rightarrow> string \<Rightarrow> json" where
  "codex_session_start c model = jobj (codex_base c ''SessionStart'' model)"

definition codex_prompt :: "payload_context \<Rightarrow> string \<Rightarrow> string \<Rightarrow> json" where
  "codex_prompt c model w = jobj (codex_turn_base c ''UserPromptSubmit'' model @ [(''prompt'', JStr w)])"

definition codex_pre_tool :: "payload_context \<Rightarrow> string \<Rightarrow> call_facts \<Rightarrow> json" where
  "codex_pre_tool c model f = jobj (codex_turn_base c ''PreToolUse'' model @ tool_fields f (codex_input f))"

definition codex_post_tool :: "payload_context \<Rightarrow> string \<Rightarrow> call_facts \<Rightarrow> string \<Rightarrow> json" where
  "codex_post_tool c model f w =
     jobj (codex_turn_base c ''PostToolUse'' model @ tool_fields f (codex_input f) @ [(''tool_response'', JStr w)])"

definition codex_stop :: "payload_context \<Rightarrow> string \<Rightarrow> json" where
  "codex_stop c model = jobj (codex_turn_base c ''Stop'' model)"

section \<open>Running one hook\<close>

definition DEFAULT_HOOK_TIMEOUT_MS :: int where
  "DEFAULT_HOOK_TIMEOUT_MS = 600000"

record hook_exec =
  he_command :: string
  he_timeout :: int
  he_stdin :: string
  he_workdir :: "string option"
  he_env :: "(string \<times> string) list option"

text \<open>
  An executor answers with an exit status and two streams, or that it could not run the command; it
  may act on the session through \<open>'l\<close>.  The two clock readings are \<open>t0\<close> and \<open>t1\<close>; the saturating
  product is of 64-bit numbers.
\<close>

type_synonym 'l hook_executor = "hook_exec \<Rightarrow> 'l \<Rightarrow> (string + int option \<times> string \<times> string) \<times> 'l"

definition sat_mul :: "int \<Rightarrow> int \<Rightarrow> int" where
  "sat_mul a b = min (a * b) (2 ^ 64 - 1)"

definition run_hook ::
  "(string \<Rightarrow> json option) \<Rightarrow> (json \<Rightarrow> string) \<Rightarrow> 'l hook_executor \<Rightarrow> command_hook \<Rightarrow> json
   \<Rightarrow> (string \<times> string) list option \<Rightarrow> string option \<Rightarrow> bool \<Rightarrow> string option \<Rightarrow> nat \<Rightarrow> nat \<Rightarrow> 'l
   \<Rightarrow> (hook_output \<times> nat) \<times> 'l"
where
  "run_hook parse_json show_json exec h payload env cwd trailing expected t0 t1 l =
     (let spec = \<lparr>he_command = ch_command h,
                  he_timeout = (case ch_timeout h of Some n \<Rightarrow> sat_mul (int n) 1000 | None \<Rightarrow> DEFAULT_HOOK_TIMEOUT_MS),
                  he_stdin = show_json payload @ (if trailing then [newline] else []), he_workdir = cwd, he_env = env\<rparr>;
          (res, l1) = exec spec l
      in ((case res of
             Inr (code, out, err) \<Rightarrow> parse_hook_output parse_json code out err expected
           | Inl fault \<Rightarrow> parse_hook_output parse_json None [] fault expected, t1 - t0), l1))"

section \<open>The audit trail\<close>

datatype hook_dialect = ClaudeCode | Codex

fun dialect_str :: "hook_dialect \<Rightarrow> string" where
  "dialect_str ClaudeCode = ''claude-code''"
| "dialect_str Codex = ''codex''"

fun dialect_mode :: "hook_dialect \<Rightarrow> matcher_mode" where
  "dialect_mode ClaudeCode = ClaudeMode"
| "dialect_mode Codex = CodexMode"

definition summarize_stderr :: "string \<Rightarrow> nat \<Rightarrow> string option" where
  "summarize_stderr err k =
     (let t = trim err
      in if t = [] then None
         else if char_count t \<le> k then Some t
         else Some (take_chars k t @ [CHR 0xE2, CHR 0x80, CHR 0xA6]))"

definition recorded_decision :: "hook_output \<Rightarrow> string" where
  "recorded_decision r =
     (case ho_decision r of
        Some Approve \<Rightarrow> ''approve'' | Some AllowCall \<Rightarrow> ''allow'' | Some Block \<Rightarrow> ''block'' | Some DenyCall \<Rightarrow> ''deny''
      | Some AskUser \<Rightarrow> ''ask''
      | None \<Rightarrow> if ho_proceed r = Some False then ''stop'' else ''pass'')"

definition invoked_data :: "nat \<Rightarrow> string \<Rightarrow> hook_dialect \<Rightarrow> string \<Rightarrow> string option \<Rightarrow> json" where
  "invoked_data turn point d handler w =
     jobj ([(''turn'', jnat turn), (''point'', JStr point), (''dialect'', JStr (dialect_str d)), (''handlerId'', JStr handler)]
       @ (case w of Some p \<Rightarrow> [(''matcher'', JStr p)] | None \<Rightarrow> []))"

definition result_data :: "nat \<Rightarrow> string \<Rightarrow> string \<Rightarrow> hook_output \<Rightarrow> nat \<Rightarrow> nat \<Rightarrow> json" where
  "result_data turn point handler r cap ms =
     jobj ([(''turn'', jnat turn), (''point'', JStr point), (''handlerId'', JStr handler), (''decision'', JStr (recorded_decision r))]
       @ (case ho_exit r of Some c \<Rightarrow> [(''exitCode'', JInt c)] | None \<Rightarrow> [])
       @ (case summarize_stderr (ho_stderr r) cap of Some w \<Rightarrow> [(''stderrSummary'', JStr w)] | None \<Rightarrow> [])
       @ [(''durationMs'', jnat ms)])"

text \<open>
  The rules the trail keeps, as a fold: the faults so far, the open turn, and how many invocations
  of each pair still wait for their result.  \<open>nonneg\<close> says of a floating-point literal that its
  value is not negative.
\<close>

definition hook_field :: "session_event \<Rightarrow> string \<Rightarrow> string" where
  "hook_field e k = (case Option.bind (jget (data e) k) as_str of Some s \<Rightarrow> s | None \<Rightarrow> [])"

definition pair_key :: "session_event \<Rightarrow> string" where
  "pair_key e = show_nat (jnum (data e) ''turn'') @ [CHR 0x00] @ hook_field e ''point'' @ [CHR 0x00] @ hook_field e ''handlerId''"

type_synonym trail = "string list \<times> nat option \<times> (string, nat) omap"

definition check_enclosure :: "session_event \<Rightarrow> nat option \<Rightarrow> string list" where
  "check_enclosure e op =
     (case op of
        None \<Rightarrow> [ty e @ '' appended outside any open turn'']
      | Some n \<Rightarrow>
          (let named = Option.bind (jget (data e) ''turn'') as_u64 in
           if named = Some n then []
           else [ty e @ '' names turn '' @ (case named of Some k \<Rightarrow> show_nat k | None \<Rightarrow> ''none'')
                 @ '' but open turn is '' @ show_nat n]))"

definition check_invocation :: "session_event \<Rightarrow> string list" where
  "check_invocation e =
     (if hook_field e ''point'' = [] \<or> hook_field e ''handlerId'' = [] then
        [''hook/invoked point and handlerId must be non-empty''] else [])
     @ (if hook_field e ''dialect'' \<noteq> ''claude-code'' \<and> hook_field e ''dialect'' \<noteq> ''codex'' then
        [''hook/invoked carries unknown dialect '' @ [CHR 0x22] @ hook_field e ''dialect'' @ [CHR 0x22]] else [])"

definition usable_duration :: "(string \<Rightarrow> bool) \<Rightarrow> session_event \<Rightarrow> bool" where
  "usable_duration nonneg e =
     (case jget (data e) ''durationMs'' of
        Some (JInt i) \<Rightarrow> 0 \<le> i
      | Some (JFloat w) \<Rightarrow> nonneg w
      | _ \<Rightarrow> False)"

definition waiting :: "(string, nat) omap \<Rightarrow> string \<Rightarrow> nat" where
  "waiting m k = (case map_of m k of Some n \<Rightarrow> n | None \<Rightarrow> 0)"

definition check_result :: "(string \<Rightarrow> bool) \<Rightarrow> session_event \<Rightarrow> (string, nat) omap \<Rightarrow> string list" where
  "check_result nonneg e m =
     (if waiting m (pair_key e) = 0 then
        [''hook/result has no matching hook/invoked for '' @ [CHR 0x22] @ hook_field e ''handlerId'' @ [CHR 0x22]] else [])
     @ (if usable_duration nonneg e then [] else [''hook/result durationMs must be a non-negative finite number''])"

definition trail_step :: "(string \<Rightarrow> bool) \<Rightarrow> trail \<Rightarrow> session_event \<Rightarrow> trail" where
  "trail_step nonneg st e =
     (case st of (faults, op, m) \<Rightarrow>
        if ty e = ''turn/start'' then (faults, Option.bind (jget (data e) ''turn'') as_u64, m)
        else if ty e = ''turn/end'' then (faults, None, m)
        else if ty e = ''hook/invoked'' then
          (faults @ check_enclosure e op @ check_invocation e, op, om_insert (pair_key e) (waiting m (pair_key e) + 1) m)
        else if ty e = ''hook/result'' then
          (faults @ check_enclosure e op @ check_result nonneg e m, op,
           (case map_of m (pair_key e) of
              None \<Rightarrow> m
            | Some n \<Rightarrow> if n = 1 then om_remove (pair_key e) m else om_insert (pair_key e) (n - 1) m))
        else st)"

definition trail_of :: "(string \<Rightarrow> bool) \<Rightarrow> session_event list \<Rightarrow> trail" where
  "trail_of nonneg es = foldl (trail_step nonneg) ([], None, []) es"

definition hook_stream_faults :: "(string \<Rightarrow> bool) \<Rightarrow> session_event list \<Rightarrow> string list" where
  "hook_stream_faults nonneg es = fst (trail_of nonneg es)"

section \<open>What several hooks say together\<close>

definition word_of :: "hook_output \<Rightarrow> merged_decision" where
  "word_of r = (case ho_decision r of None \<Rightarrow> NoWord | Some x \<Rightarrow> merged_of x)"

definition reasons_for :: "merged_decision \<Rightarrow> hook_output list \<Rightarrow> string list" where
  "reasons_for d rs = List.map_filter (\<lambda>r. if word_of r = d then non_empty (ho_reason r) else None) rs"

definition all_reasons :: "hook_output list \<Rightarrow> (merged_decision \<times> string) list" where
  "all_reasons rs =
     List.map_filter (\<lambda>r. if word_of r \<in> {MustAsk, Forbidden} then map_option (Pair (word_of r)) (non_empty (ho_reason r)) else None) rs"

lemma merge_fold:
  "foldl merge_step (no_outcome, []) rs =
     (\<lparr>mo_decision = foldl max NoWord (map word_of rs), mo_reason = None,
       mo_stop = list_ex (\<lambda>r. ho_proceed r = Some False) rs,
       mo_stop_reason = Option.bind (find (\<lambda>r. ho_proceed r = Some False) rs) ho_stop_reason,
       mo_contexts = List.map_filter (\<lambda>r. non_empty (ho_context r)) rs,
       mo_messages = List.map_filter (\<lambda>r. non_empty (ho_message r)) rs\<rparr>, all_reasons rs)"
proof (induction rs rule: rev_induct)
  case Nil
  show ?case by (simp add: no_outcome_def all_reasons_def List.map_filter_simps)
next
  case (snoc r rs)
  have mf: "List.map_filter f (xs @ [x]) = List.map_filter f xs @ (case f x of Some y \<Rightarrow> [y] | None \<Rightarrow> [])"
    for f :: "hook_output \<Rightarrow> 'b option" and xs x by (auto simp: map_filter_def split: option.splits)
  have fs: "find P (xs @ [x]) = (case find P xs of Some y \<Rightarrow> Some y | None \<Rightarrow> if P x then Some x else None)"
    for P and xs :: "hook_output list" and x by (induction xs) auto
  have none: "\<not> list_ex P xs \<Longrightarrow> find P xs = None" for P and xs :: "hook_output list" by (induction xs) auto
  have some: "list_ex P xs \<Longrightarrow> find P xs \<noteq> None" for P and xs :: "hook_output list" by (induction xs) auto
  have w: "(case ho_decision r of None \<Rightarrow> NoWord | Some x \<Rightarrow> merged_of x) = word_of r" by (simp add: word_of_def)
  have ar: "all_reasons (rs @ [r]) = all_reasons rs @ (if word_of r = Forbidden \<or> word_of r = MustAsk then
      (case non_empty (ho_reason r) of Some v \<Rightarrow> [(word_of r, v)] | None \<Rightarrow> []) else [])"
    by (auto simp: all_reasons_def map_filter_def split: option.splits)
  show ?case
    using snoc some [of "\<lambda>r. ho_proceed r = Some False" rs]
    by (auto simp: merge_step_def w ar mf fs none Let_def split: option.splits)
qed


lemma severe_stands: "r \<in> set rs \<Longrightarrow> word_of r \<le> mo_decision (merge_hook_outputs rs)"
proof -
  have "x \<in> set xs \<Longrightarrow> x \<le> foldl max a xs" and "a \<le> foldl max a xs" for x a :: merged_decision and xs
    by (induction xs arbitrary: a) (auto, (meson max.bounded_iff order.trans order_refl max.cobounded1 max.cobounded2)+)
  moreover assume "r \<in> set rs"
  ultimately have "word_of r \<le> foldl max NoWord (map word_of rs)" by simp
  then show ?thesis unfolding merge_hook_outputs_def merge_fold by (simp add: Let_def)
qed

end
