(* ===== verification/Hook_Bridge.thy ===== *)
theory Hook_Bridge
  imports Hooks Tool_Calls Journal
begin

text \<open>
  Hooks inside a running turn, \<^verbatim>\<open>crates/hooks/src/bridge.rs\<close>, and where their configuration is found,
  \<^verbatim>\<open>discovery.rs\<close>.  The listeners act on the session \<open>'l\<close> through the appender the bridge was
  composed with, on the answers held between the rewrite and the gate, and on a clock, whose readings
  are a list.  The executor runs other people's programs and may do anything to the session.
\<close>

section \<open>The bridge\<close>

record bridge_config =
  bc_dialect :: hook_dialect
  bc_pre :: "matcher_group list"
  bc_post :: "matcher_group list"
  bc_context :: payload_context
  bc_model :: string
  bc_cap :: nat
  bc_env :: "(string \<times> string) list"

definition DEFAULT_STDERR_CAP :: nat where
  "DEFAULT_STDERR_CAP = 2000"

definition new_bridge :: "hook_dialect \<Rightarrow> payload_context \<Rightarrow> bridge_config" where
  "new_bridge d c =
     \<lparr>bc_dialect = d, bc_pre = [], bc_post = [], bc_context = c, bc_model = [], bc_cap = DEFAULT_STDERR_CAP, bc_env = []\<rparr>"

definition context_at :: "bridge_config \<Rightarrow> nat \<Rightarrow> payload_context" where
  "context_at b turn = (bc_context b)\<lparr>px_turn := turn\<rparr>"

definition trailing_newline :: "bridge_config \<Rightarrow> bool" where
  "trailing_newline b \<longleftrightarrow> bc_dialect b = ClaudeCode"

text \<open>What a bridge is composed with besides its configuration.\<close>

record 'l hook_parts =
  hp_append :: "'l appender"
  hp_exec :: "'l hook_executor"
  hp_parse :: "string \<Rightarrow> json option"
  hp_show :: "json \<Rightarrow> string"
  hp_rx :: "string \<Rightarrow> (string \<Rightarrow> bool) option"

record 'l hooked =
  hk_log :: 'l
  hk_pending :: "(string, hook_outcome) omap"
  hk_clock :: "nat list"

definition hook_clock :: "'l hooked \<Rightarrow> nat \<times> 'l hooked" where
  "hook_clock w = (case hk_clock w of [] \<Rightarrow> 0 | t # _ \<Rightarrow> t, w\<lparr>hk_clock := tl (hk_clock w)\<rparr>)"

section \<open>Answers held for the gate\<close>

definition put_answer :: "string \<Rightarrow> hook_outcome \<Rightarrow> 'l hooked \<Rightarrow> 'l hooked" where
  "put_answer i out w = w\<lparr>hk_pending := om_insert i out (hk_pending w)\<rparr>"

definition take_answer :: "string \<Rightarrow> 'l hooked \<Rightarrow> hook_outcome option \<times> 'l hooked" where
  "take_answer i w = (map_of (hk_pending w) i, w\<lparr>hk_pending := om_remove i (hk_pending w)\<rparr>)"

definition clear_answers :: "'l hooked \<Rightarrow> 'l hooked" where
  "clear_answers w = w\<lparr>hk_pending := []\<rparr>"

definition held_answers :: "'l hooked \<Rightarrow> nat" where
  "held_answers w = length (hk_pending w)"

section \<open>Running the hooks of one point\<close>

definition selected_hooks ::
  "(string \<Rightarrow> (string \<Rightarrow> bool) option) \<Rightarrow> matcher_group list \<Rightarrow> string \<Rightarrow> matcher_mode \<Rightarrow> (matcher_group \<times> command_hook) list"
where
  "selected_hooks rx gs name mode =
     concat (map (\<lambda>g. map (Pair g) (mg_hooks g)) (filter (\<lambda>g. matches_matcher rx (mg_matcher g) name mode) gs))"

definition handler_id :: "string \<Rightarrow> nat \<Rightarrow> nat \<Rightarrow> string" where
  "handler_id point turn k = point @ ''-'' @ show_nat turn @ ''-'' @ show_nat k"

text \<open>One hook, between its two audit lines; a journal that refuses a line does not stop the hook.\<close>

definition run_one ::
  "'l hook_parts \<Rightarrow> bridge_config \<Rightarrow> string \<Rightarrow> json \<Rightarrow> nat \<Rightarrow> nat \<Rightarrow> matcher_group \<times> command_hook \<Rightarrow> 'l hooked
   \<Rightarrow> hook_output \<times> 'l hooked"
where
  "run_one P b point payload turn k gh w =
     (let h = handler_id point turn k;
          l1 = snd (hp_append P (hk_log w) ''hook/invoked''
                 (invoked_data turn point (bc_dialect b) h (mg_matcher (fst gh))) None);
          (t0, w0) = hook_clock (w\<lparr>hk_log := l1\<rparr>);
          (t1, w1) = hook_clock w0;
          ((r, ms), l2) = run_hook (hp_parse P) (hp_show P) (hp_exec P) (snd gh) payload
                 (if bc_env b = [] then None else Some (bc_env b)) (Some (px_cwd (bc_context b)))
                 (trailing_newline b) (Some point) t0 t1 l1;
          l3 = snd (hp_append P l2 ''hook/result'' (result_data turn point h r (bc_cap b) ms) None)
      in (r, w1\<lparr>hk_log := l3\<rparr>))"

fun run_each ::
  "'l hook_parts \<Rightarrow> bridge_config \<Rightarrow> string \<Rightarrow> json \<Rightarrow> nat \<Rightarrow> nat \<Rightarrow> (matcher_group \<times> command_hook) list \<Rightarrow> 'l hooked
   \<Rightarrow> hook_output list \<times> 'l hooked"
where
  "run_each P b point payload turn k [] w = ([], w)"
| "run_each P b point payload turn k (gh # ghs) w =
     (let (r, w1) = run_one P b point payload turn k gh w;
          (rs, w2) = run_each P b point payload turn (k + 1) ghs w1
      in (r # rs, w2))"

definition run_point ::
  "'l hook_parts \<Rightarrow> bridge_config \<Rightarrow> matcher_group list \<Rightarrow> string \<Rightarrow> string \<Rightarrow> json \<Rightarrow> nat \<Rightarrow> 'l hooked
   \<Rightarrow> (hook_outcome \<times> hook_output list) \<times> 'l hooked"
where
  "run_point P b gs point name payload turn w =
     (let chosen = selected_hooks (hp_rx P) gs name (dialect_mode (bc_dialect b)) in
      if chosen = [] then ((no_outcome, []), w)
      else (let (rs, w1) = run_each P b point payload turn 0 chosen w in ((merge_hook_outputs rs, rs), w1)))"

section \<open>The two tool points\<close>

definition facts_of :: "tool_call \<Rightarrow> call_facts" where
  "facts_of c = \<lparr>cf_name = tc_name c, cf_arguments = tc_args c, cf_use_id = tc_id c\<rparr>"

definition apply_updated_input :: "tool_call \<Rightarrow> hook_output list \<Rightarrow> tool_call" where
  "apply_updated_input c rs =
     (case List.map_filter ho_updated (rev rs) of [] \<Rightarrow> c | m # _ \<Rightarrow> c\<lparr>tc_args := JObj m\<rparr>)"

definition permission_from :: "hook_outcome \<Rightarrow> permission option" where
  "permission_from out =
     (let why = (case mo_reason out of Some r \<Rightarrow> r | None \<Rightarrow> ''a hook forbade this call'')
      in case mo_decision out of
           NoWord \<Rightarrow> None
         | Permitted \<Rightarrow> None
         | MustAsk \<Rightarrow> Some (AskFirst why)
         | Forbidden \<Rightarrow> Some (Deny why))"

definition contexts_from :: "hook_outcome \<Rightarrow> message list" where
  "contexts_from out = map user_message (filter (\<lambda>w. trim w \<noteq> []) (mo_contexts out))"

text \<open>The payload is built from the stored context, whose turn is a placeholder.\<close>

definition pre_tool_use ::
  "'l hook_parts \<Rightarrow> bridge_config \<Rightarrow> nat \<Rightarrow> tool_call \<Rightarrow> 'l hooked \<Rightarrow> tool_call \<times> 'l hooked"
where
  "pre_tool_use P b turn c w =
     (let payload = (case bc_dialect b of
                       ClaudeCode \<Rightarrow> claude_pre_tool (bc_context b) (facts_of c)
                     | Codex \<Rightarrow> codex_pre_tool (bc_context b) (bc_model b) (facts_of c));
          ((out, rs), w1) = run_point P b (bc_pre b) ''PreToolUse'' (tc_name c) payload turn w;
          c1 = apply_updated_input c rs
      in (c1, put_answer (tc_id c1) out w1))"

definition hook_gate :: "string \<Rightarrow> permission \<Rightarrow> 'l hooked \<Rightarrow> permission \<times> 'l hooked" where
  "hook_gate i declared w =
     (case take_answer i w of
        (None, w1) \<Rightarrow> (declared, w1)
      | (Some out, w1) \<Rightarrow>
          ((case permission_from out of Some p \<Rightarrow> most_restrictive declared p | None \<Rightarrow> declared), w1))"

definition post_tool_use ::
  "'l hook_parts \<Rightarrow> bridge_config \<Rightarrow> nat \<Rightarrow> tool_call \<Rightarrow> string \<Rightarrow> 'l hooked \<Rightarrow> message list \<times> 'l hooked"
where
  "post_tool_use P b turn c response w =
     (let c1 = context_at b turn;
          payload = (case bc_dialect b of
                       ClaudeCode \<Rightarrow> claude_post_tool c1 (facts_of c) response
                     | Codex \<Rightarrow> codex_post_tool c1 (bc_model b) (facts_of c) response);
          ((out, _), w1) = run_point P b (bc_post b) ''PostToolUse'' (tc_name c) payload turn w
      in (contexts_from out, w1))"

text \<open>\<^verbatim>\<open>install_tool_hooks\<close>: the three listeners, on the chains the engine dispatches tools through.\<close>

definition on_pre_tool ::
  "'l hook_parts \<Rightarrow> bridge_config \<Rightarrow> (nat \<times> tool_call, tool_call, 'l hooked) listener"
where
  "on_pre_tool P b =
     WaterfallFn (\<lambda>e rest w. let (c, w1) = pre_tool_use P b (fst e) (snd e) w in rest (fst e, c) w1)"

definition on_permission :: "(nat \<times> tool_call \<times> permission, permission, 'l hooked) listener" where
  "on_permission =
     WaterfallFn (\<lambda>e rest w.
       (case rest e w of
          (Inl p, e1, w1) \<Rightarrow> (Inl p, e1, w1)
        | (Inr downstream, e1, w1) \<Rightarrow>
            (let (p, w2) = hook_gate (tc_id (fst (snd e))) downstream w1 in (Inr p, e1, w2))))"

definition on_post_tool ::
  "'l hook_parts \<Rightarrow> bridge_config \<Rightarrow> (nat \<times> tool_call \<times> tool_outcome, post_decision, 'l hooked) listener"
where
  "on_post_tool P b =
     WaterfallFn (\<lambda>e rest w.
       (case rest e w of
          (Inl p, e1, w1) \<Rightarrow> (Inl p, e1, w1)
        | (Inr d, e1, w1) \<Rightarrow>
            (let (ms, w2) = post_tool_use P b (fst e) (fst (snd e)) (o_content (pd_outcome d)) w1
             in (Inr (d\<lparr>pd_contexts := pd_contexts d @ ms\<rparr>), e1, w2))))"

section \<open>The points that watch\<close>

record watch_groups =
  wg_start :: "matcher_group list"
  wg_prompt :: "matcher_group list"
  wg_stop :: "matcher_group list"

definition watch ::
  "'l hook_parts \<Rightarrow> bridge_config \<Rightarrow> matcher_group list \<Rightarrow> string \<Rightarrow> json \<Rightarrow> nat \<Rightarrow> 'l hooked
   \<Rightarrow> (message list \<times> hook_outcome) \<times> 'l hooked"
where
  "watch P b gs point payload turn w =
     (let ((out, _), w1) = run_point P b gs point point payload turn w in ((contexts_from out, out), w1))"

definition session_start ::
  "'l hook_parts \<Rightarrow> bridge_config \<Rightarrow> watch_groups \<Rightarrow> string \<Rightarrow> 'l hooked \<Rightarrow> (message list \<times> hook_outcome) \<times> 'l hooked"
where
  "session_start P b g src w =
     watch P b (wg_start g) ''SessionStart''
       (case bc_dialect b of
          ClaudeCode \<Rightarrow> claude_session_start (context_at b 0) src
        | Codex \<Rightarrow> codex_session_start (context_at b 0) (bc_model b)) 0 w"

definition user_prompt_submit ::
  "'l hook_parts \<Rightarrow> bridge_config \<Rightarrow> watch_groups \<Rightarrow> nat \<Rightarrow> string \<Rightarrow> 'l hooked \<Rightarrow> (message list \<times> hook_outcome) \<times> 'l hooked"
where
  "user_prompt_submit P b g turn prompt w =
     watch P b (wg_prompt g) ''UserPromptSubmit''
       (case bc_dialect b of
          ClaudeCode \<Rightarrow> claude_prompt (context_at b turn) prompt
        | Codex \<Rightarrow> codex_prompt (context_at b turn) (bc_model b) prompt) turn w"

definition stop_hooks ::
  "'l hook_parts \<Rightarrow> bridge_config \<Rightarrow> watch_groups \<Rightarrow> nat \<Rightarrow> 'l hooked \<Rightarrow> (message list \<times> hook_outcome) \<times> 'l hooked"
where
  "stop_hooks P b g turn w =
     watch P b (wg_stop g) ''Stop''
       (case bc_dialect b of
          ClaudeCode \<Rightarrow> claude_stop (context_at b turn)
        | Codex \<Rightarrow> codex_stop (context_at b turn) (bc_model b)) turn w"

definition prompt_refusal :: "hook_outcome \<Rightarrow> string option" where
  "prompt_refusal out =
     (if mo_decision out = Forbidden then
        Some (case mo_reason out of Some r \<Rightarrow> r | None \<Rightarrow> ''a hook refused this prompt'')
      else if mo_stop out then
        Some (case mo_stop_reason out of Some r \<Rightarrow> r | None \<Rightarrow> ''a hook stopped this prompt'')
      else None)"

definition stop_veto :: "hook_outcome \<Rightarrow> string option" where
  "stop_veto out =
     (if mo_decision out \<noteq> Forbidden \<and> \<not> mo_stop out then None
      else Some (case mo_reason out of
                   Some r \<Rightarrow> r
                 | None \<Rightarrow> (case mo_stop_reason out of Some r \<Rightarrow> r | None \<Rightarrow> ''a hook asked the turn to continue'')))"

text \<open>\<^verbatim>\<open>install_watch_hooks\<close>: a prompt is what the first step of a turn claimed.\<close>

definition typed_prompt :: "nat \<Rightarrow> message list \<Rightarrow> string option" where
  "typed_prompt n ms =
     (if n = 1 \<and> join [newline] (map m_content ms) \<noteq> [] then Some (join [newline] (map m_content ms)) else None)"

definition on_pre_step ::
  "'l hook_parts \<Rightarrow> bridge_config \<Rightarrow> watch_groups
   \<Rightarrow> (nat \<times> nat \<times> message list, pre_step_decision, 'l hooked) listener"
where
  "on_pre_step P b g =
     WaterfallFn (\<lambda>e rest w.
       (case e of (turn, n, ms) \<Rightarrow>
          (case typed_prompt n ms of
             None \<Rightarrow> rest e w
           | Some prompt \<Rightarrow>
               (let ((contexts, out), w1) = user_prompt_submit P b g turn prompt w in
                case prompt_refusal out of
                  Some why \<Rightarrow> (Inr (RejectStep why), e, w1)
                | None \<Rightarrow>
                    (case rest e w1 of
                       (Inr (Enter ms1), e1, w2) \<Rightarrow> (Inr (Enter (ms1 @ contexts)), e1, w2)
                     | other \<Rightarrow> other)))))"

definition on_stopping ::
  "'l hook_parts \<Rightarrow> bridge_config \<Rightarrow> watch_groups \<Rightarrow> (nat \<times> nat \<times> stop_reason, string, 'l hooked) listener"
where
  "on_stopping P b g =
     SerialFn (\<lambda>e w. let ((_, out), w1) = stop_hooks P b g (fst e) w in (Inr (stop_veto out), w1))"

section \<open>Finding the configuration\<close>

datatype load_error =
    Unreadable string string
  | NotJson string string
  | NotHooks string string

fun load_error_text :: "load_error \<Rightarrow> string" where
  "load_error_text (Unreadable p why) = ''the hook configuration at '' @ p @ '' could not be read: '' @ why"
| "load_error_text (NotJson p why) = ''the hook configuration at '' @ p @ '' is not JSON: '' @ why"
| "load_error_text (NotHooks p why) = ''the hook configuration at '' @ p @ '' could not be understood: '' @ why"

record discovered_hooks =
  dh_by_event :: "(string \<times> matcher_group list) list"
  dh_skipped :: "string list"
  dh_project :: "string option"

definition hooks_of_event :: "discovered_hooks \<Rightarrow> string \<Rightarrow> matcher_group list" where
  "hooks_of_event d e = (case find (\<lambda>p. fst p = e) (dh_by_event d) of Some p \<Rightarrow> snd p | None \<Rightarrow> [])"

definition no_hooks_found :: "discovered_hooks \<Rightarrow> bool" where
  "no_hooks_found d \<longleftrightarrow> list_all (\<lambda>p. snd p = []) (dh_by_event d)"

definition hook_env :: "discovered_hooks \<Rightarrow> (string \<times> string) list" where
  "hook_env d = (case dh_project d of Some dir \<Rightarrow> [(''CLAUDE_PROJECT_DIR'', dir)] | None \<Rightarrow> [])"

record hook_discovery =
  hd_path :: string
  hd_plugin :: "string option"
  hd_project :: "string option"

text \<open>\<open>decode\<close> is the JSON reader, or why it refuses.\<close>

definition parse_discovered ::
  "(string \<Rightarrow> string + json) \<Rightarrow> (string \<Rightarrow> (string \<Rightarrow> bool) option) \<Rightarrow> hook_discovery \<Rightarrow> hook_dialect \<Rightarrow> string
   \<Rightarrow> load_error + discovered_hooks"
where
  "parse_discovered decode rx d dialect w =
     (case decode w of
        Inl why \<Rightarrow> Inl (NotJson (hd_path d) why)
      | Inr raw \<Rightarrow>
          (case (case dialect of
                   ClaudeCode \<Rightarrow> parse_claude_config rx raw \<lparr>sv_plugin = hd_plugin d, sv_project = hd_project d\<rparr>
                 | Codex \<Rightarrow> parse_codex_config rx raw) of
             Inl why \<Rightarrow> Inl (NotHooks (hd_path d) why)
           | Inr c \<Rightarrow>
               Inr \<lparr>dh_by_event = hc_groups c, dh_skipped = map (\<lambda>s. sk_event s @ '': '' @ sk_why s) (hc_skipped c),
                    dh_project = hd_project d\<rparr>))"

text \<open>What reading the file gave: its text, that there is none, or why it cannot be read.\<close>

datatype config_read = FileText string | NoFile | ReadFailed string

definition load_discovered ::
  "(string \<Rightarrow> string + json) \<Rightarrow> (string \<Rightarrow> (string \<Rightarrow> bool) option) \<Rightarrow> config_read \<Rightarrow> hook_discovery \<Rightarrow> hook_dialect
   \<Rightarrow> load_error + discovered_hooks"
where
  "load_discovered decode rx read d dialect =
     (case read of
        FileText w \<Rightarrow> parse_discovered decode rx d dialect w
      | NoFile \<Rightarrow> Inr \<lparr>dh_by_event = [], dh_skipped = [], dh_project = hd_project d\<rparr>
      | ReadFailed why \<Rightarrow> Inl (Unreadable (hd_path d) why))"

section \<open>An answer is never lost on the way to the gate\<close>

text \<open>A configuration is well formed when every pattern in it can match and every group has a hook.\<close>

definition group_ok :: "(string \<Rightarrow> (string \<Rightarrow> bool) option) \<Rightarrow> matcher_mode \<Rightarrow> matcher_group \<Rightarrow> bool" where
  "group_ok rx mode g \<longleftrightarrow> mg_hooks g \<noteq> [] \<and> matcher_diagnostic rx (mg_matcher g) mode = None"

definition entries_ok ::
  "(string \<Rightarrow> (string \<Rightarrow> bool) option) \<Rightarrow> matcher_mode \<Rightarrow> string list \<Rightarrow> (string \<times> matcher_group list) list \<Rightarrow> bool"
where
  "entries_ok rx mode names xs \<longleftrightarrow>
     list_all (\<lambda>p. fst p \<in> set names \<and> snd p \<noteq> [] \<and> list_all (group_ok rx mode) (snd p)) xs"

lemma read_groups_ok:
  assumes "read_hook_groups rx mode read e js (gs, sk) = Inr (gs', sk')" and "list_all (group_ok rx mode) gs"
  shows "list_all (group_ok rx mode) gs'"
  using assms
proof (induction rx mode read e js "(gs, sk)" arbitrary: gs sk rule: read_hook_groups.induct)
  case (2 rx mode read e j js gs sk)
  from 2(2) obtain g sk1 where g: "read_hook_group rx mode read e j = Inr (g, sk1)"
    by (auto split: sum.splits)
  have "list_all (group_ok rx mode) (case g of Some x \<Rightarrow> [x] | None \<Rightarrow> [])"
    using g by (auto simp: read_hook_group_def group_ok_def Let_def split: option.splits if_splits)
  then show ?case using 2 g by (auto simp: list_all_append)
qed simp

lemma read_events_ok:
  assumes "read_hook_events rx mode read m es c = Inr c'" and "set es \<subseteq> set names"
    and "entries_ok rx mode names (hc_groups c)"
  shows "entries_ok rx mode names (hc_groups c')"
  using assms
proof (induction rx mode read m es c rule: read_hook_events.induct)
  case (2 rx mode read m e es c)
  show ?case
  proof (cases "Option.bind (map_of m e) as_array")
    case None
    then show ?thesis using 2(1,3-5) by simp
  next
    case (Some raw)
    from 2(3) Some obtain gs sk where g: "read_hook_groups rx mode read e raw ([], hc_skipped c) = Inr (gs, sk)"
      by (auto split: sum.splits)
    have "list_all (group_ok rx mode) gs" using read_groups_ok [OF g] by simp
    with 2(2) [OF Some g refl] 2(3-5) Some g show ?thesis by (auto simp: entries_ok_def)
  qed
qed simp

definition dialect_events :: "hook_dialect \<Rightarrow> string list" where
  "dialect_events d = (case d of ClaudeCode \<Rightarrow> CLAUDE_EVENTS | Codex \<Rightarrow> CODEX_EVENTS)"

text \<open>
  A loaded configuration holds only what can run.  Whatever the file says, loading it either
  reports an error or answers with groups of points the dialect has, each group with a hook to run
  and a pattern its dialect can match with.
\<close>

theorem loaded_hooks_can_run:
  assumes "load_discovered decode rx read d dialect = Inr dh"
  shows "entries_ok rx (dialect_mode dialect) (dialect_events dialect) (dh_by_event dh)
    \<and> dh_project dh = hd_project d"
proof -
  have nil: "entries_ok rx mode names (hc_groups no_config)" for mode names by (simp add: entries_ok_def no_config_def)
  have c: "entries_ok rx ClaudeMode CLAUDE_EVENTS (hc_groups c)" if "parse_claude_config rx raw vs = Inr c" for raw vs c
    using that nil by (cases "as_object raw") (auto simp: parse_claude_config_def elim!: read_events_ok)
  have x: "entries_ok rx CodexMode CODEX_EVENTS (hc_groups c)" if "parse_codex_config rx raw = Inr c" for raw c
    using that nil by (cases "as_object raw") (auto simp: parse_codex_config_def elim!: read_events_ok)
  show ?thesis
  proof (cases read)
    case (FileText w)
    then obtain raw where "decode w = Inr raw" using assms
      by (cases "decode w") (simp_all add: load_discovered_def parse_discovered_def)
    with FileText assms show ?thesis
      by (cases dialect) (simp_all add: load_discovered_def parse_discovered_def dialect_events_def split: sum.splits,
        auto dest: c x)
  qed (use assms in \<open>auto simp: load_discovered_def entries_ok_def\<close>)
qed

definition demo_rx :: "string \<Rightarrow> (string \<Rightarrow> bool) option" where
  "demo_rx p = (if p = ''['' then None else Some (\<lambda>q. q = p))"

definition demo_hook_json :: json where
  "demo_hook_json =
     jobj [(''PreToolUse'', JArr [jobj [(''matcher'', JStr ''bash|exec''),
        (''hooks'', JArr [jobj [(''type'', JStr ''command''), (''command'', JStr ''guard'')]])]])]"

lemma demo_loads:
  "load_discovered (\<lambda>_. Inr demo_hook_json) demo_rx (FileText [])
       \<lparr>hd_path = ''h'', hd_plugin = None, hd_project = None\<rparr> ClaudeCode =
     Inr \<lparr>dh_by_event = [(''PreToolUse'', [\<lparr>mg_matcher = Some ''bash|exec'', mg_hooks = [\<lparr>ch_command = ''guard'', ch_timeout = None\<rparr>]\<rparr>])],
          dh_skipped = [], dh_project = None\<rparr>"
  by code_simp

theorem loaded_hooks_can_run_witness:
  "entries_ok demo_rx ClaudeMode CLAUDE_EVENTS
     [(''PreToolUse'', [\<lparr>mg_matcher = Some ''bash|exec'', mg_hooks = [\<lparr>ch_command = ''guard'', ch_timeout = None\<rparr>]\<rparr>])]"
  using loaded_hooks_can_run [OF demo_loads] by (simp add: dialect_events_def)

section \<open>The gate\<close>

lemma run_each_covers:
  assumes "run_each P b point payload turn k ghs w = (rs, w')" and "gh \<in> set ghs"
  shows "\<exists>j v r v'. run_one P b point payload turn j gh v = (r, v') \<and> r \<in> set rs"
  using assms
proof (induction P b point payload turn k ghs w arbitrary: rs w' rule: run_each.induct)
  case (2 P b point payload turn k x ghs w)
  obtain r w1 where r: "run_one P b point payload turn k x w = (r, w1)" by fastforce
  obtain rs1 w2 where rs: "run_each P b point payload turn (k + 1) ghs w1 = (rs1, w2)" by fastforce
  from 2(2) r rs have "rs = r # rs1" by simp
  with 2(1) [OF r [symmetric] refl rs] 2(3) r show ?case by auto
qed simp

lemma exit_two_forbids:
  assumes "\<And>spec l. he_command spec = ch_command (snd gh) \<Longrightarrow> \<exists>out err l'. hp_exec P spec l = (Inr (Some 2, out, err), l')"
    and "run_one P b point payload turn k gh w = (r, w')"
  shows "word_of r = Forbidden"
proof -
  have "word_of (fst (fst (run_hook pj sj (hp_exec P) (snd gh) payload env cwd tr ex t0 t1 l))) = Forbidden"
    for pj sj env cwd tr ex t0 t1 l
  proof -
    obtain out err l' where "hp_exec P \<lparr>he_command = ch_command (snd gh),
         he_timeout = (case ch_timeout (snd gh) of Some n \<Rightarrow> sat_mul (int n) 1000 | None \<Rightarrow> DEFAULT_HOOK_TIMEOUT_MS),
         he_stdin = sj payload @ (if tr then [newline] else []), he_workdir = cwd, he_env = env\<rparr> l = (Inr (Some 2, out, err), l')"
      using assms(1) by fastforce
    then show ?thesis
      by (simp add: run_hook_def Let_def parse_hook_output_def BLOCKING_EXIT_CODE_def word_of_def blank_output_def)
  qed
  then have "word_of r = Forbidden"
    if "run_hook pj sj (hp_exec P) (snd gh) payload env cwd tr ex t0 t1 l = ((r, ms), l')"
    for pj sj env cwd tr ex t0 t1 l ms l' using that by (metis fst_conv)
  then show ?thesis using assms(2) by (auto simp: run_one_def Let_def split: prod.splits)
qed

lemma tc_id_updated [simp]: "tc_id (apply_updated_input c rs) = tc_id c"
  by (simp add: apply_updated_input_def split: list.split)

lemma gate_keeps_declared: "rank declared \<le> rank (fst (hook_gate i declared w))"
  by (auto simp: hook_gate_def take_answer_def most_restrictive_def split: option.splits)

text \<open>
  C24. A hook that blocks, blocks.  If any hook the pattern selected for a call exits with status two,
  the gate refuses that call with a reason, whatever the other hooks said, whatever they rewrote the
  call to, and whatever the tool declared; and the answer is spent, so it decides no other call.
\<close>

theorem blocking_hook_denies:
  assumes "(g, h) \<in> set (selected_hooks (hp_rx P) (bc_pre b) (tc_name c) (dialect_mode (bc_dialect b)))"
    and "\<And>spec l. he_command spec = ch_command h \<Longrightarrow> \<exists>out err l'. hp_exec P spec l = (Inr (Some 2, out, err), l')"
  shows "case pre_tool_use P b turn c w of (c1, w1) \<Rightarrow>
     tc_id c1 = tc_id c
     \<and> (case hook_gate (tc_id c1) declared w1 of (p, w2) \<Rightarrow>
          (\<exists>why. p = Deny why) \<and> fst (hook_gate (tc_id c1) other w2) = other)"
proof -
  obtain out rs w1 where r: "run_point P b (bc_pre b) ''PreToolUse'' (tc_name c)
       (case bc_dialect b of ClaudeCode \<Rightarrow> claude_pre_tool (bc_context b) (facts_of c)
        | Codex \<Rightarrow> codex_pre_tool (bc_context b) (bc_model b) (facts_of c)) turn w = ((out, rs), w1)"
    by (metis surj_pair)
  have "selected_hooks (hp_rx P) (bc_pre b) (tc_name c) (dialect_mode (bc_dialect b)) \<noteq> []" using assms(1) by auto
  with r obtain k payload where e: "run_each P b ''PreToolUse'' payload turn 0
      (selected_hooks (hp_rx P) (bc_pre b) (tc_name c) (dialect_mode (bc_dialect b))) w = (rs, w1)"
    and out: "out = merge_hook_outputs rs" by (auto simp: run_point_def split: prod.splits)
  obtain x where "x \<in> set rs" "word_of x = Forbidden"
    using run_each_covers [OF e assms(1)] exit_two_forbids [where gh = "(g, h)"] assms(2) by (metis snd_conv)
  then have "Forbidden \<le> mo_decision out" using severe_stands [of x rs] by (simp add: out)
  then have "mo_decision out = Forbidden" by (cases "mo_decision out") (simp_all add: less_eq_merged_decision_def)
  then show ?thesis
    by (cases declared)
      (simp_all add: pre_tool_use_def r Let_def hook_gate_def take_answer_def put_answer_def permission_from_def
        most_restrictive_def del: map_of_om_remove split: option.split, simp_all)
qed


definition demo_call :: tool_call where
  "demo_call = \<lparr>tc_id = ''c1'', tc_name = ''bash'', tc_args = jobj []\<rparr>"

definition demo_parts :: "journal hook_parts" where
  "demo_parts =
     \<lparr>hp_append = append_journal (\<lambda>_. Some []), hp_exec = (\<lambda>_ l. (Inr (Some 2, [], ''no''), l)), hp_parse = (\<lambda>_. None),
      hp_show = (\<lambda>_. []), hp_rx = demo_rx\<rparr>"

definition demo_bridge :: bridge_config where
  "demo_bridge =
     (new_bridge ClaudeCode \<lparr>px_session = ''s'', px_transcript = None, px_cwd = ''/w'', px_turn = 0\<rparr>)
       \<lparr>bc_pre := [\<lparr>mg_matcher = Some ''bash|exec'', mg_hooks = [\<lparr>ch_command = ''guard'', ch_timeout = None\<rparr>]\<rparr>]\<rparr>"

lemma demo_selected:
  "selected_hooks (hp_rx demo_parts) (bc_pre demo_bridge) (tc_name demo_call) (dialect_mode (bc_dialect demo_bridge)) =
     [(\<lparr>mg_matcher = Some ''bash|exec'', mg_hooks = [\<lparr>ch_command = ''guard'', ch_timeout = None\<rparr>]\<rparr>,
       \<lparr>ch_command = ''guard'', ch_timeout = None\<rparr>)]"
  by code_simp

theorem blocking_hook_denies_witness:
  "case pre_tool_use demo_parts demo_bridge 1 demo_call
       \<lparr>hk_log = empty_journal [] [], hk_pending = [], hk_clock = []\<rparr> of (c1, w1) \<Rightarrow>
     tc_id c1 = tc_id demo_call
     \<and> (case hook_gate (tc_id c1) Allow w1 of (p, w2) \<Rightarrow>
          (\<exists>why. p = Deny why) \<and> fst (hook_gate (tc_id c1) Allow w2) = Allow)"
  by (rule blocking_hook_denies [where g = "\<lparr>mg_matcher = Some ''bash|exec'', mg_hooks = [\<lparr>ch_command = ''guard'', ch_timeout = None\<rparr>]\<rparr>"
      and h = "\<lparr>ch_command = ''guard'', ch_timeout = None\<rparr>"])
    (simp_all add: demo_selected, simp add: demo_parts_def)

section \<open>The audit trail of a point\<close>

definition hook_lines :: "string list" where
  "hook_lines = [''turn/start'', ''turn/end'', ''hook/invoked'', ''hook/result'']"

definition lines_of :: "string \<Rightarrow> session_event list \<Rightarrow> nat" where
  "lines_of t es = length (filter (\<lambda>e. ty e = t) es)"

definition exec_discreet ::
  "('l \<Rightarrow> session_event list) \<Rightarrow> ('l \<Rightarrow> bool) \<Rightarrow> 'l hook_executor \<Rightarrow> bool"
where
  "exec_discreet events healthy exec \<longleftrightarrow>
     (\<forall>spec l r l'. healthy l \<longrightarrow> exec spec l = (r, l') \<longrightarrow>
        healthy l' \<and> (\<exists>es. events l' = events l @ es \<and> list_all (\<lambda>e. ty e \<notin> set hook_lines) es))"

lemma trail_foreign:
  "list_all (\<lambda>e. ty e \<notin> set hook_lines) es \<Longrightarrow> foldl (trail_step nn) st es = st"
  by (induction es) (auto simp: hook_lines_def trail_step_def split: prod.splits)

lemma trail_of_append: "trail_of nn (xs @ ys) = foldl (trail_step nn) (trail_of nn xs) ys"
  by (simp add: trail_of_def)

lemma lines_of_append: "lines_of t (xs @ ys) = lines_of t xs + lines_of t ys"
  by (simp add: lines_of_def)

lemma lines_of_foreign: "list_all (\<lambda>e. ty e \<notin> set hook_lines) es \<Longrightarrow> t \<in> set hook_lines \<Longrightarrow> lines_of t es = 0"
  by (auto simp: lines_of_def list_all_iff filter_empty_conv)

lemma invoked_line:
  assumes "ty e = ''hook/invoked''" and "data e = invoked_data turn point d (handler_id point turn k) w"
    and "turn < 2 ^ 64" and "point \<noteq> []"
  shows "check_enclosure e (Some turn) = []" and "check_invocation e = []"
    and "pair_key e = show_nat turn @ [CHR 0x00] @ point @ [CHR 0x00] @ handler_id point turn k"
  using assms
  by (cases w; cases d; simp add: check_enclosure_def check_invocation_def hook_field_def invoked_data_def jnat_def
      pair_key_def jnum_def handler_id_def)+

lemma result_line:
  assumes "ty e = ''hook/result''" and "data e = result_data turn point (handler_id point turn k) r cap ms"
    and "turn < 2 ^ 64"
  shows "check_enclosure e (Some turn) = []" and "usable_duration nn e"
    and "pair_key e = show_nat turn @ [CHR 0x00] @ point @ [CHR 0x00] @ handler_id point turn k"
  using assms
  by (cases "ho_exit r"; cases "summarize_stderr (ho_stderr r) cap"; simp add: check_enclosure_def usable_duration_def
      hook_field_def result_data_def jnat_def pair_key_def jnum_def handler_id_def)+


text \<open>
  What one hook adds to a trail inside the open turn, for any log that takes every line: no fault,
  its two lines, and whatever else the program it ran appended.
\<close>

definition trail_grows ::
  "(string \<Rightarrow> bool) \<Rightarrow> nat \<Rightarrow> nat \<Rightarrow> session_event list \<Rightarrow> session_event list \<Rightarrow> bool"
where
  "trail_grows nn turn n es es' \<longleftrightarrow>
     hook_stream_faults nn es' = hook_stream_faults nn es
     \<and> fst (snd (trail_of nn es')) = Some turn
     \<and> lines_of ''hook/invoked'' es' = lines_of ''hook/invoked'' es + n
     \<and> lines_of ''hook/result'' es' = lines_of ''hook/result'' es + n"

lemma one_pair_grows:
  assumes "fst (snd (trail_of nn es)) = Some turn" and "turn < 2 ^ 64" and "point \<noteq> []"
    and i: "ty i = ''hook/invoked''" "data i = invoked_data turn point d (handler_id point turn k) w"
    and f: "list_all (\<lambda>e. ty e \<notin> set hook_lines) foreign"
    and r: "ty r = ''hook/result''" "data r = result_data turn point (handler_id point turn k) out cap ms"
  shows "trail_grows nn turn 1 es ((es @ [i]) @ foreign @ [r])"
proof -
  obtain fs m where t: "trail_of nn es = (fs, Some turn, m)" using assms(1) by (metis prod.collapse)
  note il = invoked_line [OF i assms(2,3)] and rl = result_line [OF r assms(2)]
  define key where "key = pair_key i"
  have key: "pair_key r = key" using il(3) rl(3) by (simp add: key_def)
  have s1: "trail_step nn (fs, Some turn, m) i = (fs, Some turn, om_insert key (waiting m key + 1) m)"
    by (simp add: trail_step_def i(1) il key_def)
  have s2: "\<exists>m'. trail_step nn (fs, Some turn, om_insert key (waiting m key + 1) m) r = (fs, Some turn, m')"
    by (simp add: trail_step_def r(1) rl(1,2) check_result_def key waiting_def split: option.split)
  then obtain m' where "trail_of nn ((es @ [i]) @ foreign @ [r]) = (fs, Some turn, m')"
    using s1 by (auto simp: trail_of_append t trail_foreign [OF f])
  moreover have "lines_of ''hook/invoked'' foreign = 0" "lines_of ''hook/result'' foreign = 0"
    using lines_of_foreign [OF f] by (simp_all add: hook_lines_def)
  ultimately show ?thesis
    by (simp add: trail_grows_def hook_stream_faults_def t lines_of_append) (simp add: lines_of_def i(1) r(1))
qed

context working_log
begin

lemma run_one_grows:
  assumes "healthy (hk_log w)" and "exec_discreet events healthy (hp_exec P)" and "hp_append P = append"
    and "fst (snd (trail_of nn (events (hk_log w)))) = Some turn" and "turn < 2 ^ 64" and "point \<noteq> []"
    and "run_one P b point payload turn k gh w = (r, w')"
  shows "healthy (hk_log w') \<and> trail_grows nn turn 1 (events (hk_log w)) (events (hk_log w'))"
proof -
  obtain i l1 where a1: "append (hk_log w) ''hook/invoked''
      (invoked_data turn point (bc_dialect b) (handler_id point turn k) (mg_matcher (fst gh))) None = (Inr i, l1)"
    and h1: "healthy l1" using append_works [OF assms(1)] by metis
  obtain t0 w0 where t0: "hook_clock (w\<lparr>hk_log := l1\<rparr>) = (t0, w0)" by fastforce
  obtain t1 w1 where t1: "hook_clock w0 = (t1, w1)" by fastforce
  obtain out ms l2 where x: "run_hook (hp_parse P) (hp_show P) (hp_exec P) (snd gh) payload
      (if bc_env b = [] then None else Some (bc_env b)) (Some (px_cwd (bc_context b)))
      (trailing_newline b) (Some point) t0 t1 l1 = ((out, ms), l2)" by (metis surj_pair)
  obtain spec ans where "hp_exec P spec l1 = (ans, l2)" using x by (auto simp: run_hook_def Let_def split: prod.splits)
  then obtain es where h2: "healthy l2" and e2: "events l2 = events l1 @ es"
    and f: "list_all (\<lambda>e. ty e \<notin> set hook_lines) es"
    using assms(2) h1 by (fastforce simp: exec_discreet_def)
  obtain j l3 where a3: "append l2 ''hook/result''
      (result_data turn point (handler_id point turn k) out (bc_cap b) ms) None = (Inr j, l3)"
    and h3: "healthy l3" using append_works [OF h2] by metis
  have "w' = w1\<lparr>hk_log := l3\<rparr>"
    using assms(7) a1 t0 t1 x a3 by (simp add: run_one_def Let_def assms(3))
  moreover have "events l3 = (events (hk_log w) @ [i]) @ es @ [j]"
    using append_ok [OF a1] e2 append_ok [OF a3] by simp
  ultimately show ?thesis
    using h3 one_pair_grows [OF assms(4-6) _ _ f] append_ok [OF a1] append_ok [OF a3] by simp
qed

lemma run_each_grows:
  assumes "healthy (hk_log w)" and "exec_discreet events healthy (hp_exec P)" and "hp_append P = append"
    and "fst (snd (trail_of nn (events (hk_log w)))) = Some turn" and "turn < 2 ^ 64" and "point \<noteq> []"
    and "run_each P b point payload turn k ghs w = (rs, w')"
  shows "trail_grows nn turn (length ghs) (events (hk_log w)) (events (hk_log w'))"
  using assms
proof (induction ghs arbitrary: k w rs w')
  case Nil
  then show ?case by (simp add: trail_grows_def)
next
  case (Cons gh ghs)
  obtain r w1 where r: "run_one P b point payload turn k gh w = (r, w1)" by fastforce
  obtain rs1 w2 where rs: "run_each P b point payload turn (k + 1) ghs w1 = (rs1, w2)" by fastforce
  note g1 = run_one_grows [OF Cons.prems(1-6) r]
  with Cons.IH [OF _ Cons.prems(2,3) _ Cons.prems(5,6) rs]
  have "trail_grows nn turn (length ghs) (events (hk_log w1)) (events (hk_log w2))" by (simp add: trail_grows_def)
  with g1 Cons.prems(7) r rs show ?case by (simp add: trail_grows_def)
qed

end

text \<open>
  C38. Every hook that runs is on the record, and the record obeys its own rules.  Inside the open
  turn, on a disk that takes every line, running the hooks of a point adds no fault to the audit
  trail and exactly one invocation and one result per selected hook, whatever the hooks answer.
\<close>

theorem hook_runs_audited:
  assumes "healthy_journal enc (hk_log w)" and "hp_append P = append_journal enc"
    and "exec_discreet j_events (healthy_journal enc) (hp_exec P)"
    and "fst (snd (trail_of nn (j_events (hk_log w)))) = Some turn" and "turn < 2 ^ 64" and "point \<noteq> []"
    and "run_point P b gs point name payload turn w = (res, w')"
  shows "trail_grows nn turn (length (selected_hooks (hp_rx P) gs name (dialect_mode (bc_dialect b))))
     (j_events (hk_log w)) (j_events (hk_log w'))"
proof (cases "selected_hooks (hp_rx P) gs name (dialect_mode (bc_dialect b)) = []")
  case True
  with assms(4,7) show ?thesis by (simp add: run_point_def trail_grows_def)
next
  case False
  then obtain rs where "run_each P b point payload turn 0 (selected_hooks (hp_rx P) gs name (dialect_mode (bc_dialect b))) w = (rs, w')"
    using assms(7) by (auto simp: run_point_def split: prod.splits)
  then show ?thesis by (rule journal_works.run_each_grows [OF assms(1,3,2,4-6)])
qed

definition demo_open :: "journal hooked" where
  "demo_open =
     \<lparr>hk_log = journal_run (\<lambda>_. Some []) [] [] [(''turn/start'', jobj [(''turn'', jnat 1)], None)], hk_pending = [], hk_clock = []\<rparr>"

lemma demo_open_turn: "fst (snd (trail_of (\<lambda>_. True) (j_events (hk_log demo_open)))) = Some 1"
  by code_simp

theorem hook_runs_audited_witness:
  "trail_grows (\<lambda>_. True) 1 1 (j_events (hk_log demo_open))
     (j_events (hk_log (snd (run_point demo_parts demo_bridge (bc_pre demo_bridge) ''PreToolUse'' ''bash'' JNull 1 demo_open))))"
proof -
  have h: "healthy_journal (\<lambda>_. Some []) (hk_log demo_open)"
    by (simp add: healthy_journal_def demo_open_def journal_run_def journal_request_def empty_journal_def
        append_journal_def Let_def next_disk_def)
  have e: "exec_discreet j_events (healthy_journal (\<lambda>_. Some [])) (hp_exec demo_parts)"
    by (simp add: exec_discreet_def demo_parts_def)
  have n: "length (selected_hooks (hp_rx demo_parts) (bc_pre demo_bridge) ''bash'' (dialect_mode (bc_dialect demo_bridge))) = 1"
    using demo_selected by (simp add: demo_call_def)
  show ?thesis
    using hook_runs_audited [where point = "''PreToolUse''" and b = demo_bridge and gs = "bc_pre demo_bridge"
        and name = "''bash''" and payload = JNull, OF h _ e demo_open_turn _ _ prod.collapse [symmetric]] n
    by (simp add: demo_parts_def)
qed


section \<open>Where the bridge departs from what it says\<close>

text \<open>Before a call Codex is told the turn the bridge was composed with, after it the running one.\<close>

lemma codex_turn_ids:
  "jget (codex_pre_tool (bc_context b) m f) ''turn_id'' = Some (JStr (show_nat (px_turn (bc_context b))))"
  "jget (codex_post_tool (context_at b turn) m f w) ''turn_id'' = Some (JStr (show_nat turn))"
  by (simp_all add: codex_pre_tool_def codex_post_tool_def codex_turn_base_def codex_base_def tool_fields_def context_at_def)

text \<open>A hook that only asks the turn to halt does not change what the gate decides.\<close>

lemma halt_request_not_gated:
  assumes "mo_decision out = NoWord" and "map_of (hk_pending w) i = Some out"
  shows "fst (hook_gate i declared w) = declared"
  using assms by (simp add: hook_gate_def take_answer_def permission_from_def Let_def)

text \<open>The start of a session runs its hooks outside any turn, which the rules of the trail do not allow.\<close>

lemma session_start_unenclosed:
  "hook_stream_faults (\<lambda>_. True)
     (j_events (hk_log (snd (session_start demo_parts demo_bridge
       \<lparr>wg_start = [\<lparr>mg_matcher = None, mg_hooks = [\<lparr>ch_command = ''guard'', ch_timeout = None\<rparr>]\<rparr>], wg_prompt = [], wg_stop = []\<rparr>
       ''startup'' \<lparr>hk_log = empty_journal [] [], hk_pending = [], hk_clock = []\<rparr>)))) =
     [''hook/invoked appended outside any open turn'', ''hook/result appended outside any open turn'']"
  by code_simp

end
