(* ===== verification/Storage.thy ===== *)
theory Storage
  imports Json_Value "HOL-Library.Countable"
begin

text \<open>
  The key-value seam of \<^verbatim>\<open>crates/core/src/storage\<close>: the operations of \<^verbatim>\<open>KvStore\<close> (\<^verbatim>\<open>mod.rs\<close>) as a
  record of functions on a store's state \<open>'s\<close>, what they promise each other as the locale
  \<open>kv_store\<close>, and the registry of mounted stores (\<^verbatim>\<open>registry.rs\<close>).  A read may fail, and what the
  medium answers it with is part of the state, so a read answers the state as well.
\<close>

type_synonym kv_table = "(string, json) omap"

datatype storage_error =
    StoreUnreadable string
  | StoreUnwritable string
  | StoreMalformed string string
  | ForeignFormat string nat
  | UndeclaredTable string "string list"
  | BadName string string
  | DuplicateStore string
  | UnknownStore string "string list"

definition name_byte :: "char \<Rightarrow> bool" where
  "name_byte c \<longleftrightarrow>
     (let n = of_char c :: nat in 97 \<le> n \<and> n \<le> 122 \<or> 48 \<le> n \<and> n \<le> 57) \<or> c = CHR ''.'' \<or> c = CHR ''_'' \<or> c = CHR ''-''"

definition valid_name :: "string \<Rightarrow> string \<Rightarrow> storage_error + unit" where
  "valid_name what name =
     (if 1 \<le> length name \<and> length name \<le> 64 \<and> list_all name_byte name then Inr () else Inl (BadName what name))"

text \<open>The JSON text codec: a value's text, its indented text, and reading one back or why not.\<close>

record store_codec =
  jc_text :: "json \<Rightarrow> string"
  jc_pretty :: "json \<Rightarrow> string"
  jc_parse :: "string \<Rightarrow> string + json"

definition codec_ok :: "store_codec \<Rightarrow> bool" where
  "codec_ok jc \<longleftrightarrow> (\<forall>j. jc_parse jc (jc_text jc j) = Inr j \<and> jc_parse jc (jc_pretty jc j) = Inr j)"

instance json :: countable
  by countable_datatype

text \<open>A codec that meets this, for the examples: a value is written as its number in unary.\<close>

definition unary_codec :: store_codec where
  "unary_codec =
     \<lparr>jc_text = (\<lambda>j. replicate (to_nat j) CHR ''1''), jc_pretty = (\<lambda>j. replicate (to_nat j) CHR ''1''),
      jc_parse = (\<lambda>w. Inr (from_nat (length w)))\<rparr>"

lemma unary_codec_ok: "codec_ok unary_codec"
  by (simp add: codec_ok_def unary_codec_def)

fun all_valid :: "string \<Rightarrow> string list \<Rightarrow> storage_error + unit" where
  "all_valid what [] = Inr ()"
| "all_valid what (n # ns) = (case valid_name what n of Inl x \<Rightarrow> Inl x | Inr _ \<Rightarrow> all_valid what ns)"

record 's kv_ops =
  kv_get :: "'s \<Rightarrow> string \<Rightarrow> string \<Rightarrow> (storage_error + json option) \<times> 's"
  kv_table :: "'s \<Rightarrow> string \<Rightarrow> (storage_error + kv_table) \<times> 's"
  kv_put :: "'s \<Rightarrow> string \<Rightarrow> string \<Rightarrow> json \<Rightarrow> (storage_error + json option) \<times> 's"
  kv_remove :: "'s \<Rightarrow> string \<Rightarrow> string \<Rightarrow> (storage_error + json option) \<times> 's"
  kv_declared :: "'s \<Rightarrow> string list"

section \<open>What the operations promise each other\<close>

text \<open>
  \<open>ok\<close> is the backend's invariant and \<open>held\<close> what its medium holds: what a caller would read if every
  read worked.  An error changes nothing that is held.
\<close>

locale kv_store =
  fixes ops :: "'s kv_ops"
    and ok :: "'s \<Rightarrow> bool"
    and held :: "'s \<Rightarrow> string \<Rightarrow> string \<Rightarrow> json option"
  assumes get_held:
      "ok s \<Longrightarrow> kv_get ops s t k = (r, s') \<Longrightarrow>
         ok s' \<and> held s' = held s \<and> kv_declared ops s' = kv_declared ops s \<and> (\<forall>v. r = Inr v \<longrightarrow> v = held s t k)"
    and table_held:
      "ok s \<Longrightarrow> kv_table ops s t = (rt, s') \<Longrightarrow>
         ok s' \<and> held s' = held s \<and> kv_declared ops s' = kv_declared ops s
         \<and> (\<forall>m. rt = Inr m \<longrightarrow> om_wf m \<and> map_of m = held s t)"
    and put_held:
      "ok s \<Longrightarrow> kv_put ops s t k v = (Inr old, s') \<Longrightarrow>
         ok s' \<and> old = held s t k \<and> held s' = (held s)(t := (held s t)(k \<mapsto> v))
         \<and> kv_declared ops s' = kv_declared ops s"
    and put_refused:
      "ok s \<Longrightarrow> kv_put ops s t k v = (Inl x, s') \<Longrightarrow>
         ok s' \<and> held s' = held s \<and> kv_declared ops s' = kv_declared ops s"
    and remove_held:
      "ok s \<Longrightarrow> kv_remove ops s t k = (Inr old, s') \<Longrightarrow>
         ok s' \<and> old = held s t k \<and> held s' = (held s)(t := (held s t)(k := None))
         \<and> kv_declared ops s' = kv_declared ops s"
    and remove_refused:
      "ok s \<Longrightarrow> kv_remove ops s t k = (Inl x, s') \<Longrightarrow>
         ok s' \<and> held s' = held s \<and> kv_declared ops s' = kv_declared ops s"
    and put_names: "ok s \<Longrightarrow> kv_put ops s t k v = (Inr old, s') \<Longrightarrow> t \<in> set (kv_declared ops s) \<and> valid_name ''key'' k = Inr ()"

text \<open>Any sequence of writes, each of which the medium may refuse.\<close>

datatype kv_request = PutOne string string json | RemoveOne string string

fun kv_request_step :: "'s kv_ops \<Rightarrow> 's \<Rightarrow> kv_request \<Rightarrow> (storage_error + json option) \<times> 's" where
  "kv_request_step ops s (PutOne t k v) = kv_put ops s t k v"
| "kv_request_step ops s (RemoveOne t k) = kv_remove ops s t k"

fun kv_run :: "'s kv_ops \<Rightarrow> 's \<Rightarrow> kv_request list \<Rightarrow> (storage_error + json option) list \<times> 's" where
  "kv_run ops s [] = ([], s)"
| "kv_run ops s (q # qs) =
     (let (r, s1) = kv_request_step ops s q; (rs, s2) = kv_run ops s1 qs in (r # rs, s2))"

text \<open>The same writes on a plain map: only those that were accepted happened.\<close>

fun kv_apply :: "(string \<Rightarrow> string \<Rightarrow> json option) \<Rightarrow> kv_request \<Rightarrow> (string \<Rightarrow> string \<Rightarrow> json option)" where
  "kv_apply h (PutOne t k v) = h(t := (h t)(k \<mapsto> v))"
| "kv_apply h (RemoveOne t k) = h(t := (h t)(k := None))"

definition kv_accepted :: "kv_request list \<Rightarrow> (storage_error + json option) list \<Rightarrow> kv_request list" where
  "kv_accepted qs rs = map fst (filter (\<lambda>p. case snd p of Inr _ \<Rightarrow> True | Inl _ \<Rightarrow> False) (zip qs rs))"

context kv_store
begin

lemma request_held:
  assumes "ok s" and "kv_request_step ops s q = (r, s')"
  shows "ok s' \<and> kv_declared ops s' = kv_declared ops s
    \<and> held s' = (case r of Inr _ \<Rightarrow> kv_apply (held s) q | Inl _ \<Rightarrow> held s)"
  using assms
  by (cases q; cases r) (auto dest: put_held put_refused remove_held remove_refused)

lemma run_held:
  assumes "ok s" and "kv_run ops s qs = (rs, s')"
  shows "ok s' \<and> kv_declared ops s' = kv_declared ops s \<and> held s' = foldl kv_apply (held s) (kv_accepted qs rs)"
  using assms
proof (induction qs arbitrary: s rs s')
  case Nil
  then show ?case by (simp add: kv_accepted_def)
next
  case (Cons q qs)
  obtain r s1 where r: "kv_request_step ops s q = (r, s1)" by fastforce
  obtain rs1 s2 where rs: "kv_run ops s1 qs = (rs1, s2)" by fastforce
  have eq: "rs = r # rs1" "s' = s2" using Cons.prems(2) r rs by simp_all
  show ?case
    using request_held [OF Cons.prems(1) r] Cons.IH [OF _ rs] unfolding eq
    by (cases r) (simp_all add: kv_accepted_def)
qed

end

section \<open>What a caller can tell of a backend\<close>

text \<open>
  The reference: what the seam answers from the declared tables and the values held alone.  A request
  is plain unless it is wrong in two ways at once, where the backends report different ones.
\<close>

fun plain_request :: "string list \<Rightarrow> kv_request \<Rightarrow> bool" where
  "plain_request names (PutOne t k v) \<longleftrightarrow> t \<in> set names \<or> valid_name ''key'' k = Inr ()"
| "plain_request names (RemoveOne t k) \<longleftrightarrow> True"

fun kv_reply ::
  "string list \<Rightarrow> (string \<Rightarrow> string \<Rightarrow> json option) \<Rightarrow> kv_request
   \<Rightarrow> (storage_error + json option) \<times> (string \<Rightarrow> string \<Rightarrow> json option)"
where
  "kv_reply names h (PutOne t k v) =
     (if t \<notin> set names then (Inl (UndeclaredTable t names), h)
      else (case valid_name ''key'' k of
          Inl x \<Rightarrow> (Inl x, h)
        | Inr _ \<Rightarrow> (Inr (h t k), kv_apply h (PutOne t k v))))"
| "kv_reply names h (RemoveOne t k) =
     (if t \<notin> set names then (Inl (UndeclaredTable t names), h)
      else (Inr (h t k), kv_apply h (RemoveOne t k)))"

fun kv_replies ::
  "string list \<Rightarrow> (string \<Rightarrow> string \<Rightarrow> json option) \<Rightarrow> kv_request list
   \<Rightarrow> (storage_error + json option) list \<times> (string \<Rightarrow> string \<Rightarrow> json option)"
where
  "kv_replies names h [] = ([], h)"
| "kv_replies names h (q # qs) =
     (let (r, h1) = kv_reply names h q; (rs, h2) = kv_replies names h1 qs in (r # rs, h2))"

text \<open>A store whose medium takes every write answers as the reference does.\<close>

locale working_kv = kv_store +
  fixes healthy :: "'s \<Rightarrow> bool"
  assumes request_works:
      "ok s \<Longrightarrow> healthy s \<Longrightarrow> plain_request (kv_declared ops s) q \<Longrightarrow> kv_request_step ops s q = (r, s') \<Longrightarrow>
         healthy s' \<and> r = fst (kv_reply (kv_declared ops s) (held s) q)"
begin

lemma request_refines:
  assumes "ok s" and "healthy s" and "plain_request (kv_declared ops s) q" and "kv_request_step ops s q = (r, s')"
  shows "kv_reply (kv_declared ops s) (held s) q = (r, held s')"
proof -
  have "snd (kv_reply names h x) = (case fst (kv_reply names h x) of Inr _ \<Rightarrow> kv_apply h x | Inl _ \<Rightarrow> h)" for names h x
    by (cases x) (auto split: sum.splits)
  then show ?thesis
    using request_works [OF assms] request_held [OF assms(1,4)] by (simp add: prod_eq_iff)
qed

lemma run_refines:
  assumes "ok s" and "healthy s" and "list_all (plain_request (kv_declared ops s)) qs" and "kv_run ops s qs = (rs, s')"
  shows "kv_replies (kv_declared ops s) (held s) qs = (rs, held s')"
  using assms
proof (induction qs arbitrary: s rs s')
  case (Cons q qs)
  obtain r s1 where r: "kv_request_step ops s q = (r, s1)" by fastforce
  obtain rs1 s2 where rs: "kv_run ops s1 qs = (rs1, s2)" by fastforce
  have q: "plain_request (kv_declared ops s) q" using Cons.prems(3) by simp
  have d: "ok s1" "kv_declared ops s1 = kv_declared ops s" using request_held [OF Cons.prems(1) r] by simp_all
  have "kv_replies (kv_declared ops s1) (held s1) qs = (rs1, held s2)"
    using Cons.IH [OF d(1) _ _ rs] request_works [OF Cons.prems(1,2) q r] Cons.prems(3) d(2) by simp
  then show ?case
    using Cons.prems(4) r rs request_refines [OF Cons.prems(1,2) q r] d(2) by simp
qed simp

end

section \<open>The registry of mounted stores\<close>

text \<open>
  Stores are shared, so the registry holds their addresses; a handle holds the name and the address it
  mounted, and dropping it removes only that.
\<close>

type_synonym store_registry = "(string, nat) omap"

definition mount :: "string \<Rightarrow> nat \<Rightarrow> store_registry \<Rightarrow> (storage_error + string \<times> nat) \<times> store_registry" where
  "mount name store reg =
     (case valid_name ''store'' name of
        Inl x \<Rightarrow> (Inl x, reg)
      | Inr _ \<Rightarrow>
          if map_of reg name \<noteq> None then (Inl (DuplicateStore name), reg)
          else (Inr (name, store), om_insert name store reg))"

definition unmount :: "string \<times> nat \<Rightarrow> store_registry \<Rightarrow> store_registry" where
  "unmount h reg = (if map_of reg (fst h) = Some (snd h) then om_remove (fst h) reg else reg)"

definition mounted :: "string \<Rightarrow> store_registry \<Rightarrow> storage_error + nat" where
  "mounted name reg = (case map_of reg name of Some a \<Rightarrow> Inr a | None \<Rightarrow> Inl (UnknownStore name (map fst reg)))"

definition mounted_names :: "store_registry \<Rightarrow> string list" where
  "mounted_names reg = map fst reg"

text \<open>A handle dropped late takes down nothing that was mounted after it under the same name.\<close>

lemma stale_unmount:
  assumes "mount n b (unmount (n, a) reg) = (Inr h, reg')" and "a \<noteq> b"
  shows "mounted n (unmount (n, a) reg') = Inr b"
  using assms by (auto simp: mount_def unmount_def mounted_def split: sum.splits if_splits)

end
