(* ===== verification/Storage_File.thy ===== *)
theory Storage_File
  imports Storage
begin

text \<open>
  The file-backed store, \<^verbatim>\<open>crates/core/src/storage/json.rs\<close>: one file that is replaced whole.  The
  medium is the file and the temporary beside it, with how the next replacements will go.
\<close>

text \<open>
  A replacement is published, or fails before the rename with so many bytes of the temporary written
  (none when it could not be created), which is then removed or not.
\<close>

datatype replace_outcome = Replaced | NotReplaced "nat option" bool

record store_file =
  sf_text :: "string option"
  sf_temp :: "string option"
  sf_next :: "replace_outcome list"

record file_store =
  st_path :: string
  st_tables :: "(string, kv_table) omap"
  st_file :: store_file

definition FORMAT_VERSION :: nat where
  "FORMAT_VERSION = 1"

section \<open>Reading a store file\<close>

fun parse_tables :: "string \<Rightarrow> (string \<times> json) list \<Rightarrow> storage_error + (string, kv_table) omap" where
  "parse_tables path [] = Inr []"
| "parse_tables path ((name, contents) # rest) =
     (case contents of
        JObj m \<Rightarrow> (case parse_tables path rest of Inl x \<Rightarrow> Inl x | Inr ts \<Rightarrow> Inr ((name, m) # ts))
      | _ \<Rightarrow> Inl (StoreMalformed path (''table '' @ [CHR 0x22] @ name @ [CHR 0x22] @ '' must be an object'')))"

definition parse_store :: "store_codec \<Rightarrow> string \<Rightarrow> string \<Rightarrow> storage_error + (string, kv_table) omap" where
  "parse_store jc path w =
     (case jc_parse jc w of
        Inl why \<Rightarrow> Inl (StoreMalformed path why)
      | Inr (JObj m) \<Rightarrow>
          (case Option.bind (map_of m ''version'') as_u64 of
             None \<Rightarrow> Inl (StoreMalformed path ''no format version'')
           | Some found \<Rightarrow>
               if found \<noteq> FORMAT_VERSION then Inl (ForeignFormat path (found mod 2 ^ 32))
               else (case map_of m ''tables'' of
                   Some (JObj ts) \<Rightarrow> parse_tables path ts
                 | _ \<Rightarrow> Inl (StoreMalformed path (CHR 0x60 # ''tables'' @ CHR 0x60 # '' must be an object''))))
      | Inr _ \<Rightarrow> Inl (StoreMalformed path ''the root must be an object''))"

definition or_empty :: "string \<Rightarrow> (string, kv_table) omap \<Rightarrow> (string, kv_table) omap" where
  "or_empty name ts = (if map_of ts name = None then om_insert name [] ts else ts)"

text \<open>\<open>fault\<close> says that reading the file fails for another reason than its absence.\<close>

definition open_file_store ::
  "store_codec \<Rightarrow> string \<Rightarrow> string list \<Rightarrow> bool \<Rightarrow> store_file \<Rightarrow> storage_error + file_store"
where
  "open_file_store jc path names fault md =
     (case all_valid ''table'' names of
        Inl x \<Rightarrow> Inl x
      | Inr _ \<Rightarrow>
          if fault then Inl (StoreUnreadable path)
          else (case (case sf_text md of None \<Rightarrow> Inr [] | Some w \<Rightarrow> parse_store jc path w) of
              Inl x \<Rightarrow> Inl x
            | Inr ts \<Rightarrow> Inr \<lparr>st_path = path, st_tables = fold or_empty names ts, st_file = md\<rparr>))"

section \<open>The operations\<close>

definition undeclared :: "string \<Rightarrow> file_store \<Rightarrow> storage_error" where
  "undeclared name s = UndeclaredTable name (map fst (st_tables s))"

definition store_table :: "file_store \<Rightarrow> string \<Rightarrow> storage_error + kv_table" where
  "store_table s name = (case map_of (st_tables s) name of Some t \<Rightarrow> Inr t | None \<Rightarrow> Inl (undeclared name s))"

definition store_get :: "file_store \<Rightarrow> string \<Rightarrow> string \<Rightarrow> storage_error + json option" where
  "store_get s name k = (case store_table s name of Inl x \<Rightarrow> Inl x | Inr t \<Rightarrow> Inr (map_of t k))"

definition store_document :: "(string, kv_table) omap \<Rightarrow> json" where
  "store_document ts =
     jobj [(''version'', jnat FORMAT_VERSION), (''tables'', JObj (map (\<lambda>(n, t). (n, JObj t)) ts))]"

definition publish_store :: "store_codec \<Rightarrow> file_store \<Rightarrow> (storage_error + unit) \<times> file_store" where
  "publish_store jc s =
     (let w = jc_pretty jc (store_document (st_tables s)); md = st_file s; md1 = md\<lparr>sf_next := tl (sf_next md)\<rparr>
      in case sf_next md of
           NotReplaced part removed # _ \<Rightarrow>
             (Inl (StoreUnwritable (st_path s)),
              s\<lparr>st_file := md1\<lparr>sf_temp := (if removed then None
                 else case part of None \<Rightarrow> sf_temp md | Some n \<Rightarrow> Some (take n w))\<rparr>\<rparr>)
         | _ \<Rightarrow> (Inr (), s\<lparr>st_file := md1\<lparr>sf_text := Some w, sf_temp := None\<rparr>\<rparr>))"

definition mutate_store ::
  "store_codec \<Rightarrow> file_store \<Rightarrow> string \<Rightarrow> (kv_table \<Rightarrow> json option \<times> kv_table) \<Rightarrow> (storage_error + json option) \<times> file_store"
where
  "mutate_store jc s name change =
     (case map_of (st_tables s) name of
        None \<Rightarrow> (Inl (undeclared name s), s)
      | Some t \<Rightarrow>
          (let restore = st_tables s; (old, t1) = change t in
           case publish_store jc (s\<lparr>st_tables := om_insert name t1 (st_tables s)\<rparr>) of
             (Inr _, s1) \<Rightarrow> (Inr old, s1)
           | (Inl x, s1) \<Rightarrow> (Inl x, s1\<lparr>st_tables := restore\<rparr>)))"

definition store_put ::
  "store_codec \<Rightarrow> file_store \<Rightarrow> string \<Rightarrow> string \<Rightarrow> json \<Rightarrow> (storage_error + json option) \<times> file_store"
where
  "store_put jc s name k v =
     (case valid_name ''key'' k of
        Inl x \<Rightarrow> (Inl x, s)
      | Inr _ \<Rightarrow> mutate_store jc s name (\<lambda>t. (map_of t k, om_insert k v t)))"

definition store_remove ::
  "store_codec \<Rightarrow> file_store \<Rightarrow> string \<Rightarrow> string \<Rightarrow> (storage_error + json option) \<times> file_store"
where
  "store_remove jc s name k =
     (case store_table s name of
        Inl x \<Rightarrow> (Inl x, s)
      | Inr t \<Rightarrow>
          if map_of t k = None then (Inr None, s)
          else mutate_store jc s name (\<lambda>t. (map_of t k, om_remove k t)))"

definition file_ops :: "store_codec \<Rightarrow> file_store kv_ops" where
  "file_ops jc =
     \<lparr>kv_get = (\<lambda>s t k. (store_get s t k, s)), kv_table = (\<lambda>s t. (store_table s t, s)),
      kv_put = store_put jc, kv_remove = store_remove jc, kv_declared = (\<lambda>s. map fst (st_tables s))\<rparr>"

section \<open>Memory agrees with the file\<close>

definition table_held :: "(string, kv_table) omap \<Rightarrow> string \<Rightarrow> string \<Rightarrow> json option" where
  "table_held ts t k = Option.bind (map_of ts t) (\<lambda>m. map_of m k)"

definition tables_ok :: "(string, kv_table) omap \<Rightarrow> bool" where
  "tables_ok ts \<longleftrightarrow> om_wf ts \<and> list_all (\<lambda>p. om_wf (snd p)) ts"

text \<open>
  The invariant: the codec reads back what it wrote, the tables are well-formed maps, and the file
  parses to what memory holds; no file yet means that nothing is held.
\<close>

definition store_ok :: "store_codec \<Rightarrow> file_store \<Rightarrow> bool" where
  "store_ok jc s \<longleftrightarrow> codec_ok jc \<and> tables_ok (st_tables s)
     \<and> (case sf_text (st_file s) of
          None \<Rightarrow> table_held (st_tables s) = (\<lambda>_ _. None)
        | Some w \<Rightarrow> (\<exists>ts. parse_store jc (st_path s) w = Inr ts \<and> table_held ts = table_held (st_tables s)))"

lemma parse_tables_map: "parse_tables path (map (\<lambda>(n, t). (n, JObj t)) ts) = Inr ts"
  by (induction ts) auto

lemma parse_document:
  "jc_parse jc (jc_pretty jc (store_document ts)) = Inr (store_document ts)
   \<Longrightarrow> parse_store jc path (jc_pretty jc (store_document ts)) = Inr ts"
proof -
  assume "jc_parse jc (jc_pretty jc (store_document ts)) = Inr (store_document ts)"
  moreover obtain m where m: "store_document ts = JObj m" by (simp add: store_document_def jobj_def)
  moreover have "jget (store_document ts) ''version'' = Some (jnat FORMAT_VERSION)"
    "jget (store_document ts) ''tables'' = Some (JObj (map (\<lambda>(n, t). (n, JObj t)) ts))"
    by (simp_all add: store_document_def)
  ultimately show ?thesis by (simp add: parse_store_def FORMAT_VERSION_def jnat_def parse_tables_map)
qed

lemma tables_ok_insert: "tables_ok ts \<Longrightarrow> om_wf m \<Longrightarrow> tables_ok (om_insert n m ts)"
proof -
  assume "tables_ok ts" "om_wf m"
  moreover have "set (om_insert n m ts) \<subseteq> insert (n, m) (set ts)" by (induction n m ts rule: om_insert.induct) auto
  ultimately show ?thesis by (fastforce simp: tables_ok_def om_wf_insert list_all_iff)
qed

lemma tables_ok_lookup: "tables_ok ts \<Longrightarrow> map_of ts n = Some m \<Longrightarrow> om_wf m"
  by (auto simp: tables_ok_def list_all_iff dest!: map_of_SomeD)

lemma store_ok_lookup: "store_ok jc s \<Longrightarrow> map_of (st_tables s) n = Some m \<Longrightarrow> om_wf m"
  by (auto simp: store_ok_def dest: tables_ok_lookup)

lemma keys_insert_known: "map_of ts n \<noteq> None \<Longrightarrow> om_wf ts \<Longrightarrow> map fst (om_insert n m ts) = map fst ts"
proof -
  assume k: "map_of ts n \<noteq> None" and wf: "om_wf ts"
  have "fst ` set (om_insert n m ts) = fst ` set ts"
    using k by (auto simp: insert_absorb map_of_eq_None_iff)
  moreover have "sorted_wrt (<) (map fst (om_insert n m ts))" "sorted_wrt (<) (map fst ts)"
    using om_wf_insert [OF wf] wf by (simp_all add: om_wf_def)
  ultimately show ?thesis
    by (metis list.set_map strict_sorted_equal)
qed

lemma publish_store_cases:
  assumes "publish_store jc s = (r, s')"
  obtains (published) "r = Inr ()" "st_tables s' = st_tables s" "st_path s' = st_path s"
      "sf_text (st_file s') = Some (jc_pretty jc (store_document (st_tables s)))"
    | (failed) x where "r = Inl x" "st_tables s' = st_tables s" "st_path s' = st_path s"
      "sf_text (st_file s') = sf_text (st_file s)"
  using assms
  by (cases "sf_next (st_file s)"; cases "hd (sf_next (st_file s))")
    (auto simp: publish_store_def Let_def)

lemma mutate_store_effect:
  assumes "store_ok jc s" and "mutate_store jc s name change = (r, s')"
    and "\<And>t. om_wf t \<Longrightarrow> om_wf (snd (change t))"
  shows "store_ok jc s' \<and> map fst (st_tables s') = map fst (st_tables s)
    \<and> (case r of
         Inl _ \<Rightarrow> table_held (st_tables s') = table_held (st_tables s)
       | Inr old \<Rightarrow> \<exists>t. map_of (st_tables s) name = Some t \<and> old = fst (change t)
           \<and> table_held (st_tables s') = (table_held (st_tables s))(name := map_of (snd (change t))))"
proof (cases "map_of (st_tables s) name")
  case None
  then show ?thesis using assms(1,2) by (auto simp: mutate_store_def)
next
  case (Some t)
  let ?ts = "om_insert name (snd (change t)) (st_tables s)"
  have ok: "tables_ok ?ts"
    using assms(1,3) Some tables_ok_lookup tables_ok_insert unfolding store_ok_def by blast
  have held: "table_held ?ts = (table_held (st_tables s))(name := map_of (snd (change t)))"
    by (auto simp: table_held_def fun_eq_iff)
  have keys: "map fst ?ts = map fst (st_tables s)"
    using keys_insert_known [of "st_tables s" name] Some assms(1) by (simp add: store_ok_def tables_ok_def)
  obtain q s1 where p: "publish_store jc (s\<lparr>st_tables := ?ts\<rparr>) = (q, s1)" by fastforce
  from p show ?thesis
  proof (cases rule: publish_store_cases)
    case published
    have "store_ok jc s1"
      using assms(1) ok parse_document published by (auto simp: store_ok_def codec_ok_def)
    moreover have "r = Inr (fst (change t))" "s' = s1"
      using assms(2) Some p published(1) by (auto simp: mutate_store_def Let_def split: prod.splits)
    ultimately show ?thesis using published(2) keys held Some by simp
  next
    case (failed x)
    have "r = Inl x" "s' = s1\<lparr>st_tables := st_tables s\<rparr>"
      using assms(2) Some p failed(1) by (auto simp: mutate_store_def Let_def split: prod.splits)
    then show ?thesis using assms(1) failed by (auto simp: store_ok_def split: option.splits)
  qed
qed

interpretation file_kv: kv_store "file_ops jc" "store_ok jc" "\<lambda>s. table_held (st_tables s)" for jc
proof (unfold_locales, goal_cases)
  case (1 s t k r s')
  then show ?case by (auto simp: file_ops_def store_get_def store_table_def table_held_def split: option.splits)
next
  case (2 s t r s')
  then show ?case
    by (auto simp: file_ops_def store_table_def table_held_def fun_eq_iff dest: store_ok_lookup split: option.splits)
next
  case (3 s t k v old s')
  then show ?case
    using mutate_store_effect [of jc s t "\<lambda>t. (map_of t k, om_insert k v t)" "Inr old" s']
    by (auto simp: file_ops_def store_put_def table_held_def fun_eq_iff om_wf_insert split: sum.splits)
next
  case (4 s t k v x s')
  then show ?case
    using mutate_store_effect [of jc s t "\<lambda>t. (map_of t k, om_insert k v t)" "Inl x" s']
    by (auto simp: file_ops_def store_put_def om_wf_insert split: sum.splits)
next
  case (5 s t k old s')
  then show ?case
    using mutate_store_effect [of jc s t "\<lambda>t. (map_of t k, om_remove k t)" "Inr old" s']
    by (auto simp: file_ops_def store_remove_def store_table_def table_held_def fun_eq_iff om_wf_remove
        split: sum.splits option.splits if_splits)
next
  case (6 s t k x s')
  then show ?case
    using mutate_store_effect [of jc s t "\<lambda>t. (map_of t k, om_remove k t)" "Inl x" s']
    by (auto simp: file_ops_def store_remove_def store_table_def om_wf_remove split: sum.splits option.splits if_splits)
next
  case (7 s t k v old s')
  then show ?case
    by (auto simp: file_ops_def store_put_def mutate_store_def map_of_eq_None_iff split: sum.splits option.splits
        dest!: map_of_SomeD intro: rev_image_eqI)
qed


section \<open>What survives\<close>

definition file_healthy :: "file_store \<Rightarrow> bool" where
  "file_healthy s \<longleftrightarrow> list_all (\<lambda>p. p = Replaced) (sf_next (st_file s))"

lemma mutate_healthy:
  assumes "file_healthy s" and "map_of (st_tables s) n = Some t" and "mutate_store jc s n change = (r, s')"
  shows "file_healthy s' \<and> r = Inr (fst (change t))"
  using assms
  by (cases "sf_next (st_file s)")
    (auto simp: mutate_store_def publish_store_def file_healthy_def Let_def split: prod.splits)

interpretation file_works: working_kv "file_ops jc" "store_ok jc" "\<lambda>s. table_held (st_tables s)" file_healthy for jc
proof (unfold_locales, goal_cases)
  case (1 s q r s')
  have keys: "map_of ts t \<noteq> None \<longleftrightarrow> t \<in> fst ` set ts" for ts :: "(string, kv_table) omap" and t
    by (auto simp: map_of_eq_None_iff)
  have held: "map_of (st_tables s) t = Some m \<Longrightarrow> table_held (st_tables s) t k = map_of m k" for t m k
    by (simp add: table_held_def)
  show ?case
  proof (cases q)
    case (PutOne t k v)
    show ?thesis
    proof (cases "map_of (st_tables s) t")
      case None
      then have "t \<notin> fst ` set (st_tables s)" using keys by blast
      with 1 PutOne None show ?thesis
        by (auto simp: file_ops_def store_put_def mutate_store_def undeclared_def)
    next
      case (Some m)
      then have "t \<in> fst ` set (st_tables s)" using keys by blast
      with 1 PutOne Some mutate_healthy [OF 1(2) Some, of jc "\<lambda>t. (map_of t k, om_insert k v t)" r s'] show ?thesis
        by (auto simp: file_ops_def store_put_def held split: sum.splits)
    qed
  next
    case (RemoveOne t k)
    show ?thesis
    proof (cases "map_of (st_tables s) t")
      case None
      then have "t \<notin> fst ` set (st_tables s)" using keys by blast
      with 1 RemoveOne None show ?thesis
        by (auto simp: file_ops_def store_remove_def store_table_def undeclared_def)
    next
      case (Some m)
      then have "t \<in> fst ` set (st_tables s)" using keys by blast
      with 1 RemoveOne Some mutate_healthy [OF 1(2) Some, of jc "\<lambda>t. (map_of t k, om_remove k t)" r s'] show ?thesis
        by (auto simp: file_ops_def store_remove_def store_table_def held split: if_splits)
    qed
  qed
qed

lemma held_or_empty [simp]: "table_held (fold or_empty names ts) = table_held ts"
proof -
  have "table_held (or_empty n ts) = table_held ts" for n ts
    by (auto simp: or_empty_def table_held_def fun_eq_iff)
  then show ?thesis by (induction names arbitrary: ts) simp_all
qed

lemma tables_ok_or_empty: "tables_ok ts \<Longrightarrow> tables_ok (fold or_empty names ts)"
  by (induction names arbitrary: ts) (simp_all add: or_empty_def tables_ok_insert)

lemma opened_fresh:
  assumes "codec_ok jc" and "sf_text md = None" and "open_file_store jc path names fault md = Inr s"
  shows "store_ok jc s \<and> table_held (st_tables s) = (\<lambda>_ _. None) \<and> st_path s = path \<and> fault = False
    \<and> all_valid ''table'' names = Inr () \<and> sf_next (st_file s) = sf_next md"
proof -
  have t: "tables_ok []" by (simp add: tables_ok_def)
  have h: "table_held [] = (\<lambda>_ _. None)" by (simp add: table_held_def fun_eq_iff)
  show ?thesis
    using assms tables_ok_or_empty [OF t, of names] h
    by (auto simp: open_file_store_def store_ok_def split: sum.splits if_splits)
qed

lemma publish_path: "publish_store jc s = (r, s') \<Longrightarrow> st_path s' = st_path s"
  by (erule publish_store_cases) simp_all

lemma mutate_path: "mutate_store jc s n change = (r, s') \<Longrightarrow> st_path s' = st_path s"
  by (auto simp: mutate_store_def Let_def split: option.splits prod.splits sum.splits dest!: publish_path)

lemma run_path: "kv_run (file_ops jc) s qs = (rs, s') \<Longrightarrow> st_path s' = st_path s"
proof (induction qs arbitrary: s rs s')
  case (Cons q qs)
  have "kv_request_step (file_ops jc) s q = (r, s1) \<Longrightarrow> st_path s1 = st_path s" for r s1
    by (cases q) (auto simp: file_ops_def store_put_def store_remove_def dest: mutate_path
        split: sum.splits if_splits)
  with Cons show ?case by (auto split: prod.splits)
qed simp


definition demo_file :: store_file where
  "demo_file = \<lparr>sf_text = None, sf_temp = None, sf_next = [NotReplaced (Some 3) True]\<rparr>"

definition demo_requests :: "kv_request list" where
  "demo_requests = [PutOne ''t'' ''k'' JNull, PutOne ''t'' ''k'' (JBool True), RemoveOne ''t'' ''j'']"

lemma demo_opens:
  "open_file_store unary_codec ''p'' [''t''] False demo_file = Inr \<lparr>st_path = ''p'', st_tables = [(''t'', [])], st_file = demo_file\<rparr>"
  by (simp add: open_file_store_def demo_file_def or_empty_def valid_name_def name_byte_def)

lemma demo_answers:
  "fst (kv_run (file_ops unary_codec) \<lparr>st_path = ''p'', st_tables = [(''t'', [])], st_file = demo_file\<rparr> demo_requests) =
     [Inl (StoreUnwritable ''p''), Inr None, Inr None]"
  by (simp add: demo_requests_def file_ops_def store_put_def store_remove_def store_table_def valid_name_def name_byte_def
      mutate_store_def publish_store_def demo_file_def Let_def)


text \<open>A table the file brings is served and listed although nobody declared it.\<close>

lemma kept_table_served:
  "case open_file_store \<lparr>jc_text = (\<lambda>_. []), jc_pretty = (\<lambda>_. []),
          jc_parse = (\<lambda>_. Inr (store_document [(''theirs'', [(''k'', JNull)])]))\<rparr> ''p'' [''mine''] False
          \<lparr>sf_text = Some [], sf_temp = None, sf_next = []\<rparr> of
     Inr s \<Rightarrow> store_get s ''theirs'' ''k'' = Inr (Some JNull) \<and> map fst (st_tables s) = [''mine'', ''theirs'']
   | Inl _ \<Rightarrow> False"
  by code_simp

end
