(* ===== verification/Storage_Sqlite.thy ===== *)
theory Storage_Sqlite
  imports Storage_File
begin

text \<open>
  The database-backed store, \<^verbatim>\<open>crates/core/src/storage/sqlite.rs\<close>.  A database file carries its two
  stamps and the rows of the table \<^verbatim>\<open>records\<close>, by table and key; a call to the database works or
  changes nothing and answers an error, as \<open>sq_calls\<close> says in turn.  Nobody else writes the file
  while the store is open.
\<close>

definition SCHEMA_VERSION :: int where
  "SCHEMA_VERSION = 1"

definition APPLICATION_ID :: int where
  "APPLICATION_ID = 0x7465746b"

record database =
  db_app :: int
  db_version :: int
  db_rows :: "(string, (string, string) omap) omap"

record sqlite_store =
  sq_path :: string
  sq_declared :: "string list"
  sq_connected :: bool
  sq_db :: "database option"
  sq_calls :: "bool list"

definition rows_of :: "database option \<Rightarrow> string \<Rightarrow> (string, string) omap" where
  "rows_of db t = (case db of None \<Rightarrow> [] | Some d \<Rightarrow> (case map_of (db_rows d) t of Some m \<Rightarrow> m | None \<Rightarrow> []))"

text \<open>One call, with what it does to the store when it works.\<close>

definition db_call :: "storage_error \<Rightarrow> (sqlite_store \<Rightarrow> sqlite_store) \<Rightarrow> sqlite_store \<Rightarrow> (storage_error + unit) \<times> sqlite_store" where
  "db_call x f s =
     (let s1 = s\<lparr>sq_calls := tl (sq_calls s)\<rparr>
      in case sq_calls s of False # _ \<Rightarrow> (Inl x, s1) | _ \<Rightarrow> (Inr (), f s1))"

definition db_then ::
  "(sqlite_store \<Rightarrow> (storage_error + 'a) \<times> sqlite_store) \<Rightarrow> ('a \<Rightarrow> sqlite_store \<Rightarrow> (storage_error + 'b) \<times> sqlite_store)
   \<Rightarrow> sqlite_store \<Rightarrow> (storage_error + 'b) \<times> sqlite_store"
where
  "db_then m f s = (case m s of (Inl x, s1) \<Rightarrow> (Inl x, s1) | (Inr a, s1) \<Rightarrow> f a s1)"

definition unreadable :: "sqlite_store \<Rightarrow> storage_error" where
  "unreadable s = StoreUnreadable (sq_path s)"

definition unwritable :: "sqlite_store \<Rightarrow> storage_error" where
  "unwritable s = StoreUnwritable (sq_path s)"

section \<open>Opening the medium\<close>

fun hex_digits :: "nat \<Rightarrow> int \<Rightarrow> string" where
  "hex_digits 0 n = []"
| "hex_digits (Suc k) n =
     (if n = 0 then [] else hex_digits k (n div 16) @ [char_of (if n mod 16 < 10 then 48 + nat (n mod 16) else 87 + nat (n mod 16))])"

definition hex_i32 :: "int \<Rightarrow> string" where
  "hex_i32 i = ''0x'' @ (if i = 0 then ''0'' else hex_digits 8 (i mod 2 ^ 32))"

definition foreign_database :: "string \<Rightarrow> int \<Rightarrow> storage_error" where
  "foreign_database path i =
     StoreMalformed path (''is not a tetanus key-value store (application_id '' @ hex_i32 i @ '', expected ''
       @ hex_i32 APPLICATION_ID @ '')'')"

definition stamp_db :: "sqlite_store \<Rightarrow> (storage_error + unit) \<times> sqlite_store" where
  "stamp_db s =
     db_then (db_call (unwritable s) (\<lambda>s. s\<lparr>sq_db := map_option (\<lambda>d. d\<lparr>db_app := APPLICATION_ID\<rparr>) (sq_db s)\<rparr>))
       (\<lambda>_. db_call (unwritable s) (\<lambda>s. s\<lparr>sq_db := map_option (\<lambda>d. d\<lparr>db_version := SCHEMA_VERSION\<rparr>) (sq_db s)\<rparr>)) s"

definition check_db :: "sqlite_store \<Rightarrow> (storage_error + unit) \<times> sqlite_store" where
  "check_db s =
     db_then (db_call (unreadable s) id) (\<lambda>_ s.
       (let d = (case sq_db s of Some d \<Rightarrow> d | None \<Rightarrow> \<lparr>db_app = 0, db_version = 0, db_rows = []\<rparr>) in
        if db_app d \<noteq> APPLICATION_ID then (Inl (foreign_database (sq_path s) (db_app d)), s)
        else db_then (db_call (unreadable s) id) (\<lambda>_ s.
               if db_version d \<noteq> SCHEMA_VERSION then (Inl (ForeignFormat (sq_path s) (nat (max (db_version d) 0))), s)
               else (Inr (), s)) s)) s"

text \<open>The first pragma that writes is what creates a file that was not there.\<close>

definition connect :: "sqlite_store \<Rightarrow> (storage_error + unit) \<times> sqlite_store" where
  "connect s =
     (if sq_connected s then (Inr (), s)
      else (let fresh = (sq_db s = None) in
        db_then (db_call (unreadable s) id) (\<lambda>_.
        db_then (db_call (unreadable s)
            (\<lambda>s. s\<lparr>sq_db := (case sq_db s of None \<Rightarrow> Some \<lparr>db_app = 0, db_version = 0, db_rows = []\<rparr> | Some d \<Rightarrow> Some d)\<rparr>)) (\<lambda>_.
        db_then (db_call (unreadable s) id) (\<lambda>_.
        db_then (if fresh then stamp_db else check_db) (\<lambda>_.
        db_call (unwritable s) (\<lambda>s. s\<lparr>sq_connected := True\<rparr>))))) s))"

definition open_sqlite ::
  "string \<Rightarrow> string list \<Rightarrow> database option \<Rightarrow> bool list \<Rightarrow> (storage_error + sqlite_store) \<times> database option"
where
  "open_sqlite path names db calls =
     (case all_valid ''table'' names of
        Inl x \<Rightarrow> (Inl x, db)
      | Inr _ \<Rightarrow>
          (let s = \<lparr>sq_path = path, sq_declared = sorted_list_of_set (set names), sq_connected = False, sq_db = db, sq_calls = calls\<rparr>
           in if db = None then (Inr s, db)
              else (case connect s of (Inl x, s1) \<Rightarrow> (Inl x, sq_db s1) | (Inr _, s1) \<Rightarrow> (Inr s1, sq_db s1))))"

section \<open>The operations\<close>

definition decode_row :: "store_codec \<Rightarrow> string \<Rightarrow> string \<Rightarrow> storage_error + json" where
  "decode_row jc path w =
     (case jc_parse jc w of
        Inl why \<Rightarrow> Inl (StoreMalformed path (''a stored value does not parse as JSON: '' @ why))
      | Inr v \<Rightarrow> Inr v)"

definition declared_only :: "string \<Rightarrow> sqlite_store \<Rightarrow> (storage_error + unit) \<times> sqlite_store" where
  "declared_only t s = (if t \<in> set (sq_declared s) then Inr () else Inl (UndeclaredTable t (sq_declared s)), s)"

definition sqlite_get :: "store_codec \<Rightarrow> sqlite_store \<Rightarrow> string \<Rightarrow> string \<Rightarrow> (storage_error + json option) \<times> sqlite_store" where
  "sqlite_get jc s t k =
     db_then (declared_only t) (\<lambda>_ s.
       if \<not> sq_connected s then (Inr None, s)
       else db_then (db_call (unreadable s) id) (\<lambda>_ s.
              (case map_of (rows_of (sq_db s) t) k of
                 None \<Rightarrow> Inr None
               | Some w \<Rightarrow> (case decode_row jc (sq_path s) w of Inl x \<Rightarrow> Inl x | Inr v \<Rightarrow> Inr (Some v)), s)) s) s"

fun read_rows ::
  "store_codec \<Rightarrow> (string \<times> string) list \<Rightarrow> kv_table \<Rightarrow> sqlite_store \<Rightarrow> (storage_error + kv_table) \<times> sqlite_store"
where
  "read_rows jc [] m s = (Inr m, s)"
| "read_rows jc ((k, w) # rows) m s =
     db_then (db_call (unreadable s) id) (\<lambda>_ s.
       (case decode_row jc (sq_path s) w of
          Inl x \<Rightarrow> (Inl x, s)
        | Inr v \<Rightarrow> read_rows jc rows (om_insert k v m) s)) s"

definition sqlite_table :: "store_codec \<Rightarrow> sqlite_store \<Rightarrow> string \<Rightarrow> (storage_error + kv_table) \<times> sqlite_store" where
  "sqlite_table jc s t =
     db_then (declared_only t) (\<lambda>_ s.
       if \<not> sq_connected s then (Inr [], s)
       else db_then (db_call (unreadable s) id) (\<lambda>_.
            db_then (db_call (unreadable s) id) (\<lambda>_ s. read_rows jc (rows_of (sq_db s) t) [] s)) s) s"

definition with_rows :: "string \<Rightarrow> ((string, string) omap \<Rightarrow> (string, string) omap) \<Rightarrow> sqlite_store \<Rightarrow> sqlite_store" where
  "with_rows t f s =
     s\<lparr>sq_db := map_option (\<lambda>d. d\<lparr>db_rows := om_insert t (f (rows_of (Some d) t)) (db_rows d)\<rparr>) (sq_db s)\<rparr>"

definition sqlite_put ::
  "store_codec \<Rightarrow> sqlite_store \<Rightarrow> string \<Rightarrow> string \<Rightarrow> json \<Rightarrow> (storage_error + json option) \<times> sqlite_store"
where
  "sqlite_put jc s t k v =
     db_then (declared_only t) (\<lambda>_.
     db_then (\<lambda>s. (valid_name ''key'' k, s)) (\<lambda>_.
     db_then (\<lambda>s. sqlite_get jc s t k) (\<lambda>previous.
     db_then connect (\<lambda>_ s.
     db_then (db_call (unwritable s) (with_rows t (om_insert k (jc_text jc v)))) (\<lambda>_ s. (Inr previous, s)) s)))) s"

definition sqlite_remove ::
  "store_codec \<Rightarrow> sqlite_store \<Rightarrow> string \<Rightarrow> string \<Rightarrow> (storage_error + json option) \<times> sqlite_store"
where
  "sqlite_remove jc s t k =
     db_then (declared_only t) (\<lambda>_.
     db_then (\<lambda>s. sqlite_get jc s t k) (\<lambda>previous s.
       if previous = None then (Inr None, s)
       else db_then connect (\<lambda>_ s.
            db_then (db_call (unwritable s) (with_rows t (om_remove k))) (\<lambda>_ s. (Inr previous, s)) s) s)) s"

definition sqlite_ops :: "store_codec \<Rightarrow> sqlite_store kv_ops" where
  "sqlite_ops jc =
     \<lparr>kv_get = sqlite_get jc, kv_table = sqlite_table jc, kv_put = sqlite_put jc, kv_remove = sqlite_remove jc,
      kv_declared = sq_declared\<rparr>"

section \<open>The seam's promises\<close>

definition call_works :: "sqlite_store \<Rightarrow> bool" where
  "call_works s \<longleftrightarrow> (case sq_calls s of False # _ \<Rightarrow> False | _ \<Rightarrow> True)"

lemma db_call_eq:
  "db_call x f s = (if call_works s then (Inr (), f (s\<lparr>sq_calls := tl (sq_calls s)\<rparr>)) else (Inl x, s\<lparr>sq_calls := tl (sq_calls s)\<rparr>))"
  by (auto simp: db_call_def call_works_def Let_def split: list.split bool.split)

lemma db_then_result:
  "db_then m f s = (r, s') \<longleftrightarrow> (\<exists>a s1. m s = (Inr a, s1) \<and> f a s1 = (r, s')) \<or> (\<exists>x. m s = (Inl x, s') \<and> r = Inl x)"
  by (auto simp: db_then_def split: prod.split sum.split)

definition stamped :: "database option \<Rightarrow> bool" where
  "stamped db \<longleftrightarrow> (case db of None \<Rightarrow> False | Some d \<Rightarrow> db_app d = APPLICATION_ID \<and> db_version d = SCHEMA_VERSION)"

text \<open>What no connecting changes: the name, the declared tables and the rows.\<close>

definition same_rows :: "sqlite_store \<Rightarrow> sqlite_store \<Rightarrow> bool" where
  "same_rows s s' \<longleftrightarrow> sq_path s' = sq_path s \<and> sq_declared s' = sq_declared s
     \<and> rows_of (sq_db s') = rows_of (sq_db s) \<and> (sq_db s \<noteq> None \<longrightarrow> sq_db s' \<noteq> None)"

lemma same_rows_refl: "same_rows s s" by (simp add: same_rows_def)

lemma same_rows_trans: "same_rows a b \<Longrightarrow> same_rows b c \<Longrightarrow> same_rows a c" by (auto simp: same_rows_def)

lemma rows_of_restamped [simp]:
  "rows_of (map_option (\<lambda>d. d\<lparr>db_app := a\<rparr>) db) = rows_of db"
  "rows_of (map_option (\<lambda>d. d\<lparr>db_version := b\<rparr>) db) = rows_of db"
  "rows_of (case db of None \<Rightarrow> Some \<lparr>db_app = 0, db_version = 0, db_rows = []\<rparr> | Some d \<Rightarrow> Some d) = rows_of db"
  by (cases db; simp add: rows_of_def fun_eq_iff)+

lemma rows_of_stamped [simp]:
  "rows_of (Some (d\<lparr>db_app := a\<rparr>)) = rows_of (Some d)" "rows_of (Some (d\<lparr>db_version := b\<rparr>)) = rows_of (Some d)"
  by (simp_all add: rows_of_def fun_eq_iff)

definition keeps_rows :: "(sqlite_store \<Rightarrow> (storage_error + 'a) \<times> sqlite_store) \<Rightarrow> bool" where
  "keeps_rows m \<longleftrightarrow> (\<forall>s. same_rows s (snd (m s)) \<and> sq_connected (snd (m s)) = sq_connected s)"

lemma keeps_rowsD: "keeps_rows m \<Longrightarrow> m s = (r, s') \<Longrightarrow> same_rows s s' \<and> sq_connected s' = sq_connected s"
  by (metis keeps_rows_def snd_conv)

lemma same_rows_calls: "same_rows s (s\<lparr>sq_calls := c\<rparr>)" "same_rows s (s\<lparr>sq_connected := b\<rparr>)"
  by (simp_all add: same_rows_def)

lemma keeps_call:
  "(\<And>t. same_rows t (f t) \<and> sq_connected (f t) = sq_connected t) \<Longrightarrow> keeps_rows (db_call x f)"
  by (auto simp: keeps_rows_def db_call_eq same_rows_calls intro: same_rows_trans [OF same_rows_calls(1)])

lemma keeps_then:
  assumes "keeps_rows m" and "\<And>a. keeps_rows (f a)"
  shows "keeps_rows (db_then m f)"
proof -
  have "same_rows s (snd (db_then m f s)) \<and> sq_connected (snd (db_then m f s)) = sq_connected s" for s
  proof (cases "m s")
    case (Pair r s1)
    have 1: "same_rows s s1 \<and> sq_connected s1 = sq_connected s" by (rule keeps_rowsD [OF assms(1) Pair])
    have 2: "same_rows s1 (snd (f a s1)) \<and> sq_connected (snd (f a s1)) = sq_connected s1" for a
      using assms(2) [of a] by (simp add: keeps_rows_def)
    show ?thesis using Pair 1 2 same_rows_trans [of s s1] by (cases r) (simp_all add: db_then_def)
  qed
  then show ?thesis by (simp add: keeps_rows_def)
qed

lemma db_then_Inr: "db_then m f s = (Inr b, s') \<Longrightarrow> \<exists>a s1. m s = (Inr a, s1) \<and> f a s1 = (Inr b, s')"
  by (auto simp: db_then_result)

lemma stamp_keeps: "keeps_rows stamp_db"
  unfolding keeps_rows_def stamp_db_def db_then_def db_call_eq by (simp add: same_rows_def)

lemma check_keeps: "keeps_rows check_db"
  unfolding keeps_rows_def check_db_def db_then_def db_call_eq by (simp add: same_rows_def Let_def)

lemma stamp_stamps: "stamp_db s = (Inr (), s') \<Longrightarrow> sq_db s \<noteq> None \<Longrightarrow> stamped (sq_db s')"
  by (auto simp: stamp_db_def db_then_result db_call_eq stamped_def split: if_splits)

lemma check_stamped: "check_db s = (Inr (), s') \<Longrightarrow> sq_db s \<noteq> None \<Longrightarrow> stamped (sq_db s')"
  by (auto simp: check_db_def db_then_result db_call_eq stamped_def Let_def split: if_splits)

text \<open>Everything of a connect but the last call, which is what connects.\<close>

definition prepare_db :: "sqlite_store \<Rightarrow> sqlite_store \<Rightarrow> (storage_error + unit) \<times> sqlite_store" where
  "prepare_db s =
     db_then (db_call (unreadable s) id) (\<lambda>_.
     db_then (db_call (unreadable s)
         (\<lambda>s. s\<lparr>sq_db := (case sq_db s of None \<Rightarrow> Some \<lparr>db_app = 0, db_version = 0, db_rows = []\<rparr> | Some d \<Rightarrow> Some d)\<rparr>)) (\<lambda>_.
     db_then (db_call (unreadable s) id) (\<lambda>_. if sq_db s = None then stamp_db else check_db)))"

lemma connect_prepare:
  "connect s =
     (if sq_connected s then (Inr (), s)
      else db_then (prepare_db s) (\<lambda>_. db_call (unwritable s) (\<lambda>s. s\<lparr>sq_connected := True\<rparr>)) s)"
  by (auto simp: connect_def prepare_db_def Let_def db_then_def split: prod.split sum.split)

lemma prepare_keeps: "keeps_rows (prepare_db s)"
proof -
  have "keeps_rows (if b then stamp_db else check_db)" for b by (simp add: stamp_keeps check_keeps)
  then show ?thesis unfolding prepare_db_def
    by (intro keeps_then keeps_call) (simp_all add: same_rows_def split: option.split)
qed

lemma prepare_stamps:
  assumes "prepare_db s t = (Inr (), t')"
  shows "stamped (sq_db t')"
proof -
  obtain t1 t2 t3 where "db_call (unreadable s)
         (\<lambda>s. s\<lparr>sq_db := (case sq_db s of None \<Rightarrow> Some \<lparr>db_app = 0, db_version = 0, db_rows = []\<rparr> | Some d \<Rightarrow> Some d)\<rparr>) t1 = (Inr (), t2)"
    and 3: "db_call (unreadable s) id t2 = (Inr (), t3)"
    and q: "(if sq_db s = None then stamp_db else check_db) t3 = (Inr (), t')"
    using assms unfolding prepare_db_def by (auto dest!: db_then_Inr)
  then have "sq_db t2 \<noteq> None" by (auto simp: db_call_eq split: if_splits option.splits)
  with 3 have "sq_db t3 \<noteq> None" by (auto simp: db_call_eq split: if_splits)
  with q show ?thesis using stamp_stamps check_stamped by (auto split: if_splits)
qed

lemma connect_effect:
  assumes "connect s = (r, s')" and "sq_connected s \<longrightarrow> stamped (sq_db s)"
  shows "same_rows s s' \<and> (r = Inr () \<longrightarrow> sq_connected s' \<and> stamped (sq_db s'))
    \<and> (\<forall>x. r = Inl x \<longrightarrow> \<not> sq_connected s' \<and> \<not> sq_connected s)"
proof (cases "sq_connected s")
  case True
  with assms show ?thesis by (auto simp: connect_def same_rows_refl)
next
  case False
  obtain q t where p: "prepare_db s s = (q, t)" by fastforce
  note k = keeps_rowsD [OF prepare_keeps p]
  have "same_rows s (t\<lparr>sq_calls := c\<rparr>)" "same_rows s (t\<lparr>sq_calls := c, sq_connected := b\<rparr>)" for c b
    using k by (simp_all add: same_rows_def)
  then show ?thesis
    using assms(1) False p k prepare_stamps [of s s t]
    by (auto simp: connect_prepare db_then_result db_call_eq split: if_splits)
qed


text \<open>
  The invariant: a connected store is on a database that is ours, one that is not connected holds
  nothing, and the rows of every table are a well-formed map.
\<close>

definition sqlite_ok :: "store_codec \<Rightarrow> sqlite_store \<Rightarrow> bool" where
  "sqlite_ok jc s \<longleftrightarrow> codec_ok jc \<and> (\<forall>t. om_wf (rows_of (sq_db s) t))
     \<and> (if sq_connected s then stamped (sq_db s) else rows_of (sq_db s) = (\<lambda>_. []))"

definition row_value :: "store_codec \<Rightarrow> string \<Rightarrow> json option" where
  "row_value jc w = (case jc_parse jc w of Inr v \<Rightarrow> Some v | Inl _ \<Rightarrow> None)"

definition sqlite_held :: "store_codec \<Rightarrow> sqlite_store \<Rightarrow> string \<Rightarrow> string \<Rightarrow> json option" where
  "sqlite_held jc s t k = Option.bind (map_of (rows_of (sq_db s) t) k) (row_value jc)"

lemma ok_same_rows:
  assumes "sqlite_ok jc s" and "same_rows s s'" and "sq_connected s' \<longrightarrow> stamped (sq_db s')"
  shows "sqlite_ok jc s' \<or> (\<not> sq_connected s' \<and> sq_connected s)" and "sqlite_held jc s' = sqlite_held jc s"
    and "sq_declared s' = sq_declared s"
  using assms by (auto simp: sqlite_ok_def same_rows_def sqlite_held_def fun_eq_iff split: if_splits)

lemma ok_calls [simp]:
  "sqlite_ok jc (s\<lparr>sq_calls := c\<rparr>) = sqlite_ok jc s" "sqlite_held jc (s\<lparr>sq_calls := c\<rparr>) = sqlite_held jc s"
  by (simp_all add: sqlite_ok_def sqlite_held_def fun_eq_iff)

lemma some_calls [simp]: "\<exists>c. s = s\<lparr>sq_calls := c\<rparr>"
  by (rule exI [of _ "sq_calls s"]) simp

lemma decode_row_value: "decode_row jc p w = Inr v \<Longrightarrow> row_value jc w = Some v"
  by (auto simp: decode_row_def row_value_def split: sum.splits)

lemma get_effect:
  assumes "sqlite_ok jc s" and "sqlite_get jc s t k = (r, s')"
  shows "(\<exists>c. s' = s\<lparr>sq_calls := c\<rparr>) \<and> (\<forall>v. r = Inr v \<longrightarrow> v = sqlite_held jc s t k \<and> t \<in> set (sq_declared s)
     \<and> (v \<noteq> None \<longrightarrow> sq_connected s))"
proof -
  show ?thesis
    using assms
    by (auto simp: sqlite_get_def db_then_result db_call_eq declared_only_def sqlite_held_def sqlite_ok_def
        split: if_splits option.splits sum.splits dest: decode_row_value)
qed

lemma read_rows_effect:
  assumes "read_rows jc rows m s = (r, s')"
  shows "(\<exists>c. s' = s\<lparr>sq_calls := c\<rparr>)
    \<and> (\<forall>m'. r = Inr m' \<longrightarrow> om_wf m \<longrightarrow> distinct (map fst rows) \<longrightarrow> om_wf m'
        \<and> map_of m' = (\<lambda>k. case map_of rows k of Some w \<Rightarrow> row_value jc w | None \<Rightarrow> map_of m k))"
  using assms
proof (induction jc rows m s rule: read_rows.induct)
  case (1 jc m s)
  have "s = s\<lparr>sq_calls := sq_calls s\<rparr>" by simp
  with 1 show ?case by (auto simp: fun_eq_iff)
next
  case (2 jc k w rows m s)
  let ?s = "s\<lparr>sq_calls := tl (sq_calls s)\<rparr>"
  show ?case
  proof (cases "call_works s \<and> (\<exists>v. decode_row jc (sq_path s) w = Inr v)")
    case False
    with 2(2) have "s' = ?s" "\<exists>x. r = Inl x"
      by (auto simp: db_then_result db_call_eq split: if_splits sum.splits)
    then show ?thesis by auto
  next
    case True
    then obtain v where v: "decode_row jc (sq_path s) w = Inr v" "call_works s" by blast
    have "read_rows jc rows (om_insert k v m) ?s = (r, s')"
      using 2(2) v by (auto simp: db_then_result db_call_eq split: if_splits)
    from 2(1) [of ?s v, OF _ this] v
    have "(\<exists>c. s' = ?s\<lparr>sq_calls := c\<rparr>)
      \<and> (\<forall>m'. r = Inr m' \<longrightarrow> om_wf (om_insert k v m) \<longrightarrow> distinct (map fst rows) \<longrightarrow> om_wf m'
        \<and> map_of m' = (\<lambda>k'. case map_of rows k' of Some w \<Rightarrow> row_value jc w | None \<Rightarrow> map_of (om_insert k v m) k'))"
      by simp
    then show ?thesis
      using decode_row_value [OF v(1)]
      by (auto simp: fun_eq_iff om_wf_insert map_of_eq_None_iff split: option.splits intro: rev_image_eqI dest: map_of_SomeD)
  qed
qed

lemma with_rows_effect:
  assumes "sq_db s \<noteq> None"
  shows "rows_of (sq_db (with_rows t f s)) = (rows_of (sq_db s))(t := f (rows_of (sq_db s) t))"
    and "sq_declared (with_rows t f s) = sq_declared s" and "sq_connected (with_rows t f s) = sq_connected s"
    and "stamped (sq_db (with_rows t f s)) = stamped (sq_db s)"
  using assms by (auto simp: with_rows_def rows_of_def fun_eq_iff stamped_def split: option.splits)

text \<open>A write that connects first: it fails and changes no row, or the one row is changed.\<close>

lemma row_write_effect:
  assumes "sqlite_ok jc s" and "\<And>m. om_wf m \<Longrightarrow> om_wf (f m)"
    and "db_then connect (\<lambda>_ s. db_then (db_call (unwritable s) (with_rows t f)) (\<lambda>_ s. (Inr previous, s)) s) s = (r, s')"
  shows "sqlite_ok jc s' \<and> sq_declared s' = sq_declared s
    \<and> (case r of
         Inl _ \<Rightarrow> sqlite_held jc s' = sqlite_held jc s
       | Inr old \<Rightarrow> old = previous \<and> rows_of (sq_db s') = (rows_of (sq_db s))(t := f (rows_of (sq_db s) t)))"
proof -
  obtain q s1 where c: "connect s = (q, s1)" by fastforce
  have st: "sq_connected s \<longrightarrow> stamped (sq_db s)" using assms(1) by (simp add: sqlite_ok_def)
  note e = connect_effect [OF c st]
  show ?thesis
  proof (cases q)
    case (Inl x)
    then have "r = Inl x" "s' = s1" using assms(3) c by (simp_all add: db_then_def)
    then show ?thesis using e Inl assms(1) by (auto simp: sqlite_ok_def same_rows_def sqlite_held_def fun_eq_iff split: if_splits)
  next
    case (Inr u)
    then have s1: "same_rows s s1" "sq_connected s1" "stamped (sq_db s1)" using e by auto
    then have db: "sq_db s1 \<noteq> None" by (cases "sq_db s1") (simp_all add: stamped_def)
    let ?s2 = "s1\<lparr>sq_calls := tl (sq_calls s1)\<rparr>"
    have w: "rows_of (sq_db (with_rows t f ?s2)) = (rows_of (sq_db s))(t := f (rows_of (sq_db s) t))"
      "sq_declared (with_rows t f ?s2) = sq_declared s" "sq_connected (with_rows t f ?s2)" "stamped (sq_db (with_rows t f ?s2))"
      using with_rows_effect [of ?s2 t f] db s1 by (simp_all add: same_rows_def)
    have rs: "(r = Inr previous \<and> s' = with_rows t f ?s2) \<or> (\<exists>x. r = Inl x \<and> s' = ?s2)"
      using assms(3) c Inr by (auto simp: db_then_result db_call_eq split: if_splits)
    have "sqlite_ok jc (with_rows t f ?s2)" using w assms(1,2) by (simp add: sqlite_ok_def)
    moreover have "sqlite_ok jc s1" "sqlite_held jc s1 = sqlite_held jc s"
      using s1 assms(1) by (auto simp: sqlite_ok_def same_rows_def sqlite_held_def fun_eq_iff)
    ultimately show ?thesis using rs w s1(1) by (auto simp: same_rows_def)
  qed
qed

lemma put_effect:
  assumes "sqlite_ok jc s" and "sqlite_put jc s t k v = (r, s')"
  shows "sqlite_ok jc s' \<and> sq_declared s' = sq_declared s
    \<and> (case r of
         Inl _ \<Rightarrow> sqlite_held jc s' = sqlite_held jc s
       | Inr old \<Rightarrow> old = sqlite_held jc s t k \<and> t \<in> set (sq_declared s) \<and> valid_name ''key'' k = Inr ()
           \<and> sqlite_held jc s' = (sqlite_held jc s)(t := (sqlite_held jc s t)(k \<mapsto> v)))"
proof -
  have tx: "row_value jc (jc_text jc v) = Some v" using assms(1) by (simp add: sqlite_ok_def codec_ok_def row_value_def)
  obtain g s1 where g: "sqlite_get jc s t k = (g, s1)" by fastforce
  obtain c where s1: "s1 = s\<lparr>sq_calls := c\<rparr>" using get_effect [OF assms(1) g] by blast
  consider (refused) x where "r = Inl x" "s' = s \<or> s' = s1"
    | (goes) old where "g = Inr old" "valid_name ''key'' k = Inr ()"
        "db_then connect (\<lambda>_ s. db_then (db_call (unwritable s) (with_rows t (om_insert k (jc_text jc v)))) (\<lambda>_ s. (Inr old, s)) s) s1 = (r, s')"
    using assms(2) g by (auto simp: sqlite_put_def db_then_result [of "declared_only t"] db_then_result [of "\<lambda>s. (valid_name ''key'' k, s)"]
        db_then_result [of "\<lambda>s. sqlite_get jc s t k"] declared_only_def split: if_splits)
  then show ?thesis
  proof cases
    case refused
    then show ?thesis using assms(1) s1 by auto
  next
    case goes
    have ok1: "sqlite_ok jc s1" using assms(1) s1 by simp
    note w = row_write_effect [OF ok1 om_wf_insert goes(3)]
    note e = get_effect [OF assms(1) g]
    show ?thesis using w e goes(1,2) s1 tx
      by (cases r) (auto simp: sqlite_held_def fun_eq_iff)
  qed
qed

lemma remove_effect:
  assumes "sqlite_ok jc s" and "sqlite_remove jc s t k = (r, s')"
  shows "sqlite_ok jc s' \<and> sq_declared s' = sq_declared s
    \<and> (case r of
         Inl _ \<Rightarrow> sqlite_held jc s' = sqlite_held jc s
       | Inr old \<Rightarrow> old = sqlite_held jc s t k
           \<and> sqlite_held jc s' = (sqlite_held jc s)(t := (sqlite_held jc s t)(k := None)))"
proof -
  obtain g s1 where g: "sqlite_get jc s t k = (g, s1)" by fastforce
  obtain c where s1: "s1 = s\<lparr>sq_calls := c\<rparr>" using get_effect [OF assms(1) g] by blast
  note e = get_effect [OF assms(1) g]
  consider (refused) x where "r = Inl x" "s' = s \<or> s' = s1"
    | (absent) "g = Inr None" "r = Inr None" "s' = s1"
    | (goes) old where "g = Inr old"
        "db_then connect (\<lambda>_ s. db_then (db_call (unwritable s) (with_rows t (om_remove k))) (\<lambda>_ s. (Inr old, s)) s) s1 = (r, s')"
    using assms(2) g by (auto simp: sqlite_remove_def db_then_result [of "declared_only t"]
        db_then_result [of "\<lambda>s. sqlite_get jc s t k"] declared_only_def split: if_splits)
  then show ?thesis
  proof cases
    case refused
    then show ?thesis using assms(1) s1 by auto
  next
    case absent
    then show ?thesis using assms(1) s1 e by (auto simp: fun_eq_iff)
  next
    case goes
    have ok1: "sqlite_ok jc s1" using assms(1) s1 by simp
    note w = row_write_effect [OF ok1 om_wf_remove goes(2)]
    show ?thesis using w e goes(1) s1 by (cases r) (auto simp: sqlite_held_def fun_eq_iff)
  qed
qed

interpretation sqlite_kv: kv_store "sqlite_ops jc" "sqlite_ok jc" "sqlite_held jc" for jc
proof (unfold_locales, goal_cases)
  case (1 s t k r s')
  then show ?case using get_effect [of jc s t k r s'] by (auto simp: sqlite_ops_def)
next
  case (2 s t r s')
  have wf: "om_wf (rows_of (sq_db s) t)" using 2(1) by (simp add: sqlite_ok_def)
  consider (refused) x c where "r = Inl x" "s' = s\<lparr>sq_calls := c\<rparr>"
    | (bare) "r = Inr []" "s' = s" "\<not> sq_connected s"
    | (rows) c where "read_rows jc (rows_of (sq_db s) t) [] (s\<lparr>sq_calls := c\<rparr>) = (r, s')"
  proof (cases "t \<in> set (sq_declared s)")
    case False
    with 2(2) have "r = Inl (UndeclaredTable t (sq_declared s))" "s' = s\<lparr>sq_calls := sq_calls s\<rparr>"
      by (auto simp: sqlite_ops_def sqlite_table_def db_then_def declared_only_def)
    then show ?thesis by (rule refused)
  next
    case True
    note d = this
    let ?s1 = "s\<lparr>sq_calls := tl (sq_calls s)\<rparr>"
    let ?s2 = "s\<lparr>sq_calls := tl (tl (sq_calls s))\<rparr>"
    consider "\<not> sq_connected s" | "sq_connected s" "\<not> call_works s" | "sq_connected s" "call_works s" "\<not> call_works ?s1"
      | "sq_connected s" "call_works s" "call_works ?s1" by blast
    then show ?thesis
    proof cases
      case 1
      with 2(2) d show ?thesis by (intro bare) (simp_all add: sqlite_ops_def sqlite_table_def db_then_def declared_only_def)
    next
      case 2
      with \<open>kv_table (sqlite_ops jc) s t = (r, s')\<close> d show ?thesis
        by (intro refused [of "unreadable s" "tl (sq_calls s)"])
          (simp_all add: sqlite_ops_def sqlite_table_def db_then_def db_call_eq declared_only_def)
    next
      case 3
      with 2(2) d show ?thesis
        by (intro refused [of "unreadable s" "tl (tl (sq_calls s))"])
          (simp_all add: sqlite_ops_def sqlite_table_def db_then_def db_call_eq declared_only_def unreadable_def)
    next
      case 4
      with 2(2) d show ?thesis
        by (intro rows [of "tl (tl (sq_calls s))"])
          (simp_all add: sqlite_ops_def sqlite_table_def db_then_def db_call_eq declared_only_def)
    qed
  qed
  then show ?case
  proof cases
    case refused
    then show ?thesis using 2(1) by (auto simp: sqlite_ops_def)
  next
    case bare
    then show ?thesis using 2(1) by (auto simp: sqlite_ops_def sqlite_ok_def sqlite_held_def fun_eq_iff)
  next
    case rows
    note e = read_rows_effect [OF rows]
    have "map_of m = sqlite_held jc s t \<and> om_wf m" if "r = Inr m" for m
      using e that om_wf_distinct [OF wf] by (auto simp: sqlite_held_def fun_eq_iff split: option.splits)
    with e 2(1) show ?thesis by (auto simp: sqlite_ops_def)
  qed
next
  case (3 s t k v old s')
  then show ?case using put_effect [of jc s t k v "Inr old" s'] by (auto simp: sqlite_ops_def)
next
  case (4 s t k v x s')
  then show ?case using put_effect [of jc s t k v "Inl x" s'] by (auto simp: sqlite_ops_def)
next
  case (5 s t k old s')
  then show ?case using remove_effect [of jc s t k "Inr old" s'] by (auto simp: sqlite_ops_def)
next
  case (6 s t k x s')
  then show ?case using remove_effect [of jc s t k "Inl x" s'] by (auto simp: sqlite_ops_def)
next
  case (7 s t k v old s')
  then show ?case using put_effect [of jc s t k v "Inr old" s'] by (auto simp: sqlite_ops_def)
qed

section \<open>On a database that works\<close>

definition rows_decode :: "store_codec \<Rightarrow> sqlite_store \<Rightarrow> bool" where
  "rows_decode jc s \<longleftrightarrow> (\<forall>t k w. map_of (rows_of (sq_db s) t) k = Some w \<longrightarrow> row_value jc w \<noteq> None)"

definition sqlite_healthy :: "store_codec \<Rightarrow> sqlite_store \<Rightarrow> bool" where
  "sqlite_healthy jc s \<longleftrightarrow> list_all id (sq_calls s) \<and> (sq_connected s \<or> sq_db s = None) \<and> rows_decode jc s"

lemma calls_work: "list_all id (sq_calls s) \<Longrightarrow> call_works s"
  by (cases "sq_calls s") (auto simp: call_works_def)

lemma list_all_tl: "list_all P xs \<Longrightarrow> list_all P (tl xs)"
  by (cases xs) simp_all

lemma rows_decode_calls [simp]: "rows_decode jc (s\<lparr>sq_calls := c\<rparr>) = rows_decode jc s"
  by (simp add: rows_decode_def)

lemma connect_works:
  assumes "list_all id (sq_calls s)" and "sq_connected s \<or> sq_db s = None \<or> stamped (sq_db s)"
  shows "\<exists>s'. connect s = (Inr (), s') \<and> list_all id (sq_calls s')"
proof (cases "sq_connected s")
  case True
  then show ?thesis using assms(1) by (simp add: connect_def)
next
  case False
  show ?thesis
  proof (cases "sq_db s")
    case None
    then show ?thesis using False assms(1)
      by (simp add: connect_def Let_def db_then_def db_call_eq calls_work list_all_tl stamp_db_def)
  next
    case (Some d)
    then have "db_app d = APPLICATION_ID" "db_version d = SCHEMA_VERSION"
      using False assms(2) by (simp_all add: stamped_def)
    then show ?thesis using False assms(1) Some
      by (simp add: connect_def Let_def db_then_def db_call_eq calls_work list_all_tl check_db_def)
  qed
qed

lemma get_works:
  assumes "sqlite_ok jc s" and "sqlite_healthy jc s" and "t \<in> set (sq_declared s)"
  shows "\<exists>c. sqlite_get jc s t k = (Inr (sqlite_held jc s t k), s\<lparr>sq_calls := c\<rparr>) \<and> list_all id c"
proof -
  have dec: "map_of (rows_of (sq_db s) t) k = Some w \<Longrightarrow> \<exists>v. decode_row jc p w = Inr v" for w p
    using assms(2) by (auto simp: sqlite_healthy_def rows_decode_def row_value_def decode_row_def split: sum.splits)
  have cs: "list_all id (sq_calls s)" using assms(2) by (simp add: sqlite_healthy_def)
  obtain r s1 where g: "sqlite_get jc s t k = (r, s1)" by fastforce
  have "(\<exists>v. r = Inr v) \<and> list_all id (sq_calls s1)"
  proof (cases "sq_connected s")
    case False
    then show ?thesis using g assms(3) cs by (auto simp: sqlite_get_def db_then_def declared_only_def)
  next
    case True
    show ?thesis
    proof (cases "map_of (rows_of (sq_db s) t) k")
      case None
      with True show ?thesis using g assms(3) cs
        by (auto simp: sqlite_get_def db_then_def db_call_eq declared_only_def calls_work list_all_tl)
    next
      case (Some w)
      obtain v where "decode_row jc (sq_path s) w = Inr v" using dec [OF Some] by blast
      with Some True show ?thesis using g assms(3) cs
        by (auto simp: sqlite_get_def db_then_def db_call_eq declared_only_def calls_work list_all_tl)
    qed
  qed
  then show ?thesis using get_effect [OF assms(1) g] g by auto
qed

definition keeps_decode :: "store_codec \<Rightarrow> ((string, string) omap \<Rightarrow> (string, string) omap) \<Rightarrow> bool" where
  "keeps_decode jc f \<longleftrightarrow>
     (\<forall>m. (\<forall>k w. map_of m k = Some w \<longrightarrow> row_value jc w \<noteq> None) \<longrightarrow>
          (\<forall>k w. map_of (f m) k = Some w \<longrightarrow> row_value jc w \<noteq> None))"

lemma write_works:
  assumes "sqlite_ok jc s" and "sqlite_healthy jc s"
    and "keeps_decode jc f"
  shows "\<exists>s'. db_then connect (\<lambda>_ s. db_then (db_call (unwritable s) (with_rows t f)) (\<lambda>_ s. (Inr previous, s)) s) s = (Inr previous, s')
    \<and> sqlite_healthy jc s'"
proof -
  have st: "sq_connected s \<longrightarrow> stamped (sq_db s)" using assms(1) by (simp add: sqlite_ok_def)
  obtain s1 where c: "connect s = (Inr (), s1)" "list_all id (sq_calls s1)"
    using connect_works [of s] assms(2) by (auto simp: sqlite_healthy_def)
  note e = connect_effect [OF c(1) st]
  let ?s2 = "s1\<lparr>sq_calls := tl (sq_calls s1)\<rparr>"
  have db: "sq_db ?s2 \<noteq> None" using e by (cases "sq_db s1") (simp_all add: stamped_def)
  note w = with_rows_effect [OF db, of t f]
  have calls: "sq_calls (with_rows t f x) = sq_calls x" for x by (simp add: with_rows_def)
  have "rows_of (sq_db s1) = rows_of (sq_db s)" using e by (simp add: same_rows_def)
  then have "rows_decode jc (with_rows t f ?s2)"
    using assms(2) assms(3) [unfolded keeps_decode_def, rule_format, of "rows_of (sq_db s) t"]
    unfolding rows_decode_def sqlite_healthy_def w(1) by auto
  with e w calls [of ?s2] c(2) have "sqlite_healthy jc (with_rows t f ?s2)"
    by (simp add: sqlite_healthy_def list_all_tl)
  then show ?thesis using c by (simp add: db_then_def db_call_eq calls_work)
qed

lemma healthy_calls: "sqlite_healthy jc s \<Longrightarrow> list_all id c \<Longrightarrow> sqlite_healthy jc (s\<lparr>sq_calls := c\<rparr>)"
  by (simp add: sqlite_healthy_def)

interpretation sqlite_works: working_kv "sqlite_ops jc" "sqlite_ok jc" "sqlite_held jc" "sqlite_healthy jc" for jc
proof (unfold_locales, goal_cases)
  case (1 s q r s')
  show ?case
  proof (cases q)
    case (PutOne t k v)
    consider "t \<notin> set (sq_declared s)" | x where "t \<in> set (sq_declared s)" "valid_name ''key'' k = Inl x"
      | "t \<in> set (sq_declared s)" "valid_name ''key'' k = Inr ()" by (cases "valid_name ''key'' k") auto
    then show ?thesis
    proof cases
      case 3
      obtain c where g: "sqlite_get jc s t k = (Inr (sqlite_held jc s t k), s\<lparr>sq_calls := c\<rparr>)" "list_all id c"
        using get_works [OF 1(1,2) 3(1)] by blast
      have tx: "row_value jc (jc_text jc v) \<noteq> None" using 1(1) by (simp add: sqlite_ok_def codec_ok_def row_value_def)
      have f: "keeps_decode jc (om_insert k (jc_text jc v))" using tx by (auto simp: keeps_decode_def)
      have ok1: "sqlite_ok jc (s\<lparr>sq_calls := c\<rparr>)" using 1(1) by simp
      obtain s2 where "db_then connect (\<lambda>_ u. db_then (db_call (unwritable u) (with_rows t (om_insert k (jc_text jc v))))
            (\<lambda>_ u. (Inr (sqlite_held jc s t k), u)) u) (s\<lparr>sq_calls := c\<rparr>) = (Inr (sqlite_held jc s t k), s2)" "sqlite_healthy jc s2"
        using write_works [OF ok1 healthy_calls [OF 1(2) g(2)] f, of t "sqlite_held jc s t k"] by auto
      then show ?thesis using 1(4) PutOne 3 g by (simp add: sqlite_ops_def sqlite_put_def db_then_def declared_only_def)
    qed (use 1 PutOne in \<open>auto simp: sqlite_ops_def sqlite_put_def db_then_def declared_only_def\<close>)
  next
    case (RemoveOne t k)
    show ?thesis
    proof (cases "t \<in> set (sq_declared s)")
      case True
      obtain c where g: "sqlite_get jc s t k = (Inr (sqlite_held jc s t k), s\<lparr>sq_calls := c\<rparr>)" "list_all id c"
        using get_works [OF 1(1,2) True] by blast
      have f: "keeps_decode jc (om_remove k)" by (auto simp: keeps_decode_def split: if_splits)
      have ok1: "sqlite_ok jc (s\<lparr>sq_calls := c\<rparr>)" using 1(1) by simp
      obtain s2 where "db_then connect (\<lambda>_ u. db_then (db_call (unwritable u) (with_rows t (om_remove k)))
            (\<lambda>_ u. (Inr (sqlite_held jc s t k), u)) u) (s\<lparr>sq_calls := c\<rparr>) = (Inr (sqlite_held jc s t k), s2)" "sqlite_healthy jc s2"
        using write_works [OF ok1 healthy_calls [OF 1(2) g(2)] f, of t "sqlite_held jc s t k"] by auto
      then show ?thesis using 1(2,4) RemoveOne True g healthy_calls [OF 1(2) g(2)]
        by (auto simp: sqlite_ops_def sqlite_remove_def db_then_def declared_only_def split: if_splits)
    next
      case False
      then show ?thesis using 1 RemoveOne by (auto simp: sqlite_ops_def sqlite_remove_def db_then_def declared_only_def)
    qed
  qed
qed

section \<open>The two backends\<close>

lemma or_empty_names:
  "tables_ok ts \<Longrightarrow> map fst (fold or_empty names ts) = sorted_list_of_set (set names \<union> fst ` set ts)"
proof -
  assume t: "tables_ok ts"
  have one: "fst ` set (or_empty n ts) = insert n (fst ` set ts)" for n and ts :: "(string, kv_table) omap"
    by (auto simp: or_empty_def map_of_eq_None_iff insert_absorb)
  have "fst ` set (fold or_empty names ts) = set names \<union> fst ` set ts"
    by (induction names arbitrary: ts) (auto simp: one)
  moreover have "sorted_wrt (<) (map fst (fold or_empty names ts))"
    using tables_ok_or_empty [OF t, of names] by (simp add: tables_ok_def om_wf_def)
  ultimately show ?thesis
    by (metis List.finite_set list.set_map sorted_list_of_set.idem_if_sorted_distinct strict_sorted_iff)
qed

lemma fresh_sqlite:
  assumes "codec_ok jc" and "list_all id calls" and "open_sqlite path names None calls = (Inr d, db)"
  shows "sqlite_ok jc d \<and> sqlite_healthy jc d \<and> sqlite_held jc d = (\<lambda>_ _. None) \<and> sq_declared d = sorted_list_of_set (set names)"
proof -
  have "rows_of None = (\<lambda>_. [])" by (simp add: rows_of_def fun_eq_iff)
  then show ?thesis using assms
    by (auto simp: open_sqlite_def sqlite_ok_def sqlite_healthy_def sqlite_held_def rows_decode_def fun_eq_iff
        split: sum.splits)
qed


definition fresh_file :: store_file where
  "fresh_file = \<lparr>sf_text = None, sf_temp = None, sf_next = []\<rparr>"


text \<open>A write wrong in both ways is reported differently by the two.\<close>

lemma backends_report_differently:
  "fst (store_put jc \<lparr>st_path = ''p'', st_tables = [], st_file = fresh_file\<rparr> ''u'' ''K'' JNull) = Inl (BadName ''key'' ''K'')"
  "fst (sqlite_put jc \<lparr>sq_path = ''p'', sq_declared = [], sq_connected = False, sq_db = None, sq_calls = []\<rparr> ''u'' ''K'' JNull) =
     Inl (UndeclaredTable ''u'' [])"
  by (simp_all add: store_put_def valid_name_def name_byte_def sqlite_put_def db_then_def declared_only_def)

text \<open>
  A connected database keeps every accepted write: opening it again serves the same rows.
\<close>

lemma sqlite_reopens:
  assumes "sqlite_ok jc s" and "sq_connected s" and "all_valid ''table'' names = Inr ()"
  shows "\<exists>s' db. open_sqlite path names (sq_db s) [] = (Inr s', db) \<and> sqlite_held jc s' = sqlite_held jc s"
proof -
  have st: "stamped (sq_db s)" using assms(1,2) by (simp add: sqlite_ok_def)
  let ?s = "\<lparr>sq_path = path, sq_declared = sorted_list_of_set (set names), sq_connected = False, sq_db = sq_db s, sq_calls = []\<rparr>"
  obtain s1 where c: "connect ?s = (Inr (), s1)" using connect_works [of ?s] st by auto
  have "same_rows ?s s1" using connect_effect [OF c] by simp
  moreover have "sq_db s \<noteq> None" using st by (cases "sq_db s") (simp_all add: stamped_def)
  ultimately show ?thesis
    using c assms(3) by (auto simp: open_sqlite_def Let_def same_rows_def sqlite_held_def fun_eq_iff)
qed

text \<open>
  A database whose first write failed between the two stamps is not one of ours any more: the file
  is there, so the next connect checks it, and it is refused from then on.
\<close>

lemma half_stamped_refused:
  "case open_sqlite ''p'' [''t''] None [True, True, True, False] of
     (Inr s, _) \<Rightarrow> fst (kv_run (sqlite_ops \<lparr>jc_text = (\<lambda>_. []), jc_pretty = (\<lambda>_. []), jc_parse = (\<lambda>_. Inl [])\<rparr>) s
            [PutOne ''t'' ''k'' JNull, PutOne ''t'' ''k'' JNull]) =
          [Inl (StoreUnwritable ''p''), Inl (StoreMalformed ''p'' ''is not a tetanus key-value store (application_id 0x0, expected 0x7465746b)'')]
   | _ \<Rightarrow> False"
  by code_simp

end
