(* ===== verification/Storage_Domain.thy ===== *)
theory Storage_Domain
  imports Storage_Sqlite
begin

text \<open>
  Declared domains over the key-value seam, \<^verbatim>\<open>crates/core/src/storage/domain.rs\<close>: which tables a
  component has and what they accept, the version stamped beside them, one announcement per durable
  write, and the routing of a domain to a store.  A validator answers why it refuses a record.
\<close>

type_synonym validator = "json \<Rightarrow> string + unit"

record domain_spec =
  dm_name :: string
  dm_version :: nat
  dm_tables :: "(string, validator) omap"
  dm_global :: "(validator \<times> json) option"

datatype domain_operation = RecordPut | RecordDeleted

record domain_changed =
  dc_domain :: string
  dc_table :: string
  dc_key :: string
  dc_operation :: domain_operation
  dc_value :: "json option"

datatype domain_error =
    StoreRefused storage_error
  | UnknownTable string string "string list"
  | NoGlobal string
  | ReservedTable string
  | InvalidRecord string string string string
  | ForeignVersion string nat nat

text \<open>An open domain: what it was opened with, and the announcements made so far.\<close>

record 's domain =
  do_spec :: domain_spec
  do_store :: 's
  do_watched :: bool
  do_announced :: "domain_changed list"

definition META_TABLE :: string where
  "META_TABLE = ''meta''"

definition VERSION_KEY :: string where
  "VERSION_KEY = ''version''"

definition in_domain :: "string \<Rightarrow> string \<Rightarrow> string" where
  "in_domain name t = name @ ''.'' @ t"

definition spec_tables :: "domain_spec \<Rightarrow> string list" where
  "spec_tables sp = map (\<lambda>p. in_domain (dm_name sp) (fst p)) (dm_tables sp) @ [in_domain (dm_name sp) META_TABLE]"

definition meta_of :: "'s domain \<Rightarrow> string" where
  "meta_of d = in_domain (dm_name (do_spec d)) META_TABLE"

text \<open>A call on the store, whose refusal is the domain's.\<close>

definition on_store ::
  "('s \<Rightarrow> (storage_error + 'a) \<times> 's) \<Rightarrow> 's domain \<Rightarrow> (domain_error + 'a) \<times> 's domain"
where
  "on_store f d = (case f (do_store d) of (r, s) \<Rightarrow> (map_sum StoreRefused id r, d\<lparr>do_store := s\<rparr>))"

definition dm_then ::
  "('s domain \<Rightarrow> (domain_error + 'a) \<times> 's domain) \<Rightarrow> ('a \<Rightarrow> 's domain \<Rightarrow> (domain_error + 'b) \<times> 's domain)
   \<Rightarrow> 's domain \<Rightarrow> (domain_error + 'b) \<times> 's domain"
where
  "dm_then m f d = (case m d of (Inl x, d1) \<Rightarrow> (Inl x, d1) | (Inr a, d1) \<Rightarrow> f a d1)"

section \<open>Opening\<close>

fun check_tables :: "string \<Rightarrow> string list \<Rightarrow> domain_error + unit" where
  "check_tables name [] = Inr ()"
| "check_tables name (t # ts) =
     (case valid_name ''table'' t of
        Inl x \<Rightarrow> Inl (StoreRefused x)
      | Inr _ \<Rightarrow> if t = META_TABLE then Inl (ReservedTable name) else check_tables name ts)"

definition check_version :: "'s kv_ops \<Rightarrow> 's domain \<Rightarrow> (domain_error + unit) \<times> 's domain" where
  "check_version ops =
     dm_then (\<lambda>d. on_store (\<lambda>s. kv_get ops s (meta_of d) VERSION_KEY) d) (\<lambda>stored d.
       (case Option.bind stored as_u64 of
          None \<Rightarrow> (Inr (), d)
        | Some found \<Rightarrow>
            if found = dm_version (do_spec d) then (Inr (), d)
            else (Inl (ForeignVersion (dm_name (do_spec d)) (dm_version (do_spec d)) (found mod 2 ^ 32)), d)))"

definition open_domain :: "'s kv_ops \<Rightarrow> domain_spec \<Rightarrow> bool \<Rightarrow> 's \<Rightarrow> (domain_error + unit) \<times> 's domain" where
  "open_domain ops sp watched s =
     (let d = \<lparr>do_spec = sp, do_store = s, do_watched = watched, do_announced = []\<rparr> in
      case valid_name ''domain'' (dm_name sp) of
        Inl x \<Rightarrow> (Inl (StoreRefused x), d)
      | Inr _ \<Rightarrow>
          (case check_tables (dm_name sp) (map fst (dm_tables sp)) of
             Inl x \<Rightarrow> (Inl x, d)
           | Inr _ \<Rightarrow> check_version ops d))"

section \<open>Records\<close>

definition table_spec :: "string \<Rightarrow> 's domain \<Rightarrow> (domain_error + validator) \<times> 's domain" where
  "table_spec t d =
     (case map_of (dm_tables (do_spec d)) t of
        Some v \<Rightarrow> Inr v
      | None \<Rightarrow> Inl (UnknownTable (dm_name (do_spec d)) t (map fst (dm_tables (do_spec d)))), d)"

definition judged :: "validator \<Rightarrow> string \<Rightarrow> string \<Rightarrow> json \<Rightarrow> 's domain \<Rightarrow> (domain_error + json) \<times> 's domain" where
  "judged check t k v d =
     (case check v of
        Inr _ \<Rightarrow> Inr v
      | Inl why \<Rightarrow> Inl (InvalidRecord (dm_name (do_spec d)) t k why), d)"

definition domain_get :: "'s kv_ops \<Rightarrow> string \<Rightarrow> string \<Rightarrow> 's domain \<Rightarrow> (domain_error + json option) \<times> 's domain" where
  "domain_get ops t k =
     dm_then (table_spec t) (\<lambda>check.
     dm_then (\<lambda>d. on_store (\<lambda>s. kv_get ops s (in_domain (dm_name (do_spec d)) t) k) d) (\<lambda>stored.
       (case stored of
          None \<Rightarrow> (\<lambda>d. (Inr None, d))
        | Some v \<Rightarrow> dm_then (judged check t k v) (\<lambda>v d. (Inr (Some v), d)))))"

definition domain_all :: "'s kv_ops \<Rightarrow> string \<Rightarrow> 's domain \<Rightarrow> (domain_error + kv_table) \<times> 's domain" where
  "domain_all ops t =
     dm_then (table_spec t) (\<lambda>_ d. on_store (\<lambda>s. kv_table ops s (in_domain (dm_name (do_spec d)) t)) d)"

definition announce :: "domain_changed \<Rightarrow> 's domain \<Rightarrow> 's domain" where
  "announce c d = (if do_watched d then d\<lparr>do_announced := do_announced d @ [c]\<rparr> else d)"

text \<open>The stamp is written before the first record.\<close>

definition domain_write :: "'s kv_ops \<Rightarrow> string \<Rightarrow> string \<Rightarrow> json \<Rightarrow> 's domain \<Rightarrow> (domain_error + unit) \<times> 's domain" where
  "domain_write ops t k v =
     dm_then (\<lambda>d. on_store (\<lambda>s. kv_get ops s (meta_of d) VERSION_KEY) d) (\<lambda>stamp.
     dm_then (\<lambda>d. if stamp = None then on_store (\<lambda>s. kv_put ops s (meta_of d) VERSION_KEY (jnat (dm_version (do_spec d)))) d
                 else (Inr None, d)) (\<lambda>_.
     dm_then (on_store (\<lambda>s. kv_put ops s t k v)) (\<lambda>_ d. (Inr (), d))))"

definition domain_put :: "'s kv_ops \<Rightarrow> string \<Rightarrow> string \<Rightarrow> json \<Rightarrow> 's domain \<Rightarrow> (domain_error + unit) \<times> 's domain" where
  "domain_put ops t k v =
     dm_then (table_spec t) (\<lambda>check.
     dm_then (judged check t k v) (\<lambda>_.
     dm_then (\<lambda>d. domain_write ops (in_domain (dm_name (do_spec d)) t) k v d) (\<lambda>_ d.
       (Inr (), announce \<lparr>dc_domain = dm_name (do_spec d), dc_table = t, dc_key = k, dc_operation = RecordPut, dc_value = Some v\<rparr> d))))"

definition domain_delete :: "'s kv_ops \<Rightarrow> string \<Rightarrow> string \<Rightarrow> 's domain \<Rightarrow> (domain_error + bool) \<times> 's domain" where
  "domain_delete ops t k =
     dm_then (table_spec t) (\<lambda>_.
     dm_then (\<lambda>d. on_store (\<lambda>s. kv_remove ops s (in_domain (dm_name (do_spec d)) t) k) d) (\<lambda>removed d.
       (Inr (removed \<noteq> None),
        if removed \<noteq> None then
          announce \<lparr>dc_domain = dm_name (do_spec d), dc_table = t, dc_key = k, dc_operation = RecordDeleted, dc_value = None\<rparr> d
        else d)))"

definition global_spec :: "'s domain \<Rightarrow> (domain_error + validator \<times> json) \<times> 's domain" where
  "global_spec d = (case dm_global (do_spec d) of Some g \<Rightarrow> Inr g | None \<Rightarrow> Inl (NoGlobal (dm_name (do_spec d))), d)"

definition domain_global :: "'s kv_ops \<Rightarrow> 's domain \<Rightarrow> (domain_error + json) \<times> 's domain" where
  "domain_global ops =
     dm_then global_spec (\<lambda>g.
     dm_then (\<lambda>d. on_store (\<lambda>s. kv_get ops s (meta_of d) ''global'') d) (\<lambda>stored.
       (case stored of None \<Rightarrow> (\<lambda>d. (Inr (snd g), d)) | Some v \<Rightarrow> judged (fst g) [] ''global'' v)))"

definition set_global :: "'s kv_ops \<Rightarrow> json \<Rightarrow> 's domain \<Rightarrow> (domain_error + unit) \<times> 's domain" where
  "set_global ops v =
     dm_then global_spec (\<lambda>g.
     dm_then (judged (fst g) [] ''global'' v) (\<lambda>_.
     dm_then (\<lambda>d. domain_write ops (meta_of d) ''global'' v d) (\<lambda>_ d.
       (Inr (), announce \<lparr>dc_domain = dm_name (do_spec d), dc_table = [], dc_key = ''global'', dc_operation = RecordPut, dc_value = Some v\<rparr> d))))"

section \<open>Routing\<close>

record domain_router =
  dr_registry :: store_registry
  dr_default :: string
  dr_routes :: "(string, string) omap"

definition store_for :: "domain_router \<Rightarrow> string \<Rightarrow> string" where
  "store_for r name = (case map_of (dr_routes r) name of Some s \<Rightarrow> s | None \<Rightarrow> dr_default r)"

definition declare_missing :: "'s kv_ops \<Rightarrow> 's \<Rightarrow> domain_spec \<Rightarrow> domain_error + unit" where
  "declare_missing ops s sp =
     (let missing = filter (\<lambda>n. n \<notin> set (kv_declared ops s)) (spec_tables sp)
      in if missing = [] then Inr ()
         else Inl (StoreRefused (UndeclaredTable (join '', '' missing) (kv_declared ops s))))"

text \<open>\<open>stores\<close> is what lives at each address the registry holds.\<close>

definition route_open ::
  "'s kv_ops \<Rightarrow> (nat \<Rightarrow> 's) \<Rightarrow> domain_router \<Rightarrow> domain_spec \<Rightarrow> bool \<Rightarrow> domain_error + (domain_error + unit) \<times> 's domain"
where
  "route_open ops stores r sp watched =
     (case mounted (store_for r (dm_name sp)) (dr_registry r) of
        Inl x \<Rightarrow> Inl (StoreRefused x)
      | Inr a \<Rightarrow>
          (case declare_missing ops (stores a) sp of
             Inl x \<Rightarrow> Inl x
           | Inr _ \<Rightarrow> Inr (open_domain ops sp watched (stores a))))"

section \<open>Announcements are what happened\<close>

datatype domain_request = PutRecord string string json | DeleteRecord string string | SetGlobal json

definition domain_step :: "'s kv_ops \<Rightarrow> 's domain \<Rightarrow> domain_request \<Rightarrow> 's domain" where
  "domain_step ops d q =
     (case q of
        PutRecord t k v \<Rightarrow> snd (domain_put ops t k v d)
      | DeleteRecord t k \<Rightarrow> snd (domain_delete ops t k d)
      | SetGlobal v \<Rightarrow> snd (set_global ops v d))"

text \<open>Which slot of the store a record lives in, the records of a domain, and what replaying an announcement does.\<close>

definition known_record :: "domain_spec \<Rightarrow> string \<times> string \<Rightarrow> bool" where
  "known_record sp p \<longleftrightarrow> p = ([], ''global'') \<or> fst p \<in> fst ` set (dm_tables sp)"

definition record_slot :: "domain_spec \<Rightarrow> string \<times> string \<Rightarrow> string \<times> string" where
  "record_slot sp p = (in_domain (dm_name sp) (if fst p = [] then META_TABLE else fst p), snd p)"

definition records_at ::
  "('s \<Rightarrow> string \<Rightarrow> string \<Rightarrow> json option) \<Rightarrow> domain_spec \<Rightarrow> 's \<Rightarrow> string \<times> string \<Rightarrow> json option"
where
  "records_at held sp s p = (if known_record sp p then held s (fst (record_slot sp p)) (snd (record_slot sp p)) else None)"

definition replay_change :: "(string \<times> string \<Rightarrow> json option) \<Rightarrow> domain_changed \<Rightarrow> (string \<times> string \<Rightarrow> json option)" where
  "replay_change h c = h((dc_table c, dc_key c) := dc_value c)"

definition spec_ok :: "domain_spec \<Rightarrow> bool" where
  "spec_ok sp \<longleftrightarrow> list_all (\<lambda>p. fst p \<noteq> [] \<and> fst p \<noteq> META_TABLE) (dm_tables sp)"

lemma check_tables_ok: "check_tables name ts = Inr () \<Longrightarrow> list_all (\<lambda>t. t \<noteq> [] \<and> t \<noteq> META_TABLE) ts"
  by (induction ts) (auto simp: valid_name_def split: sum.splits if_splits)

lemma opened_spec_ok: "open_domain ops sp watched s = (Inr (), d) \<Longrightarrow> spec_ok sp"
  by (fastforce simp: open_domain_def Let_def spec_ok_def list_all_iff dest!: check_tables_ok split: sum.splits)

lemma dm_then_result:
  "dm_then m f d = (r, d') \<longleftrightarrow> (\<exists>a d1. m d = (Inr a, d1) \<and> f a d1 = (r, d')) \<or> (\<exists>x. m d = (Inl x, d') \<and> r = Inl x)"
  by (auto simp: dm_then_def split: prod.split sum.split)

lemma on_store_result:
  "on_store f d = (r, d') \<longleftrightarrow> (\<exists>r1 s. f (do_store d) = (r1, s) \<and> r = map_sum StoreRefused id r1 \<and> d' = d\<lparr>do_store := s\<rparr>)"
  by (auto simp: on_store_def split: prod.split)

lemma named_inj [simp]: "in_domain n t = in_domain n u \<longleftrightarrow> t = u"
  by (simp add: in_domain_def)

lemma record_slot_inj:
  "spec_ok sp \<Longrightarrow> known_record sp p \<Longrightarrow> known_record sp q \<Longrightarrow> record_slot sp p = record_slot sp q \<longleftrightarrow> p = q"
  by (cases p; cases q) (auto simp: known_record_def record_slot_def spec_ok_def list_all_iff)

lemma record_slot_not_stamp:
  "spec_ok sp \<Longrightarrow> known_record sp p \<Longrightarrow> record_slot sp p \<noteq> (in_domain (dm_name sp) META_TABLE, VERSION_KEY)"
  by (cases p) (auto simp: known_record_def record_slot_def spec_ok_def list_all_iff VERSION_KEY_def)

text \<open>A change of one slot of the store, the stamp aside, is that change of the records.\<close>

lemma records_changed:
  assumes "spec_ok sp" and "known_record sp p"
    and "\<And>u j. (u, j) \<noteq> (in_domain (dm_name sp) META_TABLE, VERSION_KEY) \<Longrightarrow>
          held s' u j = (if b \<and> (u, j) = record_slot sp p then x else held s u j)"
  shows "records_at held sp s' = (if b then (records_at held sp s)(p := x) else records_at held sp s)"
proof (rule ext)
  fix q
  show "records_at held sp s' q = (if b then (records_at held sp s)(p := x) else records_at held sp s) q"
    using assms(3) [of "fst (record_slot sp q)" "snd (record_slot sp q)"] record_slot_not_stamp [OF assms(1), of q]
      record_slot_inj [OF assms(1,2), of q] assms(2)
    by (auto simp: records_at_def)
qed

context kv_store
begin

lemma write_on_domain:
  assumes "ok (do_store d)" and "domain_write ops t k v d = (r, d')"
  shows "ok (do_store d') \<and> (\<exists>s. d' = d\<lparr>do_store := s\<rparr>)
    \<and> (\<forall>u j. (u, j) \<noteq> (meta_of d, VERSION_KEY) \<longrightarrow>
         held (do_store d') u j = (if r = Inr () \<and> (u, j) = (t, k) then Some v else held (do_store d) u j))"
proof -
  obtain r1 s1 where g: "kv_get ops (do_store d) (meta_of d) VERSION_KEY = (r1, s1)" by fastforce
  note h1 = get_held [OF assms(1) g]
  show ?thesis
  proof (cases r1)
    case (Inl x)
    then show ?thesis using assms(2) g h1 by (auto simp: domain_write_def dm_then_def on_store_def)
  next
    case (Inr stamp)
    let ?d1 = "d\<lparr>do_store := s1\<rparr>"
    obtain r2 s2 where p: "(if stamp = None then kv_put ops s1 (meta_of d) VERSION_KEY (jnat (dm_version (do_spec d))) else (Inr None, s1)) = (r2, s2)"
      by fastforce
    have m1: "meta_of ?d1 = meta_of d" by (simp add: meta_of_def)
    have h2: "ok s2 \<and> (\<forall>u j. (u, j) \<noteq> (meta_of d, VERSION_KEY) \<longrightarrow> held s2 u j = held (do_store d) u j)"
      using p h1 by (cases r2) (auto split: if_splits dest: put_held put_refused)
    obtain r3 s3 where q: "kv_put ops s2 t k v = (r3, s3)" by fastforce
    have step: "(case r2 of Inl x \<Rightarrow> r = Inl (StoreRefused x) \<and> d' = d\<lparr>do_store := s2\<rparr>
        | Inr _ \<Rightarrow> (case r3 of Inl x \<Rightarrow> r = Inl (StoreRefused x) | Inr _ \<Rightarrow> r = Inr ()) \<and> d' = d\<lparr>do_store := s3\<rparr>)"
      using assms(2) g Inr p q m1
      by (auto simp: domain_write_def dm_then_def on_store_def split: sum.splits if_splits)
    show ?thesis
    proof (cases r2)
      case (Inl x)
      with step h2 show ?thesis by auto
    next
      case (Inr u)
      with step h2 q show ?thesis
        by (cases r3) (auto dest!: put_held [rotated] put_refused [rotated])
    qed
  qed
qed

lemma write_record:
  assumes "ok (do_store d)" and "spec_ok (do_spec d)" and "known_record (do_spec d) p"
    and "domain_write ops (fst (record_slot (do_spec d) p)) (snd p) v d = (r, d')"
  shows "ok (do_store d') \<and> do_spec d' = do_spec d \<and> do_watched d' = do_watched d \<and> do_announced d' = do_announced d
    \<and> records_at held (do_spec d) (do_store d') =
        (if r = Inr () then (records_at held (do_spec d) (do_store d))(p := Some v) else records_at held (do_spec d) (do_store d))"
proof -
  have slot: "record_slot (do_spec d) p = (fst (record_slot (do_spec d) p), snd p)" by (simp add: record_slot_def)
  note w = write_on_domain [OF assms(1,4)]
  have "records_at held (do_spec d) (do_store d') =
      (if r = Inr () then (records_at held (do_spec d) (do_store d))(p := Some v) else records_at held (do_spec d) (do_store d))"
    using w by (intro records_changed [OF assms(2,3)]) (subst slot, simp add: meta_of_def)
  with w show ?thesis by auto
qed

lemma announced_or_not:
  fixes res :: "domain_error + unit"
  assumes "ok (do_store mid) \<and> do_spec mid = do_spec d \<and> do_watched mid = do_watched d \<and> do_announced mid = do_announced d
      \<and> records_at held (do_spec d) (do_store mid) =
        (if res = Inr () then (records_at held (do_spec d) (do_store d))((dc_table c, dc_key c) := dc_value c)
         else records_at held (do_spec d) (do_store d))"
    and "d' = (case res of Inl x \<Rightarrow> mid | Inr _ \<Rightarrow> announce c mid)"
  shows "\<exists>cs. ok (do_store d') \<and> do_spec d' = do_spec d \<and> do_watched d' = do_watched d
    \<and> records_at held (do_spec d) (do_store d') = foldl replay_change (records_at held (do_spec d) (do_store d)) cs
    \<and> do_announced d' = do_announced d @ (if do_watched d then cs else [])"
  using assms
  by (intro exI [of _ "case res of Inl _ \<Rightarrow> [] | Inr _ \<Rightarrow> [c]"]) (cases res; simp add: announce_def replay_change_def)

text \<open>
  One request: it is announced exactly when it is done, and the records change by what is announced.
\<close>

lemma request_announced:
  assumes "ok (do_store d)" and "spec_ok (do_spec d)"
  shows "\<exists>cs. ok (do_store (domain_step ops d q)) \<and> do_spec (domain_step ops d q) = do_spec d
    \<and> do_watched (domain_step ops d q) = do_watched d
    \<and> records_at held (do_spec d) (do_store (domain_step ops d q)) = foldl replay_change (records_at held (do_spec d) (do_store d)) cs
    \<and> do_announced (domain_step ops d q) = do_announced d @ (if do_watched d then cs else [])"
proof (cases q)
  case (PutRecord t k v)
  show ?thesis
  proof (cases "\<exists>check. map_of (dm_tables (do_spec d)) t = Some check \<and> check v = Inr ()")
    case False
    then have "domain_step ops d q = d"
      using PutRecord by (auto simp: domain_step_def domain_put_def dm_then_def table_spec_def judged_def split: option.splits sum.splits)
    then show ?thesis using assms(1) by (intro exI [of _ "[]"]) simp
  next
    case True
    then obtain check where c: "map_of (dm_tables (do_spec d)) t = Some check" "check v = Inr ()" by blast
    have t: "t \<noteq> []" "known_record (do_spec d) (t, k)"
      using c(1) assms(2) by (auto simp: known_record_def spec_ok_def list_all_iff dest!: map_of_SomeD intro: rev_image_eqI)
    obtain r1 d1 where w: "domain_write ops (in_domain (dm_name (do_spec d)) t) k v d = (r1, d1)" by fastforce
    have e: "ok (do_store d1) \<and> do_spec d1 = do_spec d \<and> do_watched d1 = do_watched d \<and> do_announced d1 = do_announced d
      \<and> records_at held (do_spec d) (do_store d1) =
        (if r1 = Inr () then (records_at held (do_spec d) (do_store d))((t, k) := Some v) else records_at held (do_spec d) (do_store d))"
      using write_record [OF assms t(2), of v r1 d1] w t(1) by (simp add: record_slot_def)
    have "domain_step ops d q = (case r1 of Inl x \<Rightarrow> d1 | Inr _ \<Rightarrow> announce \<lparr>dc_domain = dm_name (do_spec d), dc_table = t,
        dc_key = k, dc_operation = RecordPut, dc_value = Some v\<rparr> d1)"
      using PutRecord c w e by (auto simp: domain_step_def domain_put_def dm_then_def table_spec_def judged_def split: sum.splits)
    with e show ?thesis by (intro announced_or_not) simp_all
  qed
next
  case (DeleteRecord t k)
  show ?thesis
  proof (cases "map_of (dm_tables (do_spec d)) t")
    case None
    then have "domain_step ops d q = d"
      using DeleteRecord by (auto simp: domain_step_def domain_delete_def dm_then_def table_spec_def)
    then show ?thesis using assms(1) by (intro exI [of _ "[]"]) simp
  next
    case (Some check)
    then have t: "t \<noteq> []" "known_record (do_spec d) (t, k)"
      using assms(2) by (auto simp: known_record_def spec_ok_def list_all_iff dest!: map_of_SomeD intro: rev_image_eqI)
    obtain r1 s1 where m: "kv_remove ops (do_store d) (in_domain (dm_name (do_spec d)) t) k = (r1, s1)" by fastforce
    have slot: "record_slot (do_spec d) (t, k) = (in_domain (dm_name (do_spec d)) t, k)" using t by (simp add: record_slot_def)
    have h: "ok s1 \<and> (\<forall>u j. held s1 u j = (if (\<exists>o1. r1 = Inr o1) \<and> (u, j) = record_slot (do_spec d) (t, k) then None else held (do_store d) u j))"
      and old: "\<And>o1. r1 = Inr o1 \<Longrightarrow> o1 = records_at held (do_spec d) (do_store d) (t, k)"
      using m assms(1) t(2) slot by (cases r1; auto dest: remove_held remove_refused simp: records_at_def)+
    have rec: "records_at held (do_spec d) s1 =
        (if \<exists>o1. r1 = Inr o1 then (records_at held (do_spec d) (do_store d))((t, k) := None) else records_at held (do_spec d) (do_store d))"
      using h by (intro records_changed [OF assms(2) t(2)]) blast
    have step: "domain_step ops d q = (case r1 of Inr (Some _) \<Rightarrow> announce \<lparr>dc_domain = dm_name (do_spec d), dc_table = t,
        dc_key = k, dc_operation = RecordDeleted, dc_value = None\<rparr> (d\<lparr>do_store := s1\<rparr>) | _ \<Rightarrow> d\<lparr>do_store := s1\<rparr>)"
      using DeleteRecord Some m
      by (auto simp: domain_step_def domain_delete_def dm_then_def table_spec_def on_store_def split: sum.splits option.splits)
    show ?thesis
    proof (cases "\<exists>o1. r1 = Inr (Some o1)")
      case True
      with step rec h show ?thesis
        by (intro announced_or_not [where res = "Inr ()" and mid = "d\<lparr>do_store := s1\<rparr>" and c = "\<lparr>dc_domain = dm_name (do_spec d),
            dc_table = t, dc_key = k, dc_operation = RecordDeleted, dc_value = None\<rparr>"]) auto
    next
      case False
      then have "records_at held (do_spec d) s1 = records_at held (do_spec d) (do_store d)"
        using rec old by (cases r1) (auto simp: fun_upd_idem)
      moreover have "domain_step ops d q = d\<lparr>do_store := s1\<rparr>" using step False by (auto split: sum.splits option.splits)
      ultimately show ?thesis using h by (intro exI [of _ "[]"]) simp
    qed
  qed
next
  case (SetGlobal v)
  show ?thesis
  proof (cases "\<exists>g. dm_global (do_spec d) = Some g \<and> fst g v = Inr ()")
    case False
    then have "domain_step ops d q = d"
      using SetGlobal by (auto simp: domain_step_def set_global_def dm_then_def global_spec_def judged_def split: option.splits sum.splits)
    then show ?thesis using assms(1) by (intro exI [of _ "[]"]) simp
  next
    case True
    then obtain g where g: "dm_global (do_spec d) = Some g" "fst g v = Inr ()" by blast
    have kn: "known_record (do_spec d) ([], ''global'')" by (simp add: known_record_def)
    obtain r1 d1 where w: "domain_write ops (meta_of d) ''global'' v d = (r1, d1)" by fastforce
    have e: "ok (do_store d1) \<and> do_spec d1 = do_spec d \<and> do_watched d1 = do_watched d \<and> do_announced d1 = do_announced d
      \<and> records_at held (do_spec d) (do_store d1) =
        (if r1 = Inr () then (records_at held (do_spec d) (do_store d))(([], ''global'') := Some v) else records_at held (do_spec d) (do_store d))"
      using write_record [OF assms kn, of v r1 d1] w by (simp add: record_slot_def meta_of_def)
    have "domain_step ops d q = (case r1 of Inl x \<Rightarrow> d1 | Inr _ \<Rightarrow> announce \<lparr>dc_domain = dm_name (do_spec d), dc_table = [],
        dc_key = ''global'', dc_operation = RecordPut, dc_value = Some v\<rparr> d1)"
      using SetGlobal g w e by (auto simp: domain_step_def set_global_def dm_then_def global_spec_def judged_def split: sum.splits)
    with e show ?thesis by (intro announced_or_not) simp_all
  qed
qed

lemma run_announced:
  assumes "ok (do_store d)" and "spec_ok (do_spec d)" and "do_watched d" and "do_announced d = []"
  shows "records_at held (do_spec d) (do_store (foldl (domain_step ops) d qs)) =
     foldl replay_change (records_at held (do_spec d) (do_store d)) (do_announced (foldl (domain_step ops) d qs))"
proof -
  have "ok (do_store (foldl (domain_step ops) d qs)) \<and> do_spec (foldl (domain_step ops) d qs) = do_spec d
    \<and> do_watched (foldl (domain_step ops) d qs)
    \<and> records_at held (do_spec d) (do_store (foldl (domain_step ops) d qs)) =
     foldl replay_change (records_at held (do_spec d) (do_store d)) (do_announced (foldl (domain_step ops) d qs))"
  proof (induction qs rule: rev_induct)
    case Nil
    then show ?case using assms by simp
  next
    case (snoc q qs)
    then show ?case using request_announced [of "foldl (domain_step ops) d qs" q] assms(2) by auto
  qed
  then show ?thesis by blast
qed

lemma domain_get_valid:
  assumes "ok (do_store d)" and "domain_get ops t k d = (Inr (Some v), d')"
  shows "\<exists>check. map_of (dm_tables (do_spec d)) t = Some check \<and> check v = Inr ()
    \<and> held (do_store d) (in_domain (dm_name (do_spec d)) t) k = Some v"
proof -
  obtain r1 s1 where g: "kv_get ops (do_store d) (in_domain (dm_name (do_spec d)) t) k = (r1, s1)" by fastforce
  note h = get_held [OF assms(1) g]
  from assms(2) g have "\<exists>check. map_of (dm_tables (do_spec d)) t = Some check \<and> r1 = Inr (Some v) \<and> check v = Inr ()"
    by (cases "map_of (dm_tables (do_spec d)) t"; cases r1)
      (auto simp: domain_get_def dm_then_def on_store_def table_spec_def judged_def split: option.splits sum.splits)
  with h show ?thesis by auto
qed

lemma write_stamps:
  assumes "ok (do_store d)" and "domain_write ops t k v d = (Inr (), d')" and "(t, k) \<noteq> (meta_of d, VERSION_KEY)"
  shows "ok (do_store d') \<and> held (do_store d') (meta_of d) VERSION_KEY =
    Some (case held (do_store d) (meta_of d) VERSION_KEY of Some w \<Rightarrow> w | None \<Rightarrow> jnat (dm_version (do_spec d)))"
proof -
  obtain r1 s1 where g: "kv_get ops (do_store d) (meta_of d) VERSION_KEY = (r1, s1)" by fastforce
  note h1 = get_held [OF assms(1) g]
  from assms(2) g obtain stamp where r1: "r1 = Inr stamp"
    by (cases r1) (auto simp: domain_write_def dm_then_def on_store_def)
  obtain r2 s2 where p: "(if stamp = None then kv_put ops s1 (meta_of d) VERSION_KEY (jnat (dm_version (do_spec d))) else (Inr None, s1)) = (r2, s2)"
    by fastforce
  obtain r3 s3 where q: "kv_put ops s2 t k v = (r3, s3)" by fastforce
  have m1: "meta_of (d\<lparr>do_store := s1\<rparr>) = meta_of d" by (simp add: meta_of_def)
  have "(\<exists>old. r2 = Inr old) \<and> (\<exists>old. r3 = Inr old) \<and> d' = d\<lparr>do_store := s3\<rparr>"
    using assms(2) g r1 p q m1
    by (cases r2; cases r3) (auto simp: domain_write_def dm_then_def on_store_def split: if_splits)
  then obtain o2 o3 where ans: "r2 = Inr o2" "r3 = Inr o3" "d' = d\<lparr>do_store := s3\<rparr>" by blast
  have st: "stamp = held (do_store d) (meta_of d) VERSION_KEY" using h1 r1 by simp
  have h2: "ok s2 \<and> held s2 (meta_of d) VERSION_KEY =
      Some (case stamp of Some w \<Rightarrow> w | None \<Rightarrow> jnat (dm_version (do_spec d)))"
    using p ans(1) h1 st put_held [of s1 "meta_of d" VERSION_KEY "jnat (dm_version (do_spec d))" o2 s2]
    by (auto split: if_splits option.splits)
  have "ok s3 \<and> held s3 = (held s2)(t := (held s2 t)(k \<mapsto> v))" using put_held [of s2 t k v o3 s3] h2 q ans(2) by simp
  with h2 st ans(3) assms(3) show ?thesis by (auto split: option.splits)
qed

lemma put_writes:
  assumes "domain_put ops t k v d = (Inr (), d')"
  shows "\<exists>d1. domain_write ops (in_domain (dm_name (do_spec d)) t) k v d = (Inr (), d1) \<and> do_store d' = do_store d1
    \<and> t \<in> fst ` set (dm_tables (do_spec d))"
  using assms
  by (auto simp: domain_put_def dm_then_def table_spec_def judged_def announce_def dest!: map_of_SomeD
      split: option.splits sum.splits prod.splits if_splits intro: rev_image_eqI)

text \<open>What one version of a component wrote, another version of it does not open.\<close>

lemma other_version_refused:
  assumes "ok (do_store d)" and "spec_ok (do_spec d)" and "domain_put ops t k v d = (Inr (), d')"
    and "held (do_store d) (meta_of d) VERSION_KEY = None" and "dm_version (do_spec d) < 2 ^ 32"
    and "dm_name sp = dm_name (do_spec d)" and "dm_version sp \<noteq> dm_version (do_spec d)"
  shows "fst (open_domain ops sp watched (do_store d')) \<noteq> Inr ()"
proof
  assume o1: "fst (open_domain ops sp watched (do_store d')) = Inr ()"
  obtain d1 where w: "domain_write ops (in_domain (dm_name (do_spec d)) t) k v d = (Inr (), d1)"
    and same: "do_store d' = do_store d1" and t: "t \<in> fst ` set (dm_tables (do_spec d))" using put_writes [OF assms(3)] by blast
  have "(in_domain (dm_name (do_spec d)) t, k) \<noteq> (meta_of d, VERSION_KEY)"
    using t assms(2) by (auto simp: meta_of_def spec_ok_def list_all_iff)
  note st = write_stamps [OF assms(1) w this]
  let ?e = "\<lparr>do_spec = sp, do_store = do_store d1, do_watched = watched, do_announced = []\<rparr>"
  obtain r s where g: "kv_get ops (do_store d1) (meta_of ?e) VERSION_KEY = (r, s)" by fastforce
  have meta: "meta_of ?e = meta_of d" using assms(6) by (simp add: meta_of_def)
  have "r = Inr (Some (jnat (dm_version (do_spec d)))) \<or> (\<exists>x. r = Inl x)"
    using get_held [OF _ g] st assms(4) meta by (cases r) auto
  moreover have "fst (check_version ops ?e) = Inr ()"
    using o1 same by (auto simp: open_domain_def Let_def split: sum.splits)
  ultimately show False
    using g assms(5,7) by (auto simp: check_version_def dm_then_def on_store_def split: if_splits)
qed

end


definition demo_spec :: domain_spec where
  "demo_spec =
     \<lparr>dm_name = ''d'', dm_version = 1,
      dm_tables = [(''t'', \<lambda>v. if v = JNull then Inl ''null'' else Inr ())], dm_global = None\<rparr>"

definition demo_store :: file_store where
  "demo_store = \<lparr>st_path = ''p'', st_tables = [(''d.meta'', []), (''d.t'', [])], st_file = fresh_file\<rparr>"

definition demo_db :: sqlite_store where
  "demo_db = \<lparr>sq_path = ''q'', sq_declared = [''d.meta'', ''d.t''], sq_connected = False, sq_db = None, sq_calls = []\<rparr>"

lemma demo_ok: "store_ok unary_codec demo_store" "sqlite_ok unary_codec demo_db"
proof -
  show "store_ok unary_codec demo_store"
    by (simp add: store_ok_def unary_codec_ok demo_store_def tables_ok_def om_wf_def fresh_file_def table_held_def fun_eq_iff
        less_list_code List_Lexorder.list_less_def)
  show "sqlite_ok unary_codec demo_db"
    by (simp add: sqlite_ok_def unary_codec_ok demo_db_def rows_of_def fun_eq_iff)
qed

lemma demo_domain_opens:
  "open_domain (file_ops jc) demo_spec w demo_store = (Inr (), \<lparr>do_spec = demo_spec, do_store = demo_store, do_watched = w, do_announced = []\<rparr>)"
  "open_domain (sqlite_ops jc) demo_spec w demo_db = (Inr (), \<lparr>do_spec = demo_spec, do_store = demo_db, do_watched = w, do_announced = []\<rparr>)"
  by (simp_all add: open_domain_def demo_spec_def valid_name_def name_byte_def META_TABLE_def check_version_def dm_then_def
      on_store_def file_ops_def sqlite_ops_def store_get_def store_table_def demo_store_def meta_of_def in_domain_def
      sqlite_get_def db_then_def declared_only_def demo_db_def)



lemma demo_puts:
  "fst (domain_put (file_ops unary_codec) ''t'' ''k'' (JBool True)
     \<lparr>do_spec = demo_spec, do_store = demo_store, do_watched = False, do_announced = []\<rparr>) = Inr ()"
  "fst (domain_put (sqlite_ops unary_codec) ''t'' ''k'' (JBool True)
     \<lparr>do_spec = demo_spec, do_store = demo_db, do_watched = False, do_announced = []\<rparr>) = Inr ()"
proof -
  show "fst (domain_put (file_ops unary_codec) ''t'' ''k'' (JBool True)
     \<lparr>do_spec = demo_spec, do_store = demo_store, do_watched = False, do_announced = []\<rparr>) = Inr ()"
    by (simp add: domain_put_def dm_then_def table_spec_def judged_def domain_write_def on_store_def file_ops_def store_get_def
        store_table_def store_put_def mutate_store_def publish_store_def demo_spec_def demo_store_def fresh_file_def in_domain_def
        meta_of_def META_TABLE_def VERSION_KEY_def valid_name_def name_byte_def Let_def)
  have c: "\<exists>s1. kv_put (sqlite_ops unary_codec) demo_db ''d.meta'' VERSION_KEY v = (Inr None, s1) \<and> sqlite_ok unary_codec s1
      \<and> sqlite_healthy unary_codec s1 \<and> sq_declared s1 = [''d.meta'', ''d.t'']" for v
  proof -
    have h: "sqlite_healthy unary_codec demo_db" by (simp add: sqlite_healthy_def demo_db_def rows_decode_def rows_of_def)
    obtain r s1 where p: "kv_put (sqlite_ops unary_codec) demo_db ''d.meta'' VERSION_KEY v = (r, s1)" by fastforce
    have q: "kv_request_step (sqlite_ops unary_codec) demo_db (PutOne ''d.meta'' VERSION_KEY v) = (r, s1)" using p by simp
    have d: "kv_declared (sqlite_ops unary_codec) demo_db = [''d.meta'', ''d.t'']" by (simp add: sqlite_ops_def demo_db_def)
    have "sqlite_held unary_codec demo_db ''d.meta'' VERSION_KEY = None" by (simp add: sqlite_held_def demo_db_def rows_of_def)
    with sqlite_works.request_works [OF demo_ok(2) h _ q] sqlite_kv.request_held [OF demo_ok(2) q] d p show ?thesis
      by (auto simp: VERSION_KEY_def valid_name_def name_byte_def sqlite_ops_def)
  qed
  have get: "kv_get (sqlite_ops unary_codec) demo_db ''d.meta'' VERSION_KEY = (Inr None, demo_db)"
    by (simp add: sqlite_ops_def sqlite_get_def db_then_def declared_only_def demo_db_def)
  obtain s1 where s1: "kv_put (sqlite_ops unary_codec) demo_db ''d.meta'' VERSION_KEY (jnat 1) = (Inr None, s1)"
    "sqlite_ok unary_codec s1" "sqlite_healthy unary_codec s1" "sq_declared s1 = [''d.meta'', ''d.t'']" using c [of "jnat 1"] by blast
  obtain r s2 where p: "kv_put (sqlite_ops unary_codec) s1 ''d.t'' ''k'' (JBool True) = (r, s2)" by fastforce
  have "\<exists>old. r = Inr old"
    using sqlite_works.request_works [OF s1(2,3), of "PutOne ''d.t'' ''k'' (JBool True)" r s2] p s1(4)
    by (auto simp: valid_name_def name_byte_def sqlite_ops_def)
  then show "fst (domain_put (sqlite_ops unary_codec) ''t'' ''k'' (JBool True)
     \<lparr>do_spec = demo_spec, do_store = demo_db, do_watched = False, do_announced = []\<rparr>) = Inr ()"
    using get s1(1) p
    by (auto simp: domain_put_def dm_then_def table_spec_def judged_def domain_write_def on_store_def demo_spec_def in_domain_def
        meta_of_def META_TABLE_def)
qed


section \<open>Where a domain is not what it says\<close>

text \<open>One record is checked when it is read, a whole table is not.\<close>

lemma all_serves_invalid:
  "let d = \<lparr>do_spec = demo_spec, do_store = demo_store\<lparr>st_tables := [(''d.meta'', []), (''d.t'', [(''k'', JNull)])]\<rparr>,
            do_watched = False, do_announced = []\<rparr>
   in fst (domain_get (file_ops jc) ''t'' ''k'' d) = Inl (InvalidRecord ''d'' ''t'' ''k'' ''null'')
      \<and> fst (domain_all (file_ops jc) ''t'' d) = Inr [(''k'', JNull)]"
  by (simp add: domain_get_def domain_all_def dm_then_def table_spec_def on_store_def judged_def file_ops_def store_get_def
      store_table_def demo_spec_def demo_store_def in_domain_def Let_def)

text \<open>A dot is allowed in names and separates them, so two domains may share a table, or one own the other's stamp.\<close>

lemma names_collide:
  "in_domain ''a'' ''b.c'' = in_domain ''a.b'' ''c''" "in_domain ''a'' ''b.meta'' = in_domain ''a.b'' META_TABLE"
  "check_tables ''a'' [''b.c'', ''b.meta''] = Inr ()" "valid_name ''domain'' ''a.b'' = Inr ()"
  by (simp_all add: in_domain_def META_TABLE_def valid_name_def name_byte_def)

end
