(* ===== verification/Projections.thy ===== *)
theory Projections
  imports Inbox Storage_Domain
begin

text \<open>
  Derived views over a session log, \<^verbatim>\<open>crates/session/src/projection.rs\<close>: the folds a registry drives
  over the events and the checkpoints it writes; and \<^verbatim>\<open>projection_cache.rs\<close>, where they are kept
  between runs, over any store of theory \<open>Storage\<close>.  A unit's functions are pure by the trait's contract.
\<close>

record projection_unit =
  pu_key :: string
  pu_version :: nat
  pu_init :: json
  pu_apply :: "json \<Rightarrow> session_event \<Rightarrow> json"
  pu_view :: "json \<Rightarrow> json"

record checkpoint =
  cp_version :: nat
  cp_seq :: int
  cp_state :: json

record snapshot =
  sn_as_of :: int
  sn_values :: "(string, json) omap"

record held_unit =
  hu_unit :: projection_unit
  hu_state :: json
  hu_seq :: int

type_synonym projections = "held_unit list"

definition EMPTY_LOG :: int where
  "EMPTY_LOG = -1"

section \<open>The registry\<close>

text \<open>\<open>None\<close> is the refusal of a key that is taken.\<close>

definition register_unit :: "projection_unit \<Rightarrow> projections \<Rightarrow> projections option" where
  "register_unit u us =
     (if list_ex (\<lambda>h. pu_key (hu_unit h) = pu_key u) us then None
      else Some (us @ [\<lparr>hu_unit = u, hu_state = pu_init u, hu_seq = EMPTY_LOG\<rparr>]))"

definition remove_unit :: "string \<Rightarrow> projections \<Rightarrow> bool \<times> projections" where
  "remove_unit key us =
     (let left = filter (\<lambda>h. pu_key (hu_unit h) \<noteq> key) us in (length left \<noteq> length us, left))"

definition unit_keys :: "projections \<Rightarrow> string list" where
  "unit_keys us = map (\<lambda>h. pu_key (hu_unit h)) us"

definition drive_unit :: "session_event list \<Rightarrow> held_unit \<Rightarrow> bool \<times> held_unit" where
  "drive_unit es h =
     (let fresh = nat (max (hu_seq h + 1) 0);
          state = foldl (pu_apply (hu_unit h)) (hu_state h) (drop fresh es)
      in (pu_view (hu_unit h) state \<noteq> pu_view (hu_unit h) (hu_state h),
          h\<lparr>hu_state := state, hu_seq := (if es = [] then hu_seq h else int (seq (last es)))\<rparr>))"

definition drive_units :: "session_event list \<Rightarrow> projections \<Rightarrow> string list \<times> projections" where
  "drive_units es us =
     (let rs = map (drive_unit es) us
      in (map (\<lambda>r. pu_key (hu_unit (snd r))) (filter fst rs), map snd rs))"

definition snapshot_of :: "projections \<Rightarrow> snapshot" where
  "snapshot_of us =
     \<lparr>sn_as_of = (case map hu_seq us of [] \<Rightarrow> EMPTY_LOG | s # ss \<Rightarrow> foldl min s ss),
      sn_values = fold (\<lambda>h. om_insert (pu_key (hu_unit h)) (pu_view (hu_unit h) (hu_state h))) us []\<rparr>"

definition unit_value :: "string \<Rightarrow> projections \<Rightarrow> json option" where
  "unit_value key us =
     map_option (\<lambda>h. pu_view (hu_unit h) (hu_state h)) (find (\<lambda>h. pu_key (hu_unit h) = key) us)"

definition checkpoints :: "projections \<Rightarrow> (string, checkpoint) omap" where
  "checkpoints us =
     fold (\<lambda>h. om_insert (pu_key (hu_unit h))
       \<lparr>cp_version = pu_version (hu_unit h), cp_seq = hu_seq h, cp_state = hu_state h\<rparr>) us []"

definition last_seq :: "session_event list \<Rightarrow> int" where
  "last_seq es = (if es = [] then EMPTY_LOG else int (seq (last es)))"

definition usable_row :: "session_event list \<Rightarrow> projection_unit \<Rightarrow> checkpoint \<Rightarrow> bool" where
  "usable_row es u row \<longleftrightarrow> cp_version row = pu_version u \<and> EMPTY_LOG \<le> cp_seq row \<and> cp_seq row \<le> last_seq es"

definition adopt_row :: "(string, checkpoint) omap \<Rightarrow> session_event list \<Rightarrow> held_unit \<Rightarrow> held_unit" where
  "adopt_row stored es h =
     (case map_of stored (pu_key (hu_unit h)) of
        Some row \<Rightarrow>
          if usable_row es (hu_unit h) row then h\<lparr>hu_state := cp_state row, hu_seq := cp_seq row\<rparr>
          else h\<lparr>hu_state := pu_init (hu_unit h), hu_seq := EMPTY_LOG\<rparr>
      | None \<Rightarrow> h\<lparr>hu_state := pu_init (hu_unit h), hu_seq := EMPTY_LOG\<rparr>)"

definition restore_units :: "(string, checkpoint) omap \<Rightarrow> session_event list \<Rightarrow> projections \<Rightarrow> string list \<times> projections" where
  "restore_units stored es us = drive_units es (map (adopt_row stored es) us)"

section \<open>The cache\<close>

definition CACHE_TABLE :: string where
  "CACHE_TABLE = ''session.projections''"

definition json_of_checkpoint :: "checkpoint \<Rightarrow> json" where
  "json_of_checkpoint c = jobj [(''ver'', jnat (cp_version c)), (''seq'', JInt (cp_seq c)), (''val'', cp_state c)]"

definition as_i64 :: "json \<Rightarrow> int option" where
  "as_i64 j = (case j of JInt i \<Rightarrow> if - (2 ^ 63) \<le> i \<and> i < 2 ^ 63 then Some i else None | _ \<Rightarrow> None)"

definition as_u32 :: "json \<Rightarrow> nat option" where
  "as_u32 j = (case as_u64 j of Some n \<Rightarrow> if int n < 2 ^ 32 then Some n else None | None \<Rightarrow> None)"

text \<open>The derived reader of a checkpoint: every field is required, and an array must have just the three.\<close>

definition checkpoint_of_json :: "json \<Rightarrow> checkpoint option" where
  "checkpoint_of_json j =
     (case fields_of [''ver'', ''seq'', ''val''] j of
        None \<Rightarrow> None
      | Some f \<Rightarrow>
          (case (Option.bind (f ''ver'') as_u32, Option.bind (f ''seq'') as_i64, f ''val'') of
             (Some v, Some s, Some st) \<Rightarrow> Some \<lparr>cp_version = v, cp_seq = s, cp_state = st\<rparr>
           | _ \<Rightarrow> None))"

definition json_of_rows :: "(string, checkpoint) omap \<Rightarrow> json" where
  "json_of_rows rows = JObj (map (\<lambda>(k, c). (k, json_of_checkpoint c)) rows)"

fun rows_of_entries :: "(string \<times> json) list \<Rightarrow> (string, checkpoint) omap option" where
  "rows_of_entries [] = Some []"
| "rows_of_entries ((k, j) # m) =
     (case (checkpoint_of_json j, rows_of_entries m) of
        (Some c, Some rows) \<Rightarrow> Some ((k, c) # rows)
      | _ \<Rightarrow> None)"

definition rows_of_json :: "json \<Rightarrow> (string, checkpoint) omap option" where
  "rows_of_json j = (case j of JObj m \<Rightarrow> rows_of_entries m | _ \<Rightarrow> None)"

definition cache_load :: "'s kv_ops \<Rightarrow> string \<Rightarrow> 's \<Rightarrow> (string, checkpoint) omap \<times> 's" where
  "cache_load ops session s =
     (case kv_get ops s CACHE_TABLE session of
        (Inr (Some v), s1) \<Rightarrow> ((case rows_of_json v of Some rows \<Rightarrow> rows | None \<Rightarrow> []), s1)
      | (_, s1) \<Rightarrow> ([], s1))"

definition cache_save :: "'s kv_ops \<Rightarrow> string \<Rightarrow> (string, checkpoint) omap \<Rightarrow> 's \<Rightarrow> bool \<times> 's" where
  "cache_save ops session rows s =
     (case kv_put ops s CACHE_TABLE session (json_of_rows rows) of
        (Inr _, s1) \<Rightarrow> (True, s1)
      | (Inl _, s1) \<Rightarrow> (False, s1))"

definition cache_forget :: "'s kv_ops \<Rightarrow> string \<Rightarrow> 's \<Rightarrow> bool \<times> 's" where
  "cache_forget ops session s =
     (case kv_remove ops s CACHE_TABLE session of
        (Inr previous, s1) \<Rightarrow> (previous \<noteq> None, s1)
      | (Inl _, s1) \<Rightarrow> (False, s1))"

definition cache_warm ::
  "'s kv_ops \<Rightarrow> string \<Rightarrow> projections \<Rightarrow> session_event list \<Rightarrow> 's \<Rightarrow> (string list \<times> projections) \<times> 's"
where
  "cache_warm ops session us es s = (let (rows, s1) = cache_load ops session s in (restore_units rows es us, s1))"

section \<open>A stored fold is never wrong\<close>

text \<open>The authority: a unit's fold of the whole log, from nothing.\<close>

definition refold :: "session_event list \<Rightarrow> held_unit \<Rightarrow> held_unit" where
  "refold es h =
     h\<lparr>hu_state := foldl (pu_apply (hu_unit h)) (pu_init (hu_unit h)) es, hu_seq := last_seq es\<rparr>"

text \<open>A cell that has folded exactly the events its watermark says, of a log that may since have grown.\<close>

definition cell_folds :: "session_event list \<Rightarrow> projection_unit \<Rightarrow> int \<Rightarrow> json \<Rightarrow> bool" where
  "cell_folds es u s st \<longleftrightarrow>
     -1 \<le> s \<and> s < int (length es) \<and> st = foldl (pu_apply u) (pu_init u) (take (nat (s + 1)) es)"

lemma last_seq_contiguous: "seqs_contiguous es \<Longrightarrow> last_seq es = int (length es) - 1"
  by (cases es rule: rev_cases) (auto simp: last_seq_def EMPTY_LOG_def seqs_contiguous_snoc)

lemma drive_refolds:
  assumes "seqs_contiguous es" and "cell_folds es (hu_unit h) (hu_seq h) (hu_state h)"
  shows "snd (drive_unit es h) = refold es h"
proof -
  let ?n = "nat (hu_seq h + 1)"
  have "foldl (pu_apply (hu_unit h)) (hu_state h) (drop ?n es) =
      foldl (pu_apply (hu_unit h)) (pu_init (hu_unit h)) (take ?n es @ drop ?n es)"
    using assms(2) by (simp only: cell_folds_def foldl_append)
  moreover have "es = [] \<Longrightarrow> hu_seq h = -1" using assms(2) by (simp add: cell_folds_def)
  ultimately show ?thesis
    using assms(2) last_seq_contiguous [OF assms(1)]
    by (auto simp: drive_unit_def refold_def Let_def last_seq_def EMPTY_LOG_def cell_folds_def max_def)
qed

lemma fresh_cell: "cell_folds es u EMPTY_LOG (pu_init u)"
  by (simp add: cell_folds_def EMPTY_LOG_def)

lemma refold_cell: "seqs_contiguous es \<Longrightarrow> cell_folds (es @ later) (hu_unit h) (hu_seq (refold es h)) (hu_state (refold es h))"
  by (simp add: cell_folds_def refold_def last_seq_contiguous)

text \<open>A row is honest for a log if, were it used, it would be a fold of that log's first events.\<close>

definition honest_row :: "session_event list \<Rightarrow> projection_unit \<Rightarrow> checkpoint \<Rightarrow> bool" where
  "honest_row es u row \<longleftrightarrow> (usable_row es u row \<longrightarrow> cell_folds es u (cp_seq row) (cp_state row))"

lemma restore_refolds:
  assumes "seqs_contiguous es"
    and "\<And>h row. h \<in> set us \<Longrightarrow> map_of stored (pu_key (hu_unit h)) = Some row \<Longrightarrow> honest_row es (hu_unit h) row"
  shows "snd (restore_units stored es us) = map (refold es) us"
proof -
  have "snd (drive_unit es (adopt_row stored es h)) = refold es h" if "h \<in> set us" for h
  proof -
    have "cell_folds es (hu_unit (adopt_row stored es h)) (hu_seq (adopt_row stored es h)) (hu_state (adopt_row stored es h))"
      using assms(2) [OF that] fresh_cell by (auto simp: adopt_row_def honest_row_def split: option.splits)
    from drive_refolds [OF assms(1) this] show ?thesis by (simp add: refold_def adopt_row_def split: option.splits)
  qed
  then show ?thesis by (simp add: restore_units_def drive_units_def Let_def comp_def)
qed

lemma drive_units_map: "snd (drive_units es us) = map (\<lambda>h. snd (drive_unit es h)) us"
  by (simp add: drive_units_def Let_def)

text \<open>What a registry whose cells fold their log writes down is honest for every later log.\<close>

lemma checkpoints_of:
  assumes "distinct (map (\<lambda>h. pu_key (hu_unit h)) us)" and "map_of (checkpoints us) k = Some row"
  shows "\<exists>h\<in>set us. pu_key (hu_unit h) = k
    \<and> row = \<lparr>cp_version = pu_version (hu_unit h), cp_seq = hu_seq h, cp_state = hu_state h\<rparr>"
proof -
  have "map_of (fold (\<lambda>h. om_insert (pu_key (hu_unit h)) \<lparr>cp_version = pu_version (hu_unit h), cp_seq = hu_seq h, cp_state = hu_state h\<rparr>) us m) k = Some row
    \<Longrightarrow> (\<exists>h\<in>set us. pu_key (hu_unit h) = k \<and> row = \<lparr>cp_version = pu_version (hu_unit h), cp_seq = hu_seq h, cp_state = hu_state h\<rparr>)
      \<or> map_of m k = Some row" for m
    by (induction us arbitrary: m) (fastforce split: if_splits)+
  from this [of "[]"] assms(2) show ?thesis by (auto simp: checkpoints_def)
qed

lemma rows_round_trip:
  assumes "\<And>k c. (k, c) \<in> set rows \<Longrightarrow> int (cp_version c) < 2 ^ 32 \<and> - (2 ^ 63) \<le> cp_seq c \<and> cp_seq c < 2 ^ 63"
  shows "rows_of_json (json_of_rows rows) = Some rows"
proof -
  have one: "checkpoint_of_json (json_of_checkpoint c) = Some c"
    if "int (cp_version c) < 2 ^ 32" "- (2 ^ 63) \<le> cp_seq c" "cp_seq c < 2 ^ 63" for c
    using that by (simp add: checkpoint_of_json_def json_of_checkpoint_def as_u32_def as_i64_def jnat_def)
  have "rows_of_entries (map (\<lambda>(k, c). (k, json_of_checkpoint c)) rows) = Some rows"
    using assms
  proof (induction rows)
    case (Cons p rows)
    obtain k c where p: "p = (k, c)" by fastforce
    have "checkpoint_of_json (json_of_checkpoint c) = Some c"
      using Cons.prems [of k c] p by (intro one) simp_all
    moreover have "rows_of_entries (map (\<lambda>(k, c). (k, json_of_checkpoint c)) rows) = Some rows"
      by (rule Cons.IH) (meson Cons.prems list.set_intros(2))
    ultimately show ?case using p by simp
  qed simp
  then show ?thesis by (simp add: rows_of_json_def json_of_rows_def)
qed

context kv_store
begin

lemma saved_then_loaded:
  assumes "ok s" and "cache_save ops session rows s = (True, s1)" and "rows_of_json (json_of_rows rows) = Some rows"
    and "cache_load ops session s1 = (found, s2)"
  shows "found = rows \<or> found = []"
proof -
  obtain old where p: "kv_put ops s CACHE_TABLE session (json_of_rows rows) = (Inr old, s1)"
    using assms(2) by (auto simp: cache_save_def split: prod.splits sum.splits)
  note h = put_held [OF assms(1) p]
  obtain r s3 where g: "kv_get ops s1 CACHE_TABLE session = (r, s3)" by fastforce
  have "r = Inr (Some (json_of_rows rows)) \<or> (\<exists>x. r = Inl x)"
    using get_held [of s1 CACHE_TABLE session r s3] h g by (cases r) auto
  then show ?thesis using assms(3,4) g by (auto simp: cache_load_def)
qed

end

definition units_ok :: "projections \<Rightarrow> bool" where
  "units_ok us \<longleftrightarrow> distinct (map (\<lambda>h. pu_key (hu_unit h)) us) \<and> (\<forall>h\<in>set us. int (pu_version (hu_unit h)) < 2 ^ 32)"

lemma checkpoints_honest:
  assumes "units_ok us" and "seqs_contiguous es" and "int (length es) < 2 ^ 63"
    and "map_of (checkpoints (map (refold es) us)) k = Some row"
  shows "int (cp_version row) < 2 ^ 32 \<and> - (2 ^ 63) \<le> cp_seq row \<and> cp_seq row < 2 ^ 63
    \<and> (\<forall>h\<in>set us. pu_key (hu_unit h) = k \<longrightarrow> cell_folds (es @ later) (hu_unit h) (cp_seq row) (cp_state row))"
proof -
  have unit: "hu_unit (refold es h) = hu_unit h" for h by (simp add: refold_def)
  have d: "distinct (map (\<lambda>h. pu_key (hu_unit h)) (map (refold es) us))"
    using assms(1) by (simp add: units_ok_def comp_def unit)
  obtain g where g: "g \<in> set us" "pu_key (hu_unit g) = k"
    "row = \<lparr>cp_version = pu_version (hu_unit g), cp_seq = hu_seq (refold es g), cp_state = hu_state (refold es g)\<rparr>"
    using checkpoints_of [OF d assms(4)] unit by auto
  have same: "h = g" if "h \<in> set us" "pu_key (hu_unit h) = k" for h
    using assms(1) g(1,2) that by (auto simp: units_ok_def distinct_map inj_on_def)
  have fold: "\<forall>h\<in>set us. pu_key (hu_unit h) = k \<longrightarrow> cell_folds (es @ later) (hu_unit h) (cp_seq row) (cp_state row)"
    using same refold_cell [OF assms(2), of later g] g(3) by auto
  have "int (pu_version (hu_unit g)) < 2 ^ 32" using assms(1) g(1) unfolding units_ok_def by blast
  moreover have "cp_seq row = int (length es) - 1"
    using g(3) last_seq_contiguous [OF assms(2)] by (simp add: refold_def)
  ultimately show ?thesis using fold assms(3) g(3) by simp
qed

lemma checkpoints_wf: "om_wf (checkpoints us)"
proof -
  have "om_wf m \<Longrightarrow> om_wf (fold (\<lambda>h. om_insert (pu_key (hu_unit h)) \<lparr>cp_version = pu_version (hu_unit h), cp_seq = hu_seq h, cp_state = hu_state h\<rparr>) us m)" for m
    by (induction us arbitrary: m) (simp_all add: om_wf_insert)
  then show ?thesis by (simp add: checkpoints_def)
qed

lemma warm_refolds:
  assumes "units_ok us" and "seqs_contiguous (es @ later)" and "int (length es) < 2 ^ 63"
    and "found = checkpoints (map (refold es) us) \<or> found = []"
  shows "snd (restore_units found (es @ later) us) = map (refold (es @ later)) us"
proof (rule restore_refolds [OF assms(2)])
  fix h row
  assume h: "h \<in> set us" "map_of found (pu_key (hu_unit h)) = Some row"
  have c: "seqs_contiguous es" using seqs_contiguous_take [OF assms(2), of "length es"] by simp
  show "honest_row (es @ later) (hu_unit h) row"
    using assms(4) h checkpoints_honest [OF assms(1) c assms(3), of "pu_key (hu_unit h)" row later]
    by (auto simp: honest_row_def)
qed

lemma refolded_units: "units_ok (map (refold es) us) = units_ok us"
  by (simp add: units_ok_def comp_def refold_def)


definition count_unit :: projection_unit where
  "count_unit = \<lparr>pu_key = ''events'', pu_version = 1, pu_init = JInt 0,
     pu_apply = (\<lambda>j e. case j of JInt i \<Rightarrow> JInt (i + 1) | _ \<Rightarrow> j), pu_view = (\<lambda>j. j)\<rparr>"

definition count_cell :: held_unit where
  "count_cell = \<lparr>hu_unit = count_unit, hu_state = JInt 0, hu_seq = EMPTY_LOG\<rparr>"

definition nth_event :: "nat \<Rightarrow> session_event" where
  "nth_event n = \<lparr>ty = ''user/message'', seq = n, time = 0, data = JNull, source_event_seqs = None\<rparr>"

definition cache_file :: file_store where
  "cache_file = \<lparr>st_path = ''p'', st_tables = [(CACHE_TABLE, [])], st_file = fresh_file\<rparr>"

definition cache_db :: sqlite_store where
  "cache_db = \<lparr>sq_path = ''q'', sq_declared = [CACHE_TABLE], sq_connected = False, sq_db = None, sq_calls = []\<rparr>"

lemma cache_ok: "store_ok unary_codec cache_file" "sqlite_ok unary_codec cache_db"
proof -
  show "store_ok unary_codec cache_file"
    by (simp add: store_ok_def unary_codec_ok cache_file_def tables_ok_def om_wf_def fresh_file_def table_held_def fun_eq_iff)
  show "sqlite_ok unary_codec cache_db"
    by (simp add: sqlite_ok_def unary_codec_ok cache_db_def rows_of_def fun_eq_iff)
qed

lemma cache_saves:
  "\<exists>f1. cache_save (file_ops unary_codec) ''s'' rows cache_file = (True, f1)"
  "\<exists>s1. cache_save (sqlite_ops unary_codec) ''s'' rows cache_db = (True, s1)"
proof -
  have h: "file_healthy cache_file" "sqlite_healthy unary_codec cache_db"
    by (simp_all add: file_healthy_def cache_file_def fresh_file_def sqlite_healthy_def cache_db_def rows_decode_def rows_of_def)
  let ?q = "PutOne CACHE_TABLE ''s'' (json_of_rows rows)"
  obtain r f1 where f: "kv_request_step (file_ops unary_codec) cache_file ?q = (r, f1)" by fastforce
  obtain r' s1 where s: "kv_request_step (sqlite_ops unary_codec) cache_db ?q = (r', s1)" by fastforce
  have "\<exists>old. r = Inr old"
    using file_works.request_works [OF cache_ok(1) h(1) _ f]
    by (auto simp: valid_name_def name_byte_def file_ops_def cache_file_def)
  then show "\<exists>f1. cache_save (file_ops unary_codec) ''s'' rows cache_file = (True, f1)"
    using f by (auto simp: cache_save_def)
  have "\<exists>old. r' = Inr old"
    using sqlite_works.request_works [OF cache_ok(2) h(2) _ s]
    by (auto simp: valid_name_def name_byte_def sqlite_ops_def cache_db_def)
  then show "\<exists>s1. cache_save (sqlite_ops unary_codec) ''s'' rows cache_db = (True, s1)"
    using s by (auto simp: cache_save_def)
qed


section \<open>Where driving goes wrong\<close>

text \<open>
  A drive with a shorter log than the one before moves the watermark back over what was folded, and
  the next drive folds those events again: driving is safe only with logs that never shrink.
\<close>

lemma shorter_log_folds_twice:
  "let log = map nth_event [0, 1]; drive = (\<lambda>es us. snd (drive_units es us))
   in map hu_state (drive log (drive (take 1 log) (drive log [count_cell]))) = [JInt 3]"
  by code_simp

end
