(* ===== verification/Spec2Isabelle.thy ===== *)
theory Spec2Isabelle
  imports Jobs Schedules Plugins Provider_Call Script_Run Screen_Safety Sanitize File_Tools Presets Spill Query_Search
    Query_Aggregate Workflow Todos Skills Hook_Bridge Projections
begin

text \<open>
  A model of the core of tetanus, an agent harness written in Rust: a process that keeps a session
  as an append-only journal, asks a language model for the next step of a turn, runs the tools the
  model calls, and can be killed at any instant and resumed from the journal.

  \<^bold>\<open>The parts and how they meet.\<close>  Everything durable is a list of JSON lines whose newline is the
  commit.  \<^verbatim>\<open>crates/session\<close> keeps the session journal that way, \<^verbatim>\<open>crates/core/src/jobs.rs\<close> and
  \<^verbatim>\<open>schedule.rs\<close> their own logs.  \<^verbatim>\<open>crates/turn\<close> is the engine: it writes through the
  \<^verbatim>\<open>SessionLog\<close> trait and never reads anything but the log, so that the model's history
  (\<^verbatim>\<open>log.rs\<close>), the queue of waiting input (\<^verbatim>\<open>inbox.rs\<close>), the pruning and the summarising of the
  history (\<^verbatim>\<open>prune.rs\<close>, \<^verbatim>\<open>compaction.rs\<close>) and the repair of a crashed turn (\<^verbatim>\<open>repair.rs\<close>) are all
  functions of the events so far.  \<^verbatim>\<open>crates/core\<close> carries the composition: reversible effects
  (\<^verbatim>\<open>effects.rs\<close>), the typed event bus (\<^verbatim>\<open>events.rs\<close>) whose waterfall listeners decide approvals
  and wrap tool calls, and the plugin registry (\<^verbatim>\<open>registry.rs\<close>).

  \<^bold>\<open>Which theory models which part.\<close>
  \<^item> \<open>Prelude\<close>: UTF-8 strings, decimal text, the ordered map behind \<^verbatim>\<open>BTreeMap\<close>, list facts;
    \<open>Json_Value\<close>: \<^verbatim>\<open>serde_json::Value\<close> and its accessors.
  \<^item> \<open>Session_Log\<close>: the event record, the errors, and the trait as the locale \<open>session_log\<close> (and its
    extension \<open>working_log\<close>, a log whose appends succeed); \<open>Line_Store\<close>: writing one line and reading
    a file back, shared by the three journals; \<open>Journal\<close>: \<^verbatim>\<open>crates/session/src/lib.rs\<close>, which
    interprets both locales.
  \<^item> \<open>Jobs\<close> and \<open>Schedules\<close>: \<^verbatim>\<open>crates/core/src/jobs.rs\<close> and \<^verbatim>\<open>schedule.rs\<close>, the latter with 64-bit words.
  \<^item> \<open>Effects\<close>, \<open>Event_Bus\<close>, \<open>Plugins\<close>: \<^verbatim>\<open>crates/core/src/effects.rs\<close>, \<^verbatim>\<open>events.rs\<close>, \<^verbatim>\<open>registry.rs\<close>.
  \<^item> \<open>Turn_Log\<close>: \<^verbatim>\<open>crates/turn/src/log.rs\<close>, the surface rule of \<^verbatim>\<open>compaction.rs\<close>, \<^verbatim>\<open>tokens.rs\<close>;
    \<open>Compaction\<close>: \<^verbatim>\<open>prune.rs\<close> and \<^verbatim>\<open>compaction.rs\<close>; \<open>Turn_Repair\<close>: \<^verbatim>\<open>repair.rs\<close>; \<open>Inbox\<close>: \<^verbatim>\<open>inbox.rs\<close>.
  \<^item> \<open>Approval\<close>: \<^verbatim>\<open>approval.rs\<close> and \<^verbatim>\<open>interrupt.rs\<close>; \<open>Tools\<close>: \<^verbatim>\<open>tools.rs\<close>; \<open>Guards\<close>: \<^verbatim>\<open>guard.rs\<close>;
    \<open>Prompt\<close>: \<^verbatim>\<open>prompt.rs\<close> and \<^verbatim>\<open>context.rs\<close>; \<open>Llm\<close>: \<^verbatim>\<open>llm/mod.rs\<close>.
  \<^item> \<open>Floats\<close>: the doubles of the sources; \<open>Retry\<close>: \<^verbatim>\<open>llm/retry.rs\<close>.
  \<^item> \<open>Tool_Calls\<close>: the engine's composition and its tool pipeline (\<^verbatim>\<open>engine.rs\<close>), and
    \<open>Tool_Results\<close>, what the pipeline promises of the journal; \<open>Engine\<close>: the rest of \<^verbatim>\<open>engine.rs\<close>, a
    turn from its start to its end, \<open>Turn_Closes\<close>, that the journal of a turn is closed, and
    \<open>Provider_Call\<close>, that asking the provider ends.
  \<^item> \<open>Script_Lexer\<close>, \<open>Script_Parser\<close>, \<open>Script\<close>: the language of \<^verbatim>\<open>crates/coderuntime/src/local\<close>
    (\<^verbatim>\<open>program.rs\<close>, \<^verbatim>\<open>eval.rs\<close>); \<open>Script_Total\<close> and \<open>Script_Safety\<close>, that reading and running a
    program ends within its bounds; \<open>Script_Run\<close>: one run and the tool the model calls it through
    (\<^verbatim>\<open>mod.rs\<close>, \<^verbatim>\<open>types.rs\<close>, \<^verbatim>\<open>reserved.rs\<close>, \<^verbatim>\<open>tool.rs\<close>).
  \<^item> \<open>Screen\<close> and \<open>Sanitize\<close>: \<^verbatim>\<open>crates/exec/src/screen.rs\<close> and \<^verbatim>\<open>sanitize.rs\<close>, what a terminal shows
    and what it printed; \<open>Screen_Safety\<close>: that no output makes the screen index outside its grid.
  \<^item> \<open>Disk\<close>: the file system and the paths of the standard library; \<open>Utf8\<close>: characters and cuts;
    \<open>Fence\<close>: \<^verbatim>\<open>crates/turn/src/fs.rs\<close>; \<open>Glob\<close>, \<open>Files\<close>, \<open>File_Tools\<close>: \<^verbatim>\<open>crates/fs\<close> (\<^verbatim>\<open>glob.rs\<close>; the service
    with its two backends, \<^verbatim>\<open>service.rs\<close>, \<^verbatim>\<open>error.rs\<close>, \<^verbatim>\<open>access.rs\<close>, \<^verbatim>\<open>local.rs\<close>, \<^verbatim>\<open>sandbox.rs\<close>; and
    \<^verbatim>\<open>observation.rs\<close>, \<^verbatim>\<open>tools.rs\<close>); \<open>Files_Safety\<close>: what the backends promise of the disk;
    \<open>Presets\<close>: \<^verbatim>\<open>preset.rs\<close>; \<open>Spill\<close>: \<^verbatim>\<open>crates/core/src/spill.rs\<close>.
  \<^item> \<open>Goals\<close>: \<^verbatim>\<open>crates/features/src/goal.rs\<close>, the objective a session works toward; \<open>Todos\<close>: \<^verbatim>\<open>todo.rs\<close>
    and \<^verbatim>\<open>plan.rs\<close>, its task list and plan mode; \<open>Skills\<close>: \<^verbatim>\<open>skill.rs\<close>, the instruction files it may load.
  \<^item> \<open>Workflow\<close>: \<^verbatim>\<open>crates/turn/src/workflow.rs\<close>, a list of steps that survives a crash; \<open>Questions\<close>:
    \<^verbatim>\<open>crates/turn/src/questions.rs\<close>, what a session asks its user.
  \<^item> \<open>Query_Events\<close>, \<open>Query_Search\<close>, \<open>Query_Aggregate\<close>: \<^verbatim>\<open>crates/query\<close> over the known events of
    \<^verbatim>\<open>crates/protocol/src/types.rs\<close> and the pages of \<^verbatim>\<open>crates/engine/src/session.rs\<close>.
  \<^item> \<open>Hooks\<close> and \<open>Hook_Bridge\<close>: \<^verbatim>\<open>crates/hooks\<close>, the deployment's programs that are run at points of a turn
    and may refuse a call; the bridge's listeners stand on the chains of \<open>Tool_Calls\<close>.
  \<^item> \<open>Storage\<close>: the key-value seam of \<^verbatim>\<open>crates/core/src/storage\<close>, its contract as the locales \<open>kv_store\<close> and
    \<open>working_kv\<close>; \<open>Storage_File\<close> (\<^verbatim>\<open>json.rs\<close>) and \<open>Storage_Sqlite\<close> (\<^verbatim>\<open>sqlite.rs\<close>), which interpret both;
    \<open>Storage_Domain\<close> (\<^verbatim>\<open>domain.rs\<close>) and \<open>Projections\<close> (\<^verbatim>\<open>projection.rs\<close> and \<^verbatim>\<open>projection_cache.rs\<close> of
    \<^verbatim>\<open>crates/session\<close>), whose lemmas rest on the seam alone.

  \<^bold>\<open>How state is represented.\<close>  A struct is a record and an operation on \<^verbatim>\<open>&mut self\<close> is a function
  from the state to an answer and the next state; a fallible answer is a sum whose left side is the
  code's error.  What the code cannot decide itself is an argument: the clock, the outcome of
  each write (written, torn after some bytes, written but not synced), the other threads' stop
  requests, the executor's choice of the next call to progress, the JSON text codec.  The codec is
  assumed to read back what it wrote and to write no newline inside a line (\<open>codec_on\<close>).

  \<^bold>\<open>What the lemmas show.\<close>  The journals: a crash at any byte leaves a file that replays to a prefix
  of the acknowledged events, and the writes after which that stops being true.  Jobs and
  schedules: the state held in memory is the fold of the file, every job ends once, an occurrence is
  dispatched and then leaves the due set.  The history: appending an event extends the derived
  messages, pruning and compaction shrink them and touch nothing else.  Repair: a crashed turn is
  closed, every open question and call answered.  Approvals: no call passes an approval that was
  not answered with a grant, and every question is in the journal with its answer.  The pipeline:
  results stand in the model's order, each citing its call, whatever the executor's schedule.  The
  engine: a turn whose journal works is closed whichever way it ended, and a provider call asks a
  bounded number of times.  The code runtime: a program cannot loop past its budget, catch its own
  abort or print past the output cap, and every source is read to an answer.  The
  terminal: the screen keeps its shape, and where a read is cut does not change the sanitized text.
  The files: a fenced session changes and reads nothing outside its workspace whatever links it
  meets, a write is all or nothing, no call overwrites a version its session has not met, a glob
  and a search answer what their patterns say, and a payload too long to carry is stored whole.  Workflows,
  questions and features: no step completes twice however often a run is resumed, an answer that
  comes back covers every question, and no skill the author kept from the model is handed to it.
  Queries: the pages of a search together are the search, a call is paired with the last result of
  its id, and costs add up over turns.  Hooks: the most severe answer stands, a hook that exits
  with the blocking status refuses the call, and every run of one is on the record.  Storage: the
  file backend keeps what it accepted and only that, the two backends answer alike, what a domain
  announces is what it stored, no version reads another's records, and a cached fold of the journal
  is the fold of the journal.

  \<^bold>\<open>Bounds.\<close>  The depth-first visit of the plugins has fuel one more than their number, and
  \<open>start_order_correct\<close> shows that it is enough.  The pool of calls in flight has fuel seven times
  the number of calls plus one, and \<open>run_pool_ends\<close> shows that it never runs out.  The loop that
  mints a job id ends by the measure of taken ids above the candidate.  A turn's steps recurse on
  the steps it may still take, and a provider call on \<open>attempts\<close>, which \<open>retries_bounded\<close> bounds.  The
  parser has sixteen units of fuel a token and sixteen more (\<open>parse_total\<close>); the evaluator's loops
  count down from one above the fuel that is left, of which each iteration spends some
  (\<open>script_contained\<close>).

  \<^bold>\<open>Not modelled.\<close>  The provider adapters (HTTP and streaming formats of external services), the
  terminal front ends, the process tools, the web, MCP, ACP and RPC transports, the
  settings files and the operating system sandbox: I/O around the core.  Of the parts modelled,
  the parallel dispatch mode of the bus (its listeners interleave on the runtime and answer
  nothing), the scaling of a compaction budget and the date text of the context provider are left
  out.  Of the code runtime, the worker threads and the channels to the host are seen only through
  what a member answers and what the wait for the worker sees; the depth of the native stack is
  not modelled, nor is the remote backend.  A key-value medium is written by one store at a time, and a
  database call works or changes nothing.  A disk is one state a call sees from its start to its
  end: another program that moves a directory between a check and its use is outside the model.
\<close>

end
